(* ===== verification/Prelude.thy ===== *)
theory Prelude
  imports Main "HOL-Library.List_Lexorder" "HOL-Library.Char_ord" "HOL-Library.Product_Lexorder"
begin

text \<open>
  Shared vocabulary of the development: the ordered containers of the C++ standard library
  the engine stores its state in, and generic lemmas about them.

  A \<open>std::map\<close> is an association list kept in strictly ascending key order, so that an
  iteration over it is the list itself; \<open>om_insert\<close> is \<open>insert_or_assign\<close> (and
  \<open>operator[]\<close> followed by an assignment), \<open>om_emplace\<close> is \<open>emplace\<close> (which keeps an
  existing entry), \<open>om_erase\<close> is \<open>erase\<close> by key and lookup is \<open>map_of\<close>.
  A \<open>std::set\<close> is a strictly ascending list.
\<close>

named_theorems omap_simps \<open>lookup, insertion and removal on ordered maps and sets\<close>

section \<open>Ordered maps\<close>

type_synonym ('k, 'v) omap = "('k \<times> 'v) list"

definition om_sorted :: "('k::linorder, 'v) omap \<Rightarrow> bool" where
  "om_sorted m \<longleftrightarrow> sorted_wrt (<) (map fst m)"

fun om_insert :: "'k::linorder \<Rightarrow> 'v \<Rightarrow> ('k, 'v) omap \<Rightarrow> ('k, 'v) omap" where
  "om_insert k v [] = [(k, v)]"
| "om_insert k v ((k', v') # m) =
     (if k < k' then (k, v) # (k', v') # m
      else if k = k' then (k, v) # m
      else (k', v') # om_insert k v m)"

definition om_emplace :: "'k::linorder \<Rightarrow> 'v \<Rightarrow> ('k, 'v) omap \<Rightarrow> ('k, 'v) omap" where
  "om_emplace k v m = (if map_of m k = None then om_insert k v m else m)"

definition om_erase :: "'k \<Rightarrow> ('k, 'v) omap \<Rightarrow> ('k, 'v) omap" where
  "om_erase k m = filter (\<lambda>(k', v). k' \<noteq> k) m"

text \<open>Assigning through a pointer to an entry that is present (and nothing when it is not).\<close>

fun om_modify :: "'k \<Rightarrow> ('v \<Rightarrow> 'v) \<Rightarrow> ('k, 'v) omap \<Rightarrow> ('k, 'v) omap" where
  "om_modify k f [] = []"
| "om_modify k f ((k', v) # m) = (if k' = k then (k', f v) # m else (k', v) # om_modify k f m)"

lemma map_of_om_insert [simp, omap_simps]:
  "map_of (om_insert k v m) = (map_of m)(k \<mapsto> v)"
  by (induction k v m rule: om_insert.induct) (auto simp: fun_eq_iff)

lemma map_of_om_emplace [omap_simps]:
  "map_of (om_emplace k v m) = (if map_of m k = None then (map_of m)(k \<mapsto> v) else map_of m)"
  by (simp add: om_emplace_def)

lemma map_of_om_erase [simp, omap_simps]: "map_of (om_erase k m) = (map_of m)(k := None)"
  by (induction m) (auto simp: om_erase_def fun_eq_iff)

lemma map_of_om_modify [simp, omap_simps]:
  "map_of (om_modify k f m) j = (if j = k then map_option f (map_of m j) else map_of m j)"
  by (induction k f m rule: om_modify.induct) auto

lemma keys_om_insert [simp]: "fst ` set (om_insert k v m) = insert k (fst ` set m)"
  by (induction k v m rule: om_insert.induct) auto

lemma keys_om_modify [simp]: "map fst (om_modify k f m) = map fst m"
  by (induction k f m rule: om_modify.induct) auto

lemma keys_om_erase: "map fst (om_erase k m) = filter (\<lambda>k'. k' \<noteq> k) (map fst m)"
  by (induction m) (auto simp: om_erase_def)

lemma om_sorted_Nil [simp]: "om_sorted []"
  by (simp add: om_sorted_def)

lemma om_sorted_Cons:
  "om_sorted ((k, v) # m) \<longleftrightarrow> (\<forall>k' \<in> fst ` set m. k < k') \<and> om_sorted m"
  by (auto simp: om_sorted_def)

lemma om_sorted_insert [simp, intro]: "om_sorted m \<Longrightarrow> om_sorted (om_insert k v m)"
proof (induction k v m rule: om_insert.induct)
  case (2 k v k' v' m)
  then show ?case
    by (auto simp: om_sorted_Cons)
qed (simp add: om_sorted_def)

lemma om_sorted_modify [simp]: "om_sorted (om_modify k f m) = om_sorted m"
  by (simp add: om_sorted_def)

lemma om_sorted_erase [simp, intro]: "om_sorted m \<Longrightarrow> om_sorted (om_erase k m)"
  by (simp add: om_sorted_def keys_om_erase sorted_wrt_filter)

lemma om_sorted_emplace [simp, intro]: "om_sorted m \<Longrightarrow> om_sorted (om_emplace k v m)"
  by (simp add: om_emplace_def)

lemma om_sorted_distinct: "om_sorted m \<Longrightarrow> distinct (map fst m)"
  by (simp add: om_sorted_def strict_sorted_iff)

lemma map_of_mem: "om_sorted m \<Longrightarrow> (k, v) \<in> set m \<longleftrightarrow> map_of m k = Some v"
  using map_of_eq_Some_iff [OF om_sorted_distinct] by fast

lemma om_erase_unfold [simp]: "om_erase k [] = []"
  "om_erase k ((k', v) # m) = (if k' = k then om_erase k m else (k', v) # om_erase k m)"
  by (simp_all add: om_erase_def)

section \<open>Ordered sets\<close>

fun os_insert :: "'a::linorder \<Rightarrow> 'a list \<Rightarrow> 'a list" where
  "os_insert x [] = [x]"
| "os_insert x (y # ys) = (if x < y then x # y # ys else if x = y then y # ys else y # os_insert x ys)"

definition os_erase :: "'a \<Rightarrow> 'a list \<Rightarrow> 'a list" where
  "os_erase x xs = filter (\<lambda>y. y \<noteq> x) xs"

lemma set_os_insert [simp, omap_simps]: "set (os_insert x xs) = insert x (set xs)"
  by (induction x xs rule: os_insert.induct) auto

lemma set_os_erase [simp, omap_simps]: "set (os_erase x xs) = set xs - {x}"
  by (auto simp: os_erase_def)

lemma os_sorted_insert [simp, intro]: "sorted_wrt (<) xs \<Longrightarrow> sorted_wrt (<) (os_insert x xs)"
  by (induction x xs rule: os_insert.induct) auto

lemma os_sorted_erase [simp, intro]: "sorted_wrt (<) xs \<Longrightarrow> sorted_wrt (<) (os_erase x xs)"
  by (simp add: os_erase_def sorted_wrt_filter)

lemma os_erase_unfold [simp]: "os_erase x [] = []"
  "os_erase x (y # ys) = (if y = x then os_erase x ys else y # os_erase x ys)"
  by (simp_all add: os_erase_def)

text \<open>
  Building the ordered set of a sequence: the \<open>sort\<close> and \<open>unique\<close> of a scratch vector, and
  the insertion of a range into a set.
\<close>

definition os_of_list :: "'a::linorder list \<Rightarrow> 'a list" where
  "os_of_list xs = fold os_insert xs []"

lemma fold_os_insert: "set (fold os_insert xs ys) = set xs \<union> set ys"
  by (induction xs arbitrary: ys) auto

lemma fold_os_insert_sorted: "sorted_wrt (<) ys \<Longrightarrow> sorted_wrt (<) (fold os_insert xs ys)"
  by (induction xs arbitrary: ys) auto

lemma set_os_of_list [simp]: "set (os_of_list xs) = set xs"
  by (simp add: os_of_list_def fold_os_insert)

lemma os_of_list_sorted [simp]: "sorted_wrt (<) (os_of_list xs)"
  by (simp add: os_of_list_def fold_os_insert_sorted)

section \<open>The keyed-store interface\<close>

text \<open>
  What the clients of \<open>std::map\<close> rely on: lookups after insertions and removals, and the
  order invariant that every operation keeps. The service registry, the context bindings and
  the listener registry are written against these laws.
\<close>

locale keyed_store =
  fixes lookup :: "'m \<Rightarrow> 'k \<Rightarrow> 'v option"
    and insert_or_assign :: "'k \<Rightarrow> 'v \<Rightarrow> 'm \<Rightarrow> 'm"
    and erase :: "'k \<Rightarrow> 'm \<Rightarrow> 'm"
    and ordered :: "'m \<Rightarrow> bool"
  assumes lookup_insert: "lookup (insert_or_assign k v m) j = (if j = k then Some v else lookup m j)"
    and lookup_erase: "lookup (erase k m) j = (if j = k then None else lookup m j)"
    and ordered_insert: "ordered m \<Longrightarrow> ordered (insert_or_assign k v m)"
    and ordered_erase: "ordered m \<Longrightarrow> ordered (erase k m)"
begin

lemma insert_visible: "lookup (insert_or_assign k v m) k = Some v"
  by (simp add: lookup_insert)

lemma erase_absent: "lookup (erase k m) k = None"
  by (simp add: lookup_erase)

lemma erase_idempotent: "lookup (erase k (erase k m)) = lookup (erase k m)"
  by (rule ext) (simp add: lookup_erase)

lemma insert_insert_same: "lookup (insert_or_assign k v (insert_or_assign k w m)) = lookup (insert_or_assign k v m)"
  by (rule ext) (simp add: lookup_insert)

lemma erase_insert: "lookup m k = None \<Longrightarrow> lookup (erase k (insert_or_assign k v m)) = lookup m"
  by (rule ext) (simp add: lookup_insert lookup_erase)

lemma fold_insert_lookup_other:
  "k \<notin> fst ` set kvs \<Longrightarrow> lookup (fold (\<lambda>(k, v). insert_or_assign k v) kvs m) k = lookup m k"
  by (induction kvs arbitrary: m) (auto simp: lookup_insert)

lemma fold_insert_ordered:
  "ordered m \<Longrightarrow> ordered (fold (\<lambda>(k, v). insert_or_assign k v) kvs m)"
  by (induction kvs arbitrary: m) (auto simp: ordered_insert)

lemma fold_insert_lookup:
  "lookup (fold (\<lambda>(k, v). insert_or_assign k v) kvs m) k =
     (case map_of (rev kvs) k of None \<Rightarrow> lookup m k | Some v \<Rightarrow> Some v)"
  by (induction kvs arbitrary: m) (auto simp: lookup_insert map_add_def split: option.splits)

end

interpretation std_map: keyed_store "map_of :: ('k::linorder \<times> 'v) list \<Rightarrow> 'k \<Rightarrow> 'v option"
  om_insert om_erase om_sorted
  by unfold_locales auto

section \<open>Generic list lemmas\<close>

lemma sum_list_map_modify:
  fixes g :: "'a \<Rightarrow> nat"
  assumes "map_of m k = Some v"
  shows "sum_list (map (g \<circ> snd) (om_modify k f m)) + g v = sum_list (map (g \<circ> snd) m) + g (f v)"
  using assms by (induction k f m rule: om_modify.induct) (auto simp: add.assoc)

lemma sum_list_map_erase_le:
  fixes g :: "'a \<Rightarrow> nat"
  shows "sum_list (map (g \<circ> snd) (om_erase k m)) \<le> sum_list (map (g \<circ> snd) m)"
  by (induction m) (auto simp: om_erase_def)

lemma om_modify_comp: "om_modify k g (om_modify k f m) = om_modify k (g \<circ> f) m"
  by (induction k f m rule: om_modify.induct) auto

lemma om_modify_cong_first:
  "map_of m k = Some v \<Longrightarrow> f v = g v \<Longrightarrow> om_modify k f m = om_modify k g m"
  by (induction k f m rule: om_modify.induct) (auto split: if_splits)

lemma om_modify_absent: "map_of m k = None \<Longrightarrow> om_modify k f m = m"
  by (induction k f m rule: om_modify.induct) (auto split: if_splits)

section \<open>Decimal numbers\<close>

text \<open>\<open>std::to_string\<close> of an unsigned number.\<close>

definition digit_char :: "nat \<Rightarrow> char" where
  "digit_char d = char_of (48 + d)"

fun show_nat :: "nat \<Rightarrow> string" where
  "show_nat n = (if n < 10 then [digit_char n] else show_nat (n div 10) @ [digit_char (n mod 10)])"

declare show_nat.simps [simp del]

definition digit_value :: "char \<Rightarrow> nat" where
  "digit_value c = of_char c - 48"

definition read_nat :: "string \<Rightarrow> nat" where
  "read_nat s = foldl (\<lambda>n c. 10 * n + digit_value c) 0 s"

lemma digit_value_char [simp]: "d < 10 \<Longrightarrow> digit_value (digit_char d) = d"
  by (simp add: digit_value_def digit_char_def)

lemma read_show_nat [simp]: "read_nat (show_nat n) = n"
proof (induction n rule: show_nat.induct)
  case (1 n)
  show ?case
  proof (cases "n < 10")
    case True
    then show ?thesis by (subst show_nat.simps) (simp add: read_nat_def)
  next
    case False
    with 1 have "read_nat (show_nat (n div 10)) = n div 10" by simp
    with False show ?thesis by (subst show_nat.simps) (simp add: read_nat_def)
  qed
qed

lemma show_nat_inject: "show_nat m = show_nat n \<Longrightarrow> m = n"
  by (metis read_show_nat)

definition is_digit :: "char \<Rightarrow> bool" where
  "is_digit c \<longleftrightarrow> (48::nat) \<le> of_char c \<and> (of_char c :: nat) \<le> 57"

lemma is_digit_char [simp]: "d < 10 \<Longrightarrow> is_digit (digit_char d)"
  by (simp add: is_digit_def digit_char_def)

lemma show_nat_digits: "\<forall>c \<in> set (show_nat n). is_digit c"
proof (induction n rule: show_nat.induct)
  case (1 n)
  then show ?case by (subst show_nat.simps) auto
qed

section \<open>Computations with exceptions\<close>

definition and_sum :: "'e + 'a \<Rightarrow> ('a \<Rightarrow> 'e + 'b) \<Rightarrow> 'e + 'b" where
  "and_sum x f = (case x of Inl e \<Rightarrow> Inl e | Inr a \<Rightarrow> f a)"

fun fold_sum :: "('x \<Rightarrow> 'a \<Rightarrow> 'e + 'a) \<Rightarrow> 'x list \<Rightarrow> 'a \<Rightarrow> 'e + 'a" where
  "fold_sum f [] a = Inr a"
| "fold_sum f (x # xs) a = and_sum (f x a) (fold_sum f xs)"

named_theorems success_iff \<open>when a computation with exceptions returns\<close>

lemma and_sum_success [success_iff]: "and_sum x f = Inr b \<longleftrightarrow> (\<exists>a. x = Inr a \<and> f a = Inr b)"
  by (auto simp: and_sum_def split: sum.split)

lemma and_sum_Inr [simp]: "and_sum (Inr a) f = f a"
  by (simp add: and_sum_def)

lemma fold_sum_invariant:
  assumes "fold_sum f xs a = Inr b" and "P a" and "\<And>x a b. x \<in> set xs \<Longrightarrow> f x a = Inr b \<Longrightarrow> P a \<Longrightarrow> P b"
  shows "P b"
  using assms by (induction xs arbitrary: a) (auto simp: success_iff)

end
