(* ===== verification/Service.thy ===== *)
theory Service
  imports Prelude
begin

text \<open>
  The vocabulary of bindings (\<open>include/araya/service.hpp\<close>, \<open>fiber_handle.hpp\<close>): service
  identities with their ordering, the provider lifecycle of a binding, and the fiber lifecycle.
  Fiber ids, context ids and the identity of a published object are natural numbers; a null
  \<open>shared_ptr\<close> is \<open>None\<close>.
\<close>

section \<open>Service identities\<close>

datatype service_id = ServiceId (sid_name: string) (sid_version: nat)

text \<open>\<open>transparent_id_less::less\<close>: by name, then by version.\<close>

definition id_less :: "string \<Rightarrow> nat \<Rightarrow> string \<Rightarrow> nat \<Rightarrow> bool" where
  "id_less a av b bv = (if a \<noteq> b then a < b else av < bv)"

instantiation service_id :: linorder
begin

definition less_service_id :: "service_id \<Rightarrow> service_id \<Rightarrow> bool" where
  "less_service_id a b = id_less (sid_name a) (sid_version a) (sid_name b) (sid_version b)"

definition less_eq_service_id :: "service_id \<Rightarrow> service_id \<Rightarrow> bool" where
  "less_eq_service_id a b \<longleftrightarrow> a = b \<or> a < b"

instance
proof
  fix x y z :: service_id
  show "(x < y) = (x \<le> y \<and> \<not> y \<le> x)"
    by (cases x; cases y) (auto simp: less_service_id_def less_eq_service_id_def id_less_def)
  show "x \<le> x"
    by (simp add: less_eq_service_id_def)
  show "x \<le> z" if "x \<le> y" "y \<le> z"
    using that
    by (cases x; cases y; cases z)
       (auto simp: less_service_id_def less_eq_service_id_def id_less_def split: if_splits)
  show "x = y" if "x \<le> y" "y \<le> x"
    using that
    by (cases x; cases y)
       (auto simp: less_service_id_def less_eq_service_id_def id_less_def split: if_splits)
  show "x \<le> y \<or> y \<le> x"
    by (cases x; cases y) (auto simp: less_service_id_def less_eq_service_id_def id_less_def)
qed

end

text \<open>\<open>service_metadata\<close> is a string map.\<close>

type_synonym service_metadata = "(string, string) omap"

section \<open>Lifecycles\<close>

datatype provider_state = PLoading | PActive | PRetiring

datatype fiber_state = Inactive | Loading | Active | Unloading

type_synonym fiber_id = nat

record binding =
  bvalue :: "nat option"
  bprovider :: fiber_id
  bstate :: provider_state
  bavailable :: bool

text \<open>A component's declared dependency: the key, whether it is required, its metadata.\<close>

record dependency_spec =
  dep_key :: service_id
  dep_required :: bool
  dep_metadata :: service_metadata

lemma id_less_irrefl [simp]: "\<not> id_less a v a v"
  by (simp add: id_less_def)

lemma service_id_less_iff:
  "ServiceId a av < ServiceId b bv \<longleftrightarrow> (a < b \<or> a = b \<and> av < bv)"
  by (auto simp: less_service_id_def id_less_def)

end
