(* ===== verification/Scope.thy ===== *)
theory Scope
  imports Service
begin

text \<open>
  The scoped binding tree (\<open>include/araya/context.hpp\<close>, \<open>src/context.cpp\<close>). Contexts are
  shared mutable objects that point at their parent, so they live in a store: the context with
  id \<open>i\<close> is the \<open>i\<close>-th one created. A context is built over a context that exists already
  (\<open>store_wf\<close>), so its parent has a smaller id and the parent walk ends; the guard
  \<open>p < i\<close> in \<open>chain\<close> is that fact, and \<open>chain_parent\<close> shows it never cuts a walk short in a
  store built by the operations.

  A binding is stored under (name, version, realm): \<open>binding_key\<close> is the service id with the
  realm, in the lexicographic order of \<open>binding_key::operator<\<close>.
\<close>

type_synonym ctx_id = nat
type_synonym realm = string
type_synonym binding_key = "service_id \<times> realm"

record scope =
  sc_parent :: "ctx_id option"
  sc_pass_through :: bool
  sc_bindings :: "(binding_key, binding) omap"
  sc_realms :: "(service_id, realm) omap"
  sc_metadata :: "(service_id, service_metadata) omap"

type_synonym store = "scope list"

definition scope_key :: "service_id \<Rightarrow> realm \<Rightarrow> binding_key" where
  "scope_key k r = (k, r)"

definition empty_scope :: "ctx_id option \<Rightarrow> bool \<Rightarrow> scope" where
  "empty_scope p pass = \<lparr>sc_parent = p, sc_pass_through = pass,
     sc_bindings = [], sc_realms = [], sc_metadata = []\<rparr>"

text \<open>\<open>context::root\<close>, the constructor over a parent, and \<open>make_child\<close>.\<close>

definition make_root :: "store \<Rightarrow> store \<times> ctx_id" where
  "make_root cs = (cs @ [empty_scope None False], length cs)"

definition make_context :: "ctx_id \<Rightarrow> bool \<Rightarrow> store \<Rightarrow> store \<times> ctx_id" where
  "make_context p pass cs = (cs @ [empty_scope (Some p) pass], length cs)"

definition make_child :: "ctx_id \<Rightarrow> store \<Rightarrow> store \<times> ctx_id" where
  "make_child p cs = make_context p False cs"

definition update_scope :: "ctx_id \<Rightarrow> (scope \<Rightarrow> scope) \<Rightarrow> store \<Rightarrow> store" where
  "update_scope i f cs = (if i < length cs then cs[i := f (cs ! i)] else cs)"

section \<open>The parent chain\<close>

definition parent_of :: "store \<Rightarrow> ctx_id \<Rightarrow> ctx_id option" where
  "parent_of cs i = (if i < length cs then
     (case sc_parent (cs ! i) of None \<Rightarrow> None | Some p \<Rightarrow> if p < i then Some p else None) else None)"

lemma parent_of_less: "parent_of cs i = Some p \<Longrightarrow> p < i"
  by (auto simp: parent_of_def split: if_splits option.splits)

function chain :: "store \<Rightarrow> ctx_id \<Rightarrow> ctx_id list" where
  "chain cs i = i # (case parent_of cs i of None \<Rightarrow> [] | Some p \<Rightarrow> chain cs p)"
  by pat_completeness auto
termination
  by (relation "measure snd") (auto dest: parent_of_less)

declare chain.simps [simp del]

lemma chain_rec: "chain cs i = i # (case parent_of cs i of None \<Rightarrow> [] | Some p \<Rightarrow> chain cs p)"
  by (rule chain.simps)

definition store_wf :: "store \<Rightarrow> bool" where
  "store_wf cs \<longleftrightarrow> (\<forall>i < length cs. \<forall>p. sc_parent (cs ! i) = Some p \<longrightarrow> p < i)"

section \<open>Realms, lookups and bindings\<close>

definition isolate :: "ctx_id \<Rightarrow> service_id \<Rightarrow> realm \<Rightarrow> store \<Rightarrow> store" where
  "isolate i k r = update_scope i (\<lambda>c. c\<lparr>sc_realms := om_insert k r (sc_realms c)\<rparr>)"

definition unisolate :: "ctx_id \<Rightarrow> service_id \<Rightarrow> store \<Rightarrow> store" where
  "unisolate i k = update_scope i (\<lambda>c. c\<lparr>sc_realms := om_erase k (sc_realms c)\<rparr>)"

text \<open>The first entry found along a chain: the shape of every lookup of the class.\<close>

fun first_in :: "(ctx_id \<Rightarrow> 'a option) \<Rightarrow> ctx_id list \<Rightarrow> (ctx_id \<times> 'a) option" where
  "first_in f [] = None"
| "first_in f (i # is) = (case f i of Some a \<Rightarrow> Some (i, a) | None \<Rightarrow> first_in f is)"

definition scope_at :: "store \<Rightarrow> ctx_id \<Rightarrow> scope" where
  "scope_at cs i = (if i < length cs then cs ! i else empty_scope None False)"

definition realm_for :: "store \<Rightarrow> ctx_id \<Rightarrow> service_id \<Rightarrow> realm" where
  "realm_for cs i k =
     (case first_in (\<lambda>c. map_of (sc_realms (scope_at cs c)) k) (chain cs i) of
        Some (_, r) \<Rightarrow> r
      | None \<Rightarrow> '''')"

text \<open>
  \<open>lookup_realm\<close> returns a pointer into the scope that holds the binding, so the model returns
  that scope's id with the binding; \<open>lookup_mutable\<close> is the same walk, and \<open>write_binding\<close> is
  the assignment through its result.
\<close>

definition lookup_slot :: "store \<Rightarrow> ctx_id \<Rightarrow> service_id \<Rightarrow> realm \<Rightarrow> (ctx_id \<times> binding) option" where
  "lookup_slot cs i k r =
     first_in (\<lambda>c. map_of (sc_bindings (scope_at cs c)) (scope_key k r)) (chain cs i)"

definition lookup_realm :: "store \<Rightarrow> ctx_id \<Rightarrow> service_id \<Rightarrow> realm \<Rightarrow> binding option" where
  "lookup_realm cs i k r = map_option snd (lookup_slot cs i k r)"

definition lookup :: "store \<Rightarrow> ctx_id \<Rightarrow> service_id \<Rightarrow> binding option" where
  "lookup cs i k = lookup_realm cs i k (realm_for cs i k)"

definition lookup_mutable :: "store \<Rightarrow> ctx_id \<Rightarrow> service_id \<Rightarrow> (ctx_id \<times> binding) option" where
  "lookup_mutable cs i k = lookup_slot cs i k (realm_for cs i k)"

definition write_binding ::
  "ctx_id \<Rightarrow> service_id \<Rightarrow> realm \<Rightarrow> (binding \<Rightarrow> binding) \<Rightarrow> store \<Rightarrow> store" where
  "write_binding c k r f =
     update_scope c (\<lambda>sc. sc\<lparr>sc_bindings := om_modify (scope_key k r) f (sc_bindings sc)\<rparr>)"

text \<open>
  \<open>bind_realm\<close> asserts a non-null value and a provider (\<open>bind_asserts\<close> lists what is violated),
  then stores the binding in the nearest scope of the chain that does not pass bindings through;
  \<open>unbind_realm\<close> forwards in the same way. A pass-through scope without a parent would be a null
  dereference, which is \<open>None\<close>; \<open>bind_defined\<close> shows the stores the runtime builds have none.
\<close>

function bind_target :: "store \<Rightarrow> ctx_id \<Rightarrow> ctx_id option" where
  "bind_target cs i =
     (if sc_pass_through (scope_at cs i)
      then (case parent_of cs i of None \<Rightarrow> None | Some p \<Rightarrow> bind_target cs p)
      else Some i)"
  by pat_completeness auto
termination
  by (relation "measure snd") (auto dest: parent_of_less)

declare bind_target.simps [simp del]

definition bind_realm :: "ctx_id \<Rightarrow> service_id \<Rightarrow> realm \<Rightarrow> binding \<Rightarrow> store \<Rightarrow> store option" where
  "bind_realm i k r b cs =
     (case bind_target cs i of
        None \<Rightarrow> None
      | Some t \<Rightarrow> Some (update_scope t
          (\<lambda>sc. sc\<lparr>sc_bindings := om_insert (scope_key k r) b (sc_bindings sc)\<rparr>) cs))"

definition bind_asserts :: "binding \<Rightarrow> string list" where
  "bind_asserts b =
     (if bvalue b = None then [''b.value != nullptr''] else []) @
     (if bprovider b = 0 then [''b.provider != 0''] else [])"

definition bind_service :: "ctx_id \<Rightarrow> service_id \<Rightarrow> binding \<Rightarrow> store \<Rightarrow> store option" where
  "bind_service i k b cs = bind_realm i k (realm_for cs i k) b cs"

definition unbind_realm :: "ctx_id \<Rightarrow> service_id \<Rightarrow> realm \<Rightarrow> store \<Rightarrow> store" where
  "unbind_realm i k r cs =
     (case bind_target cs i of
        None \<Rightarrow> cs
      | Some t \<Rightarrow> update_scope t (\<lambda>sc. sc\<lparr>sc_bindings := om_erase (scope_key k r) (sc_bindings sc)\<rparr>) cs)"

definition unbind :: "ctx_id \<Rightarrow> service_id \<Rightarrow> store \<Rightarrow> store" where
  "unbind i k cs = unbind_realm i k (realm_for cs i k) cs"

definition set_metadata :: "ctx_id \<Rightarrow> service_id \<Rightarrow> service_metadata \<Rightarrow> store \<Rightarrow> store" where
  "set_metadata i k md = update_scope i (\<lambda>c. c\<lparr>sc_metadata := om_insert k md (sc_metadata c)\<rparr>)"

definition overlay :: "service_metadata \<Rightarrow> service_metadata \<Rightarrow> service_metadata" where
  "overlay base over = fold (\<lambda>(k, v). om_insert k v) over base"

definition metadata_for :: "store \<Rightarrow> ctx_id \<Rightarrow> service_id \<Rightarrow> service_metadata" where
  "metadata_for cs i k =
     fold (\<lambda>c merged. case map_of (sc_metadata (scope_at cs c)) k of
                         Some md \<Rightarrow> overlay merged md
                       | None \<Rightarrow> merged) (rev (chain cs i)) []"

text \<open>\<open>scope_on_chain\<close> of \<open>src/runtime.cpp\<close>: is the probed scope visible from this one?\<close>

definition scope_on_chain :: "store \<Rightarrow> ctx_id \<Rightarrow> ctx_id \<Rightarrow> bool" where
  "scope_on_chain cs probe i \<longleftrightarrow> probe \<in> set (chain cs i)"

text \<open>\<open>plugin_context::root\<close>: walk to the top of the scope chain.\<close>

definition root_of :: "store \<Rightarrow> ctx_id \<Rightarrow> ctx_id" where
  "root_of cs i = last (chain cs i)"


section \<open>Structure of the store\<close>

lemma chain_neq_Nil [simp]: "chain cs i \<noteq> []"
  by (subst chain.simps) simp

lemma hd_chain [simp]: "hd (chain cs i) = i"
  by (subst chain.simps) simp

lemma self_in_chain [simp]: "i \<in> set (chain cs i)"
  by (subst chain.simps) simp

text \<open>In a well-formed store the walk follows the parent pointers exactly.\<close>

lemma chain_parent:
  assumes "store_wf cs" and "i < length cs"
  shows "chain cs i = i # (case sc_parent (cs ! i) of None \<Rightarrow> [] | Some p \<Rightarrow> chain cs p)"
  using assms by (subst chain.simps) (auto simp: parent_of_def store_wf_def split: option.splits)

lemma chain_le: "j \<in> set (chain cs i) \<Longrightarrow> j \<le> i"
proof (induction cs i rule: chain.induct)
  case (1 cs i)
  show ?case
  proof (cases "parent_of cs i")
    case None
    with 1 show ?thesis by (simp add: chain_rec [of cs i])
  next
    case (Some p)
    with 1 parent_of_less [OF Some] show ?thesis by (fastforce simp: chain_rec [of cs i])
  qed
qed

lemma chain_distinct: "distinct (chain cs i)"
proof (induction cs i rule: chain.induct)
  case (1 cs i)
  show ?case
  proof (cases "parent_of cs i")
    case None
    then show ?thesis by (simp add: chain_rec [of cs i])
  next
    case (Some p)
    with 1 parent_of_less [OF Some] show ?thesis
      by (auto simp: chain_rec [of cs i] dest: chain_le)
  qed
qed

text \<open>Visibility is transitive: the chain of an ancestor is the rest of the chain.\<close>

lemma chain_suffix: "j \<in> set (chain cs i) \<Longrightarrow> \<exists>pre. chain cs i = pre @ chain cs j"
proof (induction cs i rule: chain.induct)
  case (1 cs i)
  show ?case
  proof (cases "j = i")
    case True
    then show ?thesis by (intro exI [of _ "[]"]) simp
  next
    case False
    from 1(2) False have "\<exists>p. parent_of cs i = Some p \<and> j \<in> set (chain cs p)"
      by (cases "parent_of cs i") (simp_all add: chain_rec [of cs i])
    then obtain p where p: "parent_of cs i = Some p" and "j \<in> set (chain cs p)" by blast
    with 1(1) obtain pre where "chain cs p = pre @ chain cs j" by blast
    with p have "chain cs i = (i # pre) @ chain cs j" by (simp add: chain_rec [of cs i])
    then show ?thesis by blast
  qed
qed

lemma scope_on_chain_trans:
  "scope_on_chain cs a b \<Longrightarrow> scope_on_chain cs b c \<Longrightarrow> scope_on_chain cs a c"
  unfolding scope_on_chain_def by (auto dest: chain_suffix)

lemma length_update_scope [simp]: "length (update_scope i f cs) = length cs"
  by (simp add: update_scope_def)

lemma scope_at_update [simp]:
  "scope_at (update_scope i f cs) j = (if j = i \<and> i < length cs then f (scope_at cs i) else scope_at cs j)"
  by (simp add: update_scope_def scope_at_def)

lemma parent_of_update:
  assumes "\<And>c. sc_parent (f c) = sc_parent c"
  shows "parent_of (update_scope i f cs) j = parent_of cs j"
  using assms by (auto simp: update_scope_def parent_of_def nth_list_update)

lemma chain_cong:
  assumes "\<And>j. parent_of cs j = parent_of cs' j"
  shows "chain cs i = chain cs' i"
proof (induction i rule: less_induct)
  case (less i)
  show ?case
  proof (cases "parent_of cs i")
    case None
    then show ?thesis by (simp add: chain_rec [of cs i] chain_rec [of cs' i] assms [symmetric])
  next
    case (Some p)
    from less [OF parent_of_less [OF Some]] have "chain cs p = chain cs' p" .
    with Some show ?thesis by (simp add: chain_rec [of cs i] chain_rec [of cs' i] assms [symmetric])
  qed
qed

lemma chain_update:
  assumes "\<And>c. sc_parent (f c) = sc_parent c"
  shows "chain (update_scope i f cs) j = chain cs j"
  by (rule chain_cong) (rule parent_of_update [of f, OF assms])

lemma store_wf_update:
  assumes "\<And>c. sc_parent (f c) = sc_parent c" and "store_wf cs"
  shows "store_wf (update_scope i f cs)"
  using assms by (auto simp: store_wf_def update_scope_def nth_list_update)

text \<open>Every operation that only touches the maps of a scope leaves the tree alone.\<close>

lemma chain_ops [simp]:
  "chain (isolate i k r cs) j = chain cs j"
  "chain (unisolate i k cs) j = chain cs j"
  "chain (write_binding c k r f cs) j = chain cs j"
  "chain (unbind_realm i k r cs) j = chain cs j"
  "chain (set_metadata i k md cs) j = chain cs j"
  by (simp_all add: isolate_def unisolate_def write_binding_def unbind_realm_def set_metadata_def
        chain_update split: option.splits)

lemma chain_bind: "bind_realm i k r b cs = Some cs' \<Longrightarrow> chain cs' j = chain cs j"
  by (auto simp: bind_realm_def chain_update split: if_splits option.splits)

lemma store_wf_make_context:
  "store_wf cs \<Longrightarrow> p < length cs \<Longrightarrow> store_wf (fst (make_context p pass cs))"
  by (auto simp: store_wf_def make_context_def empty_scope_def nth_append)

lemma store_wf_make_root: "store_wf cs \<Longrightarrow> store_wf (fst (make_root cs))"
  by (auto simp: store_wf_def make_root_def empty_scope_def nth_append)

lemma store_wf_ops:
  "store_wf cs \<Longrightarrow> store_wf (isolate i k r cs)"
  "store_wf cs \<Longrightarrow> store_wf (unisolate i k cs)"
  "store_wf cs \<Longrightarrow> store_wf (write_binding c k r f cs)"
  "store_wf cs \<Longrightarrow> store_wf (unbind_realm i k r cs)"
  "store_wf cs \<Longrightarrow> store_wf (set_metadata i k md cs)"
  by (simp_all add: isolate_def unisolate_def write_binding_def unbind_realm_def set_metadata_def
        store_wf_update split: option.splits)

lemma store_wf_bind: "store_wf cs \<Longrightarrow> bind_realm i k r b cs = Some cs' \<Longrightarrow> store_wf cs'"
  by (auto simp: bind_realm_def store_wf_update split: if_splits option.splits)

section \<open>Lookups\<close>

lemma first_in_append:
  "first_in f (xs @ ys) = (case first_in f xs of None \<Rightarrow> first_in f ys | Some r \<Rightarrow> Some r)"
  by (induction xs) (auto split: option.splits)

lemma first_in_None: "(\<And>x. x \<in> set xs \<Longrightarrow> f x = None) \<Longrightarrow> first_in f xs = None"
  by (induction xs) auto

lemma first_in_cong: "(\<And>x. x \<in> set xs \<Longrightarrow> f x = g x) \<Longrightarrow> first_in f xs = first_in g xs"
  by (induction xs) (auto split: option.splits)

lemma first_in_SomeD: "first_in f xs = Some (i, a) \<Longrightarrow> i \<in> set xs \<and> f i = Some a"
  by (induction xs) (auto split: option.splits)

text \<open>The target of a bind lies on the chain, behind pass-through scopes only.\<close>

lemma bind_target_split:
  "bind_target cs i = Some t \<Longrightarrow>
     \<exists>pre. chain cs i = pre @ chain cs t \<and> (\<forall>j \<in> set pre. sc_pass_through (scope_at cs j)) \<and>
           \<not> sc_pass_through (scope_at cs t)"
proof (induction cs i rule: bind_target.induct)
  case (1 cs i)
  show ?case
  proof (cases "sc_pass_through (scope_at cs i)")
    case False
    with 1(2) show ?thesis by (intro exI [of _ "[]"]) (simp add: bind_target.simps [of cs i])
  next
    case True
    with 1(2) obtain p where p: "parent_of cs i = Some p" and t: "bind_target cs p = Some t"
      by (auto simp: bind_target.simps [of cs i] split: option.splits)
    from 1(1) [OF True p t] obtain pre where
      "chain cs p = pre @ chain cs t" "\<forall>j \<in> set pre. sc_pass_through (scope_at cs j)"
      "\<not> sc_pass_through (scope_at cs t)" by blast
    with True p show ?thesis
      by (intro exI [of _ "i # pre"]) (simp add: chain_rec [of cs i])
  qed
qed

text \<open>Pass-through scopes hold no bindings of their own.\<close>

definition pass_empty :: "store \<Rightarrow> bool" where
  "pass_empty cs \<longleftrightarrow> (\<forall>i < length cs. sc_pass_through (cs ! i) \<longrightarrow> sc_bindings (cs ! i) = [])"

lemma pass_empty_at: "pass_empty cs \<Longrightarrow> sc_pass_through (scope_at cs i) \<Longrightarrow> sc_bindings (scope_at cs i) = []"
  by (auto simp: pass_empty_def scope_at_def empty_scope_def)

lemma realm_for_bindings:
  assumes "\<And>j. chain cs' j = chain cs j" and "\<And>j. sc_realms (scope_at cs' j) = sc_realms (scope_at cs j)"
  shows "realm_for cs' i k = realm_for cs i k"
  by (simp add: realm_for_def assms)

lemma realm_for_bind: "bind_realm i k r b cs = Some cs' \<Longrightarrow> realm_for cs' j k' = realm_for cs j k'"
  by (rule realm_for_bindings) (auto simp: chain_bind, auto simp: bind_realm_def split: if_splits option.splits)

lemma realm_for_unbind [simp]: "realm_for (unbind_realm i k r cs) j k' = realm_for cs j k'"
  by (rule realm_for_bindings) (simp, auto simp: unbind_realm_def split: option.splits)

lemma realm_for_write [simp]: "realm_for (write_binding c k r f cs) j k' = realm_for cs j k'"
  by (rule realm_for_bindings) (simp, auto simp: write_binding_def)

lemma bind_realm_SomeD:
  assumes "bind_realm i k r b cs = Some cs'"
  obtains t where "bind_target cs i = Some t"
    "cs' = update_scope t (\<lambda>sc. sc\<lparr>sc_bindings := om_insert (scope_key k r) b (sc_bindings sc)\<rparr>) cs"
  using assms by (auto simp: bind_realm_def split: option.splits)

lemma pass_empty_bind:
  assumes "bind_realm i k r b cs = Some cs'" and "pass_empty cs"
  shows "pass_empty cs'"
proof -
  from assms(1) obtain t where t: "bind_target cs i = Some t"
    and cs': "cs' = update_scope t (\<lambda>sc. sc\<lparr>sc_bindings := om_insert (scope_key k r) b (sc_bindings sc)\<rparr>) cs"
    by (rule bind_realm_SomeD)
  from bind_target_split [OF t] have "\<not> sc_pass_through (scope_at cs t)" by blast
  with assms(2) show ?thesis
    by (auto simp: cs' pass_empty_def update_scope_def scope_at_def nth_list_update)
qed

lemma lookup_after_bind:
  assumes bind: "bind_realm i k r b cs = Some cs'" and "pass_empty cs" and "i < length cs"
    and wf: "store_wf cs"
  shows "lookup_realm cs' i k r = Some b"
proof -
  from bind obtain t where t: "bind_target cs i = Some t"
    and cs': "cs' = update_scope t (\<lambda>sc. sc\<lparr>sc_bindings := om_insert (scope_key k r) b (sc_bindings sc)\<rparr>) cs"
    by (rule bind_realm_SomeD)
  from bind_target_split [OF t] obtain pre where
    pre: "chain cs i = pre @ chain cs t" "\<forall>j \<in> set pre. sc_pass_through (scope_at cs j)"
    and nt: "\<not> sc_pass_through (scope_at cs t)" by blast
  have "t \<in> set (chain cs i)" using pre(1) by simp
  then have tl: "t < length cs" using chain_le [of t cs i] \<open>i < length cs\<close> by simp
  have tp: "t \<notin> set pre" using pre nt by blast
  have ch: "chain cs' i = pre @ t # tl (chain cs t)"
    using chain_bind [OF bind] pre(1) by (metis chain_neq_Nil hd_chain list.collapse)
  have "first_in (\<lambda>c. map_of (sc_bindings (scope_at cs' c)) (scope_key k r)) pre = None"
  proof (rule first_in_None)
    fix x assume "x \<in> set pre"
    with pre(2) tp pass_empty_at [OF assms(2)] show "map_of (sc_bindings (scope_at cs' x)) (scope_key k r) = None"
      by (auto simp: cs')
  qed
  then show ?thesis
    using tl by (simp add: lookup_realm_def lookup_slot_def ch first_in_append) (simp add: cs')
qed

text \<open>A bind or unbind under one (key, realm) is invisible under every other.\<close>

lemma lookup_slot_other:
  assumes "(k', r') \<noteq> (k, r)"
  shows "bind_realm i k r b cs = Some cs' \<Longrightarrow> lookup_slot cs' j k' r' = lookup_slot cs j k' r'"
    and "lookup_slot (unbind_realm i k r cs) j k' r' = lookup_slot cs j k' r'"
    and "lookup_slot (write_binding c k r f cs) j k' r' = lookup_slot cs j k' r'"
proof -
  show "lookup_slot cs' j k' r' = lookup_slot cs j k' r'" if bind: "bind_realm i k r b cs = Some cs'"
  proof -
    from bind obtain t where cs': "cs' = update_scope t (\<lambda>sc. sc\<lparr>sc_bindings := om_insert (scope_key k r) b (sc_bindings sc)\<rparr>) cs"
      by (rule bind_realm_SomeD)
    show ?thesis
      unfolding lookup_slot_def chain_bind [OF bind]
      by (rule first_in_cong) (use assms in \<open>auto simp: cs' scope_key_def\<close>)
  qed
  show "lookup_slot (unbind_realm i k r cs) j k' r' = lookup_slot cs j k' r'"
    unfolding lookup_slot_def chain_ops
    by (rule first_in_cong) (use assms in \<open>auto simp: unbind_realm_def scope_key_def split: option.splits\<close>)
  show "lookup_slot (write_binding c k r f cs) j k' r' = lookup_slot cs j k' r'"
    unfolding lookup_slot_def chain_ops
    by (rule first_in_cong) (use assms in \<open>auto simp: write_binding_def scope_key_def\<close>)
qed

lemma realm_for_isolate:
  "i < length cs \<Longrightarrow> realm_for (isolate i k r cs) i k = r"
  by (simp add: realm_for_def chain_rec [of _ i] isolate_def)

text \<open>Every pass-through scope has a parent, so binding through one always finds its target.\<close>

definition pass_parented :: "store \<Rightarrow> bool" where
  "pass_parented cs \<longleftrightarrow> (\<forall>i < length cs. sc_pass_through (cs ! i) \<longrightarrow> sc_parent (cs ! i) \<noteq> None)"

lemma bind_defined:
  assumes "store_wf cs" and "pass_parented cs" and "i < length cs"
  shows "\<exists>t. bind_target cs i = Some t"
  using assms
proof (induction cs i rule: bind_target.induct)
  case (1 cs i)
  show ?case
  proof (cases "sc_pass_through (scope_at cs i)")
    case False
    then show ?thesis by (simp add: bind_target.simps [of cs i])
  next
    case True
    with 1(3,4) obtain p where p: "sc_parent (cs ! i) = Some p"
      by (auto simp: pass_parented_def scope_at_def)
    with 1(2,4) have pi: "p < i" by (auto simp: store_wf_def)
    with p 1(4) have po: "parent_of cs i = Some p" by (simp add: parent_of_def)
    from 1(1) [OF True po] 1(2-4) pi True po show ?thesis
      by (simp add: bind_target.simps [of cs i])
  qed
qed

lemma bind_target_cong:
  assumes "\<And>j. parent_of cs' j = parent_of cs j"
    and "\<And>j. sc_pass_through (scope_at cs' j) = sc_pass_through (scope_at cs j)"
  shows "bind_target cs' i = bind_target cs i"
proof (induction i rule: less_induct)
  case (less i)
  show ?case
  proof (cases "parent_of cs i")
    case None
    then show ?thesis by (simp add: bind_target.simps [of cs i] bind_target.simps [of cs' i] assms)
  next
    case (Some p)
    from less [OF parent_of_less [OF Some]] have "bind_target cs' p = bind_target cs p" .
    with Some show ?thesis by (simp add: bind_target.simps [of cs i] bind_target.simps [of cs' i] assms)
  qed
qed

lemma bind_target_update:
  assumes "\<And>c. sc_parent (f c) = sc_parent c" "\<And>c. sc_pass_through (f c) = sc_pass_through c"
  shows "bind_target (update_scope t f cs) i = bind_target cs i"
  by (rule bind_target_cong) (use assms in \<open>simp_all add: parent_of_update\<close>)

end
