(* ===== verification/Effects.thy ===== *)
theory Effects
  imports Prelude
begin

text \<open>
  The cleanup accumulator behind every activation (\<open>include/araya/effects.hpp\<close>,
  \<open>src/effects.cpp\<close>). A stack entry is a cleanup with its released flag. What a cleanup does is
  the caller's: \<open>run a w\<close> performs the cleanup \<open>a\<close> in the world \<open>w\<close> and returns what it threw
  (\<open>None\<close> for a normal return) with the new world. A cleanup does not touch the stack it is in.
\<close>

record ('a, 'e) effect_stack =
  es_entries :: "('a \<times> bool) list"
  es_error :: "'e option"

definition empty_stack :: "('a, 'e) effect_stack" where
  "empty_stack = \<lparr>es_entries = [], es_error = None\<rparr>"

text \<open>\<open>add\<close> asserts a non-empty callable and returns the index of the new entry.\<close>

definition stack_add :: "'a option \<Rightarrow> ('a, 'e) effect_stack \<Rightarrow> string + (('a, 'e) effect_stack \<times> nat)" where
  "stack_add act st =
     (case act of
        None \<Rightarrow> Inl ''static_cast<bool>(action)''
      | Some a \<Rightarrow> Inr (st\<lparr>es_entries := es_entries st @ [(a, False)]\<rparr>, length (es_entries st)))"

definition run_entry ::
  "('a \<Rightarrow> 'w \<Rightarrow> 'e option \<times> 'w) \<Rightarrow> nat \<Rightarrow> ('a, 'e) effect_stack \<Rightarrow> 'w \<Rightarrow> ('a, 'e) effect_stack \<times> 'w" where
  "run_entry run i st w =
     (if i \<ge> length (es_entries st) then (st, w)
      else
        let (a, released) = es_entries st ! i in
        if released then (st, w)
        else
          let st' = st\<lparr>es_entries := (es_entries st)[i := (a, True)]\<rparr>;
              (thrown, w') = run a w
          in (case thrown of
                None \<Rightarrow> (st', w')
              | Some e \<Rightarrow> (if es_error st' = None then st'\<lparr>es_error := Some e\<rparr> else st', w')))"

lemma length_run_entry [simp]:
  "length (es_entries (fst (run_entry run i st w))) = length (es_entries st)"
  by (auto simp: run_entry_def Let_def split: prod.splits option.splits)

lemma run_entry_length: "run_entry run i st w = (st', w') \<Longrightarrow> length (es_entries st') = length (es_entries st)"
  by (metis fst_conv length_run_entry)

text \<open>The loop of \<open>run_all\<close>; \<open>processed\<close> counts the entries visited, from the back.\<close>

function run_loop ::
  "('a \<Rightarrow> 'w \<Rightarrow> 'e option \<times> 'w) \<Rightarrow> nat \<Rightarrow> ('a, 'e) effect_stack \<Rightarrow> 'w \<Rightarrow> ('a, 'e) effect_stack \<times> 'w" where
  "run_loop run processed st w =
     (if processed < length (es_entries st)
      then let (st', w') = run_entry run (length (es_entries st) - 1 - processed) st w
           in run_loop run (Suc processed) st' w'
      else (st, w))"
  by pat_completeness auto
termination
proof (relation "measure (\<lambda>(run, processed, st, w). length (es_entries st) - processed)", goal_cases)
  case (2 run processed st w p st' w')
  then have e: "run_entry run (length (es_entries st) - 1 - processed) st w = (st', w')" by simp
  with 2(1) run_entry_length [OF e] show ?case by simp
qed simp

declare run_loop.simps [simp del]

definition run_all ::
  "('a \<Rightarrow> 'w \<Rightarrow> 'e option \<times> 'w) \<Rightarrow> ('a, 'e) effect_stack \<Rightarrow> 'w \<Rightarrow> ('a, 'e) effect_stack \<times> 'w" where
  "run_all run st w = (let (st', w') = run_loop run 0 st w in (st'\<lparr>es_entries := []\<rparr>, w'))"

text \<open>A registration names one entry; \<open>release\<close> runs it early, once.\<close>

record registration =
  reg_index :: nat
  reg_active :: bool

definition release ::
  "('a \<Rightarrow> 'w \<Rightarrow> 'e option \<times> 'w) \<Rightarrow> registration \<Rightarrow> ('a, 'e) effect_stack \<Rightarrow> 'w
     \<Rightarrow> registration \<times> ('a, 'e) effect_stack \<times> 'w" where
  "release run reg st w =
     (if \<not> reg_active reg then (reg, st, w)
      else (reg\<lparr>reg_active := False\<rparr>, run_entry run (reg_index reg) st w))"

section \<open>The abstract accumulator\<close>

text \<open>
  What teardown promises: the unreleased cleanups run once each, last registered first, and the
  first failure is kept while the rest still run.
\<close>

fun unwind :: "('a \<Rightarrow> 'w \<Rightarrow> 'e option \<times> 'w) \<Rightarrow> 'a list \<Rightarrow> 'e option \<Rightarrow> 'w \<Rightarrow> 'e option \<times> 'w" where
  "unwind run [] err w = (err, w)"
| "unwind run (a # as) err w =
     (let (thrown, w') = run a w in unwind run as (if err = None then thrown else err) w')"

definition pending :: "('a, 'e) effect_stack \<Rightarrow> 'a list" where
  "pending st = map fst (filter (\<lambda>(a, released). \<not> released) (es_entries st))"

lemma unwind_append:
  "unwind run (as @ bs) err w = (let (err', w') = unwind run as err w in unwind run bs err' w')"
  by (induction as arbitrary: err w) (auto simp: Let_def split: prod.splits)

lemma run_entry_take:
  assumes "i < length (es_entries st)"
  shows "take i (es_entries (fst (run_entry run i st w))) = take i (es_entries st)"
  using assms by (auto simp: run_entry_def Let_def split: prod.splits option.splits)

lemma run_entry_unwind:
  assumes "i < length (es_entries st)" and "run_entry run i st w = (st', w')"
  shows "unwind run (case es_entries st ! i of (a, released) \<Rightarrow> if released then [] else [a]) (es_error st) w
           = (es_error st', w')"
  using assms by (auto simp: run_entry_def Let_def split: prod.splits option.splits if_splits)

definition unreleased_front :: "nat \<Rightarrow> ('a, 'e) effect_stack \<Rightarrow> 'a list" where
  "unreleased_front n st = map fst (filter (\<lambda>(a, released). \<not> released) (take n (es_entries st)))"

lemma unreleased_front_Suc:
  "n < length (es_entries st) \<Longrightarrow>
     rev (unreleased_front (Suc n) st) =
       (case es_entries st ! n of (a, released) \<Rightarrow> if released then [] else [a]) @ rev (unreleased_front n st)"
  by (auto simp: unreleased_front_def take_Suc_conv_app_nth split: prod.splits)

lemma run_loop_unwind:
  assumes "run_loop run processed st w = (st', w')"
  shows "unwind run (rev (unreleased_front (length (es_entries st) - processed) st)) (es_error st) w
           = (es_error st', w') \<and> length (es_entries st') = length (es_entries st)"
  using assms
proof (induction run processed st w rule: run_loop.induct)
  case (1 run processed st w)
  show ?case
  proof (cases "processed < length (es_entries st)")
    case False
    with 1(2) show ?thesis by (simp add: run_loop.simps [of run processed] unreleased_front_def)
  next
    case True
    let ?n = "length (es_entries st) - 1 - processed"
    obtain s1 w1 where e: "run_entry run ?n st w = (s1, w1)" by force
    have n: "?n < length (es_entries st)" and sn: "length (es_entries st) - processed = Suc ?n"
      using True by simp_all
    have len: "length (es_entries s1) = length (es_entries st)"
      by (rule run_entry_length [OF e])
    have front: "unreleased_front ?n s1 = unreleased_front ?n st"
      using run_entry_take [OF n, of run w] e by (simp add: unreleased_front_def)
    from 1(2) True e have l: "run_loop run (Suc processed) s1 w1 = (st', w')"
      by (simp add: run_loop.simps [of run processed] Let_def)
    have k: "unreleased_front (length (es_entries s1) - Suc processed) s1 = unreleased_front ?n st"
      using front len by simp
    have ih: "unwind run (rev (unreleased_front ?n st)) (es_error s1) w1 = (es_error st', w')"
      "length (es_entries st') = length (es_entries s1)"
      using 1(1) [OF True e [symmetric] refl l] unfolding k by blast+
    show ?thesis
      unfolding sn unreleased_front_Suc [OF n] unwind_append run_entry_unwind [OF n e]
      by (simp add: ih [simplified] len)
  qed
qed

text \<open>The loop over indices and flags implements the abstract unwinding.\<close>

lemma run_all_unwind:
  assumes "run_all run st w = (st', w')"
  shows "unwind run (rev (pending st)) (es_error st) w = (es_error st', w')" and "es_entries st' = []"
proof -
  from assms obtain s1 where l: "run_loop run 0 st w = (s1, w')" and st': "st' = s1\<lparr>es_entries := []\<rparr>"
    by (auto simp: run_all_def Let_def split: prod.splits)
  from run_loop_unwind [OF l] show "unwind run (rev (pending st)) (es_error st) w = (es_error st', w')"
    by (simp add: st' pending_def unreleased_front_def)
  show "es_entries st' = []" by (simp add: st')
qed

section \<open>Worlds whose invariant every cleanup keeps\<close>

locale cleanup_runner =
  fixes run :: "'a \<Rightarrow> 'w \<Rightarrow> 'e option \<times> 'w" and inv :: "'w \<Rightarrow> bool"
  assumes run_keeps: "inv w \<Longrightarrow> inv (snd (run a w))"
begin

lemma unwind_keeps: "inv w \<Longrightarrow> inv (snd (unwind run as err w))"
proof (induction as arbitrary: err w)
  case (Cons a as)
  obtain t w' where r: "run a w = (t, w')" by force
  with run_keeps [OF Cons.prems, of a] have "inv w'" by simp
  with Cons.IH r show ?case by (simp add: Let_def)
qed simp

lemma run_all_keeps: "inv w \<Longrightarrow> inv (snd (run_all run st w))"
proof -
  assume "inv w"
  obtain st' w' where "run_all run st w = (st', w')" by force
  with run_all_unwind(1) [OF this] unwind_keeps [OF \<open>inv w\<close>, of "rev (pending st)" "es_error st"]
  show ?thesis by simp
qed

lemma run_entry_keeps: "inv w \<Longrightarrow> inv (snd (run_entry run i st w))"
  using run_keeps [of w] by (auto simp: run_entry_def Let_def split: prod.splits option.splits) (metis snd_conv)+

end

text \<open>Releasing twice is releasing once; a released entry does not run again at teardown.\<close>

lemma release_idempotent:
  assumes "release run reg st w = (reg', st', w')"
  shows "release run reg' st' w' = (reg', st', w')"
  using assms by (auto simp: release_def split: if_splits)

lemma pending_run_entry:
  assumes "i < length (es_entries st)" and "es_entries st ! i = (a, False)"
  shows "pending (fst (run_entry run i st w)) =
         map fst (filter (\<lambda>(a, released). \<not> released) (take i (es_entries st) @ drop (Suc i) (es_entries st)))"
proof -
  have "es_entries (fst (run_entry run i st w)) = (es_entries st)[i := (a, True)]"
    using assms by (auto simp: run_entry_def Let_def split: prod.splits option.splits)
  then show ?thesis
    using assms(1) by (simp add: pending_def upd_conv_take_nth_drop)
qed

end
