(* ===== verification/Machine.thy ===== *)
theory Machine
  imports Scope Effects
begin

text \<open>
  The state of the component runtime (\<open>include/araya/runtime.hpp\<close>, \<open>src/runtime.cpp\<close>,
  \<open>include/araya/activation.hpp\<close>, \<open>include/araya/plugin.hpp\<close>, \<open>src/fiber.cpp\<close>): descriptors,
  fibers, activations, the runtime's maps, and the operations on them that do not call back into
  the lifecycle.

  Plugin code is a parameter: a descriptor carries its factory and its \<open>reconfigure\<close>, a plugin
  cleanup is a tag with the exception it throws. Objects shared through pointers live in stores:
  contexts in \<open>rt_store\<close>, activations in \<open>rt_acts\<close> (an activation is named by its position).
  \<open>ARAYA_ASSERT\<close> is a no-op in a release build and aborts a debug build: the model runs on, and
  records the text of each violated assertion in \<open>rt_violated\<close> (with the two hazards of
  \<open>finish_tail\<close> in \<open>Lifecycle\<close>). \<open>rt_trace\<close> records the calls
  into plugin code in the order they are made.
\<close>

type_synonym config = "(string, string) omap"

datatype fiber_error =
    ResolutionError service_id
  | ApplyError string
  | CancelledBeforeActive
  | FactoryReturnedNull string
  | CleanupError string

datatype cleanup =
    Unprovide ctx_id service_id fiber_id
  | RemoveListener service_id nat
  | RetireChild fiber_id
  | PluginCleanup nat "fiber_error option"

record descriptor =
  d_name :: string
  d_inject :: "dependency_spec list"
  d_provide :: "service_id list"
  d_create :: "config \<Rightarrow> nat option"
  d_reconfigure :: "nat \<Rightarrow> config \<Rightarrow> bool"

record component_spec =
  cs_descriptor :: "descriptor option"
  cs_config :: config
  cs_parent :: "ctx_id option"
  cs_name :: string
  cs_isolate :: "(string, realm) omap"

record activation =
  act_id :: fiber_id
  act_scope :: ctx_id
  act_effects :: "(cleanup, fiber_error) effect_stack"
  act_error :: "fiber_error option"
  act_parent :: "nat option"
  act_state :: fiber_state
  act_spec_declared :: bool
  act_inject_specs :: "service_id list"
  act_provide_specs :: "service_id list"
  act_inject_metadata :: "(service_id, service_metadata) omap"
  act_committed_view :: "(service_id, binding) omap"

text \<open>
  \<open>fiber_record\<close> with its control cell: \<open>f_stop\<close> is the stop flag of the cell's current stop
  source (which the activation shares), \<open>f_cell_state\<close>, \<open>f_cell_error\<close>, \<open>f_completed\<close> are what
  handles read. \<open>f_scope\<close> is \<open>spec.parent\<close>, null-free after \<open>mount_locked\<close>. \<open>f_waiters\<close> are the
  continuations waiting on the \<open>done\<close> gate.
\<close>

datatype waiter = EraseFiber fiber_id | ResumeReconcile nat

record fiber =
  f_desc :: descriptor
  f_config :: config
  f_scope :: ctx_id
  f_name :: string
  f_isolate :: "(string, realm) omap"
  f_parent_fiber :: fiber_id
  f_parent_activation :: "nat option"
  f_state :: fiber_state
  f_activation :: "nat option"
  f_instance :: "nat option"
  f_inject_keys :: "service_id list"
  f_inject :: "(service_id \<times> bool) list"
  f_provide :: "service_id list"
  f_committed :: "(service_id, fiber_id) omap"
  f_consumers :: "fiber_id list"
  f_remaining :: nat
  f_reactivate :: int
  f_apply_failed :: bool
  f_error :: "fiber_error option"
  f_done_open :: bool
  f_waiters :: "waiter list"
  f_stop :: bool
  f_cell_state :: fiber_state
  f_cell_error :: "fiber_error option"
  f_completed :: bool

record desired_component =
  dc_path :: string
  dc_spec :: component_spec

datatype diagnostic_kind = Conflict | Cycle

record diagnostic =
  dg_kind :: diagnostic_kind
  dg_key_name :: string
  dg_key_version :: nat
  dg_fibers :: "fiber_id list"

text \<open>Work posted to the control strand, and a \<open>reconcile\<close> suspended on the gates it awaits.\<close>

datatype task =
    TRetireChild fiber_id
  | TMountDesired string component_spec "desired_component list"

record suspended_reconcile =
  sr_gates :: "fiber_id list"
  sr_erase :: "fiber_id list"
  sr_desired :: "desired_component list"

datatype event =
    ApplyStarted fiber_id
  | CleanupRan cleanup
  | TornDown fiber_id

record runtime =
  rt_next_id :: fiber_id
  rt_store :: store
  rt_root :: ctx_id
  rt_acts :: "activation list"
  rt_fibers :: "(fiber_id, fiber) omap"
  rt_consumers_of :: "(service_id, fiber_id list) omap"
  rt_providers_of :: "(service_id, fiber_id list) omap"
  rt_reconciled :: "(string, fiber_id) omap"
  rt_entry_ctxs :: "(string, ctx_id) omap"
  rt_entry_isolates :: "(string, (string, realm) omap) omap"
  rt_in_flight :: nat
  rt_idle_open :: bool
  rt_posted :: "task list"
  rt_suspended :: "(nat, suspended_reconcile) omap"
  rt_registry :: "(fiber_id \<times> nat) list"
  rt_stops :: nat
  rt_reported :: "string list"
  rt_diagnostics :: "diagnostic list"
  rt_trace :: "event list"
  rt_violated :: "string list"

section \<open>Reading and writing fibers and activations\<close>

definition find_fiber :: "runtime \<Rightarrow> fiber_id \<Rightarrow> fiber option" where
  "find_fiber s i = map_of (rt_fibers s) i"

definition set_fiber :: "fiber_id \<Rightarrow> (fiber \<Rightarrow> fiber) \<Rightarrow> runtime \<Rightarrow> runtime" where
  "set_fiber i g s = s\<lparr>rt_fibers := om_modify i g (rt_fibers s)\<rparr>"

definition find_act :: "runtime \<Rightarrow> nat \<Rightarrow> activation option" where
  "find_act s a = (if a < length (rt_acts s) then Some (rt_acts s ! a) else None)"

definition set_act :: "nat \<Rightarrow> (activation \<Rightarrow> activation) \<Rightarrow> runtime \<Rightarrow> runtime" where
  "set_act a g s = (if a < length (rt_acts s) then s\<lparr>rt_acts := (rt_acts s)[a := g (rt_acts s ! a)]\<rparr> else s)"

definition set_act_opt :: "nat option \<Rightarrow> (activation \<Rightarrow> activation) \<Rightarrow> runtime \<Rightarrow> runtime" where
  "set_act_opt a g s = (case a of None \<Rightarrow> s | Some a \<Rightarrow> set_act a g s)"

definition araya_assert :: "string \<Rightarrow> bool \<Rightarrow> runtime \<Rightarrow> runtime" where
  "araya_assert text cond s = (if cond then s else s\<lparr>rt_violated := rt_violated s @ [text]\<rparr>)"

definition state_of :: "runtime \<Rightarrow> fiber_id \<Rightarrow> fiber_state" where
  "state_of s i = (case find_fiber s i of None \<Rightarrow> Inactive | Some f \<Rightarrow> f_state f)"

definition error_of :: "runtime \<Rightarrow> fiber_id \<Rightarrow> fiber_error option" where
  "error_of s i = (case find_fiber s i of None \<Rightarrow> None | Some f \<Rightarrow> f_error f)"

definition fiber_count :: "runtime \<Rightarrow> nat" where
  "fiber_count s = length (rt_fibers s)"

text \<open>The transition counter behind \<open>wait_idle\<close> and the \<open>idle_\<close> gate.\<close>

definition transition_started :: "runtime \<Rightarrow> runtime" where
  "transition_started s = s\<lparr>rt_idle_open := False, rt_in_flight := Suc (rt_in_flight s)\<rparr>"

definition transition_finished :: "runtime \<Rightarrow> runtime" where
  "transition_finished s0 =
     (let s = araya_assert ''in_flight_ > 0'' (rt_in_flight s0 > 0) s0;
          n = rt_in_flight s - 1
      in s\<lparr>rt_in_flight := n, rt_idle_open := (if n = 0 then True else rt_idle_open s)\<rparr>)"

definition settled :: "runtime \<Rightarrow> bool" where
  "settled s \<longleftrightarrow> rt_in_flight s = 0"

section \<open>The stop-source registry\<close>

text \<open>
  \<open>src/fiber.cpp\<close>: the process-wide list of (strand, stop source) pairs \<open>this_stop_token\<close> reads.
  A strand belongs to one fiber and is named by it. \<open>make_fiber\<close> appends an entry,
  \<open>retire_fiber\<close> drops the first entry of the strand, \<open>update_fiber_stop\<close> re-points the first
  entry and does nothing when there is none.
\<close>

fun registry_retire :: "fiber_id \<Rightarrow> (fiber_id \<times> nat) list \<Rightarrow> (fiber_id \<times> nat) list" where
  "registry_retire i [] = []"
| "registry_retire i ((j, st) # r) = (if j = i then r else (j, st) # registry_retire i r)"

fun registry_update :: "fiber_id \<Rightarrow> nat \<Rightarrow> (fiber_id \<times> nat) list \<Rightarrow> (fiber_id \<times> nat) list" where
  "registry_update i n [] = []"
| "registry_update i n ((j, st) # r) = (if j = i then (j, n) # r else (j, st) # registry_update i n r)"

definition registry_lookup :: "fiber_id \<Rightarrow> (fiber_id \<times> nat) list \<Rightarrow> nat option" where
  "registry_lookup i r = map_of r i"

definition retire_fiber :: "fiber_id \<Rightarrow> runtime \<Rightarrow> runtime" where
  "retire_fiber i s = s\<lparr>rt_registry := registry_retire i (rt_registry s)\<rparr>"

definition next_fiber_id :: "runtime \<Rightarrow> fiber_id \<times> runtime" where
  "next_fiber_id s = (rt_next_id s, s\<lparr>rt_next_id := Suc (rt_next_id s)\<rparr>)"

definition make_fiber :: "runtime \<Rightarrow> fiber_id \<times> runtime" where
  "make_fiber s =
     (let (i, s) = next_fiber_id s;
          n = rt_stops s
      in (i, s\<lparr>rt_stops := Suc n, rt_registry := rt_registry s @ [(i, n)]\<rparr>))"

section \<open>Activations and their teardown\<close>

definition new_activation :: "ctx_id \<Rightarrow> fiber_id \<Rightarrow> activation" where
  "new_activation sc i = \<lparr>act_id = i, act_scope = sc, act_effects = empty_stack, act_error = None,
     act_parent = None, act_state = Active, act_spec_declared = False, act_inject_specs = [],
     act_provide_specs = [], act_inject_metadata = [], act_committed_view = []\<rparr>"

text \<open>
  What a cleanup does to the runtime: the one \<open>provide_raw\<close> records unbinds the key unless another
  fiber has taken it over; the one \<open>mount\<close> records posts the child's retirement; removing a
  listener and a plugin's own cleanup leave the runtime's state alone.
\<close>

definition log_event :: "event \<Rightarrow> runtime \<Rightarrow> runtime" where
  "log_event e s = s\<lparr>rt_trace := rt_trace s @ [e]\<rparr>"

fun run_cleanup :: "cleanup \<Rightarrow> runtime \<Rightarrow> fiber_error option \<times> runtime" where
  "run_cleanup (Unprovide sc k owner) s =
     (None, log_event (CleanupRan (Unprovide sc k owner))
       (case lookup_mutable (rt_store s) sc k of
          Some (c, b) \<Rightarrow> (if bprovider b = owner then s\<lparr>rt_store := unbind sc k (rt_store s)\<rparr> else s)
        | None \<Rightarrow> s))"
| "run_cleanup (RemoveListener k tok) s = (None, log_event (CleanupRan (RemoveListener k tok)) s)"
| "run_cleanup (RetireChild i) s =
     (None, log_event (CleanupRan (RetireChild i)) (s\<lparr>rt_posted := rt_posted s @ [TRetireChild i]\<rparr>))"
| "run_cleanup (PluginCleanup n thrown) s =
     (thrown, log_event (CleanupRan (PluginCleanup n thrown)) s)"

definition teardown :: "nat \<Rightarrow> runtime \<Rightarrow> runtime" where
  "teardown a s0 =
     (case find_act s0 a of
        None \<Rightarrow> s0
      | Some act \<Rightarrow>
          let s = araya_assert ''state != fiber_state::inactive'' (act_state act \<noteq> Inactive) s0;
              (effects, s') = run_all run_cleanup (act_effects act) s
          in set_act a (\<lambda>x. x\<lparr>act_effects := effects,
                              act_error := (if act_error x = None then es_error effects else act_error x)\<rparr>)
               (log_event (TornDown (act_id act)) s'))"

section \<open>Index maintenance and erasure\<close>

definition unindex :: "fiber_id \<Rightarrow> runtime \<Rightarrow> runtime" where
  "unindex i s = s\<lparr>
     rt_consumers_of := filter (\<lambda>(k, ids). ids \<noteq> []) (map (\<lambda>(k, ids). (k, os_erase i ids)) (rt_consumers_of s)),
     rt_providers_of := filter (\<lambda>(k, ids). ids \<noteq> []) (map (\<lambda>(k, ids). (k, os_erase i ids)) (rt_providers_of s))\<rparr>"

text \<open>The removal of an inactive fiber that \<open>retire\<close>, \<open>retire_child\<close> and \<open>reconcile\<close> share.\<close>

definition erase_fiber :: "fiber_id \<Rightarrow> runtime \<Rightarrow> runtime" where
  "erase_fiber i s =
     (if find_fiber s i = None then s
      else unindex i ((retire_fiber i s)\<lparr>rt_fibers := om_erase i (rt_fibers s)\<rparr>))"

section \<open>Frame lemmas\<close>

lemma find_set_fiber [simp]:
  "find_fiber (set_fiber i g s) j = (if j = i then map_option g (find_fiber s j) else find_fiber s j)"
  by (simp add: find_fiber_def set_fiber_def)

lemma araya_assert_simps [simp]:
  "rt_next_id (araya_assert t c s) = rt_next_id s"
  "rt_store (araya_assert t c s) = rt_store s"
  "rt_root (araya_assert t c s) = rt_root s"
  "rt_acts (araya_assert t c s) = rt_acts s"
  "rt_fibers (araya_assert t c s) = rt_fibers s"
  "rt_consumers_of (araya_assert t c s) = rt_consumers_of s"
  "rt_providers_of (araya_assert t c s) = rt_providers_of s"
  "rt_in_flight (araya_assert t c s) = rt_in_flight s"
  "rt_idle_open (araya_assert t c s) = rt_idle_open s"
  "rt_posted (araya_assert t c s) = rt_posted s"
  "rt_suspended (araya_assert t c s) = rt_suspended s"
  "rt_registry (araya_assert t c s) = rt_registry s"
  "rt_trace (araya_assert t c s) = rt_trace s"
  by (simp_all add: araya_assert_def)


text \<open>
  \<open>core s\<close> is the part of the state that cleanups and activation bookkeeping leave alone: the
  fibers, the indices, the counters and gates, and the reconciler's maps.
\<close>

definition core where
  "core s = (rt_next_id s, rt_root s, rt_fibers s, rt_consumers_of s, rt_providers_of s,
     (rt_reconciled s, rt_entry_ctxs s, rt_entry_isolates s, rt_suspended s),
     (rt_in_flight s, rt_idle_open s, rt_registry s, rt_stops s, rt_reported s, rt_diagnostics s))"

lemma core_simps [simp]:
  "core (s\<lparr>rt_store := st\<rparr>) = core s"
  "core (s\<lparr>rt_posted := ps\<rparr>) = core s"
  "core (s\<lparr>rt_trace := tr\<rparr>) = core s"
  "core (s\<lparr>rt_acts := as\<rparr>) = core s"
  "core (s\<lparr>rt_violated := vs\<rparr>) = core s"
  "core (log_event e s) = core s"
  "core (set_act a g s) = core s"
  "core (set_act_opt ao g s) = core s"
  "core (araya_assert t c s) = core s"
  by (simp_all add: core_def log_event_def set_act_def set_act_opt_def araya_assert_def split: option.splits)

lemma run_cleanup_core: "core (snd (run_cleanup c s)) = core s"
  by (induction c s rule: run_cleanup.induct) (auto split: option.splits)

interpretation cleanup_core: cleanup_runner run_cleanup "\<lambda>w. core w = c" for c
  by unfold_locales (simp add: run_cleanup_core)

lemma run_all_core: "run_all run_cleanup st w = (st', w') \<Longrightarrow> core w' = core w"
  by (metis cleanup_core.run_all_keeps snd_conv)

lemma teardown_core [simp]: "core (teardown a s) = core s"
  by (auto simp: teardown_def Let_def dest!: run_all_core split: option.splits prod.splits)

lemma core_fields:
  assumes "core s = core s'"
  shows "rt_next_id s = rt_next_id s'" "rt_root s = rt_root s'" "rt_fibers s = rt_fibers s'"
    "rt_consumers_of s = rt_consumers_of s'" "rt_providers_of s = rt_providers_of s'"
    "rt_reconciled s = rt_reconciled s'" "rt_entry_ctxs s = rt_entry_ctxs s'"
    "rt_suspended s = rt_suspended s'" "rt_in_flight s = rt_in_flight s'"
    "rt_idle_open s = rt_idle_open s'" "rt_registry s = rt_registry s'"
  using assms by (simp_all add: core_def)

lemmas teardown_fields [simp] = core_fields [OF teardown_core]
  and set_act_fields [simp] = core_fields [OF core_simps(7)]
  and set_act_opt_fields [simp] = core_fields [OF core_simps(8)]
  and log_event_fields [simp] = core_fields [OF core_simps(6)]

lemma find_fiber_core: "core s = core s' \<Longrightarrow> find_fiber s = find_fiber s'"
  by (simp add: find_fiber_def core_def fun_eq_iff)

lemmas find_fiber_frame [simp] =
  find_fiber_core [OF teardown_core] find_fiber_core [OF core_simps(7)]
  find_fiber_core [OF core_simps(8)] find_fiber_core [OF core_simps(6)]
  find_fiber_core [OF core_simps(9)] find_fiber_core [OF core_simps(1)]
  find_fiber_core [OF core_simps(4)]

end
