(* ===== verification/Diagnose.thy ===== *)
theory Diagnose
  imports Machine
begin

text \<open>
  The declarative-graph diagnostics (\<open>runtime::diagnose\<close>): the single-source scan, the dependency
  cycles (Tarjan's algorithm over dense positions) and the self-provision scan. Each distinct
  signature is reported once.

  The provider slots are ordered by scope, realm and key as \<open>diag_slot_key\<close> is; a scope's address
  is its id. The recursion of \<open>strongconnect\<close> is made explicit as in the lifecycle: a \<open>tframe\<close> is
  a call or the rest of one, \<open>texec\<close> runs it up to its next calls, and \<open>trun\<close> works the stack off.
\<close>

section \<open>Signatures and emission\<close>

definition signature :: "diagnostic_kind \<Rightarrow> string \<Rightarrow> nat \<Rightarrow> fiber_id list \<Rightarrow> string" where
  "signature kind name version ids =
     (case kind of Cycle \<Rightarrow> ''c:'' | Conflict \<Rightarrow> ''f:'') @ name @ '':'' @ show_nat version @ '':'' @
     concat (map (\<lambda>i. show_nat i @ '','') ids)"

definition emit :: "diagnostic_kind \<Rightarrow> string \<Rightarrow> nat \<Rightarrow> fiber_id list \<Rightarrow> runtime \<Rightarrow> runtime" where
  "emit kind name version ids s =
     (let ids = sort ids; sig = signature kind name version ids
      in if sig \<in> set (rt_reported s) then s
         else s\<lparr>rt_reported := os_insert sig (rt_reported s),
                rt_diagnostics := rt_diagnostics s @
                  [\<lparr>dg_kind = kind, dg_key_name = name, dg_key_version = version, dg_fibers = ids\<rparr>]\<rparr>)"

section \<open>The single-source scan\<close>

type_synonym slot = "ctx_id \<times> realm \<times> service_id"

definition provider_slots :: "runtime \<Rightarrow> (slot \<times> fiber_id) list" where
  "provider_slots s =
     concat (map (\<lambda>(i, f). map (\<lambda>k. ((f_scope f, realm_for (rt_store s) (f_scope f) k, k), i)) (f_provide f))
       (rt_fibers s))"

text \<open>The inner loop over equal neighbours of the sorted slots.\<close>

function slot_groups :: "(slot \<times> fiber_id) list \<Rightarrow> (slot \<times> fiber_id list) list" where
  "slot_groups [] = []"
| "slot_groups ((sl, i) # rest) =
     (sl, i # map snd (takeWhile (\<lambda>e. fst e = sl) rest)) # slot_groups (dropWhile (\<lambda>e. fst e = sl) rest)"
  by pat_completeness auto
termination
  by (relation "measure length") (auto simp: length_dropWhile_le less_Suc_eq_le)

definition conflict_name :: "slot \<Rightarrow> string" where
  "conflict_name sl =
     (case sl of (sc, r, k) \<Rightarrow> if r = '''' then sid_name k else r @ ''@'' @ sid_name k)"

definition scan_conflicts :: "runtime \<Rightarrow> runtime" where
  "scan_conflicts s =
     fold (\<lambda>(sl, ids) s. if length ids \<ge> 2 then emit Conflict (conflict_name sl) (sid_version (snd (snd sl))) ids s else s)
       (slot_groups (sort_key fst (provider_slots s))) s"

section \<open>Dependency cycles\<close>

definition position :: "fiber_id list \<Rightarrow> fiber_id \<Rightarrow> nat" where
  "position order i = length (takeWhile (\<lambda>j. j < i) order)"

definition dependency_targets :: "runtime \<Rightarrow> fiber \<Rightarrow> fiber_id list" where
  "dependency_targets s m =
     os_of_list (concat (map (\<lambda>k. case map_of (rt_providers_of s) k of
                                    None \<Rightarrow> []
                                  | Some ns \<Rightarrow> filter (\<lambda>n. case find_fiber s n of
                                        None \<Rightarrow> False
                                      | Some nf \<Rightarrow> scope_on_chain (rt_store s) (f_scope nf) (f_scope m)) ns)
                  (f_inject_keys m)))"

record tarjan =
  tj_index :: "int list"
  tj_low :: "int list"
  tj_on_stack :: "bool list"
  tj_stack :: "nat list"
  tj_next :: nat
  tj_sccs :: "nat list list"

datatype tframe = TVisit nat | TEdges nat "nat list" | TLow nat nat | TClose nat

definition low_to :: "nat \<Rightarrow> int \<Rightarrow> tarjan \<Rightarrow> tarjan" where
  "low_to p v t = t\<lparr>tj_low := (tj_low t)[p := min (tj_low t ! p) v]\<rparr>"

text \<open>
  Adjacency is given by positions. The guard of \<open>TVisit\<close> is what its callers have just checked.
\<close>

fun texec :: "(nat \<Rightarrow> nat list) \<Rightarrow> tframe \<Rightarrow> tarjan \<Rightarrow> tframe list \<times> tarjan" where
  "texec adj (TVisit p) t =
     (if p < length (tj_index t) \<and> tj_index t ! p = -1
      then ([TEdges p (adj p), TClose p],
            t\<lparr>tj_index := (tj_index t)[p := int (tj_next t)], tj_low := (tj_low t)[p := int (tj_next t)],
              tj_next := tj_next t + 1, tj_stack := tj_stack t @ [p], tj_on_stack := (tj_on_stack t)[p := True]\<rparr>)
      else ([], t))"
| "texec adj (TEdges p []) t = ([], t)"
| "texec adj (TEdges p (w # ws)) t =
     (if tj_index t ! w = -1 then ([TVisit w, TLow p w, TEdges p ws], t)
      else if tj_on_stack t ! w then ([TEdges p ws], low_to p (tj_index t ! w) t)
      else ([TEdges p ws], t))"
| "texec adj (TLow p w) t = ([], low_to p (tj_low t ! w) t)"
| "texec adj (TClose p) t =
     (if tj_low t ! p \<noteq> tj_index t ! p then ([], t)
      else
        let above = takeWhile (\<lambda>q. q \<noteq> p) (rev (tj_stack t));
            scc = above @ [p]
        in ([], t\<lparr>tj_stack := take (length (tj_stack t) - length scc) (tj_stack t),
                  tj_on_stack := fold (\<lambda>q on. on[q := False]) scc (tj_on_stack t),
                  tj_sccs := (if length scc > 1 then tj_sccs t @ [scc] else tj_sccs t)\<rparr>))"

fun tweight :: "tframe \<Rightarrow> nat" where
  "tweight (TEdges p ws) = 3 * length ws + 1"
| "tweight _ = 1"

definition unvisited :: "tarjan \<Rightarrow> nat" where
  "unvisited t = length (filter (\<lambda>i. i = -1) (tj_index t))"

definition tarjan_measures where
  "tarjan_measures = measures [\<lambda>(adj :: nat \<Rightarrow> nat list, fs, t). unvisited t,
     \<lambda>(adj, fs, t). sum_list (map tweight fs)]"

lemma unvisited_visit:
  assumes "p < length xs" and "xs ! p = -1"
  shows "length (filter (\<lambda>i. i = (-1::int)) (xs[p := int n])) < length (filter (\<lambda>i. i = -1) xs)"
proof -
  have "filter (\<lambda>i. i = -1) xs =
      filter (\<lambda>i. i = -1) (take p xs) @ (-1) # filter (\<lambda>i. i = -1) (drop (Suc p) xs)"
    by (subst id_take_nth_drop [OF assms(1)]) (simp add: assms(2))
  then show ?thesis using assms(1) by (simp add: upd_conv_take_nth_drop)
qed

lemma texec_decreases:
  assumes "(fs, t') = texec adj c t"
  shows "((adj, fs @ cs, t'), (adj, c # cs, t)) \<in> tarjan_measures"
proof -
  have "unvisited (snd (texec adj c t)) < unvisited t \<or>
    unvisited (snd (texec adj c t)) = unvisited t \<and>
    sum_list (map tweight (fst (texec adj c t))) < tweight c"
    by (induction adj c t rule: texec.induct)
       (auto simp: unvisited_def unvisited_visit low_to_def Let_def)
  then have "unvisited t' < unvisited t \<or>
    unvisited t' = unvisited t \<and> sum_list (map tweight fs) < tweight c"
    by (simp add: assms [symmetric])
  then show ?thesis by (auto simp: tarjan_measures_def)
qed

function trun :: "(nat \<Rightarrow> nat list) \<Rightarrow> tframe list \<Rightarrow> tarjan \<Rightarrow> tarjan" where
  "trun adj [] t = t"
| "trun adj (c # cs) t = (let (fs, t') = texec adj c t in trun adj (fs @ cs) t')"
  by pat_completeness auto
termination
proof (relation "tarjan_measures")
  show "wf tarjan_measures" by (simp add: tarjan_measures_def)
qed (use texec_decreases in simp)

declare trun.simps(2) [simp del]

definition init_tarjan :: "nat \<Rightarrow> tarjan" where
  "init_tarjan n = \<lparr>tj_index = replicate n (-1), tj_low = replicate n 0, tj_on_stack = replicate n False,
     tj_stack = [], tj_next = 0, tj_sccs = []\<rparr>"

definition strong_components :: "nat \<Rightarrow> (nat \<Rightarrow> nat list) \<Rightarrow> tarjan" where
  "strong_components n adj =
     fold (\<lambda>i t. if tj_index t ! i = -1 then trun adj [TVisit i] t else t) [0..<n] (init_tarjan n)"

definition adjacency :: "runtime \<Rightarrow> nat \<Rightarrow> nat list" where
  "adjacency s p =
     (let order = map fst (rt_fibers s)
      in map (position order) (dependency_targets s (snd (rt_fibers s ! p))))"

definition scan_cycles :: "runtime \<Rightarrow> runtime" where
  "scan_cycles s =
     (let order = map fst (rt_fibers s);
          t = strong_components (length order) (adjacency s)
      in fold (\<lambda>scc s. emit Cycle '''' 0 (map ((!) order) scc) s) (tj_sccs t) s)"

section \<open>Self-provision\<close>

definition self_provided :: "fiber \<Rightarrow> service_id option" where
  "self_provided f = find (\<lambda>k. k \<in> set (f_inject_keys f)) (f_provide f)"

definition scan_self_provision :: "runtime \<Rightarrow> runtime" where
  "scan_self_provision s =
     fold (\<lambda>(i, f) s. case self_provided f of
                         None \<Rightarrow> s
                       | Some k \<Rightarrow> emit Cycle (sid_name k) (sid_version k) [i] s) (rt_fibers s) s"

definition diagnose :: "bool \<Rightarrow> runtime \<Rightarrow> runtime" where
  "diagnose cycles s =
     (let s = scan_conflicts s;
          s = (if cycles then scan_cycles s else s)
      in scan_self_provision s)"

text \<open>A scan writes the reported signatures and the emitted diagnostics only.\<close>

definition undiagnosed :: "runtime \<Rightarrow> runtime" where
  "undiagnosed s = s\<lparr>rt_reported := [], rt_diagnostics := []\<rparr>"

lemma undiagnosed_emit: "undiagnosed (emit kind name v ids s) = undiagnosed s"
  by (simp add: emit_def undiagnosed_def Let_def)

lemma undiagnosed_fold:
  assumes "\<And>x s. undiagnosed (g x s) = undiagnosed s"
  shows "undiagnosed (fold g xs s) = undiagnosed s"
  using assms by (induction xs arbitrary: s) auto

lemma undiagnosed_scans [simp]:
  "undiagnosed (scan_conflicts s) = undiagnosed s" "undiagnosed (scan_cycles s) = undiagnosed s"
  "undiagnosed (scan_self_provision s) = undiagnosed s"
  unfolding scan_conflicts_def scan_cycles_def scan_self_provision_def Let_def
  by (rule undiagnosed_fold; auto simp: undiagnosed_emit split: option.splits prod.splits)+

lemma undiagnosed_diagnose [simp]: "undiagnosed (diagnose cycles s) = undiagnosed s"
  by (simp add: diagnose_def Let_def)

lemma undiagnosed_fields:
  assumes "undiagnosed s = undiagnosed s'"
  shows "rt_fibers s = rt_fibers s'" "rt_store s = rt_store s'" "rt_acts s = rt_acts s'"
    "rt_in_flight s = rt_in_flight s'" "rt_suspended s = rt_suspended s'" "rt_consumers_of s = rt_consumers_of s'"
    "rt_providers_of s = rt_providers_of s'" "rt_trace s = rt_trace s'" "rt_violated s = rt_violated s'"
    "rt_next_id s = rt_next_id s'" "rt_reconciled s = rt_reconciled s'" "rt_posted s = rt_posted s'"
    "rt_root s = rt_root s'" "rt_idle_open s = rt_idle_open s'"
  using assms by (cases s; cases s'; simp add: undiagnosed_def)+

lemmas diagnose_fields [simp] = undiagnosed_fields [OF undiagnosed_diagnose]

end
