(* ===== verification/Lifecycle.thy ===== *)
theory Lifecycle
  imports Diagnose
begin

text \<open>
  The lifecycle core of \<open>src/runtime.cpp\<close>: resolution, loading, publication, the unload cascade
  and the notifications it fans out into.

  The C++ functions call each other and re-enter: unloading a fiber unloads its consumers, the
  last of which finishes its provider, which notifies and may restart fibers, all before the
  outer call returns. The model makes that call stack explicit. A \<open>frame\<close> is a call, or the
  continuation of a call after an inner one returns; \<open>exec\<close> runs one frame up to its next calls
  and returns those calls followed by its own continuation; \<open>run\<close> works the stack off. The
  frames of one C++ function:
    \<^item> \<open>evaluate\<close>: \<open>FEvaluate\<close>;
    \<^item> \<open>begin_unload\<close>: \<open>FBeginUnload\<close>, and \<open>FUnloadTail\<close> after the loop over the consumers;
    \<^item> \<open>maybe_finish_unload\<close> and the first part of \<open>finish_unload\<close>: \<open>FMaybeFinish\<close>; then
      \<open>FRelease\<close> (the loop over the detached committed map), \<open>FFinishTail\<close> (the gate) and
      \<open>FReactivate\<close> (the rest);
    \<^item> \<open>notify\<close>: \<open>FNotifyIds\<close>, and \<open>FNotifyKeys\<close> for the loops that call it once per key.
  The apply coroutine of a plugin starts as work of its own, after the handler that loaded it.
\<close>

section \<open>Resolution\<close>

record resolution =
  rs_satisfiable :: bool
  rs_providers :: "(service_id, fiber_id) omap"
  rs_bindings :: "(service_id, binding) omap"
  rs_error :: "fiber_error option"

definition resolvable :: "fiber_id \<Rightarrow> binding option \<Rightarrow> bool" where
  "resolvable self b =
     (case b of None \<Rightarrow> False
      | Some b \<Rightarrow> bvalue b \<noteq> None \<and> bstate b = PActive \<and> bavailable b \<and> bprovider b \<noteq> self)"

fun resolve_loop :: "store \<Rightarrow> ctx_id \<Rightarrow> fiber_id \<Rightarrow> (service_id \<times> bool) list \<Rightarrow> resolution \<Rightarrow> resolution" where
  "resolve_loop st sc self [] r = r"
| "resolve_loop st sc self ((k, required) # deps) r =
     (case lookup st sc k of
        Some b \<Rightarrow>
          if resolvable self (Some b)
          then resolve_loop st sc self deps
                 (r\<lparr>rs_providers := om_insert k (bprovider b) (rs_providers r),
                    rs_bindings := om_insert k b (rs_bindings r)\<rparr>)
          else if required
          then r\<lparr>rs_satisfiable := False, rs_error := Some (ResolutionError k)\<rparr>
          else resolve_loop st sc self deps r
      | None \<Rightarrow>
          if required
          then r\<lparr>rs_satisfiable := False, rs_error := Some (ResolutionError k)\<rparr>
          else resolve_loop st sc self deps r)"

definition resolve :: "runtime \<Rightarrow> fiber_id \<Rightarrow> fiber \<Rightarrow> resolution" where
  "resolve s i f = resolve_loop (rt_store s) (f_scope f) i (f_inject f)
     \<lparr>rs_satisfiable = True, rs_providers = [], rs_bindings = [], rs_error = None\<rparr>"

definition providers_still_active :: "runtime \<Rightarrow> fiber \<Rightarrow> bool" where
  "providers_still_active s f \<longleftrightarrow>
     (\<forall>(k, p) \<in> set (f_committed f).
        case lookup (rt_store s) (f_scope f) k of
          None \<Rightarrow> False
        | Some b \<Rightarrow> bvalue b \<noteq> None \<and> bprovider b = p \<and> bstate b = PActive \<and> bavailable b)"

section \<open>Loading\<close>

definition inject_metadata_of :: "dependency_spec list \<Rightarrow> (service_id, service_metadata) omap" where
  "inject_metadata_of deps =
     fold (\<lambda>d m. if dep_metadata d = [] then m else om_insert (dep_key d) (dep_metadata d) m) deps []"

text \<open>The two early exits of \<open>start_loading\<close> share the write-back of the failed state.\<close>

definition loading_failed :: "fiber_id \<Rightarrow> fiber_error option \<Rightarrow> runtime \<Rightarrow> runtime" where
  "loading_failed i e s =
     retire_fiber i (set_fiber i (\<lambda>f. f\<lparr>f_error := e, f_state := Inactive, f_cell_error := e,
                                       f_completed := True, f_cell_state := Inactive\<rparr>) s)"

definition loading_activation :: "fiber \<Rightarrow> fiber_id \<Rightarrow> activation" where
  "loading_activation f i = (new_activation (f_scope f) i)
     \<lparr>act_state := Loading, act_spec_declared := True, act_inject_specs := f_inject_keys f,
      act_provide_specs := f_provide f, act_parent := f_parent_activation f,
      act_inject_metadata := inject_metadata_of (d_inject (f_desc f))\<rparr>"

definition arm_loading :: "fiber_id \<Rightarrow> runtime \<Rightarrow> runtime" where
  "arm_loading i s =
     (let n = rt_stops s
      in set_fiber i (\<lambda>f. f\<lparr>f_error := None, f_apply_failed := False, f_state := Loading,
                            f_cell_error := None, f_completed := False, f_cell_state := Loading,
                            f_stop := False\<rparr>)
           (s\<lparr>rt_stops := Suc n, rt_registry := registry_update i n (rt_registry s),
              rt_next_id := Suc (rt_next_id s)\<rparr>))"

definition loading_checks :: "fiber \<Rightarrow> runtime \<Rightarrow> runtime" where
  "loading_checks f s =
     araya_assert ''f.remaining == 0'' (f_remaining f = 0)
       (araya_assert ''f.committed.empty()'' (f_committed f = [])
         (araya_assert ''f.state == fiber_state::inactive'' (f_state f = Inactive) s))"

text \<open>Committing the resolution: the activation enters the store, the providers the record.\<close>

definition commit_loading :: "fiber_id \<Rightarrow> fiber \<Rightarrow> resolution \<Rightarrow> runtime \<Rightarrow> runtime" where
  "commit_loading i f r s =
     (let a = length (rt_acts s)
      in set_fiber i (\<lambda>f. f\<lparr>f_committed := rs_providers r, f_activation := Some a\<rparr>)
           (s\<lparr>rt_acts := rt_acts s @ [(loading_activation f i)\<lparr>act_committed_view := rs_bindings r\<rparr>]\<rparr>))"

definition abandon_loading :: "fiber_id \<Rightarrow> runtime \<Rightarrow> runtime" where
  "abandon_loading i s =
     set_fiber i (\<lambda>f. f\<lparr>f_instance := None, f_activation := None, f_committed := []\<rparr>) s"

definition spawn_apply :: "fiber_id \<Rightarrow> nat \<Rightarrow> runtime \<Rightarrow> runtime" where
  "spawn_apply i inst s =
     log_event (ApplyStarted i) (transition_started (set_fiber i (\<lambda>f. f\<lparr>f_instance := Some inst\<rparr>) s))"

definition start_loading :: "fiber_id \<Rightarrow> runtime \<Rightarrow> runtime" where
  "start_loading i s0 =
     (case find_fiber s0 i of
        None \<Rightarrow> s0
      | Some f \<Rightarrow>
          let s = arm_loading i (loading_checks f s0);
              r = resolve s i f
          in if \<not> rs_satisfiable r then loading_failed i (rs_error r) s
             else
               (case d_create (f_desc f) (f_config f) of
                  None \<Rightarrow> loading_failed i (Some (FactoryReturnedNull (d_name (f_desc f))))
                            (abandon_loading i (commit_loading i f r s))
                | Some inst \<Rightarrow> spawn_apply i inst (commit_loading i f r s)))"

section \<open>Frames\<close>

datatype frame =
    FEvaluate fiber_id
  | FBeginUnload fiber_id bool
  | FUnloadTail fiber_id
  | FMaybeFinish fiber_id
  | FRelease fiber_id "(service_id \<times> fiber_id) list"
  | FFinishTail fiber_id ctx_id "service_id list"
  | FReactivate fiber_id
  | FNotifyKeys ctx_id "service_id list"
  | FNotifyIds service_id ctx_id realm "fiber_id list"
  | FTransitionFinished

text \<open>
  \<open>begin_unload\<close>: the retirement flag is sticky at \<open>-1\<close> and otherwise takes the maximum; a fiber
  that is unloading or inactive is left alone; a loading one is diverted through its stop source;
  an active one withdraws its bindings, counts the installed consumers and unloads them.
\<close>

definition raise_reactivate :: "bool \<Rightarrow> fiber \<Rightarrow> fiber" where
  "raise_reactivate b f =
     (if f_reactivate f \<ge> 0 then f\<lparr>f_reactivate := max (f_reactivate f) (if b then 1 else 0)\<rparr> else f)"

fun set_binding_states :: "ctx_id \<Rightarrow> fiber_id \<Rightarrow> provider_state \<Rightarrow> service_id list \<Rightarrow> store \<Rightarrow> store" where
  "set_binding_states sc i ps [] st = st"
| "set_binding_states sc i ps (k # ks) st =
     set_binding_states sc i ps ks
       (case lookup_mutable st sc k of
          Some (c, b) \<Rightarrow>
            if bprovider b = i
            then write_binding c k (realm_for st sc k) (\<lambda>b. b\<lparr>bstate := ps\<rparr>) st
            else st
        | None \<Rightarrow> st)"

definition installed_consumers :: "runtime \<Rightarrow> fiber_id list \<Rightarrow> fiber_id list" where
  "installed_consumers s cids =
     filter (\<lambda>c. case find_fiber s c of None \<Rightarrow> False | Some g \<Rightarrow> f_state g \<noteq> Inactive) cids"

definition committed_to :: "runtime \<Rightarrow> fiber_id \<Rightarrow> fiber_id \<Rightarrow> bool" where
  "committed_to s c p =
     (case find_fiber s c of None \<Rightarrow> False | Some g \<Rightarrow> p \<in> snd ` set (f_committed g))"

definition begin_unload :: "fiber_id \<Rightarrow> bool \<Rightarrow> runtime \<Rightarrow> frame list \<times> runtime" where
  "begin_unload i reactivate s0 =
     (case find_fiber s0 i of
        None \<Rightarrow> ([], s0)
      | Some f0 \<Rightarrow>
          let s = set_fiber i (raise_reactivate reactivate) s0
          in (case f_state f0 of
                Unloading \<Rightarrow> ([], s)
              | Inactive \<Rightarrow> ([], s)
              | Loading \<Rightarrow>
                  ([], set_fiber i (\<lambda>f. f\<lparr>f_state := Unloading, f_cell_state := Unloading,
                                          f_done_open := False, f_stop := True\<rparr>) s)
              | Active \<Rightarrow>
                  let s = set_fiber i (\<lambda>f. f\<lparr>f_state := Unloading, f_cell_state := Unloading,
                                             f_done_open := False\<rparr>) s;
                      s = set_act_opt (f_activation f0) (\<lambda>a. a\<lparr>act_state := Unloading\<rparr>) s;
                      s = transition_started s;
                      s = s\<lparr>rt_store := set_binding_states (f_scope f0) i PRetiring (f_provide f0) (rt_store s)\<rparr>;
                      installed = installed_consumers s (f_consumers f0);
                      s = araya_assert ''committed_here'' (\<forall>c \<in> set installed. committed_to s c i) s;
                      s = set_fiber i (\<lambda>f. f\<lparr>f_remaining := length installed\<rparr>) s
                  in (map (\<lambda>c. FBeginUnload c True) (f_consumers f0) @ [FUnloadTail i], s)))"

definition evaluate :: "fiber_id \<Rightarrow> runtime \<Rightarrow> frame list \<times> runtime" where
  "evaluate i s =
     (case find_fiber s i of
        None \<Rightarrow> ([], s)
      | Some f \<Rightarrow>
          if f_state f \<noteq> Inactive \<and> f_state f \<noteq> Active then ([], s)
          else if f_reactivate f < 0 then ([], s)
          else
            let r = resolve s i f
            in if f_state f = Inactive
               then (if rs_satisfiable r \<and> \<not> f_apply_failed f then ([], start_loading i s)
                     else if f_error f = None then ([], set_fiber i (\<lambda>f. f\<lparr>f_error := rs_error r\<rparr>) s)
                     else ([], s))
               else if rs_satisfiable r \<and> rs_providers r = f_committed f then ([], s)
               else begin_unload i (rs_satisfiable r) s)"

text \<open>
  \<open>maybe_finish_unload\<close> and \<open>finish_unload\<close> up to the loop over the committed map, which is
  detached before the state flips.
\<close>

definition maybe_finish_unload :: "fiber_id \<Rightarrow> runtime \<Rightarrow> frame list \<times> runtime" where
  "maybe_finish_unload i s0 =
     (case find_fiber s0 i of
        None \<Rightarrow> ([], s0)
      | Some f \<Rightarrow>
          if f_state f \<noteq> Unloading then ([], s0)
          else if f_remaining f > 0 then ([], s0)
          else
            let s = (case f_activation f of
                       None \<Rightarrow> s0
                     | Some a \<Rightarrow>
                         let s = araya_assert ''f.activation->state == fiber_state::unloading''
                                   (map_option act_state (find_act s0 a) = Some Unloading) s0
                         in set_act a (\<lambda>x. x\<lparr>act_state := Inactive\<rparr>) (teardown a s));
                s = set_fiber i (\<lambda>f. f\<lparr>f_committed := [], f_state := Inactive, f_cell_error := f_error f,
                                       f_completed := True, f_cell_state := Inactive, f_instance := None\<rparr>) s
            in ([FRelease i (f_committed f), FFinishTail i (f_scope f) (f_provide f)], s))"

definition unload_tail :: "fiber_id \<Rightarrow> runtime \<Rightarrow> frame list \<times> runtime" where
  "unload_tail i s = maybe_finish_unload i (set_fiber i (\<lambda>f. f\<lparr>f_stop := True\<rparr>) s)"

text \<open>One step of the loop that hands the guards back to the providers.\<close>

fun release_step :: "fiber_id \<Rightarrow> (service_id \<times> fiber_id) list \<Rightarrow> runtime \<Rightarrow> frame list \<times> runtime" where
  "release_step i [] s = ([], s)"
| "release_step i ((k, p) # rest) s0 =
     (case find_fiber s0 p of
        None \<Rightarrow> ([FRelease i rest], s0)
      | Some pf \<Rightarrow>
          let s = araya_assert ''erased == 1'' (i \<in> set (f_consumers pf)) s0;
              s = set_fiber p (\<lambda>g. g\<lparr>f_consumers := os_erase i (f_consumers g)\<rparr>) s;
              s = (if f_remaining pf > 0
                   then set_fiber p (\<lambda>g. g\<lparr>f_remaining := f_remaining g - 1\<rparr>)
                          (araya_assert ''it->second->state == fiber_state::unloading'' (f_state pf = Unloading) s)
                   else s)
          in ([FMaybeFinish p, FRelease i rest], s))"

text \<open>
  \<open>gate_impl::open\<close>: an open gate stays as it is; a closed one opens and runs its waiters. The
  waiter of \<open>retire\<close> erases the fiber; a suspended \<open>reconcile\<close> goes on to its next closed gate, and
  after the last erases what it unloaded and posts the mounting of what is missing.
\<close>

fun skip_open_gates :: "runtime \<Rightarrow> fiber_id list \<Rightarrow> fiber_id list" where
  "skip_open_gates s [] = []"
| "skip_open_gates s (g # gs) =
     (case find_fiber s g of
        Some f \<Rightarrow> (if f_done_open f then skip_open_gates s gs else g # gs)
      | None \<Rightarrow> skip_open_gates s gs)"

text \<open>
  \<open>entry_scope_for\<close>: the plain parent scope of an entry without realm tags; otherwise the entry's
  own pass-through context, built over the parent when there is none yet or the parent changed, with
  the desired tags applied in place and the tags no longer present dropped.
\<close>

definition entry_context :: "string \<Rightarrow> ctx_id \<Rightarrow> runtime \<Rightarrow> runtime \<times> ctx_id" where
  "entry_context path base s =
     (case map_of (rt_entry_ctxs s) path of
        Some c \<Rightarrow>
          if sc_parent (scope_at (rt_store s) c) = Some base then (s, c)
          else (let (st, c') = make_context base True (rt_store s)
                in (s\<lparr>rt_store := st, rt_entry_ctxs := om_insert path c' (rt_entry_ctxs s)\<rparr>, c'))
      | None \<Rightarrow>
          (let (st, c') = make_context base True (rt_store s)
           in (s\<lparr>rt_store := st, rt_entry_ctxs := om_insert path c' (rt_entry_ctxs s)\<rparr>, c')))"

definition apply_tags :: "ctx_id \<Rightarrow> (string, realm) omap \<Rightarrow> (string, realm) omap \<Rightarrow> store \<Rightarrow> store" where
  "apply_tags c tags applied st =
     (let st = fold (\<lambda>(name, r). isolate c (ServiceId name 1) r) tags st
      in fold (\<lambda>(name, r) st. if map_of tags name = None then unisolate c (ServiceId name 1) st else st) applied st)"

definition entry_scope_for :: "string \<Rightarrow> component_spec \<Rightarrow> runtime \<Rightarrow> runtime \<times> ctx_id" where
  "entry_scope_for path spec s =
     (let base = (case cs_parent spec of None \<Rightarrow> rt_root s | Some p \<Rightarrow> p)
      in if cs_isolate spec = []
         then (s\<lparr>rt_entry_ctxs := om_erase path (rt_entry_ctxs s),
                 rt_entry_isolates := om_erase path (rt_entry_isolates s)\<rparr>, base)
         else
           let (s, c) = entry_context path base s;
               applied = (case map_of (rt_entry_isolates s) path of None \<Rightarrow> [] | Some m \<Rightarrow> m)
           in (s\<lparr>rt_store := apply_tags c (cs_isolate spec) applied (rt_store s),
                 rt_entry_isolates := om_insert path (cs_isolate spec) (rt_entry_isolates s)\<rparr>, c))"

text \<open>The last loop of \<open>reconcile\<close>, up to its next \<open>mount\<close> (which hops onto the strand again).\<close>

fun advance_mounts :: "desired_component list \<Rightarrow> runtime \<Rightarrow> runtime" where
  "advance_mounts [] s = diagnose True s"
| "advance_mounts (d # ds) s =
     (if map_of (rt_reconciled s) (dc_path d) \<noteq> None then advance_mounts ds s
      else
        let (s, c) = entry_scope_for (dc_path d) (dc_spec d) s
        in s\<lparr>rt_posted := rt_posted s @ [TMountDesired (dc_path d) ((dc_spec d)\<lparr>cs_parent := Some c\<rparr>) ds]\<rparr>)"

definition resume_reconcile :: "nat \<Rightarrow> runtime \<Rightarrow> runtime" where
  "resume_reconcile n s =
     (case map_of (rt_suspended s) n of
        None \<Rightarrow> s
      | Some sr \<Rightarrow>
          (case skip_open_gates s (sr_gates sr) of
             g # gs \<Rightarrow>
               set_fiber g (\<lambda>f. f\<lparr>f_waiters := f_waiters f @ [ResumeReconcile n]\<rparr>)
                 (s\<lparr>rt_suspended := om_insert n (sr\<lparr>sr_gates := g # gs\<rparr>) (rt_suspended s)\<rparr>)
           | [] \<Rightarrow>
               advance_mounts (sr_desired sr)
                 (fold erase_fiber (sr_erase sr) (s\<lparr>rt_suspended := om_erase n (rt_suspended s)\<rparr>))))"

fun run_waiter :: "waiter \<Rightarrow> runtime \<Rightarrow> runtime" where
  "run_waiter (EraseFiber i) s = erase_fiber i s"
| "run_waiter (ResumeReconcile n) s = resume_reconcile n s"

definition open_done :: "fiber_id \<Rightarrow> runtime \<Rightarrow> runtime" where
  "open_done i s =
     (case find_fiber s i of
        None \<Rightarrow> s
      | Some f \<Rightarrow>
          if f_done_open f then s
          else fold run_waiter (f_waiters f) (set_fiber i (\<lambda>f. f\<lparr>f_done_open := True, f_waiters := []\<rparr>) s))"

text \<open>
  Two hazards the code does not assert are recorded with the assertions: opening the gate of a fiber
  that was restarted and diverted while its committed map was being released, and using the record
  after a waiter has freed it.
\<close>

definition gate_hazard :: string where
  "gate_hazard = ''done->open() on an unloading fiber''"

definition record_hazard :: string where
  "record_hazard = ''the record outlives done->open()''"

definition finish_tail :: "fiber_id \<Rightarrow> ctx_id \<Rightarrow> service_id list \<Rightarrow> runtime \<Rightarrow> frame list \<times> runtime" where
  "finish_tail i sc provide s0 =
     (let s = (case find_fiber s0 i of
                 None \<Rightarrow> s0
               | Some f \<Rightarrow> araya_assert gate_hazard (f_state f \<noteq> Unloading)
                             (araya_assert ''f.consumers.empty()'' (f_consumers f = []) s0));
          s = open_done i s;
          s = araya_assert record_hazard (find_fiber s i \<noteq> None) s
      in ([FNotifyKeys sc provide, FReactivate i], s))"

definition reactivate_step :: "fiber_id \<Rightarrow> runtime \<Rightarrow> frame list \<times> runtime" where
  "reactivate_step i s =
     (case find_fiber s i of
        None \<Rightarrow> ([FTransitionFinished], s)
      | Some f \<Rightarrow>
          if f_reactivate f > 0
          then ([FEvaluate i, FTransitionFinished], set_fiber i (\<lambda>f. f\<lparr>f_reactivate := 0\<rparr>) s)
          else ([FTransitionFinished], s))"

section \<open>Notifications\<close>

definition notify :: "service_id \<Rightarrow> ctx_id \<Rightarrow> realm \<Rightarrow> runtime \<Rightarrow> frame list" where
  "notify k sc r s =
     (case map_of (rt_consumers_of s) k of
        None \<Rightarrow> []
      | Some ids \<Rightarrow> [FNotifyIds k sc r ids])"

fun notify_keys :: "ctx_id \<Rightarrow> service_id list \<Rightarrow> runtime \<Rightarrow> frame list \<times> runtime" where
  "notify_keys sc [] s = ([], s)"
| "notify_keys sc (k # ks) s = (notify k sc (realm_for (rt_store s) sc k) s @ [FNotifyKeys sc ks], s)"

definition affected :: "service_id \<Rightarrow> ctx_id \<Rightarrow> realm \<Rightarrow> runtime \<Rightarrow> fiber \<Rightarrow> bool" where
  "affected k sc r s f \<longleftrightarrow>
     scope_on_chain (rt_store s) sc (f_scope f) \<and> realm_for (rt_store s) (f_scope f) k = r"

fun notify_ids :: "service_id \<Rightarrow> ctx_id \<Rightarrow> realm \<Rightarrow> fiber_id list \<Rightarrow> runtime \<Rightarrow> frame list \<times> runtime" where
  "notify_ids k sc r [] s =
     ([], s\<lparr>rt_consumers_of :=
              om_modify k (filter (\<lambda>j. find_fiber s j \<noteq> None)) (rt_consumers_of s)\<rparr>)"
| "notify_ids k sc r (i # ids) s =
     (case find_fiber s i of
        None \<Rightarrow> ([FNotifyIds k sc r ids], s)
      | Some f \<Rightarrow>
          if affected k sc r s f then ([FEvaluate i, FNotifyIds k sc r ids], s)
          else ([FNotifyIds k sc r ids], s))"

section \<open>The stack machine\<close>

fun exec :: "frame \<Rightarrow> runtime \<Rightarrow> frame list \<times> runtime" where
  "exec (FEvaluate i) s = evaluate i s"
| "exec (FBeginUnload i b) s = begin_unload i b s"
| "exec (FUnloadTail i) s = unload_tail i s"
| "exec (FMaybeFinish i) s = maybe_finish_unload i s"
| "exec (FRelease i cs) s = release_step i cs s"
| "exec (FFinishTail i sc ks) s = finish_tail i sc ks s"
| "exec (FReactivate i) s = reactivate_step i s"
| "exec (FNotifyKeys sc ks) s = notify_keys sc ks s"
| "exec (FNotifyIds k sc r ids) s = notify_ids k sc r ids s"
| "exec FTransitionFinished s = ([], transition_finished s)"

end
