(* ===== verification/Cascade.thy ===== *)
theory Cascade
  imports Lifecycle
begin

text \<open>
  The cascade as a whole: \<open>run\<close> works the call stack off. It is a total function, so every
  cascade the engine starts returns, whatever the state it starts in; the termination argument is
  the measure below. A cascade never makes a fiber active, so the number of active fibers bounds
  the unloads it can start; every pending \<open>begin_unload\<close> may divert one loading fiber; every finished
  unload removes an unloading fiber; and the loops over keys and ids are finite.

  \<open>stack_invariant\<close> is the proof interface of the cascade: an assertion about the stack and the
  state that each frame keeps holds when the stack is empty.
\<close>

section \<open>The termination measure\<close>

definition state_count :: "(fiber_state \<Rightarrow> bool) \<Rightarrow> runtime \<Rightarrow> nat" where
  "state_count P s = sum_list (map ((\<lambda>f. if P (f_state f) then 1 else 0) \<circ> snd) (rt_fibers s))"

abbreviation active_count :: "runtime \<Rightarrow> nat" where
  "active_count \<equiv> state_count (\<lambda>st. st = Active)"

abbreviation unloading_count :: "runtime \<Rightarrow> nat" where
  "unloading_count \<equiv> state_count (\<lambda>st. st = Unloading)"

fun unload_weight :: "frame \<Rightarrow> nat" where
  "unload_weight (FBeginUnload i b) = 2"
| "unload_weight _ = 0"

fun key_weight :: "frame \<Rightarrow> nat" where
  "key_weight (FFinishTail i sc ks) = Suc (length ks)"
| "key_weight (FNotifyKeys sc ks) = length ks"
| "key_weight _ = 0"

fun frame_weight :: "frame \<Rightarrow> nat" where
  "frame_weight (FRelease i cs) = 2 * length cs + 1"
| "frame_weight (FNotifyIds k sc r ids) = 2 * length ids + 1"
| "frame_weight (FReactivate i) = 3"
| "frame_weight _ = 1"

definition cascade_measures :: "((frame list \<times> runtime) \<times> (frame list \<times> runtime)) set" where
  "cascade_measures = measures [
     \<lambda>(cs, s). active_count s,
     \<lambda>(cs, s). sum_list (map unload_weight cs) + unloading_count s,
     \<lambda>(cs, s). sum_list (map key_weight cs),
     \<lambda>(cs, s). sum_list (map frame_weight cs)]"

lemma state_count_set_fiber:
  assumes "find_fiber s i = Some f"
  shows "state_count P (set_fiber i g s) + (if P (f_state f) then 1 else 0) =
         state_count P s + (if P (f_state (g f)) then 1 else 0)"
  using sum_list_map_modify [of "rt_fibers s" i f "\<lambda>f. if P (f_state f) then 1 else 0" g] assms
  by (simp add: state_count_def set_fiber_def find_fiber_def)

lemma set_fiber_absent: "find_fiber s i = None \<Longrightarrow> set_fiber i g s = s"
  by (simp add: set_fiber_def find_fiber_def om_modify_absent)

lemma state_count_set_fiber_same:
  assumes "\<And>f. f_state (g f) = f_state f"
  shows "state_count P (set_fiber i g s) = state_count P s"
proof (cases "find_fiber s i")
  case (Some f)
  from state_count_set_fiber [OF this, of P g] assms show ?thesis by simp
qed (simp add: set_fiber_absent)

lemma state_count_cong: "rt_fibers s' = rt_fibers s \<Longrightarrow> state_count P s' = state_count P s"
  by (simp add: state_count_def)

section \<open>What the auxiliary operations leave alone\<close>

lemma transition_fibers [simp]:
  "rt_fibers (transition_started s) = rt_fibers s" "rt_fibers (transition_finished s) = rt_fibers s"
  by (simp_all add: transition_started_def transition_finished_def Let_def)

lemma find_transition [simp]:
  "find_fiber (transition_started s) = find_fiber s" "find_fiber (transition_finished s) = find_fiber s"
  by (simp_all add: find_fiber_def fun_eq_iff)

lemma retire_fiber_fibers [simp]: "rt_fibers (retire_fiber i s) = rt_fibers s"
  by (simp add: retire_fiber_def)

lemma erase_fiber_fibers:
  "rt_fibers (erase_fiber i s) = (if find_fiber s i = None then rt_fibers s else om_erase i (rt_fibers s))"
  by (simp add: erase_fiber_def unindex_def)

lemma find_erase_fiber [simp]: "find_fiber (erase_fiber i s) j = (if j = i then None else find_fiber s j)"
  by (auto simp: erase_fiber_fibers find_fiber_def)

lemma state_count_erase: "state_count P (erase_fiber i s) \<le> state_count P s"
  by (simp add: state_count_def erase_fiber_fibers sum_list_map_erase_le)

lemma state_count_fold_erase: "state_count P (fold erase_fiber is s) \<le> state_count P s"
  by (induction "is" arbitrary: s) (auto intro: order_trans [OF _ state_count_erase])

lemma entry_scope_fibers [simp]: "rt_fibers (fst (entry_scope_for path spec s)) = rt_fibers s"
  by (auto simp: entry_scope_for_def entry_context_def make_context_def Let_def split: option.splits prod.splits)

lemma advance_mounts_fibers [simp]: "rt_fibers (advance_mounts ds s) = rt_fibers s"
proof (induction ds s rule: advance_mounts.induct)
  case (2 d ds s)
  obtain s' c where e: "entry_scope_for (dc_path d) (dc_spec d) s = (s', c)" by force
  with entry_scope_fibers [of "dc_path d" "dc_spec d" s] have "rt_fibers s' = rt_fibers s" by (simp del: entry_scope_fibers)
  with 2 e show ?case by simp
qed simp

lemma state_count_resume: "state_count P (resume_reconcile n s) \<le> state_count P s"
proof (cases "map_of (rt_suspended s) n")
  case (Some sr)
  show ?thesis
  proof (cases "skip_open_gates s (sr_gates sr)")
    case Nil
    have "state_count P (advance_mounts ds s') = state_count P s'" for ds s'
      by (rule state_count_cong) simp
    moreover have "state_count P (fold erase_fiber is (s\<lparr>rt_suspended := x\<rparr>)) \<le> state_count P s" for "is" x
      using state_count_fold_erase [of P "is" "s\<lparr>rt_suspended := x\<rparr>"] by (simp add: state_count_def)
    ultimately show ?thesis
      using Some Nil by (simp add: resume_reconcile_def)
  next
    case (Cons g gs)
    with Some show ?thesis
      by (simp add: resume_reconcile_def state_count_set_fiber_same) (simp add: state_count_def)
  qed
qed (simp add: resume_reconcile_def)

lemma state_count_waiter: "state_count P (run_waiter w s) \<le> state_count P s"
  by (cases w) (simp_all add: state_count_erase state_count_resume)

lemma state_count_waiters: "state_count P (fold run_waiter ws s) \<le> state_count P s"
  by (induction ws arbitrary: s) (auto intro: order_trans [OF _ state_count_waiter])

lemma state_count_open_done: "state_count P (open_done i s) \<le> state_count P s"
  by (auto simp: open_done_def state_count_set_fiber_same split: option.splits
      intro: order_trans [OF state_count_waiters])

section \<open>Every frame decreases the measure\<close>

lemma state_count_frame:
  "state_count P (araya_assert t c s) = state_count P s"
  "state_count P (teardown a s) = state_count P s"
  "state_count P (set_act a g s) = state_count P s"
  "state_count P (set_act_opt ao g s) = state_count P s"
  "state_count P (log_event e s) = state_count P s"
  "state_count P (transition_started s) = state_count P s"
  "state_count P (transition_finished s) = state_count P s"
  "state_count P (retire_fiber i s) = state_count P s"
  "state_count P (s\<lparr>rt_store := st\<rparr>) = state_count P s"
  "state_count P (s\<lparr>rt_acts := as\<rparr>) = state_count P s"
  "state_count P (s\<lparr>rt_consumers_of := ix\<rparr>) = state_count P s"
  by (simp_all add: state_count_def)

text \<open>Loading takes an inactive fiber to loading or back, so both counts are unchanged.\<close>

lemma find_arm_loading:
  "find_fiber (arm_loading i s) j =
     (if j = i then map_option (\<lambda>f. f\<lparr>f_error := None, f_apply_failed := False, f_state := Loading,
        f_cell_error := None, f_completed := False, f_cell_state := Loading, f_stop := False\<rparr>) (find_fiber s j)
      else find_fiber s j)"
  by (simp add: arm_loading_def Let_def find_fiber_def set_fiber_def)

definition rewrites_fiber :: "fiber_id \<Rightarrow> (fiber \<Rightarrow> fiber) \<Rightarrow> runtime \<Rightarrow> runtime \<Rightarrow> bool" where
  "rewrites_fiber i g s s' \<longleftrightarrow> rt_fibers s' = om_modify i g (rt_fibers s)"

lemma rewrites_set_fiber: "rewrites_fiber i g s s' \<Longrightarrow> rewrites_fiber i (h \<circ> g) s (set_fiber i h s')"
  by (simp add: rewrites_fiber_def set_fiber_def om_modify_comp)

lemma rewrites_cong: "rt_fibers s'' = rt_fibers s' \<Longrightarrow> rewrites_fiber i g s s' \<Longrightarrow> rewrites_fiber i g s s''"
  by (simp add: rewrites_fiber_def)

lemma rewrites_state_count:
  assumes "rewrites_fiber i g s s'" and "find_fiber s i = Some f"
  shows "state_count P s' + (if P (f_state f) then 1 else 0) = state_count P s + (if P (f_state (g f)) then 1 else 0)"
  using state_count_set_fiber [OF assms(2), of P g] assms(1)
  by (simp add: rewrites_fiber_def state_count_def set_fiber_def)

lemma rewrites_find:
  "rewrites_fiber i g s s' \<Longrightarrow> find_fiber s' j = (if j = i then map_option g (find_fiber s j) else find_fiber s j)"
  by (simp add: rewrites_fiber_def find_fiber_def)

text \<open>What each piece of \<open>start_loading\<close> does to the record of the fiber.\<close>

lemma loading_pieces_rewrite:
  "rewrites_fiber i (\<lambda>f. f\<lparr>f_error := None, f_apply_failed := False, f_state := Loading,
     f_cell_error := None, f_completed := False, f_cell_state := Loading, f_stop := False\<rparr>) s
     (arm_loading i (loading_checks f s))"
  "rewrites_fiber i g s s' \<Longrightarrow>
     rewrites_fiber i ((\<lambda>f. f\<lparr>f_committed := rs_providers r, f_activation := Some (length (rt_acts s'))\<rparr>) \<circ> g) s
       (commit_loading i f r s')"
  "rewrites_fiber i g s s' \<Longrightarrow>
     rewrites_fiber i ((\<lambda>f. f\<lparr>f_instance := None, f_activation := None, f_committed := []\<rparr>) \<circ> g) s
       (abandon_loading i s')"
  "rewrites_fiber i g s s' \<Longrightarrow>
     rewrites_fiber i ((\<lambda>f. f\<lparr>f_instance := Some inst\<rparr>) \<circ> g) s (spawn_apply i inst s')"
  "rewrites_fiber i g s s' \<Longrightarrow>
     rewrites_fiber i ((\<lambda>f. f\<lparr>f_error := e, f_state := Inactive, f_cell_error := e,
       f_completed := True, f_cell_state := Inactive\<rparr>) \<circ> g) s (loading_failed i e s')"
  by (simp_all add: arm_loading_def loading_checks_def commit_loading_def abandon_loading_def
      spawn_apply_def loading_failed_def rewrites_fiber_def set_fiber_def om_modify_comp Let_def)

lemma resolve_store_cong: "rt_store s = rt_store s' \<Longrightarrow> resolve s i f = resolve s' i f"
  by (simp add: resolve_def)

lemma arm_loading_store [simp]: "rt_store (arm_loading i (loading_checks f s)) = rt_store s"
  by (simp add: arm_loading_def loading_checks_def set_fiber_def Let_def)

lemma arm_loading_acts [simp]: "rt_acts (arm_loading i (loading_checks f s)) = rt_acts s"
  by (simp add: arm_loading_def loading_checks_def set_fiber_def Let_def)

text \<open>The three ways \<open>start_loading\<close> ends, with the record it leaves behind.\<close>

lemma start_loading_cases:
  assumes "find_fiber s i = Some f"
  obtains (unresolved) e g where "rs_satisfiable (resolve s i f) = False" "start_loading i s = loading_failed i e (arm_loading i (loading_checks f s))"
      "rewrites_fiber i g s (start_loading i s)" "f_state (g f) = Inactive" "f_committed (g f) = f_committed f"
      "f_activation (g f) = f_activation f"
  | (no_instance) e g where "rs_satisfiable (resolve s i f)" "d_create (f_desc f) (f_config f) = None"
      "start_loading i s = loading_failed i e (abandon_loading i (commit_loading i f (resolve s i f) (arm_loading i (loading_checks f s))))"
      "rewrites_fiber i g s (start_loading i s)" "f_state (g f) = Inactive" "f_committed (g f) = []"
      "f_activation (g f) = None"
  | (started) inst g where "rs_satisfiable (resolve s i f)" "d_create (f_desc f) (f_config f) = Some inst"
      "start_loading i s = spawn_apply i inst (commit_loading i f (resolve s i f) (arm_loading i (loading_checks f s)))"
      "rewrites_fiber i g s (start_loading i s)" "f_state (g f) = Loading"
      "f_committed (g f) = rs_providers (resolve s i f)" "f_activation (g f) = Some (length (rt_acts s))"
      "f_stop (g f) = False" "f_error (g f) = None"
proof -
  let ?s = "arm_loading i (loading_checks f s)"
  have r: "resolve ?s i f = resolve s i f" by (rule resolve_store_cong) simp
  consider "\<not> rs_satisfiable (resolve s i f)"
    | "rs_satisfiable (resolve s i f)" "d_create (f_desc f) (f_config f) = None"
    | inst where "rs_satisfiable (resolve s i f)" "d_create (f_desc f) (f_config f) = Some inst"
    by blast
  then show thesis
  proof cases
    case 1
    then have eq: "start_loading i s = loading_failed i (rs_error (resolve s i f)) ?s"
      using assms by (simp add: start_loading_def Let_def r)
    note rw = loading_pieces_rewrite(5) [OF loading_pieces_rewrite(1) [of i s f],
        of "rs_error (resolve s i f)", folded eq]
    show thesis by (rule unresolved [OF _ eq rw]) (use 1 in simp_all)
  next
    case 2
    then have eq: "start_loading i s = loading_failed i (Some (FactoryReturnedNull (d_name (f_desc f))))
                 (abandon_loading i (commit_loading i f (resolve s i f) ?s))"
      using assms by (simp add: start_loading_def Let_def r)
    note rw = loading_pieces_rewrite(5) [OF loading_pieces_rewrite(3) [OF loading_pieces_rewrite(2)
        [OF loading_pieces_rewrite(1) [of i s f], of "resolve s i f" f]],
        of "Some (FactoryReturnedNull (d_name (f_desc f)))", folded eq]
    show thesis by (rule no_instance [OF _ _ eq rw]) (use 2 in simp_all)
  next
    case (3 inst)
    then have eq: "start_loading i s = spawn_apply i inst (commit_loading i f (resolve s i f) ?s)"
      using assms by (simp add: start_loading_def Let_def r)
    note rw = loading_pieces_rewrite(4) [OF loading_pieces_rewrite(2) [OF loading_pieces_rewrite(1) [of i s f],
        of "resolve s i f" f], of inst, folded eq]
    show thesis by (rule started [OF _ _ eq rw]) (use 3 in simp_all)
  qed
qed

lemma start_loading_rewrites:
  "\<exists>g. rewrites_fiber i g s (start_loading i s) \<and>
       (\<forall>f. find_fiber s i = Some f \<longrightarrow> f_state (g f) = Loading \<or> f_state (g f) = Inactive)"
proof (cases "find_fiber s i")
  case None
  then show ?thesis
    by (intro exI [of _ id]) (simp add: start_loading_def rewrites_fiber_def om_modify_absent find_fiber_def)
next
  case (Some f)
  then show ?thesis
    by (rule start_loading_cases) (use Some in auto)
qed

text \<open>The outcomes of \<open>begin_unload\<close>.\<close>

lemma set_fiber_fields [simp]:
  "rt_store (set_fiber i g s) = rt_store s" "rt_acts (set_fiber i g s) = rt_acts s"
  "rt_in_flight (set_fiber i g s) = rt_in_flight s" "rt_consumers_of (set_fiber i g s) = rt_consumers_of s"
  "rt_suspended (set_fiber i g s) = rt_suspended s" "rt_fibers (set_fiber i g s) = om_modify i g (rt_fibers s)"
  "rt_trace (set_fiber i g s) = rt_trace s" "rt_violated (set_fiber i g s) = rt_violated s"
  "rt_next_id (set_fiber i g s) = rt_next_id s"
  by (simp_all add: set_fiber_def)

definition unload_record :: "bool \<Rightarrow> nat \<Rightarrow> fiber \<Rightarrow> fiber" where
  "unload_record b n f = (raise_reactivate b f)\<lparr>f_state := Unloading, f_cell_state := Unloading,
     f_done_open := False, f_remaining := n\<rparr>"

definition divert_record :: "bool \<Rightarrow> fiber \<Rightarrow> fiber" where
  "divert_record b f = (raise_reactivate b f)\<lparr>f_state := Unloading, f_cell_state := Unloading,
     f_done_open := False, f_stop := True\<rparr>"

lemma raise_reactivate_fields [simp]:
  "f_state (raise_reactivate b f) = f_state f" "f_committed (raise_reactivate b f) = f_committed f"
  "f_consumers (raise_reactivate b f) = f_consumers f" "f_remaining (raise_reactivate b f) = f_remaining f"
  "f_activation (raise_reactivate b f) = f_activation f" "f_provide (raise_reactivate b f) = f_provide f"
  "f_scope (raise_reactivate b f) = f_scope f" "f_done_open (raise_reactivate b f) = f_done_open f"
  "f_waiters (raise_reactivate b f) = f_waiters f" "f_inject (raise_reactivate b f) = f_inject f"
  "f_inject_keys (raise_reactivate b f) = f_inject_keys f" "f_desc (raise_reactivate b f) = f_desc f"
  by (simp_all add: raise_reactivate_def)

lemma begin_unload_Active:
  assumes "find_fiber s i = Some f" and "f_state f = Active"
  shows "fst (begin_unload i b s) = map (\<lambda>c. FBeginUnload c True) (f_consumers f) @ [FUnloadTail i]"
    and "\<exists>n. rewrites_fiber i (unload_record b n) s (snd (begin_unload i b s))"
    and "rt_in_flight (snd (begin_unload i b s)) = Suc (rt_in_flight s)"
  using assms
  by (auto simp: begin_unload_def Let_def rewrites_fiber_def om_modify_comp o_def unload_record_def [abs_def]
      transition_started_def)

lemma begin_unload_Loading:
  assumes "find_fiber s i = Some f" and "f_state f = Loading"
  shows "fst (begin_unload i b s) = []"
    and "rewrites_fiber i (divert_record b) s (snd (begin_unload i b s))"
    and "snd (begin_unload i b s) = set_fiber i (divert_record b) s"
  using assms
  by (auto simp: begin_unload_def Let_def rewrites_fiber_def om_modify_comp o_def
      divert_record_def [abs_def] set_fiber_def)

lemma begin_unload_rest:
  assumes "find_fiber s i = Some f" and "f_state f = Unloading \<or> f_state f = Inactive"
  shows "fst (begin_unload i b s) = []" and "snd (begin_unload i b s) = set_fiber i (raise_reactivate b) s"
  using assms by (auto simp: begin_unload_def Let_def)

lemma begin_unload_absent: "find_fiber s i = None \<Longrightarrow> begin_unload i b s = ([], s)"
  by (simp add: begin_unload_def)

text \<open>\<open>maybe_finish_unload\<close> either does nothing or takes the fiber from unloading to inactive.\<close>

definition finish_record :: "fiber \<Rightarrow> fiber" where
  "finish_record f = f\<lparr>f_committed := [], f_state := Inactive, f_cell_error := f_error f,
     f_completed := True, f_cell_state := Inactive, f_instance := None\<rparr>"

definition finish_ready :: "runtime \<Rightarrow> fiber_id \<Rightarrow> bool" where
  "finish_ready s i \<longleftrightarrow> (\<exists>f. find_fiber s i = Some f \<and> f_state f = Unloading \<and> f_remaining f = 0)"

lemma maybe_finish_idle: "\<not> finish_ready s i \<Longrightarrow> maybe_finish_unload i s = ([], s)"
  by (auto simp: maybe_finish_unload_def finish_ready_def split: option.splits)

lemma maybe_finish_done:
  assumes "find_fiber s i = Some f" and "f_state f = Unloading" and "f_remaining f = 0"
  shows "fst (maybe_finish_unload i s) = [FRelease i (f_committed f), FFinishTail i (f_scope f) (f_provide f)]"
    and "rewrites_fiber i finish_record s (snd (maybe_finish_unload i s))"
    and "rt_in_flight (snd (maybe_finish_unload i s)) = rt_in_flight s"
  using assms
  by (auto simp: maybe_finish_unload_def Let_def rewrites_fiber_def finish_record_def [abs_def] split: option.splits)

lemma evaluate_cases:
  obtains (skip) "evaluate i s = ([], s)"
  | (load) f where "find_fiber s i = Some f" "f_state f = Inactive" "f_reactivate f \<ge> 0"
      "rs_satisfiable (resolve s i f)" "\<not> f_apply_failed f" "evaluate i s = ([], start_loading i s)"
  | (error) f where "find_fiber s i = Some f" "f_state f = Inactive" "f_reactivate f \<ge> 0"
      "evaluate i s = ([], set_fiber i (\<lambda>g. g\<lparr>f_error := rs_error (resolve s i f)\<rparr>) s)"
  | (unload) f where "find_fiber s i = Some f" "f_state f = Active" "f_reactivate f \<ge> 0"
      "\<not> (rs_satisfiable (resolve s i f) \<and> rs_providers (resolve s i f) = f_committed f)"
      "evaluate i s = begin_unload i (rs_satisfiable (resolve s i f)) s"
proof (cases "find_fiber s i")
  case None
  then show thesis by (intro skip) (simp add: evaluate_def)
next
  case (Some f)
  consider "f_state f \<noteq> Inactive \<and> f_state f \<noteq> Active \<or> f_reactivate f < 0"
    | "f_reactivate f \<ge> 0" "f_state f = Inactive" "rs_satisfiable (resolve s i f)" "\<not> f_apply_failed f"
    | "f_reactivate f \<ge> 0" "f_state f = Inactive" "\<not> (rs_satisfiable (resolve s i f) \<and> \<not> f_apply_failed f)"
    | "f_reactivate f \<ge> 0" "f_state f = Active"
    by (cases "f_state f"; cases "f_reactivate f < 0";
        cases "rs_satisfiable (resolve s i f) \<and> \<not> f_apply_failed f") (simp_all add: not_less)
  then show thesis
  proof cases
    case 1
    with Some show thesis by (intro skip) (auto simp: evaluate_def)
  next
    case 2
    with Some show thesis by (intro load [OF Some]) (auto simp: evaluate_def Let_def)
  next
    case 3
    show thesis
    proof (cases "f_error f")
      case None
      with 3 Some show thesis by (intro error [OF Some]) (auto simp: evaluate_def Let_def)
    next
      case (Some e)
      with 3 \<open>find_fiber s i = Some f\<close> show thesis by (intro skip) (auto simp: evaluate_def Let_def)
    qed
  next
    case 4
    show thesis
    proof (cases "rs_satisfiable (resolve s i f) \<and> rs_providers (resolve s i f) = f_committed f")
      case True
      with 4 Some show thesis by (intro skip) (auto simp: evaluate_def Let_def)
    next
      case False
      with 4 Some show thesis by (intro unload [OF Some]) (auto simp: evaluate_def Let_def)
    qed
  qed
qed

section \<open>Decrease, and the cascade function\<close>

lemma cascade_measuresI:
  assumes "active_count s' < active_count s \<or>
     active_count s' \<le> active_count s \<and>
       (sum_list (map unload_weight fs) + unloading_count s' < unload_weight c + unloading_count s \<or>
        sum_list (map unload_weight fs) + unloading_count s' \<le> unload_weight c + unloading_count s \<and>
          (sum_list (map key_weight fs) < key_weight c \<or>
           sum_list (map key_weight fs) \<le> key_weight c \<and> sum_list (map frame_weight fs) < frame_weight c))"
  shows "((fs @ cs, s'), (c # cs, s)) \<in> cascade_measures"
  using assms by (auto simp: cascade_measures_def)

lemma begin_unload_decreases:
  assumes "exec c s = begin_unload i b s"
    and "unload_weight c = 2 \<or> (\<exists>f. find_fiber s i = Some f \<and> f_state f = Active)"
    and "key_weight c = 0"
  shows "((fst (exec c s) @ cs, snd (exec c s)), (c # cs, s)) \<in> cascade_measures"
proof (cases "find_fiber s i")
  case None
  with assms show ?thesis by (intro cascade_measuresI) (simp add: begin_unload_absent)
next
  case (Some f)
  show ?thesis
  proof (cases "f_state f")
    case Active
    from begin_unload_Active(2) [OF Some Active, of b] obtain n where
      "rewrites_fiber i (unload_record b n) s (snd (begin_unload i b s))" by blast
    from rewrites_state_count [OF this Some, of "\<lambda>st. st = Active"] Active
    have "active_count (snd (begin_unload i b s)) < active_count s" by (simp add: unload_record_def)
    with assms(1) show ?thesis by (intro cascade_measuresI) simp
  next
    case Loading
    note b = begin_unload_Loading [OF Some Loading, of b]
    from rewrites_state_count [OF b(2) Some, of "\<lambda>st. st = Active"]
      rewrites_state_count [OF b(2) Some, of "\<lambda>st. st = Unloading"] Loading assms b(1) Some
    show ?thesis by (intro cascade_measuresI) (simp add: divert_record_def)
  next
    case Unloading
    with begin_unload_rest [OF Some, of b] assms Some show ?thesis
      by (intro cascade_measuresI) (simp add: state_count_set_fiber_same)
  next
    case Inactive
    with begin_unload_rest [OF Some, of b] assms Some show ?thesis
      by (intro cascade_measuresI) (simp add: state_count_set_fiber_same)
  qed
qed

lemma start_loading_counts:
  assumes "find_fiber s i = Some f" and "f_state f = Inactive"
  shows "active_count (start_loading i s) = active_count s"
    and "unloading_count (start_loading i s) = unloading_count s"
proof -
  obtain g where g: "rewrites_fiber i g s (start_loading i s)" "f_state (g f) = Loading \<or> f_state (g f) = Inactive"
    using start_loading_rewrites [of i s] assms(1) by blast
  from rewrites_state_count [OF g(1) assms(1), of "\<lambda>st. st = Active"] g(2) assms(2)
  show "active_count (start_loading i s) = active_count s" by auto
  from rewrites_state_count [OF g(1) assms(1), of "\<lambda>st. st = Unloading"] g(2) assms(2)
  show "unloading_count (start_loading i s) = unloading_count s" by auto
qed

lemma evaluate_decreases:
  "((fst (exec (FEvaluate i) s) @ cs, snd (exec (FEvaluate i) s)), (FEvaluate i # cs, s)) \<in> cascade_measures"
proof (cases rule: evaluate_cases [of i s])
  case skip
  then show ?thesis by (intro cascade_measuresI) simp
next
  case (load f)
  with start_loading_counts [of s i f] show ?thesis by (intro cascade_measuresI) simp
next
  case (error f)
  then show ?thesis by (intro cascade_measuresI) (simp add: state_count_set_fiber_same)
next
  case (unload f)
  then show ?thesis by (intro begin_unload_decreases) auto
qed

lemma maybe_finish_decreases:
  assumes "exec c s0 = maybe_finish_unload i s" and "key_weight c = 0" and "unload_weight c = 0"
    and "frame_weight c = 1" and eq: "active_count s = active_count s0" "unloading_count s = unloading_count s0"
  shows "((fst (exec c s0) @ cs, snd (exec c s0)), (c # cs, s0)) \<in> cascade_measures"
proof (cases "finish_ready s i")
  case False
  with assms show ?thesis by (intro cascade_measuresI) (simp add: maybe_finish_idle)
next
  case True
  then obtain f where f: "find_fiber s i = Some f" "f_state f = Unloading" "f_remaining f = 0"
    by (auto simp: finish_ready_def)
  note m = maybe_finish_done [OF f]
  from rewrites_state_count [OF m(2) f(1), of "\<lambda>st. st = Active"]
    rewrites_state_count [OF m(2) f(1), of "\<lambda>st. st = Unloading"] f(2) m(1) assms
  show ?thesis by (intro cascade_measuresI) (simp add: finish_record_def)
qed

lemma release_decreases:
  "((fst (exec (FRelease i ds) s) @ cs, snd (exec (FRelease i ds) s)), (FRelease i ds # cs, s)) \<in> cascade_measures"
proof (cases ds)
  case Nil
  then show ?thesis by (intro cascade_measuresI) simp
next
  case (Cons d rest)
  obtain k p where d: "d = (k, p)" by force
  have "state_count P (snd (exec (FRelease i ds) s)) = state_count P s" for P
    by (simp add: Cons d Let_def state_count_set_fiber_same state_count_frame split: option.splits)
  moreover have "sum_list (map unload_weight (fst (exec (FRelease i ds) s))) = 0"
    "sum_list (map key_weight (fst (exec (FRelease i ds) s))) = 0"
    "sum_list (map frame_weight (fst (exec (FRelease i ds) s))) < 2 * length ds + 1"
    by (simp_all add: Cons d Let_def split: option.splits)
  ultimately show ?thesis by (intro cascade_measuresI) simp
qed

lemma finish_tail_counts: "state_count P (snd (finish_tail i sc ks s)) \<le> state_count P s"
proof -
  have "state_count P (open_done i s') \<le> state_count P s" if "state_count P s' = state_count P s" for s'
    using that state_count_open_done [of P i s'] by simp
  then show ?thesis
    by (simp add: finish_tail_def Let_def state_count_frame split: option.splits)
qed

lemma notify_ids_decreases:
  "((fst (exec (FNotifyIds k sc r ids) s) @ cs, snd (exec (FNotifyIds k sc r ids) s)), (FNotifyIds k sc r ids # cs, s))
     \<in> cascade_measures"
  by (rule cascade_measuresI; cases ids) (auto simp: state_count_frame split: option.splits)

lemma exec_decreases:
  assumes "(fs, s') = exec c s"
  shows "((fs @ cs, s'), (c # cs, s)) \<in> cascade_measures"
proof -
  have "((fst (exec c s) @ cs, snd (exec c s)), (c # cs, s)) \<in> cascade_measures"
  proof (cases c)
    case (FEvaluate i)
    then show ?thesis using evaluate_decreases by simp
  next
    case (FBeginUnload i b)
    then show ?thesis using begin_unload_decreases [of c s i b cs] by simp
  next
    case (FUnloadTail i)
    then show ?thesis
      using maybe_finish_decreases [of c s i "set_fiber i (\<lambda>f. f\<lparr>f_stop := True\<rparr>) s" cs]
      by (simp add: unload_tail_def state_count_set_fiber_same)
  next
    case (FMaybeFinish i)
    then show ?thesis using maybe_finish_decreases [of c s i s cs] by simp
  next
    case (FRelease i ds)
    then show ?thesis using release_decreases by simp
  next
    case (FFinishTail i sc ks)
    with finish_tail_counts [of _ i sc ks s] show ?thesis
      by (intro cascade_measuresI) (auto simp: finish_tail_def Let_def order_le_less)
  next
    case (FReactivate i)
    then show ?thesis
      by (intro cascade_measuresI)
         (auto simp: reactivate_step_def state_count_set_fiber_same split: option.splits)
  next
    case (FNotifyKeys sc ks)
    then show ?thesis
      by (intro cascade_measuresI; cases ks) (auto simp: notify_def split: option.splits)
  next
    case (FNotifyIds k sc r ids)
    then show ?thesis using notify_ids_decreases by simp
  next
    case FTransitionFinished
    then show ?thesis by (intro cascade_measuresI) (simp add: state_count_frame)
  qed
  with assms show ?thesis by (metis fst_conv snd_conv)
qed

function run :: "frame list \<Rightarrow> runtime \<Rightarrow> runtime" where
  "run [] s = s"
| "run (c # cs) s = (let (fs, s') = exec c s in run (fs @ cs) s')"
  by pat_completeness auto
termination
proof (relation "cascade_measures")
  show "wf cascade_measures" by (simp add: cascade_measures_def)
qed (use exec_decreases in simp)

declare run.simps(2) [simp del]

lemma run_step: "exec c s = (fs, s') \<Longrightarrow> run (c # cs) s = run (fs @ cs) s'"
  by (simp add: run.simps(2))

section \<open>Assertions on the stack\<close>

locale stack_invariant =
  fixes J :: "frame list \<Rightarrow> runtime \<Rightarrow> bool"
  assumes exec_keeps: "J (c # cs) s \<Longrightarrow> J (fst (exec c s) @ cs) (snd (exec c s))"
begin

lemma run_keeps: "J cs s \<Longrightarrow> J [] (run cs s)"
proof (induction cs s rule: run.induct)
  case (1 s)
  then show ?case by simp
next
  case (2 c cs s)
  obtain fs s' where e: "exec c s = (fs, s')" by force
  with exec_keeps [OF 2(2)] 2(1) [OF e [symmetric] refl] show ?case
    by (simp add: run_step)
qed

end

end
