(* ===== verification/Engine.thy ===== *)
theory Engine
  imports Cascade
begin

text \<open>
  The entry points of the runtime (\<open>src/runtime.cpp\<close>, \<open>src/plugin_context.cpp\<close>,
  \<open>include/araya/plugin_context.hpp\<close>): the completion of an apply, availability signals,
  provisions and lookups of a plugin context, mounting, retirement, reconciliation, the posted
  tasks and the destructor. Each is one handler on the control strand: it does its own work and
  runs the cascade it starts to the end.

  A result of type \<open>string + 'a\<close> is \<open>Inl\<close> the message of the \<open>std::logic_error\<close> (or
  \<open>std::invalid_argument\<close>) the function throws.
\<close>

section \<open>Construction\<close>

text \<open>
  The constructor: the root context, the root activation over it (which draws an id), the empty
  maps. \<open>n\<close> is the next value of the process-wide id counter.
\<close>

definition init_runtime :: "nat \<Rightarrow> runtime" where
  "init_runtime n =
     (let (st, root) = make_root []
      in \<lparr>rt_next_id = Suc n, rt_store = st, rt_root = root, rt_acts = [new_activation root n],
          rt_fibers = [], rt_consumers_of = [], rt_providers_of = [], rt_reconciled = [],
          rt_entry_ctxs = [], rt_entry_isolates = [], rt_in_flight = 0, rt_idle_open = True,
          rt_posted = [], rt_suspended = [], rt_registry = [], rt_stops = 0, rt_reported = [],
          rt_diagnostics = [], rt_trace = [], rt_violated = []\<rparr>)"

section \<open>Publication and the completion of apply\<close>

fun publish_bindings :: "ctx_id \<Rightarrow> fiber_id \<Rightarrow> service_id list \<Rightarrow> runtime \<Rightarrow> runtime" where
  "publish_bindings sc i [] s = s"
| "publish_bindings sc i (k # ks) s =
     publish_bindings sc i ks
       (case lookup_mutable (rt_store s) sc k of
          None \<Rightarrow> s
        | Some (c, b) \<Rightarrow>
            if bprovider b \<noteq> i then s
            else
              let s = araya_assert ''b->state == provider_state::loading'' (bstate b = PLoading) s
              in s\<lparr>rt_store := write_binding c k (realm_for (rt_store s) sc k) (\<lambda>b. b\<lparr>bstate := PActive\<rparr>) (rt_store s)\<rparr>)"

definition record_consumers :: "fiber_id \<Rightarrow> (service_id, fiber_id) omap \<Rightarrow> runtime \<Rightarrow> runtime" where
  "record_consumers i committed s =
     fold (\<lambda>(k, p). set_fiber p (\<lambda>g. g\<lparr>f_consumers := os_insert i (f_consumers g)\<rparr>)) committed s"

definition publish :: "fiber_id \<Rightarrow> fiber \<Rightarrow> runtime \<Rightarrow> frame list \<times> runtime" where
  "publish i f s0 =
     (let s = araya_assert ''f.state == fiber_state::loading'' (f_state f = Loading) s0;
          s = araya_assert ''f.activation'' (f_activation f \<noteq> None) s;
          s = araya_assert ''f.activation->state == fiber_state::loading''
                (map_option act_state (Option.bind (f_activation f) (find_act s)) = Some Loading) s;
          s = araya_assert ''providers_still_active(f)'' (providers_still_active s f) s;
          s = publish_bindings (f_scope f) i (f_provide f) s;
          s = set_fiber i (\<lambda>f. f\<lparr>f_state := Active, f_cell_state := Active\<rparr>) s;
          s = set_act_opt (f_activation f) (\<lambda>a. a\<lparr>act_state := Active\<rparr>) s;
          s = record_consumers i (f_committed f) s
      in ([FNotifyKeys (f_scope f) (f_provide f), FTransitionFinished], s))"

text \<open>The outcome of a failed apply: which error the fiber keeps, and whether re-entry is withheld.\<close>

definition apply_outcome :: "fiber_error option \<Rightarrow> bool \<Rightarrow> fiber \<Rightarrow> fiber" where
  "apply_outcome thrown cancelled f =
     (if f_error f \<noteq> None then f
      else case thrown of
             Some e \<Rightarrow> f\<lparr>f_error := Some e, f_apply_failed := True\<rparr>
           | None \<Rightarrow> if cancelled then f\<lparr>f_error := Some CancelledBeforeActive\<rparr> else f)"

definition deactivate_record :: "fiber \<Rightarrow> fiber" where
  "deactivate_record f = f\<lparr>f_state := Inactive, f_cell_error := f_error f, f_completed := True,
     f_cell_state := Inactive, f_instance := None, f_committed := []\<rparr>"

definition abort_apply :: "fiber_id \<Rightarrow> fiber \<Rightarrow> fiber_error option \<Rightarrow> bool \<Rightarrow> bool \<Rightarrow> runtime \<Rightarrow> frame list \<times> runtime" where
  "abort_apply i f thrown cancelled stale s =
     (let s = set_fiber i (apply_outcome thrown cancelled) s;
          s = (case f_activation f of
                 None \<Rightarrow> s
               | Some a \<Rightarrow> set_act a (\<lambda>x. x\<lparr>act_state := Inactive\<rparr>) (teardown a s));
          s = set_fiber i deactivate_record s;
          s = open_done i s
      in ((if stale \<and> f_reactivate f \<ge> 0 then [FEvaluate i] else []) @ [FTransitionFinished], s))"

definition apply_completed :: "fiber_id \<Rightarrow> fiber_error option \<Rightarrow> runtime \<Rightarrow> frame list \<times> runtime" where
  "apply_completed i thrown s0 =
     (case find_fiber s0 i of
        None \<Rightarrow> ([], s0)
      | Some f \<Rightarrow>
          if f_state f \<noteq> Loading \<and> f_state f \<noteq> Unloading then ([], s0)
          else
            let s = retire_fiber i s0;
                stale = \<not> providers_still_active s f;
                cancelled = f_stop f
            in if thrown \<noteq> None \<or> cancelled \<or> stale \<or> f_state f = Unloading
               then abort_apply i f thrown cancelled stale s
               else publish i f s)"

definition run_frames :: "frame list \<times> runtime \<Rightarrow> runtime" where
  "run_frames r = run (fst r) (snd r)"

definition on_apply_completed :: "fiber_id \<Rightarrow> fiber_error option \<Rightarrow> runtime \<Rightarrow> runtime" where
  "on_apply_completed i thrown s = run_frames (apply_completed i thrown s)"

section \<open>Availability\<close>

definition signal_availability :: "service_id \<Rightarrow> ctx_id \<Rightarrow> fiber_id \<Rightarrow> bool \<Rightarrow> runtime \<Rightarrow> string + runtime" where
  "signal_availability k sc provider available s =
     (case lookup_mutable (rt_store s) sc k of
        None \<Rightarrow> Inl (''signal_availability: no binding for '' @ sid_name k)
      | Some (c, b) \<Rightarrow>
          if bvalue b = None then Inl (''signal_availability: no binding for '' @ sid_name k)
          else if bprovider b \<noteq> provider
          then Inl (''signal_availability: fiber '' @ show_nat provider @ '' does not provide '' @ sid_name k)
          else if \<not> available
          then Inl (''signal_availability: deactivation is retirement - unload the provider of '' @ sid_name k)
          else if bavailable b then Inr s
          else
            let r = realm_for (rt_store s) sc k;
                s = s\<lparr>rt_store := write_binding c k r (\<lambda>b. b\<lparr>bavailable := True\<rparr>) (rt_store s)\<rparr>
            in Inr (run (notify k sc r s) s))"

section \<open>The plugin context\<close>

text \<open>
  The plugin-facing operations take the activation they belong to. The availability check of a
  provision is plugin code; its outcome is a parameter.
\<close>

datatype check_outcome = NoCheck | CheckReturns bool | CheckThrows

fun check_available :: "check_outcome \<Rightarrow> bool" where
  "check_available NoCheck = True"
| "check_available (CheckReturns b) = b"
| "check_available CheckThrows = False"

definition add_effect :: "nat \<Rightarrow> cleanup \<Rightarrow> runtime \<Rightarrow> runtime" where
  "add_effect a c s =
     set_act a (\<lambda>x. x\<lparr>act_effects := (act_effects x)\<lparr>es_entries := es_entries (act_effects x) @ [(c, False)]\<rparr>\<rparr>) s"

definition provide_raw :: "nat \<Rightarrow> service_id \<Rightarrow> nat option \<Rightarrow> check_outcome \<Rightarrow> runtime \<Rightarrow> string + (runtime \<times> registration)" where
  "provide_raw a k value check s =
     (case find_act s a of
        None \<Rightarrow> Inl ''no activation''
      | Some act \<Rightarrow>
          if act_spec_declared act \<and> k \<notin> set (act_provide_specs act)
          then Inl (''undeclared provision: '' @ sid_name k)
          else
            let b = \<lparr>bvalue = value, bprovider = act_id act,
                     bstate = (if act_state act = Active then PActive else PLoading),
                     bavailable = check_available check\<rparr>;
                s = fold (\<lambda>t. araya_assert t False) (bind_asserts b) s
            in (case bind_service (act_scope act) k b (rt_store s) of
                  None \<Rightarrow> Inl ''null parent of a pass-through context''
                | Some st \<Rightarrow>
                    Inr (add_effect a (Unprovide (act_scope act) k (act_id act)) (s\<lparr>rt_store := st\<rparr>),
                         \<lparr>reg_index = length (es_entries (act_effects act)), reg_active = True\<rparr>)))"

text \<open>\<open>effect\<close>: a setup that throws records nothing; one that returns no cleanup is a no-op.\<close>

definition effect :: "nat \<Rightarrow> string + cleanup option \<Rightarrow> runtime \<Rightarrow> string + (runtime \<times> registration option)" where
  "effect a outcome s =
     (case outcome of
        Inl e \<Rightarrow> Inl e
      | Inr None \<Rightarrow> Inr (s, None)
      | Inr (Some c) \<Rightarrow>
          Inr (add_effect a c s,
               Some \<lparr>reg_index = (case find_act s a of None \<Rightarrow> 0 | Some x \<Rightarrow> length (es_entries (act_effects x))),
                     reg_active = True\<rparr>))"

definition release_effect :: "nat \<Rightarrow> registration \<Rightarrow> runtime \<Rightarrow> registration \<times> runtime" where
  "release_effect a reg s =
     (case find_act s a of
        None \<Rightarrow> (reg, s)
      | Some act \<Rightarrow>
          let (reg', effects, s') = release run_cleanup reg (act_effects act) s
          in (reg', set_act a (\<lambda>x. x\<lparr>act_effects := effects\<rparr>) s'))"

datatype access_error = UndeclaredAccess service_id | Unresolved service_id

text \<open>
  The walk over the parent activations. An activation's parent was created before it, so the guard
  \<open>p < a\<close> never cuts the walk in a state the engine builds.
\<close>

function parent_walk :: "activation list \<Rightarrow> service_id \<Rightarrow> nat option \<Rightarrow> access_error + binding option" where
  "parent_walk acts k None = Inl (UndeclaredAccess k)"
| "parent_walk acts k (Some p) =
     (if p < length acts
      then (case map_of (act_committed_view (acts ! p)) k of
              Some b \<Rightarrow> Inr (Some b)
            | None \<Rightarrow>
                if k \<in> set (act_inject_specs (acts ! p)) then Inr None
                else (case act_parent (acts ! p) of
                        Some q \<Rightarrow> if q < p then parent_walk acts k (Some q) else Inl (UndeclaredAccess k)
                      | None \<Rightarrow> Inl (UndeclaredAccess k)))
      else Inl (UndeclaredAccess k))"
  by pat_completeness auto
termination
  by (relation "measure (\<lambda>(acts, k, p). case p of None \<Rightarrow> 0 | Some q \<Rightarrow> Suc q)") auto

definition find_binding :: "runtime \<Rightarrow> nat \<Rightarrow> service_id \<Rightarrow> access_error + binding option" where
  "find_binding s a k =
     (let act = rt_acts s ! a
      in if act_spec_declared act
         then (if k \<in> set (act_inject_specs act)
               then Inr (map_of (act_committed_view act) k)
               else parent_walk (rt_acts s) k (act_parent act))
         else Inr (case lookup (rt_store s) (act_scope act) k of
                     None \<Rightarrow> None
                   | Some b \<Rightarrow> if bvalue b = None \<or> bstate b \<noteq> PActive then None else Some b))"

definition merged_metadata :: "runtime \<Rightarrow> nat \<Rightarrow> service_id \<Rightarrow> service_metadata" where
  "merged_metadata s a k =
     (let act = rt_acts s ! a;
          declared = (case map_of (act_inject_metadata act) k of None \<Rightarrow> [] | Some m \<Rightarrow> m)
      in overlay declared (metadata_for (rt_store s) (act_scope act) k))"

definition require :: "runtime \<Rightarrow> nat \<Rightarrow> service_id \<Rightarrow> access_error + (nat option \<times> fiber_id \<times> service_metadata)" where
  "require s a k =
     (case find_binding s a k of
        Inl e \<Rightarrow> Inl e
      | Inr None \<Rightarrow> Inl (Unresolved k)
      | Inr (Some b) \<Rightarrow> Inr (bvalue b, bprovider b, merged_metadata s a k))"

section \<open>Mounting\<close>

definition index_keys :: "fiber_id \<Rightarrow> service_id list \<Rightarrow> (service_id, fiber_id list) omap \<Rightarrow> (service_id, fiber_id list) omap" where
  "index_keys i ks m =
     fold (\<lambda>k m. om_insert k (os_insert i (case map_of m k of None \<Rightarrow> [] | Some ids \<Rightarrow> ids)) m) ks m"

definition new_fiber :: "descriptor \<Rightarrow> component_spec \<Rightarrow> ctx_id \<Rightarrow> fiber_id \<Rightarrow> nat option \<Rightarrow> fiber" where
  "new_fiber d spec sc parent pact = \<lparr>f_desc = d, f_config = cs_config spec, f_scope = sc, f_name = cs_name spec,
     f_isolate = cs_isolate spec, f_parent_fiber = parent, f_parent_activation = pact, f_state = Inactive,
     f_activation = None, f_instance = None, f_inject_keys = map dep_key (d_inject d),
     f_inject = map (\<lambda>x. (dep_key x, dep_required x)) (d_inject d), f_provide = d_provide d, f_committed = [],
     f_consumers = [], f_remaining = 0, f_reactivate = 0, f_apply_failed = False, f_error = None,
     f_done_open = True, f_waiters = [], f_stop = False, f_cell_state = Loading, f_cell_error = None,
     f_completed = False\<rparr>"

definition insert_fiber :: "descriptor \<Rightarrow> component_spec \<Rightarrow> fiber_id \<Rightarrow> runtime \<Rightarrow> fiber_id \<times> runtime" where
  "insert_fiber d spec parent s0 =
     (let sc = (case cs_parent spec of None \<Rightarrow> rt_root s0 | Some p \<Rightarrow> p);
          pact = (if parent = 0 then None else Option.bind (find_fiber s0 parent) f_activation);
          (i, s) = make_fiber s0;
          f = new_fiber d spec sc parent pact
      in (i, s\<lparr>rt_consumers_of := index_keys i (f_inject_keys f) (rt_consumers_of s),
               rt_providers_of := index_keys i (f_provide f) (rt_providers_of s),
               rt_fibers := om_emplace i f (rt_fibers s)\<rparr>))"

definition cycles_possible :: "runtime \<Rightarrow> descriptor \<Rightarrow> bool" where
  "cycles_possible s d \<longleftrightarrow> (\<exists>x \<in> set (d_inject d). map_of (rt_providers_of s) (dep_key x) \<noteq> None)"

definition mount_locked :: "component_spec \<Rightarrow> fiber_id \<Rightarrow> runtime \<Rightarrow> string + (fiber_id \<times> runtime)" where
  "mount_locked spec parent s0 =
     (case cs_descriptor spec of
        None \<Rightarrow> Inl ''component_spec has no descriptor''
      | Some d \<Rightarrow>
          let (i, s) = insert_fiber d spec parent s0;
              s = run [FEvaluate i] s
          in Inr (i, diagnose (cycles_possible s d) s))"

text \<open>
  \<open>plugin_context::mount\<close>: the child context is made when the plugin calls it, the rest runs in a
  handler of its own.
\<close>

definition context_mount_call :: "nat \<Rightarrow> component_spec \<Rightarrow> runtime \<Rightarrow> component_spec \<times> runtime" where
  "context_mount_call a spec s =
     (case find_act s a of
        None \<Rightarrow> (spec, s)
      | Some act \<Rightarrow>
          if act_spec_declared act
          then (let (st, c) = make_child (act_scope act) (rt_store s)
                in (spec\<lparr>cs_parent := Some c\<rparr>, s\<lparr>rt_store := st\<rparr>))
          else (spec, s))"

definition context_mount_run :: "nat \<Rightarrow> component_spec \<Rightarrow> runtime \<Rightarrow> string + (fiber_id \<times> runtime)" where
  "context_mount_run a spec s =
     (case find_act s a of
        None \<Rightarrow> Inl ''plugin_context is not attached to a runtime''
      | Some act \<Rightarrow>
          (case mount_locked spec (act_id act) s of
             Inl e \<Rightarrow> Inl e
           | Inr (i, s) \<Rightarrow> Inr (i, if act_spec_declared act then add_effect a (RetireChild i) s else s)))"

section \<open>Retirement\<close>

definition begin_retire :: "fiber_id \<Rightarrow> runtime \<Rightarrow> runtime" where
  "begin_retire i s = run [FBeginUnload i False] (set_fiber i (\<lambda>f. f\<lparr>f_reactivate := -1\<rparr>) s)"

text \<open>\<open>done->wait\<close> with the erasing continuation: at once when the gate is open.\<close>

definition erase_when_done :: "fiber_id \<Rightarrow> runtime \<Rightarrow> runtime" where
  "erase_when_done i s =
     (case find_fiber s i of
        None \<Rightarrow> s
      | Some f \<Rightarrow>
          if f_done_open f then erase_fiber i s
          else set_fiber i (\<lambda>f. f\<lparr>f_waiters := f_waiters f @ [EraseFiber i]\<rparr>) s)"

definition retire :: "fiber_id \<Rightarrow> runtime \<Rightarrow> runtime" where
  "retire i s =
     (case find_fiber s i of
        None \<Rightarrow> s
      | Some f \<Rightarrow>
          if f_state f \<noteq> Inactive then erase_when_done i (begin_retire i s)
          else erase_fiber i s)"

definition retire_child_task :: "fiber_id \<Rightarrow> runtime \<Rightarrow> runtime" where
  "retire_child_task i s0 =
     (case find_fiber s0 i of
        None \<Rightarrow> s0
      | Some _ \<Rightarrow>
          let s = begin_retire i s0
          in if state_of s i = Inactive then erase_fiber i s else erase_when_done i s)"

text \<open>\<open>fiber_handle::cancel\<close>: a cooperative stop request on the fiber's current stop source.\<close>

definition cancel :: "fiber_id \<Rightarrow> runtime \<Rightarrow> runtime" where
  "cancel i s = set_fiber i (\<lambda>f. f\<lparr>f_stop := True\<rparr>) s"

end
