(* ===== verification/Reconcile.thy ===== *)
theory Reconcile
  imports Engine
begin

text \<open>
  The declarative half of \<open>src/runtime.cpp\<close>: \<open>reconcile\<close> diffs a desired tree against the live
  fibers, \<open>reassign\<close> moves a fiber's bindings to another scope or realm; then the posted tasks, the
  read accessors, \<open>validate_invariants\<close>, and the destructor.

  A \<open>reconcile\<close> that has gates to wait for is suspended (\<open>rt_suspended\<close>) and resumed by the gates;
  the mounting of the missing entries happens in tasks of their own, one per entry.
\<close>

section \<open>Reassignment\<close>

definition move_binding :: "fiber_id \<Rightarrow> ctx_id \<Rightarrow> ctx_id \<Rightarrow> realm \<Rightarrow> service_id \<Rightarrow> bool \<times> runtime \<Rightarrow> bool \<times> runtime" where
  "move_binding i old_scope new_scope old_realm k r =
     (case r of (moved, s) \<Rightarrow>
        (case lookup_realm (rt_store s) old_scope k old_realm of
           None \<Rightarrow> (moved, s)
         | Some b \<Rightarrow>
             if bprovider b \<noteq> i then (moved, s)
             else
               let new_realm = realm_for (rt_store s) new_scope k
               in if old_scope = new_scope \<and> old_realm = new_realm then (moved, s)
                  else if lookup_realm (rt_store s) new_scope k new_realm \<noteq> None then (moved, s)
                  else (case bind_realm new_scope k new_realm b (rt_store s) of
                          None \<Rightarrow> (moved, s)
                        | Some st \<Rightarrow>
                            (True, (fold (\<lambda>t. araya_assert t False) (bind_asserts b) s)
                               \<lparr>rt_store := unbind_realm old_scope k old_realm st\<rparr>))))"

definition realm_in :: "(service_id, realm) omap \<Rightarrow> service_id \<Rightarrow> realm" where
  "realm_in old_realms k = (case map_of old_realms k of None \<Rightarrow> '''' | Some r \<Rightarrow> r)"

definition run_notify :: "service_id \<Rightarrow> ctx_id \<Rightarrow> realm \<Rightarrow> runtime \<Rightarrow> runtime" where
  "run_notify k sc r s = run (notify k sc r s) s"

definition reassign :: "fiber_id \<Rightarrow> component_spec \<Rightarrow> ctx_id \<Rightarrow> (service_id, realm) omap \<Rightarrow> runtime \<Rightarrow> runtime" where
  "reassign i next new_scope old_realms s0 =
     (case find_fiber s0 i of
        None \<Rightarrow> s0
      | Some f \<Rightarrow>
          let old_scope = f_scope f;
              (moved, s) = fold (\<lambda>k. move_binding i old_scope new_scope (realm_in old_realms k) k) (f_provide f) (False, s0);
              s = (if moved \<or> old_scope \<noteq> new_scope
                   then fold (\<lambda>k s. let s = run_notify k old_scope (realm_in old_realms k) s
                                     in run_notify k new_scope (realm_for (rt_store s) new_scope k) s) (f_provide f) s
                   else s);
              s = set_fiber i (\<lambda>f. f\<lparr>f_scope := new_scope, f_isolate := cs_isolate next, f_name := cs_name next\<rparr>) s
          in if state_of s i = Active then run [FEvaluate i] s else s)"

section \<open>The diff\<close>

text \<open>
  The diff state: the gates to wait for, oldest first, and the runtime. \<open>drop_entry\<close> is the
  retirement of an entry's fiber that four branches share.
\<close>

definition drop_entry :: "string \<Rightarrow> fiber_id \<Rightarrow> fiber_id list \<times> runtime \<Rightarrow> fiber_id list \<times> runtime" where
  "drop_entry path i r =
     (case r of (gates, s) \<Rightarrow>
        let s = begin_retire i s
        in (gates @ [i], s\<lparr>rt_reconciled := om_erase path (rt_reconciled s),
                           rt_entry_ctxs := om_erase path (rt_entry_ctxs s)\<rparr>))"

definition same_impl :: "fiber \<Rightarrow> component_spec \<Rightarrow> bool" where
  "same_impl f spec = (case cs_descriptor spec of None \<Rightarrow> False | Some d \<Rightarrow> d_name (f_desc f) = d_name d)"

definition applies_config :: "fiber \<Rightarrow> config \<Rightarrow> bool" where
  "applies_config f cfg =
     (case f_instance f of
        None \<Rightarrow> False
      | Some inst \<Rightarrow> f_state f = Active \<and> d_reconfigure (f_desc f) inst cfg)"

definition move_entry :: "string \<Rightarrow> fiber_id \<Rightarrow> fiber \<Rightarrow> component_spec \<Rightarrow> fiber_id list \<times> runtime \<Rightarrow> fiber_id list \<times> runtime" where
  "move_entry path i f spec r =
     (case r of (gates, s0) \<Rightarrow>
        let old_realms = fold (\<lambda>k. om_insert k (realm_for (rt_store s0) (f_scope f) k)) (f_provide f) [];
            (s, sc) = entry_scope_for path spec s0;
            scope_moved = (f_scope f \<noteq> sc);
            realms_changed = (f_isolate f \<noteq> cs_isolate spec)
        in if scope_moved \<and> f_state f = Loading then drop_entry path i (gates, s)
           else if scope_moved \<or> realms_changed
           then (if f_state f = Active \<or> f_state f = Loading
                 then (gates, reassign i spec sc old_realms s)
                 else (gates, set_fiber i (\<lambda>f. f\<lparr>f_scope := sc, f_isolate := cs_isolate spec\<rparr>) s))
           else (gates, s))"

definition diff_entry :: "(string, component_spec) omap \<Rightarrow> string \<times> fiber_id \<Rightarrow> fiber_id list \<times> runtime \<Rightarrow> fiber_id list \<times> runtime" where
  "diff_entry desired entry r =
     (case entry of (path, i) \<Rightarrow> case r of (gates, s) \<Rightarrow>
        (case find_fiber s i of
           None \<Rightarrow> (gates, s\<lparr>rt_reconciled := om_erase path (rt_reconciled s),
                             rt_entry_ctxs := om_erase path (rt_entry_ctxs s)\<rparr>)
         | Some f \<Rightarrow>
             (case map_of desired path of
                None \<Rightarrow> drop_entry path i r
              | Some spec \<Rightarrow>
                  if \<not> same_impl f spec then drop_entry path i r
                  else if f_config f \<noteq> cs_config spec
                  then (if applies_config f (cs_config spec)
                        then move_entry path i (f\<lparr>f_config := cs_config spec\<rparr>) spec
                               (gates, set_fiber i (\<lambda>f. f\<lparr>f_config := cs_config spec\<rparr>) s)
                        else drop_entry path i r)
                  else move_entry path i f spec r)))"

definition desired_by_path :: "desired_component list \<Rightarrow> (string, component_spec) omap" where
  "desired_by_path ds = fold (\<lambda>d. om_insert (dc_path d) (dc_spec d)) ds []"

definition fresh_wait :: "runtime \<Rightarrow> nat" where
  "fresh_wait s = fold (\<lambda>(n, sr) m. max m (Suc n)) (rt_suspended s) 0"

definition reconcile :: "desired_component list \<Rightarrow> runtime \<Rightarrow> runtime" where
  "reconcile desired s0 =
     (let (gates, s) = fold (diff_entry (desired_by_path desired)) (rt_reconciled s0) ([], s0);
          n = fresh_wait s
      in resume_reconcile n
           (s\<lparr>rt_suspended := om_insert n \<lparr>sr_gates = gates, sr_erase = gates, sr_desired = desired\<rparr> (rt_suspended s)\<rparr>))"

section \<open>Posted tasks\<close>

fun run_task :: "task \<Rightarrow> runtime \<Rightarrow> runtime" where
  "run_task (TRetireChild i) s = retire_child_task i s"
| "run_task (TMountDesired path spec rest) s =
     (case mount_locked spec 0 s of
        Inl e \<Rightarrow> s
      | Inr (i, s) \<Rightarrow> advance_mounts rest (s\<lparr>rt_reconciled := om_insert path i (rt_reconciled s)\<rparr>))"

definition poll_task :: "runtime \<Rightarrow> runtime" where
  "poll_task s = (case rt_posted s of [] \<Rightarrow> s | t # ts \<Rightarrow> run_task t (s\<lparr>rt_posted := ts\<rparr>))"

section \<open>Read accessors\<close>

record fiber_info =
  fi_id :: fiber_id
  fi_name :: string
  fi_descriptor :: string
  fi_state :: fiber_state
  fi_error :: "fiber_error option"
  fi_parent :: fiber_id
  fi_scope :: ctx_id
  fi_inject :: "service_id list"
  fi_provide :: "service_id list"
  fi_committed :: "(service_id, fiber_id) omap"

definition fibers_snapshot :: "runtime \<Rightarrow> fiber_info list" where
  "fibers_snapshot s =
     map (\<lambda>(i, f). \<lparr>fi_id = i, fi_name = f_name f, fi_descriptor = d_name (f_desc f), fi_state = f_state f,
            fi_error = f_error f, fi_parent = f_parent_fiber f, fi_scope = f_scope f, fi_inject = f_inject_keys f,
            fi_provide = f_provide f, fi_committed = f_committed f\<rparr>) (rt_fibers s)"

text \<open>\<open>validate_invariants\<close>, assertion by assertion; \<open>ARAYA_ASSERT(f->id == id)\<close> holds by construction.\<close>

definition valid_inactive :: "runtime \<Rightarrow> fiber \<Rightarrow> bool" where
  "valid_inactive s f \<longleftrightarrow>
     f_committed f = [] \<and> f_remaining f = 0 \<and>
     (case f_activation f of
        None \<Rightarrow> True
      | Some a \<Rightarrow> act_state (rt_acts s ! a) = Inactive \<and> es_entries (act_effects (rt_acts s ! a)) = [])"

definition valid_committed :: "runtime \<Rightarrow> fiber \<Rightarrow> bool" where
  "valid_committed s f \<longleftrightarrow>
     (\<forall>(k, p) \<in> set (f_committed f).
        k \<in> set (f_inject_keys f) \<and> find_fiber s p \<noteq> None \<and> state_of s p \<noteq> Inactive) \<and>
     (case f_activation f of
        None \<Rightarrow> True
      | Some a \<Rightarrow>
          length (act_committed_view (rt_acts s ! a)) = length (f_committed f) \<and>
          (\<forall>(k, b) \<in> set (act_committed_view (rt_acts s ! a)).
             bvalue b \<noteq> None \<and> bprovider b \<noteq> 0 \<and> map_of (f_committed f) k = Some (bprovider b)))"

definition valid_guards :: "runtime \<Rightarrow> fiber_id \<Rightarrow> fiber \<Rightarrow> bool" where
  "valid_guards s i f \<longleftrightarrow>
     (\<forall>c \<in> set (f_consumers f). find_fiber s c \<noteq> None \<and> committed_to s c i) \<and>
     f_remaining f = (if f_state f = Unloading then length (installed_consumers s (f_consumers f)) else 0)"

definition valid_index :: "runtime \<Rightarrow> (fiber \<Rightarrow> service_id list) \<Rightarrow> (service_id, fiber_id list) omap \<Rightarrow> bool" where
  "valid_index s keys ix \<longleftrightarrow>
     (\<forall>(k, ids) \<in> set ix. \<forall>c \<in> set ids. find_fiber s c \<noteq> None) \<and>
     (\<forall>(i, f) \<in> set (rt_fibers s). \<forall>k \<in> set (keys f). case map_of ix k of None \<Rightarrow> False | Some ids \<Rightarrow> i \<in> set ids)"

definition valid_declarations :: "fiber \<Rightarrow> bool" where
  "valid_declarations f \<longleftrightarrow>
     f_inject_keys f = map dep_key (d_inject (f_desc f)) \<and> f_provide f = d_provide (f_desc f)"

definition validate_invariants :: "runtime \<Rightarrow> bool" where
  "validate_invariants s \<longleftrightarrow>
     (\<forall>(i, f) \<in> set (rt_fibers s).
        valid_declarations f \<and>
        (if f_state f = Inactive then valid_inactive s f
         else valid_committed s f \<and> valid_guards s i f)) \<and>
     valid_index s f_inject_keys (rt_consumers_of s) \<and> valid_index s f_provide (rt_providers_of s)"

section \<open>Destruction\<close>

text \<open>
  The destructor stamps every fiber retired before it unloads the first; \<open>drop_fibers\<close> is its last
  loop, after the drain.
\<close>

definition stamp_retired :: "runtime \<Rightarrow> runtime" where
  "stamp_retired s = s\<lparr>rt_fibers := map (\<lambda>(i, f). (i, f\<lparr>f_reactivate := -1\<rparr>)) (rt_fibers s)\<rparr>"

definition unload_all :: "runtime \<Rightarrow> runtime" where
  "unload_all s = fold (\<lambda>i s. run [FBeginUnload i False] s) (map fst (rt_fibers s)) s"

definition destroy :: "runtime \<Rightarrow> runtime" where
  "destroy s = unload_all (stamp_retired s)"

definition drop_fibers :: "runtime \<Rightarrow> runtime" where
  "drop_fibers s = fold retire_fiber (map fst (rt_fibers s)) s"

end
