(* ===== verification/Quiescence.thy ===== *)
theory Quiescence
  imports Reconcile
begin

text \<open>
  Quiescence: the transition counter counts the fibers in transition. \<open>wait_idle\<close> returns when the
  counter is zero, so this is what makes its answer mean that nothing is loading or unloading.

  The counter can only go wrong if a fiber is erased while it is in transition, so the invariant
  also follows who may be erased: only a retired fiber, only once its gate is open, and a retired
  fiber never loads again. \<open>quiet\<close> is what one frame may do to one fiber.
\<close>

section \<open>What a frame may do to a fiber\<close>

definition retired :: "fiber \<Rightarrow> bool" where
  "retired f \<longleftrightarrow> f_reactivate f < 0"

definition in_transit :: "fiber_state \<Rightarrow> bool" where
  "in_transit st \<longleftrightarrow> st = Loading \<or> st = Unloading"

abbreviation transit_count :: "runtime \<Rightarrow> nat" where
  "transit_count \<equiv> state_count in_transit"

definition gate_ok :: "fiber \<Rightarrow> bool" where
  "gate_ok f \<longleftrightarrow> (f_state f = Unloading \<longrightarrow> \<not> f_done_open f)"

definition quiet :: "fiber \<Rightarrow> fiber \<Rightarrow> bool" where
  "quiet f f' \<longleftrightarrow>
     retired f' = retired f \<and>
     (retired f \<and> f_state f = Inactive \<longrightarrow> f_state f' = Inactive) \<and>
     (retired f \<and> f_state f = Unloading \<longrightarrow> f_state f' = Inactive \<or> f_state f' = Unloading) \<and>
     (gate_ok f \<longrightarrow> gate_ok f') \<and>
     (\<forall>j. EraseFiber j \<in> set (f_waiters f') \<longrightarrow> EraseFiber j \<in> set (f_waiters f))"

definition quiet_fibers :: "runtime \<Rightarrow> runtime \<Rightarrow> bool" where
  "quiet_fibers s s' \<longleftrightarrow>
     (\<forall>j f'. find_fiber s' j = Some f' \<longrightarrow> (\<exists>f. find_fiber s j = Some f \<and> quiet f f')) \<and>
     (om_sorted (rt_fibers s) \<longrightarrow> om_sorted (rt_fibers s')) \<and>
     rt_next_id s \<le> rt_next_id s' \<and> set (rt_violated s) \<subseteq> set (rt_violated s')"

definition quiet_step :: "runtime \<Rightarrow> runtime \<Rightarrow> bool" where
  "quiet_step s s' \<longleftrightarrow> quiet_fibers s s' \<and> rt_suspended s' = rt_suspended s"

lemma quiet_refl [simp]: "quiet f f"
  by (simp add: quiet_def)

lemma quiet_trans: "quiet f g \<Longrightarrow> quiet g h \<Longrightarrow> quiet f h"
  unfolding quiet_def by blast

lemma quiet_fibers_refl [simp]: "quiet_fibers s s"
  by (auto simp: quiet_fibers_def)

lemma quiet_fibers_trans: "quiet_fibers s t \<Longrightarrow> quiet_fibers t u \<Longrightarrow> quiet_fibers s u"
  unfolding quiet_fibers_def by (metis order_trans quiet_trans)

lemma quiet_step_refl [simp]: "quiet_step s s"
  by (simp add: quiet_step_def)

lemma quiet_step_trans: "quiet_step s t \<Longrightarrow> quiet_step t u \<Longrightarrow> quiet_step s u"
  unfolding quiet_step_def using quiet_fibers_trans by auto

lemma quiet_fibers_frame:
  assumes "rt_fibers s' = rt_fibers s" "rt_next_id s \<le> rt_next_id s'"
    "set (rt_violated s) \<subseteq> set (rt_violated s')"
  shows "quiet_fibers s s'"
  using assms by (auto simp: quiet_fibers_def find_fiber_def)

lemma quiet_fibers_rewrites:
  assumes "rewrites_fiber i g s s'" and "\<And>f. find_fiber s i = Some f \<Longrightarrow> quiet f (g f)"
    and "rt_next_id s \<le> rt_next_id s'" "set (rt_violated s) \<subseteq> set (rt_violated s')"
  shows "quiet_fibers s s'"
  using assms by (auto simp: quiet_fibers_def rewrites_find) (simp add: rewrites_fiber_def)

lemma rewrites_self: "rewrites_fiber i g s (set_fiber i g s)"
  by (simp add: rewrites_fiber_def set_fiber_def)

lemma quiet_fibers_set_fiber:
  assumes "\<And>f. find_fiber s i = Some f \<Longrightarrow> quiet f (g f)"
  shows "quiet_fibers s (set_fiber i g s)"
  by (rule quiet_fibers_rewrites [OF rewrites_self]) (use assms in \<open>simp_all add: set_fiber_def\<close>)

lemma quiet_step_frame:
  assumes "rt_fibers s' = rt_fibers s" "rt_suspended s' = rt_suspended s" "rt_next_id s \<le> rt_next_id s'"
    "set (rt_violated s) \<subseteq> set (rt_violated s')"
  shows "quiet_step s s'"
  using assms by (simp add: quiet_step_def quiet_fibers_frame)

lemma quiet_step_set_fiber:
  assumes "\<And>f. find_fiber s i = Some f \<Longrightarrow> quiet f (g f)"
  shows "quiet_step s (set_fiber i g s)"
  using quiet_fibers_set_fiber [OF assms] by (simp add: quiet_step_def set_fiber_def)

lemma quiet_step_rewrites:
  assumes "rewrites_fiber i g s s'" and "\<And>f. find_fiber s i = Some f \<Longrightarrow> quiet f (g f)"
    and "rt_suspended s' = rt_suspended s" "rt_next_id s \<le> rt_next_id s'"
    "set (rt_violated s) \<subseteq> set (rt_violated s')"
  shows "quiet_step s s'"
  using quiet_fibers_rewrites [OF assms(1,2,4,5)] assms(3) by (simp add: quiet_step_def)

lemma quiet_fibers_erase: "quiet_fibers s (erase_fiber i s)"
proof -
  have "rt_next_id (erase_fiber i s) = rt_next_id s" "rt_violated (erase_fiber i s) = rt_violated s"
    by (simp_all add: erase_fiber_def unindex_def retire_fiber_def)
  then show ?thesis by (auto simp: quiet_fibers_def erase_fiber_fibers)
qed

section \<open>The invariant\<close>

fun open_weight :: "frame \<Rightarrow> nat" where
  "open_weight (FFinishTail i sc ks) = 1"
| "open_weight (FReactivate i) = 1"
| "open_weight FTransitionFinished = 1"
| "open_weight _ = 0"

definition counted :: "frame list \<Rightarrow> runtime \<Rightarrow> bool" where
  "counted cs s \<longleftrightarrow> rt_in_flight s = transit_count s + sum_list (map open_weight cs) \<and>
                     rt_idle_open s = (rt_in_flight s = 0)"

definition erasable :: "runtime \<Rightarrow> fiber_id list \<Rightarrow> fiber_id \<Rightarrow> bool" where
  "erasable s gates j \<longleftrightarrow>
     j < rt_next_id s \<and>
     (\<forall>f. find_fiber s j = Some f \<longrightarrow>
        retired f \<and> (f_state f = Inactive \<or> f_state f = Unloading \<and> j \<in> set gates))"

definition erase_safe :: "frame list \<Rightarrow> runtime \<Rightarrow> bool" where
  "erase_safe cs s \<longleftrightarrow>
     om_sorted (rt_fibers s) \<and>
     (\<forall>i f. find_fiber s i = Some f \<longrightarrow> i < rt_next_id s \<and> gate_ok f \<and>
        (retired f \<longrightarrow> f_state f = Inactive \<or> f_state f = Unloading \<or> (\<exists>b. FBeginUnload i b \<in> set cs)) \<and>
        (\<forall>j. EraseFiber j \<in> set (f_waiters f) \<longrightarrow>
           j = i \<and> retired f \<and> (f_state f = Inactive \<or> f_state f = Unloading)) \<and>
        (\<forall>sc ks. FFinishTail i sc ks \<in> set cs \<longrightarrow> retired f \<longrightarrow> f_state f = Inactive)) \<and>
     (\<forall>n sr j. map_of (rt_suspended s) n = Some sr \<longrightarrow> j \<in> set (sr_erase sr) \<longrightarrow> erasable s (sr_gates sr) j)"

definition quiescent_inv :: "frame list \<Rightarrow> runtime \<Rightarrow> bool" where
  "quiescent_inv cs s \<longleftrightarrow> gate_hazard \<in> set (rt_violated s) \<or> counted cs s \<and> erase_safe cs s"

lemma erasable_quiet: "quiet_fibers s s' \<Longrightarrow> erasable s gates j \<Longrightarrow> erasable s' gates j"
  unfolding quiet_fibers_def erasable_def quiet_def by (metis le_trans not_le)

text \<open>A quiet step keeps the invariant on any stack that drops no obligation unmet.\<close>

lemma erase_safe_quiet:
  assumes safe: "erase_safe cs s" and quiet: "quiet_fibers s s'"
    and susp: "\<And>n sr j. map_of (rt_suspended s') n = Some sr \<Longrightarrow> j \<in> set (sr_erase sr) \<Longrightarrow>
           erasable s' (sr_gates sr) j"
    and unload: "\<And>i b f'. FBeginUnload i b \<in> set cs \<Longrightarrow> find_fiber s' i = Some f' \<Longrightarrow> retired f' \<Longrightarrow>
           f_state f' = Inactive \<or> f_state f' = Unloading \<or> (\<exists>b. FBeginUnload i b \<in> set cs')"
    and tail: "\<And>i sc ks f'. FFinishTail i sc ks \<in> set cs' \<Longrightarrow> FFinishTail i sc ks \<notin> set cs \<Longrightarrow>
           find_fiber s' i = Some f' \<Longrightarrow> f_state f' = Inactive"
  shows "erase_safe cs' s'"
  unfolding erase_safe_def
proof (intro conjI allI impI)
  show "om_sorted (rt_fibers s')"
    using safe quiet by (auto simp: erase_safe_def quiet_fibers_def)
next
  fix i f' assume f': "find_fiber s' i = Some f'"
  with quiet obtain f where f: "find_fiber s i = Some f" and q: "quiet f f'"
    unfolding quiet_fibers_def by blast
  note inv = safe [unfolded erase_safe_def, THEN conjunct2, THEN conjunct1, rule_format, OF f]
  show "i < rt_next_id s'"
    using inv quiet by (auto simp: quiet_fibers_def)
  show "gate_ok f'"
    using inv q by (auto simp: quiet_def)
  show "retired f' \<Longrightarrow> f_state f' = Inactive \<or> f_state f' = Unloading \<or> (\<exists>b. FBeginUnload i b \<in> set cs')"
    using inv q unload [OF _ f'] unfolding quiet_def by auto
  show "j = i" "retired f'" "f_state f' = Inactive \<or> f_state f' = Unloading"
    if "EraseFiber j \<in> set (f_waiters f')" for j
    using inv q that unfolding quiet_def by blast+
  show "f_state f' = Inactive" if "FFinishTail i sc ks \<in> set cs'" "retired f'" for sc ks
    using that inv q tail [OF _ _ f'] unfolding quiet_def by auto
next
  fix n sr j assume "map_of (rt_suspended s') n = Some sr" "j \<in> set (sr_erase sr)"
  then show "erasable s' (sr_gates sr) j" by (rule susp)
qed

lemma erase_safe_step:
  assumes safe: "erase_safe (c # cs) s" and quiet: "quiet_step s s'"
    and "\<And>i b f'. c = FBeginUnload i b \<Longrightarrow> find_fiber s' i = Some f' \<Longrightarrow> retired f' \<Longrightarrow>
           f_state f' = Inactive \<or> f_state f' = Unloading"
    and "\<And>i sc ks f'. FFinishTail i sc ks \<in> set fs \<Longrightarrow> find_fiber s' i = Some f' \<Longrightarrow> f_state f' = Inactive"
  shows "erase_safe (fs @ cs) s'"
proof (rule erase_safe_quiet [OF safe])
  from quiet show "quiet_fibers s s'" by (simp add: quiet_step_def)
  fix n sr j assume "map_of (rt_suspended s') n = Some sr" "j \<in> set (sr_erase sr)"
  with safe quiet have "erasable s (sr_gates sr) j"
    by (auto simp: erase_safe_def quiet_step_def)
  with quiet show "erasable s' (sr_gates sr) j"
    by (auto simp: quiet_step_def intro: erasable_quiet)
qed (use assms(3,4) in auto)

section \<open>Frame facts\<close>

interpretation cleanup_violated: cleanup_runner run_cleanup "\<lambda>w. rt_violated w = v" for v
proof unfold_locales
  fix w :: runtime and a
  assume "rt_violated w = v"
  then show "rt_violated (snd (run_cleanup a w)) = v"
    by (induction a w rule: run_cleanup.induct) (auto simp: log_event_def split: option.splits)
qed

lemma violated_frames [simp]:
  "rt_violated (set_act a g s) = rt_violated s" "rt_violated (set_act_opt ao g s) = rt_violated s"
  "rt_violated (log_event e s) = rt_violated s" "rt_violated (transition_started s) = rt_violated s"
  "rt_violated (retire_fiber i s) = rt_violated s" "rt_violated (erase_fiber i s) = rt_violated s"
  by (simp_all add: set_act_def set_act_opt_def log_event_def transition_started_def retire_fiber_def
      erase_fiber_def unindex_def split: option.splits)

lemma violated_assert [intro]: "set (rt_violated s) \<subseteq> set (rt_violated (araya_assert t c s))"
  by (auto simp: araya_assert_def)

lemma violated_assert_trans: "X \<subseteq> set (rt_violated s) \<Longrightarrow> X \<subseteq> set (rt_violated (araya_assert t c s))"
  by (auto simp: araya_assert_def)

lemma violated_teardown: "set (rt_violated s) \<subseteq> set (rt_violated (teardown a s))"
proof (cases "find_act s a")
  case (Some act)
  let ?s = "araya_assert ''state != fiber_state::inactive'' (act_state act \<noteq> Inactive) s"
  obtain st w where r: "run_all run_cleanup (act_effects act) ?s = (st, w)" by force
  from cleanup_violated.run_all_keeps [of ?s "rt_violated ?s" "act_effects act"] r
  have "rt_violated w = rt_violated ?s" by simp
  with Some r violated_assert [of s] show ?thesis by (simp add: teardown_def)
qed (simp add: teardown_def)

lemma violated_transition: "set (rt_violated s) \<subseteq> set (rt_violated (transition_finished s))"
  using violated_assert [of s] by (simp add: transition_finished_def Let_def)

lemma next_id_frames [simp]:
  "rt_next_id (transition_started s) = rt_next_id s" "rt_next_id (transition_finished s) = rt_next_id s"
  "rt_next_id (retire_fiber i s) = rt_next_id s" "rt_next_id (erase_fiber i s) = rt_next_id s"
  "rt_suspended (transition_started s) = rt_suspended s" "rt_suspended (transition_finished s) = rt_suspended s"
  "rt_suspended (retire_fiber i s) = rt_suspended s" "rt_suspended (erase_fiber i s) = rt_suspended s"
  by (simp_all add: transition_started_def transition_finished_def retire_fiber_def erase_fiber_def
      unindex_def Let_def)

section \<open>Loading\<close>

text \<open>The fields loading does not write.\<close>

definition ties where
  "ties f = (f_reactivate f, f_waiters f, f_done_open f, f_consumers f, f_remaining f,
     (f_scope f, f_inject f, f_inject_keys f, f_provide f, f_desc f, f_config f, f_isolate f,
      f_name f, f_parent_fiber f, f_parent_activation f))"

lemma ties_pieces:
  "map_option ties (find_fiber (loading_failed i e s) j) = map_option ties (find_fiber s j)"
  "map_option ties (find_fiber (abandon_loading i s) j) = map_option ties (find_fiber s j)"
  "map_option ties (find_fiber (commit_loading i f r s) j) = map_option ties (find_fiber s j)"
  "map_option ties (find_fiber (spawn_apply i inst s) j) = map_option ties (find_fiber s j)"
  "map_option ties (find_fiber (arm_loading i s) j) = map_option ties (find_fiber s j)"
  "map_option ties (find_fiber (loading_checks f s) j) = map_option ties (find_fiber s j)"
  by (simp_all add: loading_failed_def abandon_loading_def commit_loading_def spawn_apply_def
      arm_loading_def loading_checks_def Let_def ties_def [abs_def] find_fiber_def retire_fiber_def
      option.map_comp o_def)

lemma start_loading_ties:
  "map_option ties (find_fiber (start_loading i s) j) = map_option ties (find_fiber s j)"
  by (simp add: start_loading_def Let_def ties_pieces split: option.splits)

lemma loading_checks_violated: "set (rt_violated s) \<subseteq> set (rt_violated (loading_checks f s))"
  by (auto simp: loading_checks_def araya_assert_def)

lemma loading_frames [simp]:
  "rt_suspended (arm_loading i s) = rt_suspended s" "rt_next_id (arm_loading i s) = Suc (rt_next_id s)"
  "rt_violated (arm_loading i s) = rt_violated s" "rt_in_flight (arm_loading i s) = rt_in_flight s"
  "rt_idle_open (arm_loading i s) = rt_idle_open s"
  "rt_suspended (loading_checks f s) = rt_suspended s" "rt_next_id (loading_checks f s) = rt_next_id s"
  "rt_in_flight (loading_checks f s) = rt_in_flight s" "rt_idle_open (loading_checks f s) = rt_idle_open s"
  "rt_suspended (commit_loading i f r s) = rt_suspended s" "rt_next_id (commit_loading i f r s) = rt_next_id s"
  "rt_violated (commit_loading i f r s) = rt_violated s" "rt_in_flight (commit_loading i f r s) = rt_in_flight s"
  "rt_idle_open (commit_loading i f r s) = rt_idle_open s"
  "rt_suspended (abandon_loading i s) = rt_suspended s" "rt_next_id (abandon_loading i s) = rt_next_id s"
  "rt_violated (abandon_loading i s) = rt_violated s" "rt_in_flight (abandon_loading i s) = rt_in_flight s"
  "rt_idle_open (abandon_loading i s) = rt_idle_open s"
  "rt_suspended (loading_failed i e s) = rt_suspended s" "rt_next_id (loading_failed i e s) = rt_next_id s"
  "rt_violated (loading_failed i e s) = rt_violated s" "rt_in_flight (loading_failed i e s) = rt_in_flight s"
  "rt_idle_open (loading_failed i e s) = rt_idle_open s"
  "rt_suspended (spawn_apply i inst s) = rt_suspended s" "rt_next_id (spawn_apply i inst s) = rt_next_id s"
  "rt_violated (spawn_apply i inst s) = rt_violated s"
  "rt_in_flight (spawn_apply i inst s) = Suc (rt_in_flight s)" "rt_idle_open (spawn_apply i inst s) = False"
  by (simp_all add: arm_loading_def loading_checks_def commit_loading_def abandon_loading_def
      loading_failed_def spawn_apply_def set_fiber_def retire_fiber_def transition_started_def
      log_event_def Let_def)

lemma start_loading_quiet:
  assumes "find_fiber s i = Some f" and "f_state f = Inactive" and "f_reactivate f \<ge> 0"
  shows "quiet_step s (start_loading i s)"
proof -
  have q: "quiet f f'" if f': "find_fiber (start_loading i s) i = Some f'" for f'
  proof -
    from start_loading_ties [of i s i] f' assms(1) have t: "ties f' = ties f" by simp
    obtain g where "rewrites_fiber i g s (start_loading i s)" "f_state (g f) = Loading \<or> f_state (g f) = Inactive"
      using start_loading_rewrites [of i s] assms(1) by blast
    with f' assms(1) have "f_state f' = Loading \<or> f_state f' = Inactive" by (auto simp: rewrites_find)
    with t assms(3) show ?thesis by (auto simp: quiet_def retired_def gate_ok_def ties_def)
  qed
  obtain g where g: "rewrites_fiber i g s (start_loading i s)"
    using start_loading_rewrites [of i s] by blast
  show ?thesis
  proof (rule quiet_step_rewrites [OF g])
    show "quiet f' (g f')" if "find_fiber s i = Some f'" for f'
      using that q assms(1) g by (simp add: rewrites_find)
    show "rt_suspended (start_loading i s) = rt_suspended s" "rt_next_id s \<le> rt_next_id (start_loading i s)"
      "set (rt_violated s) \<subseteq> set (rt_violated (start_loading i s))"
      by (rule start_loading_cases [OF assms(1)]; simp add: loading_checks_violated)+
  qed
qed

lemma start_loading_counted:
  assumes "find_fiber s i = Some f" and "f_state f = Inactive"
    and "counted (FEvaluate i # cs) s"
  shows "counted cs (start_loading i s)"
proof (rule start_loading_cases [OF assms(1)])
  fix e g assume "start_loading i s = loading_failed i e (arm_loading i (loading_checks f s))"
    "rewrites_fiber i g s (start_loading i s)" "f_state (g f) = Inactive"
  with rewrites_state_count [OF this(2) assms(1), of in_transit] assms(2,3)
  show ?thesis by (simp add: counted_def in_transit_def)
next
  fix e g assume "start_loading i s = loading_failed i e
      (abandon_loading i (commit_loading i f (resolve s i f) (arm_loading i (loading_checks f s))))"
    "rewrites_fiber i g s (start_loading i s)" "f_state (g f) = Inactive"
  with rewrites_state_count [OF this(2) assms(1), of in_transit] assms(2,3)
  show ?thesis by (simp add: counted_def in_transit_def)
next
  fix inst g assume "start_loading i s = spawn_apply i inst
      (commit_loading i f (resolve s i f) (arm_loading i (loading_checks f s)))"
    "rewrites_fiber i g s (start_loading i s)" "f_state (g f) = Loading"
  with rewrites_state_count [OF this(2) assms(1), of in_transit] assms(2,3)
  show ?thesis by (simp add: counted_def in_transit_def)
qed

section \<open>Unloading\<close>

lemma begin_unload_frames:
  "rt_suspended (snd (begin_unload i b s)) = rt_suspended s" "rt_next_id (snd (begin_unload i b s)) = rt_next_id s"
  "set (rt_violated s) \<subseteq> set (rt_violated (snd (begin_unload i b s)))"
  by (auto simp: begin_unload_def Let_def set_fiber_def araya_assert_def split: option.splits fiber_state.splits)

lemma begin_unload_idle:
  "rt_idle_open (snd (begin_unload i b s)) =
     (if state_of s i = Active then False else rt_idle_open s)"
  by (auto simp: begin_unload_def Let_def set_fiber_def state_of_def transition_started_def
      split: option.splits fiber_state.splits)

lemma begin_unload_weight: "sum_list (map open_weight (fst (begin_unload i b s))) = 0"
  by (auto simp: begin_unload_def Let_def split: option.splits fiber_state.splits)

lemma begin_unload_fiber:
  assumes "find_fiber s i = Some f"
  obtains g where "rewrites_fiber i g s (snd (begin_unload i b s))"
    "quiet f (g f)" "retired (g f) \<Longrightarrow> f_state (g f) = Inactive \<or> f_state (g f) = Unloading"
    "rt_in_flight (snd (begin_unload i b s)) + (if in_transit (f_state f) then 1 else 0) =
     rt_in_flight s + (if in_transit (f_state (g f)) then 1 else 0)"
proof (cases "f_state f")
  case Active
  from begin_unload_Active [OF assms Active, of b] that show thesis
    by (auto simp: quiet_def retired_def unload_record_def raise_reactivate_def gate_ok_def in_transit_def Active)
next
  case Loading
  from begin_unload_Loading [OF assms Loading, of b] that [of "divert_record b"] show thesis
    by (auto simp: quiet_def retired_def divert_record_def raise_reactivate_def gate_ok_def in_transit_def Loading)
next
  case Unloading
  with begin_unload_rest [OF assms, of b] that [of "raise_reactivate b"] rewrites_self show thesis
    by (auto simp: quiet_def retired_def raise_reactivate_def gate_ok_def)
next
  case Inactive
  with begin_unload_rest [OF assms, of b] that [of "raise_reactivate b"] rewrites_self show thesis
    by (auto simp: quiet_def retired_def raise_reactivate_def gate_ok_def)
qed

lemma begin_unload_quiet: "quiet_step s (snd (begin_unload i b s))"
proof (cases "find_fiber s i")
  case None
  then show ?thesis by (simp add: begin_unload_absent)
next
  case (Some f)
  obtain g where g: "rewrites_fiber i g s (snd (begin_unload i b s))" "quiet f (g f)"
    using begin_unload_fiber [OF Some] by blast
  show ?thesis
    by (rule quiet_step_rewrites [OF g(1)]) (use Some g(2) in \<open>simp_all add: begin_unload_frames\<close>)
qed

lemma begin_unload_counted:
  assumes "counted (c # cs) s" and "open_weight c = 0"
  shows "counted (fst (begin_unload i b s) @ cs) (snd (begin_unload i b s))"
proof (cases "find_fiber s i")
  case None
  with assms show ?thesis by (simp add: begin_unload_absent counted_def)
next
  case (Some f)
  obtain g where g: "rewrites_fiber i g s (snd (begin_unload i b s))"
    "rt_in_flight (snd (begin_unload i b s)) + (if in_transit (f_state f) then 1 else 0) =
     rt_in_flight s + (if in_transit (f_state (g f)) then 1 else 0)"
    using begin_unload_fiber [OF Some] by metis
  have flight: "rt_in_flight (snd (begin_unload i b s)) =
      transit_count (snd (begin_unload i b s)) + sum_list (map open_weight cs)"
    using rewrites_state_count [OF g(1) Some, of in_transit] g(2) assms by (simp add: counted_def)
  have idle: "rt_idle_open (snd (begin_unload i b s)) = (rt_in_flight (snd (begin_unload i b s)) = 0)"
  proof (cases "f_state f = Active")
    case True
    with begin_unload_Active(3) [OF Some True] Some show ?thesis
      by (simp add: begin_unload_idle state_of_def)
  next
    case False
    then have "rt_in_flight (snd (begin_unload i b s)) = rt_in_flight s"
      using Some by (cases "f_state f") (simp_all add: begin_unload_Loading(3) begin_unload_rest)
    with False Some assms show ?thesis by (simp add: begin_unload_idle state_of_def counted_def)
  qed
  from flight idle show ?thesis by (simp add: counted_def begin_unload_weight)
qed

lemma begin_unload_tail_free: "FFinishTail j sc ks \<notin> set (fst (begin_unload i b s))"
  by (auto simp: begin_unload_def Let_def split: option.splits fiber_state.splits)

lemma begin_unload_safe:
  assumes "erase_safe (c # cs) s" and "\<And>j b'. c = FBeginUnload j b' \<Longrightarrow> j = i"
  shows "erase_safe (fst (begin_unload i b s) @ cs) (snd (begin_unload i b s))"
proof (rule erase_safe_step [OF assms(1) begin_unload_quiet])
  fix j b' f' assume c: "c = FBeginUnload j b'" and f': "find_fiber (snd (begin_unload i b s)) j = Some f'" "retired f'"
  from assms(2) [OF c] have "j = i" .
  with f' obtain f where "find_fiber s i = Some f"
    by (cases "find_fiber s i") (auto simp: begin_unload_absent)
  then obtain g where "rewrites_fiber i g s (snd (begin_unload i b s))"
    "retired (g f) \<Longrightarrow> f_state (g f) = Inactive \<or> f_state (g f) = Unloading"
    using begin_unload_fiber by metis
  with f' \<open>find_fiber s i = Some f\<close> \<open>j = i\<close> show "f_state f' = Inactive \<or> f_state f' = Unloading"
    by (auto simp: rewrites_find)
qed (simp add: begin_unload_tail_free)

section \<open>Finishing an unload\<close>

lemma maybe_finish_frames:
  "rt_suspended (snd (maybe_finish_unload i s)) = rt_suspended s"
  "rt_next_id (snd (maybe_finish_unload i s)) = rt_next_id s"
  "rt_idle_open (snd (maybe_finish_unload i s)) = rt_idle_open s"
  by (auto simp: maybe_finish_unload_def Let_def set_fiber_def split: option.splits)

lemma maybe_finish_violated: "set (rt_violated s) \<subseteq> set (rt_violated (snd (maybe_finish_unload i s)))"
  by (auto simp: maybe_finish_unload_def Let_def set_fiber_def split: option.splits
      intro: subsetD [OF violated_teardown] subsetD [OF violated_assert])

lemma maybe_finish_quiet: "quiet_step s (snd (maybe_finish_unload i s))"
proof (cases "finish_ready s i")
  case False
  then show ?thesis by (simp add: maybe_finish_idle)
next
  case True
  then obtain f where f: "find_fiber s i = Some f" "f_state f = Unloading" "f_remaining f = 0"
    by (auto simp: finish_ready_def)
  show ?thesis
    by (rule quiet_step_rewrites [OF maybe_finish_done(2) [OF f]])
       (use f maybe_finish_frames maybe_finish_violated in
         \<open>auto simp: finish_record_def quiet_def retired_def gate_ok_def\<close>)
qed

lemma maybe_finish_keeps:
  assumes "counted (c # cs) s" and "erase_safe (c # cs) s" and "open_weight c = 0" and "\<And>j b. c \<noteq> FBeginUnload j b"
  shows "counted (fst (maybe_finish_unload i s) @ cs) (snd (maybe_finish_unload i s)) \<and>
         erase_safe (fst (maybe_finish_unload i s) @ cs) (snd (maybe_finish_unload i s))"
proof (cases "finish_ready s i")
  case False
  have "erase_safe ([] @ cs) s"
    by (rule erase_safe_step [OF assms(2)]) (use assms(4) in auto)
  with False assms show ?thesis by (simp add: maybe_finish_idle counted_def)
next
  case True
  then obtain f where f: "find_fiber s i = Some f" "f_state f = Unloading" "f_remaining f = 0"
    by (auto simp: finish_ready_def)
  note m = maybe_finish_done [OF f]
  have c: "counted (fst (maybe_finish_unload i s) @ cs) (snd (maybe_finish_unload i s))"
    using rewrites_state_count [OF m(2) f(1), of in_transit] m assms(1,3) f(2)
    by (simp add: counted_def in_transit_def finish_record_def maybe_finish_frames)
  have "erase_safe (fst (maybe_finish_unload i s) @ cs) (snd (maybe_finish_unload i s))"
  proof (rule erase_safe_step [OF assms(2) maybe_finish_quiet])
    fix j sc ks f'
    assume "FFinishTail j sc ks \<in> set (fst (maybe_finish_unload i s))"
      "find_fiber (snd (maybe_finish_unload i s)) j = Some f'"
    with m f show "f_state f' = Inactive" by (auto simp: rewrites_find finish_record_def)
  qed (use assms(4) in auto)
  with c show ?thesis by blast
qed

section \<open>Opening the gate\<close>

text \<open>A waiter runs with the counters unchanged, as long as what it erases is at rest.\<close>

lemma state_count_erase_rest:
  assumes "om_sorted (rt_fibers s)" and "\<And>f. find_fiber s i = Some f \<Longrightarrow> \<not> P (f_state f)"
  shows "state_count P (erase_fiber i s) = state_count P s"
proof (cases "find_fiber s i")
  case None
  then show ?thesis by (simp add: erase_fiber_def)
next
  case (Some f)
  have "sum_list (map (h \<circ> snd) (om_erase i m)) = sum_list (map (h \<circ> snd) m)"
    if "om_sorted m" "map_of m i = Some f" "h f = 0" for h :: "fiber \<Rightarrow> nat" and m
    using that
  proof (induction m)
    case (Cons e m)
    obtain j v where e: "e = (j, v)" by force
    show ?case
    proof (cases "j = i")
      case True
      with Cons.prems e have "\<forall>k \<in> fst ` set m. k \<noteq> i" by (auto simp: om_sorted_Cons)
      then have "om_erase i m = m" by (auto simp: om_erase_def filter_id_conv)
      with True e Cons.prems show ?thesis by simp
    next
      case False
      with Cons e show ?thesis by (simp add: om_sorted_Cons)
    qed
  qed simp
  from this [of "rt_fibers s" "\<lambda>f. if P (f_state f) then 1 else 0"] assms Some show ?thesis
    by (simp add: state_count_def erase_fiber_fibers find_fiber_def)
qed

lemma erase_frames [simp]:
  "rt_in_flight (erase_fiber i s) = rt_in_flight s" "rt_idle_open (erase_fiber i s) = rt_idle_open s"
  by (simp_all add: erase_fiber_def unindex_def retire_fiber_def)

definition at_rest :: "runtime \<Rightarrow> fiber_id \<Rightarrow> bool" where
  "at_rest s j \<longleftrightarrow> (\<forall>f. find_fiber s j = Some f \<longrightarrow> retired f \<and> f_state f = Inactive)"

lemma at_rest_quiet: "quiet_fibers s s' \<Longrightarrow> at_rest s j \<Longrightarrow> at_rest s' j"
  unfolding quiet_fibers_def at_rest_def quiet_def by blast

lemma erase_safe_same_stack:
  assumes "erase_safe cs s" and "quiet_fibers s s'" and "rt_suspended s' = rt_suspended s"
  shows "erase_safe cs s'"
proof (rule erase_safe_quiet [OF assms(1,2)])
  show "erasable s' (sr_gates sr) j"
    if "map_of (rt_suspended s') n = Some sr" "j \<in> set (sr_erase sr)" for n sr j
    using that assms by (auto simp: erase_safe_def intro: erasable_quiet)
qed auto

lemma erase_keeps:
  assumes "counted cs s" "erase_safe cs' s" "at_rest s i"
  shows "counted cs (erase_fiber i s)" "erase_safe cs' (erase_fiber i s)"
proof -
  have "transit_count (erase_fiber i s) = transit_count s"
    by (rule state_count_erase_rest) (use assms in \<open>auto simp: erase_safe_def at_rest_def in_transit_def\<close>)
  with assms(1) show "counted cs (erase_fiber i s)" by (simp add: counted_def)
  show "erase_safe cs' (erase_fiber i s)"
    by (rule erase_safe_same_stack [OF assms(2) quiet_fibers_erase]) simp
qed

lemma fold_erase_keeps:
  assumes "counted cs s" "erase_safe cs' s" "\<And>i. i \<in> set is \<Longrightarrow> at_rest s i"
  shows "counted cs (fold erase_fiber is s) \<and> erase_safe cs' (fold erase_fiber is s) \<and>
         quiet_fibers s (fold erase_fiber is s)"
  using assms
proof (induction "is" arbitrary: s)
  case (Cons i "is")
  have "at_rest (erase_fiber i s) j" if "j \<in> set is" for j
    using Cons.prems(3) [of j] that at_rest_quiet [OF quiet_fibers_erase] by simp
  with Cons.IH [of "erase_fiber i s"] Cons.prems erase_keeps quiet_fibers_erase [of s i] show ?case
    by (auto intro: quiet_fibers_trans)
qed simp

lemma skip_open_gates_closed:
  "j \<in> set gs \<Longrightarrow> find_fiber s j = Some f \<Longrightarrow> \<not> f_done_open f \<Longrightarrow> j \<in> set (skip_open_gates s gs)"
  by (induction s gs rule: skip_open_gates.induct) (auto split: option.splits)

lemma entry_scope_frames:
  "rt_suspended (fst (entry_scope_for path spec s)) = rt_suspended s"
  "rt_next_id (fst (entry_scope_for path spec s)) = rt_next_id s"
  "rt_violated (fst (entry_scope_for path spec s)) = rt_violated s"
  "rt_in_flight (fst (entry_scope_for path spec s)) = rt_in_flight s"
  "rt_idle_open (fst (entry_scope_for path spec s)) = rt_idle_open s"
  by (auto simp: entry_scope_for_def entry_context_def make_context_def Let_def split: option.splits prod.splits)

lemma advance_mounts_frames [simp]:
  "rt_suspended (advance_mounts ds s) = rt_suspended s" "rt_next_id (advance_mounts ds s) = rt_next_id s"
  "rt_violated (advance_mounts ds s) = rt_violated s" "rt_in_flight (advance_mounts ds s) = rt_in_flight s"
  "rt_idle_open (advance_mounts ds s) = rt_idle_open s"
proof -
  have "(rt_suspended (advance_mounts ds s), rt_next_id (advance_mounts ds s), rt_violated (advance_mounts ds s),
      rt_in_flight (advance_mounts ds s), rt_idle_open (advance_mounts ds s)) =
    (rt_suspended s, rt_next_id s, rt_violated s, rt_in_flight s, rt_idle_open s)"
  proof (induction ds s rule: advance_mounts.induct)
    case (2 d ds s)
    obtain s' c where e: "entry_scope_for (dc_path d) (dc_spec d) s = (s', c)" by force
    with entry_scope_frames [of "dc_path d" "dc_spec d" s] 2 show ?case by simp
  qed simp
  then show "rt_suspended (advance_mounts ds s) = rt_suspended s"
    "rt_next_id (advance_mounts ds s) = rt_next_id s" "rt_violated (advance_mounts ds s) = rt_violated s"
    "rt_in_flight (advance_mounts ds s) = rt_in_flight s" "rt_idle_open (advance_mounts ds s) = rt_idle_open s"
    by simp_all
qed

lemma counted_cong:
  assumes "counted cs s" "rt_fibers s' = rt_fibers s" "rt_in_flight s' = rt_in_flight s"
    "rt_idle_open s' = rt_idle_open s"
  shows "counted cs s'"
  using assms by (simp add: counted_def state_count_def)

lemma resume_keeps:
  assumes "counted cs s" "erase_safe cs' s"
  shows "counted cs (resume_reconcile n s) \<and> erase_safe cs' (resume_reconcile n s) \<and>
         quiet_fibers s (resume_reconcile n s)"
proof (cases "map_of (rt_suspended s) n")
  case None
  with assms show ?thesis by (simp add: resume_reconcile_def)
next
  case (Some sr)
  have er: "erasable s (sr_gates sr) j" if "j \<in> set (sr_erase sr)" for j
    using assms(2) Some that by (auto simp: erase_safe_def)
  have closed: "j \<in> set (skip_open_gates s (sr_gates sr))"
    if "j \<in> set (sr_gates sr)" "find_fiber s j = Some f" "f_state f = Unloading" for j f
    using that assms(2) by (auto intro!: skip_open_gates_closed simp: erase_safe_def gate_ok_def)
  show ?thesis
  proof (cases "skip_open_gates s (sr_gates sr)")
    case Nil
    let ?s = "s\<lparr>rt_suspended := om_erase n (rt_suspended s)\<rparr>"
    have q: "quiet_fibers s ?s" by (rule quiet_fibers_frame) simp_all
    have "at_rest ?s j" if "j \<in> set (sr_erase sr)" for j
      using er [OF that] closed Nil by (force simp: erasable_def at_rest_def find_fiber_def)
    moreover have "counted cs ?s" by (rule counted_cong [OF assms(1)]) simp_all
    moreover have "erase_safe cs' ?s"
    proof (rule erase_safe_quiet [OF assms(2) q])
      show "erasable ?s (sr_gates sr') j"
        if "map_of (rt_suspended ?s) m = Some sr'" "j \<in> set (sr_erase sr')" for m sr' j
        using that assms(2) by (auto simp: erase_safe_def split: if_splits intro: erasable_quiet [OF q])
    qed auto
    ultimately have f: "counted cs (fold erase_fiber (sr_erase sr) ?s) \<and>
        erase_safe cs' (fold erase_fiber (sr_erase sr) ?s) \<and> quiet_fibers ?s (fold erase_fiber (sr_erase sr) ?s)"
      by (intro fold_erase_keeps) auto
    have r: "resume_reconcile n s = advance_mounts (sr_desired sr) (fold erase_fiber (sr_erase sr) ?s)"
      using Some Nil by (simp add: resume_reconcile_def)
    have qa: "quiet_fibers t (advance_mounts ds t)" for ds t
      by (rule quiet_fibers_frame) simp_all
    from f show ?thesis unfolding r
      by (auto intro: counted_cong erase_safe_same_stack [OF _ qa] quiet_fibers_trans [OF q] quiet_fibers_trans [OF _ qa])
  next
    case (Cons g gs)
    let ?h = "\<lambda>f. f\<lparr>f_waiters := f_waiters f @ [ResumeReconcile n]\<rparr>"
    let ?s = "s\<lparr>rt_suspended := om_insert n (sr\<lparr>sr_gates := g # gs\<rparr>) (rt_suspended s)\<rparr>"
    have r: "resume_reconcile n s = set_fiber g ?h ?s"
      using Some Cons by (simp add: resume_reconcile_def)
    have q: "quiet_fibers s (set_fiber g ?h ?s)"
      by (rule quiet_fibers_trans [OF _ quiet_fibers_set_fiber])
         (auto intro: quiet_fibers_frame simp: quiet_def retired_def gate_ok_def)
    have "counted cs ?s" by (rule counted_cong [OF assms(1)]) simp_all
    then have "counted cs (set_fiber g ?h ?s)"
      by (simp add: counted_def state_count_set_fiber_same) (simp add: set_fiber_def)
    moreover have "erase_safe cs' (set_fiber g ?h ?s)"
    proof (rule erase_safe_quiet [OF assms(2) q])
      fix m sr' j
      assume m: "map_of (rt_suspended (set_fiber g ?h ?s)) m = Some sr'" "j \<in> set (sr_erase sr')"
      show "erasable (set_fiber g ?h ?s) (sr_gates sr') j"
      proof (cases "m = n")
        case True
        with m have sr': "sr' = sr\<lparr>sr_gates := g # gs\<rparr>" by simp
        with m er have "erasable s (sr_gates sr) j" by simp
        with closed Cons have "erasable s (sr_gates sr') j" unfolding sr' by (auto simp: erasable_def)
        with q show ?thesis by (rule erasable_quiet)
      next
        case False
        with m assms(2) have "erasable s (sr_gates sr') j" by (auto simp: erase_safe_def)
        with q show ?thesis by (rule erasable_quiet)
      qed
    qed auto
    ultimately show ?thesis using q unfolding r by blast
  qed
qed

lemma fold_erase_violated [simp]: "rt_violated (fold erase_fiber is s) = rt_violated s"
  by (induction "is" arbitrary: s) auto

lemma waiters_keep:
  assumes "counted cs s" "erase_safe cs' s" "\<And>j. EraseFiber j \<in> set ws \<Longrightarrow> at_rest s j"
  shows "counted cs (fold run_waiter ws s) \<and> erase_safe cs' (fold run_waiter ws s) \<and>
         quiet_fibers s (fold run_waiter ws s)"
  using assms
proof (induction ws arbitrary: s)
  case (Cons w ws)
  have w: "counted cs (run_waiter w s) \<and> erase_safe cs' (run_waiter w s) \<and> quiet_fibers s (run_waiter w s)"
  proof (cases w)
    case (EraseFiber i)
    with Cons.prems erase_keeps [of cs s cs' i] quiet_fibers_erase [of s i] show ?thesis by simp
  next
    case (ResumeReconcile n)
    with Cons.prems resume_keeps [of cs s cs' n] show ?thesis by simp
  qed
  then have "at_rest (run_waiter w s) j" if "EraseFiber j \<in> set ws" for j
    using Cons.prems(3) [of j] that by (auto intro: at_rest_quiet)
  with Cons.IH [of "run_waiter w s"] w show ?case
    by (auto intro: quiet_fibers_trans)
qed simp

lemma open_done_keeps:
  assumes "counted cs s" "erase_safe cs' s"
    and "\<And>f. find_fiber s i = Some f \<Longrightarrow> f_state f \<noteq> Unloading"
  shows "counted cs (open_done i s) \<and> erase_safe cs' (open_done i s) \<and> quiet_fibers s (open_done i s)"
proof (cases "find_fiber s i")
  case None
  with assms show ?thesis by (simp add: open_done_def)
next
  case (Some f)
  show ?thesis
  proof (cases "f_done_open f")
    case True
    with Some assms show ?thesis by (simp add: open_done_def)
  next
    case False
    let ?h = "\<lambda>f. f\<lparr>f_done_open := True, f_waiters := []\<rparr>"
    have q: "quiet_fibers s (set_fiber i ?h s)"
      by (rule quiet_fibers_set_fiber) (use Some assms(3) in \<open>auto simp: quiet_def retired_def gate_ok_def\<close>)
    have "counted cs (set_fiber i ?h s)"
      using assms(1) by (simp add: counted_def state_count_set_fiber_same) (simp add: set_fiber_def)
    moreover have "erase_safe cs' (set_fiber i ?h s)"
      by (rule erase_safe_same_stack [OF assms(2) q]) (simp add: set_fiber_def)
    moreover have "at_rest (set_fiber i ?h s) j" if "EraseFiber j \<in> set (f_waiters f)" for j
    proof -
      have "j = i \<and> retired f \<and> (f_state f = Inactive \<or> f_state f = Unloading)"
        using assms(2) Some that unfolding erase_safe_def by blast
      with Some assms(3) show ?thesis by (auto simp: at_rest_def retired_def)
    qed
    ultimately show ?thesis
      using waiters_keep [of cs "set_fiber i ?h s" cs' "f_waiters f"] Some False quiet_fibers_trans [OF q]
      by (auto simp: open_done_def)
  qed
qed

lemma erase_safe_drop:
  assumes "erase_safe (c # cs) s" and "\<And>i b. c \<noteq> FBeginUnload i b"
  shows "erase_safe cs s"
  using erase_safe_step [OF assms(1) quiet_step_refl, of "[]"] assms(2) by auto

lemma erase_safe_plain:
  assumes "erase_safe cs s" and "\<And>i sc ks. FFinishTail i sc ks \<notin> set fs"
  shows "erase_safe (fs @ cs) s"
proof (rule erase_safe_quiet [OF assms(1) quiet_fibers_refl])
  show "erasable s (sr_gates sr) j" if "map_of (rt_suspended s) n = Some sr" "j \<in> set (sr_erase sr)" for n sr j
    using that assms(1) by (auto simp: erase_safe_def)
qed (use assms(2) in auto)

lemma araya_assert_quiet: "quiet_fibers s (araya_assert t c s)"
  by (rule quiet_fibers_frame) (auto simp: violated_assert)

lemma counted_assert [simp]: "counted cs (araya_assert t c s) = counted cs s"
  by (simp add: counted_def state_count_def)

lemma erase_safe_assert: "erase_safe cs s \<Longrightarrow> erase_safe cs (araya_assert t c s)"
  by (rule erase_safe_same_stack [OF _ araya_assert_quiet]) simp_all

lemma finish_tail_keeps:
  assumes "quiescent_inv (FFinishTail i sc ks # cs) s"
  shows "quiescent_inv (fst (finish_tail i sc ks s) @ cs) (snd (finish_tail i sc ks s))"
proof -
  define s1 where "s1 = (case find_fiber s i of
                 None \<Rightarrow> s
               | Some f \<Rightarrow> araya_assert gate_hazard (f_state f \<noteq> Unloading)
                             (araya_assert ''f.consumers.empty()'' (f_consumers f = []) s))"
  have q1: "quiet_fibers s s1"
    unfolding s1_def by (auto intro: quiet_fibers_trans [OF araya_assert_quiet] araya_assert_quiet split: option.splits)
  have eq: "finish_tail i sc ks s = ([FNotifyKeys sc ks, FReactivate i],
      araya_assert record_hazard (find_fiber (open_done i s1) i \<noteq> None) (open_done i s1))"
    by (simp add: finish_tail_def s1_def Let_def)
  have viol: "set (rt_violated s1) \<subseteq> set (rt_violated (open_done i s1))"
  proof -
    have "rt_violated (run_waiter w t) = rt_violated t" for w t
      by (cases w) (auto simp: resume_reconcile_def set_fiber_def split: option.splits list.splits intro: fold_erase_violated)
    then have "rt_violated (fold run_waiter ws t) = rt_violated t" for ws t
      by (induction ws arbitrary: t) auto
    then show ?thesis by (auto simp: open_done_def set_fiber_def split: option.splits)
  qed
  show ?thesis
  proof (cases "gate_hazard \<in> set (rt_violated s1)")
    case True
    with viol have "gate_hazard \<in> set (rt_violated (snd (finish_tail i sc ks s)))"
      by (auto simp: eq intro: subsetD [OF violated_assert])
    then show ?thesis by (simp add: quiescent_inv_def)
  next
    case False
    with q1 have "gate_hazard \<notin> set (rt_violated s)" by (auto simp: quiet_fibers_def)
    with assms have inv: "counted (FFinishTail i sc ks # cs) s" "erase_safe (FFinishTail i sc ks # cs) s"
      by (simp_all add: quiescent_inv_def)
    have st: "f_state f \<noteq> Unloading" if f: "find_fiber s1 i = Some f" for f
    proof
      assume "f_state f = Unloading"
      moreover have "find_fiber s i = Some f" using f by (simp add: s1_def split: option.splits)
      ultimately have "s1 = araya_assert gate_hazard False (araya_assert ''f.consumers.empty()'' (f_consumers f = []) s)"
        by (simp add: s1_def)
      with False show "False" by (simp add: araya_assert_def split: if_splits)
    qed
    have "counted (FFinishTail i sc ks # cs) s1"
      using inv(1) by (simp add: s1_def split: option.splits)
    moreover have "erase_safe (FFinishTail i sc ks # cs) s1"
      using inv(2) by (auto simp: s1_def intro: erase_safe_assert split: option.splits)
    then have "erase_safe cs s1" by (rule erase_safe_drop) simp
    ultimately have o: "counted (FFinishTail i sc ks # cs) (open_done i s1) \<and> erase_safe cs (open_done i s1)"
      using open_done_keeps [OF _ _ st] by blast
    then have "erase_safe ([FNotifyKeys sc ks, FReactivate i] @ cs) (open_done i s1)"
      by (intro erase_safe_plain) auto
    with o show ?thesis
      by (auto simp: eq quiescent_inv_def intro!: erase_safe_assert) (auto simp: counted_def state_count_def)
  qed
qed

section \<open>Every frame keeps the invariant\<close>

text \<open>Frames that only edit records without touching their state, and add no obligations.\<close>

lemma quiet_frame_keeps:
  assumes "counted (c # cs) s" "erase_safe (c # cs) s" "quiet_step s s'"
    and "transit_count s' = transit_count s" "rt_in_flight s' = rt_in_flight s" "rt_idle_open s' = rt_idle_open s"
    and "sum_list (map open_weight fs) = open_weight c" "\<And>i b. c \<noteq> FBeginUnload i b"
    and "\<And>i sc ks. FFinishTail i sc ks \<notin> set fs"
  shows "quiescent_inv (fs @ cs) s'"
proof -
  have "counted (fs @ cs) s'"
    using assms(1,4-7) by (simp add: counted_def)
  moreover have "erase_safe (fs @ cs) s'"
    by (rule erase_safe_step [OF assms(2,3)]) (use assms(8,9) in auto)
  ultimately show ?thesis by (simp add: quiescent_inv_def)
qed

lemma start_loading_safe:
  assumes "erase_safe (FEvaluate i # cs) s" "find_fiber s i = Some f" "f_state f = Inactive" "f_reactivate f \<ge> 0"
  shows "erase_safe cs (start_loading i s)"
  using erase_safe_step [OF assms(1) start_loading_quiet [OF assms(2-4)], of "[]"] by simp

lemma evaluate_keeps:
  assumes "counted (FEvaluate i # cs) s" "erase_safe (FEvaluate i # cs) s"
  shows "quiescent_inv (fst (evaluate i s) @ cs) (snd (evaluate i s))"
proof (cases rule: evaluate_cases [of i s])
  case skip
  with quiet_frame_keeps [OF assms quiet_step_refl, of "[]"] show ?thesis by simp
next
  case (load f)
  with start_loading_counted [of s i f cs] start_loading_safe [of i cs s f] assms show ?thesis
    by (simp add: quiescent_inv_def)
next
  case (error f)
  have "quiet_step s (snd (evaluate i s))"
    unfolding error(4) snd_conv by (rule quiet_step_set_fiber) (simp add: quiet_def retired_def gate_ok_def)
  with quiet_frame_keeps [OF assms this, of "[]"] error(4) show ?thesis
    by (simp add: state_count_set_fiber_same) (simp add: set_fiber_def)
next
  case (unload f)
  with begin_unload_counted [OF assms(1)] begin_unload_safe [OF assms(2)] show ?thesis
    by (simp add: quiescent_inv_def)
qed

lemma release_keeps:
  assumes "counted (FRelease i ds # cs) s" "erase_safe (FRelease i ds # cs) s"
  shows "quiescent_inv (fst (release_step i ds s) @ cs) (snd (release_step i ds s))"
proof (cases ds)
  case Nil
  with quiet_frame_keeps [OF assms quiet_step_refl, of "[]"] show ?thesis by simp
next
  case (Cons d rest)
  obtain k p where d: "d = (k, p)" by force
  show ?thesis
  proof (cases "find_fiber s p")
    case None
    with quiet_frame_keeps [OF assms quiet_step_refl, of "[FRelease i rest]"] show ?thesis by (simp add: Cons d)
  next
    case (Some pf)
    have q: "quiet_step s (snd (release_step i ds s))"
      using Some
      by (intro quiet_step_rewrites [of p "\<lambda>g. if f_remaining pf > 0
            then g\<lparr>f_consumers := os_erase i (f_consumers g), f_remaining := f_remaining g - 1\<rparr>
            else g\<lparr>f_consumers := os_erase i (f_consumers g)\<rparr>"])
         (auto simp: Cons d Let_def rewrites_fiber_def om_modify_comp o_def quiet_def retired_def gate_ok_def
           set_fiber_def araya_assert_def)
    have "transit_count (snd (release_step i ds s)) = transit_count s"
      "rt_in_flight (snd (release_step i ds s)) = rt_in_flight s"
      "rt_idle_open (snd (release_step i ds s)) = rt_idle_open s"
      "fst (release_step i ds s) = [FMaybeFinish p, FRelease i rest]"
      using Some
      by (simp_all add: Cons d Let_def state_count_set_fiber_same state_count_frame)
         (simp_all add: set_fiber_def)
    with quiet_frame_keeps [OF assms q, of "[FMaybeFinish p, FRelease i rest]"] show ?thesis by simp
  qed
qed

lemma reactivate_keeps:
  assumes "counted (FReactivate i # cs) s" "erase_safe (FReactivate i # cs) s"
  shows "quiescent_inv (fst (reactivate_step i s) @ cs) (snd (reactivate_step i s))"
proof -
  have "quiet_step s (snd (reactivate_step i s))"
    by (auto simp: reactivate_step_def quiet_def retired_def gate_ok_def intro!: quiet_step_set_fiber split: option.splits)
  moreover have "transit_count (snd (reactivate_step i s)) = transit_count s"
    "rt_in_flight (snd (reactivate_step i s)) = rt_in_flight s"
    "rt_idle_open (snd (reactivate_step i s)) = rt_idle_open s"
    by (auto simp: reactivate_step_def state_count_set_fiber_same set_fiber_def [of _ _ s] split: option.splits)
       (auto simp: state_count_set_fiber_same set_fiber_def [symmetric])
  moreover have "sum_list (map open_weight (fst (reactivate_step i s))) = 1"
    "FFinishTail j sc ks \<notin> set (fst (reactivate_step i s))" for j sc ks
    by (auto simp: reactivate_step_def split: option.splits)
  ultimately show ?thesis by (intro quiet_frame_keeps [OF assms]) auto
qed

lemma notify_ids_keeps:
  assumes "counted (FNotifyIds k sc r ids # cs) s" "erase_safe (FNotifyIds k sc r ids # cs) s"
  shows "quiescent_inv (fst (notify_ids k sc r ids s) @ cs) (snd (notify_ids k sc r ids s))"
proof (rule quiet_frame_keeps [OF assms])
  show "quiet_step s (snd (notify_ids k sc r ids s))"
    by (cases ids) (auto intro: quiet_step_frame split: option.splits)
qed (cases ids; auto simp: state_count_def split: option.splits)+

lemma notify_keys_keeps:
  assumes "counted (FNotifyKeys sc ks # cs) s" "erase_safe (FNotifyKeys sc ks # cs) s"
  shows "quiescent_inv (fst (notify_keys sc ks s) @ cs) (snd (notify_keys sc ks s))"
proof (rule quiet_frame_keeps [OF assms])
  show "quiet_step s (snd (notify_keys sc ks s))" by (cases ks) auto
qed (cases ks; auto simp: notify_def split: option.splits)+

lemma transition_finished_keeps:
  assumes "counted (FTransitionFinished # cs) s" "erase_safe (FTransitionFinished # cs) s"
  shows "quiescent_inv cs (transition_finished s)"
proof -
  have "counted cs (transition_finished s)"
    using assms(1) by (simp add: counted_def transition_finished_def Let_def state_count_def)
  moreover have "erase_safe ([] @ cs) (transition_finished s)"
    by (rule erase_safe_step [OF assms(2) quiet_step_frame]) (simp_all add: violated_transition)
  ultimately show ?thesis by (simp add: quiescent_inv_def)
qed

lemma open_done_violated: "rt_violated (open_done i s) = rt_violated s"
proof -
  have "rt_violated (run_waiter w t) = rt_violated t" for w t
    by (cases w) (auto simp: resume_reconcile_def set_fiber_def split: option.splits list.splits)
  then have "rt_violated (fold run_waiter ws t) = rt_violated t" for ws t
    by (induction ws arbitrary: t) auto
  then show ?thesis by (auto simp: open_done_def set_fiber_def split: option.splits)
qed

lemma exec_violated: "set (rt_violated s) \<subseteq> set (rt_violated (snd (exec c s)))"
proof (cases c)
  case (FEvaluate i)
  show ?thesis
  proof (cases rule: evaluate_cases [of i s])
    case (load f)
    with start_loading_quiet [of s i f] FEvaluate show ?thesis by (simp add: quiet_step_def quiet_fibers_def)
  next
    case (unload f)
    with begin_unload_frames FEvaluate show ?thesis by simp
  qed (use FEvaluate in simp_all)
next
  case (FUnloadTail i)
  with maybe_finish_violated [of "set_fiber i (\<lambda>f. f\<lparr>f_stop := True\<rparr>) s" i] show ?thesis by (simp add: unload_tail_def)
next
  case (FRelease i ds)
  then show ?thesis
    by (cases "(i, ds, s)" rule: release_step.cases) (auto simp: Let_def araya_assert_def split: option.splits)
next
  case (FFinishTail i sc ks)
  then show ?thesis
    by (auto simp: finish_tail_def Let_def open_done_violated araya_assert_def split: option.splits)
next
  case (FReactivate i)
  then show ?thesis by (auto simp: reactivate_step_def split: option.splits)
next
  case (FNotifyKeys sc ks)
  then show ?thesis by (cases ks) auto
next
  case (FNotifyIds k sc r ids)
  then show ?thesis by (cases ids) (auto split: option.splits)
qed (use begin_unload_frames maybe_finish_violated violated_transition in simp_all)

lemma unload_tail_keeps:
  assumes "counted (FUnloadTail i # cs) s" "erase_safe (FUnloadTail i # cs) s"
  shows "quiescent_inv (fst (unload_tail i s) @ cs) (snd (unload_tail i s))"
proof -
  let ?s = "set_fiber i (\<lambda>f. f\<lparr>f_stop := True\<rparr>) s"
  have q: "quiet_fibers s ?s"
    by (rule quiet_fibers_set_fiber) (simp add: quiet_def retired_def gate_ok_def)
  have "counted (FUnloadTail i # cs) ?s"
    using assms(1) by (simp add: counted_def state_count_set_fiber_same) (simp add: set_fiber_def)
  moreover have "erase_safe (FUnloadTail i # cs) ?s"
    by (rule erase_safe_same_stack [OF assms(2) q]) (simp add: set_fiber_def)
  ultimately show ?thesis
    using maybe_finish_keeps [of "FUnloadTail i" cs ?s i] by (simp add: unload_tail_def quiescent_inv_def)
qed

interpretation quiescence: stack_invariant quiescent_inv
proof unfold_locales
  fix c cs s
  assume inv: "quiescent_inv (c # cs) s"
  show "quiescent_inv (fst (exec c s) @ cs) (snd (exec c s))"
  proof (cases "gate_hazard \<in> set (rt_violated s)")
    case True
    with exec_violated [of s c] show ?thesis by (auto simp: quiescent_inv_def)
  next
    case False
    with inv have i: "counted (c # cs) s" "erase_safe (c # cs) s" by (simp_all add: quiescent_inv_def)
    show ?thesis
    proof (cases c)
      case (FEvaluate i)
      with evaluate_keeps i show ?thesis by simp
    next
      case (FBeginUnload i b)
      with begin_unload_counted [OF i(1)] begin_unload_safe [OF i(2)] show ?thesis
        by (simp add: quiescent_inv_def)
    next
      case (FUnloadTail i)
      with unload_tail_keeps i show ?thesis by simp
    next
      case (FMaybeFinish j)
      with maybe_finish_keeps [OF i] show ?thesis by (simp add: quiescent_inv_def)
    next
      case (FRelease i ds)
      with release_keeps i show ?thesis by simp
    next
      case (FFinishTail j sc ks)
      with finish_tail_keeps inv show ?thesis by simp
    next
      case (FReactivate i)
      with reactivate_keeps i show ?thesis by simp
    next
      case (FNotifyKeys sc ks)
      with notify_keys_keeps i show ?thesis by simp
    next
      case (FNotifyIds k sc r ids)
      with notify_ids_keeps i show ?thesis by simp
    next
      case FTransitionFinished
      with transition_finished_keeps i show ?thesis by simp
    qed
  qed
qed

end
