(* ===== verification/Reachable.thy ===== *)
theory Reachable
  imports Quiescence
begin

text \<open>
  The engine as a transition system: \<open>engine_step\<close> is one handler on the control strand, and
  \<open>reachable\<close> the states a runtime gets to from its constructor. The order in which handlers run is
  free, the completion of an apply may come at any time after its start, and plugin code may use its
  context at any time. The invariants of the whole engine are proved here by rule induction, each
  from the frame lemmas of the cascade.
\<close>

definition apply_pending :: "runtime \<Rightarrow> fiber_id \<Rightarrow> bool" where
  "apply_pending s i \<longleftrightarrow>
     (case find_fiber s i of
        None \<Rightarrow> False
      | Some f \<Rightarrow>
          (case f_activation f of
             None \<Rightarrow> False
           | Some a \<Rightarrow> map_option act_state (find_act s a) = Some Loading))"

inductive engine_step :: "runtime \<Rightarrow> runtime \<Rightarrow> bool" where
  apply_step: "apply_pending s i \<Longrightarrow> engine_step s (on_apply_completed i thrown s)"
| signal_step: "signal_availability k sc p v s = Inr s' \<Longrightarrow> engine_step s s'"
| provide_step: "provide_raw a k val check s = Inr (s', reg) \<Longrightarrow> engine_step s s'"
| effect_step: "effect a outcome s = Inr (s', reg) \<Longrightarrow> engine_step s s'"
| release_effect_step: "release_effect a reg s = (reg', s') \<Longrightarrow> engine_step s s'"
| mount_step: "mount_locked spec parent s = Inr (i, s') \<Longrightarrow> engine_step s s'"
| mount_call_step: "context_mount_call a spec s = (spec', s') \<Longrightarrow> engine_step s s'"
| mount_run_step: "context_mount_run a spec s = Inr (i, s') \<Longrightarrow> engine_step s s'"
| retire_step: "engine_step s (retire i s)"
| cancel_step: "engine_step s (cancel i s)"
| reconcile_step: "engine_step s (reconcile ds s)"
| poll_step: "engine_step s (poll_task s)"
| isolate_step: "engine_step s (s\<lparr>rt_store := isolate c k r (rt_store s)\<rparr>)"
| metadata_step: "engine_step s (s\<lparr>rt_store := set_metadata c k md (rt_store s)\<rparr>)"

inductive reachable :: "runtime \<Rightarrow> bool" where
  reach_init: "reachable (init_runtime n)"
| reach_step: "reachable s \<Longrightarrow> engine_step s s' \<Longrightarrow> reachable s'"

inductive_cases engine_stepE: "engine_step s s'"

section \<open>Retired fibers settle\<close>

definition settles :: "runtime \<Rightarrow> runtime \<Rightarrow> bool" where
  "settles s s' \<longleftrightarrow>
     (\<forall>j f'. find_fiber s' j = Some f' \<longrightarrow> (\<exists>f. find_fiber s j = Some f \<and> retired f' = retired f \<and>
        (retired f \<and> f_state f = Inactive \<longrightarrow> f_state f' = Inactive) \<and>
        (retired f \<and> f_state f = Unloading \<longrightarrow> f_state f' = Inactive \<or> f_state f' = Unloading))) \<and>
     rt_next_id s \<le> rt_next_id s'"

lemma settles_refl [simp]: "settles s s"
  by (auto simp: settles_def)

lemma settles_trans [trans]: "settles s t \<Longrightarrow> settles t u \<Longrightarrow> settles s u"
  unfolding settles_def by (meson order_trans)

lemma settles_quiet: "quiet_fibers s s' \<Longrightarrow> settles s s'"
  unfolding quiet_fibers_def settles_def quiet_def by blast

lemma settles_quiet_step: "quiet_step s s' \<Longrightarrow> settles s s'"
  by (simp add: quiet_step_def settles_quiet)

lemma settles_frame: "rt_fibers s' = rt_fibers s \<Longrightarrow> rt_next_id s \<le> rt_next_id s' \<Longrightarrow> settles s s'"
  by (auto simp: settles_def find_fiber_def)

lemma settles_set_fiber:
  "(\<And>f. f_state (g f) = f_state f \<and> f_reactivate (g f) = f_reactivate f) \<Longrightarrow> settles s (set_fiber i g s)"
  by (auto simp: settles_def retired_def)

lemma settles_erase: "settles s (erase_fiber i s)"
  by (rule settles_quiet [OF quiet_fibers_erase])

lemma settles_fold:
  "(\<And>x s. settles s (g x s)) \<Longrightarrow> settles s (fold g xs s)"
proof (induction xs arbitrary: s)
  case (Cons x xs)
  have "settles s (g x s)" using Cons.prems by blast
  moreover have "settles (g x s) (fold g xs (g x s))" using Cons by blast
  ultimately show ?case by (simp add: settles_trans)
qed simp

lemma settles_advance [simp]: "settles s (advance_mounts ds s)"
  by (rule settles_frame) simp_all

lemma settles_resume: "settles s (resume_reconcile n s)"
proof (cases "map_of (rt_suspended s) n")
  case (Some sr)
  show ?thesis
  proof (cases "skip_open_gates s (sr_gates sr)")
    case Nil
    let ?s = "s\<lparr>rt_suspended := om_erase n (rt_suspended s)\<rparr>"
    have "settles s ?s" by (rule settles_frame) simp_all
    also have "settles ?s (fold erase_fiber (sr_erase sr) ?s)"
      by (rule settles_fold) (rule settles_erase)
    finally have "settles s (advance_mounts (sr_desired sr) (fold erase_fiber (sr_erase sr) ?s))"
      using settles_advance settles_trans by blast
    with Some Nil show ?thesis by (simp add: resume_reconcile_def)
  next
    case (Cons g gs)
    let ?s = "s\<lparr>rt_suspended := om_insert n (sr\<lparr>sr_gates := g # gs\<rparr>) (rt_suspended s)\<rparr>"
    have "settles s ?s" by (rule settles_frame) simp_all
    also have "settles ?s (set_fiber g (\<lambda>f. f\<lparr>f_waiters := f_waiters f @ [ResumeReconcile n]\<rparr>) ?s)"
      by (rule settles_set_fiber) simp
    finally show ?thesis using Some Cons by (simp add: resume_reconcile_def)
  qed
qed (simp add: resume_reconcile_def)

lemma settles_waiter: "settles s (run_waiter w s)"
  by (cases w) (simp_all add: settles_erase settles_resume)

lemma settles_open_done: "settles s (open_done i s)"
proof (cases "find_fiber s i")
  case (Some f)
  have "settles s (set_fiber i (\<lambda>f. f\<lparr>f_done_open := True, f_waiters := []\<rparr>) s)"
    by (rule settles_set_fiber) simp
  then have "settles s (fold run_waiter (f_waiters f) (set_fiber i (\<lambda>f. f\<lparr>f_done_open := True, f_waiters := []\<rparr>) s))"
    by (rule settles_trans) (rule settles_fold, rule settles_waiter)
  with Some show ?thesis by (simp add: open_done_def)
qed (simp add: open_done_def)

lemma settles_assert: "settles s (araya_assert t c s)"
  by (rule settles_frame) simp_all

lemma settles_finish_tail: "settles s (snd (finish_tail i sc ks s))"
proof -
  have "settles s (araya_assert record_hazard b (open_done i s'))" if "settles s s'" for b s'
    using that settles_open_done settles_assert settles_trans by blast
  moreover have "settles s (case find_fiber s i of None \<Rightarrow> s
       | Some f \<Rightarrow> araya_assert gate_hazard (f_state f \<noteq> Unloading) (araya_assert ''f.consumers.empty()'' (f_consumers f = []) s))"
    by (auto intro: settles_trans [OF settles_assert settles_assert] split: option.splits)
  ultimately show ?thesis by (simp add: finish_tail_def Let_def)
qed

lemma release_quiet: "quiet_step s (snd (release_step i ds s))"
proof (cases ds)
  case (Cons d rest)
  obtain k p where d: "d = (k, p)" by force
  show ?thesis
  proof (cases "find_fiber s p")
    case (Some pf)
    then show ?thesis
      by (intro quiet_step_rewrites [of p "\<lambda>g. if f_remaining pf > 0
            then g\<lparr>f_consumers := os_erase i (f_consumers g), f_remaining := f_remaining g - 1\<rparr>
            else g\<lparr>f_consumers := os_erase i (f_consumers g)\<rparr>"])
         (auto simp: Cons d Let_def rewrites_fiber_def om_modify_comp o_def quiet_def retired_def gate_ok_def
           set_fiber_def araya_assert_def)
  qed (simp add: Cons d)
qed simp

lemma exec_settles: "settles s (snd (exec c s))"
proof (cases c)
  case (FEvaluate i)
  show ?thesis
  proof (cases rule: evaluate_cases [of i s])
    case (load f)
    with start_loading_quiet [of s i f] FEvaluate show ?thesis by (simp add: settles_quiet_step)
  next
    case (error f)
    with FEvaluate show ?thesis by (simp add: settles_set_fiber)
  next
    case (unload f)
    with FEvaluate begin_unload_quiet show ?thesis by (simp add: settles_quiet_step)
  qed (use FEvaluate in simp)
next
  case (FUnloadTail i)
  have "settles s (set_fiber i (\<lambda>f. f\<lparr>f_stop := True\<rparr>) s)" by (rule settles_set_fiber) simp
  then have "settles s (snd (maybe_finish_unload i (set_fiber i (\<lambda>f. f\<lparr>f_stop := True\<rparr>) s)))"
    using settles_quiet_step [OF maybe_finish_quiet] settles_trans by blast
  with FUnloadTail show ?thesis by (simp add: unload_tail_def)
next
  case (FReactivate i)
  have "quiet_step s (snd (reactivate_step i s))"
    by (auto simp: reactivate_step_def quiet_def retired_def gate_ok_def intro!: quiet_step_set_fiber split: option.splits)
  with FReactivate show ?thesis by (simp add: settles_quiet_step)
next
  case (FNotifyKeys sc ks)
  then show ?thesis by (cases ks) simp_all
next
  case (FNotifyIds k sc r ids)
  then show ?thesis by (cases ids) (auto intro: settles_frame split: option.splits)
next
  case FTransitionFinished
  then show ?thesis by (auto intro: settles_frame)
qed (use settles_quiet_step begin_unload_quiet maybe_finish_quiet release_quiet settles_finish_tail in simp_all)

interpretation settling: stack_invariant "\<lambda>cs s. settles s0 s" for s0
proof unfold_locales
  fix c :: frame and cs :: "frame list" and s
  assume "settles s0 s"
  with exec_settles [of s c] show "settles s0 (snd (exec c s))" by (rule settles_trans [rotated])
qed

interpretation violations: stack_invariant "\<lambda>cs s. V \<subseteq> set (rt_violated s)" for V
  by unfold_locales (use exec_violated in blast)

lemma run_settles: "settles s (run cs s)"
  by (rule settling.run_keeps) simp

lemma run_violated: "set (rt_violated s) \<subseteq> set (rt_violated (run cs s))"
  by (rule violations.run_keeps) simp

text \<open>A fiber that is going for good: retired, and no longer loading or active.\<close>

definition going :: "fiber_id \<Rightarrow> runtime \<Rightarrow> bool" where
  "going i s \<longleftrightarrow> i < rt_next_id s \<and>
     (\<forall>f. find_fiber s i = Some f \<longrightarrow> retired f \<and> (f_state f = Inactive \<or> f_state f = Unloading))"

lemma going_settles: "settles s s' \<Longrightarrow> going i s \<Longrightarrow> going i s'"
  unfolding settles_def going_def by (meson order_less_le_trans)

section \<open>Handlers that leave the core alone\<close>

lemma quiescent_core:
  assumes "quiescent_inv cs s" "core s' = core s" "set (rt_violated s) \<subseteq> set (rt_violated s')"
  shows "quiescent_inv cs s'"
proof (cases "gate_hazard \<in> set (rt_violated s)")
  case True
  with assms(3) show ?thesis by (auto simp: quiescent_inv_def)
next
  case False
  note c = core_fields [OF assms(2)]
  have i: "rt_idle_open s' = rt_idle_open s" using assms(2) by (simp add: core_def)
  from False assms(1) have "counted cs s" "erase_safe cs s" by (simp_all add: quiescent_inv_def)
  then have "counted cs s'" "erase_safe cs s'"
    using c i by (simp_all add: counted_def erase_safe_def erasable_def state_count_def find_fiber_def)
  then show ?thesis by (simp add: quiescent_inv_def)
qed

lemma settles_core: "core s' = core s \<Longrightarrow> settles s s'"
  by (rule settles_frame) (simp_all add: core_def)

lemma add_effect_core [simp]: "core (add_effect a c s) = core s" "rt_violated (add_effect a c s) = rt_violated s"
  by (simp_all add: add_effect_def)

lemma fold_assert_core: "core (fold (\<lambda>t. araya_assert t False) ts s) = core s"
  by (induction ts arbitrary: s) simp_all

lemma fold_assert_violated: "set (rt_violated s) \<subseteq> set (rt_violated (fold (\<lambda>t. araya_assert t False) ts s))"
proof (induction ts arbitrary: s)
  case (Cons t ts)
  from violated_assert Cons [of "araya_assert t False s"] show ?case by force
qed simp

lemma provide_raw_core:
  assumes "provide_raw a k v check s = Inr (s', reg)"
  shows "core s' = core s" "set (rt_violated s) \<subseteq> set (rt_violated s')"
  using assms fold_assert_core fold_assert_violated
  by (auto simp: provide_raw_def Let_def split: option.splits if_splits) blast+

lemma effect_core:
  assumes "effect a setup s = Inr (s', reg)"
  shows "core s' = core s" "rt_violated s' = rt_violated s"
  using assms by (auto simp: effect_def split: sum.splits option.splits)

interpretation cleanup_frame: cleanup_runner run_cleanup "\<lambda>w. core w = c \<and> rt_violated w = v" for c v
proof unfold_locales
  fix w :: runtime and a
  assume "core w = c \<and> rt_violated w = v"
  then show "core (snd (run_cleanup a w)) = c \<and> rt_violated (snd (run_cleanup a w)) = v"
    using run_cleanup_core cleanup_violated.run_keeps by blast
qed

lemma release_effect_core:
  assumes "release_effect a reg s = (reg', s')"
  shows "core s' = core s" "rt_violated s' = rt_violated s"
proof -
  have "core (snd (run_entry run_cleanup n es s)) = core s \<and> rt_violated (snd (run_entry run_cleanup n es s)) = rt_violated s"
    for n es
    by (rule cleanup_frame.run_entry_keeps) simp
  then have "core w = core s \<and> rt_violated w = rt_violated s" if "release run_cleanup reg es s = (r, e, w)" for es r e w
    using that by (auto simp: release_def split: if_splits) (metis snd_conv)+
  then show "core s' = core s" "rt_violated s' = rt_violated s"
    using assms by (auto simp: release_effect_def split: option.splits prod.splits)
qed

lemma mount_call_core:
  assumes "context_mount_call a spec s = (spec', s')"
  shows "core s' = core s" "rt_violated s' = rt_violated s"
  using assms by (auto simp: context_mount_call_def make_child_def make_context_def split: option.splits if_splits)

section \<open>The completion of an apply\<close>

lemma run_frames_keeps:
  assumes "quiescent_inv (fst r) (snd r)"
  shows "quiescent_inv [] (run_frames r)"
  unfolding run_frames_def by (rule quiescence.run_keeps [OF assms])

lemma publish_bindings_core: "core (publish_bindings sc i ks s) = core s"
proof (induction ks arbitrary: s)
  case (Cons k ks)
  then show ?case by (auto simp: Let_def split: option.splits)
qed simp

lemma publish_bindings_violated: "set (rt_violated s) \<subseteq> set (rt_violated (publish_bindings sc i ks s))"
proof (induction ks arbitrary: s)
  case (Cons k ks)
  let ?t = "case lookup_mutable (rt_store s) sc k of
          None \<Rightarrow> s
        | Some (c, b) \<Rightarrow>
            if bprovider b \<noteq> i then s
            else
              let s = araya_assert ''b->state == provider_state::loading'' (bstate b = PLoading) s
              in s\<lparr>rt_store := write_binding c k (realm_for (rt_store s) sc k) (\<lambda>b. b\<lparr>bstate := PActive\<rparr>) (rt_store s)\<rparr>"
  have "set (rt_violated s) \<subseteq> set (rt_violated ?t)"
    by (auto simp: Let_def araya_assert_def split: option.splits)
  also have "\<dots> \<subseteq> set (rt_violated (publish_bindings sc i ks ?t))" by (rule Cons.IH)
  finally show ?case by simp
qed simp

lemma record_consumers_quiet:
  "quiet_step s (record_consumers i m s) \<and> transit_count (record_consumers i m s) = transit_count s \<and>
   rt_in_flight (record_consumers i m s) = rt_in_flight s \<and> rt_idle_open (record_consumers i m s) = rt_idle_open s"
proof -
  have "quiet_step s (fold (\<lambda>(k, p). set_fiber p (\<lambda>g. g\<lparr>f_consumers := os_insert i (f_consumers g)\<rparr>)) m s) \<and>
    transit_count (fold (\<lambda>(k, p). set_fiber p (\<lambda>g. g\<lparr>f_consumers := os_insert i (f_consumers g)\<rparr>)) m s) = transit_count s \<and>
    rt_in_flight (fold (\<lambda>(k, p). set_fiber p (\<lambda>g. g\<lparr>f_consumers := os_insert i (f_consumers g)\<rparr>)) m s) = rt_in_flight s \<and>
    rt_idle_open (fold (\<lambda>(k, p). set_fiber p (\<lambda>g. g\<lparr>f_consumers := os_insert i (f_consumers g)\<rparr>)) m s) = rt_idle_open s"
  proof (induction m arbitrary: s)
    case (Cons e m)
    obtain k p where e: "e = (k, p)" by force
    let ?t = "set_fiber p (\<lambda>g. g\<lparr>f_consumers := os_insert i (f_consumers g)\<rparr>) s"
    have "quiet_step s ?t" by (rule quiet_step_set_fiber) (simp add: quiet_def retired_def gate_ok_def)
    moreover have "transit_count ?t = transit_count s" "rt_in_flight ?t = rt_in_flight s" "rt_idle_open ?t = rt_idle_open s"
      by (simp_all add: state_count_set_fiber_same) (simp add: set_fiber_def)
    ultimately show ?case using Cons.IH [of ?t] e by (auto intro: quiet_step_trans)
  qed simp
  then show ?thesis by (simp add: record_consumers_def)
qed

text \<open>The handler up to its frames: the state it hands to the cascade.\<close>

lemma abort_apply_settles: "settles s (snd (abort_apply i f e cancelled stale s))"
proof -
  let ?s1 = "set_fiber i (apply_outcome e cancelled) s"
  let ?s2 = "case f_activation f of None \<Rightarrow> ?s1 | Some a \<Rightarrow> set_act a (\<lambda>x. x\<lparr>act_state := Inactive\<rparr>) (teardown a ?s1)"
  let ?s3 = "set_fiber i deactivate_record ?s2"
  have "settles s ?s1"
    by (rule settles_set_fiber) (simp add: apply_outcome_def split: option.splits)
  also have "settles ?s1 ?s2" by (rule settles_core) (simp split: option.splits)
  also have "settles ?s2 ?s3" by (auto simp: settles_def deactivate_record_def retired_def)
  also have "settles ?s3 (open_done i ?s3)" by (rule settles_open_done)
  finally show ?thesis by (simp add: abort_apply_def Let_def)
qed


lemma abort_apply_keeps:
  assumes "quiescent_inv [] s" and f: "find_fiber s i = Some f" "in_transit (f_state f)"
  shows "quiescent_inv (fst (abort_apply i f e cancelled stale s)) (snd (abort_apply i f e cancelled stale s))"
proof -
  define s1 where "s1 = set_fiber i (apply_outcome e cancelled) s"
  define s2 where "s2 = (case f_activation f of None \<Rightarrow> s1 | Some a \<Rightarrow> set_act a (\<lambda>x. x\<lparr>act_state := Inactive\<rparr>) (teardown a s1))"
  define s3 where "s3 = set_fiber i deactivate_record s2"
  let ?fs = "(if stale \<and> f_reactivate f \<ge> 0 then [FEvaluate i] else []) @ [FTransitionFinished]"
  have eq: "abort_apply i f e cancelled stale s = (?fs, open_done i s3)"
    unfolding abort_apply_def s3_def s2_def s1_def Let_def ..
  have c2: "core s2 = core s1" by (simp add: s2_def split: option.splits)
  have v2: "set (rt_violated s) \<subseteq> set (rt_violated s2)"
    using violated_teardown [of s1] by (auto simp: s2_def s1_def set_fiber_def split: option.splits)
  have rw: "rewrites_fiber i (deactivate_record \<circ> apply_outcome e cancelled) s s3"
    using core_fields(3) [OF c2]
    by (simp add: s3_def rewrites_fiber_def set_fiber_def om_modify_comp s1_def)
  have st: "f_state ((deactivate_record \<circ> apply_outcome e cancelled) g) = Inactive" for g
    by (simp add: deactivate_record_def)
  have quiet: "quiet_fibers s s3"
    by (rule quiet_fibers_rewrites [OF rw])
       (use core_fields(1) [OF c2] v2 in \<open>simp_all add: quiet_def retired_def gate_ok_def deactivate_record_def
          apply_outcome_def s3_def s1_def set_fiber_def split: option.splits\<close>)
  have susp: "rt_suspended s3 = rt_suspended s" "rt_in_flight s3 = rt_in_flight s" "rt_idle_open s3 = rt_idle_open s"
    using c2 by (simp_all add: s3_def s1_def set_fiber_def core_def)
  show ?thesis
  proof (cases "gate_hazard \<in> set (rt_violated s)")
    case True
    with v2 open_done_violated [of i s3] show ?thesis by (auto simp: eq quiescent_inv_def s3_def set_fiber_def)
  next
    case False
    with assms(1) have inv: "counted [] s" "erase_safe [] s" by (simp_all add: quiescent_inv_def)
    have "counted ?fs s3"
      using rewrites_state_count [OF rw f(1), of in_transit] st [of f] f(2) inv(1) susp
      by (simp add: counted_def in_transit_def)
    moreover have "erase_safe [] s3"
      by (rule erase_safe_same_stack [OF inv(2) quiet susp(1)])
    moreover have "f_state g \<noteq> Unloading" if "find_fiber s3 i = Some g" for g
      using that rw f(1) st [of f] by (auto simp: rewrites_find)
    ultimately have o: "counted ?fs (open_done i s3) \<and> erase_safe [] (open_done i s3)"
      using open_done_keeps [of ?fs s3 "[]" i] by blast
    then have "erase_safe (?fs @ []) (open_done i s3)" by (intro erase_safe_plain) auto
    with o show ?thesis by (simp add: eq quiescent_inv_def)
  qed
qed

lemma publish_parts:
  assumes f: "find_fiber s i = Some f" "f_state f = Loading"
  obtains s' where "snd (publish i f s) = record_consumers i (f_committed f) s'"
    "rewrites_fiber i (\<lambda>f. f\<lparr>f_state := Active, f_cell_state := Active\<rparr>) s s'"
    "rt_suspended s' = rt_suspended s" "rt_next_id s' = rt_next_id s" "rt_in_flight s' = rt_in_flight s"
    "rt_idle_open s' = rt_idle_open s" "set (rt_violated s) \<subseteq> set (rt_violated s')"
proof -
  define s1 where "s1 = araya_assert ''providers_still_active(f)'' (providers_still_active
     (araya_assert ''f.activation->state == fiber_state::loading''
                (map_option act_state (Option.bind (f_activation f) (find_act
                  (araya_assert ''f.activation'' (f_activation f \<noteq> None)
                    (araya_assert ''f.state == fiber_state::loading'' (f_state f = Loading) s)))) = Some Loading)
                (araya_assert ''f.activation'' (f_activation f \<noteq> None)
                    (araya_assert ''f.state == fiber_state::loading'' (f_state f = Loading) s))) f)
     (araya_assert ''f.activation->state == fiber_state::loading''
                (map_option act_state (Option.bind (f_activation f) (find_act
                  (araya_assert ''f.activation'' (f_activation f \<noteq> None)
                    (araya_assert ''f.state == fiber_state::loading'' (f_state f = Loading) s)))) = Some Loading)
                (araya_assert ''f.activation'' (f_activation f \<noteq> None)
                    (araya_assert ''f.state == fiber_state::loading'' (f_state f = Loading) s)))"
  define s2 where "s2 = publish_bindings (f_scope f) i (f_provide f) s1"
  define s3 where "s3 = set_act_opt (f_activation f) (\<lambda>a. a\<lparr>act_state := Active\<rparr>)
     (set_fiber i (\<lambda>f. f\<lparr>f_state := Active, f_cell_state := Active\<rparr>) s2)"
  have "core s1 = core s" by (simp add: s1_def)
  then have c: "core s2 = core s" by (simp add: s2_def publish_bindings_core)
  have "set (rt_violated s) \<subseteq> set (rt_violated s1)"
    unfolding s1_def by (intro violated_assert_trans order_refl)
  then have v: "set (rt_violated s) \<subseteq> set (rt_violated s2)"
    using publish_bindings_violated unfolding s2_def by blast
  show thesis
  proof (rule that [of s3])
    show "snd (publish i f s) = record_consumers i (f_committed f) s3"
      by (simp add: publish_def Let_def s1_def s2_def s3_def)
    show "rewrites_fiber i (\<lambda>f. f\<lparr>f_state := Active, f_cell_state := Active\<rparr>) s s3"
      using core_fields(3) [OF c] by (simp add: s3_def rewrites_fiber_def)
    show "rt_suspended s3 = rt_suspended s" "rt_next_id s3 = rt_next_id s" "rt_in_flight s3 = rt_in_flight s"
      "rt_idle_open s3 = rt_idle_open s"
      using c core_simps(8) by (simp_all add: s3_def core_def set_fiber_def)
    show "set (rt_violated s) \<subseteq> set (rt_violated s3)" using v by (simp add: s3_def)
  qed
qed

lemma publish_keeps:
  assumes "quiescent_inv [] s" and f: "find_fiber s i = Some f" "f_state f = Loading"
  shows "quiescent_inv (fst (publish i f s)) (snd (publish i f s))"
proof (rule publish_parts [OF f])
  fix s' assume p: "snd (publish i f s) = record_consumers i (f_committed f) s'"
    "rewrites_fiber i (\<lambda>f. f\<lparr>f_state := Active, f_cell_state := Active\<rparr>) s s'"
    "rt_suspended s' = rt_suspended s" "rt_next_id s' = rt_next_id s" "rt_in_flight s' = rt_in_flight s"
    "rt_idle_open s' = rt_idle_open s" "set (rt_violated s) \<subseteq> set (rt_violated s')"
  note rc = record_consumers_quiet [of s' i "f_committed f"]
  have fst_p: "fst (publish i f s) = [FNotifyKeys (f_scope f) (f_provide f), FTransitionFinished]"
    by (simp add: publish_def Let_def)
  have q: "quiet_fibers s s'"
    by (rule quiet_fibers_rewrites [OF p(2)]) (use f p in \<open>auto simp: quiet_def retired_def gate_ok_def\<close>)
  have q2: "quiet_fibers s (snd (publish i f s))"
    using quiet_fibers_trans [OF q] rc by (simp add: p(1) quiet_step_def)
  show ?thesis
  proof (cases "gate_hazard \<in> set (rt_violated s)")
    case True
    with q2 show ?thesis by (auto simp: quiescent_inv_def quiet_fibers_def)
  next
    case False
    with assms(1) have inv: "counted [] s" "erase_safe [] s" by (simp_all add: quiescent_inv_def)
    have "counted (fst (publish i f s)) (snd (publish i f s))"
      using rewrites_state_count [OF p(2) f(1), of in_transit] f(2) inv(1) p(5,6) rc
      by (simp add: counted_def in_transit_def p(1) fst_p)
    moreover have "erase_safe [] (snd (publish i f s))"
      by (rule erase_safe_same_stack [OF inv(2) q2]) (use rc p(3) in \<open>simp add: p(1) quiet_step_def\<close>)
    then have "erase_safe (fst (publish i f s) @ []) (snd (publish i f s))"
      by (rule erase_safe_plain) (simp add: fst_p)
    ultimately show ?thesis by (simp add: quiescent_inv_def)
  qed
qed

lemma publish_settles:
  assumes f: "find_fiber s i = Some f" "f_state f = Loading"
  shows "settles s (snd (publish i f s))"
proof (rule publish_parts [OF f])
  fix s' assume p: "snd (publish i f s) = record_consumers i (f_committed f) s'"
    "rewrites_fiber i (\<lambda>f. f\<lparr>f_state := Active, f_cell_state := Active\<rparr>) s s'"
    "rt_suspended s' = rt_suspended s" "rt_next_id s' = rt_next_id s" "rt_in_flight s' = rt_in_flight s"
    "rt_idle_open s' = rt_idle_open s" "set (rt_violated s) \<subseteq> set (rt_violated s')"
  have "quiet_fibers s s'"
    by (rule quiet_fibers_rewrites [OF p(2)]) (use f p in \<open>auto simp: quiet_def retired_def gate_ok_def\<close>)
  with record_consumers_quiet [of s' i "f_committed f"] show ?thesis
    unfolding p(1) by (auto intro: settles_trans settles_quiet settles_quiet_step)
qed

lemma retire_fiber_core: "quiescent_inv cs s \<Longrightarrow> quiescent_inv cs (retire_fiber i s)"
  by (auto simp: quiescent_inv_def counted_def erase_safe_def erasable_def state_count_def retire_fiber_def find_fiber_def)

lemma find_retire_fiber [simp]: "find_fiber (retire_fiber j s) = find_fiber s"
  by (simp add: find_fiber_def fun_eq_iff)

lemma apply_completed_cases:
  obtains (skip) "apply_completed i e s = ([], s)"
  | (abort) f c st where "find_fiber s i = Some f" "in_transit (f_state f)"
      "apply_completed i e s = abort_apply i f e c st (retire_fiber i s)"
  | (publish) f where "find_fiber s i = Some f" "f_state f = Loading" "e = None" "\<not> f_stop f"
      "providers_still_active s f" "apply_completed i e s = publish i f (retire_fiber i s)"
proof (cases "find_fiber s i")
  case None
  then show thesis by (intro skip) (simp add: apply_completed_def)
next
  case (Some f)
  have ps: "providers_still_active (retire_fiber i s) f = providers_still_active s f"
    by (simp add: providers_still_active_def retire_fiber_def)
  show thesis
  proof (cases "in_transit (f_state f)")
    case False
    with Some show thesis by (intro skip) (simp add: apply_completed_def in_transit_def)
  next
    case True
    show thesis
    proof (cases "e = None \<and> \<not> f_stop f \<and> providers_still_active s f \<and> f_state f \<noteq> Unloading")
      case True
      with \<open>in_transit (f_state f)\<close> Some ps show thesis
        by (intro publish [OF Some]) (auto simp: apply_completed_def in_transit_def Let_def)
    next
      case False
      with \<open>in_transit (f_state f)\<close> Some ps show thesis
        by (intro abort [OF Some True, of "f_stop f" "\<not> providers_still_active s f"])
           (auto simp: apply_completed_def in_transit_def Let_def)
    qed
  qed
qed

lemma apply_completed_keeps: "quiescent_inv [] s \<Longrightarrow> quiescent_inv [] (on_apply_completed i e s)"
  unfolding on_apply_completed_def
  by (rule run_frames_keeps, cases rule: apply_completed_cases [of i e s])
     (auto intro: abort_apply_keeps publish_keeps retire_fiber_core)

lemma apply_completed_settles: "settles s (on_apply_completed i e s)"
proof -
  have r: "settles s (retire_fiber i s)" by (rule settles_frame) simp_all
  have "settles s (snd (apply_completed i e s))"
  proof (cases rule: apply_completed_cases [of i e s])
    case (abort f c st)
    with abort_apply_settles r show ?thesis by (auto intro: settles_trans)
  next
    case (publish f)
    with publish_settles [of "retire_fiber i s" i f] r show ?thesis by (auto intro: settles_trans)
  qed simp
  then show ?thesis
    unfolding on_apply_completed_def run_frames_def by (rule settles_trans) (rule run_settles)
qed

section \<open>Mounting, availability, retirement\<close>

lemma run_plain_keeps:
  assumes "quiescent_inv [] s" and "sum_list (map open_weight cs) = 0" and "\<And>i sc ks. FFinishTail i sc ks \<notin> set cs"
  shows "quiescent_inv [] (run cs s)"
proof (rule quiescence.run_keeps)
  show "quiescent_inv cs s"
    using assms erase_safe_plain [of "[]" s cs] by (auto simp: quiescent_inv_def counted_def)
qed

lemma notify_plain: "sum_list (map open_weight (notify k sc r s)) = 0" "FFinishTail i sc' ks \<notin> set (notify k sc r s)"
  by (auto simp: notify_def split: option.splits)

lemma signal_keeps:
  assumes "signal_availability k sc p v s = Inr s'"
  shows "settles s s'" "quiescent_inv [] s \<Longrightarrow> quiescent_inv [] s'"
proof -
  consider "s' = s" | st where "s' = run (notify k sc (realm_for (rt_store s) sc k) (s\<lparr>rt_store := st\<rparr>)) (s\<lparr>rt_store := st\<rparr>)"
    using assms by (auto simp: signal_availability_def Let_def split: option.splits if_splits)
  then have "settles s s' \<and> (quiescent_inv [] s \<longrightarrow> quiescent_inv [] s')"
  proof cases
    case (2 st)
    have "settles s (s\<lparr>rt_store := st\<rparr>)" by (rule settles_frame) simp_all
    then have "settles s s'" unfolding 2 by (rule settles_trans) (rule run_settles)
    moreover have "quiescent_inv [] s'" if "quiescent_inv [] s"
      unfolding 2 by (rule run_plain_keeps [OF quiescent_core [OF that]]) (simp_all add: notify_plain)
    ultimately show ?thesis by blast
  qed simp
  then show "settles s s'" "quiescent_inv [] s \<Longrightarrow> quiescent_inv [] s'" by blast+
qed

text \<open>Inserting a fiber: a new id, an inactive record with an open gate.\<close>

lemma insert_fiber_parts:
  assumes "insert_fiber d spec parent s = (i, s')"
  shows "i = rt_next_id s" "rt_next_id s' = Suc (rt_next_id s)" "rt_suspended s' = rt_suspended s"
    "rt_in_flight s' = rt_in_flight s" "rt_idle_open s' = rt_idle_open s" "rt_violated s' = rt_violated s"
    "\<exists>sc pact. rt_fibers s' = om_emplace i (new_fiber d spec sc parent pact) (rt_fibers s)"
  using assms by (auto simp: insert_fiber_def make_fiber_def next_fiber_id_def Let_def) blast+

lemma new_fiber_fields [simp]:
  "f_state (new_fiber d spec sc parent pact) = Inactive" "f_reactivate (new_fiber d spec sc parent pact) = 0"
  "f_done_open (new_fiber d spec sc parent pact)" "f_waiters (new_fiber d spec sc parent pact) = []"
  "f_committed (new_fiber d spec sc parent pact) = []" "f_consumers (new_fiber d spec sc parent pact) = []"
  "f_remaining (new_fiber d spec sc parent pact) = 0" "f_activation (new_fiber d spec sc parent pact) = None"
  by (simp_all add: new_fiber_def)

lemma state_count_emplace:
  assumes "map_of (rt_fibers s) i = None" and "rt_fibers s' = om_emplace i f (rt_fibers s)" and "\<not> P (f_state f)"
  shows "state_count P s' = state_count P s"
proof -
  have "sum_list (map (h \<circ> snd) (om_insert i f m)) = sum_list (map (h \<circ> snd) m)"
    if "h f = 0" "map_of m i = None" for h :: "fiber \<Rightarrow> nat" and m
    using that by (induction i f m rule: om_insert.induct) (auto split: if_splits)
  from this [of "\<lambda>f. if P (f_state f) then 1 else 0" "rt_fibers s"] assms show ?thesis
    by (simp add: state_count_def om_emplace_def)
qed

lemma insert_fiber_keeps:
  assumes "insert_fiber d spec parent s = (i, s')" and "quiescent_inv [] s"
  shows "quiescent_inv [] s'"
proof (cases "gate_hazard \<in> set (rt_violated s)")
  case True
  with insert_fiber_parts(6) [OF assms(1)] show ?thesis by (simp add: quiescent_inv_def)
next
  case False
  note p = insert_fiber_parts [OF assms(1)]
  obtain sc pact where fs: "rt_fibers s' = om_emplace i (new_fiber d spec sc parent pact) (rt_fibers s)"
    using p(7) by blast
  from False assms(2) have inv: "counted [] s" "erase_safe [] s" by (simp_all add: quiescent_inv_def)
  have new: "map_of (rt_fibers s) i = None"
  proof (rule ccontr)
    assume "map_of (rt_fibers s) i \<noteq> None"
    then obtain f where "find_fiber s i = Some f" by (auto simp: find_fiber_def)
    with inv(2) p(1) show False by (auto simp: erase_safe_def)
  qed
  then have find: "find_fiber s' j = (if j = i then Some (new_fiber d spec sc parent pact) else find_fiber s j)" for j
    by (simp add: find_fiber_def fs map_of_om_emplace)
  have "counted [] s'"
    using inv(1) state_count_emplace [OF new fs, of in_transit] p(4,5)
    by (simp add: counted_def in_transit_def)
  moreover have "erase_safe [] s'"
    unfolding erase_safe_def
  proof (intro conjI allI impI)
    show "om_sorted (rt_fibers s')" using inv(2) by (simp add: fs erase_safe_def)
  next
    fix j f assume "find_fiber s' j = Some f"
    then consider "j = i" "f = new_fiber d spec sc parent pact" | "find_fiber s j = Some f"
      using find [of j] by (cases "j = i") auto
    then have "j < rt_next_id s' \<and> gate_ok f \<and>
        (retired f \<longrightarrow> f_state f = Inactive \<or> f_state f = Unloading) \<and>
        (\<forall>k. EraseFiber k \<in> set (f_waiters f) \<longrightarrow> k = j \<and> retired f \<and> (f_state f = Inactive \<or> f_state f = Unloading))"
    proof cases
      case 1
      then show ?thesis by (simp add: gate_ok_def retired_def p)
    next
      case 2
      from inv(2) [unfolded erase_safe_def, THEN conjunct2, THEN conjunct1, rule_format, OF 2] p(2)
      show ?thesis by simp
    qed
    then show "j < rt_next_id s'" "gate_ok f"
      "retired f \<Longrightarrow> f_state f = Inactive \<or> f_state f = Unloading \<or> (\<exists>b. FBeginUnload j b \<in> set [])"
      "EraseFiber k \<in> set (f_waiters f) \<Longrightarrow> k = j" "EraseFiber k \<in> set (f_waiters f) \<Longrightarrow> retired f"
      "EraseFiber k \<in> set (f_waiters f) \<Longrightarrow> f_state f = Inactive \<or> f_state f = Unloading"
      "FFinishTail j sc' ks \<in> set [] \<Longrightarrow> f_state f = Inactive" for k sc' ks
      by auto
  next
    fix n sr j assume "map_of (rt_suspended s') n = Some sr" "j \<in> set (sr_erase sr)"
    with inv(2) p(3) have "erasable s (sr_gates sr) j" by (auto simp: erase_safe_def)
    with p(1,2) show "erasable s' (sr_gates sr) j" by (auto simp: erasable_def find)
  qed
  ultimately show ?thesis by (simp add: quiescent_inv_def)
qed

lemma insert_fiber_going:
  assumes "insert_fiber d spec parent s = (i, s')" and "going j s"
  shows "going j s'"
proof -
  note p = insert_fiber_parts [OF assms(1)]
  obtain sc pact where fs: "rt_fibers s' = om_emplace i (new_fiber d spec sc parent pact) (rt_fibers s)"
    using p(7) by blast
  from assms(2) p(1) have "j \<noteq> i" by (auto simp: going_def)
  with assms(2) p(2) show ?thesis by (auto simp: going_def find_fiber_def fs map_of_om_emplace split: if_splits)
qed

lemma diagnose_core: "rt_fibers (diagnose c s) = rt_fibers s" "rt_next_id (diagnose c s) = rt_next_id s"
  "rt_suspended (diagnose c s) = rt_suspended s" "rt_in_flight (diagnose c s) = rt_in_flight s"
  "rt_idle_open (diagnose c s) = rt_idle_open s" "rt_violated (diagnose c s) = rt_violated s"
  by simp_all

lemma quiescent_cong:
  assumes "quiescent_inv cs s" "rt_fibers s' = rt_fibers s" "rt_next_id s' = rt_next_id s"
    "rt_suspended s' = rt_suspended s" "rt_in_flight s' = rt_in_flight s" "rt_idle_open s' = rt_idle_open s"
    "rt_violated s' = rt_violated s"
  shows "quiescent_inv cs s'"
  using assms by (auto simp: quiescent_inv_def counted_def erase_safe_def erasable_def state_count_def find_fiber_def)

lemma mount_locked_cases:
  assumes "mount_locked spec parent s = Inr (i, s')"
  obtains d s1 where "cs_descriptor spec = Some d" "insert_fiber d spec parent s = (i, s1)"
    "s' = diagnose (cycles_possible (run [FEvaluate i] s1) d) (run [FEvaluate i] s1)"
  using assms that by (auto simp: mount_locked_def Let_def split: option.splits prod.splits)

lemma mount_locked_keeps:
  assumes "mount_locked spec parent s = Inr (i, s')"
  shows "quiescent_inv [] s \<Longrightarrow> quiescent_inv [] s'" "going j s \<Longrightarrow> going j s'"
proof -
  obtain d s1 where d: "insert_fiber d spec parent s = (i, s1)"
    "s' = diagnose (cycles_possible (run [FEvaluate i] s1) d) (run [FEvaluate i] s1)"
    using mount_locked_cases [OF assms] by metis
  show "quiescent_inv [] s'" if "quiescent_inv [] s"
    using run_plain_keeps [OF insert_fiber_keeps [OF d(1) that], of "[FEvaluate i]"]
    unfolding d(2) by (rule quiescent_cong) simp_all
  have "settles s1 s'"
    using run_settles [of s1 "[FEvaluate i]"] unfolding d(2) by (rule settles_trans) (rule settles_frame, simp_all)
  with insert_fiber_going [OF d(1)] show "going j s'" if "going j s"
    using that going_settles by blast
qed

lemma mount_run_keeps:
  assumes "context_mount_run a spec s = Inr (i, s')"
  shows "quiescent_inv [] s \<Longrightarrow> quiescent_inv [] s'" "going j s \<Longrightarrow> going j s'"
proof -
  obtain act :: activation and s1 where a: "mount_locked spec (act_id act) s = Inr (i, s1)"
    "s' = (if act_spec_declared act then add_effect a (RetireChild i) s1 else s1)"
  proof (cases "find_act s a")
    case (Some act)
    with assms that [of act] show thesis by (auto simp: context_mount_run_def split: sum.splits)
  qed (use assms in \<open>simp add: context_mount_run_def\<close>)
  show "quiescent_inv [] s'" if "quiescent_inv [] s"
    using quiescent_core [OF mount_locked_keeps(1) [OF a(1) that], of s'] by (simp add: a(2))
  show "going j s'" if "going j s"
    using going_settles [OF settles_core mount_locked_keeps(2) [OF a(1) that], of s'] by (simp add: a(2))
qed

text \<open>Stamping a fiber retired and beginning its unload.\<close>

lemma stamp_keeps:
  assumes "quiescent_inv [] s"
  shows "quiescent_inv [FBeginUnload i False] (set_fiber i (\<lambda>f. f\<lparr>f_reactivate := -1\<rparr>) s)"
proof (cases "gate_hazard \<in> set (rt_violated s)")
  case True
  then show ?thesis by (simp add: quiescent_inv_def)
next
  case False
  let ?s = "set_fiber i (\<lambda>f. f\<lparr>f_reactivate := -1\<rparr>) s"
  from False assms have inv: "counted [] s" "erase_safe [] s" by (simp_all add: quiescent_inv_def)
  have "counted [FBeginUnload i False] ?s"
    using inv(1) by (simp add: counted_def state_count_set_fiber_same) (simp add: set_fiber_def)
  moreover have "erase_safe [FBeginUnload i False] ?s"
    using inv(2)
    by (auto simp: erase_safe_def erasable_def retired_def gate_ok_def map_option_case split: if_splits option.splits)
  ultimately show ?thesis by (simp add: quiescent_inv_def)
qed

lemma begin_retire_keeps: "quiescent_inv [] s \<Longrightarrow> quiescent_inv [] (begin_retire i s)"
  unfolding begin_retire_def by (rule quiescence.run_keeps [OF stamp_keeps])

lemma begin_retire_going:
  assumes "i < rt_next_id s"
  shows "going i (begin_retire i s)"
proof -
  let ?s = "set_fiber i (\<lambda>f. f\<lparr>f_reactivate := -1\<rparr>) s"
  obtain fs s' where e: "exec (FBeginUnload i False) ?s = (fs, s')" by force
  have "going i s'"
  proof (cases "find_fiber s i")
    case None
    with e assms show ?thesis by (auto simp: begin_unload_absent going_def)
  next
    case (Some f)
    then have "find_fiber ?s i = Some (f\<lparr>f_reactivate := -1\<rparr>)" by simp
    then obtain g where g: "rewrites_fiber i g ?s (snd (begin_unload i False ?s))"
      "quiet (f\<lparr>f_reactivate := -1\<rparr>) (g (f\<lparr>f_reactivate := -1\<rparr>))"
      "retired (g (f\<lparr>f_reactivate := -1\<rparr>)) \<Longrightarrow> f_state (g (f\<lparr>f_reactivate := -1\<rparr>)) = Inactive \<or> f_state (g (f\<lparr>f_reactivate := -1\<rparr>)) = Unloading"
      using begin_unload_fiber by metis
    from g(2) have "retired (g (f\<lparr>f_reactivate := -1\<rparr>))" by (simp add: quiet_def retired_def)
    with g(3) have st: "retired (g (f\<lparr>f_reactivate := -1\<rparr>)) \<and>
        (f_state (g (f\<lparr>f_reactivate := -1\<rparr>)) = Inactive \<or> f_state (g (f\<lparr>f_reactivate := -1\<rparr>)) = Unloading)" by blast
    from e have s': "s' = snd (begin_unload i False ?s)" by simp
    have "find_fiber s' i = Some (g (f\<lparr>f_reactivate := -1\<rparr>))"
      unfolding s' rewrites_find [OF g(1)] by (simp add: Some)
    with st assms show ?thesis by (simp add: going_def s' begin_unload_frames)
  qed
  with e show ?thesis
    unfolding begin_retire_def run_step [OF e] by (rule_tac going_settles [OF run_settles])
qed

lemma begin_retire_going_other:
  assumes "going j s"
  shows "going j (begin_retire i s)"
  unfolding begin_retire_def
  by (rule going_settles [OF run_settles]) (use assms in \<open>auto simp: going_def retired_def\<close>)

lemma quiescent_erase:
  assumes "quiescent_inv [] s" and "\<And>f. find_fiber s i = Some f \<Longrightarrow> \<not> in_transit (f_state f)"
  shows "quiescent_inv [] (erase_fiber i s)"
proof (cases "gate_hazard \<in> set (rt_violated s)")
  case False
  with assms(1) have inv: "counted [] s" "erase_safe [] s" by (simp_all add: quiescent_inv_def)
  have "transit_count (erase_fiber i s) = transit_count s"
    by (rule state_count_erase_rest) (use assms(2) inv in \<open>auto simp: erase_safe_def\<close>)
  with inv(1) have "counted [] (erase_fiber i s)" by (simp add: counted_def)
  moreover have "erase_safe [] (erase_fiber i s)"
    by (rule erase_safe_same_stack [OF inv(2) quiet_fibers_erase]) simp
  ultimately show ?thesis by (simp add: quiescent_inv_def)
qed (simp add: quiescent_inv_def)

lemma erase_when_done_keeps:
  assumes "quiescent_inv [] s" and "going i s"
  shows "quiescent_inv [] (erase_when_done i s)"
proof (cases "find_fiber s i")
  case None
  with assms show ?thesis by (simp add: erase_when_done_def)
next
  case (Some f)
  from assms(2) Some have f: "retired f" "f_state f = Inactive \<or> f_state f = Unloading" by (auto simp: going_def)
  show ?thesis
  proof (cases "f_done_open f")
    case True
    then have e: "erase_when_done i s = erase_fiber i s" using Some by (simp add: erase_when_done_def)
    show ?thesis
    proof (cases "gate_hazard \<in> set (rt_violated s)")
      case False
      with assms(1) have "erase_safe [] s" by (simp add: quiescent_inv_def)
      with Some have "gate_ok f" by (auto simp: erase_safe_def)
      with True f have "\<not> in_transit (f_state f)" by (auto simp: gate_ok_def in_transit_def)
      with Some assms(1) show ?thesis unfolding e by (intro quiescent_erase) auto
    qed (simp add: e quiescent_inv_def)
  next
    case False
    let ?h = "\<lambda>f. f\<lparr>f_waiters := f_waiters f @ [EraseFiber i]\<rparr>"
    have e: "erase_when_done i s = set_fiber i ?h s" using Some False by (simp add: erase_when_done_def)
    show ?thesis
    proof (cases "gate_hazard \<in> set (rt_violated s)")
      case False
      with assms(1) have inv: "counted [] s" "erase_safe [] s" by (simp_all add: quiescent_inv_def)
      have "counted [] (set_fiber i ?h s)"
        using inv(1) by (simp add: counted_def state_count_set_fiber_same) (simp add: set_fiber_def)
      moreover have "erase_safe [] (set_fiber i ?h s)"
        using inv(2) Some f
        by (auto simp: erase_safe_def erasable_def retired_def gate_ok_def split: if_splits)
      ultimately show ?thesis by (simp add: e quiescent_inv_def)
    qed (simp add: e quiescent_inv_def)
  qed
qed

lemma settles_erase_when_done: "settles s (erase_when_done i s)"
  by (auto simp: erase_when_done_def intro: settles_erase settles_set_fiber split: option.splits)

lemma fiber_id_bound:
  assumes "quiescent_inv [] s" and "gate_hazard \<notin> set (rt_violated s)" and "find_fiber s i = Some f"
  shows "i < rt_next_id s"
  using assms by (auto simp: quiescent_inv_def erase_safe_def)

lemma begin_retire_violated: "set (rt_violated s) \<subseteq> set (rt_violated (begin_retire i s))"
  using run_violated [of "set_fiber i (\<lambda>f. f\<lparr>f_reactivate := -1\<rparr>) s"] by (simp add: begin_retire_def set_fiber_def)

lemma erase_when_done_violated [simp]: "rt_violated (erase_when_done i t) = rt_violated t"
  by (simp add: erase_when_done_def set_fiber_def split: option.splits)

text \<open>Erasing once done is safe for a fiber that is going; and nothing is to be shown after a hazard.\<close>

lemma retire_done_keeps:
  assumes "quiescent_inv [] s" "find_fiber s i = Some f"
  shows "quiescent_inv [] (erase_when_done i (begin_retire i s))"
proof (cases "gate_hazard \<in> set (rt_violated s)")
  case True
  with begin_retire_violated [of s i] show ?thesis by (auto simp: quiescent_inv_def)
next
  case False
  from fiber_id_bound [OF assms(1) False assms(2)] assms(1) show ?thesis
    by (intro erase_when_done_keeps begin_retire_keeps begin_retire_going)
qed

lemma retire_keeps:
  assumes "quiescent_inv [] s"
  shows "quiescent_inv [] (retire i s)"
proof (cases "find_fiber s i")
  case None
  with assms show ?thesis by (simp add: retire_def)
next
  case (Some f)
  with assms retire_done_keeps [OF assms Some] show ?thesis
    by (auto simp: retire_def in_transit_def intro!: quiescent_erase)
qed

lemma retire_child_keeps:
  assumes "quiescent_inv [] s"
  shows "quiescent_inv [] (retire_child_task i s)"
proof (cases "find_fiber s i")
  case None
  with assms show ?thesis by (simp add: retire_child_task_def)
next
  case (Some f)
  have "quiescent_inv [] (erase_fiber i t)" if "quiescent_inv [] t" "state_of t i = Inactive" for t
    using that by (intro quiescent_erase) (auto simp: state_of_def in_transit_def)
  with Some assms retire_done_keeps [OF assms Some] begin_retire_keeps [OF assms, of i] show ?thesis
    by (simp add: retire_child_task_def Let_def)
qed

lemma retire_going: "going j s \<Longrightarrow> going j (retire i s)"
  by (auto simp: retire_def intro: going_settles [OF settles_erase] going_settles [OF settles_erase_when_done]
      begin_retire_going_other split: option.splits)

lemma retire_child_going: "going j s \<Longrightarrow> going j (retire_child_task i s)"
  by (auto simp: retire_child_task_def Let_def intro: going_settles [OF settles_erase]
      going_settles [OF settles_erase_when_done] begin_retire_going_other split: option.splits)

text \<open>What \<open>retire\<close> promises: afterwards the fiber is gone or on its way out.\<close>

lemma retire_starts_going:
  assumes "find_fiber s i = Some f" "i < rt_next_id s"
  shows "going i (retire i s)"
proof (cases "f_state f = Inactive")
  case True
  with assms show ?thesis by (simp add: retire_def going_def)
next
  case False
  with assms going_settles [OF settles_erase_when_done begin_retire_going [OF assms(2)]] show ?thesis
    by (simp add: retire_def)
qed

section \<open>Reconciliation\<close>

text \<open>Both properties of one step of the engine at once.\<close>

definition safe_step :: "runtime \<Rightarrow> runtime \<Rightarrow> bool" where
  "safe_step s s' \<longleftrightarrow>
     (quiescent_inv [] s \<longrightarrow> quiescent_inv [] s') \<and> (\<forall>j. going j s \<longrightarrow> going j s') \<and>
     set (rt_violated s) \<subseteq> set (rt_violated s')"

lemma safe_step_refl [simp]: "safe_step s s"
  by (simp add: safe_step_def)

lemma safe_step_trans: "safe_step s t \<Longrightarrow> safe_step t u \<Longrightarrow> safe_step s u"
  unfolding safe_step_def by blast

lemma safe_step_cong:
  assumes "rt_fibers s' = rt_fibers s" "rt_next_id s' = rt_next_id s"
    "rt_suspended s' = rt_suspended s" "rt_in_flight s' = rt_in_flight s" "rt_idle_open s' = rt_idle_open s"
    "rt_violated s' = rt_violated s"
  shows "safe_step s s'"
  using assms quiescent_cong [of "[]" s s'] by (auto simp: safe_step_def going_def find_fiber_def)

lemma safe_step_core: "core s' = core s \<Longrightarrow> set (rt_violated s) \<subseteq> set (rt_violated s') \<Longrightarrow> safe_step s s'"
  unfolding safe_step_def using quiescent_core going_settles settles_core by blast

lemma safe_step_run:
  assumes "sum_list (map open_weight cs) = 0" "\<And>i sc ks. FFinishTail i sc ks \<notin> set cs"
  shows "safe_step s (run cs s)"
  using run_plain_keeps [OF _ assms] going_settles [OF run_settles] run_violated
  by (auto simp: safe_step_def)

lemma safe_step_retire: "safe_step s (begin_retire i s)"
  using begin_retire_keeps begin_retire_going_other begin_retire_violated by (auto simp: safe_step_def)

lemma safe_step_fold:
  "(\<And>x s. safe_step s (g x s)) \<Longrightarrow> safe_step s (fold g xs s)"
proof (induction xs arbitrary: s)
  case (Cons x xs)
  have "safe_step s (g x s)" using Cons.prems by blast
  moreover have "safe_step (g x s) (fold g xs (g x s))" using Cons by blast
  ultimately show ?case by (simp add: safe_step_trans)
qed simp

lemma safe_step_set_fiber:
  assumes "\<And>f. f_state (g f) = f_state f \<and> f_reactivate (g f) = f_reactivate f \<and>
     f_done_open (g f) = f_done_open f \<and> f_waiters (g f) = f_waiters f"
  shows "safe_step s (set_fiber i g s)"
proof -
  have q: "quiet_step s (set_fiber i g s)"
    by (rule quiet_step_set_fiber) (use assms in \<open>simp add: quiet_def retired_def gate_ok_def\<close>)
  have "quiescent_inv [] (set_fiber i g s)" if "quiescent_inv [] s"
  proof (cases "gate_hazard \<in> set (rt_violated s)")
    case False
    with that have inv: "counted [] s" "erase_safe [] s" by (simp_all add: quiescent_inv_def)
    have "counted [] (set_fiber i g s)"
      using inv(1) assms by (simp add: counted_def state_count_set_fiber_same) (simp add: set_fiber_def)
    moreover have "erase_safe [] (set_fiber i g s)"
      using erase_safe_same_stack [OF inv(2)] q by (simp add: quiet_step_def)
    ultimately show ?thesis by (simp add: quiescent_inv_def)
  qed (simp add: quiescent_inv_def)
  moreover have "going j (set_fiber i g s)" if "going j s" for j
    using going_settles [OF settles_quiet_step [OF q] that] .
  ultimately show ?thesis by (simp add: safe_step_def)
qed

lemma safe_step_notify: "safe_step s (run_notify k sc r s)"
  unfolding run_notify_def by (rule safe_step_run) (simp_all add: notify_plain)

lemma move_binding_core:
  "core (snd (move_binding i a b r k (moved, s))) = core s"
  "set (rt_violated s) \<subseteq> set (rt_violated (snd (move_binding i a b r k (moved, s))))"
  using fold_assert_core fold_assert_violated
  by (auto simp: move_binding_def Let_def split: option.splits)

lemma move_bindings_safe: "safe_step s (snd (fold (\<lambda>k. move_binding i a b (g k) k) ks (moved, s)))"
proof (induction ks arbitrary: moved s)
  case (Cons k ks)
  obtain m t where e: "move_binding i a b (g k) k (moved, s) = (m, t)" by force
  with move_binding_core(1) [of i a b "g k" k moved s] move_binding_core(2) [of s i a b "g k" k moved]
  have "safe_step s t" by (auto intro: safe_step_core)
  then have "safe_step s (snd (fold (\<lambda>k. move_binding i a b (g k) k) ks (m, t)))"
    by (rule safe_step_trans) (rule Cons.IH)
  with e show ?case by simp
qed simp

lemma reassign_safe: "safe_step s (reassign i next new_scope old_realms s)"
proof (cases "find_fiber s i")
  case None
  then show ?thesis by (simp add: reassign_def)
next
  case (Some f)
  let ?mv = "fold (\<lambda>k. move_binding i (f_scope f) new_scope (realm_in old_realms k) k) (f_provide f) (False, s)"
  obtain moved s1 where mv: "?mv = (moved, s1)" by force
  have "safe_step s s1" using move_bindings_safe [of s i "f_scope f" new_scope "realm_in old_realms" "f_provide f" False] mv by simp
  moreover
  let ?s2 = "if moved \<or> f_scope f \<noteq> new_scope
                   then fold (\<lambda>k s. let s = run_notify k (f_scope f) (realm_in old_realms k) s
                                     in run_notify k new_scope (realm_for (rt_store s) new_scope k) s) (f_provide f) s1
                   else s1"
  have "safe_step s1 ?s2"
    by (auto simp: Let_def intro!: safe_step_fold intro: safe_step_trans safe_step_notify)
  moreover
  let ?s3 = "set_fiber i (\<lambda>f. f\<lparr>f_scope := new_scope, f_isolate := cs_isolate next, f_name := cs_name next\<rparr>) ?s2"
  have "safe_step ?s2 ?s3" by (rule safe_step_set_fiber) simp
  moreover have "safe_step ?s3 (if state_of ?s3 i = Active then run [FEvaluate i] ?s3 else ?s3)"
    by (simp add: safe_step_run)
  ultimately have "safe_step s (if state_of ?s3 i = Active then run [FEvaluate i] ?s3 else ?s3)"
    using safe_step_trans by blast
  with Some mv show ?thesis by (simp add: reassign_def Let_def)
qed

text \<open>The diff: every gate it collects belongs to a fiber that is going.\<close>

definition diff_safe :: "fiber_id list \<times> runtime \<Rightarrow> fiber_id list \<times> runtime \<Rightarrow> bool" where
  "diff_safe r r' \<longleftrightarrow> safe_step (snd r) (snd r') \<and>
     (quiescent_inv [] (snd r) \<longrightarrow> gate_hazard \<notin> set (rt_violated (snd r')) \<longrightarrow>
        (\<forall>j \<in> set (fst r). going j (snd r)) \<longrightarrow> (\<forall>j \<in> set (fst r'). going j (snd r')))"

lemma diff_safe_same:
  assumes "safe_step s s'"
  shows "diff_safe (gates, s) (gates, s')"
  using assms by (auto simp: diff_safe_def safe_step_def)

lemma diff_safe_after:
  assumes "safe_step s s'" and "diff_safe (gates, s') r"
  shows "diff_safe (gates, s) r"
  using assms safe_step_trans unfolding diff_safe_def by (simp add: safe_step_def)

lemma drop_entry_safe:
  assumes "find_fiber s i = Some f"
  shows "diff_safe (gates, s) (drop_entry path i (gates, s))"
proof -
  let ?t = "begin_retire i s"
  let ?u = "?t\<lparr>rt_reconciled := om_erase path (rt_reconciled ?t), rt_entry_ctxs := om_erase path (rt_entry_ctxs ?t)\<rparr>"
  have u: "safe_step ?t ?u" by (rule safe_step_cong) simp_all
  have s: "safe_step s ?u" using safe_step_trans [OF safe_step_retire u] .
  have g: "going i ?u" if "quiescent_inv [] s" "gate_hazard \<notin> set (rt_violated ?u)"
  proof -
    from that(2) s have "gate_hazard \<notin> set (rt_violated s)" by (auto simp: safe_step_def)
    with u begin_retire_going [OF fiber_id_bound [OF that(1) _ assms]] show ?thesis by (simp add: safe_step_def)
  qed
  have d: "drop_entry path i (gates, s) = (gates @ [i], ?u)" by (simp add: drop_entry_def Let_def)
  from s g show ?thesis unfolding diff_safe_def d by (auto simp: safe_step_def)
qed

lemma entry_scope_safe: "safe_step s (fst (entry_scope_for path spec s))"
  by (rule safe_step_cong) (simp_all add: entry_scope_frames)

lemma move_entry_safe:
  assumes "find_fiber s i = Some f'"
  shows "diff_safe (gates, s) (move_entry path i f spec (gates, s))"
proof -
  obtain s1 sc where e: "entry_scope_for path spec s = (s1, sc)" by force
  have s1: "safe_step s s1" "rt_violated s1 = rt_violated s" "find_fiber s1 i = Some f'"
    using entry_scope_safe [of s path spec] entry_scope_frames(3) [of path spec s] entry_scope_fibers [of path spec s]
      assms e by (simp_all add: find_fiber_def del: entry_scope_fibers)
  have "diff_safe (gates, s1) (drop_entry path i (gates, s1))" by (rule drop_entry_safe [OF s1(3)])
  moreover have "diff_safe (gates, s1) (gates, reassign i spec sc old s1)" for old
    by (rule diff_safe_same [OF reassign_safe])
  moreover have "diff_safe (gates, s1) (gates, set_fiber i (\<lambda>f. f\<lparr>f_scope := sc, f_isolate := cs_isolate spec\<rparr>) s1)"
    by (rule diff_safe_same, rule safe_step_set_fiber) simp
  moreover have "diff_safe (gates, s1) (gates, s1)" by (rule diff_safe_same) simp
  ultimately have "diff_safe (gates, s1) (move_entry path i f spec (gates, s))"
    using e by (simp add: move_entry_def Let_def)
  then show ?thesis by (rule diff_safe_after [OF s1(1)])
qed

lemma diff_entry_safe: "diff_safe r (diff_entry desired entry r)"
proof -
  obtain path i gates s where e: "entry = (path, i)" "r = (gates, s)" by (metis surj_pair)
  show ?thesis
  proof (cases "find_fiber s i")
    case None
    have "safe_step s (s\<lparr>rt_reconciled := om_erase path (rt_reconciled s), rt_entry_ctxs := om_erase path (rt_entry_ctxs s)\<rparr>)"
      by (rule safe_step_cong) simp_all
    with None show ?thesis by (simp add: e diff_entry_def diff_safe_same)
  next
    case (Some f)
    have drop: "diff_safe (gates, s) (drop_entry path i (gates, s))" by (rule drop_entry_safe [OF Some])
    have move: "diff_safe (gates, s) (move_entry path i f spec (gates, s))" for spec by (rule move_entry_safe [OF Some])
    have conf: "diff_safe (gates, s) (move_entry path i (f\<lparr>f_config := c\<rparr>) spec
                               (gates, set_fiber i (\<lambda>f. f\<lparr>f_config := c\<rparr>) s))" for c spec
    proof (rule diff_safe_after [OF _ move_entry_safe])
      show "safe_step s (set_fiber i (\<lambda>f. f\<lparr>f_config := c\<rparr>) s)" by (rule safe_step_set_fiber) simp
      show "find_fiber (set_fiber i (\<lambda>f. f\<lparr>f_config := c\<rparr>) s) i = Some (f\<lparr>f_config := c\<rparr>)" by (simp add: Some)
    qed
    from Some drop move conf show ?thesis by (simp add: e diff_entry_def split: option.split)
  qed
qed

lemma diff_safe_trans:
  assumes "diff_safe r t" "diff_safe t u"
  shows "diff_safe r u"
proof -
  have st: "safe_step (snd r) (snd t)" "safe_step (snd t) (snd u)"
    using assms by (simp_all add: diff_safe_def)
  have "\<forall>j \<in> set (fst u). going j (snd u)"
    if "quiescent_inv [] (snd r)" "gate_hazard \<notin> set (rt_violated (snd u))" "\<forall>j \<in> set (fst r). going j (snd r)"
  proof -
    from st(2) that(2) have "gate_hazard \<notin> set (rt_violated (snd t))" by (auto simp: safe_step_def)
    with assms(1) that have "\<forall>j \<in> set (fst t). going j (snd t)" by (simp add: diff_safe_def)
    moreover have "quiescent_inv [] (snd t)" using st(1) that(1) by (simp add: safe_step_def)
    ultimately show ?thesis using assms(2) that(2) by (simp add: diff_safe_def)
  qed
  with safe_step_trans [OF st] show ?thesis by (simp add: diff_safe_def)
qed

lemma diff_fold_safe: "diff_safe r (fold (diff_entry desired) es r)"
proof (induction es arbitrary: r)
  case Nil
  then show ?case by (simp add: diff_safe_def)
next
  case (Cons e es)
  from diff_safe_trans [OF diff_entry_safe Cons.IH] show ?case by simp
qed

lemma resume_violated: "rt_violated (resume_reconcile n s) = rt_violated s"
  by (auto simp: resume_reconcile_def set_fiber_def split: option.splits list.splits)

lemma reconcile_safe: "safe_step s (reconcile ds s)"
proof -
  obtain gates t where e: "fold (diff_entry (desired_by_path ds)) (rt_reconciled s) ([], s) = (gates, t)" by force
  let ?sr = "\<lparr>sr_gates = gates, sr_erase = gates, sr_desired = ds\<rparr>"
  let ?u = "t\<lparr>rt_suspended := om_insert (fresh_wait t) ?sr (rt_suspended t)\<rparr>"
  have eq: "reconcile ds s = resume_reconcile (fresh_wait t) ?u"
    by (simp add: reconcile_def e Let_def)
  from diff_fold_safe [of "([], s)" "desired_by_path ds" "rt_reconciled s"]
  have d: "safe_step s t" "quiescent_inv [] s \<Longrightarrow> gate_hazard \<notin> set (rt_violated t) \<Longrightarrow> \<forall>j \<in> set gates. going j t"
    by (simp_all add: diff_safe_def e)
  have viol: "rt_violated (reconcile ds s) = rt_violated t"
    by (simp add: eq resume_violated)
  have settle: "settles t (reconcile ds s)"
    unfolding eq by (rule settles_trans [OF settles_frame settles_resume]) simp_all
  have "quiescent_inv [] (reconcile ds s)" if q: "quiescent_inv [] s"
  proof (cases "gate_hazard \<in> set (rt_violated t)")
    case True
    then show ?thesis by (simp add: quiescent_inv_def viol)
  next
    case False
    from d(1) q have "quiescent_inv [] t" by (simp add: safe_step_def)
    with False have inv: "counted [] t" "erase_safe [] t" by (simp_all add: quiescent_inv_def)
    have g: "\<forall>j \<in> set gates. going j t" by (rule d(2) [OF q False])
    have qf: "quiet_fibers t ?u" by (rule quiet_fibers_frame) simp_all
    have "counted [] ?u" by (rule counted_cong [OF inv(1)]) simp_all
    moreover have "erase_safe [] ?u"
    proof (rule erase_safe_quiet [OF inv(2) qf])
      fix n sr j assume m: "map_of (rt_suspended ?u) n = Some sr" "j \<in> set (sr_erase sr)"
      show "erasable ?u (sr_gates sr) j"
      proof (cases "n = fresh_wait t")
        case True
        with m g have "going j t" "sr_gates sr = gates" "j \<in> set gates" by auto
        then show ?thesis by (auto simp: erasable_def going_def find_fiber_def)
      next
        case False
        with m inv(2) have "erasable t (sr_gates sr) j" by (auto simp: erase_safe_def)
        with qf show ?thesis by (rule erasable_quiet)
      qed
    qed auto
    ultimately show ?thesis
      using resume_keeps [of "[]" ?u "[]" "fresh_wait t"] by (simp add: eq quiescent_inv_def)
  qed
  with d(1) settle viol show ?thesis by (auto simp: safe_step_def intro: going_settles)
qed

section \<open>Posted tasks, and every step\<close>

lemma mount_locked_violated:
  assumes "mount_locked spec parent s = Inr (i, s')"
  shows "set (rt_violated s) \<subseteq> set (rt_violated s')"
proof -
  obtain d s1 where "insert_fiber d spec parent s = (i, s1)"
    "s' = diagnose (cycles_possible (run [FEvaluate i] s1) d) (run [FEvaluate i] s1)"
    using mount_locked_cases [OF assms] by metis
  with insert_fiber_parts(6) [of d spec parent s i s1] run_violated [of s1] show ?thesis by simp
qed

lemma mount_locked_safe: "mount_locked spec parent s = Inr (i, s') \<Longrightarrow> safe_step s s'"
  using mount_locked_keeps mount_locked_violated by (auto simp: safe_step_def)

lemma retire_child_violated: "set (rt_violated s) \<subseteq> set (rt_violated (retire_child_task i s))"
  using begin_retire_violated [of s i] by (auto simp: retire_child_task_def Let_def split: option.splits)

lemma retire_violated: "set (rt_violated s) \<subseteq> set (rt_violated (retire i s))"
  using begin_retire_violated [of s i] by (auto simp: retire_def split: option.splits)

lemma run_task_safe: "safe_step s (run_task t s)"
proof (cases t)
  case (TRetireChild i)
  then show ?thesis
    using retire_child_keeps retire_child_going retire_child_violated by (simp add: safe_step_def)
next
  case (TMountDesired path spec rest)
  show ?thesis
  proof (cases "mount_locked spec 0 s")
    case (Inr p)
    obtain i s1 where p: "p = (i, s1)" by force
    have "safe_step s1 (advance_mounts rest (s1\<lparr>rt_reconciled := om_insert path i (rt_reconciled s1)\<rparr>))"
      by (rule safe_step_cong) simp_all
    with mount_locked_safe [of spec 0 s i s1] Inr p TMountDesired show ?thesis
      by (auto intro: safe_step_trans)
  qed (use TMountDesired in simp)
qed

lemma poll_task_safe: "safe_step s (poll_task s)"
proof (cases "rt_posted s")
  case (Cons t ts)
  have "safe_step s (s\<lparr>rt_posted := ts\<rparr>)" by (rule safe_step_cong) simp_all
  with Cons show ?thesis by (auto simp: poll_task_def intro: safe_step_trans run_task_safe)
qed (simp add: poll_task_def)

lemma open_done_violated_le: "set (rt_violated s) \<subseteq> set (rt_violated (open_done i s))"
  by (simp add: open_done_violated)

lemma apply_completed_violated: "set (rt_violated s) \<subseteq> set (rt_violated (on_apply_completed i e s))"
proof -
  have "set (rt_violated s) \<subseteq> set (rt_violated (snd (apply_completed i e s)))"
  proof (cases rule: apply_completed_cases [of i e s])
    case (abort f c st)
    show ?thesis
      using violated_teardown [of "set_fiber i (apply_outcome e c) (retire_fiber i s)"]
      by (auto simp: abort abort_apply_def Let_def open_done_violated set_fiber_def split: option.splits)
  next
    case (publish f)
    have "find_fiber (retire_fiber i s) i = Some f" using publish by simp
    then show ?thesis
    proof (rule publish_parts [OF _ publish(2)])
      fix s' assume "snd (publish i f (retire_fiber i s)) = record_consumers i (f_committed f) s'"
        "set (rt_violated (retire_fiber i s)) \<subseteq> set (rt_violated s')"
      with record_consumers_quiet [of s' i "f_committed f"] publish(6) show ?thesis
        by (auto simp: quiet_step_def quiet_fibers_def)
    qed
  qed simp
  then show ?thesis
    unfolding on_apply_completed_def run_frames_def using run_violated by blast
qed

lemma signal_violated:
  assumes "signal_availability k sc p v s = Inr s'"
  shows "set (rt_violated s) \<subseteq> set (rt_violated s')"
proof -
  have r: "x \<in> set (rt_violated s) \<Longrightarrow> x \<in> set (rt_violated (run cs (s\<lparr>rt_store := st\<rparr>)))" for x cs st
    using run_violated [of "s\<lparr>rt_store := st\<rparr>" cs] by auto
  show ?thesis
    using assms by (auto simp: signal_availability_def Let_def r split: option.splits if_splits)
qed

lemma engine_step_safe: "engine_step s s' \<Longrightarrow> safe_step s s'"
proof (induction rule: engine_step.induct)
  case (apply_step s i thrown)
  show ?case
    using apply_completed_keeps going_settles [OF apply_completed_settles] apply_completed_violated
    by (auto simp: safe_step_def)
next
  case sig: (signal_step k sc p v s s')
  then show ?case
    using signal_keeps [OF sig] going_settles signal_violated [OF sig]
    by (simp add: safe_step_def)
next
  case (provide_step a k val check s s' reg)
  then show ?case by (intro safe_step_core provide_raw_core)
next
  case (effect_step a outcome s s' reg)
  with effect_core show ?case by (auto intro: safe_step_core)
next
  case (release_effect_step a reg s reg' s')
  with release_effect_core show ?case by (auto intro: safe_step_core)
next
  case (mount_step spec parent s i s')
  then show ?case by (rule mount_locked_safe)
next
  case (mount_call_step a spec s spec' s')
  with mount_call_core show ?case by (auto intro: safe_step_core)
next
  case (mount_run_step a spec s i s')
  then obtain act :: activation and s1 where "mount_locked spec (act_id act) s = Inr (i, s1)"
    "core s' = core s1" "rt_violated s' = rt_violated s1"
    unfolding context_mount_run_def by (auto split: option.splits sum.splits)
  then show ?case
    using safe_step_trans [OF mount_locked_safe safe_step_core] by (simp add: order_refl)
next
  case (retire_step s i)
  show ?case using retire_keeps retire_going retire_violated by (simp add: safe_step_def)
next
  case (cancel_step s i)
  show ?case unfolding cancel_def by (rule safe_step_set_fiber) simp
next
  case (isolate_step s c k r)
  show ?case by (rule safe_step_core) simp_all
next
  case (metadata_step s c k md)
  show ?case by (rule safe_step_core) simp_all
qed (auto intro: reconcile_safe poll_task_safe)

lemma init_quiescent: "quiescent_inv [] (init_runtime n)"
  by (simp add: init_runtime_def make_root_def quiescent_inv_def counted_def erase_safe_def state_count_def find_fiber_def)

lemma reachable_quiescent: "reachable s \<Longrightarrow> quiescent_inv [] s"
  by (induction rule: reachable.induct) (use init_quiescent engine_step_safe in \<open>auto simp: safe_step_def\<close>)

end
