(* ===== verification/Records.thy ===== *)
theory Records
  imports Reachable
begin

text \<open>
  Invariants of a single fiber record. \<open>frame_invariant\<close> and \<open>record_invariant\<close> are the interface: an assertion on a record
  that every write the engine makes keeps. Its theorem is that the assertion holds of every record in
  every reachable state. The interpretations are the hygiene of inactive fibers, the immutability of the
  declarations, and what a fiber handle reads.
\<close>

text \<open>A record as loading leaves it: the fields it does not write are tied to the old record.\<close>

definition loaded_from :: "fiber \<Rightarrow> fiber \<Rightarrow> bool" where
  "loaded_from f f' \<longleftrightarrow> f_state f = Inactive \<and> \<not> retired f \<and> ties f' = ties f \<and> f_cell_state f' = f_state f' \<and>
     (f_state f' = Loading \<and> \<not> f_completed f' \<and> f_error f' = None \<and> f_activation f' \<noteq> None \<or>
      f_state f' = Inactive \<and> f_completed f' \<and> (f_committed f' = f_committed f \<or> f_committed f' = []))"

lemma start_loading_loaded:
  assumes "find_fiber s i = Some f" "f_state f = Inactive" "f_reactivate f \<ge> 0"
    and f': "find_fiber (start_loading i s) i = Some f'"
  shows "loaded_from f f'"
proof -
  from start_loading_ties [of i s i] f' assms(1) have t: "ties f' = ties f" by simp
  have c: "f_cell_state f' = f_state f' \<and> (f_state f' = Loading \<and> \<not> f_completed f' \<or> f_state f' = Inactive \<and> f_completed f')"
    using assms(1) f'
    by (auto simp: start_loading_def Let_def loading_failed_def abandon_loading_def commit_loading_def
        arm_loading_def loading_checks_def spawn_apply_def find_fiber_def split: option.splits if_splits)
  show ?thesis
  proof (rule start_loading_cases [OF assms(1)])
    fix e g assume "rewrites_fiber i g s (start_loading i s)" "f_state (g f) = Inactive"
      "f_committed (g f) = f_committed f"
    with f' assms t c show ?thesis by (auto simp: loaded_from_def rewrites_find retired_def)
  next
    fix e g assume "rewrites_fiber i g s (start_loading i s)" "f_state (g f) = Inactive" "f_committed (g f) = []"
    with f' assms t c show ?thesis by (auto simp: loaded_from_def rewrites_find retired_def)
  next
    fix inst g assume "rewrites_fiber i g s (start_loading i s)" "f_state (g f) = Loading" "f_error (g f) = None"
      "f_activation (g f) = Some (length (rt_acts s))"
    with f' assms t c show ?thesis by (auto simp: loaded_from_def rewrites_find retired_def)
  qed
qed

text \<open>
  The writes of the cascade, and on top of them those of the other handlers. The assertion may name
  the fiber's id, so that it can compare the record with the one of an earlier state.
\<close>

locale frame_invariant =
  fixes P :: "fiber_id \<Rightarrow> fiber \<Rightarrow> bool"
  assumes gated: "P i f \<Longrightarrow> P i (f\<lparr>f_done_open := b, f_waiters := ws\<rparr>)"
    and noted: "P i f \<Longrightarrow> P i (f\<lparr>f_error := e\<rparr>)"
    and stopped: "P i f \<Longrightarrow> P i (f\<lparr>f_stop := True\<rparr>)"
    and loaded: "P i f \<Longrightarrow> loaded_from f f' \<Longrightarrow> P i f'"
    and raised: "P i f \<Longrightarrow> P i (raise_reactivate b f)"
    and unloaded: "P i f \<Longrightarrow> f_state f = Active \<Longrightarrow> P i (unload_record b n f)"
    and diverted: "P i f \<Longrightarrow> f_state f = Loading \<Longrightarrow> P i (divert_record b f)"
    and finished: "P i f \<Longrightarrow> f_state f = Unloading \<Longrightarrow> P i (finish_record f)"
    and consumed: "P i f \<Longrightarrow> P i (f\<lparr>f_consumers := cs, f_remaining := n\<rparr>)"
    and flagged: "P i f \<Longrightarrow> P i (f\<lparr>f_reactivate := r\<rparr>)"
begin

definition all_records :: "runtime \<Rightarrow> bool" where
  "all_records s \<longleftrightarrow> (\<forall>i f. find_fiber s i = Some f \<longrightarrow> P i f)"

lemma all_frame: "rt_fibers s' = rt_fibers s \<Longrightarrow> all_records s \<Longrightarrow> all_records s'"
  by (simp add: all_records_def find_fiber_def)

lemma all_rewrites:
  "rewrites_fiber i g s s' \<Longrightarrow> (\<And>f. find_fiber s i = Some f \<Longrightarrow> P i f \<Longrightarrow> P i (g f)) \<Longrightarrow> all_records s \<Longrightarrow> all_records s'"
  by (auto simp: all_records_def rewrites_find)

lemma all_set_fiber:
  "(\<And>f. find_fiber s i = Some f \<Longrightarrow> P i f \<Longrightarrow> P i (g f)) \<Longrightarrow> all_records s \<Longrightarrow> all_records (set_fiber i g s)"
  by (rule all_rewrites [OF rewrites_self])

lemma all_erase: "all_records s \<Longrightarrow> all_records (erase_fiber i s)"
  by (auto simp: all_records_def)

lemma all_fold:
  "(\<And>x s. all_records s \<Longrightarrow> all_records (g x s)) \<Longrightarrow> all_records s \<Longrightarrow> all_records (fold g xs s)"
  by (induction xs arbitrary: s) auto

lemma waited: "P i f \<Longrightarrow> P i (f\<lparr>f_waiters := ws\<rparr>)"
proof -
  assume "P i f"
  then have "P i (f\<lparr>f_done_open := f_done_open f, f_waiters := ws\<rparr>)" by (rule gated)
  then show ?thesis by simp
qed

lemma consumers_only: "P i f \<Longrightarrow> P i (f\<lparr>f_consumers := cs\<rparr>)"
  using consumed [where f = f and cs = cs and n = "f_remaining f"] by simp

lemma all_resume: "all_records s \<Longrightarrow> all_records (resume_reconcile n s)"
proof -
  assume a: "all_records s"
  show ?thesis
  proof (cases "map_of (rt_suspended s) n")
    case (Some sr)
    show ?thesis
    proof (cases "skip_open_gates s (sr_gates sr)")
      case Nil
      have "all_records (s\<lparr>rt_suspended := x\<rparr>)" for x by (rule all_frame [OF _ a]) simp
      then have "all_records (fold erase_fiber is (s\<lparr>rt_suspended := x\<rparr>))" for "is" x
        by (intro all_fold all_erase)
      then have "all_records (advance_mounts ds (fold erase_fiber is (s\<lparr>rt_suspended := x\<rparr>)))" for ds "is" x
        by (rule all_frame [rotated]) simp_all
      with Some Nil show ?thesis by (simp add: resume_reconcile_def)
    next
      case (Cons g gs)
      have "all_records (s\<lparr>rt_suspended := x\<rparr>)" for x by (rule all_frame [OF _ a]) simp
      with Some Cons show ?thesis
        by (auto simp: resume_reconcile_def intro!: all_set_fiber waited)
    qed
  qed (simp add: a resume_reconcile_def)
qed

lemma all_open_done: "all_records s \<Longrightarrow> all_records (open_done i s)"
proof -
  assume a: "all_records s"
  have w: "all_records (run_waiter w t)" if "all_records t" for w t
    using that by (cases w) (simp_all add: all_erase all_resume)
  have "all_records (set_fiber i (\<lambda>f. f\<lparr>f_done_open := True, f_waiters := []\<rparr>) s)"
    by (rule all_set_fiber [OF _ a]) (rule gated)
  with a w show ?thesis by (auto simp: open_done_def intro: all_fold split: option.split)
qed

lemma all_begin_unload: "all_records s \<Longrightarrow> all_records (snd (begin_unload i b s))"
proof (cases "find_fiber s i")
  case (Some f)
  assume a: "all_records s"
  show ?thesis
  proof (cases "f_state f")
    case Active
    obtain n where "rewrites_fiber i (unload_record b n) s (snd (begin_unload i b s))"
      using begin_unload_Active(2) [OF Some Active] by blast
    then show ?thesis by (rule all_rewrites [OF _ _ a]) (use Some Active unloaded in auto)
  next
    case Loading
    show ?thesis
      by (rule all_rewrites [OF begin_unload_Loading(2) [OF Some Loading] _ a]) (use Some Loading diverted in auto)
  next
    case Unloading
    with a raised show ?thesis by (auto simp: begin_unload_rest [OF Some] intro!: all_set_fiber)
  next
    case Inactive
    with a raised show ?thesis by (auto simp: begin_unload_rest [OF Some] intro!: all_set_fiber)
  qed
qed (simp add: begin_unload_absent)

lemma all_maybe_finish: "all_records s \<Longrightarrow> all_records (snd (maybe_finish_unload i s))"
proof (cases "finish_ready s i")
  case True
  assume a: "all_records s"
  from True obtain f where f: "find_fiber s i = Some f" "f_state f = Unloading" "f_remaining f = 0"
    by (auto simp: finish_ready_def)
  show ?thesis
    by (rule all_rewrites [OF maybe_finish_done(2) [OF f] _ a]) (use f finished in auto)
qed (simp add: maybe_finish_idle)

lemma all_exec: "all_records s \<Longrightarrow> all_records (snd (exec c s))"
proof (cases c)
  case (FEvaluate i)
  assume a: "all_records s"
  show ?thesis
  proof (cases rule: evaluate_cases [of i s])
    case (load f)
    obtain g where g: "rewrites_fiber i g s (start_loading i s)" using start_loading_rewrites by blast
    have "loaded_from f (g f)"
      by (rule start_loading_loaded [OF load(1-3)]) (simp add: rewrites_find [OF g] load(1))
    with load a g loaded FEvaluate show ?thesis by (auto intro: all_rewrites)
  next
    case (error f)
    with a FEvaluate noted show ?thesis by (auto intro: all_set_fiber)
  next
    case (unload f)
    with a FEvaluate show ?thesis by (simp add: all_begin_unload)
  qed (use a FEvaluate in simp)
next
  case (FUnloadTail i)
  assume a: "all_records s"
  have "all_records (set_fiber i (\<lambda>f. f\<lparr>f_stop := True\<rparr>) s)" by (rule all_set_fiber [OF _ a]) (rule stopped)
  with FUnloadTail show ?thesis by (simp add: unload_tail_def all_maybe_finish)
next
  case (FRelease i ds)
  assume a: "all_records s"
  show ?thesis
  proof (cases ds)
    case (Cons d rest)
    obtain k p where d: "d = (k, p)" by force
    show ?thesis
    proof (cases "find_fiber s p")
      case (Some pf)
      have "rewrites_fiber p (\<lambda>g. if f_remaining pf > 0
            then g\<lparr>f_consumers := os_erase i (f_consumers g), f_remaining := f_remaining g - 1\<rparr>
            else g\<lparr>f_consumers := os_erase i (f_consumers g)\<rparr>) s (snd (release_step i ds s))"
        using Some by (simp add: Cons d Let_def rewrites_fiber_def om_modify_comp o_def)
      then have "all_records (snd (release_step i ds s))"
        by (rule all_rewrites [OF _ _ a]) (simp add: consumed consumers_only)
      with FRelease show ?thesis by simp
    qed (use a FRelease Cons d in simp)
  qed (use a FRelease in simp)
next
  case (FFinishTail i sc ks)
  assume a: "all_records s"
  have as: "all_records t \<Longrightarrow> all_records (araya_assert x b t)" for t x b
    by (rule all_frame [rotated]) simp_all
  from a as all_open_done have "all_records (snd (finish_tail i sc ks s))"
    by (auto simp: finish_tail_def Let_def split: option.split)
  with FFinishTail show ?thesis by simp
next
  case (FReactivate i)
  assume a: "all_records s"
  then have "all_records (snd (reactivate_step i s))"
    by (auto simp: reactivate_step_def intro: all_set_fiber flagged split: option.split)
  with FReactivate show ?thesis by simp
next
  case (FNotifyKeys sc ks)
  then show "all_records s \<Longrightarrow> ?thesis" by (cases ks) simp_all
next
  case (FNotifyIds k sc r ids)
  then show "all_records s \<Longrightarrow> ?thesis" by (cases ids) (auto intro: all_frame [rotated] split: option.splits)
next
  case FTransitionFinished
  then show "all_records s \<Longrightarrow> ?thesis" by (auto intro: all_frame [rotated])
qed (simp_all add: all_begin_unload all_maybe_finish)

lemma all_run: "all_records s \<Longrightarrow> all_records (run cs s)"
proof (induction cs s rule: run.induct)
  case (2 c cs s)
  obtain fs s' where e: "exec c s = (fs, s')" by force
  with all_exec [OF 2(2), of c] 2(1) [OF e [symmetric] refl] show ?case by (simp add: run_step)
qed simp

end

locale record_invariant = frame_invariant +
  assumes mounted: "P i (new_fiber d spec sc parent pact)"
    and published: "P i f \<Longrightarrow> f_state f = Loading \<Longrightarrow> P i (f\<lparr>f_state := Active, f_cell_state := Active\<rparr>)"
    and aborted: "P i f \<Longrightarrow> in_transit (f_state f) \<Longrightarrow> P i (deactivate_record (apply_outcome thrown c f))"
    and configured: "P i f \<Longrightarrow> P i (f\<lparr>f_config := cfg\<rparr>)"
    and moved: "P i f \<Longrightarrow> P i (f\<lparr>f_scope := sc, f_isolate := tags, f_name := nm\<rparr>)"
begin

lemma all_publish:
  assumes "all_records s" "find_fiber s i = Some f" "f_state f = Loading"
  shows "all_records (snd (publish i f s))"
proof (rule publish_parts [OF assms(2,3)])
  fix s' assume p: "snd (publish i f s) = record_consumers i (f_committed f) s'"
    "rewrites_fiber i (\<lambda>f. f\<lparr>f_state := Active, f_cell_state := Active\<rparr>) s s'"
  have "all_records s'" by (rule all_rewrites [OF p(2) _ assms(1)]) (use assms published in auto)
  then have "all_records (record_consumers i m s')" for m
    unfolding record_consumers_def by (rule all_fold [rotated]) (auto intro!: all_set_fiber consumers_only)
  with p(1) show ?thesis by simp
qed

lemma all_abort:
  assumes "all_records s" "find_fiber s i = Some f" "in_transit (f_state f)"
  shows "all_records (snd (abort_apply i f e c st s))"
proof -
  let ?s1 = "set_fiber i (apply_outcome e c) s"
  let ?s2 = "case f_activation f of None \<Rightarrow> ?s1 | Some a \<Rightarrow> set_act a (\<lambda>x. x\<lparr>act_state := Inactive\<rparr>) (teardown a ?s1)"
  have "rewrites_fiber i (deactivate_record \<circ> apply_outcome e c) s (set_fiber i deactivate_record ?s2)"
    by (simp add: rewrites_fiber_def om_modify_comp split: option.split)
  then have "all_records (set_fiber i deactivate_record ?s2)"
    by (rule all_rewrites [OF _ _ assms(1)]) (use assms aborted in auto)
  then have "all_records (open_done i (set_fiber i deactivate_record ?s2))" by (rule all_open_done)
  then show ?thesis by (simp only: abort_apply_def Let_def snd_conv)
qed

lemma all_completed: "all_records s \<Longrightarrow> all_records (on_apply_completed i e s)"
proof -
  assume a: "all_records s"
  have r: "all_records (retire_fiber i s)" by (rule all_frame [OF _ a]) simp
  have "all_records (snd (apply_completed i e s))"
    by (cases rule: apply_completed_cases [of i e s]) (use a r all_abort all_publish in auto)
  then show ?thesis by (simp add: on_apply_completed_def run_frames_def all_run)
qed

lemma all_mount:
  assumes "all_records s" "mount_locked spec parent s = Inr (i, s')"
  shows "all_records s'"
proof -
  obtain d s1 where d: "insert_fiber d spec parent s = (i, s1)"
    "s' = diagnose (cycles_possible (run [FEvaluate i] s1) d) (run [FEvaluate i] s1)"
    using mount_locked_cases [OF assms(2)] by metis
  obtain sc pact where "rt_fibers s1 = om_emplace i (new_fiber d spec sc parent pact) (rt_fibers s)"
    using insert_fiber_parts(7) [OF d(1)] by blast
  with assms(1) have "all_records s1"
    by (auto simp: all_records_def find_fiber_def map_of_om_emplace mounted split: if_splits)
  then have "all_records (run [FEvaluate i] s1)" by (rule all_run)
  then show ?thesis unfolding d(2) by (rule all_frame [rotated]) simp_all
qed

lemma all_begin_retire: "all_records s \<Longrightarrow> all_records (begin_retire i s)"
  unfolding begin_retire_def by (intro all_run all_set_fiber flagged)

lemma all_erase_when_done: "all_records s \<Longrightarrow> all_records (erase_when_done i s)"
  by (auto simp: erase_when_done_def intro: all_erase all_set_fiber waited split: option.split)

lemma all_reassign: "all_records s \<Longrightarrow> all_records (reassign i next sc old s)"
proof (cases "find_fiber s i")
  case (Some f)
  assume a: "all_records s"
  let ?mv = "fold (\<lambda>k. move_binding i (f_scope f) sc (realm_in old k) k) (f_provide f) (False, s)"
  obtain moved s1 where mv: "?mv = (moved, s1)" by force
  have "all_records (snd (fold (\<lambda>k. move_binding i x sc (realm_in old k) k) ks (m, t)))"
    if "all_records t" for x ks m t
    using that
  proof (induction ks arbitrary: m t)
    case (Cons k ks)
    obtain m' t' where e: "move_binding i x sc (realm_in old k) k (m, t) = (m', t')" by force
    with move_binding_core(1) [of i x sc "realm_in old k" k m t] have "rt_fibers t' = rt_fibers t"
      by (simp add: core_def)
    with Cons e all_frame show ?case by simp
  qed simp
  from this [OF a, of "f_scope f" "f_provide f" False] mv have s1: "all_records s1" by simp
  let ?s2 = "if moved \<or> f_scope f \<noteq> sc
                   then fold (\<lambda>k s. let s = run_notify k (f_scope f) (realm_in old k) s
                                     in run_notify k sc (realm_for (rt_store s) sc k) s) (f_provide f) s1
                   else s1"
  have s2: "all_records ?s2"
    using s1 by (auto simp: Let_def run_notify_def intro!: all_fold all_run)
  let ?s3 = "set_fiber i (\<lambda>f. f\<lparr>f_scope := sc, f_isolate := cs_isolate next, f_name := cs_name next\<rparr>) ?s2"
  have "all_records ?s3" by (rule all_set_fiber [OF _ s2]) (rule moved)
  then have "all_records (if state_of ?s3 i = Active then run [FEvaluate i] ?s3 else ?s3)"
    by (simp add: all_run)
  with Some mv show ?thesis by (simp add: reassign_def Let_def)
qed (simp add: reassign_def)

lemma all_drop: "all_records s \<Longrightarrow> all_records (snd (drop_entry path i (gates, s)))"
  using all_begin_retire [of s i] by (auto simp: drop_entry_def Let_def intro: all_frame [rotated])

lemma all_scope: "all_records s \<Longrightarrow> all_records (fst (entry_scope_for path spec s))"
  by (rule all_frame [rotated]) simp_all

lemma all_move: "all_records s \<Longrightarrow> all_records (snd (move_entry path i f spec (gates, s)))"
proof -
  assume a: "all_records s"
  obtain s1 sc where e: "entry_scope_for path spec s = (s1, sc)" by force
  with all_scope [OF a, of path spec] have s1: "all_records s1" by simp
  have "P i g \<Longrightarrow> P i (g\<lparr>f_scope := sc, f_isolate := tags\<rparr>)" for g tags
    using moved [where f = g and sc = sc and tags = tags and nm = "f_name g"] by simp
  then have "all_records (set_fiber i (\<lambda>f. f\<lparr>f_scope := sc, f_isolate := cs_isolate spec\<rparr>) s1)"
    by (intro all_set_fiber [OF _ s1])
  with s1 e all_drop [OF s1, of path i gates] all_reassign [OF s1] show ?thesis
    by (simp add: move_entry_def Let_def)
qed

lemma all_diff: "all_records (snd r) \<Longrightarrow> all_records (snd (diff_entry desired entry r))"
proof -
  assume a: "all_records (snd r)"
  obtain path i gates s where e: "entry = (path, i)" "r = (gates, s)" by (metis surj_pair)
  have s: "all_records s" using a e by simp
  have "all_records (set_fiber i (\<lambda>f. f\<lparr>f_config := c\<rparr>) s)" for c
    by (rule all_set_fiber [OF _ s]) (rule configured)
  with s show ?thesis
    by (auto simp: e diff_entry_def all_drop all_move intro: all_frame [rotated] split: option.split)
qed

lemma all_reconcile: "all_records s \<Longrightarrow> all_records (reconcile ds s)"
proof -
  assume a: "all_records s"
  obtain gates t where e: "fold (diff_entry (desired_by_path ds)) (rt_reconciled s) ([], s) = (gates, t)" by force
  have "all_records (snd (fold (diff_entry d) es r))" if "all_records (snd r)" for d es r
    using that by (induction es arbitrary: r) (auto simp: all_diff)
  from this [of "([], s)"] a e have "all_records t" by (metis snd_conv)
  then have "all_records (t\<lparr>rt_suspended := x\<rparr>)" for x by (rule all_frame [rotated]) simp_all
  then show ?thesis by (simp add: reconcile_def e Let_def all_resume)
qed

lemma all_task: "all_records s \<Longrightarrow> all_records (run_task t s)"
proof (cases t)
  case (TRetireChild i)
  assume a: "all_records s"
  with all_begin_retire [OF a, of i] TRetireChild show ?thesis
    by (auto simp: retire_child_task_def Let_def intro: all_erase all_erase_when_done split: option.split)
next
  case (TMountDesired path spec rest)
  assume a: "all_records s"
  show ?thesis
  proof (cases "mount_locked spec 0 s")
    case (Inr p)
    obtain i s1 where p: "p = (i, s1)" by force
    with all_mount [OF a] Inr have "all_records s1" by simp
    then have "all_records (advance_mounts rest (s1\<lparr>rt_reconciled := x\<rparr>))" for x
      by (rule all_frame [rotated]) simp_all
    with Inr p TMountDesired show ?thesis by simp
  qed (use a TMountDesired in simp)
qed

lemma all_step: "engine_step s s' \<Longrightarrow> all_records s \<Longrightarrow> all_records s'"
proof (induction rule: engine_step.induct)
  case (signal_step k sc p v s s')
  have "all_records (s\<lparr>rt_store := st\<rparr>)" for st by (rule all_frame [OF _ signal_step(2)]) simp
  then have "all_records (run cs (s\<lparr>rt_store := st\<rparr>))" for st cs by (rule all_run)
  with signal_step show ?case by (auto simp: signal_availability_def Let_def split: option.splits if_splits)
next
  case (provide_step a k val check s s' reg)
  from core_fields(3) [OF provide_raw_core(1) [OF provide_step(1)]] provide_step(2) show ?case by (rule all_frame)
next
  case (effect_step a outcome s s' reg)
  from core_fields(3) [OF effect_core(1) [OF effect_step(1)]] effect_step(2) show ?case by (rule all_frame)
next
  case (release_effect_step a reg s reg' s')
  from core_fields(3) [OF release_effect_core(1) [OF release_effect_step(1)]] release_effect_step(2)
  show ?case by (rule all_frame)
next
  case (mount_step spec parent s i s')
  with all_mount show ?case by blast
next
  case (mount_call_step a spec s spec' s')
  from core_fields(3) [OF mount_call_core(1) [OF mount_call_step(1)]] mount_call_step(2) show ?case by (rule all_frame)
next
  case (mount_run_step a spec s i s')
  then obtain act :: activation and s1 where m: "mount_locked spec (act_id act) s = Inr (i, s1)" "core s' = core s1"
    unfolding context_mount_run_def by (auto split: option.splits sum.splits)
  from core_fields(3) [OF m(2)] all_mount [OF mount_run_step(2) m(1)] show ?case by (rule all_frame)
next
  case (retire_step s i)
  then show ?case
    by (auto simp: retire_def intro: all_erase all_erase_when_done all_begin_retire split: option.split)
next
  case (cancel_step s i)
  then show ?case unfolding cancel_def by (rule all_set_fiber [rotated]) (rule stopped)
next
  case (poll_step s)
  have "all_records (s\<lparr>rt_posted := ts\<rparr>)" for ts by (rule all_frame [OF _ poll_step]) simp
  with poll_step all_task show ?case by (simp add: poll_task_def split: list.split)
next
  case (isolate_step s c k r)
  then show ?case by (rule all_frame [rotated]) simp_all
next
  case (metadata_step s c k md)
  then show ?case by (rule all_frame [rotated]) simp_all
qed (auto intro: all_completed all_reconcile)

lemma reachable_records: "reachable s \<Longrightarrow> find_fiber s i = Some f \<Longrightarrow> P i f"
proof -
  have "all_records s" if "reachable s"
    using that
  proof (induction rule: reachable.induct)
    case (reach_init n)
    then show ?case by (simp add: all_records_def init_runtime_def make_root_def find_fiber_def)
  qed (rule all_step)
  then show "reachable s \<Longrightarrow> find_fiber s i = Some f \<Longrightarrow> P i f" by (auto simp: all_records_def)
qed

end

section \<open>The interpretations\<close>

definition hygienic :: "fiber \<Rightarrow> bool" where
  "hygienic f \<longleftrightarrow> (f_state f = Inactive \<longrightarrow> f_committed f = [])"

interpretation hygiene: record_invariant "\<lambda>i. hygienic"
  by unfold_locales
     (auto simp: hygienic_def loaded_from_def unload_record_def divert_record_def finish_record_def
       deactivate_record_def apply_outcome_def raise_reactivate_def)

interpretation declarations: record_invariant "\<lambda>i. valid_declarations"
  by unfold_locales
     (auto simp: valid_declarations_def new_fiber_def loaded_from_def ties_def unload_record_def divert_record_def
       finish_record_def deactivate_record_def apply_outcome_def raise_reactivate_def split: option.splits)

text \<open>
  What a handle reads: the cell mirrors the record, except that the cell of a fiber that never began
  to load still says loading; and the outcome is published exactly while the fiber is inactive.
\<close>

definition cell_mirrors :: "fiber \<Rightarrow> bool" where
  "cell_mirrors f \<longleftrightarrow>
     (f_completed f \<longleftrightarrow> f_cell_state f = Inactive) \<and>
     (f_cell_state f = f_state f \<or> f_state f = Inactive \<and> f_cell_state f = Loading)"

interpretation mirror: record_invariant "\<lambda>i. cell_mirrors"
  by unfold_locales
     (auto simp: cell_mirrors_def new_fiber_def loaded_from_def unload_record_def divert_record_def
       finish_record_def deactivate_record_def apply_outcome_def raise_reactivate_def in_transit_def split: option.splits)

end
