(* ===== verification/Indices.thy ===== *)
theory Indices
  imports Records
begin

text \<open>
  The consistency of the engine's indices: every id in \<open>consumers_of_\<close> and \<open>providers_of_\<close> names a
  mounted fiber, and every mounted fiber is registered under every key it declares. It holds in every
  reachable state; with it the part of \<open>validate_invariants\<close> about the indices never fails.
\<close>

definition index_ok :: "runtime \<Rightarrow> bool" where
  "index_ok s \<longleftrightarrow> valid_index s f_inject_keys (rt_consumers_of s) \<and> valid_index s f_provide (rt_providers_of s)"

text \<open>The index as a relation, over lookups of fibers.\<close>

definition covers :: "(fiber_id \<Rightarrow> fiber option) \<Rightarrow> (fiber \<Rightarrow> service_id list) \<Rightarrow> (service_id, fiber_id list) omap \<Rightarrow> bool" where
  "covers fb keys ix \<longleftrightarrow>
     (\<forall>(k, ids) \<in> set ix. \<forall>c \<in> set ids. fb c \<noteq> None) \<and>
     (\<forall>i f k. fb i = Some f \<longrightarrow> k \<in> set (keys f) \<longrightarrow> (\<exists>ids. map_of ix k = Some ids \<and> i \<in> set ids))"

lemma coversD:
  "covers fb keys ix \<Longrightarrow> fb i = Some f \<Longrightarrow> k \<in> set (keys f) \<Longrightarrow> \<exists>ids. map_of ix k = Some ids \<and> i \<in> set ids"
  unfolding covers_def by blast

lemma covers_ids: "covers fb keys ix \<Longrightarrow> (k, ids) \<in> set ix \<Longrightarrow> c \<in> set ids \<Longrightarrow> fb c \<noteq> None"
  unfolding covers_def by blast

definition indexed :: "runtime \<Rightarrow> bool" where
  "indexed s \<longleftrightarrow> om_sorted (rt_fibers s) \<and> (\<forall>i f. find_fiber s i = Some f \<longrightarrow> i < rt_next_id s) \<and>
     covers (find_fiber s) f_inject_keys (rt_consumers_of s) \<and> covers (find_fiber s) f_provide (rt_providers_of s)"

lemma covers_valid:
  assumes "om_sorted (rt_fibers s)" "covers (find_fiber s) keys ix"
  shows "valid_index s keys ix"
  using assms by (fastforce simp: valid_index_def covers_def find_fiber_def map_of_mem split: option.split)

lemma indexed_ok: "indexed s \<Longrightarrow> index_ok s"
  by (simp add: indexed_def index_ok_def covers_valid)

section \<open>Records keep their declarations\<close>

definition same_keys :: "fiber \<Rightarrow> fiber \<Rightarrow> bool" where
  "same_keys f f' \<longleftrightarrow> f_inject_keys f' = f_inject_keys f \<and> f_provide f' = f_provide f"

definition reindexes :: "runtime \<Rightarrow> runtime \<Rightarrow> bool" where
  "reindexes s s' \<longleftrightarrow>
     (\<forall>i. find_fiber s' i = None \<longleftrightarrow> find_fiber s i = None) \<and>
     (\<forall>i f f'. find_fiber s i = Some f \<longrightarrow> find_fiber s' i = Some f' \<longrightarrow> same_keys f f') \<and>
     (om_sorted (rt_fibers s) \<longrightarrow> om_sorted (rt_fibers s')) \<and> rt_next_id s \<le> rt_next_id s' \<and>
     rt_consumers_of s' = rt_consumers_of s \<and> rt_providers_of s' = rt_providers_of s"

lemma reindexes_indexed:
  assumes "reindexes s s'" "indexed s"
  shows "indexed s'"
proof -
  have c: "covers (find_fiber s') keys ix"
    if "covers (find_fiber s) keys ix" "\<And>f f'. same_keys f f' \<Longrightarrow> keys f' = keys f" for keys ix
    unfolding covers_def
  proof (intro conjI allI impI)
    show "\<forall>(k, ids) \<in> set ix. \<forall>c \<in> set ids. find_fiber s' c \<noteq> None"
      using covers_ids [OF that(1)] assms(1) unfolding reindexes_def by blast
    fix i f' k assume f': "find_fiber s' i = Some f'" "k \<in> set (keys f')"
    have "find_fiber s i \<noteq> None" using f'(1) assms(1) unfolding reindexes_def by (metis option.distinct(1))
    then obtain f where f: "find_fiber s i = Some f" by blast
    with f' assms(1) that(2) have "keys f' = keys f" by (auto simp: reindexes_def)
    with f f' coversD [OF that(1)] show "\<exists>ids. map_of ix k = Some ids \<and> i \<in> set ids" by auto
  qed
  have b: "i < rt_next_id s'" if "find_fiber s' i = Some f'" for i f'
  proof -
    have "find_fiber s i \<noteq> None" using that assms(1) unfolding reindexes_def by (metis option.distinct(1))
    then obtain f where "find_fiber s i = Some f" by blast
    with assms show ?thesis by (auto simp: indexed_def reindexes_def)
  qed
  from assms c b show ?thesis
    by (auto simp: indexed_def reindexes_def same_keys_def)
qed

lemma reindexes_refl [simp]: "reindexes s s"
  by (simp add: reindexes_def same_keys_def)

lemma reindexes_trans [trans]: "reindexes s t \<Longrightarrow> reindexes t u \<Longrightarrow> reindexes s u"
proof -
  assume a: "reindexes s t" "reindexes t u"
  have "same_keys f f'" if f: "find_fiber s i = Some f" "find_fiber u i = Some f'" for i f f'
  proof -
    have "find_fiber t i \<noteq> None" using f(1) a(1) unfolding reindexes_def by (metis option.distinct(1))
    then obtain g where "find_fiber t i = Some g" by blast
    with f a have "same_keys f g" "same_keys g f'" unfolding reindexes_def by blast+
    then show ?thesis by (simp add: same_keys_def)
  qed
  with a show "reindexes s u" unfolding reindexes_def by simp
qed

lemma reindexes_rewrites:
  assumes "rewrites_fiber i g s s'" "\<And>f. find_fiber s i = Some f \<Longrightarrow> same_keys f (g f)" "rt_next_id s \<le> rt_next_id s'"
    "rt_consumers_of s' = rt_consumers_of s" "rt_providers_of s' = rt_providers_of s"
  shows "reindexes s s'"
proof -
  have "om_sorted (rt_fibers s')" if "om_sorted (rt_fibers s)"
    using that assms(1) by (simp add: rewrites_fiber_def)
  moreover have "same_keys f f'" if "find_fiber s j = Some f" "find_fiber s' j = Some f'" for j f f'
    using that assms(2) by (simp add: rewrites_find [OF assms(1)] same_keys_def split: if_splits)
  ultimately show ?thesis
    using assms(3-5) by (simp add: reindexes_def rewrites_find [OF assms(1)])
qed

lemma reindexes_frame:
  assumes "rt_fibers s' = rt_fibers s" "rt_next_id s \<le> rt_next_id s'" "rt_consumers_of s' = rt_consumers_of s"
    "rt_providers_of s' = rt_providers_of s"
  shows "reindexes s s'"
  using assms by (simp add: reindexes_def find_fiber_def same_keys_def)

lemma reindexes_core: "core s' = core s \<Longrightarrow> reindexes s s'"
  by (rule reindexes_frame) (simp_all add: core_def)

lemma reindexes_set_fiber:
  assumes "\<And>f. same_keys f (g f)"
  shows "reindexes s (set_fiber i g s)"
  by (rule reindexes_rewrites [OF rewrites_self]) (use assms in \<open>simp_all add: set_fiber_def\<close>)

lemma indexed_core: "core s' = core s \<Longrightarrow> indexed s \<Longrightarrow> indexed s'"
  using reindexes_indexed reindexes_core by blast

lemma indexed_set_fiber: "(\<And>f. same_keys f (g f)) \<Longrightarrow> indexed s \<Longrightarrow> indexed (set_fiber i g s)"
  using reindexes_indexed reindexes_set_fiber by blast

section \<open>Erasure and registration\<close>

lemma map_of_unindexed:
  "map_of ix k = Some ids \<Longrightarrow> i \<in> set ids \<Longrightarrow> i \<noteq> j \<Longrightarrow>
     map_of (filter (\<lambda>(k, ids). ids \<noteq> []) (map (\<lambda>(k, ids). (k, os_erase j ids)) ix)) k = Some (os_erase j ids)"
proof (induction ix)
  case (Cons e ix)
  obtain k' ids' where e: "e = (k', ids')" by force
  have "os_erase j ids \<noteq> []" using Cons.prems by (metis Diff_iff empty_iff list.set(1) set_os_erase singletonD)
  with Cons e show ?case by (auto split: if_splits)
qed simp

lemma covers_erase:
  assumes "covers fb keys ix"
  shows "covers (fb(j := None)) keys (filter (\<lambda>(k, ids). ids \<noteq> []) (map (\<lambda>(k, ids). (k, os_erase j ids)) ix))"
  unfolding covers_def
proof (intro conjI allI impI)
  show "\<forall>(k, ids) \<in> set (filter (\<lambda>(k, ids). ids \<noteq> []) (map (\<lambda>(k, ids). (k, os_erase j ids)) ix)).
      \<forall>c \<in> set ids. (fb(j := None)) c \<noteq> None"
    using assms by (fastforce simp: covers_def)
  fix i f k assume "(fb(j := None)) i = Some f" "k \<in> set (keys f)"
  then have "i \<noteq> j" "fb i = Some f" "k \<in> set (keys f)" by (auto split: if_splits)
  with coversD [OF assms] obtain ids where "map_of ix k = Some ids" "i \<in> set ids" by blast
  with map_of_unindexed [OF this \<open>i \<noteq> j\<close>] \<open>i \<noteq> j\<close>
  show "\<exists>ids. map_of (filter (\<lambda>(k, ids). ids \<noteq> []) (map (\<lambda>(k, ids). (k, os_erase j ids)) ix)) k = Some ids \<and> i \<in> set ids"
    by auto
qed

lemma indexed_erase: "indexed s \<Longrightarrow> indexed (erase_fiber j s)"
proof -
  assume i: "indexed s"
  have f: "find_fiber (erase_fiber j s) = (find_fiber s)(j := None)" by (rule ext) simp
  show ?thesis
  proof (cases "find_fiber s j = None")
    case True
    with i show ?thesis by (simp add: erase_fiber_def)
  next
    case False
    then obtain g where "find_fiber s j = Some g" by blast
    then have "rt_consumers_of (erase_fiber j s) = filter (\<lambda>(k, ids). ids \<noteq> []) (map (\<lambda>(k, ids). (k, os_erase j ids)) (rt_consumers_of s))"
      "rt_providers_of (erase_fiber j s) = filter (\<lambda>(k, ids). ids \<noteq> []) (map (\<lambda>(k, ids). (k, os_erase j ids)) (rt_providers_of s))"
      by (simp_all add: erase_fiber_def unindex_def retire_fiber_def)
    moreover have "om_sorted (rt_fibers (erase_fiber j s))" using i by (simp add: erase_fiber_fibers indexed_def)
    ultimately show ?thesis using i covers_erase by (auto simp: indexed_def f)
  qed
qed

lemma set_om_insert_subset: "set (om_insert k v m) \<subseteq> insert (k, v) (set m)"
  by (induction k v m rule: om_insert.induct) auto

lemma index_keys_covers:
  assumes old: "\<forall>(k, ids) \<in> set ix. \<forall>c \<in> set ids. fb c \<noteq> None" and "fb i \<noteq> None"
  shows "\<forall>(k, ids) \<in> set (index_keys i ks ix). \<forall>c \<in> set ids. fb c \<noteq> None"
    and "(\<exists>ids. map_of (index_keys i ks ix) k = Some ids \<and> j \<in> set ids) \<longleftrightarrow>
         (\<exists>ids. map_of ix k = Some ids \<and> j \<in> set ids) \<or> j = i \<and> k \<in> set ks"
proof -
  let ?step = "\<lambda>k m. om_insert k (os_insert i (case map_of m k of None \<Rightarrow> [] | Some ids \<Rightarrow> ids)) m"
  have "(\<forall>(k, ids) \<in> set (fold ?step ks m). \<forall>c \<in> set ids. fb c \<noteq> None) \<and>
      ((\<exists>ids. map_of (fold ?step ks m) k = Some ids \<and> j \<in> set ids) \<longleftrightarrow>
       (\<exists>ids. map_of m k = Some ids \<and> j \<in> set ids) \<or> j = i \<and> k \<in> set ks)"
    if "\<forall>(k, ids) \<in> set m. \<forall>c \<in> set ids. fb c \<noteq> None" for m
    using that
  proof (induction ks arbitrary: m)
    case (Cons k' ks)
    let ?ids = "case map_of m k' of None \<Rightarrow> [] | Some ids \<Rightarrow> ids"
    have ids: "fb c \<noteq> None" if "c \<in> set ?ids" for c
    proof (cases "map_of m k'")
      case (Some xs)
      with that Cons.prems map_of_SomeD [OF Some] show ?thesis by auto
    qed (use that in simp)
    have "\<forall>c \<in> set xs. fb c \<noteq> None" if x: "(y, xs) \<in> set (?step k' m)" for y xs
    proof -
      from x set_om_insert_subset [of k' "os_insert i ?ids" m] have "xs = os_insert i ?ids \<or> (y, xs) \<in> set m" by blast
      then consider "xs = os_insert i ?ids" | "(y, xs) \<in> set m" by blast
      then show ?thesis
      proof cases
        case 1
        with ids assms(2) show ?thesis by auto
      next
        case 2
        with Cons.prems show ?thesis by auto
      qed
    qed
    then have "\<forall>(k, ids) \<in> set (?step k' m). \<forall>c \<in> set ids. fb c \<noteq> None" by blast
    from Cons.IH [OF this] show ?case by (auto split: option.splits if_splits)
  qed simp
  from this [OF old] show "\<forall>(k, ids) \<in> set (index_keys i ks ix). \<forall>c \<in> set ids. fb c \<noteq> None"
    "(\<exists>ids. map_of (index_keys i ks ix) k = Some ids \<and> j \<in> set ids) \<longleftrightarrow>
         (\<exists>ids. map_of ix k = Some ids \<and> j \<in> set ids) \<or> j = i \<and> k \<in> set ks"
    by (simp_all add: index_keys_def)
qed

lemma covers_insert:
  assumes "covers fb keys ix" "fb i = None"
  shows "covers (fb(i \<mapsto> f)) keys (index_keys i (keys f) ix)"
proof -
  let ?fb = "fb(i \<mapsto> f)"
  have old: "\<forall>(k, ids) \<in> set ix. \<forall>c \<in> set ids. ?fb c \<noteq> None"
    using assms by (fastforce simp: covers_def)
  have new: "?fb i \<noteq> None" by simp
  note ik = index_keys_covers [OF old new, of "keys f"]
  show ?thesis
    unfolding covers_def
  proof (intro conjI allI impI)
    show "\<forall>(k, ids) \<in> set (index_keys i (keys f) ix). \<forall>c \<in> set ids. ?fb c \<noteq> None" by (rule ik(1))
    fix j g k assume "?fb j = Some g" "k \<in> set (keys g)"
    with assms(1) show "\<exists>ids. map_of (index_keys i (keys f) ix) k = Some ids \<and> j \<in> set ids"
      unfolding ik(2) by (auto simp: covers_def split: if_splits)
  qed
qed

lemma indexed_insert:
  assumes "insert_fiber d spec parent s = (i, s')" "indexed s"
  shows "indexed s'"
proof -
  note p = insert_fiber_parts [OF assms(1)]
  have new: "find_fiber s i = None"
    using assms(2) p(1) by (cases "find_fiber s i") (auto simp: indexed_def)
  obtain f where s': "rt_fibers s' = om_emplace i f (rt_fibers s)"
    "rt_consumers_of s' = index_keys i (f_inject_keys f) (rt_consumers_of s)"
    "rt_providers_of s' = index_keys i (f_provide f) (rt_providers_of s)"
    using assms(1) by (auto simp: insert_fiber_def make_fiber_def next_fiber_id_def Let_def)
  have fbs: "find_fiber s' = (find_fiber s)(i \<mapsto> f)"
    using new by (auto simp: find_fiber_def s' map_of_om_emplace fun_eq_iff)
  have "om_sorted (rt_fibers s')" using assms(2) by (simp add: s' indexed_def)
  moreover have "\<forall>j g. find_fiber s' j = Some g \<longrightarrow> j < rt_next_id s'"
    using assms(2) p(1,2) by (auto simp: fbs indexed_def less_Suc_eq split: if_splits)
  moreover have "covers (find_fiber s') f_inject_keys (rt_consumers_of s')" "covers (find_fiber s') f_provide (rt_providers_of s')"
    unfolding fbs s'(2,3) using assms(2) new by (auto intro!: covers_insert simp: indexed_def)
  ultimately show ?thesis by (simp add: indexed_def)
qed

lemma map_of_om_modify_same: "map_of (om_modify k g ix) j = (if j = k then map_option g (map_of ix j) else map_of ix j)"
  by simp

lemma covers_prune:
  assumes "covers fb keys ix"
  shows "covers fb keys (om_modify k (filter (\<lambda>j. fb j \<noteq> None)) ix)"
proof -
  have "set (om_modify k (filter P) ix) \<subseteq> set ix \<union> (\<lambda>(k, ids). (k, filter P ids)) ` set ix" for P :: "nat \<Rightarrow> bool"
    by (induction k "filter P" ix rule: om_modify.induct) (auto simp del: map_of_om_modify)
  then have "\<forall>(k, ids) \<in> set (om_modify k (filter (\<lambda>j. fb j \<noteq> None)) ix). \<forall>c \<in> set ids. fb c \<noteq> None"
    using covers_ids [OF assms] by fastforce
  moreover have "\<exists>ids. map_of (om_modify k (filter (\<lambda>j. fb j \<noteq> None)) ix) k' = Some ids \<and> i \<in> set ids"
    if "fb i = Some f" "k' \<in> set (keys f)" for i f k'
    using coversD [OF assms that] that(1) by auto
  ultimately show ?thesis unfolding covers_def by blast
qed

section \<open>Every frame keeps the indices\<close>

lemma loading_index_pieces [simp]:
  "rt_consumers_of (loading_failed i e s) = rt_consumers_of s" "rt_providers_of (loading_failed i e s) = rt_providers_of s"
  "rt_consumers_of (abandon_loading i s) = rt_consumers_of s" "rt_providers_of (abandon_loading i s) = rt_providers_of s"
  "rt_consumers_of (commit_loading i f r s) = rt_consumers_of s" "rt_providers_of (commit_loading i f r s) = rt_providers_of s"
  "rt_consumers_of (arm_loading i s) = rt_consumers_of s" "rt_providers_of (arm_loading i s) = rt_providers_of s"
  "rt_consumers_of (loading_checks f s) = rt_consumers_of s" "rt_providers_of (loading_checks f s) = rt_providers_of s"
  "rt_consumers_of (spawn_apply i inst s) = rt_consumers_of s" "rt_providers_of (spawn_apply i inst s) = rt_providers_of s"
  by (simp_all add: loading_failed_def abandon_loading_def commit_loading_def arm_loading_def loading_checks_def
      spawn_apply_def set_fiber_def retire_fiber_def transition_started_def log_event_def Let_def)

lemma loading_index_frames [simp]:
  "rt_consumers_of (start_loading i s) = rt_consumers_of s" "rt_providers_of (start_loading i s) = rt_providers_of s"
  by (simp_all add: start_loading_def Let_def split: option.split)

lemma begin_unload_index_frames [simp]:
  "rt_consumers_of (snd (begin_unload i b s)) = rt_consumers_of s"
  "rt_providers_of (snd (begin_unload i b s)) = rt_providers_of s"
  by (simp_all add: begin_unload_def set_fiber_def transition_started_def araya_assert_def Let_def
      split: option.split fiber_state.split)

lemma maybe_finish_index_frames [simp]:
  "rt_consumers_of (snd (maybe_finish_unload i s)) = rt_consumers_of s"
  "rt_providers_of (snd (maybe_finish_unload i s)) = rt_providers_of s"
  by (simp_all add: maybe_finish_unload_def set_fiber_def Let_def split: option.split)

lemma start_loading_reindexes: "reindexes s (start_loading i s)"
proof (cases "find_fiber s i")
  case (Some f)
  obtain g where g: "rewrites_fiber i g s (start_loading i s)" using start_loading_rewrites by blast
  show ?thesis
  proof (rule reindexes_rewrites [OF g])
    fix f' assume "find_fiber s i = Some f'"
    with start_loading_ties [of i s i] g show "same_keys f' (g f')"
      by (simp add: rewrites_find ties_def same_keys_def)
  next
    show "rt_next_id s \<le> rt_next_id (start_loading i s)"
      by (rule start_loading_cases [OF Some]; simp)
  qed simp_all
qed (simp add: start_loading_def)

lemma begin_unload_reindexes: "reindexes s (snd (begin_unload i b s))"
proof (cases "find_fiber s i")
  case (Some f)
  show ?thesis
  proof (cases "f_state f")
    case Active
    obtain n where "rewrites_fiber i (unload_record b n) s (snd (begin_unload i b s))"
      using begin_unload_Active(2) [OF Some Active] by blast
    then show ?thesis
      by (rule reindexes_rewrites) (simp_all add: unload_record_def same_keys_def raise_reactivate_def begin_unload_frames)
  next
    case Loading
    show ?thesis
      by (rule reindexes_rewrites [OF begin_unload_Loading(2) [OF Some Loading]])
         (simp_all add: divert_record_def same_keys_def raise_reactivate_def begin_unload_frames)
  next
    case Unloading
    with begin_unload_rest [OF Some] show ?thesis
      by (simp add: reindexes_set_fiber same_keys_def raise_reactivate_def)
  next
    case Inactive
    with begin_unload_rest [OF Some] show ?thesis
      by (simp add: reindexes_set_fiber same_keys_def raise_reactivate_def)
  qed
qed (simp add: begin_unload_absent)

lemma maybe_finish_reindexes: "reindexes s (snd (maybe_finish_unload i s))"
proof (cases "finish_ready s i")
  case True
  then obtain f where f: "find_fiber s i = Some f" "f_state f = Unloading" "f_remaining f = 0"
    by (auto simp: finish_ready_def)
  show ?thesis
    by (rule reindexes_rewrites [OF maybe_finish_done(2) [OF f]])
       (simp_all add: finish_record_def same_keys_def maybe_finish_frames)
qed (simp add: maybe_finish_idle)

lemma advance_mounts_reindexes: "reindexes s (advance_mounts ds s)"
proof -
  have "rt_consumers_of (advance_mounts ds s) = rt_consumers_of s \<and> rt_providers_of (advance_mounts ds s) = rt_providers_of s"
  proof (induction ds s rule: advance_mounts.induct)
    case (2 d ds s)
    have "rt_consumers_of (fst (entry_scope_for (dc_path d) (dc_spec d) s)) = rt_consumers_of s"
      "rt_providers_of (fst (entry_scope_for (dc_path d) (dc_spec d) s)) = rt_providers_of s"
      by (auto simp: entry_scope_for_def entry_context_def make_context_def Let_def split: option.splits prod.splits)
    with 2 show ?case by (auto simp: Let_def split: prod.splits)
  qed simp
  then show ?thesis by (intro reindexes_frame) simp_all
qed

lemma indexed_fold: "(\<And>x s. indexed s \<Longrightarrow> indexed (g x s)) \<Longrightarrow> indexed s \<Longrightarrow> indexed (fold g xs s)"
  by (induction xs arbitrary: s) auto

lemma indexed_frame:
  "rt_fibers s' = rt_fibers s \<Longrightarrow> rt_next_id s \<le> rt_next_id s' \<Longrightarrow> rt_consumers_of s' = rt_consumers_of s \<Longrightarrow>
   rt_providers_of s' = rt_providers_of s \<Longrightarrow> indexed s \<Longrightarrow> indexed s'"
  using reindexes_indexed reindexes_frame by blast

lemma indexed_resume: "indexed s \<Longrightarrow> indexed (resume_reconcile n s)"
proof -
  assume i: "indexed s"
  show ?thesis
  proof (cases "map_of (rt_suspended s) n")
    case (Some sr)
    have u: "indexed (s\<lparr>rt_suspended := x\<rparr>)" for x by (rule indexed_frame [OF _ _ _ _ i]) simp_all
    then have "indexed (fold erase_fiber is (s\<lparr>rt_suspended := x\<rparr>))" for "is" x
      by (intro indexed_fold indexed_erase)
    then have "indexed (advance_mounts ds (fold erase_fiber is (s\<lparr>rt_suspended := x\<rparr>)))" for ds "is" x
      using reindexes_indexed [OF advance_mounts_reindexes] by blast
    with Some u show ?thesis
      by (auto simp: resume_reconcile_def same_keys_def intro!: indexed_set_fiber split: list.split)
  qed (simp add: i resume_reconcile_def)
qed

lemma indexed_open_done: "indexed s \<Longrightarrow> indexed (open_done i s)"
proof -
  assume i: "indexed s"
  have "indexed (run_waiter w t)" if "indexed t" for w t
    using that by (cases w) (simp_all add: indexed_erase indexed_resume)
  moreover have "indexed (set_fiber i (\<lambda>f. f\<lparr>f_done_open := True, f_waiters := []\<rparr>) s)"
    by (rule indexed_set_fiber [OF _ i]) (simp add: same_keys_def)
  ultimately show ?thesis using i by (auto simp: open_done_def intro: indexed_fold split: option.split)
qed

lemma indexed_assert: "indexed s \<Longrightarrow> indexed (araya_assert t c s)"
  by (rule indexed_core) simp_all

lemma indexed_exec: "indexed s \<Longrightarrow> indexed (snd (exec c s))"
proof (cases c)
  case (FEvaluate i)
  assume a: "indexed s"
  show ?thesis
    by (cases rule: evaluate_cases [of i s])
       (use a FEvaluate reindexes_indexed [OF start_loading_reindexes] reindexes_indexed [OF begin_unload_reindexes]
         in \<open>auto simp: same_keys_def intro: indexed_set_fiber\<close>)
next
  case (FBeginUnload i b)
  then show "indexed s \<Longrightarrow> ?thesis" using reindexes_indexed [OF begin_unload_reindexes] by simp
next
  case (FUnloadTail i)
  assume a: "indexed s"
  have "indexed (set_fiber i (\<lambda>f. f\<lparr>f_stop := True\<rparr>) s)" by (rule indexed_set_fiber [OF _ a]) (simp add: same_keys_def)
  with FUnloadTail reindexes_indexed [OF maybe_finish_reindexes] show ?thesis by (simp add: unload_tail_def)
next
  case (FMaybeFinish i)
  then show "indexed s \<Longrightarrow> ?thesis" using reindexes_indexed [OF maybe_finish_reindexes] by simp
next
  case (FRelease i ds)
  assume a: "indexed s"
  have "indexed (snd (release_step i ds s))"
  proof (cases ds)
    case (Cons d rest)
    obtain k p where d: "d = (k, p)" by force
    have u: "indexed (set_fiber p (\<lambda>g. g\<lparr>f_consumers := os_erase i (f_consumers g)\<rparr>) (araya_assert t c s))" for t c
      by (rule indexed_set_fiber [OF _ indexed_assert [OF a]]) (simp add: same_keys_def)
    have "indexed (set_fiber p (\<lambda>g. g\<lparr>f_remaining := f_remaining g - 1\<rparr>) (araya_assert t' c'
       (set_fiber p (\<lambda>g. g\<lparr>f_consumers := os_erase i (f_consumers g)\<rparr>) (araya_assert t c s))))" for t c t' c'
      by (rule indexed_set_fiber [OF _ indexed_assert [OF u]]) (simp add: same_keys_def)
    with a u show ?thesis
      by (simp add: Cons d Let_def split: option.split)
  qed (simp add: a)
  with FRelease show ?thesis by simp
next
  case (FFinishTail i sc ks)
  assume a: "indexed s"
  then have "indexed (snd (finish_tail i sc ks s))"
    by (auto simp: finish_tail_def Let_def intro!: indexed_assert indexed_open_done split: option.split)
  with FFinishTail show ?thesis by simp
next
  case (FReactivate i)
  then show "indexed s \<Longrightarrow> ?thesis"
    by (auto simp: reactivate_step_def same_keys_def intro!: indexed_set_fiber split: option.split)
next
  case (FNotifyKeys sc ks)
  then show "indexed s \<Longrightarrow> ?thesis" by (cases ks) simp_all
next
  case (FNotifyIds k sc r ids)
  assume a: "indexed s"
  have find: "find_fiber (s\<lparr>rt_consumers_of := ix\<rparr>) = find_fiber s" for ix
    by (simp add: find_fiber_def fun_eq_iff)
  have "indexed (s\<lparr>rt_consumers_of := om_modify k (filter (\<lambda>j. find_fiber s j \<noteq> None)) (rt_consumers_of s)\<rparr>)"
    using a covers_prune by (simp add: indexed_def find del: not_None_eq)
  with a FNotifyIds show ?thesis by (cases ids) (auto split: option.splits)
next
  case FTransitionFinished
  have "core (transition_finished s) = core s \<or> reindexes s (transition_finished s)"
    by (rule disjI2, rule reindexes_frame)
       (simp_all add: transition_finished_def araya_assert_def Let_def)
  with FTransitionFinished show "indexed s \<Longrightarrow> ?thesis" using indexed_core reindexes_indexed by auto
qed

lemma indexed_run: "indexed s \<Longrightarrow> indexed (run cs s)"
proof (induction cs s rule: run.induct)
  case (2 c cs s)
  obtain fs s' where e: "exec c s = (fs, s')" by force
  with indexed_exec [OF 2(2), of c] 2(1) [OF e [symmetric] refl] show ?case by (simp add: run_step)
qed simp

section \<open>Every handler keeps the indices\<close>

lemma indexed_completed: "indexed s \<Longrightarrow> indexed (on_apply_completed i e s)"
proof -
  assume a: "indexed s"
  have r: "indexed (retire_fiber i s)" by (rule indexed_frame [OF _ _ _ _ a]) (simp_all add: retire_fiber_def)
  have "indexed (snd (apply_completed i e s))"
  proof (cases rule: apply_completed_cases [of i e s])
    case (abort f c st)
    let ?s1 = "set_fiber i (apply_outcome e c) (retire_fiber i s)"
    let ?s2 = "case f_activation f of None \<Rightarrow> ?s1 | Some a \<Rightarrow> set_act a (\<lambda>x. x\<lparr>act_state := Inactive\<rparr>) (teardown a ?s1)"
    have "indexed ?s1" by (rule indexed_set_fiber [OF _ r]) (simp add: same_keys_def apply_outcome_def split: option.split)
    then have "indexed ?s2" by (rule indexed_core [rotated]) (simp split: option.split)
    then have "indexed (set_fiber i deactivate_record ?s2)"
      by (rule indexed_set_fiber [rotated]) (simp add: same_keys_def deactivate_record_def)
    then have "indexed (open_done i (set_fiber i deactivate_record ?s2))" by (rule indexed_open_done)
    then show ?thesis by (simp only: abort abort_apply_def Let_def snd_conv)
  next
    case (publish f)
    have f: "find_fiber (retire_fiber i s) i = Some f" using publish by simp
    have pi: "indexed (publish_bindings sc i ks t)" if "indexed t" for sc ks t
      by (rule indexed_core [OF publish_bindings_core that])
    have rec: "indexed (record_consumers i m t)" if "indexed t" for m t
      unfolding record_consumers_def by (rule indexed_fold [OF _ that]) (auto simp: same_keys_def intro!: indexed_set_fiber)
    have act: "indexed (set_act_opt ao g t)" if "indexed t" for ao g t by (rule indexed_core [OF _ that]) simp
    have sf: "indexed (set_fiber i (\<lambda>f. f\<lparr>f_state := Active, f_cell_state := Active\<rparr>) t)" if "indexed t" for t
      by (rule indexed_set_fiber [OF _ that]) (simp add: same_keys_def)
    have "indexed (snd (publish i f (retire_fiber i s)))"
      unfolding publish_def Let_def snd_conv by (intro rec act sf pi indexed_assert r)
    with publish show ?thesis by simp
  qed (simp add: a)
  then show ?thesis by (simp add: on_apply_completed_def run_frames_def indexed_run)
qed

lemma indexed_mount:
  assumes "indexed s" "mount_locked spec parent s = Inr (i, s')"
  shows "indexed s'"
proof -
  obtain d s1 where d: "insert_fiber d spec parent s = (i, s1)"
    "s' = diagnose (cycles_possible (run [FEvaluate i] s1) d) (run [FEvaluate i] s1)"
    using mount_locked_cases [OF assms(2)] by metis
  have "indexed (run [FEvaluate i] s1)" by (rule indexed_run [OF indexed_insert [OF d(1) assms(1)]])
  then show ?thesis unfolding d(2) by (rule indexed_frame [rotated 4]) simp_all
qed

lemma indexed_begin_retire: "indexed s \<Longrightarrow> indexed (begin_retire i s)"
  unfolding begin_retire_def by (rule indexed_run, rule indexed_set_fiber) (simp_all add: same_keys_def)

lemma indexed_erase_when_done: "indexed s \<Longrightarrow> indexed (erase_when_done i s)"
  by (auto simp: erase_when_done_def same_keys_def intro: indexed_erase indexed_set_fiber split: option.split)

lemma indexed_reassign: "indexed s \<Longrightarrow> indexed (reassign i next sc old s)"
proof (cases "find_fiber s i")
  case (Some f)
  assume a: "indexed s"
  let ?mv = "fold (\<lambda>k. move_binding i (f_scope f) sc (realm_in old k) k) (f_provide f) (False, s)"
  obtain moved s1 where mv: "?mv = (moved, s1)" by force
  have "indexed (snd (fold (\<lambda>k. move_binding i x sc (realm_in old k) k) ks (m, t)))" if "indexed t" for x ks m t
    using that
  proof (induction ks arbitrary: m t)
    case (Cons k ks)
    obtain m' t' where e: "move_binding i x sc (realm_in old k) k (m, t) = (m', t')" by force
    with move_binding_core(1) [of i x sc "realm_in old k" k m t] have "core t' = core t" by simp
    with Cons e indexed_core show ?case by simp
  qed simp
  from this [OF a, of "f_scope f" "f_provide f" False] mv have s1: "indexed s1" by simp
  let ?s2 = "if moved \<or> f_scope f \<noteq> sc
                   then fold (\<lambda>k s. let s = run_notify k (f_scope f) (realm_in old k) s
                                     in run_notify k sc (realm_for (rt_store s) sc k) s) (f_provide f) s1
                   else s1"
  have s2: "indexed ?s2" using s1 by (auto simp: Let_def run_notify_def intro!: indexed_fold indexed_run)
  let ?s3 = "set_fiber i (\<lambda>f. f\<lparr>f_scope := sc, f_isolate := cs_isolate next, f_name := cs_name next\<rparr>) ?s2"
  have "indexed ?s3" by (rule indexed_set_fiber [OF _ s2]) (simp add: same_keys_def)
  then have "indexed (if state_of ?s3 i = Active then run [FEvaluate i] ?s3 else ?s3)"
    by (simp add: indexed_run)
  with Some mv show ?thesis by (simp add: reassign_def Let_def)
qed (simp add: reassign_def)

lemma indexed_drop: "indexed s \<Longrightarrow> indexed (snd (drop_entry path i (gates, s)))"
proof -
  assume "indexed s"
  then have "indexed (begin_retire i s)" by (rule indexed_begin_retire)
  then show ?thesis unfolding drop_entry_def Let_def by (auto intro: indexed_frame [rotated 4])
qed

lemma indexed_scope: "indexed s \<Longrightarrow> indexed (fst (entry_scope_for path spec s))"
proof (rule indexed_frame)
  show "rt_consumers_of (fst (entry_scope_for path spec s)) = rt_consumers_of s"
    "rt_providers_of (fst (entry_scope_for path spec s)) = rt_providers_of s"
    by (auto simp: entry_scope_for_def entry_context_def make_context_def Let_def split: option.splits prod.splits)
qed (simp_all add: entry_scope_frames)

lemma indexed_diff: "indexed (snd r) \<Longrightarrow> indexed (snd (diff_entry desired entry r))"
proof -
  assume a: "indexed (snd r)"
  obtain path i gates s where e: "entry = (path, i)" "r = (gates, s)" by (metis surj_pair)
  have s: "indexed s" using a e by simp
  have move: "indexed (snd (move_entry path i f spec (gates, t)))" if "indexed t" for f spec t
  proof -
    obtain s1 sc where sc: "entry_scope_for path spec t = (s1, sc)" by force
    with indexed_scope [OF that, of path spec] have s1: "indexed s1" by simp
    have "indexed (set_fiber i (\<lambda>f. f\<lparr>f_scope := sc, f_isolate := cs_isolate spec\<rparr>) s1)"
      by (rule indexed_set_fiber [OF _ s1]) (simp add: same_keys_def)
    with s1 sc indexed_drop [OF s1, of path i gates] indexed_reassign [OF s1] show ?thesis
      by (simp add: move_entry_def Let_def)
  qed
  have "indexed (set_fiber i (\<lambda>f. f\<lparr>f_config := c\<rparr>) s)" for c
    by (rule indexed_set_fiber [OF _ s]) (simp add: same_keys_def)
  moreover have "indexed (s\<lparr>rt_reconciled := x, rt_entry_ctxs := y\<rparr>)" for x y
    by (rule indexed_frame [OF _ _ _ _ s]) simp_all
  ultimately show ?thesis
    using s move by (auto simp: e diff_entry_def indexed_drop split: option.split)
qed

lemma indexed_reconcile: "indexed s \<Longrightarrow> indexed (reconcile ds s)"
proof -
  assume a: "indexed s"
  obtain gates t where e: "fold (diff_entry (desired_by_path ds)) (rt_reconciled s) ([], s) = (gates, t)" by force
  have "indexed (snd (fold (diff_entry d) es r))" if "indexed (snd r)" for d es r
    using that by (induction es arbitrary: r) (auto simp: indexed_diff)
  from this [of "([], s)"] a e have t: "indexed t" by (metis snd_conv)
  have "indexed (t\<lparr>rt_suspended := x\<rparr>)" for x by (rule indexed_frame [OF _ _ _ _ t]) simp_all
  then show ?thesis by (simp add: reconcile_def e Let_def indexed_resume)
qed

lemma indexed_task: "indexed s \<Longrightarrow> indexed (run_task t s)"
proof (cases t)
  case (TRetireChild i)
  assume a: "indexed s"
  with indexed_begin_retire [OF a, of i] TRetireChild show ?thesis
    by (auto simp: retire_child_task_def Let_def intro: indexed_erase indexed_erase_when_done split: option.split)
next
  case (TMountDesired path spec rest)
  assume a: "indexed s"
  show ?thesis
  proof (cases "mount_locked spec 0 s")
    case (Inr p)
    obtain i s1 where p: "p = (i, s1)" by force
    with indexed_mount [OF a] Inr have s1: "indexed s1" by simp
    have "indexed (s1\<lparr>rt_reconciled := x\<rparr>)" for x by (rule indexed_frame [OF _ _ _ _ s1]) simp_all
    then have "indexed (advance_mounts rest (s1\<lparr>rt_reconciled := x\<rparr>))" for x
      using reindexes_indexed [OF advance_mounts_reindexes] by blast
    with Inr p TMountDesired show ?thesis by simp
  qed (use a TMountDesired in simp)
qed

lemma indexed_step: "engine_step s s' \<Longrightarrow> indexed s \<Longrightarrow> indexed s'"
proof (induction rule: engine_step.induct)
  case (signal_step k sc p v s s')
  have "indexed (s\<lparr>rt_store := st\<rparr>)" for st by (rule indexed_core [OF _ signal_step(2)]) simp
  then have "indexed (run cs (s\<lparr>rt_store := st\<rparr>))" for st cs by (rule indexed_run)
  with signal_step show ?case by (auto simp: signal_availability_def Let_def split: option.splits if_splits)
next
  case (provide_step a k val check s s' reg)
  with provide_raw_core(1) show ?case using indexed_core by blast
next
  case (effect_step a outcome s s' reg)
  with effect_core(1) show ?case using indexed_core by blast
next
  case (release_effect_step a reg s reg' s')
  with release_effect_core(1) show ?case using indexed_core by blast
next
  case (mount_step spec parent s i s')
  with indexed_mount show ?case by blast
next
  case (mount_call_step a spec s spec' s')
  with mount_call_core(1) show ?case using indexed_core by blast
next
  case (mount_run_step a spec s i s')
  then obtain act :: activation and s1 where m: "mount_locked spec (act_id act) s = Inr (i, s1)" "core s' = core s1"
    unfolding context_mount_run_def by (auto split: option.splits sum.splits)
  from indexed_core [OF m(2) indexed_mount [OF mount_run_step(2) m(1)]] show ?case .
next
  case (retire_step s i)
  then show ?case
    by (auto simp: retire_def intro: indexed_erase indexed_erase_when_done indexed_begin_retire split: option.split)
next
  case (cancel_step s i)
  then show ?case unfolding cancel_def by (rule indexed_set_fiber [rotated]) (simp add: same_keys_def)
next
  case (poll_step s)
  have "indexed (s\<lparr>rt_posted := ts\<rparr>)" for ts by (rule indexed_frame [OF _ _ _ _ poll_step]) simp_all
  with poll_step indexed_task show ?case by (simp add: poll_task_def split: list.split)
next
  case (isolate_step s c k r)
  then show ?case by (rule indexed_core [rotated]) simp
next
  case (metadata_step s c k md)
  then show ?case by (rule indexed_core [rotated]) simp
qed (auto intro: indexed_completed indexed_reconcile)

lemma reachable_indexed: "reachable s \<Longrightarrow> indexed s"
proof (induction rule: reachable.induct)
  case (reach_init n)
  then show ?case by (simp add: indexed_def covers_def init_runtime_def make_root_def find_fiber_def)
qed (rule indexed_step)

end
