(* ===== verification/Activations.thy ===== *)
theory Activations
  imports Indices
begin

text \<open>
  Who becomes active, and on what grounds: resolution against its specification, the publication of a
  completed apply, and the fact that a cascade unloads and reloads but never makes a fiber active.
\<close>

section \<open>Resolution\<close>

text \<open>What a fiber sees for a key: the provider of a usable binding that is not its own.\<close>

definition sees :: "runtime \<Rightarrow> fiber_id \<Rightarrow> fiber \<Rightarrow> service_id \<Rightarrow> binding \<Rightarrow> bool" where
  "sees s i f k b \<longleftrightarrow>
     lookup (rt_store s) (f_scope f) k = Some b \<and>
     bvalue b \<noteq> None \<and> bstate b = PActive \<and> bavailable b \<and> bprovider b \<noteq> i"

definition usable :: "runtime \<Rightarrow> fiber_id \<Rightarrow> fiber \<Rightarrow> service_id \<Rightarrow> bool" where
  "usable s i f k \<longleftrightarrow> (\<exists>b. sees s i f k b)"

definition blocked :: "store \<Rightarrow> ctx_id \<Rightarrow> fiber_id \<Rightarrow> service_id \<times> bool \<Rightarrow> bool" where
  "blocked st sc i d \<longleftrightarrow> snd d \<and> \<not> resolvable i (lookup st sc (fst d))"

lemma resolve_loop_step:
  "resolve_loop st sc i ((k, req) # deps) r =
     (if resolvable i (lookup st sc k)
      then resolve_loop st sc i deps
             (r\<lparr>rs_providers := om_insert k (bprovider (the (lookup st sc k))) (rs_providers r),
                rs_bindings := om_insert k (the (lookup st sc k)) (rs_bindings r)\<rparr>)
      else if req then r\<lparr>rs_satisfiable := False, rs_error := Some (ResolutionError k)\<rparr>
      else resolve_loop st sc i deps r)"
  by (cases "lookup st sc k") (auto simp: resolvable_def)

lemma resolve_loop_blocked:
  "case find (blocked st sc i) deps of
     Some d \<Rightarrow> rs_satisfiable (resolve_loop st sc i deps r) = False \<and>
               rs_error (resolve_loop st sc i deps r) = Some (ResolutionError (fst d))
   | None \<Rightarrow> rs_satisfiable (resolve_loop st sc i deps r) = rs_satisfiable r \<and>
             rs_error (resolve_loop st sc i deps r) = rs_error r \<and>
             map_of (rs_bindings (resolve_loop st sc i deps r)) k =
               (if k \<in> fst ` set deps \<and> resolvable i (lookup st sc k) then lookup st sc k else map_of (rs_bindings r) k) \<and>
             map_of (rs_providers (resolve_loop st sc i deps r)) k =
               (if k \<in> fst ` set deps \<and> resolvable i (lookup st sc k) then map_option bprovider (lookup st sc k)
                else map_of (rs_providers r) k)"
proof (induction deps arbitrary: r)
  case (Cons d deps)
  obtain k' req where d: "d = (k', req)" by force
  show ?case
  proof (cases "blocked st sc i d")
    case True
    then show ?thesis by (simp add: d blocked_def resolve_loop_step del: resolve_loop.simps)
  next
    case False
    show ?thesis
    proof (cases "resolvable i (lookup st sc k')")
      case True
      let ?r = "r\<lparr>rs_providers := om_insert k' (bprovider (the (lookup st sc k'))) (rs_providers r),
                rs_bindings := om_insert k' (the (lookup st sc k')) (rs_bindings r)\<rparr>"
      from True obtain b where b: "lookup st sc k' = Some b" by (auto simp: resolvable_def split: option.splits)
      from Cons.IH [of ?r] False True b show ?thesis
        by (auto simp: d resolve_loop_step simp del: resolve_loop.simps split: option.splits)
    next
      case unres: False
      with False have "\<not> req" by (simp add: d blocked_def)
      with Cons.IH [of r] False unres show ?thesis
        by (auto simp: d resolve_loop_step simp del: resolve_loop.simps split: option.splits)
    qed
  qed
qed simp

lemma resolvable_usable: "resolvable i (lookup (rt_store s) (f_scope f) k) \<longleftrightarrow> usable s i f k"
  by (auto simp: resolvable_def usable_def sees_def split: option.splits)

lemma blocked_usable: "blocked (rt_store s) (f_scope f) i = (\<lambda>d. snd d \<and> \<not> usable s i f (fst d))"
  by (simp add: blocked_def fun_eq_iff resolvable_usable)

section \<open>A cascade activates nothing\<close>

interpretation dormancy: frame_invariant "\<lambda>i f. f_state f = Active \<longrightarrow> state_of s0 i = Active" for s0
  by unfold_locales
     (auto simp: loaded_from_def unload_record_def divert_record_def finish_record_def raise_reactivate_def)

lemma dormancy_init: "dormancy.all_records s s"
  unfolding dormancy.all_records_def by (simp add: state_of_def)

lemma run_activates_nothing: "state_of (run cs s) i = Active \<Longrightarrow> state_of s i = Active"
  using dormancy.all_run [OF dormancy_init, of s cs]
  by (auto simp: dormancy.all_records_def state_of_def [of "run cs s"] split: option.splits)

lemma publish_states:
  assumes "find_fiber s i = Some f" "f_state f = Loading"
  shows "state_of (snd (publish i f s)) j = (if j = i then Active else state_of s j)"
proof (rule publish_parts [OF assms])
  fix s' assume p: "snd (publish i f s) = record_consumers i (f_committed f) s'"
    "rewrites_fiber i (\<lambda>f. f\<lparr>f_state := Active, f_cell_state := Active\<rparr>) s s'"
  have "state_of (record_consumers i m t) j = state_of t j" for m t
  proof -
    have "state_of (fold (\<lambda>(k, p). set_fiber p (\<lambda>g. g\<lparr>f_consumers := os_insert i (f_consumers g)\<rparr>)) m t) j = state_of t j"
    proof (induction m arbitrary: t)
      case (Cons e m)
      obtain k p where e: "e = (k, p)" by force
      have "state_of (set_fiber p (\<lambda>g. g\<lparr>f_consumers := os_insert i (f_consumers g)\<rparr>) t) j = state_of t j"
        by (simp add: state_of_def split: option.split)
      with Cons e show ?case by simp
    qed simp
    then show ?thesis by (simp add: record_consumers_def)
  qed
  with p assms show ?thesis by (simp add: state_of_def rewrites_find)
qed

lemma abort_activates_nothing:
  assumes "state_of (snd (abort_apply i f e c st s)) j = Active"
  shows "state_of s j = Active"
proof -
  let ?s1 = "set_fiber i (apply_outcome e c) s"
  let ?s2 = "case f_activation f of None \<Rightarrow> ?s1 | Some a \<Rightarrow> set_act a (\<lambda>x. x\<lparr>act_state := Inactive\<rparr>) (teardown a ?s1)"
  have "dormancy.all_records s ?s1"
    by (rule dormancy.all_set_fiber [OF _ dormancy_init]) (simp add: apply_outcome_def split: option.splits if_splits)
  then have "dormancy.all_records s ?s2" by (rule dormancy.all_frame [rotated]) (simp split: option.split)
  then have "dormancy.all_records s (set_fiber i deactivate_record ?s2)"
    by (rule dormancy.all_set_fiber [rotated]) (simp add: deactivate_record_def)
  then have "dormancy.all_records s (open_done i (set_fiber i deactivate_record ?s2))" by (rule dormancy.all_open_done)
  then have "dormancy.all_records s (snd (abort_apply i f e c st s))" by (simp only: abort_apply_def Let_def snd_conv)
  with assms show ?thesis
    by (auto simp: dormancy.all_records_def state_of_def [of "snd (abort_apply i f e c st s)"] split: option.splits)
qed

lemma completed_activates:
  assumes "state_of (on_apply_completed i e s) j = Active" "state_of s j \<noteq> Active"
  shows "j = i \<and> e = None \<and> (\<exists>f. find_fiber s i = Some f \<and> f_state f = Loading \<and> \<not> f_stop f \<and> providers_still_active s f)"
proof -
  have r: "state_of (retire_fiber i s) j = state_of s j" by (simp add: state_of_def)
  from run_activates_nothing assms(1) have a: "state_of (snd (apply_completed i e s)) j = Active"
    by (simp add: on_apply_completed_def run_frames_def)
  show ?thesis
  proof (cases rule: apply_completed_cases [of i e s])
    case skip
    with a assms(2) show ?thesis by simp
  next
    case (abort f c st)
    with a abort_activates_nothing r assms(2) show ?thesis by metis
  next
    case (publish f)
    with a assms(2) publish_states [of "retire_fiber i s" i f j] r show ?thesis by (auto split: if_splits)
  qed
qed

section \<open>Provision and lookup\<close>

lemma store_add_effect [simp]: "rt_store (add_effect a c s) = rt_store s"
  by (simp add: add_effect_def set_act_def)

lemma fold_assert_store [simp]: "rt_store (fold (\<lambda>t. araya_assert t False) ts s) = rt_store s"
  by (induction ts arbitrary: s) simp_all

lemma fold_assert_acts [simp]: "rt_acts (fold (\<lambda>t. araya_assert t False) ts s) = rt_acts s"
  by (induction ts arbitrary: s) simp_all

end
