(* ===== verification/Conflicts.thy ===== *)
theory Conflicts
  imports Diagnose
begin

text \<open>
  What the diagnostics report: the single-source scan reports exactly the slots with two or more
  providers, each signature goes out once, and a second scan of the same graph is silent.
\<close>

section \<open>The groups of the sorted slots\<close>

lemma slot_groups_mem:
  "sorted (map fst xs) \<Longrightarrow>
     (sl, ids) \<in> set (slot_groups xs) \<longleftrightarrow> ids = map snd (filter (\<lambda>e. fst e = sl) xs) \<and> ids \<noteq> []"
proof (induction xs rule: slot_groups.induct)
  case (2 sl' i rest)
  let ?rest = "dropWhile (\<lambda>e. fst e = sl') rest"
  have sorted: "sorted (map fst ?rest)" and ge: "\<forall>e \<in> set rest. sl' \<le> fst e"
    using 2(2) sorted_dropWhile [of "map fst rest" "\<lambda>x. x = sl'"]
    by (simp_all add: dropWhile_map o_def)
  have gt: "\<forall>e \<in> set ?rest. fst e \<noteq> sl'"
  proof
    fix e assume e: "e \<in> set ?rest"
    then obtain h t where d: "?rest = h # t" by (cases ?rest) auto
    with hd_dropWhile [of "\<lambda>e. fst e = sl'" rest] have "fst h \<noteq> sl'" by simp
    moreover have "sl' \<le> fst h" using d ge by (metis list.set_intros(1) set_dropWhileD)
    moreover have "fst h \<le> fst e" using sorted e unfolding d by auto
    ultimately show "fst e \<noteq> sl'" by auto
  qed
  have split: "filter (\<lambda>e. fst e = x) rest =
      (if x = sl' then takeWhile (\<lambda>e. fst e = sl') rest else filter (\<lambda>e. fst e = x) ?rest)" for x
  proof -
    have tw: "fst e = sl'" if "e \<in> set (takeWhile (\<lambda>e. fst e = sl') rest)" for e
      using set_takeWhileD [OF that] by simp
    have "filter (\<lambda>e. fst e = x) rest =
        filter (\<lambda>e. fst e = x) (takeWhile (\<lambda>e. fst e = sl') rest) @ filter (\<lambda>e. fst e = x) ?rest"
      by (metis filter_append takeWhile_dropWhile_id)
    moreover have "filter (\<lambda>e. fst e = x) (takeWhile (\<lambda>e. fst e = sl') rest) =
        (if x = sl' then takeWhile (\<lambda>e. fst e = sl') rest else [])"
    proof (cases "x = sl'")
      case True
      have "filter (\<lambda>e. fst e = x) (takeWhile (\<lambda>e. fst e = sl') rest) = takeWhile (\<lambda>e. fst e = sl') rest"
        by (rule filter_True) (use tw True in blast)
      then show ?thesis unfolding if_P [OF True] .
    next
      case False
      have "filter (\<lambda>e. fst e = x) (takeWhile (\<lambda>e. fst e = sl') rest) = []"
        by (rule filter_False) (use tw False in blast)
      then show ?thesis unfolding if_not_P [OF False] .
    qed
    moreover have "filter (\<lambda>e. fst e = sl') ?rest = []" by (rule filter_False) (use gt in blast)
    ultimately show ?thesis
      by (cases "x = sl'") (simp_all only: if_True if_False simp_thms append_Nil append_Nil2)
  qed
  from 2(1) sorted have ih: "(sl, ids) \<in> set (slot_groups ?rest) \<longleftrightarrow>
      ids = map snd (filter (\<lambda>e. fst e = sl) ?rest) \<and> ids \<noteq> []" by simp
  have none: "filter (\<lambda>e. fst e = sl') ?rest = []" by (rule filter_False) (use gt in blast)
  show ?case
    using ih none by (auto simp: split)
qed simp

definition slot_providers :: "runtime \<Rightarrow> slot \<Rightarrow> fiber_id list" where
  "slot_providers s sl = map snd (filter (\<lambda>e. fst e = sl) (provider_slots s))"

lemma groups_providers:
  "(sl, ids) \<in> set (slot_groups (sort_key fst (provider_slots s))) \<longleftrightarrow> ids = slot_providers s sl \<and> ids \<noteq> []"
  by (simp add: slot_groups_mem slot_providers_def sort_key_stable)

section \<open>Emission\<close>

lemma reported_emit:
  "set (rt_reported (emit k n v ids s)) = insert (signature k n v (sort ids)) (set (rt_reported s))"
  by (auto simp: emit_def Let_def)

definition conflict_signature :: "slot \<Rightarrow> fiber_id list \<Rightarrow> string" where
  "conflict_signature sl ids = signature Conflict (conflict_name sl) (sid_version (snd (snd sl))) (sort ids)"

text \<open>The scans as lists of emissions, which depend on the undiagnosed part of the state only.\<close>

type_synonym emission = "diagnostic_kind \<times> string \<times> nat \<times> fiber_id list"

definition emit_all :: "emission list \<Rightarrow> runtime \<Rightarrow> runtime" where
  "emit_all es s = fold (\<lambda>(k, n, v, ids). emit k n v ids) es s"

definition conflict_emissions :: "runtime \<Rightarrow> emission list" where
  "conflict_emissions s =
     map (\<lambda>(sl, ids). (Conflict, conflict_name sl, sid_version (snd (snd sl)), ids))
       (filter (\<lambda>(sl, ids). length ids \<ge> 2) (slot_groups (sort_key fst (provider_slots s))))"

definition cycle_emissions :: "runtime \<Rightarrow> emission list" where
  "cycle_emissions s =
     (let order = map fst (rt_fibers s)
      in map (\<lambda>scc. (Cycle, '''', 0, map ((!) order) scc)) (tj_sccs (strong_components (length order) (adjacency s))))"

definition self_emissions :: "runtime \<Rightarrow> emission list" where
  "self_emissions s =
     concat (map (\<lambda>(i, f). case self_provided f of None \<Rightarrow> [] | Some k \<Rightarrow> [(Cycle, sid_name k, sid_version k, [i])])
       (rt_fibers s))"

definition emissions :: "bool \<Rightarrow> runtime \<Rightarrow> emission list" where
  "emissions cycles s =
     conflict_emissions s @ (if cycles then cycle_emissions s else []) @ self_emissions s"

lemma emit_all_Nil [simp]: "emit_all [] s = s"
  by (simp add: emit_all_def)

lemma emit_all_append: "emit_all (xs @ ys) s = emit_all ys (emit_all xs s)"
  by (simp add: emit_all_def)

lemma scan_conflicts_emissions: "scan_conflicts s = emit_all (conflict_emissions s) s"
proof -
  have "fold (\<lambda>(sl, ids) s. if length ids \<ge> 2
         then emit Conflict (conflict_name sl) (sid_version (snd (snd sl))) ids s else s) gs t =
      emit_all (map (\<lambda>(sl, ids). (Conflict, conflict_name sl, sid_version (snd (snd sl)), ids))
        (filter (\<lambda>(sl, ids). length ids \<ge> 2) gs)) t" for gs t
    by (induction gs arbitrary: t) (auto simp: emit_all_def)
  then show ?thesis by (simp add: scan_conflicts_def conflict_emissions_def)
qed

lemma scan_cycles_emissions: "scan_cycles s = emit_all (cycle_emissions s) s"
proof -
  have "fold (\<lambda>scc s. emit Cycle '''' 0 (h scc) s) xs t = emit_all (map (\<lambda>scc. (Cycle, '''', 0, h scc)) xs) t"
    for h xs t
    by (induction xs arbitrary: t) (auto simp: emit_all_def)
  then show ?thesis by (simp add: scan_cycles_def cycle_emissions_def Let_def)
qed

lemma scan_self_emissions: "scan_self_provision s = emit_all (self_emissions s) s"
proof -
  have "fold (\<lambda>(i, f) s. case self_provided f of None \<Rightarrow> s
                       | Some k \<Rightarrow> emit Cycle (sid_name k) (sid_version k) [i] s) fs t =
      emit_all (concat (map (\<lambda>(i, f). case self_provided f of None \<Rightarrow> []
                       | Some k \<Rightarrow> [(Cycle, sid_name k, sid_version k, [i])]) fs)) t" for fs t
  proof (induction fs arbitrary: t)
    case (Cons e fs)
    obtain i f where e: "e = (i, f)" by force
    from Cons show ?case by (simp add: e emit_all_append emit_all_def split: option.split)
  qed (simp add: emit_all_def)
  then show ?thesis by (simp add: scan_self_provision_def self_emissions_def)
qed

lemma undiagnosed_emit_all [simp]: "undiagnosed (emit_all es s) = undiagnosed s"
  unfolding emit_all_def by (rule undiagnosed_fold) (auto simp: undiagnosed_emit)

lemma adjacency_cong: "undiagnosed s = undiagnosed s' \<Longrightarrow> adjacency s = adjacency s'"
  by (rule ext) (simp add: adjacency_def dependency_targets_def find_fiber_def undiagnosed_fields [of s s'] cong: option.case_cong)

lemma emissions_cong:
  assumes "undiagnosed s = undiagnosed s'"
  shows "conflict_emissions s = conflict_emissions s'" "cycle_emissions s = cycle_emissions s'"
    "self_emissions s = self_emissions s'"
proof -
  note f = undiagnosed_fields [OF assms]
  show "conflict_emissions s = conflict_emissions s'" "self_emissions s = self_emissions s'"
    by (simp_all add: conflict_emissions_def self_emissions_def provider_slots_def f)
  show "cycle_emissions s = cycle_emissions s'"
    by (simp add: cycle_emissions_def f adjacency_cong [OF assms])
qed

lemma diagnose_emissions: "diagnose c s = emit_all (emissions c s) s"
  by (simp add: diagnose_def Let_def scan_conflicts_emissions scan_cycles_emissions scan_self_emissions
      emissions_def emit_all_append emissions_cong [OF undiagnosed_emit_all])

definition emission_signature :: "emission \<Rightarrow> string" where
  "emission_signature e = (case e of (k, n, v, ids) \<Rightarrow> signature k n v (sort ids))"

lemma reported_emit_all: "set (rt_reported (emit_all es s)) = set (rt_reported s) \<union> emission_signature ` set es"
  by (induction es arbitrary: s) (auto simp: emit_all_def reported_emit emission_signature_def)

lemma reported_conflicts:
  "set (rt_reported (scan_conflicts s)) =
     set (rt_reported s) \<union>
     {conflict_signature sl (slot_providers s sl) | sl. length (slot_providers s sl) \<ge> 2}"
proof -
  have "emission_signature ` set (conflict_emissions s) =
      {conflict_signature sl ids | sl ids. (sl, ids) \<in> set (slot_groups (sort_key fst (provider_slots s))) \<and> length ids \<ge> 2}"
    unfolding conflict_emissions_def
    by (force simp: emission_signature_def conflict_signature_def image_def)
  also have "\<dots> = {conflict_signature sl (slot_providers s sl) | sl. length (slot_providers s sl) \<ge> 2}"
    unfolding groups_providers by fastforce
  finally show ?thesis by (simp add: scan_conflicts_emissions reported_emit_all)
qed

lemma emit_all_known: "emission_signature ` set es \<subseteq> set (rt_reported s) \<Longrightarrow> emit_all es s = s"
  by (induction es) (auto simp: emit_all_def emit_def emission_signature_def Let_def)

text \<open>What has gone to the sink, by signature.\<close>

definition diagnostic_signature :: "diagnostic \<Rightarrow> string" where
  "diagnostic_signature d = signature (dg_kind d) (dg_key_name d) (dg_key_version d) (dg_fibers d)"

definition reported_once :: "runtime \<Rightarrow> bool" where
  "reported_once s \<longleftrightarrow>
     distinct (map diagnostic_signature (rt_diagnostics s)) \<and>
     diagnostic_signature ` set (rt_diagnostics s) \<subseteq> set (rt_reported s)"

lemma reported_once_emit: "reported_once s \<Longrightarrow> reported_once (emit k n v ids s)"
  by (auto simp: emit_def Let_def reported_once_def diagnostic_signature_def)

lemma reported_once_emit_all: "reported_once s \<Longrightarrow> reported_once (emit_all es s)"
  by (induction es arbitrary: s) (auto simp: emit_all_def reported_once_emit)

end
