(* ===== verification/Scenarios.thy ===== *)
theory Scenarios
  imports Activations Conflicts
begin

text \<open>
  Concrete components and short runs of the engine over them, evaluated by the kernel: the inputs of
  the witnesses, and the runs that show the flaws recorded as findings.
\<close>

definition key_a :: service_id where "key_a = ServiceId ''a'' 1"
definition key_b :: service_id where "key_b = ServiceId ''b'' 1"

definition component :: "string \<Rightarrow> (service_id \<times> bool) list \<Rightarrow> service_id list \<Rightarrow> component_spec" where
  "component name needs gives = \<lparr>cs_descriptor = Some \<lparr>d_name = name,
       d_inject = map (\<lambda>(k, r). \<lparr>dep_key = k, dep_required = r, dep_metadata = []\<rparr>) needs,
       d_provide = gives, d_create = (\<lambda>c. Some 0), d_reconfigure = (\<lambda>i c. True)\<rparr>,
     cs_config = [], cs_parent = None, cs_name = name, cs_isolate = []\<rparr>"

text \<open>Runs of the engine's operations that ignore a thrown error.\<close>

definition mounted :: "component_spec \<Rightarrow> runtime \<Rightarrow> runtime" where
  "mounted spec s = (case mount_locked spec 0 s of Inr (i, s') \<Rightarrow> s' | Inl e \<Rightarrow> s)"

definition provided :: "nat \<Rightarrow> service_id \<Rightarrow> runtime \<Rightarrow> runtime" where
  "provided a k s = (case provide_raw a k (Some 7) NoCheck s of Inr (s', r) \<Rightarrow> s' | Inl e \<Rightarrow> s)"

text \<open>
  A provider of one key and its consumer. Ids: the root activation is 1, the provider fiber 2
  (activation 1 of the store), the consumer fiber 4 (activation 2).
\<close>

definition provider_loading :: runtime where
  "provider_loading = mounted (component ''p'' [] [key_a]) (init_runtime 1)"

definition provider_active :: runtime where
  "provider_active = on_apply_completed 2 None (provided 1 key_a provider_loading)"

definition pair_active :: runtime where
  "pair_active = on_apply_completed 4 None (mounted (component ''c'' [(key_a, True)] []) provider_active)"

lemma pair_active_states:
  "state_of pair_active 2 = Active" "state_of pair_active 4 = Active" "rt_violated pair_active = []"
  by code_simp+

text \<open>Such runs stay within the reachable states.\<close>

lemma reachable_mounted: "reachable s \<Longrightarrow> reachable (mounted spec s)"
  by (auto simp: mounted_def split: sum.split intro: reach_step mount_step)

lemma reachable_provided: "reachable s \<Longrightarrow> reachable (provided a k s)"
  by (auto simp: provided_def split: sum.split intro: reach_step provide_step)

lemma reachable_completed: "reachable s \<Longrightarrow> apply_pending s i \<Longrightarrow> reachable (on_apply_completed i e s)"
  by (blast intro: reach_step apply_step)

lemma reachable_retired: "reachable s \<Longrightarrow> reachable (retire i s)"
  by (blast intro: reach_step retire_step)

lemmas reachable_runs = reach_init reachable_mounted reachable_provided reachable_completed reachable_retired

lemma reachable_provider_loading: "reachable provider_loading"
  unfolding provider_loading_def by (intro reachable_runs)

lemma reachable_provider_active: "reachable provider_active"
proof -
  have "apply_pending (provided 1 key_a provider_loading) 2" by code_simp
  then show ?thesis unfolding provider_active_def by (intro reachable_runs reachable_provider_loading)
qed

lemma reachable_pair_active: "reachable pair_active"
proof -
  have "apply_pending (mounted (component ''c'' [(key_a, True)] []) provider_active) 4" by code_simp
  then show ?thesis unfolding pair_active_def by (intro reachable_runs reachable_provider_active)
qed

text \<open>The provider is retired: the consumer is torn down first, both end inactive.\<close>

definition pair_retired :: runtime where
  "pair_retired = retire 2 pair_active"

lemma pair_retired_trace:
  "rt_trace pair_retired =
     rt_trace pair_active @ [TornDown 4, CleanupRan (Unprovide 0 key_a 2), TornDown 2]"
  "state_of pair_retired 4 = Inactive" "find_fiber pair_retired 2 = None" "rt_violated pair_retired = []"
  by code_simp+

section \<open>Two keys from one provider\<close>

text \<open>Fiber 4 takes both keys of fiber 2, fiber 6 one of them.\<close>

definition two_keys_provider :: runtime where
  "two_keys_provider = provided 1 key_b (provided 1 key_a (mounted (component ''p'' [] [key_a, key_b]) (init_runtime 1)))"

definition two_keys_first :: runtime where
  "two_keys_first = mounted (component ''c'' [(key_a, True), (key_b, True)] []) (on_apply_completed 2 None two_keys_provider)"

definition two_keys_second :: runtime where
  "two_keys_second = mounted (component ''d'' [(key_a, True)] []) (on_apply_completed 4 None two_keys_first)"

definition two_keys :: runtime where
  "two_keys = on_apply_completed 6 None two_keys_second"

lemma two_keys_active:
  "state_of two_keys 2 = Active" "state_of two_keys 4 = Active" "state_of two_keys 6 = Active"
  "committed_to two_keys 6 2" "rt_violated two_keys = []"
  by code_simp+

lemma reachable_two_keys: "reachable two_keys"
proof -
  have "apply_pending two_keys_provider 2" by code_simp
  moreover have "apply_pending two_keys_first 4" by code_simp
  moreover have "apply_pending two_keys_second 6" by code_simp
  moreover have "reachable two_keys_provider" unfolding two_keys_provider_def by (intro reachable_runs)
  ultimately have "reachable two_keys_first" unfolding two_keys_first_def by (intro reachable_runs)
  then have "reachable two_keys_second" unfolding two_keys_second_def
    by (intro reachable_runs \<open>apply_pending two_keys_first 4\<close>)
  then show ?thesis unfolding two_keys_def by (intro reachable_runs \<open>apply_pending two_keys_second 6\<close>)
qed

section \<open>A restart under its own unload\<close>

text \<open>Fiber 4 takes key \<open>a\<close> optionally and provides key \<open>b\<close>, which fiber 6 needs.\<close>

definition optional_first :: runtime where
  "optional_first = provided 2 key_b (mounted (component ''c'' [(key_a, False)] [key_b]) provider_active)"

definition optional_second :: runtime where
  "optional_second = mounted (component ''d'' [(key_b, True)] []) (on_apply_completed 4 None optional_first)"

definition optional_chain :: runtime where
  "optional_chain = on_apply_completed 6 None optional_second"

lemma optional_chain_active:
  "state_of optional_chain 2 = Active" "state_of optional_chain 4 = Active" "state_of optional_chain 6 = Active"
  "rt_violated optional_chain = []"
  by code_simp+

lemma reachable_optional_chain: "reachable optional_chain"
proof -
  have p: "apply_pending optional_first 4" "apply_pending optional_second 6" by code_simp+
  have "reachable optional_first" unfolding optional_first_def by (intro reachable_runs reachable_provider_active)
  then have "reachable optional_second" unfolding optional_second_def by (intro reachable_runs p)
  then show ?thesis unfolding optional_chain_def by (intro reachable_runs p)
qed

section \<open>Availability, handles, and a provider that leaves while its consumer loads\<close>

definition unavailable_provider :: runtime where
  "unavailable_provider = on_apply_completed 2 None
     (case provide_raw 1 key_a (Some 7) (CheckReturns False) provider_loading of Inr (s, r) \<Rightarrow> s | Inl e \<Rightarrow> provider_loading)"

definition parked :: runtime where
  "parked = mounted (component ''c'' [(key_a, True)] []) (init_runtime 1)"

definition provider_left :: runtime where
  "provider_left = retire 2 (mounted (component ''c'' [(key_a, True)] []) provider_active)"

lemma reachable_unavailable_provider: "reachable unavailable_provider"
proof -
  let ?s = "case provide_raw 1 key_a (Some 7) (CheckReturns False) provider_loading of Inr (s, r) \<Rightarrow> s | Inl e \<Rightarrow> provider_loading"
  have "reachable ?s"
    using reachable_provider_loading by (auto split: sum.split intro: reach_step provide_step)
  moreover have "apply_pending ?s 2" by code_simp
  ultimately show ?thesis unfolding unavailable_provider_def by (rule reachable_completed)
qed

lemma reachable_parked: "reachable parked"
  unfolding parked_def by (intro reachable_runs)

lemma reachable_provider_left: "reachable provider_left"
  unfolding provider_left_def by (intro reachable_runs reachable_provider_active)

end
