(* ===== verification/Strings.thy ===== *)
theory Strings
  imports Prelude "HOL-Library.Word"
begin

text \<open>
  The shared string helpers of \<open>include/araya/util/string.hpp\<close>: trimming, the two XML escapes and
  the 16-digit hexadecimal formatter of opaque ids. A \<open>std::string\<close> is a list of characters
  (bytes); a \<open>std::uint64_t\<close> is a \<open>64 word\<close>.
\<close>

unbundle bit_operations_syntax

named_theorems text_simps \<open>facts about trimmed, escaped and formatted text\<close>

section \<open>Trimming\<close>

definition is_space :: "char \<Rightarrow> bool" where
  "is_space c \<longleftrightarrow> c \<in> {CHR '' '', CHR 0x09, CHR 0x0D, CHR 0x0A}"

text \<open>
  \<open>find_first_not_of\<close> and \<open>find_last_not_of\<close> with \<open>npos\<close> as \<open>None\<close>; the trimmed text is the substring
  from the one to the other.
\<close>

fun find_first_not :: "(char \<Rightarrow> bool) \<Rightarrow> string \<Rightarrow> nat option" where
  "find_first_not P [] = None"
| "find_first_not P (c # cs) = (if P c then map_option Suc (find_first_not P cs) else Some 0)"

definition find_last_not :: "(char \<Rightarrow> bool) \<Rightarrow> string \<Rightarrow> nat option" where
  "find_last_not P cs = map_option (\<lambda>i. length cs - 1 - i) (find_first_not P (rev cs))"

definition trim :: "string \<Rightarrow> string" where
  "trim cs =
     (case find_first_not is_space cs of
        None \<Rightarrow> []
      | Some i \<Rightarrow>
          (case find_last_not is_space cs of
             None \<Rightarrow> []
           | Some j \<Rightarrow> take (j - i + 1) (drop i cs)))"

lemma find_first_not_None: "find_first_not P cs = None \<longleftrightarrow> (\<forall>c \<in> set cs. P c)"
  by (induction cs) auto

lemma find_first_not_drop:
  "find_first_not P cs = Some i \<Longrightarrow> i = length (takeWhile P cs) \<and> i < length cs"
  by (induction cs arbitrary: i) (auto split: if_splits)

text \<open>The specification: the leading and the trailing run of white space are gone, nothing else.\<close>

definition strip :: "(char \<Rightarrow> bool) \<Rightarrow> string \<Rightarrow> string" where
  "strip P cs = rev (dropWhile P (rev (dropWhile P cs)))"

lemma dropWhile_rev_append:
  "\<exists>c \<in> set ys. \<not> P c \<Longrightarrow> dropWhile P (rev (xs @ ys)) = dropWhile P (rev ys) @ rev xs"
  by (metis dropWhile_append1 rev_append set_rev)

lemma trim_strip: "trim cs = strip is_space cs"
proof (cases "\<forall>c \<in> set cs. is_space c")
  case True
  then have "find_first_not is_space cs = None" by (simp add: find_first_not_None)
  with True show ?thesis by (auto simp: trim_def strip_def dest: set_dropWhileD)
next
  case False
  let ?a = "takeWhile is_space cs" and ?b = "dropWhile is_space cs"
  let ?n = "length (takeWhile is_space (rev cs))"
  from False obtain i j where i: "find_first_not is_space cs = Some i" and j: "find_first_not is_space (rev cs) = Some j"
    using find_first_not_None [of is_space cs] find_first_not_None [of is_space "rev cs"] by auto
  from find_first_not_drop [OF i] have fi: "i = length ?a" "i < length cs" by simp_all
  from find_first_not_drop [OF j] have fj: "j = ?n" "j < length cs" by simp_all
  have "\<exists>c \<in> set ?b. \<not> is_space c"
    using False by (metis dropWhile_eq_Nil_conv hd_dropWhile list.set_sel(1))
  then have tw: "takeWhile is_space (rev ?b) = takeWhile is_space (rev cs)"
    using takeWhile_append1 [of _ "rev ?b" is_space "rev ?a"]
    by (metis rev_append set_rev takeWhile_dropWhile_id)
  have b: "?b = drop i cs" by (metis dropWhile_eq_drop fi(1))
  have len: "j < length cs - i"
  proof -
    have "length (takeWhile is_space (rev ?b)) < length ?b"
      using \<open>\<exists>c \<in> set ?b. \<not> is_space c\<close>
      by (metis length_rev set_rev length_takeWhile_le nat_less_le takeWhile_eq_all_conv takeWhile_eq_take take_all order_refl)
    then show ?thesis unfolding tw fj(1) using b by simp
  qed
  have "strip is_space cs = rev (drop j (rev ?b))"
    unfolding strip_def dropWhile_eq_drop [of is_space "rev ?b"] tw fj(1) ..
  also have "\<dots> = take (length cs - i - j) (drop i cs)"
    using rev_drop [of j "rev (drop i cs)"] by (simp add: b diff_diff_left)
  also have "\<dots> = trim cs"
  proof -
    from len fi(2) have "length cs - 1 - j - i + 1 = length cs - i - j" by simp
    then show ?thesis by (simp add: trim_def i j find_last_not_def)
  qed
  finally show ?thesis by simp
qed

lemma strip_ends:
  "strip P cs = [] \<or> \<not> P (hd (strip P cs)) \<and> \<not> P (last (strip P cs))"
proof -
  let ?d = "dropWhile P cs"
  have "strip P cs = [] \<or> \<not> P (last (strip P cs))"
    by (metis hd_dropWhile hd_rev rev_is_Nil_conv rev_rev_ident strip_def)
  moreover have "strip P cs = [] \<or> hd (strip P cs) = hd ?d"
  proof -
    obtain e where "rev ?d = takeWhile P (rev ?d) @ e" "e = dropWhile P (rev ?d)" by simp
    then have "?d = rev e @ rev (takeWhile P (rev ?d))" by (metis rev_append rev_rev_ident)
    then show ?thesis using \<open>e = dropWhile P (rev ?d)\<close> by (metis hd_append strip_def)
  qed
  moreover have "?d = [] \<or> \<not> P (hd ?d)" by (metis hd_dropWhile)
  moreover have "?d = [] \<Longrightarrow> strip P cs = []" by (simp only: strip_def rev.simps dropWhile.simps)
  ultimately show ?thesis by auto
qed

lemma strip_id: "cs = [] \<or> \<not> P (hd cs) \<and> \<not> P (last cs) \<Longrightarrow> strip P cs = cs"
proof -
  have d: "xs = [] \<or> \<not> P (hd xs) \<Longrightarrow> dropWhile P xs = xs" for xs :: string by (cases xs) auto
  assume "cs = [] \<or> \<not> P (hd cs) \<and> \<not> P (last cs)"
  then show ?thesis by (auto simp: strip_def d hd_rev)
qed

lemma trim_idempotent [simp, text_simps]: "trim (trim cs) = trim cs"
  unfolding trim_strip by (rule strip_id) (rule strip_ends)

section \<open>XML escapes\<close>

fun escape_char :: "char \<Rightarrow> string" where
  "escape_char c =
     (if c = CHR ''&'' then ''&amp;'' else if c = CHR ''<'' then ''&lt;''
      else if c = CHR ''>'' then ''&gt;'' else [c])"

fun escape_attr_char :: "char \<Rightarrow> string" where
  "escape_attr_char c =
     (if c = CHR ''&'' then ''&amp;'' else if c = CHR 0x22 then ''&quot;''
      else if c = CHR ''<'' then ''&lt;'' else [c])"

definition xml_escape :: "string \<Rightarrow> string" where
  "xml_escape cs = foldl (\<lambda>out c. out @ escape_char c) [] cs"

definition xml_attr_escape :: "string \<Rightarrow> string" where
  "xml_attr_escape cs = foldl (\<lambda>out c. out @ escape_attr_char c) [] cs"

text \<open>What a reader does with character references: the inverse of both escapes.\<close>

fun unescape :: "string \<Rightarrow> string" where
  "unescape [] = []"
| "unescape (c # cs) =
     (if take 5 (c # cs) = ''&amp;'' then CHR ''&'' # unescape (drop 5 (c # cs))
      else if take 4 (c # cs) = ''&lt;'' then CHR ''<'' # unescape (drop 4 (c # cs))
      else if take 4 (c # cs) = ''&gt;'' then CHR ''>'' # unescape (drop 4 (c # cs))
      else if take 6 (c # cs) = ''&quot;'' then CHR 0x22 # unescape (drop 6 (c # cs))
      else c # unescape cs)"

declare escape_char.simps [simp del] escape_attr_char.simps [simp del]

lemma foldl_escape: "foldl (\<lambda>out c. out @ esc c) out cs = out @ concat (map esc cs)"
  by (induction cs arbitrary: out) auto

lemma xml_escape_concat: "xml_escape cs = concat (map escape_char cs)"
  by (simp add: xml_escape_def foldl_escape)

lemma xml_attr_escape_concat: "xml_attr_escape cs = concat (map escape_attr_char cs)"
  by (simp add: xml_attr_escape_def foldl_escape)

lemma unescape_char: "unescape (escape_char c @ cs) = c # unescape cs"
  by (auto simp: escape_char.simps)

lemma unescape_attr_char: "unescape (escape_attr_char c @ cs) = c # unescape cs"
  by (auto simp: escape_attr_char.simps)

lemma unescape_xml_escape [text_simps]: "unescape (xml_escape cs) = cs"
  by (induction cs) (simp_all add: xml_escape_concat unescape_char)

lemma unescape_xml_attr_escape [text_simps]: "unescape (xml_attr_escape cs) = cs"
  by (induction cs) (simp_all add: xml_attr_escape_concat unescape_attr_char)

lemma xml_escape_no_markup: "CHR ''<'' \<notin> set (xml_escape cs) \<and> CHR ''>'' \<notin> set (xml_escape cs)"
  by (induction cs) (auto simp: xml_escape_concat escape_char.simps)

lemma xml_attr_escape_no_quote: "CHR 0x22 \<notin> set (xml_attr_escape cs) \<and> CHR ''<'' \<notin> set (xml_attr_escape cs)"
  by (induction cs) (auto simp: xml_attr_escape_concat escape_attr_char.simps)

section \<open>Hexadecimal ids\<close>

definition hex_digits :: string where
  "hex_digits = ''0123456789abcdef''"

text \<open>The loop writes the digits from position \<open>i\<close> down to 0; the vector starts as 16 zeros.\<close>

fun hex_loop :: "nat \<Rightarrow> 64 word \<Rightarrow> string \<Rightarrow> string" where
  "hex_loop 0 v out = out"
| "hex_loop (Suc i) v out = hex_loop i (drop_bit 4 v) (out[i := hex_digits ! unat (v AND 0xF)])"

definition hex16 :: "64 word \<Rightarrow> string" where
  "hex16 v = hex_loop 16 v (replicate 16 (CHR ''0''))"

definition hex_value :: "char \<Rightarrow> nat" where
  "hex_value c = length (takeWhile (\<lambda>d. d \<noteq> c) hex_digits)"

definition unhex :: "string \<Rightarrow> nat" where
  "unhex cs = foldl (\<lambda>n c. 16 * n + hex_value c) 0 cs"

lemma length_hex_loop [simp]: "length (hex_loop i v out) = length out"
  by (induction i v out rule: hex_loop.induct) auto

lemma length_hex16 [simp, text_simps]: "length (hex16 v) = 16"
  by (simp add: hex16_def)

lemma hex_value_digit: "d < 16 \<Longrightarrow> hex_value (hex_digits ! d) = d"
proof -
  have "\<forall>d \<in> set [0..<16]. hex_value (hex_digits ! d) = d" by code_simp
  then show "d < 16 \<Longrightarrow> hex_value (hex_digits ! d) = d" by simp
qed

lemma nibble: "unat ((v :: 64 word) AND 0xF) = unat v mod 16"
proof -
  have "v AND 0xF = take_bit 4 v"
    by (simp add: take_bit_eq_mask mask_numeral)
  then show ?thesis by (simp add: unsigned_take_bit_eq take_bit_eq_mod del: take_bit_eq_mod) (simp add: take_bit_eq_mod)
qed

lemma hex_loop_take_drop:
  "i \<le> length out \<Longrightarrow> drop i (hex_loop i v out) = drop i out"
proof (induction i v out rule: hex_loop.induct)
  case (2 i v out)
  let ?out' = "out[i := hex_digits ! unat (v AND 0xF)]"
  from 2 have "drop i (hex_loop i (drop_bit 4 v) ?out') = drop i ?out'" by simp
  then have "drop 1 (drop i (hex_loop i (drop_bit 4 v) ?out')) = drop 1 (drop i ?out')" by simp
  then show ?case by simp
qed simp

lemma unhex_append: "unhex (cs @ [c]) = 16 * unhex cs + hex_value c"
  by (simp add: unhex_def)

lemma unhex_hex_loop:
  "i \<le> length out \<Longrightarrow> unhex (take i (hex_loop i v out)) = unat v mod 16 ^ i"
proof (induction i v out rule: hex_loop.induct)
  case (1 v out)
  then show ?case by (simp add: unhex_def)
next
  case (2 i v out)
  let ?d = "hex_digits ! unat (v AND 0xF)"
  let ?r = "hex_loop i (drop_bit 4 v) (out[i := ?d])"
  from 2(2) hex_loop_take_drop [of i "out[i := ?d]" "drop_bit 4 v"] have "drop i ?r = drop i (out[i := ?d])" by simp
  then have "hd (drop i ?r) = hd (drop i (out[i := ?d]))" by simp
  then have "?r ! i = ?d" using 2(2) by (simp add: hd_drop_conv_nth)
  then have t: "take (Suc i) ?r = take i ?r @ [?d]" using 2(2) by (simp add: take_Suc_conv_app_nth)
  from 2(2) have "i \<le> length (out[i := ?d])" by simp
  moreover have "unat (drop_bit 4 v) = unat v div 16"
    by (simp add: drop_bit_eq_div unat_div)
  ultimately have "unhex (take i ?r) = unat v div 16 mod 16 ^ i"
    using 2(1) by (simp only:)
  moreover have "hex_value ?d = unat v mod 16"
    unfolding nibble by (rule hex_value_digit) simp
  ultimately have "unhex (take i ?r @ [?d]) = 16 * (unat v div 16 mod 16 ^ i) + unat v mod 16"
    by (simp only: unhex_append)
  also have "\<dots> = unat v mod (16 * 16 ^ i)" by (simp add: mod_mult2_eq)
  finally show ?case by (simp only: hex_loop.simps t power_Suc)
qed

lemma unhex_hex16 [text_simps]: "unhex (hex16 v) = unat v"
proof -
  have "unhex (hex16 v) = unat v mod 16 ^ 16"
    using unhex_hex_loop [of 16 "replicate 16 (CHR ''0'')" v] by (simp add: hex16_def)
  also have "\<dots> = unat v"
  proof (rule mod_less)
    have "unat v < 2 ^ 64" using unsigned_less [of v] by simp
    then show "unat v < 16 ^ 16" by simp
  qed
  finally show ?thesis .
qed

lemma hex16_inject: "hex16 v = hex16 w \<longleftrightarrow> v = w"
  by (metis unhex_hex16 word_unat_eq_iff)

section \<open>Lines and searching\<close>

definition newline :: char where "newline = CHR 0x0A"

text \<open>\<open>find\<close> of a text in a text.\<close>

fun find_text :: "string \<Rightarrow> string \<Rightarrow> nat option" where
  "find_text needle [] = (if needle = [] then Some 0 else None)"
| "find_text needle (c # cs) = (if take (length needle) (c # cs) = needle then Some 0 else map_option Suc (find_text needle cs))"

definition contains :: "string \<Rightarrow> string \<Rightarrow> bool" where
  "contains s needle \<longleftrightarrow> find_text needle s \<noteq> None"

definition lower_char :: "char \<Rightarrow> char" where
  "lower_char c = (if of_char c \<ge> (65::nat) \<and> of_char c \<le> (90::nat) then char_of ((of_char c :: nat) + 32) else c)"

end
