(* ===== verification/Json.thy ===== *)
theory Json
  imports Strings
begin

text \<open>
  JSON values as the code sees them (\<open>boost::json::value\<close>, a library of the program) and the field
  accessors of \<open>include/araya/util/json.hpp\<close>. An integer has a kind: \<open>JInt\<close> is \<open>int64\<close>, read signed,
  \<open>JUint\<close> is \<open>uint64\<close>; a double is kept as its bit pattern and only copied. An object is the list of its
  members in insertion order, its keys distinct.
\<close>

datatype json =
    JNull
  | JBool bool
  | JInt "64 word"
  | JUint "64 word"
  | JDouble "64 word"
  | JString string
  | JArray "json list"
  | JObject "(string \<times> json) list"

type_synonym json_object = "(string \<times> json) list"

named_theorems json_simps \<open>reading the members of JSON objects\<close>

section \<open>Kinds\<close>

fun as_object :: "json \<Rightarrow> json_object option" where
  "as_object (JObject m) = Some m"
| "as_object v = None"

fun as_array :: "json \<Rightarrow> json list option" where
  "as_array (JArray vs) = Some vs"
| "as_array v = None"

fun opt_string :: "json \<Rightarrow> string option" where
  "opt_string (JString s) = Some s"
| "opt_string v = None"

definition get_string :: "json \<Rightarrow> string" where
  "get_string v = (case v of JString s \<Rightarrow> s | _ \<Rightarrow> [])"

text \<open>The unsigned readers accept a non-negative \<open>int64\<close>, the signed ones a \<open>uint64\<close> in range.\<close>

definition int64_max :: "64 word" where
  "int64_max = 0x7FFFFFFFFFFFFFFF"

fun opt_uint :: "json \<Rightarrow> 64 word option" where
  "opt_uint (JUint n) = Some n"
| "opt_uint (JInt n) = (if sint n \<ge> 0 then Some n else None)"
| "opt_uint v = None"

definition get_uint :: "json \<Rightarrow> 64 word" where
  "get_uint v = (case v of JUint n \<Rightarrow> n | JInt n \<Rightarrow> (if sint n \<ge> 0 then n else 0) | _ \<Rightarrow> 0)"

fun opt_int :: "json \<Rightarrow> 64 word option" where
  "opt_int (JInt n) = Some n"
| "opt_int (JUint n) = (if n \<le> int64_max then Some n else None)"
| "opt_int v = None"

definition get_int :: "json \<Rightarrow> 64 word" where
  "get_int v = (case v of JInt n \<Rightarrow> n | JUint n \<Rightarrow> (if n \<le> int64_max then n else 0) | _ \<Rightarrow> 0)"

definition get_bool :: "json \<Rightarrow> bool" where
  "get_bool v = (case v of JBool b \<Rightarrow> b | _ \<Rightarrow> False)"

fun opt_bool :: "json \<Rightarrow> bool option" where
  "opt_bool (JBool b) = Some b"
| "opt_bool v = None"

section \<open>Members\<close>

text \<open>\<open>if_contains\<close> and \<open>find\<close>: the value under a key, if there is one.\<close>

definition member :: "json_object \<Rightarrow> string \<Rightarrow> json option" where
  "member m k = map_of m k"

definition get_object :: "json_object \<Rightarrow> string \<Rightarrow> json_object option" where
  "get_object m k = Option.bind (member m k) as_object"

definition get_array :: "json_object \<Rightarrow> string \<Rightarrow> json list option" where
  "get_array m k = Option.bind (member m k) as_array"

definition get_string_at :: "json_object \<Rightarrow> string \<Rightarrow> string" where
  "get_string_at m k = (case member m k of None \<Rightarrow> [] | Some v \<Rightarrow> get_string v)"

definition opt_string_at :: "json_object \<Rightarrow> string \<Rightarrow> string option" where
  "opt_string_at m k = Option.bind (member m k) opt_string"

definition get_uint_at :: "json_object \<Rightarrow> string \<Rightarrow> 64 word" where
  "get_uint_at m k = (case member m k of None \<Rightarrow> 0 | Some v \<Rightarrow> get_uint v)"

definition opt_uint_at :: "json_object \<Rightarrow> string \<Rightarrow> 64 word option" where
  "opt_uint_at m k = Option.bind (member m k) opt_uint"

definition get_int_at :: "json_object \<Rightarrow> string \<Rightarrow> 64 word" where
  "get_int_at m k = (case member m k of None \<Rightarrow> 0 | Some v \<Rightarrow> get_int v)"

definition opt_int_at :: "json_object \<Rightarrow> string \<Rightarrow> 64 word option" where
  "opt_int_at m k = Option.bind (member m k) opt_int"

definition get_bool_at :: "json_object \<Rightarrow> string \<Rightarrow> bool" where
  "get_bool_at m k = (case member m k of None \<Rightarrow> False | Some v \<Rightarrow> get_bool v)"

definition opt_bool_at :: "json_object \<Rightarrow> string \<Rightarrow> bool option" where
  "opt_bool_at m k = Option.bind (member m k) opt_bool"

lemma member_Cons [simp, json_simps]: "member ((k, v) # m) j = (if j = k then Some v else member m j)"
  by (auto simp: member_def)

lemma member_Nil [simp, json_simps]: "member [] j = None"
  by (simp add: member_def)

lemmas accessor_defs = get_object_def get_array_def get_string_at_def opt_string_at_def get_uint_at_def
  opt_uint_at_def get_int_at_def opt_int_at_def get_bool_at_def opt_bool_at_def

lemma opt_get_uint: "opt_uint v = Some n \<Longrightarrow> get_uint v = n"
  by (cases v) (auto simp: get_uint_def split: if_splits)

lemma opt_get_int: "opt_int v = Some n \<Longrightarrow> get_int v = n"
  by (cases v) (auto simp: get_int_def split: if_splits)

text \<open>The two integer kinds agree on the numbers both can hold.\<close>

lemma int64_max_signed: "n \<le> int64_max \<longleftrightarrow> sint (n :: 64 word) \<ge> 0"
proof -
  have "n \<le> int64_max \<longleftrightarrow> unat n < 2 ^ 63"
    by (simp add: int64_max_def word_le_nat_alt) linarith
  also have "\<dots> \<longleftrightarrow> even (unat n div 2 ^ 63)"
  proof -
    have "unat n < 2 ^ 64" using unsigned_less [of n] by simp
    then have "unat n div 2 ^ 63 < 2" by (simp add: less_mult_imp_div_less)
    then show ?thesis by (cases "unat n div 2 ^ 63") (auto simp: div_eq_0_iff)
  qed
  also have "\<dots> \<longleftrightarrow> \<not> bit (uint n) 63"
    unfolding bit_iff_odd uint_nat by (metis even_of_nat of_nat_div of_nat_numeral of_nat_power)
  also have "\<dots> \<longleftrightarrow> sint n \<ge> 0"
    by (simp add: sint_uint signed_take_bit_nonnegative_iff)
  finally show ?thesis .
qed

end
