(* ===== verification/Surface.thy ===== *)
theory Surface
  imports Json
begin

text \<open>
  The session vocabulary (\<open>plugins/session/include/araya/session/session_types.hpp\<close>) and the surface, the
  message history folded from a session's event log (\<open>surface.hpp\<close>, \<open>src/surface.cpp\<close>). Sequence
  numbers are \<open>std::uint64_t\<close>, times \<open>std::int64_t\<close> milliseconds. The fold a plugin registers for its own
  event type is a function of the event.
\<close>

section \<open>Events and messages\<close>

type_synonym session_id = string
type_synonym session_seq = "64 word"

datatype session_origin = OriginNone | OriginSubagent

record session_header =
  sh_version :: "32 word"
  sh_id :: session_id
  sh_created_at :: "64 word"
  sh_cwd :: "string option"
  sh_parent_session :: "session_id option"
  sh_is_seeded :: bool
  sh_delegation_depth :: "32 word"
  sh_origin :: session_origin
  sh_agent_preset :: "string option"

record session_event =
  ev_seq :: session_seq
  ev_time :: "64 word"
  ev_type :: string
  ev_data :: json
  ev_ignorable :: bool

datatype message_role = RoleSystem | RoleUser | RoleAssistant | RoleToolResult

record session_message =
  sm_role :: message_role
  sm_id :: string
  sm_content :: json
  sm_tool_call_id :: "string option"
  sm_source_plugin :: "string option"
  sm_source :: "json option"

record session_surface =
  sf_messages :: "session_message list"
  sf_source_seqs :: "session_seq list"
  sf_generation :: "64 word"

definition empty_surface :: session_surface where
  "empty_surface = \<lparr>sf_messages = [], sf_source_seqs = [], sf_generation = 0\<rparr>"

datatype plan_kind = PlanNone | PlanAppend | PlanReplace

record surface_plan =
  sp_action :: plan_kind
  sp_start :: session_seq
  sp_end :: session_seq
  sp_message :: "session_message option"

definition no_plan :: surface_plan where
  "no_plan = \<lparr>sp_action = PlanNone, sp_start = 0, sp_end = 0, sp_message = None\<rparr>"

record message_projection =
  mp_event_type :: string
  mp_fold :: "session_event \<Rightarrow> session_message option"

definition is_builtin_surface_type :: "string \<Rightarrow> bool" where
  "is_builtin_surface_type ty \<longleftrightarrow>
     ty = ''system/message'' \<or> ty = ''user/message'' \<or> ty = ''assistant/message'' \<or> ty = ''tool/result'' \<or>
     ty = ''surface/replace''"

section \<open>The surface\<close>

definition surface_push :: "session_seq \<Rightarrow> session_message \<Rightarrow> session_surface \<Rightarrow> session_surface" where
  "surface_push sq m s =
     s\<lparr>sf_messages := sf_messages s @ [m], sf_source_seqs := sf_source_seqs s @ [sq]\<rparr>"

text \<open>
  \<open>replace\<close>: one pass over both vectors with a read index \<open>i\<close> and a write index; \<open>insert_at\<close> is where the
  first removed node would have been written.
\<close>

definition in_span :: "session_seq \<Rightarrow> session_seq \<Rightarrow> session_seq \<Rightarrow> bool" where
  "in_span start fin sq \<longleftrightarrow> sq \<ge> start \<and> sq < fin"

definition replace_step ::
  "session_seq \<Rightarrow> session_seq \<Rightarrow> nat \<Rightarrow> nat option \<times> nat \<times> session_message list \<times> session_seq list
     \<Rightarrow> nat option \<times> nat \<times> session_message list \<times> session_seq list" where
  "replace_step start fin i acc =
     (case acc of (insert_at, wr, ms, qs) \<Rightarrow>
        if in_span start fin (qs ! i)
        then (if insert_at = None then Some wr else insert_at, wr, ms, qs)
        else if wr \<noteq> i
        then (insert_at, Suc wr, ms[wr := ms ! i], qs[wr := qs ! i])
        else (insert_at, Suc wr, ms, qs))"

definition insert_position :: "nat \<Rightarrow> 'a \<Rightarrow> 'a list \<Rightarrow> 'a list" where
  "insert_position i x xs = take i xs @ x # drop i xs"

definition surface_replace ::
  "session_seq \<Rightarrow> session_seq \<Rightarrow> session_seq \<Rightarrow> session_message option \<Rightarrow> session_surface \<Rightarrow> session_surface" where
  "surface_replace start fin sq msg s =
     (let (insert_at, wr, ms, qs) =
            fold (replace_step start fin) [0..<length (sf_messages s)] (None, 0, sf_messages s, sf_source_seqs s);
          ms = take wr ms;
          qs = take wr qs;
          s = s\<lparr>sf_messages := ms, sf_source_seqs := qs,
                sf_generation := (if insert_at \<noteq> None \<or> msg \<noteq> None then sf_generation s + 1 else sf_generation s)\<rparr>
      in (case msg of
            None \<Rightarrow> s
          | Some m \<Rightarrow>
              let at = (case insert_at of None \<Rightarrow> length ms | Some p \<Rightarrow> p)
              in s\<lparr>sf_messages := insert_position at m ms, sf_source_seqs := insert_position at sq qs\<rparr>))"

section \<open>Folding one event\<close>

definition surface_message_object :: "session_event \<Rightarrow> json_object option" where
  "surface_message_object ev =
     (case as_object (ev_data ev) of
        None \<Rightarrow> None
      | Some obj \<Rightarrow>
          if ev_type ev = ''user/message'' \<or> ev_type ev = ''tool/result'' then Some obj
          else (case member obj ''message'' of None \<Rightarrow> None | Some v \<Rightarrow> as_object v))"

definition string_field :: "json_object \<Rightarrow> string \<Rightarrow> string option" where
  "string_field obj k = (case member obj k of None \<Rightarrow> None | Some v \<Rightarrow> opt_string v)"

definition source_field :: "json_object \<Rightarrow> json option" where
  "source_field obj = member obj ''source''"

definition source_plugin :: "json_object \<Rightarrow> string option" where
  "source_plugin obj =
     (case member obj ''source'' of
        None \<Rightarrow> None
      | Some v \<Rightarrow> (case as_object v of None \<Rightarrow> None | Some src \<Rightarrow> string_field src ''plugin''))"

definition parse_role :: "string \<Rightarrow> message_role option" where
  "parse_role r =
     (if r = ''user'' then Some RoleUser else if r = ''assistant'' then Some RoleAssistant
      else if r = ''system'' then Some RoleSystem else if r = ''tool_result'' then Some RoleToolResult else None)"

definition append_plan :: "session_message option \<Rightarrow> surface_plan" where
  "append_plan msg =
     (case msg of None \<Rightarrow> no_plan | Some m \<Rightarrow> no_plan\<lparr>sp_action := PlanAppend, sp_message := Some m\<rparr>)"

text \<open>The branches of \<open>fold_builtin\<close>: the three plain message types, a tool result, a replacement.\<close>

definition fold_message :: "message_role \<Rightarrow> bool \<Rightarrow> session_event \<Rightarrow> surface_plan" where
  "fold_message role with_plugin ev =
     (case surface_message_object ev of
        None \<Rightarrow> no_plan
      | Some obj \<Rightarrow>
          (case (string_field obj ''id'', member obj ''content'') of
             (Some i, Some content) \<Rightarrow>
               append_plan (Some \<lparr>sm_role = role, sm_id = i, sm_content = content, sm_tool_call_id = None,
                 sm_source_plugin = (if with_plugin then source_plugin obj else None),
                 sm_source = source_field obj\<rparr>)
           | _ \<Rightarrow> no_plan))"

definition first_call_id :: "json \<Rightarrow> string option" where
  "first_call_id content =
     (case as_array content of
        None \<Rightarrow> None
      | Some [] \<Rightarrow> None
      | Some (block # _) \<Rightarrow> (case as_object block of None \<Rightarrow> None | Some b \<Rightarrow> string_field b ''tool_call_id''))"

definition fold_tool_result :: "session_event \<Rightarrow> surface_plan" where
  "fold_tool_result ev =
     (case surface_message_object ev of
        None \<Rightarrow> no_plan
      | Some obj \<Rightarrow>
          (case (string_field obj ''id'', member obj ''content'') of
             (Some i, Some content) \<Rightarrow>
               (case first_call_id content of
                  None \<Rightarrow> no_plan
                | Some call \<Rightarrow>
                    append_plan (Some \<lparr>sm_role = RoleToolResult, sm_id = i, sm_content = content,
                      sm_tool_call_id = Some call, sm_source_plugin = None, sm_source = source_field obj\<rparr>))
           | _ \<Rightarrow> no_plan))"

definition replacement_message :: "json_object \<Rightarrow> session_message option" where
  "replacement_message obj =
     (case member obj ''message'' of
        None \<Rightarrow> None
      | Some v \<Rightarrow>
          (case as_object v of
             None \<Rightarrow> None
           | Some m \<Rightarrow>
               (case (string_field m ''id'', string_field m ''role'', member m ''content'') of
                  (Some i, Some r, Some content) \<Rightarrow>
                    (case parse_role r of
                       None \<Rightarrow> None
                     | Some role \<Rightarrow>
                         Some \<lparr>sm_role = role, sm_id = i, sm_content = content, sm_tool_call_id = None,
                           sm_source_plugin = source_plugin m, sm_source = source_field m\<rparr>)
                | _ \<Rightarrow> None)))"

definition fold_replace :: "session_event \<Rightarrow> surface_plan" where
  "fold_replace ev =
     (case as_object (ev_data ev) of
        None \<Rightarrow> no_plan
      | Some obj \<Rightarrow>
          (case (member obj ''start_seq'', member obj ''end_seq'') of
             (Some (JInt start), Some (JInt fin)) \<Rightarrow>
               \<lparr>sp_action = PlanReplace, sp_start = start, sp_end = fin, sp_message = replacement_message obj\<rparr>
           | _ \<Rightarrow> no_plan))"

definition fold_builtin :: "session_event \<Rightarrow> surface_plan" where
  "fold_builtin ev =
     (if ev_type ev = ''user/message'' then fold_message RoleUser False ev
      else if ev_type ev = ''assistant/message'' then fold_message RoleAssistant False ev
      else if ev_type ev = ''system/message'' then fold_message RoleSystem True ev
      else if ev_type ev = ''tool/result'' then fold_tool_result ev
      else if ev_type ev = ''surface/replace'' then fold_replace ev
      else no_plan)"

definition fold_event :: "session_event \<Rightarrow> message_projection list \<Rightarrow> surface_plan" where
  "fold_event ev projections =
     (case List.find (\<lambda>p. mp_event_type p = ev_type ev) projections of
        Some p \<Rightarrow>
          (case mp_fold p ev of
             None \<Rightarrow> no_plan
           | Some m \<Rightarrow> no_plan\<lparr>sp_action := PlanAppend, sp_message := Some m\<rparr>)
      | None \<Rightarrow> fold_builtin ev)"

text \<open>\<open>session::fold\<close>: what the plan of one event does to the surface.\<close>

definition surface_fold :: "message_projection list \<Rightarrow> session_event \<Rightarrow> session_surface \<Rightarrow> session_surface" where
  "surface_fold projections ev s =
     (let plan = fold_event ev projections
      in (case (sp_action plan, sp_message plan) of
            (PlanAppend, Some m) \<Rightarrow> surface_push (ev_seq ev) m s
          | (PlanReplace, msg) \<Rightarrow> surface_replace (sp_start plan) (sp_end plan) (ev_seq ev) msg s
          | _ \<Rightarrow> s))"

definition surface_of_log :: "message_projection list \<Rightarrow> session_event list \<Rightarrow> session_surface" where
  "surface_of_log projections log = fold (surface_fold projections) log empty_surface"

definition plan_ok :: "surface_plan \<Rightarrow> bool" where
  "plan_ok p \<longleftrightarrow> (sp_action p = PlanAppend \<longrightarrow> sp_message p \<noteq> None)"

lemma plan_ok_intros [simp]:
  "plan_ok no_plan" "plan_ok (append_plan m)" "plan_ok (no_plan\<lparr>sp_action := a, sp_message := Some x\<rparr>)"
  by (auto simp: plan_ok_def append_plan_def no_plan_def split: option.split)

lemma fold_message_ok [simp]: "plan_ok (fold_message r b ev)"
  by (auto simp: fold_message_def split: option.split)

lemma fold_tool_result_ok [simp]: "plan_ok (fold_tool_result ev)"
  by (auto simp: fold_tool_result_def split: option.split)

lemma fold_replace_ok [simp]: "plan_ok (fold_replace ev)"
  by (simp add: fold_replace_def plan_ok_def no_plan_def split: option.split json.split)

lemma fold_event_ok: "plan_ok (fold_event ev ps)"
  by (auto simp: fold_event_def fold_builtin_def split: option.split)

section \<open>What a replacement does\<close>

text \<open>
  The specification works on nodes (message, source sequence): the nodes of the span go, and the
  replacement stands where the first of them stood, or at the end when there was none.
\<close>

definition nodes :: "session_surface \<Rightarrow> (session_message \<times> session_seq) list" where
  "nodes s = zip (sf_messages s) (sf_source_seqs s)"

definition splice :: "('a \<Rightarrow> bool) \<Rightarrow> 'a option \<Rightarrow> 'a list \<Rightarrow> 'a list" where
  "splice P r xs = takeWhile (\<lambda>x. \<not> P x) xs @ (case r of None \<Rightarrow> [] | Some x \<Rightarrow> [x]) @
     filter (\<lambda>x. \<not> P x) (dropWhile (\<lambda>x. \<not> P x) xs)"

definition aligned :: "session_surface \<Rightarrow> bool" where
  "aligned s \<longleftrightarrow> length (sf_messages s) = length (sf_source_seqs s)"

lemma length_nodes: "aligned s \<Longrightarrow> length (nodes s) = length (sf_messages s)"
  by (simp add: nodes_def aligned_def)

text \<open>The pass over the two vectors is one pass over the vector of nodes.\<close>

definition compact_step :: "('a \<Rightarrow> bool) \<Rightarrow> nat \<Rightarrow> nat option \<times> nat \<times> 'a list \<Rightarrow> nat option \<times> nat \<times> 'a list" where
  "compact_step P i acc =
     (case acc of (insert_at, wr, xs) \<Rightarrow>
        if P (xs ! i) then (if insert_at = None then Some wr else insert_at, wr, xs)
        else (insert_at, Suc wr, xs[wr := xs ! i]))"

lemma list_update_zip: "length xs = length ys \<Longrightarrow> zip (xs[i := x]) (ys[i := y]) = (zip xs ys)[i := (x, y)]"
  by (simp add: update_zip)

definition zipped where
  "zipped acc = (case acc of (insert_at, wr, ms, qs) \<Rightarrow> (insert_at, wr, zip ms qs))"

definition same_length where
  "same_length n acc = (case acc of (insert_at, wr, ms, qs) \<Rightarrow> length ms = n \<and> length qs = (n::nat))"

lemma replace_step_zip:
  assumes "same_length n acc" and "i < n"
  shows "zipped (replace_step start fin i acc) = compact_step (\<lambda>x. in_span start fin (snd x)) i (zipped acc) \<and>
    same_length n (replace_step start fin i acc)"
  using assms
  by (auto simp: zipped_def same_length_def replace_step_def compact_step_def list_update_zip split: prod.splits)

lemma replace_pass_zip:
  assumes "same_length n acc" and "\<forall>i \<in> set is. i < n"
  shows "zipped (fold (replace_step start fin) is acc) =
      fold (compact_step (\<lambda>x. in_span start fin (snd x))) is (zipped acc) \<and>
    same_length n (fold (replace_step start fin) is acc)"
  using assms by (induction "is" arbitrary: acc) (use replace_step_zip in auto)

text \<open>
  After \<open>i\<close> nodes the kept ones fill the first \<open>wr\<close> cells, the cells from \<open>i\<close> on are untouched, and
  \<open>insert_at\<close> counts the nodes before the first removed one.
\<close>

definition pass_state :: "('a \<Rightarrow> bool) \<Rightarrow> 'a list \<Rightarrow> nat \<Rightarrow> nat option \<times> nat \<times> 'a list \<Rightarrow> bool" where
  "pass_state P xs0 i acc \<longleftrightarrow>
     (case acc of (insert_at, wr, xs) \<Rightarrow>
        length xs = length xs0 \<and> drop i xs = drop i xs0 \<and> wr \<le> i \<and>
        take wr xs = filter (\<lambda>x. \<not> P x) (take i xs0) \<and>
        insert_at = (if \<exists>x \<in> set (take i xs0). P x then Some (length (takeWhile (\<lambda>x. \<not> P x) xs0)) else None))"

lemma pass_state_step:
  assumes "pass_state P xs0 i acc" and "i < length xs0"
  shows "pass_state P xs0 (Suc i) (compact_step P i acc)"
proof -
  obtain insert_at wr xs where acc: "acc = (insert_at, wr, xs)" by (cases acc) auto
  from assms(1) have st: "length xs = length xs0" "drop i xs = drop i xs0" "wr \<le> i"
    "take wr xs = filter (\<lambda>x. \<not> P x) (take i xs0)"
    "insert_at = (if \<exists>x \<in> set (take i xs0). P x then Some (length (takeWhile (\<lambda>x. \<not> P x) xs0)) else None)"
    by (simp_all add: pass_state_def acc)
  from st(2) assms(2) st(1) have x: "xs ! i = xs0 ! i" by (metis hd_drop_conv_nth)
  from st(2) have d: "drop (Suc i) xs = drop (Suc i) xs0" by (metis drop_Suc tl_drop)
  have s: "take (Suc i) xs0 = take i xs0 @ [xs0 ! i]" using assms(2) by (simp add: take_Suc_conv_app_nth)
  show ?thesis
  proof (cases "P (xs0 ! i)")
    case True
    have "length (takeWhile (\<lambda>x. \<not> P x) xs0) = wr" if "\<forall>x \<in> set (take i xs0). \<not> P x"
    proof -
      from that have "take wr xs = take i xs0" by (simp add: st(4))
      then have "wr = i" using st(1,3) assms(2) by (metis length_take min.absorb2 order.strict_implies_order order.trans)
      moreover have "takeWhile (\<lambda>x. \<not> P x) xs0 = take i xs0"
      proof (rule takeWhile_eq_take_P_nth)
        fix k assume "k < i" "k < length xs0"
        then have "xs0 ! k \<in> set (take i xs0)" by (auto simp: in_set_conv_nth)
        with that show "\<not> P (xs0 ! k)" by blast
      qed (use True in simp)
      ultimately show ?thesis using assms(2) by simp
    qed
    with True st s x d show ?thesis by (auto simp: pass_state_def compact_step_def acc)
  next
    case False
    have "take (Suc wr) (xs[wr := xs ! i]) = take wr xs @ [xs0 ! i]"
      using st(1,3) assms(2) x by (simp add: take_Suc_conv_app_nth)
    with False st s x d show ?thesis by (auto simp: pass_state_def compact_step_def acc)
  qed
qed

lemma pass_state_run: "n \<le> length xs0 \<Longrightarrow> pass_state P xs0 n (fold (compact_step P) [0..<n] (None, 0, xs0))"
proof (induction n)
  case (Suc n)
  then show ?case using pass_state_step [of P xs0 n] by simp
qed (simp add: pass_state_def)

lemma splice_insert:
  assumes "\<exists>x \<in> set xs. P x"
  shows "insert_position (length (takeWhile (\<lambda>x. \<not> P x) xs)) y (filter (\<lambda>x. \<not> P x) xs) = splice P (Some y) xs"
proof -
  let ?a = "takeWhile (\<lambda>x. \<not> P x) xs"
  have "filter (\<lambda>x. \<not> P x) xs = ?a @ filter (\<lambda>x. \<not> P x) (dropWhile (\<lambda>x. \<not> P x) xs)"
    by (metis (no_types, lifting) filter_True filter_append set_takeWhileD takeWhile_dropWhile_id)
  then show ?thesis by (simp add: insert_position_def splice_def)
qed

lemma splice_none: "splice P None xs = filter (\<lambda>x. \<not> P x) xs"
proof -
  have "filter (\<lambda>x. \<not> P x) xs = takeWhile (\<lambda>x. \<not> P x) xs @ filter (\<lambda>x. \<not> P x) (dropWhile (\<lambda>x. \<not> P x) xs)"
    by (metis (no_types, lifting) filter_True filter_append set_takeWhileD takeWhile_dropWhile_id)
  then show ?thesis by (simp add: splice_def)
qed

lemma splice_absent: "\<forall>x \<in> set xs. \<not> P x \<Longrightarrow> splice P (Some y) xs = xs @ [y]"
  unfolding splice_def by (induction xs) auto

lemma zip_insert_position:
  "length xs = length ys \<Longrightarrow> zip (insert_position p x xs) (insert_position p y ys) = insert_position p (x, y) (zip xs ys)"
  by (simp add: insert_position_def take_zip drop_zip)

lemma surface_replace_nodes:
  assumes "aligned s"
  shows "nodes (surface_replace start fin sq msg s) =
      splice (\<lambda>x. in_span start fin (snd x)) (map_option (\<lambda>m. (m, sq)) msg) (nodes s) \<and>
    aligned (surface_replace start fin sq msg s) \<and>
    sf_generation (surface_replace start fin sq msg s) =
      sf_generation s + (if msg \<noteq> None \<or> (\<exists>q \<in> set (sf_source_seqs s). in_span start fin q) then 1 else 0)"
proof -
  let ?P = "\<lambda>x :: session_message \<times> session_seq. in_span start fin (snd x)"
  let ?n = "length (sf_messages s)"
  obtain insert_at wr ms qs where f:
    "fold (replace_step start fin) [0..<?n] (None, 0, sf_messages s, sf_source_seqs s) = (insert_at, wr, ms, qs)"
    by (cases "fold (replace_step start fin) [0..<?n] (None, 0, sf_messages s, sf_source_seqs s)") auto
  from assms have "same_length ?n (None, 0, sf_messages s, sf_source_seqs s)" by (simp add: same_length_def aligned_def)
  from replace_pass_zip [OF this, of "[0..<?n]" start fin]
  have z: "(insert_at, wr, zip ms qs) = fold (compact_step ?P) [0..<?n] (None, 0, nodes s)"
    and l: "length ms = ?n" "length qs = ?n"
    by (simp_all add: f zipped_def nodes_def same_length_def)
  from pass_state_run [of ?n "nodes s" ?P] z [symmetric] length_nodes [OF assms]
  have k: "take wr (zip ms qs) = filter (\<lambda>x. \<not> ?P x) (nodes s)"
    and w: "wr \<le> ?n"
    and p: "insert_at = (if \<exists>x \<in> set (nodes s). ?P x then Some (length (takeWhile (\<lambda>x. \<not> ?P x) (nodes s))) else None)"
    by (simp_all add: pass_state_def)
  from k l have zk: "zip (take wr ms) (take wr qs) = filter (\<lambda>x. \<not> ?P x) (nodes s)" by (simp add: take_zip)
  have ll: "length (take wr ms) = length (take wr qs)" using l by simp
  have any: "(\<exists>x \<in> set (nodes s). ?P x) \<longleftrightarrow> (\<exists>q \<in> set (sf_source_seqs s). in_span start fin q)"
  proof -
    have "snd ` set (nodes s) = set (sf_source_seqs s)"
      using assms by (metis aligned_def map_snd_zip nodes_def set_map)
    then show ?thesis by (metis (no_types, lifting) image_iff)
  qed
  show ?thesis
  proof (cases msg)
    case None
    then show ?thesis using zk ll p any
      by (simp add: surface_replace_def f nodes_def aligned_def splice_none)
  next
    case (Some m)
    let ?at = "case insert_at of None \<Rightarrow> length (take wr ms) | Some p \<Rightarrow> p"
    have "nodes (surface_replace start fin sq msg s) = insert_position ?at (m, sq) (filter (\<lambda>x. \<not> ?P x) (nodes s))"
      using zip_insert_position [OF ll, of ?at m sq] zk
      by (simp add: surface_replace_def f Some nodes_def Let_def)
    also have "\<dots> = splice ?P (Some (m, sq)) (nodes s)"
    proof (cases "\<exists>x \<in> set (nodes s). ?P x")
      case True
      with p splice_insert [OF True] show ?thesis by simp
    next
      case False
      then have "filter (\<lambda>x. \<not> ?P x) (nodes s) = nodes s" by (auto intro: filter_True)
      moreover from this have "length (take wr ms) = length (nodes s)" using zk ll by (metis length_zip min.idem)
      ultimately show ?thesis using False p by (simp add: splice_absent insert_position_def)
    qed
    finally have n: "nodes (surface_replace start fin sq msg s) = splice ?P (Some (m, sq)) (nodes s)" .
    have "aligned (surface_replace start fin sq msg s)" "sf_generation (surface_replace start fin sq msg s) = sf_generation s + 1"
      using ll by (simp_all add: surface_replace_def f Some Let_def aligned_def insert_position_def)
    with n show ?thesis by (simp add: Some)
  qed
qed

lemma aligned_push [simp]: "aligned (surface_push q m s) = aligned s"
  by (simp add: aligned_def surface_push_def)

lemma nodes_push: "aligned s \<Longrightarrow> nodes (surface_push q m s) = nodes s @ [(m, q)]"
  by (simp add: aligned_def surface_push_def nodes_def)

lemma aligned_fold: "aligned s \<Longrightarrow> aligned (surface_fold ps ev s)"
  by (simp add: surface_fold_def Let_def surface_replace_nodes split: plan_kind.split option.split)

lemma aligned_empty [simp]: "aligned empty_surface"
  by (simp add: aligned_def empty_surface_def)

lemma aligned_log: "aligned s \<Longrightarrow> aligned (fold (surface_fold ps) log s)"
  by (induction log arbitrary: s) (auto intro: aligned_fold)

section \<open>Provenance\<close>

lemma source_seqs_nodes: "aligned s \<Longrightarrow> map snd (nodes s) = sf_source_seqs s"
  by (simp add: nodes_def aligned_def)

lemma set_splice: "set (splice P r xs) \<subseteq> set_option r \<union> set xs"
  by (auto simp: splice_def dest: set_takeWhileD set_dropWhileD split: option.splits)

lemma distinct_splice:
  assumes "distinct (map f xs)" and "\<forall>y \<in> set_option r. f y \<notin> f ` set xs"
  shows "distinct (map f (splice P r xs))"
proof -
  obtain a b where ab: "takeWhile (\<lambda>x. \<not> P x) xs = a" "dropWhile (\<lambda>x. \<not> P x) xs = b" by simp
  then have "xs = a @ b" by (metis takeWhile_dropWhile_id)
  with assms show ?thesis unfolding splice_def ab
    by (auto simp: distinct_map_filter split: option.splits)
qed

lemma nodes_fold:
  assumes "aligned s"
  shows "nodes (surface_fold ps ev s) = nodes s \<or> (\<exists>m. nodes (surface_fold ps ev s) = nodes s @ [(m, ev_seq ev)]) \<or>
      (\<exists>P r. nodes (surface_fold ps ev s) = splice P (map_option (\<lambda>m. (m, ev_seq ev)) r) (nodes s))"
proof (cases "sp_action (fold_event ev ps)")
  case PlanReplace
  then have "surface_fold ps ev s =
      surface_replace (sp_start (fold_event ev ps)) (sp_end (fold_event ev ps)) (ev_seq ev) (sp_message (fold_event ev ps)) s"
    by (simp add: surface_fold_def Let_def)
  then have "nodes (surface_fold ps ev s) =
      splice (\<lambda>x. in_span (sp_start (fold_event ev ps)) (sp_end (fold_event ev ps)) (snd x))
        (map_option (\<lambda>m. (m, ev_seq ev)) (sp_message (fold_event ev ps))) (nodes s)"
    using surface_replace_nodes [OF assms] by simp
  then show ?thesis by blast
qed (auto simp: surface_fold_def Let_def nodes_push [OF assms] split: option.split)

lemma fold_seqs:
  assumes "aligned s" and "distinct (sf_source_seqs s)" and "ev_seq ev \<notin> set (sf_source_seqs s)"
  shows "distinct (sf_source_seqs (surface_fold ps ev s)) \<and>
     set (sf_source_seqs (surface_fold ps ev s)) \<subseteq> insert (ev_seq ev) (set (sf_source_seqs s))"
proof -
  let ?plan = "fold_event ev ps"
  from assms(1) have n: "distinct (map snd (nodes s))" "snd ` set (nodes s) = set (sf_source_seqs s)"
    using assms(2) source_seqs_nodes [OF assms(1)] by (simp_all flip: set_map)
  from nodes_fold [OF assms(1), of ps ev]
  consider "nodes (surface_fold ps ev s) = nodes s" | m where "nodes (surface_fold ps ev s) = nodes s @ [(m, ev_seq ev)]"
    | P r where "nodes (surface_fold ps ev s) = splice P (map_option (\<lambda>m. (m, ev_seq ev)) r) (nodes s)"
    by blast
  then have "distinct (map snd (nodes (surface_fold ps ev s))) \<and>
      set (map snd (nodes (surface_fold ps ev s))) \<subseteq> insert (ev_seq ev) (set (sf_source_seqs s))"
  proof cases
    case e: (3 P r)
    have "distinct (map snd (splice P (map_option (\<lambda>m. (m, ev_seq ev)) r) (nodes s)))"
      by (rule distinct_splice [OF n(1)]) (use n(2) assms(3) in \<open>auto simp: option.set_map\<close>)
    moreover have "snd ` set (splice P (map_option (\<lambda>m. (m, ev_seq ev)) r) (nodes s)) \<subseteq> insert (ev_seq ev) (snd ` set (nodes s))"
      using set_splice [of P "map_option (\<lambda>m. (m, ev_seq ev)) r" "nodes s"] by (auto simp: option.set_map)
    ultimately show ?thesis using n(2) e by simp
  qed (use n assms(3) in auto)
  then show ?thesis by (simp add: source_seqs_nodes [OF aligned_fold [OF assms(1)]])
qed

lemma log_seqs:
  assumes "aligned s" and "distinct (sf_source_seqs s)"
    and "distinct (map ev_seq log)" and "set (map ev_seq log) \<inter> set (sf_source_seqs s) = {}"
  shows "distinct (sf_source_seqs (fold (surface_fold ps) log s)) \<and>
     set (sf_source_seqs (fold (surface_fold ps) log s)) \<subseteq> set (map ev_seq log) \<union> set (sf_source_seqs s)"
  using assms
proof (induction log arbitrary: s)
  case (Cons ev log)
  let ?s = "surface_fold ps ev s"
  from Cons.prems(4) have new: "ev_seq ev \<notin> set (sf_source_seqs s)"
    and old: "set (map ev_seq log) \<inter> set (sf_source_seqs s) = {}" by auto
  from fold_seqs [OF Cons.prems(1,2) new, of ps]
  have f: "distinct (sf_source_seqs ?s)" "set (sf_source_seqs ?s) \<subseteq> insert (ev_seq ev) (set (sf_source_seqs s))"
    by blast+
  from Cons.prems(3) have d: "ev_seq ev \<notin> set (map ev_seq log)" "distinct (map ev_seq log)" by simp_all
  from f(2) old d(1) have "set (map ev_seq log) \<inter> set (sf_source_seqs ?s) = {}" by blast
  from Cons.IH [OF aligned_fold [OF Cons.prems(1)] f(1) d(2) this] f(2)
  show ?case by (simp del: set_map) blast
qed simp

end
