(* ===== verification/Repair.thy ===== *)
theory Repair
  imports Surface
begin

text \<open>
  The repair of interrupted turns (\<open>plugins/session/src/repair.cpp\<close>): every tool call an assistant block
  requested that no tool result of the log answers gets a synthesized closer. The set of open calls is a
  \<open>std::set\<close>, hence in ascending order; \<open>now\<close> is the clock, read only for an empty log.
\<close>

definition requested_call :: "json \<Rightarrow> string option" where
  "requested_call block =
     (case as_object block of
        None \<Rightarrow> None
      | Some b \<Rightarrow>
          (case member b ''tool_call'' of
             None \<Rightarrow> None
           | Some v \<Rightarrow>
               (case as_object v of
                  None \<Rightarrow> None
                | Some tc \<Rightarrow> (case member tc ''id'' of None \<Rightarrow> None | Some i \<Rightarrow> opt_string i))))"

definition assistant_content :: "session_event \<Rightarrow> json list" where
  "assistant_content ev =
     (if ev_type ev \<noteq> ''assistant/message'' then []
      else
        (case as_object (ev_data ev) of
           None \<Rightarrow> []
         | Some obj \<Rightarrow>
             (case member obj ''message'' of
                None \<Rightarrow> []
              | Some v \<Rightarrow>
                  (case as_object v of
                     None \<Rightarrow> []
                   | Some m \<Rightarrow>
                       (case member m ''content'' of
                          None \<Rightarrow> []
                        | Some c \<Rightarrow> (case as_array c of None \<Rightarrow> [] | Some blocks \<Rightarrow> blocks))))))"

definition requested_calls :: "session_event \<Rightarrow> string list" where
  "requested_calls ev = List.map_filter requested_call (assistant_content ev)"

definition answered_call :: "session_event \<Rightarrow> string option" where
  "answered_call ev =
     (if ev_type ev \<noteq> ''tool/result'' then None
      else
        (case as_object (ev_data ev) of
           None \<Rightarrow> None
         | Some obj \<Rightarrow> (case member obj ''content'' of None \<Rightarrow> None | Some c \<Rightarrow> first_call_id c)))"

definition open_calls :: "session_event list \<Rightarrow> string list" where
  "open_calls log =
     (let requested = fold (\<lambda>ev calls. fold os_insert (requested_calls ev) calls) log []
      in fold (\<lambda>ev calls. case answered_call ev of None \<Rightarrow> calls | Some c \<Rightarrow> os_erase c calls) log requested)"

definition closer :: "session_seq \<Rightarrow> 64 word \<Rightarrow> string \<Rightarrow> session_event" where
  "closer sq time call =
     \<lparr>ev_seq = sq, ev_time = time, ev_type = ''tool/result'',
      ev_data = JObject
        [(''id'', JString (''repair-'' @ call)),
         (''role'', JString ''user''),
         (''content'', JArray [JObject
           [(''tool_call_id'', JString call), (''type'', JString ''tool_result''), (''outcome'', JString ''unknown'')]]),
         (''source'', JObject [(''kind'', JString ''tool''), (''call_id'', JString call)])],
      ev_ignorable = False\<rparr>"

definition repair_interrupted_turns :: "64 word \<Rightarrow> session_event list \<Rightarrow> session_event list" where
  "repair_interrupted_turns now log =
     (if open_calls log = [] then log
      else
        let last_time = (if log = [] then now else ev_time (last log))
        in fold (\<lambda>call log. log @ [closer (of_nat (length log)) last_time call]) (open_calls log) log)"

section \<open>What repair achieves\<close>

definition numbered :: "session_event list \<Rightarrow> bool" where
  "numbered log \<longleftrightarrow> (\<forall>i < length log. ev_seq (log ! i) = of_nat i)"

lemma numbered_Nil [simp]: "numbered []"
  by (simp add: numbered_def)

lemma numbered_snoc [simp]: "numbered (log @ [ev]) \<longleftrightarrow> numbered log \<and> ev_seq ev = of_nat (length log)"
  by (auto simp: numbered_def nth_append less_Suc_eq)

lemma numbered_take: "numbered log \<Longrightarrow> numbered (take n log)"
  by (simp add: numbered_def)

lemma set_fold_requested:
  "set (fold (\<lambda>ev calls. fold os_insert (requested_calls ev) calls) log calls) =
     set calls \<union> (\<Union>ev \<in> set log. set (requested_calls ev))"
  by (induction log arbitrary: calls) (auto simp: fold_os_insert)

lemma set_fold_answered:
  "set (fold (\<lambda>ev calls. case answered_call ev of None \<Rightarrow> calls | Some c \<Rightarrow> os_erase c calls) log calls) =
     set calls - {c. \<exists>ev \<in> set log. answered_call ev = Some c}"
  by (induction log arbitrary: calls) (auto split: option.splits)

lemma set_open_calls:
  "set (open_calls log) =
     (\<Union>ev \<in> set log. set (requested_calls ev)) - {c. \<exists>ev \<in> set log. answered_call ev = Some c}"
  by (simp add: open_calls_def set_fold_requested set_fold_answered)

lemma closer_fields [simp]:
  "ev_seq (closer q t c) = q" "ev_time (closer q t c) = t" "ev_type (closer q t c) = ''tool/result''"
  by (simp_all add: closer_def)

lemma closer_calls [simp]: "requested_calls (closer q t c) = []" "answered_call (closer q t c) = Some c"
  by (simp_all add: requested_calls_def assistant_content_def List.map_filter_def answered_call_def first_call_id_def
      string_field_def closer_def)

lemma fold_closers:
  "\<exists>tail. fold (\<lambda>call log. log @ [closer (of_nat (length log)) t call]) calls log = log @ tail \<and>
     map answered_call tail = map Some calls \<and> (\<forall>ev \<in> set tail. requested_calls ev = []) \<and>
     (numbered log \<longrightarrow> numbered (log @ tail))"
proof (induction calls arbitrary: log)
  case (Cons call calls)
  let ?c = "closer (of_nat (length log)) t call"
  from Cons [of "log @ [?c]"] obtain tail where
    t: "fold (\<lambda>call log. log @ [closer (of_nat (length log)) t call]) calls (log @ [?c]) = (log @ [?c]) @ tail"
      "map answered_call tail = map Some calls" "\<forall>ev \<in> set tail. requested_calls ev = []"
      "numbered (log @ [?c]) \<longrightarrow> numbered ((log @ [?c]) @ tail)" by blast
  show ?case by (rule exI [of _ "?c # tail"]) (use t in \<open>simp del: numbered_snoc add: numbered_snoc [of log]\<close>)
qed simp

lemma repair_appends:
  "\<exists>tail. repair_interrupted_turns now log = log @ tail \<and> map answered_call tail = map Some (open_calls log) \<and>
     (\<forall>ev \<in> set tail. requested_calls ev = []) \<and> (numbered log \<longrightarrow> numbered (log @ tail))"
  using fold_closers [of "if log = [] then now else ev_time (last log)" "open_calls log" log]
  by (auto simp: repair_interrupted_turns_def Let_def)

lemma repair_numbered: "numbered log \<Longrightarrow> numbered (repair_interrupted_turns now log)"
  using repair_appends [of now log] by auto

lemma repair_closes_all: "open_calls (repair_interrupted_turns now log) = []"
proof -
  obtain tail where t: "repair_interrupted_turns now log = log @ tail"
    "map answered_call tail = map Some (open_calls log)" "\<forall>ev \<in> set tail. requested_calls ev = []"
    using repair_appends [of now log] by blast
  have "\<exists>ev \<in> set tail. answered_call ev = Some c" if "c \<in> set (open_calls log)" for c
  proof -
    from that have "Some c \<in> set (map answered_call tail)" by (simp add: t(2))
    then show ?thesis by force
  qed
  then have "set (open_calls (repair_interrupted_turns now log)) = {}"
    using t(3) unfolding set_open_calls t(1) by fastforce
  then show ?thesis by simp
qed

lemma repair_idempotent: "repair_interrupted_turns now' (repair_interrupted_turns now log) = repair_interrupted_turns now log"
  by (subst repair_interrupted_turns_def) (simp add: repair_closes_all)

end
