(* ===== verification/Sessions.thy ===== *)
theory Sessions
  imports Repair
begin

text \<open>
  Sessions and their store (\<open>plugins/session\<close>: \<open>store.hpp\<close>, \<open>src/store.cpp\<close>, \<open>projection.hpp\<close>). A session is
  an object shared by its holders; the store maps the ids of entered sessions to objects and owns the
  projections. The store is one record: \<open>ss_objects\<close> is the heap of session objects, an object is named by
  its index, \<open>ss_sessions\<close> is the map \<open>store_\<close>, and \<open>ss_bus\<close> and \<open>ss_alive\<close> tell whether the bus and the store
  itself still exist. Dispatches on the bus are fire-and-forget; \<open>ss_published\<close> lists them in order. The
  clock and the random device are arguments. All projections share the state type \<open>'st\<close>.
\<close>

section \<open>State\<close>

record session =
  se_header :: session_header
  se_inherited :: "64 word"
  se_first_live :: session_seq
  se_next_seq :: session_seq
  se_log :: "session_event list"
  se_surface :: session_surface

record 'st projection_cell =
  pc_types :: "string list"
  pc_init :: "session_header \<Rightarrow> 'st"
  pc_apply :: "'st \<Rightarrow> session_event \<Rightarrow> 'st"
  pc_states :: "(session_id, 'st) omap"

datatype session_notice =
    SessionCreated nat
  | SessionDisposed session_id
  | SessionAppended session_id session_event
  | SessionFlush session_id

text \<open>The cleanups the store hands to the calling fiber's effects.\<close>

datatype store_cleanup = DisposeSession session_id | DropMessageProjection string | DropProjection nat

record 'st session_store =
  ss_alive :: bool
  ss_bus :: bool
  ss_objects :: "session list"
  ss_sessions :: "(session_id, nat) omap"
  ss_projections :: "message_projection list"
  ss_cells :: "(nat, 'st projection_cell) omap"
  ss_counter :: nat
  ss_published :: "session_notice list"

datatype session_error =
    EmptyId
  | AlreadyExists session_id
  | SeedDiscontinuity nat
  | NotEntered
  | UnknownParent session_id
  | CutBeyondLog nat nat
  | ProjectionExists string
  | BadEvent string string

record create_options =
  co_seed :: "session_event list"
  co_inherited :: "64 word"
  co_cwd :: "string option"
  co_parent_session :: "session_id option"
  co_created_at :: "64 word option"
  co_is_seeded :: bool
  co_origin :: session_origin
  co_delegation_depth :: "32 word option"
  co_agent_preset :: "string option"

definition new_store :: "bool \<Rightarrow> 'st session_store" where
  "new_store bus = \<lparr>ss_alive = True, ss_bus = bus, ss_objects = [], ss_sessions = [], ss_projections = [],
     ss_cells = [], ss_counter = 0, ss_published = []\<rparr>"

definition notice :: "session_notice \<Rightarrow> 'st session_store \<Rightarrow> 'st session_store" where
  "notice n st = (if ss_bus st then st\<lparr>ss_published := ss_published st @ [n]\<rparr> else st)"

definition set_session :: "nat \<Rightarrow> (session \<Rightarrow> session) \<Rightarrow> 'st session_store \<Rightarrow> 'st session_store" where
  "set_session r f st = st\<lparr>ss_objects := (ss_objects st)[r := f (ss_objects st ! r)]\<rparr>"

section \<open>Validation\<close>

text \<open>
  \<open>validate_event\<close>: the first check that fails, by the event type and the name of the offending part;
  \<open>None\<close> for an admissible event. Unknown vocabulary is admissible.
\<close>

definition nonempty_string :: "json option \<Rightarrow> bool" where
  "nonempty_string v = (case v of Some (JString s) \<Rightarrow> s \<noteq> [] | _ \<Rightarrow> False)"

definition require_id :: "json_object \<Rightarrow> string \<Rightarrow> session_error option" where
  "require_id m ty = (if nonempty_string (member m ''id'') then None else Some (BadEvent ty ''id''))"

definition require_content :: "json_object \<Rightarrow> string \<Rightarrow> session_error option" where
  "require_content m ty =
     (case member m ''content'' of Some (JArray _) \<Rightarrow> None | _ \<Rightarrow> Some (BadEvent ty ''content''))"

definition first_error :: "session_error option list \<Rightarrow> session_error option" where
  "first_error es = (case List.find (\<lambda>e. e \<noteq> None) es of None \<Rightarrow> None | Some e \<Rightarrow> e)"

definition message_object :: "session_event \<Rightarrow> session_error + json_object" where
  "message_object ev =
     (case as_object (ev_data ev) of
        None \<Rightarrow> Inl (BadEvent (ev_type ev) ''object'')
      | Some obj \<Rightarrow>
          if ev_type ev = ''user/message'' \<or> ev_type ev = ''tool/result'' then Inr obj
          else (case member obj ''message'' of
                  Some (JObject m) \<Rightarrow> Inr m
                | _ \<Rightarrow> Inl (BadEvent (ev_type ev) ''message'')))"

definition replacement_role :: "json_object \<Rightarrow> string \<Rightarrow> session_error option" where
  "replacement_role m ty =
     (case member m ''role'' of
        Some (JString r) \<Rightarrow>
          (if r \<noteq> ''user'' \<and> r \<noteq> ''assistant'' \<and> r \<noteq> ''system'' \<and> r \<noteq> ''tool_result''
           then Some (BadEvent ty ''role value'') else None)
      | _ \<Rightarrow> Some (BadEvent ty ''role''))"

definition validate_replace :: "session_event \<Rightarrow> session_error option" where
  "validate_replace ev =
     (let ty = ev_type ev
      in (case as_object (ev_data ev) of
            None \<Rightarrow> Some (BadEvent ty ''object'')
          | Some obj \<Rightarrow>
              (case (member obj ''start_seq'', member obj ''end_seq'') of
                 (Some (JInt start), Some (JInt fin)) \<Rightarrow>
                   if sint start < 0 \<or> sint fin \<le> sint start then Some (BadEvent ty ''span'')
                   else if sint fin > sint (ev_seq ev) then Some (BadEvent ty ''future'')
                   else
                     (case member obj ''message'' of
                        None \<Rightarrow> None
                      | Some (JObject m) \<Rightarrow>
                          first_error [require_id m ty, require_content m ty, replacement_role m ty]
                      | Some _ \<Rightarrow> Some (BadEvent ty ''message''))
               | (Some (JInt start), _) \<Rightarrow> Some (BadEvent ty ''end_seq'')
               | _ \<Rightarrow> Some (BadEvent ty ''start_seq''))))"

definition validate_system :: "json_object \<Rightarrow> string \<Rightarrow> session_error option" where
  "validate_system m ty =
     (case member m ''source'' of
        Some (JObject src) \<Rightarrow>
          (if member src ''kind'' \<noteq> Some (JString ''plugin'') then Some (BadEvent ty ''kind'')
           else if \<not> nonempty_string (member src ''plugin'') then Some (BadEvent ty ''plugin'') else None)
      | _ \<Rightarrow> Some (BadEvent ty ''source''))"

definition validate_tool_result :: "json_object \<Rightarrow> string \<Rightarrow> session_error option" where
  "validate_tool_result m ty =
     (case member m ''content'' of
        Some (JArray [JObject block]) \<Rightarrow>
          (case member block ''tool_call_id'' of
             Some (JString call) \<Rightarrow>
               if call = [] then Some (BadEvent ty ''tool_call_id'')
               else
                 (case member m ''source'' of
                    Some (JObject src) \<Rightarrow>
                      (if member src ''call_id'' = Some (JString call) then None else Some (BadEvent ty ''call_id''))
                  | _ \<Rightarrow> Some (BadEvent ty ''source''))
           | _ \<Rightarrow> Some (BadEvent ty ''tool_call_id''))
      | Some (JArray [_]) \<Rightarrow> Some (BadEvent ty ''block'')
      | _ \<Rightarrow> Some (BadEvent ty ''one block''))"

definition validate_user :: "json_object \<Rightarrow> string \<Rightarrow> session_error option" where
  "validate_user m ty =
     (case member m ''source'' of
        None \<Rightarrow> None
      | Some (JObject src) \<Rightarrow>
          (if nonempty_string (member src ''kind'') then None else Some (BadEvent ty ''kind''))
      | Some _ \<Rightarrow> Some (BadEvent ty ''source''))"

definition validate_event :: "session_event \<Rightarrow> session_error option" where
  "validate_event ev =
     (let ty = ev_type ev
      in if \<not> is_builtin_surface_type ty then None
         else if ty = ''surface/replace'' then validate_replace ev
         else
           (case message_object ev of
              Inl e \<Rightarrow> Some e
            | Inr m \<Rightarrow>
                first_error [require_id m ty, require_content m ty,
                  (if ty = ''system/message'' then validate_system m ty
                   else if ty = ''tool/result'' then validate_tool_result m ty
                   else if ty = ''user/message'' then validate_user m ty else None)]))"

section \<open>Projection cells\<close>

definition accepts :: "'st projection_cell \<Rightarrow> string \<Rightarrow> bool" where
  "accepts c ty \<longleftrightarrow> pc_types c = [] \<or> ty \<in> set (pc_types c)"

definition cell_fold :: "'st projection_cell \<Rightarrow> session_event list \<Rightarrow> 'st \<Rightarrow> 'st" where
  "cell_fold c log s = fold (\<lambda>ev s. if accepts c (ev_type ev) then pc_apply c s ev else s) log s"

definition cell_seed :: "session_header \<Rightarrow> session_event list \<Rightarrow> 'st projection_cell \<Rightarrow> 'st projection_cell" where
  "cell_seed h log c =
     (let states = om_emplace (sh_id h) (pc_init c h) (pc_states c)
      in c\<lparr>pc_states := om_modify (sh_id h) (cell_fold c log) states\<rparr>)"

definition cell_drive :: "session_id \<Rightarrow> session_event \<Rightarrow> 'st projection_cell \<Rightarrow> 'st projection_cell" where
  "cell_drive i ev c =
     (if \<not> accepts c (ev_type ev) then c
      else c\<lparr>pc_states := om_modify i (\<lambda>s. pc_apply c s ev) (pc_states c)\<rparr>)"

definition cell_drop :: "session_id \<Rightarrow> 'st projection_cell \<Rightarrow> 'st projection_cell" where
  "cell_drop i c = c\<lparr>pc_states := om_erase i (pc_states c)\<rparr>"

definition map_cells :: "('st projection_cell \<Rightarrow> 'st projection_cell) \<Rightarrow> 'st session_store \<Rightarrow> 'st session_store" where
  "map_cells f st = st\<lparr>ss_cells := map (\<lambda>(k, c). (k, f c)) (ss_cells st)\<rparr>"

definition projection_state_of :: "nat \<Rightarrow> session_id \<Rightarrow> 'st session_store \<Rightarrow> 'st option" where
  "projection_state_of p i st =
     (if \<not> ss_alive st then None
      else (case map_of (ss_cells st) p of None \<Rightarrow> None | Some c \<Rightarrow> map_of (pc_states c) i))"

section \<open>Appending\<close>

definition has_projection :: "string \<Rightarrow> 'st session_store \<Rightarrow> bool" where
  "has_projection ty st \<longleftrightarrow> (\<exists>p \<in> set (ss_projections st). mp_event_type p = ty)"

definition fold_into :: "nat \<Rightarrow> message_projection list \<Rightarrow> session_event \<Rightarrow> 'st session_store \<Rightarrow> 'st session_store" where
  "fold_into r ps ev = set_session r (\<lambda>s. s\<lparr>se_surface := surface_fold ps ev (se_surface s)\<rparr>)"

definition classify :: "'st session_store \<Rightarrow> session_event \<Rightarrow> session_event" where
  "classify st ev =
     ev\<lparr>ev_ignorable := \<not> is_builtin_surface_type (ev_type ev) \<and> \<not> has_projection (ev_type ev) st\<rparr>"

definition publish_event ::
  "nat \<Rightarrow> session_event \<Rightarrow> 'st session_store \<Rightarrow> session_error + (session_event \<times> 'st session_store)" where
  "publish_event r ev st =
     (case validate_event ev of
        Some e \<Rightarrow> Inl e
      | None \<Rightarrow>
          let i = sh_id (se_header (ss_objects st ! r));
              ev = classify st ev;
              st = fold_into r (ss_projections st) ev st;
              st = map_cells (cell_drive i ev) st;
              st = (if map_of (ss_sessions st) i \<noteq> None then notice (SessionAppended i ev) st else st)
          in Inr (ev, st))"

text \<open>
  \<open>session::append\<close>: the sequence number is taken before the event is validated, so a rejected event
  has used one; the error travels with the state it leaves.
\<close>

definition append_event ::
  "nat \<Rightarrow> string \<Rightarrow> json \<Rightarrow> 64 word \<Rightarrow> 'st session_store \<Rightarrow> (session_error + session_seq) \<times> 'st session_store" where
  "append_event r ty data now st0 =
     (let sq = se_next_seq (ss_objects st0 ! r);
          ev = \<lparr>ev_seq = sq, ev_time = now, ev_type = ty, ev_data = data, ev_ignorable = False\<rparr>;
          st = set_session r (\<lambda>s. s\<lparr>se_next_seq := sq + 1\<rparr>) st0
      in if ss_alive st
         then (case publish_event r ev st of
                 Inl e \<Rightarrow> (Inl e, st)
               | Inr (ev, st) \<Rightarrow> (Inr (ev_seq ev), set_session r (\<lambda>s. s\<lparr>se_log := se_log s @ [ev]\<rparr>) st))
         else
           let ev = ev\<lparr>ev_ignorable := \<not> is_builtin_surface_type ty\<rparr>;
               st = fold_into r [] ev st
           in (Inr (ev_seq ev), set_session r (\<lambda>s. s\<lparr>se_log := se_log s @ [ev]\<rparr>) st))"

section \<open>The store\<close>

definition mint_id :: "string \<Rightarrow> string \<Rightarrow> 64 word \<Rightarrow> 64 word \<Rightarrow> string" where
  "mint_id prefix separator stamp random =
     prefix @ hex16 stamp @ separator @ hex16 (random XOR push_bit 16 stamp)"

definition list_sessions :: "'st session_store \<Rightarrow> session_id list" where
  "list_sessions st = map fst (ss_sessions st)"

definition get_session :: "session_id \<Rightarrow> 'st session_store \<Rightarrow> nat option" where
  "get_session i st = map_of (ss_sessions st) i"

text \<open>The loop over the seed: its sequence numbers, its shapes, and the recomputed ignorable marks.\<close>

fun admit_seed :: "'st session_store \<Rightarrow> nat \<Rightarrow> session_event list \<Rightarrow> session_error + session_event list" where
  "admit_seed st n [] = Inr []"
| "admit_seed st n (ev # seed) =
     (if ev_seq ev \<noteq> of_nat n then Inl (SeedDiscontinuity n)
      else
        (case validate_event ev of
           Some e \<Rightarrow> Inl e
         | None \<Rightarrow>
             (case admit_seed st (Suc n) seed of
                Inl e \<Rightarrow> Inl e
              | Inr evs \<Rightarrow> Inr (classify st ev # evs))))"

definition end_seed_marker :: "64 word \<Rightarrow> create_options \<Rightarrow> session_event list \<Rightarrow> session_event" where
  "end_seed_marker now opts log =
     \<lparr>ev_seq = of_nat (length log), ev_time = (if log = [] then now else ev_time (last log)),
      ev_type = ''session/end-seed'', ev_data = JObject [(''inherited'', JUint (co_inherited opts))],
      ev_ignorable = False\<rparr>"

definition construction_log :: "64 word \<Rightarrow> create_options \<Rightarrow> session_event list \<Rightarrow> session_event list" where
  "construction_log now opts seed =
     (let log = repair_interrupted_turns now seed
      in if co_is_seeded opts \<and> co_inherited opts > 0 then log @ [end_seed_marker now opts log] else log)"

definition make_header :: "64 word \<Rightarrow> session_id \<Rightarrow> create_options \<Rightarrow> session_header" where
  "make_header now i opts =
     \<lparr>sh_version = 1, sh_id = i,
      sh_created_at = (case co_created_at opts of None \<Rightarrow> now | Some t \<Rightarrow> t),
      sh_cwd = co_cwd opts, sh_parent_session = co_parent_session opts, sh_is_seeded = co_is_seeded opts,
      sh_delegation_depth = (case co_delegation_depth opts of None \<Rightarrow> 0 | Some d \<Rightarrow> d),
      sh_origin = co_origin opts, sh_agent_preset = co_agent_preset opts\<rparr>"

text \<open>The constructor of \<open>session\<close> folds its log.\<close>

definition make_session ::
  "session_header \<Rightarrow> 64 word \<Rightarrow> session_seq \<Rightarrow> session_event list \<Rightarrow> message_projection list \<Rightarrow> session" where
  "make_session h inherited first_live log ps =
     \<lparr>se_header = h, se_inherited = inherited, se_first_live = first_live,
      se_next_seq = of_nat (length log), se_log = log, se_surface = surface_of_log ps log\<rparr>"

definition prepare ::
  "session_id \<Rightarrow> create_options \<Rightarrow> 64 word \<Rightarrow> 'st session_store \<Rightarrow> session_error + (nat \<times> 'st session_store)" where
  "prepare i opts now st =
     (if i = [] then Inl EmptyId
      else if map_of (ss_sessions st) i \<noteq> None then Inl (AlreadyExists i)
      else
        (case admit_seed st 0 (co_seed opts) of
           Inl e \<Rightarrow> Inl e
         | Inr seed \<Rightarrow>
             let s = make_session (make_header now i opts) (co_inherited opts) (of_nat (length seed))
                       (construction_log now opts seed) (ss_projections st)
             in Inr (length (ss_objects st), st\<lparr>ss_objects := ss_objects st @ [s]\<rparr>)))"

definition enter_session :: "nat \<Rightarrow> 'st session_store \<Rightarrow> session_error + 'st session_store" where
  "enter_session r st =
     (let i = sh_id (se_header (ss_objects st ! r))
      in if map_of (ss_sessions st) i \<noteq> None then Inl (AlreadyExists i)
         else Inr (st\<lparr>ss_sessions := om_insert i r (ss_sessions st)\<rparr>))"

definition announce :: "nat \<Rightarrow> 'st session_store \<Rightarrow> session_error + 'st session_store" where
  "announce r st =
     (let s = ss_objects st ! r
      in (case map_of (ss_sessions st) (sh_id (se_header s)) of
            None \<Rightarrow> Inl NotEntered
          | Some e \<Rightarrow> Inr (notice (SessionCreated e) (map_cells (cell_seed (se_header s) (se_log s)) st))))"

definition create_session ::
  "session_id \<Rightarrow> create_options \<Rightarrow> 64 word \<Rightarrow> 'st session_store
     \<Rightarrow> session_error + (nat \<times> store_cleanup \<times> 'st session_store)" where
  "create_session i opts now st =
     (case prepare i opts now st of
        Inl e \<Rightarrow> Inl e
      | Inr (r, st) \<Rightarrow>
          (case enter_session r st of
             Inl e \<Rightarrow> Inl e
           | Inr st \<Rightarrow>
               (case announce r st of
                  Inl e \<Rightarrow> Inl e
                | Inr st \<Rightarrow> Inr (r, DisposeSession i, st))))"

definition dispose_session :: "session_id \<Rightarrow> 'st session_store \<Rightarrow> bool \<times> 'st session_store" where
  "dispose_session i st =
     (case map_of (ss_sessions st) i of
        None \<Rightarrow> (False, st)
      | Some r \<Rightarrow>
          (True, notice (SessionDisposed i)
                   (map_cells (cell_drop i) (st\<lparr>ss_sessions := om_erase i (ss_sessions st)\<rparr>))))"

definition fork_options :: "session_id \<Rightarrow> session \<Rightarrow> nat \<Rightarrow> create_options" where
  "fork_options parent source at =
     \<lparr>co_seed = take at (se_log source), co_inherited = of_nat at, co_cwd = sh_cwd (se_header source),
      co_parent_session = Some parent, co_created_at = None, co_is_seeded = at > 0,
      co_origin = sh_origin (se_header source),
      co_delegation_depth = Some (sh_delegation_depth (se_header source)),
      co_agent_preset = sh_agent_preset (se_header source)\<rparr>"

definition fork_session ::
  "session_id \<Rightarrow> session_id \<Rightarrow> nat option \<Rightarrow> 64 word \<Rightarrow> 64 word \<Rightarrow> 'st session_store
     \<Rightarrow> session_error + (nat \<times> store_cleanup \<times> 'st session_store)" where
  "fork_session parent child fork_cut now random st =
     (case map_of (ss_sessions st) parent of
        None \<Rightarrow> Inl (UnknownParent parent)
      | Some r \<Rightarrow>
          let source = ss_objects st ! r;
              at = (case fork_cut of None \<Rightarrow> length (se_log source) | Some c \<Rightarrow> c)
          in if at > length (se_log source) then Inl (CutBeyondLog at (length (se_log source)))
             else
               create_session (if child = [] then mint_id ''ses_'' ''_'' now random else child)
                 (fork_options parent source at) now st)"

definition flush_session :: "session_id \<Rightarrow> 'st session_store \<Rightarrow> 'st session_store" where
  "flush_session i st = (if map_of (ss_sessions st) i = None then st else notice (SessionFlush i) st)"

definition register_message_projection ::
  "message_projection \<Rightarrow> 'st session_store \<Rightarrow> session_error + (store_cleanup \<times> 'st session_store)" where
  "register_message_projection p st =
     (if has_projection (mp_event_type p) st then Inl (ProjectionExists (mp_event_type p))
      else Inr (DropMessageProjection (mp_event_type p), st\<lparr>ss_projections := ss_projections st @ [p]\<rparr>))"

definition register_projection ::
  "'st projection_cell \<Rightarrow> 'st session_store \<Rightarrow> nat \<times> store_cleanup \<times> 'st session_store" where
  "register_projection c st =
     (let p = ss_counter st
      in (p, DropProjection p, st\<lparr>ss_counter := Suc p, ss_cells := om_emplace p (c\<lparr>pc_states := []\<rparr>) (ss_cells st)\<rparr>))"

fun run_store_cleanup :: "store_cleanup \<Rightarrow> 'st session_store \<Rightarrow> 'st session_store" where
  "run_store_cleanup (DisposeSession i) st = (if ss_alive st then snd (dispose_session i st) else st)"
| "run_store_cleanup (DropMessageProjection ty) st =
     (if ss_alive st
      then st\<lparr>ss_projections := filter (\<lambda>p. mp_event_type p \<noteq> ty) (ss_projections st)\<rparr> else st)"
| "run_store_cleanup (DropProjection p) st =
     (if ss_alive st then st\<lparr>ss_cells := om_erase p (ss_cells st)\<rparr> else st)"

text \<open>The destructor: on the control strand every entered session is announced as disposed.\<close>

definition destroy_store :: "bool \<Rightarrow> 'st session_store \<Rightarrow> 'st session_store" where
  "destroy_store on_strand st =
     (let st' = st\<lparr>ss_sessions := [], ss_alive := False\<rparr>
      in if ss_bus st \<and> on_strand
         then st'\<lparr>ss_published := ss_published st @ map (SessionDisposed \<circ> fst) (ss_sessions st)\<rparr>
         else st')"

end
