(* ===== verification/SessionLaws.thy ===== *)
theory SessionLaws
  imports Sessions
begin

text \<open>
  What the session store guarantees: the log of a prepared or appended session is numbered by its
  positions and its surface is the fold of its log; a projection cell holds the fold of the log of the
  session it belongs to, in every state the store's own operations reach.
\<close>

section \<open>Objects and cells under the operations\<close>

lemma set_session_fields [simp]:
  "ss_alive (set_session r f st) = ss_alive st" "ss_bus (set_session r f st) = ss_bus st"
  "ss_sessions (set_session r f st) = ss_sessions st" "ss_projections (set_session r f st) = ss_projections st"
  "ss_cells (set_session r f st) = ss_cells st" "ss_counter (set_session r f st) = ss_counter st"
  "length (ss_objects (set_session r f st)) = length (ss_objects st)"
  by (simp_all add: set_session_def)

lemma set_session_nth [simp]:
  "r < length (ss_objects st) \<Longrightarrow>
     ss_objects (set_session r f st) ! q = (if q = r then f (ss_objects st ! r) else ss_objects st ! q)"
  by (simp add: set_session_def nth_list_update)

lemma notice_fields [simp]:
  "ss_alive (notice n st) = ss_alive st" "ss_bus (notice n st) = ss_bus st"
  "ss_sessions (notice n st) = ss_sessions st" "ss_projections (notice n st) = ss_projections st"
  "ss_cells (notice n st) = ss_cells st" "ss_counter (notice n st) = ss_counter st"
  "ss_objects (notice n st) = ss_objects st"
  by (simp_all add: notice_def)

lemma map_cells_fields [simp]:
  "ss_alive (map_cells f st) = ss_alive st" "ss_bus (map_cells f st) = ss_bus st"
  "ss_sessions (map_cells f st) = ss_sessions st" "ss_projections (map_cells f st) = ss_projections st"
  "ss_counter (map_cells f st) = ss_counter st" "ss_objects (map_cells f st) = ss_objects st"
  by (simp_all add: map_cells_def)

lemma map_cells_lookup [simp]: "map_of (ss_cells (map_cells f st)) p = map_option f (map_of (ss_cells st) p)"
  by (simp add: map_cells_def map_of_map)

lemma fold_into_fields [simp]:
  "ss_alive (fold_into r ps ev st) = ss_alive st" "ss_bus (fold_into r ps ev st) = ss_bus st"
  "ss_sessions (fold_into r ps ev st) = ss_sessions st" "ss_projections (fold_into r ps ev st) = ss_projections st"
  "ss_cells (fold_into r ps ev st) = ss_cells st" "ss_counter (fold_into r ps ev st) = ss_counter st"
  "length (ss_objects (fold_into r ps ev st)) = length (ss_objects st)"
  by (simp_all add: fold_into_def)

lemma classify_fields [simp]:
  "ev_seq (classify st ev) = ev_seq ev" "ev_type (classify st ev) = ev_type ev" "ev_data (classify st ev) = ev_data ev"
  "ev_time (classify st ev) = ev_time ev" "classify st (classify st' ev) = classify st ev"
  by (simp_all add: classify_def)

lemma has_projection_cong: "ss_projections st = ss_projections st' \<Longrightarrow> has_projection ty st = has_projection ty st'"
  by (simp add: has_projection_def)

lemma classify_cong: "ss_projections st = ss_projections st' \<Longrightarrow> classify st ev = classify st' ev"
  by (simp add: classify_def has_projection_def)

lemma validate_cong:
  "ev_seq a = ev_seq b \<Longrightarrow> ev_type a = ev_type b \<Longrightarrow> ev_data a = ev_data b \<Longrightarrow> validate_event a = validate_event b"
proof -
  assume e: "ev_seq a = ev_seq b" "ev_type a = ev_type b" "ev_data a = ev_data b"
  have m: "message_object a = message_object b" unfolding message_object_def e ..
  have r: "validate_replace a = validate_replace b" unfolding validate_replace_def e ..
  show ?thesis unfolding validate_event_def e m r ..
qed

lemma validate_classify [simp]: "validate_event (classify st ev) = validate_event ev"
  by (rule validate_cong) simp_all

section \<open>Admission\<close>

definition numbered_from :: "nat \<Rightarrow> session_event list \<Rightarrow> bool" where
  "numbered_from n log \<longleftrightarrow> (\<forall>k < length log. ev_seq (log ! k) = of_nat (n + k))"

lemma numbered_from_0: "numbered_from 0 log = numbered log"
  by (simp add: numbered_from_def numbered_def)

lemma numbered_from_Cons: "numbered_from n (ev # log) \<longleftrightarrow> ev_seq ev = of_nat n \<and> numbered_from (Suc n) log"
  by (simp add: numbered_from_def All_less_Suc2 add_ac)

lemma admit_seed_Inr:
  "admit_seed st n seed = Inr evs \<longleftrightarrow>
     evs = map (classify st) seed \<and> numbered_from n seed \<and> (\<forall>ev \<in> set seed. validate_event ev = None)"
proof (induction seed arbitrary: n evs)
  case Nil
  then show ?case by (auto simp: numbered_from_def)
next
  case (Cons ev seed)
  show ?case
  proof (cases "admit_seed st (Suc n) seed")
    case (Inl e)
    with Cons [of "Suc n"] have "\<not> (numbered_from (Suc n) seed \<and> (\<forall>ev \<in> set seed. validate_event ev = None))" by auto
    with Inl show ?thesis by (auto simp: numbered_from_Cons split: option.splits)
  next
    case (Inr evs')
    with Cons [of "Suc n" evs'] have "evs' = map (classify st) seed" "numbered_from (Suc n) seed"
      "\<forall>ev \<in> set seed. validate_event ev = None" by auto
    with Inr show ?thesis by (auto simp: numbered_from_Cons split: option.splits)
  qed
qed

lemma admit_numbered:
  "admit_seed st 0 seed = Inr evs \<longleftrightarrow>
     evs = map (classify st) seed \<and> numbered seed \<and> (\<forall>ev \<in> set seed. validate_event ev = None)"
  by (simp add: admit_seed_Inr numbered_from_0)

lemma numbered_classify [simp]: "numbered (map (classify st) seed) = numbered seed"
  by (simp add: numbered_def)

lemma open_calls_classify [simp]: "open_calls (map (classify st) log) = open_calls log"
proof -
  have "requested_calls (classify st ev) = requested_calls ev" "answered_call (classify st ev) = answered_call ev" for ev
    by (simp_all add: requested_calls_def assistant_content_def answered_call_def)
  then show ?thesis by (simp add: open_calls_def fold_map comp_def)
qed

text \<open>The marker is no message of any kind.\<close>

lemma marker_fields [simp]:
  "ev_type (end_seed_marker now opts log) = ''session/end-seed''"
  "ev_seq (end_seed_marker now opts log) = of_nat (length log)"
  "requested_calls (end_seed_marker now opts log) = []" "answered_call (end_seed_marker now opts log) = None"
  by (simp_all add: end_seed_marker_def requested_calls_def assistant_content_def answered_call_def List.map_filter_def)

lemma open_calls_snoc:
  "requested_calls ev = [] \<Longrightarrow> answered_call ev = None \<Longrightarrow> open_calls (log @ [ev]) = open_calls log"
  by (simp add: open_calls_def)

lemma construction_numbered: "numbered seed \<Longrightarrow> numbered (construction_log now opts seed)"
  by (simp add: construction_log_def Let_def repair_numbered)

lemma construction_closed: "open_calls (construction_log now opts seed) = []"
  by (simp add: construction_log_def Let_def repair_closes_all open_calls_snoc)

lemma construction_prefix: "\<exists>tail. construction_log now opts seed = seed @ tail"
  using repair_appends [of now seed] by (auto simp: construction_log_def Let_def)

section \<open>Sessions in order\<close>

definition in_order :: "session \<Rightarrow> bool" where
  "in_order s \<longleftrightarrow> numbered (se_log s) \<and> se_next_seq s = of_nat (length (se_log s))"

lemma prepare_object:
  assumes "prepare i opts now st = Inr (r, st')"
  shows "\<exists>seed. seed = map (classify st) (co_seed opts) \<and> numbered seed \<and>
     (\<forall>ev \<in> set (co_seed opts). validate_event ev = None) \<and> i \<noteq> [] \<and> map_of (ss_sessions st) i = None \<and>
     r = length (ss_objects st) \<and>
     st' = st\<lparr>ss_objects := ss_objects st @ [make_session (make_header now i opts) (co_inherited opts)
              (of_nat (length seed)) (construction_log now opts seed) (ss_projections st)]\<rparr>"
proof -
  from assms obtain seed where s: "admit_seed st 0 (co_seed opts) = Inr seed"
    by (auto simp: prepare_def split: if_splits sum.splits)
  then have "seed = map (classify st) (co_seed opts)" "numbered (co_seed opts)"
    "\<forall>ev \<in> set (co_seed opts). validate_event ev = None" by (simp_all add: admit_numbered)
  with s assms show ?thesis by (auto simp: prepare_def Let_def split: if_splits)
qed

lemma make_session_fields [simp]:
  "se_header (make_session h n q log ps) = h" "se_log (make_session h n q log ps) = log"
  "se_surface (make_session h n q log ps) = surface_of_log ps log"
  "se_next_seq (make_session h n q log ps) = of_nat (length log)" "se_inherited (make_session h n q log ps) = n"
  "se_first_live (make_session h n q log ps) = q"
  by (simp_all add: make_session_def)

lemma make_header_id [simp]: "sh_id (make_header now i opts) = i"
  by (simp add: make_header_def)

lemma prepared_in_order:
  assumes "prepare i opts now st = Inr (r, st')"
  shows "in_order (ss_objects st' ! r) \<and> open_calls (se_log (ss_objects st' ! r)) = []"
  using prepare_object [OF assms] construction_numbered construction_closed by (auto simp: in_order_def)

lemma append_alive:
  assumes "ss_alive st" and "r < length (ss_objects st)"
  shows "append_event r ty data now st =
    (let s = ss_objects st ! r;
         ev = \<lparr>ev_seq = se_next_seq s, ev_time = now, ev_type = ty, ev_data = data, ev_ignorable = False\<rparr>
     in (case validate_event ev of
           Some e \<Rightarrow> (Inl e, set_session r (\<lambda>x. x\<lparr>se_next_seq := se_next_seq s + 1\<rparr>) st)
         | None \<Rightarrow>
             let ev = classify st ev; i = sh_id (se_header s);
                 st' = map_cells (cell_drive i ev)
                         (set_session r (\<lambda>x. x\<lparr>se_next_seq := se_next_seq s + 1,
                             se_surface := surface_fold (ss_projections st) ev (se_surface x),
                             se_log := se_log x @ [ev]\<rparr>) st)
             in (Inr (ev_seq ev), if map_of (ss_sessions st) i \<noteq> None then notice (SessionAppended i ev) st' else st')))"
proof -
  have c: "classify (set_session r f st) ev = classify st ev" for f ev by (rule classify_cong) simp
  have s: "set_session r f (set_session r g st) = set_session r (f \<circ> g) st" for f g
    using assms(2) by (simp add: set_session_def)
  have m: "set_session r f (map_cells g st) = map_cells g (set_session r f st)" for f g and st :: "'a session_store"
    by (simp add: set_session_def map_cells_def)
  have n: "set_session r f (notice x st) = notice x (set_session r f st)" for f x and st :: "'a session_store"
    by (simp add: set_session_def notice_def)
  show ?thesis
    using assms by (simp add: append_event_def publish_event_def fold_into_def Let_def c s m n comp_def split: option.split)
qed


section \<open>Replaying a log\<close>

text \<open>
  A session is replayable when its log could seed another session and its surface is the fold of that
  log. An event is inert when neither the built-in fold nor a projection reads it.
\<close>

definition inert :: "'st session_store \<Rightarrow> session_event \<Rightarrow> bool" where
  "inert st ev \<longleftrightarrow> \<not> is_builtin_surface_type (ev_type ev) \<and> \<not> has_projection (ev_type ev) st"

definition replayable :: "'st session_store \<Rightarrow> session \<Rightarrow> bool" where
  "replayable st s \<longleftrightarrow> in_order s \<and>
     (\<forall>ev \<in> set (se_log s). validate_event ev = None \<and> (classify st ev = ev \<or> inert st ev)) \<and>
     se_surface s = surface_of_log (ss_projections st) (se_log s)"

lemma inert_classify [simp]: "inert st (classify st' ev) = inert st ev"
  by (simp add: inert_def)

lemma fold_inert: "inert st ev \<Longrightarrow> surface_fold (ss_projections st) ev s = s"
proof -
  assume i: "inert st ev"
  then have "List.find (\<lambda>p. mp_event_type p = ev_type ev) (ss_projections st) = None"
    by (auto simp: inert_def has_projection_def find_None_iff)
  with i have "fold_event ev (ss_projections st) = no_plan"
    by (auto simp: fold_event_def fold_builtin_def inert_def is_builtin_surface_type_def)
  then show ?thesis by (simp add: surface_fold_def no_plan_def)
qed

lemma fold_classify:
  assumes "classify st ev = ev \<or> inert st ev"
  shows "surface_fold (ss_projections st) (classify st ev) s = surface_fold (ss_projections st) ev s"
  using assms fold_inert [of st ev s] fold_inert [of st "classify st ev" s] by auto

lemma surface_classify:
  "\<forall>ev \<in> set log. classify st ev = ev \<or> inert st ev \<Longrightarrow>
     surface_of_log (ss_projections st) (map (classify st) log) = surface_of_log (ss_projections st) log"
proof -
  have "\<forall>ev \<in> set log. classify st ev = ev \<or> inert st ev \<Longrightarrow>
      fold (surface_fold (ss_projections st)) (map (classify st) log) s = fold (surface_fold (ss_projections st)) log s" for s
    by (induction log arbitrary: s) (auto simp: fold_classify)
  then show "\<forall>ev \<in> set log. classify st ev = ev \<or> inert st ev \<Longrightarrow> ?thesis" by (simp add: surface_of_log_def)
qed

lemma surface_snoc: "surface_of_log ps (log @ [ev]) = surface_fold ps ev (surface_of_log ps log)"
  by (simp add: surface_of_log_def)

lemma replayable_cong:
  "ss_projections st = ss_projections st' \<Longrightarrow> replayable st s = replayable st' s"
  using classify_cong [of st st'] has_projection_cong [of st st'] by (simp add: replayable_def inert_def)

lemma valid_closer: "call \<noteq> [] \<Longrightarrow> validate_event (closer q t call) = None"
  by (simp add: validate_event_def is_builtin_surface_type_def message_object_def first_error_def require_id_def
      nonempty_string_def require_content_def validate_tool_result_def closer_def)

lemma classify_closer: "classify st (closer q t call) = closer q t call"
  by (simp add: classify_def is_builtin_surface_type_def closer_def)

lemma fold_closers_valid:
  "\<forall>ev \<in> set (fold (\<lambda>call log. log @ [closer (of_nat (length log)) t call]) calls log).
     ev \<in> set log \<or> (\<exists>q call. call \<in> set calls \<and> ev = closer q t call)"
proof (induction calls arbitrary: log)
  case (Cons call calls)
  from Cons [of "log @ [closer (of_nat (length log)) t call]"] show ?case by auto
qed simp

lemma construction_events:
  "ev \<in> set (construction_log now opts seed) \<Longrightarrow>
     ev \<in> set seed \<or> (\<exists>q t call. call \<in> set (open_calls seed) \<and> ev = closer q t call) \<or>
     (\<exists>log. ev = end_seed_marker now opts log)"
proof -
  assume "ev \<in> set (construction_log now opts seed)"
  then consider "ev \<in> set (repair_interrupted_turns now seed)"
    | "ev = end_seed_marker now opts (repair_interrupted_turns now seed)"
    by (auto simp: construction_log_def Let_def split: if_splits)
  then show ?thesis
  proof cases
    case 1
    let ?t = "if seed = [] then now else ev_time (last seed)"
    show ?thesis
    proof (cases "open_calls seed = []")
      case True
      with 1 show ?thesis by (simp add: repair_interrupted_turns_def)
    next
      case False
      with 1 have "ev \<in> set (fold (\<lambda>call log. log @ [closer (of_nat (length log)) ?t call]) (open_calls seed) seed)"
        by (simp only: repair_interrupted_turns_def Let_def if_False)
      with fold_closers_valid [of ?t "open_calls seed" seed] show ?thesis by blast
    qed
  qed blast
qed

lemma valid_marker: "validate_event (end_seed_marker now opts log) = None"
  by (simp add: validate_event_def is_builtin_surface_type_def)

lemma marker_classified: "classify st (end_seed_marker now opts log) = end_seed_marker now opts log \<or> inert st (end_seed_marker now opts log)"
  by (auto simp: inert_def is_builtin_surface_type_def classify_def end_seed_marker_def)

lemma prepared_replayable:
  assumes "prepare i opts now st = Inr (r, st')" and "[] \<notin> set (open_calls (co_seed opts))"
  shows "replayable st (ss_objects st' ! r)"
proof -
  from prepare_object [OF assms(1)] obtain seed where seed: "seed = map (classify st) (co_seed opts)"
    "\<forall>ev \<in> set (co_seed opts). validate_event ev = None"
    and o: "ss_objects st' ! r = make_session (make_header now i opts) (co_inherited opts)
              (of_nat (length seed)) (construction_log now opts seed) (ss_projections st)" by auto
  have "validate_event ev = None \<and> (classify st ev = ev \<or> inert st ev)" if "ev \<in> set (construction_log now opts seed)" for ev
    using construction_events [OF that]
  proof (elim disjE exE conjE)
    assume "ev \<in> set seed"
    with seed show ?thesis by auto
  next
    fix q t call assume c: "call \<in> set (open_calls seed)" and e: "ev = closer q t call"
    from c seed(1) assms(2) have "call \<noteq> []" by auto
    from valid_closer [OF this] show ?thesis by (simp add: e classify_closer)
  next
    fix log assume e: "ev = end_seed_marker now opts log"
    show ?thesis unfolding e using marker_classified [of st now opts log] valid_marker by blast
  qed
  with prepared_in_order [OF assms(1)] show ?thesis by (auto simp: replayable_def o)
qed

text \<open>Appending a list of events, all of which must be accepted.\<close>

fun append_all :: "nat \<Rightarrow> (string \<times> json \<times> 64 word) list \<Rightarrow> 'st session_store \<Rightarrow> 'st session_store option" where
  "append_all r [] st = Some st"
| "append_all r ((ty, data, now) # es) st =
     (case append_event r ty data now st of
        (Inr _, st') \<Rightarrow> append_all r es st'
      | (Inl _, _) \<Rightarrow> None)"

lemma append_result:
  assumes "append_event r ty data now st = (Inr q, st')" and "ss_alive st" and "r < length (ss_objects st)"
  shows "ss_alive st' \<and> length (ss_objects st') = length (ss_objects st) \<and> ss_sessions st' = ss_sessions st \<and>
     ss_projections st' = ss_projections st \<and> q = se_next_seq (ss_objects st ! r) \<and>
     (\<exists>ev. ev_seq ev = q \<and> validate_event ev = None \<and> classify st ev = ev \<and>
        ss_objects st' ! r = (ss_objects st ! r)\<lparr>se_next_seq := q + 1,
           se_surface := surface_fold (ss_projections st) ev (se_surface (ss_objects st ! r)),
           se_log := se_log (ss_objects st ! r) @ [ev]\<rparr> \<and>
        (\<forall>k. k \<noteq> r \<longrightarrow> ss_objects st' ! k = ss_objects st ! k) \<and>
        ss_cells st' = map (\<lambda>(k, c). (k, cell_drive (sh_id (se_header (ss_objects st ! r))) ev c)) (ss_cells st))"
proof -
  let ?s = "ss_objects st ! r"
  let ?ev = "\<lparr>ev_seq = se_next_seq ?s, ev_time = now, ev_type = ty, ev_data = data, ev_ignorable = False\<rparr>"
  let ?c = "classify st ?ev"
  have v: "validate_event ?ev = None"
    using assms(1) by (auto simp: append_alive [OF assms(2,3)] Let_def split: option.splits)
  have st': "st' = (let st' = map_cells (cell_drive (sh_id (se_header ?s)) ?c)
                 (set_session r (\<lambda>x. x\<lparr>se_next_seq := se_next_seq ?s + 1,
                     se_surface := surface_fold (ss_projections st) ?c (se_surface x), se_log := se_log x @ [?c]\<rparr>) st)
             in if map_of (ss_sessions st) (sh_id (se_header ?s)) \<noteq> None
                then notice (SessionAppended (sh_id (se_header ?s)) ?c) st' else st')"
    and q: "q = se_next_seq ?s"
    using assms(1) by (auto simp: append_alive [OF assms(2,3)] v Let_def)
  have "ss_objects st' = ss_objects (set_session r (\<lambda>x. x\<lparr>se_next_seq := se_next_seq ?s + 1,
                     se_surface := surface_fold (ss_projections st) ?c (se_surface x), se_log := se_log x @ [?c]\<rparr>) st)"
    "ss_cells st' = map (\<lambda>(k, c). (k, cell_drive (sh_id (se_header ?s)) ?c c)) (ss_cells st)"
    "ss_alive st' = ss_alive st" "ss_sessions st' = ss_sessions st" "ss_projections st' = ss_projections st"
    by (simp_all add: st' Let_def map_cells_def)
  with v q assms(2,3) show ?thesis
    by (simp del: validate_classify) (rule exI [of _ ?c], simp)
qed

lemma append_replayable:
  assumes "append_event r ty data now st = (Inr q, st')" and "ss_alive st" and "r < length (ss_objects st)"
    and "replayable st (ss_objects st ! r)"
  shows "replayable st' (ss_objects st' ! r)"
proof -
  from append_result [OF assms(1-3)] obtain ev where p: "ss_projections st' = ss_projections st"
    and e: "ev_seq ev = q" "validate_event ev = None" "classify st ev = ev" "q = se_next_seq (ss_objects st ! r)"
    and o: "ss_objects st' ! r = (ss_objects st ! r)\<lparr>se_next_seq := q + 1,
           se_surface := surface_fold (ss_projections st) ev (se_surface (ss_objects st ! r)),
           se_log := se_log (ss_objects st ! r) @ [ev]\<rparr>" by blast
  have "replayable st (ss_objects st' ! r)"
    using assms(4) e by (auto simp: replayable_def in_order_def o surface_snoc)
  then show ?thesis using replayable_cong [OF p] by blast
qed

lemma append_all_replayable:
  assumes "append_all r es st = Some st'" and "ss_alive st" and "r < length (ss_objects st)"
    and "replayable st (ss_objects st ! r)"
  shows "replayable st' (ss_objects st' ! r) \<and> ss_alive st' \<and> r < length (ss_objects st') \<and>
     ss_sessions st' = ss_sessions st"
  using assms
proof (induction r es st rule: append_all.induct)
  case (2 r ty data now es st)
  from 2(2) obtain q st1 where a: "append_event r ty data now st = (Inr q, st1)" "append_all r es st1 = Some st'"
    by (auto split: prod.splits sum.splits)
  from append_result [OF a(1) 2(3,4)]
  have "ss_alive st1" "length (ss_objects st1) = length (ss_objects st)" "ss_sessions st1 = ss_sessions st" by blast+
  with 2(1) [OF a(1) [symmetric] refl a(2)] append_replayable [OF a(1) 2(3-5)] 2(4) show ?case by simp
qed simp

lemma replay_prepares:
  assumes "replayable st s" and "open_calls (se_log s) = []" and "j \<noteq> []" and "map_of (ss_sessions st) j = None"
    and "co_seed opts = se_log s" and "\<not> (co_is_seeded opts \<and> co_inherited opts > 0)"
  shows "\<exists>st'. prepare j opts now st = Inr (length (ss_objects st), st') \<and>
     se_log (ss_objects st' ! length (ss_objects st)) = map (classify st) (se_log s) \<and>
     se_surface (ss_objects st' ! length (ss_objects st)) = se_surface s \<and>
     se_next_seq (ss_objects st' ! length (ss_objects st)) = se_next_seq s"
proof -
  from assms(1,5) have "admit_seed st 0 (co_seed opts) = Inr (map (classify st) (se_log s))"
    by (simp add: admit_numbered replayable_def in_order_def)
  moreover have "construction_log now opts (map (classify st) (se_log s)) = map (classify st) (se_log s)"
    using assms(2,6) by (auto simp: construction_log_def repair_interrupted_turns_def Let_def)
  ultimately show ?thesis
    using assms surface_classify [of "se_log s" st] by (simp add: prepare_def replayable_def in_order_def)
qed


section \<open>Rejected events\<close>

lemma append_rejected:
  assumes "append_event r ty data now st = (Inl e, st')" and "ss_alive st" and "r < length (ss_objects st)"
  shows "st' = set_session r (\<lambda>x. x\<lparr>se_next_seq := se_next_seq (ss_objects st ! r) + 1\<rparr>) st"
  using assms(1) by (auto simp: append_alive [OF assms(2,3)] Let_def split: option.splits)

lemma rejection_breaks_order:
  assumes "ss_alive st" and "r < length (ss_objects st)" and "in_order (ss_objects st ! r)"
    and "append_event r ty data now st = (Inl e, st1)" and "append_event r ty' data' now' st1 = (Inr q, st2)"
  shows "\<not> numbered (se_log (ss_objects st2 ! r)) \<and> ss_alive st2 \<and> r < length (ss_objects st2) \<and>
    ss_sessions st2 = ss_sessions st \<and> se_header (ss_objects st2 ! r) = se_header (ss_objects st ! r)"
proof -
  let ?s = "ss_objects st ! r"
  from append_rejected [OF assms(4,1,2)] assms(1,2) have s1: "ss_alive st1" "r < length (ss_objects st1)"
    "ss_objects st1 ! r = ?s\<lparr>se_next_seq := se_next_seq ?s + 1\<rparr>" "ss_sessions st1 = ss_sessions st" by simp_all
  from append_result [OF assms(5) s1(1,2)] obtain ev where
    o: "ev_seq ev = q" "q = se_next_seq ?s + 1" "se_log (ss_objects st2 ! r) = se_log ?s @ [ev]"
      "se_header (ss_objects st2 ! r) = se_header ?s"
      "ss_alive st2" "length (ss_objects st2) = length (ss_objects st1)" "ss_sessions st2 = ss_sessions st1"
    by (auto simp: s1)
  have "q \<noteq> of_nat (length (se_log ?s))" using assms(3) by (simp add: o(2) in_order_def)
  with o s1 show ?thesis by simp
qed

lemma unnumbered_seed:
  "\<not> numbered (co_seed opts) \<Longrightarrow> \<exists>e. prepare i opts now st = Inl e"
  using admit_numbered [of st "co_seed opts"] by (cases "admit_seed st 0 (co_seed opts)") (auto simp: prepare_def)

section \<open>Projections follow the log\<close>

text \<open>
  One operation of the store or of a holder of a session object, entered or not. An object is an impostor while the
  session entered under its id is another one. The label names the session whose projections an operation
  confuses: an impostor's append or announcement, and the announcement of a session that has states already.
\<close>

definition object_id :: "nat \<Rightarrow> 'st session_store \<Rightarrow> session_id" where
  "object_id r st = sh_id (se_header (ss_objects st ! r))"

definition impostor :: "nat \<Rightarrow> 'st session_store \<Rightarrow> bool" where
  "impostor r st \<longleftrightarrow> (case map_of (ss_sessions st) (object_id r st) of None \<Rightarrow> False | Some q \<Rightarrow> q \<noteq> r)"

definition unannounced :: "session_id \<Rightarrow> 'st session_store \<Rightarrow> bool" where
  "unannounced i st \<longleftrightarrow> (\<forall>(p, c) \<in> set (ss_cells st). map_of (pc_states c) i = None)"

inductive store_step :: "session_id option \<Rightarrow> 'st session_store \<Rightarrow> 'st session_store \<Rightarrow> bool" where
  step_prepare: "prepare i opts now st = Inr (r, st') \<Longrightarrow> store_step None st st'"
| step_enter: "r < length (ss_objects st) \<Longrightarrow> enter_session r st = Inr st' \<Longrightarrow> store_step None st st'"
| step_announce: "r < length (ss_objects st) \<Longrightarrow> announce r st = Inr st' \<Longrightarrow>
    store_step (if impostor r st \<or> \<not> unannounced (object_id r st) st then Some (object_id r st) else None) st st'"
| step_append: "r < length (ss_objects st) \<Longrightarrow> append_event r ty data now st = (out, st') \<Longrightarrow>
    store_step (if impostor r st then Some (object_id r st) else None) st st'"
| step_dispose: "store_step None st (snd (dispose_session i st))"
| step_flush: "store_step None st (flush_session i st)"
| step_message: "register_message_projection mp st = Inr (cl, st') \<Longrightarrow> store_step None st st'"
| step_projection: "register_projection c st = (p, cl, st') \<Longrightarrow> store_step None st st'"
| step_cleanup: "store_step None st (run_store_cleanup cl st)"
| step_destroy: "store_step None st (destroy_store on_strand st)"

inductive store_run :: "session_id option list \<Rightarrow> 'st session_store \<Rightarrow> 'st session_store \<Rightarrow> bool" where
  store_begins: "store_run [] st st"
| store_goes_on: "store_run ms st st1 \<Longrightarrow> store_step m st1 st2 \<Longrightarrow> store_run (ms @ [m]) st st2"

definition sessions_ok :: "'st session_store \<Rightarrow> bool" where
  "sessions_ok st \<longleftrightarrow> ss_alive st \<and>
     (\<forall>i r. map_of (ss_sessions st) i = Some r \<longrightarrow> r < length (ss_objects st) \<and> object_id r st = i)"

text \<open>A cell has a state for session \<open>i\<close> only while that is entered; as long as the flag holds, it is the fold of its log.\<close>

definition cell_ok :: "bool \<Rightarrow> session_id \<Rightarrow> 'st session_store \<Rightarrow> 'st projection_cell \<Rightarrow> bool" where
  "cell_ok b i st c \<longleftrightarrow>
     (\<forall>x. map_of (pc_states c) i = Some x \<longrightarrow>
        (\<exists>r. map_of (ss_sessions st) i = Some r \<and>
             (b \<longrightarrow> x = cell_fold c (se_log (ss_objects st ! r)) (pc_init c (se_header (ss_objects st ! r))))))"

definition projections_ok :: "bool \<Rightarrow> session_id \<Rightarrow> 'st session_store \<Rightarrow> bool" where
  "projections_ok b i st \<longleftrightarrow> sessions_ok st \<and> (\<forall>(p, c) \<in> set (ss_cells st). cell_ok b i st c)"

lemma cell_fold_snoc:
  "cell_fold c (log @ [ev]) x = (if accepts c (ev_type ev) then pc_apply c (cell_fold c log x) ev else cell_fold c log x)"
  by (simp add: cell_fold_def)

lemma cell_fold_same:
  "pc_types c = pc_types c' \<Longrightarrow> pc_apply c = pc_apply c' \<Longrightarrow> cell_fold c log x = cell_fold c' log x"
proof -
  assume t: "pc_types c = pc_types c'" and a: "pc_apply c = pc_apply c'"
  from t have "accepts c = accepts c'" by (simp add: fun_eq_iff accepts_def)
  then show ?thesis unfolding cell_fold_def a by simp
qed

text \<open>A property every apply step keeps holds of every replayed state.\<close>

locale cell_invariant =
  fixes c :: "'st projection_cell" and P :: "'st \<Rightarrow> bool"
  assumes step: "P s \<Longrightarrow> P (pc_apply c s ev)"
begin

lemma replay: "P s \<Longrightarrow> P (cell_fold c log s)"
proof (induction log arbitrary: s)
  case (Cons ev log)
  then have "P (if accepts c (ev_type ev) then pc_apply c s ev else s)" by (simp add: step)
  from Cons.IH [OF this] show ?case by (simp add: cell_fold_def)
qed (simp add: cell_fold_def)

lemma replay_append: "P (cell_fold c log s) \<Longrightarrow> P (cell_fold c (log @ rest) s)"
  using replay [of "cell_fold c log s" rest] by (simp add: cell_fold_def)

end

lemma cell_states [simp]:
  "map_of (pc_states (cell_drop i c)) j = (if j = i then None else map_of (pc_states c) j)"
  "map_of (pc_states (cell_seed h log c)) j =
     (if j = sh_id h
      then Some (cell_fold c log (case map_of (pc_states c) j of None \<Rightarrow> pc_init c h | Some x \<Rightarrow> x))
      else map_of (pc_states c) j)"
  by (auto simp: cell_drop_def cell_seed_def Let_def map_of_om_emplace split: option.split)

lemma cell_fields [simp]:
  "pc_types (cell_seed h log c) = pc_types c" "pc_init (cell_seed h log c) = pc_init c" "pc_apply (cell_seed h log c) = pc_apply c"
  "pc_types (cell_drive i ev c) = pc_types c" "pc_init (cell_drive i ev c) = pc_init c" "pc_apply (cell_drive i ev c) = pc_apply c"
  "pc_types (cell_drop i c) = pc_types c" "pc_init (cell_drop i c) = pc_init c" "pc_apply (cell_drop i c) = pc_apply c"
  by (simp_all add: cell_seed_def cell_drive_def cell_drop_def Let_def)

lemma cell_fold_fields [simp]:
  "cell_fold (cell_seed h log' c) log x = cell_fold c log x" "cell_fold (cell_drive i ev c) log x = cell_fold c log x"
  "cell_fold (cell_drop i c) log x = cell_fold c log x"
  by (rule cell_fold_same; simp)+

lemma cell_ok_objects:
  assumes "cell_ok b i st c" and "ss_sessions st' = ss_sessions st"
    and "\<And>r. map_of (ss_sessions st) i = Some r \<Longrightarrow>
      se_log (ss_objects st' ! r) = se_log (ss_objects st ! r) \<and> se_header (ss_objects st' ! r) = se_header (ss_objects st ! r)"
  shows "cell_ok b i st' c"
  using assms unfolding cell_ok_def by metis

lemma projections_ok_objects:
  assumes "projections_ok b i st" and "sessions_ok st'" and "ss_sessions st' = ss_sessions st" and "ss_cells st' = ss_cells st"
    and "\<And>r. map_of (ss_sessions st) i = Some r \<Longrightarrow>
      se_log (ss_objects st' ! r) = se_log (ss_objects st ! r) \<and> se_header (ss_objects st' ! r) = se_header (ss_objects st ! r)"
  shows "projections_ok b i st'"
  using assms cell_ok_objects [OF _ assms(3,5)] by (auto simp: projections_ok_def)

lemma projections_ok_weaken: "projections_ok b i st \<Longrightarrow> (b' \<Longrightarrow> b) \<Longrightarrow> projections_ok b' i st"
  unfolding projections_ok_def cell_ok_def by (fastforce split: prod.splits)

lemma drive_ok:
  assumes "cell_ok b i st c" and "sessions_ok st" and "ss_sessions st' = ss_sessions st"
    and "se_log (ss_objects st' ! r) = se_log (ss_objects st ! r) @ [ev]"
    and "se_header (ss_objects st' ! r) = se_header (ss_objects st ! r)"
    and "\<And>k. k \<noteq> r \<Longrightarrow> ss_objects st' ! k = ss_objects st ! k"
  shows "cell_ok (b \<and> \<not> (impostor r st \<and> object_id r st = i)) i st' (cell_drive (object_id r st) ev c)"
  unfolding cell_ok_def
proof (intro allI impI)
  let ?j = "object_id r st"
  fix x assume x: "map_of (pc_states (cell_drive ?j ev c)) i = Some x"
  then obtain y where y: "map_of (pc_states c) i = Some y"
    and xy: "x = (if i = ?j \<and> accepts c (ev_type ev) then pc_apply c y ev else y)"
    by (auto simp: cell_drive_def split: if_splits)
  from assms(1) y obtain q where q: "map_of (ss_sessions st) i = Some q"
    and f: "b \<longrightarrow> y = cell_fold c (se_log (ss_objects st ! q)) (pc_init c (se_header (ss_objects st ! q)))"
    by (auto simp: cell_ok_def)
  from assms(2) q have "object_id q st = i" by (auto simp: sessions_ok_def)
  then have "?j \<noteq> i \<longrightarrow> q \<noteq> r" by auto
  moreover have "?j = i \<longrightarrow> impostor r st = (q \<noteq> r)" using q by (simp add: impostor_def)
  ultimately show "\<exists>r'. map_of (ss_sessions st') i = Some r' \<and>
      (b \<and> \<not> (impostor r st \<and> ?j = i) \<longrightarrow>
        x = cell_fold (cell_drive ?j ev c) (se_log (ss_objects st' ! r')) (pc_init (cell_drive ?j ev c) (se_header (ss_objects st' ! r'))))"
    using q f xy assms(3-6) by (intro exI [of _ q]) (auto simp: cell_fold_snoc)
qed

lemma set_map_cells: "(p, c) \<in> set (ss_cells (map_cells f st)) \<longleftrightarrow> (\<exists>c'. (p, c') \<in> set (ss_cells st) \<and> c = f c')"
  by (auto simp: map_cells_def)

lemma step_append_ok:
  assumes "projections_ok b i st" and "r < length (ss_objects st)" and "append_event r ty data now st = (out, st')"
  shows "projections_ok (b \<and> \<not> (impostor r st \<and> object_id r st = i)) i st'"
proof -
  from assms(1) have a: "ss_alive st" and ok: "sessions_ok st" by (auto simp: projections_ok_def sessions_ok_def)
  show ?thesis
  proof (cases out)
    case (Inl e)
    from append_rejected [OF assms(3) [unfolded Inl] a assms(2)] have "sessions_ok st'"
      using ok by (auto simp: sessions_ok_def object_id_def assms(2))
    then have "projections_ok b i st'"
      by (rule projections_ok_objects [OF assms(1)]) (use append_rejected [OF assms(3) [unfolded Inl] a assms(2)] assms(2) in auto)
    then show ?thesis by (rule projections_ok_weaken) simp
  next
    case (Inr q)
    from append_result [OF assms(3) [unfolded Inr] a assms(2)] obtain ev where
      s: "ss_alive st'" "length (ss_objects st') = length (ss_objects st)" "ss_sessions st' = ss_sessions st"
        "se_log (ss_objects st' ! r) = se_log (ss_objects st ! r) @ [ev]"
        "se_header (ss_objects st' ! r) = se_header (ss_objects st ! r)"
        "\<And>k. k \<noteq> r \<Longrightarrow> ss_objects st' ! k = ss_objects st ! k"
        "ss_cells st' = map (\<lambda>(k, c). (k, cell_drive (object_id r st) ev c)) (ss_cells st)" by (auto simp: object_id_def)
    have "sessions_ok st'" using ok s unfolding sessions_ok_def object_id_def by metis
    moreover have "cell_ok (b \<and> \<not> (impostor r st \<and> object_id r st = i)) i st' (cell_drive (object_id r st) ev c)"
      if "(p, c) \<in> set (ss_cells st)" for p c
      using drive_ok [OF _ ok s(3-6)] that assms(1) by (auto simp: projections_ok_def)
    ultimately show ?thesis by (auto simp: projections_ok_def s(7))
  qed
qed

lemma step_announce_ok:
  assumes "projections_ok b i st" and "announce r st = Inr st'"
  shows "projections_ok (b \<and> \<not> ((impostor r st \<or> \<not> unannounced (object_id r st) st) \<and> object_id r st = i)) i st'"
proof -
  let ?h = "se_header (ss_objects st ! r)" and ?log = "se_log (ss_objects st ! r)" and ?j = "object_id r st"
  from assms(2) obtain e where e: "map_of (ss_sessions st) ?j = Some e"
    and st': "st' = notice (SessionCreated e) (map_cells (cell_seed ?h ?log) st)"
    by (auto simp: announce_def Let_def object_id_def split: option.splits)
  have "cell_ok (b \<and> \<not> ((impostor r st \<or> \<not> unannounced ?j st) \<and> ?j = i)) i st' (cell_seed ?h ?log c)" if c: "(p, c) \<in> set (ss_cells st)" for p c
    unfolding cell_ok_def
  proof (intro allI impI)
    fix x assume x: "map_of (pc_states (cell_seed ?h ?log c)) i = Some x"
    from assms(1) c have ok: "cell_ok b i st c" by (auto simp: projections_ok_def)
    have "\<exists>r'. map_of (ss_sessions st) i = Some r' \<and> (b \<and> \<not> ((impostor r st \<or> \<not> unannounced ?j st) \<and> ?j = i) \<longrightarrow>
        x = cell_fold c (se_log (ss_objects st ! r')) (pc_init c (se_header (ss_objects st ! r'))))"
    proof (cases "?j = i")
      case True
      have "unannounced ?j st \<longrightarrow> map_of (pc_states c) i = None" using c True by (auto simp: unannounced_def)
      moreover have "\<not> impostor r st \<longrightarrow> e = r" using e by (simp add: impostor_def)
      ultimately show ?thesis using x e True by (intro exI [of _ e]) (auto simp: object_id_def)
    next
      case False
      with x have "map_of (pc_states c) i = Some x" by (simp add: object_id_def)
      with ok show ?thesis by (auto simp: cell_ok_def)
    qed
    then show "\<exists>r'. map_of (ss_sessions st') i = Some r' \<and> (b \<and> \<not> ((impostor r st \<or> \<not> unannounced ?j st) \<and> ?j = i) \<longrightarrow>
        x = cell_fold (cell_seed ?h ?log c) (se_log (ss_objects st' ! r')) (pc_init (cell_seed ?h ?log c) (se_header (ss_objects st' ! r'))))"
      by (simp add: st')
  qed
  moreover have "sessions_ok st'" using assms(1) by (simp add: projections_ok_def sessions_ok_def object_id_def st')
  ultimately show ?thesis by (auto simp: projections_ok_def st' set_map_cells)
qed

lemma cell_drop_ok:
  assumes "cell_ok b i st c" and "ss_sessions st' = om_erase j (ss_sessions st)" and "ss_objects st' = ss_objects st"
  shows "cell_ok b i st' (cell_drop j c)"
  using assms(1) by (auto simp: cell_ok_def assms(2,3) split: if_splits)

lemma step_dispose_ok: "projections_ok b i st \<Longrightarrow> projections_ok b i (snd (dispose_session j st))"
proof (cases "map_of (ss_sessions st) j")
  case (Some r)
  assume ok: "projections_ok b i st"
  let ?st = "notice (SessionDisposed j) (map_cells (cell_drop j) (st\<lparr>ss_sessions := om_erase j (ss_sessions st)\<rparr>))"
  have "cell_ok b i ?st (cell_drop j c)" if "(p, c) \<in> set (ss_cells st)" for p c
    by (rule cell_drop_ok [of b i st]) (use that ok in \<open>auto simp: projections_ok_def\<close>)
  moreover have "sessions_ok ?st" using ok by (simp add: projections_ok_def sessions_ok_def object_id_def)
  ultimately have "projections_ok b i ?st" by (auto simp: projections_ok_def set_map_cells)
  then show ?thesis by (simp add: dispose_session_def Some)
qed (simp add: dispose_session_def)

lemma step_cleanup_ok: "projections_ok b i st \<Longrightarrow> projections_ok b i (run_store_cleanup cl st)"
proof (cases cl)
  case (DisposeSession j)
  assume "projections_ok b i st"
  then show ?thesis by (simp add: DisposeSession step_dispose_ok)
next
  case (DropMessageProjection ty)
  assume ok: "projections_ok b i st"
  then have "sessions_ok (run_store_cleanup cl st)" by (simp add: DropMessageProjection projections_ok_def sessions_ok_def object_id_def)
  then show ?thesis by (rule projections_ok_objects [OF ok]) (simp_all add: DropMessageProjection)
next
  case (DropProjection p)
  assume ok: "projections_ok b i st"
  then have a: "ss_alive st" "sessions_ok (run_store_cleanup cl st)"
    and c: "\<forall>(p, c) \<in> set (om_erase p (ss_cells st)). cell_ok b i st c"
    by (auto simp: DropProjection projections_ok_def sessions_ok_def object_id_def om_erase_def)
  have "cell_ok b i (st\<lparr>ss_cells := cs\<rparr>) = cell_ok b i st" for cs by (rule ext) (simp add: cell_ok_def)
  with a c show ?thesis by (simp add: projections_ok_def DropProjection)
qed

lemma store_step_alive: "store_step m st st' \<Longrightarrow> ss_alive st' \<Longrightarrow> ss_alive st"
proof (induction rule: store_step.induct)
  case (step_append r st ty data now out st')
  then show ?case
    by (auto simp: append_event_def publish_event_def Let_def split: if_splits option.splits)
next
  case (step_cleanup st cl)
  then show ?case by (cases cl) (auto simp: dispose_session_def split: if_splits option.splits)
qed (auto simp: prepare_def enter_session_def announce_def dispose_session_def flush_session_def register_message_projection_def
  register_projection_def destroy_store_def Let_def split: if_splits option.splits sum.splits)

lemma step_ok: "store_step m st st' \<Longrightarrow> projections_ok b i st \<Longrightarrow> ss_alive st' \<Longrightarrow> projections_ok (b \<and> m \<noteq> Some i) i st'"
proof (induction rule: store_step.induct)
  case (step_prepare j opts now st r st')
  from prepare_object [OF step_prepare(1)] obtain s where st': "st' = st\<lparr>ss_objects := ss_objects st @ [s]\<rparr>" by blast
  have "sessions_ok st'" using step_prepare(2) by (auto simp: projections_ok_def sessions_ok_def object_id_def st' nth_append less_SucI)
  then have "projections_ok b i st'"
    by (rule projections_ok_objects [OF step_prepare(2)])
       (use step_prepare(2) in \<open>auto simp: st' projections_ok_def sessions_ok_def nth_append\<close>)
  then show ?case by simp
next
  case (step_enter r st st')
  then have n: "map_of (ss_sessions st) (object_id r st) = None"
    and st': "st' = st\<lparr>ss_sessions := om_insert (object_id r st) r (ss_sessions st)\<rparr>"
    by (auto simp: enter_session_def object_id_def Let_def split: if_splits)
  have "cell_ok b i st' c" if "(p, c) \<in> set (ss_cells st)" for p c
    using that step_enter(3) n by (fastforce simp: projections_ok_def cell_ok_def st')
  with step_enter(1,3) show ?case by (auto simp: projections_ok_def sessions_ok_def object_id_def st' split: if_splits)
next
  case (step_announce r st st')
  from step_announce_ok [OF step_announce(3,2)] show ?case by (rule back_subst [of "\<lambda>b. projections_ok b i st'"]) auto
next
  case (step_append r st ty data now out st')
  from step_append_ok [OF step_append(3,1,2)] show ?case by (rule back_subst [of "\<lambda>b. projections_ok b i st'"]) auto
next
  case (step_dispose st j)
  then show ?case by (simp add: step_dispose_ok)
next
  case (step_flush st j)
  then show ?case by (simp add: flush_session_def notice_def projections_ok_def sessions_ok_def object_id_def cell_ok_def)
next
  case (step_message mp st cl st')
  then have "sessions_ok st'" and s: "ss_sessions st' = ss_sessions st" "ss_cells st' = ss_cells st" "ss_objects st' = ss_objects st"
    by (auto simp: register_message_projection_def projections_ok_def sessions_ok_def object_id_def split: if_splits)
  then have "projections_ok b i st'" by (intro projections_ok_objects [OF step_message(2)]) simp_all
  then show ?case by simp
next
  case (step_projection c st p cl st')
  have "set (om_insert k v m) \<subseteq> insert (k, v) (set m)" for k :: nat and v :: "'a projection_cell" and m
    by (induction k v m rule: om_insert.induct) auto
  with step_projection show ?case
    by (fastforce simp: register_projection_def projections_ok_def sessions_ok_def object_id_def cell_ok_def om_emplace_def Let_def split: if_splits)
next
  case (step_cleanup st cl)
  then show ?case by (simp add: step_cleanup_ok)
next
  case (step_destroy st on_strand)
  then show ?case by (simp add: destroy_store_def Let_def split: if_splits)
qed

lemma new_store_ok: "projections_ok b i (new_store bus)"
  by (simp add: new_store_def projections_ok_def sessions_ok_def)

lemma store_run_ok: "store_run ms st st' \<Longrightarrow> projections_ok True i st \<Longrightarrow> ss_alive st' \<Longrightarrow> projections_ok (Some i \<notin> set ms) i st'"
proof (induction rule: store_run.induct)
  case (store_goes_on ms st st1 m st2)
  from store_step_alive [OF store_goes_on(2,5)] store_goes_on(3,4) have "projections_ok (Some i \<notin> set ms) i st1" by simp
  from step_ok [OF store_goes_on(2) this store_goes_on(5)] show ?case by (rule back_subst [of "\<lambda>b. projections_ok b i st2"]) auto
qed simp

end
