(* ===== verification/Goal.thy ===== *)
theory Goal
  imports SessionLaws
begin

text \<open>
  The goal domain (\<open>plugins/goal\<close>: \<open>goal.hpp\<close> and the first half of \<open>src/goal.cpp\<close>): goal snapshots, their
  encoding in \<open>goal/change\<close> events, and the projection that replays a session's log into the current
  goal. Revisions and round counters are \<open>std::uint64_t\<close>, times \<open>std::int64_t\<close> (compared signed). A
  decoder or a transition that throws returns the exception's text as \<open>Inl\<close>.
\<close>

section \<open>The domain\<close>

datatype goal_phase = PhaseActive | PhasePaused | PhaseBlocked | PhaseComplete

datatype goal_activation = Armed | Disarmed

definition k_phase_names :: "(goal_phase \<times> string) list" where
  "k_phase_names = [(PhaseActive, ''active''), (PhasePaused, ''paused''), (PhaseBlocked, ''blocked''),
     (PhaseComplete, ''complete'')]"

definition phase_of :: "string \<Rightarrow> goal_phase option" where
  "phase_of name = map_option fst (List.find (\<lambda>(p, n). n = name) k_phase_names)"

fun goal_phase_name :: "goal_phase \<Rightarrow> string" where
  "goal_phase_name PhaseActive = ''active''"
| "goal_phase_name PhasePaused = ''paused''"
| "goal_phase_name PhaseBlocked = ''blocked''"
| "goal_phase_name PhaseComplete = ''complete''"

fun goal_activation_name :: "goal_activation \<Rightarrow> string" where
  "goal_activation_name Armed = ''armed''"
| "goal_activation_name Disarmed = ''disarmed''"

datatype operation_kind = OpCreate | OpEdit | OpPause | OpResume | OpComplete | OpBlock | OpClear

definition operation_of :: "string \<Rightarrow> operation_kind option" where
  "operation_of name =
     (if name = ''create'' then Some OpCreate else if name = ''edit'' then Some OpEdit
      else if name = ''pause'' then Some OpPause else if name = ''resume'' then Some OpResume
      else if name = ''complete'' then Some OpComplete else if name = ''block'' then Some OpBlock
      else if name = ''clear'' then Some OpClear else None)"

record goal_block_reason =
  br_code :: string
  br_message :: string

record goal_snapshot =
  gs_id :: string
  gs_revision :: "64 word"
  gs_objective :: string
  gs_phase :: goal_phase
  gs_blocked_reason :: "goal_block_reason option"
  gs_max_rounds :: "64 word"

record goal_ref =
  gr_id :: string
  gr_revision :: "64 word"

datatype goal_error_code =
    AgentNotLive | NotFound | GoalExists | StaleRevision | InvalidObjective | InvalidMaxRounds
  | InvalidBlockReason | InvalidEdit | InvalidTransition

fun goal_error_name :: "goal_error_code \<Rightarrow> string" where
  "goal_error_name AgentNotLive = ''GOAL_AGENT_NOT_LIVE''"
| "goal_error_name NotFound = ''GOAL_NOT_FOUND''"
| "goal_error_name GoalExists = ''GOAL_ALREADY_EXISTS''"
| "goal_error_name StaleRevision = ''GOAL_STALE_REVISION''"
| "goal_error_name InvalidObjective = ''GOAL_INVALID_OBJECTIVE''"
| "goal_error_name InvalidMaxRounds = ''GOAL_INVALID_MAX_ROUNDS''"
| "goal_error_name InvalidBlockReason = ''GOAL_INVALID_BLOCK_REASON''"
| "goal_error_name InvalidEdit = ''GOAL_INVALID_EDIT''"
| "goal_error_name InvalidTransition = ''GOAL_INVALID_TRANSITION''"

record goal_state =
  gp_current :: "goal_snapshot option"
  gp_rounds :: "64 word"
  gp_created_at :: "64 word"
  gp_updated_at :: "64 word"
  gp_last_ref :: "goal_ref option"
  gp_seen_ids :: "string list"
  gp_failure :: "string option"

definition no_goal :: goal_state where
  "no_goal = \<lparr>gp_current = None, gp_rounds = 0, gp_created_at = 0, gp_updated_at = 0, gp_last_ref = None,
     gp_seen_ids = [], gp_failure = None\<rparr>"

record decoded_change =
  ch_operation :: operation_kind
  ch_goal :: goal_snapshot
  ch_rounds :: "64 word"
  ch_created_at :: "64 word"
  ch_updated_at :: "64 word"
  ch_cleared :: goal_ref
  ch_cleared_at :: "64 word"

section \<open>Decoding a change\<close>

definition positive_uint :: "json_object \<Rightarrow> string \<Rightarrow> 64 word option" where
  "positive_uint obj k =
     (case opt_uint_at obj k of None \<Rightarrow> None | Some n \<Rightarrow> (if n < 1 then None else Some n))"

definition time_field :: "json_object \<Rightarrow> string \<Rightarrow> 64 word option" where
  "time_field obj k =
     (case opt_int_at obj k of None \<Rightarrow> None | Some n \<Rightarrow> (if sint n < 0 then None else Some n))"

definition nonempty_string_at :: "json_object \<Rightarrow> string \<Rightarrow> string option" where
  "nonempty_string_at obj k =
     (case opt_string_at obj k of None \<Rightarrow> None | Some s \<Rightarrow> (if s = [] then None else Some s))"

definition decode_reason :: "json_object \<Rightarrow> string + goal_block_reason" where
  "decode_reason obj =
     (case get_object obj ''blockedReason'' of
        None \<Rightarrow> Inl ''goal change goal.blockedReason must be present while blocked''
      | Some reason \<Rightarrow>
          (case (nonempty_string_at reason ''code'', opt_string_at reason ''message'') of
             (Some code, Some message) \<Rightarrow>
               (if trim message = [] then Inl ''goal change goal.blockedReason is invalid''
                else Inr \<lparr>br_code = code, br_message = trim message\<rparr>)
           | _ \<Rightarrow> Inl ''goal change goal.blockedReason is invalid''))"

definition decode_snapshot :: "json_object \<Rightarrow> string + goal_snapshot" where
  "decode_snapshot obj =
     (case nonempty_string_at obj ''id'' of
        None \<Rightarrow> Inl ''goal change goal.id must be a non-empty string''
      | Some i \<Rightarrow>
     (case opt_string_at obj ''objective'' of
        None \<Rightarrow> Inl ''goal change goal.objective must be non-empty and normalized''
      | Some objective \<Rightarrow>
          if trim objective = [] \<or> objective \<noteq> trim objective
          then Inl ''goal change goal.objective must be non-empty and normalized''
          else
     (case positive_uint obj ''revision'' of
        None \<Rightarrow> Inl ''goal change goal.revision must be a positive integer''
      | Some revision \<Rightarrow>
     (case positive_uint obj ''maxGoalRounds'' of
        None \<Rightarrow> Inl ''goal change goal.maxGoalRounds must be a positive integer''
      | Some max_rounds \<Rightarrow>
     (case Option.bind (opt_string_at obj ''phase'') phase_of of
        None \<Rightarrow> Inl ''goal change goal.phase is invalid''
      | Some phase \<Rightarrow>
          let goal = \<lparr>gs_id = i, gs_revision = revision, gs_objective = objective, gs_phase = phase,
                       gs_blocked_reason = None, gs_max_rounds = max_rounds\<rparr>
          in if phase = PhaseBlocked
             then (case decode_reason obj of
                     Inl e \<Rightarrow> Inl e
                   | Inr reason \<Rightarrow> Inr (goal\<lparr>gs_blocked_reason := Some reason\<rparr>))
             else Inr goal)))))"

definition blank_snapshot :: goal_snapshot where
  "blank_snapshot = \<lparr>gs_id = [], gs_revision = 1, gs_objective = [], gs_phase = PhaseActive,
     gs_blocked_reason = None, gs_max_rounds = 256\<rparr>"

definition blank_change :: "operation_kind \<Rightarrow> decoded_change" where
  "blank_change op = \<lparr>ch_operation = op, ch_goal = blank_snapshot, ch_rounds = 0, ch_created_at = 0, ch_updated_at = 0,
     ch_cleared = \<lparr>gr_id = [], gr_revision = 0\<rparr>, ch_cleared_at = 0\<rparr>"

definition decode_clear :: "json_object \<Rightarrow> string + decoded_change" where
  "decode_clear obj =
     (case get_object obj ''cleared'' of
        None \<Rightarrow> Inl ''goal clear change lacks a cleared ref''
      | Some ref \<Rightarrow>
          (case (nonempty_string_at ref ''id'', positive_uint ref ''revision'') of
             (Some i, Some revision) \<Rightarrow>
               (case time_field obj ''clearedAt'' of
                  None \<Rightarrow> Inl ''goal clear change clearedAt is invalid''
                | Some t \<Rightarrow>
                    Inr ((blank_change OpClear)\<lparr>ch_cleared := \<lparr>gr_id = i, gr_revision = revision\<rparr>, ch_cleared_at := t\<rparr>))
           | _ \<Rightarrow> Inl ''goal clear change ref is invalid''))"

definition decode_update :: "operation_kind \<Rightarrow> json_object \<Rightarrow> string + decoded_change" where
  "decode_update op obj =
     (case get_object obj ''goal'' of
        None \<Rightarrow> Inl ''goal change lacks a goal snapshot''
      | Some g \<Rightarrow>
     (case decode_snapshot g of
        Inl e \<Rightarrow> Inl e
      | Inr goal \<Rightarrow>
     (case opt_uint_at obj ''roundsStarted'' of
        None \<Rightarrow> Inl ''goal change roundsStarted is invalid''
      | Some rounds \<Rightarrow>
     (case time_field obj ''createdAt'' of
        None \<Rightarrow> Inl ''goal change createdAt is invalid''
      | Some created \<Rightarrow>
     (case time_field obj ''updatedAt'' of
        None \<Rightarrow> Inl ''goal change updatedAt is invalid''
      | Some updated \<Rightarrow>
          if sint updated < sint created then Inl ''goal change updatedAt cannot precede createdAt''
          else Inr ((blank_change op)\<lparr>ch_goal := goal, ch_rounds := rounds, ch_created_at := created,
                      ch_updated_at := updated\<rparr>))))))"

definition decode_change :: "json \<Rightarrow> string + decoded_change" where
  "decode_change data =
     (case as_object data of
        None \<Rightarrow> Inl ''goal change must be a JSON object''
      | Some obj \<Rightarrow>
          if opt_string_at obj ''kind'' \<noteq> Some ''goal/change'' then Inl ''goal change has an invalid kind''
          else if opt_uint_at obj ''version'' \<noteq> Some 1 then Inl ''unsupported goal change version''
          else
            (case Option.bind (opt_string_at obj ''operation'') operation_of of
               None \<Rightarrow> Inl ''goal change operation is invalid''
             | Some op \<Rightarrow> (if op = OpClear then decode_clear obj else decode_update op obj)))"

section \<open>Applying a change\<close>

definition same_definition :: "goal_snapshot \<Rightarrow> goal_snapshot \<Rightarrow> bool" where
  "same_definition current nxt \<longleftrightarrow>
     gs_objective nxt = gs_objective current \<and> gs_max_rounds nxt = gs_max_rounds current"

text \<open>The \<open>switch\<close> over the operations on a current goal; \<open>None\<close> when the transition is legal.\<close>

definition transition_error :: "operation_kind \<Rightarrow> 64 word \<Rightarrow> goal_snapshot \<Rightarrow> goal_snapshot \<Rightarrow> string option" where
  "transition_error op rounds current goal =
     (let redefined = Some ''goal operation cannot change objective or maxGoalRounds''
      in case op of
        OpEdit \<Rightarrow> (if gs_phase goal \<noteq> gs_phase current then Some ''goal edit cannot change phase'' else None)
      | OpPause \<Rightarrow>
          (if \<not> same_definition current goal then redefined
           else if gs_phase current \<noteq> PhaseActive \<or> gs_phase goal \<noteq> PhasePaused
           then Some ''goal pause has an invalid phase transition'' else None)
      | OpResume \<Rightarrow>
          (if \<not> same_definition current goal then redefined
           else if (gs_phase current \<noteq> PhaseActive \<and> gs_phase current \<noteq> PhasePaused \<and> gs_phase current \<noteq> PhaseBlocked) \<or>
                   gs_phase goal \<noteq> PhaseActive \<or> rounds \<ge> gs_max_rounds goal
           then Some ''goal resume has an invalid phase transition or exhausted budget'' else None)
      | OpComplete \<Rightarrow>
          (if \<not> same_definition current goal then redefined
           else if gs_phase current = PhaseComplete \<or> gs_phase goal \<noteq> PhaseComplete
           then Some ''goal complete has an invalid phase transition'' else None)
      | OpBlock \<Rightarrow>
          (if \<not> same_definition current goal then redefined
           else if gs_phase current \<noteq> PhaseActive \<or> gs_phase goal \<noteq> PhaseBlocked
           then Some ''goal block has an invalid phase transition'' else None)
      | _ \<Rightarrow> Some ''unknown goal snapshot operation'')"

definition ref_of :: "goal_snapshot \<Rightarrow> goal_ref" where
  "ref_of g = \<lparr>gr_id = gs_id g, gr_revision = gs_revision g\<rparr>"

definition apply_clear :: "goal_state \<Rightarrow> decoded_change \<Rightarrow> string + goal_state" where
  "apply_clear s ch =
     (case gp_current s of
        None \<Rightarrow> Inl ''goal clear requires a current goal''
      | Some current \<Rightarrow>
          if gr_id (ch_cleared ch) \<noteq> gs_id current \<or> gr_revision (ch_cleared ch) \<noteq> gs_revision current + 1
          then Inl ''goal clear must advance the current goal by one revision''
          else if sint (ch_cleared_at ch) < sint (gp_updated_at s)
          then Inl ''goal clear timestamp cannot precede the current goal update''
          else Inr (s\<lparr>gp_current := None, gp_rounds := 0, gp_created_at := 0, gp_updated_at := 0,
                      gp_last_ref := Some (ch_cleared ch)\<rparr>))"

text \<open>The state after an accepted snapshot.\<close>

definition install :: "goal_snapshot \<Rightarrow> decoded_change \<Rightarrow> goal_state \<Rightarrow> goal_state" where
  "install goal ch s =
     s\<lparr>gp_current := Some goal, gp_rounds := ch_rounds ch, gp_created_at := ch_created_at ch,
       gp_updated_at := ch_updated_at ch, gp_last_ref := Some (ref_of goal)\<rparr>"

definition apply_create :: "goal_state \<Rightarrow> decoded_change \<Rightarrow> string + goal_state" where
  "apply_create s ch =
     (let goal = ch_goal ch
      in if gs_revision goal \<noteq> 1 \<or> gs_phase goal \<noteq> PhaseActive \<or> ch_rounds ch \<noteq> 0 \<or> gs_id goal \<in> set (gp_seen_ids s) \<or>
         (case gp_current s of None \<Rightarrow> False | Some g \<Rightarrow> gs_phase g \<noteq> PhaseComplete)
      then Inl ''goal create requires a fresh active revision-one goal with zero rounds''
      else Inr (install goal ch (s\<lparr>gp_seen_ids := gp_seen_ids s @ [gs_id goal]\<rparr>)))"

definition apply_update :: "goal_state \<Rightarrow> decoded_change \<Rightarrow> string + goal_state" where
  "apply_update s ch =
     (let goal = ch_goal ch
      in case gp_current s of
        None \<Rightarrow> Inl ''goal operation requires a current goal''
      | Some current \<Rightarrow>
          if gs_id goal \<noteq> gs_id current \<or> gs_revision goal \<noteq> gs_revision current + 1
          then Inl ''goal operation must advance the current goal by one revision''
          else if ch_created_at ch \<noteq> gp_created_at s \<or> sint (ch_updated_at ch) < sint (gp_updated_at s) \<or>
                  ch_rounds ch \<noteq> gp_rounds s
          then Inl ''goal operation does not preserve the current counters and timestamps''
          else
            (case transition_error (ch_operation ch) (gp_rounds s) current goal of
               Some e \<Rightarrow> Inl e
             | None \<Rightarrow> Inr (install goal ch s)))"

definition apply_change :: "goal_state \<Rightarrow> decoded_change \<Rightarrow> string + goal_state" where
  "apply_change s ch =
     (if ch_operation ch = OpClear then apply_clear s ch
      else if ch_operation ch = OpCreate then apply_create s ch
      else apply_update s ch)"

definition apply_round :: "goal_state \<Rightarrow> json_object \<Rightarrow> string + goal_state" where
  "apply_round s source =
     (case (nonempty_string_at source ''goalId'', opt_uint_at source ''revision'', positive_uint source ''round'') of
        (Some i, Some revision, Some n) \<Rightarrow>
          (case gp_current s of
             Some g \<Rightarrow>
               if gs_phase g \<noteq> PhaseActive \<or> i \<noteq> gs_id g \<or> revision \<noteq> gs_revision g \<or> n \<noteq> gp_rounds s + 1 \<or>
                  n > gs_max_rounds g
               then Inl ''goal round is not the next admitted round of the active goal''
               else Inr (s\<lparr>gp_rounds := n\<rparr>)
           | None \<Rightarrow> Inl ''goal round is not the next admitted round of the active goal'')
      | _ \<Rightarrow> Inl ''goal message source is invalid'')"

section \<open>The projection\<close>

definition replay_failure :: "session_event \<Rightarrow> string \<Rightarrow> string" where
  "replay_failure ev what =
     ''goal replay failed at session event '' @ show_nat (unat (ev_seq ev)) @ '': '' @ what"

definition goal_source :: "session_event \<Rightarrow> json_object option" where
  "goal_source ev =
     (case as_object (ev_data ev) of
        None \<Rightarrow> None
      | Some obj \<Rightarrow>
          (case get_object obj ''source'' of
             None \<Rightarrow> None
           | Some src \<Rightarrow> (if opt_string_at src ''kind'' = Some ''goal'' then Some src else None)))"

definition settle :: "session_event \<Rightarrow> goal_state \<Rightarrow> string + goal_state \<Rightarrow> goal_state" where
  "settle ev s res =
     (case res of Inl e \<Rightarrow> s\<lparr>gp_failure := Some (replay_failure ev e)\<rparr> | Inr s' \<Rightarrow> s')"

definition goal_apply :: "goal_state \<Rightarrow> session_event \<Rightarrow> goal_state" where
  "goal_apply s ev =
     (if gp_failure s \<noteq> None then s
      else if ev_type ev = ''user/message''
      then (case goal_source ev of None \<Rightarrow> s | Some src \<Rightarrow> settle ev s (apply_round s src))
      else settle ev s
             (case decode_change (ev_data ev) of Inl e \<Rightarrow> Inl e | Inr ch \<Rightarrow> apply_change s ch))"

definition goal_projection :: "goal_state projection_cell" where
  "goal_projection = \<lparr>pc_types = [''goal/change'', ''user/message''], pc_init = \<lambda>_. no_goal,
     pc_apply = goal_apply, pc_states = []\<rparr>"

section \<open>Encoding\<close>

definition snapshot_json :: "goal_snapshot \<Rightarrow> json" where
  "snapshot_json g = JObject
     ([(''id'', JString (gs_id g)), (''revision'', JUint (gs_revision g)), (''objective'', JString (gs_objective g)),
       (''phase'', JString (goal_phase_name (gs_phase g))), (''maxGoalRounds'', JUint (gs_max_rounds g))] @
      (case gs_blocked_reason g of
         None \<Rightarrow> []
       | Some r \<Rightarrow> [(''blockedReason'', JObject [(''code'', JString (br_code r)), (''message'', JString (br_message r))])]))"

definition change_json :: "string \<Rightarrow> goal_snapshot \<Rightarrow> 64 word \<Rightarrow> 64 word \<Rightarrow> 64 word \<Rightarrow> json" where
  "change_json op g rounds created updated = JObject
     [(''kind'', JString ''goal/change''), (''version'', JInt 1), (''operation'', JString op),
      (''goal'', snapshot_json g), (''roundsStarted'', JUint rounds), (''createdAt'', JInt created),
      (''updatedAt'', JInt updated)]"

definition clear_json :: "goal_ref \<Rightarrow> 64 word \<Rightarrow> json" where
  "clear_json ref t = JObject
     [(''kind'', JString ''goal/change''), (''version'', JInt 1), (''operation'', JString ''clear''),
      (''cleared'', JObject [(''id'', JString (gr_id ref)), (''revision'', JUint (gr_revision ref))]),
      (''clearedAt'', JInt t)]"

text \<open>The snapshots the service writes: normalized texts, positive numbers, a reason while blocked.\<close>

definition snapshot_ok :: "goal_snapshot \<Rightarrow> bool" where
  "snapshot_ok g \<longleftrightarrow> gs_id g \<noteq> [] \<and> gs_objective g \<noteq> [] \<and> trim (gs_objective g) = gs_objective g \<and>
     gs_revision g \<noteq> 0 \<and> gs_max_rounds g \<noteq> 0 \<and>
     (case gs_blocked_reason g of
        None \<Rightarrow> gs_phase g \<noteq> PhaseBlocked
      | Some r \<Rightarrow> gs_phase g = PhaseBlocked \<and> br_code r \<noteq> [] \<and> br_message r \<noteq> [] \<and> trim (br_message r) = br_message r)"

lemma phase_of_names [simp]:
  "phase_of ''active'' = Some PhaseActive" "phase_of ''paused'' = Some PhasePaused"
  "phase_of ''blocked'' = Some PhaseBlocked" "phase_of ''complete'' = Some PhaseComplete"
  by (simp_all add: phase_of_def k_phase_names_def)

lemma phase_of_name: "phase_of (goal_phase_name p) = Some p"
  by (cases p) simp_all

lemma positive_word: "(n :: 64 word) \<noteq> 0 \<Longrightarrow> \<not> n < 1"
  by (simp add: word_less_1)

lemma phase_name_blocked: "goal_phase_name p = ''blocked'' \<longleftrightarrow> p = PhaseBlocked"
  by (cases p) simp_all

lemma decode_encode_snapshot:
  "snapshot_ok g \<Longrightarrow> \<exists>m. snapshot_json g = JObject m \<and> decode_snapshot m = Inr g"
  by (cases g; cases "gs_blocked_reason g")
     (auto simp: snapshot_ok_def snapshot_json_def decode_snapshot_def accessor_defs nonempty_string_at_def
        positive_uint_def positive_word decode_reason_def Let_def phase_of_name)

lemma time_field_int [simp]:
  "opt_int_at m k = Some t \<Longrightarrow> sint t \<ge> 0 \<Longrightarrow> time_field m k = Some t"
  by (simp add: time_field_def)

lemma operation_of_names [simp]:
  "operation_of ''create'' = Some OpCreate" "operation_of ''edit'' = Some OpEdit" "operation_of ''pause'' = Some OpPause"
  "operation_of ''resume'' = Some OpResume" "operation_of ''complete'' = Some OpComplete"
  "operation_of ''block'' = Some OpBlock" "operation_of ''clear'' = Some OpClear"
  by (simp_all add: operation_of_def)

lemma decode_encode_change:
  assumes "snapshot_ok g" and "operation_of name = Some op" and "op \<noteq> OpClear"
    and "sint created \<ge> 0" and "sint created \<le> sint updated"
  shows "decode_change (change_json name g rounds created updated) =
    Inr ((blank_change op)\<lparr>ch_goal := g, ch_rounds := rounds, ch_created_at := created, ch_updated_at := updated\<rparr>)"
proof -
  from decode_encode_snapshot [OF assms(1)] obtain m where m: "snapshot_json g = JObject m" "decode_snapshot m = Inr g" by blast
  show ?thesis using assms(2-5)
    by (simp add: decode_change_def change_json_def m decode_update_def accessor_defs time_field_def)
qed

lemma decode_encode_clear:
  assumes "gr_id ref \<noteq> []" and "gr_revision ref \<noteq> 0" and "sint t \<ge> 0"
  shows "decode_change (clear_json ref t) = Inr ((blank_change OpClear)\<lparr>ch_cleared := ref, ch_cleared_at := t\<rparr>)"
  using assms by (cases ref)
    (simp add: decode_change_def clear_json_def decode_clear_def accessor_defs time_field_def nonempty_string_at_def
      positive_uint_def positive_word)

section \<open>What replay keeps\<close>

text \<open>
  The invariant of the replayed state: a current goal is well formed, is the last reference and among
  the ids seen; ids are never reused; times are in order.
\<close>

definition goal_state_ok :: "goal_state \<Rightarrow> bool" where
  "goal_state_ok s \<longleftrightarrow> distinct (gp_seen_ids s) \<and> sint (gp_created_at s) \<ge> 0 \<and> sint (gp_created_at s) \<le> sint (gp_updated_at s) \<and>
     (case gp_current s of
        None \<Rightarrow> gp_rounds s = 0
      | Some g \<Rightarrow> snapshot_ok g \<and> gp_last_ref s = Some (ref_of g) \<and> gs_id g \<in> set (gp_seen_ids s))"

lemma no_goal_ok [simp]: "goal_state_ok no_goal"
  by (simp add: goal_state_ok_def no_goal_def)

lemma nonempty_string_at_Some [simp]: "nonempty_string_at obj k = Some s \<longleftrightarrow> opt_string_at obj k = Some s \<and> s \<noteq> []"
  by (auto simp: nonempty_string_at_def split: option.split)

lemma positive_uint_Some: "positive_uint obj k = Some n \<longleftrightarrow> opt_uint_at obj k = Some n \<and> n \<noteq> 0"
  by (auto simp: positive_uint_def word_less_1 split: option.split)

lemma time_field_Some: "time_field obj k = Some n \<longleftrightarrow> opt_int_at obj k = Some n \<and> sint n \<ge> 0"
  by (auto simp: time_field_def split: option.split)

lemma decode_reason_ok: "decode_reason obj = Inr r \<Longrightarrow> br_code r \<noteq> [] \<and> br_message r \<noteq> [] \<and> trim (br_message r) = br_message r"
  by (auto simp: decode_reason_def split: option.splits if_splits)

lemma decode_snapshot_ok: "decode_snapshot obj = Inr g \<Longrightarrow> snapshot_ok g"
  using decode_reason_ok
  by (fastforce simp: decode_snapshot_def snapshot_ok_def Let_def positive_uint_Some split: option.splits if_splits sum.splits)

lemma decode_change_ok:
  assumes "decode_change data = Inr ch" and "ch_operation ch \<noteq> OpClear"
  shows "snapshot_ok (ch_goal ch) \<and> sint (ch_created_at ch) \<ge> 0 \<and> sint (ch_created_at ch) \<le> sint (ch_updated_at ch)"
proof -
  from assms obtain obj op where "decode_update op obj = Inr ch"
    by (auto simp: decode_change_def decode_clear_def blank_change_def split: option.splits if_splits)
  then show ?thesis using decode_snapshot_ok
    by (auto simp: decode_update_def time_field_Some split: option.splits if_splits sum.splits)
qed

lemma apply_change_ok:
  assumes "goal_state_ok s" and "decode_change data = Inr ch" and "apply_change s ch = Inr s'"
  shows "goal_state_ok s' \<and> gp_failure s' = gp_failure s"
proof (cases "ch_operation ch = OpClear")
  case True
  with assms show ?thesis
    by (auto simp: apply_change_def apply_clear_def goal_state_ok_def split: option.splits if_splits)
next
  case False
  from decode_change_ok [OF assms(2) False] have c: "snapshot_ok (ch_goal ch)" "sint (ch_created_at ch) \<ge> 0"
    "sint (ch_created_at ch) \<le> sint (ch_updated_at ch)" by simp_all
  show ?thesis
  proof (cases "ch_operation ch = OpCreate")
    case True
    with assms(1,3) c show ?thesis
      by (auto simp: apply_change_def apply_create_def install_def goal_state_ok_def Let_def split: if_splits)
  next
    case False2: False
    from assms(3) False False2 obtain g where g: "gp_current s = Some g" "gs_id (ch_goal ch) = gs_id g"
      "s' = install (ch_goal ch) ch s"
      by (auto simp: apply_change_def apply_update_def Let_def split: option.splits if_splits)
    with assms(1) c show ?thesis by (auto simp: install_def goal_state_ok_def)
  qed
qed

lemma apply_round_ok: "goal_state_ok s \<Longrightarrow> apply_round s src = Inr s' \<Longrightarrow> goal_state_ok s' \<and> gp_failure s' = gp_failure s"
  by (auto simp: apply_round_def goal_state_ok_def split: option.splits if_splits)

lemma settle_ok:
  "goal_state_ok s \<Longrightarrow> (\<And>s'. res = Inr s' \<Longrightarrow> goal_state_ok s') \<Longrightarrow> goal_state_ok (settle ev s res)"
  by (cases res) (auto simp: settle_def goal_state_ok_def split: option.splits)

lemma goal_apply_ok: "goal_state_ok s \<Longrightarrow> goal_state_ok (goal_apply s ev)"
proof -
  assume ok: "goal_state_ok s"
  have "goal_state_ok (settle ev s (case decode_change (ev_data ev) of Inl e \<Rightarrow> Inl e | Inr ch \<Rightarrow> apply_change s ch))"
    by (rule settle_ok [OF ok]) (use apply_change_ok [OF ok] in \<open>auto split: sum.splits\<close>)
  moreover have "goal_state_ok (settle ev s (apply_round s src))" for src
    by (rule settle_ok [OF ok]) (use apply_round_ok [OF ok] in auto)
  ultimately show ?thesis using ok by (simp add: goal_apply_def split: option.split)
qed

interpretation goal_replay: cell_invariant goal_projection goal_state_ok
  by unfold_locales (simp add: goal_projection_def goal_apply_ok)

lemmas goal_replay_ok = goal_replay.replay

end
