(* ===== verification/GoalService.thy ===== *)
theory GoalService
  imports Goal
begin

text \<open>
  The goal service (\<open>class goal_service\<close> in \<open>goal.hpp\<close>, second half of \<open>src/goal.cpp\<close>): compare-and-set
  mutations that append one \<open>goal/change\<close> event to the session's log and read the result back from the
  projection. An operation takes and returns the service together with the session store, so that a throw
  carries the state it leaves. \<open>now\<close> and \<open>later\<close> are the clock when the change is built and when the event
  is appended; \<open>gv_notices\<close> lists the \<open>goal/changed\<close> dispatches.
\<close>

section \<open>State\<close>

record goal_view =
  vw_id :: string
  vw_revision :: "64 word"
  vw_objective :: string
  vw_phase :: goal_phase
  vw_blocked_reason :: "goal_block_reason option"
  vw_max_rounds :: "64 word"
  vw_rounds :: "64 word"
  vw_created_at :: "64 word"
  vw_updated_at :: "64 word"
  vw_activation :: goal_activation

record goal_changed =
  gc_session :: session_id
  gc_operation :: string
  gc_ref :: goal_ref
  gc_goal :: "goal_view option"

record goal_service =
  gv_bus :: bool
  gv_projection :: nat
  gv_default_max :: "64 word"
  gv_activations :: "(session_id, goal_activation) omap"
  gv_notices :: "goal_changed list"

type_synonym goal_world = "goal_service \<times> goal_state session_store"

datatype goal_failure = GoalError goal_error_code | SessionError session_error

section \<open>Reads\<close>

definition ensure_session :: "session_id \<Rightarrow> goal_world \<Rightarrow> goal_failure option" where
  "ensure_session i w = (if get_session i (snd w) = None then Some (GoalError AgentNotLive) else None)"

definition expect_state :: "session_id \<Rightarrow> goal_world \<Rightarrow> goal_failure + goal_state" where
  "expect_state i w =
     (case projection_state_of (gv_projection (fst w)) i (snd w) of
        None \<Rightarrow> Inl (GoalError AgentNotLive)
      | Some s \<Rightarrow> (if gp_failure s \<noteq> None then Inl (GoalError InvalidTransition) else Inr s))"

definition expect_current :: "goal_state \<Rightarrow> goal_ref \<Rightarrow> goal_failure + goal_snapshot" where
  "expect_current s ref =
     (case gp_current s of
        None \<Rightarrow> Inl (GoalError NotFound)
      | Some g \<Rightarrow>
          if gr_id ref \<noteq> gs_id g \<or> gr_revision ref \<noteq> gs_revision g then Inl (GoalError StaleRevision) else Inr g)"

definition expect_current_goal :: "session_id \<Rightarrow> goal_ref \<Rightarrow> goal_world \<Rightarrow> goal_failure + (goal_state \<times> goal_snapshot)" where
  "expect_current_goal i ref w =
     (case ensure_session i w of
        Some e \<Rightarrow> Inl e
      | None \<Rightarrow>
          (case expect_state i w of
             Inl e \<Rightarrow> Inl e
           | Inr s \<Rightarrow> (case expect_current s ref of Inl e \<Rightarrow> Inl e | Inr g \<Rightarrow> Inr (s, g))))"

definition activation_of :: "session_id \<Rightarrow> goal_service \<Rightarrow> goal_activation" where
  "activation_of i sv = (case map_of (gv_activations sv) i of None \<Rightarrow> Disarmed | Some a \<Rightarrow> a)"

definition set_activation :: "session_id \<Rightarrow> goal_activation \<Rightarrow> goal_service \<Rightarrow> goal_service" where
  "set_activation i a sv = sv\<lparr>gv_activations := om_insert i a (gv_activations sv)\<rparr>"

definition forget :: "session_id \<Rightarrow> goal_service \<Rightarrow> goal_service" where
  "forget i sv = sv\<lparr>gv_activations := om_erase i (gv_activations sv)\<rparr>"

definition view_of :: "goal_state \<Rightarrow> goal_activation \<Rightarrow> goal_view" where
  "view_of s a =
     (let g = (case gp_current s of None \<Rightarrow> blank_snapshot | Some g \<Rightarrow> g)
      in \<lparr>vw_id = gs_id g, vw_revision = gs_revision g, vw_objective = gs_objective g, vw_phase = gs_phase g,
          vw_blocked_reason = gs_blocked_reason g, vw_max_rounds = gs_max_rounds g, vw_rounds = gp_rounds s,
          vw_created_at = gp_created_at s, vw_updated_at = gp_updated_at s, vw_activation = a\<rparr>)"

definition get_goal :: "session_id \<Rightarrow> goal_world \<Rightarrow> goal_failure + goal_view option" where
  "get_goal i w =
     (case projection_state_of (gv_projection (fst w)) i (snd w) of
        None \<Rightarrow> Inr None
      | Some s \<Rightarrow>
          if gp_failure s \<noteq> None then Inl (GoalError InvalidTransition)
          else if gp_current s = None then Inr None
          else Inr (Some (view_of s (activation_of i (fst w)))))"

definition disarm :: "session_id \<Rightarrow> goal_world \<Rightarrow> goal_view option \<times> goal_world" where
  "disarm i w =
     (case projection_state_of (gv_projection (fst w)) i (snd w) of
        None \<Rightarrow> (None, w)
      | Some s \<Rightarrow>
          if gp_current s = None then (None, w)
          else (Some (view_of s Disarmed), (set_activation i Disarmed (fst w), snd w)))"

section \<open>Commits\<close>

definition change_notice :: "session_id \<Rightarrow> string \<Rightarrow> goal_state \<Rightarrow> goal_activation \<Rightarrow> goal_changed" where
  "change_notice i op s a =
     (case gp_current s of
        Some g \<Rightarrow> \<lparr>gc_session = i, gc_operation = op, gc_ref = ref_of g, gc_goal = Some (view_of s a)\<rparr>
      | None \<Rightarrow>
          \<lparr>gc_session = i, gc_operation = op,
           gc_ref = (case gp_last_ref s of None \<Rightarrow> \<lparr>gr_id = [], gr_revision = 0\<rparr> | Some r \<Rightarrow> r), gc_goal = None\<rparr>)"

definition dispatch_change :: "goal_changed \<Rightarrow> goal_service \<Rightarrow> goal_service" where
  "dispatch_change n sv = (if gv_bus sv then sv\<lparr>gv_notices := gv_notices sv @ [n]\<rparr> else sv)"

definition change_operation :: "json \<Rightarrow> string" where
  "change_operation change =
     (case Option.bind (as_object change) (\<lambda>m. opt_string_at m ''operation'') of None \<Rightarrow> ''clear'' | Some op \<Rightarrow> op)"

definition commit_change ::
  "session_id \<Rightarrow> json \<Rightarrow> goal_activation \<Rightarrow> 64 word \<Rightarrow> goal_world \<Rightarrow> (goal_failure + unit) \<times> goal_world" where
  "commit_change i change a later w =
     (case w of (sv, st) \<Rightarrow>
        (case get_session i st of
           None \<Rightarrow> (Inl (GoalError AgentNotLive), w)
         | Some r \<Rightarrow>
             let sv = set_activation i a sv
             in (case append_event r ''goal/change'' change later st of
                   (Inl e, st) \<Rightarrow> (Inl (SessionError e), (sv, st))
                 | (Inr _, st) \<Rightarrow>
                     (case expect_state i (sv, st) of
                        Inl e \<Rightarrow> (Inl e, (sv, st))
                      | Inr s \<Rightarrow> (Inr (), (dispatch_change (change_notice i (change_operation change) s a) sv, st))))))"

definition commit_snapshot ::
  "session_id \<Rightarrow> string \<Rightarrow> goal_snapshot \<Rightarrow> 64 word \<Rightarrow> 64 word \<Rightarrow> 64 word \<Rightarrow> goal_activation \<Rightarrow> 64 word
     \<Rightarrow> goal_world \<Rightarrow> (goal_failure + goal_view) \<times> goal_world" where
  "commit_snapshot i op g rounds created updated a later w =
     (case commit_change i (change_json op g rounds created updated) a later w of
        (Inl e, w) \<Rightarrow> (Inl e, w)
      | (Inr _, w) \<Rightarrow> (case expect_state i w of Inl e \<Rightarrow> (Inl e, w) | Inr s \<Rightarrow> (Inr (view_of s a), w)))"

definition max_time :: "64 word \<Rightarrow> 64 word \<Rightarrow> 64 word" where
  "max_time a b = (if sint a < sint b then b else a)"

definition commit_current ::
  "session_id \<Rightarrow> string \<Rightarrow> goal_snapshot \<Rightarrow> goal_activation \<Rightarrow> 64 word \<Rightarrow> 64 word
     \<Rightarrow> goal_world \<Rightarrow> (goal_failure + goal_view) \<times> goal_world" where
  "commit_current i op g a now later w =
     (case expect_state i w of
        Inl e \<Rightarrow> (Inl e, w)
      | Inr s \<Rightarrow> commit_snapshot i op g (gp_rounds s) (gp_created_at s) (max_time now (gp_updated_at s)) a later w)"

section \<open>Mutations\<close>

definition create_goal ::
  "session_id \<Rightarrow> string \<Rightarrow> 64 word option \<Rightarrow> 64 word \<Rightarrow> 64 word \<Rightarrow> 64 word \<Rightarrow> goal_world
     \<Rightarrow> (goal_failure + goal_view) \<times> goal_world" where
  "create_goal i objective max_rounds random now later w =
     (case ensure_session i w of
        Some e \<Rightarrow> (Inl e, w)
      | None \<Rightarrow>
          let normalized = trim objective;
              cap = (case max_rounds of None \<Rightarrow> gv_default_max (fst w) | Some m \<Rightarrow> m)
          in if normalized = [] then (Inl (GoalError InvalidObjective), w)
             else if cap < 1 then (Inl (GoalError InvalidMaxRounds), w)
             else
               (case expect_state i w of
                  Inl e \<Rightarrow> (Inl e, w)
                | Inr s \<Rightarrow>
                    if (case gp_current s of None \<Rightarrow> False | Some g \<Rightarrow> gs_phase g \<noteq> PhaseComplete)
                    then (Inl (GoalError GoalExists), w)
                    else
                      commit_snapshot i ''create''
                        \<lparr>gs_id = mint_id ''goal-'' ''-'' now random, gs_revision = 1, gs_objective = normalized,
                         gs_phase = PhaseActive, gs_blocked_reason = None, gs_max_rounds = cap\<rparr>
                        0 now now Armed later w))"

definition edit_goal ::
  "session_id \<Rightarrow> goal_ref \<Rightarrow> string option \<Rightarrow> 64 word option \<Rightarrow> 64 word \<Rightarrow> 64 word \<Rightarrow> goal_world
     \<Rightarrow> (goal_failure + goal_view) \<times> goal_world" where
  "edit_goal i ref objective max_rounds now later w =
     (case expect_current_goal i ref w of
        Inl e \<Rightarrow> (Inl e, w)
      | Inr (s, current) \<Rightarrow>
          let g = current\<lparr>gs_revision := gs_revision current + 1\<rparr>
          in if objective = None \<and> max_rounds = None then (Inl (GoalError InvalidEdit), w)
             else if (case objective of None \<Rightarrow> False | Some obj \<Rightarrow> trim obj = [])
             then (Inl (GoalError InvalidObjective), w)
             else if (case max_rounds of None \<Rightarrow> False | Some m \<Rightarrow> m < 1)
             then (Inl (GoalError InvalidMaxRounds), w)
             else
               commit_current i ''edit''
                 (g\<lparr>gs_objective := (case objective of None \<Rightarrow> gs_objective g | Some obj \<Rightarrow> trim obj),
                    gs_max_rounds := (case max_rounds of None \<Rightarrow> gs_max_rounds g | Some m \<Rightarrow> m)\<rparr>)
                 (activation_of i (fst w)) now later w)"

definition with_phase :: "goal_snapshot \<Rightarrow> goal_phase \<Rightarrow> goal_snapshot" where
  "with_phase g p = g\<lparr>gs_revision := gs_revision g + 1, gs_phase := p, gs_blocked_reason := None\<rparr>"

definition pause_goal ::
  "session_id \<Rightarrow> goal_ref \<Rightarrow> 64 word \<Rightarrow> 64 word \<Rightarrow> goal_world \<Rightarrow> (goal_failure + goal_view) \<times> goal_world" where
  "pause_goal i ref now later w =
     (case expect_current_goal i ref w of
        Inl e \<Rightarrow> (Inl e, w)
      | Inr (s, g) \<Rightarrow>
          if gs_phase g \<noteq> PhaseActive then (Inl (GoalError InvalidTransition), w)
          else commit_current i ''pause'' (with_phase g PhasePaused) Disarmed now later w)"

definition resume_goal ::
  "session_id \<Rightarrow> goal_ref \<Rightarrow> 64 word \<Rightarrow> 64 word \<Rightarrow> goal_world \<Rightarrow> (goal_failure + goal_view) \<times> goal_world" where
  "resume_goal i ref now later w =
     (case expect_current_goal i ref w of
        Inl e \<Rightarrow> (Inl e, w)
      | Inr (s, g) \<Rightarrow>
          if gs_phase g \<noteq> PhaseActive \<and> gs_phase g \<noteq> PhasePaused \<and> gs_phase g \<noteq> PhaseBlocked
          then (Inl (GoalError InvalidTransition), w)
          else if gs_phase g = PhaseActive \<and> activation_of i (fst w) = Armed
          then (Inl (GoalError InvalidTransition), w)
          else if gp_rounds s \<ge> gs_max_rounds g then (Inl (GoalError InvalidTransition), w)
          else commit_current i ''resume'' (with_phase g PhaseActive) Armed now later w)"

definition complete_goal ::
  "session_id \<Rightarrow> goal_ref \<Rightarrow> 64 word \<Rightarrow> 64 word \<Rightarrow> goal_world \<Rightarrow> (goal_failure + goal_view) \<times> goal_world" where
  "complete_goal i ref now later w =
     (case expect_current_goal i ref w of
        Inl e \<Rightarrow> (Inl e, w)
      | Inr (s, g) \<Rightarrow>
          if gs_phase g = PhaseComplete then (Inl (GoalError InvalidTransition), w)
          else commit_current i ''complete'' (with_phase g PhaseComplete) Disarmed now later w)"

definition block_goal ::
  "session_id \<Rightarrow> goal_ref \<Rightarrow> goal_block_reason \<Rightarrow> 64 word \<Rightarrow> 64 word \<Rightarrow> goal_world
     \<Rightarrow> (goal_failure + goal_view) \<times> goal_world" where
  "block_goal i ref reason now later w =
     (case expect_current_goal i ref w of
        Inl e \<Rightarrow> (Inl e, w)
      | Inr (s, g) \<Rightarrow>
          if gs_phase g \<noteq> PhaseActive then (Inl (GoalError InvalidTransition), w)
          else if trim (br_code reason) = [] \<or> trim (br_message reason) = []
          then (Inl (GoalError InvalidBlockReason), w)
          else
            commit_current i ''block''
              ((with_phase g PhaseBlocked)\<lparr>gs_blocked_reason :=
                 Some \<lparr>br_code = trim (br_code reason), br_message = trim (br_message reason)\<rparr>\<rparr>)
              Disarmed now later w)"

definition clear_goal ::
  "session_id \<Rightarrow> goal_ref \<Rightarrow> 64 word \<Rightarrow> 64 word \<Rightarrow> goal_world \<Rightarrow> (goal_failure + goal_ref) \<times> goal_world" where
  "clear_goal i ref now later w =
     (case expect_current_goal i ref w of
        Inl e \<Rightarrow> (Inl e, w)
      | Inr (s, g) \<Rightarrow>
          let tombstone = \<lparr>gr_id = gs_id g, gr_revision = gs_revision g + 1\<rparr>
          in (case commit_change i (clear_json tombstone (max_time now (gp_updated_at s))) Disarmed later w of
                (Inl e, w) \<Rightarrow> (Inl e, w)
              | (Inr _, w) \<Rightarrow> (Inr tombstone, w)))"

section \<open>Commands\<close>

text \<open>The mutations as one sum, for statements about all of them; a result is the new reference.\<close>

datatype goal_command =
    CreateGoal string "64 word option" "64 word"
  | EditGoal goal_ref "string option" "64 word option"
  | PauseGoal goal_ref
  | ResumeGoal goal_ref
  | CompleteGoal goal_ref
  | BlockGoal goal_ref goal_block_reason
  | ClearGoal goal_ref

definition view_ref :: "(goal_failure + goal_view) \<times> goal_world \<Rightarrow> (goal_failure + goal_ref) \<times> goal_world" where
  "view_ref res = map_prod (map_sum id (\<lambda>v. \<lparr>gr_id = vw_id v, gr_revision = vw_revision v\<rparr>)) id res"

fun run_command ::
  "session_id \<Rightarrow> goal_command \<Rightarrow> 64 word \<Rightarrow> 64 word \<Rightarrow> goal_world \<Rightarrow> (goal_failure + goal_ref) \<times> goal_world" where
  "run_command i (CreateGoal obj mx random) now later w = view_ref (create_goal i obj mx random now later w)"
| "run_command i (EditGoal ref obj mx) now later w = view_ref (edit_goal i ref obj mx now later w)"
| "run_command i (PauseGoal ref) now later w = view_ref (pause_goal i ref now later w)"
| "run_command i (ResumeGoal ref) now later w = view_ref (resume_goal i ref now later w)"
| "run_command i (CompleteGoal ref) now later w = view_ref (complete_goal i ref now later w)"
| "run_command i (BlockGoal ref reason) now later w = view_ref (block_goal i ref reason now later w)"
| "run_command i (ClearGoal ref) now later w = clear_goal i ref now later w"

fun command_ref :: "goal_command \<Rightarrow> goal_ref option" where
  "command_ref (CreateGoal obj mx random) = None"
| "command_ref (EditGoal ref obj mx) = Some ref"
| "command_ref (PauseGoal ref) = Some ref"
| "command_ref (ResumeGoal ref) = Some ref"
| "command_ref (CompleteGoal ref) = Some ref"
| "command_ref (BlockGoal ref reason) = Some ref"
| "command_ref (ClearGoal ref) = Some ref"

end
