(* ===== verification/GoalLaws.thy ===== *)
theory GoalLaws
  imports GoalService
begin

text \<open>
  What the goal service promises, against an abstract goal: a command is a function on the replayed state
  alone, and the service, writing an event and reading the projection back, computes that function. From
  the abstract side follow that the service never poisons the projection it reads, and that a reference
  is good for one success.
\<close>

section \<open>The abstract goal\<close>

definition advance :: "goal_snapshot \<Rightarrow> 64 word \<Rightarrow> goal_state \<Rightarrow> goal_state" where
  "advance g now s =
     s\<lparr>gp_current := Some g, gp_updated_at := max_time now (gp_updated_at s), gp_last_ref := Some (ref_of g)\<rparr>"

definition on_current :: "goal_ref \<Rightarrow> goal_state \<Rightarrow> (goal_snapshot \<Rightarrow> goal_error_code + goal_state) \<Rightarrow> goal_error_code + goal_state" where
  "on_current ref s f =
     (case gp_current s of
        None \<Rightarrow> Inl NotFound
      | Some g \<Rightarrow> if ref \<noteq> ref_of g then Inl StaleRevision else f g)"

definition first_goal :: "string \<Rightarrow> 64 word \<Rightarrow> 64 word \<Rightarrow> 64 word \<Rightarrow> goal_snapshot" where
  "first_goal objective cap random now =
     \<lparr>gs_id = mint_id ''goal-'' ''-'' now random, gs_revision = 1, gs_objective = objective,
      gs_phase = PhaseActive, gs_blocked_reason = None, gs_max_rounds = cap\<rparr>"

fun goal_step :: "bool \<Rightarrow> 64 word \<Rightarrow> 64 word \<Rightarrow> goal_command \<Rightarrow> goal_state \<Rightarrow> goal_error_code + goal_state" where
  "goal_step armed dflt now (CreateGoal obj mx random) s =
     (if trim obj = [] then Inl InvalidObjective
      else if case_option dflt id mx = 0 then Inl InvalidMaxRounds
      else if \<exists>g \<in> set_option (gp_current s). gs_phase g \<noteq> PhaseComplete then Inl GoalExists
      else let g = first_goal (trim obj) (case_option dflt id mx) random now
           in Inr (s\<lparr>gp_current := Some g, gp_rounds := 0, gp_created_at := now, gp_updated_at := now,
                     gp_last_ref := Some (ref_of g), gp_seen_ids := gp_seen_ids s @ [gs_id g]\<rparr>))"
| "goal_step armed dflt now (EditGoal ref obj mx) s = on_current ref s (\<lambda>g.
     if obj = None \<and> mx = None then Inl InvalidEdit
     else if \<exists>x \<in> set_option obj. trim x = [] then Inl InvalidObjective
     else if mx = Some 0 then Inl InvalidMaxRounds
     else Inr (advance (g\<lparr>gs_revision := gs_revision g + 1, gs_objective := case_option (gs_objective g) trim obj,
                  gs_max_rounds := case_option (gs_max_rounds g) id mx\<rparr>) now s))"
| "goal_step armed dflt now (PauseGoal ref) s = on_current ref s (\<lambda>g.
     if gs_phase g \<noteq> PhaseActive then Inl InvalidTransition
     else Inr (advance (with_phase g PhasePaused) now s))"
| "goal_step armed dflt now (ResumeGoal ref) s = on_current ref s (\<lambda>g.
     if gs_phase g = PhaseComplete \<or> (gs_phase g = PhaseActive \<and> armed) \<or> gs_max_rounds g \<le> gp_rounds s
     then Inl InvalidTransition
     else Inr (advance (with_phase g PhaseActive) now s))"
| "goal_step armed dflt now (CompleteGoal ref) s = on_current ref s (\<lambda>g.
     if gs_phase g = PhaseComplete then Inl InvalidTransition
     else Inr (advance (with_phase g PhaseComplete) now s))"
| "goal_step armed dflt now (BlockGoal ref reason) s = on_current ref s (\<lambda>g.
     if gs_phase g \<noteq> PhaseActive then Inl InvalidTransition
     else if trim (br_code reason) = [] \<or> trim (br_message reason) = [] then Inl InvalidBlockReason
     else Inr (advance ((with_phase g PhaseBlocked)\<lparr>gs_blocked_reason :=
                  Some \<lparr>br_code = trim (br_code reason), br_message = trim (br_message reason)\<rparr>\<rparr>) now s))"
| "goal_step armed dflt now (ClearGoal ref) s = on_current ref s (\<lambda>g.
     Inr (s\<lparr>gp_current := None, gp_rounds := 0, gp_created_at := 0, gp_updated_at := 0,
            gp_last_ref := Some \<lparr>gr_id = gs_id g, gr_revision = gs_revision g + 1\<rparr>\<rparr>))"

section \<open>A commit writes one event\<close>

definition healthy :: "session_id \<Rightarrow> goal_world \<Rightarrow> bool" where
  "healthy i w \<longleftrightarrow> ss_alive (snd w) \<and>
     (case (get_session i (snd w), map_of (ss_cells (snd w)) (gv_projection (fst w))) of
        (Some r, Some c) \<Rightarrow>
          r < length (ss_objects (snd w)) \<and> sh_id (se_header (ss_objects (snd w) ! r)) = i \<and>
          pc_types c = pc_types goal_projection \<and> pc_apply c = goal_apply \<and>
          (case map_of (pc_states c) i of None \<Rightarrow> False | Some s \<Rightarrow> gp_failure s = None \<and> goal_state_ok s)
      | _ \<Rightarrow> False)"

definition goal_log :: "session_id \<Rightarrow> goal_world \<Rightarrow> session_event list" where
  "goal_log i w = (case get_session i (snd w) of None \<Rightarrow> [] | Some r \<Rightarrow> se_log (ss_objects (snd w) ! r))"

definition committed :: "session_id \<Rightarrow> goal_world \<Rightarrow> goal_activation \<Rightarrow> goal_state \<Rightarrow> goal_world \<Rightarrow> bool" where
  "committed i w a s w' \<longleftrightarrow> healthy i w' \<and> expect_state i w' = Inr s \<and> activation_of i (fst w') = a \<and>
     length (goal_log i w') = Suc (length (goal_log i w)) \<and> take (length (goal_log i w)) (goal_log i w') = goal_log i w"

lemma healthy_reads:
  assumes "healthy i w"
  obtains r c s where "get_session i (snd w) = Some r" "map_of (ss_cells (snd w)) (gv_projection (fst w)) = Some c"
    "ss_alive (snd w)" "r < length (ss_objects (snd w))" "sh_id (se_header (ss_objects (snd w) ! r)) = i"
    "pc_types c = pc_types goal_projection" "pc_apply c = goal_apply" "map_of (pc_states c) i = Some s"
    "gp_failure s = None" "goal_state_ok s" "expect_state i w = Inr s" "ensure_session i w = None"
  using assms by (auto simp: healthy_def expect_state_def projection_state_of_def ensure_session_def split: option.splits)

lemma cell_drive_goal:
  assumes "pc_types c = pc_types goal_projection" and "pc_apply c = goal_apply" and "map_of (pc_states c) i = Some s"
    and "ev_type ev = ''goal/change''" and "gp_failure s = None" and "decode_change (ev_data ev) = Inr ch" and "apply_change s ch = Inr s'"
  shows "map_of (pc_states (cell_drive i ev c)) i = Some s'"
  using assms by (simp add: cell_drive_def accepts_def goal_projection_def goal_apply_def settle_def)

lemma commit_change_ok:
  assumes h: "healthy i w" and s: "expect_state i w = Inr s"
    and d: "decode_change change = Inr ch" and a: "apply_change s ch = Inr s'"
  shows "\<exists>w'. commit_change i change act later w = (Inr (), w') \<and> committed i w act s' w'"
proof -
  obtain sv st where w: "w = (sv, st)" by (cases w)
  from h obtain r c t where r: "get_session i st = Some r" "map_of (ss_cells st) (gv_projection sv) = Some c" "ss_alive st"
    "r < length (ss_objects st)" "sh_id (se_header (ss_objects st ! r)) = i"
    and c: "pc_types c = pc_types goal_projection" "pc_apply c = goal_apply" "map_of (pc_states c) i = Some t"
    and t: "gp_failure t = None" "goal_state_ok t" "expect_state i w = Inr t"
    by (rule healthy_reads) (auto simp: w)
  from s t(3) have [simp]: "t = s" by simp
  from apply_change_ok [OF t(2) [simplified] d a] t(1) have ok: "goal_state_ok s'" "gp_failure s' = None" by simp_all
  let ?s = "ss_objects st ! r"
  let ?ev = "\<lparr>ev_seq = se_next_seq ?s, ev_time = later, ev_type = ''goal/change'', ev_data = change, ev_ignorable = False\<rparr>"
  let ?c = "classify st ?ev"
  let ?st = "notice (SessionAppended i ?c) (map_cells (cell_drive i ?c)
    (set_session r (\<lambda>x. x\<lparr>se_next_seq := se_next_seq ?s + 1,
       se_surface := surface_fold (ss_projections st) ?c (se_surface x), se_log := se_log x @ [?c]\<rparr>) st))"
  have v: "validate_event ?ev = None" by (simp add: validate_event_def is_builtin_surface_type_def)
  have ap: "append_event r ''goal/change'' change later st = (Inr (se_next_seq ?s), ?st)"
    using append_alive [OF r(3,4), of "''goal/change''" change later] v r(1,5)
    by (simp add: get_session_def Let_def)
  have drive: "map_of (pc_states (cell_drive i ?c c)) i = Some s'"
    by (rule cell_drive_goal [OF c(1,2)]) (use c(3) t(1) d a in auto)
  let ?sv = "set_activation i act sv"
  have p: "gv_projection ?sv = gv_projection sv" by (simp add: set_activation_def)
  have st: "projection_state_of (gv_projection sv) i ?st = Some s'"
    using r(2,3) drive by (simp add: projection_state_of_def)
  then have ex: "expect_state i (?sv, ?st) = Inr s'" by (simp add: expect_state_def p ok)
  let ?n = "dispatch_change (change_notice i (change_operation change) s' act) ?sv"
  have n: "gv_projection ?n = gv_projection sv" "gv_activations ?n = om_insert i act (gv_activations sv)"
    by (simp_all add: dispatch_change_def set_activation_def)
  have "commit_change i change act later w = (Inr (), (?n, ?st))"
    using r(1) ap ex by (simp add: commit_change_def w Let_def)
  moreover have g: "get_session i ?st = Some r" using r(1) by (simp add: get_session_def)
  have "committed i w act s' (?n, ?st)"
    unfolding committed_def
  proof (intro conjI)
    show "healthy i (?n, ?st)"
      using r c drive ok g by (simp add: healthy_def n del: classify_fields)
    show "expect_state i (?n, ?st) = Inr s'" using ex by (simp add: expect_state_def n p st ok)
    show "activation_of i (fst (?n, ?st)) = act" by (simp add: activation_of_def n)
    show "length (goal_log i (?n, ?st)) = Suc (length (goal_log i w))"
      "take (length (goal_log i w)) (goal_log i (?n, ?st)) = goal_log i w"
      using r(1,4) g by (simp_all add: goal_log_def w)
  qed
  ultimately show ?thesis by blast
qed

lemma expect_current_goal_ok:
  assumes "healthy i w" and "expect_state i w = Inr s"
  shows "expect_current_goal i ref w =
    (case gp_current s of
       None \<Rightarrow> Inl (GoalError NotFound)
     | Some g \<Rightarrow> if ref \<noteq> ref_of g then Inl (GoalError StaleRevision) else Inr (s, g))"
proof -
  have "ensure_session i w = None" using assms(1) by (rule healthy_reads)
  then show ?thesis using assms(2)
    by (cases ref) (auto simp: expect_current_goal_def expect_current_def ref_of_def split: option.split)
qed

lemma max_time_ge: "sint t \<le> sint (max_time now t)"
  by (simp add: max_time_def)

lemma healthy_state_ok: "healthy i w \<Longrightarrow> expect_state i w = Inr s \<Longrightarrow> goal_state_ok s"
  by (erule healthy_reads) simp

lemma committed_state: "committed i w a s w' \<Longrightarrow> expect_state i w' = Inr s"
  by (simp add: committed_def)

lemma commit_current_ok:
  assumes h: "healthy i w" and s: "expect_state i w = Inr s" and g: "gp_current s = Some g"
    and n: "snapshot_ok g'" "gs_id g' = gs_id g" "gs_revision g' = gs_revision g + 1"
    and k: "operation_of op = Some k" "k \<noteq> OpClear" "k \<noteq> OpCreate" "transition_error k (gp_rounds s) g g' = None"
  shows "\<exists>w'. commit_current i op g' a now later w = (Inr (view_of (advance g' now s) a), w') \<and>
    committed i w a (advance g' now s) w'"
proof -
  from healthy_state_ok [OF h s] have t: "sint (gp_created_at s) \<ge> 0" "sint (gp_created_at s) \<le> sint (gp_updated_at s)"
    by (simp_all add: goal_state_ok_def)
  let ?u = "max_time now (gp_updated_at s)"
  let ?ch = "(blank_change k)\<lparr>ch_goal := g', ch_rounds := gp_rounds s, ch_created_at := gp_created_at s, ch_updated_at := ?u\<rparr>"
  have d: "decode_change (change_json op g' (gp_rounds s) (gp_created_at s) ?u) = Inr ?ch"
    by (rule decode_encode_change [OF n(1) k(1,2) t(1)]) (use t(2) max_time_ge [of "gp_updated_at s" now] in simp)
  have "apply_change s ?ch = Inr (install g' ?ch s)"
    using g n k max_time_ge [of "gp_updated_at s" now] by (simp add: apply_change_def apply_update_def blank_change_def Let_def not_less)
  moreover have "install g' ?ch s = advance g' now s" by (simp add: install_def advance_def)
  ultimately have a: "apply_change s ?ch = Inr (advance g' now s)" by simp
  from commit_change_ok [OF h s d a] obtain w' where
    c: "commit_change i (change_json op g' (gp_rounds s) (gp_created_at s) ?u) a later w = (Inr (), w')"
    "committed i w a (advance g' now s) w'" by blast
  then show ?thesis by (auto simp: commit_current_def commit_snapshot_def s committed_state)
qed

section \<open>The service refines the abstract goal\<close>

text \<open>
  What the clock, the random device and the revision counter must give: creation happens after the epoch
  with an unused id, and the revision does not wrap.
\<close>

fun admissible :: "64 word \<Rightarrow> goal_command \<Rightarrow> goal_state \<Rightarrow> bool" where
  "admissible now (CreateGoal obj mx random) s \<longleftrightarrow>
     0 \<le> sint now \<and> mint_id ''goal-'' ''-'' now random \<notin> set (gp_seen_ids s)"
| "admissible now cmd s \<longleftrightarrow> (\<forall>g \<in> set_option (gp_current s). gs_revision g + 1 \<noteq> 0)"

definition refines ::
  "session_id \<Rightarrow> goal_world \<Rightarrow> goal_error_code + goal_state \<Rightarrow> (goal_failure + goal_ref) \<times> goal_world \<Rightarrow> bool" where
  "refines i w res out \<longleftrightarrow>
     (case res of
        Inl e \<Rightarrow> out = (Inl (GoalError e), w)
      | Inr s \<Rightarrow> (\<exists>ref a w'. gp_last_ref s = Some ref \<and> out = (Inr ref, w') \<and> committed i w a s w'))"

lemma on_current_cases:
  assumes "healthy i w" and "expect_state i w = Inr s"
    and "out = (case expect_current_goal i ref w of Inl e \<Rightarrow> (Inl e, w) | Inr (s, g) \<Rightarrow> f s g)"
    and "\<And>g. gp_current s = Some g \<Longrightarrow> ref = ref_of g \<Longrightarrow> refines i w (h g) (view_ref (f s g))"
  shows "refines i w (on_current ref s h) (view_ref out)"
proof (cases "gp_current s")
  case None
  then show ?thesis
    by (simp add: assms(3) expect_current_goal_ok [OF assms(1,2)] refines_def on_current_def view_ref_def)
next
  case (Some g)
  show ?thesis
  proof (cases "ref = ref_of g")
    case True
    with assms(4) [OF Some] show ?thesis
      by (simp add: assms(3) expect_current_goal_ok [OF assms(1,2)] on_current_def Some)
  qed (simp add: assms(3) expect_current_goal_ok [OF assms(1,2)] refines_def on_current_def view_ref_def Some)
qed

lemma refines_failed [simp]: "refines i w (Inl e) (view_ref (Inl (GoalError e), w))"
  by (simp add: refines_def view_ref_def)

lemma refines_advance:
  assumes "healthy i w" and "expect_state i w = Inr s" and "gp_current s = Some g"
    and "snapshot_ok g'" "gs_id g' = gs_id g" "gs_revision g' = gs_revision g + 1"
    and "operation_of op = Some k" "k \<noteq> OpClear" "k \<noteq> OpCreate" "transition_error k (gp_rounds s) g g' = None"
  shows "refines i w (Inr (advance g' now s)) (view_ref (commit_current i op g' a now later w))"
proof -
  from commit_current_ok [OF assms, of a now later] obtain w' where
    "commit_current i op g' a now later w = (Inr (view_of (advance g' now s) a), w')"
    "committed i w a (advance g' now s) w'" by blast
  then show ?thesis by (auto simp: refines_def view_ref_def advance_def view_of_def ref_of_def)
qed


lemma snapshot_current: "healthy i w \<Longrightarrow> expect_state i w = Inr s \<Longrightarrow> gp_current s = Some g \<Longrightarrow> snapshot_ok g"
  using healthy_state_ok by (fastforce simp: goal_state_ok_def)

lemma snapshot_with_phase: "snapshot_ok g \<Longrightarrow> gs_revision g + 1 \<noteq> 0 \<Longrightarrow> p \<noteq> PhaseBlocked \<Longrightarrow> snapshot_ok (with_phase g p)"
  by (simp add: snapshot_ok_def with_phase_def)

lemma with_phase_fields [simp]:
  "gs_id (with_phase g p) = gs_id g" "gs_revision (with_phase g p) = gs_revision g + 1" "gs_phase (with_phase g p) = p"
  "gs_objective (with_phase g p) = gs_objective g" "gs_max_rounds (with_phase g p) = gs_max_rounds g"
  by (simp_all add: with_phase_def)

lemma create_refines:
  assumes h: "healthy i w" and s: "expect_state i w = Inr s" and a: "admissible now (CreateGoal obj mx random) s"
  shows "refines i w (goal_step armed (gv_default_max (fst w)) now (CreateGoal obj mx random) s)
    (run_command i (CreateGoal obj mx random) now later w)"
proof -
  let ?cap = "case_option (gv_default_max (fst w)) id mx"
  let ?g = "first_goal (trim obj) ?cap random now"
  let ?s = "s\<lparr>gp_current := Some ?g, gp_rounds := 0, gp_created_at := now, gp_updated_at := now,
      gp_last_ref := Some (ref_of ?g), gp_seen_ids := gp_seen_ids s @ [gs_id ?g]\<rparr>"
  have e: "ensure_session i w = None" using h by (rule healthy_reads)
  have cap: "(case mx of None \<Rightarrow> gv_default_max (fst w) | Some m \<Rightarrow> m) = ?cap" by (simp split: option.split)
  consider "trim obj = [] \<or> ?cap = 0 \<or> (\<exists>g. gp_current s = Some g \<and> gs_phase g \<noteq> PhaseComplete)"
    | "trim obj \<noteq> []" "?cap \<noteq> 0" "\<forall>g. gp_current s = Some g \<longrightarrow> gs_phase g = PhaseComplete" by blast
  then show ?thesis
  proof cases
    case 1
    then show ?thesis unfolding run_command.simps create_goal_def e Let_def cap by (auto simp: word_less_1 s)
  next
    case 2
    let ?ch = "(blank_change OpCreate)\<lparr>ch_goal := ?g, ch_rounds := 0, ch_created_at := now, ch_updated_at := now\<rparr>"
    have ok: "snapshot_ok ?g"
      using 2(1,2) trim_idempotent [of obj] by (simp add: snapshot_ok_def first_goal_def mint_id_def)
    have d: "decode_change (change_json ''create'' ?g 0 now now) = Inr ?ch"
      by (rule decode_encode_change [OF ok]) (use a in simp_all)
    have "apply_change s ?ch = Inr ?s"
      using a 2(3) by (auto simp: apply_change_def apply_create_def blank_change_def Let_def first_goal_def install_def
        split: option.splits)
    from commit_change_ok [OF h s d this] obtain w' where
      c: "commit_change i (change_json ''create'' ?g 0 now now) Armed later w = (Inr (), w')" "committed i w Armed ?s w'" by blast
    have "create_goal i obj mx random now later w = (Inr (view_of ?s Armed), w')"
      using 2 c committed_state [OF c(2)]
      by (auto simp: create_goal_def e Let_def cap word_less_1 s commit_snapshot_def first_goal_def split: option.splits)
    with 2 c(2) show ?thesis by (auto simp: refines_def view_ref_def view_of_def ref_of_def Let_def)
  qed
qed

lemma edit_refines:
  assumes h: "healthy i w" and s: "expect_state i w = Inr s" and a: "admissible now (EditGoal ref obj mx) s"
  shows "refines i w (goal_step armed (gv_default_max (fst w)) now (EditGoal ref obj mx) s)
    (run_command i (EditGoal ref obj mx) now later w)"
  unfolding goal_step.simps run_command.simps
proof (rule on_current_cases [OF h s edit_goal_def])
  fix g assume g: "gp_current s = Some g" "ref = ref_of g"
  let ?g = "g\<lparr>gs_revision := gs_revision g + 1, gs_objective := case_option (gs_objective g) trim obj,
      gs_max_rounds := case_option (gs_max_rounds g) id mx\<rparr>"
  show "refines i w
      (if obj = None \<and> mx = None then Inl InvalidEdit
       else if \<exists>x \<in> set_option obj. trim x = [] then Inl InvalidObjective
       else if mx = Some 0 then Inl InvalidMaxRounds
       else Inr (advance ?g now s))
      (view_ref
        (let g = g\<lparr>gs_revision := gs_revision g + 1\<rparr>
         in if obj = None \<and> mx = None then (Inl (GoalError InvalidEdit), w)
            else if case obj of None \<Rightarrow> False | Some obj \<Rightarrow> trim obj = [] then (Inl (GoalError InvalidObjective), w)
            else if case mx of None \<Rightarrow> False | Some m \<Rightarrow> m < 1 then (Inl (GoalError InvalidMaxRounds), w)
            else commit_current i ''edit''
                   (g\<lparr>gs_objective := case obj of None \<Rightarrow> gs_objective g | Some obj \<Rightarrow> trim obj,
                      gs_max_rounds := case mx of None \<Rightarrow> gs_max_rounds g | Some m \<Rightarrow> m\<rparr>)
                   (activation_of i (fst w)) now later w))"
  proof (cases "(obj = None \<and> mx = None) \<or> (\<exists>x. obj = Some x \<and> trim x = []) \<or> mx = Some 0")
    case True
    then show ?thesis by (auto simp: Let_def word_less_1 split: option.splits)
  next
    case False
    have ok: "snapshot_ok ?g"
      using snapshot_current [OF h s g(1)] a False g(1) trim_idempotent
      by (auto simp: snapshot_ok_def split: option.splits)
    have "refines i w (Inr (advance ?g now s)) (view_ref (commit_current i ''edit'' ?g (activation_of i (fst w)) now later w))"
      by (rule refines_advance [OF h s g(1) ok, where k = OpEdit]) (simp_all add: transition_error_def Let_def)
    with False show ?thesis by (cases obj; cases mx; simp add: Let_def word_less_1)
  qed
qed

lemma phase_refines:
  assumes h: "healthy i w" and s: "expect_state i w = Inr s" and g: "gp_current s = Some g"
    and r: "gs_revision g + 1 \<noteq> 0" and p: "p \<noteq> PhaseBlocked"
    and k: "operation_of op = Some k" "k \<noteq> OpClear" "k \<noteq> OpCreate" "transition_error k (gp_rounds s) g (with_phase g p) = None"
  shows "refines i w (Inr (advance (with_phase g p) now s)) (view_ref (commit_current i op (with_phase g p) a now later w))"
  by (rule refines_advance [OF h s g snapshot_with_phase [OF snapshot_current [OF h s g] r p] _ _ k]) simp_all

lemma not_inactive: "p \<noteq> PhaseActive \<and> p \<noteq> PhasePaused \<and> p \<noteq> PhaseBlocked \<longleftrightarrow> p = PhaseComplete"
  by (cases p) simp_all

lemma same_definition_phase: "same_definition g (with_phase g p)" "same_definition g ((with_phase g p)\<lparr>gs_blocked_reason := b\<rparr>)"
  by (simp_all add: same_definition_def with_phase_def)

lemma pause_refines:
  assumes h: "healthy i w" and s: "expect_state i w = Inr s" and a: "admissible now (PauseGoal ref) s"
  shows "refines i w (goal_step armed dflt now (PauseGoal ref) s) (run_command i (PauseGoal ref) now later w)"
  unfolding goal_step.simps run_command.simps
  by (rule on_current_cases [OF h s pause_goal_def])
     (use a in \<open>auto intro!: phase_refines [OF h s, where k = OpPause] simp: transition_error_def same_definition_phase\<close>)

lemma complete_refines:
  assumes h: "healthy i w" and s: "expect_state i w = Inr s" and a: "admissible now (CompleteGoal ref) s"
  shows "refines i w (goal_step armed dflt now (CompleteGoal ref) s) (run_command i (CompleteGoal ref) now later w)"
  unfolding goal_step.simps run_command.simps
  by (rule on_current_cases [OF h s complete_goal_def])
     (use a in \<open>auto intro!: phase_refines [OF h s, where k = OpComplete] simp: transition_error_def same_definition_phase\<close>)

lemma resume_refines:
  assumes h: "healthy i w" and s: "expect_state i w = Inr s" and a: "admissible now (ResumeGoal ref) s"
  shows "refines i w (goal_step (activation_of i (fst w) = Armed) dflt now (ResumeGoal ref) s)
    (run_command i (ResumeGoal ref) now later w)"
  unfolding goal_step.simps run_command.simps
proof (rule on_current_cases [OF h s resume_goal_def])
  fix g assume g: "gp_current s = Some g" "ref = ref_of g"
  have k: "transition_error OpResume (gp_rounds s) g (with_phase g PhaseActive) = None"
    if "gs_phase g \<noteq> PhaseComplete" "\<not> gs_max_rounds g \<le> gp_rounds s"
    using that by (cases "gs_phase g") (simp_all add: transition_error_def same_definition_phase)
  have r: "gs_revision g + 1 \<noteq> 0" using a g(1) by simp
  show "refines i w
      (if gs_phase g = PhaseComplete \<or> (gs_phase g = PhaseActive \<and> activation_of i (fst w) = Armed) \<or> gs_max_rounds g \<le> gp_rounds s
       then Inl InvalidTransition else Inr (advance (with_phase g PhaseActive) now s))
      (view_ref
        (if gs_phase g \<noteq> PhaseActive \<and> gs_phase g \<noteq> PhasePaused \<and> gs_phase g \<noteq> PhaseBlocked then (Inl (GoalError InvalidTransition), w)
         else if gs_phase g = PhaseActive \<and> activation_of i (fst w) = Armed then (Inl (GoalError InvalidTransition), w)
         else if gs_max_rounds g \<le> gp_rounds s then (Inl (GoalError InvalidTransition), w)
         else commit_current i ''resume'' (with_phase g PhaseActive) Armed now later w))"
    unfolding not_inactive using phase_refines [OF h s g(1) r _ operation_of_names(4), of PhaseActive] k by simp
qed

lemma block_refines:
  assumes h: "healthy i w" and s: "expect_state i w = Inr s" and a: "admissible now (BlockGoal ref reason) s"
  shows "refines i w (goal_step armed dflt now (BlockGoal ref reason) s) (run_command i (BlockGoal ref reason) now later w)"
  unfolding goal_step.simps run_command.simps
proof (rule on_current_cases [OF h s block_goal_def])
  fix g assume g: "gp_current s = Some g" "ref = ref_of g"
  let ?g = "(with_phase g PhaseBlocked)\<lparr>gs_blocked_reason :=
      Some \<lparr>br_code = trim (br_code reason), br_message = trim (br_message reason)\<rparr>\<rparr>"
  have "refines i w (Inr (advance ?g now s)) (view_ref (commit_current i ''block'' ?g Disarmed now later w))"
    if "gs_phase g = PhaseActive" "trim (br_code reason) \<noteq> []" "trim (br_message reason) \<noteq> []"
    using that snapshot_current [OF h s g(1)] a g(1)
    by (intro refines_advance [OF h s g(1), where k = OpBlock])
       (auto simp: snapshot_ok_def trim_idempotent transition_error_def same_definition_phase)
  then show "refines i w
      (if gs_phase g \<noteq> PhaseActive then Inl InvalidTransition
       else if trim (br_code reason) = [] \<or> trim (br_message reason) = [] then Inl InvalidBlockReason
       else Inr (advance ?g now s))
      (view_ref
        (if gs_phase g \<noteq> PhaseActive then (Inl (GoalError InvalidTransition), w)
         else if trim (br_code reason) = [] \<or> trim (br_message reason) = [] then (Inl (GoalError InvalidBlockReason), w)
         else commit_current i ''block'' ?g Disarmed now later w))"
    by simp
qed

lemma clear_refines:
  assumes h: "healthy i w" and s: "expect_state i w = Inr s" and a: "admissible now (ClearGoal ref) s"
  shows "refines i w (goal_step armed dflt now (ClearGoal ref) s) (run_command i (ClearGoal ref) now later w)"
proof (cases "gp_current s")
  case None
  then show ?thesis
    by (simp add: clear_goal_def expect_current_goal_ok [OF h s] refines_def on_current_def)
next
  case (Some g)
  show ?thesis
  proof (cases "ref = ref_of g")
    case True
    from healthy_state_ok [OF h s] have t: "sint (gp_updated_at s) \<ge> 0" by (simp add: goal_state_ok_def)
    let ?t = "\<lparr>gr_id = gs_id g, gr_revision = gs_revision g + 1\<rparr>" and ?u = "max_time now (gp_updated_at s)"
    let ?s = "s\<lparr>gp_current := None, gp_rounds := 0, gp_created_at := 0, gp_updated_at := 0, gp_last_ref := Some ?t\<rparr>"
    have "gs_id g \<noteq> []" using snapshot_current [OF h s Some] by (simp add: snapshot_ok_def)
    then have d: "decode_change (clear_json ?t ?u) = Inr ((blank_change OpClear)\<lparr>ch_cleared := ?t, ch_cleared_at := ?u\<rparr>)"
      using a t max_time_ge [of "gp_updated_at s" now] Some by (intro decode_encode_clear) auto
    have "apply_change s ((blank_change OpClear)\<lparr>ch_cleared := ?t, ch_cleared_at := ?u\<rparr>) = Inr ?s"
      using max_time_ge [of "gp_updated_at s" now] by (simp add: apply_change_def apply_clear_def blank_change_def Some)
    from commit_change_ok [OF h s d this] obtain w' where
      "commit_change i (clear_json ?t ?u) Disarmed later w = (Inr (), w')" "committed i w Disarmed ?s w'" by blast
    then show ?thesis
      by (auto simp: clear_goal_def expect_current_goal_ok [OF h s] refines_def on_current_def Some True Let_def)
  qed (simp add: clear_goal_def expect_current_goal_ok [OF h s] refines_def on_current_def Some)
qed

lemma run_command_refines:
  assumes "healthy i w" and "expect_state i w = Inr s" and "admissible now cmd s"
  shows "refines i w (goal_step (activation_of i (fst w) = Armed) (gv_default_max (fst w)) now cmd s) (run_command i cmd now later w)"
  by (cases cmd)
     (use assms create_refines edit_refines pause_refines resume_refines complete_refines block_refines clear_refines in simp_all)

end
