(* ===== verification/SessionProperties.thy ===== *)
theory SessionProperties
  imports SessionLaws
begin

text \<open>
  The theorems about sessions: ids and escaping, the surface and its repair, the store, with the concrete
  runs at which the ones with hypotheses apply.
\<close>

section \<open>Entering a session\<close>

lemma create_prepares:
  assumes "create_session i opts now st = Inr (r, cl, st')"
  obtains st1 where "prepare i opts now st = Inr (r, st1)" "ss_objects st' = ss_objects st1"
    "ss_projections st' = ss_projections st" "ss_alive st' = ss_alive st" "r < length (ss_objects st')"
proof -
  from assms obtain st1 where p: "prepare i opts now st = Inr (r, st1)"
    by (auto simp: create_session_def split: sum.splits)
  from prepare_object [OF p] have s: "ss_projections st1 = ss_projections st" "ss_alive st1 = ss_alive st" "r < length (ss_objects st1)"
    by auto
  from assms p have "ss_objects st' = ss_objects st1 \<and> ss_projections st' = ss_projections st1 \<and> ss_alive st' = ss_alive st1"
    by (auto simp: create_session_def enter_session_def announce_def Let_def split: sum.splits option.splits if_splits)
  with p s show thesis by (intro that) auto
qed

lemma prepared_creates:
  assumes "prepare j opts now st = Inr (r, st1)"
  shows "\<exists>st'. create_session j opts now st = Inr (r, DisposeSession j, st') \<and> ss_objects st' = ss_objects st1"
proof -
  from prepare_object [OF assms] have "sh_id (se_header (ss_objects st1 ! r)) = j" "map_of (ss_sessions st1) j = None" by auto
  then show ?thesis by (simp add: create_session_def assms enter_session_def announce_def Let_def)
qed

lemma create_fails: "prepare j opts now st = Inl e \<Longrightarrow> create_session j opts now st = Inl e"
  by (simp add: create_session_def)

lemma created_replayable:
  assumes "create_session i opts now st = Inr (r, cl, st')" and "[] \<notin> set (open_calls (co_seed opts))"
  shows "replayable st' (ss_objects st' ! r) \<and> r < length (ss_objects st') \<and> ss_alive st' = ss_alive st"
proof -
  from assms(1) obtain st1 where p: "prepare i opts now st = Inr (r, st1)" "ss_objects st' = ss_objects st1"
    "ss_projections st' = ss_projections st" "ss_alive st' = ss_alive st" "r < length (ss_objects st')" by (rule create_prepares)
  from prepared_replayable [OF p(1) assms(2)] replayable_cong [OF p(3)] p(2,4,5) show ?thesis by simp
qed

section \<open>Concrete runs\<close>

definition plain_options :: "session_event list \<Rightarrow> create_options" where
  "plain_options seed = \<lparr>co_seed = seed, co_inherited = 0, co_cwd = None, co_parent_session = None, co_created_at = Some 5,
     co_is_seeded = False, co_origin = OriginNone, co_delegation_depth = None, co_agent_preset = None\<rparr>"

definition user_data :: "string \<Rightarrow> json" where
  "user_data i = JObject [(''id'', JString i), (''content'', JArray [])]"

definition one_session :: "nat session_store" where
  "one_session = snd (snd (projr (create_session ''s'' (plain_options []) 7 (new_store True))))"

text \<open>Stores hold functions, so a run is evaluated component by component.\<close>

lemma result_parts:
  "\<not> isl x \<Longrightarrow> x = Inr (projr x)"
  "\<not> isl y \<Longrightarrow> fst (projr y) = a \<Longrightarrow> y = Inr (a, snd (projr y))"
  "\<not> isl z \<Longrightarrow> fst (projr z) = a \<Longrightarrow> fst (snd (projr z)) = b \<Longrightarrow> z = Inr (a, b, snd (snd (projr z)))"
  "\<not> Option.is_none m \<Longrightarrow> m = Some (the m)"
  "fst t = a \<Longrightarrow> t = (a, snd t)"
  "fst u = a \<Longrightarrow> fst (snd u) = b \<Longrightarrow> u = (a, b, snd (snd u))"
  by (auto simp: Option.is_none_def)

section \<open>Text and numbers\<close>

text \<open>
  Trimming. The two searches and the substring of \<open>trim\<close> compute the text without its leading and
  trailing white space; trimming again changes nothing, and the result is empty exactly for blank text.
\<close>

lemma trim_specification:
  "trim cs = strip is_space cs \<and> trim (trim cs) = trim cs \<and> (trim cs = [] \<longleftrightarrow> list_all is_space cs)"
proof -
  have "trim cs = [] \<longleftrightarrow> (\<forall>c \<in> set (dropWhile is_space cs). is_space c)"
    by (simp add: trim_strip strip_def dropWhile_eq_Nil_conv)
  also have "\<dots> \<longleftrightarrow> dropWhile is_space cs = []"
  proof (cases "dropWhile is_space cs")
    case (Cons c ds)
    with hd_dropWhile [of is_space cs] show ?thesis by (simp del: dropWhile_eq_Nil_conv)
  qed (simp del: dropWhile_eq_Nil_conv)
  finally have "trim cs = [] \<longleftrightarrow> (\<forall>c \<in> set cs. is_space c)" by (simp add: dropWhile_eq_Nil_conv)
  then have "trim cs = [] \<longleftrightarrow> list_all is_space cs" by (simp add: list_all_iff)
  then show ?thesis by (intro conjI trim_strip trim_idempotent)
qed

text \<open>
  XML escaping. Both escapers are inverted by the entity decoder, so no text is lost; element text comes
  out without angle brackets and attribute values without a double quote or an opening bracket.
\<close>

theorem xml_escape_roundtrip:
  "unescape (xml_escape cs) = cs \<and> unescape (xml_attr_escape cs) = cs \<and>
   CHR ''<'' \<notin> set (xml_escape cs) \<and> CHR ''>'' \<notin> set (xml_escape cs) \<and>
   CHR 0x22 \<notin> set (xml_attr_escape cs) \<and> CHR ''<'' \<notin> set (xml_attr_escape cs)"
  by (simp add: text_simps xml_escape_no_markup xml_attr_escape_no_quote)

text \<open>
  Minted ids. An id has a fixed width after its prefix, its first hexadecimal field reads back as the
  time stamp, and two ids of the same shape are equal only when both the stamp and the random word are.
\<close>

theorem mint_id_injective:
  "(mint_id p sep a b = mint_id p sep c d \<longleftrightarrow> a = c \<and> b = d) \<and>
   length (mint_id p sep a b) = length p + length sep + 32 \<and>
   unhex (take 16 (drop (length p) (mint_id p sep a b))) = unat a"
proof -
  have x: "b = d" if "b XOR y = d XOR y" for y :: "64 word"
  proof -
    from that have "(b XOR y) XOR y = (d XOR y) XOR y" by (rule arg_cong)
    then show ?thesis by (simp add: xor.assoc)
  qed
  show ?thesis by (auto simp: mint_id_def hex16_inject text_simps intro: x)
qed

text \<open>
  Integer kinds. A number within both ranges is read by the signed and the unsigned accessor whichever
  kind it was stored as; a negative number is never read as unsigned and a number above the signed range
  never as signed, in which case the getters fall back to zero.
\<close>

theorem integer_kinds_agree:
  "opt_uint (JUint n) = Some n \<and> opt_int (JInt n) = Some n \<and>
   opt_uint (JInt n) = (if 0 \<le> sint n then Some n else None) \<and>
   opt_int (JUint n) = (if 0 \<le> sint n then Some n else None) \<and>
   get_uint (JInt n) = (if 0 \<le> sint n then n else 0) \<and> get_int (JUint n) = (if 0 \<le> sint n then n else 0)"
  by (simp add: get_uint_def get_int_def int64_max_signed not_le)

section \<open>The surface\<close>

text \<open>
  C10. Replacement. On the surface of any log, \<open>replace\<close>, which compacts two vectors in one pass with a
  read and a write index, removes exactly the nodes of the half-open span, puts the replacement where
  the first of them stood (or at the end), keeps the vectors parallel, and counts a generation exactly
  when something changed.
\<close>

theorem replace_is_splice:
  "nodes (surface_replace start fin sq msg (surface_of_log ps log)) =
      splice (\<lambda>x. in_span start fin (snd x)) (map_option (\<lambda>m. (m, sq)) msg) (nodes (surface_of_log ps log)) \<and>
   aligned (surface_replace start fin sq msg (surface_of_log ps log)) \<and>
   (sf_generation (surface_replace start fin sq msg (surface_of_log ps log)) =
      sf_generation (surface_of_log ps log) +
      (if msg = None \<and> list_all (\<lambda>q. \<not> in_span start fin q) (sf_source_seqs (surface_of_log ps log)) then 0 else 1))"
proof -
  have "aligned (surface_of_log ps log)" by (simp add: surface_of_log_def aligned_log)
  from surface_replace_nodes [OF this] show ?thesis by (auto simp: list_all_iff)
qed

text \<open>
  Provenance. When the events of a log have distinct sequence numbers, every message of its surface
  carries the number of an event of the log, and no two messages carry the same, whatever the
  registered message projections plan.
\<close>

theorem surface_provenance:
  assumes "distinct (map ev_seq log)"
  shows "distinct (sf_source_seqs (surface_of_log ps log)) \<and>
    set (sf_source_seqs (surface_of_log ps log)) \<subseteq> ev_seq ` set log \<and>
    length (sf_source_seqs (surface_of_log ps log)) = length (sf_messages (surface_of_log ps log))"
proof -
  have a: "aligned (surface_of_log ps log)" by (simp add: surface_of_log_def aligned_log)
  have "sf_source_seqs empty_surface = []" "aligned empty_surface" by (simp_all add: empty_surface_def aligned_def)
  with log_seqs [of empty_surface log ps] assms a show ?thesis by (auto simp: surface_of_log_def aligned_def)
qed

definition two_messages :: "session_event list" where
  "two_messages =
     [\<lparr>ev_seq = 0, ev_time = 1, ev_type = ''user/message'', ev_data = user_data ''a'', ev_ignorable = False\<rparr>,
      \<lparr>ev_seq = 1, ev_time = 2, ev_type = ''user/message'', ev_data = user_data ''b'', ev_ignorable = False\<rparr>,
      \<lparr>ev_seq = 2, ev_time = 3, ev_type = ''surface/replace'',
        ev_data = JObject [(''start_seq'', JInt 0), (''end_seq'', JInt 1)], ev_ignorable = False\<rparr>]"

theorem surface_provenance_witness:
  "sf_source_seqs (surface_of_log [] two_messages) = [1] \<and> set (sf_source_seqs (surface_of_log [] two_messages)) \<subseteq> {0, 1, 2}"
proof -
  have "distinct (map ev_seq two_messages)" by (simp add: two_messages_def)
  from surface_provenance [OF this, of "[]"] have "set (sf_source_seqs (surface_of_log [] two_messages)) \<subseteq> {0, 1, 2}"
    by (simp add: two_messages_def)
  moreover have "sf_source_seqs (surface_of_log [] two_messages) = [1]" by code_simp
  ultimately show ?thesis by simp
qed

section \<open>Repair\<close>

text \<open>
  C11. Repair. Repairing an interrupted log only appends, leaves no tool call open, keeps the log numbered
  by its positions, and is idempotent: a repaired log is repaired to itself at any later time.
\<close>

theorem repair_specification:
  "take (length log) (repair_interrupted_turns now log) = log \<and>
   open_calls (repair_interrupted_turns now log) = [] \<and>
   length (repair_interrupted_turns now log) = length log + length (open_calls log) \<and>
   numbered (repair_interrupted_turns now log) = numbered log \<and>
   repair_interrupted_turns now' (repair_interrupted_turns now log) = repair_interrupted_turns now log"
proof -
  obtain tail where r: "repair_interrupted_turns now log = log @ tail"
    "map answered_call tail = map Some (open_calls log)" "numbered log \<longrightarrow> numbered (log @ tail)"
    using repair_appends by blast
  from arg_cong [OF r(2), of length] have n: "length tail = length (open_calls log)" by simp
  have "numbered (log @ tail) = numbered log" using r(3) numbered_take [of "log @ tail" "length log"] by auto
  with n show ?thesis using repair_closes_all [of now log] repair_idempotent [of now' now log] by (simp add: r(1))
qed

section \<open>The store\<close>

text \<open>
  Construction. Whatever seed a session is created from, when creation succeeds the new session's log
  extends the seed, is numbered by its positions, has no open tool call, and its surface is the fold of
  that log; the next sequence number is the length of the log, and the session is entered under its id.
\<close>

theorem created_session:
  assumes "create_session i opts now st = Inr (r, cl, st')"
  shows "in_order (ss_objects st' ! r) \<and> open_calls (se_log (ss_objects st' ! r)) = [] \<and>
    se_surface (ss_objects st' ! r) = surface_of_log (ss_projections st) (se_log (ss_objects st' ! r)) \<and>
    take (length (co_seed opts)) (se_log (ss_objects st' ! r)) = map (classify st) (co_seed opts) \<and>
    get_session i st' = Some r \<and> get_session i st = None \<and> i \<noteq> []"
proof -
  from assms obtain st1 where p: "prepare i opts now st = Inr (r, st1)" "ss_objects st' = ss_objects st1"
    by (rule create_prepares)
  from prepare_object [OF p(1)] construction_prefix [of now opts "map (classify st) (co_seed opts)"]
  have o: "se_surface (ss_objects st1 ! r) = surface_of_log (ss_projections st) (se_log (ss_objects st1 ! r))"
    "take (length (co_seed opts)) (se_log (ss_objects st1 ! r)) = map (classify st) (co_seed opts)"
    "sh_id (se_header (ss_objects st1 ! r)) = i" "map_of (ss_sessions st) i = None" "i \<noteq> []" "ss_sessions st1 = ss_sessions st"
    by auto
  from assms p(1) o have "map_of (ss_sessions st') i = Some r"
    by (auto simp: create_session_def enter_session_def announce_def Let_def split: if_splits option.splits sum.splits)
  with prepared_in_order [OF p(1)] o show ?thesis by (simp add: p(2) get_session_def)
qed

theorem created_session_witness:
  "in_order (ss_objects (snd (snd (projr (create_session ''s'' (plain_options two_messages) 7 (new_store True :: nat session_store))))) ! 0)"
proof -
  have "create_session ''s'' (plain_options two_messages) 7 (new_store True :: nat session_store) =
      Inr (0, DisposeSession ''s'', snd (snd (projr (create_session ''s'' (plain_options two_messages) 7 (new_store True)))))"
    by (rule result_parts(3); code_simp)
  from created_session [OF this] show ?thesis by blast
qed

text \<open>
  C8. Restoring. A session is created from a seed in which no unanswered tool call has an empty id, appended to
  without a rejection, and then has no open tool call. A new session under a free id, seeded with that log
  and not marked as a fork (a fork with an inherited part gets a marker of its own), is created, and has the same
  messages, the same surface and the same next sequence number, its log differing from the original at most
  in recomputed ignorable marks.
\<close>

theorem restored_session:
  assumes "create_session i opts now st = Inr (r, cl, st1)" and "ss_alive st" and "[] \<notin> set (open_calls (co_seed opts))"
    and "append_all r es st1 = Some st2" and "open_calls (se_log (ss_objects st2 ! r)) = []"
    and "j \<noteq> []" and "get_session j st2 = None" and "co_seed opts' = se_log (ss_objects st2 ! r)"
    and "\<not> (co_is_seeded opts' \<and> co_inherited opts' > 0)"
  shows "\<exists>q st3. create_session j opts' now' st2 = Inr (q, DisposeSession j, st3) \<and>
    se_surface (ss_objects st3 ! q) = se_surface (ss_objects st2 ! r) \<and>
    se_next_seq (ss_objects st3 ! q) = se_next_seq (ss_objects st2 ! r) \<and>
    se_log (ss_objects st3 ! q) = map (classify st2) (se_log (ss_objects st2 ! r))"
proof -
  from created_replayable [OF assms(1,3)] assms(2) have
    c: "replayable st1 (ss_objects st1 ! r)" "r < length (ss_objects st1)" "ss_alive st1" by simp_all
  from append_all_replayable [OF assms(4) c(3,2,1)] have "replayable st2 (ss_objects st2 ! r)" by simp
  from replay_prepares [OF this assms(5,6) _ assms(8,9), of now'] assms(7) obtain st3 where
    p: "prepare j opts' now' st2 = Inr (length (ss_objects st2), st3)"
    and o: "se_log (ss_objects st3 ! length (ss_objects st2)) = map (classify st2) (se_log (ss_objects st2 ! r))"
      "se_surface (ss_objects st3 ! length (ss_objects st2)) = se_surface (ss_objects st2 ! r)"
      "se_next_seq (ss_objects st3 ! length (ss_objects st2)) = se_next_seq (ss_objects st2 ! r)"
    by (auto simp: get_session_def)
  from prepared_creates [OF p] o show ?thesis by auto
qed

definition appended_session :: "nat session_store" where
  "appended_session = the (append_all 0 [(''user/message'', user_data ''a'', 8), (''note'', JNull, 9)] one_session)"

theorem restored_session_witness:
  "\<exists>q st3. create_session ''t'' (plain_options (se_log (ss_objects appended_session ! 0))) 11 appended_session = Inr (q, DisposeSession ''t'', st3) \<and>
    se_surface (ss_objects st3 ! q) = se_surface (ss_objects appended_session ! 0) \<and>
    se_next_seq (ss_objects st3 ! q) = 2"
proof -
  have c: "create_session ''s'' (plain_options []) 7 (new_store True) = Inr (0, DisposeSession ''s'', one_session)"
    unfolding one_session_def by (rule result_parts(3); code_simp)
  have a: "append_all 0 [(''user/message'', user_data ''a'', 8), (''note'', JNull, 9)] one_session = Some appended_session"
    unfolding appended_session_def by (rule result_parts(4); code_simp)
  have n: "se_next_seq (ss_objects appended_session ! 0) = 2" "open_calls (se_log (ss_objects appended_session ! 0)) = []"
    "get_session ''t'' appended_session = None" by code_simp+
  from restored_session [OF c _ _ a n(2) _ n(3), of "plain_options (se_log (ss_objects appended_session ! 0))" 11] n(1)
  show ?thesis by (auto simp: new_store_def plain_options_def open_calls_def)
qed

text \<open>
  C9. Projections follow the log. Take any operations of the store and of the holders of session objects from a new
  store on: preparing, entering and announcing sessions, appending through any holder, rejected appends included,
  disposing, flushing, registering and dropping projections, destroying the store. A projection holds a state only
  for an entered session. As long as no holder of another object with the session's id has appended or been announced
  while it was entered, and the session has not been announced while it had a state, that state is the fold of the
  session's whole log from the projection's initial state, whatever happened to other sessions.
\<close>

theorem projection_follows_log:
  assumes "store_run ms (new_store bus) st" and "projection_state_of p i st = Some x"
  shows "\<exists>c r. map_of (ss_cells st) p = Some c \<and> get_session i st = Some r \<and>
    (Some i \<notin> set ms \<longrightarrow> x = cell_fold c (se_log (ss_objects st ! r)) (pc_init c (se_header (ss_objects st ! r))))"
proof -
  from assms(2) obtain c where c: "ss_alive st" "map_of (ss_cells st) p = Some c" "map_of (pc_states c) i = Some x"
    by (auto simp: projection_state_of_def split: if_splits option.splits)
  from store_run_ok [OF assms(1) new_store_ok c(1)] map_of_SomeD [OF c(2)] have "cell_ok (Some i \<notin> set ms) i st c"
    by (auto simp: projections_ok_def)
  with c show ?thesis by (auto simp: cell_ok_def get_session_def)
qed

text \<open>A projection that counts events, and a run that registers it, creates a session and appends.\<close>

definition counting :: "nat projection_cell" where
  "counting = \<lparr>pc_types = [], pc_init = \<lambda>_. 0, pc_apply = \<lambda>n ev. Suc n, pc_states = []\<rparr>"

definition run_1 :: "nat session_store" where
  "run_1 = snd (snd (register_projection counting (new_store True)))"

definition run_2 :: "nat session_store" where
  "run_2 = snd (projr (prepare ''s'' (plain_options []) 7 run_1))"

definition run_3 :: "nat session_store" where
  "run_3 = projr (enter_session 0 run_2)"

definition run_4 :: "nat session_store" where
  "run_4 = projr (announce 0 run_3)"

definition run_5 :: "nat session_store" where
  "run_5 = snd (append_event 0 ''note'' JNull 9 run_4)"

lemma run_reached: "store_run [None, None, None, None, None] (new_store True) run_5"
proof -
  have "register_projection counting (new_store True) = (0, DropProjection 0, run_1)"
    unfolding run_1_def by (rule result_parts(6); code_simp)
  then have 1: "store_step None (new_store True) run_1" by (rule step_projection)
  have "prepare ''s'' (plain_options []) 7 run_1 = Inr (0, run_2)"
    unfolding run_2_def by (rule result_parts(2); code_simp)
  then have 2: "store_step None run_1 run_2" by (rule step_prepare)
  have "0 < length (ss_objects run_2)" by code_simp
  moreover have "enter_session 0 run_2 = Inr run_3" unfolding run_3_def by (rule result_parts(1); code_simp)
  ultimately have 3: "store_step None run_2 run_3" by (rule step_enter)
  have l: "0 < length (ss_objects run_3)" "0 < length (ss_objects run_4)" by code_simp+
  have "\<not> impostor 0 run_3" "unannounced (object_id 0 run_3) run_3" by code_simp+
  moreover have "announce 0 run_3 = Inr run_4" unfolding run_4_def by (rule result_parts(1); code_simp)
  ultimately have 4: "store_step None run_3 run_4" using step_announce [OF l(1), of run_4] by simp
  have "\<not> impostor 0 run_4" by code_simp
  moreover have "append_event 0 ''note'' JNull 9 run_4 = (Inr 0, run_5)" unfolding run_5_def by (rule result_parts(5); code_simp)
  ultimately have 5: "store_step None run_4 run_5" using step_append [OF l(2), of "''note''" JNull 9 "Inr 0" run_5] by simp
  from store_goes_on [OF store_goes_on [OF store_goes_on [OF store_goes_on [OF store_goes_on [OF store_begins 1] 2] 3] 4] 5] show ?thesis by simp
qed

theorem projection_follows_log_witness:
  "\<exists>c r. map_of (ss_cells run_5) 0 = Some c \<and> get_session ''s'' run_5 = Some r \<and>
    1 = cell_fold c (se_log (ss_objects run_5 ! r)) (pc_init c (se_header (ss_objects run_5 ! r)))"
proof -
  have "projection_state_of 0 ''s'' run_5 = Some 1" by code_simp
  from projection_follows_log [OF run_reached this] show ?thesis by simp
qed

section \<open>Where the store falls short\<close>

text \<open>
  A rejected append. \<open>append\<close> takes the sequence number before the event is validated, so after one
  rejected event and one accepted event a session that was in order has a gap in its log, and from then on
  it can neither be forked nor restored: every creation from its log fails.
\<close>

theorem rejected_append_unrestorable:
  assumes "ss_alive st" and "get_session i st = Some r" and "r < length (ss_objects st)" and "in_order (ss_objects st ! r)"
    and "append_event r ty data now st = (Inl e, st1)" and "append_event r ty' data' now' st1 = (Inr q, st2)"
    and "co_seed opts = se_log (ss_objects st2 ! r)"
  shows "\<exists>e1 e2. fork_session i child None later random st2 = Inl e1 \<and> create_session j opts later st2 = Inl e2"
proof -
  from rejection_breaks_order [OF assms(1,3-6)] have b: "\<not> numbered (se_log (ss_objects st2 ! r))"
    "ss_sessions st2 = ss_sessions st" by blast+
  have f: "\<exists>e. create_session k o' t st2 = Inl e" if "co_seed o' = se_log (ss_objects st2 ! r)" for k o' t
    using unnumbered_seed [of o' k t st2] b(1) that by (auto intro: create_fails)
  from f [of "fork_options i (ss_objects st2 ! r) (length (se_log (ss_objects st2 ! r)))"] assms(2)
  have "\<exists>e. fork_session i child None later random st2 = Inl e"
    by (simp add: fork_session_def fork_options_def b(2) get_session_def Let_def)
  with f [OF assms(7)] show ?thesis by blast
qed

definition bad_append :: "nat session_store" where
  "bad_append = snd (append_event 0 ''user/message'' JNull 8 one_session)"

definition later_append :: "nat session_store" where
  "later_append = snd (append_event 0 ''note'' JNull 9 bad_append)"

theorem rejected_append_unrestorable_witness:
  "\<exists>e1 e2. fork_session ''s'' ''t'' None 10 1 later_append = Inl e1 \<and>
    create_session ''t'' (plain_options (se_log (ss_objects later_append ! 0))) 10 later_append = Inl e2"
proof -
  have a: "ss_alive one_session" "get_session ''s'' one_session = Some 0" "0 < length (ss_objects one_session)"
    "in_order (ss_objects one_session ! 0)" by code_simp+
  have b: "append_event 0 ''user/message'' JNull 8 one_session = (Inl (BadEvent ''user/message'' ''object''), bad_append)"
    unfolding bad_append_def by (rule result_parts(5); code_simp)
  have c: "append_event 0 ''note'' JNull 9 bad_append = (Inr 1, later_append)"
    unfolding later_append_def by (rule result_parts(5); code_simp)
  have d: "co_seed (plain_options log) = log" for log by (simp add: plain_options_def)
  show ?thesis by (rule rejected_append_unrestorable [OF a b c d])
qed

definition reused_id :: "nat session_store" where
  "reused_id =
     (let s1 = snd (snd (register_projection counting (new_store True)));
          s2 = snd (snd (projr (create_session ''s'' (plain_options []) 7 s1)));
          s3 = snd (dispose_session ''s'' s2);
          s4 = snd (snd (projr (create_session ''s'' (plain_options []) 8 s3)))
      in snd (append_event 0 ''note'' JNull 9 s4))"

text \<open>
  A session that outlives its disposal. Its id is free again, and an append by a holder of the old object
  drives the projection of the new session of that id and is published under it, although the new
  session's log is empty: \<open>publish\<close> compares ids, not sessions.
\<close>

theorem stale_holder_drives:
  "get_session ''s'' reused_id = Some 1 \<and> se_log (ss_objects reused_id ! 1) = [] \<and>
   projection_state_of 0 ''s'' reused_id = Some 1 \<and>
   last (ss_published reused_id) = SessionAppended ''s''
     \<lparr>ev_seq = 0, ev_time = 9, ev_type = ''note'', ev_data = JNull, ev_ignorable = True\<rparr>"
  by code_simp

text \<open>
  A tool call with an empty id is recorded, and answered by repair with a result \<open>validate_event\<close> rejects:
  the repaired session cannot seed another one.
\<close>

definition empty_call :: session_event where
  "empty_call = \<lparr>ev_seq = 0, ev_time = 1, ev_type = ''assistant/message'',
     ev_data = JObject [(''message'', JObject [(''id'', JString ''m''), (''content'', JArray [JObject
       [(''tool_call'', JObject [(''id'', JString [])])]])])], ev_ignorable = False\<rparr>"

definition repaired_empty_call :: "nat session_store" where
  "repaired_empty_call = snd (snd (projr (create_session ''s'' (plain_options [empty_call]) 7 (new_store True))))"

lemma empty_call_id_unforkable:
  "length (se_log (ss_objects repaired_empty_call ! 0)) = 2 \<and>
   isl (fork_session ''s'' ''t'' None 8 1 repaired_empty_call)"
  by code_simp

end
