(* ===== verification/GoalProperties.thy ===== *)
theory GoalProperties
  imports GoalLaws SessionProperties
begin

text \<open>
  The theorems about goals: what replaying a log can produce, that the service computes the abstract goal,
  and what its references are worth.
\<close>

section \<open>Replay\<close>

text \<open>
  Encoding. A change the service writes (a well-formed snapshot, times in order) is decoded to the very
  change it encodes; so is the tombstone of a clear.
\<close>

theorem goal_change_roundtrip:
  assumes "snapshot_ok g" and "operation_of name = Some op" and "op \<noteq> OpClear"
    and "0 \<le> sint created" and "sint created \<le> sint updated"
  shows "decode_change (change_json name g rounds created updated) =
      Inr ((blank_change op)\<lparr>ch_goal := g, ch_rounds := rounds, ch_created_at := created, ch_updated_at := updated\<rparr>) \<and>
    decode_change (clear_json (ref_of g) updated) =
      Inr ((blank_change OpClear)\<lparr>ch_cleared := ref_of g, ch_cleared_at := updated\<rparr>)"
  using decode_encode_change [OF assms] decode_encode_clear [of "ref_of g" updated] assms
  by (simp add: snapshot_ok_def ref_of_def)

definition ship_it :: goal_snapshot where
  "ship_it = \<lparr>gs_id = ''goal-1'', gs_revision = 3, gs_objective = ''ship it'', gs_phase = PhaseBlocked,
     gs_blocked_reason = Some \<lparr>br_code = ''quota'', br_message = ''no tokens''\<rparr>, gs_max_rounds = 4\<rparr>"

theorem goal_change_roundtrip_witness:
  "decode_change (change_json ''block'' ship_it 2 5 9) =
    Inr ((blank_change OpBlock)\<lparr>ch_goal := ship_it, ch_rounds := 2, ch_created_at := 5, ch_updated_at := 9\<rparr>)"
proof -
  have "snapshot_ok ship_it" by code_simp
  from goal_change_roundtrip [OF this operation_of_names(6), of 5 9 2] show ?thesis by simp
qed

text \<open>
  C38. Replay. Whatever a log holds, forged or malformed changes included, replaying it ends in a well-formed
  state: a current goal is a valid snapshot with a known id and is the last reference, ids are never used
  twice, the update time is not before the creation time; and a failed replay stays failed.
\<close>

theorem goal_replay_well_formed:
  "goal_state_ok (cell_fold goal_projection log no_goal) \<and>
   (gp_failure (cell_fold goal_projection log no_goal) = None \<or>
    cell_fold goal_projection (log @ rest) no_goal = cell_fold goal_projection log no_goal)"
proof -
  have f: "gp_failure s \<noteq> None \<Longrightarrow> cell_fold goal_projection rest s = s" for s
    by (induction rest) (simp_all add: cell_fold_def goal_projection_def goal_apply_def)
  have "cell_fold goal_projection (log @ rest) no_goal = cell_fold goal_projection rest (cell_fold goal_projection log no_goal)"
    by (simp add: cell_fold_def)
  with f [of "cell_fold goal_projection log no_goal"] goal_replay_ok [OF no_goal_ok, of log] show ?thesis by metis
qed

definition finished :: "string \<Rightarrow> goal_state \<Rightarrow> bool" where
  "finished i s \<longleftrightarrow> i \<in> set (gp_seen_ids s) \<and>
     (case gp_current s of None \<Rightarrow> True | Some g \<Rightarrow> gs_id g = i \<longrightarrow> gs_phase g = PhaseComplete)"

lemma transition_complete:
  "transition_error op rounds g g' = None \<Longrightarrow> gs_phase g = PhaseComplete \<Longrightarrow> gs_phase g' = PhaseComplete"
  by (cases op) (auto simp: transition_error_def Let_def split: if_splits)

lemma finished_change:
  assumes "finished i s" and "apply_change s ch = Inr s'"
  shows "finished i s'"
proof (cases "ch_operation ch = OpClear \<or> ch_operation ch = OpCreate")
  case True
  with assms show ?thesis
    by (auto simp: apply_change_def apply_clear_def apply_create_def install_def finished_def Let_def split: option.splits if_splits)
next
  case False
  with assms(2) obtain g where g: "gp_current s = Some g" "gs_id (ch_goal ch) = gs_id g"
    "transition_error (ch_operation ch) (gp_rounds s) g (ch_goal ch) = None" "s' = install (ch_goal ch) ch s"
    by (auto simp: apply_change_def apply_update_def Let_def split: option.splits if_splits)
  with assms(1) transition_complete [OF g(3)] show ?thesis by (auto simp: finished_def install_def)
qed

lemma finished_settle: "finished i s \<Longrightarrow> (\<And>s'. res = Inr s' \<Longrightarrow> finished i s') \<Longrightarrow> finished i (settle ev s res)"
  by (cases res) (simp_all add: settle_def finished_def)

lemma finished_apply:
  assumes "finished i s"
  shows "finished i (goal_apply s ev)"
proof -
  have "finished i (settle ev s (apply_round s src))" for src
    by (rule finished_settle [OF assms])
       (use assms in \<open>auto simp: apply_round_def finished_def split: option.splits if_splits\<close>)
  moreover have "finished i (settle ev s (case decode_change (ev_data ev) of Inl e \<Rightarrow> Inl e | Inr ch \<Rightarrow> apply_change s ch))"
    by (rule finished_settle [OF assms]) (use finished_change [OF assms] in \<open>auto split: sum.splits\<close>)
  ultimately show ?thesis using assms by (simp add: goal_apply_def split: option.split)
qed

interpretation finishing: cell_invariant goal_projection "finished i" for i
  by unfold_locales (simp add: goal_projection_def finished_apply)

text \<open>
  Completion is final. Once replay has reached a completed goal, no continuation of the log brings that
  goal back to work: as long as it is the current goal it is complete, and its id is never given to another.
\<close>

theorem completion_is_final:
  assumes "gp_current (cell_fold goal_projection log no_goal) = Some g" and "gs_phase g = PhaseComplete"
    and "gp_current (cell_fold goal_projection (log @ rest) no_goal) = Some g'" and "gs_id g' = gs_id g"
  shows "gs_phase g' = PhaseComplete \<and> distinct (gp_seen_ids (cell_fold goal_projection (log @ rest) no_goal))"
proof -
  let ?s = "cell_fold goal_projection log no_goal"
  have ok: "goal_state_ok ?s" "goal_state_ok (cell_fold goal_projection (log @ rest) no_goal)"
    by (rule goal_replay_ok [OF no_goal_ok])+
  with assms(1,2) have "finished (gs_id g) ?s" by (simp add: goal_state_ok_def finished_def)
  then have "finished (gs_id g) (cell_fold goal_projection (log @ rest) no_goal)" by (rule finishing.replay_append)
  with assms(3,4) ok(2) show ?thesis by (simp add: finished_def goal_state_ok_def)
qed

definition goal_event :: "session_seq \<Rightarrow> json \<Rightarrow> session_event" where
  "goal_event q data = \<lparr>ev_seq = q, ev_time = 9, ev_type = ''goal/change'', ev_data = data, ev_ignorable = True\<rparr>"

definition done_snapshot :: goal_snapshot where
  "done_snapshot = ship_it\<lparr>gs_revision := 2, gs_phase := PhaseComplete, gs_blocked_reason := None\<rparr>"

definition done_log :: "session_event list" where
  "done_log =
     [goal_event 0 (change_json ''create''
        (ship_it\<lparr>gs_revision := 1, gs_phase := PhaseActive, gs_blocked_reason := None\<rparr>) 0 5 5),
      goal_event 1 (change_json ''complete'' done_snapshot 0 5 6)]"

definition edit_event :: session_event where
  "edit_event = goal_event 2 (change_json ''edit'' (done_snapshot\<lparr>gs_revision := 3, gs_objective := ''more''\<rparr>) 0 5 7)"

theorem completion_is_final_witness:
  "gs_phase (the (gp_current (cell_fold goal_projection (done_log @ [edit_event]) no_goal))) = PhaseComplete"
proof -
  have 1: "gp_current (cell_fold goal_projection done_log no_goal) = Some done_snapshot" by code_simp
  have 2: "gs_phase done_snapshot = PhaseComplete" by code_simp
  have 3: "gp_current (cell_fold goal_projection (done_log @ [edit_event]) no_goal) =
      Some (done_snapshot\<lparr>gs_revision := 3, gs_objective := ''more''\<rparr>)" by code_simp
  have 4: "gs_id (done_snapshot\<lparr>gs_revision := 3, gs_objective := ''more''\<rparr>) = gs_id done_snapshot" by simp
  from completion_is_final [OF 1 2 3 4] 3 show ?thesis by simp
qed

section \<open>The service\<close>

definition goal_bench :: goal_world where
  "goal_bench =
     (let s1 = snd (snd (register_projection goal_projection (new_store True)))
      in (\<lparr>gv_bus = True, gv_projection = 0, gv_default_max = 256, gv_activations = [], gv_notices = []\<rparr>,
          snd (snd (projr (create_session ''s'' (plain_options []) 7 s1)))))"

definition working_goal :: goal_world where
  "working_goal = snd (run_command ''s'' (CreateGoal '' ship it '' (Some 4) 77) 20 21 goal_bench)"

definition working_ref :: goal_ref where
  "working_ref = \<lparr>gr_id = mint_id ''goal-'' ''-'' 20 77, gr_revision = 1\<rparr>"

lemma constructed_healthy:
  assumes "ss_alive st" and "map_of (ss_cells st) (ss_counter st) = None"
    and "register_projection goal_projection st = (p, cl, st1)"
    and "create_session i opts now st1 = Inr (r, cl', st2)" and "gv_projection sv = p"
    and "gp_failure (cell_fold goal_projection (se_log (ss_objects st2 ! r)) no_goal) = None"
  shows "healthy i (sv, st2) \<and> expect_state i (sv, st2) = Inr (cell_fold goal_projection (se_log (ss_objects st2 ! r)) no_goal)"
proof -
  let ?c = "goal_projection\<lparr>pc_states := []\<rparr>"
  from assms(1-3) have s1: "ss_alive st1" "map_of (ss_cells st1) p = Some ?c"
    by (auto simp: register_projection_def Let_def map_of_om_emplace)
  from assms(4) obtain st' where pr: "prepare i opts now st1 = Inr (r, st')"
    by (auto simp: create_session_def split: sum.splits)
  from prepare_object [OF pr] have p: "ss_cells st' = ss_cells st1" "ss_alive st' = ss_alive st1" "r < length (ss_objects st')"
    "sh_id (se_header (ss_objects st' ! r)) = i" by auto
  let ?h = "se_header (ss_objects st' ! r)" and ?log = "se_log (ss_objects st' ! r)"
  from assms(4) have e: "map_of (ss_sessions st2) i = Some r" "ss_objects st2 = ss_objects st'" "ss_alive st2 = ss_alive st'"
    "ss_cells st2 = map (\<lambda>(k, c). (k, cell_seed ?h ?log c)) (ss_cells st')"
    by (auto simp: create_session_def pr enter_session_def announce_def Let_def p(4) map_cells_def notice_def
        split: if_splits option.splits)
  have c: "map_of (ss_cells st2) p = Some (cell_seed ?h ?log ?c)"
    using s1(2) by (simp add: e(4) p(1) map_of_map)
  have init: "pc_init goal_projection = (\<lambda>_. no_goal)" "pc_states ?c = []" by (simp_all add: goal_projection_def)
  have x: "map_of (pc_states (cell_seed ?h ?log ?c)) i = Some (cell_fold goal_projection ?log no_goal)"
    by (simp add: p(4) init) (rule cell_fold_same; simp)
  from assms(6) have f: "gp_failure (cell_fold goal_projection ?log no_goal) = None" by (simp add: e(2))
  from s1(1) p e c x f show ?thesis
    by (simp add: healthy_def expect_state_def projection_state_of_def get_session_def assms(5) goal_replay_ok)
       (simp add: goal_projection_def)
qed

lemma bench_healthy: "healthy ''s'' goal_bench"
proof -
  let ?s1 = "snd (snd (register_projection goal_projection (new_store True)))"
  let ?c = "create_session ''s'' (plain_options []) 7 ?s1"
  have r: "register_projection goal_projection (new_store True) = (0, DropProjection 0, ?s1)"
    by (rule result_parts(6); code_simp)
  have c: "?c = Inr (0, DisposeSession ''s'', snd (snd (projr ?c)))" by (rule result_parts(3); code_simp)
  have "gp_failure (cell_fold goal_projection (se_log (ss_objects (snd (snd (projr ?c))) ! 0)) no_goal) = None"
    by code_simp
  from constructed_healthy [OF _ _ r c _ this] show ?thesis by (simp add: goal_bench_def new_store_def)
qed

lemma working_goal_runs:
  "run_command ''s'' (CreateGoal '' ship it '' (Some 4) 77) 20 21 goal_bench = (Inr working_ref, working_goal)"
  unfolding working_goal_def by (rule result_parts(5); code_simp)

text \<open>
  C37. Refinement. On a session whose projection is healthy the service (append a change event, let the store
  fold it into the projection, read the projection back) computes exactly the abstract goal, as long as the clock is past
  the epoch, a new goal has a fresh id and no revision wraps: a command the
  abstract goal refuses fails with the same code and leaves service and store untouched, a command it
  accepts succeeds with the new reference, adds one event to the log, and the replayed state is the
  abstract result, healthy again.
\<close>

theorem goal_service_refines:
  assumes "healthy i w" and "expect_state i w = Inr s" and "admissible now cmd s"
  shows "refines i w (goal_step (activation_of i (fst w) = Armed) (gv_default_max (fst w)) now cmd s) (run_command i cmd now later w)"
  using assms by (rule run_command_refines)

lemma bench_state: "expect_state ''s'' goal_bench = Inr no_goal"
  by code_simp

lemma bench_admissible: "admissible 20 (CreateGoal '' ship it '' (Some 4) 77) no_goal"
  by code_simp

lemma working_refines:
  assumes "refines ''s'' goal_bench (goal_step armed dflt 20 (CreateGoal '' ship it '' (Some 4) 77) no_goal)
    (run_command ''s'' (CreateGoal '' ship it '' (Some 4) 77) 20 21 goal_bench)"
  shows "\<exists>a s. committed ''s'' goal_bench a s working_goal \<and> gp_current s = Some (first_goal ''ship it'' 4 77 20)"
proof -
  have "trim '' ship it '' = ''ship it''" by code_simp
  then obtain s where s: "goal_step armed dflt 20 (CreateGoal '' ship it '' (Some 4) 77) no_goal = Inr s"
    "gp_current s = Some (first_goal ''ship it'' 4 77 20)" by (simp add: Let_def no_goal_def)
  with assms [unfolded working_goal_runs] show ?thesis by (auto simp: refines_def)
qed

theorem goal_service_refines_witness:
  "\<exists>a s. committed ''s'' goal_bench a s working_goal \<and> gp_current s = Some (first_goal ''ship it'' 4 77 20)"
  by (rule working_refines) (rule goal_service_refines [OF bench_healthy bench_state bench_admissible])

lemma working_healthy:
  "healthy ''s'' working_goal"
  "\<exists>s. expect_state ''s'' working_goal = Inr s \<and> gp_current s = Some (first_goal ''ship it'' 4 77 20)"
  using working_refines [OF run_command_refines [OF bench_healthy bench_state bench_admissible]]
  by (auto simp: committed_def)

inductive goal_run :: "session_id \<Rightarrow> goal_world \<Rightarrow> goal_world \<Rightarrow> bool" where
  run_none: "goal_run i w w"
| run_more: "goal_run i w w1 \<Longrightarrow> expect_state i w1 = Inr s \<Longrightarrow> admissible now cmd s \<Longrightarrow>
     run_command i cmd now later w1 = (out, w2) \<Longrightarrow> goal_run i w w2"

lemma refines_healthy:
  assumes "refines i w res (out, w')" and "healthy i w"
  shows "healthy i w' \<and> take (length (goal_log i w)) (goal_log i w') = goal_log i w \<and> length (goal_log i w) \<le> length (goal_log i w')"
  using assms by (auto simp: refines_def committed_def split: sum.splits)

text \<open>
  The service never poisons its projection. Along any sequence of commands (accepted, refused or stale),
  with a clock past the epoch, unused ids and revisions that do not wrap, the session stays healthy: the
  projection never records a replay failure, and the log only grows.
\<close>

theorem service_never_poisons:
  assumes "goal_run i w w'" and "healthy i w"
  shows "healthy i w' \<and> take (length (goal_log i w)) (goal_log i w') = goal_log i w"
proof -
  have "healthy i w' \<and> take (length (goal_log i w)) (goal_log i w') = goal_log i w \<and>
      length (goal_log i w) \<le> length (goal_log i w')"
    using assms
  proof (induction rule: goal_run.induct)
    case (run_more i w w1 s now cmd later out w2)
    then have h: "healthy i w1" "take (length (goal_log i w)) (goal_log i w1) = goal_log i w"
      "length (goal_log i w) \<le> length (goal_log i w1)" by simp_all
    from refines_healthy [OF run_command_refines [OF h(1) run_more(2,3), of later, unfolded run_more(4)] h(1)]
    have "healthy i w2" "take (length (goal_log i w1)) (goal_log i w2) = goal_log i w1"
      "length (goal_log i w1) \<le> length (goal_log i w2)" by simp_all
    moreover from this have "take (length (goal_log i w)) (goal_log i w2) = goal_log i w"
      using h(2,3) by (metis min.absorb1 take_take)
    ultimately show ?case using h(3) by simp
  qed simp
  then show ?thesis by simp
qed

theorem service_never_poisons_witness:
  "healthy ''s'' (snd (run_command ''s'' (PauseGoal working_ref) 30 31 working_goal))"
proof -
  have 1: "goal_run ''s'' goal_bench working_goal"
    by (rule run_more [OF run_none bench_state bench_admissible working_goal_runs])
  obtain s where s: "expect_state ''s'' working_goal = Inr s" "gp_current s = Some (first_goal ''ship it'' 4 77 20)"
    using working_healthy(2) by blast
  from s(2) have "admissible 30 (PauseGoal working_ref) s" by (simp add: first_goal_def)
  from run_more [OF 1 s(1) this surjective_pairing] service_never_poisons [OF _ bench_healthy] show ?thesis by blast
qed

lemma refused_reference:
  "command_ref cmd = Some ref \<Longrightarrow> expect_current_goal i ref w = Inl e \<Longrightarrow> run_command i cmd now later w = (Inl e, w)"
  by (cases cmd) (simp_all add: edit_goal_def pause_goal_def resume_goal_def complete_goal_def block_goal_def clear_goal_def view_ref_def)

lemma step_reference:
  assumes "goal_step armed dflt now cmd s = Inr s'" and "command_ref cmd = Some ref"
  shows "gp_last_ref s' = Some \<lparr>gr_id = gr_id ref, gr_revision = gr_revision ref + 1\<rparr> \<and>
    (case gp_current s' of None \<Rightarrow> True | Some g \<Rightarrow> gs_revision g = gr_revision ref + 1)"
  using assms
  by (cases cmd) (auto simp: on_current_def advance_def ref_of_def with_phase_def split: option.splits if_splits)

text \<open>
  A reference is good once. When a command with an expected reference succeeds, the new reference has the
  same id and the next revision, and any command whatever that expects the old reference then fails, as
  stale or because the goal is gone, without an effect.
\<close>

theorem reference_good_once:
  assumes "healthy i w" and "expect_state i w = Inr s" and "admissible now cmd s"
    and "command_ref cmd = Some ref" and "command_ref cmd' = Some ref" and "run_command i cmd now later w = (Inr new, w1)"
  shows "gr_id new = gr_id ref \<and> gr_revision new = gr_revision ref + 1 \<and>
    (\<exists>e \<in> {StaleRevision, NotFound}. run_command i cmd' now' later' w1 = (Inl (GoalError e), w1))"
proof -
  let ?res = "goal_step (activation_of i (fst w) = Armed) (gv_default_max (fst w)) now cmd s"
  from run_command_refines [OF assms(1-3), of later] assms(6) obtain s' a where
    s': "?res = Inr s'" "gp_last_ref s' = Some new" "committed i w a s' w1"
    by (auto simp: refines_def split: sum.splits)
  from step_reference [OF s'(1) assms(4)] s'(2) have n: "new = \<lparr>gr_id = gr_id ref, gr_revision = gr_revision ref + 1\<rparr>"
    "\<And>g. gp_current s' = Some g \<Longrightarrow> gs_revision g = gr_revision ref + 1" by auto
  have h: "healthy i w1" "expect_state i w1 = Inr s'" using s'(3) by (simp_all add: committed_def)
  have "\<exists>e \<in> {StaleRevision, NotFound}. expect_current_goal i ref w1 = Inl (GoalError e)"
    by (cases "gp_current s'") (auto simp: expect_current_goal_ok [OF h] ref_of_def dest!: n(2))
  then show ?thesis using refused_reference [OF assms(5)] n(1) by fastforce
qed

lemma working_admissible:
  "\<exists>s. expect_state ''s'' working_goal = Inr s \<and> gp_current s = Some (first_goal ''ship it'' 4 77 20) \<and>
     admissible 30 (PauseGoal working_ref) s"
  using working_healthy(2) by (auto simp: first_goal_def)

definition paused_goal :: goal_world where
  "paused_goal = snd (run_command ''s'' (PauseGoal working_ref) 30 31 working_goal)"

theorem reference_good_once_witness:
  "\<exists>e \<in> {StaleRevision, NotFound}.
     run_command ''s'' (EditGoal working_ref (Some ''other'') None) 40 41 paused_goal = (Inl (GoalError e), paused_goal)"
proof -
  obtain s where s: "expect_state ''s'' working_goal = Inr s" "admissible 30 (PauseGoal working_ref) s"
    using working_admissible by blast
  have p: "run_command ''s'' (PauseGoal working_ref) 30 31 working_goal = (Inr (working_ref\<lparr>gr_revision := 2\<rparr>), paused_goal)"
    unfolding paused_goal_def by (rule result_parts(5); code_simp)
  show ?thesis
    using reference_good_once [OF working_healthy(1) s command_ref.simps(3) command_ref.simps(2) p, of "Some ''other''" None 40 41]
    by blast
qed

text \<open>
  Every goal can be finished. From any healthy session with an unfinished current goal (two revisions
  from the end of the counter), completing it with its reference succeeds, and clearing it with the
  reference this returns succeeds, at any times; the session then has no goal and two more events.
\<close>

theorem goal_can_finish:
  assumes "healthy i w" and "expect_state i w = Inr s" and "gp_current s = Some g" and "gs_phase g \<noteq> PhaseComplete"
    and "gs_revision g + 1 \<noteq> 0" and "gs_revision g + 2 \<noteq> 0"
  shows "\<exists>r1 w1 r2 w2 s2. run_command i (CompleteGoal (ref_of g)) now later w = (Inr r1, w1) \<and>
    run_command i (ClearGoal r1) now' later' w1 = (Inr r2, w2) \<and> expect_state i w2 = Inr s2 \<and> gp_current s2 = None \<and>
    length (goal_log i w2) = length (goal_log i w) + 2"
proof -
  let ?g = "with_phase g PhaseComplete" and ?s = "advance (with_phase g PhaseComplete) now s"
  have "admissible now (CompleteGoal (ref_of g)) s" using assms(3,5) by simp
  from run_command_refines [OF assms(1,2) this, of later] assms(3,4) obtain a w1 where
    1: "run_command i (CompleteGoal (ref_of g)) now later w = (Inr (ref_of ?g), w1)" "committed i w a ?s w1"
    by (auto simp: refines_def on_current_def advance_def)
  have c: "gp_current ?s = Some ?g" by (simp add: advance_def)
  have "admissible now' (ClearGoal (ref_of ?g)) ?s" using assms(6) by (simp add: c add.assoc)
  moreover have "healthy i w1" "expect_state i w1 = Inr ?s" using 1(2) by (simp_all add: committed_def)
  ultimately have "refines i w1 (goal_step (activation_of i (fst w1) = Armed) (gv_default_max (fst w1)) now' (ClearGoal (ref_of ?g)) ?s)
      (run_command i (ClearGoal (ref_of ?g)) now' later' w1)"
    by (intro run_command_refines)
  then obtain a2 w2 s2 r2 where "run_command i (ClearGoal (ref_of ?g)) now' later' w1 = (Inr r2, w2)" "committed i w1 a2 s2 w2"
    "gp_current s2 = None"
    by (auto simp: refines_def on_current_def c)
  with 1 show ?thesis by (fastforce simp: committed_def)
qed


theorem goal_can_finish_witness:
  "\<exists>r1 w1 r2 w2 s2.
     run_command ''s'' (CompleteGoal (ref_of (first_goal ''ship it'' 4 77 20))) 30 31 working_goal = (Inr r1, w1) \<and>
     run_command ''s'' (ClearGoal r1) 40 41 w1 = (Inr r2, w2) \<and> expect_state ''s'' w2 = Inr s2 \<and> gp_current s2 = None \<and>
     length (goal_log ''s'' w2) = length (goal_log ''s'' working_goal) + 2"
proof -
  obtain s where s: "expect_state ''s'' working_goal = Inr s" "gp_current s = Some (first_goal ''ship it'' 4 77 20)"
    using working_healthy(2) by blast
  show ?thesis by (rule goal_can_finish [OF working_healthy(1) s]) (simp_all add: first_goal_def)
qed

end
