(* ===== verification/Events.thy ===== *)
theory Events
  imports Scope Effects
begin

text \<open>
  The typed event bus (\<open>include/araya/events.hpp\<close>, \<open>src/events.cpp\<close>). A listener list is a shared vector: a
  dispatch holds the vector it started with, an addition replaces it by a longer copy, a removal moves the
  remaining slots into a new one. So vectors are addresses into \<open>eb_slots\<close> and \<open>eb_raws\<close>, and a slot whose
  callable was moved out (a \<open>std::function\<close> is then empty) has \<open>sl_fn = None\<close>; calling it throws
  \<open>BadCall\<close>. What a listener does is a parameter: a function on message and bus that includes whatever runs
  while it is suspended. Coroutines spawned on the strand are tasks, in the order of spawning; \<open>eb_scopes\<close>
  are the scopes of the engine, read for realm labels, and \<open>eb_on_strand\<close> tells whether the calling thread
  runs in the control strand.
\<close>

section \<open>State\<close>

datatype dispatch_mode = Emit | Parallel | Serial | Waterfall | Bail

record listener_options =
  lo_prepend :: bool
  lo_once :: bool
  lo_global :: bool
  lo_scope :: "ctx_id option"

record 'f slot =
  sl_owner :: nat
  sl_token :: nat
  sl_fn :: "'f option"
  sl_opts :: listener_options

record 'f raw_slot =
  rw_owner :: nat
  rw_token :: nat
  rw_fn :: "'f option"

record event_entry =
  en_mode :: dispatch_mode
  en_listeners :: nat
  en_raw :: nat

datatype 'x bus_error =
    OffStrand
  | ModeConflict service_id
  | ModeMismatch service_id
  | RawOnBail service_id
  | RawUndeclared service_id
  | NoBus
  | BadCall
  | Thrown 'x

record 'x parallel_state =
  pl_remaining :: nat
  pl_first :: "'x bus_error option"
  pl_complete :: bool

datatype ('f, 'm) bus_task =
    RunSlot service_id nat nat 'm
  | RunRaw nat nat 'm
  | RunBody nat 'f 'm

record ('f, 'm, 'x) event_bus =
  eb_on_strand :: bool
  eb_entries :: "(service_id, event_entry) omap"
  eb_slots :: "'f slot list list"
  eb_raws :: "'f raw_slot list list"
  eb_next_token :: nat
  eb_error :: "'x bus_error option"
  eb_sink :: bool
  eb_reports :: "'x bus_error list"
  eb_tasks :: "('f, 'm) bus_task list"
  eb_parallels :: "'x parallel_state list"
  eb_scopes :: store

definition new_bus :: "store \<Rightarrow> ('f, 'm, 'x) event_bus" where
  "new_bus cs = \<lparr>eb_on_strand = True, eb_entries = [], eb_slots = [], eb_raws = [], eb_next_token = 1, eb_error = None,
     eb_sink = False, eb_reports = [], eb_tasks = [], eb_parallels = [], eb_scopes = cs\<rparr>"

definition entry_base_for :: "service_id \<Rightarrow> ('f, 'm, 'x) event_bus \<Rightarrow> event_entry option" where
  "entry_base_for k s = map_of (eb_entries s) k"

definition set_entry :: "service_id \<Rightarrow> event_entry \<Rightarrow> ('f, 'm, 'x) event_bus \<Rightarrow> ('f, 'm, 'x) event_bus" where
  "set_entry k e s = s\<lparr>eb_entries := om_insert k e (eb_entries s)\<rparr>"

text \<open>\<open>std::make_shared\<close> of a vector: the address of the new one.\<close>

definition alloc_slots :: "'f slot list \<Rightarrow> ('f, 'm, 'x) event_bus \<Rightarrow> nat \<times> ('f, 'm, 'x) event_bus" where
  "alloc_slots v s = (length (eb_slots s), s\<lparr>eb_slots := eb_slots s @ [v]\<rparr>)"

definition alloc_raws :: "'f raw_slot list \<Rightarrow> ('f, 'm, 'x) event_bus \<Rightarrow> nat \<times> ('f, 'm, 'x) event_bus" where
  "alloc_raws v s = (length (eb_raws s), s\<lparr>eb_raws := eb_raws s @ [v]\<rparr>)"

section \<open>Entries\<close>

definition entry_count :: "event_entry \<Rightarrow> ('f, 'm, 'x) event_bus \<Rightarrow> nat" where
  "entry_count e s = length (eb_slots s ! en_listeners e) + length (eb_raws s ! en_raw e)"

definition entry_add ::
  "service_id \<Rightarrow> event_entry \<Rightarrow> 'f slot \<Rightarrow> bool \<Rightarrow> ('f, 'm, 'x) event_bus \<Rightarrow> ('f, 'm, 'x) event_bus" where
  "entry_add k e sl prepend s =
     (let v = eb_slots s ! en_listeners e;
          (a, s) = alloc_slots (if prepend then sl # v else v @ [sl]) s
      in set_entry k (e\<lparr>en_listeners := a\<rparr>) s)"

definition entry_add_raw ::
  "service_id \<Rightarrow> event_entry \<Rightarrow> 'f raw_slot \<Rightarrow> ('f, 'm, 'x) event_bus \<Rightarrow> ('f, 'm, 'x) event_bus" where
  "entry_add_raw k e sl s =
     (let (a, s) = alloc_raws (eb_raws s ! en_raw e @ [sl]) s in set_entry k (e\<lparr>en_raw := a\<rparr>) s)"

text \<open>
  \<open>remove\<close>: the slots that stay are moved, so the old vector, which a dispatch may still hold, keeps only
  empty callables next to the removed slot.
\<close>

definition moved_out :: "nat \<Rightarrow> 'f slot list \<Rightarrow> 'f slot list" where
  "moved_out t v = map (\<lambda>sl. if sl_token sl \<noteq> t then sl\<lparr>sl_fn := None\<rparr> else sl) v"

definition moved_out_raw :: "nat \<Rightarrow> 'f raw_slot list \<Rightarrow> 'f raw_slot list" where
  "moved_out_raw t v = map (\<lambda>sl. if rw_token sl \<noteq> t then sl\<lparr>rw_fn := None\<rparr> else sl) v"

definition entry_remove :: "service_id \<Rightarrow> event_entry \<Rightarrow> nat \<Rightarrow> ('f, 'm, 'x) event_bus \<Rightarrow> ('f, 'm, 'x) event_bus" where
  "entry_remove k e t s0 =
     (let v = eb_slots s0 ! en_listeners e;
          (a, s) = alloc_slots (filter (\<lambda>sl. sl_token sl \<noteq> t) v)
                     (s0\<lparr>eb_slots := (eb_slots s0)[en_listeners e := moved_out t v]\<rparr>);
          r = eb_raws s ! en_raw e;
          (b, s) = alloc_raws (filter (\<lambda>sl. rw_token sl \<noteq> t) r)
                     (s\<lparr>eb_raws := (eb_raws s)[en_raw e := moved_out_raw t r]\<rparr>)
      in set_entry k (e\<lparr>en_listeners := a, en_raw := b\<rparr>) s)"

definition slot_delivers :: "store \<Rightarrow> service_id \<Rightarrow> ctx_id option \<Rightarrow> 'f slot \<Rightarrow> bool" where
  "slot_delivers cs k sc sl \<longleftrightarrow>
     (case (sc, lo_scope (sl_opts sl)) of
        (Some c, Some d) \<Rightarrow> lo_global (sl_opts sl) \<or> realm_for cs c k = realm_for cs d k
      | _ \<Rightarrow> True)"

section \<open>Registration\<close>

definition add_listener ::
  "service_id \<Rightarrow> dispatch_mode \<Rightarrow> 'f \<Rightarrow> nat \<Rightarrow> listener_options \<Rightarrow> ('f, 'm, 'x) event_bus
     \<Rightarrow> ('x bus_error + nat) \<times> ('f, 'm, 'x) event_bus" where
  "add_listener k mode f owner opts s =
     (if \<not> eb_on_strand s then (Inl OffStrand, s)
      else
        let known = entry_base_for k s
        in if (case known of None \<Rightarrow> False | Some e \<Rightarrow> en_mode e \<noteq> mode) then (Inl (ModeConflict k), s)
           else
             let (e, s) = (case known of
                   Some e \<Rightarrow> (e, s)
                 | None \<Rightarrow>
                     let (a, s) = alloc_slots [] s;
                         (b, s) = alloc_raws [] s;
                         e = \<lparr>en_mode = mode, en_listeners = a, en_raw = b\<rparr>
                     in (e, set_entry k e s));
                 t = eb_next_token s;
                 s = s\<lparr>eb_next_token := t + 1\<rparr>
             in (Inr t, entry_add k e \<lparr>sl_owner = owner, sl_token = t, sl_fn = Some f, sl_opts = opts\<rparr> (lo_prepend opts) s))"

definition remove_listener ::
  "service_id \<Rightarrow> nat \<Rightarrow> ('f, 'm, 'x) event_bus \<Rightarrow> 'x bus_error option \<times> ('f, 'm, 'x) event_bus" where
  "remove_listener k t s =
     (if \<not> eb_on_strand s then (Some OffStrand, s)
      else (None, case entry_base_for k s of None \<Rightarrow> s | Some e \<Rightarrow> entry_remove k e t s))"

definition add_raw_listener ::
  "service_id \<Rightarrow> dispatch_mode \<Rightarrow> 'f \<Rightarrow> nat \<Rightarrow> ('f, 'm, 'x) event_bus
     \<Rightarrow> ('x bus_error + nat) \<times> ('f, 'm, 'x) event_bus" where
  "add_raw_listener k mode f owner s =
     (if \<not> eb_on_strand s then (Inl OffStrand, s)
      else if mode = Bail then (Inl (RawOnBail k), s)
      else
        (case entry_base_for k s of
           None \<Rightarrow> (Inl (RawUndeclared k), s)
         | Some e \<Rightarrow>
             if en_mode e \<noteq> mode then (Inl (ModeMismatch k), s)
             else
               let t = eb_next_token s;
                   s = s\<lparr>eb_next_token := t + 1\<rparr>
               in (Inr t, entry_add_raw k e \<lparr>rw_owner = owner, rw_token = t, rw_fn = Some f\<rparr> s)))"

definition listener_count :: "service_id \<Rightarrow> ('f, 'm, 'x) event_bus \<Rightarrow> 'x bus_error + nat" where
  "listener_count k s =
     (if \<not> eb_on_strand s then Inl OffStrand
      else Inr (case entry_base_for k s of None \<Rightarrow> 0 | Some e \<Rightarrow> entry_count e s))"

definition set_diagnostic_sink :: "bool \<Rightarrow> ('f, 'm, 'x) event_bus \<Rightarrow> ('f, 'm, 'x) event_bus" where
  "set_diagnostic_sink sink s = s\<lparr>eb_sink := sink\<rparr>"

definition report_to_sink :: "'x bus_error \<Rightarrow> ('f, 'm, 'x) event_bus \<Rightarrow> ('f, 'm, 'x) event_bus" where
  "report_to_sink x s = (if eb_sink s then s\<lparr>eb_reports := eb_reports s @ [x]\<rparr> else s)"

definition report_error :: "'x bus_error \<Rightarrow> ('f, 'm, 'x) event_bus \<Rightarrow> ('f, 'm, 'x) event_bus" where
  "report_error x s = report_to_sink x (if eb_error s = None then s\<lparr>eb_error := Some x\<rparr> else s)"

text \<open>
  \<open>plugin_context::on\<close>: the registration and the cleanup put on the effects of the activation, which is
  named by the event and the token it removes.
\<close>

type_synonym listener_cleanup = "service_id \<times> nat"

definition on_listener ::
  "bool \<Rightarrow> service_id \<Rightarrow> dispatch_mode \<Rightarrow> 'f \<Rightarrow> nat \<Rightarrow> listener_options
     \<Rightarrow> (listener_cleanup, 'x bus_error) effect_stack \<Rightarrow> ('f, 'm, 'x) event_bus
     \<Rightarrow> ('x bus_error + registration) \<times> (listener_cleanup, 'x bus_error) effect_stack \<times> ('f, 'm, 'x) event_bus" where
  "on_listener has_bus k mode f owner opts st s =
     (if \<not> has_bus then (Inl NoBus, st, s)
      else
        (case add_listener k mode f owner opts s of
           (Inl x, s) \<Rightarrow> (Inl x, st, s)
         | (Inr t, s) \<Rightarrow>
             (case stack_add (Some (k, t)) st of
                Inl _ \<Rightarrow> (Inl NoBus, st, s)
              | Inr (st, i) \<Rightarrow> (Inr \<lparr>reg_index = i, reg_active = True\<rparr>, st, s))))"

fun listener_removal ::
  "listener_cleanup \<Rightarrow> ('f, 'm, 'x) event_bus \<Rightarrow> 'x bus_error option \<times> ('f, 'm, 'x) event_bus" where
  "listener_removal (k, t) s = remove_listener k t s"

section \<open>Calling a slot\<close>

text \<open>
  The call operator of a slot's callable. An empty one throws; the wrapper of a \<open>once\<close> listener removes its
  slot first, which may throw and otherwise happens before the listener proper is called.
\<close>

definition take_slot ::
  "service_id \<Rightarrow> nat \<Rightarrow> nat \<Rightarrow> ('f, 'm, 'x) event_bus \<Rightarrow> ('x bus_error + 'f) \<times> ('f, 'm, 'x) event_bus" where
  "take_slot k a i s =
     (let sl = eb_slots s ! a ! i
      in case sl_fn sl of
           None \<Rightarrow> (Inl BadCall, s)
         | Some f \<Rightarrow>
             if lo_once (sl_opts sl)
             then (case remove_listener k (sl_token sl) s of
                     (Some x, s) \<Rightarrow> (Inl x, s)
                   | (None, s) \<Rightarrow> (Inr f, s))
             else (Inr f, s))"

definition take_raw :: "nat \<Rightarrow> nat \<Rightarrow> ('f, 'm, 'x) event_bus \<Rightarrow> 'x bus_error + 'f" where
  "take_raw a i s = (case rw_fn (eb_raws s ! a ! i) of None \<Rightarrow> Inl BadCall | Some f \<Rightarrow> Inr f)"

definition typed_entry ::
  "service_id \<Rightarrow> dispatch_mode \<Rightarrow> ('f, 'm, 'x) event_bus \<Rightarrow> 'x bus_error + event_entry option" where
  "typed_entry k mode s =
     (case entry_base_for k s of
        None \<Rightarrow> Inr None
      | Some e \<Rightarrow> if en_mode e \<noteq> mode then Inl (ModeMismatch k) else Inr (Some e))"

definition delivering :: "service_id \<Rightarrow> ctx_id option \<Rightarrow> nat \<Rightarrow> ('f, 'm, 'x) event_bus \<Rightarrow> nat list" where
  "delivering k sc a s =
     filter (\<lambda>i. slot_delivers (eb_scopes s) k sc (eb_slots s ! a ! i)) [0..<length (eb_slots s ! a)]"

section \<open>Emit\<close>

definition spawn :: "('f, 'm) bus_task \<Rightarrow> ('f, 'm, 'x) event_bus \<Rightarrow> ('f, 'm, 'x) event_bus" where
  "spawn t s = s\<lparr>eb_tasks := eb_tasks s @ [t]\<rparr>"

definition dispatch_emit ::
  "service_id \<Rightarrow> event_entry \<Rightarrow> 'm \<Rightarrow> ctx_id option \<Rightarrow> ('f, 'm, 'x) event_bus \<Rightarrow> ('f, 'm, 'x) event_bus" where
  "dispatch_emit k e m sc s =
     (let a = en_listeners e; b = en_raw e;
          s = fold (\<lambda>i. spawn (RunSlot k a i m)) (delivering k sc a s) s
      in fold (\<lambda>i. spawn (RunRaw b i m)) [0..<length (eb_raws s ! b)] s)"

definition emit_event ::
  "service_id \<Rightarrow> 'm \<Rightarrow> ctx_id option \<Rightarrow> ('f, 'm, 'x) event_bus \<Rightarrow> 'x bus_error option \<times> ('f, 'm, 'x) event_bus" where
  "emit_event k m sc s =
     (if \<not> eb_on_strand s then (Some OffStrand, s)
      else
        (case typed_entry k Emit s of
           Inl x \<Rightarrow> (Some x, s)
         | Inr None \<Rightarrow> (None, s)
         | Inr (Some e) \<Rightarrow> (None, dispatch_emit k e m sc s)))"

section \<open>Parallel\<close>

text \<open>\<open>parallel_state::complete\<close>.\<close>

definition complete_one :: "'x bus_error option \<Rightarrow> 'x parallel_state \<Rightarrow> 'x parallel_state" where
  "complete_one err p =
     (let p = (if err \<noteq> None \<and> pl_first p = None then p\<lparr>pl_first := err\<rparr> else p);
          p = p\<lparr>pl_remaining := pl_remaining p - 1\<rparr>
      in if pl_remaining p = 0 then p\<lparr>pl_complete := True\<rparr> else p)"

definition complete_parallel ::
  "nat \<Rightarrow> 'x bus_error option \<Rightarrow> ('f, 'm, 'x) event_bus \<Rightarrow> ('f, 'm, 'x) event_bus" where
  "complete_parallel p err s = s\<lparr>eb_parallels := (eb_parallels s)[p := complete_one err (eb_parallels s ! p)]\<rparr>"

text \<open>
  The two loops call each callable at once, which makes its coroutine, and spawn the coroutine; a call
  that throws leaves the dispatch.
\<close>

fun spawn_slots ::
  "service_id \<Rightarrow> nat \<Rightarrow> ctx_id option \<Rightarrow> nat \<Rightarrow> 'm \<Rightarrow> nat list \<Rightarrow> ('f, 'm, 'x) event_bus
     \<Rightarrow> 'x bus_error option \<times> ('f, 'm, 'x) event_bus" where
  "spawn_slots k a sc p m [] s = (None, s)"
| "spawn_slots k a sc p m (i # is) s =
     (if \<not> slot_delivers (eb_scopes s) k sc (eb_slots s ! a ! i) then spawn_slots k a sc p m is s
      else
        (case take_slot k a i s of
           (Inl x, s) \<Rightarrow> (Some x, s)
         | (Inr f, s) \<Rightarrow> spawn_slots k a sc p m is (spawn (RunBody p f m) s)))"

fun spawn_raws ::
  "nat \<Rightarrow> nat \<Rightarrow> 'm \<Rightarrow> nat list \<Rightarrow> ('f, 'm, 'x) event_bus \<Rightarrow> 'x bus_error option \<times> ('f, 'm, 'x) event_bus" where
  "spawn_raws b p m [] s = (None, s)"
| "spawn_raws b p m (i # is) s =
     (case take_raw b i s of
        Inl x \<Rightarrow> (Some x, s)
      | Inr f \<Rightarrow> spawn_raws b p m is (spawn (RunBody p f m) s))"

text \<open>The dispatch up to the wait: the state it waits for, or \<open>None\<close> when there is nothing to wait for.\<close>

definition dispatch_parallel ::
  "service_id \<Rightarrow> event_entry \<Rightarrow> 'm \<Rightarrow> ctx_id option \<Rightarrow> ('f, 'm, 'x) event_bus
     \<Rightarrow> ('x bus_error + nat option) \<times> ('f, 'm, 'x) event_bus" where
  "dispatch_parallel k e m sc s =
     (let a = en_listeners e; b = en_raw e; n = length (eb_slots s ! a); r = length (eb_raws s ! b);
          total = length (delivering k sc a s) + r
      in if total = 0 then (Inr None, s)
         else
           let p = length (eb_parallels s);
               s = s\<lparr>eb_parallels := eb_parallels s @ [\<lparr>pl_remaining = total, pl_first = None, pl_complete = False\<rparr>]\<rparr>
           in (case spawn_slots k a sc p m [0..<n] s of
                 (Some x, s) \<Rightarrow> (Inl x, s)
               | (None, s) \<Rightarrow>
                   (case spawn_raws b p m [0..<r] s of
                      (Some x, s) \<Rightarrow> (Inl x, s)
                    | (None, s) \<Rightarrow> (Inr (Some p), s))))"

definition parallel_event ::
  "service_id \<Rightarrow> 'm \<Rightarrow> ctx_id option \<Rightarrow> ('f, 'm, 'x) event_bus
     \<Rightarrow> ('x bus_error + nat option) \<times> ('f, 'm, 'x) event_bus" where
  "parallel_event k m sc s =
     (if \<not> eb_on_strand s then (Inl OffStrand, s)
      else
        (case typed_entry k Parallel s of
           Inl x \<Rightarrow> (Inl x, s)
         | Inr None \<Rightarrow> (Inr None, s)
         | Inr (Some e) \<Rightarrow> dispatch_parallel k e m sc s))"

text \<open>What the dispatcher sees when the gate opens: the first failure is rethrown.\<close>

definition parallel_result :: "nat \<Rightarrow> ('f, 'm, 'x) event_bus \<Rightarrow> 'x bus_error option option" where
  "parallel_result p s =
     (let st = eb_parallels s ! p in if pl_complete st then Some (pl_first st) else None)"

section \<open>Running a spawned coroutine\<close>

type_synonym ('f, 'm, 'x) notify_body =
  "'f \<Rightarrow> 'm \<Rightarrow> ('f, 'm, 'x) event_bus \<Rightarrow> 'x bus_error option \<times> ('f, 'm, 'x) event_bus"

definition sink_report :: "'x bus_error option \<Rightarrow> ('f, 'm, 'x) event_bus \<Rightarrow> ('f, 'm, 'x) event_bus" where
  "sink_report err s = (case err of None \<Rightarrow> s | Some x \<Rightarrow> report_to_sink x s)"

fun run_task ::
  "('f, 'm, 'x) notify_body \<Rightarrow> ('f, 'm) bus_task \<Rightarrow> ('f, 'm, 'x) event_bus \<Rightarrow> ('f, 'm, 'x) event_bus" where
  "run_task body (RunSlot k a i m) s =
     (case take_slot k a i s of
        (Inl x, s) \<Rightarrow> sink_report (Some x) s
      | (Inr f, s) \<Rightarrow> (case body f m s of (err, s) \<Rightarrow> sink_report err s))"
| "run_task body (RunRaw b i m) s =
     (case take_raw b i s of
        Inl x \<Rightarrow> sink_report (Some x) s
      | Inr f \<Rightarrow> (case body f m s of (err, s) \<Rightarrow> sink_report err s))"
| "run_task body (RunBody p f m) s = (case body f m s of (err, s) \<Rightarrow> complete_parallel p err s)"

definition next_task :: "('f, 'm, 'x) notify_body \<Rightarrow> ('f, 'm, 'x) event_bus \<Rightarrow> ('f, 'm, 'x) event_bus" where
  "next_task body s =
     (case eb_tasks s of [] \<Rightarrow> s | t # ts \<Rightarrow> run_task body t (s\<lparr>eb_tasks := ts\<rparr>))"

section \<open>Serial and bail\<close>

fun serial_slots ::
  "('f, 'm, 'x) notify_body \<Rightarrow> service_id \<Rightarrow> nat \<Rightarrow> ctx_id option \<Rightarrow> 'm \<Rightarrow> nat list \<Rightarrow> ('f, 'm, 'x) event_bus
     \<Rightarrow> 'x bus_error option \<times> ('f, 'm, 'x) event_bus" where
  "serial_slots body k a sc m [] s = (None, s)"
| "serial_slots body k a sc m (i # is) s =
     (if \<not> slot_delivers (eb_scopes s) k sc (eb_slots s ! a ! i) then serial_slots body k a sc m is s
      else
        (case take_slot k a i s of
           (Inl x, s) \<Rightarrow> (Some x, s)
         | (Inr f, s) \<Rightarrow>
             (case body f m s of
                (Some x, s) \<Rightarrow> (Some x, s)
              | (None, s) \<Rightarrow> serial_slots body k a sc m is s)))"

fun serial_raws ::
  "('f, 'm, 'x) notify_body \<Rightarrow> nat \<Rightarrow> 'm \<Rightarrow> nat list \<Rightarrow> ('f, 'm, 'x) event_bus
     \<Rightarrow> 'x bus_error option \<times> ('f, 'm, 'x) event_bus" where
  "serial_raws body b m [] s = (None, s)"
| "serial_raws body b m (i # is) s =
     (case take_raw b i s of
        Inl x \<Rightarrow> (Some x, s)
      | Inr f \<Rightarrow>
          (case body f m s of
             (Some x, s) \<Rightarrow> (Some x, s)
           | (None, s) \<Rightarrow> serial_raws body b m is s))"

text \<open>
  The typed snapshot is taken before the first listener, the raw one after the last typed listener, from
  the entry as it is then (an entry is never dropped).
\<close>

definition dispatch_serial ::
  "('f, 'm, 'x) notify_body \<Rightarrow> service_id \<Rightarrow> event_entry \<Rightarrow> 'm \<Rightarrow> ctx_id option \<Rightarrow> ('f, 'm, 'x) event_bus
     \<Rightarrow> 'x bus_error option \<times> ('f, 'm, 'x) event_bus" where
  "dispatch_serial body k e m sc s =
     (let a = en_listeners e
      in (case serial_slots body k a sc m [0..<length (eb_slots s ! a)] s of
            (Some x, s) \<Rightarrow> (Some x, s)
          | (None, s) \<Rightarrow>
              let b = (case entry_base_for k s of None \<Rightarrow> en_raw e | Some e \<Rightarrow> en_raw e)
              in serial_raws body b m [0..<length (eb_raws s ! b)] s))"

definition serial_event ::
  "('f, 'm, 'x) notify_body \<Rightarrow> service_id \<Rightarrow> 'm \<Rightarrow> ctx_id option \<Rightarrow> ('f, 'm, 'x) event_bus
     \<Rightarrow> 'x bus_error option \<times> ('f, 'm, 'x) event_bus" where
  "serial_event body k m sc s =
     (if \<not> eb_on_strand s then (Some OffStrand, s)
      else
        (case typed_entry k Serial s of
           Inl x \<Rightarrow> (Some x, s)
         | Inr None \<Rightarrow> (None, s)
         | Inr (Some e) \<Rightarrow> dispatch_serial body k e m sc s))"

type_synonym ('f, 'm, 'x) bail_body =
  "'f \<Rightarrow> 'm \<Rightarrow> ('f, 'm, 'x) event_bus \<Rightarrow> ('x bus_error + bool) \<times> ('f, 'm, 'x) event_bus"

fun bail_slots ::
  "('f, 'm, 'x) bail_body \<Rightarrow> service_id \<Rightarrow> nat \<Rightarrow> ctx_id option \<Rightarrow> 'm \<Rightarrow> nat list \<Rightarrow> ('f, 'm, 'x) event_bus
     \<Rightarrow> ('x bus_error + bool) \<times> ('f, 'm, 'x) event_bus" where
  "bail_slots body k a sc m [] s = (Inr False, s)"
| "bail_slots body k a sc m (i # is) s =
     (if \<not> slot_delivers (eb_scopes s) k sc (eb_slots s ! a ! i) then bail_slots body k a sc m is s
      else
        (case take_slot k a i s of
           (Inl x, s) \<Rightarrow> (Inl x, s)
         | (Inr f, s) \<Rightarrow>
             (case body f m s of
                (Inl x, s) \<Rightarrow> (Inl x, s)
              | (Inr bailed, s) \<Rightarrow> if bailed then (Inr True, s) else bail_slots body k a sc m is s)))"

definition dispatch_bail ::
  "('f, 'm, 'x) bail_body \<Rightarrow> service_id \<Rightarrow> event_entry \<Rightarrow> 'm \<Rightarrow> ctx_id option \<Rightarrow> ('f, 'm, 'x) event_bus
     \<Rightarrow> ('x bus_error + bool) \<times> ('f, 'm, 'x) event_bus" where
  "dispatch_bail body k e m sc s =
     bail_slots body k (en_listeners e) sc m [0..<length (eb_slots s ! en_listeners e)] s"

definition bail_event ::
  "('f, 'm, 'x) bail_body \<Rightarrow> service_id \<Rightarrow> 'm \<Rightarrow> ctx_id option \<Rightarrow> ('f, 'm, 'x) event_bus
     \<Rightarrow> ('x bus_error + bool) \<times> ('f, 'm, 'x) event_bus" where
  "bail_event body k m sc s =
     (if \<not> eb_on_strand s then (Inl OffStrand, s)
      else
        (case typed_entry k Bail s of
           Inl x \<Rightarrow> (Inl x, s)
         | Inr None \<Rightarrow> (Inr False, s)
         | Inr (Some e) \<Rightarrow> dispatch_bail body k e m sc s))"

section \<open>Waterfall\<close>

text \<open>
  A listener of a waterfall receives the continuation and may call it any number of times. The continuation
  of \<open>n\<close> remaining slots is a function of the message and the bus.
\<close>

type_synonym ('f, 'm, 'x) stage =
  "'m \<Rightarrow> ('f, 'm, 'x) event_bus \<Rightarrow> ('x bus_error + 'm) \<times> ('f, 'm, 'x) event_bus"

type_synonym ('f, 'm, 'x) waterfall_body = "'f \<Rightarrow> 'm \<Rightarrow> ('f, 'm, 'x) stage \<Rightarrow> ('f, 'm, 'x) event_bus
     \<Rightarrow> ('x bus_error + 'm) \<times> ('f, 'm, 'x) event_bus"

primrec waterfall_continuation ::
  "('f, 'm, 'x) waterfall_body \<Rightarrow> service_id \<Rightarrow> nat \<Rightarrow> nat \<Rightarrow> ('f, 'm, 'x) stage" where
  "waterfall_continuation body k a 0 = (\<lambda>m s. (Inr m, s))"
| "waterfall_continuation body k a (Suc n) = (\<lambda>m s.
     (case take_slot k a (length (eb_slots s ! a) - Suc n) s of
        (Inl x, s) \<Rightarrow> (Inl x, s)
      | (Inr f, s) \<Rightarrow> body f m (waterfall_continuation body k a n) s))"

text \<open>With a scope the chain is a copy of the delivering slots, in a vector of its own.\<close>

definition dispatch_waterfall ::
  "('f, 'm, 'x) waterfall_body \<Rightarrow> service_id \<Rightarrow> event_entry \<Rightarrow> 'm \<Rightarrow> ctx_id option \<Rightarrow> ('f, 'm, 'x) event_bus
     \<Rightarrow> ('x bus_error + 'm) \<times> ('f, 'm, 'x) event_bus" where
  "dispatch_waterfall body k e m sc s =
     (let v = eb_slots s ! en_listeners e
      in if sc = None then waterfall_continuation body k (en_listeners e) (length v) m s
         else
           let chain = filter (slot_delivers (eb_scopes s) k sc) v;
               (a, s) = alloc_slots chain s
           in waterfall_continuation body k a (length chain) m s)"

definition waterfall_event ::
  "('f, 'm, 'x) waterfall_body \<Rightarrow> service_id \<Rightarrow> 'm \<Rightarrow> ctx_id option \<Rightarrow> ('f, 'm, 'x) event_bus
     \<Rightarrow> ('x bus_error + 'm) \<times> ('f, 'm, 'x) event_bus" where
  "waterfall_event body k m sc s =
     (if \<not> eb_on_strand s then (Inl OffStrand, s)
      else
        (case typed_entry k Waterfall s of
           Inl x \<Rightarrow> (Inl x, s)
         | Inr None \<Rightarrow> (Inr m, s)
         | Inr (Some e) \<Rightarrow> dispatch_waterfall body k e m sc s))"

section \<open>Submission from other threads\<close>

text \<open>
  Both submissions dispatch on the strand; \<open>run_nowait\<close> has no caller, so what the dispatch throws is
  reported. Shown for a dispatch whose outcome is an optional error.
\<close>

definition on_strand :: "(('f, 'm, 'x) event_bus \<Rightarrow> 'r \<times> ('f, 'm, 'x) event_bus) \<Rightarrow> ('f, 'm, 'x) event_bus
    \<Rightarrow> 'r \<times> ('f, 'm, 'x) event_bus" where
  "on_strand act s =
     (case act (s\<lparr>eb_on_strand := True\<rparr>) of (r, s') \<Rightarrow> (r, s'\<lparr>eb_on_strand := eb_on_strand s\<rparr>))"

definition run_nowait ::
  "(('f, 'm, 'x) event_bus \<Rightarrow> 'x bus_error option \<times> ('f, 'm, 'x) event_bus) \<Rightarrow> ('f, 'm, 'x) event_bus
     \<Rightarrow> ('f, 'm, 'x) event_bus" where
  "run_nowait act s = (case act s of (None, s) \<Rightarrow> s | (Some x, s) \<Rightarrow> report_error x s)"

definition submit_nowait ::
  "(('f, 'm, 'x) event_bus \<Rightarrow> 'x bus_error option \<times> ('f, 'm, 'x) event_bus) \<Rightarrow> ('f, 'm, 'x) event_bus
     \<Rightarrow> ('f, 'm, 'x) event_bus" where
  "submit_nowait act s = snd (on_strand (\<lambda>s. ((), run_nowait act s)) s)"

end
