(* ===== verification/EventLaws.thy ===== *)
theory EventLaws
  imports Events
begin

text \<open>
  What the event bus guarantees: registration is exact in every reachable bus, a dispatch during which
  nothing is removed runs the listeners it started with, in order.
\<close>

section \<open>The registered listeners\<close>

definition slots_of :: "service_id \<Rightarrow> ('f, 'm, 'x) event_bus \<Rightarrow> 'f slot list" where
  "slots_of k s = (case entry_base_for k s of None \<Rightarrow> [] | Some e \<Rightarrow> eb_slots s ! en_listeners e)"

definition raws_of :: "service_id \<Rightarrow> ('f, 'm, 'x) event_bus \<Rightarrow> 'f raw_slot list" where
  "raws_of k s = (case entry_base_for k s of None \<Rightarrow> [] | Some e \<Rightarrow> eb_raws s ! en_raw e)"

text \<open>
  The invariant: the current vector of an entry exists, belongs to it alone, holds callables, and its tokens
  were handed out, each once.
\<close>

definition entry_ok :: "('f, 'm, 'x) event_bus \<Rightarrow> event_entry \<Rightarrow> bool" where
  "entry_ok s e \<longleftrightarrow> en_listeners e < length (eb_slots s) \<and> en_raw e < length (eb_raws s)"

definition own_vectors :: "(service_id, event_entry) omap \<Rightarrow> bool" where
  "own_vectors m \<longleftrightarrow> (\<forall>k k' e e'. map_of m k = Some e \<longrightarrow> map_of m k' = Some e' \<longrightarrow> k \<noteq> k' \<longrightarrow>
     en_listeners e \<noteq> en_listeners e' \<and> en_raw e \<noteq> en_raw e')"

definition vectors_ok :: "nat \<Rightarrow> 'f slot list \<Rightarrow> 'f raw_slot list \<Rightarrow> bool" where
  "vectors_ok n v r \<longleftrightarrow> distinct (map sl_token v @ map rw_token r) \<and>
     (\<forall>sl \<in> set v. sl_fn sl \<noteq> None \<and> sl_token sl < n) \<and> (\<forall>sl \<in> set r. rw_fn sl \<noteq> None \<and> rw_token sl < n)"

definition bus_ok :: "('f, 'm, 'x) event_bus \<Rightarrow> bool" where
  "bus_ok s \<longleftrightarrow> own_vectors (eb_entries s) \<and> (\<forall>k e. map_of (eb_entries s) k = Some e \<longrightarrow> entry_ok s e) \<and>
     (\<forall>k. vectors_ok (eb_next_token s) (slots_of k s) (raws_of k s))"

lemma new_bus_ok: "bus_ok (new_bus cs)"
  by (simp add: bus_ok_def new_bus_def own_vectors_def slots_of_def raws_of_def entry_base_for_def vectors_ok_def)

lemma vectors_ok_mono: "vectors_ok n v r \<Longrightarrow> n \<le> n' \<Longrightarrow> vectors_ok n' v r"
  by (fastforce simp: vectors_ok_def)

lemma vectors_ok_add:
  "vectors_ok n v r \<Longrightarrow> sl_token sl = n \<Longrightarrow> sl_fn sl \<noteq> None \<Longrightarrow>
     vectors_ok (Suc n) (sl # v) r \<and> vectors_ok (Suc n) (v @ [sl]) r"
  by (force simp: vectors_ok_def less_Suc_eq)

lemma vectors_ok_add_raw:
  "vectors_ok n v r \<Longrightarrow> rw_token sl = n \<Longrightarrow> rw_fn sl \<noteq> None \<Longrightarrow> vectors_ok (Suc n) v (r @ [sl])"
  by (force simp: vectors_ok_def less_Suc_eq)

lemma vectors_ok_remove:
  "vectors_ok n v r \<Longrightarrow> vectors_ok n (filter (\<lambda>sl. sl_token sl \<noteq> t) v) (filter (\<lambda>sl. rw_token sl \<noteq> t) r)"
  unfolding vectors_ok_def distinct_append set_map
  by (intro conjI; (simp add: distinct_map_filter; fail)?) (auto simp: disjoint_iff)

section \<open>Operations on an entry\<close>

lemma slots_set_entry:
  "slots_of j (set_entry k e s) = (if j = k then eb_slots s ! en_listeners e else slots_of j s)"
  "raws_of j (set_entry k e s) = (if j = k then eb_raws s ! en_raw e else raws_of j s)"
  by (simp_all add: slots_of_def raws_of_def set_entry_def entry_base_for_def split: option.split)

text \<open>
  The frame of a change to one entry: its vectors are replaced by new ones and other entries keep theirs.
\<close>

definition entry_replaced ::
  "service_id \<Rightarrow> 'f slot list \<Rightarrow> 'f raw_slot list \<Rightarrow> nat \<Rightarrow> ('f, 'm, 'x) event_bus \<Rightarrow> ('f, 'm, 'x) event_bus \<Rightarrow> bool" where
  "entry_replaced k v r n s s' \<longleftrightarrow>
     (\<forall>j. slots_of j s' = (if j = k then v else slots_of j s) \<and> raws_of j s' = (if j = k then r else raws_of j s)) \<and>
     own_vectors (eb_entries s') \<and> (\<forall>j e. map_of (eb_entries s') j = Some e \<longrightarrow> entry_ok s' e) \<and> eb_next_token s' = n \<and>
     entry_base_for k s' \<noteq> None \<and> (\<forall>j. map_option en_mode (entry_base_for j s) \<noteq> None \<longrightarrow>
        map_option en_mode (entry_base_for j s') = map_option en_mode (entry_base_for j s))"

lemma replaced_ok:
  assumes "bus_ok s" and "entry_replaced k v r n s s'" and "eb_next_token s \<le> n" and "vectors_ok n v r"
  shows "bus_ok s'"
proof -
  have "vectors_ok n (slots_of j s) (raws_of j s)" for j
    by (rule vectors_ok_mono [OF _ assms(3)]) (use assms(1) in \<open>simp add: bus_ok_def\<close>)
  with assms(2,4) show ?thesis by (simp add: bus_ok_def entry_replaced_def)
qed

lemma bus_ok_entry:
  "bus_ok s \<Longrightarrow> entry_base_for k s = Some e \<Longrightarrow> entry_ok s e"
  by (simp add: bus_ok_def entry_base_for_def)

lemma bus_ok_other:
  "bus_ok s \<Longrightarrow> entry_base_for k s = Some e \<Longrightarrow> entry_base_for j s = Some e' \<Longrightarrow> j \<noteq> k \<Longrightarrow>
     en_listeners e' \<noteq> en_listeners e \<and> en_raw e' \<noteq> en_raw e"
  unfolding bus_ok_def own_vectors_def entry_base_for_def by metis

lemma own_vectors_insert:
  assumes "own_vectors m" and "\<And>j e'. map_of m j = Some e' \<Longrightarrow> j \<noteq> k \<Longrightarrow>
    en_listeners e' \<noteq> en_listeners e \<and> en_raw e' \<noteq> en_raw e"
  shows "own_vectors (om_insert k e m)"
  unfolding own_vectors_def
proof (intro allI impI)
  fix i j a b
  assume "map_of (om_insert k e m) i = Some a" "map_of (om_insert k e m) j = Some b" "i \<noteq> j"
  then show "en_listeners a \<noteq> en_listeners b \<and> en_raw a \<noteq> en_raw b"
    using assms(1) assms(2) [of i a] assms(2) [of j b]
    by (cases "i = k"; cases "j = k") (simp_all add: own_vectors_def)
qed

lemma replacing_entry:
  assumes ok: "bus_ok s" and en: "eb_entries s' = om_insert k e' (eb_entries s)" and n: "eb_next_token s' = n"
    and len: "length (eb_slots s) \<le> length (eb_slots s')" "length (eb_raws s) \<le> length (eb_raws s')" and e': "entry_ok s' e'"
    and mode: "\<And>e. entry_base_for k s = Some e \<Longrightarrow> en_mode e' = en_mode e"
    and other: "\<And>j e. j \<noteq> k \<Longrightarrow> entry_base_for j s = Some e \<Longrightarrow>
      eb_slots s' ! en_listeners e = eb_slots s ! en_listeners e \<and> eb_raws s' ! en_raw e = eb_raws s ! en_raw e \<and>
      en_listeners e \<noteq> en_listeners e' \<and> en_raw e \<noteq> en_raw e'"
  shows "entry_replaced k (eb_slots s' ! en_listeners e') (eb_raws s' ! en_raw e') n s s'"
proof -
  have b: "entry_base_for j s' = (if j = k then Some e' else entry_base_for j s)" for j
    by (simp add: entry_base_for_def en)
  have "slots_of j s' = slots_of j s \<and> raws_of j s' = raws_of j s" if "j \<noteq> k" for j
    using other [OF that] that by (cases "entry_base_for j s") (simp_all add: slots_of_def raws_of_def b)
  moreover have "slots_of k s' = eb_slots s' ! en_listeners e'" "raws_of k s' = eb_raws s' ! en_raw e'"
    by (simp_all add: slots_of_def raws_of_def b)
  moreover have "own_vectors (eb_entries s')"
    unfolding en using ok other by (intro own_vectors_insert) (auto simp: bus_ok_def entry_base_for_def)
  moreover have "entry_ok s' e" if "map_of (eb_entries s') j = Some e" for j e
  proof (cases "j = k")
    case False
    with that ok have "entry_ok s e" by (simp add: bus_ok_def en)
    with len show ?thesis by (simp add: entry_ok_def)
  qed (use that e' in \<open>simp add: en\<close>)
  ultimately show ?thesis
    using mode unfolding entry_replaced_def by (auto simp: b n)
qed

lemma entry_add_replaces:
  assumes ok: "bus_ok s" and e: "entry_base_for k s = Some e"
  shows "entry_replaced k (if prepend then sl # slots_of k s else slots_of k s @ [sl]) (raws_of k s) n s
    (entry_add k e sl prepend (s\<lparr>eb_next_token := n\<rparr>))"
proof -
  define v where "v = (if prepend then sl # slots_of k s else slots_of k s @ [sl])"
  let ?e = "e\<lparr>en_listeners := length (eb_slots s)\<rparr>"
  let ?s = "s\<lparr>eb_next_token := n, eb_slots := eb_slots s @ [v], eb_entries := om_insert k ?e (eb_entries s)\<rparr>"
  have old: "slots_of k s = eb_slots s ! en_listeners e" "raws_of k s = eb_raws s ! en_raw e"
    using e by (simp_all add: slots_of_def raws_of_def)
  have s': "entry_add k e sl prepend (s\<lparr>eb_next_token := n\<rparr>) = ?s"
    by (simp add: entry_add_def alloc_slots_def Let_def old v_def set_entry_def)
  from bus_ok_entry [OF ok e] have ek: "entry_ok s e" .
  have "entry_replaced k (eb_slots ?s ! en_listeners ?e) (eb_raws ?s ! en_raw ?e) n s ?s"
  proof (rule replacing_entry [OF ok])
    fix j e' assume j: "j \<noteq> k" "entry_base_for j s = Some e'"
    from bus_ok_entry [OF ok j(2)] bus_ok_other [OF ok e j(2,1)]
    show "eb_slots ?s ! en_listeners e' = eb_slots s ! en_listeners e' \<and> eb_raws ?s ! en_raw e' = eb_raws s ! en_raw e' \<and>
      en_listeners e' \<noteq> en_listeners ?e \<and> en_raw e' \<noteq> en_raw ?e"
      by (auto simp: entry_ok_def nth_append)
  qed (use e ek in \<open>auto simp: entry_ok_def\<close>)
  then show ?thesis by (simp add: s' old(2) flip: v_def)
qed

lemma entry_add_raw_replaces:
  assumes ok: "bus_ok s" and e: "entry_base_for k s = Some e"
  shows "entry_replaced k (slots_of k s) (raws_of k s @ [sl]) n s (entry_add_raw k e sl (s\<lparr>eb_next_token := n\<rparr>))"
proof -
  let ?e = "e\<lparr>en_raw := length (eb_raws s)\<rparr>"
  let ?s = "s\<lparr>eb_next_token := n, eb_raws := eb_raws s @ [raws_of k s @ [sl]], eb_entries := om_insert k ?e (eb_entries s)\<rparr>"
  have old: "slots_of k s = eb_slots s ! en_listeners e" "raws_of k s = eb_raws s ! en_raw e"
    using e by (simp_all add: slots_of_def raws_of_def)
  have s': "entry_add_raw k e sl (s\<lparr>eb_next_token := n\<rparr>) = ?s"
    by (simp add: entry_add_raw_def alloc_raws_def Let_def old set_entry_def)
  from bus_ok_entry [OF ok e] have ek: "entry_ok s e" .
  have "entry_replaced k (eb_slots ?s ! en_listeners ?e) (eb_raws ?s ! en_raw ?e) n s ?s"
  proof (rule replacing_entry [OF ok])
    fix j e' assume j: "j \<noteq> k" "entry_base_for j s = Some e'"
    from bus_ok_entry [OF ok j(2)] bus_ok_other [OF ok e j(2,1)]
    show "eb_slots ?s ! en_listeners e' = eb_slots s ! en_listeners e' \<and> eb_raws ?s ! en_raw e' = eb_raws s ! en_raw e' \<and>
      en_listeners e' \<noteq> en_listeners ?e \<and> en_raw e' \<noteq> en_raw ?e"
      by (auto simp: entry_ok_def nth_append)
  qed (use e ek in \<open>auto simp: entry_ok_def\<close>)
  then show ?thesis by (simp add: s' old(1))
qed

lemma entry_remove_replaces:
  assumes ok: "bus_ok s" and e: "entry_base_for k s = Some e"
  shows "entry_replaced k (filter (\<lambda>sl. sl_token sl \<noteq> t) (slots_of k s)) (filter (\<lambda>sl. rw_token sl \<noteq> t) (raws_of k s))
    (eb_next_token s) s (entry_remove k e t s)"
proof -
  let ?v = "filter (\<lambda>sl. sl_token sl \<noteq> t) (slots_of k s)" and ?r = "filter (\<lambda>sl. rw_token sl \<noteq> t) (raws_of k s)"
  let ?e = "e\<lparr>en_listeners := length (eb_slots s), en_raw := length (eb_raws s)\<rparr>"
  let ?s = "s\<lparr>eb_slots := (eb_slots s)[en_listeners e := moved_out t (slots_of k s)] @ [?v],
              eb_raws := (eb_raws s)[en_raw e := moved_out_raw t (raws_of k s)] @ [?r],
              eb_entries := om_insert k ?e (eb_entries s)\<rparr>"
  have old: "slots_of k s = eb_slots s ! en_listeners e" "raws_of k s = eb_raws s ! en_raw e"
    using e by (simp_all add: slots_of_def raws_of_def)
  have s': "entry_remove k e t s = ?s"
    by (simp add: entry_remove_def alloc_slots_def alloc_raws_def Let_def old set_entry_def)
  from bus_ok_entry [OF ok e] have ek: "entry_ok s e" .
  have "entry_replaced k (eb_slots ?s ! en_listeners ?e) (eb_raws ?s ! en_raw ?e) (eb_next_token s) s ?s"
  proof (rule replacing_entry [OF ok])
    fix j e' assume j: "j \<noteq> k" "entry_base_for j s = Some e'"
    from bus_ok_entry [OF ok j(2)] bus_ok_other [OF ok e j(2,1)]
    show "eb_slots ?s ! en_listeners e' = eb_slots s ! en_listeners e' \<and> eb_raws ?s ! en_raw e' = eb_raws s ! en_raw e' \<and>
      en_listeners e' \<noteq> en_listeners ?e \<and> en_raw e' \<noteq> en_raw ?e"
      by (auto simp: entry_ok_def nth_append)
  qed (use e ek in \<open>auto simp: entry_ok_def\<close>)
  then show ?thesis by (simp add: s' nth_append)
qed

section \<open>Registration\<close>

lemma entry_declared:
  fixes s :: "('f, 'm, 'x) event_bus"
  assumes ok: "bus_ok s" and none: "entry_base_for k s = None"
    and e: "e = \<lparr>en_mode = mode, en_listeners = length (eb_slots s), en_raw = length (eb_raws s)\<rparr>"
    and s': "s' = set_entry k e (s\<lparr>eb_slots := eb_slots s @ [[]], eb_raws := eb_raws s @ [[]]\<rparr>)"
  shows "bus_ok s' \<and> entry_base_for k s' = Some e \<and> slots_of j s' = slots_of j s \<and> raws_of j s' = raws_of j s \<and>
    eb_next_token s' = eb_next_token s"
proof -
  have r: "entry_replaced k (eb_slots s' ! en_listeners e) (eb_raws s' ! en_raw e) (eb_next_token s) s s'"
  proof (rule replacing_entry [OF ok])
    fix j e' assume "j \<noteq> k" "entry_base_for j s = Some e'"
    with bus_ok_entry [OF ok, of j e']
    show "eb_slots s' ! en_listeners e' = eb_slots s ! en_listeners e' \<and> eb_raws s' ! en_raw e' = eb_raws s ! en_raw e' \<and>
      en_listeners e' \<noteq> en_listeners e \<and> en_raw e' \<noteq> en_raw e"
      by (auto simp: entry_ok_def nth_append s' e set_entry_def)
  qed (use none in \<open>auto simp: s' e set_entry_def entry_ok_def\<close>)
  have v: "eb_slots s' ! en_listeners e = ([] :: 'f slot list)" "eb_raws s' ! en_raw e = ([] :: 'f raw_slot list)"
    by (simp_all add: s' e set_entry_def)
  have n: "slots_of k s = []" "raws_of k s = []" using none by (simp_all add: slots_of_def raws_of_def)
  from r have f: "slots_of j s' = slots_of j s" "raws_of j s' = raws_of j s" "eb_next_token s' = eb_next_token s"
    by (auto simp: entry_replaced_def v n)
  have "bus_ok s'" by (rule replaced_ok [OF ok r]) (simp_all add: v vectors_ok_def)
  moreover have "entry_base_for k s' = Some e" by (simp add: s' set_entry_def entry_base_for_def)
  ultimately show ?thesis using f by simp
qed

lemma add_listener_ok:
  fixes s :: "('f, 'm, 'x) event_bus"
  assumes ok: "bus_ok s" and add: "add_listener k mode f owner opts s = (Inr t, s')"
  defines "sl \<equiv> \<lparr>sl_owner = owner, sl_token = t, sl_fn = Some f, sl_opts = opts\<rparr>"
  shows "bus_ok s' \<and> t = eb_next_token s \<and> eb_next_token s' = Suc t \<and>
    slots_of j s' = (if j = k then if lo_prepend opts then sl # slots_of k s else slots_of k s @ [sl] else slots_of j s) \<and>
    raws_of j s' = raws_of j s"
proof -
  have main: "bus_ok s' \<and> t = eb_next_token s1 \<and> eb_next_token s' = Suc t \<and>
      slots_of j s' = (if j = k then if lo_prepend opts then sl # slots_of k s1 else slots_of k s1 @ [sl] else slots_of j s1) \<and>
      raws_of j s' = raws_of j s1"
    if s1: "bus_ok s1" "entry_base_for k s1 = Some e"
      and s': "t = eb_next_token s1" "s' = entry_add k e sl (lo_prepend opts) (s1\<lparr>eb_next_token := Suc t\<rparr>)"
    for s1 :: "('f, 'm, 'x) event_bus" and e
  proof -
    from entry_add_replaces [OF s1, of "lo_prepend opts" sl "Suc t"] s'(2) have
      r: "entry_replaced k (if lo_prepend opts then sl # slots_of k s1 else slots_of k s1 @ [sl]) (raws_of k s1) (Suc t) s1 s'"
      by simp
    have "vectors_ok (eb_next_token s1) (slots_of k s1) (raws_of k s1)" using s1(1) by (simp add: bus_ok_def)
    from vectors_ok_add [OF this, of sl] have
      "vectors_ok (Suc t) (if lo_prepend opts then sl # slots_of k s1 else slots_of k s1 @ [sl]) (raws_of k s1)"
      by (simp add: sl_def s'(1))
    with replaced_ok [OF s1(1) r] have "bus_ok s'" by (simp add: s'(1))
    with r s'(1) show ?thesis by (auto simp: entry_replaced_def)
  qed
  show ?thesis
  proof (cases "entry_base_for k s")
    case (Some e)
    with add have "t = eb_next_token s" "s' = entry_add k e sl (lo_prepend opts) (s\<lparr>eb_next_token := Suc t\<rparr>)"
      by (auto simp: add_listener_def Let_def sl_def split: if_splits)
    from main [OF ok Some this] show ?thesis by simp
  next
    case None
    define e where "e = \<lparr>en_mode = mode, en_listeners = length (eb_slots s), en_raw = length (eb_raws s)\<rparr>"
    define s1 where "s1 = set_entry k e (s\<lparr>eb_slots := eb_slots s @ [[]], eb_raws := eb_raws s @ [[]]\<rparr>)"
    note d = entry_declared [OF ok None e_def s1_def]
    from add None have "t = eb_next_token s1" "s' = entry_add k e sl (lo_prepend opts) (s1\<lparr>eb_next_token := Suc t\<rparr>)"
      by (auto simp: add_listener_def Let_def sl_def alloc_slots_def alloc_raws_def e_def s1_def split: if_splits)
    from main [OF _ _ this] d show ?thesis by simp
  qed
qed

lemma add_listener_error: "add_listener k mode f owner opts s = (Inl x, s') \<Longrightarrow> s' = s"
  by (auto simp: add_listener_def Let_def alloc_slots_def alloc_raws_def split: if_splits option.splits prod.splits)

lemma remove_listener_ok:
  assumes ok: "bus_ok s" and "remove_listener k t s = (None, s')"
  shows "bus_ok s' \<and> eb_next_token s' = eb_next_token s \<and>
    slots_of j s' = (if j = k then filter (\<lambda>sl. sl_token sl \<noteq> t) (slots_of k s) else slots_of j s) \<and>
    raws_of j s' = (if j = k then filter (\<lambda>sl. rw_token sl \<noteq> t) (raws_of k s) else raws_of j s)"
proof (cases "entry_base_for k s")
  case None
  with assms have "s' = s" by (simp add: remove_listener_def split: if_splits)
  moreover have "slots_of k s = []" "raws_of k s = []" using None by (simp_all add: slots_of_def raws_of_def)
  ultimately show ?thesis using ok by simp
next
  case (Some e)
  with assms(2) have s': "s' = entry_remove k e t s" by (simp add: remove_listener_def split: if_splits)
  note r = entry_remove_replaces [OF ok Some, of t, folded s']
  have "vectors_ok (eb_next_token s) (slots_of k s) (raws_of k s)" using ok by (simp add: bus_ok_def)
  from replaced_ok [OF ok r _ vectors_ok_remove [OF this]] r show ?thesis by (auto simp: entry_replaced_def)
qed

lemma add_raw_listener_ok:
  assumes ok: "bus_ok s" and add: "add_raw_listener k mode f owner s = (Inr t, s')"
  shows "bus_ok s' \<and> t = eb_next_token s \<and> slots_of j s' = slots_of j s \<and>
    raws_of j s' = (if j = k then raws_of k s @ [\<lparr>rw_owner = owner, rw_token = t, rw_fn = Some f\<rparr>] else raws_of j s)"
proof -
  let ?sl = "\<lparr>rw_owner = owner, rw_token = t, rw_fn = Some f\<rparr>"
  from add obtain e where e: "entry_base_for k s = Some e" "t = eb_next_token s"
    "s' = entry_add_raw k e ?sl (s\<lparr>eb_next_token := Suc t\<rparr>)"
    by (auto simp: add_raw_listener_def Let_def split: if_splits option.splits)
  note r = entry_add_raw_replaces [OF ok e(1), of ?sl "Suc t", folded e(3)]
  have "vectors_ok (eb_next_token s) (slots_of k s) (raws_of k s)" using ok by (simp add: bus_ok_def)
  from vectors_ok_add_raw [OF this, of ?sl] e(2) have "vectors_ok (Suc t) (slots_of k s) (raws_of k s @ [?sl])" by simp
  with replaced_ok [OF ok r] e(2) r show ?thesis by (auto simp: entry_replaced_def)
qed

lemma add_raw_listener_error: "add_raw_listener k mode f owner s = (Inl x, s') \<Longrightarrow> s' = s"
  by (auto simp: add_raw_listener_def Let_def split: if_splits option.splits)

section \<open>The listeners of a fiber\<close>

lemma bus_ok_cong:
  assumes "eb_entries s' = eb_entries s" "eb_slots s' = eb_slots s" "eb_raws s' = eb_raws s" "eb_next_token s' = eb_next_token s"
  shows "bus_ok s' = bus_ok s" "slots_of k s' = slots_of k s" "raws_of k s' = raws_of k s"
  unfolding bus_ok_def entry_ok_def slots_of_def raws_of_def entry_base_for_def assms by (rule refl)+

lemma bus_ok_sink [simp]: "bus_ok (set_diagnostic_sink b s) = bus_ok s" "bus_ok (report_to_sink x s) = bus_ok s"
  by (rule bus_ok_cong(1); simp add: set_diagnostic_sink_def report_to_sink_def)+

lemma remove_on_strand: "eb_on_strand s \<Longrightarrow> \<exists>s'. remove_listener k t s = (None, s') \<and> eb_on_strand s'"
  by (auto simp: remove_listener_def entry_remove_def alloc_slots_def alloc_raws_def set_entry_def Let_def split: option.split)

interpretation listeners: cleanup_runner listener_removal "\<lambda>s. bus_ok s \<and> eb_on_strand s"
proof
  fix s :: "('a, 'b, 'c) event_bus" and a :: listener_cleanup
  assume s: "bus_ok s \<and> eb_on_strand s"
  obtain k t where a: "a = (k, t)" by (cases a)
  from s remove_on_strand [of s k t] obtain s' where "remove_listener k t s = (None, s')" "eb_on_strand s'" by blast
  with s remove_listener_ok [of s k t s'] show "bus_ok (snd (listener_removal a s)) \<and> eb_on_strand (snd (listener_removal a s))"
    by (simp add: a)
qed

lemma unwind_removes:
  assumes "bus_ok s" and "eb_on_strand s" and "unwind listener_removal as err s = (err', s')"
  shows "err' = err \<and> slots_of k s' = filter (\<lambda>sl. (k, sl_token sl) \<notin> set as) (slots_of k s)"
  using assms
proof (induction as arbitrary: s)
  case (Cons a as)
  obtain j t where a: "a = (j, t)" by (cases a)
  from remove_on_strand [OF Cons.prems(2), of j t] obtain s1 where
    1: "remove_listener j t s = (None, s1)" "eb_on_strand s1" by blast
  from remove_listener_ok [OF Cons.prems(1) 1(1), of k] have
    ok: "bus_ok s1" and v: "slots_of k s1 = (if k = j then filter (\<lambda>sl. sl_token sl \<noteq> t) (slots_of j s) else slots_of k s)"
    by simp_all
  from Cons.prems(3) have u: "unwind listener_removal as err s1 = (err', s')" by (simp add: a 1(1) split: if_splits)
  from Cons.IH [OF ok 1(2) u] show ?case by (auto simp: v a filter_filter intro: filter_cong)
qed simp

lemma teardown_removes:
  assumes "bus_ok s" and "eb_on_strand s" and "run_all listener_removal st s = (st', s')"
  shows "bus_ok s' \<and> es_error st' = es_error st \<and> es_entries st' = [] \<and>
    slots_of k s' = filter (\<lambda>sl. (k, sl_token sl) \<notin> set (pending st)) (slots_of k s)"
proof -
  from listeners.run_all_keeps [of s st] assms have "bus_ok s'" by simp
  with unwind_removes [OF assms(1,2) run_all_unwind(1) [OF assms(3)]] run_all_unwind(2) [OF assms(3)]
  show ?thesis by simp
qed

text \<open>Registering a list of listeners through the context of one activation.\<close>

fun on_all ::
  "(service_id \<times> dispatch_mode \<times> 'f \<times> listener_options) list \<Rightarrow> nat \<Rightarrow> (listener_cleanup, 'x bus_error) effect_stack
     \<Rightarrow> ('f, 'm, 'x) event_bus \<Rightarrow> ((listener_cleanup, 'x bus_error) effect_stack \<times> ('f, 'm, 'x) event_bus) option" where
  "on_all [] owner st s = Some (st, s)"
| "on_all ((k, mode, f, opts) # ls) owner st s =
     (case on_listener True k mode f owner opts st s of
        (Inr reg, st, s) \<Rightarrow> on_all ls owner st s
      | (Inl x, st, s) \<Rightarrow> None)"

lemma pending_add: "stack_add (Some a) st = Inr (st', i) \<Longrightarrow> pending st' = pending st @ [a]"
  by (auto simp: stack_add_def pending_def)

lemma on_listener_adds:
  fixes s :: "('f, 'm, 'x) event_bus"
  assumes "bus_ok s" and "on_listener True k mode f owner opts st s = (Inr reg, st', s')"
  shows "\<exists>t. pending st' = pending st @ [(k, t)] \<and> add_listener k mode f owner opts s = (Inr t, s')"
  using assms by (auto simp: on_listener_def stack_add_def pending_def split: prod.splits sum.splits)

lemma add_listener_strand: "add_listener k mode f owner opts s = (Inr t, s') \<Longrightarrow> eb_on_strand s' \<and> eb_on_strand s"
  by (auto simp: add_listener_def entry_add_def alloc_slots_def alloc_raws_def set_entry_def Let_def split: if_splits option.splits)

lemma filter_all: "(\<forall>x \<in> set xs. P x) \<Longrightarrow> filter P xs = xs"
  by (induction xs) auto

text \<open>
  What teardown would leave: the slots whose cleanup is not pending. Registering does not change it,
  because the token of the new slot is fresh and its cleanup is pending.
\<close>

definition kept :: "(listener_cleanup, 'x bus_error) effect_stack \<Rightarrow> service_id \<Rightarrow> ('f, 'm, 'x) event_bus \<Rightarrow> 'f slot list" where
  "kept st k s = filter (\<lambda>sl. (k, sl_token sl) \<notin> set (pending st)) (slots_of k s)"

lemma on_listener_keeps:
  fixes s :: "('f, 'm, 'x) event_bus"
  assumes "bus_ok s" and "on_listener True k mode f owner opts st s = (Inr reg, st', s')"
  shows "bus_ok s' \<and> eb_on_strand s' \<and> kept st' j s' = kept st j s"
proof -
  from on_listener_adds [OF assms] obtain t where
    p: "pending st' = pending st @ [(k, t)]" and a: "add_listener k mode f owner opts s = (Inr t, s')" by blast
  from add_listener_ok [OF assms(1) a, of j] add_listener_strand [OF a] have
    ok: "bus_ok s'" "eb_on_strand s'" and t: "t = eb_next_token s" and
    v: "slots_of j s' = (if j = k then if lo_prepend opts then \<lparr>sl_owner = owner, sl_token = t, sl_fn = Some f, sl_opts = opts\<rparr> # slots_of k s
          else slots_of k s @ [\<lparr>sl_owner = owner, sl_token = t, sl_fn = Some f, sl_opts = opts\<rparr>] else slots_of j s)" by simp_all
  have "vectors_ok t (slots_of j s) (raws_of j s)" using assms(1) t by (simp add: bus_ok_def)
  then have "\<forall>sl \<in> set (slots_of j s). sl_token sl \<noteq> t" by (auto simp: vectors_ok_def)
  then have "filter (\<lambda>sl. (j, sl_token sl) \<notin> set (pending st')) (slots_of j s) = kept st j s"
    unfolding kept_def p by (intro filter_cong) auto
  with ok show ?thesis by (auto simp: kept_def v p)
qed

lemma on_all_keeps:
  assumes "on_all ls owner st s = Some (st', s')" and "bus_ok s" and "eb_on_strand s"
  shows "bus_ok s' \<and> eb_on_strand s' \<and> kept st' k s' = kept st k s"
  using assms
proof (induction ls owner st s rule: on_all.induct)
  case (2 j mode f opts ls owner st s)
  from 2(2) obtain reg st1 s1 where o: "on_listener True j mode f owner opts st s = (Inr reg, st1, s1)"
    "on_all ls owner st1 s1 = Some (st', s')" by (auto split: prod.splits sum.splits)
  from on_listener_keeps [OF 2(3) o(1)] 2(1) [OF o(1) [symmetric] refl refl o(2)] show ?case by simp
qed simp

lemma kept_empty: "kept empty_stack k s = slots_of k s"
  by (simp add: kept_def pending_def empty_stack_def)

section \<open>Dispatches that remove nothing\<close>

text \<open>A bus that only grew: vectors kept, scopes kept, no entry gone.\<close>

definition grows :: "('f, 'm, 'x) event_bus \<Rightarrow> ('f, 'm, 'x) event_bus \<Rightarrow> bool" where
  "grows s s' \<longleftrightarrow> (\<exists>v. eb_slots s' = eb_slots s @ v) \<and> (\<exists>r. eb_raws s' = eb_raws s @ r) \<and> eb_scopes s' = eb_scopes s \<and>
     (\<forall>k. entry_base_for k s \<noteq> None \<longrightarrow> entry_base_for k s' \<noteq> None) \<and> (bus_ok s \<longrightarrow> bus_ok s')"

definition quiet :: "('f, 'm, 'x) notify_body \<Rightarrow> bool" where
  "quiet body \<longleftrightarrow> (\<forall>f m s. grows s (snd (body f m s)))"

fun run_in_order ::
  "('f, 'm, 'x) notify_body \<Rightarrow> 'm \<Rightarrow> 'f list \<Rightarrow> ('f, 'm, 'x) event_bus \<Rightarrow> 'x bus_error option \<times> ('f, 'm, 'x) event_bus" where
  "run_in_order body m [] s = (None, s)"
| "run_in_order body m (f # fs) s =
     (case body f m s of (Some x, s) \<Rightarrow> (Some x, s) | (None, s) \<Rightarrow> run_in_order body m fs s)"

lemma grows_refl: "grows s s"
  by (simp add: grows_def)

lemma grows_trans: "grows s s' \<Longrightarrow> grows s' s'' \<Longrightarrow> grows s s''"
  by (auto simp: grows_def)

lemma grows_slots: "grows s s' \<Longrightarrow> a < length (eb_slots s) \<Longrightarrow> eb_slots s' ! a = eb_slots s ! a"
  by (auto simp: grows_def nth_append)

lemma grows_raws: "grows s s' \<Longrightarrow> a < length (eb_raws s) \<Longrightarrow> eb_raws s' ! a = eb_raws s ! a"
  by (auto simp: grows_def nth_append)

lemma run_in_order_grows: "quiet body \<Longrightarrow> run_in_order body m fs s = (err, s') \<Longrightarrow> grows s s'"
proof (induction fs arbitrary: s)
  case (Cons f fs)
  from Cons.prems(1) have g: "grows s (snd (body f m s))" by (simp add: quiet_def)
  show ?case
  proof (cases "body f m s")
    case (Pair o1 s1)
    with Cons g show ?thesis by (cases o1) (auto intro: grows_trans)
  qed
qed (simp add: grows_refl)

text \<open>The loop over a suffix of the snapshot.\<close>

lemma serial_slots_in_order:
  assumes q: "quiet body" and g: "grows s0 s" and a: "a < length (eb_slots s0)" "eb_slots s0 ! a = v"
    and fs: "\<And>sl. sl \<in> set v \<Longrightarrow> sl_fn sl \<noteq> None \<and> \<not> lo_once (sl_opts sl)"
  shows "n \<le> length v \<Longrightarrow> serial_slots body k a sc m [n..<length v] s =
    run_in_order body m (map (the \<circ> sl_fn) (filter (slot_delivers (eb_scopes s0) k sc) (drop n v))) s"
  using g
proof (induction "length v - n" arbitrary: n s)
  case 0
  then show ?case by simp
next
  case (Suc d)
  then have n: "n < length v" by simp
  then have up: "[n..<length v] = n # [Suc n..<length v]" "drop n v = v ! n # drop (Suc n) v"
    by (simp_all add: upt_conv_Cons Cons_nth_drop_Suc)
  have v: "eb_slots s ! a = v" "eb_scopes s = eb_scopes s0"
    using grows_slots [OF Suc(4) a(1)] a(2) Suc(4) by (simp_all add: grows_def)
  from fs [of "v ! n"] n obtain f where f: "sl_fn (v ! n) = Some f" "\<not> lo_once (sl_opts (v ! n))" by auto
  have t: "take_slot k a n s = (Inr f, s)" by (simp add: take_slot_def v Let_def f)
  have ih: "serial_slots body k a sc m [Suc n..<length v] s' =
      run_in_order body m (map (the \<circ> sl_fn) (filter (slot_delivers (eb_scopes s0) k sc) (drop (Suc n) v))) s'"
    if "grows s0 s'" for s' using Suc(1) [of "Suc n" s'] Suc(2) n that by simp
  show ?case
  proof (cases "slot_delivers (eb_scopes s0) k sc (v ! n)")
    case False
    with ih [OF Suc(4)] show ?thesis by (simp add: up v)
  next
    case True
    obtain o1 s1 where b: "body f m s = (o1, s1)" by force
    with q have "grows s s1" unfolding quiet_def by (metis snd_conv)
    with ih grows_trans [OF Suc(4)] have "serial_slots body k a sc m [Suc n..<length v] s1 =
      run_in_order body m (map (the \<circ> sl_fn) (filter (slot_delivers (eb_scopes s0) k sc) (drop (Suc n) v))) s1" by blast
    with True show ?thesis by (simp add: up v t f b split: option.split)
  qed
qed

lemma serial_raws_in_order:
  assumes q: "quiet body" and g: "grows s0 s" and a: "b < length (eb_raws s0)" "eb_raws s0 ! b = v"
    and fs: "\<And>sl. sl \<in> set v \<Longrightarrow> rw_fn sl \<noteq> None"
  shows "n \<le> length v \<Longrightarrow> serial_raws body b m [n..<length v] s = run_in_order body m (map (the \<circ> rw_fn) (drop n v)) s"
  using g
proof (induction "length v - n" arbitrary: n s)
  case 0
  then show ?case by simp
next
  case (Suc d)
  then have n: "n < length v" by simp
  then have up: "[n..<length v] = n # [Suc n..<length v]" "drop n v = v ! n # drop (Suc n) v"
    by (simp_all add: upt_conv_Cons Cons_nth_drop_Suc)
  from Suc(4) a have v: "eb_raws s ! b = v" by (simp add: grows_raws)
  from fs [of "v ! n"] n obtain f where f: "rw_fn (v ! n) = Some f" by auto
  have t: "take_raw b n s = Inr f" by (simp add: take_raw_def v f)
  obtain o1 s1 where b: "body f m s = (o1, s1)" by force
  with q have "grows s s1" unfolding quiet_def by (metis snd_conv)
  from grows_trans [OF Suc(4) this] Suc(1) [of "Suc n" s1] Suc(2) n
  have "serial_raws body b m [Suc n..<length v] s1 = run_in_order body m (map (the \<circ> rw_fn) (drop (Suc n) v)) s1" by simp
  then show ?case by (simp add: up t f b split: option.split)
qed

lemma bus_ok_slots: "bus_ok s \<Longrightarrow> sl \<in> set (slots_of k s) \<Longrightarrow> sl_fn sl \<noteq> None"
  unfolding bus_ok_def vectors_ok_def by blast

lemma bus_ok_raws: "bus_ok s \<Longrightarrow> sl \<in> set (raws_of k s) \<Longrightarrow> rw_fn sl \<noteq> None"
  unfolding bus_ok_def vectors_ok_def by blast

lemma serial_event_in_order:
  assumes ok: "bus_ok s" and q: "quiet body" and st: "eb_on_strand s" and e: "entry_base_for k s = Some e" "en_mode e = Serial"
    and once: "list_all (\<lambda>sl. \<not> lo_once (sl_opts sl)) (slots_of k s)"
  shows "serial_event body k m sc s =
    (case run_in_order body m (map (the \<circ> sl_fn) (filter (slot_delivers (eb_scopes s) k sc) (slots_of k s))) s of
       (Some x, s') \<Rightarrow> (Some x, s')
     | (None, s') \<Rightarrow> run_in_order body m (map (the \<circ> rw_fn) (raws_of k s')) s')"
proof -
  have v: "slots_of k s = eb_slots s ! en_listeners e" using e by (simp add: slots_of_def)
  from bus_ok_entry [OF ok e(1)] have a: "en_listeners e < length (eb_slots s)" by (simp add: entry_ok_def)
  have fs: "sl_fn sl \<noteq> None \<and> \<not> lo_once (sl_opts sl)" if "sl \<in> set (slots_of k s)" for sl
    using that bus_ok_slots [OF ok that] once by (simp add: list_all_iff)
  let ?fs = "map (the \<circ> sl_fn) (filter (slot_delivers (eb_scopes s) k sc) (slots_of k s))"
  from serial_slots_in_order [OF q grows_refl a v [symmetric] fs, of 0 k sc m] have
    typed: "serial_slots body k (en_listeners e) sc m [0..<length (slots_of k s)] s = run_in_order body m ?fs s" by simp
  obtain o1 s1 where r: "run_in_order body m ?fs s = (o1, s1)" by force
  have g: "grows s s1" by (rule run_in_order_grows [OF q r])
  with ok e obtain e1 where e1: "entry_base_for k s1 = Some e1" and ok1: "bus_ok s1"
    unfolding grows_def by (metis not_None_eq)
  have v1: "raws_of k s1 = eb_raws s1 ! en_raw e1" using e1 by (simp add: raws_of_def)
  from bus_ok_entry [OF ok1 e1] have a1: "en_raw e1 < length (eb_raws s1)" by (simp add: entry_ok_def)
  have "rw_fn sl \<noteq> None" if "sl \<in> set (raws_of k s1)" for sl using bus_ok_raws [OF ok1 that] .
  from serial_raws_in_order [OF q grows_refl a1 v1 [symmetric] this, of 0 m] have
    raw: "serial_raws body (en_raw e1) m [0..<length (raws_of k s1)] s1 = run_in_order body m (map (the \<circ> rw_fn) (raws_of k s1)) s1"
    by simp
  have "serial_event body k m sc s = dispatch_serial body k e m sc s"
    using st e by (simp add: serial_event_def typed_entry_def)
  also have "\<dots> = (case (o1, s1) of (Some x, s') \<Rightarrow> (Some x, s')
      | (None, s') \<Rightarrow> run_in_order body m (map (the \<circ> rw_fn) (raws_of k s')) s')"
    using typed raw by (simp add: dispatch_serial_def Let_def r e1 flip: v v1 split: option.split)
  finally show ?thesis by (simp only: r)
qed

end
