(* ===== verification/EventProperties.thy ===== *)
theory EventProperties
  imports EventLaws
begin

text \<open>
  The theorems about the event bus, with the concrete buses at which they apply. In the examples a
  listener is its name and reports itself to the diagnostic sink when it runs.
\<close>

definition ping :: service_id where
  "ping = ServiceId ''ping'' 1"

definition plain :: listener_options where
  "plain = \<lparr>lo_prepend = False, lo_once = False, lo_global = False, lo_scope = None\<rparr>"

definition reporting :: "(string, nat, string) notify_body" where
  "reporting f m s = (None, report_to_sink (Thrown f) s)"

definition listening :: "dispatch_mode \<Rightarrow> (string \<times> listener_options) list \<Rightarrow> (string, nat, string) event_bus" where
  "listening mode ls = fold (\<lambda>(f, opts) s. snd (add_listener ping mode f 1 opts s)) ls
     (set_diagnostic_sink True (new_bus []))"

lemma listening_ok: "bus_ok (listening mode ls)"
proof -
  have "bus_ok (snd (add_listener ping mode f 1 opts s))" if "bus_ok s" for f opts and s :: "(string, nat, string) event_bus"
  proof (cases "add_listener ping mode f 1 opts s")
    case (Pair r s')
    with that add_listener_error [of ping mode f 1 opts s] add_listener_ok [OF that, of ping mode f 1 opts]
    show ?thesis by (cases r) auto
  qed
  then have "bus_ok s \<Longrightarrow> bus_ok (fold (\<lambda>(f, opts) s. snd (add_listener ping mode f 1 opts s)) ls s)"
    for s :: "(string, nat, string) event_bus"
    by (induction ls arbitrary: s) auto
  from this [of "set_diagnostic_sink True (new_bus [])"] show ?thesis
    by (simp add: listening_def new_bus_ok)
qed

lemma reporting_quiet: "quiet reporting"
  by (simp add: quiet_def reporting_def grows_def) (simp add: report_to_sink_def entry_base_for_def)

section \<open>Registration\<close>

text \<open>
  Registration. On a well-formed bus an added listener goes to the front or the back of its event's list
  under a fresh token, and removing that token restores every list of the bus; the bus stays well formed
  (tokens unique, every registered callable present), and a refused registration changes nothing.
\<close>

theorem registration_exact:
  assumes "bus_ok s" and "add_listener k mode f owner opts s = (r, s1)"
  shows "bus_ok s1 \<and>
    (case r of
       Inl x \<Rightarrow> s1 = s
     | Inr t \<Rightarrow> map sl_token (slots_of k s1) =
           (if lo_prepend opts then t # map sl_token (slots_of k s) else map sl_token (slots_of k s) @ [t]) \<and>
         t \<notin> set (map sl_token (slots_of j s)) \<and>
         slots_of j (snd (remove_listener k t s1)) = slots_of j s \<and> bus_ok (snd (remove_listener k t s1)))"
proof (cases r)
  case (Inl x)
  with assms add_listener_error show ?thesis by fastforce
next
  case (Inr t)
  note a = add_listener_ok [OF assms(1) assms(2) [unfolded Inr]]
  have t: "sl_token sl \<noteq> t" if "sl \<in> set (slots_of i s)" for i sl
    using assms(1) a [of i] that unfolding bus_ok_def vectors_ok_def by fastforce
  from add_listener_strand [OF assms(2) [unfolded Inr]] remove_on_strand [of s1 k t] obtain s2 where
    r: "remove_listener k t s1 = (None, s2)" by blast
  have ok1: "bus_ok s1" using a by blast
  from remove_listener_ok [OF ok1 r, of j] have
    2: "bus_ok s2" "slots_of j s2 = (if j = k then filter (\<lambda>sl. sl_token sl \<noteq> t) (slots_of k s1) else slots_of j s1)" by simp_all
  have "filter (\<lambda>sl. sl_token sl \<noteq> t) (slots_of i s) = slots_of i s" for i using t by (simp add: filter_all)
  with 2(2) a [of j] a [of k] have "slots_of j s2 = slots_of j s" by auto
  moreover have "t \<notin> set (map sl_token (slots_of j s))" using t by auto
  moreover have "map sl_token (slots_of k s1) =
      (if lo_prepend opts then t # map sl_token (slots_of k s) else map sl_token (slots_of k s) @ [t])"
    using a [of k] by simp
  ultimately show ?thesis using ok1 2(1) by (simp add: Inr r)
qed

theorem registration_exact_witness:
  "bus_ok (snd (add_listener ping Serial ''b'' 2 plain (listening Serial [(''a'', plain)])))"
  using registration_exact [OF listening_ok surjective_pairing] by blast

text \<open>
  C40. Ownership. Whatever a plugin registers through its context, running the effects of its activation at
  teardown removes exactly that: every event is left with the listeners it had before, and the cleanups
  throw nothing.
\<close>

theorem teardown_restores_listeners:
  assumes "bus_ok s" and "eb_on_strand s" and "on_all ls owner empty_stack s = Some (st, s1)"
    and "run_all listener_removal st s1 = (st', s2)"
  shows "slots_of k s2 = slots_of k s \<and> bus_ok s2 \<and> es_error st' = es_error st \<and> es_entries st' = []"
proof -
  from on_all_keeps [OF assms(3,1,2)] have ok: "bus_ok s1" "eb_on_strand s1" and k: "kept st k s1 = slots_of k s"
    by (simp_all add: kept_empty)
  from teardown_removes [OF ok assms(4), of k] k show ?thesis by (simp add: kept_def)
qed

definition plugin_registered :: "(listener_cleanup, string bus_error) effect_stack \<times> (string, nat, string) event_bus" where
  "plugin_registered = the (on_all [(ping, Serial, ''p'', plain), (ping, Serial, ''q'', plain\<lparr>lo_prepend := True\<rparr>)] 7 empty_stack
     (listening Serial [(''a'', plain)]))"

theorem teardown_restores_listeners_witness:
  "length (slots_of ping (snd plugin_registered)) = 3 \<and>
   slots_of ping (snd (run_all listener_removal (fst plugin_registered) (snd plugin_registered))) =
     slots_of ping (listening Serial [(''a'', plain)])"
proof -
  have 1: "eb_on_strand (listening Serial [(''a'', plain)])" by code_simp
  have "\<not> Option.is_none (on_all [(ping, Serial, ''p'', plain), (ping, Serial, ''q'', plain\<lparr>lo_prepend := True\<rparr>)] 7 empty_stack
      (listening Serial [(''a'', plain)]))" by code_simp
  then have 2: "on_all [(ping, Serial, ''p'', plain), (ping, Serial, ''q'', plain\<lparr>lo_prepend := True\<rparr>)] 7 empty_stack
      (listening Serial [(''a'', plain)]) = Some (fst plugin_registered, snd plugin_registered)"
    unfolding plugin_registered_def by (auto simp: Option.is_none_def)
  have "length (slots_of ping (snd plugin_registered)) = 3" by code_simp
  with teardown_restores_listeners [OF listening_ok 1 2 surjective_pairing, of ping] show ?thesis by simp
qed

section \<open>Dispatch\<close>

text \<open>
  Serial dispatch. When the listeners add listeners, dispatch or do anything else but remove, and none is
  a once listener, a serial dispatch runs exactly the listeners of its event that deliver in the given
  scope, in the order registered when it began, then the raw ones, and stops at the first failure, which
  it passes on: additions during the dispatch do not take part.
\<close>

theorem serial_runs_snapshot:
  assumes "bus_ok s" and "quiet body" and "eb_on_strand s" and "entry_base_for k s = Some e" and "en_mode e = Serial"
    and "list_all (\<lambda>sl. \<not> lo_once (sl_opts sl)) (slots_of k s)"
  shows "serial_event body k m sc s =
    (case run_in_order body m (map (the \<circ> sl_fn) (filter (slot_delivers (eb_scopes s) k sc) (slots_of k s))) s of
       (Some x, s') \<Rightarrow> (Some x, s')
     | (None, s') \<Rightarrow> run_in_order body m (map (the \<circ> rw_fn) (raws_of k s')) s')"
  using assms by (rule serial_event_in_order)

definition serial_pair :: "(string, nat, string) event_bus" where
  "serial_pair = listening Serial [(''a'', plain), (''b'', plain\<lparr>lo_prepend := True\<rparr>)]"

theorem serial_runs_snapshot_witness:
  "serial_event reporting ping 5 None serial_pair = run_in_order reporting 5 [''b'', ''a''] serial_pair"
proof -
  have 1: "eb_on_strand serial_pair" by code_simp
  have 2: "entry_base_for ping serial_pair = Some \<lparr>en_mode = Serial, en_listeners = 2, en_raw = 0\<rparr>" by code_simp
  have 3: "list_all (\<lambda>sl. \<not> lo_once (sl_opts sl)) (slots_of ping serial_pair)" by code_simp
  have 4: "map (the \<circ> sl_fn) (filter (slot_delivers (eb_scopes serial_pair) ping None) (slots_of ping serial_pair)) = [''b'', ''a'']"
    by code_simp
  have 5: "run_in_order reporting 5 [''b'', ''a''] serial_pair =
      (None, snd (run_in_order reporting 5 [''b'', ''a''] serial_pair))"
    by (simp add: reporting_def)
  have 6: "raws_of ping (snd (run_in_order reporting 5 [''b'', ''a''] serial_pair)) = []" by code_simp
  let ?after = "snd (run_in_order reporting 5 [''b'', ''a''] serial_pair)"
  have ok: "bus_ok serial_pair" unfolding serial_pair_def by (rule listening_ok)
  from serial_runs_snapshot [OF ok reporting_quiet 1 2, of 5 None] 3
  have "serial_event reporting ping 5 None serial_pair =
    (case run_in_order reporting 5 [''b'', ''a''] serial_pair of
       (Some x, s') \<Rightarrow> (Some x, s')
     | (None, s') \<Rightarrow> run_in_order reporting 5 (map (the \<circ> rw_fn) (raws_of ping s')) s')" by (simp add: 4)
  also have "\<dots> = (case (None, ?after) of (Some x, s') \<Rightarrow> (Some x, s')
     | (None, s') \<Rightarrow> run_in_order reporting 5 (map (the \<circ> rw_fn) (raws_of ping s')) s')" by (simp only: 5 [symmetric])
  also have "\<dots> = (None, ?after)" unfolding prod.case option.case 6 by (simp del: run_in_order.simps(2))
  finally show ?thesis by (simp only: 5 [symmetric])
qed

text \<open>
  A once listener breaks the dispatch it runs in. Its removal moves the other listeners out of the vector
  the dispatch holds, so on every bus where it is first in the list a serial dispatch ends with a bad call
  in place of the next listener, which does not run.
\<close>

theorem once_breaks_dispatch:
  assumes "bus_ok s" and "eb_on_strand s" and "entry_base_for k s = Some e" and "en_mode e = Serial"
    and "slots_of k s = a # b # rest" and "sl_fn a = Some f" and "lo_once (sl_opts a)"
    and "quiet body" and "fst (body f m (snd (remove_listener k (sl_token a) s))) = None"
  shows "fst (serial_event body k m None s) = Some BadCall"
proof -
  let ?v = "en_listeners e" and ?t = "sl_token a"
  have v: "eb_slots s ! ?v = a # b # rest" using assms(3,5) by (simp add: slots_of_def)
  from bus_ok_entry [OF assms(1,3)] have l: "?v < length (eb_slots s)" by (simp add: entry_ok_def)
  have t: "sl_token b \<noteq> ?t" using assms(1,5) unfolding bus_ok_def vectors_ok_def by (metis distinct.simps(2) distinct_append
      list.set_intros(1) list.simps(9))
  let ?s1 = "entry_remove k e ?t s"
  have rm: "remove_listener k ?t s = (None, ?s1)" using assms(2,3) by (simp add: remove_listener_def)
  have m1: "eb_slots ?s1 ! ?v = moved_out ?t (a # b # rest)" "?v < length (eb_slots ?s1)"
    using l v by (simp_all add: entry_remove_def alloc_slots_def alloc_raws_def set_entry_def Let_def nth_append)
  obtain s2 where b2: "body f m ?s1 = (None, s2)" using assms(9) rm by (metis prod.collapse snd_conv)
  with assms(8) have "grows ?s1 s2" unfolding quiet_def by (metis snd_conv)
  from grows_slots [OF this m1(2)] m1(1) have m2: "eb_slots s2 ! ?v ! 1 = b\<lparr>sl_fn := None\<rparr>"
    using t by (simp add: moved_out_def)
  have d: "slot_delivers cs k None sl" for cs and sl :: "'a slot" by (simp add: slot_delivers_def)
  have "[0..<length (eb_slots s ! ?v)] = 0 # 1 # [2..<length (eb_slots s ! ?v)]"
    by (simp add: v upt_rec numeral_2_eq_2)
  moreover have "take_slot k ?v 0 s = (Inr f, ?s1)"
    by (simp add: take_slot_def v assms(6,7) rm)
  moreover have "take_slot k ?v 1 s2 = (Inl BadCall, s2)" using m2 by (simp add: take_slot_def Let_def)
  ultimately have "serial_slots body k ?v None m [0..<length (eb_slots s ! ?v)] s = (Some BadCall, s2)"
    by (simp add: d b2)
  then show ?thesis
    using assms(2-4) by (simp add: serial_event_def typed_entry_def dispatch_serial_def Let_def)
qed

definition once_first :: "(string, nat, string) event_bus" where
  "once_first = listening Serial [(''a'', plain\<lparr>lo_once := True\<rparr>), (''b'', plain)]"

theorem once_breaks_dispatch_witness:
  "fst (serial_event reporting ping 5 None once_first) = Some BadCall \<and>
   eb_reports (snd (serial_event reporting ping 5 None once_first)) = [Thrown ''a'']"
proof -
  have ok: "bus_ok once_first" unfolding once_first_def by (rule listening_ok)
  have 1: "eb_on_strand once_first" by code_simp
  have 2: "entry_base_for ping once_first = Some \<lparr>en_mode = Serial, en_listeners = 2, en_raw = 0\<rparr>" by code_simp
  have 3: "slots_of ping once_first =
      [\<lparr>sl_owner = 1, sl_token = 1, sl_fn = Some ''a'', sl_opts = plain\<lparr>lo_once := True\<rparr>\<rparr>,
       \<lparr>sl_owner = 1, sl_token = 2, sl_fn = Some ''b'', sl_opts = plain\<rparr>]" by code_simp
  have "fst (serial_event reporting ping 5 None once_first) = Some BadCall"
    by (rule once_breaks_dispatch [OF ok 1 2 _ 3, where f = "''a''"]) (simp_all add: reporting_quiet reporting_def)
  moreover have "eb_reports (snd (serial_event reporting ping 5 None once_first)) = [Thrown ''a'']" by code_simp
  ultimately show ?thesis by simp
qed

text \<open>
  A once listener can run twice. Two emissions in a row spawn two coroutines over the same vector; the
  first takes the listener off the list, but the slot it leaves behind keeps its callable, and the second
  coroutine calls it again.
\<close>

definition emitted_twice :: "(string, nat, string) event_bus" where
  "emitted_twice =
     (let s = listening Emit [(''a'', plain\<lparr>lo_once := True\<rparr>)];
          s = snd (emit_event ping 1 None s);
          s = snd (emit_event ping 2 None s)
      in next_task reporting (next_task reporting s))"

theorem once_runs_twice:
  "eb_reports emitted_twice = [Thrown ''a'', Thrown ''a''] \<and> listener_count ping emitted_twice = Inr 0"
  by code_simp

text \<open>
  A raw listener is accepted on a waterfall event, is counted, and never runs: the chain is made of typed
  slots only.
\<close>

lemma raw_waterfall_silent:
  fixes s :: "(string, nat, string) event_bus"
  assumes "entry_base_for k s = Some e" and "en_mode e = Waterfall" and "eb_slots s ! en_listeners e = []" and "eb_on_strand s"
  shows "waterfall_event body k m None s = (Inr m, s)"
  using assms by (simp add: waterfall_event_def typed_entry_def dispatch_waterfall_def)

end
