(* ===== verification/Inbox.thy ===== *)
theory Inbox
  imports SessionLaws
begin

text \<open>
  The durable inbox of an agent (\<open>plugins/agent-loop/src/inbox.cpp\<close>): two queues of pending messages that are
  a projection over the events \<open>agent/inbox/spliced\<close> of the session log. Indices of a splice are
  \<open>std::int64_t\<close>: they are read signed, and the clamped arithmetic on them stays between the given index and
  the length of a queue, so it is written on integers. Second part: what a replay and a splice promise.
\<close>

section \<open>Splices\<close>

datatype inbox_target = NextTurn | NextStep

record inbox_state =
  in_next_turn :: "json list"
  in_next_step :: "json list"

record inbox_mutation =
  im_data :: json
  im_removed :: "json list"
  im_noop :: bool

definition empty_inbox :: inbox_state where
  "empty_inbox = \<lparr>in_next_turn = [], in_next_step = []\<rparr>"

definition k_inbox_spliced_event :: string where
  "k_inbox_spliced_event = ''agent/inbox/spliced''"

definition target_name :: "inbox_target \<Rightarrow> string" where
  "target_name t = (if t = NextTurn then ''next-turn'' else ''next-step'')"

fun as_index :: "json \<Rightarrow> 64 word option" where
  "as_index (JInt n) = Some n"
| "as_index (JUint n) = (if n > int64_max then None else Some n)"
| "as_index v = None"

text \<open>\<open>queue_for\<close> gives a pointer to a queue of the state: here its target.\<close>

definition queue_for :: "string \<Rightarrow> inbox_target option" where
  "queue_for t = (if t = ''next-turn'' then Some NextTurn else if t = ''next-step'' then Some NextStep else None)"

fun inbox_queue :: "inbox_target \<Rightarrow> inbox_state \<Rightarrow> json list" where
  "inbox_queue NextTurn s = in_next_turn s"
| "inbox_queue NextStep s = in_next_step s"

fun set_inbox_queue :: "inbox_target \<Rightarrow> json list \<Rightarrow> inbox_state \<Rightarrow> inbox_state" where
  "set_inbox_queue NextTurn q s = s\<lparr>in_next_turn := q\<rparr>"
| "set_inbox_queue NextStep q s = s\<lparr>in_next_step := q\<rparr>"

definition inbox_splice_data :: "inbox_target \<Rightarrow> 64 word \<Rightarrow> 64 word \<Rightarrow> json list \<Rightarrow> string \<Rightarrow> json" where
  "inbox_splice_data t start removed inserted outcome =
     JObject ([(''target'', JString (target_name t)), (''start'', JInt start)] @
       (if removed \<noteq> 0 then [(''removedCount'', JInt removed)] else []) @
       [(''inserted'', JArray inserted)] @
       (if outcome \<noteq> [] then [(''outcome'', JString outcome)] else []))"

definition inbox_append_data :: "inbox_target \<Rightarrow> json \<Rightarrow> json" where
  "inbox_append_data t m = inbox_splice_data t int64_max 0 [m] []"

definition inbox_prepend_data :: "inbox_target \<Rightarrow> json \<Rightarrow> json" where
  "inbox_prepend_data t m = inbox_splice_data t 0 0 [m] []"

definition inbox_claim_data :: "inbox_target \<Rightarrow> 64 word \<Rightarrow> json" where
  "inbox_claim_data t n = inbox_splice_data t 0 n [] []"

definition inbox_message_id :: "json \<Rightarrow> string" where
  "inbox_message_id m =
     (case as_object m of None \<Rightarrow> []
      | Some obj \<Rightarrow> (case member obj ''id'' of Some (JString i) \<Rightarrow> i | _ \<Rightarrow> []))"

text \<open>The clamping both routines write out: a start in a queue of some length, and the number of removed entries.\<close>

definition clamp_start :: "int \<Rightarrow> int \<Rightarrow> int" where
  "clamp_start len start = (if start < 0 then max (len + start) 0 else min start len)"

definition clamp_count :: "int \<Rightarrow> int \<Rightarrow> int \<Rightarrow> int" where
  "clamp_count len start n = min (if n < 0 then 0 else n) (len - start)"

definition make_inbox_splice ::
  "inbox_state \<Rightarrow> inbox_target \<Rightarrow> 64 word \<Rightarrow> 64 word \<Rightarrow> json list \<Rightarrow> bool \<Rightarrow> inbox_mutation" where
  "make_inbox_splice s t start0 count0 inserted discard =
     (let q = (if t = NextTurn then in_next_turn s else in_next_step s);
          len = int (length q);
          start = clamp_start len (sint start0);
          n = clamp_count len start (sint count0)
      in if n = 0 \<and> inserted = [] then \<lparr>im_data = JNull, im_removed = [], im_noop = True\<rparr>
         else \<lparr>im_data = inbox_splice_data t (word_of_int start) (word_of_int n) inserted
                 (if discard \<and> n > 0 then ''canceled'' else []),
               im_removed = take (nat n) (drop (nat start) q), im_noop = False\<rparr>)"

section \<open>The fold\<close>

fun insert_fresh :: "json list \<Rightarrow> string list \<Rightarrow> nat \<Rightarrow> json list \<Rightarrow> json list" where
  "insert_fresh [] ids at q = q"
| "insert_fresh (m # ms) ids at q =
     (let i = inbox_message_id m
      in if i = [] \<or> i \<in> set ids then insert_fresh ms ids at q
         else insert_fresh ms (i # ids) (at + 1) (take at q @ [m] @ drop at q))"

definition present_ids :: "inbox_state \<Rightarrow> string list" where
  "present_ids s = filter (\<lambda>i. i \<noteq> []) (map inbox_message_id (in_next_turn s @ in_next_step s))"

definition splice_queue :: "inbox_target \<Rightarrow> 64 word \<Rightarrow> 64 word \<Rightarrow> json option \<Rightarrow> inbox_state \<Rightarrow> inbox_state" where
  "splice_queue t start0 removed0 inserted s =
     (let q = inbox_queue t s;
          len = int (length q);
          start = clamp_start len (sint start0);
          n = clamp_count len start (sint removed0);
          s = set_inbox_queue t (take (nat start) q @ drop (nat start + nat n) q) s
      in case Option.bind inserted as_array of
           None \<Rightarrow> s
         | Some ms \<Rightarrow> if ms = [] then s
             else set_inbox_queue t (insert_fresh ms (present_ids s) (nat start) (inbox_queue t s)) s)"

definition apply_inbox_splice :: "inbox_state \<Rightarrow> json \<Rightarrow> inbox_state" where
  "apply_inbox_splice s data =
     (case as_object data of None \<Rightarrow> s
      | Some obj \<Rightarrow>
        (case Option.bind (opt_string_at obj ''target'') queue_for of None \<Rightarrow> s
         | Some t \<Rightarrow>
           (case Option.bind (member obj ''start'') as_index of None \<Rightarrow> s
            | Some start \<Rightarrow>
              (case (case member obj ''removedCount'' of None \<Rightarrow> Some 0 | Some v \<Rightarrow> as_index v) of None \<Rightarrow> s
               | Some removed \<Rightarrow> splice_queue t start removed (member obj ''inserted'') s))))"

definition inbox_projection :: "inbox_state projection_cell" where
  "inbox_projection = \<lparr>pc_types = [k_inbox_spliced_event], pc_init = \<lambda>_. empty_inbox,
     pc_apply = \<lambda>s ev. apply_inbox_splice s (ev_data ev), pc_states = []\<rparr>"

section \<open>Laws of the fold\<close>

lemma as_index_opt_int: "as_index v = opt_int v"
  by (cases v) (auto simp: not_le)

text \<open>The insertions that get through: those with an id that is not there yet.\<close>

fun fresh :: "json list \<Rightarrow> string list \<Rightarrow> json list" where
  "fresh [] ids = []"
| "fresh (m # ms) ids =
     (let i = inbox_message_id m
      in if i = [] \<or> i \<in> set ids then fresh ms ids else m # fresh ms (i # ids))"

lemma insert_fresh_splices:
  "at \<le> length q \<Longrightarrow> insert_fresh ms ids at q = take at q @ fresh ms ids @ drop at q"
  by (induction ms ids at q rule: insert_fresh.induct) (auto simp: Let_def)

lemma fresh_ids:
  "distinct (map inbox_message_id (fresh ms ids))"
  "[] \<notin> set (map inbox_message_id (fresh ms ids))"
  "set (map inbox_message_id (fresh ms ids)) \<inter> set ids = {}"
  by (induction ms ids rule: fresh.induct) (auto simp: Let_def)

lemma fresh_all:
  "\<lbrakk>distinct (map inbox_message_id ms); [] \<notin> set (map inbox_message_id ms);
    set (map inbox_message_id ms) \<inter> set ids = {}\<rbrakk> \<Longrightarrow> fresh ms ids = ms"
  by (induction ms ids rule: fresh.induct) (auto simp: Let_def)

lemma queue_ops [simp]:
  "inbox_queue t (set_inbox_queue t' q s) = (if t = t' then q else inbox_queue t s)"
  "set_inbox_queue t q (set_inbox_queue t q' s) = set_inbox_queue t q s"
  "set_inbox_queue t (inbox_queue t s) s = s"
  by (cases t; cases t'; simp) (cases t; simp)+

lemma make_queue: "(if t = NextTurn then in_next_turn s else in_next_step s) = inbox_queue t s"
  by (cases t) auto

lemma clamps:
  assumes "0 \<le> len"
  shows "0 \<le> clamp_start len i" "clamp_start len i \<le> len"
    "0 \<le> clamp_count len (clamp_start len i) n" "clamp_start len i + clamp_count len (clamp_start len i) n \<le> len"
    "clamp_start len (clamp_start len i) = clamp_start len i"
    "clamp_count len (clamp_start len i) (clamp_count len (clamp_start len i) n) = clamp_count len (clamp_start len i) n"
  using assms by (auto simp: clamp_start_def clamp_count_def)

text \<open>A splice cuts a segment out of its queue and puts the fresh messages there.\<close>

definition spliced :: "inbox_target \<Rightarrow> nat \<Rightarrow> nat \<Rightarrow> json list \<Rightarrow> inbox_state \<Rightarrow> inbox_state" where
  "spliced t a n ms s =
     (let q = inbox_queue t s; cut = set_inbox_queue t (take a q @ drop (a + n) q) s
      in set_inbox_queue t (take a q @ fresh ms (present_ids cut) @ drop (a + n) q) s)"

lemma splice_queue_spliced:
  assumes "a = nat (clamp_start (int (length (inbox_queue t s))) (sint start))"
    and "n = nat (clamp_count (int (length (inbox_queue t s))) (int a) (sint removed))"
  shows "splice_queue t start removed (Some (JArray ms)) s = spliced t a n ms s"
proof -
  let ?len = "int (length (inbox_queue t s))"
  have "int a = clamp_start ?len (sint start)" using assms(1) clamps(1) [of ?len] by simp
  moreover from this have "a \<le> length (inbox_queue t s)" using clamps(2) [of ?len "sint start"] by simp
  ultimately show ?thesis
    using assms by (auto simp: splice_queue_def spliced_def Let_def insert_fresh_splices)
qed

definition inbox_unique :: "inbox_state \<Rightarrow> bool" where
  "inbox_unique s \<longleftrightarrow>
     (let ids = map inbox_message_id (in_next_turn s @ in_next_step s) in distinct ids \<and> [] \<notin> set ids)"

lemma present_ids_unique:
  "inbox_unique s \<Longrightarrow> present_ids s = map inbox_message_id (in_next_turn s @ in_next_step s)"
  unfolding inbox_unique_def present_ids_def Let_def by (subst filter_True) auto

lemma unique_parts:
  "inbox_unique s \<longleftrightarrow>
     (\<forall>t. distinct (map inbox_message_id (inbox_queue t s)) \<and> [] \<notin> inbox_message_id ` set (inbox_queue t s)) \<and>
     inbox_message_id ` set (inbox_queue NextTurn s) \<inter> inbox_message_id ` set (inbox_queue NextStep s) = {}"
proof -
  have all: "(\<forall>t. P t) \<longleftrightarrow> P NextTurn \<and> P NextStep" for P by (metis inbox_target.exhaust)
  show ?thesis unfolding all by (auto simp: inbox_unique_def Let_def)
qed

lemma unique_set_queue:
  assumes "inbox_unique s" and "distinct (map inbox_message_id q)" and "[] \<notin> inbox_message_id ` set q"
    and "\<And>u. u \<noteq> t \<Longrightarrow> inbox_message_id ` set q \<inter> inbox_message_id ` set (inbox_queue u s) = {}"
  shows "inbox_unique (set_inbox_queue t q s)"
proof (cases t)
  case NextTurn
  with assms(1-3) assms(4) [of NextStep] show ?thesis by (auto simp: inbox_unique_def Let_def)
next
  case NextStep
  with assms(1-3) assms(4) [of NextTurn] show ?thesis by (auto simp: inbox_unique_def Let_def)
qed

lemma unique_spliced:
  assumes "inbox_unique s" shows "inbox_unique (spliced t a n ms s)"
proof -
  let ?q = "inbox_queue t s"
  define A B C where abc: "A = take a ?q" "B = take n (drop a ?q)" "C = drop (a + n) ?q"
  have "?q = A @ B @ C" unfolding abc by (metis append_take_drop_id drop_drop add.commute)
  note q = this abc(1) [symmetric] abc(3) [symmetric]
  have own: "distinct (map inbox_message_id ?q)" "[] \<notin> inbox_message_id ` set ?q"
    "u \<noteq> t \<Longrightarrow> inbox_message_id ` set ?q \<inter> inbox_message_id ` set (inbox_queue u s) = {}" for u
    subgoal using assms unfolding unique_parts by blast
    subgoal using assms unfolding unique_parts by blast
    subgoal using assms unfolding unique_parts by (cases t; cases u) auto
    done
  define cut where "cut = set_inbox_queue t (A @ C) s"
  have cu: "inbox_unique cut"
    unfolding cut_def
  proof (rule unique_set_queue [OF assms])
    show "inbox_message_id ` set (A @ C) \<inter> inbox_message_id ` set (inbox_queue u s) = {}" if "u \<noteq> t" for u
      using own(3) [OF that] q(1) by (auto simp: image_Un)
  qed (use own(1, 2) q(1) in auto)
  let ?f = "fresh ms (present_ids cut)"
  have new: "inbox_message_id ` set ?f \<inter> inbox_message_id ` set (inbox_queue u cut) = {}" for u
    using fresh_ids(3) [of ms "present_ids cut"] unfolding present_ids_unique [OF cu] by (cases u) auto
  have mine: "inbox_queue t cut = A @ C" by (simp add: cut_def)
  have "inbox_unique (set_inbox_queue t (A @ ?f @ C) cut)"
  proof (rule unique_set_queue [OF cu])
    show "distinct (map inbox_message_id (A @ ?f @ C))"
      using new [of t] fresh_ids(1) [of ms "present_ids cut"] own(1) q(1) by (auto simp: mine)
    show "[] \<notin> inbox_message_id ` set (A @ ?f @ C)"
      using fresh_ids(2) [of ms "present_ids cut"] own(2) q(1) by auto
    show "inbox_message_id ` set (A @ ?f @ C) \<inter> inbox_message_id ` set (inbox_queue u cut) = {}" if "u \<noteq> t" for u
    proof -
      have "inbox_queue u cut = inbox_queue u s" using that by (simp add: cut_def)
      with new [of u] own(3) [OF that] q(1) show ?thesis by (auto simp: image_Un)
    qed
  qed
  then show ?thesis by (simp add: spliced_def Let_def q(2, 3) cut_def)
qed

text \<open>Whatever an event holds, it splices or does nothing.\<close>

lemma apply_inbox_cases:
  obtains "apply_inbox_splice s data = s"
  | t a n ms where "apply_inbox_splice s data = spliced t a n ms s"
proof -
  have none: "splice_queue t i r v s = splice_queue t i r (Some (JArray [])) s" if "Option.bind v as_array = None" for t i r v
    using that by (simp add: splice_queue_def)
  have some: "\<exists>t' a n ms. splice_queue t i r v s = spliced t' a n ms s" for t i r v
  proof (cases "Option.bind v as_array")
    case None
    then show ?thesis using none splice_queue_spliced by metis
  next
    case (Some ms)
    then have "v = Some (JArray ms)" by (cases v; cases "the v") auto
    then show ?thesis using splice_queue_spliced by metis
  qed
  show thesis
  proof (cases "apply_inbox_splice s data = s")
    case False
    then obtain t i r v where "apply_inbox_splice s data = splice_queue t i r v s"
      by (auto simp: apply_inbox_splice_def split: option.splits)
    moreover obtain t' a n ms where "splice_queue t i r v s = spliced t' a n ms s" using some by blast
    ultimately show thesis using that(2) by simp
  qed (rule that(1))
qed

lemma apply_inbox_unique: "inbox_unique s \<Longrightarrow> inbox_unique (apply_inbox_splice s data)"
  by (rule apply_inbox_cases [of s data]) (simp_all add: unique_spliced)

interpretation inbox_replay: cell_invariant inbox_projection inbox_unique
  by unfold_locales (simp add: inbox_projection_def apply_inbox_unique)

lemma empty_inbox_unique: "inbox_unique empty_inbox"
  by (simp add: inbox_unique_def empty_inbox_def)

section \<open>Splices as the fold reads them\<close>

lemma sint_index: "\<lbrakk>0 \<le> i; i < 2 ^ 63\<rbrakk> \<Longrightarrow> sint (word_of_int i :: 64 word) = i"
  by (simp add: signed_of_int signed_take_bit_int_eq_self)

lemma apply_splice_data:
  "apply_inbox_splice s (inbox_splice_data t start removed inserted outcome) =
     spliced t (nat (clamp_start (int (length (inbox_queue t s))) (sint start)))
       (nat (clamp_count (int (length (inbox_queue t s))) (clamp_start (int (length (inbox_queue t s))) (sint start))
         (sint removed))) inserted s"
proof -
  have "apply_inbox_splice s (inbox_splice_data t start removed inserted outcome) =
      splice_queue t start removed (Some (JArray inserted)) s"
    by (cases t) (auto simp: apply_inbox_splice_def inbox_splice_data_def opt_string_at_def target_name_def queue_for_def
        member_def)
  then show ?thesis using clamps(1) [of "int (length (inbox_queue t s))" "sint start"]
    by (simp add: splice_queue_spliced)
qed

text \<open>The normalized coordinates of a splice and the raw ones mean the same.\<close>

definition splice_start :: "inbox_target \<Rightarrow> 64 word \<Rightarrow> inbox_state \<Rightarrow> nat" where
  "splice_start t start s = nat (clamp_start (int (length (inbox_queue t s))) (sint start))"

definition splice_count :: "inbox_target \<Rightarrow> 64 word \<Rightarrow> 64 word \<Rightarrow> inbox_state \<Rightarrow> nat" where
  "splice_count t start n s =
     nat (clamp_count (int (length (inbox_queue t s))) (clamp_start (int (length (inbox_queue t s))) (sint start)) (sint n))"

lemma make_splice_cases:
  assumes "length (inbox_queue t s) < 2 ^ 63"
  obtains (noop) "im_noop (make_inbox_splice s t start n ms b)" "splice_count t start n s = 0" "ms = []"
  | (splice) "\<not> im_noop (make_inbox_splice s t start n ms b)"
      "apply_inbox_splice s (im_data (make_inbox_splice s t start n ms b)) =
         spliced t (splice_start t start s) (splice_count t start n s) ms s"
      "im_removed (make_inbox_splice s t start n ms b) =
         take (splice_count t start n s) (drop (splice_start t start s) (inbox_queue t s))"
proof -
  let ?len = "int (length (inbox_queue t s))"
  define a c where "a = clamp_start ?len (sint start)" and "c = clamp_count ?len a (sint n)"
  have cl: "0 \<le> a" "a \<le> ?len" "0 \<le> c" "a + c \<le> ?len" "clamp_start ?len a = a" "clamp_count ?len a c = c"
    using clamps [of ?len "sint start"] by (simp_all add: a_def c_def)
  have w: "sint (word_of_int a :: 64 word) = a" "sint (word_of_int c :: 64 word) = c"
    using cl assms by (auto intro!: sint_index)
  note d = make_inbox_splice_def make_queue Let_def a_def [symmetric] c_def [symmetric]
  show thesis
  proof (cases "c = 0 \<and> ms = []")
    case True
    then show thesis by (intro noop) (simp_all add: d splice_count_def)
  next
    case False
    then have f: "(c = 0 \<and> ms = []) = False" by simp
    show thesis
      by (intro splice) (simp_all add: d f apply_splice_data w cl splice_start_def splice_count_def)
  qed
qed

lemma spliced_nothing: "spliced t a 0 [] s = s"
  by (simp add: spliced_def Let_def)

section \<open>Queueing and claiming\<close>

text \<open>
  The two ways the agent loop uses the inbox: a message is put at the end of a queue, the first messages of
  a queue are claimed. \<open>inbox_run\<close> is the state after a number of them, with the messages claimed from
  each queue.
\<close>

datatype inbox_op = Put inbox_target json | Claim inbox_target "64 word"

definition inbox_step :: "inbox_op \<Rightarrow> inbox_state \<Rightarrow> inbox_state \<times> json list" where
  "inbox_step x s =
     (let mu = (case x of Put t m \<Rightarrow> make_inbox_splice s t int64_max 0 [m] False | Claim t n \<Rightarrow> make_inbox_splice s t 0 n [] False)
      in (if im_noop mu then s else apply_inbox_splice s (im_data mu), im_removed mu))"

definition op_target :: "inbox_op \<Rightarrow> inbox_target" where
  "op_target x = (case x of Put t m \<Rightarrow> t | Claim t n \<Rightarrow> t)"

fun inbox_run :: "inbox_target \<Rightarrow> inbox_op list \<Rightarrow> inbox_state \<Rightarrow> inbox_state \<times> json list" where
  "inbox_run t [] s = (s, [])"
| "inbox_run t (x # xs) s =
     (let (s1, claimed) = inbox_step x s; (s2, later) = inbox_run t xs s1
      in (s2, (if op_target x = t then claimed else []) @ later))"

definition put_to :: "inbox_target \<Rightarrow> inbox_op list \<Rightarrow> json list" where
  "put_to t xs = List.map_filter (\<lambda>x. case x of Put u m \<Rightarrow> if u = t then Some m else None | Claim _ _ \<Rightarrow> None) xs"

definition all_put :: "inbox_op list \<Rightarrow> json list" where
  "all_put xs = List.map_filter (\<lambda>x. case x of Put u m \<Rightarrow> Some m | Claim _ _ \<Rightarrow> None) xs"

definition inbox_messages :: "inbox_state \<Rightarrow> json list" where
  "inbox_messages s = in_next_turn s @ in_next_step s"

lemma put_step:
  assumes "length (inbox_queue t s) < 2 ^ 63" and "inbox_unique s"
    and "inbox_message_id m \<noteq> []" and "inbox_message_id m \<notin> inbox_message_id ` set (inbox_messages s)"
  shows "inbox_step (Put t m) s = (set_inbox_queue t (inbox_queue t s @ [m]) s, [])"
proof -
  have st: "splice_start t int64_max s = length (inbox_queue t s)" "splice_count t int64_max 0 s = 0"
    using assms(1) by (auto simp: splice_start_def splice_count_def clamp_start_def clamp_count_def int64_max_def)
  have "inbox_message_id m \<notin> set (present_ids s)"
    using assms(4) by (auto simp: present_ids_unique [OF assms(2)] inbox_messages_def)
  then have "spliced t (length (inbox_queue t s)) 0 [m] s = set_inbox_queue t (inbox_queue t s @ [m]) s"
    using assms(3) by (simp add: spliced_def Let_def)
  with st show ?thesis
    by (cases rule: make_splice_cases [OF assms(1), where start = int64_max and n = 0 and ms = "[m]" and b = False]) (auto simp: inbox_step_def Let_def)
qed

lemma claim_step:
  assumes "length (inbox_queue t s) < 2 ^ 63"
  obtains k where "inbox_step (Claim t n) s =
    (set_inbox_queue t (drop k (inbox_queue t s)) s, take k (inbox_queue t s))"
    "k = nat (min (max (sint n) 0) (int (length (inbox_queue t s))))"
proof -
  let ?k = "splice_count t 0 n s"
  have st: "splice_start t 0 s = 0" by (simp add: splice_start_def clamp_start_def)
  have k: "?k = nat (min (max (sint n) 0) (int (length (inbox_queue t s))))"
    by (simp add: splice_count_def clamp_start_def clamp_count_def max_def)
  have sp: "spliced t 0 ?k [] s = set_inbox_queue t (drop ?k (inbox_queue t s)) s"
    by (simp add: spliced_def Let_def)
  show thesis
  proof (cases rule: make_splice_cases [OF assms, where start = 0 and n = n and ms = "[]" and b = False])
    case 1
    with sp spliced_nothing [of t 0 s] st have "set_inbox_queue t (inbox_queue t s) s = s" by simp
    with 1 have "inbox_step (Claim t n) s = (set_inbox_queue t (drop ?k (inbox_queue t s)) s, take ?k (inbox_queue t s))"
      by (auto simp: inbox_step_def make_inbox_splice_def Let_def split: if_splits)
    then show thesis using k by (rule that)
  next
    case 2
    then have "inbox_step (Claim t n) s = (set_inbox_queue t (drop ?k (inbox_queue t s)) s, take ?k (inbox_queue t s))"
      by (simp add: inbox_step_def sp st)
    then show thesis using k by (rule that)
  qed
qed

lemma inbox_unique_messages:
  "inbox_unique s \<longleftrightarrow> distinct (map inbox_message_id (inbox_messages s)) \<and> [] \<notin> inbox_message_id ` set (inbox_messages s)"
  by (simp add: inbox_unique_def inbox_messages_def Let_def image_Un)

lemma inbox_run_fifo:
  assumes "distinct (map inbox_message_id (inbox_messages s @ all_put xs))"
    and "[] \<notin> inbox_message_id ` set (inbox_messages s @ all_put xs)"
    and "length (inbox_messages s) + length xs < 2 ^ 63"
  shows "snd (inbox_run t xs s) @ inbox_queue t (fst (inbox_run t xs s)) = inbox_queue t s @ put_to t xs"
  using assms
proof (induction xs arbitrary: s)
  case (Cons x xs)
  have u: "inbox_unique s" using Cons.prems(1, 2) by (auto simp: inbox_unique_messages)
  have len: "length (inbox_queue v s) < 2 ^ 63" for v
    using Cons.prems(3) by (cases v) (simp_all add: inbox_messages_def)
  show ?case
  proof (cases x)
    case (Put v m)
    let ?s = "set_inbox_queue v (inbox_queue v s @ [m]) s"
    have st: "inbox_step x s = (?s, [])"
      unfolding Put by (rule put_step [OF len u]) (use Cons.prems(1, 2) in \<open>auto simp: Put all_put_def List.map_filter_def\<close>)
    have "snd (inbox_run t xs ?s) @ inbox_queue t (fst (inbox_run t xs ?s)) = inbox_queue t ?s @ put_to t xs"
      by (rule Cons.IH; use Cons.prems in \<open>cases v; auto simp: Put all_put_def List.map_filter_def inbox_messages_def\<close>)
    then show ?thesis
      by (simp add: st split: prod.split) (simp add: Put put_to_def List.map_filter_def op_target_def)
  next
    case (Claim v n)
    from claim_step [OF len, of v n] obtain k where
      st: "inbox_step x s = (set_inbox_queue v (drop k (inbox_queue v s)) s, take k (inbox_queue v s))"
      unfolding Claim by metis
    define A C where ac: "A = take k (inbox_queue v s)" "C = drop k (inbox_queue v s)"
    have q: "inbox_queue v s = A @ C" by (simp add: ac)
    let ?s = "set_inbox_queue v C s"
    have "snd (inbox_run t xs ?s) @ inbox_queue t (fst (inbox_run t xs ?s)) = inbox_queue t ?s @ put_to t xs"
      by (rule Cons.IH; use Cons.prems q in
        \<open>cases v; simp add: Claim all_put_def List.map_filter_def inbox_messages_def image_Un; blast?\<close>)
    note rest = this and st' = st [folded ac]
    then show ?thesis
      by (simp add: st' split: prod.split) (auto simp: Claim q put_to_def List.map_filter_def op_target_def)
  qed
qed (simp add: put_to_def List.map_filter_def)

end
