(* ===== verification/Bridge.thy ===== *)
theory Bridge
  imports SessionLaws
begin

text \<open>
  The vocabulary of a model call (\<open>plugins/llm/include/araya/llm/llm.hpp\<close>) and the bridge between it and
  the JSON of session events (\<open>plugins/llm/bridge/include/araya/llm/bridge.hpp\<close>): content blocks, failures,
  stream chunks, and the envelopes the agent loop appends. Token counts are \<open>std::uint64_t\<close>; a number put
  into a \<open>boost::json\<close> value from an unsigned variable is a \<open>uint64\<close>, hence \<open>JUint\<close>.
\<close>

section \<open>Blocks\<close>

datatype content_block_type = TextType | ReasoningType | ToolCallType | ToolResultType

record tool_call_block =
  tc_id :: string
  tc_name :: string
  tc_arguments :: string

record tool_result_block =
  tr_tool_call_id :: string
  tr_content :: json
  tr_is_error :: bool

record image_block =
  ib_attachment_id :: string
  ib_media_type :: string
  ib_data :: string

datatype content_block =
    TextBlock string
  | ReasoningBlock string
  | ToolCallBlock tool_call_block
  | ToolResultBlock tool_result_block
  | ImageBlock image_block

datatype llm_role = LlmSystem | LlmUser | LlmAssistant

record llm_message =
  lm_role :: llm_role
  lm_content :: "content_block list"
  lm_replay_state :: "json option"

section \<open>Failures, usage and chunks\<close>

datatype llm_error_code =
    NoAdapter | DuplicateAdapter | Auth | RateLimit | ContextWindowExceeded | EmptyResponse | InvalidRequest
  | Quota | Server | Timeout | Transport | AbortedCall | StreamClosed | MalformedResponse

definition code_name :: "llm_error_code \<Rightarrow> string" where
  "code_name c = (case c of NoAdapter \<Rightarrow> ''no_adapter'' | DuplicateAdapter \<Rightarrow> ''duplicate_adapter'' | Auth \<Rightarrow> ''auth''
     | RateLimit \<Rightarrow> ''rate_limit'' | ContextWindowExceeded \<Rightarrow> ''context_window_exceeded''
     | EmptyResponse \<Rightarrow> ''empty_response'' | InvalidRequest \<Rightarrow> ''invalid_request'' | Quota \<Rightarrow> ''quota''
     | Server \<Rightarrow> ''server'' | Timeout \<Rightarrow> ''timeout'' | Transport \<Rightarrow> ''transport'' | AbortedCall \<Rightarrow> ''aborted''
     | StreamClosed \<Rightarrow> ''stream_closed'' | MalformedResponse \<Rightarrow> ''malformed_response'')"

record llm_failure =
  lf_code :: llm_error_code
  lf_message :: string
  lf_provider_code :: string
  lf_status :: int
  lf_retry_after :: "int option"
  lf_request_id :: string

definition code_string :: "llm_failure \<Rightarrow> string" where
  "code_string f = (if lf_provider_code f = [] then code_name (lf_code f) else lf_provider_code f)"

definition failure_to_json :: "llm_failure \<Rightarrow> json" where
  "failure_to_json f = JObject [(''code'', JString (code_name (lf_code f))), (''message'', JString (lf_message f))]"

record token_usage =
  tu_input :: "64 word"
  tu_output :: "64 word"
  tu_total :: "64 word option"
  tu_cache_read :: "64 word option"
  tu_cache_write :: "64 word option"
  tu_reasoning :: "64 word option"

definition no_usage :: token_usage where
  "no_usage = \<lparr>tu_input = 0, tu_output = 0, tu_total = None, tu_cache_read = None, tu_cache_write = None,
     tu_reasoning = None\<rparr>"

datatype finish_reason = FinishStop | FinishToolCalls | FinishMaxTokens | FinishError | FinishAborted

record finish_chunk =
  fc_why :: finish_reason
  fc_failure :: "llm_failure option"
  fc_replay :: "json option"

datatype stream_chunk =
    BlockStart nat content_block_type
  | TextDelta nat string
  | ReasoningDelta nat string
  | ToolCallDelta nat string string string
  | BlockEnd nat content_block
  | UsageChunk token_usage
  | Finish finish_chunk

definition finish_from :: "llm_failure \<Rightarrow> finish_chunk" where
  "finish_from f =
     \<lparr>fc_why = (if lf_code f = AbortedCall then FinishAborted else FinishError), fc_failure = Some f, fc_replay = None\<rparr>"

section \<open>Session messages to model messages\<close>

definition lifted_images :: "json \<Rightarrow> content_block list" where
  "lifted_images content =
     (case as_array content of
        None \<Rightarrow> []
      | Some inner \<Rightarrow>
          List.map_filter (\<lambda>b. case as_object b of
              None \<Rightarrow> None
            | Some obj \<Rightarrow>
                if get_string_at obj ''type'' \<noteq> ''image'' then None
                else Some (ImageBlock \<lparr>ib_attachment_id = get_string_at obj ''attachment_id'',
                       ib_media_type = get_string_at obj ''media_type'', ib_data = get_string_at obj ''data''\<rparr>)) inner)"

definition to_llm_block :: "json_object \<Rightarrow> content_block list" where
  "to_llm_block obj =
     (let ty = get_string_at obj ''type''
      in if ty = ''text'' then [TextBlock (get_string_at obj ''text'')]
         else if ty = ''reasoning'' then [ReasoningBlock (get_string_at obj ''text'')]
         else if ty = ''tool_call''
         then [ToolCallBlock \<lparr>tc_id = get_string_at obj ''id'', tc_name = get_string_at obj ''name'',
                 tc_arguments = get_string_at obj ''arguments''\<rparr>]
         else if ty = ''tool_result''
         then (let content = (case member obj ''content'' of None \<Rightarrow> JNull | Some v \<Rightarrow> v);
                   err = (case member obj ''is_error'' of Some (JBool b) \<Rightarrow> b | _ \<Rightarrow> False)
               in lifted_images content @
                  [ToolResultBlock \<lparr>tr_tool_call_id = get_string_at obj ''tool_call_id'', tr_content = content,
                     tr_is_error = err\<rparr>])
         else if ty = ''image''
         then [ImageBlock \<lparr>ib_attachment_id = get_string_at obj ''attachment_id'',
                 ib_media_type = get_string_at obj ''media_type'', ib_data = get_string_at obj ''data''\<rparr>]
         else [])"

definition llm_role_of :: "message_role \<Rightarrow> llm_role" where
  "llm_role_of r = (case r of RoleSystem \<Rightarrow> LlmSystem | RoleUser \<Rightarrow> LlmUser | RoleAssistant \<Rightarrow> LlmAssistant
     | RoleToolResult \<Rightarrow> LlmUser)"

definition to_llm_message :: "session_message \<Rightarrow> llm_message" where
  "to_llm_message m =
     \<lparr>lm_role = llm_role_of (sm_role m),
      lm_content = (case as_array (sm_content m) of
          None \<Rightarrow> []
        | Some blocks \<Rightarrow> concat (map (\<lambda>b. case as_object b of None \<Rightarrow> [] | Some obj \<Rightarrow> to_llm_block obj) blocks)),
      lm_replay_state = None\<rparr>"

definition message_text :: "session_message \<Rightarrow> string" where
  "message_text m =
     (case as_array (sm_content m) of
        None \<Rightarrow> []
      | Some blocks \<Rightarrow>
          concat (map (\<lambda>b. case as_object b of
              None \<Rightarrow> []
            | Some obj \<Rightarrow> if get_string_at obj ''type'' = ''text'' then get_string_at obj ''text'' else []) blocks))"

section \<open>Envelopes\<close>

definition block_to_json :: "content_block \<Rightarrow> json" where
  "block_to_json b = (case b of
       TextBlock t \<Rightarrow> JObject [(''type'', JString ''text''), (''text'', JString t)]
     | ReasoningBlock t \<Rightarrow> JObject [(''type'', JString ''reasoning''), (''text'', JString t)]
     | ToolCallBlock c \<Rightarrow> JObject [(''type'', JString ''tool_call''), (''id'', JString (tc_id c)),
         (''name'', JString (tc_name c)), (''arguments'', JString (tc_arguments c))]
     | ToolResultBlock r \<Rightarrow> JObject ([(''type'', JString ''tool_result''),
         (''tool_call_id'', JString (tr_tool_call_id r)), (''content'', tr_content r)] @
         (if tr_is_error r then [(''is_error'', JBool True)] else []))
     | ImageBlock i \<Rightarrow> JObject [(''type'', JString ''image''), (''attachment_id'', JString (ib_attachment_id i)),
         (''media_type'', JString (ib_media_type i)), (''data'', JString (ib_data i))])"

definition blocks_to_json :: "content_block list \<Rightarrow> json" where
  "blocks_to_json bs = JArray (map block_to_json bs)"

definition optional_uint :: "string \<Rightarrow> 64 word option \<Rightarrow> json_object" where
  "optional_uint k v = (case v of None \<Rightarrow> [] | Some n \<Rightarrow> [(k, JUint n)])"

definition assistant_message_data ::
  "string \<Rightarrow> content_block list \<Rightarrow> token_usage \<Rightarrow> json option \<Rightarrow> 64 word \<Rightarrow> 64 word \<Rightarrow> bool \<Rightarrow> json" where
  "assistant_message_data i blocks u replay turn step interrupted =
     JObject ([(''message'', JObject [(''id'', JString i), (''role'', JString ''assistant''),
                 (''content'', blocks_to_json blocks)]),
               (''usage'', JObject ([(''input_tokens'', JUint (tu_input u)), (''output_tokens'', JUint (tu_output u))] @
                 optional_uint ''total_tokens'' (tu_total u) @ optional_uint ''cache_read_tokens'' (tu_cache_read u) @
                 optional_uint ''cache_write_tokens'' (tu_cache_write u) @
                 optional_uint ''reasoning_tokens'' (tu_reasoning u)))] @
       (case replay of None \<Rightarrow> [] | Some v \<Rightarrow> [(''replay'', v)]) @
       (if turn \<noteq> 0 then [(''turn'', JUint turn)] else []) @
       (if step \<noteq> 0 then [(''step'', JUint step)] else []) @
       (if interrupted then [(''interrupted'', JBool True)] else []))"

definition text_content :: "string \<Rightarrow> json" where
  "text_content t = JArray [JObject [(''type'', JString ''text''), (''text'', JString t)]]"

definition system_message_data :: "string \<Rightarrow> string \<Rightarrow> string \<Rightarrow> json" where
  "system_message_data i plugin t =
     JObject [(''message'', JObject [(''id'', JString i), (''role'', JString ''system''), (''content'', text_content t),
       (''source'', JObject [(''kind'', JString ''plugin''), (''plugin'', JString plugin)])])]"

definition user_message_data :: "string \<Rightarrow> json \<Rightarrow> json option \<Rightarrow> json" where
  "user_message_data i content source =
     JObject ([(''id'', JString i), (''role'', JString ''user''), (''content'', content)] @
       (case source of None \<Rightarrow> [] | Some v \<Rightarrow> [(''source'', v)]))"

definition user_text_data :: "string \<Rightarrow> string \<Rightarrow> json" where
  "user_text_data i t = JObject [(''id'', JString i), (''role'', JString ''user''), (''content'', text_content t)]"

text \<open>\<open>fields["kind"] = kind\<close>: a field of that name is overwritten, else one is added at the end.\<close>

definition set_member :: "string \<Rightarrow> json \<Rightarrow> json_object \<Rightarrow> json_object" where
  "set_member k v m = (if member m k = None then m @ [(k, v)] else map (\<lambda>(j, w). if j = k then (j, v) else (j, w)) m)"

definition message_source :: "string \<Rightarrow> json_object \<Rightarrow> json_object" where
  "message_source kind ms = set_member ''kind'' (JString kind) ms"

definition user_source_data :: "string \<Rightarrow> string \<Rightarrow> json_object \<Rightarrow> json" where
  "user_source_data i t source = user_message_data i (text_content t) (Some (JObject source))"

definition tool_result_data :: "string \<Rightarrow> string \<Rightarrow> json \<Rightarrow> bool \<Rightarrow> json" where
  "tool_result_data i call content is_error =
     JObject [(''id'', JString i), (''role'', JString ''user''),
       (''content'', JArray [JObject [(''type'', JString ''tool_result''), (''tool_call_id'', JString call),
          (''content'', content), (''is_error'', JBool is_error)]]),
       (''source'', JObject [(''kind'', JString ''tool''), (''call_id'', JString call)])]"

section \<open>What the bridge carries\<close>

lemma member_append: "member (xs @ ys) k = (case member xs k of None \<Rightarrow> member ys k | Some v \<Rightarrow> Some v)"
  by (simp add: member_def map_add_def split: option.split)

lemma member_optional_uint [simp]: "k \<noteq> j \<Longrightarrow> member (optional_uint k v) j = None"
  by (simp add: optional_uint_def split: option.split)

text \<open>
  A block survives the way through the session, except that a tool result brings the images of its content
  along as blocks before it.
\<close>

definition plain_block :: "content_block \<Rightarrow> bool" where
  "plain_block b = (case b of ToolResultBlock r \<Rightarrow> lifted_images (tr_content r) = [] | _ \<Rightarrow> True)"

lemma block_roundtrip:
  assumes "plain_block b"
  shows "(case as_object (block_to_json b) of None \<Rightarrow> [] | Some obj \<Rightarrow> to_llm_block obj) = [b]"
  using assms
  by (cases b) (auto simp: block_to_json_def to_llm_block_def plain_block_def get_string_at_def get_string_def member_append)

lemma blocks_roundtrip:
  assumes "\<forall>b \<in> set bs. plain_block b" and "sm_content m = blocks_to_json bs"
  shows "lm_content (to_llm_message m) = bs"
proof -
  have "concat (map (\<lambda>b. case as_object b of None \<Rightarrow> [] | Some obj \<Rightarrow> to_llm_block obj) (map block_to_json bs)) = bs"
    using assms(1) by (induction bs) (simp_all add: block_roundtrip)
  with assms(2) show ?thesis by (simp add: to_llm_message_def blocks_to_json_def)
qed

text \<open>The repair of interrupted turns looks for calls nested in a member \<open>tool_call\<close>: no block has one.\<close>

lemma block_requests_nothing: "requested_call (block_to_json b) = None"
  by (cases b) (auto simp: requested_call_def block_to_json_def member_append split: option.split)

lemma committed_requests_nothing:
  assumes "ev_type ev = ''assistant/message''" and "ev_data ev = assistant_message_data i bs u r t s x"
  shows "requested_calls ev = []"
  using assms
  by (simp add: requested_calls_def assistant_content_def assistant_message_data_def blocks_to_json_def
      List.map_filter_def block_requests_nothing)

end
