(* ===== verification/AgentLog.thy ===== *)
theory AgentLog
  imports Inbox Bridge
begin

text \<open>
  What the agent loop reads from and writes to a session log (first part of
  \<open>plugins/agent-loop/src/agent.cpp\<close>, and \<open>events.cpp\<close>): the accumulator of a model stream, the outcome of
  a step as an event, turn numbers, the fold of turn and step boundaries, injected context, and the
  system prompt on the surface. Turn and step numbers are \<open>std::uint64_t\<close>.
\<close>

section \<open>Equality of JSON values\<close>

text \<open>
  \<open>operator==\<close> of \<open>boost::json\<close>: the two integer kinds compare as numbers, the members of objects in any
  order. Doubles, which the loop only copies, are compared as bit patterns.
\<close>

fun json_equal :: "json \<Rightarrow> json \<Rightarrow> bool" where
  "json_equal (JInt m) (JUint n) \<longleftrightarrow> sint m \<ge> 0 \<and> m = n"
| "json_equal (JUint m) (JInt n) \<longleftrightarrow> sint n \<ge> 0 \<and> m = n"
| "json_equal (JArray xs) (JArray ys) \<longleftrightarrow> list_all2 json_equal xs ys"
| "json_equal (JObject xs) (JObject ys) \<longleftrightarrow>
     length xs = length ys \<and>
     list_all (\<lambda>(k, v). case member ys k of None \<Rightarrow> False | Some w \<Rightarrow> json_equal v w) xs"
| "json_equal v w \<longleftrightarrow> v = w"

section \<open>Accumulating a stream\<close>

record open_block =
  ob_kind :: content_block_type
  ob_text :: string
  ob_call_id :: string
  ob_name :: string

record step_accumulator =
  sa_closed :: "content_block list"
  sa_open :: "(nat, open_block) omap"
  sa_usage :: "token_usage option"
  sa_failure :: "llm_failure option"
  sa_replay :: "json option"
  sa_why :: finish_reason

definition fresh_block :: "content_block_type \<Rightarrow> open_block" where
  "fresh_block k = \<lparr>ob_kind = k, ob_text = [], ob_call_id = [], ob_name = []\<rparr>"

definition reset_accumulator :: step_accumulator where
  "reset_accumulator = \<lparr>sa_closed = [], sa_open = [], sa_usage = None, sa_failure = None, sa_replay = None,
     sa_why = FinishStop\<rparr>"

text \<open>\<open>open[index]\<close> makes a text block where there is none.\<close>

definition open_at :: "nat \<Rightarrow> (open_block \<Rightarrow> open_block) \<Rightarrow> step_accumulator \<Rightarrow> step_accumulator" where
  "open_at i f a = a\<lparr>sa_open := om_modify i f (om_emplace i (fresh_block TextType) (sa_open a))\<rparr>"

fun push_chunk :: "stream_chunk \<Rightarrow> step_accumulator \<Rightarrow> step_accumulator" where
  "push_chunk (BlockStart i k) a = a\<lparr>sa_open := om_emplace i (fresh_block k) (sa_open a)\<rparr>"
| "push_chunk (TextDelta i t) a = open_at i (\<lambda>b. b\<lparr>ob_text := ob_text b @ t\<rparr>) a"
| "push_chunk (ReasoningDelta i t) a = open_at i (\<lambda>b. b\<lparr>ob_text := ob_text b @ t\<rparr>) a"
| "push_chunk (ToolCallDelta i c n args) a = open_at i (\<lambda>b. b\<lparr>ob_kind := ToolCallType,
     ob_call_id := (if c \<noteq> [] then c else ob_call_id b), ob_name := (if n \<noteq> [] then n else ob_name b),
     ob_text := ob_text b @ args\<rparr>) a"
| "push_chunk (BlockEnd i b) a = a\<lparr>sa_open := om_erase i (sa_open a), sa_closed := sa_closed a @ [b]\<rparr>"
| "push_chunk (UsageChunk u) a = a\<lparr>sa_usage := Some u\<rparr>"
| "push_chunk (Finish f) a = a\<lparr>sa_why := fc_why f, sa_failure := fc_failure f, sa_replay := fc_replay f\<rparr>"

definition accumulate :: "stream_chunk list \<Rightarrow> step_accumulator" where
  "accumulate cs = fold push_chunk cs reset_accumulator"

definition partial_block :: "open_block \<Rightarrow> content_block option" where
  "partial_block b = (case ob_kind b of
       TextType \<Rightarrow> Some (TextBlock (ob_text b))
     | ReasoningType \<Rightarrow> Some (ReasoningBlock (ob_text b))
     | ToolCallType \<Rightarrow> Some (ToolCallBlock \<lparr>tc_id = ob_call_id b, tc_name = ob_name b, tc_arguments = ob_text b\<rparr>)
     | ToolResultType \<Rightarrow> None)"

definition delivered_blocks :: "step_accumulator \<Rightarrow> content_block list" where
  "delivered_blocks a = sa_closed a @ List.map_filter (\<lambda>(i, b). partial_block b) (sa_open a)"

section \<open>Events of a turn\<close>

datatype run_status = Completed | MaxTokens | Aborted | Failed | Blocked

definition run_status_name :: "run_status \<Rightarrow> string" where
  "run_status_name s = (case s of Completed \<Rightarrow> ''completed'' | MaxTokens \<Rightarrow> ''max_tokens'' | Aborted \<Rightarrow> ''aborted''
     | Failed \<Rightarrow> ''error'' | Blocked \<Rightarrow> ''blocked'')"

definition failure_member :: "llm_failure option \<Rightarrow> json_object" where
  "failure_member f = (case f of None \<Rightarrow> [] | Some x \<Rightarrow> [(''failure'', failure_to_json x)])"

definition attempt_data :: "64 word \<Rightarrow> 64 word \<Rightarrow> llm_failure option \<Rightarrow> json" where
  "attempt_data turn step f = JObject ([(''turn'', JUint turn), (''step'', JUint step)] @ failure_member f)"

definition turn_end_data :: "64 word \<Rightarrow> run_status \<Rightarrow> llm_failure option \<Rightarrow> json" where
  "turn_end_data turn s f =
     JObject ([(''turn'', JUint turn), (''reason'', JString (run_status_name s))] @ failure_member f)"

definition tool_call_data :: "64 word \<Rightarrow> 64 word \<Rightarrow> tool_call_block \<Rightarrow> json" where
  "tool_call_data turn step c = JObject [(''turn'', JUint turn), (''step'', JUint step), (''callId'', JString (tc_id c)),
     (''name'', JString (tc_name c)), (''arguments'', JString (tc_arguments c))]"

definition tool_calls_of :: "content_block list \<Rightarrow> tool_call_block list" where
  "tool_calls_of bs = List.map_filter (\<lambda>b. case b of ToolCallBlock c \<Rightarrow> Some c | _ \<Rightarrow> None) bs"

definition log_of :: "nat \<Rightarrow> 'st session_store \<Rightarrow> session_event list" where
  "log_of r st = se_log (ss_objects st ! r)"

text \<open>An id made of a prefix and the length of the log.\<close>

definition log_id :: "string \<Rightarrow> nat \<Rightarrow> 'st session_store \<Rightarrow> string" where
  "log_id prefix r st = prefix @ show_nat (length (log_of r st))"

record step_commit =
  sc_terminal :: "run_status option"
  sc_blocks :: "content_block list"

definition commit_terminal :: "step_accumulator \<Rightarrow> bool \<Rightarrow> run_status option" where
  "commit_terminal a max_tokens_as_success =
     (if sa_why a = FinishAborted then Some Aborted
      else if sa_why a = FinishError then Some Failed
      else if sa_why a = FinishMaxTokens then Some (if max_tokens_as_success then Completed else MaxTokens)
      else None)"

definition commit_model_outcome ::
  "nat \<Rightarrow> 64 word \<Rightarrow> 64 word \<Rightarrow> step_accumulator \<Rightarrow> bool \<Rightarrow> 64 word \<Rightarrow> 'st session_store
     \<Rightarrow> (session_error + step_commit) \<times> 'st session_store" where
  "commit_model_outcome r turn step a max_tokens_as_success now st =
     (let interrupted = (sa_why a = FinishAborted);
          blocks = (if interrupted then delivered_blocks a else sa_closed a);
          done = (\<lambda>term (res, st'). (case res of Inl e \<Rightarrow> Inl e
                    | Inr _ \<Rightarrow> Inr \<lparr>sc_terminal = term, sc_blocks = blocks\<rparr>, st'))
      in if sa_failure a \<noteq> None \<and> \<not> interrupted
         then done (Some Failed) (append_event r ''assistant/attempt'' (attempt_data turn step (sa_failure a)) now st)
         else if blocks \<noteq> []
         then done (commit_terminal a max_tokens_as_success)
                (append_event r ''assistant/message''
                   (assistant_message_data (log_id ''a'' r st) blocks
                      (case sa_usage a of None \<Rightarrow> no_usage | Some u \<Rightarrow> u) (sa_replay a) turn step interrupted) now st)
         else if interrupted
         then done (commit_terminal a max_tokens_as_success)
                (append_event r ''assistant/attempt'' (attempt_data turn step (sa_failure a)) now st)
         else (Inr \<lparr>sc_terminal = commit_terminal a max_tokens_as_success, sc_blocks = blocks\<rparr>, st))"

text \<open>\<open>next_turn\<close>: a signed number is cast, so a negative one counts as a very large turn.\<close>

definition turn_number :: "session_event \<Rightarrow> 64 word option" where
  "turn_number ev =
     (case as_object (ev_data ev) of
        None \<Rightarrow> None
      | Some obj \<Rightarrow>
          (case member obj ''turn'' of Some (JInt n) \<Rightarrow> Some n | Some (JUint n) \<Rightarrow> Some n | _ \<Rightarrow> None))"

definition next_turn :: "session_event list \<Rightarrow> 64 word" where
  "next_turn log =
     fold (\<lambda>ev turn. if ev_type ev \<noteq> ''turn/start'' then turn
                     else (case turn_number ev of None \<Rightarrow> turn | Some n \<Rightarrow> max turn n)) log 0 + 1"

section \<open>Turn and step boundaries\<close>

record step_boundary =
  sb_start :: bool
  sb_seq :: session_seq

record turn_state =
  ts_open_turn :: "session_seq option"
  ts_last_step_start :: "session_seq option"
  ts_last_boundary :: "step_boundary option"
  ts_last_turn :: "64 word"

definition no_turn :: turn_state where
  "no_turn = \<lparr>ts_open_turn = None, ts_last_step_start = None, ts_last_boundary = None, ts_last_turn = 0\<rparr>"

definition turn_of :: "json \<Rightarrow> 64 word option" where
  "turn_of data =
     (case as_object data of
        None \<Rightarrow> None
      | Some obj \<Rightarrow>
          (case member obj ''turn'' of
             Some (JUint n) \<Rightarrow> Some n
           | Some (JInt n) \<Rightarrow> (if sint n \<ge> 0 then Some n else None)
           | _ \<Rightarrow> None))"

definition apply_boundary :: "turn_state \<Rightarrow> session_event \<Rightarrow> turn_state" where
  "apply_boundary s ev =
     (if ev_type ev = ''turn/start''
      then s\<lparr>ts_open_turn := Some (ev_seq ev),
             ts_last_turn := (case turn_of (ev_data ev) of None \<Rightarrow> ts_last_turn s | Some n \<Rightarrow> n)\<rparr>
      else if ev_type ev = ''turn/end'' then s\<lparr>ts_open_turn := None\<rparr>
      else if ev_type ev = ''step/start''
      then s\<lparr>ts_last_step_start := Some (ev_seq ev), ts_last_boundary := Some \<lparr>sb_start = True, sb_seq = ev_seq ev\<rparr>\<rparr>
      else if ev_type ev = ''step/end'' then s\<lparr>ts_last_boundary := Some \<lparr>sb_start = False, sb_seq = ev_seq ev\<rparr>\<rparr>
      else s)"

definition turn_boundary_projection :: "turn_state projection_cell" where
  "turn_boundary_projection = \<lparr>pc_types = [''turn/start'', ''turn/end'', ''step/start'', ''step/end''],
     pc_init = \<lambda>_. no_turn, pc_apply = apply_boundary, pc_states = []\<rparr>"

section \<open>Injected context\<close>

definition from_producer :: "string \<Rightarrow> session_message \<Rightarrow> bool" where
  "from_producer producer m \<longleftrightarrow>
     sm_role m = RoleUser \<and>
     (case sm_source m of Some (JObject src) \<Rightarrow>
        member src ''kind'' = Some (JString ''plugin'') \<and> member src ''plugin'' = Some (JString producer) | _ \<Rightarrow> False)"

definition injected_context :: "nat \<Rightarrow> string \<Rightarrow> string \<Rightarrow> 'st session_store \<Rightarrow> json option" where
  "injected_context r producer content st =
     (if content = [] then None
      else
        let previous = map_option message_text
              (List.find (from_producer producer) (rev (sf_messages (se_surface (ss_objects st ! r)))))
        in if previous = Some content then None
           else Some (user_source_data (''ctx-'' @ producer @ ''-'' @ show_nat (length (log_of r st))) content
                       (message_source ''plugin'' [(''plugin'', JString producer)])))"

end
