(* ===== verification/AgentTurn.thy ===== *)
theory AgentTurn
  imports AgentLog
begin

text \<open>
  The turn engine of the agent loop (\<open>agent_service\<close> in \<open>plugins/agent-loop/src/agent.cpp\<close>, from the claim of
  pending messages to the end of a turn). An action takes the world and gives a result or an exception with
  the world it leaves; \<open>None\<close> is an action that never returns (a request that is retried for ever). Drivers
  are shared objects, named by their address in \<open>aw_drivers\<close>; stop sources are cells of \<open>aw_stops\<close>. What
  happens inside an awaited call (the model stream, a tool, the listeners of an event, the registries of
  prompts and models) is a parameter: a function of the environment that may change the world in any way, so
  it includes whatever runs meanwhile. Logging and the realm of a dispatch are not modelled.
\<close>

section \<open>The environment and the world\<close>

datatype agent_error = SessionFailed session_error | StdError string | OtherError

type_synonym stop_token = "nat option"

record drive_options =
  dv_provider :: string
  dv_model :: string
  dv_effort :: string
  dv_temperature :: "64 word option"
  dv_max_tokens :: "64 word option"
  dv_max_steps :: "32 word"
  dv_stop :: stop_token
  dv_on_event :: "nat option"
  dv_on_chunk :: "nat option"

record run_outcome =
  ro_status :: run_status
  ro_failure :: "llm_failure option"
  ro_turn :: "64 word"

record agent_state =
  as_session :: session_id
  as_running :: bool
  as_abort :: stop_token
  as_wake :: bool
  as_exec :: drive_options
  as_seed :: "json option"
  as_caller_stop :: stop_token
  as_bridge :: "(nat \<times> nat) option"
  as_waiters :: "nat list"
  as_outcome :: run_outcome
  as_last_tools :: "string list"
  as_generation :: "64 word"

datatype agent_event =
    TurnEvent "64 word"
  | StepEvent "64 word" "64 word"
  | ToolCallEvent "64 word" "64 word" string string
  | ToolDoneEvent "64 word" "64 word" string string bool
  | RunFinishEvent "64 word" run_status

datatype agent_notice =
    AgentCreated session_id json
  | AgentDisposed session_id
  | AgentStatus session_id bool
  | InboxInserted session_id json
  | InboxClaimed session_id json "64 word"
  | InboxDiscarded session_id json
  | SinkEvent nat agent_event

record agent_world =
  aw_store :: "inbox_state session_store"
  aw_drivers :: "agent_state list"
  aw_states :: "(session_id, nat) omap"
  aw_stops :: "bool list"
  aw_bus :: bool
  aw_producers :: "(nat \<times> nat) list"
  aw_next_producer :: nat
  aw_notices :: "agent_notice list"
  aw_drives :: "nat list"

type_synonym 'a action = "agent_world \<Rightarrow> ((agent_error + 'a) \<times> agent_world) option"

record prompt_tool =
  pt_name :: string
  pt_description :: string
  pt_parameters :: json

record prompt_assembly =
  pa_rendered :: string
  pa_snapshot :: string
  pa_tools :: "prompt_tool list"

record model_info =
  mi_context_window :: "64 word"
  mi_default_max_tokens :: "64 word"
  mi_default_temperature :: "64 word option"
  mi_default_effort :: "string option"
  mi_prompt_update :: "string option"

record generate_options =
  gn_provider :: string
  gn_model :: string
  gn_effort :: string
  gn_messages :: "llm_message list"
  gn_tools :: "prompt_tool list"
  gn_temperature :: "64 word option"
  gn_max_tokens :: "64 word option"
  gn_stop :: stop_token
  gn_session :: session_id

record tool_context =
  tx_call_id :: string
  tx_name :: string
  tx_session :: session_id
  tx_arguments :: json
  tx_stop :: stop_token

record tool_result =
  tl_content :: json
  tl_is_error :: bool
  tl_concludes :: bool

record pre_step_msg =
  ps_session :: session_id
  ps_turn :: "64 word"
  ps_step :: "64 word"
  ps_stop :: stop_token
  ps_reject :: bool
  ps_messages :: "json list"
  ps_starts_series :: bool

record request_error_msg =
  re_session :: session_id
  re_turn :: "64 word"
  re_step :: "64 word"
  re_provider :: string
  re_model :: string
  re_attempt :: "32 word"
  re_failure :: llm_failure
  re_stop :: stop_token
  re_retry :: bool

record agent_env =
  ae_clock :: "inbox_state session_store \<Rightarrow> 64 word"
  ae_inbox :: nat
  ae_max_tokens_as_success :: bool
  ae_what :: "session_error \<Rightarrow> string"
  ae_parse :: "string \<Rightarrow> json option"
  ae_model :: "string \<Rightarrow> string \<Rightarrow> model_info option"
  ae_assemble :: "session_id \<Rightarrow> string \<Rightarrow> string \<Rightarrow> string option \<Rightarrow> prompt_assembly action"
  ae_produce :: "nat \<Rightarrow> nat \<Rightarrow> string \<Rightarrow> string \<Rightarrow> string option \<Rightarrow> json option action"
  ae_pre_step :: "pre_step_msg \<Rightarrow> pre_step_msg action"
  ae_stopping :: "session_id \<Rightarrow> 64 word \<Rightarrow> stop_token \<Rightarrow> unit action"
  ae_request_error :: "request_error_msg \<Rightarrow> request_error_msg action"
  ae_stream :: "generate_options \<Rightarrow> stream_chunk list action"
  ae_invoke :: "tool_context \<Rightarrow> tool_result option action"
  ae_resume :: "nat \<Rightarrow> agent_world \<Rightarrow> agent_world"
  ae_created :: "session_id \<Rightarrow> unit action"
  ae_disposed :: "session_id \<Rightarrow> unit action"

section \<open>Actions\<close>

definition give :: "'a \<Rightarrow> 'a action" where
  "give x w = Some (Inr x, w)"

definition throw :: "agent_error \<Rightarrow> 'a action" where
  "throw e w = Some (Inl e, w)"

definition and_then :: "'a action \<Rightarrow> ('a \<Rightarrow> 'b action) \<Rightarrow> 'b action" where
  "and_then m f w =
     (case m w of None \<Rightarrow> None | Some (Inl e, w') \<Rightarrow> Some (Inl e, w') | Some (Inr x, w') \<Rightarrow> f x w')"

definition on_error :: "'a action \<Rightarrow> (agent_error \<Rightarrow> 'a action) \<Rightarrow> 'a action" where
  "on_error m h w =
     (case m w of None \<Rightarrow> None | Some (Inl e, w') \<Rightarrow> h e w' | Some (Inr x, w') \<Rightarrow> Some (Inr x, w'))"

definition peek :: "(agent_world \<Rightarrow> 'a) \<Rightarrow> 'a action" where
  "peek f w = Some (Inr (f w), w)"

definition change :: "(agent_world \<Rightarrow> agent_world) \<Rightarrow> unit action" where
  "change f w = Some (Inr (), f w)"

definition driver :: "nat \<Rightarrow> agent_world \<Rightarrow> agent_state" where
  "driver d w = aw_drivers w ! d"

definition set_driver :: "nat \<Rightarrow> (agent_state \<Rightarrow> agent_state) \<Rightarrow> agent_world \<Rightarrow> agent_world" where
  "set_driver d f w = w\<lparr>aw_drivers := (aw_drivers w)[d := f (aw_drivers w ! d)]\<rparr>"

definition tell :: "agent_notice \<Rightarrow> agent_world \<Rightarrow> agent_world" where
  "tell n w = w\<lparr>aw_notices := aw_notices w @ [n]\<rparr>"

text \<open>A dispatch on the bus, when there is one; an event for the sink of the drive.\<close>

definition dispatch_notice :: "agent_notice \<Rightarrow> agent_world \<Rightarrow> agent_world" where
  "dispatch_notice n w = (if aw_bus w then tell n w else w)"

definition emit_event :: "nat \<Rightarrow> agent_event \<Rightarrow> agent_world \<Rightarrow> agent_world" where
  "emit_event d e w = (case dv_on_event (as_exec (driver d w)) of None \<Rightarrow> w | Some s \<Rightarrow> tell (SinkEvent s e) w)"

definition token_stopped :: "stop_token \<Rightarrow> agent_world \<Rightarrow> bool" where
  "token_stopped t w = (case t of None \<Rightarrow> False | Some i \<Rightarrow> i < length (aw_stops w) \<and> aw_stops w ! i)"

definition stop_requested :: "nat \<Rightarrow> agent_world \<Rightarrow> bool" where
  "stop_requested d w = token_stopped (dv_stop (as_exec (driver d w))) w"

definition inbox_of :: "agent_env \<Rightarrow> session_id \<Rightarrow> agent_world \<Rightarrow> inbox_state option" where
  "inbox_of E i w = projection_state_of (ae_inbox E) i (aw_store w)"

definition append_act :: "agent_env \<Rightarrow> nat \<Rightarrow> string \<Rightarrow> json \<Rightarrow> session_seq action" where
  "append_act E r ty data w =
     (case append_event r ty data (ae_clock E (aw_store w)) (aw_store w) of
        (Inl e, st) \<Rightarrow> Some (Inl (SessionFailed e), w\<lparr>aw_store := st\<rparr>)
      | (Inr sq, st) \<Rightarrow> Some (Inr sq, w\<lparr>aw_store := st\<rparr>))"

fun each :: "('a \<Rightarrow> 'b action) \<Rightarrow> 'a list \<Rightarrow> unit action" where
  "each f [] = give ()"
| "each f (x # xs) = and_then (f x) (\<lambda>_. each f xs)"

definition only_if :: "bool \<Rightarrow> unit action \<Rightarrow> unit action" where
  "only_if b m = (if b then m else give ())"

section \<open>Prompt and request\<close>

definition session_object :: "nat \<Rightarrow> agent_world \<Rightarrow> session" where
  "session_object r w = ss_objects (aw_store w) ! r"

definition id_of :: "nat \<Rightarrow> agent_world \<Rightarrow> session_id" where
  "id_of r w = sh_id (se_header (session_object r w))"

definition log_at :: "nat \<Rightarrow> agent_world \<Rightarrow> session_event list" where
  "log_at r w = se_log (session_object r w)"

definition assemble_prompt :: "agent_env \<Rightarrow> nat \<Rightarrow> drive_options \<Rightarrow> prompt_assembly action" where
  "assemble_prompt E r opts w =
     ae_assemble E (id_of r w) (dv_provider opts) (dv_model opts) (sh_cwd (se_header (session_object r w))) w"

text \<open>The call parameters: what the drive left unset is filled from the route.\<close>

definition effective_call :: "agent_env \<Rightarrow> drive_options \<Rightarrow> 64 word option \<times> 64 word option \<times> string" where
  "effective_call E opts =
     (case ae_model E (dv_provider opts) (dv_model opts) of
        None \<Rightarrow> (dv_max_tokens opts, dv_temperature opts, dv_effort opts)
      | Some m \<Rightarrow>
          (if dv_max_tokens opts = None \<and> mi_default_max_tokens m > 0 then Some (mi_default_max_tokens m) else dv_max_tokens opts,
           if dv_temperature opts = None \<and> mi_default_temperature m \<noteq> None then mi_default_temperature m else dv_temperature opts,
           case mi_default_effort m of
             Some e \<Rightarrow> (if dv_effort opts = [] then e else dv_effort opts) | None \<Rightarrow> dv_effort opts))"

definition build_header :: "agent_env \<Rightarrow> drive_options \<Rightarrow> prompt_assembly \<Rightarrow> json" where
  "build_header E opts p =
     (case effective_call E opts of (max_tokens, temperature, effort) \<Rightarrow>
        JObject ([(''provider'', JString (dv_provider opts)), (''model'', JString (dv_model opts))] @
          (if effort \<noteq> [] then [(''reasoning_effort'', JString effort)] else []) @
          (case max_tokens of None \<Rightarrow> [] | Some n \<Rightarrow> [(''max_tokens'', JUint n)]) @
          (case temperature of None \<Rightarrow> [] | Some x \<Rightarrow> [(''temperature'', JDouble x)]) @
          (if pa_tools p \<noteq> [] then [(''tools'', JArray (map (JString \<circ> pt_name) (pa_tools p)))] else [])))"

definition build_generate :: "agent_env \<Rightarrow> drive_options \<Rightarrow> nat \<Rightarrow> prompt_assembly \<Rightarrow> agent_world \<Rightarrow> generate_options" where
  "build_generate E opts r p w =
     (case effective_call E opts of (max_tokens, temperature, effort) \<Rightarrow>
        \<lparr>gn_provider = dv_provider opts, gn_model = dv_model opts, gn_effort = effort,
         gn_messages = map to_llm_message (sf_messages (se_surface (session_object r w))),
         gn_tools = pa_tools p, gn_temperature = temperature, gn_max_tokens = max_tokens,
         gn_stop = dv_stop opts, gn_session = id_of r w\<rparr>)"

text \<open>
  The system nodes of the agent loop on a surface, in order. \<open>rewrite_node\<close> replaces the one with a given
  sequence number, or removes it; \<open>append_prompt\<close> adds a node.
\<close>

definition prompt_nodes :: "session_surface \<Rightarrow> (session_seq \<times> string) list" where
  "prompt_nodes sf = List.map_filter (\<lambda>(m, q).
     if sm_role m = RoleSystem \<and> sm_source_plugin m = Some ''agent-loop'' then Some (q, message_text m) else None)
       (zip (sf_messages sf) (sf_source_seqs sf))"

definition append_prompt :: "agent_env \<Rightarrow> nat \<Rightarrow> string \<Rightarrow> unit action" where
  "append_prompt E r t w =
     and_then (append_act E r ''system/message'' (system_message_data (log_id ''s'' r (aw_store w)) ''agent-loop'' t))
       (\<lambda>_. give ()) w"

definition system_payload :: "string \<Rightarrow> string \<Rightarrow> json" where
  "system_payload i t = JObject [(''id'', JString i), (''role'', JString ''system''), (''content'', text_content t),
     (''source'', JObject [(''kind'', JString ''plugin''), (''plugin'', JString ''agent-loop'')])]"

definition rewrite_node :: "agent_env \<Rightarrow> nat \<Rightarrow> session_seq \<Rightarrow> string option \<Rightarrow> unit action" where
  "rewrite_node E r target t w =
     and_then (append_act E r ''surface/replace''
       (JObject ([(''start_seq'', JInt target), (''end_seq'', JInt (target + 1))] @
          (case t of None \<Rightarrow> [] | Some x \<Rightarrow> [(''message'', system_payload (log_id ''s'' r (aw_store w)) x)]))))
       (\<lambda>_. give ()) w"

definition commit_system_prompt :: "agent_env \<Rightarrow> nat \<Rightarrow> string \<Rightarrow> bool \<Rightarrow> bool \<Rightarrow> unit action" where
  "commit_system_prompt E r rendered in_history starts_series w =
     (let ns = prompt_nodes (se_surface (session_object r w))
      in (if ns = [] then only_if (rendered \<noteq> []) (append_prompt E r rendered)
          else if \<not> in_history \<or> starts_series \<or> rendered = []
          then and_then (each (\<lambda>n. rewrite_node E r (fst n) None) (tl ns)) (\<lambda>_.
                 if rendered = [] then rewrite_node E r (fst (hd ns)) None
                 else only_if (snd (hd ns) \<noteq> rendered) (rewrite_node E r (fst (hd ns)) (Some rendered)))
          else only_if (snd (last ns) \<noteq> rendered) (append_prompt E r rendered)) w)"

definition append_user_messages :: "agent_env \<Rightarrow> nat \<Rightarrow> json list \<Rightarrow> unit action" where
  "append_user_messages E r = each (append_act E r ''user/message'')"

definition last_data :: "string \<Rightarrow> session_event list \<Rightarrow> json option" where
  "last_data ty log = map_option ev_data (List.find (\<lambda>ev. ev_type ev = ty) (rev log))"

definition append_request_header :: "agent_env \<Rightarrow> nat \<Rightarrow> json \<Rightarrow> bool \<Rightarrow> unit action" where
  "append_request_header E r header starts_series w =
     (let prev = last_data ''request/header'' (log_at r w);
          changed = (case prev of None \<Rightarrow> True
            | Some v \<Rightarrow> 
                (case Option.bind (as_object v) (\<lambda>m. member m ''header'') of
                   None \<Rightarrow> True | Some h \<Rightarrow> \<not> json_equal h header))
      in only_if (changed \<or> starts_series)
           (and_then (append_act E r ''request/header''
              (if changed
               then JObject ([(''header'', header), (''reason'', JString (if prev \<noteq> None then ''change'' else ''initial''))] @
                 (if prev \<noteq> None \<and> starts_series then [(''startsSeries'', JBool True)] else []))
               else JObject [(''header'', header), (''reason'', JString ''series'')])) (\<lambda>_. give ())) w)"

definition request_context :: "agent_env \<Rightarrow> drive_options \<Rightarrow> bool \<Rightarrow> json" where
  "request_context E opts in_history =
     JObject ([(''provider'', JString (dv_provider opts)), (''model'', JString (dv_model opts))] @
       (case ae_model E (dv_provider opts) (dv_model opts) of
          None \<Rightarrow> []
        | Some m \<Rightarrow> if mi_context_window m > 0 then [(''contextWindow'', JUint (mi_context_window m))] else []) @
       (if in_history then [(''systemPromptUpdate'', JString ''in-history'')] else []))"

definition append_request_context :: "agent_env \<Rightarrow> nat \<Rightarrow> drive_options \<Rightarrow> bool \<Rightarrow> unit action" where
  "append_request_context E r opts in_history w =
     only_if (case last_data ''request/context'' (log_at r w) of
                None \<Rightarrow> True | Some v \<Rightarrow> \<not> json_equal v (request_context E opts in_history))
       (and_then (append_act E r ''request/context'' (request_context E opts in_history)) (\<lambda>_. give ())) w"

section \<open>The claim of pending messages\<close>

definition claim :: "agent_env \<Rightarrow> nat \<Rightarrow> nat \<Rightarrow> 64 word \<Rightarrow> inbox_target \<Rightarrow> 64 word \<Rightarrow> json list action" where
  "claim E d r turn t count w =
     (let i = as_session (driver d w)
      in case inbox_of E i w of
           None \<Rightarrow> give [] w
         | Some s \<Rightarrow>
             let mu = make_inbox_splice s t 0 count [] False
             in if im_noop mu then give [] w
                else and_then (append_act E r k_inbox_spliced_event (im_data mu)) (\<lambda>_.
                       and_then (change (fold (\<lambda>m. dispatch_notice (InboxClaimed i m turn)) (im_removed mu)))
                         (\<lambda>_. give (im_removed mu))) w)"

fun gather :: "('a \<Rightarrow> 'b option action) \<Rightarrow> 'a list \<Rightarrow> 'b list action" where
  "gather f [] = give []"
| "gather f (x # xs) =
     and_then (f x) (\<lambda>y. and_then (gather f xs) (\<lambda>ys. give (case y of None \<Rightarrow> ys | Some z \<Rightarrow> z # ys)))"

definition claim_pending :: "agent_env \<Rightarrow> nat \<Rightarrow> nat \<Rightarrow> 64 word \<Rightarrow> bool \<Rightarrow> json list action" where
  "claim_pending E d r turn first_step =
     and_then (\<lambda>w. case inbox_of E (as_session (driver d w)) w of
                 None \<Rightarrow> give [] w
               | Some s \<Rightarrow> claim E d r turn NextStep (of_nat (length (in_next_step s))) w) (\<lambda>xs.
     and_then (if first_step then claim E d r turn NextTurn 1 else give []) (\<lambda>ys. give (xs @ ys)))"

definition turn_context :: "agent_env \<Rightarrow> nat \<Rightarrow> nat \<Rightarrow> prompt_assembly \<Rightarrow> json list action" where
  "turn_context E d r p w =
     (let snapshot = (if pa_snapshot p = [] then []
            else [user_text_data (log_id ''c'' r (aw_store w)) (pa_snapshot p)]);
          opts = as_exec (driver d w)
      in and_then (gather (\<lambda>(i, f). ae_produce E f r (dv_provider opts) (dv_model opts) (sh_cwd (se_header (session_object r w))))
            (aw_producers w)) (\<lambda>ms. give (snapshot @ ms)) w)"

definition take_seed :: "nat \<Rightarrow> bool \<Rightarrow> json list action" where
  "take_seed d first_step w =
     (case as_seed (driver d w) of
        None \<Rightarrow> give [] w
      | Some m \<Rightarrow> if first_step then Some (Inr [m], set_driver d (\<lambda>s. s\<lparr>as_seed := None\<rparr>) w) else give [] w)"

definition pre_step ::
  "agent_env \<Rightarrow> nat \<Rightarrow> nat \<Rightarrow> 64 word \<Rightarrow> 64 word \<Rightarrow> bool \<Rightarrow> (pre_step_msg \<times> prompt_assembly) action" where
  "pre_step E d r turn step first_step =
     and_then (claim_pending E d r turn first_step) (\<lambda>claimed.
     and_then (\<lambda>w. assemble_prompt E r (as_exec (driver d w)) w) (\<lambda>p.
     and_then (if first_step then turn_context E d r p else give []) (\<lambda>context.
     and_then (take_seed d first_step) (\<lambda>seed.
     and_then (peek (\<lambda>w. \<lparr>ps_session = as_session (driver d w), ps_turn = turn, ps_step = step,
                 ps_stop = dv_stop (as_exec (driver d w)), ps_reject = False, ps_messages = context @ claimed @ seed,
                 ps_starts_series = False\<rparr>)) (\<lambda>msg.
     and_then (\<lambda>w. if aw_bus w then ae_pre_step E msg w else give msg w) (\<lambda>decision.
     give (decision, p)))))))"

section \<open>One step\<close>

partial_function (option) stream_attempts ::
  "agent_env \<Rightarrow> nat \<Rightarrow> nat \<Rightarrow> 64 word \<Rightarrow> 64 word \<Rightarrow> generate_options \<Rightarrow> 32 word \<Rightarrow> agent_world
     \<Rightarrow> ((agent_error + step_accumulator) \<times> agent_world) option" where
  "stream_attempts E d r turn step g attempt w =
     (case ae_stream E g w of
        None \<Rightarrow> None
      | Some (Inl e, w1) \<Rightarrow> Some (Inl e, w1)
      | Some (Inr cs, w1) \<Rightarrow>
          let a = accumulate cs; opts = as_exec (driver d w1)
          in if \<not> (sa_why a = FinishError \<and> sa_failure a \<noteq> None \<and> \<not> stop_requested d w1)
             then Some (Inr a, w1)
             else
               (case ae_request_error E
                       \<lparr>re_session = id_of r w1, re_turn = turn, re_step = step, re_provider = dv_provider opts,
                        re_model = dv_model opts, re_attempt = attempt, re_failure = the (sa_failure a),
                        re_stop = dv_stop opts, re_retry = False\<rparr> w1 of
                  None \<Rightarrow> None
                | Some (Inl e, w2) \<Rightarrow> Some (Inl e, w2)
                | Some (Inr m, w2) \<Rightarrow>
                    if \<not> re_retry m then Some (Inr a, w2)
                    else stream_attempts E d r turn step g (attempt + 1) w2))"

definition text_error :: "string \<Rightarrow> tool_result" where
  "text_error t = \<lparr>tl_content = text_content t, tl_is_error = True, tl_concludes = False\<rparr>"

definition what :: "agent_env \<Rightarrow> agent_error \<Rightarrow> string" where
  "what E e = (case e of SessionFailed x \<Rightarrow> ae_what E x | StdError s \<Rightarrow> s | OtherError \<Rightarrow> [])"

record tool_batch_outcome =
  tb_aborted :: bool
  tb_concluded :: bool

definition invoke_tool :: "agent_env \<Rightarrow> nat \<Rightarrow> nat \<Rightarrow> tool_call_block \<Rightarrow> tool_result action" where
  "invoke_tool E d r c =
     on_error
       (\<lambda>w. and_then (ae_invoke E
            \<lparr>tx_call_id = tc_id c, tx_name = tc_name c, tx_session = id_of r w,
             tx_arguments = (case ae_parse E (tc_arguments c) of None \<Rightarrow> JString (tc_arguments c) | Some v \<Rightarrow> v),
             tx_stop = dv_stop (as_exec (driver d w))\<rparr>)
          (\<lambda>x. give (case x of Some res \<Rightarrow> res | None \<Rightarrow> text_error (''Error: unknown tool '' @ [CHR 0x27] @ tc_name c @ [CHR 0x27]))) w)
       (\<lambda>e. if e = OtherError then throw OtherError else give (text_error (''Error: '' @ what E e)))"

definition run_tool :: "agent_env \<Rightarrow> nat \<Rightarrow> nat \<Rightarrow> tool_call_block \<Rightarrow> tool_batch_outcome
     \<Rightarrow> (tool_result \<times> tool_batch_outcome) action" where
  "run_tool E d r c out w =
     (if tb_aborted out \<or> stop_requested d w
      then give (text_error ''Error: tool call aborted before dispatch'', out\<lparr>tb_aborted := True\<rparr>) w
      else and_then (invoke_tool E d r c) (\<lambda>res. give (res, out)) w)"

definition execute_tool :: "agent_env \<Rightarrow> nat \<Rightarrow> nat \<Rightarrow> 64 word \<Rightarrow> 64 word \<Rightarrow> tool_call_block \<Rightarrow> tool_batch_outcome
     \<Rightarrow> tool_batch_outcome action" where
  "execute_tool E d r turn step c out =
     and_then (append_act E r ''tool/call'' (tool_call_data turn step c)) (\<lambda>_.
     and_then (change (emit_event d (ToolCallEvent turn step (tc_id c) (tc_name c)))) (\<lambda>_.
     and_then (run_tool E d r c out) (\<lambda>(res, out).
     and_then (\<lambda>w. append_act E r ''tool/result''
          (tool_result_data (log_id ''t'' r (aw_store w)) (tc_id c) (tl_content res) (tl_is_error res)) w) (\<lambda>_.
     and_then (change (emit_event d (ToolDoneEvent turn step (tc_id c) (tc_name c) (tl_is_error res)))) (\<lambda>_.
     give (if tl_concludes res then out\<lparr>tb_concluded := True\<rparr> else out))))))"

fun execute_tools :: "agent_env \<Rightarrow> nat \<Rightarrow> nat \<Rightarrow> 64 word \<Rightarrow> 64 word \<Rightarrow> tool_call_block list \<Rightarrow> tool_batch_outcome
     \<Rightarrow> tool_batch_outcome action" where
  "execute_tools E d r turn step [] out = give out"
| "execute_tools E d r turn step (c # cs) out =
     and_then (execute_tool E d r turn step c out) (execute_tools E d r turn step cs)"

definition in_history_route :: "agent_env \<Rightarrow> drive_options \<Rightarrow> bool" where
  "in_history_route E opts =
     (case ae_model E (dv_provider opts) (dv_model opts) of
        None \<Rightarrow> False | Some m \<Rightarrow> mi_prompt_update m = Some ''in-history'')"

text \<open>The part of a step before the stream: the prompt, the messages, the request, in that order.\<close>

definition prepare_request :: "agent_env \<Rightarrow> nat \<Rightarrow> nat \<Rightarrow> prompt_assembly \<Rightarrow> json list \<Rightarrow> bool \<Rightarrow> unit action" where
  "prepare_request E d r p messages starts_request_series w =
     (let opts = as_exec (driver d w);
          in_history = in_history_route E opts;
          tool_names = map pt_name (pa_tools p);
          starts_series = (starts_request_series \<or> as_last_tools (driver d w) \<noteq> tool_names \<or>
             as_generation (driver d w) \<noteq> sf_generation (se_surface (session_object r w)))
      in and_then (commit_system_prompt E r (pa_rendered p) in_history starts_series) (\<lambda>_.
         and_then (append_user_messages E r messages) (\<lambda>_.
         and_then (append_request_header E r (build_header E opts p) starts_series) (\<lambda>_.
         and_then (append_request_context E r opts in_history) (\<lambda>_.
         change (\<lambda>w. set_driver d (\<lambda>s. s\<lparr>as_last_tools := tool_names,
                   as_generation := sf_generation (se_surface (session_object r w))\<rparr>) w))))) w)"

definition commit_act :: "agent_env \<Rightarrow> nat \<Rightarrow> 64 word \<Rightarrow> 64 word \<Rightarrow> step_accumulator \<Rightarrow> step_commit action" where
  "commit_act E r turn step a w =
     (case commit_model_outcome r turn step a (ae_max_tokens_as_success E) (ae_clock E (aw_store w)) (aw_store w) of
        (Inl e, st) \<Rightarrow> Some (Inl (SessionFailed e), w\<lparr>aw_store := st\<rparr>)
      | (Inr sc, st) \<Rightarrow> Some (Inr sc, w\<lparr>aw_store := st\<rparr>))"

definition set_outcome :: "nat \<Rightarrow> (run_outcome \<Rightarrow> run_outcome) \<Rightarrow> agent_world \<Rightarrow> agent_world" where
  "set_outcome d f = set_driver d (\<lambda>s. s\<lparr>as_outcome := f (as_outcome s)\<rparr>)"

definition finish_step ::
  "agent_env \<Rightarrow> nat \<Rightarrow> nat \<Rightarrow> 64 word \<Rightarrow> 64 word \<Rightarrow> step_accumulator \<Rightarrow> step_commit \<Rightarrow> run_status option action" where
  "finish_step E d r turn step a sc =
     (case sc_terminal sc of
        Some t \<Rightarrow>
          and_then (change (if t = Failed then set_outcome d (\<lambda>x. x\<lparr>ro_failure := sa_failure a\<rparr>) else id))
            (\<lambda>_. give (Some t))
      | None \<Rightarrow>
          let calls = tool_calls_of (sc_blocks sc)
          in if calls = [] then give (Some Completed)
             else and_then (execute_tools E d r turn step calls \<lparr>tb_aborted = False, tb_concluded = False\<rparr>) (\<lambda>out.
               give (if tb_aborted out then Some Aborted else if tb_concluded out then Some Completed else None)))"

definition run_step ::
  "agent_env \<Rightarrow> nat \<Rightarrow> nat \<Rightarrow> 64 word \<Rightarrow> 64 word \<Rightarrow> prompt_assembly \<Rightarrow> json list \<Rightarrow> bool \<Rightarrow> run_status option action" where
  "run_step E d r turn step p messages starts_request_series =
     and_then (prepare_request E d r p messages starts_request_series) (\<lambda>_.
     and_then (\<lambda>w. stream_attempts E d r turn step (build_generate E (as_exec (driver d w)) r p w) 0 w) (\<lambda>a.
     and_then (commit_act E r turn step a) (finish_step E d r turn step a)))"

section \<open>A turn\<close>

definition boundary_data :: "64 word \<Rightarrow> 64 word \<Rightarrow> json" where
  "boundary_data turn step = JObject [(''turn'', JUint turn), (''step'', JUint step)]"

text \<open>One round of the turn's loop: \<open>Inl\<close> ends the loop with its status, \<open>Inr\<close> goes on with the next round.\<close>

type_synonym round_result = "run_status option + run_status option"

definition bracketed_step ::
  "agent_env \<Rightarrow> nat \<Rightarrow> nat \<Rightarrow> 64 word \<Rightarrow> 64 word \<Rightarrow> prompt_assembly \<Rightarrow> pre_step_msg \<Rightarrow> run_status option action" where
  "bracketed_step E d r turn step p decision =
     and_then (change (emit_event d (StepEvent turn step))) (\<lambda>_.
     and_then (append_act E r ''step/start'' (boundary_data turn step)) (\<lambda>_.
     and_then (on_error (run_step E d r turn step p (ps_messages decision) (ps_starts_series decision))
                (\<lambda>e. and_then (append_act E r ''step/end'' (boundary_data turn step)) (\<lambda>_. throw e))) (\<lambda>exit.
     and_then (append_act E r ''step/end'' (boundary_data turn step)) (\<lambda>_. give exit))))"

definition next_step_pending :: "agent_env \<Rightarrow> nat \<Rightarrow> agent_world \<Rightarrow> bool" where
  "next_step_pending E d w =
     (case inbox_of E (as_session (driver d w)) w of None \<Rightarrow> False | Some s \<Rightarrow> in_next_step s \<noteq> [])"

text \<open>The end of a round; \<open>turn-stopping\<close> is dispatched where the turn is about to close.\<close>

definition close_round :: "agent_env \<Rightarrow> nat \<Rightarrow> 64 word \<Rightarrow> run_status option \<Rightarrow> round_result action" where
  "close_round E d turn ended w =
     (if ended \<noteq> None \<and> \<not> next_step_pending E d w
      then and_then (\<lambda>w. if aw_bus w
               then ae_stopping E (as_session (driver d w)) turn (dv_stop (as_exec (driver d w))) w else give () w) (\<lambda>_.
           peek (\<lambda>w. if next_step_pending E d w then Inr ended else Inl ended)) w
      else give (Inr ended) w)"

definition turn_round ::
  "agent_env \<Rightarrow> nat \<Rightarrow> nat \<Rightarrow> 64 word \<Rightarrow> 64 word \<Rightarrow> bool \<Rightarrow> run_status option \<Rightarrow> round_result action" where
  "turn_round E d r turn step first_step ended =
     and_then (pre_step E d r turn step first_step) (\<lambda>(decision, p).
       if ps_reject decision then give (Inl (Some Blocked))
       else if ended \<noteq> None \<and> ps_messages decision = [] then give (Inl ended)
       else if first_step \<and> ps_messages decision = [] then give (Inl (Some Completed))
       else and_then (bracketed_step E d r turn step p decision) (\<lambda>exit.
              close_round E d turn (if exit \<noteq> None \<and> ended \<noteq> Some MaxTokens then exit else ended)))"

definition max_steps_of :: "nat \<Rightarrow> agent_world \<Rightarrow> 32 word" where
  "max_steps_of d w = dv_max_steps (as_exec (driver d w))"

lemma step_in_range: "\<not> step \<ge> (ucast (m :: 32 word) :: 64 word) \<Longrightarrow> unat (step + 1) = Suc (unat step) \<and> unat step < 2 ^ 32"
proof -
  assume "\<not> step \<ge> (ucast m :: 64 word)"
  then have "unat step < unat (ucast m :: 64 word)" by (simp add: word_less_nat_alt not_le)
  moreover have "unat (ucast m :: 64 word) < 2 ^ 32"
    using le_less_trans [OF take_bit_nat_less_eq_self unsigned_less [where 'a = nat, of m]] by (simp add: unsigned_ucast_eq)
  ultimately show ?thesis by (simp add: unat_word_ariths)
qed

function turn_loop ::
  "agent_env \<Rightarrow> nat \<Rightarrow> nat \<Rightarrow> 64 word \<Rightarrow> 64 word \<Rightarrow> bool \<Rightarrow> run_status option \<Rightarrow> agent_world
     \<Rightarrow> ((agent_error + run_status option) \<times> agent_world) option" where
  "turn_loop E d r turn step first_step ended w =
     (if stop_requested d w then Some (Inr (Some Aborted), w)
      else if step \<ge> ucast (max_steps_of d w) then Some (Inr (Some Blocked), w)
      else
        (case turn_round E d r turn (step + 1) first_step ended w of
           None \<Rightarrow> None
         | Some (Inl e, w') \<Rightarrow> Some (Inl e, w')
         | Some (Inr (Inl status), w') \<Rightarrow> Some (Inr status, w')
         | Some (Inr (Inr ended'), w') \<Rightarrow> turn_loop E d r turn (step + 1) False ended' w'))"
  by pat_completeness auto

termination
  by (relation "measure (\<lambda>(E, d, r, turn, step, first_step, ended, w). 2 ^ 32 - unat step)") (auto dest: step_in_range)

declare turn_loop.simps [simp del]

text \<open>
  \<open>turn\<close>: whatever the loop does, the turn is closed in the log. The result says whether the drive goes on.
\<close>

definition turn_start_data :: "64 word \<Rightarrow> json" where
  "turn_start_data turn = JObject [(''turn'', JUint turn)]"

definition fail_turn :: "agent_env \<Rightarrow> nat \<Rightarrow> nat \<Rightarrow> 64 word \<Rightarrow> agent_error \<Rightarrow> 'a action" where
  "fail_turn E d r turn e =
     and_then (\<lambda>w. append_act E r ''turn/end'' (turn_end_data turn Failed (ro_failure (as_outcome (driver d w)))) w) (\<lambda>_.
     and_then (change (emit_event d (RunFinishEvent turn Failed))) (\<lambda>_. throw e))"

definition has_pending :: "inbox_state \<Rightarrow> bool" where
  "has_pending s \<longleftrightarrow> in_next_turn s \<noteq> [] \<or> in_next_step s \<noteq> []"

definition input_pending :: "agent_env \<Rightarrow> nat \<Rightarrow> agent_world \<Rightarrow> bool" where
  "input_pending E d w = (case inbox_of E (as_session (driver d w)) w of None \<Rightarrow> False | Some s \<Rightarrow> has_pending s)"

definition close_turn :: "agent_env \<Rightarrow> nat \<Rightarrow> nat \<Rightarrow> 64 word \<Rightarrow> run_status option \<Rightarrow> bool action" where
  "close_turn E d r turn ended =
     (let status = (case ended of None \<Rightarrow> Completed | Some s \<Rightarrow> s)
      in and_then (\<lambda>w. append_act E r ''turn/end'' (turn_end_data turn status (ro_failure (as_outcome (driver d w)))) w) (\<lambda>_.
         and_then (change (set_outcome d (\<lambda>x. x\<lparr>ro_status := status\<rparr>))) (\<lambda>_.
         and_then (change (emit_event d (RunFinishEvent turn status))) (\<lambda>_.
         peek (\<lambda>w. \<not> stop_requested d w \<and> input_pending E d w)))))"

definition open_turn :: "agent_env \<Rightarrow> nat \<Rightarrow> nat \<Rightarrow> 64 word \<Rightarrow> session_seq action" where
  "open_turn E d r turn =
     and_then (change (set_outcome d (\<lambda>x. x\<lparr>ro_turn := turn\<rparr>))) (\<lambda>_.
     and_then (change (emit_event d (TurnEvent turn))) (\<lambda>_.
     append_act E r ''turn/start'' (turn_start_data turn)))"

definition run_turn :: "agent_env \<Rightarrow> nat \<Rightarrow> bool action" where
  "run_turn E d w =
     (case get_session (as_session (driver d w)) (aw_store w) of
        None \<Rightarrow> give False w
      | Some r \<Rightarrow>
          let turn = next_turn (log_at r w)
          in and_then (open_turn E d r turn) (\<lambda>_.
             and_then (on_error (turn_loop E d r turn 0 True None) (fail_turn E d r turn)) (close_turn E d r turn)) w)"

text \<open>\<open>drive\<close>: turns, until one is the last or a stop is requested.\<close>

partial_function (option) drive ::
  "agent_env \<Rightarrow> nat \<Rightarrow> agent_world \<Rightarrow> ((agent_error + unit) \<times> agent_world) option" where
  "drive E d w =
     (if stop_requested d w then Some (Inr (), w)
      else
        (case run_turn E d w of
           None \<Rightarrow> None
         | Some (Inl e, w') \<Rightarrow> Some (Inl e, w')
         | Some (Inr again, w') \<Rightarrow> if again then drive E d w' else Some (Inr (), w')))"

end
