(* ===== verification/AgentControl.thy ===== *)
theory AgentControl
  imports AgentTurn
begin

text \<open>
  The controller of the agent loop (\<open>agent_service\<close> in \<open>plugins/agent-loop/src/agent.cpp\<close>): the registry of
  drivers, the waking of a drive and its end, the queueing of input, cancellation and waiting. A spawned
  drive is entered in \<open>aw_drives\<close>; \<open>on_drive_done\<close> is its completion handler. A waiter is a name, and
  resuming it runs it (\<open>ae_resume\<close>). Awaited dispatches of lifecycle events are environment actions.
\<close>

section \<open>The registry of drivers\<close>

definition find_state :: "session_id \<Rightarrow> agent_world \<Rightarrow> nat option" where
  "find_state i w = map_of (aw_states w) i"

definition require_state :: "session_id \<Rightarrow> nat action" where
  "require_state i w =
     (case find_state i w of
        None \<Rightarrow> throw (StdError (''agent: no driver for session '' @ [CHR 0x27] @ i @ [CHR 0x27])) w
      | Some d \<Rightarrow> give d w)"

definition no_options :: drive_options where
  "no_options = \<lparr>dv_provider = [], dv_model = [], dv_effort = [], dv_temperature = None, dv_max_tokens = None,
     dv_max_steps = 16, dv_stop = None, dv_on_event = None, dv_on_chunk = None\<rparr>"

definition no_outcome :: run_outcome where
  "no_outcome = \<lparr>ro_status = Completed, ro_failure = None, ro_turn = 0\<rparr>"

definition new_driver :: "session_id \<Rightarrow> agent_state" where
  "new_driver i = \<lparr>as_session = i, as_running = False, as_abort = None, as_wake = False, as_exec = no_options,
     as_seed = None, as_caller_stop = None, as_bridge = None, as_waiters = [], as_outcome = no_outcome,
     as_last_tools = [], as_generation = 0\<rparr>"

definition lifecycle_source :: "session \<Rightarrow> json" where
  "lifecycle_source s =
     JObject [(''kind'', JString (if sh_is_seeded (se_header s) then ''resume'' else ''startup''))]"

definition ensure_driver :: "agent_env \<Rightarrow> nat \<Rightarrow> json \<Rightarrow> unit action" where
  "ensure_driver E r source w =
     (let i = id_of r w
      in if map_of (aw_states w) i \<noteq> None then give () w
         else
           let w = w\<lparr>aw_drivers := aw_drivers w @ [new_driver i],
                     aw_states := om_emplace i (length (aw_drivers w)) (aw_states w)\<rparr>
           in if \<not> aw_bus w then give () w
              else on_error (and_then (change (tell (AgentCreated i source))) (\<lambda>_. ae_created E i))
                     (\<lambda>e. and_then (change (\<lambda>w. w\<lparr>aw_states := om_erase i (aw_states w)\<rparr>)) (\<lambda>_. throw e)) w)"

definition resume_waiters :: "agent_env \<Rightarrow> nat \<Rightarrow> agent_world \<Rightarrow> agent_world" where
  "resume_waiters E d w =
     fold (ae_resume E) (as_waiters (driver d w)) (set_driver d (\<lambda>s. s\<lparr>as_waiters := []\<rparr>) w)"

text \<open>\<open>request_stop\<close> of a source, with the callbacks that bridge it to the sources of running drives.\<close>

definition request_stop :: "nat \<Rightarrow> agent_world \<Rightarrow> agent_world" where
  "request_stop i w =
     w\<lparr>aw_stops := fold (\<lambda>s stops. case as_bridge s of
            Some (from_stop, to) \<Rightarrow> (if from_stop = i then stops[to := True] else stops) | None \<Rightarrow> stops)
          (aw_drivers w) ((aw_stops w)[i := True])\<rparr>"

definition abort_drive :: "nat \<Rightarrow> agent_world \<Rightarrow> agent_world" where
  "abort_drive d w =
     (case as_abort (driver d w) of
        Some i \<Rightarrow> (if as_running (driver d w) then request_stop i w else w) | None \<Rightarrow> w)"

definition dispose_driver :: "agent_env \<Rightarrow> session_id \<Rightarrow> unit action" where
  "dispose_driver E i w =
     (case map_of (aw_states w) i of
        None \<Rightarrow> give () w
      | Some d \<Rightarrow>
          let w = resume_waiters E d (abort_drive d (w\<lparr>aw_states := om_erase i (aw_states w)\<rparr>))
          in if aw_bus w then and_then (change (tell (AgentDisposed i))) (\<lambda>_. ae_disposed E i) w else give () w)"

definition shutdown_agents :: "agent_env \<Rightarrow> agent_world \<Rightarrow> agent_world" where
  "shutdown_agents E w =
     (fold (\<lambda>(i, d) w. resume_waiters E d (abort_drive d w)) (aw_states w) w)\<lparr>aw_states := []\<rparr>"

section \<open>Waking and ending a drive\<close>

definition emit_status :: "nat \<Rightarrow> bool \<Rightarrow> agent_world \<Rightarrow> agent_world" where
  "emit_status d running w =
     (if as_running (driver d w) = running then w
      else dispatch_notice (AgentStatus (as_session (driver d w)) running)
             (set_driver d (\<lambda>s. s\<lparr>as_running := running\<rparr>) w))"

definition pick :: "json_object \<Rightarrow> string \<Rightarrow> string" where
  "pick header k = (case member header k of Some (JString s) \<Rightarrow> s | _ \<Rightarrow> [])"

definition logged_header :: "session_event \<Rightarrow> json_object option" where
  "logged_header ev =
     (if ev_type ev \<noteq> ''request/header'' then None
      else Option.bind (as_object (ev_data ev)) (\<lambda>m. get_object m ''header''))"

definition inherit_route :: "json_object \<Rightarrow> drive_options \<Rightarrow> drive_options" where
  "inherit_route h x =
     x\<lparr>dv_provider := (if dv_provider x = [] then pick h ''provider'' else dv_provider x),
       dv_model := (if dv_model x = [] then pick h ''model'' else dv_model x),
       dv_effort := (if dv_effort x = [] then pick h ''reasoning_effort'' else dv_effort x)\<rparr>"

definition resolve_route :: "nat \<Rightarrow> nat \<Rightarrow> agent_world \<Rightarrow> agent_world" where
  "resolve_route d r w =
     (if dv_provider (as_exec (driver d w)) \<noteq> [] \<and> dv_model (as_exec (driver d w)) \<noteq> [] then w
      else (case List.map_filter logged_header (rev (log_at r w)) of
              [] \<Rightarrow> w
            | h # _ \<Rightarrow> set_driver d (\<lambda>s. s\<lparr>as_exec := inherit_route h (as_exec s)\<rparr>) w))"

definition merge_options :: "drive_options \<Rightarrow> drive_options \<Rightarrow> drive_options" where
  "merge_options opts x =
     x\<lparr>dv_provider := (if dv_provider opts \<noteq> [] then dv_provider opts else dv_provider x),
       dv_model := (if dv_model opts \<noteq> [] then dv_model opts else dv_model x),
       dv_effort := (if dv_effort opts \<noteq> [] then dv_effort opts else dv_effort x),
       dv_temperature := (if dv_temperature opts \<noteq> None then dv_temperature opts else dv_temperature x),
       dv_max_tokens := (if dv_max_tokens opts \<noteq> None then dv_max_tokens opts else dv_max_tokens x),
       dv_max_steps := dv_max_steps opts,
       dv_on_event := (if dv_on_event opts \<noteq> None then dv_on_event opts else dv_on_event x),
       dv_on_chunk := (if dv_on_chunk opts \<noteq> None then dv_on_chunk opts else dv_on_chunk x)\<rparr>"

definition merge_exec :: "nat \<Rightarrow> drive_options \<Rightarrow> agent_world \<Rightarrow> agent_world" where
  "merge_exec d opts =
     set_driver d (\<lambda>s. s\<lparr>as_exec := merge_options opts (as_exec s),
       as_caller_stop := (if dv_stop opts \<noteq> None then dv_stop opts else as_caller_stop s)\<rparr>)"

definition enqueue :: "agent_env \<Rightarrow> nat \<Rightarrow> inbox_target \<Rightarrow> json \<Rightarrow> unit action" where
  "enqueue E d t m w =
     (let i = as_session (driver d w)
      in case get_session i (aw_store w) of
           None \<Rightarrow> throw (StdError (''agent: no entered session '' @ [CHR 0x27] @ i @ [CHR 0x27])) w
         | Some r \<Rightarrow>
             (case inbox_of E i w of
                None \<Rightarrow> throw (StdError (''agent: session '' @ [CHR 0x27] @ i @ [CHR 0x27] @ '' has no inbox projection'')) w
              | Some s \<Rightarrow>
                  let mu = make_inbox_splice s t int64_max 0 [m] False
                  in if im_noop mu then give () w
                     else and_then (append_act E r k_inbox_spliced_event (im_data mu))
                            (\<lambda>_. change (dispatch_notice (InboxInserted i m))) w))"

definition clear_queue :: "agent_env \<Rightarrow> nat \<Rightarrow> nat \<Rightarrow> inbox_target \<Rightarrow> unit action" where
  "clear_queue E d r t w =
     (let i = as_session (driver d w)
      in case inbox_of E i w of
           None \<Rightarrow> give () w
         | Some s \<Rightarrow>
             if inbox_queue t s = [] then give () w
             else
               let mu = make_inbox_splice s t 0 (of_nat (length (inbox_queue t s))) [] True
               in if im_noop mu then give () w
                  else and_then (append_act E r k_inbox_spliced_event (im_data mu))
                         (\<lambda>_. change (fold (\<lambda>m. dispatch_notice (InboxDiscarded i m)) (im_removed mu))) w)"

definition clear_inbox :: "agent_env \<Rightarrow> nat \<Rightarrow> unit action" where
  "clear_inbox E d w =
     (case get_session (as_session (driver d w)) (aw_store w) of
        None \<Rightarrow> give () w
      | Some r \<Rightarrow> each (clear_queue E d r) [NextStep, NextTurn] w)"

definition bridge_stop :: "nat \<Rightarrow> agent_world \<Rightarrow> agent_world" where
  "bridge_stop d w =
     (case as_caller_stop (driver d w) of
        None \<Rightarrow> set_driver d (\<lambda>s. s\<lparr>as_bridge := None\<rparr>) w
      | Some c \<Rightarrow>
          let n = the (as_abort (driver d w));
              w = set_driver d (\<lambda>s. s\<lparr>as_bridge := Some (c, n)\<rparr>) w
          in if token_stopped (Some c) w then request_stop n w else w)"

definition kick :: "agent_env \<Rightarrow> nat \<Rightarrow> agent_world \<Rightarrow> agent_world" where
  "kick E d w =
     (if as_running (driver d w) then w
      else (case get_session (as_session (driver d w)) (aw_store w) of
              None \<Rightarrow> w
            | Some r \<Rightarrow>
                let w = resolve_route d r w;
                    n = length (aw_stops w);
                    w = set_driver d (\<lambda>s. s\<lparr>as_abort := Some n\<rparr>) (w\<lparr>aw_stops := aw_stops w @ [False]\<rparr>);
                    w = bridge_stop d w;
                    w = set_driver d (\<lambda>s. s\<lparr>as_exec := (as_exec s)\<lparr>dv_stop := Some n\<rparr>\<rparr>) w;
                    w = emit_status d True w
                in w\<lparr>aw_drives := aw_drives w @ [d]\<rparr>))"

definition server_failure :: "string \<Rightarrow> llm_failure" where
  "server_failure m = \<lparr>lf_code = Server, lf_message = m, lf_provider_code = [], lf_status = 0, lf_retry_after = None,
     lf_request_id = []\<rparr>"

definition drive_failure :: "agent_env \<Rightarrow> agent_error \<Rightarrow> llm_failure" where
  "drive_failure E e = server_failure (if e = OtherError then ''agent: unknown failure'' else what E e)"

definition on_drive_done :: "agent_env \<Rightarrow> nat \<Rightarrow> agent_error option \<Rightarrow> agent_world \<Rightarrow> agent_world" where
  "on_drive_done E d thrown w =
     (let w = (case thrown of
                 None \<Rightarrow> w
               | Some e \<Rightarrow> set_outcome d (\<lambda>x. x\<lparr>ro_status := Failed, ro_failure := Some (drive_failure E e)\<rparr>) w);
          w = set_driver d (\<lambda>s. s\<lparr>as_bridge := None, as_caller_stop := None,
                as_exec := (as_exec s)\<lparr>dv_on_event := None, dv_on_chunk := None\<rparr>\<rparr>) w;
          w = resume_waiters E d (emit_status d False w)
      in if as_wake (driver d w)
         then (let w = set_driver d (\<lambda>s. s\<lparr>as_wake := False\<rparr>) w
               in if input_pending E d w then kick E d w else w)
         else w)"

text \<open>A spawned drive from its start to its completion handler.\<close>

definition run_drive :: "agent_env \<Rightarrow> nat \<Rightarrow> agent_world \<Rightarrow> agent_world option" where
  "run_drive E d w =
     (case drive E d (w\<lparr>aw_drives := remove1 d (aw_drives w)\<rparr>) of
        None \<Rightarrow> None
      | Some (Inl e, w') \<Rightarrow> Some (on_drive_done E d (Some e) w')
      | Some (Inr _, w') \<Rightarrow> Some (on_drive_done E d None w'))"

section \<open>The public operations\<close>

record run_options =
  rn_provider :: string
  rn_model :: string
  rn_effort :: string
  rn_temperature :: "64 word option"
  rn_max_tokens :: "64 word option"
  rn_session :: session_id
  rn_input :: string
  rn_max_steps :: "32 word"
  rn_stop :: stop_token

definition run_exec :: "run_options \<Rightarrow> nat option \<Rightarrow> nat option \<Rightarrow> drive_options" where
  "run_exec opts sink on_chunk =
     \<lparr>dv_provider = rn_provider opts, dv_model = rn_model opts, dv_effort = rn_effort opts,
      dv_temperature = rn_temperature opts, dv_max_tokens = rn_max_tokens opts, dv_max_steps = rn_max_steps opts,
      dv_stop = rn_stop opts, dv_on_event = sink, dv_on_chunk = on_chunk\<rparr>"

definition ensure_ready :: "agent_env \<Rightarrow> session_id \<Rightarrow> nat action" where
  "ensure_ready E i w =
     (case get_session i (aw_store w) of
        None \<Rightarrow> throw (StdError (''agent: no entered session '' @ [CHR 0x27] @ i @ [CHR 0x27])) w
      | Some r \<Rightarrow>
          and_then (ensure_driver E r (lifecycle_source (session_object r w))) (\<lambda>_. require_state i) w)"

text \<open>\<open>run\<close> up to its wait for the drive, whose result is \<open>last_outcome\<close> then.\<close>

definition start_run :: "agent_env \<Rightarrow> run_options \<Rightarrow> nat option \<Rightarrow> nat option \<Rightarrow> unit action" where
  "start_run E opts sink on_chunk w0 =
     (case get_session (rn_session opts) (aw_store w0) of
        None \<Rightarrow> throw (StdError (''agent: no entered session '' @ [CHR 0x27] @ rn_session opts @ [CHR 0x27])) w0
      | Some r \<Rightarrow>
          and_then (ensure_driver E r (lifecycle_source (session_object r w0))) (\<lambda>_.
          and_then (require_state (rn_session opts)) (\<lambda>d.
          and_then (change (merge_exec d (run_exec opts sink on_chunk))) (\<lambda>_ w.
            let input = user_text_data (log_id ''u'' r (aw_store w)) (rn_input opts)
            in if rn_input opts = [] then change (kick E d) w
               else if as_running (driver d w)
               then and_then (change (merge_exec d (run_exec opts sink on_chunk))) (\<lambda>_.
                    and_then (enqueue E d NextTurn input) (\<lambda>_.
                    change (set_driver d (\<lambda>s. s\<lparr>as_wake := True\<rparr>)))) w
               else change (\<lambda>w. kick E d (set_driver d (\<lambda>s. s\<lparr>as_seed := Some input\<rparr>) w)) w))) w0)"

definition followup :: "agent_env \<Rightarrow> session_id \<Rightarrow> json \<Rightarrow> drive_options \<Rightarrow> unit action" where
  "followup E i m opts =
     and_then (ensure_ready E i) (\<lambda>d.
     and_then (change (merge_exec d opts)) (\<lambda>_.
     and_then (enqueue E d NextTurn m) (\<lambda>_. change (kick E d))))"

definition steer :: "agent_env \<Rightarrow> session_id \<Rightarrow> json \<Rightarrow> drive_options \<Rightarrow> unit action" where
  "steer E i m opts =
     and_then (ensure_ready E i) (\<lambda>d.
     and_then (change (merge_exec d opts)) (\<lambda>_.
     and_then (enqueue E d NextStep m) (\<lambda>_. change (kick E d))))"

definition inject :: "agent_env \<Rightarrow> session_id \<Rightarrow> json \<Rightarrow> unit action" where
  "inject E i m = and_then (ensure_ready E i) (\<lambda>d. enqueue E d NextStep m)"

text \<open>A context producer is entered under a fresh id; its registration removes that id.\<close>

definition add_context_producer :: "string \<Rightarrow> nat option \<Rightarrow> nat action" where
  "add_context_producer name produce w =
     (if name = [] then throw (StdError ''agent: context producer name must not be empty'') w
      else (case produce of
              None \<Rightarrow> throw (StdError (''agent: context producer '' @ [CHR 0x27] @ name @ [CHR 0x27] @ '' has no renderer'')) w
            | Some f \<Rightarrow> give (aw_next_producer w)
                (w\<lparr>aw_producers := aw_producers w @ [(aw_next_producer w, f)],
                   aw_next_producer := aw_next_producer w + 1\<rparr>)))"

definition remove_producer :: "nat \<Rightarrow> agent_world \<Rightarrow> agent_world" where
  "remove_producer p w = w\<lparr>aw_producers := filter (\<lambda>e. fst e \<noteq> p) (aw_producers w)\<rparr>"

definition cancel :: "agent_env \<Rightarrow> session_id \<Rightarrow> bool \<Rightarrow> unit action" where
  "cancel E i keep_inbox w =
     (case find_state i w of
        None \<Rightarrow> give () w
      | Some d \<Rightarrow>
          and_then (if keep_inbox then give () else clear_inbox E d) (\<lambda>_. change (abort_drive d)) w)"

definition status_of :: "session_id \<Rightarrow> agent_world \<Rightarrow> bool" where
  "status_of i w = (case find_state i w of None \<Rightarrow> False | Some d \<Rightarrow> as_running (driver d w))"

definition live :: "session_id \<Rightarrow> agent_world \<Rightarrow> bool" where
  "live i w \<longleftrightarrow> find_state i w \<noteq> None"

text \<open>One round of \<open>when_idle\<close>: whether it is over; if not, the caller waits under a name until it is resumed.\<close>

definition when_idle :: "session_id \<Rightarrow> nat \<Rightarrow> agent_world \<Rightarrow> bool \<times> agent_world" where
  "when_idle i waiter w =
     (case find_state i w of
        None \<Rightarrow> (True, w)
      | Some d \<Rightarrow>
          if as_running (driver d w)
          then (False, set_driver d (\<lambda>s. s\<lparr>as_waiters := as_waiters s @ [waiter]\<rparr>) w)
          else (True, w))"

definition roots :: "agent_world \<Rightarrow> session_id list" where
  "roots w = filter (\<lambda>i. case get_session i (aw_store w) of
       None \<Rightarrow> False | Some r \<Rightarrow> sh_delegation_depth (se_header (session_object r w)) = 0) (list_sessions (aw_store w))"

definition last_outcome :: "session_id \<Rightarrow> agent_world \<Rightarrow> run_outcome" where
  "last_outcome i w = (case find_state i w of None \<Rightarrow> no_outcome | Some d \<Rightarrow> as_outcome (driver d w))"

end
