(* ===== verification/AgentLaws.thy ===== *)
theory AgentLaws
  imports AgentControl
begin

text \<open>
  Reasoning about actions. An order on worlds that the environment and the primitive steps respect is
  respected by whole rounds of a turn: that is the interface \<open>quiet_order\<close>, interpreted below for what a
  step leaves alone in a log. A \<open>view\<close> picks the events of interest; \<open>adds\<close> says which of them an action
  appends, \<open>quiet\<close> that there are none.
\<close>

section \<open>Outcomes of combinators\<close>

lemma give_Some [simp]: "give x w = Some (res, w') \<longleftrightarrow> res = Inr x \<and> w' = w"
  by (auto simp: give_def)

lemma throw_Some [simp]: "throw e w = Some (res, w') \<longleftrightarrow> res = Inl e \<and> w' = w"
  by (auto simp: throw_def)

lemma peek_Some [simp]: "peek f w = Some (res, w') \<longleftrightarrow> res = Inr (f w) \<and> w' = w"
  by (auto simp: peek_def)

lemma change_Some [simp]: "change f w = Some (res, w') \<longleftrightarrow> res = Inr () \<and> w' = f w"
  by (auto simp: change_def)

lemma and_then_cases [consumes 1, case_names error step]:
  assumes "and_then m f w = Some (res, w')"
  obtains e where "m w = Some (Inl e, w')" "res = Inl e"
  | x w1 where "m w = Some (Inr x, w1)" "f x w1 = Some (res, w')"
  using assms by (auto simp: and_then_def split: option.splits prod.splits sum.splits)

lemma on_error_cases [consumes 1, case_names handled fine]:
  assumes "on_error m h w = Some (res, w')"
  obtains e w1 where "m w = Some (Inl e, w1)" "h e w1 = Some (res, w')"
  | x where "m w = Some (Inr x, w')" "res = Inr x"
  using assms by (auto simp: on_error_def split: option.splits prod.splits sum.splits)

lemma and_then_simps [simp]:
  "and_then (change f) g w = g () (f w)" "and_then (give x) g w = g x w" "and_then (peek h) g w = g (h w) w"
  by (simp_all add: and_then_def change_def give_def peek_def)

lemma and_then_assoc: "and_then (and_then m f) g w = and_then m (\<lambda>x. and_then (f x) g) w"
  by (simp add: and_then_def split: option.split prod.split sum.split)

section \<open>Fields that actions keep\<close>

lemma set_driver_fields [simp]:
  "aw_store (set_driver d f w) = aw_store w" "aw_states (set_driver d f w) = aw_states w"
  "aw_stops (set_driver d f w) = aw_stops w" "aw_bus (set_driver d f w) = aw_bus w"
  "aw_drives (set_driver d f w) = aw_drives w" "length (aw_drivers (set_driver d f w)) = length (aw_drivers w)"
  by (simp_all add: set_driver_def)

lemma tell_fields [simp]:
  "aw_store (tell n w) = aw_store w" "aw_states (tell n w) = aw_states w" "aw_stops (tell n w) = aw_stops w"
  "aw_bus (tell n w) = aw_bus w" "aw_drivers (tell n w) = aw_drivers w" "aw_drives (tell n w) = aw_drives w"
  by (simp_all add: tell_def)

lemma dispatch_fields [simp]:
  "aw_store (dispatch_notice n w) = aw_store w" "aw_states (dispatch_notice n w) = aw_states w"
  "aw_stops (dispatch_notice n w) = aw_stops w" "aw_bus (dispatch_notice n w) = aw_bus w"
  "aw_drivers (dispatch_notice n w) = aw_drivers w" "aw_drives (dispatch_notice n w) = aw_drives w"
  by (simp_all add: dispatch_notice_def)

lemma emit_fields [simp]:
  "aw_store (emit_event d e w) = aw_store w" "aw_states (emit_event d e w) = aw_states w"
  "aw_stops (emit_event d e w) = aw_stops w" "aw_bus (emit_event d e w) = aw_bus w"
  "aw_drivers (emit_event d e w) = aw_drivers w" "aw_drives (emit_event d e w) = aw_drives w"
  by (simp_all add: emit_event_def split: option.split)

section \<open>Appending to a log\<close>

definition holds_session :: "nat \<Rightarrow> agent_world \<Rightarrow> bool" where
  "holds_session r w \<longleftrightarrow> r < length (ss_objects (aw_store w))"

lemma append_event_object:
  assumes "append_event r ty data now st = (res, st')" and "r < length (ss_objects st)"
  shows "length (ss_objects st') = length (ss_objects st) \<and>
    se_header (ss_objects st' ! r) = se_header (ss_objects st ! r) \<and>
    (case res of Inl _ \<Rightarrow> se_log (ss_objects st' ! r) = se_log (ss_objects st ! r)
     | Inr _ \<Rightarrow> \<exists>ev. ev_type ev = ty \<and> ev_data ev = data \<and> se_log (ss_objects st' ! r) = se_log (ss_objects st ! r) @ [ev])"
  using assms(1)
  by (simp add: append_event_def Let_def publish_event_def fold_into_def assms(2)
      split: if_splits option.splits sum.splits prod.splits) (auto simp: assms(2) fold_into_def)

definition free_type :: "string \<Rightarrow> bool" where
  "free_type ty \<longleftrightarrow> \<not> is_builtin_surface_type ty"

lemma append_free:
  assumes "append_event r ty data now st = (res, st')" and "free_type ty"
  shows "\<exists>q. res = Inr q"
  using assms by (auto simp: append_event_def Let_def publish_event_def validate_event_def free_type_def
      split: if_splits option.splits sum.splits prod.splits)

lemma append_act_log:
  assumes "append_act E r ty data w = Some (res, w')" and "holds_session r w"
  shows "holds_session r w'" "se_header (session_object r w') = se_header (session_object r w)"
    "log_at r w' = log_at r w \<and> (\<exists>e. res = Inl (SessionFailed e)) \<or>
     (\<exists>ev q. res = Inr q \<and> ev_type ev = ty \<and> ev_data ev = data \<and> log_at r w' = log_at r w @ [ev])"
proof -
  obtain x st where a: "append_event r ty data (ae_clock E (aw_store w)) (aw_store w) = (x, st)" by force
  note o = append_event_object [OF a] assms(2) [unfolded holds_session_def]
  with assms(1) a show "holds_session r w'" "se_header (session_object r w') = se_header (session_object r w)"
    "log_at r w' = log_at r w \<and> (\<exists>e. res = Inl (SessionFailed e)) \<or>
     (\<exists>ev q. res = Inr q \<and> ev_type ev = ty \<and> ev_data ev = data \<and> log_at r w' = log_at r w @ [ev])"
    by (auto simp: append_act_def holds_session_def session_object_def log_at_def split: sum.splits)
qed

lemma append_act_free:
  assumes "append_act E r ty data w = Some (res, w')" and "free_type ty"
  shows "\<exists>q. res = Inr q"
  using assms append_free by (fastforce simp: append_act_def split: prod.splits sum.splits)

lemma append_free_then:
  assumes "and_then (append_act E r ty data) f w = Some (res, w')" and "free_type ty"
  obtains q w1 where "append_act E r ty data w = Some (Inr q, w1)" "f q w1 = Some (res, w')"
  using assms(1)
proof (cases rule: and_then_cases)
  case (error e)
  with append_act_free [OF error(1) assms(2)] show thesis by simp
qed (rule that)

lemma append_act_frame:
  "append_act E r ty data w = Some (res, w') \<Longrightarrow> w' = w\<lparr>aw_store := aw_store w'\<rparr>"
  by (auto simp: append_act_def split: prod.splits sum.splits)

lemma append_act_returns: "append_act E r ty data w \<noteq> None"
  by (simp add: append_act_def split: prod.split sum.split)

section \<open>Orders that rounds respect\<close>

text \<open>The environment of a driver, as far as an order on worlds is concerned.\<close>

definition stays :: "(agent_world \<Rightarrow> agent_world \<Rightarrow> bool) \<Rightarrow> 'a action \<Rightarrow> bool" where
  "stays R m \<longleftrightarrow> (\<forall>w res w'. m w = Some (res, w') \<longrightarrow> R w w')"

lemma staysI: "(\<And>w res w'. m w = Some (res, w') \<Longrightarrow> R w w') \<Longrightarrow> stays R m"
  by (simp add: stays_def)

lemma staysD: "stays R m \<Longrightarrow> m w = Some (res, w') \<Longrightarrow> R w w'"
  unfolding stays_def by blast

definition env_stays :: "(agent_world \<Rightarrow> agent_world \<Rightarrow> bool) \<Rightarrow> agent_env \<Rightarrow> bool" where
  "env_stays R E \<longleftrightarrow>
     (\<forall>i p m c. stays R (ae_assemble E i p m c)) \<and> (\<forall>f r p m c. stays R (ae_produce E f r p m c)) \<and>
     (\<forall>msg. stays R (ae_pre_step E msg)) \<and> (\<forall>i t s. stays R (ae_stopping E i t s)) \<and>
     (\<forall>msg. stays R (ae_request_error E msg)) \<and> (\<forall>g. stays R (ae_stream E g)) \<and> (\<forall>x. stays R (ae_invoke E x))"

text \<open>The events a round appends between the boundaries of its step.\<close>

definition step_types :: "string set" where
  "step_types = {''agent/inbox/spliced'', ''system/message'', ''surface/replace'', ''user/message'',
     ''request/header'', ''request/context'', ''assistant/message'', ''assistant/attempt'', ''tool/call'', ''tool/result''}"

lemma commit_act_appends:
  assumes "commit_act E r turn step a w = Some (res, w')"
  obtains "w' = w"
  | ty data x where "ty \<in> {''assistant/message'', ''assistant/attempt''}" "append_act E r ty data w = Some (x, w')"
proof -
  let ?now = "ae_clock E (aw_store w)"
  have "commit_model_outcome r turn step a (ae_max_tokens_as_success E) ?now (aw_store w) = (y, st) \<Longrightarrow>
     st = aw_store w \<or>
     (\<exists>ty data x. ty \<in> {''assistant/message'', ''assistant/attempt''} \<and> append_event r ty data ?now (aw_store w) = (x, st))"
    for y st
    by (simp add: commit_model_outcome_def Let_def split: if_splits prod.splits) blast+
  moreover obtain y st where c: "commit_model_outcome r turn step a (ae_max_tokens_as_success E) ?now (aw_store w) = (y, st)"
    by force
  moreover have "w' = w\<lparr>aw_store := st\<rparr>" using assms c by (auto simp: commit_act_def split: sum.splits)
  moreover have "\<exists>z. append_act E r ty data w = Some (z, w\<lparr>aw_store := st\<rparr>)"
    if "append_event r ty data ?now (aw_store w) = (x, st)" for ty data x
    using that by (cases x) (simp_all add: append_act_def)
  ultimately show thesis using that by fastforce
qed

locale quiet_order =
  fixes R :: "agent_world \<Rightarrow> agent_world \<Rightarrow> bool" and E :: agent_env and r :: nat and types :: "string set"
  assumes refl: "R w w"
    and trans: "R a b \<Longrightarrow> R b c \<Longrightarrow> R a c"
    and driver: "(\<And>s. as_exec (f s) = as_exec s \<and> as_session (f s) = as_session s \<and> as_running (f s) = as_running s) \<Longrightarrow> R w (set_driver d f w)"
    and told: "R w (tell n w)"
    and logged: "ty \<in> types \<Longrightarrow> append_act E r ty data w = Some (res, w') \<Longrightarrow> R w w'"
begin

lemma stays_give: "stays R (give x)"
  by (simp add: stays_def refl)

lemma stays_throw: "stays R (throw e)"
  by (simp add: stays_def refl)

lemma stays_peek: "stays R (peek f)"
  by (simp add: stays_def refl)

lemma stays_change: "(\<And>w. R w (f w)) \<Longrightarrow> stays R (change f)"
  by (simp add: stays_def)

lemma stays_append: "ty \<in> types \<Longrightarrow> stays R (append_act E r ty data)"
  using logged by (auto simp: stays_def)

lemma stays_and_then: "stays R m \<Longrightarrow> (\<And>x. stays R (f x)) \<Longrightarrow> stays R (and_then m f)"
  by (rule staysI, erule and_then_cases) (blast dest: staysD intro: trans)+

lemma stays_on_error: "stays R m \<Longrightarrow> (\<And>e. stays R (h e)) \<Longrightarrow> stays R (on_error m h)"
  by (rule staysI, erule on_error_cases) (blast dest: staysD intro: trans)+

lemma stays_if: "(b \<Longrightarrow> stays R m) \<Longrightarrow> (\<not> b \<Longrightarrow> stays R n) \<Longrightarrow> stays R (if b then m else n)"
  by simp

lemma stays_only_if: "stays R m \<Longrightarrow> stays R (only_if b m)"
  by (simp add: only_if_def stays_give)

lemma stays_each: "(\<And>x. stays R (f x)) \<Longrightarrow> stays R (each f xs)"
  by (induction xs) (simp_all add: stays_give stays_and_then)

lemma stays_gather: "(\<And>x. stays R (f x)) \<Longrightarrow> stays R (gather f xs)"
  by (induction xs) (simp_all add: stays_give stays_and_then)

lemma told_fold: "R w (fold (\<lambda>m. dispatch_notice (n m)) ms w)"
  by (induction ms arbitrary: w) (auto simp: refl dispatch_notice_def intro: trans told)

lemma stays_emit: "stays R (change (emit_event d e))"
  by (rule stays_change) (simp add: emit_event_def refl told split: option.split)

lemmas stays_rules = stays_give stays_throw stays_peek stays_and_then stays_on_error stays_only_if stays_each
  stays_gather stays_emit stays_append

text \<open>The same rules for an action that has run.\<close>

lemma ran_and_then: "and_then m f w = Some (res, w') \<Longrightarrow> stays R m \<Longrightarrow> (\<And>x. stays R (f x)) \<Longrightarrow> R w w'"
  using stays_and_then staysD by blast

lemma ran_on_error: "on_error m h w = Some (res, w') \<Longrightarrow> stays R m \<Longrightarrow> (\<And>e. stays R (h e)) \<Longrightarrow> R w w'"
  using stays_on_error staysD by blast

lemma ran_append: "append_act E r ty data w = Some (res, w') \<Longrightarrow> ty \<in> types \<Longrightarrow> R w w'"
  by (rule logged)

lemma ran_each: "each f xs w = Some (res, w') \<Longrightarrow> (\<And>x. stays R (f x)) \<Longrightarrow> R w w'"
  using stays_each staysD by blast

lemma ran_only_if: "only_if b m w = Some (res, w') \<Longrightarrow> stays R m \<Longrightarrow> R w w'"
  using stays_only_if staysD by blast

lemmas ran = ran_and_then ran_on_error ran_append ran_each ran_only_if

end

locale step_order = quiet_order R E r step_types for R E r
begin

lemma claim_stays: "stays R (claim E d r turn t n)"
  by (rule staysI) (auto simp: claim_def Let_def refl step_types_def k_inbox_spliced_event_def split: option.splits if_splits
    elim!: ran intro!: stays_rules stays_change told_fold)

lemma claim_pending_stays: "stays R (claim_pending E d r turn first_step)"
proof -
  have "stays R (\<lambda>w. case inbox_of E (as_session (driver d w)) w of
                 None \<Rightarrow> give [] w
               | Some s \<Rightarrow> claim E d r turn NextStep (of_nat (length (in_next_step s))) w)"
    by (rule staysI) (auto simp: refl split: option.splits dest: staysD [OF claim_stays])
  then show ?thesis unfolding claim_pending_def by (auto intro!: stays_rules claim_stays)
qed

lemma prompt_stays:
  "stays R (append_prompt E r t)" "stays R (rewrite_node E r q x)" "stays R (commit_system_prompt E r s b c)"
proof -
  show a: "stays R (append_prompt E r t)" for t
    by (rule staysI) (auto simp: append_prompt_def step_types_def elim!: ran intro!: stays_rules)
  show b: "stays R (rewrite_node E r q x)" for q x
    by (rule staysI) (auto simp: rewrite_node_def step_types_def elim!: ran intro!: stays_rules)
  show "stays R (commit_system_prompt E r s b c)"
    by (rule staysI)
      (auto simp: commit_system_prompt_def Let_def split: if_splits elim!: ran intro!: stays_rules a b dest: staysD [OF b])
qed

lemma request_stays:
  "stays R (append_user_messages E r ms)" "stays R (append_request_header E r h b)" "stays R (append_request_context E r opts c)"
  unfolding append_user_messages_def
  by (auto intro!: stays_rules simp: step_types_def)
    (rule staysI, auto simp: append_request_header_def append_request_context_def Let_def step_types_def
      elim!: ran intro!: stays_rules)+

lemma prepare_stays: "stays R (prepare_request E d r p ms b)"
  by (rule staysI) (auto simp: prepare_request_def Let_def elim!: ran intro!: stays_rules prompt_stays request_stays
    stays_change driver)

lemma commit_stays: "stays R (commit_act E r turn step a)"
proof (rule staysI)
  fix w res w' assume "commit_act E r turn step a w = Some (res, w')"
  then show "R w w'"
    by (cases rule: commit_act_appends) (auto simp: refl step_types_def intro: logged)
qed

end

text \<open>With an environment that respects the order.\<close>

locale quiet_round = step_order +
  assumes env: "env_stays R E"
begin

lemma env_rules:
  "stays R (ae_assemble E i p m c)" "stays R (ae_produce E f r p m c)" "stays R (ae_pre_step E msg)"
  "stays R (ae_stopping E i t s)" "stays R (ae_request_error E rm)" "stays R (ae_stream E g)" "stays R (ae_invoke E x)"
  using env by (simp_all add: env_stays_def)

lemma stream_stays: "stays R (stream_attempts E d r turn step g n)"
proof (rule staysI)
  fix w res w' assume "stream_attempts E d r turn step g n w = Some (res, w')"
  then have "env_stays R E \<longrightarrow> R w (snd (res, w'))"
  proof (rule stream_attempts.raw_induct [where P = "\<lambda>E d r turn step g n w y. env_stays R E \<longrightarrow> R w (snd y)", rotated],
      intro impI)
    fix f E d r turn step g n w y
    assume IH: "\<And>E d r turn step g n w y. f E d r turn step g n w = Some y \<Longrightarrow> env_stays R E \<longrightarrow> R w (snd y)"
      and E: "env_stays R E"
      and body: "(case ae_stream E g w of None \<Rightarrow> None
        | Some (Inl e, w1) \<Rightarrow> Some (Inl e, w1)
        | Some (Inr cs, w1) \<Rightarrow>
          let a = accumulate cs; opts = as_exec (driver d w1)
          in if \<not> (sa_why a = FinishError \<and> sa_failure a \<noteq> None \<and> \<not> stop_requested d w1) then Some (Inr a, w1)
             else (case ae_request_error E
                       \<lparr>re_session = id_of r w1, re_turn = turn, re_step = step, re_provider = dv_provider opts,
                        re_model = dv_model opts, re_attempt = n, re_failure = the (sa_failure a),
                        re_stop = dv_stop opts, re_retry = False\<rparr> w1 of
                  None \<Rightarrow> None | Some (Inl e, w2) \<Rightarrow> Some (Inl e, w2)
                | Some (Inr m, w2) \<Rightarrow>
                    if \<not> re_retry m then Some (Inr a, w2) else f E d r turn step g (n + 1) w2)) = Some y"
    obtain w1 x where s1: "ae_stream E g w = Some (x, w1)"
      using body by (auto split: option.splits)
    have r1: "R w w1" using E s1 by (auto simp: env_stays_def dest: staysD)
    show "R w (snd y)"
    proof (cases "snd y = w1")
      case False
      from body obtain rm z w2 where s2: "ae_request_error E rm w1 = Some (z, w2)"
        and rest: "snd y = w2 \<or> f E d r turn step g (n + 1) w2 = Some y"
        using False by (auto simp: s1 Let_def split: option.splits sum.splits if_splits)
      have "R w1 w2" using E s2 by (auto simp: env_stays_def dest: staysD)
      with r1 rest IH E show ?thesis by (metis trans)
    qed (use r1 in simp)
  qed
  then show "R w w'" using env by simp
qed

lemma invoke_stays: "stays R (invoke_tool E d r c)"
proof -
  have "stays R (\<lambda>w. and_then (ae_invoke E (f w)) g w)" if "\<And>x. stays R (g x)" for f and g :: "tool_result option \<Rightarrow> tool_result action"
    by (rule staysI) (auto elim!: ran intro!: env_rules that)
  note called = this [OF stays_give]
  show ?thesis unfolding invoke_tool_def
    by (rule stays_on_error [OF called]) (auto intro!: stays_rules)
qed

lemma tool_stays: "stays R (execute_tool E d r turn step c out)" "stays R (execute_tools E d r turn step cs out)"
proof -
  have t: "stays R (run_tool E d r c out)" for c out
    by (rule staysI) (auto simp: run_tool_def refl split: if_splits elim!: ran intro!: stays_rules invoke_stays)
  have a: "stays R (\<lambda>w. append_act E r ''tool/result'' (f w) w)" for f
    by (rule staysI) (auto simp: step_types_def elim!: ran)
  show e: "stays R (execute_tool E d r turn step c out)" for c out
    unfolding execute_tool_def by (auto intro!: stays_rules t a simp: step_types_def)
  show "stays R (execute_tools E d r turn step cs out)"
    by (induction cs arbitrary: out) (auto intro!: stays_rules e)
qed

lemma finish_stays: "stays R (finish_step E d r turn step a sc)"
  unfolding finish_step_def
  by (auto simp: Let_def set_outcome_def refl intro!: stays_rules stays_change driver tool_stays split: option.split)

lemma run_step_stays: "stays R (run_step E d r turn step p ms b)"
proof -
  have "stays R (\<lambda>w. stream_attempts E d r turn step (build_generate E (as_exec (driver d w)) r p w) 0 w)"
    by (rule staysI) (blast dest: staysD [OF stream_stays])
  then show ?thesis unfolding run_step_def by (auto intro!: stays_rules prepare_stays commit_stays finish_stays)
qed

lemma pre_step_stays: "stays R (pre_step E d r turn step first_step)"
proof -
  have a: "stays R (\<lambda>w. assemble_prompt E r (as_exec (driver d w)) w)"
    by (rule staysI) (auto simp: assemble_prompt_def dest: staysD [OF env_rules(1)])
  have c: "stays R (turn_context E d r p)" for p
    by (rule staysI) (auto simp: turn_context_def Let_def elim!: ran intro!: stays_rules env_rules)
  have s: "stays R (take_seed d first_step)"
    by (rule staysI) (auto simp: take_seed_def refl intro!: driver split: option.splits if_splits)
  have "stays R (\<lambda>w. if aw_bus w then ae_pre_step E msg w else give msg w)" for msg
    by (rule staysI) (auto simp: refl split: if_splits dest: staysD [OF env_rules(3)])
  with a c s show ?thesis unfolding pre_step_def by (auto intro!: stays_rules claim_pending_stays)
qed

lemma close_round_stays: "stays R (close_round E d turn ended)"
proof -
  have "stays R (\<lambda>w. if aw_bus w then ae_stopping E (as_session (driver d w)) turn (dv_stop (as_exec (driver d w))) w else give () w)"
    by (rule staysI) (auto simp: refl split: if_splits dest: staysD [OF env_rules(4)])
  then show ?thesis
    by - (rule staysI, auto simp: close_round_def refl split: if_splits elim!: ran intro!: stays_rules)
qed

end

section \<open>Views of a log\<close>

definition view_log :: "(string \<Rightarrow> json \<Rightarrow> 'b option) \<Rightarrow> session_event list \<Rightarrow> 'b list" where
  "view_log V log = List.map_filter (\<lambda>ev. V (ev_type ev) (ev_data ev)) log"

definition adds :: "(string \<Rightarrow> json \<Rightarrow> 'b option) \<Rightarrow> nat \<Rightarrow> agent_world \<Rightarrow> agent_world \<Rightarrow> 'b list \<Rightarrow> bool" where
  "adds V r w w' bs \<longleftrightarrow>
     holds_session r w' \<and> se_header (session_object r w') = se_header (session_object r w) \<and>
     (\<exists>tail. log_at r w' = log_at r w @ tail \<and> view_log V tail = bs)"

definition quiet :: "(string \<Rightarrow> json \<Rightarrow> 'b option) \<Rightarrow> nat \<Rightarrow> agent_world \<Rightarrow> agent_world \<Rightarrow> bool" where
  "quiet V r w w' \<longleftrightarrow> (holds_session r w \<longrightarrow> adds V r w w' [])"

lemma view_log_simps [simp]:
  "view_log V [] = []" "view_log V (xs @ ys) = view_log V xs @ view_log V ys"
  by (simp_all add: view_log_def List.map_filter_def)

lemma adds_trans: "adds V r a b xs \<Longrightarrow> adds V r b c ys \<Longrightarrow> adds V r a c (xs @ ys)"
  unfolding adds_def by (metis append.assoc view_log_simps(2))

lemma adds_refl: "holds_session r w \<Longrightarrow> adds V r w w []"
  by (auto simp: adds_def)

lemma adds_holds: "adds V r w w' bs \<Longrightarrow> holds_session r w'"
  by (simp add: adds_def)

lemma quiet_adds: "quiet V r w w' \<Longrightarrow> holds_session r w \<Longrightarrow> adds V r w w' []"
  by (simp add: quiet_def)

lemma adds_quiet: "adds V r a b xs \<Longrightarrow> quiet V r b c \<Longrightarrow> adds V r a c xs"
  using adds_trans [of V r a b xs c "[]"] by (simp add: quiet_def adds_def)

lemma quiet_then_adds: "quiet V r a b \<Longrightarrow> holds_session r a \<Longrightarrow> adds V r b c xs \<Longrightarrow> adds V r a c xs"
  using adds_trans [of V r a b "[]" c xs] by (simp add: quiet_def)

lemma same_store_adds: "aw_store w' = aw_store w \<Longrightarrow> holds_session r w \<Longrightarrow> adds V r w w' []"
  by (auto simp: adds_def holds_session_def session_object_def log_at_def)

lemma append_adds:
  assumes "append_act E r ty data w = Some (res, w')" and "holds_session r w"
  shows "(\<exists>e. res = Inl (SessionFailed e)) \<and> adds V r w w' [] \<or>
     (\<exists>q. res = Inr q) \<and> adds V r w w' (case V ty data of None \<Rightarrow> [] | Some b \<Rightarrow> [b])"
proof -
  note l = append_act_log [OF assms]
  have "view_log V [ev] = (case V (ev_type ev) (ev_data ev) of None \<Rightarrow> [] | Some b \<Rightarrow> [b])" for ev
    by (simp add: view_log_def List.map_filter_def split: option.split)
  with l show ?thesis by (auto simp: adds_def)
qed

lemma append_free_adds:
  assumes "append_act E r ty data w = Some (res, w')" and "holds_session r w" and "free_type ty"
  shows "\<exists>q. res = Inr q" "adds V r w w' (case V ty data of None \<Rightarrow> [] | Some b \<Rightarrow> [b])"
  using append_adds [OF assms(1, 2), of V] append_act_free [OF assms(1, 3)] by auto

lemma quiet_is_order:
  assumes "\<And>ty data. ty \<in> T \<Longrightarrow> V ty data = None"
  shows "quiet_order (quiet V r) E r T"
proof
  show "quiet V r w w" for w by (simp add: quiet_def adds_refl)
  show "quiet V r a c" if "quiet V r a b" "quiet V r b c" for a b c
    using that adds_trans [of V r a b "[]" c "[]"] by (auto simp: quiet_def adds_def)
  show "quiet V r w (set_driver d f w)" for w d f by (simp add: quiet_def same_store_adds)
  show "quiet V r w (tell n w)" for w n by (simp add: quiet_def same_store_adds)
  show "quiet V r w w'" if "ty \<in> T" "append_act E r ty data w = Some (res, w')" for ty data w res w'
    using append_adds [OF that(2), of V] assms [OF that(1)] by (auto simp: quiet_def)
qed

lemma quiet_order_conj:
  assumes "quiet_order R E r T" and "quiet_order S E r T"
  shows "quiet_order (\<lambda>w w'. R w w' \<and> S w w') E r T"
proof (rule quiet_order.intro)
  note R = assms(1) and S = assms(2)
  show "R w w \<and> S w w" for w
    using quiet_order.refl [OF R] quiet_order.refl [OF S] by blast
  show "R a c \<and> S a c" if "R a b \<and> S a b" "R b c \<and> S b c" for a b c
    using that quiet_order.trans [OF R] quiet_order.trans [OF S] by blast
  show "R w (set_driver d f w) \<and> S w (set_driver d f w)"
    if "\<And>s. as_exec (f s) = as_exec s \<and> as_session (f s) = as_session s \<and> as_running (f s) = as_running s" for f w d
    using quiet_order.driver [OF R that] quiet_order.driver [OF S that] by blast
  show "R w (tell n w) \<and> S w (tell n w)" for w n
    using quiet_order.told [OF R] quiet_order.told [OF S] by blast
  show "R w w' \<and> S w w'" if "ty \<in> T" "append_act E r ty data w = Some (res, w')" for ty data w res w'
    using quiet_order.logged [OF R that] quiet_order.logged [OF S that] by blast
qed

text \<open>The limit on the steps of a turn is only lowered.\<close>

definition limits :: "nat \<Rightarrow> agent_world \<Rightarrow> agent_world \<Rightarrow> bool" where
  "limits d w w' \<longleftrightarrow> max_steps_of d w' \<le> max_steps_of d w"

lemma exec_set_driver:
  "(\<And>s. as_exec (f s) = as_exec s \<and> as_session (f s) = as_session s \<and> as_running (f s) = as_running s) \<Longrightarrow>
     as_exec (driver d (set_driver e f w)) = as_exec (driver d w)"
  by (cases "d = e"; cases "e < length (aw_drivers w)") (simp_all add: driver_def set_driver_def list_update_beyond)

lemma limits_is_order: "quiet_order (limits d) E r T"
proof
  show "limits d w w" for w by (simp add: limits_def)
  show "limits d a c" if "limits d a b" "limits d b c" for a b c using that by (auto simp: limits_def)
  show "limits d w (set_driver e f w)" if "\<And>s. as_exec (f s) = as_exec s \<and> as_session (f s) = as_session s \<and> as_running (f s) = as_running s" for w e f
    using exec_set_driver [OF that] by (simp add: limits_def max_steps_of_def)
  show "limits d w (tell n w)" for w n by (simp add: limits_def max_steps_of_def driver_def)
  show "limits d w w'" if "append_act E r ty data w = Some (res, w')" for ty data w res w'
    by (subst append_act_frame [OF that]) (simp add: limits_def max_steps_of_def driver_def)
qed

section \<open>The brackets of a turn\<close>

definition boundary_view :: "string \<Rightarrow> json \<Rightarrow> (string \<times> json) option" where
  "boundary_view ty data =
     (if ty \<in> {''turn/start'', ''turn/end'', ''step/start'', ''step/end''} then Some (ty, data) else None)"

definition step_pair :: "64 word \<Rightarrow> nat \<Rightarrow> (string \<times> json) list" where
  "step_pair turn k =
     [(''step/start'', boundary_data turn (of_nat k)), (''step/end'', boundary_data turn (of_nat k))]"

text \<open>What the environment of a turn may do: append other events, and lower the limit.\<close>

definition undisturbed :: "nat \<Rightarrow> nat \<Rightarrow> agent_world \<Rightarrow> agent_world \<Rightarrow> bool" where
  "undisturbed d r w w' \<longleftrightarrow> quiet boundary_view r w w' \<and> limits d w w'"

lemma boundary_views:
  "boundary_view ''turn/start'' v = Some (''turn/start'', v)" "boundary_view ''turn/end'' v = Some (''turn/end'', v)"
  "boundary_view ''step/start'' v = Some (''step/start'', v)" "boundary_view ''step/end'' v = Some (''step/end'', v)"
  "ty \<in> step_types \<Longrightarrow> boundary_view ty v = None"
  by (auto simp: boundary_view_def step_types_def)

lemma boundary_free [simp]:
  "free_type ''turn/start''" "free_type ''turn/end''" "free_type ''step/start''" "free_type ''step/end''"
  by (simp_all add: free_type_def is_builtin_surface_type_def)

interpretation turn_order: step_order "undisturbed d r" E r for d E r
  unfolding step_order_def undisturbed_def [abs_def]
  by (intro quiet_order_conj limits_is_order quiet_is_order) (simp add: boundary_views)

lemma round_order: "env_stays (undisturbed d r) E \<Longrightarrow> quiet_round (undisturbed d r) E r"
  by unfold_locales

lemma stays_of_round:
  assumes "env_stays (undisturbed d r) E"
  shows "stays (undisturbed d r) (run_step E d r turn step p ms b)" "stays (undisturbed d r) (pre_step E d r turn step f)"
    "stays (undisturbed d r) (close_round E d turn ended)"
  using quiet_round.run_step_stays [OF round_order [OF assms]] quiet_round.pre_step_stays [OF round_order [OF assms]]
    quiet_round.close_round_stays [OF round_order [OF assms]] by blast+

lemma bracketed_runs:
  assumes "bracketed_step E d r turn step p decision w = Some (res, w')"
  obtains q w2 y w3 z where
    "append_act E r ''step/start'' (boundary_data turn step) (emit_event d (StepEvent turn step) w) = Some (Inr q, w2)"
    "run_step E d r turn step p (ps_messages decision) (ps_starts_series decision) w2 = Some (y, w3)"
    "append_act E r ''step/end'' (boundary_data turn step) w3 = Some (z, w')"
    "case y of Inl e \<Rightarrow> res = Inl e | Inr x \<Rightarrow> res = Inr x"
proof -
  let ?D = "boundary_data turn step"
  let ?run = "run_step E d r turn step p (ps_messages decision) (ps_starts_series decision)"
  let ?close = "\<lambda>e. and_then (append_act E r ''step/end'' ?D) (\<lambda>_. throw e)"
  from assms obtain q w2 where
    s: "append_act E r ''step/start'' ?D (emit_event d (StepEvent turn step) w) = Some (Inr q, w2)"
    and rest: "and_then (on_error ?run ?close) (\<lambda>exit. and_then (append_act E r ''step/end'' ?D) (\<lambda>_. give exit)) w2
       = Some (res, w')"
    unfolding bracketed_step_def and_then_simps by (rule append_free_then) (simp_all add: boundary_free)
  from rest show thesis
  proof (cases rule: and_then_cases)
    case (error e)
    from error(1) show thesis
    proof (cases rule: on_error_cases)
      case (handled e' w3)
      from handled(2) obtain z where "append_act E r ''step/end'' ?D w3 = Some (Inr z, w')" "e' = e"
        by (rule append_free_then) simp_all
      with that [OF s handled(1) this(1)] show thesis by (simp add: error(2))
    qed simp
  next
    case (step x w3)
    from step(2) obtain z where e: "append_act E r ''step/end'' ?D w3 = Some (Inr z, w')" "res = Inr x"
      by (rule append_free_then) simp_all
    from step(1) show thesis
    proof (cases rule: on_error_cases)
      case (handled e' w4)
      from handled(2) show thesis by (rule append_free_then) simp_all
    next
      case (fine y)
      with that [OF s fine(1) e(1)] show thesis by (simp add: e(2))
    qed
  qed
qed

lemma bracketed_adds:
  assumes "bracketed_step E d r turn (of_nat k) p decision w = Some (res, w')" and "holds_session r w"
    and "env_stays (undisturbed d r) E"
  shows "adds boundary_view r w w' (step_pair turn k)" "limits d w w'"
proof -
  let ?D = "boundary_data turn (of_nat k)"
  from assms(1) obtain q w2 y w3 z where
    a: "append_act E r ''step/start'' ?D (emit_event d (StepEvent turn (of_nat k)) w) = Some (Inr q, w2)"
    and s: "run_step E d r turn (of_nat k) p (ps_messages decision) (ps_starts_series decision) w2 = Some (y, w3)"
    and e: "append_act E r ''step/end'' ?D w3 = Some (z, w')"
    by (rule bracketed_runs)
  have u: "undisturbed d r w2 w3" by (rule staysD [OF stays_of_round(1) [OF assms(3)] s])
  have h: "holds_session r (emit_event d (StepEvent turn (of_nat k)) w)" using assms(2) by (simp add: holds_session_def)
  have "adds boundary_view r w (emit_event d (StepEvent turn (of_nat k)) w) []"
    by (rule same_store_adds [OF _ assms(2)]) simp
  from adds_trans [OF this append_free_adds(2) [OF a h]]
  have "adds boundary_view r w w2 [(''step/start'', ?D)]" by (simp add: boundary_views)
  then have m: "adds boundary_view r w w3 [(''step/start'', ?D)]"
    by (rule adds_quiet) (use u in \<open>simp add: undisturbed_def\<close>)
  from adds_trans [OF this append_free_adds(2) [OF e adds_holds [OF m]]]
  show "adds boundary_view r w w' (step_pair turn k)" by (simp add: boundary_views step_pair_def)
  have "limits d w w2" "limits d w3 w'"
    by (subst append_act_frame [OF a], simp add: limits_def max_steps_of_def driver_def)
      (subst append_act_frame [OF e], simp add: limits_def max_steps_of_def driver_def)
  with u show "limits d w w'" by (auto simp: undisturbed_def limits_def)
qed

lemma round_adds:
  assumes "turn_round E d r turn (of_nat k) first_step ended w = Some (res, w')" and "holds_session r w"
    and "env_stays (undisturbed d r) E"
  shows "limits d w w'" "adds boundary_view r w w' (step_pair turn k) \<or>
    adds boundary_view r w w' [] \<and> (\<forall>x. res \<noteq> Inr (Inr x))"
proof -
  note stays = stays_of_round [OF assms(3)]
  have "limits d w w' \<and> (adds boundary_view r w w' (step_pair turn k) \<or>
    adds boundary_view r w w' [] \<and> (\<forall>x. res \<noteq> Inr (Inr x)))"
    using assms(1) unfolding turn_round_def
  proof (cases rule: and_then_cases)
    case (error e)
    from staysD [OF stays(2) error(1)] show ?thesis
      by (simp add: undisturbed_def quiet_adds [OF _ assms(2)] error(2))
  next
    case (step x w1)
    obtain decision p where x: "x = (decision, p)" by force
    from staysD [OF stays(2) step(1)] have pre: "adds boundary_view r w w1 []" "limits d w w1"
      by (simp_all add: undisturbed_def quiet_adds [OF _ assms(2)])
    show ?thesis
    proof (cases "w' = w1 \<and> (\<exists>y. res = Inr (Inl y))")
      case False
      with step(2) have "and_then (bracketed_step E d r turn (of_nat k) p decision) (\<lambda>exit.
              close_round E d turn (if exit \<noteq> None \<and> ended \<noteq> Some MaxTokens then exit else ended)) w1 = Some (res, w')"
        by (auto simp: x split: if_splits)
      then show ?thesis
      proof (cases rule: and_then_cases)
        case (error e)
        from bracketed_adds [OF this(1) adds_holds [OF pre(1)] assms(3)] adds_trans [OF pre(1)] pre(2)
        show ?thesis by (fastforce simp: limits_def)
      next
        case (step exit w2)
        note b = bracketed_adds [OF step(1) adds_holds [OF pre(1)] assms(3)]
        from staysD [OF stays(3) step(2)] have c: "quiet boundary_view r w2 w'" "limits d w2 w'"
          by (simp_all add: undisturbed_def)
        from adds_quiet [OF adds_trans [OF pre(1) b(1)] c(1)] pre(2) b(2) c(2) show ?thesis by (simp add: limits_def)
      qed
    qed (use pre in auto)
  qed
  then show "limits d w w'" "adds boundary_view r w w' (step_pair turn k) \<or>
    adds boundary_view r w w' [] \<and> (\<forall>x. res \<noteq> Inr (Inr x))" by blast+
qed

definition step_pairs :: "64 word \<Rightarrow> nat \<Rightarrow> nat \<Rightarrow> (string \<times> json) list" where
  "step_pairs turn k n = concat (map (step_pair turn) [Suc k..<Suc (k + n)])"

lemma step_pairs_simps:
  "step_pairs turn k 0 = []" "step_pairs turn k (Suc n) = step_pair turn (Suc k) @ step_pairs turn (Suc k) n"
proof -
  have "[Suc k..<Suc (k + Suc n)] = Suc k # [Suc (Suc k)..<Suc (Suc k + n)]" by (subst upt_conv_Cons) auto
  then show "step_pairs turn k (Suc n) = step_pair turn (Suc k) @ step_pairs turn (Suc k) n"
    by (simp add: step_pairs_def)
qed (simp add: step_pairs_def)

lemma loop_adds:
  assumes "turn_loop E d r turn step first_step ended w = Some (res, w')" and "holds_session r w"
    and "env_stays (undisturbed d r) E"
  shows "\<exists>n. adds boundary_view r w w' (step_pairs turn (unat step) n) \<and>
    (n = 0 \<or> unat step + n \<le> unat (max_steps_of d w))"
  using assms
proof (induction E d r turn step first_step ended w rule: turn_loop.induct)
  case (1 E d r turn step first_step ended w)
  note IH = 1(1) and run = 1(2) and h = 1(3) and env = 1(4)
  show ?case
  proof (cases "stop_requested d w \<or> step \<ge> ucast (max_steps_of d w)")
    case True
    with run have "w' = w" by (simp add: turn_loop.simps [of E d r turn step first_step ended w] split: if_splits)
    with adds_refl [OF h] show ?thesis by (intro exI [of _ 0]) (simp add: step_pairs_simps)
  next
    case False
    then have c: "\<not> stop_requested d w" "\<not> step \<ge> ucast (max_steps_of d w)" by simp_all
    have k: "step + 1 = of_nat (Suc (unat step))" "unat (step + 1) = Suc (unat step)"
      using step_in_range [OF c(2)] by simp_all
    have lt: "Suc (unat step) \<le> unat (max_steps_of d w)"
    proof -
      have "unat step < unat (ucast (max_steps_of d w) :: 64 word)" using c(2) by (simp add: not_le word_less_nat_alt)
      also have "\<dots> \<le> unat (max_steps_of d w)" by (simp add: unsigned_ucast_eq)
      finally show ?thesis by simp
    qed
    from run c obtain x w1 where r1: "turn_round E d r turn (step + 1) first_step ended w = Some (x, w1)"
      by (auto simp: turn_loop.simps [of E d r turn step first_step ended w] split: option.splits)
    note round = round_adds [OF r1 [unfolded k(1)] h env]
    show ?thesis
    proof (cases "\<exists>e. x = Inr (Inr e)")
      case True
      then obtain e where x: "x = Inr (Inr e)" by blast
      with round(2) have a: "adds boundary_view r w w1 (step_pair turn (Suc (unat step)))" by simp
      have go: "turn_loop E d r turn (step + 1) False e w1 = Some (res, w')"
        using run c by (simp add: turn_loop.simps [of E d r turn step first_step ended w] r1 x)
      from IH [OF c r1 [unfolded x] refl refl refl go adds_holds [OF a] env] obtain n where
        n: "adds boundary_view r w1 w' (step_pairs turn (Suc (unat step)) n)"
          "n = 0 \<or> Suc (unat step) + n \<le> unat (max_steps_of d w1)" by (auto simp: k(2))
      have "unat (max_steps_of d w1) \<le> unat (max_steps_of d w)" using round(1) by (simp add: limits_def word_le_nat_alt)
      with n(2) lt have "unat step + Suc n \<le> unat (max_steps_of d w)" by auto
      with adds_trans [OF a n(1)] show ?thesis by (intro exI [of _ "Suc n"]) (simp add: step_pairs_simps)
    next
      case False
      with run c have "w1 = w'"
        by (auto simp: turn_loop.simps [of E d r turn step first_step ended w] r1 split: sum.splits)
      with round(2) lt show ?thesis
        by (elim disjE) (intro exI [of _ 1] exI [of _ 0], simp add: step_pairs_simps)+
    qed
  qed
qed

lemma turn_runs:
  assumes "run_turn E d w = Some (res, w')" and "get_session (as_session (driver d w)) (aw_store w) = Some r"
    and "holds_session r w" and "env_stays (undisturbed d r) E"
  shows "\<exists>n status f. n \<le> unat (max_steps_of d w) \<and> (\<forall>e. res = Inl e \<longrightarrow> status = Failed) \<and>
     adds boundary_view r w w'
       ((''turn/start'', turn_start_data (next_turn (log_at r w))) # step_pairs (next_turn (log_at r w)) 0 n @
        [(''turn/end'', turn_end_data (next_turn (log_at r w)) status f)])"
proof -
  let ?t = "next_turn (log_at r w)"
  let ?w = "emit_event d (TurnEvent ?t) (set_outcome d (\<lambda>x. x\<lparr>ro_turn := ?t\<rparr>) w)"
  from assms(1, 2) obtain q w1 where
    s: "append_act E r ''turn/start'' (turn_start_data ?t) ?w = Some (Inr q, w1)"
    and rest: "and_then (on_error (turn_loop E d r ?t 0 True None) (fail_turn E d r ?t)) (close_turn E d r ?t) w1 = Some (res, w')"
    unfolding run_turn_def open_turn_def Let_def option.case and_then_assoc and_then_simps
    by (auto elim!: append_free_then)
  have "adds boundary_view r w ?w []" by (rule same_store_adds [OF _ assms(3)]) (simp add: set_outcome_def)
  note opened = adds_trans [OF this append_free_adds(2) [OF s adds_holds [OF this] boundary_free(1)]]
  have lim: "max_steps_of d w1 = max_steps_of d w"
    by (subst append_act_frame [OF s])
      (simp add: max_steps_of_def driver_def set_outcome_def set_driver_def, cases "d < length (aw_drivers w)"; simp add: list_update_beyond)
  have loop: "\<exists>n \<le> unat (max_steps_of d w). adds boundary_view r w w2
       ((''turn/start'', turn_start_data ?t) # step_pairs ?t 0 n)"
    if l: "turn_loop E d r ?t 0 True None w1 = Some (y, w2)" for y w2
  proof -
    from loop_adds [OF l adds_holds [OF opened] assms(4)] obtain n where
      n: "adds boundary_view r w1 w2 (step_pairs ?t 0 n)" "n = 0 \<or> n \<le> unat (max_steps_of d w)" by (auto simp: lim)
    from adds_trans [OF opened n(1)] n(2) show ?thesis by (auto simp: boundary_views)
  qed
  have close: "adds boundary_view r w w' (bs @ [(''turn/end'', data)])"
    if "adds boundary_view r w w2 bs" "append_act E r ''turn/end'' data w2 = Some (z, w3)" "aw_store w' = aw_store w3"
    for bs w2 data z w3
  proof -
    note e = adds_trans [OF that(1) append_free_adds(2) [OF that(2) adds_holds [OF that(1)] boundary_free(2)]]
    from adds_trans [OF e same_store_adds [OF that(3) adds_holds [OF e]]] show ?thesis by (simp add: boundary_views)
  qed
  from rest show ?thesis
  proof (cases rule: and_then_cases)
    case (error e)
    from error(1) show ?thesis
    proof (cases rule: on_error_cases)
      case (handled e' w2)
      from handled(2) obtain z w3 where "append_act E r ''turn/end'' (turn_end_data ?t Failed (ro_failure (as_outcome (driver d w2)))) w2 = Some (z, w3)"
        and "aw_store w' = aw_store w3"
        unfolding fail_turn_def by (auto elim!: and_then_cases)
      with loop [OF handled(1)] close show ?thesis by fastforce
    qed simp
  next
    case (step x w2)
    let ?s = "case x of None \<Rightarrow> Completed | Some s \<Rightarrow> s"
    have l: "turn_loop E d r ?t 0 True None w1 = Some (Inr x, w2)"
      using step(1) by (cases rule: on_error_cases) (auto simp: fail_turn_def elim!: and_then_cases)
    from step(2) obtain z w3 where "append_act E r ''turn/end'' (turn_end_data ?t ?s (ro_failure (as_outcome (driver d w2)))) w2 = Some (z, w3)"
      and "aw_store w' = aw_store w3" "\<exists>b. res = Inr b"
      unfolding close_turn_def Let_def
      by (auto elim!: and_then_cases simp: set_outcome_def dest: append_act_free [OF _ boundary_free(2)])
    with loop [OF l] close show ?thesis by fastforce
  qed
qed

end
