(* ===== verification/AgentOutcomes.thy ===== *)
theory AgentOutcomes
  imports AgentLaws
begin

text \<open>
  Outcomes of the parts of a turn: a batch of tool calls is answered call by call, a turn returns in an
  environment that returns, and the accumulator of a stream holds what the chunks say.
\<close>

section \<open>A batch of tool calls\<close>

definition tool_view :: "string \<Rightarrow> json \<Rightarrow> (string \<times> string) option" where
  "tool_view ty data =
     (if ty = ''tool/call'' then Some (ty, case as_object data of None \<Rightarrow> [] | Some m \<Rightarrow> get_string_at m ''callId'')
      else if ty = ''tool/result''
      then Some (ty, case Option.bind (as_object data) (\<lambda>m. Option.bind (member m ''content'') first_call_id) of
                       None \<Rightarrow> [] | Some c \<Rightarrow> c)
      else None)"

definition call_pair :: "tool_call_block \<Rightarrow> (string \<times> string) list" where
  "call_pair c = [(''tool/call'', tc_id c), (''tool/result'', tc_id c)]"

lemma tool_views:
  "tool_view ''tool/call'' (tool_call_data turn step c) = Some (''tool/call'', tc_id c)"
  "tool_view ''tool/result'' (tool_result_data i call content b) = Some (''tool/result'', call)"
  by (simp_all add: tool_view_def tool_call_data_def tool_result_data_def get_string_at_def get_string_def
      first_call_id_def string_field_def)

interpretation tool_order: quiet_order "quiet tool_view r" E r "- {''tool/call'', ''tool/result''}" for r E
  by (rule quiet_is_order) (simp add: tool_view_def)

definition tools_quiet :: "nat \<Rightarrow> agent_env \<Rightarrow> bool" where
  "tools_quiet r E \<longleftrightarrow> (\<forall>x. stays (quiet tool_view r) (ae_invoke E x))"

lemma run_tool_quiet:
  assumes "tools_quiet r E" and "run_tool E d r c out w = Some (res, w')"
  shows "quiet tool_view r w w'"
proof -
  have "stays (quiet tool_view r) (\<lambda>w. and_then (ae_invoke E (f w)) g w)"
    if "\<And>x. stays (quiet tool_view r) (g x)" for f and g :: "tool_result option \<Rightarrow> tool_result action"
    by (rule staysI) (use assms(1) in \<open>auto simp: tools_quiet_def elim!: tool_order.ran intro!: that\<close>)
  note called = this [OF tool_order.stays_give]
  have i: "stays (quiet tool_view r) (invoke_tool E d r c)"
    unfolding invoke_tool_def by (rule tool_order.stays_on_error [OF called]) (auto intro!: tool_order.stays_rules)
  show ?thesis
    using assms(2) by (auto simp: run_tool_def tool_order.refl split: if_splits elim!: tool_order.ran intro!: i tool_order.stays_rules)
qed

lemma result_needs_id:
  assumes "append_act E r ''tool/result'' (tool_result_data i [] content b) w = Some (res, w')" and "ss_alive (aw_store w)"
  shows "\<exists>e. res = Inl (SessionFailed e)"
  using assms
  by (auto simp: append_act_def append_event_def Let_def publish_event_def validate_event_def is_builtin_surface_type_def
      message_object_def tool_result_data_def require_id_def require_content_def validate_tool_result_def first_error_def
      split: if_splits option.splits prod.splits sum.splits)

lemma execute_tool_logs:
  assumes "execute_tool E d r turn step c out w = Some (res, w')" and "holds_session r w" and "tools_quiet r E"
  shows "adds tool_view r w w' (case res of Inl _ \<Rightarrow> [(''tool/call'', tc_id c)] | Inr _ \<Rightarrow> call_pair c)"
proof -
  from assms(1) obtain q w1 where a: "append_act E r ''tool/call'' (tool_call_data turn step c) w = Some (Inr q, w1)"
    and rest: "and_then (run_tool E d r c out) (\<lambda>(res, out).
       and_then (\<lambda>w. append_act E r ''tool/result''
          (tool_result_data (log_id ''t'' r (aw_store w)) (tc_id c) (tl_content res) (tl_is_error res)) w) (\<lambda>_.
       and_then (change (emit_event d (ToolDoneEvent turn step (tc_id c) (tc_name c) (tl_is_error res)))) (\<lambda>_.
       give (if tl_concludes res then out\<lparr>tb_concluded := True\<rparr> else out))))
       (emit_event d (ToolCallEvent turn step (tc_id c) (tc_name c)) w1) = Some (res, w')"
    unfolding execute_tool_def and_then_simps
    by (rule append_free_then) (simp_all add: free_type_def is_builtin_surface_type_def)
  have "adds tool_view r w w1 [(''tool/call'', tc_id c)]"
    using append_adds [OF a assms(2), of tool_view] by (simp add: tool_views)
  from adds_trans [OF this same_store_adds [OF emit_fields(1) adds_holds [OF this]]]
  have called: "adds tool_view r w (emit_event d (ToolCallEvent turn step (tc_id c) (tc_name c)) w1) [(''tool/call'', tc_id c)]"
    by simp
  from rest show ?thesis
  proof (cases rule: and_then_cases)
    case (error e)
    with adds_quiet [OF called run_tool_quiet [OF assms(3) error(1)]] show ?thesis by simp
  next
    case (step x w2)
    note ran = adds_quiet [OF called run_tool_quiet [OF assms(3) step(1)]]
    obtain tr out' where x: "x = (tr, out')" by force
    from step(2) obtain y w3 where y: "append_act E r ''tool/result''
        (tool_result_data (log_id ''t'' r (aw_store w2)) (tc_id c) (tl_content tr) (tl_is_error tr)) w2 = Some (y, w3)"
      and w3: "aw_store w' = aw_store w3" "(\<exists>e. y = Inl e \<and> res = Inl e) \<or> (\<exists>q o'. y = Inr q \<and> res = Inr o')"
      unfolding x by (auto elim!: and_then_cases)
    from append_adds [OF y adds_holds [OF ran], of tool_view] w3(2)
    have "adds tool_view r w2 w3 (case res of Inl _ \<Rightarrow> [] | Inr _ \<Rightarrow> [(''tool/result'', tc_id c)])"
      by (auto simp: tool_views)
    note answered = adds_trans [OF ran this]
    from adds_trans [OF answered same_store_adds [OF w3(1) adds_holds [OF answered]]]
    show ?thesis by (auto simp: call_pair_def split: sum.splits)
  qed
qed

lemma execute_tools_log:
  assumes "execute_tools E d r turn step cs out w = Some (res, w')" and "holds_session r w" and "tools_quiet r E"
  shows "case res of
      Inr _ \<Rightarrow> adds tool_view r w w' (concat (map call_pair cs))
    | Inl _ \<Rightarrow> \<exists>pre c rest. cs = pre @ c # rest \<and>
        adds tool_view r w w' (concat (map call_pair pre) @ [(''tool/call'', tc_id c)])"
  using assms(1, 2)
proof (induction cs arbitrary: out w)
  case (Cons c cs)
  from Cons.prems(1) show ?case unfolding execute_tools.simps
  proof (cases rule: and_then_cases)
    case (error e)
    with execute_tool_logs [OF error(1) Cons.prems(2) assms(3)] show ?thesis
      by (auto intro!: exI [of _ "[]"])
  next
    case (step out' w1)
    from execute_tool_logs [OF step(1) Cons.prems(2) assms(3)] have a: "adds tool_view r w w1 (call_pair c)" by simp
    from Cons.IH [OF step(2) adds_holds [OF a]] show ?thesis
    proof (cases res)
      case (Inl e)
      with Cons.IH [OF step(2) adds_holds [OF a]] obtain finished c' rest where
        "cs = finished @ c' # rest" "adds tool_view r w1 w' (concat (map call_pair finished) @ [(''tool/call'', tc_id c')])"
        by auto
      with adds_trans [OF a this(2)] Inl show ?thesis by (auto intro!: exI [of _ "c # finished"])
    qed (use adds_trans [OF a] in auto)
  qed
qed (auto simp: adds_refl)

section \<open>Returning\<close>

text \<open>
  An environment that returns from every call, and whose listeners give up on a failing request after a
  number of attempts that the counter can hold.
\<close>

definition ends :: "'a option \<Rightarrow> bool" where
  "ends x \<longleftrightarrow> x \<noteq> None"

definition returns :: "'a action \<Rightarrow> bool" where
  "returns m \<longleftrightarrow> (\<forall>w. ends (m w))"

definition gives_up :: "agent_env \<Rightarrow> nat \<Rightarrow> bool" where
  "gives_up E k \<longleftrightarrow> (\<forall>msg w m w'. re_attempt msg = of_nat k \<longrightarrow> \<not> re_retry msg \<longrightarrow>
     ae_request_error E msg w = Some (Inr m, w') \<longrightarrow> \<not> re_retry m)"

definition env_returns :: "agent_env \<Rightarrow> bool" where
  "env_returns E \<longleftrightarrow>
     (\<forall>i p m c. returns (ae_assemble E i p m c)) \<and> (\<forall>f r p m c. returns (ae_produce E f r p m c)) \<and>
     (\<forall>msg. returns (ae_pre_step E msg)) \<and> (\<forall>i t s. returns (ae_stopping E i t s)) \<and>
     (\<forall>msg. returns (ae_request_error E msg)) \<and> (\<forall>g. returns (ae_stream E g)) \<and> (\<forall>x. returns (ae_invoke E x)) \<and>
     (\<exists>k. gives_up E k)"

lemma ends_simps [simp]: "ends (Some x)" "\<not> ends None"
  by (simp_all add: ends_def)

lemma returnsI: "(\<And>w. ends (m w)) \<Longrightarrow> returns m"
  by (simp add: returns_def)

lemma returnsD: "returns m \<Longrightarrow> ends (m w)"
  by (simp add: returns_def)

lemma returns_and_then: "returns m \<Longrightarrow> (\<And>x. returns (f x)) \<Longrightarrow> returns (and_then m f)"
  by (force simp: returns_def ends_def and_then_def split: option.split prod.split sum.split)

lemma returns_on_error: "returns m \<Longrightarrow> (\<And>e. returns (h e)) \<Longrightarrow> returns (on_error m h)"
  by (force simp: returns_def ends_def on_error_def split: option.split prod.split sum.split)

lemma returns_basic:
  "returns (give x)" "returns (throw e)" "returns (peek f)" "returns (change g)" "returns (append_act E r ty data)"
  by (simp_all add: returns_def ends_def give_def throw_def peek_def change_def append_act_returns)

lemma returns_only_if: "returns m \<Longrightarrow> returns (only_if b m)"
  by (simp add: only_if_def returns_basic)

lemma returns_each: "(\<And>x. returns (f x)) \<Longrightarrow> returns (each f xs)"
  by (induction xs) (simp_all add: returns_basic returns_and_then)

lemma returns_gather: "(\<And>x. returns (f x)) \<Longrightarrow> returns (gather f xs)"
  by (induction xs) (simp_all add: returns_basic returns_and_then)

lemmas returns_rules = returns_and_then returns_on_error returns_basic returns_only_if returns_each returns_gather

text \<open>The same for an action applied to a world.\<close>

lemma at_and_then: "returns m \<Longrightarrow> (\<And>x. returns (f x)) \<Longrightarrow> ends (and_then m f w)"
  by (rule returnsD [OF returns_and_then])

lemma at_only_if: "returns m \<Longrightarrow> ends (only_if b m w)"
  by (rule returnsD [OF returns_only_if])

lemma at_each: "(\<And>x. returns (f x)) \<Longrightarrow> ends (each f xs w)"
  by (rule returnsD [OF returns_each])

lemma at_basic: "ends (give x w)" "ends (throw e w)" "ends (append_act E r ty data w)"
  by (simp_all add: ends_def give_def throw_def append_act_returns)

lemmas at_rules = at_and_then at_only_if at_each at_basic

lemma claim_returns: "returns (claim E d r turn t n)"
  by (rule returnsI) (auto simp: claim_def Let_def split: option.split intro!: at_rules returns_rules)

lemma request_returns: "returns (prepare_request E d r p ms b)"
proof -
  have a: "returns (append_prompt E r t)" for t
    by (rule returnsI) (auto simp: append_prompt_def intro!: at_rules returns_rules)
  have n: "returns (rewrite_node E r q x)" for q x
    by (rule returnsI) (auto simp: rewrite_node_def intro!: at_rules returns_rules)
  have c: "returns (commit_system_prompt E r t h s)" for t h s
    by (rule returnsI) (auto simp: commit_system_prompt_def Let_def intro!: at_rules returns_rules a n
        returnsD [OF n])
  have h: "returns (append_request_header E r x s)" "returns (append_request_context E r opts s)" for x s opts
    by (rule returnsI; auto simp: append_request_header_def append_request_context_def Let_def
        intro!: at_rules returns_rules)+
  have u: "returns (append_user_messages E r ms)"
    unfolding append_user_messages_def by (intro returns_rules)
  show ?thesis
    by (rule returnsI) (auto simp: prepare_request_def Let_def intro!: at_rules returns_rules c h u)
qed

lemma commit_returns: "returns (commit_act E r turn step a)"
  by (rule returnsI) (simp add: commit_act_def split: prod.split sum.split)

lemma stream_step:
  assumes "env_returns E"
    and again: "\<And>msg w1 m w2. re_attempt msg = n \<Longrightarrow> \<not> re_retry msg \<Longrightarrow> ae_request_error E msg w1 = Some (Inr m, w2) \<Longrightarrow> re_retry m \<Longrightarrow>
      ends (stream_attempts E d r turn step g (n + 1) w2)"
  shows "ends (stream_attempts E d r turn step g n w)"
proof -
  have e: "\<exists>y. ae_request_error E msg w1 = Some y" for msg w1
    using assms(1) by (force simp: env_returns_def returns_def ends_def)
  obtain x w1 where s: "ae_stream E g w = Some (x, w1)"
    using assms(1) by (force simp: env_returns_def returns_def ends_def)
  show ?thesis
  proof (cases x)
    case (Inr cs)
    let ?msg = "\<lparr>re_session = id_of r w1, re_turn = turn, re_step = step, re_provider = dv_provider (as_exec (driver d w1)),
      re_model = dv_model (as_exec (driver d w1)), re_attempt = n, re_failure = the (sa_failure (accumulate cs)),
      re_stop = dv_stop (as_exec (driver d w1)), re_retry = False\<rparr>"
    obtain y w2 where y: "ae_request_error E ?msg w1 = Some (y, w2)" using e [of ?msg w1] by force
    have retry: "ends (stream_attempts E d r turn step g (n + 1) w2)" if "y = Inr m" "re_retry m" for m
      by (rule again [OF _ _ y [unfolded that(1)] that(2)]) simp_all
    show ?thesis by (subst stream_attempts.simps) (simp add: s Inr Let_def y retry split: sum.split)
  qed (simp add: stream_attempts.simps s)
qed

lemma stream_returns:
  assumes "env_returns E"
  shows "ends (stream_attempts E d r turn step g 0 w)"
proof -
  from assms obtain k where k: "gives_up E k" by (auto simp: env_returns_def)
  have "j \<le> k \<Longrightarrow> ends (stream_attempts E d r turn step g (of_nat (k - j)) w)" for j w
  proof (induction j arbitrary: w)
    case 0
    show ?case by (rule stream_step [OF assms]) (use k in \<open>auto simp: gives_up_def\<close>)
  next
    case (Suc j)
    have "k - j = Suc (k - Suc j)" using Suc.prems by simp
    then have n: "of_nat (k - Suc j) + 1 = (of_nat (k - j) :: 32 word)" by (simp only: of_nat_Suc add.commute)
    have "j \<le> k" using Suc.prems by simp
    from Suc.IH [OF this] show ?case by - (rule stream_step [OF assms], simp only: n)
  qed
  from this [of k] show ?thesis by simp
qed

lemma tools_return:
  assumes "env_returns E"
  shows "returns (execute_tools E d r turn step cs out)"
proof -
  have i: "returns (invoke_tool E d r c)" for c
  proof -
    have "returns (\<lambda>w. and_then (ae_invoke E (f w)) g w)" if "\<And>x. returns (g x)" for f and g :: "tool_result option \<Rightarrow> tool_result action"
      by (rule returnsI, rule at_and_then) (use assms that in \<open>simp_all add: env_returns_def\<close>)
    note called = this [OF returns_basic(1)]
    show ?thesis unfolding invoke_tool_def by (rule returns_on_error [OF called]) (auto intro!: returns_rules)
  qed
  have t: "returns (run_tool E d r c out)" for c out
    by (rule returnsI) (auto simp: run_tool_def intro!: at_rules returns_rules i)
  have a: "returns (\<lambda>w. append_act E r ''tool/result'' (f w) w)" for f
    by (simp add: returns_def ends_def append_act_returns)
  have "returns (execute_tool E d r turn step c out)" for c out
    unfolding execute_tool_def by (auto intro!: returns_rules t a split: prod.split)
  then show ?thesis by (induction cs arbitrary: out) (auto intro!: returns_rules)
qed

lemma run_step_returns:
  assumes "env_returns E"
  shows "returns (run_step E d r turn step p ms b)"
proof -
  have "returns (\<lambda>w. stream_attempts E d r turn step (build_generate E (as_exec (driver d w)) r p w) 0 w)"
    by (rule returnsI) (rule stream_returns [OF assms])
  moreover have "returns (finish_step E d r turn step a sc)" for a sc
    by (auto simp: finish_step_def Let_def intro!: returns_rules tools_return [OF assms] split: option.split)
  ultimately show ?thesis unfolding run_step_def by (intro returns_rules request_returns commit_returns)
qed

lemma round_returns:
  assumes "env_returns E"
  shows "ends (turn_round E d r turn step first_step ended w)"
proof -
  have "returns (\<lambda>w. case inbox_of E (as_session (driver d w)) w of
                 None \<Rightarrow> give [] w
               | Some s \<Rightarrow> claim E d r turn NextStep (of_nat (length (in_next_step s))) w)"
    by (rule returnsI) (auto intro!: at_basic returnsD [OF claim_returns] split: option.split)
  then have p: "returns (claim_pending E d r turn first_step)"
    unfolding claim_pending_def by (auto intro!: returns_rules claim_returns)
  have a: "returns (\<lambda>w. assemble_prompt E r (as_exec (driver d w)) w)"
    using assms by (simp add: returns_def assemble_prompt_def env_returns_def)
  have c: "returns (turn_context E d r p)" for p
    by (rule returnsI)
      (use assms in \<open>auto simp: turn_context_def Let_def env_returns_def intro!: at_rules returns_rules\<close>)
  have s: "returns (take_seed d first_step)"
    by (rule returnsI) (auto simp: take_seed_def give_def split: option.split)
  have e: "returns (\<lambda>w. if aw_bus w then ae_pre_step E msg w else give msg w)" for msg
    using assms by (simp add: returns_def env_returns_def give_def)
  have "returns (pre_step E d r turn step first_step)"
    unfolding pre_step_def by (auto intro!: returns_rules p a c s e)
  moreover have "returns (bracketed_step E d r turn step p decision)" for p decision
    unfolding bracketed_step_def by (auto intro!: returns_rules run_step_returns [OF assms])
  moreover have "returns (close_round E d turn ended)" for ended
  proof -
    have "returns (\<lambda>w. if aw_bus w
        then ae_stopping E (as_session (driver d w)) turn (dv_stop (as_exec (driver d w))) w else give () w)"
      using assms by (simp add: returns_def env_returns_def give_def)
    then show ?thesis
      by - (rule returnsI, auto simp: close_round_def intro!: at_rules returns_rules)
  qed
  ultimately show ?thesis
    unfolding turn_round_def by (intro at_and_then) (auto intro!: returns_rules split: prod.split)
qed

lemma loop_returns:
  assumes "env_returns E"
  shows "ends (turn_loop E d r turn step first_step ended w)"
  using assms
proof (induction E d r turn step first_step ended w rule: turn_loop.induct)
  case (1 E d r turn step first_step ended w)
  show ?case
    by (subst turn_loop.simps)
      (use 1 round_returns [OF 1(2), of d r turn "step + 1" first_step ended w] in
        \<open>force split: option.split prod.split sum.split\<close>)
qed

lemma turn_returns_in:
  assumes "env_returns E"
  shows "ends (run_turn E d w)"
proof -
  have l: "returns (turn_loop E d r turn 0 True None)" for r turn
    by (rule returnsI) (rule loop_returns [OF assms])
  have f: "returns (fail_turn E d r turn e :: (run_status option) action)" for r turn e
  proof -
    have "returns (\<lambda>w. append_act E r ''turn/end'' (f w) w)" for f by (simp add: returns_def ends_def append_act_returns)
    then show ?thesis unfolding fail_turn_def by (auto intro!: returns_rules)
  qed
  have "returns (close_turn E d r turn ended)" for r turn ended
  proof -
    have "returns (\<lambda>w. append_act E r ''turn/end'' (f w) w)" for f by (simp add: returns_def ends_def append_act_returns)
    then show ?thesis unfolding close_turn_def Let_def by (auto intro!: returns_rules)
  qed
  moreover have "returns (open_turn E d r turn)" for r turn
    unfolding open_turn_def by (auto intro!: returns_rules)
  ultimately show ?thesis
    by (auto simp: run_turn_def Let_def intro!: at_rules returns_rules l f split: option.split)
qed

section \<open>What the accumulator holds\<close>

fun chunk_index :: "stream_chunk \<Rightarrow> nat option" where
  "chunk_index (BlockStart i k) = Some i"
| "chunk_index (TextDelta i t) = Some i"
| "chunk_index (ReasoningDelta i t) = Some i"
| "chunk_index (ToolCallDelta i c n args) = Some i"
| "chunk_index (BlockEnd i b) = Some i"
| "chunk_index c = None"

fun delta_text :: "stream_chunk \<Rightarrow> string" where
  "delta_text (TextDelta i t) = t"
| "delta_text (ReasoningDelta i t) = t"
| "delta_text (ToolCallDelta i c n args) = args"
| "delta_text c = []"

fun ended_block :: "stream_chunk \<Rightarrow> content_block option" where
  "ended_block (BlockEnd i b) = Some b"
| "ended_block c = None"

text \<open>The chunks of a block that was not closed: those since the last end under its index.\<close>

definition open_chunks :: "nat \<Rightarrow> stream_chunk list \<Rightarrow> stream_chunk list" where
  "open_chunks i cs =
     fold (\<lambda>c acc. if chunk_index c \<noteq> Some i then acc else if ended_block c \<noteq> None then [] else acc @ [c]) cs []"

definition finishes :: "stream_chunk list \<Rightarrow> finish_chunk list" where
  "finishes cs = List.map_filter (\<lambda>c. case c of Finish f \<Rightarrow> Some f | _ \<Rightarrow> None) cs"

lemma open_chunks_simps:
  "open_chunks i [] = []"
  "open_chunks i (cs @ [c]) =
     (if chunk_index c \<noteq> Some i then open_chunks i cs else if ended_block c \<noteq> None then [] else open_chunks i cs @ [c])"
  by (simp_all add: open_chunks_def)

lemma accumulate_simps: "accumulate [] = reset_accumulator" "accumulate (cs @ [c]) = push_chunk c (accumulate cs)"
  by (simp_all add: accumulate_def)

lemma accumulated_open:
  "map_option ob_text (map_of (sa_open (accumulate cs)) i) =
     (if open_chunks i cs = [] then None else Some (concat (map delta_text (open_chunks i cs))))"
proof (induction cs rule: rev_induct)
  case Nil
  then show ?case by (simp add: accumulate_simps open_chunks_simps reset_accumulator_def)
next
  case (snoc c cs)
  then show ?case
    by (cases c; cases "chunk_index c = Some i"; cases "map_of (sa_open (accumulate cs)) i")
      (auto simp: accumulate_simps open_chunks_simps open_at_def map_of_om_emplace fresh_block_def split: if_splits)
qed

lemma accumulated_closed: "sa_closed (accumulate cs) = List.map_filter ended_block cs"
proof (induction cs rule: rev_induct)
  case (snoc c cs)
  then show ?case by (cases c) (simp_all add: accumulate_simps List.map_filter_def open_at_def)
qed (simp add: accumulate_simps reset_accumulator_def List.map_filter_def)

lemma accumulated_sorted: "om_sorted (sa_open (accumulate cs))"
proof (induction cs rule: rev_induct)
  case (snoc c cs)
  then show ?case by (cases c) (simp_all add: accumulate_simps open_at_def)
qed (simp add: accumulate_simps reset_accumulator_def)

lemma accumulated_finish:
  "finishes cs \<noteq> [] \<Longrightarrow> sa_why (accumulate cs) = fc_why (last (finishes cs)) \<and>
     sa_failure (accumulate cs) = fc_failure (last (finishes cs)) \<and> sa_replay (accumulate cs) = fc_replay (last (finishes cs))"
proof (induction cs rule: rev_induct)
  case (snoc c cs)
  then show ?case by (cases c) (auto simp: accumulate_simps finishes_def List.map_filter_def open_at_def)
qed (simp add: finishes_def List.map_filter_def)

end
