(* ===== verification/AgentPrompt.thy ===== *)
theory AgentPrompt
  imports AgentOutcomes
begin

text \<open>
  The system prompt on the surface: what one rewrite or one append of the loop does to the nodes of a
  surface, and what \<open>commit_system_prompt\<close> leaves there.
\<close>

section \<open>Sequence numbers in range\<close>

text \<open>
  \<open>prompt_ready k r w\<close>: the store is alive, no plugin folds the two event types itself, and the surface is
  one the store makes, with room for \<open>k\<close> more sequence numbers below the sign bit.
\<close>

definition prompt_ready :: "nat \<Rightarrow> nat \<Rightarrow> agent_world \<Rightarrow> bool" where
  "prompt_ready k r w \<longleftrightarrow>
     ss_alive (aw_store w) \<and> holds_session r w \<and>
     \<not> has_projection ''system/message'' (aw_store w) \<and> \<not> has_projection ''surface/replace'' (aw_store w) \<and>
     aligned (se_surface (session_object r w)) \<and> distinct (sf_source_seqs (se_surface (session_object r w))) \<and>
     (\<forall>q \<in> set (sf_source_seqs (se_surface (session_object r w))). q < se_next_seq (session_object r w)) \<and>
     unat (se_next_seq (session_object r w)) + k < 2 ^ 63"

definition surface_nodes :: "nat \<Rightarrow> agent_world \<Rightarrow> (session_message \<times> session_seq) list" where
  "surface_nodes r w = nodes (se_surface (session_object r w))"

definition prompt_message :: "string \<Rightarrow> string \<Rightarrow> session_message" where
  "prompt_message i t = \<lparr>sm_role = RoleSystem, sm_id = i, sm_content = text_content t, sm_tool_call_id = None,
     sm_source_plugin = Some ''agent-loop'',
     sm_source = Some (JObject [(''kind'', JString ''plugin''), (''plugin'', JString ''agent-loop'')])\<rparr>"

lemma log_id_nonempty: "c # cs @ show_nat n \<noteq> []"
  by simp

lemma small_sint: "unat (q :: 64 word) < 2 ^ 63 \<Longrightarrow> sint q = int (unat q)"
  using sint_index [of "int (unat q)"] by (simp flip: of_nat_less_iff [where 'a = int, of "unat q"])

lemma next_span: "unat (q :: 64 word) < 2 ^ 63 \<Longrightarrow> in_span q (q + 1) = (\<lambda>x. x = q)"
proof
  fix x assume q: "unat q < 2 ^ 63"
  then have "unat (q + 1) = Suc (unat q)" by (simp add: unat_word_ariths)
  then show "in_span q (q + 1) x = (x = q)"
    by (auto simp: in_span_def word_le_nat_alt word_less_nat_alt less_Suc_eq_le word_unat_eq_iff)
qed

text \<open>An append that is admitted, as the store of a world sees it.\<close>

lemma append_admitted:
  assumes "ss_alive (aw_store w)" and "holds_session r w"
    and "\<And>now. validate_event \<lparr>ev_seq = se_next_seq (session_object r w), ev_time = now, ev_type = ty, ev_data = data,
           ev_ignorable = False\<rparr> = None"
  obtains q w' ev where "append_act E r ty data w = Some (Inr q, w')" "aw_bus w' = aw_bus w" "ss_alive (aw_store w')"
    "holds_session r w'" "ss_projections (aw_store w') = ss_projections (aw_store w)" "ev_type ev = ty" "ev_data ev = data"
    "ev_seq ev = se_next_seq (session_object r w)"
    "session_object r w' = (session_object r w)\<lparr>se_next_seq := se_next_seq (session_object r w) + 1,
       se_surface := surface_fold (ss_projections (aw_store w)) ev (se_surface (session_object r w)),
       se_log := se_log (session_object r w) @ [ev]\<rparr>"
proof -
  let ?st = "aw_store w"
  have r: "r < length (ss_objects ?st)" using assms(2) by (simp add: holds_session_def)
  obtain x st where a: "append_event r ty data (ae_clock E ?st) ?st = (x, st)" by force
  from a assms(3) have "\<exists>q. x = Inr q"
    by (auto simp: append_alive [OF assms(1) r] Let_def session_object_def split: option.splits)
  then obtain q where x: "x = Inr q" by blast
  from append_result [OF a [unfolded x] assms(1) r] obtain ev where
    ev: "ev_seq ev = q" and o: "ss_objects st ! r = (ss_objects ?st ! r)\<lparr>se_next_seq := q + 1,
       se_surface := surface_fold (ss_projections ?st) ev (se_surface (ss_objects ?st ! r)),
       se_log := se_log (ss_objects ?st ! r) @ [ev]\<rparr>"
    and f: "ss_alive st" "length (ss_objects st) = length (ss_objects ?st)" "ss_projections st = ss_projections ?st"
      "q = se_next_seq (ss_objects ?st ! r)" by blast
  obtain ev' where ev': "ev_type ev' = ty" "ev_data ev' = data" "se_log (ss_objects st ! r) = se_log (ss_objects ?st ! r) @ [ev']"
    using append_event_object [OF a r] x by auto
  then have "ev' = ev" using o by simp
  with ev ev' o f x a r show thesis
    by (intro that [of q "w\<lparr>aw_store := st\<rparr>" ev]) (simp_all add: append_act_def session_object_def holds_session_def)
qed

lemma validate_prompt:
  assumes "i \<noteq> []"
  shows "validate_event \<lparr>ev_seq = q, ev_time = n, ev_type = ''system/message'',
     ev_data = system_message_data i ''agent-loop'' t, ev_ignorable = b\<rparr> = None"
  using assms
  by (simp add: validate_event_def is_builtin_surface_type_def message_object_def system_message_data_def require_id_def
      require_content_def nonempty_string_def first_error_def validate_system_def text_content_def)

definition rewrite_data :: "session_seq \<Rightarrow> string option \<Rightarrow> string \<Rightarrow> json" where
  "rewrite_data target t i = JObject ([(''start_seq'', JInt target), (''end_seq'', JInt (target + 1))] @
     (case t of None \<Rightarrow> [] | Some x \<Rightarrow> [(''message'', system_payload i x)]))"

lemma rewrite_members [simp]:
  "member ([(''start_seq'', a), (''end_seq'', b)] @ ms) k =
     (if k = ''start_seq'' then Some a else if k = ''end_seq'' then Some b else member ms k)"
  by (simp add: member_append)

lemma validate_rewrite:
  assumes "i \<noteq> []" and "target < q" and "unat q < 2 ^ 63"
  shows "validate_event \<lparr>ev_seq = q, ev_time = n, ev_type = ''surface/replace'', ev_data = rewrite_data target t i,
     ev_ignorable = b\<rparr> = None"
proof -
  have lt: "unat target < unat q" using assms(2) by (simp add: word_less_nat_alt)
  then have n: "unat (target + 1) = Suc (unat target)" using assms(3) by (simp add: unat_word_ariths)
  have "sint target = int (unat target)" "sint (target + 1) = int (Suc (unat target))" "sint q = int (unat q)"
    using small_sint [of target] small_sint [of "target + 1"] small_sint [of q] lt n assms(3) by simp_all
  moreover have "1 + uint target \<le> uint q" using assms(2) by (simp add: word_less_def)
  ultimately show ?thesis using assms(1)
    by (cases t) (simp_all add: validate_event_def is_builtin_surface_type_def validate_replace_def rewrite_data_def
        Let_def system_payload_def require_id_def require_content_def nonempty_string_def first_error_def
        replacement_role_def text_content_def)
qed

lemma unprojected:
  "\<not> has_projection ty st \<Longrightarrow> ev_type ev = ty \<Longrightarrow> fold_event ev (ss_projections st) = fold_builtin ev"
  by (auto simp: fold_event_def has_projection_def find_Some_iff split: option.split)

lemma fold_prompt:
  assumes "ev_type ev = ''system/message''" and "ev_data ev = system_message_data i ''agent-loop'' t"
    and "\<not> has_projection ''system/message'' st"
  shows "surface_fold (ss_projections st) ev sf = surface_push (ev_seq ev) (prompt_message i t) sf"
  using assms(2)
  by (simp add: surface_fold_def unprojected [OF assms(3, 1)] fold_builtin_def assms(1) fold_message_def
      surface_message_object_def system_message_data_def string_field_def source_plugin_def source_field_def append_plan_def
      no_plan_def prompt_message_def)

lemma fold_rewrite:
  assumes "ev_type ev = ''surface/replace''" and "ev_data ev = rewrite_data target t i"
    and "\<not> has_projection ''surface/replace'' st"
  shows "surface_fold (ss_projections st) ev sf =
    surface_replace target (target + 1) (ev_seq ev) (map_option (prompt_message i) t) sf"
  using assms(2)
  by (cases t) (simp_all add: surface_fold_def unprojected [OF assms(3, 1)] fold_builtin_def assms(1) fold_replace_def
      rewrite_data_def replacement_message_def system_payload_def string_field_def source_plugin_def source_field_def
      parse_role_def prompt_message_def)

text \<open>The effect of the two actions on the nodes.\<close>

lemma ready_next:
  assumes "prompt_ready (Suc k) r w" and "session_object r w' = (session_object r w)\<lparr>se_next_seq := se_next_seq (session_object r w) + 1,
       se_surface := sf, se_log := lg\<rparr>"
    and "ss_alive (aw_store w')" "holds_session r w'" "ss_projections (aw_store w') = ss_projections (aw_store w)"
    and "aligned sf" and "map snd (nodes sf) = sf_source_seqs sf"
    and "distinct (map snd (nodes sf))" "snd ` set (nodes sf) \<subseteq> insert (se_next_seq (session_object r w)) (snd ` set (surface_nodes r w))"
  shows "prompt_ready k r w'"
proof -
  let ?q = "se_next_seq (session_object r w)"
  have up: "unat (?q + 1) = Suc (unat ?q)"
    using assms(1) by (simp add: prompt_ready_def unat_word_ariths)
  have old: "x < ?q + 1" if "x \<in> insert ?q (snd ` set (surface_nodes r w))" for x
  proof -
    have "snd ` set (surface_nodes r w) \<subseteq> set (sf_source_seqs (se_surface (session_object r w)))"
      by (auto simp: surface_nodes_def nodes_def dest: set_zip_rightD)
    with that assms(1) have "x = ?q \<or> x < ?q" unfolding prompt_ready_def by blast
    then have "x \<le> ?q" by auto
    with up show ?thesis by (simp add: word_less_nat_alt word_le_nat_alt)
  qed
  have "set (sf_source_seqs sf) = snd ` set (nodes sf)" using assms(7) by (metis list.set_map)
  with assms old up show ?thesis
    by (auto simp: prompt_ready_def has_projection_def)
qed

lemma ready_facts:
  assumes "prompt_ready k r w"
  shows "ss_alive (aw_store w)" "holds_session r w" "\<not> has_projection ''system/message'' (aw_store w)"
    "\<not> has_projection ''surface/replace'' (aw_store w)" "aligned (se_surface (session_object r w))"
    "distinct (map snd (surface_nodes r w))" "\<forall>x \<in> set (surface_nodes r w). snd x < se_next_seq (session_object r w)"
    "unat (se_next_seq (session_object r w)) + k < 2 ^ 63"
proof -
  have "map snd (surface_nodes r w) = sf_source_seqs (se_surface (session_object r w))"
    using assms unfolding surface_nodes_def by (intro source_seqs_nodes) (simp add: prompt_ready_def)
  then show "distinct (map snd (surface_nodes r w))" "\<forall>x \<in> set (surface_nodes r w). snd x < se_next_seq (session_object r w)"
    using assms by (auto simp: prompt_ready_def) (metis image_eqI list.set_map snd_conv)
qed (use assms in \<open>simp_all add: prompt_ready_def\<close>)

lemma append_prompt_nodes:
  assumes "prompt_ready (Suc k) r w"
  obtains w' i where "append_prompt E r t w = Some (Inr (), w')" "prompt_ready k r w'" "aw_bus w' = aw_bus w"
    "surface_nodes r w' = surface_nodes r w @ [(prompt_message i t, se_next_seq (session_object r w))]"
proof -
  note f = ready_facts [OF assms]
  let ?i = "log_id ''s'' r (aw_store w)"
  obtain q w' ev where a: "append_act E r ''system/message'' (system_message_data ?i ''agent-loop'' t) w = Some (Inr q, w')"
    "aw_bus w' = aw_bus w" "ss_alive (aw_store w')" "holds_session r w'" "ss_projections (aw_store w') = ss_projections (aw_store w)"
    and ev: "ev_type ev = ''system/message''" "ev_data ev = system_message_data ?i ''agent-loop'' t"
      "ev_seq ev = se_next_seq (session_object r w)"
    and o: "session_object r w' = (session_object r w)\<lparr>se_next_seq := se_next_seq (session_object r w) + 1,
       se_surface := surface_fold (ss_projections (aw_store w)) ev (se_surface (session_object r w)),
       se_log := se_log (session_object r w) @ [ev]\<rparr>"
    by (rule append_admitted [OF f(1, 2), where E = E and ty = "''system/message''" and data = "system_message_data ?i ''agent-loop'' t"])
      (simp_all add: validate_prompt log_id_def)
  let ?sf = "surface_push (ev_seq ev) (prompt_message ?i t) (se_surface (session_object r w))"
  note o' = o [unfolded fold_prompt [OF ev(1, 2) f(3)]]
  have n: "nodes ?sf = surface_nodes r w @ [(prompt_message ?i t, se_next_seq (session_object r w))]"
    by (simp add: nodes_push [OF f(5)] ev(3) surface_nodes_def)
  have "prompt_ready k r w'"
  proof (rule ready_next [OF assms o' a(3-5)])
    show al: "aligned ?sf" using f(5) by simp
    show "map snd (nodes ?sf) = sf_source_seqs ?sf" by (rule source_seqs_nodes [OF al])
  qed (use f(6, 7) in \<open>auto simp: n\<close>)
  moreover have "surface_nodes r w' = nodes ?sf" by (simp add: surface_nodes_def o')
  moreover have "append_prompt E r t w = Some (Inr (), w')" by (simp add: append_prompt_def and_then_def a(1) give_def)
  ultimately show thesis using that a(2) n by metis
qed

lemma rewrite_nodes:
  assumes "prompt_ready (Suc k) r w" and "target < se_next_seq (session_object r w)"
  obtains w' i where "rewrite_node E r target t w = Some (Inr (), w')" "prompt_ready k r w'"
    "se_next_seq (session_object r w) < se_next_seq (session_object r w')"
    "surface_nodes r w' = splice (\<lambda>x. snd x = target)
       (map_option (\<lambda>t. (prompt_message i t, se_next_seq (session_object r w))) t) (surface_nodes r w)"
proof -
  note f = ready_facts [OF assms(1)]
  let ?i = "log_id ''s'' r (aw_store w)" and ?q = "se_next_seq (session_object r w)"
  have small: "unat ?q < 2 ^ 63" "unat target < 2 ^ 63" using f(8) assms(2) by (simp_all add: word_less_nat_alt)
  obtain q w' ev where a: "append_act E r ''surface/replace'' (rewrite_data target t ?i) w = Some (Inr q, w')"
    "aw_bus w' = aw_bus w" "ss_alive (aw_store w')" "holds_session r w'" "ss_projections (aw_store w') = ss_projections (aw_store w)"
    and ev: "ev_type ev = ''surface/replace''" "ev_data ev = rewrite_data target t ?i" "ev_seq ev = ?q"
    and o: "session_object r w' = (session_object r w)\<lparr>se_next_seq := ?q + 1,
       se_surface := surface_fold (ss_projections (aw_store w)) ev (se_surface (session_object r w)),
       se_log := se_log (session_object r w) @ [ev]\<rparr>"
    by (rule append_admitted [OF f(1, 2), where E = E and ty = "''surface/replace''" and data = "rewrite_data target t ?i"])
      (simp_all add: validate_rewrite [OF _ assms(2) small(1)] log_id_def)
  let ?sf = "surface_replace target (target + 1) ?q (map_option (prompt_message ?i) t) (se_surface (session_object r w))"
  note o' = o [unfolded fold_rewrite [OF ev(1, 2) f(4)] ev(3)]
  have n: "nodes ?sf = splice (\<lambda>x. snd x = target) (map_option (\<lambda>t. (prompt_message ?i t, ?q)) t) (surface_nodes r w)"
    and al: "aligned ?sf"
    using surface_replace_nodes [OF f(5), of target "target + 1" ?q "map_option (prompt_message ?i) t"]
    by (simp_all add: next_span [OF small(2)] surface_nodes_def option.map_comp comp_def)
  have "prompt_ready k r w'"
  proof (rule ready_next [OF assms(1) o' a(3-5) al source_seqs_nodes [OF al]])
    show "distinct (map snd (nodes ?sf))"
      unfolding n by (rule distinct_splice [OF f(6)]) (use f(7) in \<open>cases t; auto\<close>)
    show "snd ` set (nodes ?sf) \<subseteq> insert ?q (snd ` set (surface_nodes r w))"
      unfolding n using set_splice [of "\<lambda>x. snd x = target" "map_option (\<lambda>t. (prompt_message ?i t, ?q)) t" "surface_nodes r w"]
      by auto
  qed
  moreover have "surface_nodes r w' = nodes ?sf" by (simp add: surface_nodes_def o')
  moreover have "rewrite_node E r target t w = Some (Inr (), w')"
    using a(1) by (simp add: rewrite_node_def rewrite_data_def and_then_def give_def)
  moreover have "?q < se_next_seq (session_object r w')"
    using f(8) by (simp add: o' word_less_nat_alt unat_word_ariths)
  ultimately show thesis using that n by metis
qed

section \<open>The prompt nodes\<close>

definition prompt_node :: "session_message \<times> session_seq \<Rightarrow> (session_seq \<times> string) option" where
  "prompt_node x = (if sm_role (fst x) = RoleSystem \<and> sm_source_plugin (fst x) = Some ''agent-loop''
     then Some (snd x, message_text (fst x)) else None)"

lemma prompt_nodes_map: "prompt_nodes sf = List.map_filter prompt_node (nodes sf)"
  by (simp add: prompt_nodes_def nodes_def prompt_node_def [abs_def] case_prod_unfold)

lemma prompt_message_node [simp]: "prompt_node (prompt_message i t, q) = Some (q, t)"
  by (simp add: prompt_node_def prompt_message_def message_text_def text_content_def get_string_at_def get_string_def)

lemma map_filter_simps2 [simp]:
  "List.map_filter f (xs @ ys) = List.map_filter f xs @ List.map_filter f ys"
  "List.map_filter f [] = []"
  by (simp_all add: List.map_filter_def)

lemma prompt_nodes_filter:
  "List.map_filter prompt_node (filter (\<lambda>x. P (snd x)) xs) = filter (\<lambda>n. P (fst n)) (List.map_filter prompt_node xs)"
  by (induction xs) (auto simp: List.map_filter_def prompt_node_def)

lemma prompt_nodes_mem: "n \<in> set (List.map_filter prompt_node xs) \<Longrightarrow> fst n \<in> snd ` set xs"
  by (force simp: List.map_filter_def prompt_node_def split: if_splits)

lemma prompt_nodes_distinct: "distinct (map snd xs) \<Longrightarrow> distinct (map fst (List.map_filter prompt_node xs))"
  by (induction xs) (auto simp: List.map_filter_def prompt_node_def split: if_splits)

lemma splice_single:
  assumes "List.map_filter prompt_node xs = [(q, t0)]"
  shows "List.map_filter prompt_node (splice (\<lambda>x. snd x = q) (Some (prompt_message i t, n)) xs) = [(n, t)]"
proof -
  let ?P = "\<lambda>x. snd x = (q :: session_seq)"
  have none: "List.map_filter prompt_node ys = []" if "set ys \<subseteq> set xs" "\<forall>y \<in> set ys. \<not> ?P y" for ys
  proof (rule ccontr)
    assume "List.map_filter prompt_node ys \<noteq> []"
    then obtain m where m: "m \<in> set (List.map_filter prompt_node ys)" by (meson list.set_sel(1))
    then have "m \<in> set (List.map_filter prompt_node xs)" using that(1) by (auto simp: List.map_filter_def)
    with prompt_nodes_mem [OF m] that(2) assms show False by auto
  qed
  have "List.map_filter prompt_node (takeWhile (\<lambda>x. \<not> ?P x) xs) = []"
    by (rule none) (auto dest: set_takeWhileD)
  moreover have "List.map_filter prompt_node (filter (\<lambda>x. \<not> ?P x) (dropWhile (\<lambda>x. \<not> ?P x) xs)) = []"
    by (rule none) (auto dest: set_dropWhileD)
  ultimately show ?thesis by (simp add: splice_def List.map_filter_def)
qed

lemma remove_nodes:
  assumes "prompt_ready (length ns + k) r w" and "\<forall>n \<in> set ns. fst n < se_next_seq (session_object r w)"
  obtains w' where "each (\<lambda>n. rewrite_node E r (fst n) None) ns w = Some (Inr (), w')" "prompt_ready k r w'"
    "se_next_seq (session_object r w) \<le> se_next_seq (session_object r w')"
    "surface_nodes r w' = filter (\<lambda>x. snd x \<notin> fst ` set ns) (surface_nodes r w)"
  using assms
proof (induction ns arbitrary: w thesis)
  case (Cons n ns)
  from Cons.prems(2, 3) obtain w1 where w1: "rewrite_node E r (fst n) None w = Some (Inr (), w1)"
    "prompt_ready (length ns + k) r w1" "se_next_seq (session_object r w) < se_next_seq (session_object r w1)"
    "surface_nodes r w1 = filter (\<lambda>x. snd x \<noteq> fst n) (surface_nodes r w)"
    by (auto intro: rewrite_nodes [of "length ns + k" r w "fst n" E None] simp: splice_none)
  have "\<forall>m \<in> set ns. fst m < se_next_seq (session_object r w1)" using Cons.prems(3) w1(3) by auto
  from Cons.IH [OF _ w1(2) this] obtain w' where "each (\<lambda>n. rewrite_node E r (fst n) None) ns w1 = Some (Inr (), w')"
    "prompt_ready k r w'" "se_next_seq (session_object r w1) \<le> se_next_seq (session_object r w')"
    "surface_nodes r w' = filter (\<lambda>x. snd x \<notin> fst ` set ns) (surface_nodes r w1)" by blast
  with w1 show ?case by (intro Cons.prems(1) [of w']) (auto simp: and_then_def conj_commute intro: filter_cong)
qed (auto simp: give_def)

text \<open>The nodes that are not the loop's prompt.\<close>

definition other_nodes :: "(session_message \<times> session_seq) list \<Rightarrow> (session_message \<times> session_seq) list" where
  "other_nodes xs = filter (\<lambda>x. prompt_node x = None) xs"

lemma prompt_seq:
  assumes "distinct (map snd xs)" and "n \<in> set (List.map_filter prompt_node xs)" and "x \<in> set xs" and "snd x = fst n"
  shows "prompt_node x \<noteq> None"
proof -
  from assms(2) obtain y where y: "y \<in> set xs" "prompt_node y = Some n" by (auto simp: List.map_filter_def)
  then have "snd y = fst n" by (auto simp: prompt_node_def split: if_splits)
  with assms y(1) have "x = y" by (metis eq_key_imp_eq_value prod.collapse prod.inject distinct_map inj_onD)
  with y(2) show ?thesis by simp
qed

lemma other_nodes_filter:
  assumes "distinct (map snd xs)" and "Q \<subseteq> fst ` set (List.map_filter prompt_node xs)"
  shows "other_nodes (filter (\<lambda>x. snd x \<notin> Q) xs) = other_nodes xs"
  unfolding other_nodes_def filter_filter
  by (rule filter_cong [OF refl]) (use prompt_seq [OF assms(1)] assms(2) in fastforce)

lemma other_nodes_splice:
  assumes "distinct (map snd xs)" and "n \<in> set (List.map_filter prompt_node xs)"
  shows "other_nodes (splice (\<lambda>x. snd x = fst n) (Some (prompt_message i t, q)) xs) = other_nodes xs"
proof -
  let ?P = "\<lambda>x. snd x = fst n"
  have "other_nodes (splice ?P (Some (prompt_message i t, q)) xs) = other_nodes (splice ?P None xs)"
    by (simp add: splice_def other_nodes_def)
  also have "\<dots> = other_nodes (filter (\<lambda>x. snd x \<notin> {fst n}) xs)" by (simp add: splice_none)
  also have "\<dots> = other_nodes xs" by (rule other_nodes_filter [OF assms(1)]) (use assms(2) in auto)
  finally show ?thesis .
qed

lemma commit_prompt:
  assumes "prompt_ready (length ns + 1) r w" and "ns = prompt_nodes (se_surface (session_object r w))"
  obtains w' where "commit_system_prompt E r rendered in_history starts_series w = Some (Inr (), w')"
    "other_nodes (surface_nodes r w') = other_nodes (surface_nodes r w)"
    "if ns \<noteq> [] \<and> in_history \<and> \<not> starts_series \<and> rendered \<noteq> []
     then snd (last (prompt_nodes (se_surface (session_object r w')))) = rendered
     else map snd (prompt_nodes (se_surface (session_object r w'))) = (if rendered = [] then [] else [rendered])"
proof -
  let ?pn = "List.map_filter prompt_node"
  have pn: "prompt_nodes (se_surface (session_object r v)) = ?pn (surface_nodes r v)" for v
    by (simp add: prompt_nodes_map surface_nodes_def)
  note f = ready_facts [OF assms(1)]
  have ns: "ns = ?pn (surface_nodes r w)" using assms(2) by (simp add: pn)
  have lt: "fst n < se_next_seq (session_object r w)" if "n \<in> set ns" for n
    using prompt_nodes_mem [of n "surface_nodes r w"] that f(7) ns by auto
  note c = commit_system_prompt_def Let_def only_if_def assms(2) [symmetric]
  obtain wa i where app: "append_prompt E r rendered w = Some (Inr (), wa)"
    "surface_nodes r wa = surface_nodes r w @ [(prompt_message i rendered, se_next_seq (session_object r w))]"
    by (rule append_prompt_nodes [OF assms(1) [unfolded Suc_eq_plus1 [symmetric]]])
  have appended: "?pn (surface_nodes r wa) = ns @ [(se_next_seq (session_object r w), rendered)]"
    "other_nodes (surface_nodes r wa) = other_nodes (surface_nodes r w)"
    by (simp_all add: app(2) ns other_nodes_def List.map_filter_def [where xs = "[_]"])
  show thesis
  proof (cases "ns = [] \<or> (in_history \<and> \<not> starts_series \<and> rendered \<noteq> [])")
    case True
    show thesis
    proof (cases "rendered = [] \<or> (ns \<noteq> [] \<and> snd (last ns) = rendered)")
      case same: True
      then have "commit_system_prompt E r rendered in_history starts_series w = Some (Inr (), w)"
        using True by (auto simp: c give_def)
      moreover have "map snd ns = []" if "ns = []" using that by simp
      ultimately show thesis using True same by (intro that [of w]) (auto simp: pn [of w] ns [symmetric])
    next
      case False
      with True app(1) have "commit_system_prompt E r rendered in_history starts_series w = Some (Inr (), wa)"
        by (auto simp: c)
      then show thesis using True False appended by (intro that [of wa]) (auto simp: pn [of wa])
    qed
  next
    case False
    then obtain n ms where nm: "ns = n # ms" by (cases ns) auto
    have "prompt_ready (length ms + 2) r w" using assms(1) nm by simp
    moreover have "\<forall>m \<in> set ms. fst m < se_next_seq (session_object r w)" using lt nm by simp
    ultimately obtain w1 where w1: "each (\<lambda>n. rewrite_node E r (fst n) None) ms w = Some (Inr (), w1)"
      "prompt_ready 2 r w1" "se_next_seq (session_object r w) \<le> se_next_seq (session_object r w1)"
      "surface_nodes r w1 = filter (\<lambda>x. snd x \<notin> fst ` set ms) (surface_nodes r w)" by (rule remove_nodes)
    have dist: "distinct (map fst ns)" using prompt_nodes_distinct [OF f(6)] ns by simp
    have pn1: "?pn (surface_nodes r w1) = [n]"
      using dist unfolding w1(4) prompt_nodes_filter [where P = "\<lambda>q. q \<notin> fst ` set ms"] ns [symmetric] nm
      by (auto simp: filter_empty_conv)
    have o1: "other_nodes (surface_nodes r w1) = other_nodes (surface_nodes r w)"
      unfolding w1(4) by (rule other_nodes_filter [OF f(6)]) (auto simp: ns [symmetric] nm)
    note f1 = ready_facts [OF w1(2)]
    have n1: "fst n < se_next_seq (session_object r w1)" using lt [of n] nm w1(3) by simp
    have r1: "prompt_ready (Suc 1) r w1" using w1(2) by (simp add: numeral_2_eq_2)
    from rewrite_nodes [OF r1 n1, of E "if rendered = [] then None else Some rendered"] obtain w2 j where
      w2: "rewrite_node E r (fst n) (if rendered = [] then None else Some rendered) w1 = Some (Inr (), w2)"
      "surface_nodes r w2 = splice (\<lambda>x. snd x = fst n)
         (map_option (\<lambda>t. (prompt_message j t, se_next_seq (session_object r w1))) (if rendered = [] then None else Some rendered))
         (surface_nodes r w1)" by metis
    have p2: "map snd (?pn (surface_nodes r w2)) = (if rendered = [] then [] else [rendered])"
    proof (cases "rendered = []")
      case True
      then show ?thesis using prompt_nodes_filter [of "\<lambda>q. q \<noteq> fst n"] by (simp add: w2(2) splice_none pn1)
    next
      case False
      then show ?thesis using splice_single [of "surface_nodes r w1" "fst n" "snd n"] by (simp add: w2(2) pn1)
    qed
    have o2: "other_nodes (surface_nodes r w2) = other_nodes (surface_nodes r w)"
    proof (cases "rendered = []")
      case True
      have "other_nodes (filter (\<lambda>x. snd x \<notin> {fst n}) (surface_nodes r w1)) = other_nodes (surface_nodes r w1)"
        by (rule other_nodes_filter [OF f1(6)]) (simp add: pn1)
      with True o1 show ?thesis by (simp add: w2(2) splice_none)
    next
      case False
      then show ?thesis using other_nodes_splice [OF f1(6), of n] o1 by (simp add: w2(2) pn1)
    qed
    have run: "commit_system_prompt E r rendered in_history starts_series w =
        (if rendered = [] then rewrite_node E r (fst n) None
         else if snd n \<noteq> rendered then rewrite_node E r (fst n) (Some rendered) else give ()) w1"
      using False w1(1) by (auto simp: c nm and_then_def)
    show thesis
    proof (cases "rendered \<noteq> [] \<and> snd n = rendered")
      case True
      then show thesis using run False o1 by (intro that [of w1]) (auto simp: pn pn1 give_def)
    next
      case changed: False
      with run w2(1) have "commit_system_prompt E r rendered in_history starts_series w = Some (Inr (), w2)"
        by (auto split: if_splits)
      then show thesis using False o2 p2 by (intro that [of w2]) (auto simp: pn)
    qed
  qed
qed

end
