(* ===== verification/AgentDrives.thy ===== *)
theory AgentDrives
  imports AgentPrompt
begin

text \<open>
  Drives of the agent loop: at most one is spawned or in progress for a driver. A whole turn and a whole drive
  respect every order that the appends and the environment respect (\<open>free_round\<close>); the public operations,
  a drive and its completion keep the drivers that are being driven apart.
\<close>

section \<open>Whole turns\<close>

locale free_round = quiet_round R E r for R E r +
  assumes any: "append_act E r ty data w = Some (res, w') \<Longrightarrow> R w w'"
begin

lemma stays_any: "stays R (append_act E r ty data)" "stays R (\<lambda>w. append_act E r ty (f w) w)"
  by (auto intro!: staysI dest: any)

lemma stays_outcome: "stays R (change (set_outcome d f))"
  unfolding set_outcome_def by (rule stays_change) (simp add: driver)

lemma bracketed_stays: "stays R (bracketed_step E d r turn step p decision)"
  unfolding bracketed_step_def by (auto intro!: stays_rules stays_any run_step_stays)

lemma round_stays: "stays R (turn_round E d r turn step first_step ended)"
  unfolding turn_round_def
  by (auto intro!: stays_rules pre_step_stays bracketed_stays close_round_stays split: prod.split)

lemma loop_stays: "turn_loop E d r turn step first_step ended w = Some (res, w') \<Longrightarrow> R w w'"
proof (induction "2 ^ 32 - unat step" arbitrary: step first_step ended w rule: less_induct)
  case less
  show ?case
  proof (cases "stop_requested d w \<or> step \<ge> ucast (max_steps_of d w)")
    case True
    with less.prems refl show ?thesis by (auto simp: turn_loop.simps [of E d r turn step] split: if_splits)
  next
    case False
    with less.prems obtain x w1 where r1: "turn_round E d r turn (step + 1) first_step ended w = Some (x, w1)"
      by (auto simp: turn_loop.simps [of E d r turn step] split: option.splits)
    note kept = staysD [OF round_stays r1]
    show ?thesis
    proof (cases "\<exists>e. x = Inr (Inr e)")
      case True
      then obtain e where "turn_loop E d r turn (step + 1) False e w1 = Some (res, w')"
        using less.prems False by (auto simp: turn_loop.simps [of E d r turn step] r1)
      moreover have "2 ^ 32 - unat (step + 1) < 2 ^ 32 - unat step"
        using step_in_range [of "max_steps_of d w" step] False by auto
      ultimately have "R w1 w'" using less.hyps by blast
      with kept show ?thesis by (rule trans)
    next
      case stop: False
      with less.prems False have "w1 = w'"
        by (auto simp: turn_loop.simps [of E d r turn step] r1 split: sum.splits)
      with kept show ?thesis by simp
    qed
  qed
qed

lemma turn_stays:
  "stays R (open_turn E d r turn)" "stays R (fail_turn E d r turn e)" "stays R (close_turn E d r turn ended)"
  "stays R (turn_loop E d r turn 0 True None)"
  unfolding open_turn_def fail_turn_def close_turn_def Let_def
  by (intro stays_and_then stays_any stays_outcome stays_emit stays_throw stays_peek)+
    (rule staysI, rule loop_stays)

end

lemma run_turn_stays:
  assumes "\<And>r. free_round R E r"
  shows "stays R (run_turn E d)"
proof (rule staysI)
  fix w res w' assume run: "run_turn E d w = Some (res, w')"
  note f = assms
  show "R w w'"
  proof (cases "get_session (as_session (driver d w)) (aw_store w)")
    case None
    with run have "w' = w" by (simp add: run_turn_def)
    then show ?thesis using quiet_order.refl [OF step_order.axioms [OF quiet_round.axioms(1) [OF free_round.axioms(1) [OF f]]]]
      by simp
  next
    case (Some r)
    note q = step_order.axioms [OF quiet_round.axioms(1) [OF free_round.axioms(1) [OF f [of r]]]]
    note t = free_round.turn_stays [OF f [of r]]
    from run Some show ?thesis
      by (auto simp: run_turn_def Let_def intro!: quiet_order.stays_on_error [OF q] quiet_order.stays_and_then [OF q] t
          elim!: quiet_order.ran_and_then [OF q])
  qed
qed

lemma drive_stays:
  assumes "\<And>r. free_round R E r"
  shows "stays R (drive E d)"
proof (rule staysI)
  note q = step_order.axioms [OF quiet_round.axioms(1) [OF free_round.axioms(1) [OF assms]]]
  fix w res w' assume "drive E d w = Some (res, w')"
  then have "(\<forall>w res w'. run_turn E d w = Some (res, w') \<longrightarrow> R w w') \<longrightarrow> R w (snd (res, w'))"
  proof (rule drive.raw_induct [where P = "\<lambda>E d w y. (\<forall>w res w'. run_turn E d w = Some (res, w') \<longrightarrow> R w w') \<longrightarrow> R w (snd y)",
      rotated], intro impI)
    fix f E d w y
    assume IH: "\<And>E d w y. f E d w = Some y \<Longrightarrow> (\<forall>w res w'. run_turn E d w = Some (res, w') \<longrightarrow> R w w') \<longrightarrow> R w (snd y)"
      and T: "\<forall>w res w'. run_turn E d w = Some (res, w') \<longrightarrow> R w w'"
      and body: "(if stop_requested d w then Some (Inr (), w)
        else (case run_turn E d w of None \<Rightarrow> None | Some (Inl e, w') \<Rightarrow> Some (Inl e, w')
         | Some (Inr again, w') \<Rightarrow> if again then f E d w' else Some (Inr (), w'))) = Some y"
    show "R w (snd y)"
    proof (cases "stop_requested d w")
      case True
      with body quiet_order.refl [OF q] show ?thesis by auto
    next
      case False
      with body obtain x w1 where t: "run_turn E d w = Some (x, w1)" and rest: "snd y = w1 \<or> f E d w1 = Some y"
        by (auto split: option.splits sum.splits if_splits)
      from T t have k: "R w w1" by blast
      from rest show ?thesis
      proof
        assume "f E d w1 = Some y"
        with IH T have "R w1 (snd y)" by blast
        with k show ?thesis by (rule quiet_order.trans [OF q])
      qed (use k in simp)
    qed
  qed
  moreover have "\<forall>w res w'. run_turn E d w = Some (res, w') \<longrightarrow> R w w'"
    using run_turn_stays [OF assms] by (auto simp: stays_def)
  ultimately show "R w w'" by simp
qed

section \<open>Drives in progress\<close>

text \<open>
  \<open>driven\<close>: the spawned drives are of different, running drivers. A drive in progress is one that was taken
  out of the spawned ones to run: its driver is running and not spawned a second time.
\<close>

definition driven :: "agent_world \<Rightarrow> bool" where
  "driven w \<longleftrightarrow> distinct (aw_drives w) \<and>
     (\<forall>d \<in> set (aw_drives w). d < length (aw_drivers w) \<and> as_running (driver d w)) \<and>
     (\<forall>i d. map_of (aw_states w) i = Some d \<longrightarrow> d < length (aw_drivers w))"

definition in_progress :: "nat \<Rightarrow> agent_world \<Rightarrow> bool" where
  "in_progress d w \<longleftrightarrow> d < length (aw_drivers w) \<and> as_running (driver d w) \<and> d \<notin> set (aw_drives w)"

text \<open>An action keeps a set of drives in progress.\<close>

definition keeps :: "nat set \<Rightarrow> agent_world \<Rightarrow> agent_world \<Rightarrow> bool" where
  "keeps D w w' \<longleftrightarrow>
     (driven w \<and> (\<forall>d \<in> D. in_progress d w) \<longrightarrow>
        driven w' \<and> (\<forall>d \<in> D. in_progress d w') \<and> length (aw_drivers w) \<le> length (aw_drivers w'))"

lemma keeps_refl: "keeps D w w"
  by (simp add: keeps_def)

lemma keeps_trans: "keeps D a b \<Longrightarrow> keeps D b c \<Longrightarrow> keeps D a c"
  by (auto simp: keeps_def)

text \<open>What leaves the drives and the running drivers as they are.\<close>

lemma keeps_same:
  assumes "aw_drives w' = aw_drives w" and "\<And>i d. map_of (aw_states w') i = Some d \<Longrightarrow> map_of (aw_states w) i = Some d"
    and "length (aw_drivers w') = length (aw_drivers w)"
    and "\<And>d. d < length (aw_drivers w) \<Longrightarrow> as_running (driver d w') = as_running (driver d w)"
  shows "keeps D w w'"
  using assms(1, 3, 4) by (auto simp: keeps_def driven_def in_progress_def dest: assms(2))

lemma driver_set_driver:
  "driver e (set_driver d f w) = (if e = d \<and> d < length (aw_drivers w) then f (driver d w) else driver e w)"
  by (cases "d < length (aw_drivers w)") (auto simp: driver_def set_driver_def list_update_beyond)

lemma keeps_set_driver: "(\<And>s. as_running (f s) = as_running s) \<Longrightarrow> keeps D w (set_driver d f w)"
  by (rule keeps_same) (simp_all add: driver_set_driver)

lemma keeps_plain:
  "aw_drives w' = aw_drives w \<Longrightarrow> aw_states w' = aw_states w \<Longrightarrow> aw_drivers w' = aw_drivers w \<Longrightarrow> keeps D w w'"
  by (rule keeps_same) (simp_all add: driver_def)

interpretation drive_order: step_order "keeps D" E r for D E r
  unfolding step_order_def
proof
  show "keeps D w (set_driver d f w)"
    if "\<And>s. as_exec (f s) = as_exec s \<and> as_session (f s) = as_session s \<and> as_running (f s) = as_running s" for w d f
    using that by (intro keeps_set_driver) simp
  show "keeps D w (tell n w)" for w n by (rule keeps_plain) simp_all
  show "keeps D w w'" if "append_act E r ty data w = Some (res, w')" for ty data w res w'
    by (subst append_act_frame [OF that]) (rule keeps_plain; simp)
qed (rule keeps_refl, rule keeps_trans)

lemma append_keeps: "append_act E r ty data w = Some (res, w') \<Longrightarrow> keeps D w w'"
  by (subst append_act_frame) (auto intro: keeps_plain)

text \<open>The environment: during a drive other drives and operations run, and keep the drives in progress.\<close>

definition drives_apart :: "agent_env \<Rightarrow> bool" where
  "drives_apart E \<longleftrightarrow> (\<forall>D. env_stays (keeps D) E \<and> (\<forall>i. stays (keeps D) (ae_created E i)) \<and>
     (\<forall>i. stays (keeps D) (ae_disposed E i)) \<and> (\<forall>x w. keeps D w (ae_resume E x w)))"

lemma keeps_free_round: "drives_apart E \<Longrightarrow> free_round (keeps D) E r"
  by unfold_locales (auto simp: drives_apart_def intro: append_keeps)

section \<open>The operations\<close>

lemma request_stop_fields [simp]:
  "aw_drives (request_stop i w) = aw_drives w" "aw_states (request_stop i w) = aw_states w"
  "aw_drivers (request_stop i w) = aw_drivers w" "aw_store (request_stop i w) = aw_store w"
  by (simp_all add: request_stop_def)

lemma keeps_abort: "keeps D w (abort_drive d w)"
  by (rule keeps_plain) (simp_all add: abort_drive_def split: option.split)

lemma keeps_resume:
  assumes "drives_apart E" shows "keeps D w (resume_waiters E d w)"
proof -
  have "keeps D v (fold (ae_resume E) xs v)" for xs v
  proof (induction xs arbitrary: v)
    case (Cons x xs)
    have "keeps D v (ae_resume E x v)" using assms by (simp add: drives_apart_def)
    with Cons [of "ae_resume E x v"] show ?case by (auto intro: keeps_trans)
  qed (simp add: keeps_refl)
  moreover have "keeps D w (set_driver d (\<lambda>s. s\<lparr>as_waiters := []\<rparr>) w)" by (rule keeps_set_driver) simp
  ultimately show ?thesis unfolding resume_waiters_def by (blast intro: keeps_trans)
qed

text \<open>\<open>kick\<close> spawns a drive of a driver that was idle, hence neither spawned nor in progress.\<close>

lemma kick_drivers:
  assumes "\<not> as_running (driver d w)" and "d < length (aw_drivers w)"
  shows "kick E d w = w \<or>
    aw_drives (kick E d w) = aw_drives w @ [d] \<and> aw_states (kick E d w) = aw_states w \<and>
    length (aw_drivers (kick E d w)) = length (aw_drivers w) \<and>
    (\<forall>e. as_running (driver e (kick E d w)) = (e = d \<or> as_running (driver e w)))"
proof (cases "get_session (as_session (driver d w)) (aw_store w)")
  case None
  with assms(1) show ?thesis by (simp add: kick_def)
next
  case (Some r)
  define w1 where "w1 = resolve_route d r w"
  define w2 where "w2 = set_driver d (\<lambda>s. s\<lparr>as_abort := Some (length (aw_stops w1))\<rparr>) (w1\<lparr>aw_stops := aw_stops w1 @ [False]\<rparr>)"
  define w3 where "w3 = set_driver d (\<lambda>s. s\<lparr>as_exec := (as_exec s)\<lparr>dv_stop := Some (length (aw_stops w1))\<rparr>\<rparr>) (bridge_stop d w2)"
  have k: "kick E d w = (emit_status d True w3)\<lparr>aw_drives := aw_drives (emit_status d True w3) @ [d]\<rparr>"
    using assms(1) Some by (simp add: kick_def Let_def w1_def w2_def w3_def)
  have plain [simp]: "driver e (x\<lparr>aw_stops := s\<rparr>) = driver e x" "driver e (x\<lparr>aw_drives := s'\<rparr>) = driver e x"
    "driver e (dispatch_notice n x) = driver e x" "driver e (request_stop i x) = driver e x" for e x s s' n i
    by (simp_all add: driver_def)
  have f1: "aw_drives w1 = aw_drives w \<and> aw_states w1 = aw_states w \<and> length (aw_drivers w1) = length (aw_drivers w) \<and>
      (\<forall>e. as_running (driver e w1) = as_running (driver e w))"
    by (auto simp: w1_def resolve_route_def driver_set_driver split: list.split)
  have f2: "aw_drives w2 = aw_drives w \<and> aw_states w2 = aw_states w \<and> length (aw_drivers w2) = length (aw_drivers w) \<and>
      (\<forall>e. as_running (driver e w2) = as_running (driver e w))"
    using f1 by (auto simp: w2_def driver_set_driver)
  have f3: "aw_drives w3 = aw_drives w \<and> aw_states w3 = aw_states w \<and> length (aw_drivers w3) = length (aw_drivers w) \<and>
      (\<forall>e. as_running (driver e w3) = as_running (driver e w))"
    using f2 by (auto simp: w3_def bridge_stop_def driver_set_driver Let_def split: option.split)
  with assms show ?thesis unfolding k by (auto simp: emit_status_def driver_set_driver)
qed

lemma keeps_kick:
  assumes "d < length (aw_drivers w)" shows "keeps D w (kick E d w)"
proof (cases "as_running (driver d w)")
  case True
  then show ?thesis by (simp add: kick_def keeps_refl)
next
  case False
  from kick_drivers [OF False assms, of E] show ?thesis
  proof
    assume k: "aw_drives (kick E d w) = aw_drives w @ [d] \<and> aw_states (kick E d w) = aw_states w \<and>
      length (aw_drivers (kick E d w)) = length (aw_drivers w) \<and>
      (\<forall>e. as_running (driver e (kick E d w)) = (e = d \<or> as_running (driver e w)))"
    show ?thesis
      unfolding keeps_def
    proof (intro impI)
      assume w: "driven w \<and> (\<forall>e \<in> D. in_progress e w)"
      then have "d \<notin> set (aw_drives w)" "d \<notin> D" using False by (auto simp: driven_def in_progress_def)
      with w k assms show "driven (kick E d w) \<and> (\<forall>e \<in> D. in_progress e (kick E d w)) \<and>
          length (aw_drivers w) \<le> length (aw_drivers (kick E d w))"
        by (auto simp: driven_def in_progress_def)
    qed
  qed (simp add: keeps_refl)
qed

lemma keeps_dispatch: "keeps D w (dispatch_notice n w)"
  by (rule keeps_plain) simp_all

lemma enqueue_keeps: "stays (keeps D) (enqueue E d t m)"
  by (rule staysI) (auto simp: enqueue_def Let_def keeps_refl split: option.splits if_splits
    elim!: drive_order.ran_and_then intro!: staysI [OF append_keeps] drive_order.stays_change keeps_dispatch)

lemma clear_inbox_keeps: "stays (keeps D) (clear_inbox E d)"
proof -
  have "stays (keeps D) (clear_queue E d r t)" for r t
    by (rule staysI) (auto simp: clear_queue_def Let_def keeps_refl split: option.splits if_splits
      elim!: drive_order.ran_and_then intro!: staysI [OF append_keeps] drive_order.stays_change drive_order.told_fold)
  then have "stays (keeps D) (each (clear_queue E d r) [NextStep, NextTurn])" for r
    by (rule drive_order.stays_each)
  then show ?thesis
    by - (rule staysI, auto simp: clear_inbox_def keeps_refl simp del: each.simps split: option.splits dest: staysD)
qed

lemma keeps_new_driver:
  assumes "map_of (aw_states w) i = None"
  shows "keeps D w (w\<lparr>aw_drivers := aw_drivers w @ [new_driver i], aw_states := om_emplace i (length (aw_drivers w)) (aw_states w)\<rparr>)"
  by (auto simp: keeps_def driven_def in_progress_def driver_def nth_append map_of_om_emplace assms less_Suc_eq
      split: if_splits)

lemma keeps_erase: "keeps D w (w\<lparr>aw_states := om_erase i (aw_states w)\<rparr>)"
  by (rule keeps_same) (simp_all add: driver_def split: if_splits)

lemma ensure_driver_keeps:
  assumes "drives_apart E" shows "stays (keeps D) (ensure_driver E r source)"
proof (rule staysI)
  fix w res w' assume run: "ensure_driver E r source w = Some (res, w')"
  let ?i = "id_of r w"
  let ?w = "w\<lparr>aw_drivers := aw_drivers w @ [new_driver ?i], aw_states := om_emplace ?i (length (aw_drivers w)) (aw_states w)\<rparr>"
  show "keeps D w w'"
  proof (cases "map_of (aw_states w) ?i")
    case None
    note n = keeps_new_driver [OF None, of D]
    have c: "stays (keeps D) (ae_created E j)" for j using assms by (simp add: drives_apart_def)
    have "keeps D ?w w'"
    proof (cases "aw_bus ?w")
      case False
      with run None keeps_refl show ?thesis by (auto simp: ensure_driver_def Let_def)
    next
      case True
      with run None have "on_error (and_then (change (tell (AgentCreated ?i source))) (\<lambda>_. ae_created E ?i))
          (\<lambda>e. and_then (change (\<lambda>w. w\<lparr>aw_states := om_erase ?i (aw_states w)\<rparr>)) (\<lambda>_. throw e)) ?w = Some (res, w')"
        by (simp add: ensure_driver_def Let_def)
      then show ?thesis
        by (rule drive_order.ran_on_error)
          (auto intro!: drive_order.stays_rules drive_order.stays_change keeps_erase c drive_order.told)
    qed
    with n show ?thesis by (rule keeps_trans)
  qed (use run in \<open>auto simp: ensure_driver_def Let_def keeps_refl\<close>)
qed

lemma require_driven:
  assumes "require_state i w = Some (res, w')"
  shows "w' = w" "driven w \<Longrightarrow> res = Inr d \<Longrightarrow> d < length (aw_drivers w)"
  using assms by (auto simp: require_state_def find_state_def driven_def split: option.splits)

lemma and_then_cong: "m w = m' w \<Longrightarrow> and_then m f w = and_then m' f w"
  by (simp add: and_then_def)

text \<open>Operations that get hold of a driver and then run on it.\<close>

definition runs_on :: "nat set \<Rightarrow> (nat \<Rightarrow> 'a action) \<Rightarrow> bool" where
  "runs_on D f \<longleftrightarrow> (\<forall>d w res w'. d < length (aw_drivers w) \<longrightarrow> f d w = Some (res, w') \<longrightarrow> keeps D w w')"

lemma keeps_required:
  assumes "and_then (require_state i) f w = Some (res, w')" and "runs_on D f"
  shows "keeps D w w'"
  unfolding keeps_def
proof (intro impI)
  assume w: "driven w \<and> (\<forall>e \<in> D. in_progress e w)"
  from assms(1) have "keeps D w w'"
  proof (cases rule: and_then_cases)
    case (error e)
    then show ?thesis using require_driven(1) [OF error(1)] keeps_refl by simp
  next
    case (step d w1)
    with require_driven [OF step(1)] w assms(2) show ?thesis by (auto simp: runs_on_def)
  qed
  with w show "driven w' \<and> (\<forall>e \<in> D. in_progress e w') \<and> length (aw_drivers w) \<le> length (aw_drivers w')"
    by (simp add: keeps_def)
qed

lemma keeps_ready:
  assumes "drives_apart E" and "runs_on D f"
  shows "stays (keeps D) (and_then (ensure_ready E i) f)"
proof (rule staysI)
  fix w res w' assume run: "and_then (ensure_ready E i) f w = Some (res, w')"
  show "keeps D w w'"
  proof (cases "get_session i (aw_store w)")
    case None
    then show ?thesis using run by (auto simp: ensure_ready_def and_then_def keeps_refl throw_def)
  next
    case (Some r)
    let ?m = "and_then (ensure_driver E r (lifecycle_source (session_object r w))) (\<lambda>_. require_state i)"
    from Some have "and_then (ensure_ready E i) f w = and_then ?m f w"
      by (intro and_then_cong) (simp add: ensure_ready_def)
    with run have "and_then (ensure_driver E r (lifecycle_source (session_object r w)))
        (\<lambda>_. and_then (require_state i) f) w = Some (res, w')"
      by (simp add: and_then_assoc)
    then show ?thesis
      by (rule drive_order.ran_and_then [OF _ ensure_driver_keeps [OF assms(1)]])
        (rule staysI, erule keeps_required [OF _ assms(2)])
  qed
qed

lemma keeps_length: "keeps D w w' \<Longrightarrow> driven w \<Longrightarrow> \<forall>e \<in> D. in_progress e w \<Longrightarrow> length (aw_drivers w) \<le> length (aw_drivers w')"
  by (simp add: keeps_def)

lemma keeps_merge: "keeps D w (merge_exec d opts w)" "length (aw_drivers (merge_exec d opts w)) = length (aw_drivers w)"
  unfolding merge_exec_def by (rule keeps_set_driver) simp_all

lemma keeps_if: "(driven w \<Longrightarrow> \<forall>e \<in> D. in_progress e w \<Longrightarrow> keeps D w w') \<Longrightarrow> keeps D w w'"
  by (auto simp: keeps_def)

lemma keeps_then_kick:
  assumes "keeps D w w1" and "d < length (aw_drivers w)"
  shows "keeps D w (kick E d w1)"
proof (rule keeps_if)
  assume "driven w" "\<forall>e \<in> D. in_progress e w"
  from keeps_length [OF assms(1) this] assms(2) have "d < length (aw_drivers w1)" by simp
  with assms(1) keeps_kick show ?thesis by (blast intro: keeps_trans)
qed

lemma queue_keeps: "runs_on D (\<lambda>d. and_then (change (merge_exec d opts)) (\<lambda>_. and_then (enqueue E d t m) (\<lambda>_. change (kick E d))))"
  unfolding runs_on_def
proof (intro allI impI)
  fix d w res w'
  assume d: "d < length (aw_drivers w)"
    and run: "and_then (change (merge_exec d opts)) (\<lambda>_. and_then (enqueue E d t m) (\<lambda>_. change (kick E d))) w = Some (res, w')"
  note m = keeps_merge(1) [of D w d opts]
  from run [unfolded and_then_simps] show "keeps D w w'"
  proof (cases rule: and_then_cases)
    case (error e)
    from staysD [OF enqueue_keeps error(1)] m show ?thesis by (blast intro: keeps_trans)
  next
    case (step x w1)
    from staysD [OF enqueue_keeps step(1)] m have "keeps D w w1" by (blast intro: keeps_trans)
    with step(2) d show ?thesis by (auto intro: keeps_then_kick)
  qed
qed

lemma followup_keeps: "drives_apart E \<Longrightarrow> stays (keeps D) (followup E i m opts)"
  unfolding followup_def by (rule keeps_ready [OF _ queue_keeps])

lemma steer_keeps: "drives_apart E \<Longrightarrow> stays (keeps D) (steer E i m opts)"
  unfolding steer_def by (rule keeps_ready [OF _ queue_keeps])

lemma inject_keeps: "drives_apart E \<Longrightarrow> stays (keeps D) (inject E i m)"
  unfolding inject_def by (rule keeps_ready) (auto simp: runs_on_def dest: staysD [OF enqueue_keeps])

lemma cancel_keeps: "stays (keeps D) (cancel E i keep_inbox)"
  by (rule staysI) (auto simp: cancel_def keeps_refl split: option.splits if_splits
    elim!: drive_order.ran_and_then intro!: clear_inbox_keeps drive_order.stays_give drive_order.stays_change keeps_abort
      intro: keeps_trans)

lemma start_run_keeps:
  assumes "drives_apart E" shows "stays (keeps D) (start_run E opts sink on_chunk)"
proof (rule staysI)
  fix w0 res w' assume run: "start_run E opts sink on_chunk w0 = Some (res, w')"
  let ?x = "run_exec opts sink on_chunk" and ?i = "rn_session opts"
  define body where "body r d = and_then (change (merge_exec d ?x)) (\<lambda>_ w.
            let input = user_text_data (log_id ''u'' r (aw_store w)) (rn_input opts)
            in if rn_input opts = [] then change (kick E d) w
               else if as_running (driver d w)
               then and_then (change (merge_exec d ?x)) (\<lambda>_.
                    and_then (enqueue E d NextTurn input) (\<lambda>_. change (set_driver d (\<lambda>s. s\<lparr>as_wake := True\<rparr>)))) w
               else change (\<lambda>w. kick E d (set_driver d (\<lambda>s. s\<lparr>as_seed := Some input\<rparr>) w)) w)" for r d
  have body: "runs_on D (body r)" for r
    unfolding runs_on_def
  proof (intro allI impI)
    fix d w res w' assume d: "d < length (aw_drivers w)" and run: "body r d w = Some (res, w')"
    let ?m = "merge_exec d ?x w"
    let ?input = "user_text_data (log_id ''u'' r (aw_store ?m)) (rn_input opts)"
    note m = keeps_merge(1) [of D _ d ?x]
    have seed: "keeps D ?m (set_driver d (\<lambda>s. s\<lparr>as_seed := Some ?input\<rparr>) ?m)" by (rule keeps_set_driver) simp
    have wake: "stays (keeps D) (change (set_driver d (\<lambda>s. s\<lparr>as_wake := True\<rparr>)))"
      by (rule drive_order.stays_change) (rule keeps_set_driver, simp)
    from run consider "w' = kick E d ?m" | "w' = kick E d (set_driver d (\<lambda>s. s\<lparr>as_seed := Some ?input\<rparr>) ?m)"
      | "and_then (enqueue E d NextTurn ?input) (\<lambda>_. change (set_driver d (\<lambda>s. s\<lparr>as_wake := True\<rparr>))) (merge_exec d ?x ?m) = Some (res, w')"
      by (auto simp: body_def Let_def split: if_splits)
    then show "keeps D w w'"
    proof cases
      case 1
      with keeps_then_kick [OF m d] show ?thesis by simp
    next
      case 2
      with keeps_then_kick [OF keeps_trans [OF m seed] d] show ?thesis by simp
    next
      case 3
      from drive_order.ran_and_then [OF this enqueue_keeps wake] m m [of ?m] show ?thesis by (blast intro: keeps_trans)
    qed
  qed
  show "keeps D w0 w'"
  proof (cases "get_session ?i (aw_store w0)")
    case None
    then show ?thesis using run by (auto simp: start_run_def keeps_refl)
  next
    case (Some r)
    with run have "and_then (ensure_driver E r (lifecycle_source (session_object r w0)))
        (\<lambda>_. and_then (require_state ?i) (body r)) w0 = Some (res, w')"
      by (simp add: start_run_def body_def [abs_def])
    then show ?thesis
      by (rule drive_order.ran_and_then [OF _ ensure_driver_keeps [OF assms]])
        (rule staysI, erule keeps_required [OF _ body])
  qed
qed

lemma dispose_keeps:
  assumes "drives_apart E" shows "stays (keeps D) (dispose_driver E i)"
proof (rule staysI)
  fix w res w' assume run: "dispose_driver E i w = Some (res, w')"
  have ab: "keeps D w (resume_waiters E d (abort_drive d (w\<lparr>aw_states := om_erase i (aw_states w)\<rparr>)))" for d
    using keeps_erase keeps_abort keeps_resume [OF assms] by (blast intro: keeps_trans)
  have "stays (keeps D) (and_then (change (tell (AgentDisposed i))) (\<lambda>_. ae_disposed E i))"
    using assms by (auto simp: drives_apart_def intro!: drive_order.stays_rules drive_order.stays_change drive_order.told)
  with run ab show "keeps D w w'"
    by (auto simp: dispose_driver_def Let_def keeps_refl split: option.splits if_splits dest!: staysD
        simp del: and_then_simps intro: keeps_trans)
qed

section \<open>A drive and its completion\<close>

lemma driver_dispatch: "driver e (dispatch_notice n w) = driver e w"
  by (simp add: driver_def)

lemma done_keeps:
  assumes "drives_apart E" and "driven w" and "\<forall>e \<in> insert d D. in_progress e w" and "d \<notin> D"
  shows "driven (on_drive_done E d thrown w) \<and> (\<forall>e \<in> D. in_progress e (on_drive_done E d thrown w)) \<and>
    length (aw_drivers w) \<le> length (aw_drivers (on_drive_done E d thrown w))"
proof -
  let ?K = "insert d D"
  define w1 where "w1 = (case thrown of None \<Rightarrow> w
     | Some e \<Rightarrow> set_outcome d (\<lambda>x. x\<lparr>ro_status := Failed, ro_failure := Some (drive_failure E e)\<rparr>) w)"
  define w2 where "w2 = set_driver d (\<lambda>s. s\<lparr>as_bridge := None, as_caller_stop := None,
                as_exec := (as_exec s)\<lparr>dv_on_event := None, dv_on_chunk := None\<rparr>\<rparr>) w1"
  define w3 where "w3 = emit_status d False w2"
  define w4 where "w4 = resume_waiters E d w3"
  have "keeps ?K w w1" by (auto simp: w1_def set_outcome_def keeps_refl intro: keeps_set_driver split: option.split)
  moreover have "keeps ?K w1 w2" unfolding w2_def by (rule keeps_set_driver) simp
  ultimately have k2: "driven w2" "\<forall>e \<in> ?K. in_progress e w2" "length (aw_drivers w) \<le> length (aw_drivers w2)"
    using keeps_trans [of ?K w w1 w2] assms(2, 3) by (auto simp: keeps_def)
  have "aw_drives w3 = aw_drives w2" "aw_states w3 = aw_states w2" "length (aw_drivers w3) = length (aw_drivers w2)"
    "\<And>e. e \<noteq> d \<Longrightarrow> as_running (driver e w3) = as_running (driver e w2)"
    by (simp_all add: w3_def emit_status_def driver_set_driver driver_dispatch)
  moreover have "d \<notin> set (aw_drives w2)" using k2(2) by (simp add: in_progress_def)
  ultimately have k3: "driven w3" "\<forall>e \<in> D. in_progress e w3" "length (aw_drivers w) \<le> length (aw_drivers w3)"
    using k2 assms(4) by (auto simp: driven_def in_progress_def) metis+
  have k4: "keeps D w3 w4" unfolding w4_def by (rule keeps_resume [OF assms(1)])
  have l4: "d < length (aw_drivers w4)"
    using keeps_length [OF k4 k3(1, 2)] k3(3) assms(3) by (simp add: in_progress_def)
  have "on_drive_done E d thrown w = (if as_wake (driver d w4)
      then (let v = set_driver d (\<lambda>s. s\<lparr>as_wake := False\<rparr>) w4 in if input_pending E d v then kick E d v else v) else w4)"
    by (simp add: on_drive_done_def Let_def w1_def w2_def w3_def w4_def)
  moreover have "keeps D w4 (let v = set_driver d (\<lambda>s. s\<lparr>as_wake := False\<rparr>) w4 in if input_pending E d v then kick E d v else v)"
  proof -
    have s: "keeps D w4 (set_driver d (\<lambda>s. s\<lparr>as_wake := False\<rparr>) w4)" by (rule keeps_set_driver) simp
    from s keeps_then_kick [OF s l4] show ?thesis by (simp add: Let_def)
  qed
  ultimately have "keeps D w4 (on_drive_done E d thrown w)" by (simp add: keeps_refl)
  with k4 have "keeps D w3 (on_drive_done E d thrown w)" by (rule keeps_trans)
  with k3 show ?thesis by (auto simp: keeps_def)
qed

lemma drive_keeps: "drives_apart E \<Longrightarrow> stays (keeps D) (drive E d)"
  by (rule drive_stays) (rule keeps_free_round)

lemma run_drive_keeps:
  assumes "run_drive E d w = Some w'" and "drives_apart E" and "d \<in> set (aw_drives w)"
  shows "keeps D w w'"
  unfolding keeps_def
proof (intro impI)
  assume w: "driven w \<and> (\<forall>e \<in> D. in_progress e w)"
  let ?w = "w\<lparr>aw_drives := remove1 d (aw_drives w)\<rparr>"
  have d: "d \<notin> D" using w assms(3) by (auto simp: in_progress_def)
  have start: "driven ?w" "\<forall>e \<in> insert d D. in_progress e ?w"
    using w assms(3) by (auto simp: driven_def in_progress_def driver_def dest: notin_set_remove1)
  from assms(1) obtain x w1 where x: "drive E d ?w = Some (x, w1)"
    and w': "w' = on_drive_done E d (case x of Inl e \<Rightarrow> Some e | Inr _ \<Rightarrow> None) w1"
    by (auto simp: run_drive_def split: option.splits sum.splits)
  from staysD [OF drive_keeps [OF assms(2)] x, of "insert d D"] start
  have mid: "driven w1" "\<forall>e \<in> insert d D. in_progress e w1" "length (aw_drivers w) \<le> length (aw_drivers w1)"
    by (simp_all add: keeps_def)
  from done_keeps [OF assms(2) mid(1, 2) d] mid(3)
  show "driven w' \<and> (\<forall>e \<in> D. in_progress e w') \<and> length (aw_drivers w) \<le> length (aw_drivers w')"
    unfolding w' using le_trans by blast
qed

section \<open>Runs of the service\<close>

text \<open>What the service does at the top level: its public operations, and a spawned drive.\<close>

inductive agent_step :: "agent_env \<Rightarrow> agent_world \<Rightarrow> agent_world \<Rightarrow> bool" for E where
  started: "start_run E opts sink on_chunk w = Some (res, w') \<Longrightarrow> agent_step E w w'"
| followed: "followup E i m dv w = Some (res, w') \<Longrightarrow> agent_step E w w'"
| steered: "steer E i m dv w = Some (res, w') \<Longrightarrow> agent_step E w w'"
| injected: "inject E i m w = Some (res, w') \<Longrightarrow> agent_step E w w'"
| cancelled: "cancel E i keep_inbox w = Some (res, w') \<Longrightarrow> agent_step E w w'"
| ensured: "ensure_driver E r source w = Some (res, w') \<Longrightarrow> agent_step E w w'"
| disposed: "dispose_driver E i w = Some (res, w') \<Longrightarrow> agent_step E w w'"
| drove: "d \<in> set (aw_drives w) \<Longrightarrow> run_drive E d w = Some w' \<Longrightarrow> agent_step E w w'"

lemma agent_step_keeps: "drives_apart E \<Longrightarrow> agent_step E w w' \<Longrightarrow> keeps D w w'"
  by (erule agent_step.cases)
    (auto dest: staysD [OF start_run_keeps] staysD [OF followup_keeps] staysD [OF steer_keeps] staysD [OF inject_keeps]
      staysD [OF cancel_keeps] staysD [OF ensure_driver_keeps] staysD [OF dispose_keeps] run_drive_keeps)

lemma agent_steps_keep: "drives_apart E \<Longrightarrow> (agent_step E)\<^sup>*\<^sup>* w w' \<Longrightarrow> keeps D w w'"
  by (rotate_tac, induction rule: rtranclp_induct) (auto intro: keeps_refl keeps_trans agent_step_keeps)

end
