(* ===== verification/AgentProperties.thy ===== *)
theory AgentProperties
  imports AgentDrives SessionProperties
begin

text \<open>
  The theorems about the agent loop: the inbox, the vocabulary shared with the model, the log of a turn,
  its end, and what goes wrong around it, with the concrete runs at which the ones with hypotheses apply.
\<close>

section \<open>Concrete runs\<close>

declare stream_attempts.simps [code] drive.simps [code]

text \<open>
  An environment in which nothing happens but a scripted model: prompts are empty, no plugin intervenes, no
  request is retried, every tool answers with the same content.
\<close>

definition scripted :: "(generate_options \<Rightarrow> stream_chunk list action) \<Rightarrow> agent_env" where
  "scripted stream =
     \<lparr>ae_clock = (\<lambda>_. 9), ae_inbox = 0, ae_max_tokens_as_success = False, ae_what = (\<lambda>_. ''session error''),
      ae_parse = (\<lambda>_. None), ae_model = (\<lambda>_ _. None),
      ae_assemble = (\<lambda>_ _ _ _. give \<lparr>pa_rendered = ''be brief'', pa_snapshot = [], pa_tools = []\<rparr>),
      ae_produce = (\<lambda>_ _ _ _ _. give None), ae_pre_step = give, ae_stopping = (\<lambda>_ _ _. give ()),
      ae_request_error = (\<lambda>msg. give (msg\<lparr>re_retry := False\<rparr>)), ae_stream = stream,
      ae_invoke = (\<lambda>_. give (Some \<lparr>tl_content = text_content ''42'', tl_is_error = False, tl_concludes = False\<rparr>)),
      ae_resume = (\<lambda>_ w. w), ae_created = (\<lambda>_. give ()), ae_disposed = (\<lambda>_. give ())\<rparr>"

definition say :: "string \<Rightarrow> stream_chunk list" where
  "say t = [BlockStart 0 TextType, TextDelta 0 t, BlockEnd 0 (TextBlock t),
     Finish \<lparr>fc_why = FinishStop, fc_failure = None, fc_replay = None\<rparr>]"

definition call_tool :: "string \<Rightarrow> stream_chunk list" where
  "call_tool i = [BlockEnd 0 (ToolCallBlock \<lparr>tc_id = i, tc_name = ''lookup'', tc_arguments = []\<rparr>),
     Finish \<lparr>fc_why = FinishStop, fc_failure = None, fc_replay = None\<rparr>]"

text \<open>A session with the inbox projection, its idle driver, and a message for the next turn.\<close>

definition agent_store :: "inbox_state session_store" where
  "agent_store = snd (snd (projr (create_session ''s'' (plain_options []) 7
     (snd (snd (register_projection inbox_projection (new_store True)))))))"

definition idle_world :: agent_world where
  "idle_world = \<lparr>aw_store = agent_store, aw_drivers = [new_driver ''s''], aw_states = [(''s'', 0)], aw_stops = [],
     aw_bus = True, aw_producers = [], aw_next_producer = 0, aw_notices = [], aw_drives = []\<rparr>"

definition message_for :: "string \<Rightarrow> json" where
  "message_for i = user_text_data i ''hello''"

definition after :: "'a action \<Rightarrow> agent_world \<Rightarrow> agent_world" where
  "after m w = snd (the (m w))"

lemma ran_after: "map_option fst (m w) = Some x \<Longrightarrow> m w = Some (x, after m w)"
  by (auto simp: after_def)

definition log_types :: "agent_world \<Rightarrow> string list" where
  "log_types w = map ev_type (log_at 0 w)"

definition woken :: agent_world where
  "woken = after (followup (scripted (\<lambda>_. give (say ''hi''))) ''s'' (message_for ''m1'') no_options) idle_world"

text \<open>
  A drive steered while the model answers: the first answer is text, and a message arrives for the next step
  meanwhile; the second one calls a tool.
\<close>

definition steered :: agent_env where
  "steered = scripted (\<lambda>g. if length (gn_messages g) > 2 then give (call_tool ''c1'')
     else and_then (steer (scripted (\<lambda>_. give [])) ''s'' (message_for ''m2'') no_options) (\<lambda>_. give (say ''hi'')))"

text \<open>A drive that is cancelled while the model answers, and then gets a new message.\<close>

definition cancelled_midway :: agent_env where
  "cancelled_midway = scripted (\<lambda>g. and_then (cancel (scripted (\<lambda>_. give [])) ''s'' True) (\<lambda>_.
     and_then (followup (scripted (\<lambda>_. give [])) ''s'' (message_for ''m2'') no_options) (\<lambda>_. give (say ''hi''))))"

text \<open>A model that fails once, with no retry, and then answers.\<close>

definition failing_once :: agent_env where
  "failing_once = scripted (\<lambda>g. if length (gn_messages g) > 2 then give (say ''hi'')
     else give [Finish \<lparr>fc_why = FinishError, fc_failure = Some (server_failure ''overloaded''), fc_replay = None\<rparr>])"

section \<open>The inbox\<close>

text \<open>
  Ids in the inbox. Whatever events a log holds (foreign, malformed or repeated ones included), the inbox
  that its replay gives never holds a message without an id, nor two messages with the same id, in one
  queue or across the two.
\<close>

theorem inbox_ids_unique:
  "distinct (map inbox_message_id (inbox_messages (cell_fold inbox_projection log empty_inbox))) \<and>
   [] \<notin> set (map inbox_message_id (inbox_messages (cell_fold inbox_projection log empty_inbox)))"
  using inbox_replay.replay [OF empty_inbox_unique] by (simp add: inbox_unique_messages)

text \<open>
  Normalized splices. The event that \<open>make_inbox_splice\<close> writes, with its start and count clamped to the
  queue, means to the fold what the raw coordinates would (negative ones count from the end, large ones stop
  at it); the messages it reports as removed are exactly the ones the fold takes out, and no event is
  written exactly when nothing would change hands.
\<close>

theorem splice_normalized:
  assumes "length (inbox_queue t s) < 2 ^ 63" and "make_inbox_splice s t start n ms discard = mu"
  shows "(if im_noop mu then s else apply_inbox_splice s (im_data mu)) = apply_inbox_splice s (inbox_splice_data t start n ms []) \<and>
    im_removed mu = take (splice_count t start n s) (drop (splice_start t start s) (inbox_queue t s)) \<and>
    (im_noop mu \<longleftrightarrow> splice_count t start n s = 0 \<and> ms = [])"
proof -
  have raw: "apply_inbox_splice s (inbox_splice_data t start n ms []) =
      spliced t (splice_start t start s) (splice_count t start n s) ms s"
    by (simp add: apply_splice_data splice_start_def splice_count_def)
  have noop: "im_noop mu \<longleftrightarrow> splice_count t start n s = 0 \<and> ms = []"
  proof -
    let ?len = "int (length (inbox_queue t s))"
    have "0 \<le> clamp_count ?len (clamp_start ?len (sint start)) (sint n)" by (rule clamps) simp
    then show ?thesis unfolding assms(2) [symmetric]
      by (auto simp: make_inbox_splice_def make_queue Let_def splice_count_def)
  qed
  show ?thesis
  proof (cases rule: make_splice_cases [OF assms(1), where start = start and n = n and ms = ms and b = discard])
    case 1
    have "im_removed mu = []" using 1(1) unfolding assms(2) [symmetric] by (auto simp: make_inbox_splice_def Let_def split: if_splits)
    moreover have "apply_inbox_splice s (inbox_splice_data t start n ms []) = s"
      unfolding raw using 1(2, 3) by (simp add: spliced_nothing)
    ultimately show ?thesis using 1 noop by (simp add: assms(2))
  next
    case 2
    with noop show ?thesis by (auto simp: assms(2) raw)
  qed
qed

theorem splice_normalized_witness:
  "im_removed (make_inbox_splice \<lparr>in_next_turn = [JInt 1, JInt 2, JInt 3], in_next_step = []\<rparr> NextTurn (- 2) 9 [] True) = [JInt 2, JInt 3]"
proof -
  let ?s = "\<lparr>in_next_turn = [JInt 1, JInt 2, JInt 3], in_next_step = []\<rparr>"
  have "splice_count NextTurn (- 2) 9 ?s = 2" "splice_start NextTurn (- 2) ?s = 1" by code_simp+
  with splice_normalized [of NextTurn ?s "- 2" 9 "[]" True, OF _ refl] show ?thesis by simp
qed

text \<open>
  Order of the inbox. Messages with distinct ids that are put at the end of a queue are claimed in the order
  they were put, none twice and none lost: what was claimed followed by what is left is what was there
  followed by what was put.
\<close>

theorem inbox_fifo:
  assumes "distinct (map inbox_message_id (inbox_messages s @ all_put xs))"
    and "[] \<notin> inbox_message_id ` set (inbox_messages s @ all_put xs)"
    and "length (inbox_messages s) + length xs < 2 ^ 63"
  shows "snd (inbox_run t xs s) @ inbox_queue t (fst (inbox_run t xs s)) = inbox_queue t s @ put_to t xs"
  using assms by (rule inbox_run_fifo)

theorem inbox_fifo_witness:
  "snd (inbox_run NextTurn [Put NextTurn (message_for ''a''), Put NextStep (message_for ''b''), Put NextTurn (message_for ''c''),
       Claim NextTurn 1] empty_inbox) = [message_for ''a'']"
proof -
  let ?xs = "[Put NextTurn (message_for ''a''), Put NextStep (message_for ''b''), Put NextTurn (message_for ''c''), Claim NextTurn 1]"
  have "distinct (map inbox_message_id (inbox_messages empty_inbox @ all_put ?xs))"
    "[] \<notin> inbox_message_id ` set (inbox_messages empty_inbox @ all_put ?xs)"
    "put_to NextTurn ?xs = [message_for ''a'', message_for ''c'']"
    "inbox_queue NextTurn (fst (inbox_run NextTurn ?xs empty_inbox)) = [message_for ''c'']" by code_simp+
  with inbox_fifo [of empty_inbox ?xs NextTurn] show ?thesis by (simp add: inbox_messages_def empty_inbox_def)
qed

section \<open>The log of a turn\<close>

lemma scripted_stays:
  assumes "\<And>w. R w w" and "\<And>g. stays R (stream g)"
  shows "env_stays R (scripted stream)"
  using assms by (auto simp: env_stays_def scripted_def stays_def)

text \<open>
  C12. Brackets of a turn. Whatever happens in a turn, exceptions included, provided that whatever runs meanwhile
  writes no turn or step boundary and does not raise the step limit: its boundary events in the log are one
  \<open>turn/start\<close>, then for each step from 1 on a \<open>step/start\<close> and a \<open>step/end\<close> with the same numbers, then
  one \<open>turn/end\<close>; there are at most \<open>max_steps\<close> steps, and the reason is an error when the turn throws.
\<close>

theorem turn_is_bracketed:
  assumes "run_turn E d w = Some (res, w')" and "get_session (as_session (driver d w)) (aw_store w) = Some r"
    and "holds_session r w" and "env_stays (undisturbed d r) E"
  shows "\<exists>n status f. n \<le> unat (max_steps_of d w) \<and> (\<forall>e. res = Inl e \<longrightarrow> status = Failed) \<and>
     adds boundary_view r w w'
       ((''turn/start'', turn_start_data (next_turn (log_at r w))) # step_pairs (next_turn (log_at r w)) 0 n @
        [(''turn/end'', turn_end_data (next_turn (log_at r w)) status f)])"
  using assms by (rule turn_runs)

theorem turn_is_bracketed_witness:
  "\<exists>n status f. n \<le> 16 \<and> adds boundary_view 0 woken (after (run_turn (scripted (\<lambda>_. give (say ''hi''))) 0) woken)
     ((''turn/start'', turn_start_data 1) # step_pairs 1 0 n @ [(''turn/end'', turn_end_data 1 status f)])"
proof -
  let ?E = "scripted (\<lambda>_. give (say ''hi''))"
  have run: "run_turn ?E 0 woken = Some (Inr False, after (run_turn ?E 0) woken)"
    by (rule ran_after) code_simp
  have facts: "get_session (as_session (driver 0 woken)) (aw_store woken) = Some 0" "next_turn (log_at 0 woken) = 1"
    "max_steps_of 0 woken = 16" "length (ss_objects (aw_store woken)) = 1" by code_simp+
  have "env_stays (undisturbed 0 0) ?E"
    by (rule scripted_stays [OF turn_order.refl turn_order.stays_give])
  from turn_is_bracketed [OF run facts(1) _ this] facts(2-4) show ?thesis by (auto simp: holds_session_def)
qed

text \<open>
  C14. Answered tool calls. When the calls of an assistant message have been executed without an exception, the log
  holds for each of them, in order, its \<open>tool/call\<close> directly followed (among the tool events) by the
  \<open>tool/result\<close> with its id, whether the tool ran, failed, was unknown or was skipped after a stop; an
  exception leaves exactly one call without a result, the one it struck, and starts none after it.
\<close>

theorem tool_calls_answered:
  assumes "execute_tools E d r turn step cs out w = Some (res, w')" and "holds_session r w" and "tools_quiet r E"
  shows "case res of
      Inr _ \<Rightarrow> adds tool_view r w w' (concat (map call_pair cs))
    | Inl _ \<Rightarrow> \<exists>pre c rest. cs = pre @ c # rest \<and>
        adds tool_view r w w' (concat (map call_pair pre) @ [(''tool/call'', tc_id c)])"
  using assms by (rule execute_tools_log)

definition two_calls :: "tool_call_block list" where
  "two_calls = [\<lparr>tc_id = ''c1'', tc_name = ''lookup'', tc_arguments = []\<rparr>, \<lparr>tc_id = ''c2'', tc_name = ''lookup'', tc_arguments = []\<rparr>]"

theorem tool_calls_answered_witness:
  "adds tool_view 0 woken
     (after (execute_tools (scripted (\<lambda>_. give [])) 0 0 1 1 two_calls \<lparr>tb_aborted = False, tb_concluded = False\<rparr>) woken)
     [(''tool/call'', ''c1''), (''tool/result'', ''c1''), (''tool/call'', ''c2''), (''tool/result'', ''c2'')]"
proof -
  let ?E = "scripted (\<lambda>_. give [])" and ?out = "\<lparr>tb_aborted = False, tb_concluded = False\<rparr>"
  have run: "execute_tools ?E 0 0 1 1 two_calls ?out woken = Some (Inr ?out, after (execute_tools ?E 0 0 1 1 two_calls ?out) woken)"
    by (rule ran_after) code_simp
  have "length (ss_objects (aw_store woken)) = 1" by code_simp
  moreover have "tools_quiet 0 ?E" by (simp add: tools_quiet_def scripted_def tool_order.stays_give)
  ultimately show ?thesis using tool_calls_answered [OF run] by (simp add: holds_session_def two_calls_def call_pair_def)
qed

text \<open>
  C15. Turns end. Provided that what a turn awaits returns and that some number of attempts is not retried any more, a
  turn returns, with a result or an exception, from every state: neither the step limit nor the attempts of
  a request can keep it going.
\<close>

theorem turn_returns:
  assumes "env_returns E"
  shows "run_turn E d w \<noteq> None"
  using turn_returns_in [OF assms, of d w] by (simp add: ends_def)

theorem turn_returns_witness:
  "run_turn (scripted (\<lambda>_. give (say ''hi''))) 0 woken \<noteq> None"
proof (rule turn_returns)
  show "env_returns (scripted (\<lambda>_. give (say ''hi'')))"
    unfolding env_returns_def scripted_def
    by (auto simp: returns_def ends_def give_def gives_up_def)
qed

text \<open>
  Assembled streams. What the accumulator holds after any chunks of a model stream, in closed form: the closed
  blocks are those of the end chunks in order of arrival; an index is open exactly when chunks came since
  its last end, and its text is the concatenation of their deltas; the reason, failure and replay state are
  those of the last finish chunk, or a plain stop without one.
\<close>

theorem stream_assembled:
  "sa_closed (accumulate cs) = List.map_filter ended_block cs \<and> om_sorted (sa_open (accumulate cs)) \<and>
   map_option ob_text (map_of (sa_open (accumulate cs)) i) =
     (if open_chunks i cs = [] then None else Some (concat (map delta_text (open_chunks i cs)))) \<and>
   sa_why (accumulate cs) = (if finishes cs = [] then FinishStop else fc_why (last (finishes cs))) \<and>
   sa_failure (accumulate cs) = (if finishes cs = [] then None else fc_failure (last (finishes cs)))"
proof -
  have "sa_why (accumulate cs) = FinishStop \<and> sa_failure (accumulate cs) = None" if "finishes cs = []"
    using that
  proof (induction cs rule: rev_induct)
    case (snoc c cs)
    then show ?case by (cases c) (simp_all add: accumulate_simps finishes_def List.map_filter_def open_at_def)
  qed (simp add: accumulate_simps reset_accumulator_def)
  with accumulated_closed accumulated_sorted accumulated_open accumulated_finish show ?thesis by auto
qed

section \<open>The system prompt\<close>

text \<open>
  One prompt. After \<open>commit_system_prompt\<close> the surface carries the rendered prompt: as its only prompt node of
  the loop, or none when it is empty; on a route that keeps prompts in history, and inside a series, it is
  the last of them instead. The other nodes are those that were there, in order.
\<close>

theorem prompt_committed:
  assumes "prompt_ready (length ns + 1) r w" and "ns = prompt_nodes (se_surface (session_object r w))"
  shows "\<exists>w'. commit_system_prompt E r rendered in_history starts_series w = Some (Inr (), w') \<and>
    other_nodes (surface_nodes r w') = other_nodes (surface_nodes r w) \<and>
    (if ns \<noteq> [] \<and> in_history \<and> \<not> starts_series \<and> rendered \<noteq> []
     then snd (last (prompt_nodes (se_surface (session_object r w')))) = rendered
     else map snd (prompt_nodes (se_surface (session_object r w'))) = (if rendered = [] then [] else [rendered]))"
  using commit_prompt [OF assms] by metis

definition prompted :: agent_world where
  "prompted = after (commit_system_prompt (scripted (\<lambda>_. give [])) 0 ''be brief'' False True) woken"

theorem prompt_committed_witness:
  "\<exists>w'. commit_system_prompt (scripted (\<lambda>_. give [])) 0 ''be bold'' False False prompted = Some (Inr (), w') \<and>
    map snd (prompt_nodes (se_surface (session_object 0 w'))) = [''be bold'']"
proof -
  have p: "map snd (prompt_nodes (se_surface (session_object 0 prompted))) = [''be brief'']" by code_simp
  then have "length (prompt_nodes (se_surface (session_object 0 prompted))) = 1" by (metis length_map length_Cons list.size(3) One_nat_def)
  moreover have "prompt_ready 2 0 prompted"
  proof -
    have "se_next_seq (session_object 0 prompted) = 2" "sf_source_seqs (se_surface (session_object 0 prompted)) = [1]"
      "ss_alive (aw_store prompted)" "length (ss_objects (aw_store prompted)) = 1"
      "\<not> has_projection ''system/message'' (aw_store prompted)" "\<not> has_projection ''surface/replace'' (aw_store prompted)"
      "aligned (se_surface (session_object 0 prompted))" by code_simp+
    then show ?thesis by (simp add: prompt_ready_def holds_session_def)
  qed
  ultimately show ?thesis
    using prompt_committed [OF _ refl, of 0 prompted "scripted (\<lambda>_. give [])" "''be bold''" False False] by (auto simp: numeral_2_eq_2)
qed

section \<open>Messages and their way back to the model\<close>

text \<open>
  C16. Committed messages. The assistant message that a step commits folds into a surface message from which the
  request of a later step reads back exactly its content blocks (tool calls with their ids and arguments
  included; image blocks inside a tool result would be lifted out of it). The replay state that was committed
  with it is not handed back.
\<close>

theorem assistant_message_read_back:
  assumes "ev_type ev = ''assistant/message''"
    and "ev_data ev = assistant_message_data i bs usage replay turn step interrupted"
    and "\<forall>b \<in> set bs. plain_block b"
  shows "\<exists>m. fold_builtin ev = append_plan (Some m) \<and> sm_role m = RoleAssistant \<and> sm_id m = i \<and>
    to_llm_message m = \<lparr>lm_role = LlmAssistant, lm_content = bs, lm_replay_state = None\<rparr>"
proof -
  let ?m = "\<lparr>sm_role = RoleAssistant, sm_id = i, sm_content = blocks_to_json bs, sm_tool_call_id = None,
    sm_source_plugin = None, sm_source = None\<rparr>"
  have "fold_builtin ev = append_plan (Some ?m)"
    using assms(2) by (simp add: fold_builtin_def assms(1) fold_message_def surface_message_object_def
        assistant_message_data_def string_field_def source_field_def)
  moreover have "lm_content (to_llm_message ?m) = bs" by (rule blocks_roundtrip [OF assms(3)]) simp
  ultimately show ?thesis by (intro exI [of _ ?m]) (simp add: to_llm_message_def llm_role_of_def)
qed

definition lookup_call :: content_block where
  "lookup_call = ToolCallBlock \<lparr>tc_id = ''c1'', tc_name = ''lookup'', tc_arguments = []\<rparr>"

definition assistant_event :: session_event where
  "assistant_event = \<lparr>ev_seq = 0, ev_time = 5, ev_type = ''assistant/message'',
     ev_data = assistant_message_data ''a0'' [TextBlock ''hi'', lookup_call] no_usage (Some (JString ''signature'')) 1 1 False,
     ev_ignorable = False\<rparr>"

theorem assistant_message_read_back_witness:
  "\<exists>m. fold_builtin assistant_event = append_plan (Some m) \<and> lm_content (to_llm_message m) = [TextBlock ''hi'', lookup_call]"
proof -
  have "ev_type assistant_event = ''assistant/message''" by (simp add: assistant_event_def)
  from assistant_message_read_back [OF this, of "''a0''" "[TextBlock ''hi'', lookup_call]" no_usage "Some (JString ''signature'')" 1 1 False]
  show ?thesis by (auto simp: assistant_event_def plain_block_def lookup_call_def)
qed

text \<open>
  C17. Repair does not see the loop's calls. The repair of interrupted turns looks for tool calls in another shape
  than the one the agent loop commits: a log whose assistant messages the loop wrote has no open call to it,
  however the log ends, so a call that was interrupted is never answered.
\<close>

definition loop_message :: "session_event \<Rightarrow> bool" where
  "loop_message ev \<longleftrightarrow> ev_type ev = ''assistant/message'' \<longrightarrow>
     (\<exists>i bs usage replay turn step x. ev_data ev = assistant_message_data i bs usage replay turn step x)"

lemma loop_requests_nothing: "loop_message ev \<Longrightarrow> requested_calls ev = []"
  by (cases "ev_type ev = ''assistant/message''")
    (auto simp: loop_message_def committed_requests_nothing, simp add: requested_calls_def assistant_content_def List.map_filter_def)

theorem repair_blind_to_loop:
  assumes "\<forall>ev \<in> set log. loop_message ev"
  shows "open_calls log = [] \<and> repair_interrupted_turns now log = log"
proof -
  have "set (open_calls log) = {}" using assms by (auto simp: set_open_calls loop_requests_nothing)
  then show ?thesis by (simp add: repair_interrupted_turns_def)
qed

definition interrupted_log :: "session_event list" where
  "interrupted_log = [assistant_event, \<lparr>ev_seq = 1, ev_time = 6, ev_type = ''tool/call'',
     ev_data = tool_call_data 1 1 \<lparr>tc_id = ''c1'', tc_name = ''lookup'', tc_arguments = []\<rparr>, ev_ignorable = True\<rparr>]"

theorem repair_blind_to_loop_witness: "repair_interrupted_turns 7 interrupted_log = interrupted_log"
proof -
  have "loop_message assistant_event" unfolding loop_message_def assistant_event_def session_event.simps by blast
  then have "\<forall>ev \<in> set interrupted_log. loop_message ev" by (simp add: interrupted_log_def) (simp add: loop_message_def)
  from repair_blind_to_loop [OF this] show ?thesis by simp
qed

section \<open>Around a turn\<close>

text \<open>
  A steered turn that ends early. The model answers with text while a message arrives for the next step; in that
  next step it calls a tool. The turn ends completed right after the tool's result, which the model never
  sees: the step asked for another one, but the status of the earlier step still counts.
\<close>

theorem steered_turn_drops_results:
  "(let w = the (run_drive steered 0 woken) in (drop 12 (log_types w), ro_status (last_outcome ''s'' w))) =
     ([''step/start'', ''user/message'', ''assistant/message'', ''tool/call'', ''tool/result'', ''step/end'', ''turn/end''],
      Completed)"
  by code_simp

text \<open>
  A lost message. A drive is cancelled while the model answers and a follow-up message arrives before it has
  ended. The drive stops, the message stays in the inbox, and nothing runs: the driver is idle with input
  pending, since a follow-up to a running driver leaves no request to wake it.
\<close>

theorem followup_lost_after_cancel:
  "(let w = the (run_drive cancelled_midway 0 woken)
    in (status_of ''s'' w, aw_drives w, as_wake (driver 0 w), input_pending cancelled_midway 0 w)) = (False, [], False, True)"
  by code_simp

text \<open>
  A failure that stays. The first turn fails, the second one completes; the outcome of the completed one still
  carries the failure, and so does its \<open>turn/end\<close> event.
\<close>

definition recovered :: agent_world where
  "recovered = the (run_drive failing_once 0 (after (followup failing_once ''s'' (message_for ''m2'') no_options) woken))"

theorem failure_outlives_turn:
  "(let w = recovered
    in (map ev_data (filter (\<lambda>ev. ev_type ev = ''turn/end'') (log_at 0 w)), last_outcome ''s'' w)) =
   ([turn_end_data 1 Failed (Some (server_failure ''overloaded'')), turn_end_data 2 Completed (Some (server_failure ''overloaded''))],
    \<lparr>ro_status = Completed, ro_failure = Some (server_failure ''overloaded''), ro_turn = 2\<rparr>)"
  by code_simp

section \<open>Drives\<close>

lemma scripted_apart: "(\<And>D g. stays (keeps D) (stream g)) \<Longrightarrow> drives_apart (scripted stream)"
  using drive_order.refl
  by (auto simp: drives_apart_def intro!: scripted_stays) (auto simp: scripted_def drive_order.stays_give)

text \<open>
  C13. One drive per driver. Along any run of the service (its public operations, the disposal of sessions and the
  drives it spawned, each with whatever runs during it), the spawned drives belong to different drivers, all
  of them marked running, and a driver whose drive is in progress is not spawned again until that is over.
\<close>

theorem one_drive_per_driver:
  assumes "drives_apart E" and "(agent_step E)\<^sup>*\<^sup>* w w'" and "driven w"
  shows "distinct (aw_drives w') \<and> (\<forall>d \<in> set (aw_drives w'). as_running (driver d w')) \<and>
    (\<forall>d. in_progress d w \<longrightarrow> as_running (driver d w') \<and> d \<notin> set (aw_drives w'))"
proof -
  have d: "driven w'" using agent_steps_keep [OF assms(1, 2), of "{}"] assms(3) by (simp add: keeps_def)
  have "in_progress e w'" if "in_progress e w" for e
    using agent_steps_keep [OF assms(1, 2), of "{e}"] assms(3) that by (simp add: keeps_def)
  with d show ?thesis by (auto simp: driven_def in_progress_def)
qed

theorem one_drive_per_driver_witness:
  "distinct (aw_drives (after (cancel (scripted (\<lambda>_. give (say ''hi''))) ''s'' True) woken)) \<and>
   as_running (driver 0 (after (cancel (scripted (\<lambda>_. give (say ''hi''))) ''s'' True) woken))"
proof -
  let ?E = "scripted (\<lambda>_. give (say ''hi''))"
  let ?w = "after (cancel ?E ''s'' True) woken"
  have "followup ?E ''s'' (message_for ''m1'') no_options idle_world = Some (Inr (), woken)"
    unfolding woken_def by (rule ran_after) code_simp
  moreover have "cancel ?E ''s'' True woken = Some (Inr (), ?w)" by (rule ran_after) code_simp
  ultimately have steps: "(agent_step ?E)\<^sup>*\<^sup>* idle_world ?w"
    by (blast intro: agent_step.intros rtranclp.rtrancl_into_rtrancl rtranclp.rtrancl_refl)
  have "drives_apart ?E" by (rule scripted_apart) (rule drive_order.stays_give)
  moreover have "driven idle_world" by (simp add: driven_def idle_world_def)
  moreover have "aw_drives ?w = [0]" by code_simp
  ultimately show ?thesis using one_drive_per_driver [OF _ steps] by simp
qed

end
