(* ===== verification/Tools.thy ===== *)
theory Tools
  imports AgentTurn Effects
begin

text \<open>
  The tool registry (\<open>plugins/tools/src/tools.cpp\<close>): registrations with scopes that shadow, restrictions, guards
  and result listeners, and the execution of a visible tool. Handlers, guards and listeners are C++ closures:
  they are names here, and what calling one does is a parameter, which may change the registry and the rest
  of the world \<open>'w\<close>. Registration ids are natural numbers. Second part: what a scope sees, and guards.
\<close>

section \<open>The registry\<close>

record tool_definition =
  td_name :: string
  td_description :: string
  td_parameters :: json

record tool_entry =
  te_id :: nat
  te_scope :: "string option"
  te_definition :: tool_definition
  te_handler :: nat

record tool_restriction =
  rs_allow :: "string list option"
  rs_deny :: "string list option"

record restriction_entry =
  re_id :: nat
  re_scope :: "string option"
  re_filter :: tool_restriction

record guard_entry =
  ge_id :: nat
  ge_scope :: "string option"
  ge_check :: nat

record result_entry =
  rl_id :: nat
  rl_scope :: "string option"
  rl_listener :: nat

record tools_service =
  ts_next_id :: nat
  ts_tools :: "tool_entry list"
  ts_next_restriction :: nat
  ts_restrictions :: "restriction_entry list"
  ts_next_guard :: nat
  ts_guards :: "guard_entry list"
  ts_next_result :: nat
  ts_listeners :: "result_entry list"

definition no_tools :: tools_service where
  "no_tools = \<lparr>ts_next_id = 1, ts_tools = [], ts_next_restriction = 1, ts_restrictions = [], ts_next_guard = 1,
     ts_guards = [], ts_next_result = 1, ts_listeners = []\<rparr>"

datatype tools_error = EmptyToolName | DuplicateTool string | ScopeRequired | FilterRequired | UnknownTool string
  | EmptyGuard | EmptyListener

datatype tool_cleanup = DropTool nat | DropRestriction nat | DropGuard nat | DropResult nat

fun run_tool_cleanup :: "tool_cleanup \<Rightarrow> tools_service \<Rightarrow> tools_service" where
  "run_tool_cleanup (DropTool i) T = T\<lparr>ts_tools := filter (\<lambda>e. te_id e \<noteq> i) (ts_tools T)\<rparr>"
| "run_tool_cleanup (DropRestriction i) T = T\<lparr>ts_restrictions := filter (\<lambda>e. re_id e \<noteq> i) (ts_restrictions T)\<rparr>"
| "run_tool_cleanup (DropGuard i) T = T\<lparr>ts_guards := filter (\<lambda>e. ge_id e \<noteq> i) (ts_guards T)\<rparr>"
| "run_tool_cleanup (DropResult i) T = T\<lparr>ts_listeners := filter (\<lambda>e. rl_id e \<noteq> i) (ts_listeners T)\<rparr>"

definition register_tool ::
  "tool_definition \<Rightarrow> nat \<Rightarrow> string option \<Rightarrow> tools_service \<Rightarrow> tools_error + (tool_cleanup \<times> tools_service)" where
  "register_tool d handler scope T =
     (if td_name d = [] then Inl EmptyToolName
      else if \<exists>e \<in> set (ts_tools T). te_scope e = scope \<and> td_name (te_definition e) = td_name d
      then Inl (DuplicateTool (td_name d))
      else
        let i = ts_next_id T
        in Inr (DropTool i, T\<lparr>ts_next_id := i + 1,
             ts_tools := ts_tools T @ [\<lparr>te_id = i, te_scope = scope, te_definition = d, te_handler = handler\<rparr>]\<rparr>))"

definition listed :: "string list option \<Rightarrow> string list" where
  "listed names = (case names of None \<Rightarrow> [] | Some xs \<Rightarrow> xs)"

definition restrict_tools ::
  "tool_restriction \<Rightarrow> string option \<Rightarrow> tools_service \<Rightarrow> tools_error + (tool_cleanup \<times> tools_service)" where
  "restrict_tools f scope T =
     (if scope = None \<or> scope = Some [] then Inl ScopeRequired
      else if rs_allow f = None \<and> rs_deny f = None then Inl FilterRequired
      else
        (case List.find (\<lambda>n. \<not> (\<exists>e \<in> set (ts_tools T). te_scope e = None \<and> td_name (te_definition e) = n))
                (listed (rs_allow f) @ listed (rs_deny f)) of
           Some n \<Rightarrow> Inl (UnknownTool n)
         | None \<Rightarrow>
             let i = ts_next_restriction T
             in Inr (DropRestriction i, T\<lparr>ts_next_restriction := i + 1,
                  ts_restrictions := ts_restrictions T @ [\<lparr>re_id = i, re_scope = scope, re_filter = f\<rparr>]\<rparr>)))"

text \<open>An empty \<open>std::function\<close> is \<open>None\<close>.\<close>

definition add_guard :: "nat option \<Rightarrow> string option \<Rightarrow> tools_service \<Rightarrow> tools_error + (tool_cleanup \<times> tools_service)" where
  "add_guard check scope T =
     (case check of
        None \<Rightarrow> Inl EmptyGuard
      | Some c \<Rightarrow>
          let i = ts_next_guard T
          in Inr (DropGuard i, T\<lparr>ts_next_guard := i + 1,
               ts_guards := ts_guards T @ [\<lparr>ge_id = i, ge_scope = scope, ge_check = c\<rparr>]\<rparr>))"

definition on_result :: "nat option \<Rightarrow> string option \<Rightarrow> tools_service \<Rightarrow> tools_error + (tool_cleanup \<times> tools_service)" where
  "on_result listener scope T =
     (case listener of
        None \<Rightarrow> Inl EmptyListener
      | Some l \<Rightarrow>
          let i = ts_next_result T
          in Inr (DropResult i, T\<lparr>ts_next_result := i + 1,
               ts_listeners := ts_listeners T @ [\<lparr>rl_id = i, rl_scope = scope, rl_listener = l\<rparr>]\<rparr>))"

section \<open>What a scope sees\<close>

definition admitted_by :: "string \<Rightarrow> string option \<Rightarrow> restriction_entry \<Rightarrow> bool" where
  "admitted_by n scope e =
     (if re_scope e = None \<or> scope = None \<or> re_scope e \<noteq> scope then True
      else (case rs_allow (re_filter e) of None \<Rightarrow> True | Some xs \<Rightarrow> n \<in> set xs) \<and>
           (case rs_deny (re_filter e) of None \<Rightarrow> True | Some xs \<Rightarrow> n \<notin> set xs))"

definition admits :: "string \<Rightarrow> string option \<Rightarrow> tools_service \<Rightarrow> bool" where
  "admits n scope T = list_all (admitted_by n scope) (ts_restrictions T)"

definition merge_tools :: "(tool_entry \<Rightarrow> bool) \<Rightarrow> tool_entry list \<Rightarrow> (string, tool_entry) omap \<Rightarrow> (string, tool_entry) omap" where
  "merge_tools P es m = fold (\<lambda>e m. if P e then om_insert (td_name (te_definition e)) e m else m) es m"

definition visible_map :: "string option \<Rightarrow> tools_service \<Rightarrow> (string, tool_entry) omap" where
  "visible_map scope T =
     merge_tools (\<lambda>e. te_scope e \<noteq> None \<and> scope \<noteq> None \<and> scope = te_scope e) (ts_tools T)
       (merge_tools (\<lambda>e. te_scope e = None \<and> admits (td_name (te_definition e)) scope T) (ts_tools T) [])"

definition visible_tools :: "string option \<Rightarrow> tools_service \<Rightarrow> tool_entry list" where
  "visible_tools scope T = map snd (visible_map scope T)"

definition visible_entry :: "string \<Rightarrow> string option \<Rightarrow> tools_service \<Rightarrow> tool_entry option" where
  "visible_entry n scope T = List.find (\<lambda>e. td_name (te_definition e) = n) (visible_tools scope T)"

definition find_tool :: "string \<Rightarrow> string option \<Rightarrow> tools_service \<Rightarrow> tool_definition option" where
  "find_tool n scope T = map_option te_definition (visible_entry n scope T)"

definition list_tools :: "string option \<Rightarrow> tools_service \<Rightarrow> tool_definition list" where
  "list_tools scope T = map te_definition (visible_tools scope T)"

definition tool_schemas :: "string option \<Rightarrow> tools_service \<Rightarrow> prompt_tool list" where
  "tool_schemas scope T = map (\<lambda>e. \<lparr>pt_name = td_name (te_definition e),
     pt_description = td_description (te_definition e), pt_parameters = td_parameters (te_definition e)\<rparr>) (visible_tools scope T)"

section \<open>Execution\<close>

type_synonym ('w, 'a) tool_action = "tools_service \<times> 'w \<Rightarrow> ((agent_error + 'a) \<times> tools_service \<times> 'w) option"

record 'w tools_env =
  tn_handler :: "nat \<Rightarrow> tool_context \<Rightarrow> ('w, tool_result) tool_action"
  tn_guard :: "nat \<Rightarrow> tool_context \<Rightarrow> ('w, string option) tool_action"
  tn_listener :: "nat \<Rightarrow> tool_context \<Rightarrow> tool_result \<Rightarrow> ('w, unit) tool_action"

definition followed_by :: "('w, 'a) tool_action \<Rightarrow> ('a \<Rightarrow> ('w, 'b) tool_action) \<Rightarrow> ('w, 'b) tool_action" where
  "followed_by m f w =
     (case m w of None \<Rightarrow> None | Some (Inl e, w') \<Rightarrow> Some (Inl e, w') | Some (Inr x, w') \<Rightarrow> f x w')"

definition applies :: "string option \<Rightarrow> string option \<Rightarrow> bool" where
  "applies entry scope \<longleftrightarrow> \<not> (entry \<noteq> None \<and> (scope = None \<or> entry \<noteq> scope))"

fun guard_reason :: "'w tools_env \<Rightarrow> tool_context \<Rightarrow> string option \<Rightarrow> guard_entry list \<Rightarrow> ('w, string option) tool_action" where
  "guard_reason N c scope [] = (\<lambda>w. Some (Inr None, w))"
| "guard_reason N c scope (g # gs) =
     (if \<not> applies (ge_scope g) scope then guard_reason N c scope gs
      else followed_by (tn_guard N (ge_check g) c) (\<lambda>reason.
             if reason \<noteq> None then (\<lambda>w. Some (Inr reason, w)) else guard_reason N c scope gs))"

fun notify_each :: "'w tools_env \<Rightarrow> tool_context \<Rightarrow> tool_result \<Rightarrow> string option \<Rightarrow> result_entry list \<Rightarrow> ('w, unit) tool_action" where
  "notify_each N c res scope [] = (\<lambda>w. Some (Inr (), w))"
| "notify_each N c res scope (l # ls) =
     (if \<not> applies (rl_scope l) scope then notify_each N c res scope ls
      else followed_by (tn_listener N (rl_listener l) c res) (\<lambda>_. notify_each N c res scope ls))"

definition notify_result :: "'w tools_env \<Rightarrow> tool_context \<Rightarrow> tool_result \<Rightarrow> string option \<Rightarrow> ('w, unit) tool_action" where
  "notify_result N c res scope w = notify_each N c res scope (ts_listeners (fst w)) w"

definition settled_call :: "'w tools_env \<Rightarrow> tool_context \<Rightarrow> string option \<Rightarrow> tool_result \<Rightarrow> ('w, tool_result option) tool_action" where
  "settled_call N c scope res =
     followed_by (notify_result N c res scope) (\<lambda>_ w. Some (Inr (Some res), w))"

definition invoke_visible :: "'w tools_env \<Rightarrow> string \<Rightarrow> tool_context \<Rightarrow> string option \<Rightarrow> ('w, tool_result option) tool_action" where
  "invoke_visible N n c scope w =
     (case visible_entry n scope (fst w) of
        None \<Rightarrow> Some (Inr None, w)
      | Some e \<Rightarrow>
          followed_by (guard_reason N c scope (ts_guards (fst w))) (\<lambda>reason.
            case reason of
              Some t \<Rightarrow> settled_call N c scope (text_error t)
            | None \<Rightarrow> followed_by (tn_handler N (te_handler e) c) (settled_call N c scope)) w)"

section \<open>What a scope sees, without the map\<close>

definition entry_for :: "string option \<Rightarrow> string \<Rightarrow> tools_service \<Rightarrow> tool_entry option" where
  "entry_for scope n T = List.find (\<lambda>e. te_scope e = scope \<and> td_name (te_definition e) = n) (ts_tools T)"

definition tools_ok :: "tools_service \<Rightarrow> bool" where
  "tools_ok T \<longleftrightarrow>
     distinct (map (\<lambda>e. (te_scope e, td_name (te_definition e))) (ts_tools T)) \<and>
     (\<forall>e \<in> set (ts_tools T). te_id e < ts_next_id T \<and> td_name (te_definition e) \<noteq> [])"

lemma find_satisfies: "List.find P xs = Some x \<Longrightarrow> P x \<and> x \<in> set xs"
  by (auto simp: find_Some_iff)

lemma merge_tools_map:
  assumes "distinct (map (\<lambda>e. (te_scope e, td_name (te_definition e))) es)" and "\<And>e. P e \<Longrightarrow> te_scope e = sc"
  shows "map_of (merge_tools P es m) n =
     (case List.find (\<lambda>e. te_scope e = sc \<and> td_name (te_definition e) = n) es of
        Some e \<Rightarrow> (if P e then Some e else map_of m n) | None \<Rightarrow> map_of m n)"
  using assms(1)
proof (induction es arbitrary: m)
  case (Cons e es)
  let ?n = "td_name (te_definition e)"
  have later: "List.find (\<lambda>e. te_scope e = sc \<and> td_name (te_definition e) = n) es = None" if "te_scope e = sc" "?n = n"
    using Cons.prems that by (auto simp: find_None_iff image_iff)
  have "map_of (merge_tools P (e # es) m) n = map_of (merge_tools P es (if P e then om_insert ?n e m else m)) n"
    by (simp add: merge_tools_def)
  also have "\<dots> = (case List.find (\<lambda>e. te_scope e = sc \<and> td_name (te_definition e) = n) es of
        Some e' \<Rightarrow> (if P e' then Some e' else map_of (if P e then om_insert ?n e m else m) n)
      | None \<Rightarrow> map_of (if P e then om_insert ?n e m else m) n)"
    using Cons by simp
  finally show ?case using assms(2) [of e] later
    by (auto simp: map_of_om_insert split: option.splits)
qed (simp add: merge_tools_def)

lemma merge_tools_sorted: "om_sorted m \<Longrightarrow> om_sorted (merge_tools P es m)"
  unfolding merge_tools_def by (induction es arbitrary: m) auto

lemma merge_tools_names:
  "\<forall>(k, e) \<in> set m. td_name (te_definition e) = k \<Longrightarrow> \<forall>(k, e) \<in> set (merge_tools P es m). td_name (te_definition e) = k"
proof (induction es arbitrary: m)
  case (Cons e es)
  have ins: "x = (k, v) \<or> x \<in> set m" if "x \<in> set (om_insert k v m)" for x k v and m :: "(string, tool_entry) omap"
    using that by (induction k v m rule: om_insert.induct) (auto split: if_splits)
  have "\<forall>(k, e) \<in> set (if P e then om_insert (td_name (te_definition e)) e m else m). td_name (te_definition e) = k"
    using Cons.prems by (auto split: if_splits dest!: ins)
  from Cons.IH [OF this] show ?case by (simp add: merge_tools_def)
qed (simp add: merge_tools_def)

lemma visible_sorted: "om_sorted (visible_map scope T)" "\<forall>(k, e) \<in> set (visible_map scope T). td_name (te_definition e) = k"
  unfolding visible_map_def by (intro merge_tools_sorted merge_tools_names; simp)+

lemma fold_nothing: "fold (\<lambda>e m. m) xs m = m"
  by (induction xs) auto

lemma visible_map_entry:
  assumes "tools_ok T"
  shows "map_of (visible_map scope T) n =
    (case (if scope = None then None else entry_for scope n T) of
       Some e \<Rightarrow> Some e
     | None \<Rightarrow> if admits n scope T then entry_for None n T else None)"
proof -
  have d: "distinct (map (\<lambda>e. (te_scope e, td_name (te_definition e))) (ts_tools T))" using assms by (simp add: tools_ok_def)
  have g: "map_of (merge_tools (\<lambda>e. te_scope e = None \<and> admits (td_name (te_definition e)) scope T) (ts_tools T) []) n =
      (if admits n scope T then entry_for None n T else None)"
    by (subst merge_tools_map [OF d, where sc = None]) (auto simp: entry_for_def dest: find_satisfies split: option.split)
  show ?thesis
  proof (cases scope)
    case None
    then have "visible_map scope T = merge_tools (\<lambda>e. te_scope e = None \<and> admits (td_name (te_definition e)) scope T) (ts_tools T) []"
      by (simp add: visible_map_def merge_tools_def fold_nothing)
    with g None show ?thesis by simp
  next
    case (Some s)
    show ?thesis unfolding visible_map_def
      by (subst merge_tools_map [OF d, where sc = scope]) (use Some g in \<open>auto simp: entry_for_def dest: find_satisfies split: option.split\<close>)
  qed
qed

lemma find_named:
  assumes "om_sorted m" and "\<forall>(k, e) \<in> set m. td_name (te_definition e) = k"
  shows "List.find (\<lambda>e. td_name (te_definition e) = n) (map snd m) = map_of m n"
  using assms(2) by (induction m) auto

lemma visible_entry_for:
  "tools_ok T \<Longrightarrow> visible_entry n scope T =
    (case (if scope = None then None else entry_for scope n T) of
       Some e \<Rightarrow> Some e
     | None \<Rightarrow> if admits n scope T then entry_for None n T else None)"
  unfolding visible_entry_def visible_tools_def find_named [OF visible_sorted] by (rule visible_map_entry)

lemma list_tools_sorted: "sorted_wrt (<) (map td_name (list_tools scope T))"
proof -
  have "map (\<lambda>x. td_name (te_definition (snd x))) (visible_map scope T) = map fst (visible_map scope T)"
    using visible_sorted(2) [of scope T] by auto
  with visible_sorted(1) [of scope T] show ?thesis
    unfolding list_tools_def visible_tools_def map_map comp_def by (simp only: om_sorted_def)
qed

lemma listed_found: "d \<in> set (list_tools scope T) \<longleftrightarrow> find_tool (td_name d) scope T = Some d"
proof -
  let ?m = "visible_map scope T"
  have v: "visible_entry n scope T = map_of ?m n" for n
    unfolding visible_entry_def visible_tools_def by (rule find_named [OF visible_sorted])
  have n: "td_name (te_definition e) = k" if "(k, e) \<in> set ?m" for k e using visible_sorted(2) that by blast
  have "find_tool (td_name d) scope T = Some d \<longleftrightarrow> (\<exists>e. (td_name d, e) \<in> set ?m \<and> te_definition e = d)"
    by (auto simp: find_tool_def v map_of_mem [OF visible_sorted(1)])
  also have "\<dots> \<longleftrightarrow> d \<in> set (list_tools scope T)"
    unfolding list_tools_def visible_tools_def set_map image_comp comp_def
    by (auto simp: image_iff Bex_def) (use n in blast)
  finally show ?thesis by blast
qed

section \<open>Registrations\<close>

lemma register_facts:
  assumes "register_tool d h scope T = Inr (c, T')"
  shows "c = DropTool (ts_next_id T)" "ts_restrictions T' = ts_restrictions T" "ts_next_id T' = ts_next_id T + 1"
    "ts_tools T' = ts_tools T @ [\<lparr>te_id = ts_next_id T, te_scope = scope, te_definition = d, te_handler = h\<rparr>]"
    "td_name d \<noteq> []" "(scope, td_name d) \<notin> (\<lambda>e. (te_scope e, td_name (te_definition e))) ` set (ts_tools T)"
  using assms by (auto simp: register_tool_def Let_def split: if_splits)

lemma no_tools_ok: "tools_ok no_tools"
  by (simp add: tools_ok_def no_tools_def)

lemma register_ok: "register_tool d h scope T = Inr (c, T') \<Longrightarrow> tools_ok T \<Longrightarrow> tools_ok T'"
  using register_facts [of d h scope T c T'] by (auto simp: tools_ok_def less_Suc_eq)

lemma cleanup_ok: "tools_ok T \<Longrightarrow> tools_ok (run_tool_cleanup c T)"
  by (cases c) (auto simp: tools_ok_def distinct_map_filter)

text \<open>The cleanups of a plugin run on the effect stack of its activation.\<close>

interpretation tool_cleanups: cleanup_runner "\<lambda>c T. (None, run_tool_cleanup c T)" tools_ok
  by unfold_locales (simp add: cleanup_ok)

lemma entry_for_append:
  "ts_tools T' = ts_tools T @ [e] \<Longrightarrow> entry_for s n T' =
     (case entry_for s n T of Some x \<Rightarrow> Some x
      | None \<Rightarrow> if te_scope e = s \<and> td_name (te_definition e) = n then Some e else None)"
proof -
  have "List.find P (xs @ [e]) = (case List.find P xs of Some x \<Rightarrow> Some x | None \<Rightarrow> if P e then Some e else None)" for P xs
    by (induction xs) auto
  then show "ts_tools T' = ts_tools T @ [e] \<Longrightarrow> ?thesis" by (simp add: entry_for_def)
qed

lemma visible_cong:
  "ts_tools T' = ts_tools T \<Longrightarrow> ts_restrictions T' = ts_restrictions T \<Longrightarrow> visible_entry n s T' = visible_entry n s T"
  by (simp add: visible_entry_def visible_tools_def visible_map_def admits_def)

lemma drop_registered:
  assumes "register_tool d h scope T = Inr (c, T')" and "tools_ok T"
  shows "ts_tools (run_tool_cleanup c T') = ts_tools T" "ts_restrictions (run_tool_cleanup c T') = ts_restrictions T"
proof -
  have "\<forall>e \<in> set (ts_tools T). te_id e \<noteq> ts_next_id T" using assms(2) by (auto simp: tools_ok_def)
  then have "filter (\<lambda>e. te_id e \<noteq> ts_next_id T) (ts_tools T) = ts_tools T" by (rule filter_True)
  then show "ts_tools (run_tool_cleanup c T') = ts_tools T" "ts_restrictions (run_tool_cleanup c T') = ts_restrictions T"
    using register_facts [OF assms(1)] by simp_all
qed

lemma registered_visible:
  assumes "register_tool d h scope T = Inr (c, T')" and "tools_ok T"
  shows "visible_entry n s T' =
    (if n = td_name d \<and> (scope = s \<or> scope = None \<and> (s = None \<or> entry_for s n T = None)) \<and> (scope = None \<longrightarrow> admits n s T)
     then Some \<lparr>te_id = ts_next_id T, te_scope = scope, te_definition = d, te_handler = h\<rparr>
     else visible_entry n s T)"
proof -
  note f = register_facts [OF assms(1)]
  have fresh: "entry_for scope (td_name d) T = None"
    using f(6) by (force simp: entry_for_def find_None_iff)
  have a: "admits n s T' = admits n s T" by (simp add: admits_def f(2))
  show ?thesis
    unfolding visible_entry_for [OF register_ok [OF assms]] visible_entry_for [OF assms(2)] a entry_for_append [OF f(4)]
    using fresh by (auto split: option.splits)
qed

section \<open>Guards\<close>

text \<open>Guards that only look: what each says about a call is a function of the guard.\<close>

definition looks :: "'w tools_env \<Rightarrow> tool_context \<Rightarrow> (guard_entry \<Rightarrow> string option) \<Rightarrow> guard_entry list \<Rightarrow> bool" where
  "looks N c denial gs \<longleftrightarrow> (\<forall>g \<in> set gs. \<forall>w. tn_guard N (ge_check g) c w = Some (Inr (denial g), w))"

lemma guards_deny:
  assumes "looks N c denial gs"
  shows "guard_reason N c scope gs w =
    Some (Inr (case List.find (\<lambda>g. applies (ge_scope g) scope \<and> denial g \<noteq> None) gs of None \<Rightarrow> None | Some g \<Rightarrow> denial g), w)"
  using assms by (cases w; induction gs) (auto simp: looks_def followed_by_def)

lemma settled_handler [simp]: "settled_call (N\<lparr>tn_handler := h\<rparr>) c scope res = settled_call N c scope res"
proof -
  have "notify_each (N\<lparr>tn_handler := h\<rparr>) c res scope ls = notify_each N c res scope ls" for ls
    by (induction ls) (simp_all cong del: if_weak_cong)
  then show ?thesis by (simp add: settled_call_def notify_result_def [abs_def])
qed

lemma guard_handler [simp]: "guard_reason (N\<lparr>tn_handler := h\<rparr>) c scope gs = guard_reason N c scope gs"
  by (induction gs) (simp_all cong del: if_weak_cong)

lemma denied_call:
  assumes "visible_entry n scope (fst w) = Some e" and "looks N c denial (ts_guards (fst w))"
    and "g \<in> set (ts_guards (fst w))" and "applies (ge_scope g) scope" and "denial g \<noteq> None"
  obtains g' t where "g' \<in> set (ts_guards (fst w))" "denial g' = Some t"
    "\<And>h. invoke_visible (N\<lparr>tn_handler := h\<rparr>) n c scope w = settled_call N c scope (text_error t) w"
proof -
  let ?P = "\<lambda>g. applies (ge_scope g) scope \<and> denial g \<noteq> None"
  obtain g' where f: "List.find ?P (ts_guards (fst w)) = Some g'"
    using assms(3-5) by (cases "List.find ?P (ts_guards (fst w))") (auto simp: find_None_iff)
  then obtain t where t: "denial g' = Some t" and m: "g' \<in> set (ts_guards (fst w))" using find_satisfies by fastforce
  have "invoke_visible (N\<lparr>tn_handler := h\<rparr>) n c scope w = settled_call N c scope (text_error t) w" for h
    by (simp add: invoke_visible_def assms(1) followed_by_def guards_deny [OF assms(2)] f t del: not_None_eq)
  with m t show thesis by (rule that)
qed

end
