(* ===== verification/Jobs.thy ===== *)
theory Jobs
  imports Effects Strings
begin

text \<open>
  The registry of background jobs (\<open>plugins/jobs/src/jobs.cpp\<close>): ids, admission, settlement, cancellation, waits
  and listeners. A \<open>tracked_job\<close> is a shared object, named by its address in \<open>jr_objects\<close>; the store maps ids
  to addresses. Producers, their control handles and the listeners are closures: they are names here, and
  what calling one does to the registry and the rest of the world (the record extension \<open>'x\<close>) is a
  parameter, so a callback may call the registry again, as \<open>settle\<close> does. A wait is its registration and
  its end. Sizes and listener tokens are natural numbers; a listener's exceptions are swallowed by the code.
\<close>

section \<open>Jobs\<close>

datatype job_status = JobRunning | JobStopping | JobCompleted | JobKilled | JobFailed

fun is_terminal :: "job_status \<Rightarrow> bool" where
  "is_terminal s \<longleftrightarrow> s = JobCompleted \<or> s = JobKilled \<or> s = JobFailed"

definition job_status_name :: "job_status \<Rightarrow> string" where
  "job_status_name s = (case s of JobRunning \<Rightarrow> ''running'' | JobStopping \<Rightarrow> ''stopping'' | JobCompleted \<Rightarrow> ''completed''
     | JobKilled \<Rightarrow> ''killed'' | JobFailed \<Rightarrow> ''failed'')"

record job_outcome =
  oc_status :: job_status
  oc_detail :: string
  oc_output :: string

record tracked_job =
  tj_id :: string
  tj_kind :: string
  tj_label :: string
  tj_output_limit :: "nat option"
  tj_owner :: "string option"
  tj_status :: job_status
  tj_detail :: "string option"
  tj_output :: string
  tj_started :: "64 word"
  tj_finished :: "64 word option"
  tj_reported :: bool
  tj_in_store :: bool
  tj_cancel :: "nat option"
  tj_read :: "nat option"
  tj_waiters :: "nat list"

record job_snapshot =
  js_id :: string
  js_kind :: string
  js_label :: string
  js_output_limit :: "nat option"
  js_owner :: "string option"
  js_status :: job_status
  js_detail :: "string option"
  js_started :: "64 word"
  js_finished :: "64 word option"
  js_reported :: bool

record job_handle =
  jh_cancel :: "nat option"
  jh_read :: "nat option"

record job_start =
  st_kind :: string
  st_label :: string
  st_owner :: "string option"
  st_output_limit :: "nat option"
  st_run :: nat

text \<open>The tokens of live waits are cells of \<open>jr_tokens\<close>; \<open>jr_resumed\<close> records the timers that were cancelled.\<close>

record job_registry =
  jr_objects :: "tracked_job list"
  jr_max :: nat
  jr_controllers :: nat
  jr_closed :: bool
  jr_next_listener :: nat
  jr_store :: "(string, nat) omap"
  jr_counters :: "(string, 64 word) omap"
  jr_listeners :: "(nat, nat) omap"
  jr_changed :: "(nat, nat) omap"
  jr_tokens :: "bool list"
  jr_resumed :: "nat list"

datatype job_error = NoController | EmptyKind | EmptyLabel | ZeroLimit | LimitReached nat | ProducerThrew
  | UnknownJob string | ForeignJob string | CancelThrew | ReadThrew | ZeroTimeout

text \<open>What the closures do: a throwing one gives \<open>None\<close> or \<open>True\<close>.\<close>

record 'x jobs_env =
  jn_now :: "'x job_registry_scheme \<Rightarrow> 64 word"
  jn_run :: "nat \<Rightarrow> nat \<Rightarrow> 'x job_registry_scheme \<Rightarrow> job_handle option \<times> 'x job_registry_scheme"
  jn_cancel :: "nat \<Rightarrow> string \<Rightarrow> 'x job_registry_scheme \<Rightarrow> bool \<times> 'x job_registry_scheme"
  jn_read :: "nat \<Rightarrow> 'x job_registry_scheme \<Rightarrow> string option \<times> 'x job_registry_scheme"
  jn_done :: "nat \<Rightarrow> job_snapshot \<Rightarrow> string option \<Rightarrow> 'x job_registry_scheme \<Rightarrow> 'x job_registry_scheme"
  jn_change :: "nat \<Rightarrow> string option \<Rightarrow> 'x job_registry_scheme \<Rightarrow> 'x job_registry_scheme"

definition job_at :: "nat \<Rightarrow> 'x job_registry_scheme \<Rightarrow> tracked_job" where
  "job_at a R = jr_objects R ! a"

definition set_job :: "nat \<Rightarrow> (tracked_job \<Rightarrow> tracked_job) \<Rightarrow> 'x job_registry_scheme \<Rightarrow> 'x job_registry_scheme" where
  "set_job a f R = R\<lparr>jr_objects := (jr_objects R)[a := f (jr_objects R ! a)]\<rparr>"

definition new_registry :: "nat \<Rightarrow> job_registry" where
  "new_registry n = \<lparr>jr_objects = [], jr_max = n, jr_controllers = 0, jr_closed = False, jr_next_listener = 1, jr_store = [],
     jr_counters = [], jr_listeners = [], jr_changed = [], jr_tokens = [], jr_resumed = []\<rparr>"

definition job_view :: "tracked_job \<Rightarrow> job_snapshot" where
  "job_view j = \<lparr>js_id = tj_id j, js_kind = tj_kind j, js_label = tj_label j, js_output_limit = tj_output_limit j,
     js_owner = tj_owner j, js_status = tj_status j, js_detail = tj_detail j, js_started = tj_started j,
     js_finished = tj_finished j, js_reported = tj_reported j\<rparr>"

definition active_count :: "string option \<Rightarrow> 'x job_registry_scheme \<Rightarrow> nat" where
  "active_count owner R = length (filter (\<lambda>(i, a). tj_owner (job_at a R) = owner \<and>
     (tj_status (job_at a R) = JobRunning \<or> tj_status (job_at a R) = JobStopping)) (jr_store R))"

definition notify_changed :: "'x jobs_env \<Rightarrow> string option \<Rightarrow> 'x job_registry_scheme \<Rightarrow> 'x job_registry_scheme" where
  "notify_changed N owner R = fold (\<lambda>(t, l). jn_change N l owner) (jr_changed R) R"

section \<open>Starting\<close>

definition start_error :: "job_start \<Rightarrow> 'x job_registry_scheme \<Rightarrow> job_error option" where
  "start_error spec R =
     (if jr_controllers R = 0 then Some NoController
      else if st_kind spec = [] then Some EmptyKind
      else if st_label spec = [] then Some EmptyLabel
      else if st_output_limit spec = Some 0 then Some ZeroLimit
      else if active_count (st_owner spec) R \<ge> jr_max R then Some (LimitReached (jr_max R))
      else None)"

definition new_job :: "job_start \<Rightarrow> string \<Rightarrow> 64 word \<Rightarrow> tracked_job" where
  "new_job spec i now = \<lparr>tj_id = i, tj_kind = st_kind spec, tj_label = st_label spec, tj_output_limit = st_output_limit spec,
     tj_owner = st_owner spec, tj_status = JobRunning, tj_detail = None, tj_output = [], tj_started = now, tj_finished = None,
     tj_reported = False, tj_in_store = True, tj_cancel = None, tj_read = None, tj_waiters = []\<rparr>"

text \<open>\<open>++counters_[kind]\<close>, which makes a counter of 0 first.\<close>

definition next_count :: "string \<Rightarrow> 'x job_registry_scheme \<Rightarrow> 64 word" where
  "next_count kind R = (case map_of (jr_counters R) kind of None \<Rightarrow> 0 | Some n \<Rightarrow> n) + 1"

definition next_job_id :: "string \<Rightarrow> 'x job_registry_scheme \<Rightarrow> string" where
  "next_job_id kind R = kind @ ''-'' @ show_nat (unat (next_count kind R))"

definition admit_job :: "'x jobs_env \<Rightarrow> job_start \<Rightarrow> 'x job_registry_scheme \<Rightarrow> 'x job_registry_scheme" where
  "admit_job N spec R =
     (let i = next_job_id (st_kind spec) R
      in R\<lparr>jr_counters := om_insert (st_kind spec) (next_count (st_kind spec) R) (jr_counters R),
           jr_objects := jr_objects R @ [new_job spec i (jn_now N R)],
           jr_store := om_emplace i (length (jr_objects R)) (jr_store R)\<rparr>)"

definition start_job :: "'x jobs_env \<Rightarrow> job_start \<Rightarrow> 'x job_registry_scheme \<Rightarrow> (job_error + string) \<times> 'x job_registry_scheme" where
  "start_job N spec R =
     (case start_error spec R of
        Some e \<Rightarrow> (Inl e, R)
      | None \<Rightarrow>
          let a = length (jr_objects R); i = next_job_id (st_kind spec) R
          in (case jn_run N (st_run spec) a (admit_job N spec R) of
                (None, R') \<Rightarrow>
                  (Inl ProducerThrew,
                   notify_changed N (st_owner spec)
                     (set_job a (\<lambda>j. j\<lparr>tj_in_store := False\<rparr>) (R'\<lparr>jr_store := om_erase i (jr_store R')\<rparr>)))
              | (Some h, R') \<Rightarrow>
                  (Inr i,
                   notify_changed N (st_owner spec)
                     (set_job a (\<lambda>j. j\<lparr>tj_cancel := jh_cancel h, tj_read := jh_read h\<rparr>) R'))))"

section \<open>Access\<close>

definition expect_job :: "string \<Rightarrow> 'x job_registry_scheme \<Rightarrow> job_error + nat" where
  "expect_job i R = (case map_of (jr_store R) i of None \<Rightarrow> Inl (UnknownJob i) | Some a \<Rightarrow> Inr a)"

definition foreign :: "tracked_job \<Rightarrow> string option \<Rightarrow> bool" where
  "foreign j owner \<longleftrightarrow> tj_owner j \<noteq> None \<and> (owner = None \<or> owner \<noteq> tj_owner j)"

text \<open>\<open>expect\<close> and \<open>check_access\<close> in a row, as every operation by id begins.\<close>

definition access_job :: "string \<Rightarrow> string option \<Rightarrow> 'x job_registry_scheme \<Rightarrow> job_error + nat" where
  "access_job i owner R =
     (case expect_job i R of
        Inl e \<Rightarrow> Inl e
      | Inr a \<Rightarrow> if foreign (job_at a R) owner then Inl (ForeignJob (tj_id (job_at a R))) else Inr a)"

definition list_jobs :: "string option \<Rightarrow> 'x job_registry_scheme \<Rightarrow> job_snapshot list" where
  "list_jobs owner R =
     map (\<lambda>(i, a). job_view (job_at a R))
       (filter (\<lambda>(i, a). tj_owner (job_at a R) = None \<or> (owner \<noteq> None \<and> owner = tj_owner (job_at a R))) (jr_store R))"

definition get_job :: "string \<Rightarrow> string option \<Rightarrow> 'x job_registry_scheme \<Rightarrow> job_error + job_snapshot" where
  "get_job i owner R = (case access_job i owner R of Inl e \<Rightarrow> Inl e | Inr a \<Rightarrow> Inr (job_view (job_at a R)))"

definition read_job ::
  "'x jobs_env \<Rightarrow> string \<Rightarrow> string option \<Rightarrow> 'x job_registry_scheme \<Rightarrow> (job_error + (string \<times> job_snapshot)) \<times> 'x job_registry_scheme" where
  "read_job N i owner R =
     (case access_job i owner R of
        Inl e \<Rightarrow> (Inl e, R)
      | Inr a \<Rightarrow>
          let (text, R) = (case tj_read (job_at a R) of
                Some f \<Rightarrow> jn_read N f R
              | None \<Rightarrow> (Some (if is_terminal (tj_status (job_at a R)) then tj_output (job_at a R) else []), R))
          in (case text of
                None \<Rightarrow> (Inl ReadThrew, R)
              | Some t \<Rightarrow>
                  let R = (if is_terminal (tj_status (job_at a R)) then set_job a (\<lambda>j. j\<lparr>tj_reported := True\<rparr>) R else R)
                  in (Inr (t, job_view (job_at a R)), R)))"

section \<open>Settling and stopping\<close>

definition release_waiters :: "nat \<Rightarrow> 'x job_registry_scheme \<Rightarrow> 'x job_registry_scheme" where
  "release_waiters a R =
     fold (\<lambda>t R. if \<not> jr_tokens R ! t then R
                 else R\<lparr>jr_tokens := (jr_tokens R)[t := False], jr_resumed := jr_resumed R @ [t]\<rparr>)
       (tj_waiters (job_at a R)) (set_job a (\<lambda>j. j\<lparr>tj_waiters := []\<rparr>) R)"

definition settle_record :: "'x jobs_env \<Rightarrow> nat \<Rightarrow> job_outcome \<Rightarrow> 'x job_registry_scheme \<Rightarrow> 'x job_registry_scheme" where
  "settle_record N a oc R =
     set_job a (\<lambda>j. j\<lparr>tj_status := (if is_terminal (oc_status oc) then oc_status oc else JobFailed),
       tj_detail := Some (oc_detail oc), tj_output := oc_output oc, tj_finished := Some (jn_now N R),
       tj_reported := (tj_waiters j \<noteq> [] \<or> tj_reported j)\<rparr>) R"

definition announce_done :: "'x jobs_env \<Rightarrow> nat \<Rightarrow> 'x job_registry_scheme \<Rightarrow> 'x job_registry_scheme" where
  "announce_done N a R =
     (let view = job_view (job_at a R)
      in fold (\<lambda>(t, l) R. jn_done N l view (tj_owner (job_at a R)) R) (jr_listeners R) R)"

definition settle_job :: "'x jobs_env \<Rightarrow> nat \<Rightarrow> job_outcome \<Rightarrow> 'x job_registry_scheme \<Rightarrow> 'x job_registry_scheme" where
  "settle_job N a oc R =
     (if is_terminal (tj_status (job_at a R)) then R
      else
        let R = release_waiters a (settle_record N a oc R)
        in if \<not> tj_in_store (job_at a R) then R
           else
             let R = notify_changed N (tj_owner (job_at a R)) R
             in if jr_closed R then R else announce_done N a R)"

definition call_cancel :: "'x jobs_env \<Rightarrow> nat \<Rightarrow> string \<Rightarrow> 'x job_registry_scheme \<Rightarrow> bool \<times> 'x job_registry_scheme" where
  "call_cancel N a reason R = (case tj_cancel (job_at a R) of None \<Rightarrow> (False, R) | Some c \<Rightarrow> jn_cancel N c reason R)"

datatype kill_result = KillRequested | AlreadyFinished

definition kill_job ::
  "'x jobs_env \<Rightarrow> string \<Rightarrow> string option \<Rightarrow> string \<Rightarrow> 'x job_registry_scheme \<Rightarrow> (job_error + kill_result) \<times> 'x job_registry_scheme" where
  "kill_job N i owner reason R =
     (case access_job i owner R of
        Inl e \<Rightarrow> (Inl e, R)
      | Inr a \<Rightarrow>
          if is_terminal (tj_status (job_at a R))
          then (Inr AlreadyFinished, set_job a (\<lambda>j. j\<lparr>tj_reported := True\<rparr>) R)
          else (case call_cancel N a reason R of
                  (True, R) \<Rightarrow> (Inl CancelThrew, R)
                | (False, R) \<Rightarrow>
                    let R = set_job a (\<lambda>j. j\<lparr>tj_status := JobStopping, tj_reported := True\<rparr>) R
                    in (Inr KillRequested, notify_changed N (tj_owner (job_at a R)) R)))"

definition stop_job :: "'x jobs_env \<Rightarrow> nat \<Rightarrow> string \<Rightarrow> 'x job_registry_scheme \<Rightarrow> 'x job_registry_scheme" where
  "stop_job N a reason R =
     (if is_terminal (tj_status (job_at a R)) then R
      else
        let R = snd (call_cancel N a reason (set_job a (\<lambda>j. j\<lparr>tj_reported := True, tj_in_store := False\<rparr>) R))
        in release_waiters a (set_job a (\<lambda>j. j\<lparr>tj_status := JobStopping\<rparr>) R))"

text \<open>The loop of \<open>dispose_owner\<close> over the entries of the store; owners do not change.\<close>

definition dispose_owner :: "'x jobs_env \<Rightarrow> string \<Rightarrow> 'x job_registry_scheme \<Rightarrow> 'x job_registry_scheme" where
  "dispose_owner N s R =
     (let mine = filter (\<lambda>(i, a). tj_owner (job_at a R) = Some s) (jr_store R);
          R' = fold (\<lambda>(i, a) R. let R = stop_job N a ''owner disposed'' R in R\<lparr>jr_store := om_erase i (jr_store R)\<rparr>) mine R
      in if mine = [] then R' else notify_changed N (Some s) R')"

definition shutdown_jobs :: "'x jobs_env \<Rightarrow> 'x job_registry_scheme \<Rightarrow> 'x job_registry_scheme" where
  "shutdown_jobs N R =
     (fold (\<lambda>(i, a). stop_job N a ''jobs service disposed'') (jr_store R) (R\<lparr>jr_closed := True\<rparr>))\<lparr>jr_store := []\<rparr>"

section \<open>Waits, listeners, controllers\<close>

text \<open>\<open>wait\<close> up to its suspension (a token, or the snapshot at once), and from there.\<close>

definition begin_wait ::
  "string \<Rightarrow> nat \<Rightarrow> string option \<Rightarrow> 'x job_registry_scheme \<Rightarrow> (job_error + (job_snapshot + nat \<times> nat)) \<times> 'x job_registry_scheme" where
  "begin_wait i timeout owner R =
     (case access_job i owner R of
        Inl e \<Rightarrow> (Inl e, R)
      | Inr a \<Rightarrow>
          if timeout = 0 then (Inl ZeroTimeout, R)
          else if is_terminal (tj_status (job_at a R))
          then (let R = set_job a (\<lambda>j. j\<lparr>tj_reported := True\<rparr>) R in (Inr (Inl (job_view (job_at a R))), R))
          else (let t = length (jr_tokens R)
                in (Inr (Inr (a, t)),
                    set_job a (\<lambda>j. j\<lparr>tj_waiters := tj_waiters j @ [t]\<rparr>) (R\<lparr>jr_tokens := jr_tokens R @ [True]\<rparr>))))"

definition stop_wait :: "nat \<Rightarrow> 'x job_registry_scheme \<Rightarrow> 'x job_registry_scheme" where
  "stop_wait t R =
     (if \<not> jr_tokens R ! t then R else R\<lparr>jr_tokens := (jr_tokens R)[t := False], jr_resumed := jr_resumed R @ [t]\<rparr>)"

definition end_wait :: "nat \<Rightarrow> nat \<Rightarrow> 'x job_registry_scheme \<Rightarrow> job_snapshot \<times> 'x job_registry_scheme" where
  "end_wait a t R =
     (let R = set_job a (\<lambda>j. j\<lparr>tj_waiters := filter (\<lambda>x. x \<noteq> t) (tj_waiters j)\<rparr>) (R\<lparr>jr_tokens := (jr_tokens R)[t := False]\<rparr>);
          R = (if is_terminal (tj_status (job_at a R)) then set_job a (\<lambda>j. j\<lparr>tj_reported := True\<rparr>) R else R)
      in (job_view (job_at a R), R))"

datatype job_cleanup = DropDoneListener nat | DropChangedListener nat | DetachController

definition on_job_done :: "nat \<Rightarrow> 'x job_registry_scheme \<Rightarrow> job_cleanup \<times> 'x job_registry_scheme" where
  "on_job_done l R =
     (let t = jr_next_listener R
      in (DropDoneListener t, R\<lparr>jr_next_listener := t + 1, jr_listeners := om_emplace t l (jr_listeners R)\<rparr>))"

definition on_jobs_changed :: "nat \<Rightarrow> 'x job_registry_scheme \<Rightarrow> job_cleanup \<times> 'x job_registry_scheme" where
  "on_jobs_changed l R =
     (let t = jr_next_listener R
      in (DropChangedListener t, R\<lparr>jr_next_listener := t + 1, jr_changed := om_emplace t l (jr_changed R)\<rparr>))"

definition attach_controller :: "'x job_registry_scheme \<Rightarrow> job_cleanup \<times> 'x job_registry_scheme" where
  "attach_controller R = (DetachController, R\<lparr>jr_controllers := jr_controllers R + 1\<rparr>)"

fun run_job_cleanup :: "job_cleanup \<Rightarrow> 'x job_registry_scheme \<Rightarrow> 'x job_registry_scheme" where
  "run_job_cleanup (DropDoneListener t) R = R\<lparr>jr_listeners := om_erase t (jr_listeners R)\<rparr>"
| "run_job_cleanup (DropChangedListener t) R = R\<lparr>jr_changed := om_erase t (jr_changed R)\<rparr>"
| "run_job_cleanup DetachController R = R\<lparr>jr_controllers := jr_controllers R - 1\<rparr>"

section \<open>Ids and the store\<close>

definition of_kind :: "string \<Rightarrow> tracked_job list \<Rightarrow> nat" where
  "of_kind k js = length (filter (\<lambda>j. tj_kind j = k) js)"

definition issued_id :: "string \<Rightarrow> nat \<Rightarrow> string" where
  "issued_id k n = k @ ''-'' @ show_nat (unat (of_nat n :: 64 word))"

text \<open>The n-th job of a kind has the n-th id of that kind; an entry of the store names the job under its key.\<close>

definition jobs_ok :: "'x job_registry_scheme \<Rightarrow> bool" where
  "jobs_ok R \<longleftrightarrow> om_sorted (jr_store R) \<and>
     (\<forall>i a. map_of (jr_store R) i = Some a \<longrightarrow> a < length (jr_objects R) \<and> tj_id (job_at a R) = i) \<and>
     (\<forall>k. next_count k R = of_nat (of_kind k (jr_objects R)) + 1) \<and>
     (\<forall>a < length (jr_objects R). tj_id (job_at a R) =
        issued_id (tj_kind (job_at a R)) (Suc (of_kind (tj_kind (job_at a R)) (take a (jr_objects R)))))"

text \<open>What every operation keeps: the registry's consistency, and the id, kind and owner of every job.\<close>

definition identity :: "tracked_job \<Rightarrow> string \<times> string \<times> string option" where
  "identity j = (tj_id j, tj_kind j, tj_owner j)"

definition evolves :: "'x job_registry_scheme \<Rightarrow> 'x job_registry_scheme \<Rightarrow> bool" where
  "evolves R R' \<longleftrightarrow> length (jr_objects R) \<le> length (jr_objects R') \<and> (jobs_ok R \<longrightarrow> jobs_ok R') \<and>
     (\<forall>a < length (jr_objects R). identity (job_at a R') = identity (job_at a R))"

lemma evolves_refl: "evolves R R"
  by (simp add: evolves_def)

lemma evolves_trans: "evolves a b \<Longrightarrow> evolves b c \<Longrightarrow> evolves a c"
  by (auto simp: evolves_def)

lemma evolves_fold: "(\<And>x R. evolves R (g x R)) \<Longrightarrow> evolves R (fold g xs R)"
  by (induction xs arbitrary: R) (auto intro: evolves_refl evolves_trans)

lemma of_kind_map: "map identity js = map identity js' \<Longrightarrow> of_kind k js = of_kind k js'"
proof -
  have "of_kind k js = length (filter (\<lambda>x. fst (snd x) = k) (map identity js))" for js
    by (simp add: of_kind_def identity_def filter_map comp_def)
  then show ?thesis if "map identity js = map identity js'" by (simp only: that)
qed

lemma identity_nth:
  assumes "map identity js = map identity js'" and "a < length js"
  shows "tj_id (js ! a) = tj_id (js' ! a) \<and> tj_kind (js ! a) = tj_kind (js' ! a) \<and> tj_owner (js ! a) = tj_owner (js' ! a)"
proof -
  have "length js' = length js" using assms(1) by (rule map_eq_imp_length_eq [symmetric])
  then have "identity (js ! a) = identity (js' ! a)"
    using arg_cong [OF assms(1), of "\<lambda>xs. xs ! a"] assms(2) by simp
  then show ?thesis by (simp add: identity_def)
qed

lemma evolves_same:
  assumes "map identity (jr_objects R') = map identity (jr_objects R)" and "jr_counters R' = jr_counters R"
    and "om_sorted (jr_store R) \<Longrightarrow> om_sorted (jr_store R')"
    and "\<And>i a. map_of (jr_store R') i = Some a \<Longrightarrow> map_of (jr_store R) i = Some a"
  shows "evolves R R'"
proof -
  have len: "length (jr_objects R') = length (jr_objects R)" using assms(1) by (metis length_map)
  have at: "tj_id (job_at a R') = tj_id (job_at a R)" "tj_kind (job_at a R') = tj_kind (job_at a R)"
    "tj_owner (job_at a R') = tj_owner (job_at a R)" if "a < length (jr_objects R)" for a
    using identity_nth [OF assms(1), of a] that len by (simp_all add: job_at_def)
  have k: "of_kind k (take a (jr_objects R')) = of_kind k (take a (jr_objects R))" for k a
    by (rule of_kind_map) (metis assms(1) take_map)
  have k': "of_kind k (jr_objects R') = of_kind k (jr_objects R)" for k by (rule of_kind_map) (rule assms(1))
  show ?thesis
    using assms(3) unfolding evolves_def jobs_ok_def next_count_def assms(2) k k' len
    by (auto simp: at identity_def dest: assms(4))
qed

lemma evolves_set_job: "(\<And>j. identity (f j) = identity j) \<Longrightarrow> evolves R (set_job a f R)"
proof (rule evolves_same)
  assume "\<And>j. identity (f j) = identity j"
  then show "map identity (jr_objects (set_job a f R)) = map identity (jr_objects R)"
    by (simp add: set_job_def map_update) (metis linorder_not_less list_update_beyond list_update_id length_map nth_map)
qed (simp_all add: set_job_def)

lemma evolves_plain:
  "jr_objects R' = jr_objects R \<Longrightarrow> jr_counters R' = jr_counters R \<Longrightarrow> jr_store R' = jr_store R \<Longrightarrow> evolves R R'"
  by (rule evolves_same) simp_all

lemma evolves_erase: "evolves R (R\<lparr>jr_store := om_erase i (jr_store R)\<rparr>)"
  by (rule evolves_same) (auto split: if_splits)

lemma evolves_admit: "evolves R (admit_job N spec R)"
proof -
  let ?n = "length (jr_objects R)" and ?k = "st_kind spec" and ?R = "admit_job N spec R"
  have o: "jr_objects ?R = jr_objects R @ [new_job spec (next_job_id ?k R) (jn_now N R)]"
    "jr_store ?R = om_emplace (next_job_id ?k R) ?n (jr_store R)"
    "jr_counters ?R = om_insert ?k (next_count ?k R) (jr_counters R)" by (simp_all add: admit_job_def Let_def)
  have old: "job_at a ?R = job_at a R" if "a < ?n" for a using that by (simp add: job_at_def o nth_append)
  have new: "job_at ?n ?R = new_job spec (next_job_id ?k R) (jn_now N R)" by (simp add: job_at_def o)
  have c: "next_count k ?R = next_count k R + (if k = ?k then 1 else 0)" for k
    by (simp add: next_count_def o)
  show ?thesis
    unfolding evolves_def
  proof (intro conjI impI)
    show "?n \<le> length (jr_objects ?R)" "\<forall>a < ?n. identity (job_at a ?R) = identity (job_at a R)" by (simp_all add: o(1) old)
    assume ok: "jobs_ok R"
    have id: "next_job_id ?k R = issued_id ?k (Suc (of_kind ?k (jr_objects R)))"
      using ok by (simp add: next_job_id_def issued_id_def jobs_ok_def add.commute)
    show "jobs_ok ?R"
      unfolding jobs_ok_def
    proof (intro conjI allI impI)
      show "om_sorted (jr_store ?R)" using ok by (simp add: o jobs_ok_def)
      fix i a assume "map_of (jr_store ?R) i = Some a"
      then have "map_of (jr_store R) i = Some a \<or> i = next_job_id ?k R \<and> a = ?n"
        by (auto simp: o map_of_om_emplace split: if_splits)
      then show "a < length (jr_objects ?R)" "tj_id (job_at a ?R) = i"
        using ok old [of a] new by (auto simp: o(1) jobs_ok_def new_job_def less_Suc_eq)
    next
      fix k show "next_count k ?R = of_nat (of_kind k (jr_objects ?R)) + 1"
        using ok by (simp add: c o(1) of_kind_def new_job_def jobs_ok_def)
    next
      fix a assume "a < length (jr_objects ?R)"
      then consider "a < ?n" | "a = ?n" by (auto simp: o(1) less_Suc_eq)
      then show "tj_id (job_at a ?R) = issued_id (tj_kind (job_at a ?R)) (Suc (of_kind (tj_kind (job_at a ?R)) (take a (jr_objects ?R))))"
      proof cases
        case 1
        with ok show ?thesis by (simp add: old o(1) jobs_ok_def)
      qed (simp add: new o(1) new_job_def id)
    qed
  qed
qed

end
