(* ===== verification/JobLaws.thy ===== *)
theory JobLaws
  imports Jobs
begin

text \<open>
  What every operation of the job registry keeps, whatever its closures do as long as they keep it too: a
  relation between registries that the small updates respect (\<open>job_relation\<close>) is respected by all
  operations. Two relations of that kind: ids stay assigned (\<open>evolves\<close>), and no owner gets past the limit
  (\<open>keeps_limit\<close>), the latter where cancelling does not settle on the spot. The steps of a registry's life
  are \<open>job_step\<close>.
\<close>

section \<open>Small updates\<close>

lemma set_job_comp: "set_job a f (set_job a g R) = set_job a (f \<circ> g) R"
  by (cases "a < length (jr_objects R)") (simp_all add: set_job_def list_update_beyond)

lemma set_job_length [simp]: "length (jr_objects (set_job a f R)) = length (jr_objects R)"
  by (simp add: set_job_def)

lemma set_job_rest [simp]:
  "jr_store (set_job a f R) = jr_store R" "jr_max (set_job a f R) = jr_max R" "jr_counters (set_job a f R) = jr_counters R"
  "jr_changed (set_job a f R) = jr_changed R" "jr_tokens (set_job a f R) = jr_tokens R"
  "jr_controllers (set_job a f R) = jr_controllers R" "jr_listeners (set_job a f R) = jr_listeners R"
  "jr_closed (set_job a f R) = jr_closed R" "jr_resumed (set_job a f R) = jr_resumed R"
  by (simp_all add: set_job_def)

lemma job_at_set_job: "job_at b (set_job a f R) = (if a = b \<and> a < length (jr_objects R) then f (job_at b R) else job_at b R)"
  by (cases "a < length (jr_objects R)") (simp_all add: job_at_def set_job_def nth_list_update list_update_beyond)

definition quiet_update :: "(tracked_job \<Rightarrow> tracked_job) \<Rightarrow> bool" where
  "quiet_update f \<longleftrightarrow> (\<forall>j. identity (f j) = identity j \<and> tj_status (f j) = tj_status j)"

lemma quiet_updates:
  "quiet_update (\<lambda>j. j\<lparr>tj_reported := b\<rparr>)" "quiet_update (\<lambda>j. j\<lparr>tj_in_store := b\<rparr>)"
  "quiet_update (\<lambda>j. j\<lparr>tj_reported := b, tj_in_store := b'\<rparr>)" "quiet_update (\<lambda>j. j\<lparr>tj_waiters := h j\<rparr>)"
  "quiet_update (\<lambda>j. j\<lparr>tj_cancel := c, tj_read := c'\<rparr>)"
  by (simp_all add: quiet_update_def identity_def)

definition stopping :: "tracked_job \<Rightarrow> tracked_job" where
  "stopping j = j\<lparr>tj_status := JobStopping\<rparr>"

lemma stopping_split: "(\<lambda>j. j\<lparr>tj_status := JobStopping, tj_reported := b\<rparr>) = (\<lambda>j. j\<lparr>tj_reported := b\<rparr>) \<circ> stopping"
  by (auto simp: stopping_def)

definition no_objects_touched :: "'x job_registry_scheme \<Rightarrow> 'x job_registry_scheme \<Rightarrow> bool" where
  "no_objects_touched R R' \<longleftrightarrow> jr_objects R' = jr_objects R \<and> jr_counters R' = jr_counters R \<and> jr_store R' = jr_store R
     \<and> jr_max R' = jr_max R"

section \<open>Relations that small updates respect\<close>

locale job_relation =
  fixes N :: "'x jobs_env" and Q :: "'x job_registry_scheme \<Rightarrow> 'x job_registry_scheme \<Rightarrow> bool"
  assumes refl: "Q R R"
    and trans: "Q R R' \<Longrightarrow> Q R' R'' \<Longrightarrow> Q R R''"
    and mark: "quiet_update f \<Longrightarrow> Q R (set_job a f R)"
    and plain: "no_objects_touched R R' \<Longrightarrow> Q R R'"
    and settled: "Q R (settle_record N a oc R)"
    and erased: "Q R (R\<lparr>jr_store := om_erase i (jr_store R)\<rparr>)"
    and cleared: "Q R (R\<lparr>jr_store := []\<rparr>)"
    and admitted: "start_error spec R = None \<Longrightarrow> Q R (admit_job N spec R)"
    and cancelled: "Q R (snd (jn_cancel N c r R))"
    and stopped: "Q R0 R \<Longrightarrow> a < length (jr_objects R0) \<Longrightarrow> \<not> is_terminal (tj_status (job_at a R)) \<Longrightarrow>
      Q R (set_job a stopping (snd (call_cancel N a r R)))"
    and ran: "Q R (snd (jn_run N p a R))"
    and was_read: "Q R (snd (jn_read N p R))"
    and told: "Q R (jn_done N l view owner R)"
    and changed: "Q R (jn_change N l owner R)"
begin

lemma folded: "(\<And>x R. Q R (g x R)) \<Longrightarrow> Q R (fold g xs R)"
  by (induction xs arbitrary: R) (auto intro: refl trans)

lemma notified: "Q R (notify_changed N owner R)"
  unfolding notify_changed_def by (rule folded) (simp add: changed split: prod.split)

lemma released: "Q R (release_waiters a R)"
  unfolding release_waiters_def
  by (rule trans [OF mark [OF quiet_updates(4)]], rule folded) (simp add: refl plain no_objects_touched_def)

lemma announced: "Q R (announce_done N a R)"
  unfolding announce_done_def Let_def by (rule folded) (simp add: told split: prod.split)

lemma settles: "Q R (settle_job N a oc R)"
proof -
  define R' where "R' = release_waiters a (settle_record N a oc R)"
  have Q: "Q R R'" unfolding R'_def by (rule trans [OF settled released])
  have Q': "Q R (notify_changed N owner R')" for owner by (rule trans [OF Q notified])
  show ?thesis
    unfolding settle_job_def Let_def R'_def [symmetric]
    by (simp add: refl Q Q' trans [OF Q' announced] del: is_terminal.simps)
qed

lemma starts: "Q R (snd (start_job N spec R))"
proof (cases "start_error spec R")
  case None
  let ?A = "admit_job N spec R" and ?a = "length (jr_objects R)"
  show ?thesis
  proof (cases "jn_run N (st_run spec) ?a ?A")
    case (Pair h R')
    have "Q R R'" using trans [OF admitted [OF None] ran, of "st_run spec" ?a] by (simp add: Pair)
    then show ?thesis
      by (auto simp: start_job_def None Let_def Pair split: option.split
          intro!: trans [OF _ notified] trans [OF _ mark] trans [OF _ erased] quiet_updates)
  qed
qed (simp add: start_job_def refl)

lemma reads: "Q R (snd (read_job N i owner R))"
proof (cases "access_job i owner R")
  case (Inr a)
  obtain t R' where e: "(case tj_read (job_at a R) of Some f \<Rightarrow> jn_read N f R
      | None \<Rightarrow> (Some (if is_terminal (tj_status (job_at a R)) then tj_output (job_at a R) else []), R)) = (t, R')"
    by (rule prod.exhaust)
  have "Q R R'" using e was_read [of R] by (auto simp: refl split: option.splits) (metis snd_conv)+
  then show ?thesis
    unfolding read_job_def Inr sum.case e Let_def prod.case
    by (auto split: option.split intro: trans [OF _ mark] quiet_updates)
qed (simp add: read_job_def refl)

lemma calls_cancel: "Q R (snd (call_cancel N a r R))"
  by (auto simp: call_cancel_def refl cancelled split: option.split)

lemma kills:
  assumes "jobs_ok R" shows "Q R (snd (kill_job N i owner reason R))"
proof (cases "access_job i owner R")
  case (Inr a)
  have a: "a < length (jr_objects R)"
    using assms Inr by (auto simp: access_job_def expect_job_def jobs_ok_def split: option.splits if_splits)
  obtain b R' where c: "call_cancel N a reason R = (b, R')" by (rule prod.exhaust)
  have Q: "Q R R'" using calls_cancel [of R a reason] by (simp add: c)
  show ?thesis
  proof (cases "is_terminal (tj_status (job_at a R)) \<or> b")
    case True
    with Q show ?thesis by (auto simp: kill_job_def Inr c simp del: is_terminal.simps intro: mark quiet_updates)
  next
    case False
    then have t: "\<not> is_terminal (tj_status (job_at a R))" and b: "b = False" by simp_all
    have "Q R (set_job a stopping R')" using stopped [OF refl a t, of reason] by (simp add: c)
    with t show ?thesis
      by (auto simp: kill_job_def Inr c b Let_def stopping_split set_job_comp [symmetric] simp del: is_terminal.simps
          intro: trans [OF _ notified] trans [OF _ mark] quiet_updates)
  qed
qed (simp add: kill_job_def refl)

lemma stops:
  assumes "Q R0 R" and "a < length (jr_objects R0)" shows "Q R (stop_job N a reason R)"
proof (cases "is_terminal (tj_status (job_at a R))")
  case False
  let ?R = "set_job a (\<lambda>j. j\<lparr>tj_reported := True, tj_in_store := False\<rparr>) R"
  have m: "Q R ?R" by (rule mark) (rule quiet_updates)
  have "\<not> is_terminal (tj_status (job_at a ?R))" using False by (simp add: job_at_set_job)
  from stopped [OF trans [OF assms(1) m] assms(2) this, of reason] m show ?thesis
    using False by (auto simp: stop_job_def Let_def stopping_def [abs_def] simp del: is_terminal.simps
        intro: trans [OF _ released] trans [OF m])
qed (simp add: stop_job_def refl)

lemma stops_all:
  assumes "\<And>x. x \<in> set xs \<Longrightarrow> f x < length (jr_objects R0)" and "Q R0 R" and "\<And>x R. Q R (h x R)"
  shows "Q R (fold (\<lambda>x R. h x (stop_job N (f x) reason R)) xs R)"
  using assms(1,2)
proof (induction xs arbitrary: R)
  case (Cons x xs)
  have s: "Q R (h x (stop_job N (f x) reason R))" by (rule trans [OF stops assms(3)]) (use Cons.prems in auto)
  show ?case using trans [OF s Cons.IH] trans [OF Cons.prems(2) s] Cons.prems(1) by simp
qed (simp add: refl)

lemma stored_at: "jobs_ok R \<Longrightarrow> (i, a) \<in> set (jr_store R) \<Longrightarrow> a < length (jr_objects R)"
  by (auto simp: jobs_ok_def map_of_mem)

lemma disposes:
  assumes "jobs_ok R" shows "Q R (dispose_owner N s R)"
proof -
  let ?mine = "filter (\<lambda>(i, a). tj_owner (job_at a R) = Some s) (jr_store R)"
  have "Q R (fold (\<lambda>x R. (\<lambda>x R. R\<lparr>jr_store := om_erase (fst x) (jr_store R)\<rparr>) x (stop_job N (snd x) ''owner disposed'' R)) ?mine R)"
    by (rule stops_all [OF _ refl]) (use stored_at [OF assms] in \<open>auto simp: erased\<close>)
  then show ?thesis
    by (auto simp: dispose_owner_def Let_def case_prod_unfold refl intro: trans [OF _ notified])
qed

lemma shuts_down:
  assumes "jobs_ok R" shows "Q R (shutdown_jobs N R)"
proof -
  let ?R = "R\<lparr>jr_closed := True\<rparr>"
  have p: "Q R ?R" by (rule plain) (simp add: no_objects_touched_def)
  have "Q ?R (fold (\<lambda>x R. (\<lambda>x R. R) x (stop_job N (snd x) ''jobs service disposed'' R)) (jr_store R) ?R)"
    by (rule stops_all [OF _ refl]) (use stored_at [OF assms] in \<open>auto simp: refl\<close>)
  then show ?thesis
    by (auto simp: shutdown_jobs_def case_prod_unfold intro: trans [OF p] trans [OF _ cleared])
qed

lemma waits_begin: "Q R (snd (begin_wait i timeout owner R))"
  by (auto simp: begin_wait_def Let_def refl no_objects_touched_def split: sum.split
      intro: mark quiet_updates trans [OF plain mark])

lemma waits_stop: "Q R (stop_wait t R)"
  by (simp add: stop_wait_def refl plain no_objects_touched_def)

lemma waits_end: "Q R (snd (end_wait a t R))"
proof -
  have "Q R (R\<lparr>jr_tokens := (jr_tokens R)[t := False]\<rparr>)" by (rule plain) (simp add: no_objects_touched_def)
  note Q = trans [OF this mark [OF quiet_updates(4)]]
  show ?thesis
    by (auto simp: end_wait_def Let_def simp del: is_terminal.simps intro: Q trans [OF Q mark [OF quiet_updates(1)]])
qed

lemma listens: "Q R (snd (on_job_done l R))" "Q R (snd (on_jobs_changed l R))" "Q R (snd (attach_controller R))"
  by (auto simp: on_job_done_def on_jobs_changed_def attach_controller_def Let_def no_objects_touched_def intro!: plain)

lemma cleans: "Q R (run_job_cleanup c R)"
  by (cases c) (auto simp: no_objects_touched_def intro!: plain)

end

section \<open>Well-behaved closures\<close>

definition obeys :: "('x job_registry_scheme \<Rightarrow> 'x job_registry_scheme \<Rightarrow> bool) \<Rightarrow> 'x jobs_env \<Rightarrow> bool" where
  "obeys Q N \<longleftrightarrow> (\<forall>p a R. Q R (snd (jn_run N p a R))) \<and> (\<forall>c r R. Q R (snd (jn_cancel N c r R))) \<and>
     (\<forall>p R. Q R (snd (jn_read N p R))) \<and> (\<forall>l view owner R. Q R (jn_done N l view owner R)) \<and>
     (\<forall>l owner R. Q R (jn_change N l owner R))"

lemma stopping_identity: "identity (stopping j) = identity j"
  by (simp add: stopping_def identity_def)

lemma evolves_settle: "evolves R (settle_record N a oc R)"
  unfolding settle_record_def by (rule evolves_set_job) (simp add: identity_def)

interpretation ids: job_relation N "\<lambda>R R'. obeys evolves N \<longrightarrow> evolves R R'" for N :: "'x jobs_env"
proof
  show "obeys evolves N \<longrightarrow> evolves R (R\<lparr>jr_store := []\<rparr>)" for R :: "'x job_registry_scheme"
    by (intro impI evolves_same) simp_all
  show "obeys evolves N \<longrightarrow> evolves R R'" if "no_objects_touched R R'" for R R' :: "'x job_registry_scheme"
    using that by (intro impI evolves_plain) (simp_all add: no_objects_touched_def)
  show "obeys evolves N \<longrightarrow> evolves R (set_job a stopping (snd (call_cancel N a r R)))" for R :: "'x job_registry_scheme" and a r
    by (intro impI evolves_trans [OF _ evolves_set_job])
      (simp_all add: stopping_identity call_cancel_def obeys_def evolves_refl split: option.split)
qed (auto simp: evolves_refl evolves_settle evolves_erase evolves_admit obeys_def quiet_update_def
    intro: evolves_trans evolves_set_job)

section \<open>The limit\<close>

definition within :: "'x job_registry_scheme \<Rightarrow> bool" where
  "within R \<longleftrightarrow> (\<forall>owner. active_count owner R \<le> jr_max R)"

definition keeps_limit :: "'x job_registry_scheme \<Rightarrow> 'x job_registry_scheme \<Rightarrow> bool" where
  "keeps_limit R R' \<longleftrightarrow> jr_max R' = jr_max R \<and> (jobs_ok R \<and> within R \<longrightarrow> within R')"

text \<open>A cancel that does not settle a live job while it runs.\<close>

definition patient :: "'x jobs_env \<Rightarrow> bool" where
  "patient N \<longleftrightarrow> (\<forall>c r R a. a < length (jr_objects R) \<longrightarrow> \<not> is_terminal (tj_status (job_at a R)) \<longrightarrow>
     \<not> is_terminal (tj_status (job_at a (snd (jn_cancel N c r R)))))"

definition active :: "string option \<Rightarrow> tracked_job \<Rightarrow> bool" where
  "active owner j \<longleftrightarrow> tj_owner j = owner \<and> \<not> is_terminal (tj_status j)"

lemma active_count_active: "active_count owner R = length (filter (\<lambda>(i, a). active owner (job_at a R)) (jr_store R))"
proof -
  have "s = JobRunning \<or> s = JobStopping \<longleftrightarrow> \<not> is_terminal s" for s by (cases s) simp_all
  then show ?thesis by (simp add: active_count_def active_def)
qed

lemma length_filter_mono: "(\<And>x. x \<in> set xs \<Longrightarrow> P x \<Longrightarrow> P' x) \<Longrightarrow> length (filter P xs) \<le> length (filter P' xs)"
  by (induction xs) (auto simp: le_Suc_eq)

lemma length_filter_insert: "length (filter P (om_insert k v m)) \<le> length (filter P m) + (if P (k, v) then 1 else 0)"
  by (induction m) auto

lemma length_filter_emplace: "length (filter P (om_emplace k v m)) \<le> length (filter P m) + (if P (k, v) then 1 else 0)"
  using length_filter_insert [of P k v m] by (cases "map_of m k") (simp_all add: om_emplace_def)

lemma within_fewer:
  assumes "within R" and "jr_max R' = jr_max R"
    and "\<And>i a owner. (i, a) \<in> set (jr_store R') \<Longrightarrow> active owner (job_at a R') \<Longrightarrow> active owner (job_at a R)"
    and "\<And>P. length (filter P (jr_store R')) \<le> length (filter P (jr_store R))"
  shows "within R'"
  unfolding within_def
proof
  fix owner
  have "active_count owner R' \<le> length (filter (\<lambda>(i, a). active owner (job_at a R)) (jr_store R'))"
    unfolding active_count_active by (rule length_filter_mono) (auto intro: assms(3))
  also have "\<dots> \<le> active_count owner R" unfolding active_count_active by (rule assms(4))
  also have "\<dots> \<le> jr_max R'" using assms(1,2) by (simp add: within_def)
  finally show "active_count owner R' \<le> jr_max R'" .
qed

lemma limit_fewer:
  assumes "jr_max R' = jr_max R"
    and "\<And>a owner. active owner (job_at a R') \<Longrightarrow> active owner (job_at a R)"
    and "\<And>P. length (filter P (jr_store R')) \<le> length (filter P (jr_store R))"
  shows "keeps_limit R R'"
  unfolding keeps_limit_def using assms by (auto intro: within_fewer)

lemma limit_set_job:
  "(\<And>j owner. active owner (f j) \<Longrightarrow> active owner j) \<Longrightarrow> keeps_limit R (set_job a f R)"
  by (rule limit_fewer) (auto simp: job_at_set_job split: if_splits)

lemma limit_stopping:
  "\<not> is_terminal (tj_status (job_at a R)) \<Longrightarrow> keeps_limit R (set_job a stopping R)"
  by (rule limit_fewer) (auto simp: job_at_set_job active_def stopping_def split: if_splits)

lemma limit_admit: 
  assumes "start_error spec R = None" shows "keeps_limit R (admit_job N spec R)"
proof -
  let ?R = "admit_job N spec R" and ?n = "length (jr_objects R)" and ?i = "next_job_id (st_kind spec) R"
  let ?new = "new_job spec ?i (jn_now N R)"
  have max: "jr_max ?R = jr_max R" by (simp add: admit_job_def Let_def)
  have "active_count owner ?R \<le> jr_max R" if ok: "jobs_ok R" and w: "within R" for owner
  proof -
    have free: "active_count (st_owner spec) R < jr_max R" using assms by (auto simp: start_error_def split: if_splits)
    let ?P = "\<lambda>(i, a). active owner (job_at a ?R)"
    have old: "job_at a ?R = job_at a R" if "a < ?n" for a
      using that by (simp add: job_at_def admit_job_def Let_def nth_append)
    have store: "jr_store ?R = om_emplace ?i ?n (jr_store R)" by (simp add: admit_job_def Let_def)
    have new: "job_at ?n ?R = ?new" by (simp add: job_at_def admit_job_def Let_def)
    have same: "length (filter ?P (jr_store R)) = active_count owner R"
      unfolding active_count_active by (rule arg_cong [OF filter_cong]) (auto simp: old ids.stored_at [OF ok])
    have "active_count owner ?R \<le> active_count owner R + (if active owner ?new then 1 else 0)"
      using length_filter_emplace [of ?P ?i ?n "jr_store R"]
      by (simp add: active_count_active [of owner ?R] same new store)
    also have "\<dots> \<le> jr_max R" using free w by (auto simp: active_def new_job_def within_def)
    finally show ?thesis .
  qed
  then show ?thesis by (simp add: keeps_limit_def within_def max)
qed

definition thrifty :: "'x jobs_env \<Rightarrow> bool" where
  "thrifty N \<longleftrightarrow> obeys evolves N \<and> obeys keeps_limit N \<and> patient N"

lemma limit_settle: "keeps_limit R (settle_record N a oc R)"
  unfolding settle_record_def by (rule limit_set_job) (simp add: active_def split: if_splits)

lemma limit_erase: "keeps_limit R (R\<lparr>jr_store := om_erase i (jr_store R)\<rparr>)"
  by (rule limit_fewer) (auto simp: job_at_def om_erase_def intro: length_filter_mono)

lemma limit_cancel:
  assumes "thrifty N" and "a < length (jr_objects R)" and "\<not> is_terminal (tj_status (job_at a R))"
  shows "evolves R (set_job a stopping (snd (call_cancel N a r R))) \<and> keeps_limit R (set_job a stopping (snd (call_cancel N a r R)))"
proof -
  let ?R = "snd (call_cancel N a r R)"
  have t: "\<not> is_terminal (tj_status (job_at a ?R))" and Q: "evolves R ?R" "keeps_limit R ?R"
    using assms
    by (auto simp: call_cancel_def thrifty_def patient_def obeys_def evolves_refl keeps_limit_def simp del: is_terminal.simps
        split: option.split)
  from Q limit_stopping [OF t] evolves_set_job [of stopping ?R a, OF stopping_identity] show ?thesis
    by (auto simp: keeps_limit_def evolves_def)
qed

interpretation limit: job_relation N "\<lambda>R R'. thrifty N \<longrightarrow> evolves R R' \<and> keeps_limit R R'" for N :: "'x jobs_env"
proof
  fix R R' R'' :: "'x job_registry_scheme"
  show "thrifty N \<longrightarrow> evolves R R \<and> keeps_limit R R" by (simp add: evolves_refl keeps_limit_def)
  assume "thrifty N \<longrightarrow> evolves R R' \<and> keeps_limit R R'" and "thrifty N \<longrightarrow> evolves R' R'' \<and> keeps_limit R' R''"
  then show "thrifty N \<longrightarrow> evolves R R'' \<and> keeps_limit R R''" by (auto simp: evolves_def keeps_limit_def)
next
  show "thrifty N \<longrightarrow> evolves R (set_job a f R) \<and> keeps_limit R (set_job a f R)" if "quiet_update f" for R :: "'x job_registry_scheme" and a f
    using that by (intro impI conjI evolves_set_job limit_set_job) (simp_all add: quiet_update_def active_def identity_def)
  show "thrifty N \<longrightarrow> evolves R R' \<and> keeps_limit R R'" if "no_objects_touched R R'" for R R' :: "'x job_registry_scheme"
    using that by (intro impI conjI evolves_plain limit_fewer) (simp_all add: no_objects_touched_def job_at_def)
  show "thrifty N \<longrightarrow> evolves R (R\<lparr>jr_store := []\<rparr>) \<and> keeps_limit R (R\<lparr>jr_store := []\<rparr>)" for R :: "'x job_registry_scheme"
    by (intro impI conjI evolves_same limit_fewer) (simp_all add: job_at_def)
  show "thrifty N \<longrightarrow> evolves R (set_job a stopping (snd (call_cancel N a r R))) \<and> keeps_limit R (set_job a stopping (snd (call_cancel N a r R)))"
    if "thrifty N \<longrightarrow> evolves R0 R \<and> keeps_limit R0 R" and "a < length (jr_objects R0)" and "\<not> is_terminal (tj_status (job_at a R))"
    for R0 R :: "'x job_registry_scheme" and a r
  proof
    assume N: "thrifty N"
    with that(1,2) have "a < length (jr_objects R)" by (simp add: evolves_def)
    from limit_cancel [OF N this that(3)] show "evolves R (set_job a stopping (snd (call_cancel N a r R)))
      \<and> keeps_limit R (set_job a stopping (snd (call_cancel N a r R)))" .
  qed
qed (auto simp: evolves_settle limit_settle evolves_erase limit_erase evolves_admit limit_admit thrifty_def obeys_def)

section \<open>The life of a registry\<close>

inductive job_step :: "'x jobs_env \<Rightarrow> 'x job_registry_scheme \<Rightarrow> 'x job_registry_scheme \<Rightarrow> bool" for N where
  "job_step N R (snd (start_job N spec R))"
| "job_step N R (settle_job N a oc R)"
| "job_step N R (snd (read_job N i owner R))"
| "job_step N R (snd (kill_job N i owner reason R))"
| "job_step N R (snd (begin_wait i timeout owner R))"
| "job_step N R (stop_wait t R)"
| "job_step N R (snd (end_wait a t R))"
| "job_step N R (dispose_owner N s R)"
| "job_step N R (shutdown_jobs N R)"
| "job_step N R (snd (on_job_done l R))"
| "job_step N R (snd (on_jobs_changed l R))"
| "job_step N R (snd (attach_controller R))"
| "job_step N R (run_job_cleanup c R)"

inductive job_reach :: "'x jobs_env \<Rightarrow> 'x job_registry_scheme \<Rightarrow> 'x job_registry_scheme \<Rightarrow> bool" for N R0 where
  start: "job_reach N R0 R0"
| step: "job_reach N R0 R \<Longrightarrow> job_step N R R' \<Longrightarrow> job_reach N R0 R'"

context job_relation begin

lemma any_step: "job_step N R R' \<Longrightarrow> jobs_ok R \<Longrightarrow> Q R R'"
  by (cases rule: job_step.cases)
    (auto intro: starts settles reads kills waits_begin waits_stop waits_end disposes shuts_down listens cleans)

end

lemma jobs_ok_new: "jobs_ok (new_registry n)"
  by (simp add: jobs_ok_def new_registry_def next_count_def of_kind_def)

lemma reach_ok:
  assumes "job_reach N (new_registry n) R" and "obeys evolves N" shows "jobs_ok R"
  using assms(1)
proof (induction rule: job_reach.induct)
  case (step R R')
  then show ?case using ids.any_step [OF step.hyps(2)] assms(2) by (simp add: evolves_def)
qed (rule jobs_ok_new)

lemma reach_within:
  assumes "job_reach N (new_registry n) R" and "thrifty N" shows "within R \<and> jr_max R = n"
  using assms(1)
proof (induction rule: job_reach.induct)
  case start
  then show ?case by (simp add: within_def active_count_def new_registry_def)
next
  case (step R R')
  have "jobs_ok R" using step.hyps(1) assms(2) by (auto simp: thrifty_def intro: reach_ok)
  then show ?case using limit.any_step [OF step.hyps(2)] assms(2) step.IH by (simp add: keeps_limit_def)
qed

section \<open>Distinct ids\<close>

lemma digits_then_dash:
  assumes "\<forall>c \<in> set u. is_digit c" and "\<forall>c \<in> set v. is_digit c" and "xs @ CHR ''-'' # u = ys @ CHR ''-'' # v"
  shows "xs = ys \<and> u = v"
proof -
  have nd: "\<not> is_digit (CHR ''-'')" by (simp add: is_digit_def)
  have split: "takeWhile is_digit (rev (zs @ CHR ''-'' # w)) = rev w" "dropWhile is_digit (rev (zs @ CHR ''-'' # w)) = CHR ''-'' # rev zs"
    if "\<forall>c \<in> set w. is_digit c" for zs w
    using that nd by (simp_all add: takeWhile_append dropWhile_append)
  from split [OF assms(1), of xs] split [OF assms(2), of ys] assms(3) show ?thesis by simp
qed

lemma issued_id_inject:
  assumes "issued_id k m = issued_id k' n" and "m < 2 ^ 64" and "n < 2 ^ 64"
  shows "k = k' \<and> m = n"
proof -
  have "k = k' \<and> show_nat (unat (of_nat m :: 64 word)) = show_nat (unat (of_nat n :: 64 word))"
    using digits_then_dash [OF show_nat_digits show_nat_digits] assms(1) by (simp add: issued_id_def)
  then have "k = k'" and "unat (of_nat m :: 64 word) = unat (of_nat n :: 64 word)"
    by (auto dest: show_nat_inject)
  moreover have "unat (of_nat x :: 64 word) = x" if "x < 2 ^ 64" for x
    using that by (simp add: unat_of_nat take_bit_nat_eq_self)
  ultimately show ?thesis using assms(2,3) by simp
qed

lemma of_kind_le: "of_kind k js \<le> length js"
  by (simp add: of_kind_def)

lemma of_kind_mono:
  assumes "a < b" and "b \<le> length js" and "tj_kind (js ! a) = k"
  shows "Suc (of_kind k (take a js)) \<le> of_kind k (take b js)"
proof -
  have "Suc (of_kind k (take a js)) = of_kind k (take (Suc a) js)"
    using assms by (simp add: of_kind_def take_Suc_conv_app_nth)
  also have "\<dots> \<le> of_kind k (take b js)"
  proof -
    have "take b js = take (Suc a) js @ take (b - Suc a) (drop (Suc a) js)"
      using assms(1) by (metis Suc_leI le_add_diff_inverse take_add)
    then show ?thesis by (simp add: of_kind_def)
  qed
  finally show ?thesis .
qed

lemma ids_distinct:
  assumes "jobs_ok R" and "length (jr_objects R) < 2 ^ 64"
  shows "distinct (map tj_id (jr_objects R))"
  unfolding distinct_conv_nth
proof (intro allI impI)
  have "tj_id (jr_objects R ! a) \<noteq> tj_id (jr_objects R ! b)" if "a < b" "b < length (jr_objects R)" for a b
  proof
    let ?js = "jr_objects R" and ?n = "\<lambda>a. Suc (of_kind (tj_kind (jr_objects R ! a)) (take a (jr_objects R)))"
    assume eq: "tj_id (?js ! a) = tj_id (?js ! b)"
    have id: "tj_id (?js ! a) = issued_id (tj_kind (?js ! a)) (?n a)" "tj_id (?js ! b) = issued_id (tj_kind (?js ! b)) (?n b)"
      using assms(1) that by (simp_all add: jobs_ok_def job_at_def)
    have "?n c < 2 ^ 64" if "c < length ?js" for c
      using that assms(2) of_kind_le [of "tj_kind (?js ! c)" "take c ?js"] by (simp add: min_def)
    then have "?n a < 2 ^ 64" and "?n b < 2 ^ 64" using that by simp_all
    then have "tj_kind (?js ! a) = tj_kind (?js ! b) \<and> ?n a = ?n b"
      by (rule issued_id_inject [OF trans [OF id(1) [symmetric] trans [OF eq id(2)]]])
    with of_kind_mono [OF that(1), of ?js] that show False by auto
  qed
  then have apart: "tj_id (jr_objects R ! a) \<noteq> tj_id (jr_objects R ! b)"
    if "a < length (jr_objects R)" "b < length (jr_objects R)" "a \<noteq> b" for a b
    using that by (cases a b rule: linorder_cases) (auto dest: not_sym)
  fix a b
  assume "a < length (map tj_id (jr_objects R))" and "b < length (map tj_id (jr_objects R))" and "a \<noteq> b"
  then show "map tj_id (jr_objects R) ! a \<noteq> map tj_id (jr_objects R) ! b" using apart by simp
qed

lemma get_listed:
  assumes "jobs_ok R"
  shows "get_job i owner R = Inr v \<longleftrightarrow> v \<in> set (list_jobs owner R) \<and> js_id v = i"
proof -
  have id: "tj_id (job_at a R) = j" if "(j, a) \<in> set (jr_store R)" for j a
    using assms that by (auto simp: jobs_ok_def map_of_mem)
  have m: "map_of (jr_store R) i = Some a \<longleftrightarrow> (i, a) \<in> set (jr_store R)" for a
    using assms by (simp add: jobs_ok_def map_of_mem)
  have "get_job i owner R = Inr v \<longleftrightarrow> (\<exists>a. map_of (jr_store R) i = Some a \<and> \<not> foreign (job_at a R) owner \<and> v = job_view (job_at a R))"
    by (auto simp: get_job_def access_job_def expect_job_def split: option.splits if_splits)
  also have "\<dots> \<longleftrightarrow> (\<exists>a. (i, a) \<in> set (jr_store R) \<and> \<not> foreign (job_at a R) owner \<and> v = job_view (job_at a R))"
    by (simp only: m)
  also have "\<dots> \<longleftrightarrow> v \<in> set (list_jobs owner R) \<and> js_id v = i"
  proof
    assume "\<exists>a. (i, a) \<in> set (jr_store R) \<and> \<not> foreign (job_at a R) owner \<and> v = job_view (job_at a R)"
    then obtain a where a: "(i, a) \<in> set (jr_store R)" "\<not> foreign (job_at a R) owner" "v = job_view (job_at a R)" by blast
    then have "js_id v = i" using id by (simp add: job_view_def)
    moreover have "v \<in> set (list_jobs owner R)"
      unfolding list_jobs_def set_map set_filter using a by (intro rev_image_eqI [of "(i, a)"]) (auto simp: foreign_def)
    ultimately show "v \<in> set (list_jobs owner R) \<and> js_id v = i" by simp
  next
    assume v: "v \<in> set (list_jobs owner R) \<and> js_id v = i"
    then obtain j a where a: "(j, a) \<in> set (jr_store R)" "\<not> foreign (job_at a R) owner" "v = job_view (job_at a R)"
      by (auto simp: list_jobs_def foreign_def)
    then have "j = i" using v id by (simp add: job_view_def)
    with a show "\<exists>a. (i, a) \<in> set (jr_store R) \<and> \<not> foreign (job_at a R) owner \<and> v = job_view (job_at a R)" by blast
  qed
  finally show ?thesis .
qed

section \<open>Settling without listeners\<close>

lemma fold_nothing_changes: "(\<And>x R. g x R = R) \<Longrightarrow> fold g xs R = R"
  by (induction xs) simp_all

lemma notify_quiet: "(\<And>l owner R. jn_change N l owner R = R) \<Longrightarrow> notify_changed N owner R = R"
  by (simp add: notify_changed_def case_prod_unfold fold_nothing_changes)

lemma release_waiters_at:
  "a < length (jr_objects R) \<Longrightarrow> job_at a (release_waiters a R) = (job_at a R)\<lparr>tj_waiters := []\<rparr>"
  "length (jr_objects (release_waiters a R)) = length (jr_objects R)"
proof -
  have o: "jr_objects (fold (\<lambda>t R. if \<not> jr_tokens R ! t then R
      else R\<lparr>jr_tokens := (jr_tokens R)[t := False], jr_resumed := jr_resumed R @ [t]\<rparr>) ts R) = jr_objects R"
    for ts and R :: "'a job_registry_scheme" by (induction ts arbitrary: R) simp_all
  show "length (jr_objects (release_waiters a R)) = length (jr_objects R)" by (simp add: release_waiters_def o)
  show "job_at a (release_waiters a R) = (job_at a R)\<lparr>tj_waiters := []\<rparr>" if "a < length (jr_objects R)"
    using that job_at_set_job [of a a "\<lambda>j. j\<lparr>tj_waiters := []\<rparr>" R] by (simp add: release_waiters_def job_at_def o)
qed

lemma quiet_settle:
  assumes "\<And>l owner R. jn_change N l owner R = R" and "\<And>l view owner R. jn_done N l view owner R = R"
    and "a < length (jr_objects R)" and "\<not> is_terminal (tj_status (job_at a R))"
  shows "tj_status (job_at a (settle_job N a oc R)) = (if is_terminal (oc_status oc) then oc_status oc else JobFailed)"
    and "tj_output (job_at a (settle_job N a oc R)) = oc_output oc"
    and "tj_finished (job_at a (settle_job N a oc R)) = Some (jn_now N R)"
    and "length (jr_objects (settle_job N a oc R)) = length (jr_objects R)"
proof -
  have "announce_done N a R = R" for R by (simp add: announce_done_def case_prod_unfold assms(2) fold_nothing_changes)
  then have "settle_job N a oc R = release_waiters a (settle_record N a oc R)"
    using assms(4) by (simp add: settle_job_def Let_def notify_quiet [where N = N, OF assms(1)] del: is_terminal.simps)
  then show "tj_status (job_at a (settle_job N a oc R)) = (if is_terminal (oc_status oc) then oc_status oc else JobFailed)"
    "tj_output (job_at a (settle_job N a oc R)) = oc_output oc"
    "tj_finished (job_at a (settle_job N a oc R)) = Some (jn_now N R)"
    "length (jr_objects (settle_job N a oc R)) = length (jr_objects R)"
    using assms(3) by (simp_all add: release_waiters_at settle_record_def job_at_set_job del: is_terminal.simps)
qed

end
