(* ===== verification/ServiceProperties.thy ===== *)
theory ServiceProperties
  imports Tools JobLaws
begin

text \<open>
  Properties of the tool registry and of the job registry: what a registration changes and its cleanup undoes,
  what a scope sees, denials; ids, the limit, access, and what a kill does to a job that settles while it runs.
\<close>

section \<open>Tools\<close>

text \<open>
  C18. A registration changes what exactly one name resolves to, and only in the scopes it reaches: a scoped
  tool in its own scope, a global one wherever no scoped tool shadows it and no restriction hides it. Its
  cleanup puts every lookup of every scope back.
\<close>
theorem tool_registration_local:
  assumes "register_tool d h scope T = Inr (c, T')" and "tools_ok T"
  shows "visible_entry n s T' =
    (if n = td_name d \<and> (scope = s \<or> scope = None \<and> (s = None \<or> entry_for s n T = None)) \<and> (scope = None \<longrightarrow> admits n s T)
     then Some \<lparr>te_id = ts_next_id T, te_scope = scope, te_definition = d, te_handler = h\<rparr>
     else visible_entry n s T) \<and>
    visible_entry n s (run_tool_cleanup c T') = visible_entry n s T \<and> tools_ok T'"
  using registered_visible [OF assms] visible_cong [OF drop_registered [OF assms]] register_ok [OF assms] by simp

definition grep_tool :: tool_definition where
  "grep_tool = \<lparr>td_name = ''grep'', td_description = ''Search'', td_parameters = JNull\<rparr>"

definition grep_entry :: "nat \<Rightarrow> string option \<Rightarrow> tool_entry" where
  "grep_entry i scope = \<lparr>te_id = i, te_scope = scope, te_definition = grep_tool, te_handler = 7\<rparr>"

definition one_tool :: tools_service where
  "one_tool = no_tools\<lparr>ts_next_id := 2, ts_tools := [grep_entry 1 None]\<rparr>"

lemma one_tool_ok: "tools_ok one_tool"
  by (simp add: one_tool_def tools_ok_def no_tools_def grep_entry_def grep_tool_def)

lemma tool_registration_local_witness:
  "register_tool grep_tool 8 (Some ''s'') one_tool = Inr (DropTool 2, one_tool\<lparr>ts_next_id := 3,
     ts_tools := [grep_entry 1 None, (grep_entry 2 (Some ''s''))\<lparr>te_handler := 8\<rparr>]\<rparr>) \<and>
   visible_entry ''grep'' (Some ''s'') (one_tool\<lparr>ts_next_id := 3,
     ts_tools := [grep_entry 1 None, (grep_entry 2 (Some ''s''))\<lparr>te_handler := 8\<rparr>]\<rparr>) =
     Some ((grep_entry 2 (Some ''s''))\<lparr>te_handler := 8\<rparr>)"
proof -
  have r: "register_tool grep_tool 8 (Some ''s'') one_tool = Inr (DropTool 2, one_tool\<lparr>ts_next_id := 3,
     ts_tools := [grep_entry 1 None, (grep_entry 2 (Some ''s''))\<lparr>te_handler := 8\<rparr>]\<rparr>)"
    by (simp add: register_tool_def one_tool_def no_tools_def grep_entry_def grep_tool_def Let_def)
  show ?thesis
    using tool_registration_local [OF r one_tool_ok, of "''grep''" "Some ''s''"] r
    by (simp add: grep_entry_def grep_tool_def one_tool_def no_tools_def)
qed

text \<open>
  What a name resolves to for a scope: the scope's own registration if it has one, which no restriction
  touches; otherwise the global one unless a restriction of the scope leaves it out. The listing is strictly
  sorted by name and holds exactly what resolves.
\<close>
theorem tool_visibility:
  assumes "tools_ok T"
  shows "visible_entry n scope T =
      (case (if scope = None then None else entry_for scope n T) of
         Some e \<Rightarrow> Some e
       | None \<Rightarrow> if admits n scope T then entry_for None n T else None) \<and>
    sorted_wrt (<) (map td_name (list_tools scope T)) \<and>
    (d \<in> set (list_tools scope T) \<longleftrightarrow> find_tool (td_name d) scope T = Some d)"
  using visible_entry_for [OF assms] list_tools_sorted listed_found by blast

definition hidden_tool :: tools_service where
  "hidden_tool = one_tool\<lparr>ts_restrictions := [\<lparr>re_id = 1, re_scope = Some ''s'',
     re_filter = \<lparr>rs_allow = None, rs_deny = Some [''grep'']\<rparr>\<rparr>]\<rparr>"

lemma tool_visibility_witness:
  "visible_entry ''grep'' (Some ''s'') hidden_tool = None \<and> visible_entry ''grep'' (Some ''t'') hidden_tool = Some (grep_entry 1 None)"
proof -
  have ok: "tools_ok hidden_tool" using one_tool_ok by (simp add: hidden_tool_def tools_ok_def)
  show ?thesis
    using tool_visibility [OF ok, of "''grep''" "Some ''s''" grep_tool] tool_visibility [OF ok, of "''grep''" "Some ''t''" grep_tool]
    by (simp add: hidden_tool_def one_tool_def no_tools_def grep_entry_def grep_tool_def entry_for_def admits_def admitted_by_def)
qed

text \<open>
  C19. When a guard that reaches the scope denies a call, the handler never runs: whatever the handlers are, the
  call's result is an error with the reason of a guard that denied it, and the result listeners get that.
\<close>
theorem guard_denial_final:
  assumes "visible_entry n scope (fst w) = Some e" and "looks N c denial (ts_guards (fst w))"
    and "g \<in> set (ts_guards (fst w))" and "applies (ge_scope g) scope" and "denial g \<noteq> None"
  shows "\<exists>g' t. g' \<in> set (ts_guards (fst w)) \<and> denial g' = Some t \<and>
    (\<forall>h. invoke_visible (N\<lparr>tn_handler := h\<rparr>) n c scope w = settled_call N c scope (text_error t) w)"
  by (rule denied_call [OF assms]) blast

definition locked_tool :: tools_service where
  "locked_tool = one_tool\<lparr>ts_guards := [\<lparr>ge_id = 1, ge_scope = None, ge_check = 4\<rparr>]\<rparr>"

definition locking :: "nat tools_env" where
  "locking = \<lparr>tn_handler = (\<lambda>_ _ (T, n). Some (Inl (StdError ''handler''), T, n + 1)), tn_guard = (\<lambda>_ _ w. Some (Inr (Some ''locked''), w)),
     tn_listener = (\<lambda>_ _ _ w. Some (Inr (), w))\<rparr>"

definition grep_call :: tool_context where
  "grep_call = \<lparr>tx_call_id = ''k1'', tx_name = ''grep'', tx_session = ''s'', tx_arguments = JNull, tx_stop = None\<rparr>"

lemma guard_denial_final_witness:
  "\<exists>t. invoke_visible locking ''grep'' grep_call None (locked_tool, 0) = settled_call locking grep_call None (text_error t) (locked_tool, 0)"
proof -
  have v: "visible_entry ''grep'' None (fst (locked_tool, 0::nat)) = Some (grep_entry 1 None)"
    by (simp add: locked_tool_def visible_entry_for [OF one_tool_ok] visible_cong)
      (simp add: one_tool_def no_tools_def grep_entry_def grep_tool_def entry_for_def admits_def)
  have l: "looks locking grep_call (\<lambda>_. Some ''locked'') (ts_guards (fst (locked_tool, 0::nat)))"
    by (simp add: looks_def locking_def)
  have g: "\<lparr>ge_id = 1, ge_scope = None, ge_check = 4\<rparr> \<in> set (ts_guards (fst (locked_tool, 0::nat)))" by (simp add: locked_tool_def)
  from guard_denial_final [OF v l g] obtain t where
    "\<forall>h. invoke_visible (locking\<lparr>tn_handler := h\<rparr>) ''grep'' grep_call None (locked_tool, 0) = settled_call locking grep_call None (text_error t) (locked_tool, 0)"
    by (auto simp: applies_def)
  from spec [OF this, of "tn_handler locking"] show ?thesis by auto
qed

section \<open>Jobs\<close>

text \<open>
  Over the whole life of a registry, whatever its callbacks do through its own operations: no two jobs ever
  started share an id (the count of a kind wraps only after 2^64 jobs), and every entry of the store names the
  job of that id.
\<close>
theorem job_ids_unique:
  assumes "job_reach N (new_registry n) R" and "obeys evolves N" and "length (jr_objects R) < 2 ^ 64"
  shows "distinct (map tj_id (jr_objects R)) \<and>
    (\<forall>i a. map_of (jr_store R) i = Some a \<longrightarrow> a < length (jr_objects R) \<and> tj_id (job_at a R) = i)"
  using ids_distinct [OF reach_ok [OF assms(1,2)] assms(3)] reach_ok [OF assms(1,2)] by (simp add: jobs_ok_def)

text \<open>Producers that hand back a control and closures that do nothing else.\<close>

definition plain_env :: "'x jobs_env" where
  "plain_env = \<lparr>jn_now = (\<lambda>_. 5), jn_run = (\<lambda>_ _ R. (Some \<lparr>jh_cancel = Some 0, jh_read = None\<rparr>, R)), jn_cancel = (\<lambda>_ _ R. (False, R)),
     jn_read = (\<lambda>_ R. (Some [], R)), jn_done = (\<lambda>_ _ _ R. R), jn_change = (\<lambda>_ _ R. R)\<rparr>"

definition shell_job :: job_start where
  "shell_job = \<lparr>st_kind = ''sh'', st_label = ''build'', st_owner = Some ''s'', st_output_limit = None, st_run = 0\<rparr>"

definition after_jobs :: "nat \<Rightarrow> job_registry" where
  "after_jobs n = ((\<lambda>R. snd (start_job plain_env shell_job R)) ^^ n) (snd (attach_controller (new_registry 1)))"

lemma after_jobs_reach: "job_reach plain_env (new_registry 1) (after_jobs n)"
proof (induction n)
  case 0
  show ?case unfolding after_jobs_def by (auto intro: job_reach.intros job_step.intros)
next
  case (Suc n)
  then show ?case unfolding after_jobs_def by (auto intro: job_reach.step job_step.intros)
qed

lemma plain_env_obeys: "obeys evolves plain_env" "thrifty plain_env"
  by (simp_all add: obeys_def plain_env_def thrifty_def patient_def evolves_refl keeps_limit_def)

lemma after_two: "jr_objects (after_jobs 2) = [(new_job shell_job ''sh-1'' 5)\<lparr>tj_cancel := Some 0\<rparr>]"
    "jr_store (after_jobs 2) = [(''sh-1'', 0)]"
  by code_simp+

lemma job_ids_unique_witness:
  "jr_store (after_jobs 2) = [(''sh-1'', 0)] \<and> distinct (map tj_id (jr_objects (after_jobs 2))) \<and>
   tj_id (job_at 0 (after_jobs 2)) = ''sh-1''"
  using job_ids_unique [OF after_jobs_reach plain_env_obeys(1), of 2] by (simp add: after_two)

text \<open>
  C20. The bound on live jobs: in every reachable registry no owner, nor the ownerless, has more running and
  stopping jobs than the limit, even though closures may start and settle jobs in between, provided a cancel
  does not settle a live job before it returns.
\<close>
theorem job_limit_held:
  assumes "job_reach N (new_registry n) R" and "thrifty N"
  shows "active_count owner R \<le> n"
  using reach_within [OF assms] by (auto simp: within_def)

lemma job_limit_held_witness: "active_count (Some ''s'') (after_jobs 2) \<le> 1 \<and> active_count (Some ''s'') (after_jobs 2) = 1"
  using job_limit_held [OF after_jobs_reach plain_env_obeys(2), of "Some ''s''" 2]
  by (simp add: active_count_def after_two job_at_def new_job_def shell_job_def)

text \<open>
  Listing and looking up agree in every reachable registry: \<open>get\<close> answers a caller with a snapshot exactly
  when that caller's listing holds it under that id, so a job of another session is neither listed nor read.
\<close>
theorem listed_iff_readable:
  assumes "job_reach N (new_registry n) R" and "obeys evolves N"
  shows "get_job i owner R = Inr v \<longleftrightarrow> v \<in> set (list_jobs owner R) \<and> js_id v = i"
  by (rule get_listed [OF reach_ok [OF assms]])

lemma listed_iff_readable_witness:
  "list_jobs (Some ''s'') (after_jobs 2) \<noteq> [] \<and>
   get_job ''sh-1'' (Some ''s'') (after_jobs 2) = Inr (hd (list_jobs (Some ''s'') (after_jobs 2))) \<and>
   get_job ''sh-1'' None (after_jobs 2) \<noteq> Inr (hd (list_jobs (Some ''s'') (after_jobs 2)))"
  using listed_iff_readable [OF after_jobs_reach plain_env_obeys(1), of "''sh-1''" "Some ''s''" 2]
    listed_iff_readable [OF after_jobs_reach plain_env_obeys(1), of "''sh-1''" None 2]
  by (simp add: list_jobs_def after_two job_at_def new_job_def shell_job_def job_view_def)

text \<open>
  C21. Where settling is first-wins, killing is not: a job whose cancel settles it before it returns ends the
  kill as \<open>stopping\<close>, with the outcome's output and a finishing time, counts against its owner's limit again, and
  a further settlement replaces its outcome.
\<close>
theorem kill_reopens_settled_job:
  assumes "access_job i owner R = Inr a" and "a < length (jr_objects R)" and "\<not> is_terminal (tj_status (job_at a R))"
    and "tj_cancel (job_at a R) = Some c" and "jn_cancel N c reason R = (False, settle_job N a oc R)"
    and "\<forall>l owner R. jn_change N l owner R = R" and "\<forall>l view owner R. jn_done N l view owner R = R"
  shows "tj_status (job_at a (settle_job N a oc R)) = (if is_terminal (oc_status oc) then oc_status oc else JobFailed) \<and>
    settle_job N a oc' (settle_job N a oc R) = settle_job N a oc R \<and>
    (case kill_job N i owner reason R of (r, R') \<Rightarrow> r = Inr KillRequested \<and>
       tj_status (job_at a R') = JobStopping \<and> tj_output (job_at a R') = oc_output oc \<and> tj_finished (job_at a R') \<noteq> None \<and>
       tj_output (job_at a (settle_job N a oc' R')) = oc_output oc')"
proof -
  note quiet = assms(6,7) [rule_format]
  let ?S = "settle_job N a oc R" and ?st = "if is_terminal (oc_status oc) then oc_status oc else JobFailed"
  note live = quiet_settle [where N = N, OF quiet assms(2,3)]
  have st: "tj_status (job_at a ?S) = ?st" "tj_output (job_at a ?S) = oc_output oc" "tj_finished (job_at a ?S) \<noteq> None"
    and len: "length (jr_objects ?S) = length (jr_objects R)" using live by simp_all
  have "is_terminal (tj_status (job_at a ?S))" by (simp only: st) simp
  then have again: "settle_job N a oc' ?S = ?S" by (simp add: settle_job_def)
  define R' where "R' = set_job a (\<lambda>j. j\<lparr>tj_status := JobStopping, tj_reported := True\<rparr>) ?S"
  have k: "kill_job N i owner reason R = (Inr KillRequested, R')"
    using assms(1,3-5) by (simp add: kill_job_def call_cancel_def notify_quiet [where N = N, OF quiet(1)] R'_def del: is_terminal.simps)
  have at: "job_at a R' = (job_at a ?S)\<lparr>tj_status := JobStopping, tj_reported := True\<rparr>" and len': "a < length (jr_objects R')"
    using assms(2) by (simp_all add: R'_def job_at_set_job len)
  have "tj_output (job_at a (settle_job N a oc' R')) = oc_output oc'"
    using quiet_settle [where N = N, OF quiet len'] by (simp add: at)
  with st again k at show ?thesis by simp
qed

definition settling_env :: "unit jobs_env" where
  "settling_env = plain_env\<lparr>jn_cancel := (\<lambda>_ _ R. (False, settle_job plain_env 0 \<lparr>oc_status = JobKilled, oc_detail = ''stopped'', oc_output = ''log''\<rparr> R))\<rparr>"

lemma settling_settles: "settle_job settling_env a oc R = settle_job plain_env a oc R"
proof -
  have "jn_now settling_env = jn_now plain_env" "jn_done settling_env = jn_done plain_env" "jn_change settling_env = jn_change plain_env"
    by (simp_all add: settling_env_def)
  then show ?thesis by (simp add: settle_job_def settle_record_def announce_done_def notify_changed_def Let_def)
qed

lemma kill_reopens_settled_job_witness:
  "tj_status (job_at 0 (snd (kill_job settling_env ''sh-1'' (Some ''s'') ''enough'' (after_jobs 2)))) = JobStopping"
proof -
  let ?oc = "\<lparr>oc_status = JobKilled, oc_detail = ''stopped'', oc_output = ''log''\<rparr>" and ?R = "after_jobs 2"
  have a: "access_job ''sh-1'' (Some ''s'') ?R = Inr 0" "0 < length (jr_objects ?R)" "\<not> is_terminal (tj_status (job_at 0 ?R))"
    "tj_cancel (job_at 0 ?R) = Some 0"
    by (simp_all add: access_job_def expect_job_def after_two foreign_def job_at_def new_job_def shell_job_def)
  have c: "jn_cancel settling_env 0 ''enough'' ?R = (False, settle_job settling_env 0 ?oc ?R)"
    by (simp add: settling_settles) (simp add: settling_env_def)
  have q: "\<forall>l owner R. jn_change settling_env l owner R = R" "\<forall>l view owner R. jn_done settling_env l view owner R = R"
    by (simp_all add: settling_env_def plain_env_def)
  from kill_reopens_settled_job [OF a c q, of ?oc] show ?thesis by (simp add: case_prod_beta)
qed

end
