(* ===== verification/Sse.thy ===== *)
theory Sse
  imports Strings
begin

text \<open>
  The framing of server-sent events (\<open>plugins/llm/include/araya/llm/sse.hpp\<close>): an incremental parser fed with
  whatever pieces the network delivers. The callback \<open>on_event\<close> is a function on a state \<open>'w\<close> that may throw;
  \<open>on_activity\<close> is never set in the program and left out. Second part: pieces do not matter, except for a
  byte order mark that is cut, and what the events of a stream are, stated without a parser.
\<close>

section \<open>The parser\<close>

record sse_parser =
  sp_buffer :: string
  sp_event :: string
  sp_data :: string
  sp_has_data :: bool
  sp_first :: bool

definition new_parser :: sse_parser where
  "new_parser = \<lparr>sp_buffer = [], sp_event = [], sp_data = [], sp_has_data = False, sp_first = True\<rparr>"

definition bom :: string where "bom = [CHR 0xEF, CHR 0xBB, CHR 0xBF]"

fun break_line :: "string \<Rightarrow> (string \<times> string) option" where
  "break_line [] = None"
| "break_line (c # cs) = (if c = newline then Some ([], cs) else map_option (\<lambda>(l, r). (c # l, r)) (break_line cs))"

definition strip_cr :: "string \<Rightarrow> string" where
  "strip_cr line = (if line \<noteq> [] \<and> last line = CHR 0x0D then butlast line else line)"

text \<open>The field before the first colon, and the value after it without one leading blank.\<close>

definition field_of :: "string \<Rightarrow> string" where
  "field_of line = takeWhile (\<lambda>c. c \<noteq> CHR '':'') line"

definition value_of :: "string \<Rightarrow> string" where
  "value_of line =
     (case dropWhile (\<lambda>c. c \<noteq> CHR '':'') line of
        [] \<Rightarrow> []
      | _ # v \<Rightarrow> if v \<noteq> [] \<and> hd v = CHR '' '' then tl v else v)"

definition sse_line :: "string \<Rightarrow> sse_parser \<Rightarrow> sse_parser" where
  "sse_line line p =
     (if hd line = CHR '':'' then p
      else if field_of line = ''data''
      then p\<lparr>sp_data := sp_data p @ (if sp_has_data p then [newline] else []) @ value_of line, sp_has_data := True\<rparr>
      else if field_of line = ''event'' then p\<lparr>sp_event := value_of line\<rparr>
      else p)"

type_synonym ('e, 'w) event_sink = "string \<Rightarrow> string \<Rightarrow> 'w \<Rightarrow> 'e option \<times> 'w"

text \<open>A callback that throws leaves the accumulated event in place.\<close>

definition sse_dispatch :: "('e, 'w) event_sink \<Rightarrow> sse_parser \<Rightarrow> 'w \<Rightarrow> 'e option \<times> sse_parser \<times> 'w" where
  "sse_dispatch K p w =
     (let (e, w') = (if sp_has_data p then K (sp_event p) (sp_data p) w else (None, w))
      in (e, if e = None then p\<lparr>sp_event := [], sp_data := [], sp_has_data := False\<rparr> else p, w'))"

lemma break_line_shorter: "break_line s = Some (l, r) \<Longrightarrow> length r < length s"
  by (induction s arbitrary: l) (auto split: if_splits)

lemma dispatch_buffer: "sse_dispatch K p w = (e, p', w') \<Longrightarrow> sp_buffer p' = sp_buffer p"
  by (auto simp: sse_dispatch_def Let_def split: prod.splits if_splits)

lemma sse_line_buffer [simp]: "sp_buffer (sse_line l p) = sp_buffer p"
  by (simp add: sse_line_def)

function sse_loop :: "('e, 'w) event_sink \<Rightarrow> sse_parser \<Rightarrow> 'w \<Rightarrow> 'e option \<times> sse_parser \<times> 'w" where
  "sse_loop K p w =
     (case break_line (sp_buffer p) of
        None \<Rightarrow> (None, p, w)
      | Some (line, rest) \<Rightarrow>
          let line = strip_cr line
          in if line \<noteq> [] then sse_loop K ((sse_line line p)\<lparr>sp_buffer := rest\<rparr>) w
             else (case sse_dispatch K (p\<lparr>sp_buffer := rest\<rparr>) w of
                     (Some e, p', w') \<Rightarrow> (Some e, p', w')
                   | (None, p', w') \<Rightarrow> sse_loop K p' w'))"
  by pat_completeness auto
termination
  by (relation "measure (\<lambda>(K, p, w). length (sp_buffer p))")
    (auto dest!: break_line_shorter dispatch_buffer [OF sym] simp: dispatch_buffer)

declare sse_loop.simps [simp del]

definition skip_bom :: "sse_parser \<Rightarrow> sse_parser" where
  "skip_bom p =
     (if sp_first p \<and> length (sp_buffer p) \<ge> 3 \<and> take 3 (sp_buffer p) = bom then p\<lparr>sp_buffer := drop 3 (sp_buffer p)\<rparr> else p)"

definition sse_feed :: "('e, 'w) event_sink \<Rightarrow> string \<Rightarrow> sse_parser \<Rightarrow> 'w \<Rightarrow> 'e option \<times> sse_parser \<times> 'w" where
  "sse_feed K bytes p w = sse_loop K ((skip_bom (p\<lparr>sp_buffer := sp_buffer p @ bytes\<rparr>))\<lparr>sp_first := False\<rparr>) w"

text \<open>Feeding piece after piece, up to the first exception.\<close>

fun sse_feeds :: "('e, 'w) event_sink \<Rightarrow> string list \<Rightarrow> sse_parser \<Rightarrow> 'w \<Rightarrow> 'e option \<times> sse_parser \<times> 'w" where
  "sse_feeds K [] p w = (None, p, w)"
| "sse_feeds K (b # bs) p w =
     (case sse_feed K b p w of (Some e, p', w') \<Rightarrow> (Some e, p', w') | (None, p', w') \<Rightarrow> sse_feeds K bs p' w')"

section \<open>Pieces\<close>

lemma break_line_append:
  "break_line (s @ t) = (case break_line s of Some (l, r) \<Rightarrow> Some (l, r @ t) | None \<Rightarrow> map_option (\<lambda>(l, r). (s @ l, r)) (break_line t))"
  by (induction s) (auto split: option.splits simp: option.map_comp comp_def case_prod_unfold option.map_ident)

lemma sse_line_buffer_update: "sse_line l (p\<lparr>sp_buffer := b\<rparr>) = (sse_line l p)\<lparr>sp_buffer := b\<rparr>"
  by (simp add: sse_line_def)

lemma dispatch_buffer_update:
  "sse_dispatch K (p\<lparr>sp_buffer := b\<rparr>) w = (let (e, p', w') = sse_dispatch K p w in (e, p'\<lparr>sp_buffer := b\<rparr>, w'))"
  by (simp add: sse_dispatch_def Let_def split: prod.split)

lemma sse_loop_append:
  "sse_loop K (p\<lparr>sp_buffer := sp_buffer p @ b\<rparr>) w =
     (case sse_loop K p w of
        (Some e, p', w') \<Rightarrow> (Some e, p'\<lparr>sp_buffer := sp_buffer p' @ b\<rparr>, w')
      | (None, p', w') \<Rightarrow> sse_loop K (p'\<lparr>sp_buffer := sp_buffer p' @ b\<rparr>) w')"
proof (induction K p w rule: sse_loop.induct)
  case (1 K p w)
  show ?case
  proof (cases "break_line (sp_buffer p)")
    case None
    then show ?thesis by (simp add: sse_loop.simps [of K p])
  next
    case (Some lr)
    obtain l r where lr: "lr = (l, r)" by (rule prod.exhaust)
    have both: "break_line (sp_buffer p @ b) = Some (l, r @ b)" using Some by (simp add: break_line_append lr)
    show ?thesis
    proof (cases "strip_cr l = []")
      case False
      then show ?thesis
        using "1.IH"(1) [OF Some lr [symmetric] refl False]
        by (simp add: sse_loop.simps [of K p] sse_loop.simps [of K "p\<lparr>sp_buffer := sp_buffer p @ b\<rparr>"] both Some lr Let_def
            sse_line_buffer_update)
    next
      case True
      obtain e p' w' where d: "sse_dispatch K (p\<lparr>sp_buffer := r\<rparr>) w = (e, p', w')" by (metis prod_cases3)
      have b': "sp_buffer p' = r" using dispatch_buffer [OF d] by simp
      have d': "sse_dispatch K (p\<lparr>sp_buffer := r @ b\<rparr>) w = (e, p'\<lparr>sp_buffer := r @ b\<rparr>, w')"
        using d dispatch_buffer_update [where K = K and p = "p\<lparr>sp_buffer := r\<rparr>" and b = "r @ b" and w = w] by simp
      show ?thesis
        using "1.IH"(2) [OF Some lr [symmetric] refl _ d [symmetric] _ refl] True b'
        by (cases e) (simp_all add: sse_loop.simps [of K p] sse_loop.simps [of K "p\<lparr>sp_buffer := sp_buffer p @ b\<rparr>"] both Some lr
            Let_def d d')
    qed
  qed
qed

text \<open>A parser that has been fed without an exception: no line is left in its buffer.\<close>

definition drained :: "sse_parser \<Rightarrow> bool" where
  "drained p \<longleftrightarrow> \<not> sp_first p \<and> break_line (sp_buffer p) = None"

lemma sse_loop_drains: "sse_loop K p w = (None, p', w') \<Longrightarrow> \<not> sp_first p \<Longrightarrow> drained p'"
proof (induction K p w rule: sse_loop.induct)
  case (1 K p w)
  have d: "sp_first q' = sp_first q" if "sse_dispatch K q w = (x, q', v)" for q q' x v
    using that by (auto simp: sse_dispatch_def Let_def split: prod.splits if_splits)
  have l: "sp_first (sse_line x q) = sp_first q" for x q by (simp add: sse_line_def)
  show ?case
  proof (cases "break_line (sp_buffer p)")
    case None
    with "1.prems" show ?thesis by (simp add: sse_loop.simps [of K p] drained_def)
  next
    case (Some lr)
    obtain a r where lr: "lr = (a, r)" by (rule prod.exhaust)
    show ?thesis
    proof (cases "strip_cr a = []")
      case False
      with "1.prems" Some show ?thesis
        by (intro "1.IH"(1) [OF Some lr [symmetric] refl False]) (simp_all add: sse_loop.simps [of K p] lr Let_def l)
    next
      case True
      obtain e q v where dd: "sse_dispatch K (p\<lparr>sp_buffer := r\<rparr>) w = (e, q, v)" by (metis prod_cases3)
      with "1.prems"(1) Some True have e: "e = None" and n: "sse_loop K q v = (None, p', w')"
        by (auto simp: sse_loop.simps [of K p] lr Let_def split: option.splits)
      from d [OF dd] "1.prems"(2) have "\<not> sp_first q" by simp
      with "1.IH"(2) [OF Some lr [symmetric] refl _ dd [symmetric] e refl] True n show ?thesis by simp
    qed
  qed
qed

lemma sse_feed_drains: "sse_feed K b p w = (None, p', w') \<Longrightarrow> drained p'"
  unfolding sse_feed_def by (erule sse_loop_drains) simp

lemma sse_feed_drained: "drained p \<Longrightarrow> sse_feed K b p w = sse_loop K (p\<lparr>sp_buffer := sp_buffer p @ b\<rparr>) w"
  by (cases p) (auto simp: sse_feed_def skip_bom_def drained_def)

text \<open>What a piece gives: the exception and the state of the callback.\<close>

definition outcome :: "'e option \<times> sse_parser \<times> 'w \<Rightarrow> 'e option \<times> 'w" where
  "outcome r = (fst r, snd (snd r))"

lemma loop_append_outcome:
  "outcome (sse_loop K (p\<lparr>sp_buffer := sp_buffer p @ b\<rparr>) w) =
    (case sse_loop K p w of (Some e, p', w') \<Rightarrow> (Some e, w') | (None, p', w') \<Rightarrow> outcome (sse_loop K (p'\<lparr>sp_buffer := sp_buffer p' @ b\<rparr>) w'))"
  by (subst sse_loop_append) (auto simp: outcome_def split: option.split prod.split)

lemma feeds_concat: "drained p \<Longrightarrow> outcome (sse_feeds K bs p w) = outcome (sse_feed K (concat bs) p w)"
proof (induction bs arbitrary: p w)
  case Nil
  then show ?case by (simp add: sse_feed_drained sse_loop.simps [of K p]) (simp add: drained_def)
next
  case (Cons b bs)
  let ?p = "p\<lparr>sp_buffer := sp_buffer p @ b\<rparr>"
  have "outcome (sse_feed K (concat (b # bs)) p w) = outcome (sse_loop K (?p\<lparr>sp_buffer := sp_buffer ?p @ concat bs\<rparr>) w)"
    using Cons.prems by (simp add: sse_feed_drained)
  also have "\<dots> = (case sse_feed K b p w of (Some e, p', w') \<Rightarrow> (Some e, w') | (None, p', w') \<Rightarrow> outcome (sse_feed K (concat bs) p' w'))"
    by (subst loop_append_outcome, subst sse_feed_drained [OF Cons.prems, symmetric])
      (auto split: option.split prod.split dest: sse_feed_drains simp: sse_feed_drained)
  also have "\<dots> = outcome (sse_feeds K (b # bs) p w)"
    by (auto simp: outcome_def [of "(Some _, _)"] Cons.IH [OF sse_feed_drains] split: option.split prod.split)
  finally show ?case by simp
qed

text \<open>The first piece: a byte order mark is only seen if it comes whole.\<close>

definition cut_bom :: "string \<Rightarrow> string" where
  "cut_bom s = (if take 3 s = bom then drop 3 s else s)"

lemma take_bom_length: "take 3 s = bom \<Longrightarrow> length s \<ge> 3"
  by (drule arg_cong [of _ _ length]) (simp add: bom_def min_def split: if_splits)

lemma sse_feed_new: "sse_feed K s new_parser w = sse_loop K (new_parser\<lparr>sp_first := False, sp_buffer := cut_bom s\<rparr>) w"
  using take_bom_length [of s] by (auto simp: sse_feed_def skip_bom_def new_parser_def cut_bom_def)

lemma feeds_new:
  assumes "length b \<ge> 3 \<or> take 3 (concat (b # bs)) \<noteq> bom"
  shows "outcome (sse_feeds K (b # bs) new_parser w) = outcome (sse_feed K (concat (b # bs)) new_parser w)"
proof -
  let ?p = "new_parser\<lparr>sp_first := False, sp_buffer := cut_bom b\<rparr>"
  have "cut_bom (b @ concat bs) = cut_bom b @ concat bs"
  proof (cases "length b \<ge> 3")
    case True
    then show ?thesis by (simp add: cut_bom_def)
  next
    case False
    then have "take 3 b \<noteq> bom" using take_bom_length [of b] by blast
    with False assms show ?thesis by (simp add: cut_bom_def)
  qed
  then have "outcome (sse_feed K (concat (b # bs)) new_parser w) = outcome (sse_loop K (?p\<lparr>sp_buffer := sp_buffer ?p @ concat bs\<rparr>) w)"
    by (simp add: sse_feed_new)
  also have "\<dots> = (case sse_feed K b new_parser w of (Some e, p', w') \<Rightarrow> (Some e, w') | (None, p', w') \<Rightarrow> outcome (sse_feed K (concat bs) p' w'))"
    by (subst loop_append_outcome, subst sse_feed_new [symmetric])
      (auto split: option.split prod.split dest: sse_feed_drains simp: sse_feed_drained)
  also have "\<dots> = outcome (sse_feeds K (b # bs) new_parser w)"
    by (auto simp: outcome_def [of "(Some _, _)"] feeds_concat [OF sse_feed_drains] split: option.split prod.split)
  finally show ?thesis by simp
qed

section \<open>The events of a stream\<close>

text \<open>The lines that are ended, their groups that are ended by an empty line, and what a group says.\<close>

function ended_lines :: "string \<Rightarrow> string list" where
  "ended_lines s = (case break_line s of None \<Rightarrow> [] | Some (l, r) \<Rightarrow> strip_cr l # ended_lines r)"
  by pat_completeness auto
termination
  by (relation "measure length") (auto dest: break_line_shorter)

declare ended_lines.simps [simp del]

fun ended_groups :: "string list \<Rightarrow> string list \<Rightarrow> string list list" where
  "ended_groups g [] = []"
| "ended_groups g (l # ls) = (if l = [] then g # ended_groups [] ls else ended_groups (g @ [l]) ls)"

definition field_values :: "string \<Rightarrow> string list \<Rightarrow> string list" where
  "field_values f g = map value_of (filter (\<lambda>l. field_of l = f) g)"

fun joined :: "string list \<Rightarrow> string" where
  "joined [] = []"
| "joined [v] = v"
| "joined (v # vs) = v @ newline # joined vs"

definition group_event :: "string list \<Rightarrow> (string \<times> string) option" where
  "group_event g =
     (if field_values ''data'' g = [] then None
      else Some (if field_values ''event'' g = [] then [] else last (field_values ''event'' g), joined (field_values ''data'' g)))"

definition stream_events :: "string \<Rightarrow> (string \<times> string) list" where
  "stream_events s = List.map_filter group_event (ended_groups [] (ended_lines s))"

text \<open>The callback on one event after the other, up to the first exception.\<close>

fun deliver :: "('e, 'w) event_sink \<Rightarrow> (string \<times> string) list \<Rightarrow> 'w \<Rightarrow> 'e option \<times> 'w" where
  "deliver K [] w = (None, w)"
| "deliver K ((e, d) # es) w = (case K e d w of (Some x, w') \<Rightarrow> (Some x, w') | (None, w') \<Rightarrow> deliver K es w')"

lemma deliver_append:
  "deliver K (es @ fs) w = (case deliver K es w of (Some x, w') \<Rightarrow> (Some x, w') | (None, w') \<Rightarrow> deliver K fs w')"
  by (induction es arbitrary: w) (auto split: option.split prod.split)

definition collect :: "(unit, (string \<times> string) list) event_sink" where
  "collect e d w = (None, w @ [(e, d)])"

definition reads :: "sse_parser \<Rightarrow> string list \<Rightarrow> bool" where
  "reads p g \<longleftrightarrow> sp_event p = (if field_values ''event'' g = [] then [] else last (field_values ''event'' g)) \<and>
     sp_data p = joined (field_values ''data'' g) \<and> (sp_has_data p \<longleftrightarrow> field_values ''data'' g \<noteq> [])"

lemma joined_snoc: "joined (vs @ [v]) = (if vs = [] then v else joined vs @ newline # v)"
  by (induction vs rule: joined.induct) auto

lemma reads_line:
  assumes "reads p g" and "l \<noteq> []"
  shows "reads (sse_line l p) (g @ [l])"
proof -
  have "hd l = CHR '':'' \<Longrightarrow> field_of l = []" using assms(2) by (cases l) (simp_all add: field_of_def)
  with assms(1) show ?thesis by (auto simp: reads_def sse_line_def field_values_def joined_snoc)
qed

lemma reads_dispatch:
  assumes "reads p g"
  shows "\<exists>p'. sse_dispatch K p w = (let (x, w') = deliver K (case group_event g of None \<Rightarrow> [] | Some e \<Rightarrow> [e]) w in (x, p', w')) \<and>
    (fst (deliver K (case group_event g of None \<Rightarrow> [] | Some e \<Rightarrow> [e]) w) = None \<longrightarrow> reads p' [] \<and> sp_buffer p' = sp_buffer p)"
  using assms by (auto simp: reads_def sse_dispatch_def group_event_def field_values_def split: prod.split option.split)

lemma loop_events:
  "reads p g \<Longrightarrow> outcome (sse_loop K p w) = deliver K (List.map_filter group_event (ended_groups g (ended_lines (sp_buffer p)))) w"
proof (induction "sp_buffer p" arbitrary: p g w rule: ended_lines.induct)
  case 1
  show ?case
  proof (cases "break_line (sp_buffer p)")
    case None
    then show ?thesis
      by (simp add: sse_loop.simps [of K p] outcome_def ended_lines.simps [of "sp_buffer p"] List.map_filter_def)
  next
    case (Some lr)
    obtain l r where lr: "lr = (l, r)" by (rule prod.exhaust)
    have el: "ended_lines (sp_buffer p) = strip_cr l # ended_lines r" by (simp add: ended_lines.simps [of "sp_buffer p"] Some lr)
    have upd: "reads (q\<lparr>sp_buffer := r\<rparr>) h = reads q h" for q h by (simp add: reads_def)
    show ?thesis
    proof (cases "strip_cr l = []")
      case False
      have "reads ((sse_line (strip_cr l) p)\<lparr>sp_buffer := r\<rparr>) (g @ [strip_cr l])"
        using reads_line [OF 1(2) False] upd by blast
      from "1.hyps" [OF Some _ this] lr False show ?thesis
        by (simp add: sse_loop.simps [of K p] Some lr Let_def el)
    next
      case True
      let ?es = "case group_event g of None \<Rightarrow> [] | Some e \<Rightarrow> [e]"
      have e: "List.map_filter group_event (ended_groups g (ended_lines (sp_buffer p))) =
          ?es @ List.map_filter group_event (ended_groups [] (ended_lines r))"
        using True by (simp add: el List.map_filter_def split: option.split)
      have "reads (p\<lparr>sp_buffer := r\<rparr>) g" using 1(2) upd by blast
      from reads_dispatch [OF this, of K w] obtain p' where
        d: "sse_dispatch K (p\<lparr>sp_buffer := r\<rparr>) w = (let (x, w') = deliver K ?es w in (x, p', w'))"
          "fst (deliver K ?es w) = None \<longrightarrow> reads p' [] \<and> sp_buffer p' = r" by auto
      obtain x w' where x: "deliver K ?es w = (x, w')" by (rule prod.exhaust)
      from d(1) x have d': "sse_dispatch K (p\<lparr>sp_buffer := r\<rparr>) w = (x, p', w')" by simp
      show ?thesis
      proof (cases x)
        case None
        with d(2) x lr have p': "reads p' []" "(l, sp_buffer p') = lr" "sp_buffer p' = r" by simp_all
        from "1.hyps" [OF \<open>break_line (sp_buffer p) = Some lr\<close> p'(2,1), of w'] show ?thesis
          using None p'(3) by (simp add: sse_loop.simps [of K p] Some lr Let_def d' True e deliver_append x)
      next
        case (Some err)
        then show ?thesis
          by (simp add: sse_loop.simps [of K p] \<open>break_line (sp_buffer p) = Some lr\<close> lr Let_def d' True e deliver_append x outcome_def)
      qed
    qed
  qed
qed

lemma feed_delivers: "outcome (sse_feed K s new_parser w) = deliver K (stream_events (cut_bom s)) w"
  unfolding sse_feed_new using loop_events [of "new_parser\<lparr>sp_first := False, sp_buffer := cut_bom s\<rparr>" "[]" K w]
  by (simp add: stream_events_def reads_def new_parser_def field_values_def)

lemma deliver_collect: "deliver collect es w = (None, w @ es)"
  by (induction es arbitrary: w) (auto simp: collect_def)

lemma feed_events: "outcome (sse_feed collect s new_parser []) = (None, stream_events (cut_bom s))"
  by (simp add: feed_delivers deliver_collect)

end
