(* ===== verification/Wire.thy ===== *)
theory Wire
  imports AgentTurn Sse
begin

text \<open>
  What the two wire protocols of \<open>plugins/llm-compat\<close> share: the options of a call, the exceptions a translation
  can throw, JSON numbers as \<open>boost::json\<close> reads them, the HTTP layer's pure parts
  (\<open>plugins/llm/src/http.cpp\<close>), and the contract of a chunk stream that \<open>llm.hpp\<close> states. Parsing and printing
  JSON, reading a double as an integer, and reading the milliseconds from now to an HTTP date are the
  library's: parameters in \<open>wire_env\<close>.
\<close>

section \<open>Exceptions\<close>

datatype call_error = LlmThrown llm_failure | SystemThrown string | OtherThrown string

definition plain_failure :: "llm_error_code \<Rightarrow> string \<Rightarrow> llm_failure" where
  "plain_failure c m = \<lparr>lf_code = c, lf_message = m, lf_provider_code = [], lf_status = 0, lf_retry_after = None, lf_request_id = []\<rparr>"

definition quoted :: "string \<Rightarrow> string" where
  "quoted s = CHR 0x27 # s @ [CHR 0x27]"

section \<open>Numbers\<close>

record wire_env =
  wr_parse :: "string \<Rightarrow> json option"
  wr_serialize :: "json \<Rightarrow> string"
  wr_double_uint :: "64 word \<Rightarrow> 64 word option"
  wr_double_int :: "64 word \<Rightarrow> 64 word option"
  wr_date :: "string \<Rightarrow> int option"
  wr_missing :: call_error
  wr_inexact :: call_error

text \<open>\<open>value::to_number\<close>, and \<open>object::at\<close> before it.\<close>

definition number_uint :: "wire_env \<Rightarrow> json \<Rightarrow> call_error + 64 word" where
  "number_uint N v =
     (case v of
        JUint n \<Rightarrow> Inr n
      | JInt n \<Rightarrow> (if sint n \<ge> 0 then Inr n else Inl (wr_inexact N))
      | JDouble d \<Rightarrow> (case wr_double_uint N d of Some n \<Rightarrow> Inr n | None \<Rightarrow> Inl (wr_inexact N))
      | _ \<Rightarrow> Inl (wr_inexact N))"

definition number_int :: "wire_env \<Rightarrow> json \<Rightarrow> call_error + 64 word" where
  "number_int N v =
     (case v of
        JInt n \<Rightarrow> Inr n
      | JUint n \<Rightarrow> (if n \<le> int64_max then Inr n else Inl (wr_inexact N))
      | JDouble d \<Rightarrow> (case wr_double_int N d of Some n \<Rightarrow> Inr n | None \<Rightarrow> Inl (wr_inexact N))
      | _ \<Rightarrow> Inl (wr_inexact N))"

definition number_at :: "wire_env \<Rightarrow> json_object \<Rightarrow> string \<Rightarrow> call_error + 64 word" where
  "number_at N m k = (case member m k of None \<Rightarrow> Inl (wr_missing N) | Some v \<Rightarrow> number_uint N v)"

section \<open>Options\<close>

text \<open>The options the agent loop leaves empty.\<close>

record wire_options = generate_options +
  wo_system :: string
  wo_stop :: "string list"

definition join_text :: "llm_message \<Rightarrow> string" where
  "join_text m = concat (List.map_filter (\<lambda>b. case b of TextBlock t \<Rightarrow> Some t | _ \<Rightarrow> None) (lm_content m))"

section \<open>HTTP\<close>

record endpoint =
  ep_scheme :: string
  ep_host :: string
  ep_port :: string
  ep_path :: string

fun drop_slashes :: "string \<Rightarrow> string" where
  "drop_slashes (c # c' # cs) = (if c = CHR ''/'' then drop_slashes (c' # cs) else c # c' # cs)"
| "drop_slashes cs = cs"

definition parse_url :: "string \<Rightarrow> call_error + endpoint" where
  "parse_url url =
     (case find_text ''://'' url of
        None \<Rightarrow> Inl (OtherThrown ''url: missing scheme'')
      | Some k \<Rightarrow>
          let scheme = take k url; rest = drop (k + 3) url;
              authority = takeWhile (\<lambda>c. c \<noteq> CHR ''/'') rest; path = dropWhile (\<lambda>c. c \<noteq> CHR ''/'') rest;
              colons = filter (\<lambda>c. c = CHR '':'') authority
          in if scheme \<noteq> ''http'' \<and> scheme \<noteq> ''https'' then Inl (OtherThrown ''url: scheme must be http or https'')
             else let ep = (if length colons = 1
                        then \<lparr>ep_scheme = scheme, ep_host = takeWhile (\<lambda>c. c \<noteq> CHR '':'') authority,
                               ep_port = tl (dropWhile (\<lambda>c. c \<noteq> CHR '':'') authority), ep_path = rev (drop_slashes (rev path))\<rparr>
                        else \<lparr>ep_scheme = scheme, ep_host = authority, ep_port = [], ep_path = rev (drop_slashes (rev path))\<rparr>)
                  in if ep_host ep = [] then Inl (OtherThrown ''url: empty host'') else Inr ep)"

definition host_header :: "endpoint \<Rightarrow> string" where
  "host_header ep =
     (if ep_port ep = [] \<or> ep_port ep = (if ep_scheme ep = ''https'' then ''443'' else ''80'') then ep_host ep
      else ep_host ep @ '':'' @ ep_port ep)"

fun header_value :: "(string \<times> string) list \<Rightarrow> string \<Rightarrow> string" where
  "header_value [] wanted = []"
| "header_value ((n, v) # hs) wanted = (if map lower_char n = map lower_char wanted then v else header_value hs wanted)"

text \<open>
  The body loop of \<open>execute\<close>: the pieces that arrive go to the callback, or to a bounded buffer for an
  error status; a \<open>system_error\<close> of the callback is taken for one of the connection.
\<close>

record http_response =
  hr_status :: nat
  hr_body :: string
  hr_headers :: "(string \<times> string) list"

definition max_error_body :: nat where "max_error_body = 1024 * 1024"

text \<open>What \<open>throw_for\<close> tells apart; the flag is whether the stop token was set at that moment.\<close>

datatype io_error = IdleTimeout | Aborted_io | TruncatedTls | OtherIo string

definition throw_for :: "io_error \<Rightarrow> bool \<Rightarrow> string \<Rightarrow> llm_failure" where
  "throw_for e stopped doing =
     (case e of
        IdleTimeout \<Rightarrow> plain_failure Timeout (doing @ '': idle timeout'')
      | OtherIo m \<Rightarrow> plain_failure Transport (doing @ '': '' @ m)
      | _ \<Rightarrow> if stopped then plain_failure AbortedCall (doing @ '': cancelled'') else plain_failure Transport (doing @ '': connection closed''))"

datatype http_end = BodyDone | BrokenOff io_error bool

definition is_success :: "nat \<Rightarrow> bool" where
  "is_success status \<longleftrightarrow> 200 \<le> status \<and> status < 300"

definition exchange_error :: "call_error \<Rightarrow> call_error" where
  "exchange_error e = (case e of SystemThrown m \<Rightarrow> LlmThrown (throw_for (OtherIo m) False ''request'') | _ \<Rightarrow> e)"

fun body_pieces :: "(string \<Rightarrow> 'w \<Rightarrow> call_error option \<times> 'w) \<Rightarrow> string list \<Rightarrow> 'w \<Rightarrow> call_error option \<times> 'w" where
  "body_pieces K [] w = (None, w)"
| "body_pieces K (b # bs) w =
     (if b = [] then body_pieces K bs w
      else (case K b w of (Some e, w') \<Rightarrow> (Some e, w') | (None, w') \<Rightarrow> body_pieces K bs w'))"

definition error_body :: "string list \<Rightarrow> string" where
  "error_body bs = fold (\<lambda>b body. if length body < max_error_body then body @ take (max_error_body - length body) b else body) bs []"

definition run_exchange ::
  "(string \<Rightarrow> 'w \<Rightarrow> call_error option \<times> 'w) \<Rightarrow> nat \<Rightarrow> (string \<times> string) list \<Rightarrow> string list \<Rightarrow> http_end \<Rightarrow> 'w \<Rightarrow> (call_error + http_response) \<times> 'w" where
  "run_exchange K status headers pieces fin w =
     (case (if is_success status then body_pieces K pieces w else (None, w)) of
        (Some e, w') \<Rightarrow> (Inl (exchange_error e), w')
      | (None, w') \<Rightarrow>
          (case fin of
             BrokenOff e stopped \<Rightarrow> (Inl (LlmThrown (throw_for e stopped ''request'')), w')
           | BodyDone \<Rightarrow>
               (Inr \<lparr>hr_status = status, hr_body = (if is_success status then [] else error_body pieces), hr_headers = headers\<rparr>, w')))"

section \<open>The contract of a stream\<close>

text \<open>
  \<open>llm.hpp\<close>: \<open>block_start precedes that block's deltas, block_end carries the assembled block, usage precedes
  finish, and nothing follows finish\<close>. The blocks in progress are those of the agent loop's accumulator: the
  end of a block must carry what the accumulator has assembled from its deltas, or anything when a tool
  call's arguments were not streamed.
\<close>

definition block_kind :: "content_block \<Rightarrow> content_block_type option" where
  "block_kind b = (case b of TextBlock _ \<Rightarrow> Some TextType | ReasoningBlock _ \<Rightarrow> Some ReasoningType
     | ToolCallBlock _ \<Rightarrow> Some ToolCallType | ToolResultBlock _ \<Rightarrow> Some ToolResultType | ImageBlock _ \<Rightarrow> None)"

definition carries :: "open_block \<Rightarrow> content_block \<Rightarrow> bool" where
  "carries x b \<longleftrightarrow> partial_block x = Some b \<or>
     (case b of ToolCallBlock c \<Rightarrow> ob_kind x = ToolCallType \<and> ob_text x = [] \<and> tc_id c = ob_call_id x \<and> tc_name c = ob_name x | _ \<Rightarrow> False)"

text \<open>Whether a chunk may come, given the open blocks, the indices used so far and whether usage or a finish came.\<close>

record stream_view =
  sv_open :: "(nat, open_block) omap"
  sv_used :: "nat list"
  sv_usage :: bool
  sv_finished :: bool

definition new_view :: stream_view where
  "new_view = \<lparr>sv_open = [], sv_used = [], sv_usage = False, sv_finished = False\<rparr>"

definition kind_open :: "nat \<Rightarrow> content_block_type \<Rightarrow> stream_view \<Rightarrow> bool" where
  "kind_open i k v \<longleftrightarrow> (case map_of (sv_open v) i of Some x \<Rightarrow> ob_kind x = k | None \<Rightarrow> False)"

fun allowed :: "stream_chunk \<Rightarrow> stream_view \<Rightarrow> bool" where
  "allowed (BlockStart i k) v \<longleftrightarrow> i \<notin> set (sv_used v)"
| "allowed (TextDelta i t) v \<longleftrightarrow> kind_open i TextType v"
| "allowed (ReasoningDelta i t) v \<longleftrightarrow> kind_open i ReasoningType v"
| "allowed (ToolCallDelta i c n a) v \<longleftrightarrow> kind_open i ToolCallType v"
| "allowed (BlockEnd i b) v \<longleftrightarrow> (case map_of (sv_open v) i of Some x \<Rightarrow> carries x b | None \<Rightarrow> False)"
| "allowed (UsageChunk u) v \<longleftrightarrow> \<not> sv_usage v"
| "allowed (Finish f) v \<longleftrightarrow> True"

definition see_chunk :: "stream_chunk \<Rightarrow> stream_view \<Rightarrow> stream_view" where
  "see_chunk c v =
     v\<lparr>sv_open := sa_open (push_chunk c (reset_accumulator\<lparr>sa_open := sv_open v\<rparr>)),
       sv_used := (case c of BlockStart i k \<Rightarrow> i # sv_used v | _ \<Rightarrow> sv_used v),
       sv_usage := (sv_usage v \<or> (case c of UsageChunk u \<Rightarrow> True | _ \<Rightarrow> False)),
       sv_finished := (sv_finished v \<or> (case c of Finish f \<Rightarrow> True | _ \<Rightarrow> False))\<rparr>"

fun keeps_contract :: "stream_chunk list \<Rightarrow> stream_view \<Rightarrow> bool" where
  "keeps_contract [] v \<longleftrightarrow> True"
| "keeps_contract (c # cs) v \<longleftrightarrow> \<not> sv_finished v \<and> allowed c v \<and> keeps_contract cs (see_chunk c v)"

definition see_all :: "stream_chunk list \<Rightarrow> stream_view \<Rightarrow> stream_view" where
  "see_all cs v = fold see_chunk cs v"

lemma keeps_append: "keeps_contract (cs @ ds) v \<longleftrightarrow> keeps_contract cs v \<and> keeps_contract ds (see_all cs v)"
  by (induction cs arbitrary: v) (auto simp: see_all_def)

lemma see_all_append [simp]: "see_all (cs @ ds) v = see_all ds (see_all cs v)" "see_all [] v = v" "see_all (c # cs) v = see_all cs (see_chunk c v)"
  by (simp_all add: see_all_def)

lemma push_open: "sa_open a = sa_open b \<Longrightarrow> sa_open (push_chunk c a) = sa_open (push_chunk c b)"
  by (cases c) (simp_all add: open_at_def)

lemma see_all_open: "sv_open v = sa_open a \<Longrightarrow> sv_open (see_all cs v) = sa_open (fold push_chunk cs a)"
proof (induction cs arbitrary: v a)
  case (Cons c cs)
  have "sv_open (see_chunk c v) = sa_open (push_chunk c a)"
    using Cons.prems by (simp add: see_chunk_def) (rule push_open, simp)
  from Cons.IH [OF this] show ?case by simp
qed simp

text \<open>The accumulator's open blocks are the view's: what a stream leaves open is what was not ended.\<close>

lemma accumulate_view: "sa_open (accumulate cs) = sv_open (see_all cs new_view)"
  using see_all_open [of new_view reset_accumulator cs] by (simp add: accumulate_def new_view_def reset_accumulator_def)

end
