(* ===== verification/ChatWire.thy ===== *)
theory ChatWire
  imports Wire
begin

text \<open>
  The chat-completions protocol (\<open>plugins/llm-compat/src/translate.cpp\<close>): the request, the classification of an
  error response, and the translator of a streamed answer. The pointers \<open>text_\<close> and \<open>reasoning_\<close> are positions
  in \<open>order_\<close>. A payload that throws ends the call and its translator with it, so the translator's state is
  only given for a payload that is accepted.
\<close>

section \<open>The request\<close>

definition has_reasoning_effort :: "string \<Rightarrow> bool" where
  "has_reasoning_effort e \<longleftrightarrow> e = ''low'' \<or> e = ''high'' \<or> e = ''max''"

definition text_part :: "json \<Rightarrow> string option" where
  "text_part v = (case v of
       JObject m \<Rightarrow> (if member m ''type'' = Some (JString ''text'') then opt_string_at m ''text'' else None)
     | _ \<Rightarrow> None)"

definition tool_result_text :: "json \<Rightarrow> string" where
  "tool_result_text content = (case content of JArray vs \<Rightarrow> concat (List.map_filter text_part vs) | _ \<Rightarrow> [])"

definition image_part :: "image_block \<Rightarrow> json" where
  "image_part i = JObject [(''type'', JString ''image_url''),
     (''image_url'', JObject [(''url'', JString (''data:'' @ ib_media_type i @ '';base64,'' @ ib_data i))])]"

definition chat_user_messages :: "llm_message \<Rightarrow> json list" where
  "chat_user_messages m =
     (let tools = List.map_filter (\<lambda>b. case b of ToolResultBlock r \<Rightarrow>
            Some (JObject [(''role'', JString ''tool''), (''tool_call_id'', JString (tr_tool_call_id r)),
              (''content'', JString (tool_result_text (tr_content r)))]) | _ \<Rightarrow> None) (lm_content m);
          images = List.map_filter (\<lambda>b. case b of ImageBlock i \<Rightarrow> Some (image_part i) | _ \<Rightarrow> None) (lm_content m)
      in tools @ (if images = [] then [] else [JObject [(''role'', JString ''user''), (''content'', JArray images)]]) @
         (if join_text m = [] then [] else [JObject [(''role'', JString ''user''), (''content'', JString (join_text m))]]))"

definition chat_assistant_messages :: "llm_message \<Rightarrow> json list" where
  "chat_assistant_messages m =
     (let calls = List.map_filter (\<lambda>b. case b of ToolCallBlock c \<Rightarrow>
            Some (JObject [(''id'', JString (tc_id c)), (''type'', JString ''function''),
              (''function'', JObject [(''name'', JString (tc_name c)), (''arguments'', JString (tc_arguments c))])])
          | _ \<Rightarrow> None) (lm_content m);
          entry = [(''role'', JString ''assistant'')] @ (if calls = [] then [] else [(''tool_calls'', JArray calls)]) @
            (if join_text m = [] then [] else [(''content'', JString (join_text m))])
      in if member entry ''tool_calls'' \<noteq> None \<or> member entry ''content'' \<noteq> None then [JObject entry] else [])"

definition chat_message :: "llm_message \<Rightarrow> json list" where
  "chat_message m = (case lm_role m of
       LlmSystem \<Rightarrow> [JObject [(''role'', JString ''system''), (''content'', JString (join_text m))]]
     | LlmUser \<Rightarrow> chat_user_messages m
     | LlmAssistant \<Rightarrow> chat_assistant_messages m)"

definition chat_tools :: "prompt_tool list \<Rightarrow> json_object" where
  "chat_tools ts =
     (if ts = [] then []
      else [(''tools'', JArray (map (\<lambda>t. JObject [(''type'', JString ''function''), (''function'', JObject [
              (''name'', JString (pt_name t)), (''description'', JString (pt_description t)),
              (''parameters'', pt_parameters t)])]) ts))])"

definition build_request :: "wire_options \<Rightarrow> json" where
  "build_request opt =
     JObject
      ([(''model'', JString (gn_model opt)),
        (''messages'', JArray ((if wo_system opt = [] then []
           else [JObject [(''role'', JString ''system''), (''content'', JString (wo_system opt))]]) @
           concat (map chat_message (gn_messages opt)))),
        (''stream'', JBool True), (''stream_options'', JObject [(''include_usage'', JBool True)])] @
       (if gn_effort opt \<noteq> [] \<and> has_reasoning_effort (gn_effort opt)
        then [(''thinking'', JObject [(''type'', JString ''enabled'')]), (''reasoning_effort'', JString (gn_effort opt))] else []) @
       chat_tools (gn_tools opt) @
       (case gn_temperature opt of None \<Rightarrow> [] | Some d \<Rightarrow> [(''temperature'', JDouble d)]) @
       (case gn_max_tokens opt of None \<Rightarrow> [] | Some n \<Rightarrow> [(''max_tokens'', JUint n)]) @
       (if wo_stop opt = [] then [] else [(''stop'', JArray (map JString (wo_stop opt)))]))"

section \<open>Error responses\<close>

definition looks_like_quota :: "string \<Rightarrow> bool" where
  "looks_like_quota detail \<longleftrightarrow> contains detail ''quota''"

definition looks_like_context_window :: "string \<Rightarrow> bool" where
  "looks_like_context_window detail \<longleftrightarrow> contains detail ''context'' \<and>
     (contains detail ''exceed'' \<or> contains detail ''length'' \<or> contains detail ''window'' \<or> contains detail ''maximum'')"

text \<open>
  Milliseconds: all digits are seconds, read with \<open>strtoll\<close>, which stops at the largest value; else a date.
  (The multiplication by 1000 overflows a 64-bit count for more than nine quadrillion seconds.)
\<close>

definition parse_retry_after :: "wire_env \<Rightarrow> string \<Rightarrow> int option" where
  "parse_retry_after N value =
     (if value = [] then None
      else if list_all is_digit value then Some (1000 * min (int (read_nat value)) (2 ^ 63 - 1))
      else map_option (\<lambda>delay. max 0 delay) (wr_date N value))"

definition error_object :: "wire_env \<Rightarrow> string \<Rightarrow> json_object option" where
  "error_object N body = Option.bind (wr_parse N body) (\<lambda>v. Option.bind (as_object v) (\<lambda>m. get_object m ''error''))"

definition error_detail :: "json_object \<Rightarrow> string" where
  "error_detail m =
     fold (\<lambda>f detail. case opt_string_at m f of None \<Rightarrow> detail | Some t \<Rightarrow> (if detail = [] then t else detail @ '' '' @ t))
       [''code'', ''type'', ''message''] []"

definition chat_error_code :: "nat \<Rightarrow> string \<Rightarrow> llm_error_code" where
  "chat_error_code status detail =
     (if status = 401 \<or> status = 403 then Auth
      else if status = 413 then InvalidRequest
      else if looks_like_quota detail then Quota
      else if status = 429 then RateLimit
      else if status = 400 then (if looks_like_context_window detail then ContextWindowExceeded else InvalidRequest)
      else if status \<ge> 500 then Server
      else InvalidRequest)"

definition response_failure :: "llm_error_code \<Rightarrow> nat \<Rightarrow> string \<Rightarrow> string \<Rightarrow> int option \<Rightarrow> string \<Rightarrow> llm_failure" where
  "response_failure code status message provider_code retry_after request_id =
     \<lparr>lf_code = code, lf_message = (if message = [] then ''provider error (HTTP '' @ show_nat status @ '')'' else message),
      lf_provider_code = provider_code, lf_status = int status, lf_retry_after = retry_after, lf_request_id = request_id\<rparr>"

definition failure_for :: "wire_env \<Rightarrow> nat \<Rightarrow> string \<Rightarrow> int option \<Rightarrow> string \<Rightarrow> llm_failure" where
  "failure_for N status body retry_after request_id =
     (case error_object N body of
        None \<Rightarrow> response_failure (chat_error_code status []) status [] [] retry_after request_id
      | Some m \<Rightarrow>
          let code = get_string_at m ''code''; provider_code = (if code \<noteq> [] then code else get_string_at m ''type'')
          in response_failure (chat_error_code status (error_detail m)) status (get_string_at m ''message'') provider_code
               retry_after request_id)"

section \<open>The translator\<close>

record wire_block = open_block +
  wb_index :: nat

record chat_translator =
  ct_order :: "wire_block list"
  ct_text :: "nat option"
  ct_reasoning :: "nat option"
  ct_tools :: "(64 word, nat) omap"
  ct_finish :: "finish_reason option"
  ct_failure :: "llm_failure option"
  ct_usage :: "token_usage option"
  ct_next :: nat
  ct_done :: bool

definition new_chat :: chat_translator where
  "new_chat = \<lparr>ct_order = [], ct_text = None, ct_reasoning = None, ct_tools = [], ct_finish = None, ct_failure = None,
     ct_usage = None, ct_next = 0, ct_done = False\<rparr>"

type_synonym chat_run = "stream_chunk list \<times> chat_translator"

definition chat_open :: "content_block_type \<Rightarrow> chat_translator \<Rightarrow> chat_translator" where
  "chat_open k T = T\<lparr>ct_order := ct_order T @ [\<lparr>ob_kind = k, ob_text = [], ob_call_id = [], ob_name = [], wb_index = ct_next T\<rparr>],
     ct_next := ct_next T + 1\<rparr>"

definition chat_set :: "nat \<Rightarrow> (wire_block \<Rightarrow> wire_block) \<Rightarrow> chat_translator \<Rightarrow> chat_translator" where
  "chat_set p f T = T\<lparr>ct_order := (ct_order T)[p := f (ct_order T ! p)]\<rparr>"

definition add_text :: "string \<Rightarrow> wire_block \<Rightarrow> wire_block" where
  "add_text t b = b\<lparr>ob_text := ob_text b @ t\<rparr>"

definition ensure_reasoning :: "chat_run \<Rightarrow> nat \<times> chat_run" where
  "ensure_reasoning r = (case r of (cs, T) \<Rightarrow>
     (case ct_reasoning T of
        Some p \<Rightarrow> (p, cs, T)
      | None \<Rightarrow> (length (ct_order T), cs @ [BlockStart (ct_next T) ReasoningType],
                 (chat_open ReasoningType T)\<lparr>ct_reasoning := Some (length (ct_order T))\<rparr>)))"

definition ensure_text :: "chat_run \<Rightarrow> nat \<times> chat_run" where
  "ensure_text r = (case r of (cs, T) \<Rightarrow>
     (case ct_text T of
        Some p \<Rightarrow> (p, cs, T)
      | None \<Rightarrow> (length (ct_order T), cs @ [BlockStart (ct_next T) TextType],
                 (chat_open TextType T)\<lparr>ct_text := Some (length (ct_order T))\<rparr>)))"

definition reasoning_delta :: "string \<Rightarrow> chat_run \<Rightarrow> chat_run" where
  "reasoning_delta t r =
     (if t = [] then r
      else (case ensure_reasoning r of (p, cs, T) \<Rightarrow>
              (cs @ [ReasoningDelta (wb_index (ct_order T ! p)) t], chat_set p (add_text t) T)))"

definition text_delta :: "string \<Rightarrow> chat_run \<Rightarrow> chat_run" where
  "text_delta t r =
     (if t = [] then r
      else (case ensure_text r of (p, cs, T) \<Rightarrow>
              (cs @ [TextDelta (wb_index (ct_order T ! p)) t], chat_set p (add_text t) T)))"

definition accept_identity :: "string \<Rightarrow> json option \<Rightarrow> string" where
  "accept_identity current incoming = (case incoming of Some (JString s) \<Rightarrow> (if s = [] then current else s) | _ \<Rightarrow> current)"

definition tool_position :: "64 word \<Rightarrow> chat_run \<Rightarrow> nat \<times> chat_run" where
  "tool_position i r = (case r of (cs, T) \<Rightarrow>
     (case map_of (ct_tools T) i of
        Some p \<Rightarrow> (p, cs, T)
      | None \<Rightarrow> (length (ct_order T), cs @ [BlockStart (ct_next T) ToolCallType],
                 (chat_open ToolCallType T)\<lparr>ct_tools := om_insert i (length (ct_order T)) (ct_tools T)\<rparr>)))"

definition tool_fragment :: "json_object \<Rightarrow> string \<Rightarrow> chat_run \<Rightarrow> nat \<Rightarrow> chat_run" where
  "tool_fragment call fragment r p = (case r of (cs, T) \<Rightarrow>
     let f = (\<lambda>b. b\<lparr>ob_call_id := accept_identity (ob_call_id b) (member call ''id''),
               ob_name := accept_identity (ob_name b) (Option.bind (get_object call ''function'') (\<lambda>m. member m ''name'')),
               ob_text := ob_text b @ fragment\<rparr>);
         b = f (ct_order T ! p)
     in (cs @ [ToolCallDelta (wb_index b) (ob_call_id b) (ob_name b) fragment], chat_set p f T))"

definition apply_tool_call :: "wire_env \<Rightarrow> json \<Rightarrow> chat_run \<Rightarrow> call_error + chat_run" where
  "apply_tool_call N call r =
     (case as_object call of
        None \<Rightarrow> Inr r
      | Some m \<Rightarrow>
          and_sum (case member m ''index'' of None \<Rightarrow> Inr 0 | Some v \<Rightarrow> number_int N v) (\<lambda>i.
            case tool_position i r of (p, r') \<Rightarrow>
              let fragment = (case get_object m ''function'' of None \<Rightarrow> [] | Some f \<Rightarrow> get_string_at f ''arguments'')
              in Inr (tool_fragment m fragment r' p)))"

definition apply_delta :: "wire_env \<Rightarrow> json_object \<Rightarrow> chat_run \<Rightarrow> call_error + chat_run" where
  "apply_delta N delta r =
     (let r = text_delta (get_string_at delta ''content'') (reasoning_delta (get_string_at delta ''reasoning_content'') r)
      in (case get_array delta ''tool_calls'' of None \<Rightarrow> Inr r | Some calls \<Rightarrow> fold_sum (apply_tool_call N) calls r))"

definition apply_finish_reason :: "string \<Rightarrow> chat_translator \<Rightarrow> chat_translator" where
  "apply_finish_reason reason T =
     (if reason = ''stop'' then T\<lparr>ct_finish := Some FinishStop\<rparr>
      else if reason = ''tool_calls'' then T\<lparr>ct_finish := Some FinishToolCalls\<rparr>
      else if reason = ''length'' then T\<lparr>ct_finish := Some FinishMaxTokens\<rparr>
      else T\<lparr>ct_finish := Some FinishError, ct_failure :=
             Some ((plain_failure MalformedResponse (''model stopped: '' @ reason))\<lparr>lf_provider_code := reason\<rparr>)\<rparr>)"

definition apply_choice :: "wire_env \<Rightarrow> json \<Rightarrow> chat_run \<Rightarrow> call_error + chat_run" where
  "apply_choice N choice r =
     (case as_object choice of
        None \<Rightarrow> Inr r
      | Some m \<Rightarrow>
          and_sum (case get_object m ''delta'' of None \<Rightarrow> Inr r | Some d \<Rightarrow> apply_delta N d r) (\<lambda>(cs, T).
            Inr (cs, case opt_string_at m ''finish_reason'' of None \<Rightarrow> T | Some t \<Rightarrow> apply_finish_reason t T)))"

definition cached_tokens :: "wire_env \<Rightarrow> json_object \<Rightarrow> call_error + 64 word option" where
  "cached_tokens N m =
     (case Option.bind (get_object m ''prompt_tokens_details'') (\<lambda>d. member d ''cached_tokens'') of
        Some v \<Rightarrow> and_sum (number_uint N v) (\<lambda>n. Inr (Some n))
      | None \<Rightarrow>
          (case member m ''prompt_cache_hit_tokens'' of
             Some v \<Rightarrow> and_sum (number_uint N v) (\<lambda>n. Inr (Some n))
           | None \<Rightarrow> Inr None))"

definition map_usage :: "wire_env \<Rightarrow> json_object \<Rightarrow> call_error + token_usage" where
  "map_usage N m =
     and_sum (number_at N m ''prompt_tokens'') (\<lambda>prompt.
     and_sum (number_at N m ''completion_tokens'') (\<lambda>completion.
     and_sum (cached_tokens N m) (\<lambda>cached.
     and_sum (case Option.bind (get_object m ''completion_tokens_details'') (\<lambda>d. member d ''reasoning_tokens'') of
                Some v \<Rightarrow> and_sum (number_uint N v) (\<lambda>n. Inr (Some n)) | None \<Rightarrow> Inr None) (\<lambda>reasoning.
       Inr \<lparr>tu_input = (case cached of None \<Rightarrow> prompt | Some c \<Rightarrow> if prompt > c then prompt - c else 0),
            tu_output = completion, tu_total = Some (prompt + completion), tu_cache_read = cached, tu_cache_write = None,
            tu_reasoning = reasoning\<rparr>))))"

definition malformed_call :: "string \<Rightarrow> call_error" where
  "malformed_call m = LlmThrown (plain_failure MalformedResponse m)"

definition chat_feed :: "wire_env \<Rightarrow> json \<Rightarrow> chat_translator \<Rightarrow> call_error + chat_run" where
  "chat_feed N wire T =
     (if ct_done T then Inl (malformed_call ''chunk arrived after [DONE]'')
      else
        (case as_object wire of
           None \<Rightarrow> Inl (malformed_call ''SSE payload is not an object'')
         | Some m \<Rightarrow>
             and_sum (case get_array m ''choices'' of None \<Rightarrow> Inr ([], T) | Some choices \<Rightarrow> fold_sum (apply_choice N) choices ([], T))
               (\<lambda>(cs, T).
                  case get_object m ''usage'' of
                    None \<Rightarrow> Inr (cs, T)
                  | Some u \<Rightarrow> and_sum (map_usage N u) (\<lambda>usage. Inr (cs, T\<lparr>ct_usage := Some usage\<rparr>)))))"

definition chat_finish :: "chat_translator \<Rightarrow> call_error + chat_run" where
  "chat_finish T =
     (if ct_done T then Inl (malformed_call ''finish() called twice'')
      else
        let ends = List.map_filter (\<lambda>b. map_option (BlockEnd (wb_index b)) (partial_block (open_block.truncate b))) (ct_order T);
            reason = (case ct_finish T of None \<Rightarrow> FinishStop | Some r \<Rightarrow> r);
            fin = (if reason = FinishStop \<and> ct_order T = []
                   then \<lparr>fc_why = FinishError, fc_failure = Some (plain_failure EmptyResponse
                          ''model returned a completed response with no content''), fc_replay = None\<rparr>
                   else \<lparr>fc_why = reason, fc_failure = ct_failure T, fc_replay = None\<rparr>)
        in Inr (ends @ (case ct_usage T of None \<Rightarrow> [] | Some u \<Rightarrow> [UsageChunk u]) @ [Finish fin], T\<lparr>ct_done := True\<rparr>))"

end
