(* ===== verification/StreamLaws.thy ===== *)
theory StreamLaws
  imports Wire AgentOutcomes
begin

text \<open>
  What a consumer that follows the contract of a stream has seen of its blocks: \<open>sees os A v\<close> says that the
  blocks \<open>os\<close> were started under their positions, and that those in \<open>A\<close> are open with that content.
\<close>

definition sees :: "open_block list \<Rightarrow> nat set \<Rightarrow> stream_view \<Rightarrow> bool" where
  "sees os A v \<longleftrightarrow> set (sv_used v) = {..<length os} \<and> \<not> sv_finished v \<and> om_sorted (sv_open v) \<and>
     (\<forall>i. map_of (sv_open v) i = (if i < length os \<and> i \<in> A then Some (os ! i) else None))"

lemma sees_new: "sees [] A new_view"
  by (simp add: sees_def new_view_def)

lemma see_chunk_simps [simp]:
  "sv_used (see_chunk c v) = (case c of BlockStart i k \<Rightarrow> i # sv_used v | _ \<Rightarrow> sv_used v)"
  "sv_usage (see_chunk c v) = (sv_usage v \<or> (case c of UsageChunk u \<Rightarrow> True | _ \<Rightarrow> False))"
  "sv_finished (see_chunk c v) = (sv_finished v \<or> (case c of Finish f \<Rightarrow> True | _ \<Rightarrow> False))"
  "sv_open (see_chunk (BlockStart i k) v) = om_emplace i (fresh_block k) (sv_open v)"
  "sv_open (see_chunk (TextDelta i t) v) = om_modify i (\<lambda>b. b\<lparr>ob_text := ob_text b @ t\<rparr>) (om_emplace i (fresh_block TextType) (sv_open v))"
  "sv_open (see_chunk (ReasoningDelta i t) v) = om_modify i (\<lambda>b. b\<lparr>ob_text := ob_text b @ t\<rparr>) (om_emplace i (fresh_block TextType) (sv_open v))"
  "sv_open (see_chunk (BlockEnd i b) v) = om_erase i (sv_open v)"
  "sv_open (see_chunk (UsageChunk u) v) = sv_open v" "sv_open (see_chunk (Finish f) v) = sv_open v"
  by (simp_all add: see_chunk_def open_at_def split: stream_chunk.split)

lemma see_tool_delta [simp]:
  "sv_open (see_chunk (ToolCallDelta i c n args) v) = om_modify i (\<lambda>b. b\<lparr>ob_kind := ToolCallType,
     ob_call_id := (if c \<noteq> [] then c else ob_call_id b), ob_name := (if n \<noteq> [] then n else ob_name b),
     ob_text := ob_text b @ args\<rparr>) (om_emplace i (fresh_block TextType) (sv_open v))"
  by (simp add: see_chunk_def open_at_def)

lemma sees_start:
  assumes "sees os A v" and "length os \<in> A"
  shows "allowed (BlockStart (length os) k) v" "sees (os @ [fresh_block k]) A (see_chunk (BlockStart (length os) k) v)"
proof -
  have "map_of (sv_open v) (length os) = None" using assms(1) by (simp add: sees_def)
  with assms show "allowed (BlockStart (length os) k) v" "sees (os @ [fresh_block k]) A (see_chunk (BlockStart (length os) k) v)"
    by (auto simp: sees_def map_of_om_emplace nth_append less_Suc_eq lessThan_Suc)
qed

lemma sees_open: "sees os A v \<Longrightarrow> p < length os \<Longrightarrow> p \<in> A \<Longrightarrow> kind_open p k v \<longleftrightarrow> ob_kind (os ! p) = k"
  by (simp add: sees_def kind_open_def)

lemma sees_delta:
  assumes "sees os A v" and "p < length os" and "p \<in> A"
    and "sv_open v' = om_modify p g (om_emplace p (fresh_block TextType) (sv_open v))"
    and "sv_used v' = sv_used v" and "sv_finished v' = sv_finished v"
  shows "sees (os[p := g (os ! p)]) A v'"
proof -
  have e: "om_emplace p (fresh_block TextType) (sv_open v) = sv_open v"
    using assms(1-3) by (simp add: sees_def om_emplace_def)
  have "map_of (sv_open v') i = (if i < length os \<and> i \<in> A then Some (os[p := g (os ! p)] ! i) else None)" for i
    using assms(1-3) by (auto simp: assms(4) e sees_def nth_list_update)
  with assms show ?thesis by (auto simp: sees_def e)
qed

lemma sees_end:
  assumes "sees os A v" and "p < length os" and "p \<in> A" and "carries (os ! p) b"
  shows "allowed (BlockEnd p b) v" "sees os (A - {p}) (see_chunk (BlockEnd p b) v)"
  using assms by (auto simp: sees_def)

lemma sees_nothing: "sees os {} v \<Longrightarrow> sv_open v = []"
  by (cases "sv_open v") (auto simp: sees_def dest: spec [of _ "fst (hd (sv_open v))"])

lemma keeps_snoc: "keeps_contract (cs @ [c]) v \<longleftrightarrow> keeps_contract cs v \<and> \<not> sv_finished (see_all cs v) \<and> allowed c (see_all cs v)"
  by (simp add: keeps_append)

lemma ended_append [simp]: "List.map_filter ended_block (cs @ ds) = List.map_filter ended_block cs @ List.map_filter ended_block ds"
  by (simp add: List.map_filter_def)

lemma ended_single: "List.map_filter ended_block [c] = (case ended_block c of None \<Rightarrow> [] | Some b \<Rightarrow> [b])" "List.map_filter ended_block [] = []"
  by (simp_all add: List.map_filter_def split: option.split)

lemma om_sorted_unique:
  assumes "om_sorted m" and "om_sorted m'" and "\<And>k. map_of m k = map_of m' k"
  shows "m = m'"
proof (rule map_sorted_distinct_set_unique [of fst])
  have "x \<in> set m \<longleftrightarrow> x \<in> set m'" for x using map_of_mem [OF assms(1)] map_of_mem [OF assms(2)] assms(3) by (cases x) simp
  then show "set m = set m'" by blast
  then show "inj_on fst (set m \<union> set m')"
    using om_sorted_distinct [OF assms(1)] by (simp add: distinct_map)
qed (use assms(1,2) in \<open>auto simp: om_sorted_def strict_sorted_iff\<close>)

text \<open>What the agent loop's accumulator has while every block is open.\<close>

lemma sees_all_open:
  assumes "sees os UNIV v"
  shows "sv_open v = zip [0..<length os] os"
proof (rule om_sorted_unique)
  show "om_sorted (sv_open v)" using assms by (simp add: sees_def)
  have k: "map fst (zip [0..<length os] os) = [0..<length os]" by simp
  then show "om_sorted (zip [0..<length os] os)" by (simp add: om_sorted_def)
  show "map_of (sv_open v) i = map_of (zip [0..<length os] os) i" for i
  proof (cases "i < length os")
    case True
    then have "map_of (zip [0..<length os] os) ([0..<length os] ! i) = Some (os ! i)" by (intro map_of_zip_nth) simp_all
    with True assms show ?thesis by (simp add: sees_def)
  next
    case False
    then have "map_of (zip [0..<length os] os) i = None" by (simp add: map_of_zip_is_None)
    then show ?thesis unfolding \<open>map_of (zip [0..<length os] os) i = None\<close> using False assms by (simp add: sees_def)
  qed
qed

end
