(* ===== verification/ChatLaws.thy ===== *)
theory ChatLaws
  imports ChatWire StreamLaws
begin

text \<open>
  The chat-completions translator keeps the contract of a stream: \<open>chat_tracks\<close> ties its blocks to what a
  consumer of the chunks has seen so far, and every operation carries it on.
\<close>

section \<open>The translator\<close>

definition slot_ok :: "wire_block list \<Rightarrow> content_block_type \<Rightarrow> nat \<Rightarrow> bool" where
  "slot_ok bs k p \<longleftrightarrow> p < length bs \<and> ob_kind (bs ! p) = k"

lemma slot_snoc: "slot_ok bs k p \<Longrightarrow> slot_ok (bs @ [b]) k p" "ob_kind b = k \<Longrightarrow> slot_ok (bs @ [b]) k (length bs)"
  by (auto simp: slot_ok_def nth_append)

lemma slot_update: "ob_kind b = ob_kind (bs ! q) \<Longrightarrow> slot_ok (bs[q := b]) k p \<longleftrightarrow> slot_ok bs k p"
  by (cases "p = q") (auto simp: slot_ok_def)

definition sees_blocks :: "wire_block list \<Rightarrow> nat set \<Rightarrow> stream_view \<Rightarrow> bool" where
  "sees_blocks bs A v \<longleftrightarrow> (\<forall>i < length bs. wb_index (bs ! i) = i) \<and> sees (map open_block.truncate bs) A v"

lemma sees_blocks_finished: "sees_blocks bs A v \<Longrightarrow> \<not> sv_finished v"
  by (simp add: sees_blocks_def sees_def)

definition chat_tracks :: "chat_translator \<Rightarrow> stream_view \<Rightarrow> bool" where
  "chat_tracks T v \<longleftrightarrow> sees_blocks (ct_order T) UNIV v \<and> \<not> sv_usage v \<and> \<not> ct_done T \<and> ct_next T = length (ct_order T) \<and>
     (\<forall>p. ct_text T = Some p \<longrightarrow> slot_ok (ct_order T) TextType p) \<and>
     (\<forall>p. ct_reasoning T = Some p \<longrightarrow> slot_ok (ct_order T) ReasoningType p) \<and>
     (\<forall>i p. map_of (ct_tools T) i = Some p \<longrightarrow> slot_ok (ct_order T) ToolCallType p) \<and>
     (\<forall>b \<in> set (ct_order T). ob_kind b \<noteq> ToolResultType)"

definition chat_keeps :: "stream_view \<Rightarrow> chat_run \<Rightarrow> bool" where
  "chat_keeps v r \<longleftrightarrow> keeps_contract (fst r) v \<and> chat_tracks (snd r) (see_all (fst r) v) \<and> List.map_filter ended_block (fst r) = []"

lemma chat_new: "chat_tracks new_chat new_view"
  by (simp add: chat_tracks_def new_chat_def sees_blocks_def sees_new) (simp add: new_view_def)

text \<open>Opening a block, in whichever slot it is remembered.\<close>

lemma chat_opens:
  assumes "chat_keeps v (cs, T)" and "k \<noteq> ToolResultType"
    and "T' = (chat_open k T)\<lparr>ct_text := x, ct_reasoning := y, ct_tools := z\<rparr>"
    and "\<forall>p. x = Some p \<longrightarrow> ct_text T = Some p \<or> p = length (ct_order T) \<and> k = TextType"
    and "\<forall>p. y = Some p \<longrightarrow> ct_reasoning T = Some p \<or> p = length (ct_order T) \<and> k = ReasoningType"
    and "\<forall>i p. map_of z i = Some p \<longrightarrow> map_of (ct_tools T) i = Some p \<or> p = length (ct_order T) \<and> k = ToolCallType"
  shows "chat_keeps v (cs @ [BlockStart (ct_next T) k], T')"
proof -
  let ?v = "see_all cs v" and ?n = "length (ct_order T)"
  from assms(1) have t: "chat_tracks T ?v" and c: "keeps_contract cs v" and e: "List.map_filter ended_block cs = []"
    by (simp_all add: chat_keeps_def)
  let ?b = "\<lparr>ob_kind = k, ob_text = [], ob_call_id = [], ob_name = [], wb_index = ct_next T\<rparr>"
  have o: "ct_order T' = ct_order T @ [?b]" by (simp add: assms(3) chat_open_def)
  have n: "ct_next T = ?n" and s: "sees_blocks (ct_order T) UNIV ?v" using t by (simp_all add: chat_tracks_def)
  have "open_block.truncate ?b = fresh_block k" by (simp add: open_block.truncate_def fresh_block_def)
  with s sees_start [of "map open_block.truncate (ct_order T)" UNIV ?v k] n have
    a: "allowed (BlockStart ?n k) ?v" "sees_blocks (ct_order T') UNIV (see_chunk (BlockStart ?n k) ?v)"
    by (auto simp: o sees_blocks_def nth_append less_Suc_eq simp del: see_chunk_simps allowed.simps)
  have "\<not> sv_finished ?v" by (rule sees_blocks_finished [OF s])
  with a c have "keeps_contract (cs @ [BlockStart (ct_next T) k]) v" by (simp add: keeps_snoc n)
  moreover have "chat_tracks T' (see_chunk (BlockStart ?n k) ?v)"
    using t a(2) assms(2,4-6) slot_snoc(1) [of "ct_order T" _ _ ?b] slot_snoc(2) [of ?b k "ct_order T"] unfolding chat_tracks_def o
    by (simp add: assms(3) chat_open_def) blast
  ultimately show ?thesis by (simp add: chat_keeps_def n e ended_single)
qed

text \<open>A delta into a block of its kind.\<close>

lemma chat_deltas:
  assumes "chat_keeps v (cs, T)" and "slot_ok (ct_order T) k p" and "allowed c (see_all cs v)"
    and "sv_open (see_chunk c (see_all cs v)) = om_modify p g (om_emplace p (fresh_block TextType) (sv_open (see_all cs v)))"
    and "\<forall>i k. c \<noteq> BlockStart i k" and "ended_block c = None" and "\<forall>u. c \<noteq> UsageChunk u" and "\<forall>f. c \<noteq> Finish f"
    and "\<And>b. ob_kind b = k \<Longrightarrow> open_block.truncate (f b) = g (open_block.truncate b)"
    and "\<And>b. wb_index (f b) = wb_index b" and "\<And>b. ob_kind (f b) = ob_kind b"
  shows "chat_keeps v (cs @ [c], chat_set p f T)"
proof -
  let ?v = "see_all cs v"
  from assms(1) have t: "chat_tracks T ?v" and kc: "keeps_contract cs v" and e: "List.map_filter ended_block cs = []"
    by (simp_all add: chat_keeps_def)
  have s: "sees_blocks (ct_order T) UNIV ?v" using t by (simp add: chat_tracks_def)
  have nf: "\<not> sv_finished ?v" by (rule sees_blocks_finished [OF s])
  have same: "sv_used (see_chunk c ?v) = sv_used ?v" "sv_finished (see_chunk c ?v) = sv_finished ?v" "sv_usage (see_chunk c ?v) = sv_usage ?v"
    using assms(5,7,8) by (cases c; simp)+
  have "sees_blocks ((ct_order T)[p := f (ct_order T ! p)]) UNIV (see_chunk c ?v)"
    using s assms(2) sees_delta [OF _ _ _ assms(4) same(1,2), of "map open_block.truncate (ct_order T)" UNIV]
    by (auto simp: sees_blocks_def slot_ok_def assms(9,10) map_update nth_list_update simp del: see_chunk_simps)
  moreover have "\<not> sv_usage (see_chunk c ?v)" using t same(3) by (simp add: chat_tracks_def)
  moreover have "ob_kind b \<noteq> ToolResultType" if "b \<in> set ((ct_order T)[p := f (ct_order T ! p)])" for b
    using that t assms(2) set_update_subset_insert [of "ct_order T" p "f (ct_order T ! p)"]
    by (auto simp: chat_tracks_def slot_ok_def assms(11))
  ultimately have "chat_tracks (chat_set p f T) (see_chunk c ?v)"
    using t by (simp add: chat_tracks_def chat_set_def slot_update assms(11) del: see_chunk_simps)
  with kc nf assms(3) show ?thesis by (simp add: chat_keeps_def keeps_snoc e ended_single assms(6))
qed

lemma tracked_index: "chat_keeps v (cs, T) \<Longrightarrow> slot_ok (ct_order T) k p \<Longrightarrow> wb_index (ct_order T ! p) = p \<and> kind_open p k (see_all cs v)"
  by (auto simp: chat_keeps_def chat_tracks_def slot_ok_def sees_blocks_def sees_open open_block.truncate_def)

lemma add_text_facts: "open_block.truncate (add_text t b) = (open_block.truncate b)\<lparr>ob_text := ob_text (open_block.truncate b) @ t\<rparr>"
    "wb_index (add_text t b) = wb_index b" "ob_kind (add_text t b) = ob_kind b"
  by (simp_all add: add_text_def open_block.truncate_def)

lemma reasoning_keeps: "chat_keeps v r \<Longrightarrow> chat_keeps v (reasoning_delta t r)"
proof (cases "t = []")
  case False
  assume r: "chat_keeps v r"
  obtain p cs T where e: "ensure_reasoning r = (p, cs, T)" by (metis prod_cases3)
  obtain cs0 T0 where r0: "r = (cs0, T0)" by (rule prod.exhaust)
  have k: "chat_keeps v (cs, T) \<and> slot_ok (ct_order T) ReasoningType p"
  proof (cases "ct_reasoning T0")
    case None
    have "chat_keeps v (cs0 @ [BlockStart (ct_next T0) ReasoningType], (chat_open ReasoningType T0)\<lparr>ct_reasoning := Some (length (ct_order T0))\<rparr>)"
      by (rule chat_opens [OF r [unfolded r0], where x = "ct_text T0" and y = "Some (length (ct_order T0))" and z = "ct_tools T0"])
        (simp_all add: chat_open_def)
    with e None show ?thesis by (auto simp: ensure_reasoning_def r0 chat_open_def slot_ok_def nth_append)
  next
    case (Some q)
    with e r show ?thesis by (auto simp: ensure_reasoning_def r0 chat_keeps_def chat_tracks_def)
  qed
  then have "chat_keeps v (cs @ [ReasoningDelta p t], chat_set p (add_text t) T)"
    using tracked_index [of v cs T ReasoningType p]
    by (intro chat_deltas [where k = ReasoningType and g = "\<lambda>b. b\<lparr>ob_text := ob_text b @ t\<rparr>"]) (simp_all add: add_text_facts)
  with False e k tracked_index [of v cs T ReasoningType p] show ?thesis by (simp add: reasoning_delta_def)
qed (simp add: reasoning_delta_def)

lemma text_keeps: "chat_keeps v r \<Longrightarrow> chat_keeps v (text_delta t r)"
proof (cases "t = []")
  case False
  assume r: "chat_keeps v r"
  obtain p cs T where e: "ensure_text r = (p, cs, T)" by (metis prod_cases3)
  obtain cs0 T0 where r0: "r = (cs0, T0)" by (rule prod.exhaust)
  have k: "chat_keeps v (cs, T) \<and> slot_ok (ct_order T) TextType p"
  proof (cases "ct_text T0")
    case None
    have "chat_keeps v (cs0 @ [BlockStart (ct_next T0) TextType], (chat_open TextType T0)\<lparr>ct_text := Some (length (ct_order T0))\<rparr>)"
      by (rule chat_opens [OF r [unfolded r0], where x = "Some (length (ct_order T0))" and y = "ct_reasoning T0" and z = "ct_tools T0"])
        (simp_all add: chat_open_def)
    with e None show ?thesis by (auto simp: ensure_text_def r0 chat_open_def slot_ok_def nth_append)
  next
    case (Some q)
    with e r show ?thesis by (auto simp: ensure_text_def r0 chat_keeps_def chat_tracks_def)
  qed
  then have "chat_keeps v (cs @ [TextDelta p t], chat_set p (add_text t) T)"
    using tracked_index [of v cs T TextType p]
    by (intro chat_deltas [where k = TextType and g = "\<lambda>b. b\<lparr>ob_text := ob_text b @ t\<rparr>"]) (simp_all add: add_text_facts)
  with False e k tracked_index [of v cs T TextType p] show ?thesis by (simp add: text_delta_def)
qed (simp add: text_delta_def)

lemma tool_position_keeps:
  assumes "chat_keeps v r" and "tool_position i r = (p, cs, T)"
  shows "chat_keeps v (cs, T) \<and> slot_ok (ct_order T) ToolCallType p"
proof -
  obtain cs0 T0 where r0: "r = (cs0, T0)" by (rule prod.exhaust)
  show ?thesis
  proof (cases "map_of (ct_tools T0) i")
    case None
    have "chat_keeps v (cs0 @ [BlockStart (ct_next T0) ToolCallType],
        (chat_open ToolCallType T0)\<lparr>ct_tools := om_insert i (length (ct_order T0)) (ct_tools T0)\<rparr>)"
      by (rule chat_opens [OF assms(1) [unfolded r0], where x = "ct_text T0" and y = "ct_reasoning T0"
            and z = "om_insert i (length (ct_order T0)) (ct_tools T0)"])
        (auto simp: chat_open_def split: if_splits)
    with assms(2) None show ?thesis by (auto simp: tool_position_def r0 chat_open_def slot_ok_def nth_append)
  next
    case (Some q)
    with assms show ?thesis by (auto simp: tool_position_def r0 chat_keeps_def chat_tracks_def)
  qed
qed

lemma accept_twice: "(if accept_identity x j \<noteq> [] then accept_identity x j else x) = accept_identity x j"
  by (auto simp: accept_identity_def split: option.split json.split)

lemma tool_fragment_keeps:
  assumes "chat_keeps v (cs, T)" and "slot_ok (ct_order T) ToolCallType p"
  shows "chat_keeps v (tool_fragment m fragment (cs, T) p)"
proof -
  let ?b = "ct_order T ! p"
  let ?id = "accept_identity (ob_call_id ?b) (member m ''id'')"
    and ?name = "accept_identity (ob_name ?b) (Option.bind (get_object m ''function'') (\<lambda>m. member m ''name''))"
  define f where "f b = b\<lparr>ob_call_id := ?id, ob_name := ?name, ob_text := ob_text b @ fragment\<rparr>" for b :: wire_block
  have set: "chat_set p (\<lambda>b. b\<lparr>ob_call_id := accept_identity (ob_call_id b) (member m ''id''),
      ob_name := accept_identity (ob_name b) (Option.bind (get_object m ''function'') (\<lambda>m. member m ''name'')),
      ob_text := ob_text b @ fragment\<rparr>) T = chat_set p f T"
    by (simp add: chat_set_def f_def)
  note ix = tracked_index [OF assms]
  let ?v = "see_all cs v"
  have at: "map_of (sv_open ?v) p = Some (open_block.truncate ?b)" and k: "ob_kind ?b = ToolCallType"
    using assms by (auto simp: chat_keeps_def chat_tracks_def sees_blocks_def sees_def slot_ok_def)
  let ?c = "ToolCallDelta p ?id ?name fragment"
  let ?g = "\<lambda>b. b\<lparr>ob_kind := ToolCallType, ob_call_id := ?id, ob_name := ?name, ob_text := ob_text b @ fragment\<rparr>"
  have tr: "ob_call_id (open_block.truncate ?b) = ob_call_id ?b" "ob_name (open_block.truncate ?b) = ob_name ?b" by (simp_all add: open_block.truncate_def)
  have "sv_open (see_chunk ?c ?v) = om_modify p ?g (om_emplace p (fresh_block TextType) (sv_open ?v))"
    unfolding see_tool_delta
    by (rule om_modify_cong_first [of _ _ "open_block.truncate ?b"]) (simp_all add: at om_emplace_def accept_twice tr split del: if_split cong del: if_weak_cong)
  then have "chat_keeps v (cs @ [?c], chat_set p f T)"
    using ix by (intro chat_deltas [OF assms, where g = ?g]) (simp_all add: f_def open_block.truncate_def)
  with ix show ?thesis by (simp add: tool_fragment_def Let_def set)
qed

lemma tool_call_keeps: "apply_tool_call N call r = Inr r' \<Longrightarrow> chat_keeps v r \<Longrightarrow> chat_keeps v r'"
proof (cases "as_object call")
  case (Some m)
  assume a: "apply_tool_call N call r = Inr r'" "chat_keeps v r"
  from a(1) Some obtain i where r': "(case tool_position i r of (p, r2) \<Rightarrow>
      tool_fragment m (case get_object m ''function'' of None \<Rightarrow> [] | Some f \<Rightarrow> get_string_at f ''arguments'') r2 p) = r'"
    by (auto simp: apply_tool_call_def success_iff Let_def case_prod_unfold)
  obtain p cs T where p: "tool_position i r = (p, cs, T)" by (metis prod_cases3)
  from tool_position_keeps [OF a(2) p] r' p show ?thesis by (auto intro: tool_fragment_keeps)
qed (simp add: apply_tool_call_def)

lemma delta_keeps: "apply_delta N d r = Inr r' \<Longrightarrow> chat_keeps v r \<Longrightarrow> chat_keeps v r'"
  by (auto simp: apply_delta_def Let_def split: option.splits
      intro: text_keeps reasoning_keeps fold_sum_invariant [where P = "chat_keeps v"] tool_call_keeps)

lemma tracks_settings:
  "chat_tracks T v \<Longrightarrow> chat_tracks (T\<lparr>ct_finish := x, ct_failure := y, ct_usage := z\<rparr>) v"
  by (simp add: chat_tracks_def)

lemma finish_reason_keeps: "chat_keeps v (cs, T) \<Longrightarrow> chat_keeps v (cs, apply_finish_reason t T)"
  by (auto simp: chat_keeps_def apply_finish_reason_def chat_tracks_def)

lemma choice_keeps: "apply_choice N c r = Inr r' \<Longrightarrow> chat_keeps v r \<Longrightarrow> chat_keeps v r'"
  by (auto simp: apply_choice_def success_iff split: option.splits intro: finish_reason_keeps dest: delta_keeps)

lemma feed_keeps:
  assumes "chat_feed N wire T = Inr (cs, T')" and "chat_tracks T v"
  shows "keeps_contract cs v" "chat_tracks T' (see_all cs v)" "List.map_filter ended_block cs = []"
proof -
  have start: "chat_keeps v ([], T)" using assms(2) by (simp add: chat_keeps_def ended_single)
  have "chat_keeps v r" if "fold_sum (apply_choice N) choices ([], T) = Inr r" for choices r
    by (rule fold_sum_invariant [where P = "chat_keeps v", OF that start]) (rule choice_keeps)
  with assms(1) start have "chat_keeps v (cs, T')"
    by (auto simp: chat_feed_def success_iff chat_keeps_def chat_tracks_def split: if_splits option.splits)
  then show "keeps_contract cs v" "chat_tracks T' (see_all cs v)" "List.map_filter ended_block cs = []" by (simp_all add: chat_keeps_def)
qed

section \<open>The end of a stream\<close>

lemma partial_some: "ob_kind b \<noteq> ToolResultType \<Longrightarrow> \<exists>c. partial_block b = Some c"
  by (cases "ob_kind b") (simp_all add: partial_block_def)

definition end_chunks :: "wire_block list \<Rightarrow> stream_chunk list" where
  "end_chunks bs = List.map_filter (\<lambda>b. map_option (BlockEnd (wb_index b)) (partial_block (open_block.truncate b))) bs"

lemma ends_keep:
  assumes "sees_blocks bs {n..} v" and "n \<le> length bs" and "\<forall>b \<in> set bs. ob_kind b \<noteq> ToolResultType"
  shows "keeps_contract (end_chunks (drop n bs)) v \<and> sees_blocks bs {} (see_all (end_chunks (drop n bs)) v) \<and>
    sv_usage (see_all (end_chunks (drop n bs)) v) = sv_usage v"
  using assms
proof (induction "length bs - n" arbitrary: n v)
  case 0
  then have "n = length bs" by simp
  with "0.prems" show ?case by (auto simp: end_chunks_def List.map_filter_def sees_blocks_def sees_def)
next
  case (Suc k)
  then have n: "n < length bs" by simp
  then have d: "drop n bs = bs ! n # drop (Suc n) bs" by (rule Cons_nth_drop_Suc [symmetric])
  have "ob_kind (open_block.truncate (bs ! n)) \<noteq> ToolResultType" using Suc.prems(3) n by (simp add: open_block.truncate_def)
  from partial_some [OF this] obtain c where c: "partial_block (open_block.truncate (bs ! n)) = Some c" by blast
  then have "carries (open_block.truncate (bs ! n)) c" by (simp add: carries_def)
  with Suc.prems(1) n sees_end [of "map open_block.truncate bs" "{n..}" v n c]
  have e: "allowed (BlockEnd n c) v" "sees_blocks bs ({n..} - {n}) (see_chunk (BlockEnd n c) v)"
    by (auto simp: sees_blocks_def simp del: see_chunk_simps)
  have "{n..} - {n} = {Suc n..}" by auto
  with e have e': "allowed (BlockEnd n c) v" "sees_blocks bs {Suc n..} (see_chunk (BlockEnd n c) v)" by simp_all
  have i: "wb_index (bs ! n) = n" and nf: "\<not> sv_finished v"
    using Suc.prems(1) n sees_blocks_finished by (auto simp: sees_blocks_def)
  have x: "end_chunks (drop n bs) = BlockEnd n c # end_chunks (drop (Suc n) bs)"
    by (simp add: d end_chunks_def List.map_filter_def c i)
  from Suc.hyps(1) [OF _ e'(2)] Suc.hyps(2) n Suc.prems(3) e'(1) nf show ?case by (simp add: x)
qed

lemma finish_keeps:
  assumes "chat_finish T = Inr (cs, T')" and "chat_tracks T v"
  shows "keeps_contract cs v" "sv_open (see_all cs v) = []" "sv_finished (see_all cs v)" "ct_done T'"
proof -
  let ?es = "end_chunks (ct_order T)" and ?us = "case ct_usage T of None \<Rightarrow> [] | Some u \<Rightarrow> [UsageChunk u]"
  from assms(1) obtain fin where cs: "cs = ?es @ ?us @ [Finish fin]" and d: "ct_done T'"
    by (auto simp: chat_finish_def end_chunks_def Let_def split: if_splits)
  have s: "sees_blocks (ct_order T) {0..} v" and k: "\<forall>b \<in> set (ct_order T). ob_kind b \<noteq> ToolResultType" and u: "\<not> sv_usage v"
    using assms(2) by (simp_all add: chat_tracks_def)
  from ends_keep [OF s _ k] have e: "keeps_contract ?es v" "sees_blocks (ct_order T) {} (see_all ?es v)" "\<not> sv_usage (see_all ?es v)"
    using u by simp_all
  have o: "sv_open (see_all ?es v) = []" and nf: "\<not> sv_finished (see_all ?es v)"
    using e(2) sees_blocks_finished sees_nothing by (auto simp: sees_blocks_def)
  show "keeps_contract cs v" "sv_open (see_all cs v) = []" "sv_finished (see_all cs v)"
    using e o nf by (simp_all add: cs keeps_append split: option.split)
  show "ct_done T'" by (rule d)
qed

text \<open>A whole stream of payloads: what the consumer gets, and the translator behind it.\<close>

definition chat_payload :: "wire_env \<Rightarrow> json \<Rightarrow> chat_run \<Rightarrow> call_error + chat_run" where
  "chat_payload N wire r = (case r of (cs, T) \<Rightarrow> and_sum (chat_feed N wire T) (\<lambda>(ds, T'). Inr (cs @ ds, T')))"

lemma payloads_keep:
  assumes "fold_sum (chat_payload N) ws ([], new_chat) = Inr (cs, T)"
  shows "keeps_contract cs new_view" "chat_tracks T (see_all cs new_view)" "List.map_filter ended_block cs = []"
proof -
  have "chat_keeps new_view (cs, T)"
  proof (rule fold_sum_invariant [where P = "chat_keeps new_view", OF assms])
    show "chat_keeps new_view ([], new_chat)" by (simp add: chat_keeps_def chat_new ended_single)
    fix w r r' assume "chat_payload N w r = Inr r'" and "chat_keeps new_view r"
    then show "chat_keeps new_view r'"
      by (auto simp: chat_payload_def success_iff chat_keeps_def keeps_append split: prod.splits dest: feed_keeps)
  qed
  then show "keeps_contract cs new_view" "chat_tracks T (see_all cs new_view)" "List.map_filter ended_block cs = []"
    by (simp_all add: chat_keeps_def)
qed

text \<open>What the agent loop's accumulator holds of such a stream, while it runs and after its end.\<close>

text \<open>
  The accumulator follows the translator: while the stream runs it delivers the blocks as the translator has
  them, and at its end it has closed exactly those, with nothing open.
\<close>

lemma map_filter_snd: "List.map_filter (\<lambda>(i, b). f b) xs = List.map_filter f (map snd xs)"
  by (simp add: List.map_filter_def filter_map comp_def case_prod_unfold)

lemma map_filter_map: "List.map_filter f (map g xs) = List.map_filter (\<lambda>x. f (g x)) xs"
  by (simp add: List.map_filter_def filter_map comp_def)

definition wire_content :: "wire_block list \<Rightarrow> content_block list" where
  "wire_content bs = List.map_filter (\<lambda>b. partial_block (open_block.truncate b)) bs"

lemma delivered_while_streaming:
  assumes "fold_sum (chat_payload N) ws ([], new_chat) = Inr (cs, T)"
  shows "delivered_blocks (accumulate cs) = wire_content (ct_order T)"
proof -
  note p = payloads_keep [OF assms]
  have "sees (map open_block.truncate (ct_order T)) UNIV (see_all cs new_view)"
    using p(2) by (simp add: chat_tracks_def sees_blocks_def)
  from sees_all_open [OF this] p(3) show ?thesis
    by (simp add: delivered_blocks_def accumulated_closed accumulate_view wire_content_def map_filter_snd map_filter_map)
qed

lemma delivered_at_end:
  assumes "fold_sum (chat_payload N) ws ([], new_chat) = Inr (cs, T)" and "chat_finish T = Inr (ds, T')"
  shows "keeps_contract (cs @ ds) new_view" "sa_open (accumulate (cs @ ds)) = []"
    "sa_closed (accumulate (cs @ ds)) = wire_content (ct_order T)"
proof -
  note p = payloads_keep [OF assms(1)] and f = finish_keeps [OF assms(2) payloads_keep(2) [OF assms(1)]]
  show "keeps_contract (cs @ ds) new_view" "sa_open (accumulate (cs @ ds)) = []"
    using p(1) f(1,2) by (simp_all add: keeps_append accumulate_view)
  from assms(2) obtain fin us where ds: "ds = end_chunks (ct_order T) @ us @ [Finish fin]" and us: "us = [] \<or> (\<exists>u. us = [UsageChunk u])"
    by (auto simp: chat_finish_def end_chunks_def Let_def split: if_splits option.splits)
  have "List.map_filter ended_block (end_chunks bs) = wire_content bs" for bs
  proof (induction bs)
    case (Cons b bs)
    then show ?case
      by (cases "partial_block (open_block.truncate b)") (auto simp: end_chunks_def wire_content_def List.map_filter_def)
  qed (simp add: end_chunks_def wire_content_def List.map_filter_def)
  then show "sa_closed (accumulate (cs @ ds)) = wire_content (ct_order T)"
    using us by (auto simp: accumulated_closed ds p(3) ended_single)
qed

end
