(* ===== verification/Compat.thy ===== *)
theory Compat
  imports Wire
begin

text \<open>
  Provider routes: the configuration of the compatibility adapter (\<open>plugins/llm-compat/src/compat.cpp\<close>,
  \<open>include/araya/util/plugin_config_json.hpp\<close>), the catalogue it answers, and the registry of adapters
  (\<open>plugins/llm/src/llm.cpp\<close>). Files are read through a parameter; doubles are bit patterns, and the conversion of
  an integer to a double is a parameter too. Durations are the 64-bit counts of the configuration.
\<close>

section \<open>Profiles\<close>

datatype compat_protocol = ChatCompletions | MessagesProtocol

datatype retry_mode = RetryNormal | RetryAlways

record retry_policy =
  rp_mode :: retry_mode
  rp_max_retries :: "32 word"
  rp_codes :: "string list"
  rp_initial :: "64 word"
  rp_max_delay :: "64 word"
  rp_jitter :: "64 word"

record compat_model =
  cm_id :: string
  cm_name :: string
  cm_context_window :: "64 word"
  cm_max_tokens :: "64 word"
  cm_temperature :: "64 word option"
  cm_effort :: "string option"
  cm_prompt_update :: "string option"
  cm_efforts :: "string list"
  cm_image :: bool
  cm_input_price :: "64 word option"
  cm_output_price :: "64 word option"
  cm_cache_read_price :: "64 word option"
  cm_cache_write_price :: "64 word option"

record compat_config =
  cc_provider :: string
  cc_protocol :: compat_protocol
  cc_base_url :: string
  cc_key_env :: string
  cc_default_model :: string
  cc_idle_timeout :: "64 word"
  cc_connect_timeout :: "64 word"
  cc_verify_peer :: bool
  cc_fallback_tokens :: "64 word"
  cc_thinking_budget :: "64 word"
  cc_retry :: "retry_policy option"
  cc_models :: "compat_model list"

text \<open>
  \<open>0.1\<close>, the prices of the table and the conversion of integers, as bit patterns; a parse error and an entry that
  is not an object, by the text of the library's exception.
\<close>

record config_env =
  cf_parse :: "string \<Rightarrow> string + json"
  cf_file :: "string \<Rightarrow> string option"
  cf_double :: "json \<Rightarrow> 64 word"
  cf_decimal :: "string \<Rightarrow> 64 word"
  cf_not_object :: string

definition default_policy :: "config_env \<Rightarrow> retry_policy" where
  "default_policy F = \<lparr>rp_mode = RetryNormal, rp_max_retries = 5, rp_codes = [], rp_initial = 500, rp_max_delay = 10000,
     rp_jitter = cf_decimal F ''0.1''\<rparr>"

definition default_config :: compat_config where
  "default_config = \<lparr>cc_provider = ''openai'', cc_protocol = ChatCompletions, cc_base_url = ''https://api.openai.com/v1'',
     cc_key_env = ''OPENAI_API_KEY'', cc_default_model = ''gpt-4o-mini'', cc_idle_timeout = 60000, cc_connect_timeout = 30000,
     cc_verify_peer = True, cc_fallback_tokens = 4096, cc_thinking_budget = 0, cc_retry = None, cc_models = []\<rparr>"

definition unnamed_model :: "string \<Rightarrow> string \<Rightarrow> compat_model" where
  "unnamed_model i n = \<lparr>cm_id = i, cm_name = n, cm_context_window = 0, cm_max_tokens = 0, cm_temperature = None, cm_effort = None,
     cm_prompt_update = None, cm_efforts = [], cm_image = False, cm_input_price = None, cm_output_price = None,
     cm_cache_read_price = None, cm_cache_write_price = None\<rparr>"

definition opt_double :: "config_env \<Rightarrow> json \<Rightarrow> 64 word option" where
  "opt_double F v = (case v of JDouble d \<Rightarrow> Some d | JInt n \<Rightarrow> Some (cf_double F v) | JUint n \<Rightarrow> Some (cf_double F v) | _ \<Rightarrow> None)"

definition opt_double_at :: "config_env \<Rightarrow> json_object \<Rightarrow> string \<Rightarrow> 64 word option" where
  "opt_double_at F m k = Option.bind (member m k) (opt_double F)"

text \<open>\<open>if (value) field = *value\<close>.\<close>

definition given :: "'a option \<Rightarrow> 'a \<Rightarrow> 'a" where
  "given v d = (case v of None \<Rightarrow> d | Some x \<Rightarrow> x)"

definition some_or :: "'a option \<Rightarrow> 'a option \<Rightarrow> 'a option" where
  "some_or v w = (case v of None \<Rightarrow> w | Some x \<Rightarrow> Some x)"

definition strings_of :: "json list \<Rightarrow> string list" where
  "strings_of vs = List.map_filter opt_string vs"

definition builtin_prices :: "(string \<times> string \<times> string \<times> string) list" where
  "builtin_prices = [(''deepseek-chat'', ''0.27'', ''1.10'', ''0.07''), (''deepseek-reasoner'', ''0.55'', ''2.19'', ''0.14'')]"

definition apply_builtin_prices :: "config_env \<Rightarrow> compat_model \<Rightarrow> compat_model" where
  "apply_builtin_prices F m =
     (case map_of builtin_prices (cm_id m) of
        None \<Rightarrow> m
      | Some (i, out, cached) \<Rightarrow> m\<lparr>cm_input_price := some_or (cm_input_price m) (Some (cf_decimal F i)),
          cm_output_price := some_or (cm_output_price m) (Some (cf_decimal F out)),
          cm_cache_read_price := some_or (cm_cache_read_price m) (Some (cf_decimal F cached))\<rparr>)"

definition parse_model :: "config_env \<Rightarrow> string \<Rightarrow> json \<Rightarrow> compat_model" where
  "parse_model F i entry =
     apply_builtin_prices F
      (case as_object entry of
         None \<Rightarrow> unnamed_model i i
       | Some m \<Rightarrow>
           \<lparr>cm_id = i, cm_name = given (opt_string_at m ''name'') i,
            cm_context_window = given (opt_uint_at m ''context_window'') 0, cm_max_tokens = given (opt_uint_at m ''max_tokens'') 0,
            cm_temperature = opt_double_at F m ''temperature'', cm_effort = opt_string_at m ''default_reasoning_effort'',
            cm_prompt_update = some_or (opt_string_at m ''systemPromptUpdate'') (opt_string_at m ''system_prompt_update''),
            cm_efforts = (case get_array m ''reasoning_efforts'' of None \<Rightarrow> [] | Some vs \<Rightarrow> strings_of vs),
            cm_image = given (opt_bool_at m ''supports_image'') False,
            cm_input_price = opt_double_at F m ''input_price'', cm_output_price = opt_double_at F m ''output_price'',
            cm_cache_read_price = opt_double_at F m ''cache_read_price'', cm_cache_write_price = opt_double_at F m ''cache_write_price''\<rparr>)"

definition parse_policy :: "config_env \<Rightarrow> json_object \<Rightarrow> string + retry_policy" where
  "parse_policy F p =
     and_sum (case opt_string_at p ''mode'' of
                None \<Rightarrow> Inr RetryNormal
              | Some s \<Rightarrow> if s = ''always'' then Inr RetryAlways else if s = ''normal'' then Inr RetryNormal
                  else Inl ''llm-compat: retryPolicy.mode must be \"normal\" or \"always\"'') (\<lambda>mode.
       let b = get_object p ''backoff''; at = (\<lambda>k. Option.bind b (\<lambda>m. opt_uint_at m k)); d = default_policy F
       in Inr \<lparr>rp_mode = mode, rp_max_retries = (case opt_uint_at p ''maxRetries'' of None \<Rightarrow> rp_max_retries d | Some n \<Rightarrow> ucast n),
            rp_codes = (case get_array p ''retryableCodes'' of None \<Rightarrow> [] | Some vs \<Rightarrow> strings_of vs),
            rp_initial = given (at ''initialDelayMs'') (rp_initial d), rp_max_delay = given (at ''maxDelayMs'') (rp_max_delay d),
            rp_jitter = given (Option.bind b (\<lambda>m. opt_double_at F m ''jitterRatio'')) (rp_jitter d)\<rparr>)"

definition parse_protocol :: "json_object \<Rightarrow> string + compat_protocol" where
  "parse_protocol m =
     (case opt_string_at m ''protocol'' of
        None \<Rightarrow> Inr ChatCompletions
      | Some s \<Rightarrow> if s = ''messages'' then Inr MessagesProtocol else if s = ''chat-completions'' then Inr ChatCompletions
          else Inl ''llm-compat: protocol must be \"chat-completions\" or \"messages\"'')"

definition parse_profile :: "config_env \<Rightarrow> json_object \<Rightarrow> string + compat_config" where
  "parse_profile F m =
     and_sum (parse_protocol m) (\<lambda>protocol.
     and_sum (case get_object m ''retryPolicy'' of None \<Rightarrow> Inr None | Some p \<Rightarrow> and_sum (parse_policy F p) (\<lambda>r. Inr (Some r))) (\<lambda>policy.
       let d = default_config
       in Inr \<lparr>cc_provider = given (opt_string_at m ''provider'') (cc_provider d), cc_protocol = protocol,
            cc_base_url = given (opt_string_at m ''base_url'') (cc_base_url d), cc_key_env = given (opt_string_at m ''api_key_env'') (cc_key_env d),
            cc_default_model = given (opt_string_at m ''default_model'') (cc_default_model d),
            cc_idle_timeout = given (opt_uint_at m ''idle_timeout_ms'') (cc_idle_timeout d),
            cc_connect_timeout = given (opt_uint_at m ''connect_timeout_ms'') (cc_connect_timeout d),
            cc_verify_peer = given (opt_bool_at m ''verify_peer'') (cc_verify_peer d),
            cc_fallback_tokens = given (opt_uint_at m ''fallback_max_tokens'') (cc_fallback_tokens d),
            cc_thinking_budget = given (opt_uint_at m ''thinking_budget_tokens'') (cc_thinking_budget d), cc_retry = policy,
            cc_models = (case get_object m ''models'' of None \<Rightarrow> [] | Some ms \<Rightarrow> map (\<lambda>(i, entry). parse_model F i entry) ms)\<rparr>))"

section \<open>Reading the configuration\<close>

definition read_config_text :: "config_env \<Rightarrow> (string, string) omap \<Rightarrow> string \<Rightarrow> string + string" where
  "read_config_text F c plugin =
     (case map_of c ''config_file'' of
        Some path \<Rightarrow> (case cf_file F path of None \<Rightarrow> Inl (plugin @ '': cannot open config_file '' @ quoted path) | Some t \<Rightarrow> Inr t)
      | None \<Rightarrow> Inr (given (map_of c ''config'') []))"

definition parse_config_json :: "config_env \<Rightarrow> string \<Rightarrow> string \<Rightarrow> string + json_object" where
  "parse_config_json F text plugin =
     (case cf_parse F text of
        Inl e \<Rightarrow> Inl (plugin @ '': malformed config JSON: '' @ e)
      | Inr v \<Rightarrow> (case as_object v of None \<Rightarrow> Inl (plugin @ '': config JSON must be an object'') | Some m \<Rightarrow> Inr m))"

definition load_config :: "config_env \<Rightarrow> (string, string) omap \<Rightarrow> string + compat_config" where
  "load_config F c =
     and_sum (read_config_text F c ''llm-compat'') (\<lambda>text.
       if text = [] then Inr default_config
       else and_sum (parse_config_json F text ''llm-compat'') (\<lambda>m.
         case get_object m ''providers'' of
           Some ((i, entry) # _) \<Rightarrow>
             (case as_object entry of
                None \<Rightarrow> Inl (cf_not_object F)
              | Some e \<Rightarrow> and_sum (parse_profile F e) (\<lambda>p. Inr (p\<lparr>cc_provider := i\<rparr>)))
         | _ \<Rightarrow> parse_profile F m))"

definition parse_route :: "config_env \<Rightarrow> string \<times> json \<Rightarrow> (string \<times> compat_config) list \<Rightarrow> string + (string \<times> compat_config) list" where
  "parse_route F entry routes =
     (case as_object (snd entry) of
        None \<Rightarrow> Inl (''llm-compat: providers.'' @ quoted (fst entry) @ '' must be an object'')
      | Some e \<Rightarrow> and_sum (parse_profile F e) (\<lambda>p. Inr (routes @ [(fst entry, p\<lparr>cc_provider := fst entry\<rparr>)])))"

definition load_routes :: "config_env \<Rightarrow> (string, string) omap \<Rightarrow> string + (string \<times> compat_config) list" where
  "load_routes F c =
     and_sum (read_config_text F c ''llm-compat'') (\<lambda>text.
       if text = [] then Inr [(''openai'', default_config)]
       else and_sum (parse_config_json F text ''llm-compat'') (\<lambda>m.
         case get_object m ''providers'' of
           Some entries \<Rightarrow> fold_sum (parse_route F) entries []
         | None \<Rightarrow> and_sum (parse_profile F m) (\<lambda>p. Inr [(cc_provider p, p)])))"

section \<open>The adapter's catalogue\<close>

type_synonym compat_adapter = "(string, compat_config) omap"

definition new_adapter :: "(string \<times> compat_config) list \<Rightarrow> compat_adapter" where
  "new_adapter routes = fold (\<lambda>(i, p) m. om_emplace i p m) routes []"

definition profile_for :: "compat_adapter \<Rightarrow> string \<Rightarrow> compat_config" where
  "profile_for A provider = (case map_of A provider of Some p \<Rightarrow> p | None \<Rightarrow> snd (hd A))"

record catalogue_entry = model_info +
  ce_provider :: string
  ce_model :: string
  ce_name :: string
  ce_efforts :: "string list"
  ce_image :: bool
  ce_input_price :: "64 word option"
  ce_output_price :: "64 word option"
  ce_cache_read_price :: "64 word option"
  ce_cache_write_price :: "64 word option"

definition to_model_info :: "compat_model \<Rightarrow> string \<Rightarrow> catalogue_entry" where
  "to_model_info m provider =
     \<lparr>mi_context_window = cm_context_window m, mi_default_max_tokens = cm_max_tokens m, mi_default_temperature = cm_temperature m,
      mi_default_effort = cm_effort m, mi_prompt_update = cm_prompt_update m, ce_provider = provider, ce_model = cm_id m,
      ce_name = cm_name m, ce_efforts = cm_efforts m, ce_image = cm_image m, ce_input_price = cm_input_price m,
      ce_output_price = cm_output_price m, ce_cache_read_price = cm_cache_read_price m, ce_cache_write_price = cm_cache_write_price m\<rparr>"

text \<open>\<open>llm_adapter::resolve_model\<close>, the answer without a catalogue.\<close>

definition bare_model_info :: "string \<Rightarrow> string \<Rightarrow> catalogue_entry" where
  "bare_model_info provider model = to_model_info (unnamed_model model model) provider"

definition adapter_models :: "compat_adapter \<Rightarrow> string \<Rightarrow> catalogue_entry list" where
  "adapter_models A provider = map (\<lambda>m. to_model_info m provider) (cc_models (profile_for A provider))"

definition adapter_resolve :: "compat_adapter \<Rightarrow> string \<Rightarrow> string \<Rightarrow> catalogue_entry" where
  "adapter_resolve A provider model =
     (let p = profile_for A provider; wanted = (if model = [] then cc_default_model p else model)
      in case List.find (\<lambda>m. cm_id m = wanted) (cc_models p) of
           Some m \<Rightarrow> to_model_info m provider
         | None \<Rightarrow> bare_model_info provider wanted)"

definition call_model :: "compat_config \<Rightarrow> string \<Rightarrow> compat_model" where
  "call_model p model = (case List.find (\<lambda>m. cm_id m = model) (cc_models p) of Some m \<Rightarrow> m | None \<Rightarrow> unnamed_model model [])"

section \<open>The registry of adapters\<close>

text \<open>Adapters are shared objects, named by a number.\<close>

type_synonym llm_routes = "(string, nat) omap"

definition register_adapter :: "string list \<Rightarrow> nat \<Rightarrow> llm_routes \<Rightarrow> llm_failure + llm_routes" where
  "register_adapter providers a R =
     (case List.find (\<lambda>p. map_of R p \<noteq> None) providers of
        Some p \<Rightarrow> Inl (plain_failure DuplicateAdapter (''an adapter for provider '' @ quoted p @ '' is already registered''))
      | None \<Rightarrow> Inr (fold (\<lambda>p. om_insert p a) providers R))"

definition unregister_adapter :: "string list \<Rightarrow> llm_routes \<Rightarrow> llm_routes" where
  "unregister_adapter providers R = fold om_erase providers R"

definition route_call :: "wire_options \<Rightarrow> llm_routes \<Rightarrow> call_error + nat" where
  "route_call opt R =
     (if gn_provider opt = [] then Inl (OtherThrown ''llm stream: empty provider'')
      else if gn_model opt = [] then Inl (OtherThrown ''llm stream: empty model'')
      else (case map_of R (gn_provider opt) of
              None \<Rightarrow> Inl (LlmThrown (plain_failure NoAdapter (''no adapter registered for provider '' @ quoted (gn_provider opt))))
            | Some a \<Rightarrow> Inr a))"

definition provider_names :: "llm_routes \<Rightarrow> string list" where
  "provider_names R = map fst R"

definition first_provider :: "llm_routes \<Rightarrow> string option" where
  "first_provider R = (case R of [] \<Rightarrow> None | (p, a) # _ \<Rightarrow> Some p)"

text \<open>What the service asks the adapter of a route.\<close>

definition adapter_describe :: "compat_adapter \<Rightarrow> string \<Rightarrow> string \<times> string" where
  "adapter_describe A provider = (provider, if cc_protocol (profile_for A provider) = MessagesProtocol then ''Messages'' else ''OpenAI'')"

definition adapter_retry_policy :: "compat_adapter \<Rightarrow> string \<Rightarrow> retry_policy option" where
  "adapter_retry_policy A provider = cc_retry (profile_for A provider)"

definition service_resolve :: "(nat \<Rightarrow> compat_adapter) \<Rightarrow> llm_routes \<Rightarrow> string \<Rightarrow> string \<Rightarrow> catalogue_entry option" where
  "service_resolve adapters R provider model = map_option (\<lambda>a. adapter_resolve (adapters a) provider model) (map_of R provider)"

definition service_models :: "(nat \<Rightarrow> compat_adapter) \<Rightarrow> llm_routes \<Rightarrow> string \<Rightarrow> catalogue_entry list" where
  "service_models adapters R provider = (case map_of R provider of None \<Rightarrow> [] | Some a \<Rightarrow> adapter_models (adapters a) provider)"

definition service_describe :: "(nat \<Rightarrow> compat_adapter) \<Rightarrow> llm_routes \<Rightarrow> string \<Rightarrow> string \<times> string" where
  "service_describe adapters R provider =
     (case map_of R provider of None \<Rightarrow> (provider, provider) | Some a \<Rightarrow> adapter_describe (adapters a) provider)"

definition service_retry_policy :: "(nat \<Rightarrow> compat_adapter) \<Rightarrow> llm_routes \<Rightarrow> string \<Rightarrow> retry_policy option" where
  "service_retry_policy adapters R provider = Option.bind (map_of R provider) (\<lambda>a. adapter_retry_policy (adapters a) provider)"

text \<open>Registering and taking back restores every route.\<close>

lemma fold_insert_routes: "map_of (fold (\<lambda>p. om_insert p a) ps R) q = (if q \<in> set ps then Some a else map_of R q)"
  by (induction ps arbitrary: R) (auto split: if_splits)

lemma fold_erase_routes: "map_of (fold om_erase ps R) q = (if q \<in> set ps then None else map_of R q)"
  by (induction ps arbitrary: R) (auto split: if_splits)

lemma register_adapter_facts:
  assumes "register_adapter ps a R = Inr R'"
  shows "map_of R' q = (if q \<in> set ps then Some a else map_of R q)" "map_of (unregister_adapter ps R') q = map_of R q"
proof -
  have none: "\<forall>p \<in> set ps. map_of R p = None" and R': "R' = fold (\<lambda>p. om_insert p a) ps R"
    using assms by (auto simp: register_adapter_def find_None_iff split: option.splits)
  show "map_of R' q = (if q \<in> set ps then Some a else map_of R q)" by (simp add: R' fold_insert_routes)
  show "map_of (unregister_adapter ps R') q = map_of R q"
    using none by (simp add: unregister_adapter_def R' fold_erase_routes fold_insert_routes)
qed

lemma load_routes_providers:
  assumes "load_routes F c = Inr routes" and "(i, p) \<in> set routes" shows "cc_provider p = i"
proof -
  have step: "\<forall>(i, p) \<in> set rs'. cc_provider p = i" if "parse_route F e rs = Inr rs'" "\<forall>(i, p) \<in> set rs. cc_provider p = i" for e rs rs'
    using that by (auto simp: parse_route_def success_iff split: option.splits)
  have "\<forall>(i, p) \<in> set routes. cc_provider p = i"
    using assms(1) by (auto simp: load_routes_def success_iff default_config_def split: if_splits option.splits
        dest!: fold_sum_invariant [where P = "\<lambda>rs. \<forall>(i, p) \<in> set rs. cc_provider p = i", OF _ _ step])
  with assms(2) show ?thesis by auto
qed

end
