(* ===== verification/MessagesWire.thy ===== *)
theory MessagesWire
  imports ChatWire Compat
begin

text \<open>
  The messages protocol (\<open>plugins/llm-compat/src/messages.cpp\<close>): the request with merged turns and system
  updates, the classification of an error response, and the translator of the event stream. As for the chat
  protocol, the state after an event that throws is not kept.
\<close>

section \<open>The request\<close>

definition replay_signature :: "llm_message \<Rightarrow> nat \<Rightarrow> string option" where
  "replay_signature m i =
     Option.bind (Option.bind (lm_replay_state m) as_object) (\<lambda>r.
       if member r ''format'' \<noteq> Some (JString ''messages'') then None
       else Option.bind (get_array r ''signatures'') (\<lambda>sigs. if i \<ge> length sigs then None else opt_string (sigs ! i)))"

definition tool_result_content :: "json \<Rightarrow> json" where
  "tool_result_content content =
     JObject [(''type'', JString ''text''),
       (''text'', JString (case content of JArray vs \<Rightarrow> concat (List.map_filter text_part vs) | JString s \<Rightarrow> s | _ \<Rightarrow> []))]"

definition invalid_call :: "string \<Rightarrow> call_error" where
  "invalid_call m = LlmThrown (plain_failure InvalidRequest m)"

definition assistant_block :: "wire_env \<Rightarrow> llm_message \<Rightarrow> nat \<times> content_block \<Rightarrow> json list \<Rightarrow> call_error + json list" where
  "assistant_block N m ib bs =
     (case snd ib of
        TextBlock t \<Rightarrow> Inr (bs @ [JObject [(''type'', JString ''text''), (''text'', JString t)]])
      | ReasoningBlock t \<Rightarrow>
          Inr (bs @ [JObject ([(''type'', JString ''thinking''), (''thinking'', JString t)] @
            (case replay_signature m (fst ib) of None \<Rightarrow> [] | Some s \<Rightarrow> [(''signature'', JString s)]))])
      | ToolCallBlock c \<Rightarrow>
          (case wr_parse N (tc_arguments c) of
             None \<Rightarrow> Inl (invalid_call ''Messages tool input is invalid JSON'')
           | Some (JObject input) \<Rightarrow>
               Inr (bs @ [JObject [(''type'', JString ''tool_use''), (''id'', JString (tc_id c)), (''name'', JString (tc_name c)),
                 (''input'', JObject input)]])
           | Some _ \<Rightarrow> Inl (invalid_call ''Messages tool input must be an object''))
      | _ \<Rightarrow> Inr bs)"

definition assistant_blocks :: "wire_env \<Rightarrow> llm_message \<Rightarrow> call_error + json list" where
  "assistant_blocks N m = fold_sum (assistant_block N m) (enumerate 0 (lm_content m)) []"

definition user_block :: "content_block \<Rightarrow> json option" where
  "user_block b =
     (case b of
        TextBlock t \<Rightarrow> (if t = [] then None else Some (JObject [(''type'', JString ''text''), (''text'', JString t)]))
      | ImageBlock i \<Rightarrow> Some (JObject [(''type'', JString ''image''), (''source'', JObject [(''type'', JString ''base64''),
            (''media_type'', JString (ib_media_type i)), (''data'', JString (ib_data i))])])
      | ToolResultBlock r \<Rightarrow> Some (JObject ([(''type'', JString ''tool_result''), (''tool_use_id'', JString (tr_tool_call_id r)),
            (''content'', JArray [tool_result_content (tr_content r)])] @
            (if tr_is_error r then [(''is_error'', JBool True)] else [])))
      | _ \<Rightarrow> None)"

definition user_blocks :: "llm_message \<Rightarrow> json list" where
  "user_blocks m = List.map_filter user_block (lm_content m)"

definition role_name :: "llm_role \<Rightarrow> string" where
  "role_name r = (case r of LlmAssistant \<Rightarrow> ''assistant'' | LlmUser \<Rightarrow> ''user'' | LlmSystem \<Rightarrow> ''system'')"

definition valid_effort :: "string \<Rightarrow> bool" where
  "valid_effort e \<longleftrightarrow> e = ''off'' \<or> e = ''low'' \<or> e = ''high'' \<or> e = ''max''"

text \<open>A message under construction is its role and its content blocks; a system update is one of role \<open>system\<close>.\<close>

type_synonym wire_message = "string \<times> json list"

record message_build =
  mb_messages :: "wire_message list"
  mb_history_system :: string
  mb_updates :: "wire_message list"

definition message_json :: "wire_message \<Rightarrow> json" where
  "message_json m = JObject [(''role'', JString (fst m)), (''content'', JArray (snd m))]"

definition flush_updates :: "message_build \<Rightarrow> call_error + message_build" where
  "flush_updates B =
     (if mb_updates B = [] then Inr B
      else if mb_messages B \<noteq> [] \<and> fst (last (mb_messages B)) = ''user''
      then Inr (B\<lparr>mb_messages := mb_messages B @ mb_updates B, mb_updates := []\<rparr>)
      else Inl (invalid_call ''Messages system update without a preceding user turn''))"

definition append_turn :: "string \<Rightarrow> json list \<Rightarrow> wire_message list \<Rightarrow> wire_message list" where
  "append_turn role content ms =
     (if ms \<noteq> [] \<and> fst (last ms) = role then butlast ms @ [(role, snd (last ms) @ content)] else ms @ [(role, content)])"

definition build_message :: "wire_env \<Rightarrow> bool \<Rightarrow> llm_message \<Rightarrow> message_build \<Rightarrow> call_error + message_build" where
  "build_message N in_history m B =
     (if lm_role m = LlmSystem
      then (if in_history \<and> mb_messages B \<noteq> []
            then (if join_text m = [] then Inl (invalid_call ''Messages in-history system update is empty'')
                  else Inr (B\<lparr>mb_updates := mb_updates B @
                    [(''system'', [JObject [(''type'', JString ''text''), (''text'', JString (join_text m))]])]\<rparr>))
            else Inr (B\<lparr>mb_history_system := join_text m\<rparr>))
      else
        and_sum (if lm_role m = LlmAssistant then flush_updates B else Inr B) (\<lambda>B.
        and_sum (if lm_role m = LlmAssistant then assistant_blocks N m else Inr (user_blocks m)) (\<lambda>content.
          Inr (B\<lparr>mb_messages := append_turn (role_name (lm_role m)) content (mb_messages B)\<rparr>))))"

definition build_messages :: "wire_env \<Rightarrow> bool \<Rightarrow> llm_message list \<Rightarrow> call_error + message_build" where
  "build_messages N in_history ms =
     and_sum (fold_sum (build_message N in_history) ms \<lparr>mb_messages = [], mb_history_system = [], mb_updates = []\<rparr>) flush_updates"

definition call_effort :: "wire_options \<Rightarrow> compat_model \<Rightarrow> call_error + string" where
  "call_effort opt model =
     (let wanted = gn_effort opt; e = (if wanted = [] then given (cm_effort model) ''high'' else wanted)
      in if \<not> valid_effort e then Inl (invalid_call (''Messages does not support reasoning effort '' @ e)) else Inr e)"

definition thinking_members :: "compat_config \<Rightarrow> string \<Rightarrow> json_object" where
  "thinking_members config effort =
     (let on = JString (if effort = ''off'' then ''disabled'' else ''enabled'')
      in if cc_thinking_budget config > 0
         then [(''thinking'', JObject ([(''type'', on)] @ (if effort \<noteq> ''off'' then [(''budget_tokens'', JUint (cc_thinking_budget config))] else [])))]
         else [(''thinking'', JObject [(''type'', on)])] @
              (if effort \<noteq> ''off'' then [(''output_config'', JObject [(''effort'', JString effort)])] else []))"

definition build_messages_request :: "wire_env \<Rightarrow> wire_options \<Rightarrow> compat_config \<Rightarrow> compat_model \<Rightarrow> call_error + json" where
  "build_messages_request N opt config model =
     and_sum (build_messages N (cm_prompt_update model = Some ''in-history'') (gn_messages opt)) (\<lambda>B.
     and_sum (call_effort opt model) (\<lambda>effort.
       let max_tokens = given (gn_max_tokens opt) (if cm_max_tokens model \<noteq> 0 then cm_max_tokens model else cc_fallback_tokens config);
           system = (if mb_history_system B = [] then wo_system opt
                     else (if wo_system opt = [] then [] else wo_system opt @ [newline, newline]) @ mb_history_system B)
       in Inr (JObject
            ([(''model'', JString (gn_model opt)), (''stream'', JBool True), (''max_tokens'', JUint max_tokens),
              (''messages'', JArray (map message_json (mb_messages B)))] @
             (if system = [] then [] else [(''system'', JString system)]) @
             thinking_members config effort @
             (case gn_temperature opt of None \<Rightarrow> [] | Some d \<Rightarrow> [(''temperature'', JDouble d)]) @
             (if wo_stop opt = [] then [] else [(''stop_sequences'', JArray (map JString (wo_stop opt)))]) @
             (if gn_tools opt = [] then []
              else [(''tools'', JArray (map (\<lambda>t. JObject [(''name'', JString (pt_name t)), (''description'', JString (pt_description t)),
                      (''input_schema'', pt_parameters t)]) (gn_tools opt)))])))))"

section \<open>Error responses\<close>

definition messages_error_code :: "nat \<Rightarrow> string \<Rightarrow> string \<Rightarrow> llm_error_code" where
  "messages_error_code status ty message =
     (let detail = ty @ '' '' @ message
      in if status = 401 \<or> status = 403 \<or> ty = ''authentication_error'' \<or> ty = ''permission_error'' then Auth
         else if status = 402 \<or> contains detail ''quota'' then Quota
         else if status = 429 \<or> ty = ''rate_limit_error'' then RateLimit
         else if contains detail ''context'' \<and> (contains detail ''exceed'' \<or> contains detail ''length'' \<or> contains detail ''window'')
         then ContextWindowExceeded
         else if status = 400 \<or> status = 413 \<or> ty = ''invalid_request_error'' then InvalidRequest
         else if status \<ge> 500 \<or> ty = ''api_error'' \<or> ty = ''overloaded_error'' then Server
         else InvalidRequest)"

definition messages_failure_for :: "wire_env \<Rightarrow> nat \<Rightarrow> string \<Rightarrow> int option \<Rightarrow> string \<Rightarrow> llm_failure" where
  "messages_failure_for N status body retry_after request_id =
     (let m = given (error_object N body) []; ty = get_string_at m ''type''; message = get_string_at m ''message''
      in response_failure (messages_error_code status ty message) status message ty retry_after request_id)"

section \<open>The translator\<close>

record event_block = open_block +
  eb_index :: nat
  eb_json :: string
  eb_signature :: string
  eb_closed :: bool

record messages_translator =
  mt_model :: string
  mt_order :: "event_block list"
  mt_wire :: "(64 word, nat) omap"
  mt_usage :: token_usage
  mt_finish :: "finish_reason option"
  mt_failure :: "llm_failure option"
  mt_started :: bool
  mt_done :: bool

definition new_messages :: "string \<Rightarrow> messages_translator" where
  "new_messages model = \<lparr>mt_model = model, mt_order = [], mt_wire = [], mt_usage = no_usage, mt_finish = None, mt_failure = None,
     mt_started = False, mt_done = False\<rparr>"

type_synonym messages_run = "stream_chunk list \<times> messages_translator"

definition bad_event :: "string \<Rightarrow> call_error" where
  "bad_event m = LlmThrown (plain_failure MalformedResponse (''Messages stream: '' @ m))"

definition started_block :: "wire_env \<Rightarrow> json_object \<Rightarrow> nat \<Rightarrow> event_block option" where
  "started_block N m i =
     (let ty = get_string_at m ''type'';
          b = \<lparr>ob_kind = TextType, ob_text = [], ob_call_id = [], ob_name = [], eb_index = i, eb_json = [], eb_signature = [], eb_closed = False\<rparr>
      in if ty = ''text'' then Some (b\<lparr>ob_text := get_string_at m ''text''\<rparr>)
         else if ty = ''thinking''
         then Some (b\<lparr>ob_kind := ReasoningType, ob_text := get_string_at m ''thinking'', eb_signature := get_string_at m ''signature''\<rparr>)
         else if ty = ''tool_use''
         then Some (b\<lparr>ob_kind := ToolCallType, ob_call_id := get_string_at m ''id'', ob_name := get_string_at m ''name'',
                ob_text := (case get_object m ''input'' of None \<Rightarrow> [] | Some input \<Rightarrow> wr_serialize N (JObject input))\<rparr>)
         else None)"

definition start_chunks :: "event_block \<Rightarrow> stream_chunk list" where
  "start_chunks b =
     BlockStart (eb_index b) (ob_kind b) #
     (case ob_kind b of
        TextType \<Rightarrow> (if ob_text b = [] then [] else [TextDelta (eb_index b) (ob_text b)])
      | ReasoningType \<Rightarrow> (if ob_text b = [] then [] else [ReasoningDelta (eb_index b) (ob_text b)])
      | ToolCallType \<Rightarrow> [ToolCallDelta (eb_index b) (ob_call_id b) (ob_name b) []]
      | ToolResultType \<Rightarrow> [])"

definition start_block :: "wire_env \<Rightarrow> json \<Rightarrow> messages_translator \<Rightarrow> call_error + messages_run" where
  "start_block N content T =
     (case as_object content of
        None \<Rightarrow> Inl (bad_event ''content_block_start is not an object'')
      | Some m \<Rightarrow>
          (case started_block N m (length (mt_order T)) of
             None \<Rightarrow> Inl (bad_event (''unsupported content block '' @ get_string_at m ''type''))
           | Some b \<Rightarrow> Inr (start_chunks b, T\<lparr>mt_order := mt_order T @ [b]\<rparr>)))"

definition block_delta :: "json \<Rightarrow> event_block \<Rightarrow> call_error + (stream_chunk list \<times> event_block)" where
  "block_delta v b =
     (case as_object v of
        None \<Rightarrow> Inl (bad_event ''content_block_delta is not an object'')
      | Some m \<Rightarrow>
          let ty = get_string_at m ''type''; i = eb_index b
          in if ty = ''text_delta'' \<and> ob_kind b = TextType
             then (let t = get_string_at m ''text'' in Inr ([TextDelta i t], b\<lparr>ob_text := ob_text b @ t\<rparr>))
             else if ty = ''thinking_delta'' \<and> ob_kind b = ReasoningType
             then (let t = get_string_at m ''thinking'' in Inr ([ReasoningDelta i t], b\<lparr>ob_text := ob_text b @ t\<rparr>))
             else if ty = ''signature_delta'' \<and> ob_kind b = ReasoningType
             then Inr ([], b\<lparr>eb_signature := eb_signature b @ get_string_at m ''signature''\<rparr>)
             else if ty = ''input_json_delta'' \<and> ob_kind b = ToolCallType
             then (let t = get_string_at m ''partial_json''
                   in Inr ([ToolCallDelta i (ob_call_id b) (ob_name b) t], b\<lparr>eb_json := eb_json b @ t\<rparr>))
             else Inl (bad_event (''unsupported delta '' @ ty)))"

definition stopped_content :: "event_block \<Rightarrow> content_block option" where
  "stopped_content b =
     (case ob_kind b of
        TextType \<Rightarrow> Some (TextBlock (ob_text b))
      | ReasoningType \<Rightarrow> Some (ReasoningBlock (ob_text b))
      | ToolCallType \<Rightarrow> Some (ToolCallBlock \<lparr>tc_id = ob_call_id b, tc_name = ob_name b,
          tc_arguments = (if eb_json b = [] then ob_text b else eb_json b)\<rparr>)
      | ToolResultType \<Rightarrow> None)"

definition replay_state :: "messages_translator \<Rightarrow> json" where
  "replay_state T = JObject [(''format'', JString ''messages''), (''model'', JString (mt_model T)),
     (''signatures'', JArray (map (\<lambda>b. if ob_kind b = ReasoningType then JString (eb_signature b) else JNull) (mt_order T)))]"

definition event_index :: "json_object \<Rightarrow> call_error + 64 word option" where
  "event_index m =
     (case member m ''index'' of
        None \<Rightarrow> Inr None
      | Some (JInt n) \<Rightarrow> (if sint n \<ge> 0 then Inr (Some n) else Inl (bad_event ''invalid block index''))
      | Some _ \<Rightarrow> Inl (bad_event ''invalid block index''))"

definition message_start :: "json_object \<Rightarrow> messages_translator \<Rightarrow> call_error + messages_run" where
  "message_start m T =
     (if mt_started T then Inl (bad_event ''duplicate message_start'')
      else
        let usage = Option.bind (get_object m ''message'') (\<lambda>x. get_object x ''usage'');
            U = (case usage of None \<Rightarrow> mt_usage T
               | Some u \<Rightarrow> (mt_usage T)\<lparr>tu_input := get_uint_at u ''input_tokens'', tu_output := get_uint_at u ''output_tokens'',
                   tu_cache_read := opt_uint_at u ''cache_read_input_tokens'', tu_cache_write := opt_uint_at u ''cache_creation_input_tokens''\<rparr>)
        in Inr ([], T\<lparr>mt_usage := U, mt_started := True\<rparr>))"

definition content_start :: "wire_env \<Rightarrow> json_object \<Rightarrow> messages_translator \<Rightarrow> call_error + messages_run" where
  "content_start N m T =
     (if \<not> mt_started T then Inl (bad_event ''event precedes message_start'')
      else and_sum (event_index m) (\<lambda>index.
        case index of
          None \<Rightarrow> Inl (bad_event ''invalid block index'')
        | Some i \<Rightarrow>
            if map_of (mt_wire T) i \<noteq> None \<or> mt_finish T \<noteq> None
            then Inl (bad_event ''block start repeats an index or follows settlement'')
            else (case member m ''content_block'' of
                    None \<Rightarrow> Inl (bad_event ''content_block_start has no content_block'')
                  | Some content \<Rightarrow> start_block N content (T\<lparr>mt_wire := om_insert i (length (mt_order T)) (mt_wire T)\<rparr>))))"

definition block_at :: "string \<Rightarrow> json_object \<Rightarrow> messages_translator \<Rightarrow> call_error + nat" where
  "block_at event m T =
     and_sum (event_index m) (\<lambda>index.
       case map_of (mt_wire T) (given index 0) of
         None \<Rightarrow> Inl (bad_event (event @ '' without an open block''))
       | Some p \<Rightarrow> if eb_closed (mt_order T ! p) then Inl (bad_event (event @ '' on a closed block'')) else Inr p)"

definition content_delta :: "json_object \<Rightarrow> messages_translator \<Rightarrow> call_error + messages_run" where
  "content_delta m T =
     and_sum (block_at ''delta'' m T) (\<lambda>p.
       case member m ''delta'' of
         None \<Rightarrow> Inl (bad_event ''content_block_delta has no delta'')
       | Some v \<Rightarrow> and_sum (block_delta v (mt_order T ! p)) (\<lambda>(cs, b). Inr (cs, T\<lparr>mt_order := (mt_order T)[p := b]\<rparr>)))"

definition content_stop :: "json_object \<Rightarrow> messages_translator \<Rightarrow> call_error + messages_run" where
  "content_stop m T =
     and_sum (block_at ''stop'' m T) (\<lambda>p.
       let b = (mt_order T ! p)\<lparr>eb_closed := True\<rparr>
       in Inr (case stopped_content b of None \<Rightarrow> [] | Some c \<Rightarrow> [BlockEnd (eb_index b) c], T\<lparr>mt_order := (mt_order T)[p := b]\<rparr>))"

definition stop_reason :: "string \<Rightarrow> messages_translator \<Rightarrow> messages_translator" where
  "stop_reason reason T =
     (if reason = [] then T
      else if reason = ''end_turn'' \<or> reason = ''stop_sequence'' then T\<lparr>mt_finish := Some FinishStop\<rparr>
      else if reason = ''tool_use'' then T\<lparr>mt_finish := Some FinishToolCalls\<rparr>
      else if reason = ''max_tokens'' then T\<lparr>mt_finish := Some FinishMaxTokens\<rparr>
      else T\<lparr>mt_finish := Some FinishError,
             mt_failure := Some ((plain_failure MalformedResponse (''model stopped: '' @ reason))\<lparr>lf_provider_code := reason\<rparr>)\<rparr>)"

definition count_tokens :: "json_object \<Rightarrow> token_usage \<Rightarrow> token_usage" where
  "count_tokens u U =
     (let U = (case member u ''output_tokens'' of None \<Rightarrow> U | Some JNull \<Rightarrow> U | Some v \<Rightarrow> U\<lparr>tu_output := get_uint v\<rparr>)
      in case member u ''input_tokens'' of None \<Rightarrow> U | Some JNull \<Rightarrow> U | Some v \<Rightarrow> U\<lparr>tu_input := get_uint v\<rparr>)"

definition message_delta :: "json_object \<Rightarrow> messages_translator \<Rightarrow> messages_run" where
  "message_delta m T =
     (let T = (case get_object m ''delta'' of None \<Rightarrow> T | Some d \<Rightarrow> stop_reason (get_string_at d ''stop_reason'') T)
      in ([], case get_object m ''usage'' of None \<Rightarrow> T | Some u \<Rightarrow> T\<lparr>mt_usage := count_tokens u (mt_usage T)\<rparr>))"

definition message_stop :: "messages_translator \<Rightarrow> call_error + messages_run" where
  "message_stop T =
     (case mt_finish T of
        None \<Rightarrow> Inl (bad_event ''message_stop before settled blocks and a stop reason'')
      | Some reason \<Rightarrow>
          if \<not> list_all eb_closed (mt_order T) then Inl (bad_event ''message_stop before settled blocks and a stop reason'')
          else if mt_order T = [] \<and> reason = FinishStop
          then Inr ([Finish (finish_from (plain_failure EmptyResponse ''model returned a completed response with no content''))],
                    T\<lparr>mt_done := True\<rparr>)
          else
            let U = mt_usage T;
                U' = U\<lparr>tu_total := Some (tu_input U + tu_output U + given (tu_cache_read U) 0 + given (tu_cache_write U) 0)\<rparr>
            in Inr ([UsageChunk U', Finish \<lparr>fc_why = reason, fc_failure = mt_failure T, fc_replay = Some (replay_state T)\<rparr>],
                    T\<lparr>mt_usage := U', mt_done := True\<rparr>))"

definition messages_feed :: "wire_env \<Rightarrow> json \<Rightarrow> messages_translator \<Rightarrow> call_error + messages_run" where
  "messages_feed N event T =
     (if mt_done T then Inl (bad_event ''event after message_stop'')
      else
        (case as_object event of
           None \<Rightarrow> Inl (bad_event ''event is not an object'')
         | Some m \<Rightarrow>
             let ty = get_string_at m ''type''
             in if ty = ''message_start'' then message_start m T
                else if ty = ''content_block_start'' then content_start N m T
                else and_sum (event_index m) (\<lambda>_.
                  if ty = ''content_block_delta'' then content_delta m T
                  else if ty = ''content_block_stop'' then content_stop m T
                  else if ty = ''message_delta'' then Inr (message_delta m T)
                  else if ty = ''message_stop'' then message_stop T
                  else Inr ([], T))))"

end
