(* ===== verification/MessagesLaws.thy ===== *)
theory MessagesLaws
  imports MessagesWire StreamLaws
begin

text \<open>
  The messages translator keeps the contract of a stream, and the request it builds alternates between the
  roles.
\<close>

section \<open>The translator\<close>

text \<open>What a consumer has of a block: the arguments of a tool call are only what was streamed.\<close>

definition seen_of :: "event_block \<Rightarrow> open_block" where
  "seen_of b = \<lparr>ob_kind = ob_kind b, ob_text = (if ob_kind b = ToolCallType then eb_json b else ob_text b),
     ob_call_id = ob_call_id b, ob_name = ob_name b\<rparr>"

definition open_positions :: "event_block list \<Rightarrow> nat set" where
  "open_positions bs = {p. p < length bs \<longrightarrow> \<not> eb_closed (bs ! p)}"

definition messages_tracks :: "messages_translator \<Rightarrow> stream_view \<Rightarrow> bool" where
  "messages_tracks T v \<longleftrightarrow> sees (map seen_of (mt_order T)) (open_positions (mt_order T)) v \<and> \<not> sv_usage v \<and> \<not> mt_done T \<and>
     (\<forall>p < length (mt_order T). eb_index (mt_order T ! p) = p) \<and>
     (\<forall>i p. map_of (mt_wire T) i = Some p \<longrightarrow> p < length (mt_order T)) \<and>
     (\<forall>b \<in> set (mt_order T). ob_kind b \<noteq> ToolResultType)"

definition messages_keeps :: "stream_view \<Rightarrow> messages_run \<Rightarrow> bool" where
  "messages_keeps v r \<longleftrightarrow> keeps_contract (fst r) v \<and>
     (if mt_done (snd r) then sv_finished (see_all (fst r) v) \<and> sv_open (see_all (fst r) v) = []
      else messages_tracks (snd r) (see_all (fst r) v))"

lemma tracks_new: "messages_tracks (new_messages m) new_view"
  by (simp add: messages_tracks_def new_messages_def sees_new) (simp add: new_view_def)

lemma see_delta_rest:
  "sv_used (see_chunk (TextDelta i t) v) = sv_used v" "sv_finished (see_chunk (TextDelta i t) v) = sv_finished v" "sv_usage (see_chunk (TextDelta i t) v) = sv_usage v"
  "sv_used (see_chunk (ReasoningDelta i t) v) = sv_used v" "sv_finished (see_chunk (ReasoningDelta i t) v) = sv_finished v" "sv_usage (see_chunk (ReasoningDelta i t) v) = sv_usage v"
  "sv_used (see_chunk (ToolCallDelta i c n t) v) = sv_used v" "sv_finished (see_chunk (ToolCallDelta i c n t) v) = sv_finished v"
  "sv_usage (see_chunk (ToolCallDelta i c n t) v) = sv_usage v"
  by simp_all

text \<open>A delta chunk into an open block of its kind: it is allowed, and the consumer has the block extended.\<close>

fun delta_effect :: "stream_chunk \<Rightarrow> (content_block_type \<times> nat \<times> (open_block \<Rightarrow> open_block)) option" where
  "delta_effect (TextDelta i t) = Some (TextType, i, \<lambda>b. b\<lparr>ob_text := ob_text b @ t\<rparr>)"
| "delta_effect (ReasoningDelta i t) = Some (ReasoningType, i, \<lambda>b. b\<lparr>ob_text := ob_text b @ t\<rparr>)"
| "delta_effect (ToolCallDelta i c n args) = Some (ToolCallType, i, \<lambda>b. b\<lparr>ob_kind := ToolCallType,
     ob_call_id := (if c \<noteq> [] then c else ob_call_id b), ob_name := (if n \<noteq> [] then n else ob_name b), ob_text := ob_text b @ args\<rparr>)"
| "delta_effect c = None"

lemma delta_seen:
  assumes "delta_effect c = Some (k, p, g)" and "sees os A v" and "p < length os" and "p \<in> A" and "ob_kind (os ! p) = k"
  shows "allowed c v" "sees (os[p := g (os ! p)]) A (see_chunk c v)" "sv_usage (see_chunk c v) = sv_usage v"
proof -
  have "kind_open p k v" using assms sees_open by blast
  with assms(1) show "allowed c v" by (cases c) auto
  have "sv_open (see_chunk c v) = om_modify p g (om_emplace p (fresh_block TextType) (sv_open v))"
    "sv_used (see_chunk c v) = sv_used v" "sv_finished (see_chunk c v) = sv_finished v"
    using assms(1) by (cases c; simp)+
  from sees_delta [OF assms(2-4) this] show "sees (os[p := g (os ! p)]) A (see_chunk c v)" .
  show "sv_usage (see_chunk c v) = sv_usage v" using assms(1) by (cases c) simp_all
qed

lemma open_positions_snoc: "\<not> eb_closed b \<Longrightarrow> open_positions (bs @ [b]) = open_positions bs"
  by (auto simp: open_positions_def nth_append less_Suc_eq)

lemma open_positions_update:
  "p < length bs \<Longrightarrow> eb_closed b = eb_closed (bs ! p) \<Longrightarrow> open_positions (bs[p := b]) = open_positions bs"
  "p < length bs \<Longrightarrow> eb_closed b \<Longrightarrow> open_positions (bs[p := b]) = open_positions bs - {p}"
  by (auto simp: open_positions_def nth_list_update)

lemma seen_update: "(map seen_of bs)[p := seen_of b] = map seen_of (bs[p := b])"
  by (simp add: map_update)

text \<open>The chunks of a new block.\<close>

lemma start_seen:
  assumes "sees os A v" and "length os \<in> A" and "eb_index b = length os" and "eb_json b = []" and "ob_kind b \<noteq> ToolResultType"
    and "ob_kind b \<noteq> ToolCallType \<Longrightarrow> ob_call_id b = [] \<and> ob_name b = []"
  shows "keeps_contract (start_chunks b) v \<and> sees (os @ [seen_of b]) A (see_all (start_chunks b) v) \<and>
    sv_usage (see_all (start_chunks b) v) = sv_usage v"
proof -
  let ?n = "length os" and ?k = "ob_kind b"
  let ?v = "see_chunk (BlockStart ?n ?k) v"
  have nf: "\<not> sv_finished v" using assms(1) by (simp add: sees_def)
  note s = sees_start [OF assms(1,2), of ?k]
  have one: "sv_usage ?v = sv_usage v" "\<not> sv_finished ?v" using nf by simp_all
  obtain ds where ds: "start_chunks b = BlockStart ?n ?k # ds"
    and eff: "ds = [] \<and> seen_of b = fresh_block ?k \<or> (\<exists>c g. ds = [c] \<and> delta_effect c = Some (?k, ?n, g) \<and> seen_of b = g (fresh_block ?k))"
    using assms(3-6) by (cases "ob_kind b"; cases "ob_text b = []") (auto simp: start_chunks_def seen_of_def fresh_block_def)
  from eff show ?thesis
  proof (elim disjE exE conjE)
    assume "ds = []" "seen_of b = fresh_block ?k"
    with s nf one show ?thesis by (simp add: ds del: see_chunk_simps)
  next
    fix c g assume c: "ds = [c]" "delta_effect c = Some (?k, ?n, g)" "seen_of b = g (fresh_block ?k)"
    from delta_seen [OF c(2) s(2)] assms(2) have
      "allowed c ?v" "sees ((os @ [fresh_block ?k])[?n := g (fresh_block ?k)]) A (see_chunk c ?v)" "sv_usage (see_chunk c ?v) = sv_usage ?v"
      by (simp_all add: fresh_block_def)
    with s nf one c show ?thesis by (simp add: ds del: see_chunk_simps)
  qed
qed

lemma started_facts:
  "started_block N m i = Some b \<Longrightarrow> eb_index b = i \<and> eb_json b = [] \<and> \<not> eb_closed b \<and> ob_kind b \<noteq> ToolResultType \<and>
     (ob_kind b \<noteq> ToolCallType \<longrightarrow> ob_call_id b = [] \<and> ob_name b = [])"
  by (auto simp: started_block_def Let_def split: if_splits)

lemma start_keeps:
  assumes "start_block N content T = Inr (cs, T')" and "messages_tracks T v"
  shows "keeps_contract cs v \<and> messages_tracks T' (see_all cs v) \<and> length (mt_order T') = Suc (length (mt_order T))"
proof -
  from assms(1) obtain m b where b: "started_block N m (length (mt_order T)) = Some b" and cs: "cs = start_chunks b"
    and T': "T' = T\<lparr>mt_order := mt_order T @ [b]\<rparr>"
    by (auto simp: start_block_def split: option.splits)
  note f = started_facts [OF b]
  have "length (map seen_of (mt_order T)) \<in> open_positions (mt_order T)" by (simp add: open_positions_def)
  with assms(2) f start_seen [of "map seen_of (mt_order T)" "open_positions (mt_order T)" v b]
  have "keeps_contract cs v \<and> sees (map seen_of (mt_order T) @ [seen_of b]) (open_positions (mt_order T)) (see_all cs v) \<and>
      sv_usage (see_all cs v) = sv_usage v"
    by (simp add: messages_tracks_def cs)
  with assms(2) f show ?thesis
    by (auto simp: messages_tracks_def T' open_positions_snoc nth_append less_Suc_eq)
qed

text \<open>An open block that is found under an index of the wire.\<close>

lemma block_found:
  "block_at e m T = Inr p \<Longrightarrow> messages_tracks T v \<Longrightarrow>
     p < length (mt_order T) \<and> \<not> eb_closed (mt_order T ! p) \<and> p \<in> open_positions (mt_order T) \<and>
     eb_index (mt_order T ! p) = p \<and> ob_kind (mt_order T ! p) \<noteq> ToolResultType"
  by (auto simp: block_at_def success_iff messages_tracks_def open_positions_def split: option.splits if_splits)

lemma block_delta_seen:
  assumes "block_delta d b = Inr (cs, b')" and "ob_kind b \<noteq> ToolResultType"
  shows "cs = [] \<and> seen_of b' = seen_of b \<or> (\<exists>c g. cs = [c] \<and> delta_effect c = Some (ob_kind b, eb_index b, g) \<and> seen_of b' = g (seen_of b))"
    and "eb_closed b' = eb_closed b \<and> eb_index b' = eb_index b \<and> ob_kind b' = ob_kind b"
  using assms by (auto simp: block_delta_def Let_def seen_of_def split: option.splits if_splits)

lemma delta_keeps_messages:
  assumes "content_delta m T = Inr (cs, T')" and "messages_tracks T v"
  shows "keeps_contract cs v \<and> messages_tracks T' (see_all cs v)"
proof -
  from assms(1) obtain p d b where p: "block_at ''delta'' m T = Inr p" and b: "block_delta d (mt_order T ! p) = Inr (cs, b)"
    and T': "T' = T\<lparr>mt_order := (mt_order T)[p := b]\<rparr>"
    by (auto simp: content_delta_def success_iff split: option.splits)
  note f = block_found [OF p assms(2)]
  let ?b = "mt_order T ! p" and ?os = "map seen_of (mt_order T)" and ?A = "open_positions (mt_order T)"
  have same: "eb_closed b = eb_closed ?b" "eb_index b = p" "ob_kind b = ob_kind ?b"
    and eff: "cs = [] \<and> seen_of b = seen_of ?b \<or> (\<exists>c g. cs = [c] \<and> delta_effect c = Some (ob_kind ?b, p, g) \<and> seen_of b = g (seen_of ?b))"
    using block_delta_seen [OF b] f by auto
  have s: "sees ?os ?A v" and nf: "\<not> sv_finished v" using assms(2) by (simp_all add: messages_tracks_def sees_def)
  have at: "?os ! p = seen_of ?b" "p < length ?os" using f by simp_all
  from eff have "keeps_contract cs v \<and> sees (?os[p := seen_of b]) ?A (see_all cs v) \<and> sv_usage (see_all cs v) = sv_usage v"
  proof (elim disjE exE conjE)
    assume "cs = []" "seen_of b = seen_of ?b"
    with s at show ?thesis by (metis keeps_contract.simps(1) list_update_id see_all_append(2))
  next
    fix c g assume c: "cs = [c]" "delta_effect c = Some (ob_kind ?b, p, g)" "seen_of b = g (seen_of ?b)"
    have "ob_kind (?os ! p) = ob_kind ?b" unfolding at by (simp add: seen_of_def)
    from delta_seen [OF c(2) s at(2) _ this] f c nf show ?thesis by (simp add: at(1) del: see_chunk_simps)
  qed
  moreover have "x \<in> set ((mt_order T)[p := b]) \<Longrightarrow> ob_kind x \<noteq> ToolResultType" for x
    using set_update_subset_insert [of "mt_order T" p b] assms(2) f same(3) by (auto simp: messages_tracks_def)
  ultimately show ?thesis
    using assms(2) f same by (auto simp: messages_tracks_def T' seen_update open_positions_update(1) nth_list_update)
qed

lemma stop_keeps:
  assumes "content_stop m T = Inr (cs, T')" and "messages_tracks T v"
  shows "keeps_contract cs v \<and> messages_tracks T' (see_all cs v)"
proof -
  from assms(1) obtain p where p: "block_at ''stop'' m T = Inr p"
    and cs: "cs = (case stopped_content ((mt_order T ! p)\<lparr>eb_closed := True\<rparr>) of None \<Rightarrow> [] | Some c \<Rightarrow> [BlockEnd (eb_index (mt_order T ! p)) c])"
    and T': "T' = T\<lparr>mt_order := (mt_order T)[p := (mt_order T ! p)\<lparr>eb_closed := True\<rparr>]\<rparr>"
    by (auto simp: content_stop_def success_iff Let_def split: option.splits)
  let ?b = "mt_order T ! p" and ?os = "map seen_of (mt_order T)" and ?A = "open_positions (mt_order T)"
  note f = block_found [OF p assms(2)]
  have s: "sees ?os ?A v" and nf: "\<not> sv_finished v" using assms(2) by (simp_all add: messages_tracks_def sees_def)
  obtain c where c: "stopped_content (?b\<lparr>eb_closed := True\<rparr>) = Some c" and k: "carries (seen_of ?b) c"
    using f by (cases "ob_kind ?b") (auto simp: stopped_content_def carries_def seen_of_def partial_block_def)
  have at: "?os ! p = seen_of ?b" "p < length ?os" using f by simp_all
  have e: "allowed (BlockEnd p c) v" "sees ?os (?A - {p}) (see_chunk (BlockEnd p c) v)"
    using sees_end [OF s at(2)] f k at(1) by auto
  let ?b' = "?b\<lparr>eb_closed := True\<rparr>"
  have "seen_of ?b' = seen_of ?b" by (simp add: seen_of_def)
  then have "?os[p := seen_of ?b'] = ?os" using at(1) list_update_id [of ?os p] by simp
  then have "?os = map seen_of ((mt_order T)[p := ?b'])" by (simp only: seen_update)
  moreover have "x \<in> set ((mt_order T)[p := ?b']) \<Longrightarrow> ob_kind x \<noteq> ToolResultType" for x
    using set_update_subset_insert [of "mt_order T" p ?b'] assms(2) f by (auto simp: messages_tracks_def)
  ultimately show ?thesis
    using assms(2) f e nf c by (auto simp: messages_tracks_def T' cs open_positions_update(2) nth_list_update)
qed

lemma message_stop_keeps:
  assumes "message_stop T = Inr (cs, T')" and "messages_tracks T v"
  shows "keeps_contract cs v \<and> mt_done T' \<and> sv_finished (see_all cs v) \<and> sv_open (see_all cs v) = []"
proof -
  have s: "sees (map seen_of (mt_order T)) (open_positions (mt_order T)) v" and u: "\<not> sv_usage v" and nf: "\<not> sv_finished v"
    using assms(2) by (simp_all add: messages_tracks_def sees_def)
  have all: "list_all eb_closed (mt_order T)"
    and cs: "\<exists>fin. (cs = [Finish fin] \<or> (\<exists>U. cs = [UsageChunk U, Finish fin])) \<and> mt_done T'"
    using assms(1) by (auto simp: message_stop_def Let_def split: option.splits if_splits)
  have "\<not> (p < length (mt_order T) \<and> p \<in> open_positions (mt_order T))" for p
    using all by (auto simp: open_positions_def list_all_length)
  then have "sees (map seen_of (mt_order T)) {} v" using s by (auto simp: sees_def)
  then have "sv_open v = []" by (rule sees_nothing)
  with cs u nf show ?thesis by auto
qed

lemma content_started:
  assumes "content_start N m T = Inr (cs, T')"
  obtains i content where "start_block N content (T\<lparr>mt_wire := om_insert i (length (mt_order T)) (mt_wire T)\<rparr>) = Inr (cs, T')"
proof -
  from assms obtain index where "(case index of None \<Rightarrow> Inl (bad_event ''invalid block index'')
      | Some i \<Rightarrow> if map_of (mt_wire T) i \<noteq> None \<or> mt_finish T \<noteq> None
          then Inl (bad_event ''block start repeats an index or follows settlement'')
          else (case member m ''content_block'' of None \<Rightarrow> Inl (bad_event ''content_block_start has no content_block'')
            | Some content \<Rightarrow> start_block N content (T\<lparr>mt_wire := om_insert i (length (mt_order T)) (mt_wire T)\<rparr>))) = Inr (cs, T')"
    by (auto simp: content_start_def success_iff simp del: not_None_eq split: if_splits)
  then show thesis by (cases index; cases "member m ''content_block''") (auto split: if_splits intro: that)
qed

lemma event_keeps:
  assumes "messages_feed N ev T = Inr (cs, T')" and "messages_tracks T v"
  shows "messages_keeps v (cs, T')"
proof -
  from assms(2) have u: "\<not> mt_done T" by (simp add: messages_tracks_def)
  have keep: "messages_keeps v (ds, S)" if "keeps_contract ds v \<and> messages_tracks S (see_all ds v)" for ds S
    using that by (simp add: messages_keeps_def messages_tracks_def)
  have quiet: "messages_tracks S v" if "mt_order S = mt_order T" "mt_wire S = mt_wire T" "\<not> mt_done S" for S
    using assms(2) that by (simp add: messages_tracks_def)
  obtain m where m: "as_object ev = Some m" using assms(1) u by (cases "as_object ev") (simp_all add: messages_feed_def)
  let ?ty = "get_string_at m ''type''"
  note run = assms(1) [unfolded messages_feed_def m option.case Let_def if_not_P [OF u]]
  consider "?ty = ''message_start''" | "?ty = ''content_block_start''" | "?ty = ''content_block_delta''" | "?ty = ''content_block_stop''"
    | "?ty = ''message_delta''" | "?ty = ''message_stop''"
    | "?ty \<notin> {''message_start'', ''content_block_start'', ''content_block_delta'', ''content_block_stop'', ''message_delta'', ''message_stop''}"
    by auto
  then show ?thesis
  proof cases
    case 1
    with run u have "cs = []" "mt_order T' = mt_order T" "mt_wire T' = mt_wire T" "\<not> mt_done T'"
      by (auto simp: message_start_def Let_def split: if_splits)
    then show ?thesis by (intro keep) (simp add: quiet)
  next
    case 2
    with run have "content_start N m T = Inr (cs, T')" by simp
    then obtain i content where st: "start_block N content (T\<lparr>mt_wire := om_insert i (length (mt_order T)) (mt_wire T)\<rparr>) = Inr (cs, T')"
      by (rule content_started)
    let ?T = "T\<lparr>mt_wire := om_insert i (length (mt_order T)) (mt_wire T)\<rparr>"
    from st have "start_block N content T = Inr (cs, T'\<lparr>mt_wire := mt_wire T\<rparr>)"
      and T': "mt_wire T' = om_insert i (length (mt_order T)) (mt_wire T)"
      by (auto simp: start_block_def split: option.splits)
    from start_keeps [OF this(1) assms(2)] show ?thesis
      by (intro keep) (auto simp: messages_tracks_def T' split: if_splits)
  next
    case 3
    with run delta_keeps_messages [OF _ assms(2)] show ?thesis by (intro keep) (auto simp: success_iff)
  next
    case 4
    with run stop_keeps [OF _ assms(2)] show ?thesis by (intro keep) (auto simp: success_iff)
  next
    case 5
    with run have "(cs, T') = message_delta m T" by (auto simp: success_iff)
    with u have "cs = []" "mt_order T' = mt_order T" "mt_wire T' = mt_wire T" "\<not> mt_done T'"
      by (auto simp: message_delta_def Let_def stop_reason_def split: option.splits if_splits)
    then show ?thesis by (intro keep) (simp add: quiet)
  next
    case 6
    with run have "message_stop T = Inr (cs, T')" by (auto simp: success_iff)
    from message_stop_keeps [OF this assms(2)] show ?thesis by (simp add: messages_keeps_def)
  next
    case 7
    with run assms(2) show ?thesis by (intro keep) (auto simp: success_iff)
  qed
qed

definition messages_payload :: "wire_env \<Rightarrow> json \<Rightarrow> messages_run \<Rightarrow> call_error + messages_run" where
  "messages_payload N wire r = (case r of (cs, T) \<Rightarrow> and_sum (messages_feed N wire T) (\<lambda>(ds, T'). Inr (cs @ ds, T')))"

lemma messages_events_keep:
  assumes "fold_sum (messages_payload N) ws ([], new_messages m) = Inr r"
  shows "messages_keeps new_view r"
proof (rule fold_sum_invariant [where P = "messages_keeps new_view", OF assms])
  show "messages_keeps new_view ([], new_messages m)" by (simp add: messages_keeps_def tracks_new) (simp add: new_messages_def)
  fix w r r' assume w: "messages_payload N w r = Inr r'" and k: "messages_keeps new_view r"
  obtain cs T where r: "r = (cs, T)" by (rule prod.exhaust)
  from w obtain ds T' where f: "messages_feed N w T = Inr (ds, T')" and r': "r' = (cs @ ds, T')"
    by (auto simp: messages_payload_def r success_iff)
  then have "\<not> mt_done T" by (auto simp: messages_feed_def)
  with k r have t: "messages_tracks T (see_all cs new_view)" and c: "keeps_contract cs new_view" by (simp_all add: messages_keeps_def)
  from event_keeps [OF f t] c show "messages_keeps new_view r'"
    unfolding messages_keeps_def r' by (simp add: keeps_append split: if_splits)
qed

section \<open>The request\<close>

text \<open>Which role may follow which in a request.\<close>

definition may_follow :: "string \<Rightarrow> string \<Rightarrow> bool" where
  "may_follow a b \<longleftrightarrow> (a, b) \<in> {(''user'', ''assistant''), (''assistant'', ''user''), (''user'', ''system''), (''system'', ''system''),
     (''system'', ''assistant'')}"

definition turns_ok :: "wire_message list \<Rightarrow> bool" where
  "turns_ok ms \<longleftrightarrow> successively may_follow (map fst ms) \<and> (ms \<noteq> [] \<longrightarrow> fst (hd ms) \<noteq> ''system'') \<and>
     fst ` set ms \<subseteq> {''user'', ''assistant'', ''system''}"

definition build_ok :: "message_build \<Rightarrow> bool" where
  "build_ok B \<longleftrightarrow> turns_ok (mb_messages B) \<and> (mb_messages B \<noteq> [] \<longrightarrow> fst (last (mb_messages B)) \<noteq> ''system'') \<and>
     (\<forall>u \<in> set (mb_updates B). fst u = ''system'')"

lemma turns_snoc:
  "turns_ok (ms @ [m]) \<longleftrightarrow> turns_ok ms \<and> (ms \<noteq> [] \<longrightarrow> may_follow (fst (last ms)) (fst m)) \<and> (ms = [] \<longrightarrow> fst m \<noteq> ''system'') \<and>
     fst m \<in> {''user'', ''assistant'', ''system''}"
  by (cases "ms = []") (auto simp: turns_ok_def successively_append_iff last_map)

lemma turns_updates:
  "turns_ok ms \<Longrightarrow> ms \<noteq> [] \<Longrightarrow> fst (last ms) \<in> {''user'', ''system''} \<Longrightarrow> \<forall>u \<in> set us. fst u = ''system'' \<Longrightarrow> turns_ok (ms @ us)"
proof (induction us arbitrary: ms)
  case (Cons u us)
  have "turns_ok (ms @ [u])" using Cons.prems by (auto simp: turns_snoc may_follow_def)
  from Cons.IH [OF this] Cons.prems(4) show ?case by simp
qed simp

lemma turns_append:
  assumes "turns_ok ms" and "role = ''user'' \<or> role = ''assistant''" and "ms \<noteq> [] \<and> fst (last ms) = ''system'' \<longrightarrow> role = ''assistant''"
  shows "turns_ok (append_turn role content ms)" "append_turn role content ms \<noteq> []" "fst (last (append_turn role content ms)) = role"
proof -
  show "append_turn role content ms \<noteq> []" "fst (last (append_turn role content ms)) = role" by (simp_all add: append_turn_def)
  show "turns_ok (append_turn role content ms)"
  proof (cases "ms \<noteq> [] \<and> fst (last ms) = role")
    case True
    then have "ms = butlast ms @ [last ms]" by simp
    with assms(1) have "turns_ok (butlast ms @ [last ms])" by simp
    then have "turns_ok (butlast ms @ [(role, snd (last ms) @ content)])"
      using True unfolding turns_snoc by simp
    with True show ?thesis by (simp add: append_turn_def)
  next
    case False
    have "may_follow (fst (last ms)) role" if "ms \<noteq> []"
    proof -
      have "fst (last ms) \<in> {''user'', ''assistant'', ''system''}"
        using assms(1) last_in_set [OF that] by (auto simp: turns_ok_def simp del: last_in_set)
      with False assms(2,3) that show ?thesis unfolding may_follow_def by (elim insertE emptyE disjE) simp_all
    qed
    moreover have "role \<noteq> ''system''" "role \<in> {''user'', ''assistant'', ''system''}" using assms(2) by auto
    ultimately show ?thesis using False assms(1) unfolding append_turn_def by (auto simp: turns_snoc)
  qed
qed

lemma build_message_ok:
  assumes "build_message N h m B = Inr B'" and "build_ok B" shows "build_ok B'"
proof (cases "lm_role m")
  case LlmSystem
  with assms show ?thesis by (auto simp: build_message_def build_ok_def split: if_splits)
next
  case LlmUser
  then obtain content where B': "B' = B\<lparr>mb_messages := append_turn ''user'' content (mb_messages B)\<rparr>"
    using assms(1) by (auto simp: build_message_def role_name_def success_iff)
  with assms(2) turns_append [of "mb_messages B" "''user''" content] show ?thesis by (auto simp: build_ok_def)
next
  case LlmAssistant
  with assms(1) obtain C content where C: "flush_updates B = Inr C"
    and B': "B' = C\<lparr>mb_messages := append_turn ''assistant'' content (mb_messages C)\<rparr>"
    by (auto simp: build_message_def success_iff role_name_def)
  have "turns_ok (mb_messages C)" "mb_updates C = []"
    using C assms(2) turns_updates [of "mb_messages B" "mb_updates B"] by (auto simp: flush_updates_def build_ok_def split: if_splits)
  with turns_append [of "mb_messages C" "''assistant''" content] show ?thesis by (auto simp: build_ok_def B')
qed

lemma build_messages_ok:
  assumes "build_messages N h ms = Inr B" shows "turns_ok (mb_messages B)"
proof -
  from assms obtain C where C: "fold_sum (build_message N h) ms \<lparr>mb_messages = [], mb_history_system = [], mb_updates = []\<rparr> = Inr C"
    and B: "flush_updates C = Inr B" by (auto simp: build_messages_def success_iff)
  have "build_ok \<lparr>mb_messages = [], mb_history_system = [], mb_updates = []\<rparr>" by (simp add: build_ok_def turns_ok_def)
  then have "build_ok C" by (rule fold_sum_invariant [OF C]) (rule build_message_ok)
  then show ?thesis using B turns_updates [of "mb_messages C" "mb_updates C"] by (auto simp: flush_updates_def build_ok_def split: if_splits)
qed

end
