(* ===== verification/ModelCalls.thy ===== *)
theory ModelCalls
  imports ChatLaws MessagesLaws
begin

text \<open>
  A model call over HTTP: \<open>compat_adapter::stream\<close> (\<open>plugins/llm-compat/src/compat.cpp\<close>) and
  \<open>run_messages_call\<close> (\<open>messages.cpp\<close>). Both feed the body of a response to an SSE parser whose callback
  queues the translator's chunks, hand the queue to the consumer after every piece, and turn what went wrong
  into a last finish chunk. The network is a function from requests to answers. The interface
  \<open>stream_protocol\<close> is what both translators promise of one event; the laws of a whole call are proved from it.
\<close>

section \<open>Events and pieces\<close>

type_synonym 't event_handler = "string \<Rightarrow> 't \<Rightarrow> call_error + stream_chunk list \<times> 't"

definition call_event :: "'t event_handler \<Rightarrow> (call_error, 't \<times> stream_chunk list) event_sink" where
  "call_event H ev d w =
     (case H d (fst w) of Inl e \<Rightarrow> (Some e, w) | Inr (cs, T') \<Rightarrow> (None, (T', snd w @ cs)))"

record 't call_state =
  ck_parser :: sse_parser
  ck_translator :: 't
  ck_pending :: "stream_chunk list"
  ck_sent :: "stream_chunk list"

definition call_piece :: "'t event_handler \<Rightarrow> string \<Rightarrow> 't call_state \<Rightarrow> call_error option \<times> 't call_state" where
  "call_piece H bytes s =
     (case sse_feed (call_event H) bytes (ck_parser s) (ck_translator s, ck_pending s) of
        (Some e, p, (T, cs)) \<Rightarrow> (Some e, s\<lparr>ck_parser := p, ck_translator := T, ck_pending := cs\<rparr>)
      | (None, p, (T, cs)) \<Rightarrow> (None, s\<lparr>ck_parser := p, ck_translator := T, ck_pending := [], ck_sent := ck_sent s @ cs\<rparr>))"

text \<open>
  What comes back: no connection or no response (an I/O error, and whether the stop token was set), or a status with the
  headers, the pieces of the body as they arrive, and how it ends.
\<close>

datatype http_answer = NoConnection io_error bool | NoResponse io_error bool | Answer nat "(string \<times> string) list" "string list" http_end

definition answer_call ::
  "'t event_handler \<Rightarrow> ('t \<Rightarrow> bool) \<Rightarrow> (http_response \<Rightarrow> llm_failure) \<Rightarrow> string \<Rightarrow> http_answer \<Rightarrow> 't call_state \<Rightarrow>
     finish_chunk option \<times> 't call_state" where
  "answer_call H stopped failure closed ans s =
     (case ans of
        NoConnection e b \<Rightarrow> (Some (finish_from (throw_for e b ''connect'')), s)
      | NoResponse e b \<Rightarrow> (Some (finish_from (throw_for e b ''request'')), s)
      | Answer status headers pieces fin \<Rightarrow>
          (case run_exchange (call_piece H) status headers pieces fin s of
             (Inl (LlmThrown f), s') \<Rightarrow> (Some (finish_from f), s')
           | (Inl (SystemThrown m), s') \<Rightarrow> (Some (finish_from (plain_failure Transport m)), s')
           | (Inl (OtherThrown m), s') \<Rightarrow> (Some (finish_from (plain_failure InvalidRequest m)), s')
           | (Inr r, s') \<Rightarrow>
               if \<not> is_success (hr_status r) then (Some (finish_from (failure r)), s')
               else if \<not> stopped (ck_translator s') then (Some (finish_from (plain_failure StreamClosed closed)), s')
               else (None, s'\<lparr>ck_pending := [], ck_sent := ck_sent s' @ ck_pending s'\<rparr>)))"

definition new_call :: "'t \<Rightarrow> 't call_state" where
  "new_call T = \<lparr>ck_parser = new_parser, ck_translator = T, ck_pending = [], ck_sent = []\<rparr>"

definition sent_chunks :: "finish_chunk option \<times> 't call_state \<Rightarrow> stream_chunk list" where
  "sent_chunks r = ck_sent (snd r) @ (case fst r of None \<Rightarrow> [] | Some f \<Rightarrow> [Finish f])"

section \<open>The two protocols\<close>

record http_request =
  hq_server :: endpoint
  hq_target :: string
  hq_body :: string
  hq_headers :: "(string \<times> string) list"

record call_env =
  cv_wire :: wire_env
  cv_getenv :: "string \<Rightarrow> string option"
  cv_network :: "http_request \<Rightarrow> http_answer"

text \<open>An exception before there is a connection ends the call in the same handlers.\<close>

definition thrown_finish :: "call_error \<Rightarrow> finish_chunk" where
  "thrown_finish e =
     finish_from (case e of LlmThrown f \<Rightarrow> f | SystemThrown m \<Rightarrow> plain_failure Transport m | OtherThrown m \<Rightarrow> plain_failure InvalidRequest m)"

definition api_key :: "call_env \<Rightarrow> compat_config \<Rightarrow> string" where
  "api_key C p = (case cv_getenv C (cc_key_env p) of None \<Rightarrow> [] | Some k \<Rightarrow> k)"

text \<open>The adapter's own \<open>done\<close> flag beside the translator.\<close>

definition chat_event :: "wire_env \<Rightarrow> (bool \<times> chat_translator) event_handler" where
  "chat_event N d S =
     (if fst S then Inl (malformed_call ''data after [DONE]'')
      else if d = ''[DONE]'' then and_sum (chat_finish (snd S)) (\<lambda>(cs, T). Inr (cs, (True, T)))
      else (case wr_parse N d of
              None \<Rightarrow> Inl (malformed_call ''malformed SSE payload'')
            | Some wire \<Rightarrow> and_sum (chat_feed N wire (snd S)) (\<lambda>(cs, T). Inr (cs, (fst S, T)))))"

definition chat_failure :: "wire_env \<Rightarrow> http_response \<Rightarrow> llm_failure" where
  "chat_failure N r =
     failure_for N (hr_status r) (hr_body r) (parse_retry_after N (header_value (hr_headers r) ''retry-after''))
       (header_value (hr_headers r) ''x-request-id'')"

definition chat_request :: "call_env \<Rightarrow> compat_config \<Rightarrow> wire_options \<Rightarrow> call_error + http_request" where
  "chat_request C p opt =
     and_sum (parse_url (cc_base_url p)) (\<lambda>ep.
       Inr \<lparr>hq_server = ep, hq_target = ep_path ep @ ''/chat/completions'', hq_body = wr_serialize (cv_wire C) (build_request opt),
            hq_headers = (if api_key C p = [] then [] else [(''Authorization'', ''Bearer '' @ api_key C p)])\<rparr>)"

definition chat_call :: "call_env \<Rightarrow> compat_config \<Rightarrow> wire_options \<Rightarrow> stream_chunk list" where
  "chat_call C p opt =
     (case chat_request C p opt of
        Inl e \<Rightarrow> [Finish (thrown_finish e)]
      | Inr rq \<Rightarrow>
          sent_chunks (answer_call (chat_event (cv_wire C)) fst (chat_failure (cv_wire C)) ''SSE stream ended without [DONE]''
            (cv_network C rq) (new_call (False, new_chat))))"

definition messages_event :: "wire_env \<Rightarrow> messages_translator event_handler" where
  "messages_event N d T =
     (if mt_done T then Inl (bad_event ''data after message_stop'')
      else (case wr_parse N d of None \<Rightarrow> Inl (bad_event ''malformed SSE payload'') | Some wire \<Rightarrow> messages_feed N wire T))"

definition messages_failure :: "wire_env \<Rightarrow> http_response \<Rightarrow> llm_failure" where
  "messages_failure N r =
     messages_failure_for N (hr_status r) (hr_body r) (parse_retry_after N (header_value (hr_headers r) ''retry-after''))
       (header_value (hr_headers r) ''x-request-id'')"

definition messages_request :: "call_env \<Rightarrow> compat_config \<Rightarrow> compat_model \<Rightarrow> wire_options \<Rightarrow> call_error + http_request" where
  "messages_request C p model opt =
     and_sum (parse_url (cc_base_url p)) (\<lambda>ep.
     and_sum (build_messages_request (cv_wire C) opt p model) (\<lambda>body.
       Inr \<lparr>hq_server = ep, hq_target = ep_path ep @ ''/v1/messages'', hq_body = wr_serialize (cv_wire C) body,
            hq_headers = (if api_key C p = [] then [] else [(''x-api-key'', api_key C p)]) @
              [(''anthropic-version'', ''2023-06-01''), (''accept'', ''text/event-stream'')]\<rparr>))"

definition run_messages_call :: "call_env \<Rightarrow> compat_config \<Rightarrow> compat_model \<Rightarrow> wire_options \<Rightarrow> stream_chunk list" where
  "run_messages_call C p model opt =
     (case messages_request C p model opt of
        Inl e \<Rightarrow> [Finish (thrown_finish e)]
      | Inr rq \<Rightarrow>
          sent_chunks (answer_call (messages_event (cv_wire C)) mt_done (messages_failure (cv_wire C))
            ''Messages stream ended before message_stop'' (cv_network C rq) (new_call (new_messages (gn_model opt)))))"

definition adapter_stream :: "call_env \<Rightarrow> compat_adapter \<Rightarrow> wire_options \<Rightarrow> stream_chunk list" where
  "adapter_stream C A opt =
     (let p = profile_for A (gn_provider opt)
      in if cc_protocol p = MessagesProtocol then run_messages_call C p (call_model p (gn_model opt)) opt else chat_call C p opt)"

section \<open>What a protocol promises of one event\<close>

text \<open>Two callbacks that run alike see the same events.\<close>

lemma sse_loop_simulation:
  assumes step: "\<And>e d w v. R w v \<Longrightarrow> fst (K e d w) = fst (L e d v) \<and> R (snd (K e d w)) (snd (L e d v))"
  shows "R w v \<Longrightarrow> fst (sse_loop K p w) = fst (sse_loop L p v) \<and> fst (snd (sse_loop K p w)) = fst (snd (sse_loop L p v)) \<and>
    R (snd (snd (sse_loop K p w))) (snd (snd (sse_loop L p v)))"
proof (induction p arbitrary: w v rule: measure_induct_rule [where f = "\<lambda>p. length (sp_buffer p)"])
  case (less p)
  show ?case
  proof (cases "break_line (sp_buffer p)")
    case None
    with less.prems show ?thesis by (simp add: sse_loop.simps [of _ p])
  next
    case (Some lr)
    obtain l r where lr: "lr = (l, r)" by (rule prod.exhaust)
    have shorter: "length r < length (sp_buffer p)" using Some lr by (simp add: break_line_shorter)
    show ?thesis
    proof (cases "strip_cr l = []")
      case False
      with less.IH [of "(sse_line (strip_cr l) p)\<lparr>sp_buffer := r\<rparr>", OF _ less.prems] shorter show ?thesis
        by (simp add: sse_loop.simps [of _ p] Some lr Let_def)
    next
      case True
      let ?q = "p\<lparr>sp_buffer := r\<rparr>"
      obtain e q w' where d: "sse_dispatch K ?q w = (e, q, w')" by (metis prod_cases3)
      have "\<exists>v'. sse_dispatch L ?q v = (e, q, v') \<and> R w' v'"
        using d less.prems step [OF less.prems, of "sp_event p" "sp_data p"]
        by (cases "L (sp_event p) (sp_data p) v") (auto simp: sse_dispatch_def Let_def split: prod.splits if_splits)
      then obtain v' where v: "sse_dispatch L ?q v = (e, q, v')" "R w' v'" by blast
      from less.IH [of q, OF _ v(2)] shorter dispatch_buffer [OF d] v True show ?thesis
        by (cases e) (simp_all add: sse_loop.simps [of _ p] Some lr Let_def d)
    qed
  qed
qed

lemma sse_feed_simulation:
  assumes "\<And>e d w v. R w v \<Longrightarrow> fst (K e d w) = fst (L e d v) \<and> R (snd (K e d w)) (snd (L e d v))" and "R w v"
    and "sse_feed K b p w = (x, q, w')"
  shows "\<exists>v'. sse_feed L b p v = (x, q, v') \<and> R w' v'"
  using sse_loop_simulation [where R = R and K = K and L = L, OF assms(1) assms(2)] assms(3)
  by (metis fst_conv prod.collapse snd_conv sse_feed_def)

lemma sse_feed_invariant:
  assumes "\<And>e d w. P w \<Longrightarrow> P (snd (K e d w))" and "P w" shows "P (snd (snd (sse_feed K b p w)))"
  unfolding sse_feed_def using sse_loop_simulation [where R = "\<lambda>w v. w = v \<and> P w" and K = K and L = K] assms by blast

text \<open>Handing the queue over after each piece loses nothing unless the call throws.\<close>

lemma piece_feeds:
  assumes "sse_feed (call_event H) b (ck_parser s) (ck_translator s, ck_sent s) = (None, p, (T, cs))" and "ck_pending s = []"
  shows "call_piece H b s = (None, s\<lparr>ck_parser := p, ck_translator := T, ck_sent := cs\<rparr>)"
proof -
  let ?R = "\<lambda>w v. fst w = fst v \<and> snd w = ck_sent s @ snd v"
  have step: "fst (call_event H e d w) = fst (call_event H e d v) \<and> ?R (snd (call_event H e d w)) (snd (call_event H e d v))"
    if "?R w v" for e d w v using that by (simp add: call_event_def split: sum.split prod.split)
  have "\<exists>v. sse_feed (call_event H) b (ck_parser s) (ck_translator s, []) = (None, p, v) \<and> ?R (T, cs) v"
    by (rule sse_feed_simulation [where R = ?R, OF step _ assms(1)]) simp_all
  with assms(2) show ?thesis by (auto simp: call_piece_def)
qed

lemma pieces_feed:
  "sse_feeds (call_event H) (filter (\<lambda>b. b \<noteq> []) bs) (ck_parser s) (ck_translator s, ck_sent s) = (None, p, (T, cs)) \<Longrightarrow> ck_pending s = [] \<Longrightarrow>
     body_pieces (call_piece H) bs s = (None, s\<lparr>ck_parser := p, ck_translator := T, ck_sent := cs\<rparr>)"
proof (induction bs arbitrary: s)
  case (Cons b bs)
  show ?case
  proof (cases "b = []")
    case False
    with Cons.prems obtain q U ds where f: "sse_feed (call_event H) b (ck_parser s) (ck_translator s, ck_sent s) = (None, q, (U, ds))"
      and r: "sse_feeds (call_event H) (filter (\<lambda>b. b \<noteq> []) bs) q (U, ds) = (None, p, (T, cs))"
      by (auto split: prod.splits option.splits)
    have "body_pieces (call_piece H) bs (s\<lparr>ck_parser := q, ck_translator := U, ck_sent := ds\<rparr>) =
        (None, s\<lparr>ck_parser := q, ck_translator := U, ck_sent := ds\<rparr>\<lparr>ck_parser := p, ck_translator := T, ck_sent := cs\<rparr>)"
      by (rule Cons.IH) (use r Cons.prems(2) in simp_all)
    with False show ?thesis by (simp add: piece_feeds [OF f Cons.prems(2)])
  qed (use Cons in simp)
qed simp

text \<open>A byte order mark, if there is one, comes with the first piece.\<close>

definition bom_whole :: "string list \<Rightarrow> bool" where
  "bom_whole bs \<longleftrightarrow> (case filter (\<lambda>b. b \<noteq> []) bs of [] \<Rightarrow> True | b # _ \<Rightarrow> length b \<ge> 3 \<or> take 3 (concat bs) \<noteq> bom)"

lemma concat_nonempty: "concat (filter (\<lambda>b. b \<noteq> []) bs) = concat bs"
  by (induction bs) auto

lemma feeds_deliver:
  assumes "bom_whole bs"
  shows "outcome (sse_feeds K (filter (\<lambda>b. b \<noteq> []) bs) new_parser w) = deliver K (stream_events (cut_bom (concat bs))) w"
proof (cases "filter (\<lambda>b. b \<noteq> []) bs")
  case Nil
  then have c: "concat bs = []" using concat_nonempty [of bs] by simp
  have "stream_events (cut_bom []) = []"
    by (simp add: cut_bom_def bom_def stream_events_def ended_lines.simps [of "[]"] List.map_filter_def)
  then show ?thesis unfolding Nil c by (simp add: outcome_def)
next
  case (Cons b cs)
  then have "concat bs = concat (b # cs)" using concat_nonempty [of bs] by simp
  with assms feeds_new [of b cs K w] Cons show ?thesis by (simp add: bom_whole_def feed_delivers)
qed

lemma delivered_pieces:
  assumes "bom_whole bs" and "deliver (call_event H) (stream_events (cut_bom (concat bs))) (T0, []) = (None, (T, cs))"
  obtains p where "sse_feeds (call_event H) (filter (\<lambda>b. b \<noteq> []) bs) new_parser (T0, []) = (None, p, (T, cs))"
    "body_pieces (call_piece H) bs (new_call T0) = (None, (new_call T0)\<lparr>ck_parser := p, ck_translator := T, ck_sent := cs\<rparr>)"
proof -
  from feeds_deliver [OF assms(1), of "call_event H" "(T0, [])"] assms(2)
  obtain p where p: "sse_feeds (call_event H) (filter (\<lambda>b. b \<noteq> []) bs) new_parser (T0, []) = (None, p, (T, cs))"
    by (cases "sse_feeds (call_event H) (filter (\<lambda>b. b \<noteq> []) bs) new_parser (T0, [])") (auto simp: outcome_def)
  then have "body_pieces (call_piece H) bs (new_call T0) = (None, (new_call T0)\<lparr>ck_parser := p, ck_translator := T, ck_sent := cs\<rparr>)"
    by (intro pieces_feed) (simp_all add: new_call_def)
  with p show thesis by (rule that)
qed

lemma answer_success:
  assumes "is_success status" and "bom_whole bs"
    and "deliver (call_event H) (stream_events (cut_bom (concat bs))) (T0, []) = (None, (T, cs))"
  shows "sent_chunks (answer_call H stopped failure closed (Answer status headers bs BodyDone) (new_call T0)) =
    cs @ (if stopped T then [] else [Finish (finish_from (plain_failure StreamClosed closed))])"
proof -
  obtain p where "body_pieces (call_piece H) bs (new_call T0) = (None, (new_call T0)\<lparr>ck_parser := p, ck_translator := T, ck_sent := cs\<rparr>)"
    by (rule delivered_pieces [OF assms(2,3)])
  with assms(1) show ?thesis by (simp add: answer_call_def run_exchange_def sent_chunks_def new_call_def)
qed

text \<open>What happens once every event throws: nothing more is handed over, and an event in what follows ends the body.\<close>

lemma piece_error:
  assumes "ck_pending s = []"
  shows "fst (call_piece H b s) = fst (sse_feed (call_event H) b (ck_parser s) (ck_translator s, ck_sent s))"
proof -
  let ?R = "\<lambda>w v. fst w = fst v \<and> snd w = ck_sent s @ snd v"
  have step: "fst (call_event H e d w) = fst (call_event H e d v) \<and> ?R (snd (call_event H e d w)) (snd (call_event H e d v))"
    if "?R w v" for e d w v using that by (simp add: call_event_def split: sum.split prod.split)
  obtain x q w where f: "sse_feed (call_event H) b (ck_parser s) (ck_translator s, ck_sent s) = (x, q, w)" by (rule prod_cases3)
  have "\<exists>v. sse_feed (call_event H) b (ck_parser s) (ck_translator s, []) = (x, q, v) \<and> ?R w v"
    by (rule sse_feed_simulation [where R = ?R, OF step _ f]) simp_all
  with assms f show ?thesis by (auto simp: call_piece_def split: option.split)
qed

lemma pieces_error:
  "ck_pending s = [] \<Longrightarrow> fst (body_pieces (call_piece H) bs s) =
     fst (sse_feeds (call_event H) (filter (\<lambda>b. b \<noteq> []) bs) (ck_parser s) (ck_translator s, ck_sent s))"
proof (induction bs arbitrary: s)
  case (Cons b bs)
  obtain x q U ds where f: "sse_feed (call_event H) b (ck_parser s) (ck_translator s, ck_sent s) = (x, q, (U, ds))" by (metis prod_cases3 prod.collapse)
  show ?case
  proof (cases "b = []")
    case True
    with Cons show ?thesis by simp
  next
    case b: False
    show ?thesis
    proof (cases x)
      case None
      with b piece_feeds [OF f [unfolded None] Cons.prems] Cons.IH [of "s\<lparr>ck_parser := q, ck_translator := U, ck_sent := ds\<rparr>"] Cons.prems f
      show ?thesis by simp
    next
      case (Some e)
      with b piece_error [OF Cons.prems, of H b] f show ?thesis by (cases "call_piece H b s") auto
    qed
  qed
qed simp

lemma frozen_pieces:
  assumes "\<And>d. \<exists>e. H d T = Inl e"
  shows "body_pieces (call_piece H) bs s = (x, s') \<Longrightarrow> ck_translator s = T \<Longrightarrow> ck_pending s = [] \<Longrightarrow> ck_sent s' = ck_sent s"
proof (induction bs arbitrary: s)
  case (Cons b bs)
  have still: "snd (snd (sse_feed (call_event H) b (ck_parser s) (T, []))) = (T, [])"
  proof (rule sse_feed_invariant [where P = "\<lambda>w. w = (T, [] :: stream_chunk list)"])
    fix e d w
    assume "w = (T, [] :: stream_chunk list)"
    with assms [of d] show "snd (call_event H e d w) = (T, [])" by (auto simp: call_event_def)
  qed simp
  obtain y t where c: "call_piece H b s = (y, t)" by (rule prod.exhaust)
  with still Cons.prems(2,3) have t: "ck_translator t = T" "ck_pending t = []" "ck_sent t = ck_sent s"
    by (auto simp: call_piece_def split: prod.splits option.splits)
  show ?case
  proof (cases "b = [] \<or> y \<noteq> None")
    case True
    with Cons t(3) c show ?thesis by (auto split: option.splits if_splits)
  next
    case False
    with Cons.prems(1) c have "body_pieces (call_piece H) bs t = (x, s')" by simp
    from Cons.IH [OF this t(1,2)] t(3) show ?thesis by simp
  qed
qed simp

lemma body_append:
  "body_pieces K (bs @ cs) w = (case body_pieces K bs w of (Some e, w') \<Rightarrow> (Some e, w') | (None, w') \<Rightarrow> body_pieces K cs w')"
  by (induction bs arbitrary: w) (auto split: option.split prod.split)

lemma feeds_append:
  "sse_feeds K (bs @ cs) p w = (case sse_feeds K bs p w of (Some e, q, v) \<Rightarrow> (Some e, q, v) | (None, q, v) \<Rightarrow> sse_feeds K cs q v)"
  by (induction bs arbitrary: p w) (auto split: option.split prod.split)

lemma answer_overrun:
  assumes "is_success status" and "bom_whole bs" and "bom_whole (bs @ extra)"
    and "deliver (call_event H) (stream_events (cut_bom (concat bs))) (T0, []) = (None, (T, cs))"
    and "\<And>d. \<exists>e. H d T = Inl e"
    and "fin \<noteq> BodyDone \<or> (\<exists>e more. stream_events (cut_bom (concat (bs @ extra))) = stream_events (cut_bom (concat bs)) @ e # more)"
  shows "\<exists>g. sent_chunks (answer_call H stopped failure closed (Answer status headers (bs @ extra) fin) (new_call T0)) = cs @ [Finish (finish_from g)]"
proof -
  obtain p where p: "sse_feeds (call_event H) (filter (\<lambda>b. b \<noteq> []) bs) new_parser (T0, []) = (None, p, (T, cs))"
    and b: "body_pieces (call_piece H) bs (new_call T0) = (None, (new_call T0)\<lparr>ck_parser := p, ck_translator := T, ck_sent := cs\<rparr>)"
    by (rule delivered_pieces [OF assms(2,4)])
  let ?s = "(new_call T0)\<lparr>ck_parser := p, ck_translator := T, ck_sent := cs\<rparr>"
  obtain x s where e: "body_pieces (call_piece H) extra ?s = (x, s)" by (rule prod.exhaust)
  with b have whole: "body_pieces (call_piece H) (bs @ extra) (new_call T0) = (x, s)" by (simp add: body_append)
  from frozen_pieces [OF assms(5) e] have sent: "ck_sent s = cs" by (simp add: new_call_def)
  have "x \<noteq> None" if "fin = BodyDone"
  proof -
    from that assms(6) obtain ev d more where m: "stream_events (cut_bom (concat (bs @ extra))) = stream_events (cut_bom (concat bs)) @ (ev, d) # more"
      by auto
    obtain er where "H d T = Inl er" using assms(5) by blast
    then have "fst (deliver (call_event H) (stream_events (cut_bom (concat (bs @ extra)))) (T0, [])) \<noteq> None"
      unfolding m using assms(4) by (simp add: deliver_append call_event_def)
    then have "fst (sse_feeds (call_event H) (filter (\<lambda>b. b \<noteq> []) (bs @ extra)) new_parser (T0, [])) \<noteq> None"
      unfolding feeds_deliver [OF assms(3), symmetric] by (simp add: outcome_def)
    then have "fst (sse_feeds (call_event H) (filter (\<lambda>b. b \<noteq> []) extra) p (T, cs)) \<noteq> None"
      by (simp add: feeds_append p)
    with pieces_error [of ?s H extra] e show ?thesis by (simp add: new_call_def)
  qed
  then obtain er where r: "run_exchange (call_piece H) status headers (bs @ extra) fin (new_call T0) = (Inl er, s)"
    using assms(1) whole by (cases x; cases fin) (auto simp: run_exchange_def)
  have "\<exists>g. answer_call H stopped failure closed (Answer status headers (bs @ extra) fin) (new_call T0) = (Some (finish_from g), s)"
    by (cases er) (auto simp add: answer_call_def r)
  with sent show ?thesis by (auto simp: sent_chunks_def)
qed

lemma answer_failure: "fst (answer_call H stopped failure closed ans s) = Some f \<Longrightarrow> fc_failure f \<noteq> None"
  by (auto simp: answer_call_def finish_from_def split: http_answer.splits sum.splits prod.splits call_error.splits if_splits)

text \<open>
  \<open>tracks\<close> ties a translator to what a consumer of its chunks has seen. An event either throws or gives
  chunks that keep the contract; once the protocol's last event has come the consumer has seen the finish,
  and every further event throws.
\<close>

locale stream_protocol =
  fixes handle :: "'t event_handler" and stopped :: "'t \<Rightarrow> bool" and tracks :: "'t \<Rightarrow> stream_view \<Rightarrow> bool" and start :: 't
  assumes start_tracks: "tracks start new_view" and start_runs: "\<not> stopped start"
    and event_chunks: "handle d T = Inr (cs, T') \<Longrightarrow> \<not> stopped T \<Longrightarrow> tracks T v \<Longrightarrow>
      keeps_contract cs v \<and> (if stopped T' then sv_finished (see_all cs v) \<and> sv_open (see_all cs v) = [] else tracks T' (see_all cs v))"
    and stopped_throws: "stopped T \<Longrightarrow> \<exists>f. handle d T = Inl (LlmThrown f)"
begin

definition good :: "'t \<Rightarrow> stream_chunk list \<Rightarrow> bool" where
  "good T cs \<longleftrightarrow> keeps_contract cs new_view \<and>
     (if stopped T then sv_finished (see_all cs new_view) \<and> sv_open (see_all cs new_view) = [] else tracks T (see_all cs new_view))"

definition call_good :: "'t call_state \<Rightarrow> bool" where
  "call_good s \<longleftrightarrow> good (ck_translator s) (ck_sent s @ ck_pending s)"

lemma good_start: "call_good (new_call start)"
  by (simp add: call_good_def new_call_def good_def start_tracks start_runs)

lemma event_good:
  assumes "good (fst w) (sent @ snd w)"
  shows "good (fst (snd (call_event handle ev d w))) (sent @ snd (snd (call_event handle ev d w)))"
proof (cases "handle d (fst w)")
  case (Inr r)
  obtain cs T' where r: "r = (cs, T')" by (rule prod.exhaust)
  then have "\<not> stopped (fst w)" using Inr stopped_throws [of "fst w" d] by auto
  with event_chunks [OF Inr [unfolded r] this, of "see_all (snd w) (see_all sent new_view)"] assms show ?thesis
    by (simp add: call_event_def Inr r good_def keeps_append)
qed (simp add: call_event_def assms)

lemma piece_good:
  assumes "call_piece handle b s = (x, s')" and "call_good s" shows "call_good s'"
proof -
  let ?r = "sse_feed (call_event handle) b (ck_parser s) (ck_translator s, ck_pending s)"
  have "good (fst (snd (snd ?r))) (ck_sent s @ snd (snd (snd ?r)))"
    by (rule sse_feed_invariant [where P = "\<lambda>w. good (fst w) (ck_sent s @ snd w)"])
      (use assms(2) in \<open>simp_all add: call_good_def event_good\<close>)
  with assms(1) show ?thesis by (auto simp: call_piece_def call_good_def split: prod.splits option.splits)
qed

lemma exchange_good:
  assumes "run_exchange (call_piece handle) status headers pieces fin s = (x, s')" and "call_good s" shows "call_good s'"
proof -
  have "body_pieces (call_piece handle) bs t = (y, t') \<Longrightarrow> call_good t \<Longrightarrow> call_good t'" for bs t y t'
  proof (induction bs arbitrary: t)
    case (Cons b bs)
    then show ?case by (auto split: if_splits option.splits prod.splits dest: piece_good)
  qed simp
  with assms show ?thesis by (auto simp: run_exchange_def split: option.splits prod.splits http_end.splits if_splits)
qed

lemma answer_good:
  assumes "answer_call handle stopped failure closed ans s = (t, s')" and "call_good s" and "ck_pending s = []"
  shows "call_good s'" "t = None \<Longrightarrow> stopped (ck_translator s') \<and> ck_pending s' = []"
proof -
  show "call_good s'"
  proof (cases ans)
    case (Answer status headers pieces fin)
    obtain x u where e: "run_exchange (call_piece handle) status headers pieces fin s = (x, u)" by (rule prod.exhaust)
    have "call_good u" by (rule exchange_good [OF e assms(2)])
    with assms(1) show ?thesis
      by (auto simp: answer_call_def Answer e call_good_def split: sum.splits call_error.splits if_splits)
  qed (use assms(1,2) in \<open>auto simp: answer_call_def\<close>)
  show "t = None \<Longrightarrow> stopped (ck_translator s') \<and> ck_pending s' = []"
    using assms(1) by (auto simp: answer_call_def split: http_answer.splits sum.splits prod.splits call_error.splits if_splits)
qed

text \<open>
  What the consumer gets of a call: a stream that keeps the contract up to and with one finish, or such a
  stream with a second finish behind it that reports an error.
\<close>

theorem call_contract:
  assumes "cs = sent_chunks (answer_call handle stopped failure closed ans (new_call start))"
  shows "keeps_contract cs new_view \<and> sv_finished (see_all cs new_view) \<or>
    (\<exists>ds f. cs = ds @ [Finish f] \<and> keeps_contract ds new_view \<and> sv_finished (see_all ds new_view) \<and> fc_failure f \<noteq> None)"
proof -
  obtain t s where r: "answer_call handle stopped failure closed ans (new_call start) = (t, s)" by (rule prod.exhaust)
  have p: "ck_pending (new_call start) = []" by (simp add: new_call_def)
  note g = answer_good [OF r good_start p]
  have k: "keeps_contract (ck_sent s) new_view" using g(1) by (simp add: call_good_def good_def keeps_append)
  show ?thesis
  proof (cases t)
    case None
    with g show ?thesis by (simp add: assms r sent_chunks_def call_good_def good_def)
  next
    case (Some f)
    with r have "fc_failure f \<noteq> None" using answer_failure [of handle stopped failure closed ans "new_call start" f] by simp
    with k Some show ?thesis
      by (cases "sv_finished (see_all (ck_sent s) new_view)") (auto simp: assms r sent_chunks_def keeps_append)
  qed
qed

end

section \<open>Both translators keep the promise\<close>

definition chat_start :: "bool \<times> chat_translator" where
  "chat_start = (False, new_chat)"

interpretation chat: stream_protocol "chat_event N" fst "\<lambda>S v. chat_tracks (snd S) v" chat_start for N
proof
  show "chat_tracks (snd chat_start) new_view" "\<not> fst chat_start" by (simp_all add: chat_start_def chat_new)
  show "\<exists>f. chat_event N d T = Inl (LlmThrown f)" if "fst T" for d T using that by (simp add: chat_event_def malformed_call_def)
  fix d T cs T' v
  assume e: "chat_event N d T = Inr (cs, T')" and u: "\<not> fst T" and t: "chat_tracks (snd T) v"
  show "keeps_contract cs v \<and> (if fst T' then sv_finished (see_all cs v) \<and> sv_open (see_all cs v) = []
      else chat_tracks (snd T') (see_all cs v))"
  proof (cases "d = ''[DONE]''")
    case True
    with e u obtain U where "chat_finish (snd T) = Inr (cs, U)" "T' = (True, U)" by (auto simp: chat_event_def success_iff)
    with finish_keeps [OF _ t] show ?thesis by simp
  next
    case False
    with e u obtain wire U where "chat_feed N wire (snd T) = Inr (cs, U)" "T' = (False, U)"
      by (auto simp: chat_event_def success_iff split: option.splits)
    with feed_keeps [OF _ t] show ?thesis by simp
  qed
qed

interpretation msgs: stream_protocol "messages_event N" mt_done messages_tracks "new_messages m" for N m
proof
  show "messages_tracks (new_messages m) new_view" "\<not> mt_done (new_messages m)" by (rule tracks_new) (simp add: new_messages_def)
  show "\<exists>f. messages_event N d T = Inl (LlmThrown f)" if "mt_done T" for d T using that by (simp add: messages_event_def bad_event_def)
  fix d T cs T' v
  assume "messages_event N d T = Inr (cs, T')" and "\<not> mt_done T" and t: "messages_tracks T v"
  then obtain wire where "messages_feed N wire T = Inr (cs, T')" by (auto simp: messages_event_def split: option.splits)
  from event_keeps [OF this t] show "keeps_contract cs v \<and>
      (if mt_done T' then sv_finished (see_all cs v) \<and> sv_open (see_all cs v) = [] else messages_tracks T' (see_all cs v))"
    by (cases "mt_done T'") (simp_all add: messages_keeps_def)
qed

text \<open>A chat stream of payloads and the end mark, as events.\<close>

lemma deliver_payloads:
  assumes "fold_sum (chat_payload N) ws (cs0, T0) = Inr (cs, T)" and "map (wr_parse N) ds = map Some ws" and "''[DONE]'' \<notin> set ds"
    and "map snd es = ds"
  shows "deliver (call_event (chat_event N)) es ((False, T0), cs0) = (None, ((False, T), cs))"
  using assms
proof (induction ws arbitrary: ds es cs0 T0)
  case (Cons w ws)
  from Cons.prems(2,4) obtain ev d es' where es: "es = (ev, d) # es'" and d: "ds = d # map snd es'" and p: "wr_parse N d = Some w"
    and rest: "map (wr_parse N) (map snd es') = map Some ws" by (cases es; cases ds) auto
  from Cons.prems(1) obtain r where r: "chat_payload N w (cs0, T0) = Inr r" "fold_sum (chat_payload N) ws r = Inr (cs, T)"
    by (auto simp: success_iff)
  then obtain cs1 T1 where f: "chat_feed N w T0 = Inr (cs1, T1)" and more: "fold_sum (chat_payload N) ws (cs0 @ cs1, T1) = Inr (cs, T)"
    by (auto simp: chat_payload_def success_iff simp del: fold_sum.simps)
  have "''[DONE]'' \<notin> set (map snd es')" "d \<noteq> ''[DONE]''" using Cons.prems(3) d by auto
  with Cons.IH [OF more rest _ refl] show ?case by (simp add: es call_event_def chat_event_def p f)
qed simp

text \<open>The events of a complete answer.\<close>

lemma chat_delivers:
  assumes "map snd es = ds @ [''[DONE]'']" and "''[DONE]'' \<notin> set ds"
    and "map (wr_parse N) ds = map Some ws" and "fold_sum (chat_payload N) ws ([], new_chat) = Inr (cs, T)"
  obtains fs T' where "chat_finish T = Inr (fs, T')" "deliver (call_event (chat_event N)) es ((False, new_chat), []) = (None, ((True, T'), cs @ fs))"
proof -
  obtain us e where es: "es = us @ [e]" "map snd us = ds" "snd e = ''[DONE]''" using assms(1) by (auto simp: map_eq_append_conv)
  have "\<not> ct_done T" using payloads_keep(2) [OF assms(4)] by (simp add: chat_tracks_def)
  then obtain fs T' where f: "chat_finish T = Inr (fs, T')" by (auto simp: chat_finish_def Let_def)
  have "deliver (call_event (chat_event N)) es ((False, new_chat), []) = (None, ((True, T'), cs @ fs))"
    using deliver_payloads [OF assms(4,3,2) es(2)] es(3) by (cases e) (simp add: es(1) deliver_append call_event_def chat_event_def f)
  with f show thesis by (rule that)
qed

lemma chat_call_assembles:
  assumes "chat_request C p opt = Inr rq" and "cv_network C rq = Answer status headers bs BodyDone" and "is_success status"
    and "bom_whole bs" and "map snd (stream_events (cut_bom (concat bs))) = ds @ [''[DONE]'']" and "''[DONE]'' \<notin> set ds"
    and "map (wr_parse (cv_wire C)) ds = map Some ws" and "fold_sum (chat_payload (cv_wire C)) ws ([], new_chat) = Inr (cs, T)"
  shows "keeps_contract (chat_call C p opt) new_view" "sa_open (accumulate (chat_call C p opt)) = []"
    "sa_closed (accumulate (chat_call C p opt)) = wire_content (ct_order T)"
proof -
  obtain fs T' where f: "chat_finish T = Inr (fs, T')"
    and d: "deliver (call_event (chat_event (cv_wire C))) (stream_events (cut_bom (concat bs))) ((False, new_chat), []) = (None, ((True, T'), cs @ fs))"
    by (rule chat_delivers [OF assms(5-8)])
  from answer_success [OF assms(3,4) d, of fst "chat_failure (cv_wire C)" "''SSE stream ended without [DONE]''" headers]
  have c: "chat_call C p opt = cs @ fs" by (simp add: chat_call_def assms(1,2))
  from delivered_at_end [OF assms(8) f]
  show "keeps_contract (chat_call C p opt) new_view" "sa_open (accumulate (chat_call C p opt)) = []"
    "sa_closed (accumulate (chat_call C p opt)) = wire_content (ct_order T)" by (simp_all add: c)
qed

text \<open>An answer that is complete, and what follows it.\<close>

lemma chat_call_overrun:
  assumes "chat_request C p opt = Inr rq" and "cv_network C rq = Answer status headers (bs @ extra) fin" and "is_success status"
    and "bom_whole bs" and "bom_whole (bs @ extra)" and "map snd (stream_events (cut_bom (concat bs))) = ds @ [''[DONE]'']" and "''[DONE]'' \<notin> set ds"
    and "map (wr_parse (cv_wire C)) ds = map Some ws" and "fold_sum (chat_payload (cv_wire C)) ws ([], new_chat) = Inr (cs, T)"
    and "fin \<noteq> BodyDone \<or> (\<exists>e more. stream_events (cut_bom (concat (bs @ extra))) = stream_events (cut_bom (concat bs)) @ e # more)"
  shows "\<exists>answer g. chat_call C p opt = answer @ [Finish (finish_from g)] \<and> keeps_contract answer new_view \<and>
    sv_finished (see_all answer new_view) \<and> sa_closed (accumulate answer) = wire_content (ct_order T)"
proof -
  obtain fs T' where f: "chat_finish T = Inr (fs, T')"
    and d: "deliver (call_event (chat_event (cv_wire C))) (stream_events (cut_bom (concat bs))) ((False, new_chat), []) = (None, ((True, T'), cs @ fs))"
    by (rule chat_delivers [OF assms(6-9)])
  have t: "\<exists>e. chat_event (cv_wire C) x (True, T') = Inl e" for x by (simp add: chat_event_def)
  from answer_overrun [OF assms(3,4,5) d t assms(10), of fst "chat_failure (cv_wire C)" "''SSE stream ended without [DONE]''" headers]
  obtain g where "chat_call C p opt = (cs @ fs) @ [Finish (finish_from g)]" by (auto simp: chat_call_def assms(1,2))
  moreover from payloads_keep(2) [OF assms(9)] have "sv_finished (see_all (cs @ fs) new_view)"
    using finish_keeps [OF f] by simp
  ultimately show ?thesis using delivered_at_end [OF assms(9) f] by blast
qed

end
