(* ===== verification/Retry.thy ===== *)
theory Retry
  imports Compat AgentOutcomes
begin

text \<open>
  The retry executor (\<open>plugins/llm-retry/src/llm_retry.cpp\<close>), a listener on the agent loop's
  \<open>agent/request-error\<close> waterfall, and the policy lookup of the routes behind it. The number drawn for the
  jitter and the double arithmetic that applies it are parameters, and so is what happens while the timer
  waits. Second part: the delays, the decision, and why a turn in normal mode stops asking.
\<close>

section \<open>The decision\<close>

definition default_retryable :: "string list" where
  "default_retryable = [''empty_response'', ''rate_limit'', ''server'', ''timeout'', ''transport'']"

definition eligible :: "llm_error_code \<Rightarrow> string list \<Rightarrow> bool" where
  "eligible code codes = (if codes = [] then code_name code \<in> set default_retryable else code_name code \<in> set codes)"

text \<open>
  The doubling of the delay, a 64-bit count. Its overflow is undefined behaviour of the program and wraps here;
  there is none up to a limit of \<open>2 ^ 62\<close> milliseconds.
\<close>

definition wrapped :: "int \<Rightarrow> int" where
  "wrapped x = sint (word_of_int x :: 64 word)"

fun doubled :: "nat \<Rightarrow> int \<Rightarrow> int \<Rightarrow> int" where
  "doubled 0 limit delay = delay"
| "doubled (Suc n) limit delay = (if delay < limit then doubled n limit (min (wrapped (delay * 2)) limit) else delay)"

text \<open>\<open>jitter_ratio > 0.0\<close> on the bits of a double: no sign, not zero, not a NaN.\<close>

definition positive_double :: "64 word \<Rightarrow> bool" where
  "positive_double d \<longleftrightarrow> 0 < d \<and> d \<le> 0x7FF0000000000000"

definition backoff_delay :: "(int \<Rightarrow> int) \<Rightarrow> retry_policy \<Rightarrow> 32 word \<Rightarrow> int" where
  "backoff_delay jittered p attempt =
     (let limit = sint (rp_max_delay p);
          delay = doubled (unat attempt) limit (sint (rp_initial p));
          delay = (if positive_double (rp_jitter p) then jittered delay else delay)
      in min (max delay 1) limit)"

definition decide :: "(int \<Rightarrow> int) \<Rightarrow> bool \<Rightarrow> request_error_msg \<Rightarrow> retry_policy \<Rightarrow> int option" where
  "decide jittered stopped msg p =
     (if stopped then None
      else if rp_mode p = RetryNormal \<and> (re_attempt msg \<ge> rp_max_retries p \<or> \<not> eligible (lf_code (re_failure msg)) (rp_codes p)) then None
      else (case lf_retry_after (re_failure msg) of
              Some after \<Rightarrow> if after > 0 \<and> after \<le> sint (rp_max_delay p) then Some after else Some (backoff_delay jittered p (re_attempt msg))
            | None \<Rightarrow> Some (backoff_delay jittered p (re_attempt msg))))"

section \<open>The listener\<close>

record retry_msg = request_error_msg +
  rm_delay :: int

text \<open>\<open>rt_policy\<close> is the service's answer for a route, \<open>service_retry_policy\<close>.\<close>

record retry_env =
  rt_policy :: "string \<Rightarrow> retry_policy option"
  rt_config :: config_env
  rt_jittered :: "64 word \<Rightarrow> agent_world \<Rightarrow> int \<Rightarrow> int"
  rt_wait :: "int \<Rightarrow> agent_world \<Rightarrow> agent_world"

definition policy_for :: "retry_env \<Rightarrow> string \<Rightarrow> retry_policy" where
  "policy_for R provider = (case rt_policy R provider of Some p \<Rightarrow> p | None \<Rightarrow> default_policy (rt_config R))"

definition retry_listener :: "retry_env \<Rightarrow> (retry_msg \<Rightarrow> retry_msg action) \<Rightarrow> retry_msg \<Rightarrow> retry_msg action" where
  "retry_listener R following msg w =
     (let p = policy_for R (re_provider msg)
      in case decide (rt_jittered R (rp_jitter p) w) (token_stopped (re_stop msg) w) (request_error_msg.truncate msg) p of
           None \<Rightarrow> following msg w
         | Some delay \<Rightarrow>
             let w' = rt_wait R delay w
             in if token_stopped (re_stop msg) w' then following msg w'
                else give (msg\<lparr>re_retry := True, rm_delay := delay\<rparr>) w')"

text \<open>The dispatch of the agent loop, with this listener in front of the others.\<close>

definition with_retry :: "retry_env \<Rightarrow> (retry_msg \<Rightarrow> retry_msg action) \<Rightarrow> agent_env \<Rightarrow> agent_env" where
  "with_retry R following E = E\<lparr>ae_request_error := \<lambda>msg.
     and_then (retry_listener R following (request_error_msg.extend msg (retry_msg.fields 0))) (\<lambda>m. give (request_error_msg.truncate m))\<rparr>"

section \<open>Delays\<close>

lemma wrapped_small: "- (2 ^ 63) \<le> x \<Longrightarrow> x < 2 ^ 63 \<Longrightarrow> wrapped x = x"
  unfolding wrapped_def by transfer (simp add: signed_take_bit_int_eq_self)

lemma times_power: "0 \<le> x \<Longrightarrow> x \<le> x * 2 ^ n" for x :: int
  using mult_left_mono [of "1 :: int" "2 ^ n" x] unfolding mult_1_right by simp

lemma doubled_closed:
  "0 < d \<Longrightarrow> limit \<le> 2 ^ 62 \<Longrightarrow> doubled n limit d = (if d < limit then min (d * 2 ^ n) limit else d)"
proof (induction n arbitrary: d)
  case (Suc n)
  show ?case
  proof (cases "d < limit")
    case True
    then have w: "wrapped (d * 2) = d * 2" using Suc.prems by (intro wrapped_small) simp_all
    have m: "0 < min (d * 2) limit" using Suc.prems(1) True by simp
    have e: "doubled (Suc n) limit d = (if min (d * 2) limit < limit then min (min (d * 2) limit * 2 ^ n) limit else min (d * 2) limit)"
      using True w Suc.IH [OF m Suc.prems(2)] by simp
    have "limit \<le> d * 2 \<Longrightarrow> limit \<le> d * 2 * 2 ^ n"
      using Suc.prems(1) times_power [of "d * 2" n] by linarith
    with True show ?thesis unfolding e by (cases "d * 2 < limit") (simp_all add: mult.assoc min_absorb2)
  qed simp
qed simp

lemma backoff_range: "min 1 (sint (rp_max_delay p)) \<le> backoff_delay J p n \<and> backoff_delay J p n \<le> sint (rp_max_delay p)"
  by (auto simp: backoff_delay_def Let_def min_def max_def)

lemma backoff_steady:
  assumes "0 < sint (rp_initial p)" and "sint (rp_max_delay p) \<le> 2 ^ 62" and "\<not> positive_double (rp_jitter p)"
  shows "backoff_delay J p n = min (sint (rp_initial p) * 2 ^ unat n) (sint (rp_max_delay p))"
proof -
  let ?d = "sint (rp_initial p)" and ?m = "sint (rp_max_delay p)" and ?n = "unat n"
  have g: "?d \<le> ?d * 2 ^ ?n" using times_power assms(1) by simp
  have b: "backoff_delay J p n = min (max (if ?d < ?m then min (?d * 2 ^ ?n) ?m else ?d) 1) ?m"
    using assms by (simp add: backoff_delay_def Let_def doubled_closed)
  define x where "x = ?d * 2 ^ ?n"
  show ?thesis using g assms(1) unfolding b x_def [symmetric] by (auto simp: min_def max_def)
qed

section \<open>Decisions\<close>

lemma decide_range:
  assumes "decide J stopped msg p = Some t"
  shows "min 1 (sint (rp_max_delay p)) \<le> t \<and> t \<le> sint (rp_max_delay p) \<and> \<not> stopped"
  using assms backoff_range [of p J "re_attempt msg"] by (auto simp: decide_def split: if_splits option.splits)

lemma decide_normal:
  "decide J stopped msg p = Some t \<Longrightarrow> rp_mode p = RetryNormal \<Longrightarrow> re_attempt msg < rp_max_retries p \<and> eligible (lf_code (re_failure msg)) (rp_codes p)"
  by (auto simp: decide_def not_le split: if_splits)

lemma decide_always: "rp_mode p = RetryAlways \<Longrightarrow> \<exists>t. decide J False msg p = Some t"
  by (auto simp: decide_def split: option.split)

section \<open>The turn of an agent with retries\<close>

text \<open>The other listeners of the waterfall, if any, leave a message alone.\<close>

definition leaves_alone :: "(retry_msg \<Rightarrow> retry_msg action) \<Rightarrow> bool" where
  "leaves_alone following \<longleftrightarrow> (\<forall>m w. following m w = Some (Inr m, w))"

lemma listener_retries:
  assumes "retry_listener R following msg w = Some (Inr m, w')" and "leaves_alone following" and "\<not> re_retry msg" and "re_retry m"
  shows "\<exists>t. decide (rt_jittered R (rp_jitter (policy_for R (re_provider msg))) w) (token_stopped (re_stop msg) w)
      (request_error_msg.truncate msg) (policy_for R (re_provider msg)) = Some t \<and>
      m = msg\<lparr>re_retry := True, rm_delay := t\<rparr> \<and> w' = rt_wait R t w \<and> \<not> token_stopped (re_stop msg) w'"
  using assms by (auto simp: retry_listener_def leaves_alone_def Let_def give_def split: option.splits if_splits)

lemma with_retry_simps [simp]:
  "ae_request_error (with_retry R following E) msg w =
     and_then (retry_listener R following (request_error_msg.extend msg (retry_msg.fields 0))) (\<lambda>m. give (request_error_msg.truncate m)) w"
  by (simp add: with_retry_def)

lemma retry_gives_up:
  assumes "leaves_alone following" and "\<And>provider. rp_mode (policy_for R provider) = RetryNormal"
    and "\<And>provider. rp_max_retries (policy_for R provider) \<le> of_nat k"
  shows "\<forall>msg w m w'. re_attempt msg = of_nat k \<longrightarrow> \<not> re_retry msg \<longrightarrow>
    ae_request_error (with_retry R following E) msg w = Some (Inr m, w') \<longrightarrow> \<not> re_retry m"
proof (intro allI impI notI)
  fix msg w m w'
  let ?x = "request_error_msg.extend msg (retry_msg.fields 0)"
  assume a: "re_attempt msg = of_nat k" "\<not> re_retry msg" "ae_request_error (with_retry R following E) msg w = Some (Inr m, w')" "re_retry m"
  then obtain y v where y: "retry_listener R following ?x w = Some (Inr y, v)" "m = request_error_msg.truncate y"
    by (auto simp: and_then_def give_def split: option.splits prod.splits sum.splits)
  have "re_retry y" "\<not> re_retry ?x" "re_attempt ?x = of_nat k" "re_provider ?x = re_provider msg"
    using a y(2) by (simp_all add: request_error_msg.extend_def request_error_msg.truncate_def)
  with listener_retries [OF y(1) assms(1)] decide_normal assms(2,3) show False
    by (metis request_error_msg.select_convs(6) request_error_msg.truncate_def linorder_not_less)
qed

lemma listener_ends: "leaves_alone following \<Longrightarrow> \<exists>m w'. retry_listener R following msg w = Some (Inr m, w')"
  by (auto simp: retry_listener_def leaves_alone_def Let_def give_def split: option.split)

text \<open>With normal policies the retried environment is one in which every turn returns.\<close>

lemma retry_env_returns:
  assumes "env_returns E" and "leaves_alone following" and "\<And>provider. rp_mode (policy_for R provider) = RetryNormal"
  shows "env_returns (with_retry R following E)"
proof -
  have "gives_up (with_retry R following E) (2 ^ 32 - 1)"
    unfolding gives_up_def
  proof (rule retry_gives_up [OF assms(2,3)])
    have "of_nat (2 ^ 32 - 1) = (- 1 :: 32 word)" by (simp add: of_nat_diff)
    then show "rp_max_retries (policy_for R provider) \<le> of_nat (2 ^ 32 - 1)" for provider by (metis word_n1_ge)
  qed
  moreover have "returns (ae_request_error (with_retry R following E) msg)" for msg
  proof (rule returnsI)
    fix w
    obtain m w' where "retry_listener R following (request_error_msg.extend msg (retry_msg.fields 0)) w = Some (Inr m, w')"
      using listener_ends [OF assms(2)] by blast
    then show "ends (ae_request_error (with_retry R following E) msg w)" by (simp add: and_then_def give_def)
  qed
  ultimately show ?thesis using assms(1) by (auto simp: env_returns_def with_retry_def)
qed

text \<open>In always mode a stream that keeps failing is asked for again without end, until the stop token is set.\<close>

lemma always_never_gives_up:
  assumes "\<And>w. ae_stream E g w = Some (Inr cs, w)" and "sa_why (accumulate cs) = FinishError" and "sa_failure (accumulate cs) \<noteq> None"
    and "\<And>provider. rp_mode (policy_for R provider) = RetryAlways" and "\<And>t w. rt_wait R t w = w" and "\<not> stop_requested d w"
  shows "stream_attempts (with_retry R following E) d r turn step g n w = None"
proof -
  have again: "\<exists>m. ae_request_error (with_retry R following E) msg w = Some (Inr m, w) \<and> re_retry m"
    if "re_stop msg = dv_stop (as_exec (driver d w))" for msg
  proof -
    let ?x = "request_error_msg.extend msg (retry_msg.fields 0)"
    have s: "\<not> token_stopped (re_stop ?x) w" using that assms(6) by (simp add: stop_requested_def request_error_msg.extend_def)
    obtain t where "decide (rt_jittered R (rp_jitter (policy_for R (re_provider ?x))) w) False (request_error_msg.truncate ?x)
        (policy_for R (re_provider ?x)) = Some t" using decide_always [OF assms(4)] by blast
    with s show ?thesis
      by (simp add: retry_listener_def Let_def assms(5) and_then_def give_def request_error_msg.truncate_def)
  qed
  let ?E = "with_retry R following E"
  have "\<not> (F = ?E \<and> e = d \<and> h = g \<and> v = w)" if a: "stream_attempts F e r turn step h n v = Some y" for F e r turn step h n v y
  proof (rule stream_attempts.raw_induct [OF _ a, where P = "\<lambda>F e r turn step h n v y. \<not> (F = ?E \<and> e = d \<and> h = g \<and> v = w)"],
      rule notI, elim conjE, hypsubst)
    fix f :: "agent_env \<Rightarrow> nat \<Rightarrow> nat \<Rightarrow> 64 word \<Rightarrow> 64 word \<Rightarrow> generate_options \<Rightarrow> 32 word \<Rightarrow> agent_world \<Rightarrow>
        ((agent_error + step_accumulator) \<times> agent_world) option" and r turn step n y
    assume IH: "\<And>F e r turn step h n v y. f F e r turn step h n v = Some y \<Longrightarrow> \<not> (F = ?E \<and> e = d \<and> h = g \<and> v = w)"
    let ?msg = "\<lparr>re_session = id_of r w, re_turn = turn, re_step = step, re_provider = dv_provider (as_exec (driver d w)),
      re_model = dv_model (as_exec (driver d w)), re_attempt = n, re_failure = the (sa_failure (accumulate cs)),
      re_stop = dv_stop (as_exec (driver d w)), re_retry = False\<rparr>"
    obtain m where m: "ae_request_error ?E ?msg w = Some (Inr m, w)" "re_retry m" using again [of ?msg] by auto
    have s: "ae_stream ?E g w = Some (Inr cs, w)" by (simp add: with_retry_def assms(1))
    assume "(case ae_stream ?E g w of None \<Rightarrow> None
      | Some (Inl e, w1) \<Rightarrow> Some (Inl e, w1)
      | Some (Inr cs, w1) \<Rightarrow>
          let a = accumulate cs; opts = as_exec (driver d w1)
          in if \<not> (sa_why a = FinishError \<and> sa_failure a \<noteq> None \<and> \<not> stop_requested d w1)
             then Some (Inr a, w1)
             else (case ae_request_error ?E
                        \<lparr>re_session = id_of r w1, re_turn = turn, re_step = step, re_provider = dv_provider opts,
                         re_model = dv_model opts, re_attempt = n, re_failure = the (sa_failure a),
                         re_stop = dv_stop opts, re_retry = False\<rparr> w1 of
                  None \<Rightarrow> None | Some (Inl e, w2) \<Rightarrow> Some (Inl e, w2)
                  | Some (Inr m, w2) \<Rightarrow> if \<not> re_retry m then Some (Inr a, w2) else f ?E d r turn step g (n + 1) w2)) = Some y"
    then have "f ?E d r turn step g (n + 1) w = Some y"
      using assms(2,3,6) m(2) by (simp add: s m(1) Let_def del: with_retry_simps)
    from IH [OF this] show False by simp
  qed
  then have "stream_attempts ?E d r turn step g n w \<noteq> Some y" for y by blast
  then show ?thesis by (cases "stream_attempts ?E d r turn step g n w") blast+
qed

end
