(* ===== verification/ModelProperties.thy ===== *)
theory ModelProperties
  imports ModelCalls Retry AgentProperties
begin

text \<open>
  The theorems about model calls: the framing of the event stream, the chunks a call delivers over either
  protocol, the requests, the registry of adapters and the retries, with the concrete calls at which the
  ones with hypotheses apply.
\<close>

section \<open>Concrete calls\<close>

text \<open>Two payloads of a chat stream, under short names, and a network that answers any request with fixed pieces.\<close>

definition delta_payload :: "string \<Rightarrow> json" where
  "delta_payload t = JObject [(''choices'', JArray [JObject [(''delta'', JObject [(''content'', JString t)])]])]"

definition stop_payload :: json where
  "stop_payload = JObject [(''choices'', JArray [JObject [(''finish_reason'', JString ''stop'')]])]"

definition demo_wire :: wire_env where
  "demo_wire = \<lparr>wr_parse = (\<lambda>s. if s = ''hi'' then Some (delta_payload ''hi'') else if s = ''stop'' then Some stop_payload else None),
     wr_serialize = (\<lambda>_. []), wr_double_uint = (\<lambda>_. None), wr_double_int = (\<lambda>_. None), wr_date = (\<lambda>_. None),
     wr_missing = OtherThrown ''out of range'', wr_inexact = SystemThrown ''inexact''\<rparr>"

definition demo_call :: "string list \<Rightarrow> call_env" where
  "demo_call pieces = \<lparr>cv_wire = demo_wire, cv_getenv = (\<lambda>_. None), cv_network = (\<lambda>_. Answer 200 [] pieces BodyDone)\<rparr>"

definition demo_options :: wire_options where
  "demo_options = \<lparr>gn_provider = ''openai'', gn_model = ''m'', gn_effort = [], gn_messages = [], gn_tools = [], gn_temperature = None,
     gn_max_tokens = None, gn_stop = None, gn_session = ''s'', wo_system = [], wo_stop = []\<rparr>"

definition data_line :: "string \<Rightarrow> string" where
  "data_line t = ''data: '' @ t @ [newline, newline]"

text \<open>A stream cut in the middle of a line, and one on which something follows its end mark.\<close>

definition cut_pieces :: "string list" where
  "cut_pieces = [''data: h'', ''i'' @ [newline, newline] @ ''data: st'', ''op'' @ [newline, newline] @ data_line ''[DONE]'']"

definition overrun_pieces :: "string list" where
  "overrun_pieces = [data_line ''hi'' @ data_line ''stop'' @ data_line ''[DONE]'', data_line ''hi'']"

section \<open>Event streams\<close>

text \<open>
  C27. Pieces. However a response body is cut into pieces, the parser calls back with exactly the events of the
  whole stream, in order and up to the first exception of the callback, where the events are stated without a
  parser: the lines, grouped by empty lines, and what each group says. The one condition is that a byte order
  mark, if the stream has one, is not cut.
\<close>

theorem sse_pieces_irrelevant:
  assumes "length b \<ge> 3 \<or> take 3 (concat (b # bs)) \<noteq> bom"
  shows "outcome (sse_feeds K (b # bs) new_parser w) = deliver K (stream_events (cut_bom (concat (b # bs)))) w"
  by (simp only: feeds_new [OF assms] feed_delivers)

theorem sse_pieces_irrelevant_witness:
  "outcome (sse_feeds collect [''data: h'', ''i'' @ [newline, newline]] new_parser []) =
     deliver collect (stream_events (cut_bom (concat [''data: h'', ''i'' @ [newline, newline]]))) []"
  by (rule sse_pieces_irrelevant) simp

text \<open>
  A cut byte order mark. The mark is only looked for in the first piece: when it arrives byte by byte it
  stays in front of the first line, whose field is then not known, and the first event of the stream is lost.
\<close>

theorem cut_bom_loses_event:
  "outcome (sse_feeds collect [bom @ data_line ''x'' @ data_line ''y''] new_parser []) = (None, [([], ''x''), ([], ''y'')])"
  "outcome (sse_feeds collect [[CHR 0xEF], [CHR 0xBB, CHR 0xBF] @ data_line ''x'' @ data_line ''y''] new_parser []) = (None, [([], ''y'')])"
  by code_simp+

section \<open>Calls\<close>

text \<open>
  C24. The contract of a call. Whatever the network does, the chunks the adapter delivers, over either protocol,
  keep the contract of a stream (blocks start once, deltas fall into open blocks of their kind, an end
  carries the assembled block, usage comes at most once, nothing follows a finish) and end with a finish; or
  they are such a stream with one more finish behind it, which carries a failure.
\<close>

theorem adapter_stream_contract:
  "keeps_contract (adapter_stream C A opt) new_view \<and> sv_finished (see_all (adapter_stream C A opt) new_view) \<or>
    (\<exists>ds f. adapter_stream C A opt = ds @ [Finish f] \<and> keeps_contract ds new_view \<and> sv_finished (see_all ds new_view) \<and>
       fc_failure f \<noteq> None)"
proof -
  have one: "keeps_contract [Finish f] new_view \<and> sv_finished (see_all [Finish f] new_view)" for f
    by (simp add: new_view_def)
  show ?thesis
  proof (cases "cc_protocol (profile_for A (gn_provider opt)) = MessagesProtocol")
    case True
    then show ?thesis
      using one msgs.call_contract [OF refl] by (auto simp: adapter_stream_def Let_def run_messages_call_def split: sum.split)
  next
    case False
    then show ?thesis
      using one chat.call_contract [OF refl, unfolded chat_start_def]
      by (auto simp: adapter_stream_def Let_def chat_call_def split: sum.split)
  qed
qed

text \<open>
  C25. A chat answer is assembled. When the body of a successful answer is a stream of payloads the
  translator accepts, ended by the end mark and cut in any way that does not cut a byte order mark, the
  chunks of the call keep the contract, the agent loop's accumulator ends with no block open, and its closed
  blocks are exactly the blocks the translator has built, in their order.
\<close>

theorem chat_answer_assembled:
  assumes "chat_request C p opt = Inr rq" and "cv_network C rq = Answer status headers bs BodyDone" and "is_success status"
    and "bom_whole bs" and "map snd (stream_events (cut_bom (concat bs))) = ds @ [''[DONE]'']" and "''[DONE]'' \<notin> set ds"
    and "map (wr_parse (cv_wire C)) ds = map Some ws" and "fold_sum (chat_payload (cv_wire C)) ws ([], new_chat) = Inr (cs, T)"
  shows "keeps_contract (chat_call C p opt) new_view \<and> sa_open (accumulate (chat_call C p opt)) = [] \<and>
    sa_closed (accumulate (chat_call C p opt)) = wire_content (ct_order T)"
  using chat_call_assembles [OF assms] by simp

definition hi_translator :: chat_translator where
  "hi_translator = snd (projr (fold_sum (chat_payload demo_wire) [delta_payload ''hi'', stop_payload] ([], new_chat)))"

theorem chat_answer_assembled_witness:
  "keeps_contract (chat_call (demo_call cut_pieces) default_config demo_options) new_view \<and>
   sa_open (accumulate (chat_call (demo_call cut_pieces) default_config demo_options)) = [] \<and>
   sa_closed (accumulate (chat_call (demo_call cut_pieces) default_config demo_options)) = wire_content (ct_order hi_translator)"
proof (rule chat_answer_assembled)
  show "chat_request (demo_call cut_pieces) default_config demo_options = Inr (projr (chat_request (demo_call cut_pieces) default_config demo_options))"
    by code_simp
  show "cv_network (demo_call cut_pieces) (projr (chat_request (demo_call cut_pieces) default_config demo_options)) =
      Answer 200 [] cut_pieces BodyDone" by (simp add: demo_call_def)
  show "is_success 200" by (simp add: is_success_def)
  show "bom_whole cut_pieces" by code_simp
  show "map snd (stream_events (cut_bom (concat cut_pieces))) = [''hi'', ''stop''] @ [''[DONE]'']" by code_simp
  show "''[DONE]'' \<notin> set [''hi'', ''stop'']" by simp
  show "map (wr_parse (cv_wire (demo_call cut_pieces))) [''hi'', ''stop''] = map Some [delta_payload ''hi'', stop_payload]"
    by (simp add: demo_call_def demo_wire_def)
  show "fold_sum (chat_payload (cv_wire (demo_call cut_pieces))) [delta_payload ''hi'', stop_payload] ([], new_chat) =
      Inr (fst (projr (fold_sum (chat_payload demo_wire) [delta_payload ''hi'', stop_payload] ([], new_chat))), hi_translator)"
    by code_simp
qed

text \<open>
  C26. The second finish. Take a successful answer whose first pieces are a complete chat stream, as in the property
  above, and let something follow it: pieces that carry another event, or a connection that breaks off. The call first
  delivers the complete answer with its finish, and then a second finish with an error: the contract is broken, and
  the agent loop, which keeps the last finish, takes the complete answer for a failed or aborted one.
\<close>

theorem finish_twice:
  assumes "chat_request C p opt = Inr rq" and "cv_network C rq = Answer status headers (bs @ extra) fin" and "is_success status"
    and "bom_whole bs" and "bom_whole (bs @ extra)" and "map snd (stream_events (cut_bom (concat bs))) = ds @ [''[DONE]'']" and "''[DONE]'' \<notin> set ds"
    and "map (wr_parse (cv_wire C)) ds = map Some ws" and "fold_sum (chat_payload (cv_wire C)) ws ([], new_chat) = Inr (cs, T)"
    and "fin \<noteq> BodyDone \<or> (\<exists>e more. stream_events (cut_bom (concat (bs @ extra))) = stream_events (cut_bom (concat bs)) @ e # more)"
  shows "\<exists>answer f. chat_call C p opt = answer @ [Finish f] \<and> keeps_contract answer new_view \<and> sv_finished (see_all answer new_view) \<and>
    sa_closed (accumulate answer) = wire_content (ct_order T) \<and> \<not> keeps_contract (chat_call C p opt) new_view \<and>
    sa_failure (accumulate (chat_call C p opt)) \<noteq> None \<and> sa_why (accumulate (chat_call C p opt)) \<in> {FinishError, FinishAborted}"
proof -
  from chat_call_overrun [OF assms] obtain answer g where a: "chat_call C p opt = answer @ [Finish (finish_from g)]"
    "keeps_contract answer new_view" "sv_finished (see_all answer new_view)" "sa_closed (accumulate answer) = wire_content (ct_order T)"
    by blast
  then show ?thesis by (auto simp: keeps_append accumulate_def finish_from_def)
qed

theorem finish_twice_witness:
  "\<exists>answer f. chat_call (demo_call overrun_pieces) default_config demo_options = answer @ [Finish f] \<and> keeps_contract answer new_view \<and>
    sa_closed (accumulate answer) = wire_content (ct_order hi_translator) \<and>
    sa_failure (accumulate (chat_call (demo_call overrun_pieces) default_config demo_options)) \<noteq> None"
proof -
  let ?C = "demo_call overrun_pieces"
  have r: "chat_request ?C default_config demo_options = Inr (projr (chat_request ?C default_config demo_options))" by code_simp
  have n: "cv_network ?C (projr (chat_request ?C default_config demo_options)) =
      Answer 200 [] ([data_line ''hi'' @ data_line ''stop'' @ data_line ''[DONE]''] @ [data_line ''hi'']) BodyDone"
    by (simp add: demo_call_def overrun_pieces_def)
  have s: "is_success 200" by (simp add: is_success_def)
  have w: "bom_whole [data_line ''hi'' @ data_line ''stop'' @ data_line ''[DONE]'']"
    "bom_whole ([data_line ''hi'' @ data_line ''stop'' @ data_line ''[DONE]''] @ [data_line ''hi''])" by code_simp+
  have e: "map snd (stream_events (cut_bom (concat [data_line ''hi'' @ data_line ''stop'' @ data_line ''[DONE]'']))) =
      [''hi'', ''stop''] @ [''[DONE]'']" by code_simp
  have d: "''[DONE]'' \<notin> set [''hi'', ''stop'']" by simp
  have m: "map (wr_parse (cv_wire ?C)) [''hi'', ''stop''] = map Some [delta_payload ''hi'', stop_payload]"
    by (simp add: demo_call_def demo_wire_def)
  have f: "fold_sum (chat_payload (cv_wire ?C)) [delta_payload ''hi'', stop_payload] ([], new_chat) =
      Inr (fst (projr (fold_sum (chat_payload demo_wire) [delta_payload ''hi'', stop_payload] ([], new_chat))), hi_translator)"
    by code_simp
  have "stream_events (cut_bom (concat ([data_line ''hi'' @ data_line ''stop'' @ data_line ''[DONE]''] @ [data_line ''hi'']))) =
      stream_events (cut_bom (concat [data_line ''hi'' @ data_line ''stop'' @ data_line ''[DONE]''])) @ ([], ''hi'') # []" by code_simp
  then have x: "BodyDone \<noteq> BodyDone \<or> (\<exists>e more. stream_events (cut_bom (concat ([data_line ''hi'' @ data_line ''stop'' @ data_line ''[DONE]''] @ [data_line ''hi'']))) =
      stream_events (cut_bom (concat [data_line ''hi'' @ data_line ''stop'' @ data_line ''[DONE]''])) @ e # more)" by blast
  from finish_twice [OF r n s w e d m f x] show ?thesis by blast
qed

section \<open>Requests and routes\<close>

text \<open>
  C28. Roles in a Messages request. When a request can be built from a conversation, with system updates
  inside the history or without, its first message is not a system message, user and assistant turns never
  repeat, and system messages only follow a user turn or each other.
\<close>

theorem messages_roles_alternate:
  assumes "build_messages N in_history ms = Inr B"
  shows "successively may_follow (map fst (mb_messages B)) \<and> (mb_messages B \<noteq> [] \<longrightarrow> fst (hd (mb_messages B)) \<noteq> ''system'') \<and>
    fst ` set (mb_messages B) \<subseteq> {''user'', ''assistant'', ''system''}"
  using build_messages_ok [OF assms] by (simp add: turns_ok_def)

definition says :: "llm_role \<Rightarrow> string \<Rightarrow> llm_message" where
  "says r t = \<lparr>lm_role = r, lm_content = [TextBlock t], lm_replay_state = None\<rparr>"

definition updated_history :: "llm_message list" where
  "updated_history = [says LlmUser ''a'', says LlmUser ''b'', says LlmSystem ''new rules'', says LlmAssistant ''c'', says LlmUser ''d'']"

theorem messages_roles_alternate_witness:
  "successively may_follow (map fst (mb_messages (projr (build_messages demo_wire True updated_history)))) \<and>
   fst ` set (mb_messages (projr (build_messages demo_wire True updated_history))) \<subseteq> {''user'', ''assistant'', ''system''} \<and>
   map fst (mb_messages (projr (build_messages demo_wire True updated_history))) = [''user'', ''system'', ''assistant'', ''user'']"
proof -
  have b: "build_messages demo_wire True updated_history = Inr (projr (build_messages demo_wire True updated_history))" by code_simp
  have "map fst (mb_messages (projr (build_messages demo_wire True updated_history))) = [''user'', ''system'', ''assistant'', ''user'']"
    by code_simp
  with messages_roles_alternate [OF b] show ?thesis by blast
qed

text \<open>
  Adapters. Registering an adapter answers the routes it names and no other; it fails without an effect
  when one of them is taken; and its cleanup gives every route the answer it had before.
\<close>

theorem adapter_registration_local:
  "case register_adapter ps a R of
     Inl f \<Rightarrow> \<exists>p \<in> set ps. map_of R p \<noteq> None
   | Inr R' \<Rightarrow> \<forall>q. map_of R' q = (if q \<in> set ps then Some a else map_of R q) \<and> map_of (unregister_adapter ps R') q = map_of R q"
proof (cases "register_adapter ps a R")
  case (Inl f)
  then show ?thesis by (auto simp: register_adapter_def find_Some_iff split: option.splits)
next
  case (Inr R')
  then show ?thesis by (simp add: register_adapter_facts [OF Inr])
qed

section \<open>Retries\<close>

text \<open>
  C29. Delays. A retry waits at most the policy's limit, and at least a millisecond or that limit if it is less (a
  configured limit of zero means no delay), whatever the jitter and whatever the provider asks for. None is granted once the
  stop token is set, and in normal mode only an eligible failure below the policy's count is retried.
\<close>

theorem retry_delay_bounds:
  assumes "decide J stopped msg p = Some t"
  shows "min 1 (sint (rp_max_delay p)) \<le> t \<and> t \<le> sint (rp_max_delay p) \<and> \<not> stopped \<and>
    (rp_mode p = RetryNormal \<longrightarrow> re_attempt msg < rp_max_retries p \<and> eligible (lf_code (re_failure msg)) (rp_codes p))"
  using decide_range [OF assms] decide_normal [OF assms] by blast

definition busy_msg :: "32 word \<Rightarrow> request_error_msg" where
  "busy_msg n = \<lparr>re_session = ''s'', re_turn = 1, re_step = 1, re_provider = ''openai'', re_model = ''m'', re_attempt = n,
     re_failure = plain_failure RateLimit ''busy'', re_stop = None, re_retry = False\<rparr>"

definition steady_policy :: retry_policy where
  "steady_policy = \<lparr>rp_mode = RetryNormal, rp_max_retries = 5, rp_codes = [], rp_initial = 500, rp_max_delay = 10000, rp_jitter = 0\<rparr>"

theorem retry_delay_bounds_witness:
  "map (\<lambda>n. decide (\<lambda>d. d) False (busy_msg n) steady_policy) [0, 1, 2, 3, 4, 5] =
     [Some 500, Some 1000, Some 2000, Some 4000, Some 8000, None] \<and>
   min 1 (sint (rp_max_delay steady_policy)) \<le> 8000 \<and> 8000 \<le> sint (rp_max_delay steady_policy) \<and>
   min 1 (sint (rp_max_delay (steady_policy\<lparr>rp_max_delay := 0\<rparr>))) \<le> 0"
proof -
  have "map (\<lambda>n. decide (\<lambda>d. d) False (busy_msg n) steady_policy) [0, 1, 2, 3, 4, 5] =
     [Some 500, Some 1000, Some 2000, Some 4000, Some 8000, None]" by code_simp
  moreover have "decide (\<lambda>d. d) False (busy_msg 4) steady_policy = Some 8000" by code_simp
  moreover have "decide (\<lambda>d. d) False (busy_msg 4) (steady_policy\<lparr>rp_max_delay := 0\<rparr>) = Some 0" by code_simp
  ultimately show ?thesis
    using retry_delay_bounds [of "\<lambda>d. d" False "busy_msg 4" steady_policy 8000]
      retry_delay_bounds [of "\<lambda>d. d" False "busy_msg 4" "steady_policy\<lparr>rp_max_delay := 0\<rparr>" 0] by blast
qed

text \<open>
  C30. Turns end. With the retry listener in front of the agent loop's waterfall and normal policies on every
  route, whatever their limits, the turn needs no premise of its own on retries: if everything else a turn
  awaits returns, the turn returns.
\<close>

theorem retried_turn_returns:
  assumes "env_returns E" and "leaves_alone following" and "\<And>provider. rp_mode (policy_for R provider) = RetryNormal"
  shows "run_turn (with_retry R following E) d w \<noteq> None"
  using turn_returns_in [OF retry_env_returns [where R = R, OF assms], of d w] by (simp add: ends_def)

definition patient :: retry_env where
  "patient = \<lparr>rt_policy = (\<lambda>_. Some steady_policy), rt_config = \<lparr>cf_parse = (\<lambda>_. Inl []), cf_file = (\<lambda>_. None), cf_double = (\<lambda>_. 0),
     cf_decimal = (\<lambda>_. 0), cf_not_object = []\<rparr>, rt_jittered = (\<lambda>_ _ d. d), rt_wait = (\<lambda>_ w. w)\<rparr>"

definition pass_on :: "retry_msg \<Rightarrow> retry_msg action" where
  "pass_on m = give m"

definition down :: "stream_chunk list" where
  "down = [Finish (finish_from (plain_failure Server ''down''))]"

theorem retried_turn_returns_witness:
  "run_turn (with_retry patient pass_on (scripted (\<lambda>_. give down))) 0 woken \<noteq> None"
proof (rule retried_turn_returns)
  show "env_returns (scripted (\<lambda>_. give down))"
    unfolding env_returns_def scripted_def by (auto simp: returns_def ends_def give_def gives_up_def)
  show "leaves_alone pass_on" by (simp add: leaves_alone_def pass_on_def give_def)
  show "rp_mode (policy_for patient p) = RetryNormal" for p by (simp add: policy_for_def patient_def steady_policy_def)
qed

text \<open>
  C31. Without end. In always mode, a model whose stream keeps failing is asked again without end as long as
  the stop token is not set: the step does not return, with any number of attempts behind it.
\<close>

theorem always_mode_runs_on:
  assumes "\<And>w. ae_stream E g w = Some (Inr cs, w)" and "sa_why (accumulate cs) = FinishError" and "sa_failure (accumulate cs) \<noteq> None"
    and "\<And>provider. rp_mode (policy_for R provider) = RetryAlways" and "\<And>t w. rt_wait R t w = w" and "\<not> stop_requested d w"
  shows "stream_attempts (with_retry R following E) d r turn step g n w = None"
  using always_never_gives_up [OF assms] .

definition stubborn :: retry_env where
  "stubborn = patient\<lparr>rt_policy := \<lambda>_. Some (steady_policy\<lparr>rp_mode := RetryAlways\<rparr>)\<rparr>"

theorem always_mode_runs_on_witness:
  "stream_attempts (with_retry stubborn pass_on (scripted (\<lambda>_. give down))) 0 0 1 1 (generate_options.truncate demo_options) 7 woken = None"
proof (rule always_mode_runs_on [where cs = down])
  show "ae_stream (scripted (\<lambda>_. give down)) (generate_options.truncate demo_options) w = Some (Inr down, w)" for w
    by (simp add: scripted_def give_def)
  show "sa_why (accumulate down) = FinishError" "sa_failure (accumulate down) \<noteq> None" by code_simp+
  show "rp_mode (policy_for stubborn p) = RetryAlways" for p by (simp add: policy_for_def stubborn_def)
  show "rt_wait stubborn t w = w" for t w by (simp add: stubborn_def patient_def)
  show "\<not> stop_requested 0 woken" by code_simp
qed

end
