(* ===== verification/Query.thy ===== *)
theory Query
  imports Sessions
begin

text \<open>
  The session query engine in memory (\<open>plugins/session-query/src/query.cpp\<close>): text matching, the surface of an
  event, filters, ranked search with cursors, exact reads and the two traces. The store of live sessions is
  the one of \<open>Sessions\<close>; the durable backend is a parameter whose reads may throw. Logging is left out.
  \<open>std::sort\<close> is modelled by a sort on the whole key of the comparison, so hits that compare equal keep their
  order here and are unordered in the program. Positions and counts are natural numbers.
\<close>

section \<open>Matching text\<close>

function split_words :: "string \<Rightarrow> string list" where
  "split_words text =
     (case dropWhile is_space text of
        [] \<Rightarrow> []
      | c # cs \<Rightarrow> takeWhile (\<lambda>c. \<not> is_space c) (c # cs) # split_words (dropWhile (\<lambda>c. \<not> is_space c) (c # cs)))"
  by pat_completeness auto

lemma dropWhile_shorter: "dropWhile P xs = y # ys \<Longrightarrow> \<not> P y \<and> length ys < length xs"
  using hd_dropWhile [of P xs] length_dropWhile_le [of P xs] by auto

termination split_words
  by (relation "measure length") (auto dest!: dropWhile_shorter intro: le_less_trans [OF length_dropWhile_le])

declare split_words.simps [simp del]

record match_info =
  mi_count :: nat
  mi_first :: "nat option"
  mi_length :: nat

definition word_at :: "string \<Rightarrow> nat \<Rightarrow> string \<Rightarrow> bool" where
  "word_at text p w \<longleftrightarrow> p + length w \<le> length text \<and> map lower_char (take (length w) (drop p text)) = map lower_char w"

definition skip_blanks :: "string \<Rightarrow> nat \<Rightarrow> nat" where
  "skip_blanks text p = p + length (takeWhile is_space (drop p text))"

text \<open>The words from a position on, with at least one blank between two of them; the position behind them.\<close>

fun match_words :: "string \<Rightarrow> nat \<Rightarrow> string list \<Rightarrow> nat option" where
  "match_words text p [] = Some p"
| "match_words text p [w] = (if word_at text p w then Some (p + length w) else None)"
| "match_words text p (w # v # ws) =
     (if \<not> word_at text p w then None
      else if p + length w \<ge> length text \<or> \<not> is_space (text ! (p + length w)) then None
      else match_words text (skip_blanks text (p + length w)) (v # ws))"

text \<open>
  The scan. A match ends behind its start when no word is empty, and the words of \<open>split_words\<close> are not; on
  empty ones the loop of the program would not end, and the model stops where it would not advance.
\<close>

function match_loop :: "string \<Rightarrow> string list \<Rightarrow> nat \<Rightarrow> match_info \<Rightarrow> match_info" where
  "match_loop text words i m =
     (if i \<ge> length text then m
      else (case match_words text i words of
              Some p \<Rightarrow>
                if p \<le> i then m
                else match_loop text words p
                  (m\<lparr>mi_count := mi_count m + 1,
                     mi_first := (if mi_count m = 0 then Some i else mi_first m),
                     mi_length := (if mi_count m = 0 then p - i else mi_length m)\<rparr>)
            | None \<Rightarrow> match_loop text words (Suc i) m))"
  by pat_completeness auto
termination
  by (relation "measure (\<lambda>(text, words, i, m). length text - i)") auto

declare match_loop.simps [simp del]

definition no_match :: match_info where
  "no_match = \<lparr>mi_count = 0, mi_first = None, mi_length = 0\<rparr>"

definition find_matches :: "string \<Rightarrow> string list \<Rightarrow> match_info" where
  "find_matches text words = (if words = [] \<or> text = [] then no_match else match_loop text words 0 no_match)"

definition dots :: string where "dots = ''...''"

definition make_snippet :: "string \<Rightarrow> match_info \<Rightarrow> string" where
  "make_snippet text m =
     (if text = [] then []
      else (case mi_first m of
              None \<Rightarrow> take 160 text
            | Some first \<Rightarrow>
                let start = (if first > 160 div 3 then first - 160 div 3 else 0); fin = min (length text) (start + 160)
                in (if start > 0 then dots else []) @ take (fin - start) (drop start text) @ (if fin < length text then dots else [])))"

section \<open>The text of an event\<close>

definition append_piece :: "string \<Rightarrow> string \<Rightarrow> string" where
  "append_piece out t = (if t = [] then out else (if out = [] then [] else out @ [newline]) @ t)"

lemma member_smaller: "member m k = Some v \<Longrightarrow> size v < size (JObject m)"
proof -
  assume "member m k = Some v"
  then have "(k, v) \<in> set m" by (simp add: member_def map_of_SomeD)
  then show ?thesis by (induction m) auto
qed

function append_text_value :: "json \<Rightarrow> string \<Rightarrow> string" where
  "append_text_value v out =
     (case v of
        JString t \<Rightarrow> append_piece out t
      | JArray vs \<Rightarrow>
          fold (\<lambda>block out.
            case block of
              JObject m \<Rightarrow>
                let ty = get_string_at m ''type''
                in if ty = ''text'' then append_piece out (get_string_at m ''text'')
                   else if ty = ''tool_call''
                   then append_piece out (get_string_at m ''name'' @
                          (if get_string_at m ''arguments'' = [] then [] else '' '' @ get_string_at m ''arguments''))
                   else if ty = ''tool_result''
                   then (case member m ''content'' of None \<Rightarrow> out | Some c \<Rightarrow> append_text_value c out)
                   else out
            | _ \<Rightarrow> append_text_value block out) vs out
      | _ \<Rightarrow> out)"
  by pat_completeness auto

lemma element_smaller: "x \<in> set vs \<Longrightarrow> size x < size (JArray vs)"
  by (induction vs) auto

termination append_text_value
  by (relation "measure (\<lambda>(v, out). size v)")
    (auto dest!: element_smaller member_smaller)

declare append_text_value.simps [simp del]

definition message_content :: "json_object \<Rightarrow> bool \<Rightarrow> json option" where
  "message_content m wrapped =
     (if \<not> wrapped then member m ''content'' else Option.bind (get_object m ''message'') (\<lambda>x. member x ''content''))"

definition extract_event_text :: "session_event \<Rightarrow> string" where
  "extract_event_text ev =
     (case as_object (ev_data ev) of
        None \<Rightarrow> []
      | Some m \<Rightarrow>
          let text_of = (\<lambda>wrapped. case message_content m wrapped of None \<Rightarrow> [] | Some c \<Rightarrow> append_text_value c [])
          in if ev_type ev = ''user/message'' then text_of False
             else if ev_type ev = ''assistant/message'' \<or> ev_type ev = ''system/message'' then text_of True
             else if ev_type ev = ''tool/result'' then text_of False
             else if ev_type ev = ''turn/end''
             then (let reason = get_string_at m ''reason'' in if reason \<noteq> ''completed'' \<and> reason \<noteq> ''max_tokens'' then reason else [])
             else [])"

section \<open>Where an event is\<close>

datatype event_surface = OnSurface | Shadowed | LogOnly

definition surface_name :: "event_surface \<Rightarrow> string" where
  "surface_name s = (case s of OnSurface \<Rightarrow> ''current'' | Shadowed \<Rightarrow> ''shadowed'' | LogOnly \<Rightarrow> ''log-only'')"

text \<open>
  The set of shadowed numbers is a list of spans: the program inserts every number of a span, however many
  those are.
\<close>

definition classify_step :: "session_event \<Rightarrow> session_surface \<times> (session_seq \<times> session_seq) list \<Rightarrow> session_surface \<times> (session_seq \<times> session_seq) list" where
  "classify_step ev acc =
     (case acc of (s, spans) \<Rightarrow>
        let plan = fold_event ev []
        in (case sp_action plan of
              PlanAppend \<Rightarrow> (case sp_message plan of None \<Rightarrow> (s, spans) | Some m \<Rightarrow> (surface_push (ev_seq ev) m s, spans))
            | PlanReplace \<Rightarrow> (surface_replace (sp_start plan) (sp_end plan) (ev_seq ev) (sp_message plan) s,
                              spans @ [(sp_start plan, sp_end plan)])
            | PlanNone \<Rightarrow> (s, spans)))"

definition classify_surfaces :: "session_event list \<Rightarrow> event_surface list" where
  "classify_surfaces evs =
     (case fold classify_step evs (empty_surface, []) of (s, spans) \<Rightarrow>
        map (\<lambda>ev. if ev_seq ev \<in> set (sf_source_seqs s) then OnSurface
                  else if list_ex (\<lambda>(start, fin). in_span start fin (ev_seq ev)) spans then Shadowed else LogOnly) evs)"

section \<open>Filters\<close>

datatype session_clause = ById | ByCwd | ByCreatedAt | ByParent | ByAvailability

record session_filter =
  sq_clause :: session_clause
  sq_values :: "string list"
  sq_allow_root :: bool
  sq_from :: "64 word option"
  sq_to :: "64 word option"

datatype event_clause = BySeq | ByTime | ByType | BySurface | ByText

record event_filter =
  eq_clause :: event_clause
  eq_values :: "string list"
  eq_from :: "64 word option"
  eq_to :: "64 word option"
  eq_text :: string

record event_record =
  er_session :: session_id
  er_seq :: session_seq
  er_type :: string
  er_time :: "64 word"
  er_surface :: event_surface

text \<open>Signed bounds.\<close>

definition in_range :: "64 word option \<Rightarrow> 64 word option \<Rightarrow> 64 word \<Rightarrow> bool" where
  "in_range from to x \<longleftrightarrow>
     (case from of None \<Rightarrow> True | Some a \<Rightarrow> \<not> sint x < sint a) \<and> (case to of None \<Rightarrow> True | Some b \<Rightarrow> \<not> sint x > sint b)"

definition session_filter_passes :: "session_filter \<Rightarrow> session_header \<Rightarrow> bool \<Rightarrow> bool \<Rightarrow> bool" where
  "session_filter_passes f h live persisted \<longleftrightarrow>
     (case sq_clause f of
        ById \<Rightarrow> sh_id h \<in> set (sq_values f)
      | ByCwd \<Rightarrow> (case sh_cwd h of None \<Rightarrow> False | Some d \<Rightarrow> d \<in> set (sq_values f))
      | ByCreatedAt \<Rightarrow> in_range (sq_from f) (sq_to f) (sh_created_at h)
      | ByParent \<Rightarrow> (case sh_parent_session h of None \<Rightarrow> sq_allow_root f | Some p \<Rightarrow> p \<in> set (sq_values f))
      | ByAvailability \<Rightarrow> ''live'' \<in> set (sq_values f) \<and> live \<or> ''persisted'' \<in> set (sq_values f) \<and> persisted)"

definition session_matches :: "session_filter list \<Rightarrow> session_header \<Rightarrow> bool \<Rightarrow> bool \<Rightarrow> bool" where
  "session_matches fs h live persisted \<longleftrightarrow> list_all (\<lambda>f. session_filter_passes f h live persisted) fs"

definition event_filter_passes :: "event_filter \<Rightarrow> event_record \<Rightarrow> string \<Rightarrow> bool" where
  "event_filter_passes f r text \<longleftrightarrow>
     (case eq_clause f of
        BySeq \<Rightarrow> in_range (eq_from f) (eq_to f) (er_seq r)
      | ByTime \<Rightarrow> in_range (eq_from f) (eq_to f) (er_time r)
      | ByType \<Rightarrow> er_type r \<in> set (eq_values f)
      | BySurface \<Rightarrow> surface_name (er_surface r) \<in> set (eq_values f)
      | ByText \<Rightarrow> mi_count (find_matches text (split_words (eq_text f))) \<noteq> 0)"

definition event_matches :: "event_filter list \<Rightarrow> event_record \<Rightarrow> string \<Rightarrow> bool" where
  "event_matches fs r text \<longleftrightarrow> list_all (\<lambda>f. event_filter_passes f r text) fs"

section \<open>Sessions, live and stored\<close>

record session_record =
  sr_header :: session_header
  sr_live :: bool
  sr_persisted :: bool

record session_source =
  sx_header :: session_header
  sx_events :: "session_event list"
  sx_live :: bool
  sx_persisted :: bool

text \<open>The durable backend: its ids, and what it reads for one, where \<open>None\<close> is an exception.\<close>

record persistence_env =
  pv_list :: "session_id list"
  pv_read :: "session_id \<Rightarrow> (session_header \<times> session_event list) option option"

record 'st query_env =
  qe_store :: "'st session_store option"
  qe_persistence :: "persistence_env option"

definition live_session :: "'st query_env \<Rightarrow> session_id \<Rightarrow> session option" where
  "live_session Q i = Option.bind (qe_store Q) (\<lambda>st. map_option (\<lambda>r. ss_objects st ! r) (get_session i st))"

definition stored_session :: "'st query_env \<Rightarrow> session_id \<Rightarrow> (session_header \<times> session_event list) option" where
  "stored_session Q i = Option.bind (qe_persistence Q) (\<lambda>p. case pv_read p i of Some x \<Rightarrow> x | None \<Rightarrow> None)"

definition add_stored :: "'st query_env \<Rightarrow> session_id \<Rightarrow> (string, session_record) omap \<Rightarrow> (string, session_record) omap" where
  "add_stored Q i m =
     (case stored_session Q i of
        None \<Rightarrow> m
      | Some (h, evs) \<Rightarrow> om_insert (sh_id h) \<lparr>sr_header = h, sr_live = False, sr_persisted = True\<rparr> m)"

definition add_live :: "'st query_env \<Rightarrow> session_id \<Rightarrow> (string, session_record) omap \<Rightarrow> (string, session_record) omap" where
  "add_live Q i m =
     (case live_session Q i of
        None \<Rightarrow> m
      | Some s \<Rightarrow> om_insert i \<lparr>sr_header = se_header s, sr_live = True,
          sr_persisted = (case map_of m i of None \<Rightarrow> False | Some r \<Rightarrow> sr_persisted r)\<rparr> m)"

definition newest_first :: "session_record \<Rightarrow> int \<times> string" where
  "newest_first r = (- sint (sh_created_at (sr_header r)), sh_id (sr_header r))"

definition known_sessions :: "'st query_env \<Rightarrow> (string, session_record) omap" where
  "known_sessions Q =
     (let m = (case qe_persistence Q of None \<Rightarrow> [] | Some p \<Rightarrow> fold (add_stored Q) (pv_list p) [])
      in (case qe_store Q of None \<Rightarrow> m | Some st \<Rightarrow> fold (add_live Q) (Sessions.list_sessions st) m))"

definition list_records :: "'st query_env \<Rightarrow> session_record list" where
  "list_records Q = sort_key newest_first (map snd (known_sessions Q))"

definition read_session :: "'st query_env \<Rightarrow> session_id \<Rightarrow> session_source option" where
  "read_session Q i =
     (case live_session Q i of
        Some s \<Rightarrow> Some \<lparr>sx_header = se_header s, sx_events = se_log s, sx_live = True, sx_persisted = stored_session Q i \<noteq> None\<rparr>
      | None \<Rightarrow>
          (case stored_session Q i of
             Some (h, evs) \<Rightarrow> Some \<lparr>sx_header = h, sx_events = evs, sx_live = False, sx_persisted = True\<rparr>
           | None \<Rightarrow> None))"

definition filter_sessions :: "'st query_env \<Rightarrow> session_filter list \<Rightarrow> session_record list" where
  "filter_sessions Q fs = filter (\<lambda>r. session_matches fs (sr_header r) (sr_live r) (sr_persisted r)) (list_records Q)"

section \<open>Ranked search\<close>

datatype query_error_code = InvalidQuery | InvalidCursor | SessionNotFound

text \<open>A \<open>query_error\<close>, or the exception of \<open>std::stoull\<close> on a cursor too large.\<close>

datatype query_failure = QueryError query_error_code string | NumberOutOfRange

record event_hit = event_record +
  eh_snippet :: string

record ranked_hit =
  rh_hit :: event_hit
  rh_count :: nat
  rh_length :: nat
  rh_text :: string

definition event_at :: "session_id \<Rightarrow> session_event \<Rightarrow> event_surface \<Rightarrow> event_record" where
  "event_at i ev surface = \<lparr>er_session = i, er_seq = ev_seq ev, er_type = ev_type ev, er_time = ev_time ev, er_surface = surface\<rparr>"

definition as_hit :: "event_record \<Rightarrow> string \<Rightarrow> event_hit" where
  "as_hit r snippet = event_record.extend r (event_hit.fields snippet)"

definition better_event :: "ranked_hit \<Rightarrow> int \<times> nat \<times> int \<times> int" where
  "better_event r = (- int (rh_count r), rh_length r, - sint (er_time (rh_hit r)), - uint (er_seq (rh_hit r)))"

definition rank_event :: "session_id \<Rightarrow> event_filter list \<Rightarrow> string list \<Rightarrow> session_event \<times> event_surface \<Rightarrow> ranked_hit option" where
  "rank_event i fs words es =
     (let text = extract_event_text (fst es); r = event_at i (fst es) (snd es); m = find_matches text words
      in if \<not> event_matches fs r text then None
         else if mi_count m = 0 then None
         else Some \<lparr>rh_hit = as_hit r (make_snippet text m), rh_count = mi_count m, rh_length = length text, rh_text = text\<rparr>)"

definition rank_events :: "session_source \<Rightarrow> event_filter list \<Rightarrow> string list \<Rightarrow> ranked_hit list" where
  "rank_events src fs words =
     sort_key better_event
       (List.map_filter (rank_event (sh_id (sx_header src)) fs words) (zip (sx_events src) (classify_surfaces (sx_events src))))"

definition encode_cursor :: "nat \<Rightarrow> string" where
  "encode_cursor n = ''v1:'' @ show_nat n"

definition invalid_cursor :: query_failure where
  "invalid_cursor = QueryError InvalidCursor ''invalid cursor''"

definition decode_cursor :: "string \<Rightarrow> query_failure + nat" where
  "decode_cursor c =
     (if c = [] then Inr 0
      else if take 3 c \<noteq> ''v1:'' then Inl invalid_cursor
      else if drop 3 c = [] \<or> \<not> list_all is_digit (drop 3 c) then Inl invalid_cursor
      else if read_nat (drop 3 c) \<ge> 2 ^ 64 then Inl NumberOutOfRange
      else Inr (read_nat (drop 3 c)))"

text \<open>One page of ranked hits and the cursor of the next.\<close>

definition page_of :: "nat \<Rightarrow> nat \<Rightarrow> 'a list \<Rightarrow> 'a list \<times> string" where
  "page_of offset limit hits =
     (let items = take (if limit = 0 then 20 else limit) (drop offset hits)
      in (items, if offset + length items < length hits then encode_cursor (offset + length items) else []))"

definition empty_query :: query_failure where
  "empty_query = QueryError InvalidQuery ''query must not be empty''"

definition search_events ::
  "'st query_env \<Rightarrow> session_id \<Rightarrow> string \<Rightarrow> event_filter list \<Rightarrow> nat \<Rightarrow> string \<Rightarrow> query_failure + session_header \<times> event_hit list \<times> string" where
  "search_events Q i query fs limit cursor =
     (let words = split_words query
      in if words = [] then Inl empty_query
         else (case read_session Q i of
                 None \<Rightarrow> Inl (QueryError SessionNotFound (''session not found: '' @ i))
               | Some src \<Rightarrow>
                   and_sum (decode_cursor cursor) (\<lambda>offset. Inr (sx_header src, page_of offset limit (map rh_hit (rank_events src fs words))))))"

definition better_session :: "session_record \<times> event_hit \<Rightarrow> int \<times> string" where
  "better_session h = (- uint (er_seq (snd h)), sh_id (sr_header (fst h)))"

definition best_match :: "'st query_env \<Rightarrow> event_filter list \<Rightarrow> string list \<Rightarrow> session_record \<Rightarrow> (session_record \<times> event_hit) option" where
  "best_match Q fs words r =
     (case read_session Q (sh_id (sr_header r)) of
        None \<Rightarrow> None
      | Some src \<Rightarrow> (case rank_events src fs words of [] \<Rightarrow> None | h # _ \<Rightarrow> Some (r, rh_hit h)))"

definition search_sessions ::
  "'st query_env \<Rightarrow> string \<Rightarrow> session_filter list \<Rightarrow> event_filter list \<Rightarrow> nat \<Rightarrow> string
     \<Rightarrow> query_failure + (session_record \<times> event_hit) list \<times> string" where
  "search_sessions Q query sfs efs limit cursor =
     (let words = split_words query
      in if words = [] then Inl empty_query
         else and_sum (decode_cursor cursor) (\<lambda>offset.
           Inr (page_of offset limit (sort_key better_session (List.map_filter (best_match Q efs words) (filter_sessions Q sfs))))))"

section \<open>Exact reads\<close>

definition event_snippet :: "event_filter list \<Rightarrow> string \<Rightarrow> string" where
  "event_snippet fs text =
     (case List.find (\<lambda>f. eq_clause f = ByText) fs of
        None \<Rightarrow> []
      | Some f \<Rightarrow> make_snippet text (find_matches text (split_words (eq_text f))))"

definition filter_events :: "'st query_env \<Rightarrow> session_id \<Rightarrow> event_filter list \<Rightarrow> event_hit list" where
  "filter_events Q i fs =
     (case read_session Q i of
        None \<Rightarrow> []
      | Some src \<Rightarrow>
          List.map_filter (\<lambda>(ev, surface).
            let text = extract_event_text ev; r = event_at i ev surface
            in if event_matches fs r text then Some (as_hit r (event_snippet fs text)) else None)
            (zip (sx_events src) (classify_surfaces (sx_events src))))"

fun event_index_of :: "session_seq \<Rightarrow> session_event list \<Rightarrow> nat option" where
  "event_index_of sq [] = None"
| "event_index_of sq (ev # evs) = (if ev_seq ev = sq then Some 0 else map_option Suc (event_index_of sq evs))"

record event_read =
  ed_target :: session_event
  ed_before :: "session_event list"
  ed_after :: "session_event list"

definition read_event :: "'st query_env \<Rightarrow> session_id \<Rightarrow> session_seq \<Rightarrow> 32 word \<Rightarrow> 32 word \<Rightarrow> event_read option" where
  "read_event Q i sq before behind =
     (case read_session Q i of
        None \<Rightarrow> None
      | Some src \<Rightarrow>
          (case event_index_of sq (sx_events src) of
             None \<Rightarrow> None
           | Some k \<Rightarrow>
               let evs = sx_events src; back = unat (min before (of_nat k)); fin = min (length evs) (k + 1 + unat behind)
               in Some \<lparr>ed_target = evs ! k, ed_before = take back (drop (k - back) evs), ed_after = take (fin - (k + 1)) (drop (k + 1) evs)\<rparr>))"

definition title_of :: "session_event \<Rightarrow> string option" where
  "title_of ev =
     (if ev_type ev \<noteq> ''user/message'' then None
      else (let text = trim (extract_event_text ev) in if text = [] then None else Some (take 80 text)))"

definition read_title :: "'st query_env \<Rightarrow> session_id \<Rightarrow> string option" where
  "read_title Q i =
     (case read_session Q i of
        None \<Rightarrow> None
      | Some src \<Rightarrow> (case List.map_filter title_of (sx_events src) of [] \<Rightarrow> None | t # _ \<Rightarrow> Some t))"

section \<open>Lineage\<close>

definition records_by_id :: "session_record list \<Rightarrow> (string, session_record) omap" where
  "records_by_id rs = fold (\<lambda>r. om_insert (sh_id (sr_header r)) r) rs []"

function ancestors_from :: "(string, session_record) omap \<Rightarrow> string list \<Rightarrow> session_id option \<Rightarrow> session_record list" where
  "ancestors_from m seen parent =
     (case parent of
        None \<Rightarrow> []
      | Some p \<Rightarrow>
          if p \<in> set seen then []
          else (case map_of m p of None \<Rightarrow> [] | Some r \<Rightarrow> r # ancestors_from m (p # seen) (sh_parent_session (sr_header r))))"
  by pat_completeness auto

lemma unseen_fewer: "map_of m p = Some r \<Longrightarrow> p \<notin> set seen \<Longrightarrow> card (fst ` set m - insert p (set seen)) < card (fst ` set m - set seen)"
proof -
  assume "map_of m p = Some r" and "p \<notin> set seen"
  then have "p \<in> fst ` set m - set seen" by (force dest: map_of_SomeD)
  then have "fst ` set m - insert p (set seen) \<subset> fst ` set m - set seen" by blast
  then show ?thesis by (intro psubset_card_mono) simp_all
qed

termination ancestors_from
  by (relation "measure (\<lambda>(m, seen, parent). card (fst ` set m - set seen))") (auto intro: unseen_fewer)

declare ancestors_from.simps [simp del]

definition children_of :: "session_record list \<Rightarrow> string \<Rightarrow> string list" where
  "children_of rs i = map (\<lambda>r. sh_id (sr_header r)) (filter (\<lambda>r. sh_parent_session (sr_header r) = Some i) rs)"

record descendant_node =
  dn_node :: session_record
  dn_depth :: "32 word"

text \<open>
  The children of one session that are known, as nodes and as entries of the stack; the loop over the stack,
  which has no check for a session it has seen.
\<close>

definition child_nodes :: "(string, session_record) omap \<Rightarrow> session_record list \<Rightarrow> string \<times> 32 word \<Rightarrow> (string \<times> descendant_node) list" where
  "child_nodes m rs e =
     List.map_filter (\<lambda>c. map_option (\<lambda>r. (c, \<lparr>dn_node = r, dn_depth = snd e + 1\<rparr>)) (map_of m c)) (children_of rs (fst e))"

partial_function (option) descend ::
  "(string, session_record) omap \<Rightarrow> session_record list \<Rightarrow> (string \<times> 32 word) list \<Rightarrow> descendant_node list \<Rightarrow> descendant_node list option" where
  "descend m rs frontier acc =
     (if frontier = [] then Some acc
      else (let found = child_nodes m rs (last frontier)
            in descend m rs (butlast frontier @ map (\<lambda>(c, n). (c, dn_depth n)) found) (acc @ map snd found)))"

record session_trace =
  tr_target :: session_record
  tr_ancestors :: "session_record list"
  tr_descendants :: "descendant_node list"

text \<open>The outer \<open>None\<close> is a trace that does not return.\<close>

definition trace_session :: "'st query_env \<Rightarrow> session_id \<Rightarrow> session_trace option option" where
  "trace_session Q i =
     (let rs = list_records Q; m = records_by_id rs
      in (case map_of m i of
            None \<Rightarrow> Some None
          | Some r \<Rightarrow>
              (case descend m rs [(i, 0)] [] of
                 None \<Rightarrow> None
               | Some ds \<Rightarrow>
                   Some (Some \<lparr>tr_target = r, tr_ancestors = ancestors_from m [i] (sh_parent_session (sr_header r)), tr_descendants = ds\<rparr>))))"

section \<open>Replacements\<close>

record event_trace =
  et_target :: event_record
  et_replaced_by :: "event_record option"
  et_chain :: "event_record list"
  et_replaced :: "event_record list"

definition replacement_span :: "session_event \<Rightarrow> (int \<times> int) option" where
  "replacement_span ev =
     (if ev_type ev \<noteq> ''surface/replace'' then None
      else (case as_object (ev_data ev) of
              None \<Rightarrow> None
            | Some m \<Rightarrow>
                (case (opt_int_at m ''start_seq'', opt_int_at m ''end_seq'') of
                   (Some start, Some fin) \<Rightarrow> Some (sint start, sint fin)
                 | _ \<Rightarrow> None)))"

definition covers :: "int \<times> int \<Rightarrow> session_seq \<Rightarrow> bool" where
  "covers span sq \<longleftrightarrow> sint sq \<ge> fst span \<and> sint sq < snd span"

definition trace_step :: "session_seq \<Rightarrow> event_record list \<Rightarrow> session_event \<times> event_record \<Rightarrow> event_trace \<Rightarrow> event_trace" where
  "trace_step sq all er t =
     (case replacement_span (fst er) of
        None \<Rightarrow> t
      | Some span \<Rightarrow>
          let t = (if ev_seq (fst er) = sq then t\<lparr>et_replaced := et_replaced t @ filter (\<lambda>r. covers span (er_seq r)) all\<rparr> else t)
          in if covers span sq then t\<lparr>et_replaced_by := Some (snd er), et_chain := et_chain t @ [snd er]\<rparr> else t)"

definition trace_event :: "'st query_env \<Rightarrow> session_id \<Rightarrow> session_seq \<Rightarrow> event_trace option" where
  "trace_event Q i sq =
     (case read_session Q i of
        None \<Rightarrow> None
      | Some src \<Rightarrow>
          let evs = sx_events src; all = map (\<lambda>(ev, surface). event_at i ev surface) (zip evs (classify_surfaces evs))
          in (case event_index_of sq evs of
                None \<Rightarrow> None
              | Some k \<Rightarrow> Some (fold (trace_step sq all) (zip evs all) \<lparr>et_target = all ! k, et_replaced_by = None, et_chain = [], et_replaced = []\<rparr>)))"

end
