(* ===== verification/QueryLaws.thy ===== *)
theory QueryLaws
  imports Query
begin

text \<open>
  What the query engine guarantees: which texts a word sequence matches, where the events of a log are, that
  the pages of a search are the whole result, and when tracing the lineage of a session returns.
\<close>

section \<open>Words\<close>

lemma split_words_facts: "w \<in> set (split_words t) \<Longrightarrow> w \<noteq> [] \<and> (\<forall>c \<in> set w. \<not> is_space c)"
proof (induction t rule: split_words.induct)
  case (1 t)
  show ?case
  proof (cases "dropWhile is_space t")
    case Nil
    with 1 show ?thesis by (simp add: split_words.simps [of t])
  next
    case (Cons c cs)
    then have "\<not> is_space c" by (auto dest: dropWhile_shorter)
    have e: "split_words t = takeWhile (\<lambda>c. \<not> is_space c) (c # cs) # split_words (dropWhile (\<lambda>c. \<not> is_space c) (c # cs))"
      using Cons by (simp add: split_words.simps [of t])
    have T: "takeWhile (\<lambda>c. \<not> is_space c) (c # cs) \<noteq> [] \<and> (\<forall>x \<in> set (takeWhile (\<lambda>c. \<not> is_space c) (c # cs)). \<not> is_space x)"
      using \<open>\<not> is_space c\<close> by (auto dest: set_takeWhileD)
    consider (head) "w = takeWhile (\<lambda>c. \<not> is_space c) (c # cs)" | (rest) "w \<in> set (split_words (dropWhile (\<lambda>c. \<not> is_space c) (c # cs)))"
      using "1.prems" unfolding e set_simps by blast
    then show ?thesis
    proof cases
      case head
      show ?thesis unfolding head by (rule T)
    next
      case rest
      show ?thesis by (rule "1.IH" [OF Cons rest])
    qed
  qed
qed

lemma space_chars: "is_space c \<longleftrightarrow> of_char c \<in> {32, 9, 13, 10 :: nat}"
proof -
  have e: "(32 :: nat) = of_char (CHR '' '')" "(9 :: nat) = of_char (CHR 0x09)" "(13 :: nat) = of_char (CHR 0x0D)" "(10 :: nat) = of_char (CHR 0x0A)"
    by simp_all
  show ?thesis unfolding is_space_def e insert_iff empty_iff of_char_eq_iff by (rule refl)
qed

text \<open>The spelling of a word sequence: the words up to the case of letters, with blanks between them.\<close>

definition same_letters :: "string \<Rightarrow> string \<Rightarrow> bool" where
  "same_letters s t \<longleftrightarrow> map lower_char s = map lower_char t"

fun spelled :: "string list \<Rightarrow> string \<Rightarrow> bool" where
  "spelled [] t \<longleftrightarrow> t = []"
| "spelled [w] t \<longleftrightarrow> same_letters t w"
| "spelled (w # v # ws) t \<longleftrightarrow>
     (\<exists>a b c. t = a @ b @ c \<and> same_letters a w \<and> b \<noteq> [] \<and> (\<forall>x \<in> set b. is_space x) \<and> spelled (v # ws) c)"

lemma word_at_iff: "word_at body p w \<longleftrightarrow> p + length w \<le> length body \<and> same_letters (take (length w) (drop p body)) w"
  by (simp add: word_at_def same_letters_def)

lemma same_letters_length: "same_letters s t \<Longrightarrow> length s = length t"
  unfolding same_letters_def by (metis length_map)

lemma match_words_spelled:
  assumes "match_words body i words = Some p" and "i \<le> length body"
  shows "i \<le> p \<and> p \<le> length body \<and> spelled words (take (p - i) (drop i body))"
  using assms
proof (induction body i words rule: match_words.induct)
  case (3 body i w v ws)
  let ?j = "i + length w" and ?k = "skip_blanks body (i + length w)"
  from 3 have w: "word_at body i w" and b: "?j < length body" "is_space (body ! ?j)"
    and m: "match_words body ?k (v # ws) = Some p" by (auto split: if_splits)
  let ?b = "takeWhile is_space (drop ?j body)"
  have k: "?k = ?j + length ?b" "length ?b \<le> length body - ?j"
    using length_takeWhile_le [of is_space "drop ?j body"] by (simp_all add: skip_blanks_def)
  have "drop ?j body = body ! ?j # drop (Suc ?j) body" using b(1) by (rule Cons_nth_drop_Suc [symmetric])
  then have b': "?b \<noteq> []" using b(2) by simp
  have bl: "\<forall>x \<in> set ?b. is_space x" by (auto dest: set_takeWhileD)
  from "3.IH" [OF _ _ m] w b k have IH: "?k \<le> p" "p \<le> length body" "spelled (v # ws) (take (p - ?k) (drop ?k body))" by auto
  have tb: "take (length ?b) (drop ?j body) = ?b" by (metis takeWhile_eq_take)
  have "take (p - i) (drop i body) = take (length w) (drop i body) @ take (length ?b) (drop ?j body) @ take (p - ?k) (drop ?k body)"
  proof -
    have "p - i = length w + (length ?b + (p - ?k))" using IH(1) k(1) by simp
    then show ?thesis by (simp add: take_add k(1) add.commute add.left_commute)
  qed
  with w IH b' bl show ?case unfolding tb word_at_iff using k(1) by (auto simp: word_at_iff)
qed (auto simp: word_at_iff split: if_splits)

lemma lower_char_space: "is_space (lower_char c) = is_space c"
  by (auto simp: lower_char_def space_chars of_char_of)

lemma spelled_head:
  assumes "spelled (w # ws) t" and "w \<noteq> []" and "\<not> is_space (hd w)"
  shows "t \<noteq> [] \<and> \<not> is_space (hd t)"
proof -
  have one: "a \<noteq> [] \<and> \<not> is_space (hd a)" if "same_letters a w" for a
  proof -
    have "a \<noteq> []" using that assms(2) same_letters_length by force
    then have "lower_char (hd a) = lower_char (hd w)" using that assms(2) unfolding same_letters_def by (metis hd_map)
    with assms(3) \<open>a \<noteq> []\<close> lower_char_space show ?thesis by metis
  qed
  show ?thesis
  proof (cases ws)
    case (Cons v vs)
    with assms(1) obtain a b c where "t = a @ b @ c" "same_letters a w" by auto
    with one [of a] show ?thesis by auto
  qed (use assms(1) one in simp)
qed

lemma spelled_match_words:
  assumes "spelled words mid" and "\<forall>w \<in> set words. w \<noteq> [] \<and> (\<forall>c \<in> set w. \<not> is_space c)" and "words \<noteq> []"
  shows "match_words (pre @ mid @ post) (length pre) words = Some (length pre + length mid)"
  using assms
proof (induction words mid arbitrary: pre rule: spelled.induct)
  case (2 w t)
  then have "same_letters t w" by simp
  from same_letters_length [OF this] this show ?case by (simp add: word_at_iff)
next
  case (3 w v ws t)
  then obtain a b c where t: "t = a @ b @ c" "same_letters a w" "b \<noteq> []" "\<forall>x \<in> set b. is_space x" "spelled (v # ws) c" by auto
  have l: "length a = length w" by (rule same_letters_length [OF t(2)])
  have "v \<noteq> []" "\<not> is_space (hd v)" using "3.prems"(2) by (auto simp: hd_in_set)
  from spelled_head [OF t(5) this] have c: "c \<noteq> []" "\<not> is_space (hd c)" by auto
  let ?body = "pre @ t @ post"
  have d: "drop (length pre + length w) ?body = b @ c @ post" by (simp add: t(1) l [symmetric])
  have "takeWhile is_space (b @ c @ post) = b"
    using t(4) c by (cases c) (simp_all add: takeWhile_append2)
  then have k: "skip_blanks ?body (length pre + length w) = length (pre @ a @ b)" unfolding skip_blanks_def d by (simp add: l)
  have w: "word_at ?body (length pre) w" using t(2) l by (simp add: word_at_iff t(1))
  have s: "length pre + length w < length ?body" "is_space (?body ! (length pre + length w))"
    using t(3,4) by (simp_all add: t(1) l [symmetric] nth_append)
  have "match_words ((pre @ a @ b) @ c @ post) (length (pre @ a @ b)) (v # ws) = Some (length (pre @ a @ b) + length c)"
    using "3.prems"(2) by (intro "3.IH" [OF t(5)]) auto
  with w s k show ?case by (simp add: t(1))
qed auto

lemma match_words_advances:
  assumes "match_words body i words = Some p" and "i \<le> length body" and "words \<noteq> []" and "[] \<notin> set words"
  shows "i < p"
proof -
  from match_words_spelled [OF assms(1,2)] have p: "i \<le> p" "spelled words (take (p - i) (drop i body))" by auto
  have "i = p \<Longrightarrow> spelled words []" using p(2) by simp
  moreover have "\<not> spelled words []"
  proof (cases words)
    case (Cons w ws)
    with assms(4) show ?thesis by (cases ws) (auto dest!: same_letters_length)
  qed (use assms(3) in simp)
  ultimately show ?thesis using p(1) by force
qed

lemma match_loop_counts:
  assumes "words \<noteq> []" and "[] \<notin> set words"
  shows "mi_count (match_loop body words i m) \<noteq> 0 \<longleftrightarrow> mi_count m \<noteq> 0 \<or> (\<exists>j. i \<le> j \<and> j < length body \<and> match_words body j words \<noteq> None)"
  using assms
proof (induction body words i m rule: match_loop.induct)
  case (1 body words i m)
  show ?case
  proof (cases "i < length body")
    case True
    show ?thesis
    proof (cases "match_words body i words")
      case None
      have e: "match_loop body words i m = match_loop body words (Suc i) m" using True None by (simp add: match_loop.simps [of body words i])
      have "i \<le> j \<longleftrightarrow> j = i \<or> Suc i \<le> j" for j by auto
      with "1.IH"(1) [OF _ None "1.prems"] True None show ?thesis unfolding e by auto
    next
      case (Some p)
      have "i < p" using match_words_advances [OF Some _ "1.prems"] True by simp
      with "1.IH"(2) [OF _ Some _ "1.prems"] True Some show ?thesis
        by (auto simp: match_loop.simps [of body words i])
    qed
  qed (auto simp: match_loop.simps [of body words i])
qed

lemma text_matches:
  assumes "split_words q \<noteq> []"
  shows "mi_count (find_matches body (split_words q)) \<noteq> 0 \<longleftrightarrow> (\<exists>pre mid post. body = pre @ mid @ post \<and> spelled (split_words q) mid)"
proof -
  let ?ws = "split_words q"
  have ne: "[] \<notin> set ?ws" using split_words_facts by blast
  have words: "\<forall>w \<in> set ?ws. w \<noteq> [] \<and> (\<forall>c \<in> set w. \<not> is_space c)" using split_words_facts by blast
  have "mi_count (find_matches body ?ws) \<noteq> 0 \<longleftrightarrow> (\<exists>j. j < length body \<and> match_words body j ?ws \<noteq> None)"
    using match_loop_counts [OF assms ne, of body 0 no_match] assms by (auto simp: find_matches_def no_match_def)
  also have "\<dots> \<longleftrightarrow> (\<exists>pre mid post. body = pre @ mid @ post \<and> spelled ?ws mid)"
  proof
    assume "\<exists>j. j < length body \<and> match_words body j ?ws \<noteq> None"
    then obtain j p where j: "j < length body" "match_words body j ?ws = Some p" by auto
    then have m: "j \<le> p" "spelled ?ws (take (p - j) (drop j body))" using match_words_spelled [OF j(2)] by auto
    have "body = take j body @ take (p - j) (drop j body) @ drop (p - j) (drop j body)" by (metis append_take_drop_id)
    with m(2) show "\<exists>pre mid post. body = pre @ mid @ post \<and> spelled ?ws mid" by blast
  next
    assume "\<exists>pre mid post. body = pre @ mid @ post \<and> spelled ?ws mid"
    then obtain pre mid post where t: "body = pre @ mid @ post" "spelled ?ws mid" by blast
    have "mid \<noteq> []"
    proof (cases ?ws)
      case (Cons w ws)
      with words have "w \<noteq> []" "\<not> is_space (hd w)" by (auto simp: hd_in_set)
      with spelled_head [of w ws mid] t(2) Cons show ?thesis by simp
    qed (use assms in simp)
    with spelled_match_words [OF t(2) words assms, of pre post]
    show "\<exists>j. j < length body \<and> match_words body j ?ws \<noteq> None" by (intro exI [of _ "length pre"]) (simp add: t(1))
  qed
  finally show ?thesis .
qed

section \<open>Surfaces\<close>

definition replaced_span :: "session_event \<Rightarrow> (session_seq \<times> session_seq) option" where
  "replaced_span ev = (let plan = fold_event ev [] in if sp_action plan = PlanReplace then Some (sp_start plan, sp_end plan) else None)"

lemma classify_fold:
  "fold classify_step evs (s, spans) = (fold (surface_fold []) evs s, spans @ List.map_filter replaced_span evs)"
proof (induction evs arbitrary: s spans)
  case (Cons ev evs)
  have "classify_step ev (s, spans) = (surface_fold [] ev s, spans @ (case replaced_span ev of None \<Rightarrow> [] | Some x \<Rightarrow> [x]))"
    using fold_event_ok [of ev "[]"]
    by (cases "sp_action (fold_event ev [])")
      (auto simp: classify_step_def surface_fold_def replaced_span_def plan_ok_def Let_def split: option.split)
  with Cons show ?case by (cases "replaced_span ev") (simp_all add: List.map_filter_def)
qed (simp add: List.map_filter_def)

lemma classified:
  "classify_surfaces evs = map (\<lambda>ev.
     if ev_seq ev \<in> set (sf_source_seqs (surface_of_log [] evs)) then OnSurface
     else if \<exists>e \<in> set evs. \<exists>start fin. replaced_span e = Some (start, fin) \<and> in_span start fin (ev_seq ev) then Shadowed else LogOnly) evs"
proof -
  have "list_ex (\<lambda>(start, fin). in_span start fin sq) (List.map_filter replaced_span evs) \<longleftrightarrow>
      (\<exists>e \<in> set evs. \<exists>start fin. replaced_span e = Some (start, fin) \<and> in_span start fin sq)" for sq
    by (fastforce simp: list_ex_iff List.map_filter_def)
  then show ?thesis by (simp add: classify_surfaces_def classify_fold surface_of_log_def)
qed

section \<open>Pages\<close>

lemma decode_encode: "n < 2 ^ 64 \<Longrightarrow> decode_cursor (encode_cursor n) = Inr n"
proof -
  have "show_nat n \<noteq> []" by (subst show_nat.simps) simp
  then show "n < 2 ^ 64 \<Longrightarrow> decode_cursor (encode_cursor n) = Inr n"
    using show_nat_digits [of n] by (simp add: decode_cursor_def encode_cursor_def list_all_iff)
qed

lemma page_continues:
  assumes "page_of offset limit hits = (items, cursor)" and "offset \<le> length hits" and "length hits < 2 ^ 64"
  shows "if cursor = [] then items = drop offset hits
    else \<exists>n. decode_cursor cursor = Inr n \<and> offset < n \<and> n < length hits \<and> items @ drop n hits = drop offset hits"
proof (cases "offset + length items < length hits")
  case True
  let ?n = "offset + length items"
  define k where "k = (if limit = 0 then 20 else limit)"
  have c: "cursor = encode_cursor ?n" and i: "items = take k (drop offset hits)"
    using assms(1) True by (auto simp: page_of_def Let_def k_def)
  have l: "length items = k" using True by (auto simp: i min_def)
  have "items @ drop ?n hits = take k (drop offset hits) @ drop k (drop offset hits)" by (simp add: l add.commute) (simp add: i)
  also have "\<dots> = drop offset hits" by (rule append_take_drop_id)
  finally have "items @ drop ?n hits = drop offset hits" .
  moreover have "length items > 0" by (simp add: l k_def)
  moreover have "decode_cursor cursor = Inr ?n" unfolding c by (rule decode_encode) (use True assms(3) in simp)
  moreover have "cursor \<noteq> []" by (simp add: c encode_cursor_def)
  ultimately show ?thesis using True by auto
next
  case False
  then show ?thesis using assms(1,2) by (auto simp: page_of_def Let_def)
qed

text \<open>Asking for page after page until there is no cursor.\<close>

fun search_all ::
  "'st query_env \<Rightarrow> session_id \<Rightarrow> string \<Rightarrow> event_filter list \<Rightarrow> nat \<Rightarrow> nat \<Rightarrow> string \<Rightarrow> query_failure + event_hit list" where
  "search_all Q i q fs limit 0 cursor = Inr []"
| "search_all Q i q fs limit (Suc n) cursor =
     and_sum (search_events Q i q fs limit cursor) (\<lambda>(h, items, cursor').
       if cursor' = [] then Inr items
       else and_sum (search_all Q i q fs limit n cursor') (\<lambda>rest. Inr (items @ rest)))"

lemma search_all_from:
  assumes "split_words q \<noteq> []" and "read_session Q i = Some src"
    and "hits = map rh_hit (rank_events src fs (split_words q))" and "length hits < 2 ^ 64"
  shows "decode_cursor cursor = Inr offset \<Longrightarrow> offset \<le> length hits \<Longrightarrow> length hits - offset < n \<Longrightarrow>
    search_all Q i q fs limit n cursor = Inr (drop offset hits)"
proof (induction n arbitrary: cursor offset)
  case (Suc n)
  obtain items c where p: "page_of offset limit hits = (items, c)" by (rule prod.exhaust)
  have s: "search_events Q i q fs limit cursor = Inr (sx_header src, items, c)"
    using assms(1-3) Suc.prems(1) p by (simp add: search_events_def Let_def)
  show ?case
  proof (cases "c = []")
    case True
    with page_continues [OF p Suc.prems(2) assms(4)] show ?thesis by (simp add: s)
  next
    case False
    with page_continues [OF p Suc.prems(2) assms(4)] obtain m where
      m: "decode_cursor c = Inr m" "offset < m" "m < length hits" "items @ drop m hits = drop offset hits" by auto
    have "search_all Q i q fs limit n c = Inr (drop m hits)" by (rule Suc.IH [OF m(1)]) (use m Suc.prems(3) in simp_all)
    with False m(4) show ?thesis by (simp add: s)
  qed
qed simp

section \<open>Lineage\<close>

text \<open>Who is the parent of whom among the known sessions.\<close>

definition parent_of :: "session_record list \<Rightarrow> (string \<times> string) set" where
  "parent_of rs = {(p, sh_id (sr_header r)) | p r. r \<in> set rs \<and> sh_parent_session (sr_header r) = Some p}"

lemma finite_parent_of: "finite (parent_of rs)"
proof -
  have "parent_of rs \<subseteq> (\<lambda>r. (the (sh_parent_session (sr_header r)), sh_id (sr_header r))) ` set rs" by (force simp: parent_of_def)
  then show ?thesis by (rule finite_subset) simp
qed

lemma by_id_fold:
  "map_of (fold (\<lambda>r. om_insert (sh_id (sr_header r)) r) rs m) i = Some x \<Longrightarrow>
     sh_id (sr_header x) = i \<and> x \<in> set rs \<or> map_of m i = Some x"
  "i \<in> (\<lambda>r. sh_id (sr_header r)) ` set rs \<or> map_of m i \<noteq> None \<Longrightarrow>
     map_of (fold (\<lambda>r. om_insert (sh_id (sr_header r)) r) rs m) i \<noteq> None"
proof (induction rs arbitrary: m)
  case (Cons r rs)
  {
    case 1
    from Cons.IH(1) [of "om_insert (sh_id (sr_header r)) r m"] 1 show ?case by (auto split: if_splits)
  next
    case 2
    from Cons.IH(2) [of "om_insert (sh_id (sr_header r)) r m"] 2 show ?case by (auto split: if_splits)
  }
qed simp_all

lemma records_by_id_lookup:
  "map_of (records_by_id rs) i = Some r \<Longrightarrow> sh_id (sr_header r) = i \<and> r \<in> set rs"
  "i \<in> (\<lambda>r. sh_id (sr_header r)) ` set rs \<Longrightarrow> map_of (records_by_id rs) i \<noteq> None"
  using by_id_fold(1) [where rs = rs and m = "[]" and i = i and x = r] by_id_fold(2) [where rs = rs and m = "[]" and i = i]
  unfolding records_by_id_def by (simp_all del: fold_simps)

lemma child_nodes_facts:
  "fst ` set (child_nodes (records_by_id rs) rs e) = parent_of rs `` {fst e}"
  "(c, n) \<in> set (child_nodes (records_by_id rs) rs e) \<Longrightarrow> sh_id (sr_header (dn_node n)) = c"
proof -
  have k: "set (children_of rs (fst e)) = parent_of rs `` {fst e}" by (auto simp: children_of_def parent_of_def)
  have some: "map_of (records_by_id rs) c \<noteq> None" if "c \<in> parent_of rs `` {fst e}" for c
    using that by (intro records_by_id_lookup(2)) (auto simp: parent_of_def)
  show "fst ` set (child_nodes (records_by_id rs) rs e) = parent_of rs `` {fst e}"
    using some by (force simp: child_nodes_def List.map_filter_def k image_iff)
  show "(c, n) \<in> set (child_nodes (records_by_id rs) rs e) \<Longrightarrow> sh_id (sr_header (dn_node n)) = c"
    by (auto simp: child_nodes_def List.map_filter_def dest: records_by_id_lookup(1))
qed

text \<open>A session from which the parent links lead into a cycle.\<close>

definition cyclic_below :: "session_record list \<Rightarrow> string \<Rightarrow> bool" where
  "cyclic_below rs i \<longleftrightarrow> (\<exists>c. (i, c) \<in> (parent_of rs)\<^sup>* \<and> (c, c) \<in> (parent_of rs)\<^sup>+)"

lemma cyclic_step: "cyclic_below rs x \<Longrightarrow> \<exists>c. (x, c) \<in> parent_of rs \<and> cyclic_below rs c"
proof -
  assume "cyclic_below rs x"
  then obtain c where c: "(x, c) \<in> (parent_of rs)\<^sup>*" "(c, c) \<in> (parent_of rs)\<^sup>+" by (auto simp: cyclic_below_def)
  then have "(x, c) \<in> (parent_of rs)\<^sup>+" by (rule rtrancl_trancl_trancl)
  then obtain y where "(x, y) \<in> parent_of rs" "(y, c) \<in> (parent_of rs)\<^sup>*" by (auto dest: tranclD)
  with c(2) show ?thesis unfolding cyclic_below_def by blast
qed

text \<open>The work one entry of the stack causes, when it ends.\<close>

definition settles :: "session_record list \<Rightarrow> string \<times> 32 word \<Rightarrow> bool" where
  "settles rs e \<longleftrightarrow> (\<exists>ds. (\<forall>fr acc. descend (records_by_id rs) rs (fr @ [e]) acc = descend (records_by_id rs) rs fr (acc @ ds)) \<and>
     (\<lambda>n. sh_id (sr_header (dn_node n))) ` set ds = (parent_of rs)\<^sup>+ `` {fst e})"

lemma children_settle:
  assumes "\<forall>(c, n) \<in> set cs. settles rs (c, dn_depth n)"
  shows "\<exists>ds. (\<forall>fr acc. descend (records_by_id rs) rs (fr @ map (\<lambda>(c, n). (c, dn_depth n)) cs) acc = descend (records_by_id rs) rs fr (acc @ ds)) \<and>
    (\<lambda>n. sh_id (sr_header (dn_node n))) ` set ds = (parent_of rs)\<^sup>+ `` (fst ` set cs)"
  using assms
proof (induction cs rule: rev_induct)
  case (snoc x cs)
  obtain c n where x: "x = (c, n)" by (rule prod.exhaust)
  from snoc obtain ds where ds: "\<And>fr acc. descend (records_by_id rs) rs (fr @ map (\<lambda>(c, n). (c, dn_depth n)) cs) acc =
      descend (records_by_id rs) rs fr (acc @ ds)"
    "(\<lambda>n. sh_id (sr_header (dn_node n))) ` set ds = (parent_of rs)\<^sup>+ `` (fst ` set cs)" by auto
  from snoc.prems x obtain es where es: "\<And>fr acc. descend (records_by_id rs) rs (fr @ [(c, dn_depth n)]) acc =
      descend (records_by_id rs) rs fr (acc @ es)"
    "(\<lambda>n. sh_id (sr_header (dn_node n))) ` set es = (parent_of rs)\<^sup>+ `` {c}" by (auto simp: settles_def)
  have "descend (records_by_id rs) rs (fr @ map (\<lambda>(c, n). (c, dn_depth n)) (cs @ [x])) acc =
      descend (records_by_id rs) rs fr (acc @ es @ ds)" for fr acc
    using es(1) [of "fr @ map (\<lambda>(c, n). (c, dn_depth n)) cs"] ds(1) [of fr "acc @ es"] by (simp add: x)
  moreover have "(\<lambda>n. sh_id (sr_header (dn_node n))) ` set (es @ ds) = (parent_of rs)\<^sup>+ `` (fst ` set (cs @ [x]))"
    using es(2) ds(2) by (auto simp: x image_Un)
  ultimately show ?case by blast
qed simp

lemma entry_settles:
  assumes "\<not> cyclic_below rs i" and "(i, x) \<in> (parent_of rs)\<^sup>*"
  shows "settles rs (x, d)"
proof -
  let ?R = "parent_of rs"
  define S where "S = ?R \<inter> (?R\<^sup>* `` {i} \<times> UNIV)"
  have sub: "S \<subseteq> ?R" by (auto simp: S_def)
  have "acyclic S"
  proof (rule acyclicI, intro allI notI)
    fix y assume y: "(y, y) \<in> S\<^sup>+"
    then have "(y, y) \<in> ?R\<^sup>+" using trancl_mono [OF _ sub] by blast
    moreover have "(i, y) \<in> ?R\<^sup>*" using tranclD [OF y] by (auto simp: S_def)
    ultimately show False using assms(1) by (auto simp: cyclic_below_def)
  qed
  then have wf: "wf (S\<inverse>)" using finite_subset [OF sub finite_parent_of] by (intro finite_acyclic_wf_converse)
  show ?thesis using assms(2)
  proof (induction x arbitrary: d rule: wf_induct_rule [OF wf])
    case (1 x d)
    let ?cs = "child_nodes (records_by_id rs) rs (x, d)"
    have c: "fst ` set ?cs = ?R `` {x}" using child_nodes_facts(1) [of rs "(x, d)"] by simp
    have "\<forall>(c, n) \<in> set ?cs. settles rs (c, dn_depth n)"
    proof clarify
      fix c n assume "(c, n) \<in> set ?cs"
      then have "(x, c) \<in> ?R" using c by force
      with "1.prems" show "settles rs (c, dn_depth n)"
        by (intro "1.IH") (auto simp: S_def intro: rtrancl_into_rtrancl)
    qed
    from children_settle [OF this] obtain ds where
      ds: "\<And>fr acc. descend (records_by_id rs) rs (fr @ map (\<lambda>(c, n). (c, dn_depth n)) ?cs) acc = descend (records_by_id rs) rs fr (acc @ ds)"
        "(\<lambda>n. sh_id (sr_header (dn_node n))) ` set ds = ?R\<^sup>+ `` (?R `` {x})" unfolding c by auto
    have "descend (records_by_id rs) rs (fr @ [(x, d)]) acc = descend (records_by_id rs) rs fr (acc @ map snd ?cs @ ds)" for fr acc
      by (subst descend.simps) (simp add: Let_def ds(1))
    moreover have "(\<lambda>n. sh_id (sr_header (dn_node n))) ` set (map snd ?cs @ ds) = ?R\<^sup>+ `` {x}"
    proof -
      have "(\<lambda>n. sh_id (sr_header (dn_node n))) ` set (map snd ?cs) = fst ` set ?cs"
        unfolding set_map image_image by (rule image_cong) (auto dest: child_nodes_facts(2))
      then have "(\<lambda>n. sh_id (sr_header (dn_node n))) ` set (map snd ?cs @ ds) = ?R `` {x} \<union> ?R\<^sup>+ `` (?R `` {x})"
        unfolding set_append image_Un ds(2) c by simp
      also have "\<dots> = ?R\<^sup>+ `` {x}" by (auto intro: trancl_into_trancl2 dest: tranclD rtranclD)
      finally show ?thesis .
    qed
    ultimately show ?case unfolding settles_def fst_conv by (intro exI [of _ "map snd ?cs @ ds"]) blast
  qed
qed

lemma descend_diverges:
  assumes "e \<in> set frontier" and "cyclic_below rs (fst e)"
  shows "descend (records_by_id rs) rs frontier acc = None"
proof -
  have "\<not> (m = records_by_id rs \<and> rs' = rs \<and> (\<exists>e \<in> set fr. cyclic_below rs (fst e)))" if a: "descend m rs' fr acc = Some y" for m rs' fr acc y
  proof (rule descend.raw_induct [OF _ a, where P = "\<lambda>m rs' fr acc y. \<not> (m = records_by_id rs \<and> rs' = rs \<and> (\<exists>e \<in> set fr. cyclic_below rs (fst e)))"],
      rule notI, elim conjE bexE, hypsubst)
    fix f :: "(string, session_record) omap \<Rightarrow> session_record list \<Rightarrow> (string \<times> 32 word) list \<Rightarrow> descendant_node list \<Rightarrow> descendant_node list option"
      and fr acc y e
    assume IH: "\<And>m rs' fr acc y. f m rs' fr acc = Some y \<Longrightarrow>
        \<not> (m = records_by_id rs \<and> rs' = rs \<and> (\<exists>e \<in> set fr. cyclic_below rs (fst e)))"
      and run: "(if fr = [] then Some acc
          else (let found = child_nodes (records_by_id rs) rs (last fr)
            in f (records_by_id rs) rs (butlast fr @ map (\<lambda>(c, n). (c, dn_depth n)) found) (acc @ map snd found))) = Some y"
      and e: "e \<in> set fr" "cyclic_below rs (fst e)"
    let ?found = "child_nodes (records_by_id rs) rs (last fr)"
    have fr: "fr = butlast fr @ [last fr]" using e(1) by (cases "fr = []") auto
    have "\<exists>e \<in> set (butlast fr @ map (\<lambda>(c, n). (c, dn_depth n)) ?found). cyclic_below rs (fst e)"
    proof (cases "e = last fr")
      case True
      from cyclic_step [OF e(2)] obtain c where "(fst e, c) \<in> parent_of rs" "cyclic_below rs c" by blast
      moreover from this(1) have "c \<in> fst ` set ?found" using child_nodes_facts(1) [of rs "last fr"] True by auto
      ultimately show ?thesis by force
    next
      case False
      have "e \<in> set (butlast fr @ [last fr])" using e(1) fr by simp
      with False have "e \<in> set (butlast fr)" by simp
      with e(2) show ?thesis by (intro bexI [of _ e]) simp_all
    qed
    with IH run e(1) show False by (auto simp: Let_def split: if_splits)
  qed
  then have "descend (records_by_id rs) rs frontier acc \<noteq> Some y" for y using assms by blast
  then show ?thesis by (cases "descend (records_by_id rs) rs frontier acc") blast+
qed

lemma trace_returns:
  assumes "map_of (records_by_id (list_records Q)) i = Some r"
  shows "trace_session Q i = None \<longleftrightarrow> cyclic_below (list_records Q) i"
    and "trace_session Q i = Some (Some t) \<Longrightarrow>
      (\<lambda>n. sh_id (sr_header (dn_node n))) ` set (tr_descendants t) = (parent_of (list_records Q))\<^sup>+ `` {i}"
proof -
  let ?rs = "list_records Q"
  have ok: "\<exists>ds. descend (records_by_id ?rs) ?rs [(i, 0)] [] = Some ds \<and>
      (\<lambda>n. sh_id (sr_header (dn_node n))) ` set ds = (parent_of ?rs)\<^sup>+ `` {i}" if "\<not> cyclic_below ?rs i"
  proof -
    from entry_settles [OF that, of i 0] obtain ds where
      d: "\<And>fr acc. descend (records_by_id ?rs) ?rs (fr @ [(i, 0)]) acc = descend (records_by_id ?rs) ?rs fr (acc @ ds)"
        "(\<lambda>n. sh_id (sr_header (dn_node n))) ` set ds = (parent_of ?rs)\<^sup>+ `` {i}" by (auto simp: settles_def)
    have "descend (records_by_id ?rs) ?rs [(i, 0)] [] = descend (records_by_id ?rs) ?rs [] ds" using d(1) [of "[]" "[]"] by simp
    also have "\<dots> = Some ds" by (subst descend.simps) simp
    finally show ?thesis using d(2) by blast
  qed
  have no: "descend (records_by_id ?rs) ?rs [(i, 0)] [] = None" if "cyclic_below ?rs i"
    by (rule descend_diverges [of "(i, 0)"]) (use that in simp_all)
  show "trace_session Q i = None \<longleftrightarrow> cyclic_below ?rs i"
    using ok no by (cases "cyclic_below ?rs i") (auto simp: trace_session_def Let_def assms)
  show "trace_session Q i = Some (Some t) \<Longrightarrow>
      (\<lambda>n. sh_id (sr_header (dn_node n))) ` set (tr_descendants t) = (parent_of ?rs)\<^sup>+ `` {i}"
  proof -
    assume t: "trace_session Q i = Some (Some t)"
    then have "\<not> cyclic_below ?rs i" using no by (auto simp: trace_session_def Let_def assms)
    then obtain ds where "descend (records_by_id ?rs) ?rs [(i, 0)] [] = Some ds"
        "(\<lambda>n. sh_id (sr_header (dn_node n))) ` set ds = (parent_of ?rs)\<^sup>+ `` {i}" using ok by blast
    moreover from this(1) have "tr_descendants t = ds" using t by (auto simp: trace_session_def Let_def assms)
    ultimately show ?thesis by simp
  qed
qed

end
