(* ===== verification/QueryProperties.thy ===== *)
theory QueryProperties
  imports QueryLaws
begin

text \<open>
  The properties of the session query engine (\<open>plugins/session-query/src/query.cpp\<close>): the text filter, the
  surface of an event, the pages of a search, exact reads, and when the trace of a lineage returns.
\<close>

section \<open>Sample archives\<close>

definition archived :: "string \<Rightarrow> string option \<Rightarrow> session_header" where
  "archived i parent = \<lparr>sh_version = 0, sh_id = i, sh_created_at = 0, sh_cwd = None, sh_parent_session = parent,
     sh_is_seeded = False, sh_delegation_depth = 0, sh_origin = OriginNone, sh_agent_preset = None\<rparr>"

definition said :: "64 word \<Rightarrow> string \<Rightarrow> session_event" where
  "said n t = \<lparr>ev_seq = n, ev_time = n, ev_type = ''user/message'', ev_data = JObject [(''content'', JString t)], ev_ignorable = False\<rparr>"

text \<open>Only stored sessions: no live store, and a backend that reads from a list.\<close>

definition archive :: "(session_header \<times> session_event list) list \<Rightarrow> nat query_env" where
  "archive xs = \<lparr>qe_store = None,
     qe_persistence = Some \<lparr>pv_list = map (\<lambda>x. sh_id (fst x)) xs, pv_read = (\<lambda>i. Some (List.find (\<lambda>x. sh_id (fst x) = i) xs))\<rparr>\<rparr>"

section \<open>Text\<close>

text \<open>
  C34. The text filter. An event passes a text clause exactly when somewhere in its text the words of the clause
  are spelled, in order, letter for letter up to case, with blanks and nothing else between two of them.
\<close>

theorem text_filter_exact:
  assumes "eq_clause f = ByText" and "split_words (eq_text f) \<noteq> []"
  shows "event_filter_passes f r body \<longleftrightarrow> (\<exists>pre mid post. body = pre @ mid @ post \<and> spelled (split_words (eq_text f)) mid)"
  using assms text_matches [of "eq_text f" body] by (simp add: event_filter_passes_def)

definition text_clause :: "string \<Rightarrow> event_filter" where
  "text_clause t = \<lparr>eq_clause = ByText, eq_values = [], eq_from = None, eq_to = None, eq_text = t\<rparr>"

theorem text_filter_exact_witness:
  "event_filter_passes (text_clause ''hello  World'') (event_at ''s'' (said 0 ''x'') OnSurface) ''say: HELLO world!''"
proof -
  have w: "split_words ''hello  World'' = [''hello'', ''World'']" by code_simp
  have l: "map lower_char ''HELLO'' = map lower_char ''hello'' \<and> map lower_char ''world'' = map lower_char ''World'' \<and> is_space (CHR '' '')"
    by code_simp
  have "spelled [''hello'', ''World''] (''HELLO'' @ '' '' @ ''world'')"
    unfolding spelled.simps same_letters_def by (intro exI [of _ "''HELLO''"] exI [of _ "'' ''"] exI [of _ "''world''"]) (use l in simp)
  moreover have "''say: HELLO world!'' = ''say: '' @ (''HELLO'' @ '' '' @ ''world'') @ ''!''" by simp
  ultimately have "\<exists>pre mid post. ''say: HELLO world!'' = pre @ mid @ post \<and> spelled [''hello'', ''World''] mid" by blast
  then show ?thesis using text_filter_exact [of "text_clause ''hello  World''"] by (simp add: text_clause_def w)
qed

section \<open>Surfaces\<close>

text \<open>
  Where an event is. The engine's own pass over a log agrees with the surface of the session store: an event
  is current exactly when it is a source of a node of the store's surface of that log, otherwise shadowed
  exactly when the span of some replacement covers its number, otherwise only in the log.
\<close>

theorem surfaces_agree:
  "classify_surfaces evs = map (\<lambda>ev.
     if ev_seq ev \<in> set (sf_source_seqs (surface_of_log [] evs)) then OnSurface
     else if list_ex (\<lambda>e. case replaced_span e of None \<Rightarrow> False | Some (start, fin) \<Rightarrow> in_span start fin (ev_seq ev)) evs
     then Shadowed else LogOnly) evs"
  by (auto simp: classified list_ex_iff split: option.splits)

section \<open>Pages\<close>

text \<open>
  C33. Search in pages. Asking for page after page, each with the cursor of the one before, returns every hit of
  the ranking once and in its order, whatever the limit, and ends.
\<close>

theorem search_pages_complete:
  assumes "split_words q \<noteq> []" and "read_session Q i = Some src" and "length (rank_events src fs (split_words q)) < 2 ^ 64"
  shows "search_all Q i q fs limit (Suc (length (rank_events src fs (split_words q)))) [] = Inr (map rh_hit (rank_events src fs (split_words q)))"
  using search_all_from [of q Q i src "map rh_hit (rank_events src fs (split_words q))" fs "[]" 0 "Suc (length (rank_events src fs (split_words q)))" limit]
    assms by (simp add: decode_cursor_def)

definition talk :: "session_header \<times> session_event list" where
  "talk = (archived ''s'' None, [said 0 ''cat'', said 1 ''dog'', said 2 ''cat CAT''])"

theorem search_pages_complete_witness:
  "map_sum id (map er_seq) (search_all (archive [talk]) ''s'' '' cat'' [] 1 3 []) = Inr [2, 0 :: session_seq]"
proof -
  let ?src = "\<lparr>sx_header = fst talk, sx_events = snd talk, sx_live = False, sx_persisted = True\<rparr>"
  let ?hits = "rank_events ?src [] (split_words '' cat'')"
  have r: "read_session (archive [talk]) ''s'' = Some ?src"
    by (simp add: read_session_def live_session_def stored_session_def archive_def talk_def archived_def)
  have s: "map (er_seq \<circ> rh_hit) ?hits = [2, 0]" "length ?hits = 2" and w: "split_words '' cat'' \<noteq> []" by code_simp+
  from search_pages_complete [OF w r, of "[]" 1] s(2)
  have "search_all (archive [talk]) ''s'' '' cat'' [] 1 3 [] = Inr (map rh_hit ?hits)" by (simp add: numeral_3_eq_3)
  with s(1) show ?thesis by simp
qed

section \<open>Reads\<close>

lemma event_index_at: "event_index_of sq evs = Some k \<Longrightarrow> k < length evs \<and> ev_seq (evs ! k) = sq"
  by (induction evs arbitrary: k) (auto split: if_splits)

text \<open>
  Reading around an event. The read returns the event with the asked number and the run of events right before
  and right after it in the log, as many as were asked for or as there are.
\<close>

theorem event_window:
  assumes "read_session Q i = Some src" and "length (sx_events src) < 2 ^ 32" and "read_event Q i sq before behind = Some r"
  shows "\<exists>pre post. sx_events src = pre @ ed_before r @ ed_target r # ed_after r @ post \<and> ev_seq (ed_target r) = sq \<and>
    length (ed_before r) = min (unat before) (length pre + length (ed_before r)) \<and>
    length (ed_after r) = min (unat behind) (length (ed_after r) + length post)"
proof -
  let ?evs = "sx_events src"
  from assms obtain k where k: "event_index_of sq ?evs = Some k" by (auto simp: read_event_def split: option.splits)
  from event_index_at [OF this] have lt: "k < length ?evs" and sq: "ev_seq (?evs ! k) = sq" by simp_all
  define near where "near = min (unat before) k"
  have near_k: "unat (min before (of_nat k)) = near"
    using lt assms(2) by (simp add: near_def min_def word_le_nat_alt unat_of_nat)
  from assms k have r: "ed_target r = ?evs ! k" "ed_before r = take near (drop (k - near) ?evs)"
      "ed_after r = take (min (length ?evs) (k + 1 + unat behind) - (k + 1)) (drop (k + 1) ?evs)"
    by (auto simp: read_event_def Let_def near_k)
  let ?n = "min (length ?evs) (k + 1 + unat behind) - (k + 1)"
  have "?evs = take k ?evs @ ?evs ! k # drop (Suc k) ?evs" using lt by (simp add: id_take_nth_drop)
  also have "take k ?evs = take (k - near) ?evs @ take near (drop (k - near) ?evs)"
    by (metis near_def le_add_diff_inverse2 min.cobounded2 take_add)
  also have "drop (Suc k) ?evs = take ?n (drop (k + 1) ?evs) @ drop ?n (drop (k + 1) ?evs)"
    by (simp only: append_take_drop_id Suc_eq_plus1)
  finally have "?evs = take (k - near) ?evs @ ed_before r @ ed_target r # ed_after r @ drop ?n (drop (k + 1) ?evs)" by (simp add: r)
  moreover have "length (ed_before r) = near" "length (take (k - near) ?evs) = k - near" using lt by (simp_all add: r near_def)
  moreover have "length (ed_after r) = ?n" "length (drop ?n (drop (k + 1) ?evs)) = length ?evs - (k + 1) - ?n" using lt by (simp_all add: r)
  ultimately show ?thesis using sq lt
    by (intro exI [of _ "take (k - near) ?evs"] exI [of _ "drop ?n (drop (k + 1) ?evs)"]) (auto simp: r(1) near_def)
qed

theorem event_window_witness:
  "\<exists>r. read_event (archive [talk]) ''s'' 1 1 5 = Some r \<and> ed_target r = said 1 ''dog'' \<and> length (ed_before r) \<le> 1 \<and> length (ed_after r) \<le> 5"
proof -
  let ?src = "\<lparr>sx_header = fst talk, sx_events = snd talk, sx_live = False, sx_persisted = True\<rparr>"
  have r: "read_session (archive [talk]) ''s'' = Some ?src"
    by (simp add: read_session_def live_session_def stored_session_def archive_def talk_def archived_def)
  have "event_index_of 1 (sx_events ?src) = Some 1" by code_simp
  with r obtain x where x: "read_event (archive [talk]) ''s'' 1 1 5 = Some x" "ed_target x = said 1 ''dog''"
    by (simp add: read_event_def Let_def talk_def)
  from event_window [OF r _ x(1)] have "length (ed_before x) \<le> 1 \<and> length (ed_after x) \<le> 5" by (auto simp: talk_def)
  with x show ?thesis by blast
qed

section \<open>Lineage\<close>

text \<open>
  C32. Tracing a lineage. The trace of a known session fails to return exactly when the parent links of the known
  sessions lead from it into a cycle, since its loop over the descendants has no check for a session it has
  seen; when it returns, the descendants are the sessions the parent links reach from it.
\<close>

theorem lineage_trace_returns:
  assumes "map_of (records_by_id (list_records Q)) i = Some r"
  shows "(trace_session Q i = None \<longleftrightarrow> cyclic_below (list_records Q) i) \<and>
    (\<forall>t. trace_session Q i = Some (Some t) \<longrightarrow>
      (\<lambda>n. sh_id (sr_header (dn_node n))) ` set (tr_descendants t) = (parent_of (list_records Q))\<^sup>+ `` {i})"
  using trace_returns(1) [OF assms] trace_returns(2) [OF assms] by blast

definition stored_record :: "string \<Rightarrow> string option \<Rightarrow> session_record" where
  "stored_record i parent = \<lparr>sr_header = archived i parent, sr_live = False, sr_persisted = True\<rparr>"

theorem lineage_trace_returns_witness:
  "trace_session (archive [(archived ''a'' (Some ''a''), [])]) ''a'' = None \<and>
   trace_session (archive [(archived ''a'' None, []), (archived ''b'' (Some ''a''), [])]) ''a'' \<noteq> None"
proof
  let ?Q = "archive [(archived ''a'' (Some ''a''), [])]"
  have rs: "list_records ?Q = [stored_record ''a'' (Some ''a'')]" by code_simp
  then have "(''a'', ''a'') \<in> parent_of (list_records ?Q)" by (simp add: parent_of_def stored_record_def archived_def)
  then have "cyclic_below (list_records ?Q) ''a''" unfolding cyclic_below_def by blast
  moreover have "map_of (records_by_id (list_records ?Q)) ''a'' = Some (stored_record ''a'' (Some ''a''))" by code_simp
  ultimately show "trace_session ?Q ''a'' = None" using lineage_trace_returns by blast
next
  let ?Q = "archive [(archived ''a'' None, []), (archived ''b'' (Some ''a''), [])]"
  have rs: "list_records ?Q = [stored_record ''a'' None, stored_record ''b'' (Some ''a'')]" by code_simp
  have p: "parent_of (list_records ?Q) = {(''a'', ''b'')}" unfolding rs
    by (auto simp: parent_of_def stored_record_def archived_def conj_disj_distribL conj_disj_distribR ex_disj_distrib)
  have "\<not> cyclic_below (list_records ?Q) ''a''" by (auto simp: cyclic_below_def p elim: tranclE rtranclE)
  moreover have "map_of (records_by_id (list_records ?Q)) ''a'' = Some (stored_record ''a'' None)" by code_simp
  ultimately show "trace_session ?Q ''a'' \<noteq> None" using lineage_trace_returns by blast
qed

end
