(* ===== verification/Config.thy ===== *)
theory Config
  imports Strings
begin

text \<open>
  Typed access to a plugin's configuration (\<open>include/araya/config.hpp\<close>): the strict parsers of numbers, truth
  values and texts, and the view that throws on a missing or malformed entry. Floating-point entries and
  enumerations are left out. An integer is parsed at the width of its type.
\<close>

section \<open>Parsers\<close>

text \<open>\<open>std::from_chars\<close> on the whole text: digits, with a minus sign in front for a signed type.\<close>

definition digits_value :: "string \<Rightarrow> nat option" where
  "digits_value t = (if t \<noteq> [] \<and> list_all is_digit t then Some (read_nat t) else None)"

definition parse_unsigned :: "string \<Rightarrow> 'w::len word option" where
  "parse_unsigned t =
     (case digits_value t of
        None \<Rightarrow> None
      | Some n \<Rightarrow> if n < 2 ^ LENGTH('w) then Some (of_nat n) else None)"

definition signed_value :: "string \<Rightarrow> int option" where
  "signed_value t =
     (case t of
        [] \<Rightarrow> None
      | c # cs \<Rightarrow> if c = CHR ''-'' then map_option (\<lambda>n. - int n) (digits_value cs) else map_option int (digits_value t))"

definition parse_signed :: "string \<Rightarrow> 'w::len word option" where
  "parse_signed t =
     (case signed_value t of
        None \<Rightarrow> None
      | Some i \<Rightarrow> if - (2 ^ (LENGTH('w) - 1)) \<le> i \<and> i < 2 ^ (LENGTH('w) - 1) then Some (of_int i) else None)"

definition parse_bool :: "string \<Rightarrow> bool option" where
  "parse_bool t =
     (if t = ''true'' \<or> t = ''1'' then Some True else if t = ''false'' \<or> t = ''0'' then Some False else None)"

definition parse_text :: "string \<Rightarrow> string option" where
  "parse_text t = Some t"

section \<open>The view\<close>

text \<open>A \<open>config_error\<close>: key, value and reason.\<close>

datatype config_error = ConfigError string string string

definition config_get :: "(string \<Rightarrow> 'v option) \<Rightarrow> string \<Rightarrow> (string, string) omap \<Rightarrow> config_error + 'v" where
  "config_get parse key c =
     (case map_of c key of
        None \<Rightarrow> Inl (ConfigError key [] ''missing'')
      | Some t \<Rightarrow> (case parse t of None \<Rightarrow> Inl (ConfigError key t ''malformed'') | Some v \<Rightarrow> Inr v))"

definition config_try_get :: "(string \<Rightarrow> 'v option) \<Rightarrow> string \<Rightarrow> (string, string) omap \<Rightarrow> config_error + 'v option" where
  "config_try_get parse key c =
     (case map_of c key of
        None \<Rightarrow> Inr None
      | Some t \<Rightarrow> (case parse t of None \<Rightarrow> Inl (ConfigError key t ''malformed'') | Some v \<Rightarrow> Inr (Some v)))"

section \<open>Laws\<close>

definition show_int :: "int \<Rightarrow> string" where
  "show_int i = (if i < 0 then CHR ''-'' # show_nat (nat (- i)) else show_nat (nat i))"

lemma show_nat_neq [simp]: "show_nat n \<noteq> []"
  by (subst show_nat.simps) simp

lemma digits_show_nat [simp]: "digits_value (show_nat n) = Some n"
  using show_nat_digits [of n] by (simp add: digits_value_def list_all_iff)

lemma signed_show_int: "signed_value (show_int i) = Some i"
proof (cases "i < 0")
  case True
  then show ?thesis by (simp add: signed_value_def show_int_def)
next
  case False
  obtain c cs where s: "show_nat (nat i) = c # cs" using show_nat_neq by (meson list.exhaust)
  then have "is_digit c" using show_nat_digits [of "nat i"] by simp
  then have "c \<noteq> CHR ''-''" by (auto simp: is_digit_def)
  with False s digits_show_nat [of "nat i"] show ?thesis by (simp add: signed_value_def show_int_def)
qed

text \<open>A number of the type is read back as itself, and one outside of it is malformed.\<close>

lemma parse_show_unsigned:
  "(parse_unsigned (show_nat n) :: 'w::len word option) = (if n < 2 ^ LENGTH('w) then Some (of_nat n) else None)"
  by (simp add: parse_unsigned_def)

lemma parse_show_signed:
  "(parse_signed (show_int i) :: 'w::len word option) =
     (if - (2 ^ (LENGTH('w) - 1)) \<le> i \<and> i < 2 ^ (LENGTH('w) - 1) then Some (of_int i) else None)"
  by (simp add: parse_signed_def signed_show_int)

lemma parse_signed_word: "parse_signed (show_int (sint w)) = Some (w :: 'w::len word)"
  using sint_ge [of w] sint_lt [of w] by (simp add: parse_show_signed)

lemma config_try_get_present:
  "config_try_get parse key c = (if key \<in> dom (map_of c) then map_sum id Some (config_get parse key c) else Inr None)"
  by (auto simp: config_try_get_def config_get_def split: option.split)

end
