(* ===== verification/Prompts.thy ===== *)
theory Prompts
  imports AgentTurn Config
begin

text \<open>
  The system prompt registry (\<open>plugins/system-prompt/src/system_prompt.cpp\<close>): the order tables, \<open>{{variable}}\<close>
  interpolation, the order of tools, the registrations with their cleanups, and the assembly. Renderers,
  providers and interceptors are C++ closures: functions here that may throw. Registration ids are natural
  numbers. Tool schemas are the records of the agent loop.
\<close>

section \<open>Orders\<close>

datatype prompt_error = MalformedAt string string string | MalformedReference string string string
  | UnknownVariable string string string | NoValue string string string | UnknownOrder string string
  | ReservedTool | UnregisteredTool string | ManyComplete | EmptyName string | InvalidVariable string | Thrown string
  | BadEntry config_error | BadToolOrder string

definition section_orders :: "(string \<times> int) list" where
  "section_orders =
     [(''HARNESS_IDENTITY'', -1000), (''DEPLOYMENT_PERSONA_PREFIX'', 0), (''SKILL_CATALOG'', 350), (''AGENT_INSTRUCTIONS'', 400),
      (''PLAN_POLICY'', 500), (''TEAM_POLICY'', 600), (''PTC_ONLY'', 800), (''FILE_REFERENCE'', 900), (''TOOL_BASH'', 1000),
      (''TOOL_PWSH'', 1010), (''TOOL_READ'', 1100), (''TOOL_WRITE'', 1200), (''TOOL_EDIT'', 1300), (''TOOL_GLOB'', 1400),
      (''TOOL_GREP'', 1500), (''TOOL_JOBS'', 1600), (''TOOL_PTY'', 1700), (''TOOL_WEB_SEARCH'', 2000), (''TOOL_WEB_FETCH'', 2100),
      (''TOOL_LSP'', 2200), (''TOOL_SESSION_QUERY'', 2300), (''TOOL_GOAL'', 2400), (''TOOL_CORDIS'', 2500), (''TOOL_WORKFLOW'', 2600),
      (''TOOL_RALPH'', 2700), (''TOOL_SUBAGENT'', 2800), (''TOOL_REPORT'', 2900), (''TOOL_COMPUTER_USE'', 3000), (''MCP_SERVERS'', 3100),
      (''TOOLS_SDK'', 5000), (''DELIVERABLE_FILE_REFERENCES'', 9000), (''STRUCTURED_OUTPUT'', 9900), (''HARNESS_SOURCE'', 10000),
      (''WEB_SURFACE'', 10100), (''DEPLOYMENT_PERSONA_SUFFIX'', 10200)]"

definition context_orders :: "(string \<times> int) list" where
  "context_orders = [(''SANDBOX_POLICY'', 110), (''APPROVAL_POLICY'', 115), (''SUBAGENT_DELEGATION'', 120)]"

definition lookup_order :: "(string \<times> int) list \<Rightarrow> string \<Rightarrow> string \<Rightarrow> prompt_error + int" where
  "lookup_order table kind name = (case map_of table name of Some i \<Rightarrow> Inr i | None \<Rightarrow> Inl (UnknownOrder kind name))"

definition section_order :: "string \<Rightarrow> prompt_error + int" where
  "section_order = lookup_order section_orders ''section''"

definition context_order :: "string \<Rightarrow> prompt_error + int" where
  "context_order = lookup_order context_orders ''context''"

section \<open>Interpolation\<close>

definition is_lower :: "char \<Rightarrow> bool" where
  "is_lower c \<longleftrightarrow> (of_char c :: nat) \<ge> 97 \<and> (of_char c :: nat) \<le> 122"

definition is_variable_name :: "string \<Rightarrow> bool" where
  "is_variable_name name \<longleftrightarrow> name \<noteq> [] \<and> is_lower (hd name) \<and> list_all (\<lambda>c. is_lower c \<or> is_digit c \<or> c = CHR ''_'') name"

definition open_braces :: string where "open_braces = ''{{''"
definition close_braces :: string where "close_braces = ''}}''"

lemma find_text_bound: "find_text needle s = Some n \<Longrightarrow> n + length needle \<le> length s"
proof (induction s arbitrary: n)
  case (Cons c cs)
  show ?case
  proof (cases "take (length needle) (c # cs) = needle")
    case True
    then have "length needle \<le> length (c # cs)" by (metis length_take min.cobounded1)
    with True Cons.prems show ?thesis by simp
  next
    case False
    with Cons.prems obtain m where "find_text needle cs = Some m" "n = Suc m" by auto
    with Cons.IH show ?thesis by force
  qed
qed (simp split: if_splits)

text \<open>The text still to be read, from \<open>last\<close> on.\<close>

function interpolate_from :: "(string, string option) omap \<Rightarrow> string \<Rightarrow> string \<Rightarrow> string \<Rightarrow> prompt_error + string" where
  "interpolate_from vs kind name rest =
     (case find_text open_braces rest of
        None \<Rightarrow> Inr rest
      | Some n \<Rightarrow>
          let after = drop (n + 2) rest
          in (case find_text close_braces after of
                None \<Rightarrow> and_sum (interpolate_from vs kind name after) (\<lambda>out. Inr (take (n + 2) rest @ out))
              | Some k \<Rightarrow>
                  let inner = take k after
                  in if list_ex (\<lambda>c. c = CHR ''{'' \<or> c = CHR ''}'') inner then Inl (MalformedAt (take 16 (drop n rest)) kind name)
                     else if \<not> is_variable_name inner then Inl (MalformedReference inner kind name)
                     else (case map_of vs inner of
                             None \<Rightarrow> Inl (UnknownVariable inner kind name)
                           | Some None \<Rightarrow> Inl (NoValue inner kind name)
                           | Some (Some v) \<Rightarrow>
                               and_sum (interpolate_from vs kind name (drop (k + 2) after)) (\<lambda>out. Inr (take n rest @ v @ out)))))"
  by pat_completeness auto

termination interpolate_from
  by (relation "measure (\<lambda>(vs, kind, name, rest). length rest)") (auto dest!: find_text_bound simp: open_braces_def)

declare interpolate_from.simps [simp del]

definition interpolate :: "string \<Rightarrow> (string, string option) omap \<Rightarrow> string \<Rightarrow> string \<Rightarrow> prompt_error + string" where
  "interpolate t vs kind name = interpolate_from vs kind name t"

section \<open>Tools\<close>

definition reserved_tool :: string where "reserved_tool = ''<unlisted-tools>''"

text \<open>
  With an explicit order, the tools it does not list stand where its reserved name does. Their schemas are moved
  out of the list there: a second reserved name finds schemas with empty members.
\<close>

definition moved_from :: prompt_tool where
  "moved_from = \<lparr>pt_name = [], pt_description = [], pt_parameters = JNull\<rparr>"

fun placed :: "prompt_tool list \<Rightarrow> string list \<Rightarrow> prompt_tool list \<Rightarrow> prompt_tool list" where
  "placed ts [] rest = []"
| "placed ts (n # ns) rest =
     (if n = reserved_tool then rest @ placed ts ns (map (\<lambda>_. moved_from) rest)
      else (case List.find (\<lambda>t. pt_name t = n) ts of None \<Rightarrow> [] | Some t \<Rightarrow> [t]) @ placed ts ns rest)"

definition order_tools :: "prompt_tool list \<Rightarrow> string list option \<Rightarrow> string list \<Rightarrow> prompt_error + prompt_tool list" where
  "order_tools ts order known =
     (if \<exists>t \<in> set ts. pt_name t = reserved_tool then Inl ReservedTool
      else (case order of
              None \<Rightarrow> Inr (sort_key pt_name ts)
            | Some names \<Rightarrow>
                (case List.find (\<lambda>n. n \<noteq> reserved_tool \<and> n \<notin> set known) names of
                   Some n \<Rightarrow> Inl (UnregisteredTool n)
                 | None \<Rightarrow> Inr (placed (map (\<lambda>t. if pt_name t \<in> set names then t else moved_from) ts) names
                                  (sort_key pt_name (filter (\<lambda>t. pt_name t \<notin> set names) ts))))))"

section \<open>The registry\<close>

record assemble_context =
  ac_scope :: "string option"
  ac_provider :: string
  ac_model :: string
  ac_cwd :: string

type_synonym render_fn = "assemble_context \<Rightarrow> prompt_error + string"

record prompt_section =
  sec_name :: string
  sec_order :: int
  sec_text :: string
  sec_render :: "render_fn option"
  sec_interpolate :: bool
  sec_complete :: bool

record prompt_context =
  ctx_name :: string
  ctx_order :: int
  ctx_text :: string
  ctx_render :: "render_fn option"

record assembled_section =
  asec_name :: string
  asec_text :: string
  asec_interpolate :: bool

record assembled_context =
  actx_name :: string
  actx_text :: string

record assembly =
  al_sections :: "assembled_section list"
  al_contexts :: "assembled_context list"
  al_tools :: "prompt_tool list"
  al_variables :: "(string, string option) omap"

type_synonym variable_provider = "assemble_context \<Rightarrow> prompt_error + string option"
type_synonym tool_provider = "assemble_context \<Rightarrow> prompt_error + prompt_tool list"
type_synonym assemble_interceptor = "assembly \<Rightarrow> assemble_context \<Rightarrow> prompt_error + assembly"

text \<open>A contribution with its id and its scope.\<close>

record 'v owned =
  ow_id :: nat
  ow_scope :: "string option"
  ow_value :: 'v

record prompt_service =
  pr_next_id :: nat
  pr_prefix :: string
  pr_suffix :: string
  pr_identity :: bool
  pr_runtime_context :: bool
  pr_tool_order :: "string list option"
  pr_sections :: "prompt_section owned list"
  pr_contexts :: "prompt_context owned list"
  pr_variables :: "(string \<times> variable_provider) owned list"
  pr_providers :: "tool_provider owned list"
  pr_suppressors :: "unit owned list"
  pr_interceptors :: "(int \<times> assemble_interceptor) owned list"

definition new_prompts :: prompt_service where
  "new_prompts = \<lparr>pr_next_id = 1, pr_prefix = [], pr_suffix = [], pr_identity = True, pr_runtime_context = True, pr_tool_order = None,
     pr_sections = [], pr_contexts = [], pr_variables = [], pr_providers = [], pr_suppressors = [], pr_interceptors = []\<rparr>"

definition owned_by :: "prompt_service \<Rightarrow> string option \<Rightarrow> 'v \<Rightarrow> 'v owned" where
  "owned_by S scope v = \<lparr>ow_id = pr_next_id S, ow_scope = scope, ow_value = v\<rparr>"

definition set_persona_prefix :: "string \<Rightarrow> prompt_service \<Rightarrow> prompt_service" where
  "set_persona_prefix t S = S\<lparr>pr_prefix := t\<rparr>"

definition set_persona_suffix :: "string \<Rightarrow> prompt_service \<Rightarrow> prompt_service" where
  "set_persona_suffix t S = S\<lparr>pr_suffix := t\<rparr>"

definition set_include_harness_identity :: "bool \<Rightarrow> prompt_service \<Rightarrow> prompt_service" where
  "set_include_harness_identity b S = S\<lparr>pr_identity := b\<rparr>"

definition set_include_runtime_context :: "bool \<Rightarrow> prompt_service \<Rightarrow> prompt_service" where
  "set_include_runtime_context b S = S\<lparr>pr_runtime_context := b\<rparr>"

definition set_tool_order :: "string list \<Rightarrow> prompt_service \<Rightarrow> prompt_service" where
  "set_tool_order names S = S\<lparr>pr_tool_order := Some names\<rparr>"

text \<open>The plugin reads its configuration in this order; \<open>parse\<close> is the JSON parser, which may throw.\<close>

definition seeded :: "(string \<Rightarrow> 'v option) \<Rightarrow> string \<Rightarrow> ('v \<Rightarrow> prompt_service \<Rightarrow> prompt_service) \<Rightarrow> (string, string) omap
    \<Rightarrow> prompt_service \<Rightarrow> prompt_error + prompt_service" where
  "seeded read key apply_to c S =
     (case config_try_get read key c of
        Inl e \<Rightarrow> Inl (BadEntry e)
      | Inr None \<Rightarrow> Inr S
      | Inr (Some v) \<Rightarrow> Inr (apply_to v S))"

definition order_entry :: "json \<Rightarrow> prompt_error + string" where
  "order_entry v = (case v of JString t \<Rightarrow> Inr t | _ \<Rightarrow> Inl (BadToolOrder ''system-prompt: tool_order entries must be strings''))"

fun each :: "('a \<Rightarrow> 'e + 'b) \<Rightarrow> 'a list \<Rightarrow> 'e + 'b list" where
  "each f [] = Inr []"
| "each f (x # xs) = and_sum (f x) (\<lambda>y. and_sum (each f xs) (\<lambda>ys. Inr (y # ys)))"

definition seed_tool_order :: "(string \<Rightarrow> prompt_error + json) \<Rightarrow> (string, string) omap \<Rightarrow> prompt_service \<Rightarrow> prompt_error + prompt_service" where
  "seed_tool_order parse c S =
     (case map_of c ''tool_order'' of
        None \<Rightarrow> Inr S
      | Some t \<Rightarrow>
          if t = [] then Inr S
          else and_sum (parse t) (\<lambda>v.
            case v of
              JArray vs \<Rightarrow> and_sum (each order_entry vs) (\<lambda>names. Inr (set_tool_order names S))
            | _ \<Rightarrow> Inl (BadToolOrder ''system-prompt: tool_order must be a JSON array'')))"

definition load_prompts :: "(string \<Rightarrow> prompt_error + json) \<Rightarrow> (string, string) omap \<Rightarrow> prompt_error + prompt_service" where
  "load_prompts parse c =
     and_sum (seeded parse_text ''persona_prefix'' set_persona_prefix c new_prompts) (\<lambda>S.
     and_sum (seeded parse_text ''persona_suffix'' set_persona_suffix c S) (\<lambda>S.
     and_sum (seeded parse_bool ''include_harness_identity'' set_include_harness_identity c S) (\<lambda>S.
     and_sum (seeded parse_bool ''include_runtime_context'' set_include_runtime_context c S) (seed_tool_order parse c))))"

datatype prompt_cleanup = DropSection nat | DropContext nat | DropVariable nat | DropProvider nat | DropSuppressor nat | DropInterceptor nat

definition erase_owned :: "nat \<Rightarrow> 'v owned list \<Rightarrow> 'v owned list" where
  "erase_owned i = filter (\<lambda>e. ow_id e \<noteq> i)"

fun run_prompt_cleanup :: "prompt_cleanup \<Rightarrow> prompt_service \<Rightarrow> prompt_service" where
  "run_prompt_cleanup (DropSection i) S = S\<lparr>pr_sections := erase_owned i (pr_sections S)\<rparr>"
| "run_prompt_cleanup (DropContext i) S = S\<lparr>pr_contexts := erase_owned i (pr_contexts S)\<rparr>"
| "run_prompt_cleanup (DropVariable i) S = S\<lparr>pr_variables := erase_owned i (pr_variables S)\<rparr>"
| "run_prompt_cleanup (DropProvider i) S = S\<lparr>pr_providers := erase_owned i (pr_providers S)\<rparr>"
| "run_prompt_cleanup (DropSuppressor i) S = S\<lparr>pr_suppressors := erase_owned i (pr_suppressors S)\<rparr>"
| "run_prompt_cleanup (DropInterceptor i) S = S\<lparr>pr_interceptors := erase_owned i (pr_interceptors S)\<rparr>"

definition next_registration :: "prompt_service \<Rightarrow> prompt_service" where
  "next_registration S = S\<lparr>pr_next_id := pr_next_id S + 1\<rparr>"

definition add_section :: "prompt_section \<Rightarrow> string option \<Rightarrow> prompt_service \<Rightarrow> prompt_error + prompt_cleanup \<times> prompt_service" where
  "add_section v scope S =
     (if sec_name v = [] then Inl (EmptyName ''section'')
      else Inr (DropSection (pr_next_id S), next_registration (S\<lparr>pr_sections := pr_sections S @ [owned_by S scope v]\<rparr>)))"

definition add_context :: "prompt_context \<Rightarrow> string option \<Rightarrow> prompt_service \<Rightarrow> prompt_error + prompt_cleanup \<times> prompt_service" where
  "add_context v scope S =
     (if ctx_name v = [] then Inl (EmptyName ''context'')
      else Inr (DropContext (pr_next_id S), next_registration (S\<lparr>pr_contexts := pr_contexts S @ [owned_by S scope v]\<rparr>)))"

definition add_variable ::
  "string \<Rightarrow> variable_provider \<Rightarrow> string option \<Rightarrow> prompt_service \<Rightarrow> prompt_error + prompt_cleanup \<times> prompt_service" where
  "add_variable name p scope S =
     (if \<not> is_variable_name name then Inl (InvalidVariable name)
      else Inr (DropVariable (pr_next_id S), next_registration (S\<lparr>pr_variables := pr_variables S @ [owned_by S scope (name, p)]\<rparr>)))"

definition add_tools :: "tool_provider \<Rightarrow> string option \<Rightarrow> prompt_service \<Rightarrow> prompt_cleanup \<times> prompt_service" where
  "add_tools p scope S = (DropProvider (pr_next_id S), next_registration (S\<lparr>pr_providers := pr_providers S @ [owned_by S scope p]\<rparr>))"

definition suppress_runtime_context :: "string option \<Rightarrow> prompt_service \<Rightarrow> prompt_cleanup \<times> prompt_service" where
  "suppress_runtime_context scope S =
     (DropSuppressor (pr_next_id S), next_registration (S\<lparr>pr_suppressors := pr_suppressors S @ [owned_by S scope ()]\<rparr>))"

definition intercept :: "int \<Rightarrow> assemble_interceptor \<Rightarrow> string option \<Rightarrow> prompt_service \<Rightarrow> prompt_cleanup \<times> prompt_service" where
  "intercept order f scope S =
     (DropInterceptor (pr_next_id S), next_registration (S\<lparr>pr_interceptors := pr_interceptors S @ [owned_by S scope (order, f)]\<rparr>))"

section \<open>Assembly\<close>

definition scope_matches :: "assemble_context \<Rightarrow> string option \<Rightarrow> bool" where
  "scope_matches c scope \<longleftrightarrow> scope = None \<or> ac_scope c = scope"

text \<open>The contributions an assembly sees, the global ones first.\<close>

definition seen_by :: "assemble_context \<Rightarrow> 'v owned list \<Rightarrow> 'v owned list" where
  "seen_by c xs = filter (\<lambda>e. ow_scope e = None) xs @ filter (\<lambda>e. ow_scope e \<noteq> None \<and> scope_matches c (ow_scope e)) xs"

definition assemble_variables :: "prompt_service \<Rightarrow> assemble_context \<Rightarrow> prompt_error + (string, string option) omap" where
  "assemble_variables S c =
     fold_sum (\<lambda>e m. and_sum (snd (ow_value e) c) (\<lambda>v. Inr (om_insert (fst (ow_value e)) v m))) (seen_by c (pr_variables S)) []"

definition built_in :: "string \<Rightarrow> int \<Rightarrow> string \<Rightarrow> prompt_section" where
  "built_in name order t = \<lparr>sec_name = name, sec_order = order, sec_text = t, sec_render = None, sec_interpolate = True, sec_complete = False\<rparr>"

definition harness_identity :: prompt_section where
  "harness_identity = built_in ''harness:identity'' (projr (section_order ''HARNESS_IDENTITY'')) ''You are an AI agent powered by DeepSeek Harness.''"

definition built_in_sections :: "prompt_service \<Rightarrow> prompt_section list" where
  "built_in_sections S =
     (if pr_identity S then [harness_identity] else []) @
     [built_in ''deployment:persona-prefix'' (projr (section_order ''DEPLOYMENT_PERSONA_PREFIX'')) (pr_prefix S),
      built_in ''deployment:persona-suffix'' (projr (section_order ''DEPLOYMENT_PERSONA_SUFFIX'')) (pr_suffix S)]"

text \<open>A map by name, in which a later entry replaces an earlier one, read in the order of a sort.\<close>

definition merged :: "('v \<Rightarrow> string) \<Rightarrow> 'v list \<Rightarrow> (string, 'v) omap" where
  "merged name vs = fold (\<lambda>v. om_insert (name v) v) vs []"

definition section_key :: "prompt_section \<Rightarrow> int \<times> string" where
  "section_key s = (sec_order s, sec_name s)"

definition context_key :: "prompt_context \<Rightarrow> int \<times> string" where
  "context_key s = (ctx_order s, ctx_name s)"

definition ordered_sections :: "prompt_service \<Rightarrow> assemble_context \<Rightarrow> prompt_section list" where
  "ordered_sections S c =
     sort_key section_key (map snd (merged sec_name (built_in_sections S @ map ow_value (seen_by c (pr_sections S)))))"

definition render_section :: "assemble_context \<Rightarrow> prompt_section \<Rightarrow> prompt_error + assembled_section" where
  "render_section c s =
     and_sum (case sec_render s of Some f \<Rightarrow> f c | None \<Rightarrow> Inr (sec_text s))
       (\<lambda>t. Inr \<lparr>asec_name = sec_name s, asec_text = t, asec_interpolate = sec_interpolate s\<rparr>)"

definition suppressed :: "prompt_service \<Rightarrow> assemble_context \<Rightarrow> bool" where
  "suppressed S c \<longleftrightarrow> \<not> pr_runtime_context S \<or> list_ex (\<lambda>e. scope_matches c (ow_scope e)) (pr_suppressors S)"

definition ordered_contexts :: "prompt_service \<Rightarrow> assemble_context \<Rightarrow> prompt_context list" where
  "ordered_contexts S c = sort_key context_key (map snd (merged ctx_name (map ow_value (seen_by c (pr_contexts S)))))"

definition render_context :: "assemble_context \<Rightarrow> prompt_context \<Rightarrow> prompt_error + assembled_context" where
  "render_context c s =
     and_sum (case ctx_render s of Some f \<Rightarrow> f c | None \<Rightarrow> Inr (ctx_text s)) (\<lambda>t. Inr \<lparr>actx_name = ctx_name s, actx_text = t\<rparr>)"

definition collected_tools :: "prompt_service \<Rightarrow> assemble_context \<Rightarrow> prompt_error + prompt_tool list" where
  "collected_tools S c =
     and_sum (each (\<lambda>e. ow_value e c) (filter (\<lambda>e. scope_matches c (ow_scope e)) (pr_providers S))) (\<lambda>tss. Inr (concat tss))"

definition interceptors_for :: "prompt_service \<Rightarrow> assemble_context \<Rightarrow> assemble_interceptor list" where
  "interceptors_for S c =
     map (\<lambda>e. snd (ow_value e))
       (sort_key (\<lambda>e. (fst (ow_value e), ow_id e)) (filter (\<lambda>e. scope_matches c (ow_scope e)) (pr_interceptors S)))"

text \<open>The sections as they are rendered, with those that are the complete prompt.\<close>

definition complete_sections :: "prompt_section list \<Rightarrow> assembled_section list \<Rightarrow> assembled_section list" where
  "complete_sections ss as = map snd (filter (\<lambda>(s, a). sec_complete s) (zip ss as))"

definition assemble :: "prompt_service \<Rightarrow> assemble_context \<Rightarrow> prompt_error + assembly" where
  "assemble S c =
     and_sum (assemble_variables S c) (\<lambda>vars.
     and_sum (each (render_section c) (ordered_sections S c)) (\<lambda>secs.
       let complete = complete_sections (ordered_sections S c) secs
       in if length complete > 1 then Inl ManyComplete
          else
            and_sum (if suppressed S c then Inr [] else each (render_context c) (ordered_contexts S c)) (\<lambda>contexts.
            and_sum (collected_tools S c) (\<lambda>ts.
            and_sum (order_tools ts (pr_tool_order S) (map pt_name ts)) (\<lambda>ordered.
            and_sum (fold_sum (\<lambda>f a. f a c) (interceptors_for S c)
                       \<lparr>al_sections = secs, al_contexts = contexts, al_tools = ordered, al_variables = vars\<rparr>) (\<lambda>a.
            Inr (case complete of [] \<Rightarrow> a | s # _ \<Rightarrow> a\<lparr>al_sections := [s]\<rparr>)))))))"

section \<open>Rendering\<close>

definition joined_texts :: "string list \<Rightarrow> string" where
  "joined_texts ts = fold (\<lambda>t out. if t = [] then out else (if out = [] then [] else out @ [newline, newline]) @ t) ts []"

definition section_text :: "assembly \<Rightarrow> assembled_section \<Rightarrow> prompt_error + string" where
  "section_text a s =
     (if asec_interpolate s then interpolate (asec_text s) (al_variables a) ''section'' (asec_name s) else Inr (asec_text s))"

definition render_prompt :: "assembly \<Rightarrow> prompt_error + string" where
  "render_prompt a = and_sum (each (section_text a) (al_sections a)) (\<lambda>ts. Inr (joined_texts ts))"

definition snapshot_head :: string where
  "snapshot_head = ''Current runtime context. This snapshot supersedes earlier runtime-context snapshots.'' @ [newline, newline]"

definition render_context_snapshot :: "assembly \<Rightarrow> prompt_error + string" where
  "render_context_snapshot a =
     and_sum (each (\<lambda>x. interpolate (actx_text x) (al_variables a) ''context'' (actx_name x)) (al_contexts a)) (\<lambda>ts.
       let body = joined_texts ts in Inr (if body = [] then [] else snapshot_head @ body))"

end
