(* ===== verification/PromptLaws.thy ===== *)
theory PromptLaws
  imports Prompts "HOL-Library.Multiset"
begin

text \<open>
  What the prompt registry guarantees: interpolation fills exactly the references of a text, the tool order
  permutes the tools, each name contributes the section of the innermost scope, a complete section is the whole
  prompt, and a cleanup takes back its registration.
\<close>

section \<open>Interpolation\<close>

lemma find_text_here: "find_text needle (needle @ s) = Some 0"
proof (cases "needle @ s")
  case (Cons c cs)
  then have "take (length needle) (c # cs) = needle" by (metis append_eq_conv_conj)
  with Cons show ?thesis by simp
qed simp

lemma find_text_skip:
  assumes "find_text [x, y] (t @ [x]) = None"
  shows "find_text [x, y] (t @ [x, y] @ s) = Some (length t)"
  using assms by (induction t) (auto split: if_splits simp: take_Cons' split: list.splits)

lemma find_text_absent: "x \<notin> set t \<Longrightarrow> find_text [x, y] (t @ [x]) = None"
  by (induction t) auto

text \<open>A text as its author means it: prose and references.\<close>

datatype piece = Literal string | Reference string

fun written :: "piece list \<Rightarrow> string" where
  "written [] = []"
| "written (Literal t # ps) = t @ written ps"
| "written (Reference n # ps) = open_braces @ n @ close_braces @ written ps"

text \<open>Prose has no two opening braces in a row, not even with the ones of the reference behind it.\<close>

fun legible :: "piece list \<Rightarrow> bool" where
  "legible [] \<longleftrightarrow> True"
| "legible [Literal t] \<longleftrightarrow> find_text open_braces t = None"
| "legible (Literal t # Reference n # ps) \<longleftrightarrow> find_text open_braces (t @ ''{'') = None \<and> legible (Reference n # ps)"
| "legible (Literal t # Literal u # ps) \<longleftrightarrow> False"
| "legible (Reference n # ps) \<longleftrightarrow> is_variable_name n \<and> legible ps"

fun filled :: "(string, string option) omap \<Rightarrow> string \<Rightarrow> string \<Rightarrow> piece list \<Rightarrow> prompt_error + string" where
  "filled vs kind name [] = Inr []"
| "filled vs kind name (Literal t # ps) = and_sum (filled vs kind name ps) (\<lambda>out. Inr (t @ out))"
| "filled vs kind name (Reference n # ps) =
     (case map_of vs n of
        None \<Rightarrow> Inl (UnknownVariable n kind name)
      | Some None \<Rightarrow> Inl (NoValue n kind name)
      | Some (Some v) \<Rightarrow> and_sum (filled vs kind name ps) (\<lambda>out. Inr (v @ out)))"

lemma variable_name_plain: "is_variable_name n \<Longrightarrow> CHR ''{'' \<notin> set n \<and> CHR ''}'' \<notin> set n"
  by (auto simp: is_variable_name_def list_all_iff is_lower_def is_digit_def)

lemma interpolate_reference:
  assumes "is_variable_name n"
  shows "interpolate_from vs kind name (open_braces @ n @ close_braces @ s) =
     (case map_of vs n of
        None \<Rightarrow> Inl (UnknownVariable n kind name)
      | Some None \<Rightarrow> Inl (NoValue n kind name)
      | Some (Some v) \<Rightarrow> and_sum (interpolate_from vs kind name s) (\<lambda>out. Inr (v @ out)))"
proof -
  have b: "CHR ''{'' \<notin> set n" "CHR ''}'' \<notin> set n" using variable_name_plain [OF assms] by simp_all
  then have "find_text close_braces (n @ close_braces @ s) = Some (length n)"
    unfolding close_braces_def by (intro find_text_skip find_text_absent)
  moreover have "\<not> list_ex (\<lambda>c. c = CHR ''{'' \<or> c = CHR ''}'') n" using b by (auto simp: list_ex_iff)
  ultimately show ?thesis using assms
    by (subst interpolate_from.simps) (simp add: find_text_here Let_def open_braces_def close_braces_def split: option.split)
qed

lemma interpolate_literal:
  assumes "find_text open_braces (t @ ''{'') = None"
  shows "interpolate_from vs kind name (t @ open_braces @ s) = and_sum (interpolate_from vs kind name (open_braces @ s)) (\<lambda>out. Inr (t @ out))"
proof -
  have "find_text open_braces (t @ open_braces @ s) = Some (length t)"
    using assms unfolding open_braces_def by (rule find_text_skip)
  moreover have "drop (length t + 2) (t @ open_braces @ s) = s" "take (length t + 2) (t @ open_braces @ s) = t @ open_braces"
    "drop (length t) (t @ open_braces @ s) = open_braces @ s" "take (length t) (t @ open_braces @ s) = t"
    by (simp_all add: open_braces_def)
  ultimately have l: "interpolate_from vs kind name (t @ open_braces @ s) =
     (case find_text close_braces s of
        None \<Rightarrow> and_sum (interpolate_from vs kind name s) (\<lambda>out. Inr ((t @ open_braces) @ out))
      | Some k \<Rightarrow>
          if list_ex (\<lambda>c. c = CHR ''{'' \<or> c = CHR ''}'') (take k s) then Inl (MalformedAt (take 16 (open_braces @ s)) kind name)
          else if \<not> is_variable_name (take k s) then Inl (MalformedReference (take k s) kind name)
          else (case map_of vs (take k s) of
                  None \<Rightarrow> Inl (UnknownVariable (take k s) kind name)
                | Some None \<Rightarrow> Inl (NoValue (take k s) kind name)
                | Some (Some v) \<Rightarrow> and_sum (interpolate_from vs kind name (drop (k + 2) s)) (\<lambda>out. Inr (t @ v @ out))))"
    by (subst interpolate_from.simps) (simp only: option.case Let_def)
  have r: "interpolate_from vs kind name (open_braces @ s) =
     (case find_text close_braces s of
        None \<Rightarrow> and_sum (interpolate_from vs kind name s) (\<lambda>out. Inr (open_braces @ out))
      | Some k \<Rightarrow>
          if list_ex (\<lambda>c. c = CHR ''{'' \<or> c = CHR ''}'') (take k s) then Inl (MalformedAt (take 16 (open_braces @ s)) kind name)
          else if \<not> is_variable_name (take k s) then Inl (MalformedReference (take k s) kind name)
          else (case map_of vs (take k s) of
                  None \<Rightarrow> Inl (UnknownVariable (take k s) kind name)
                | Some None \<Rightarrow> Inl (NoValue (take k s) kind name)
                | Some (Some v) \<Rightarrow> and_sum (interpolate_from vs kind name (drop (k + 2) s)) (\<lambda>out. Inr (v @ out))))"
  proof -
    have "drop (0 + 2) (open_braces @ s) = s" "take (0 + 2) (open_braces @ s) = open_braces" by (simp_all add: open_braces_def)
    then show ?thesis by (subst interpolate_from.simps) (simp only: find_text_here option.case Let_def take_0 drop_0 append_Nil)
  qed
  show ?thesis unfolding l r by (auto simp: and_sum_def split: option.split sum.split)
qed

lemma interpolates:
  "legible ps \<Longrightarrow> interpolate_from vs kind name (written ps) = filled vs kind name ps"
proof (induction ps rule: legible.induct)
  case 1
  show ?case by (simp add: interpolate_from.simps open_braces_def)
next
  case (2 t)
  then show ?case by (simp add: interpolate_from.simps [of _ _ _ t])
next
  case (3 t n ps)
  then have "interpolate_from vs kind name (written (Reference n # ps)) = filled vs kind name (Reference n # ps)" by simp
  moreover have "written (Reference n # ps) = open_braces @ (n @ close_braces @ written ps)" by simp
  ultimately show ?case using interpolate_literal [of t vs kind name "n @ close_braces @ written ps"] 3(2) by simp
next
  case (5 n ps)
  then show ?case using interpolate_reference [of n vs kind name "written ps"] by (simp split: option.split)
qed simp

section \<open>The order of tools\<close>

lemma find_distinct_name:
  assumes "distinct (map f xs)" and "x \<in> set xs"
  shows "List.find (\<lambda>t. f t = f x) xs = Some x"
  using assms by (induction xs) (auto simp: image_iff)

lemma placed_append: "reserved_tool \<notin> set names \<Longrightarrow> placed ts (names @ names') rest = placed ts names rest @ placed ts names' rest"
  by (induction names) auto

lemma placed_split:
  "reserved_tool \<notin> set as \<Longrightarrow> placed ts (as @ reserved_tool # bs) rest = placed ts as rest @ rest @ placed ts bs (map (\<lambda>_. moved_from) rest)"
  by (simp add: placed_append)

lemma mset_listed:
  assumes "distinct (map pt_name ts)" and "distinct names"
  shows "mset (List.map_filter (\<lambda>n. List.find (\<lambda>t. pt_name t = n) ts) names) = mset (filter (\<lambda>t. pt_name t \<in> set names) ts)"
  using assms(2)
proof (induction names)
  case (Cons n names)
  show ?case
  proof (cases "List.find (\<lambda>t. pt_name t = n) ts")
    case None
    then have "n \<notin> pt_name ` set ts" by (auto simp: find_None_iff)
    then have "filter (\<lambda>t. pt_name t \<in> set (n # names)) ts = filter (\<lambda>t. pt_name t \<in> set names) ts" by (intro filter_cong) auto
    with None Cons show ?thesis by (simp add: List.map_filter_def)
  next
    case (Some t)
    then have t: "t \<in> set ts" "pt_name t = n" by (auto simp: find_Some_iff)
    have "filter (\<lambda>x. pt_name x = n) ts = [t]" using t assms(1) by (induction ts) (auto simp: image_iff filter_empty_conv)
    moreover have "mset (filter (\<lambda>x. pt_name x \<in> set (n # names)) ts) =
        mset (filter (\<lambda>x. pt_name x = n) ts) + mset (filter (\<lambda>x. pt_name x \<in> set names) ts)"
      using Cons.prems by (induction ts) auto
    ultimately show ?thesis using Some Cons by (simp add: List.map_filter_def)
  qed
qed (simp add: List.map_filter_def)

text \<open>An order is proper when it lists no name twice and leaves one place to the tools it does not list.\<close>

definition proper_order :: "string list option \<Rightarrow> bool" where
  "proper_order order \<longleftrightarrow> (case order of None \<Rightarrow> True | Some names \<Rightarrow> distinct names \<and> reserved_tool \<in> set names)"

lemma tools_permuted:
  assumes "order_tools ts order known = Inr out" and "distinct (map pt_name ts)" and "[] \<notin> pt_name ` set ts" and "proper_order order"
    and "\<forall>names. order = Some names \<longrightarrow> [] \<notin> set names"
  shows "mset out = mset ts"
proof (cases order)
  case None
  with assms(1) show ?thesis by (auto simp: order_tools_def split: if_splits)
next
  case (Some names)
  let ?ts = "map (\<lambda>t. if pt_name t \<in> set names then t else moved_from) ts"
  let ?rest = "sort_key pt_name (filter (\<lambda>t. pt_name t \<notin> set names) ts)"
  have out: "out = placed ?ts names ?rest" and r: "reserved_tool \<notin> pt_name ` set ts"
    using assms(1) Some by (auto simp: order_tools_def split: if_splits option.splits)
  from assms(4) Some obtain as bs where n: "names = as @ reserved_tool # bs" "reserved_tool \<notin> set as" "reserved_tool \<notin> set bs"
    by (auto simp: proper_order_def dest!: split_list)
  have found: "List.find (\<lambda>t. pt_name t = n) ?ts = List.find (\<lambda>t. pt_name t = n) ts" if "n \<in> set names" for n
    using that assms(5) Some by (induction ts) (auto simp: moved_from_def)
  have pl: "placed ?ts ns rest = List.map_filter (\<lambda>n. List.find (\<lambda>t. pt_name t = n) ts) ns"
    if "set ns \<subseteq> set names" "reserved_tool \<notin> set ns" for ns rest
    using that by (induction ns) (auto simp: found List.map_filter_def split: option.splits)
  define F where "F = List.map_filter (\<lambda>n. List.find (\<lambda>t. pt_name t = n) ts)"
  have sub: "set as \<subseteq> set names" "set bs \<subseteq> set names" using n(1) by auto
  have "out = F as @ ?rest @ F bs" unfolding out F_def
    using placed_split [OF n(2), of ?ts bs ?rest] pl [OF sub(1) n(2)] pl [OF sub(2) n(3)] unfolding n(1) [symmetric] by simp
  then have "mset out = mset (F (as @ bs)) + mset ?rest" by (simp add: F_def List.map_filter_def)
  also have "mset (F (as @ bs)) = mset (filter (\<lambda>t. pt_name t \<in> set (as @ bs)) ts)"
    unfolding F_def using assms(2,4) Some n by (intro mset_listed) (auto simp: proper_order_def)
  also have "filter (\<lambda>t. pt_name t \<in> set (as @ bs)) ts = filter (\<lambda>t. pt_name t \<in> set names) ts"
    using r n(1) by (intro filter_cong) (auto simp: image_iff)
  also have "mset ?rest = mset (filter (\<lambda>t. pt_name t \<notin> set names) ts)" by (rule mset_sort)
  finally have "mset out = mset (filter (\<lambda>t. pt_name t \<in> set names) ts) + mset (filter (\<lambda>t. pt_name t \<notin> set names) ts)" .
  then show ?thesis using multiset_partition [of "mset ts" "\<lambda>t. pt_name t \<in> set names"] by simp
qed

section \<open>Contributions\<close>

lemma find_append: "List.find P (xs @ ys) = (case List.find P xs of Some y \<Rightarrow> Some y | None \<Rightarrow> List.find P ys)"
  by (induction xs) (auto split: option.splits)

lemma merged_fold: "map_of (fold (\<lambda>v. om_insert (name v) v) vs m) n = (case List.find (\<lambda>v. name v = n) (rev vs) of Some v \<Rightarrow> Some v | None \<Rightarrow> map_of m n)"
  by (induction vs arbitrary: m) (simp_all add: find_append split: option.split)

lemma merged_lookup: "map_of (merged name vs) n = List.find (\<lambda>v. name v = n) (rev vs)"
  by (simp add: merged_def merged_fold split: option.split)

lemma merged_sorted: "om_sorted (merged name vs)"
proof -
  have "om_sorted (fold (\<lambda>v. om_insert (name v) v) vs m)" if "om_sorted m" for m using that by (induction vs arbitrary: m) (simp_all add: om_sorted_insert)
  then show ?thesis by (simp add: merged_def)
qed

lemma merged_named: "(n, v) \<in> set (merged name vs) \<longleftrightarrow> List.find (\<lambda>v. name v = n) (rev vs) = Some v"
  unfolding merged_lookup [symmetric] by (rule map_of_eq_Some_iff [symmetric]) (rule om_sorted_distinct [OF merged_sorted])

lemma find_latest: "List.find P (rev (xs @ ys)) = (case List.find P (rev ys) of Some y \<Rightarrow> Some y | None \<Rightarrow> List.find P (rev xs))"
  by (simp add: find_append)

text \<open>The section of a name: the latest contributed for the scope, else the latest global one, else the built-in one.\<close>

definition latest :: "string \<Rightarrow> prompt_section list \<Rightarrow> prompt_section option" where
  "latest n xs = List.find (\<lambda>s. sec_name s = n) (rev xs)"

definition chosen_section :: "prompt_service \<Rightarrow> assemble_context \<Rightarrow> string \<Rightarrow> prompt_section option" where
  "chosen_section S c n =
     (case latest n (map ow_value (filter (\<lambda>e. ow_scope e \<noteq> None \<and> scope_matches c (ow_scope e)) (pr_sections S))) of
        Some s \<Rightarrow> Some s
      | None \<Rightarrow> (case latest n (map ow_value (filter (\<lambda>e. ow_scope e = None) (pr_sections S))) of
                   Some s \<Rightarrow> Some s
                 | None \<Rightarrow> latest n (built_in_sections S)))"

lemma ordered_chosen: "s \<in> set (ordered_sections S c) \<longleftrightarrow> chosen_section S c (sec_name s) = Some s"
proof -
  have "s \<in> set (ordered_sections S c) \<longleftrightarrow> (\<exists>n. (n, s) \<in> set (merged sec_name (built_in_sections S @ map ow_value (seen_by c (pr_sections S)))))"
    by (force simp: ordered_sections_def)
  also have "\<dots> \<longleftrightarrow> (\<exists>n. List.find (\<lambda>v. sec_name v = n) (rev (built_in_sections S @ map ow_value (seen_by c (pr_sections S)))) = Some s)"
    by (simp only: merged_named)
  also have "\<dots> \<longleftrightarrow> List.find (\<lambda>v. sec_name v = sec_name s) (rev (built_in_sections S @ map ow_value (seen_by c (pr_sections S)))) = Some s"
    by (auto simp: find_Some_iff)
  also have "\<dots> \<longleftrightarrow> chosen_section S c (sec_name s) = Some s"
    unfolding seen_by_def map_append find_latest chosen_section_def latest_def by (simp split: option.split)
  finally show ?thesis .
qed

lemma ordered_strict: "sorted_wrt (\<lambda>s t. section_key s < section_key t) (ordered_sections S c)"
proof -
  let ?m = "merged sec_name (built_in_sections S @ map ow_value (seen_by c (pr_sections S)))"
  have k: "sec_name v = n" if "(n, v) \<in> set ?m" for n v
    using that unfolding merged_named by (auto simp: find_Some_iff)
  have "map sec_name (map snd ?m) = map fst ?m" using k by auto
  then have "distinct (map sec_name (map snd ?m))" using om_sorted_distinct [OF merged_sorted] by metis
  moreover have "sec_name = snd \<circ> section_key" by (simp add: fun_eq_iff section_key_def)
  ultimately have "distinct (map snd (map section_key (map snd ?m)))" by (metis map_map)
  then have "distinct (map section_key (map snd ?m))" by (rule distinct_map [THEN iffD1, THEN conjunct1])
  moreover have "distinct (map section_key (sort_key section_key xs))" if "distinct (map section_key xs)" for xs
    using that by (simp add: distinct_map)
  ultimately have "distinct (map section_key (ordered_sections S c))" unfolding ordered_sections_def by blast
  moreover have "sorted (map section_key (ordered_sections S c))" by (simp add: ordered_sections_def)
  ultimately have "sorted_wrt (<) (map section_key (ordered_sections S c))" by (simp add: strict_sorted_iff)
  then show ?thesis by (simp add: sorted_wrt_map)
qed

lemma each_result: "each f xs = Inr ys \<Longrightarrow> list_all2 (\<lambda>x y. f x = Inr y) xs ys"
  by (induction xs arbitrary: ys) (auto simp: success_iff)

lemma assemble_parts:
  assumes "assemble S c = Inr a"
  obtains secs where "each (render_section c) (ordered_sections S c) = Inr secs"
    and "length (complete_sections (ordered_sections S c) secs) \<le> 1"
    and "interceptors_for S c = [] \<and> complete_sections (ordered_sections S c) secs = [] \<longrightarrow> al_sections a = secs"
    and "\<forall>s. complete_sections (ordered_sections S c) secs = [s] \<longrightarrow> al_sections a = [s]"
proof -
  let ?C = "complete_sections (ordered_sections S c)"
  from assms obtain vs secs where s: "each (render_section c) (ordered_sections S c) = Inr secs"
    and rest: "(if length (?C secs) > 1 then Inl ManyComplete
      else and_sum (if suppressed S c then Inr [] else each (render_context c) (ordered_contexts S c)) (\<lambda>cs.
        and_sum (collected_tools S c) (\<lambda>ts.
        and_sum (order_tools ts (pr_tool_order S) (map pt_name ts)) (\<lambda>os.
        and_sum (fold_sum (\<lambda>f a. f a c) (interceptors_for S c)
          \<lparr>al_sections = secs, al_contexts = cs, al_tools = os, al_variables = vs\<rparr>) (\<lambda>a.
        Inr (case ?C secs of [] \<Rightarrow> a | s # _ \<Rightarrow> a\<lparr>al_sections := [s]\<rparr>)))))) = Inr a"
    unfolding assemble_def Let_def and_sum_success by blast
  then have n: "\<not> length (?C secs) > 1" by (cases "length (?C secs) > 1") simp_all
  with rest obtain cs os b where p:
    "fold_sum (\<lambda>f a. f a c) (interceptors_for S c) \<lparr>al_sections = secs, al_contexts = cs, al_tools = os, al_variables = vs\<rparr> = Inr b"
    "(case ?C secs of [] \<Rightarrow> b | s # _ \<Rightarrow> b\<lparr>al_sections := [s]\<rparr>) = a"
    by (simp only: if_False success_iff sum.inject) blast
  from p(1) have "interceptors_for S c = [] \<Longrightarrow> al_sections b = secs" by auto
  with p s n show thesis by (intro that [of secs]) auto
qed

lemma complete_zip:
  assumes "list_all2 (\<lambda>s a. render_section c s = Inr a) ss as" and "s \<in> set ss" and "sec_complete s" and "length (complete_sections ss as) \<le> 1"
  shows "\<exists>a. complete_sections ss as = [a] \<and> render_section c s = Inr a"
  using assms
proof (induction rule: list_all2_induct)
  case (Cons s' ss a as)
  have none: "complete_sections ss as \<noteq> []" if "x \<in> set ss" "sec_complete x" for x
  proof -
    from that(1) Cons(2) obtain y where "(x, y) \<in> set (zip ss as)" by (metis list_all2_lengthD in_set_impl_in_set_zip1)
    with that(2) show ?thesis by (auto simp: complete_sections_def filter_empty_conv)
  qed
  show ?case
  proof (cases "s = s'")
    case True
    with Cons show ?thesis by (auto simp: complete_sections_def)
  next
    case False
    with Cons.prems have s: "s \<in> set ss" by simp
    with Cons.prems none have n: "complete_sections ss as \<noteq> []" by blast
    show ?thesis
    proof (cases "sec_complete s'")
      case True
      with n Cons.prems(3) show ?thesis by (cases "complete_sections ss as") (auto simp: complete_sections_def)
    next
      case c: False
      with Cons s show ?thesis by (simp add: complete_sections_def)
    qed
  qed
qed simp

section \<open>Registrations\<close>

definition prompt_ids :: "prompt_service \<Rightarrow> nat set" where
  "prompt_ids S = ow_id ` set (pr_sections S) \<union> ow_id ` set (pr_contexts S) \<union> ow_id ` set (pr_variables S) \<union>
     ow_id ` set (pr_providers S) \<union> ow_id ` set (pr_suppressors S) \<union> ow_id ` set (pr_interceptors S)"

definition prompts_ok :: "prompt_service \<Rightarrow> bool" where
  "prompts_ok S \<longleftrightarrow> (\<forall>i \<in> prompt_ids S. i < pr_next_id S)"

lemma erase_fresh: "i \<notin> ow_id ` set xs \<Longrightarrow> erase_owned i xs = xs"
  unfolding erase_owned_def by (rule filter_True) auto

lemma erase_added: "pr_next_id S \<notin> ow_id ` set xs \<Longrightarrow> erase_owned (pr_next_id S) (xs @ [owned_by S scope v]) = xs"
  using erase_fresh by (simp add: erase_owned_def owned_by_def)

lemmas registration_defs = add_section_def add_context_def add_variable_def add_tools_def suppress_runtime_context_def intercept_def
  next_registration_def

lemma prompts_ok_new: "prompts_ok new_prompts"
  by (simp add: prompts_ok_def prompt_ids_def new_prompts_def)

lemma prompts_ok_cleanup: "prompts_ok S \<Longrightarrow> prompts_ok (run_prompt_cleanup cl S)"
  by (cases cl) (auto simp: prompts_ok_def prompt_ids_def erase_owned_def)

lemma prompts_ok_grown:
  "prompts_ok S \<Longrightarrow> prompt_ids S' \<subseteq> insert (pr_next_id S) (prompt_ids S) \<Longrightarrow> pr_next_id S' = pr_next_id S + 1 \<Longrightarrow> prompts_ok S'"
  unfolding prompts_ok_def by fastforce

lemma prompts_ok_added:
  assumes "prompts_ok S"
  shows "add_section s scope S = Inr (cl, S') \<Longrightarrow> prompts_ok S'" and "add_context x scope S = Inr (cl, S') \<Longrightarrow> prompts_ok S'"
    and "add_variable n p scope S = Inr (cl, S') \<Longrightarrow> prompts_ok S'" and "prompts_ok (snd (add_tools t scope S))"
    and "prompts_ok (snd (suppress_runtime_context scope S))" and "prompts_ok (snd (intercept i f scope S))"
  by (rule prompts_ok_grown [OF assms], auto simp: prompt_ids_def registration_defs owned_by_def split: if_splits)+

end
