(* ===== verification/PromptProperties.thy ===== *)
theory PromptProperties
  imports PromptLaws
begin

text \<open>
  The properties of the prompt registry (\<open>plugins/system-prompt/src/system_prompt.cpp\<close>): interpolation, the
  sections of an assembly, the tools, and what a registration changes.
\<close>

section \<open>Interpolation\<close>

text \<open>
  C35. Interpolation. A text written as prose and references comes out as the prose with every reference replaced by
  the value of its variable, the values not read again; it fails exactly with the first reference, in order,
  that is unknown or has no value.
\<close>

theorem interpolation_exact:
  assumes "legible ps"
  shows "interpolate (written ps) vs kind name = filled vs kind name ps"
  using interpolates [OF assms] by (simp add: interpolate_def)

theorem interpolation_exact_witness:
  "interpolate ''in {{cwd}} { now'' [(''cwd'', Some ''/{{x}}'')] ''section'' ''s'' = Inr ''in /{{x}} { now''"
proof -
  let ?ps = "[Literal ''in '', Reference ''cwd'', Literal '' { now'']"
  have "legible ?ps" by code_simp
  from interpolation_exact [OF this, of "[(''cwd'', Some ''/{{x}}'')]" "''section''" "''s''"] show ?thesis
    by (simp add: open_braces_def close_braces_def)
qed

section \<open>Assemblies\<close>

text \<open>
  C36. The sections of a prompt. Whenever an assembly succeeds, one section per name is chosen, the latest one of the
  scope before the latest global one before the built-in one, and they are rendered in strictly ascending order
  of their number and then their name. A chosen section that is complete is the whole prompt whatever the
  interceptors did; without one and without interceptors the prompt is exactly the rendered sections.
\<close>

theorem prompt_sections:
  assumes "assemble S c = Inr a"
  shows "\<exists>ss secs. sorted_wrt (\<lambda>s t. section_key s < section_key t) ss \<and>
    (\<forall>s. s \<in> set ss \<longleftrightarrow> chosen_section S c (sec_name s) = Some s) \<and>
    list_all2 (\<lambda>s x. render_section c s = Inr x) ss secs \<and>
    (\<forall>s \<in> set ss. sec_complete s \<longrightarrow> (\<exists>x. render_section c s = Inr x \<and> al_sections a = [x])) \<and>
    (interceptors_for S c = [] \<and> (\<forall>s \<in> set ss. \<not> sec_complete s) \<longrightarrow> al_sections a = secs)"
proof -
  let ?ss = "ordered_sections S c"
  from assms obtain secs where e: "each (render_section c) ?ss = Inr secs" and l: "length (complete_sections ?ss secs) \<le> 1"
    and plain: "interceptors_for S c = [] \<and> complete_sections ?ss secs = [] \<longrightarrow> al_sections a = secs"
    and whole: "\<forall>s. complete_sections ?ss secs = [s] \<longrightarrow> al_sections a = [s]" by (rule assemble_parts)
  have r: "list_all2 (\<lambda>s x. render_section c s = Inr x) ?ss secs" by (rule each_result [OF e])
  have "\<exists>x. render_section c s = Inr x \<and> al_sections a = [x]" if "s \<in> set ?ss" "sec_complete s" for s
    using complete_zip [OF r that l] whole by blast
  moreover have "complete_sections ?ss secs = []" if "\<forall>s \<in> set ?ss. \<not> sec_complete s"
    using that by (auto simp: complete_sections_def filter_empty_conv dest: set_zip_leftD)
  ultimately show ?thesis using ordered_strict [of S c] ordered_chosen [of _ S c] r plain
    by (intro exI [of _ ?ss] exI [of _ secs]) blast
qed

definition plain_section :: "string \<Rightarrow> string \<Rightarrow> bool \<Rightarrow> prompt_section" where
  "plain_section n t complete = (built_in n 5 t)\<lparr>sec_complete := complete\<rparr>"

definition in_scope :: "string \<Rightarrow> assemble_context" where
  "in_scope i = \<lparr>ac_scope = Some i, ac_provider = [], ac_model = [], ac_cwd = []\<rparr>"

text \<open>A global section, one for the scope that shadows it and is complete, and an interceptor that empties the prompt.\<close>

definition shadowed_prompts :: prompt_service where
  "shadowed_prompts = new_prompts
     \<lparr>pr_sections := [\<lparr>ow_id = 1, ow_scope = None, ow_value = plain_section ''a'' ''global'' False\<rparr>,
                      \<lparr>ow_id = 2, ow_scope = Some ''s'', ow_value = plain_section ''a'' ''whole'' True\<rparr>],
      pr_interceptors := [\<lparr>ow_id = 3, ow_scope = None, ow_value = (0, \<lambda>x c. Inr (x\<lparr>al_sections := []\<rparr>))\<rparr>]\<rparr>"

theorem prompt_sections_witness:
  "\<exists>a. assemble shadowed_prompts (in_scope ''s'') = Inr a \<and> map asec_text (al_sections a) = [''whole'']"
proof -
  have "\<not> isl (assemble shadowed_prompts (in_scope ''s''))" by code_simp
  then obtain a where a: "assemble shadowed_prompts (in_scope ''s'') = Inr a" by (cases "assemble shadowed_prompts (in_scope ''s'')") auto
  let ?s = "plain_section ''a'' ''whole'' True"
  have "chosen_section shadowed_prompts (in_scope ''s'') (sec_name ?s) = Some ?s"
    by (simp add: chosen_section_def shadowed_prompts_def in_scope_def scope_matches_def latest_def new_prompts_def)
  moreover obtain ss where "\<forall>s. s \<in> set ss \<longleftrightarrow> chosen_section shadowed_prompts (in_scope ''s'') (sec_name s) = Some s"
    "\<forall>s \<in> set ss. sec_complete s \<longrightarrow> (\<exists>x. render_section (in_scope ''s'') s = Inr x \<and> al_sections a = [x])"
    using prompt_sections [OF a] by blast
  moreover have "sec_complete ?s" by (simp add: plain_section_def)
  ultimately obtain x where "render_section (in_scope ''s'') ?s = Inr x" "al_sections a = [x]" by blast
  with a show ?thesis by (auto simp: render_section_def plain_section_def built_in_def)
qed

section \<open>Tools\<close>

text \<open>
  The order of tools loses and repeats nothing: with a proper order, or with none, the assembled schemas are a
  permutation of those the providers contributed, when their names differ and are not empty.
\<close>

theorem tools_only_reordered:
  assumes "order_tools ts order known = Inr out" and "distinct (map pt_name ts)" and "[] \<notin> pt_name ` set ts" and "proper_order order"
    and "\<forall>names. order = Some names \<longrightarrow> [] \<notin> set names"
  shows "mset out = mset ts"
  using assms by (rule tools_permuted)

text \<open>An order that names the place of the unlisted tools twice offers the model schemas without a name.\<close>

theorem second_place_empties:
  "order_tools [\<lparr>pt_name = ''ls'', pt_description = [], pt_parameters = JNull\<rparr>] (Some [reserved_tool, reserved_tool]) [''ls''] =
     Inr [\<lparr>pt_name = ''ls'', pt_description = [], pt_parameters = JNull\<rparr>, moved_from]"
  by code_simp

section \<open>Registrations\<close>

text \<open>The six ways to register.\<close>

inductive registered :: "string option \<Rightarrow> prompt_cleanup \<Rightarrow> prompt_service \<Rightarrow> prompt_service \<Rightarrow> bool" where
  a_section: "add_section v scope S = Inr (cl, S') \<Longrightarrow> registered scope cl S S'"
| a_context: "add_context v scope S = Inr (cl, S') \<Longrightarrow> registered scope cl S S'"
| a_variable: "add_variable n p scope S = Inr (cl, S') \<Longrightarrow> registered scope cl S S'"
| a_provider: "add_tools t scope S = (cl, S') \<Longrightarrow> registered scope cl S S'"
| a_suppressor: "suppress_runtime_context scope S = (cl, S') \<Longrightarrow> registered scope cl S S'"
| an_interceptor: "intercept order f scope S = (cl, S') \<Longrightarrow> registered scope cl S S'"

lemmas assembled_from = assemble_variables_def ordered_sections_def ordered_contexts_def built_in_sections_def suppressed_def
  collected_tools_def interceptors_for_def

lemma assemble_cong:
  assumes "assemble_variables S' c = assemble_variables S c" and "ordered_sections S' c = ordered_sections S c"
    and "suppressed S' c = suppressed S c" and "ordered_contexts S' c = ordered_contexts S c"
    and "collected_tools S' c = collected_tools S c" and "interceptors_for S' c = interceptors_for S c" and "pr_tool_order S' = pr_tool_order S"
  shows "assemble S' c = assemble S c"
  by (simp only: assemble_def assms)

lemma assemble_next_id: "assemble (S\<lparr>pr_next_id := n\<rparr>) c = assemble S c"
  by (rule assemble_cong) (simp_all add: assembled_from)

lemma not_seen: "\<not> scope_matches c scope \<Longrightarrow> seen_by c (xs @ [owned_by S scope v]) = seen_by c xs"
  by (auto simp: seen_by_def owned_by_def scope_matches_def)

lemma not_suppressing: "\<not> scope_matches c scope \<Longrightarrow> \<not> scope_matches c (ow_scope (owned_by S scope v))"
  by (simp add: owned_by_def)

text \<open>
  A registration is local: an assembly its scope does not match is what it was, and so is every assembly once its
  cleanup has run.
\<close>

theorem prompt_registration_local:
  assumes "registered scope cl S S'" and "prompts_ok S"
  shows "assemble (run_prompt_cleanup cl S') c = assemble S c \<and> (\<not> scope_matches c scope \<longrightarrow> assemble S' c = assemble S c)"
proof
  have fresh: "pr_next_id S \<notin> prompt_ids S" using assms(2) by (auto simp: prompts_ok_def)
  have "run_prompt_cleanup cl S' = S\<lparr>pr_next_id := pr_next_id S + 1\<rparr>" using assms(1) fresh
    by cases (auto simp: registration_defs prompt_ids_def erase_added split: if_splits)
  then show "assemble (run_prompt_cleanup cl S') c = assemble S c" by (simp add: assemble_next_id)
  show "\<not> scope_matches c scope \<longrightarrow> assemble S' c = assemble S c"
  proof
    assume "\<not> scope_matches c scope"
    with assms(1) show "assemble S' c = assemble S c"
      by (cases; intro assemble_cong) (auto simp: registration_defs assembled_from not_seen not_suppressing split: if_splits)
  qed
qed

end
