(* ===== verification/Rounds.thy ===== *)
theory Rounds
  imports AgentTurn GoalService
begin

text \<open>
  Automatic goal rounds (\<open>plugins/goal-round-driver/src/goal_round_driver.cpp\<close>): one scheduling loop per session,
  the listeners that trigger it, and the fence at the pre-step. The goal service, the agent and its inbox are the
  record \<open>round_env\<close> over a world \<open>'w\<close>; a call that changes a goal answers with the sessions its
  \<open>goal/changed\<close> dispatches name, which the driver's own listener receives at once. A loop is posted, then runs
  until it awaits a followup; what happens meanwhile are further steps. Logging is left out.
\<close>

section \<open>Messages\<close>

definition line :: "string \<Rightarrow> string" where "line t = t @ [newline]"

definition round_instruction :: string where
  "round_instruction =
     ''Continue working toward the objective in this same session. Treat the current workspace, tool '' @
     ''results, and durable session state as authoritative; inspect them instead of assuming earlier narration '' @
     ''is still current. Make concrete progress and verify the result. Before claiming completion, gather '' @
     ''evidence that the whole objective is achieved, read the current goal, and mark it complete. If work '' @
     ''remains, leave the goal active for the next round. Follow the configured goal-tool policy before '' @
     ''reporting a blocker.''"

definition render_goal_round_prompt :: "(json \<Rightarrow> string) \<Rightarrow> goal_view \<Rightarrow> 64 word \<Rightarrow> string" where
  "render_goal_round_prompt serialize g round =
     line ''<goal_round>'' @
     line (''Objective: '' @ serialize (JString (vw_objective g))) @
     line (''Round: '' @ show_nat (unat round) @ ''/'' @ show_nat (unat (vw_max_rounds g))) @
     line [] @ line round_instruction @ ''</goal_round>''"

definition goal_source_of :: "json \<Rightarrow> json_object option" where
  "goal_source_of m =
     (case as_object m of
        None \<Rightarrow> None
      | Some obj \<Rightarrow>
          (case Option.bind (member obj ''source'') as_object of
             None \<Rightarrow> None
           | Some src \<Rightarrow> if member src ''kind'' = Some (JString ''goal'') then Some src else None))"

definition round_message :: "(json \<Rightarrow> string) \<Rightarrow> goal_view \<Rightarrow> json" where
  "round_message serialize g =
     (let round = vw_rounds g + 1
      in user_source_data (''goal-round-'' @ show_nat (unat round)) (render_goal_round_prompt serialize g round)
           (message_source ''goal''
              [(''goalId'', JString (vw_id g)), (''revision'', JUint (vw_revision g)), (''round'', JUint round)]))"

section \<open>The driver\<close>

record round_state =
  rq_requested :: bool
  rq_running :: bool
  rq_competing :: bool

definition idle_state :: round_state where
  "idle_state = \<lparr>rq_requested = False, rq_running = False, rq_competing = False\<rparr>"

datatype loop_point = Posted | Awaiting json

record 'w rounds =
  rn_states :: "(string, round_state) omap"
  rn_stopping :: bool
  rn_loops :: "(string \<times> loop_point) list"
  rn_world :: 'w

record 'w round_env =
  gd_idle :: "session_id \<Rightarrow> 'w \<Rightarrow> bool"
  gd_goal :: "session_id \<Rightarrow> 'w \<Rightarrow> goal_failure + goal_view option"
  gd_block :: "session_id \<Rightarrow> goal_ref \<Rightarrow> goal_block_reason \<Rightarrow> 'w \<Rightarrow> 'w \<times> session_id list"
  gd_disarm :: "session_id \<Rightarrow> 'w \<Rightarrow> 'w \<times> session_id list"
  gd_next_turn :: "session_id \<Rightarrow> 'w \<Rightarrow> json list option"
  gd_serialize :: "json \<Rightarrow> string"

definition new_rounds :: "'w \<Rightarrow> 'w rounds" where
  "new_rounds w = \<lparr>rn_states = [], rn_stopping = False, rn_loops = [], rn_world = w\<rparr>"

text \<open>\<open>state_of\<close> creates the state of a session it has not seen.\<close>

definition slot :: "string \<Rightarrow> 'w rounds \<Rightarrow> 'w rounds" where
  "slot s R = R\<lparr>rn_states := om_emplace s idle_state (rn_states R)\<rparr>"

definition round_state_of :: "string \<Rightarrow> 'w rounds \<Rightarrow> round_state" where
  "round_state_of s R = (case map_of (rn_states R) s of None \<Rightarrow> idle_state | Some x \<Rightarrow> x)"

definition set_round :: "string \<Rightarrow> (round_state \<Rightarrow> round_state) \<Rightarrow> 'w rounds \<Rightarrow> 'w rounds" where
  "set_round s f R = R\<lparr>rn_states := om_insert s (f (round_state_of s R)) (rn_states R)\<rparr>"

definition request_drive :: "string \<Rightarrow> 'w rounds \<Rightarrow> 'w rounds" where
  "request_drive s R =
     (if rn_stopping R then R
      else (let R1 = set_round s (\<lambda>x. x\<lparr>rq_requested := True\<rparr>) R
            in if rq_running (round_state_of s R) then R1
               else (set_round s (\<lambda>x. x\<lparr>rq_running := True\<rparr>) R1)\<lparr>rn_loops := rn_loops R1 @ [(s, Posted)]\<rparr>))"

text \<open>A call on the goal service; an exception is swallowed, and then nothing was dispatched.\<close>

definition goal_call :: "('w \<Rightarrow> 'w \<times> session_id list) \<Rightarrow> 'w rounds \<Rightarrow> 'w rounds" where
  "goal_call f R = (case f (rn_world R) of (w, changed) \<Rightarrow> fold request_drive changed (R\<lparr>rn_world := w\<rparr>))"

definition round_limit :: "goal_view \<Rightarrow> goal_block_reason" where
  "round_limit g = \<lparr>br_code = ''round-limit'',
     br_message = ''Goal reached its configured limit of '' @ show_nat (unat (vw_max_rounds g)) @ '' rounds.''\<rparr>"

text \<open>One pass: a message to hand to the agent as a followup, or nothing.\<close>

definition drive_round :: "'w round_env \<Rightarrow> string \<Rightarrow> 'w rounds \<Rightarrow> 'w rounds \<times> json option" where
  "drive_round E s R =
     (if rn_stopping R \<or> rq_competing (round_state_of s R) then (slot s R, None)
      else if \<not> gd_idle E s (rn_world R) then (slot s R, None)
      else (case gd_goal E s (rn_world R) of
              Inl e \<Rightarrow> (slot s R, None)
            | Inr None \<Rightarrow> (slot s R, None)
            | Inr (Some g) \<Rightarrow>
                if vw_phase g \<noteq> PhaseActive \<or> vw_activation g \<noteq> Armed then (slot s R, None)
                else if vw_rounds g \<ge> vw_max_rounds g
                then (goal_call (gd_block E s \<lparr>gr_id = vw_id g, gr_revision = vw_revision g\<rparr> (round_limit g)) (slot s R), None)
                else (slot s R, Some (round_message (gd_serialize E) g))))"

text \<open>The loop, which is not among \<open>rn_loops\<close> while it runs: up to a followup it awaits, or to its end.\<close>

partial_function (option) drive_loop :: "'w round_env \<Rightarrow> string \<Rightarrow> 'w rounds \<Rightarrow> 'w rounds option" where
  "drive_loop E s R =
     (if \<not> rq_requested (round_state_of s R) \<or> rn_stopping R
      then Some (set_round s (\<lambda>x. x\<lparr>rq_running := False\<rparr>) R)
      else (case drive_round E s (set_round s (\<lambda>x. x\<lparr>rq_requested := False\<rparr>) R) of
              (R', None) \<Rightarrow> drive_loop E s R'
            | (R', Some m) \<Rightarrow> Some (R'\<lparr>rn_loops := rn_loops R' @ [(s, Awaiting m)]\<rparr>)))"

section \<open>Listeners\<close>

definition on_status :: "string \<Rightarrow> bool \<Rightarrow> 'w rounds \<Rightarrow> 'w rounds" where
  "on_status s idle R =
     (if \<not> idle then R
      else request_drive s
             (if map_of (rn_states R) s = None then R else set_round s (\<lambda>x. x\<lparr>rq_competing := False\<rparr>) R))"

definition on_inserted :: "'w round_env \<Rightarrow> string \<Rightarrow> json \<Rightarrow> 'w rounds \<Rightarrow> 'w rounds" where
  "on_inserted E s m R =
     (if goal_source_of m \<noteq> None then R
      else (case gd_next_turn E s (rn_world R) of
              None \<Rightarrow> R
            | Some queue \<Rightarrow>
                if list_ex (\<lambda>x. inbox_message_id x = inbox_message_id m) queue
                then set_round s (\<lambda>x. x\<lparr>rq_competing := True\<rparr>) R else R))"

definition turn_end_reason :: "session_event \<Rightarrow> string" where
  "turn_end_reason ev = (case as_object (ev_data ev) of None \<Rightarrow> [] | Some obj \<Rightarrow> get_string_at obj ''reason'')"

definition on_appended :: "'w round_env \<Rightarrow> string \<Rightarrow> session_event \<Rightarrow> 'w rounds \<Rightarrow> 'w rounds" where
  "on_appended E s ev R =
     (if ev_type ev \<noteq> ''turn/end'' then R
      else if turn_end_reason ev \<noteq> ''error'' \<and> turn_end_reason ev \<noteq> ''max_tokens'' then R
      else goal_call (gd_disarm E s) R)"

definition tear_down :: "'w round_env \<Rightarrow> 'w rounds \<Rightarrow> 'w rounds" where
  "tear_down E R = fold (\<lambda>s. goal_call (gd_disarm E s)) (map fst (rn_states R)) (R\<lparr>rn_stopping := True\<rparr>)"

section \<open>The fence\<close>

definition round_current :: "'w round_env \<Rightarrow> session_id \<Rightarrow> 'w \<Rightarrow> json_object \<Rightarrow> bool" where
  "round_current E i w src \<longleftrightarrow>
     (case gd_goal E i w of
        Inr (Some g) \<Rightarrow>
          vw_phase g = PhaseActive \<and> vw_activation g = Armed \<and> get_string_at src ''goalId'' = vw_id g \<and>
          get_uint_at src ''revision'' = vw_revision g \<and> get_uint_at src ''round'' = vw_rounds g + 1
      | _ \<Rightarrow> False)"

text \<open>The decision of the listener, or \<open>None\<close> when it passes the message on.\<close>

definition fence :: "'w round_env \<Rightarrow> 'w \<Rightarrow> pre_step_msg \<Rightarrow> pre_step_msg option" where
  "fence E w msg =
     (let sources = List.map_filter goal_source_of (ps_messages msg)
      in if sources = [] \<or> list_all (round_current E (ps_session msg) w) sources then None else Some (msg\<lparr>ps_reject := True\<rparr>))"

section \<open>Steps\<close>

inductive round_step :: "'w round_env \<Rightarrow> 'w rounds \<Rightarrow> 'w rounds \<Rightarrow> bool" for E where
  goal_changed: "round_step E R (request_drive s R)"
| status_changed: "round_step E R (on_status s idle R)"
| inbox_inserted: "round_step E R (on_inserted E s m R)"
| event_appended: "round_step E R (on_appended E s ev R)"
| torn_down: "round_step E R (tear_down E R)"
| elsewhere: "round_step E R (R\<lparr>rn_world := w\<rparr>)"
| loop_begins:
    "rn_loops R = as @ (s, Posted) # bs \<Longrightarrow> drive_loop E s (R\<lparr>rn_loops := as @ bs\<rparr>) = Some R' \<Longrightarrow> round_step E R R'"
| followup_done:
    "rn_loops R = as @ (s, Awaiting m) # bs \<Longrightarrow> drive_loop E s (R\<lparr>rn_loops := as @ bs\<rparr>) = Some R' \<Longrightarrow> round_step E R R'"
| followup_threw:
    "rn_loops R = as @ (s, Awaiting m) # bs \<Longrightarrow> drive_loop E s (goal_call (gd_disarm E s) (R\<lparr>rn_loops := as @ bs\<rparr>)) = Some R'
       \<Longrightarrow> round_step E R R'"

inductive rounds_reach :: "'w round_env \<Rightarrow> 'w rounds \<Rightarrow> bool" for E where
  start: "rounds_reach E (new_rounds w)"
| step: "rounds_reach E R \<Longrightarrow> round_step E R R' \<Longrightarrow> rounds_reach E R'"

section \<open>Laws\<close>

lemma state_of_set [simp]: "round_state_of t (set_round s f R) = (if t = s then f (round_state_of s R) else round_state_of t R)"
  by (simp add: round_state_of_def set_round_def)

lemma state_of_slot [simp]: "round_state_of t (slot s R) = round_state_of t R"
  by (auto simp: round_state_of_def slot_def om_emplace_def split: option.split)

lemma state_of_other [simp]:
  "round_state_of t (R\<lparr>rn_world := w\<rparr>) = round_state_of t R" "round_state_of t (R\<lparr>rn_loops := l\<rparr>) = round_state_of t R"
  "round_state_of t (R\<lparr>rn_stopping := b\<rparr>) = round_state_of t R"
  by (simp_all add: round_state_of_def)

lemma set_round_fields [simp]:
  "rn_loops (set_round s f R) = rn_loops R" "rn_stopping (set_round s f R) = rn_stopping R" "rn_world (set_round s f R) = rn_world R"
  "rn_loops (slot s R) = rn_loops R" "rn_stopping (slot s R) = rn_stopping R" "rn_world (slot s R) = rn_world R"
  by (simp_all add: set_round_def slot_def)

text \<open>Every loop in flight but that of \<open>busy\<close>, which is running, belongs to a session marked as running, once.\<close>

definition loops_of :: "string \<Rightarrow> 'w rounds \<Rightarrow> nat" where
  "loops_of s R = length (filter (\<lambda>l. fst l = s) (rn_loops R))"

definition one_loop :: "string option \<Rightarrow> 'w rounds \<Rightarrow> bool" where
  "one_loop busy R \<longleftrightarrow> (\<forall>s. loops_of s R = of_bool (rq_running (round_state_of s R) \<and> busy \<noteq> Some s) \<and>
     (busy = Some s \<longrightarrow> rq_running (round_state_of s R)))"

lemma loops_of_fields [simp]:
  "loops_of t (set_round s f R) = loops_of t R" "loops_of t (slot s R) = loops_of t R" "loops_of t (R\<lparr>rn_world := w\<rparr>) = loops_of t R"
  "loops_of t (R\<lparr>rn_stopping := b\<rparr>) = loops_of t R"
  "loops_of t (R\<lparr>rn_loops := as @ (s, p) # bs\<rparr>) = loops_of t (R\<lparr>rn_loops := as @ bs\<rparr>) + of_bool (t = s)"
  "loops_of t (R\<lparr>rn_loops := rn_loops R\<rparr>) = loops_of t R"
  by (simp_all add: loops_of_def)

lemma one_loop_request: "one_loop busy R \<Longrightarrow> one_loop busy (request_drive s R)"
  unfolding one_loop_def
proof
  fix t
  assume "\<forall>s. loops_of s R = of_bool (rq_running (round_state_of s R) \<and> busy \<noteq> Some s) \<and> (busy = Some s \<longrightarrow> rq_running (round_state_of s R))"
  then have "loops_of t R = of_bool (rq_running (round_state_of t R) \<and> busy \<noteq> Some t)" "busy = Some t \<longrightarrow> rq_running (round_state_of t R)"
    by blast+
  then show "loops_of t (request_drive s R) = of_bool (rq_running (round_state_of t (request_drive s R)) \<and> busy \<noteq> Some t) \<and>
      (busy = Some t \<longrightarrow> rq_running (round_state_of t (request_drive s R)))"
    by (cases "t = s") (auto simp: request_drive_def loops_of_def Let_def)
qed

lemma one_loop_fold: "one_loop busy R \<Longrightarrow> one_loop busy (fold request_drive ss R)"
  by (induction ss arbitrary: R) (simp_all add: one_loop_request)

lemma one_loop_same:
  "one_loop busy R \<Longrightarrow> rn_loops R' = rn_loops R \<Longrightarrow> (\<And>s. rq_running (round_state_of s R') = rq_running (round_state_of s R)) \<Longrightarrow> one_loop busy R'"
  by (simp add: one_loop_def loops_of_def)

lemma one_loop_competing: "one_loop busy R \<Longrightarrow> one_loop busy (set_round s (\<lambda>x. x\<lparr>rq_competing := b\<rparr>) R)"
  by (erule one_loop_same) simp_all

lemma one_loop_at:
  "one_loop busy R \<Longrightarrow> loops_of t R = of_bool (rq_running (round_state_of t R) \<and> busy \<noteq> Some t)"
  "one_loop (Some s) R \<Longrightarrow> rq_running (round_state_of s R)"
  by (simp_all add: one_loop_def)

text \<open>The loop that ran ends, or awaits a followup.\<close>

lemma one_loop_ends:
  assumes "one_loop (Some s) R"
  shows "one_loop None (set_round s (\<lambda>x. x\<lparr>rq_running := False\<rparr>) R)" and "one_loop None (R\<lparr>rn_loops := rn_loops R @ [(s, p)]\<rparr>)"
proof -
  have "loops_of t (set_round s (\<lambda>x. x\<lparr>rq_running := False\<rparr>) R) =
      of_bool (rq_running (round_state_of t (set_round s (\<lambda>x. x\<lparr>rq_running := False\<rparr>) R)))" for t
    using one_loop_at(1) [OF assms, of t] by simp
  then show "one_loop None (set_round s (\<lambda>x. x\<lparr>rq_running := False\<rparr>) R)" by (simp add: one_loop_def)
  have "loops_of t (R\<lparr>rn_loops := rn_loops R @ [(s, p)]\<rparr>) = of_bool (rq_running (round_state_of t R))" for t
    using one_loop_at(1) [OF assms, of t] one_loop_at(2) [OF assms] by simp
  then show "one_loop None (R\<lparr>rn_loops := rn_loops R @ [(s, p)]\<rparr>)" by (simp add: one_loop_def)
qed

lemma one_loop_call: "one_loop busy R \<Longrightarrow> one_loop busy (goal_call f R)"
  by (auto simp: goal_call_def split: prod.split intro!: one_loop_fold elim!: one_loop_same)

lemma one_loop_drive: "one_loop busy R \<Longrightarrow> one_loop busy (fst (drive_round E s R))"
proof -
  assume "one_loop busy R"
  then have "one_loop busy (slot s R)" by (rule one_loop_same) simp_all
  then show ?thesis by (auto simp: drive_round_def one_loop_call split: sum.split option.split)
qed

lemma one_loop_run: "drive_loop E s R = Some R' \<Longrightarrow> one_loop (Some s) R \<longrightarrow> one_loop None R'"
proof (induction E s R R' rule: drive_loop.raw_induct [rotated 1, consumes 1])
  case (1 f E s R R')
  show ?case
  proof
    assume ok: "one_loop (Some s) R"
    let ?R = "set_round s (\<lambda>x. x\<lparr>rq_requested := False\<rparr>) R"
    have "one_loop (Some s) ?R" using ok by (rule one_loop_same) simp_all
    then have d: "one_loop (Some s) (fst (drive_round E s ?R))" by (rule one_loop_drive)
    show "one_loop None R'"
    proof (cases "\<not> rq_requested (round_state_of s R) \<or> rn_stopping R")
      case True
      with 1(2) have "R' = set_round s (\<lambda>x. x\<lparr>rq_running := False\<rparr>) R" by auto
      with one_loop_ends(1) [OF ok] show ?thesis by simp
    next
      case False
      obtain R2 m where r: "drive_round E s ?R = (R2, m)" by (rule prod.exhaust)
      show ?thesis
      proof (cases m)
        case None
        with 1(1) [of E s R2 R'] 1(2) False r d show ?thesis by auto
      next
        case (Some x)
        with 1(2) False r have "R' = R2\<lparr>rn_loops := rn_loops R2 @ [(s, Awaiting x)]\<rparr>" by auto
        with one_loop_ends(2) d r show ?thesis by simp
      qed
    qed
  qed
qed

lemma loop_taken:
  assumes "one_loop None R" and "rn_loops R = as @ (s, p) # bs"
  shows "one_loop (Some s) (R\<lparr>rn_loops := as @ bs\<rparr>)"
proof -
  have "R = R\<lparr>rn_loops := as @ (s, p) # bs\<rparr>" using assms(2) by (metis rounds.surjective rounds.update_convs(3))
  then have l: "loops_of t R = loops_of t (R\<lparr>rn_loops := as @ bs\<rparr>) + of_bool (t = s)" for t by (metis loops_of_fields(5))
  then have "loops_of s R \<noteq> 0" by simp
  with one_loop_at(1) [OF assms(1), of s] have "rq_running (round_state_of s R)" by auto
  moreover have "loops_of t (R\<lparr>rn_loops := as @ bs\<rparr>) = of_bool (rq_running (round_state_of t R) \<and> s \<noteq> t)" for t
    using l [of t] one_loop_at(1) [OF assms(1), of t] by (cases "rq_running (round_state_of t R)") auto
  ultimately show ?thesis by (simp add: one_loop_def)
qed

lemma one_loop_torn: "one_loop None R \<Longrightarrow> one_loop None (tear_down E R)"
proof -
  assume "one_loop None R"
  then have "one_loop None (R\<lparr>rn_stopping := True\<rparr>)" by (rule one_loop_same) simp_all
  moreover have "one_loop None R \<Longrightarrow> one_loop None (fold (\<lambda>s. goal_call (gd_disarm E s)) ss R)" for ss R
    by (induction ss arbitrary: R) (simp_all add: one_loop_call)
  ultimately show ?thesis by (simp add: tear_down_def)
qed

lemma one_loop_step: "round_step E R R' \<Longrightarrow> one_loop None R \<Longrightarrow> one_loop None R'"
proof (induction rule: round_step.induct)
  case (status_changed R s idle)
  then have "one_loop None (if map_of (rn_states R) s = None then R else set_round s (\<lambda>x. x\<lparr>rq_competing := False\<rparr>) R)"
    by (simp add: one_loop_competing)
  with status_changed show ?case by (simp add: on_status_def one_loop_request)
next
  case (inbox_inserted R s m)
  then have "one_loop None (set_round s (\<lambda>x. x\<lparr>rq_competing := True\<rparr>) R)" by (rule one_loop_competing)
  with inbox_inserted show ?case by (simp add: on_inserted_def split: option.split)
next
  case (loop_begins R as s bs R')
  then show ?case using one_loop_run loop_taken by blast
next
  case (followup_done R as s m bs R')
  then show ?case using one_loop_run loop_taken by blast
next
  case (followup_threw R as s m bs R')
  then show ?case using one_loop_run one_loop_call loop_taken by blast
qed (auto simp: one_loop_request on_appended_def one_loop_call one_loop_torn elim!: one_loop_same)

lemma one_loop_reach: "rounds_reach E R \<Longrightarrow> one_loop None R"
proof (induction rule: rounds_reach.induct)
  case (start w)
  show ?case by (simp add: one_loop_def loops_of_def new_rounds_def round_state_of_def idle_state_def)
qed (rule one_loop_step)

end
