(* ===== verification/RoundProperties.thy ===== *)
theory RoundProperties
  imports Rounds AgentProperties
begin

text \<open>
  The theorems about automatic goal rounds: when a round is scheduled and when its message passes the fence, one
  loop per session, an end of every pass, and what a rejected round takes with it.
\<close>

section \<open>Rounds and the fence\<close>

definition round_source :: "goal_view \<Rightarrow> json_object" where
  "round_source g = [(''goalId'', JString (vw_id g)), (''revision'', JUint (vw_revision g)), (''round'', JUint (vw_rounds g + 1)),
     (''kind'', JString ''goal'')]"

lemma source_of_round: "goal_source_of (round_message ser g) = Some (round_source g)"
  by (simp add: goal_source_of_def round_message_def user_source_data_def user_message_data_def message_source_def set_member_def
      round_source_def member_def Let_def)

lemma round_current_iff:
  "round_current E i w (round_source g) \<longleftrightarrow>
     (\<exists>g'. gd_goal E i w = Inr (Some g') \<and> vw_phase g' = PhaseActive \<and> vw_activation g' = Armed \<and> vw_id g' = vw_id g \<and>
        vw_revision g' = vw_revision g \<and> vw_rounds g' = vw_rounds g)"
  by (auto simp: round_current_def round_source_def get_string_at_def get_uint_at_def get_string_def get_uint_def member_def
      split: sum.split option.split)

lemma drive_round_message:
  assumes "drive_round E s R = (R', Some m)"
  obtains g where "gd_goal E s (rn_world R) = Inr (Some g)" "vw_phase g = PhaseActive" "vw_activation g = Armed"
    "vw_rounds g < vw_max_rounds g" "m = round_message (gd_serialize E) g" "\<not> rn_stopping R"
    "\<not> rq_competing (round_state_of s R)" "gd_idle E s (rn_world R)"
  using assms by (auto simp: drive_round_def split: if_splits sum.splits option.splits)

text \<open>
  C39. Rounds are fenced. A round is scheduled only for an idle agent whose session has an active, armed goal with a
  round left and no competing input, and never while the driver stops; at the pre-step its message passes
  exactly when the goal is still active, armed, and at the same id, revision and round as when it was scheduled.
\<close>

theorem round_fenced:
  assumes "drive_round E s R = (R', Some m)"
  shows "\<exists>g. gd_goal E s (rn_world R) = Inr (Some g) \<and> vw_phase g = PhaseActive \<and> vw_activation g = Armed \<and>
    vw_rounds g < vw_max_rounds g \<and> gd_idle E s (rn_world R) \<and> \<not> rq_competing (round_state_of s R) \<and> \<not> rn_stopping R \<and>
    (\<forall>w msg. ps_session msg = s \<and> List.map_filter goal_source_of (ps_messages msg) = List.map_filter goal_source_of [m] \<longrightarrow>
       fence E w msg = None \<longleftrightarrow>
         (\<exists>g'. gd_goal E s w = Inr (Some g') \<and> vw_phase g' = PhaseActive \<and> vw_activation g' = Armed \<and> vw_id g' = vw_id g \<and>
            vw_revision g' = vw_revision g \<and> vw_rounds g' = vw_rounds g))"
proof -
  obtain g where g: "gd_goal E s (rn_world R) = Inr (Some g)" "vw_phase g = PhaseActive" "vw_activation g = Armed"
    "vw_rounds g < vw_max_rounds g" "m = round_message (gd_serialize E) g" "\<not> rn_stopping R"
    "\<not> rq_competing (round_state_of s R)" "gd_idle E s (rn_world R)" using assms by (rule drive_round_message)
  have "fence E w msg = None \<longleftrightarrow> round_current E s w (round_source g)"
    if "ps_session msg = s" "List.map_filter goal_source_of (ps_messages msg) = List.map_filter goal_source_of [m]" for w msg
    using that by (simp add: fence_def g(5) source_of_round List.map_filter_def [of _ "[_]"] Let_def)
  with g show ?thesis by (auto simp: round_current_iff intro!: exI [of _ g])
qed

section \<open>One loop\<close>

text \<open>
  One loop per session. Whatever triggers arrive in whatever order, each session has at most one scheduling loop,
  posted or awaiting a followup, and is marked as running exactly while it has one.
\<close>

theorem one_round_loop:
  assumes "rounds_reach E R"
  shows "loops_of s R = of_bool (rq_running (round_state_of s R))"
  using one_loop_at(1) [OF one_loop_reach [OF assms], of s] by simp

text \<open>A pass ends unless blocking the goal dispatches a change and yet leaves an armed, exhausted goal behind.\<close>

definition blocking_settles :: "'w round_env \<Rightarrow> string \<Rightarrow> bool" where
  "blocking_settles E s \<longleftrightarrow> (\<forall>ref reason w w' changed. gd_block E s ref reason w = (w', changed) \<longrightarrow>
     s \<notin> set changed \<or> (\<forall>g. gd_goal E s w' = Inr (Some g) \<longrightarrow> vw_phase g \<noteq> PhaseActive))"

lemma request_elsewhere: "s \<notin> set ss \<Longrightarrow> round_state_of s (fold request_drive ss R) = round_state_of s R"
  by (induction ss arbitrary: R) (auto simp: request_drive_def Let_def)

lemma request_world: "rn_world (fold request_drive ss R) = rn_world R"
  by (induction ss arbitrary: R) (simp_all add: request_drive_def Let_def)

lemma drive_loop_unrequested: "\<not> rq_requested (round_state_of s R) \<Longrightarrow> drive_loop E s R \<noteq> None"
  by (subst drive_loop.simps) simp

lemma drive_loop_inactive:
  assumes "\<forall>g. gd_goal E s (rn_world R) = Inr (Some g) \<longrightarrow> vw_phase g \<noteq> PhaseActive"
  shows "drive_loop E s R \<noteq> None"
proof (cases "\<not> rq_requested (round_state_of s R) \<or> rn_stopping R")
  case True
  then show ?thesis by (subst drive_loop.simps) simp
next
  case False
  let ?R = "set_round s (\<lambda>x. x\<lparr>rq_requested := False\<rparr>) R"
  have "drive_round E s ?R = (slot s ?R, None)" using assms by (auto simp: drive_round_def split: sum.split option.split)
  with False show ?thesis by (subst drive_loop.simps) (simp add: drive_loop_unrequested)
qed

theorem round_pass_returns:
  assumes "blocking_settles E s"
  shows "drive_loop E s R \<noteq> None"
proof (cases "\<not> rq_requested (round_state_of s R) \<or> rn_stopping R")
  case True
  then show ?thesis by (subst drive_loop.simps) simp
next
  case False
  let ?R = "set_round s (\<lambda>x. x\<lparr>rq_requested := False\<rparr>) R"
  obtain R2 m where d: "drive_round E s ?R = (R2, m)" by (rule prod.exhaust)
  have "drive_loop E s R2 \<noteq> None" if "m = None"
  proof (cases "R2 = slot s ?R")
    case True
    then show ?thesis by (simp add: drive_loop_unrequested)
  next
    case other: False
    with d that obtain ref reason where "R2 = goal_call (gd_block E s ref reason) (slot s ?R)"
      by (auto simp: drive_round_def split: if_splits sum.splits option.splits)
    moreover obtain w' changed where b: "gd_block E s ref reason (rn_world R) = (w', changed)" by (rule prod.exhaust)
    ultimately have R2: "R2 = fold request_drive changed ((slot s ?R)\<lparr>rn_world := w'\<rparr>)" by (simp add: goal_call_def)
    from assms b consider "s \<notin> set changed" | "\<forall>g. gd_goal E s w' = Inr (Some g) \<longrightarrow> vw_phase g \<noteq> PhaseActive"
      unfolding blocking_settles_def by blast
    then show ?thesis
    proof cases
      case 1
      then show ?thesis by (intro drive_loop_unrequested) (simp add: R2 request_elsewhere)
    next
      case 2
      then show ?thesis by (intro drive_loop_inactive) (simp add: R2 request_world)
    qed
  qed
  with False d show ?thesis by (subst drive_loop.simps) (auto split: option.split)
qed

section \<open>Concrete runs\<close>

definition demo_goal :: goal_view where
  "demo_goal = \<lparr>vw_id = ''g'', vw_revision = 1, vw_objective = ''ship'', vw_phase = PhaseActive, vw_blocked_reason = None,
     vw_max_rounds = 3, vw_rounds = 0, vw_created_at = 0, vw_updated_at = 0, vw_activation = Armed\<rparr>"

text \<open>A world that is the goal of the one session.\<close>

definition demo_rounds :: "goal_view round_env" where
  "demo_rounds = \<lparr>gd_idle = (\<lambda>_ _. True), gd_goal = (\<lambda>_ g. Inr (Some g)),
     gd_block = (\<lambda>s _ _ g. (g\<lparr>vw_phase := PhaseBlocked\<rparr>, [s])), gd_disarm = (\<lambda>s g. (g\<lparr>vw_activation := Disarmed\<rparr>, [s])),
     gd_next_turn = (\<lambda>_ _. Some []), gd_serialize = (\<lambda>_. ''ship'')\<rparr>"

definition round_msg :: "json list \<Rightarrow> pre_step_msg" where
  "round_msg ms = \<lparr>ps_session = ''s'', ps_turn = 1, ps_step = 1, ps_stop = None, ps_reject = False, ps_messages = ms, ps_starts_series = False\<rparr>"

theorem round_fenced_witness:
  "\<exists>R' m. drive_round demo_rounds ''s'' (new_rounds demo_goal) = (R', Some m) \<and>
     fence demo_rounds demo_goal (round_msg [m]) = None \<and> fence demo_rounds (demo_goal\<lparr>vw_revision := 2\<rparr>) (round_msg [m]) \<noteq> None"
proof -
  let ?m = "round_message (gd_serialize demo_rounds) demo_goal"
  have d: "drive_round demo_rounds ''s'' (new_rounds demo_goal) = (slot ''s'' (new_rounds demo_goal), Some ?m)"
    by (simp add: drive_round_def new_rounds_def round_state_of_def idle_state_def demo_rounds_def demo_goal_def)
  have "List.map_filter goal_source_of (ps_messages (round_msg [?m])) = List.map_filter goal_source_of [?m]" "ps_session (round_msg [?m]) = ''s''"
    by (simp_all add: round_msg_def source_of_round List.map_filter_def)
  with round_fenced [OF d]
  have f: "fence demo_rounds w (round_msg [?m]) = None \<longleftrightarrow> (\<exists>g'. gd_goal demo_rounds ''s'' w = Inr (Some g') \<and> vw_phase g' = PhaseActive \<and>
      vw_activation g' = Armed \<and> vw_id g' = vw_id demo_goal \<and> vw_revision g' = vw_revision demo_goal \<and> vw_rounds g' = vw_rounds demo_goal)" for w
    by (auto simp: demo_rounds_def new_rounds_def)
  have "fence demo_rounds demo_goal (round_msg [?m]) = None" "fence demo_rounds (demo_goal\<lparr>vw_revision := 2\<rparr>) (round_msg [?m]) \<noteq> None"
    by (simp_all add: f) (simp_all add: demo_rounds_def demo_goal_def)
  with d show ?thesis by blast
qed

theorem one_round_loop_witness:
  "loops_of ''s'' (request_drive ''s'' (request_drive ''s'' (new_rounds demo_goal))) = 1"
proof -
  have "rounds_reach demo_rounds (request_drive ''s'' (request_drive ''s'' (new_rounds demo_goal)))"
    by (intro rounds_reach.step [OF rounds_reach.step [OF rounds_reach.start goal_changed] goal_changed])
  from one_round_loop [OF this, of "''s''"] show ?thesis
    by (simp add: request_drive_def Let_def new_rounds_def round_state_of_def idle_state_def set_round_def)
qed

section \<open>What a rejected round takes with it\<close>

text \<open>The fence of a driver whose goal has been paused, as the pre-step listener of the agent loop.\<close>

definition fenced_agent :: agent_env where
  "fenced_agent = (scripted (\<lambda>_. give (say ''hi'')))
     \<lparr>ae_pre_step := (\<lambda>msg. give (case fence demo_rounds (demo_goal\<lparr>vw_phase := PhasePaused\<rparr>) msg of None \<Rightarrow> msg | Some m \<Rightarrow> m))\<rparr>"

text \<open>A round, with a shorter text, is handed to the idle agent; before its turn begins, the user steers.\<close>

definition demo_round :: json where
  "demo_round = user_source_data ''goal-round-1'' ''go on'' (round_source demo_goal)"

definition steered_round :: agent_world where
  "steered_round = after (steer fenced_agent ''s'' (message_for ''m2'') no_options)
     (after (followup fenced_agent ''s'' demo_round no_options) idle_world)"

text \<open>
  A stale round drops the user's input. The goal is paused after its round was handed over, and the user steers before
  the turn begins. The turn claims both messages, the fence rejects the whole batch, and the turn ends blocked:
  the user's message is neither in the inbox nor in the log, and the model is not asked.
\<close>

theorem stale_round_drops_input:
  "(let w = the (run_drive fenced_agent 0 steered_round)
    in (map inbox_message_id (in_next_step (the (inbox_of fenced_agent ''s'' steered_round))),
        inbox_of fenced_agent ''s'' w, filter (\<lambda>t. t \<in> {''user/message'', ''assistant/message''}) (log_types w),
        ro_status (last_outcome ''s'' w))) =
     ([''m2''], Some empty_inbox, [], Blocked)"
  by code_simp

end
