(* ===== verification/Jsonl.thy ===== *)
theory Jsonl
  imports Sessions
begin

text \<open>
  The durable backend of sessions (\<open>plugins/persistence/src/jsonl.cpp\<close>): one directory per session with a log of one
  record per line, buffered writers, the repair of a torn tail and the reader. The file system is a map from
  directories to the content of the one log file in them. Every system call that changes it takes its outcome
  from a script, which is fine once it is used up; a failing write may have written a part. Reading does not
  fail, \<open>fsync\<close> can fail and changes nothing, the revision token and logging are left out. The JSON text is a parameter.
  The listeners of the plugin (\<open>plugin.cpp\<close>) hand the notices of the session store to the backend.
\<close>

section \<open>Names\<close>

definition nibble :: "char \<Rightarrow> nat option" where
  "nibble c =
     (let n = of_char c :: nat
      in if 48 \<le> n \<and> n \<le> 57 then Some (n - 48) else if 97 \<le> n \<and> n \<le> 102 then Some (n - 97 + 10) else None)"

definition hex_encode :: "string \<Rightarrow> string" where
  "hex_encode t = concat (map (\<lambda>c. [hex_digits ! (of_char c div 16), hex_digits ! (of_char c mod 16)]) t)"

fun hex_decode :: "string \<Rightarrow> string option" where
  "hex_decode [] = Some []"
| "hex_decode [c] = None"
| "hex_decode (c # d # cs) =
     (case (nibble c, nibble d) of
        (Some hi, Some lo) \<Rightarrow> map_option (\<lambda>t. char_of (16 * hi + lo) # t) (hex_decode cs)
      | _ \<Rightarrow> None)"

section \<open>Records\<close>

definition session_format_version :: "64 word" where "session_format_version = 1"

definition origin_word :: "session_origin \<Rightarrow> string" where
  "origin_word s = (if s = OriginSubagent then ''subagent'' else ''none'')"

definition parse_origin :: "string \<Rightarrow> session_origin" where
  "parse_origin w = (if w = ''subagent'' then OriginSubagent else OriginNone)"

definition opt_field :: "string \<Rightarrow> string option \<Rightarrow> json_object" where
  "opt_field k v = (case v of None \<Rightarrow> [] | Some t \<Rightarrow> [(k, JString t)])"

definition header_record :: "session_header \<Rightarrow> json" where
  "header_record h = JObject ([(''type'', JString ''session''), (''version'', JUint session_format_version), (''id'', JString (sh_id h)),
     (''created_at'', JInt (sh_created_at h)), (''is_seeded'', JBool (sh_is_seeded h)),
     (''delegation_depth'', JUint (ucast (sh_delegation_depth h))), (''origin'', JString (origin_word (sh_origin h)))] @
     opt_field ''cwd'' (sh_cwd h) @ opt_field ''parent_session'' (sh_parent_session h) @ opt_field ''agent_preset'' (sh_agent_preset h))"

definition event_record :: "session_event \<Rightarrow> json" where
  "event_record ev = JObject [(''seq'', JUint (ev_seq ev)), (''time'', JInt (ev_time ev)), (''type'', JString (ev_type ev)),
     (''data'', ev_data ev), (''ignorable'', JBool (ev_ignorable ev))]"

datatype storage_error = AlreadyAttached string | IoFailed | MalformedRecord | RecordWithoutType | DuplicateHeader | EventBeforeHeader
  | MissingHeader | VersionMissing | VersionUnsupported "64 word" | MissingInteger string | MissingString string | EventWithoutData

definition require_int :: "json_object \<Rightarrow> string \<Rightarrow> storage_error + 64 word" where
  "require_int obj k = (case member obj k of Some (JInt n) \<Rightarrow> Inr n | _ \<Rightarrow> Inl (MissingInteger k))"

definition require_string :: "json_object \<Rightarrow> string \<Rightarrow> storage_error + string" where
  "require_string obj k = (case member obj k of Some (JString t) \<Rightarrow> Inr t | _ \<Rightarrow> Inl (MissingString k))"

definition string_field :: "json_object \<Rightarrow> string \<Rightarrow> string option" where
  "string_field obj k = (case member obj k of Some (JString t) \<Rightarrow> Some t | _ \<Rightarrow> None)"

definition parse_header :: "json_object \<Rightarrow> storage_error + session_header" where
  "parse_header obj =
     (case member obj ''version'' of
        Some (JInt v) \<Rightarrow>
          if v \<noteq> session_format_version then Inl (VersionUnsupported v)
          else
            and_sum (require_string obj ''id'') (\<lambda>i.
            and_sum (require_int obj ''created_at'') (\<lambda>t.
            Inr \<lparr>sh_version = 1, sh_id = i, sh_created_at = t, sh_cwd = string_field obj ''cwd'',
                 sh_parent_session = string_field obj ''parent_session'',
                 sh_is_seeded = (case member obj ''is_seeded'' of Some (JBool b) \<Rightarrow> b | _ \<Rightarrow> False),
                 sh_delegation_depth = (case member obj ''delegation_depth'' of Some (JInt n) \<Rightarrow> ucast n | _ \<Rightarrow> 0),
                 sh_origin = (case string_field obj ''origin'' of Some w \<Rightarrow> parse_origin w | None \<Rightarrow> OriginNone),
                 sh_agent_preset = string_field obj ''agent_preset''\<rparr>))
      | _ \<Rightarrow> Inl VersionMissing)"

definition parse_event :: "json_object \<Rightarrow> storage_error + session_event" where
  "parse_event obj =
     and_sum (require_int obj ''seq'') (\<lambda>n.
     and_sum (require_int obj ''time'') (\<lambda>t.
     and_sum (require_string obj ''type'') (\<lambda>ty.
     (case member obj ''data'' of
        None \<Rightarrow> Inl EventWithoutData
      | Some d \<Rightarrow>
          Inr \<lparr>ev_seq = n, ev_time = t, ev_type = ty, ev_data = d,
               ev_ignorable = (case member obj ''ignorable'' of Some (JBool b) \<Rightarrow> b | _ \<Rightarrow> False)\<rparr>))))"

section \<open>The reader\<close>

record json_text =
  jt_serialize :: "json \<Rightarrow> string"
  jt_parse :: "string \<Rightarrow> json option"

text \<open>The lines that are not empty; the last one may lack its newline. First argument: the line so far.\<close>

fun record_lines :: "string \<Rightarrow> string \<Rightarrow> string list" where
  "record_lines cur [] = (if cur = [] then [] else [cur])"
| "record_lines cur (c # cs) =
     (if c = newline then (if cur = [] then record_lines [] cs else cur # record_lines [] cs) else record_lines (cur @ [c]) cs)"

type_synonym reading = "session_header option \<times> session_event list"

definition read_record :: "json_text \<Rightarrow> string \<Rightarrow> reading \<Rightarrow> storage_error + reading" where
  "read_record W text acc =
     (case jt_parse W text of
        Some (JObject obj) \<Rightarrow>
          (case member obj ''type'' of
             Some (JString ty) \<Rightarrow>
               if ty = ''session''
               then (if fst acc \<noteq> None then Inl DuplicateHeader
                     else and_sum (parse_header obj) (\<lambda>h. Inr (Some h, snd acc)))
               else if fst acc = None then Inl EventBeforeHeader
               else and_sum (parse_event obj) (\<lambda>ev. Inr (fst acc, snd acc @ [ev]))
           | _ \<Rightarrow> Inl RecordWithoutType)
      | _ \<Rightarrow> Inl MalformedRecord)"

definition read_contents :: "json_text \<Rightarrow> string \<Rightarrow> storage_error + session_header \<times> session_event list" where
  "read_contents W contents =
     and_sum (fold_sum (read_record W) (record_lines [] contents) (None, [])) (\<lambda>acc.
       case acc of (None, evs) \<Rightarrow> Inl MissingHeader | (Some h, evs) \<Rightarrow> Inr (h, evs))"

section \<open>The backend\<close>

datatype io_result = Fine | Broken nat

record jsonl =
  jb_dirs :: "string list"
  jb_files :: "(string, string) omap"
  jb_writers :: "(string, string) omap"
  jb_script :: "io_result list"

definition io :: "jsonl \<Rightarrow> io_result \<times> jsonl" where
  "io J = (case jb_script J of [] \<Rightarrow> (Fine, J) | r # rs \<Rightarrow> (r, J\<lparr>jb_script := rs\<rparr>))"

type_synonym 'a storage = "jsonl \<Rightarrow> (storage_error + 'a) \<times> jsonl"

definition then_io :: "'a storage \<Rightarrow> ('a \<Rightarrow> 'b storage) \<Rightarrow> 'b storage" where
  "then_io m f J = (case m J of (Inl e, J') \<Rightarrow> (Inl e, J') | (Inr a, J') \<Rightarrow> f a J')"

definition system_call :: "(jsonl \<Rightarrow> jsonl) \<Rightarrow> unit storage" where
  "system_call done J = (case io J of (Fine, J') \<Rightarrow> (Inr (), done J') | (Broken n, J') \<Rightarrow> (Inl IoFailed, J'))"

definition file_of :: "string \<Rightarrow> jsonl \<Rightarrow> string" where
  "file_of i J = (case map_of (jb_files J) (hex_encode i) of None \<Rightarrow> [] | Some t \<Rightarrow> t)"

definition set_file :: "string \<Rightarrow> string \<Rightarrow> jsonl \<Rightarrow> jsonl" where
  "set_file i t J = J\<lparr>jb_files := om_insert (hex_encode i) t (jb_files J)\<rparr>"

definition write_all :: "string \<Rightarrow> string \<Rightarrow> unit storage" where
  "write_all i data J =
     (case io J of
        (Fine, J') \<Rightarrow> (Inr (), set_file i (file_of i J' @ data) J')
      | (Broken n, J') \<Rightarrow> (Inl IoFailed, set_file i (file_of i J' @ take n data) J'))"

text \<open>What is left of a text after its last newline is dropped.\<close>

definition whole_lines :: "string \<Rightarrow> string" where
  "whole_lines t = rev (dropWhile (\<lambda>c. c \<noteq> newline) (rev t))"

definition truncate_torn_tail :: "string \<Rightarrow> unit storage" where
  "truncate_torn_tail i J =
     (let contents = file_of i J
      in if contents = [] \<or> last contents = newline then (Inr (), J)
         else then_io (system_call (set_file i [])) (\<lambda>_. write_all i (whole_lines contents)) J)"

definition attach :: "json_text \<Rightarrow> session_header \<Rightarrow> unit storage" where
  "attach W h J =
     (let i = sh_id h
      in if map_of (jb_writers J) i \<noteq> None then (Inl (AlreadyAttached i), J)
         else
           then_io (system_call (\<lambda>J. J\<lparr>jb_dirs := List.insert (hex_encode i) (jb_dirs J)\<rparr>)) (\<lambda>_.
           then_io (if map_of (jb_files J) (hex_encode i) \<noteq> None then truncate_torn_tail i
                    else then_io (system_call (set_file i [])) (\<lambda>_. write_all i (jt_serialize W (header_record h) @ [newline]))) (\<lambda>_.
           system_call (\<lambda>J. J\<lparr>jb_writers := om_insert i [] (jb_writers J)\<rparr>))) J)"

text \<open>The buffer is cleared only when all of it has been written.\<close>

definition drain :: "string \<Rightarrow> unit storage" where
  "drain i J =
     (case map_of (jb_writers J) i of
        None \<Rightarrow> (Inr (), J)
      | Some buffer \<Rightarrow>
          if buffer = [] then (Inr (), J)
          else then_io (write_all i buffer) (\<lambda>_ J. (Inr (), J\<lparr>jb_writers := om_insert i [] (jb_writers J)\<rparr>)) J)"

definition flush_threshold :: nat where "flush_threshold = 64 * 1024"

definition append_record :: "json_text \<Rightarrow> string \<Rightarrow> session_event \<Rightarrow> unit storage" where
  "append_record W i ev J =
     (case map_of (jb_writers J) i of
        None \<Rightarrow> (Inr (), J)
      | Some buffer \<Rightarrow>
          let buffer' = buffer @ jt_serialize W (event_record ev) @ [newline]; J' = J\<lparr>jb_writers := om_insert i buffer' (jb_writers J)\<rparr>
          in if length buffer' \<ge> flush_threshold then drain i J' else (Inr (), J'))"

definition flush :: "string \<Rightarrow> unit storage" where
  "flush i J = (if map_of (jb_writers J) i = None then (Inr (), J) else then_io (drain i) (\<lambda>_. system_call id) J)"

definition detach :: "string \<Rightarrow> unit storage" where
  "detach i J =
     (if map_of (jb_writers J) i = None then (Inr (), J)
      else then_io (flush i) (\<lambda>_ J. (Inr (), J\<lparr>jb_writers := om_erase i (jb_writers J)\<rparr>)) J)"

text \<open>The destructor detaches every session; \<open>None\<close> is an exception that leaves it, which ends the process.\<close>

fun detach_all :: "string list \<Rightarrow> jsonl \<Rightarrow> jsonl option" where
  "detach_all [] J = Some J"
| "detach_all (i # is) J = (case detach i J of (Inr _, J') \<Rightarrow> detach_all is J' | (Inl e, J') \<Rightarrow> None)"

definition destroy_backend :: "jsonl \<Rightarrow> jsonl option" where
  "destroy_backend J = detach_all (map fst (jb_writers J)) J"

definition read_stored :: "json_text \<Rightarrow> string \<Rightarrow> jsonl \<Rightarrow> storage_error + (session_header \<times> session_event list) option" where
  "read_stored W i J =
     (case map_of (jb_files J) (hex_encode i) of
        None \<Rightarrow> Inr None
      | Some contents \<Rightarrow> map_sum id Some (read_contents W contents))"

definition list_stored :: "jsonl \<Rightarrow> string list" where
  "list_stored J = List.map_filter hex_decode (jb_dirs J)"

text \<open>What the plugin's listeners do with the notices of the session store; first the headers of its objects.\<close>

fun listen :: "json_text \<Rightarrow> (nat \<Rightarrow> session_header) \<Rightarrow> session_notice \<Rightarrow> unit storage" where
  "listen W hs (SessionCreated r) = attach W (hs r)"
| "listen W hs (SessionAppended i ev) = append_record W i ev"
| "listen W hs (SessionFlush i) = flush i"
| "listen W hs (SessionDisposed i) = detach i"

definition empty_jsonl :: jsonl where
  "empty_jsonl = \<lparr>jb_dirs = [], jb_files = [], jb_writers = [], jb_script = []\<rparr>"

end
