(* ===== verification/JsonlLaws.thy ===== *)
theory JsonlLaws
  imports Jsonl "HOL-Library.Sublist"
begin

text \<open>
  What the durable backend guarantees: names decode to what they encode, records are read back, and the content
  of a session's log file with its buffer is exactly the records written to it.
\<close>

section \<open>Names\<close>

lemma nibble_digit: "n < 16 \<Longrightarrow> nibble (hex_digits ! n) = Some n"
proof -
  have "\<forall>n \<in> set [0..<16]. nibble (hex_digits ! n) = Some n" by code_simp
  then show "n < 16 \<Longrightarrow> nibble (hex_digits ! n) = Some n" by simp
qed

lemma hex_roundtrip: "hex_decode (hex_encode t) = Some t"
proof (induction t)
  case (Cons c t)
  have "of_char c < (256 :: nat)" by (rule nat_of_char_less_256)
  then have "of_char c div 16 < (16 :: nat)" by (intro less_mult_imp_div_less) simp
  moreover have "of_char c mod 16 < (16 :: nat)" by simp
  ultimately show ?case using Cons by (simp add: hex_encode_def nibble_digit)
qed (simp add: hex_encode_def)

lemma hex_inject [simp]: "hex_encode s = hex_encode t \<longleftrightarrow> s = t"
  by (metis hex_roundtrip option.inject)

section \<open>Lines\<close>

lemma lines_whole: "newline \<notin> set t \<Longrightarrow> cur @ t \<noteq> [] \<Longrightarrow> record_lines cur (t @ newline # rest) = (cur @ t) # record_lines [] rest"
proof (induction t arbitrary: cur)
  case (Cons c t)
  from Cons.prems have "record_lines (cur @ [c]) (t @ newline # rest) = ((cur @ [c]) @ t) # record_lines [] rest" by (intro Cons.IH) simp_all
  with Cons.prems show ?case by auto
qed simp

lemma lines_partial: "newline \<notin> set t \<Longrightarrow> record_lines cur t = (if cur @ t = [] then [] else [cur @ t])"
proof (induction t arbitrary: cur)
  case (Cons c t)
  from Cons.prems have "record_lines (cur @ [c]) t = [(cur @ [c]) @ t]" by (subst Cons.IH) simp_all
  with Cons.prems show ?case by auto
qed simp

definition as_line :: "json_text \<Rightarrow> json \<Rightarrow> string" where
  "as_line W v = jt_serialize W v @ [newline]"

definition text_of :: "json_text \<Rightarrow> json list \<Rightarrow> string" where
  "text_of W vs = concat (map (as_line W) vs)"

lemma text_of_simps [simp]:
  "text_of W [] = []" "text_of W (v # vs) = jt_serialize W v @ newline # text_of W vs" "text_of W (vs @ us) = text_of W vs @ text_of W us"
  by (simp_all add: text_of_def as_line_def)

text \<open>A text with one line per record.\<close>

definition one_line :: "json_text \<Rightarrow> json \<Rightarrow> bool" where
  "one_line W v \<longleftrightarrow> newline \<notin> set (jt_serialize W v) \<and> jt_serialize W v \<noteq> []"

lemma lines_text: "\<forall>v \<in> set vs. one_line W v \<Longrightarrow> record_lines [] (text_of W vs @ rest) = map (jt_serialize W) vs @ record_lines [] rest"
  by (induction vs) (simp_all add: one_line_def lines_whole)

lemma whole_lines_simps:
  "newline \<notin> set t \<Longrightarrow> whole_lines t = []" "whole_lines (t @ newline # s) = t @ newline # whole_lines s"
proof -
  show "newline \<notin> set t \<Longrightarrow> whole_lines t = []" by (auto simp: whole_lines_def dropWhile_eq_Nil_conv)
  show "whole_lines (t @ newline # s) = t @ newline # whole_lines s"
    by (cases "newline \<in> set s") (auto simp: whole_lines_def dropWhile_append dropWhile_eq_Nil_conv)
qed

lemma whole_lines_ends: "t = [] \<or> last t = newline \<Longrightarrow> whole_lines t = t"
  by (cases t rule: rev_cases) (auto simp: whole_lines_def)

text \<open>A file cut anywhere has lost records at the end once its torn tail is dropped.\<close>

lemma prefix_lines:
  assumes "\<forall>v \<in> set vs. one_line W v" and "prefix t (text_of W vs)"
  shows "\<exists>k. whole_lines t = text_of W (take k vs) \<and> (\<forall>j \<le> length vs. length (text_of W (take j vs)) \<le> length t \<longrightarrow> j \<le> k)"
  using assms
proof (induction vs arbitrary: t)
  case Nil
  then show ?case by (simp add: whole_lines_simps)
next
  case (Cons v vs)
  let ?s = "jt_serialize W v"
  from Cons.prems(2) have p: "prefix t ((?s @ [newline]) @ text_of W vs)" by simp
  show ?case
  proof (cases "prefix t ?s")
    case True
    then have "newline \<notin> set t" using Cons.prems(1) by (auto simp: one_line_def prefix_def)
    moreover have "length t \<le> length ?s" using True by (rule prefix_length_le)
    moreover have "j = 0" if "length (text_of W (take j (v # vs))) \<le> length t" for j
      using that \<open>length t \<le> length ?s\<close> by (cases j) simp_all
    ultimately show ?thesis by (intro exI [of _ 0]) (simp add: whole_lines_simps)
  next
    case False
    with p obtain t' where t: "t = (?s @ [newline]) @ t'" "prefix t' (text_of W vs)"
      by (auto simp: prefix_append prefix_Cons)
    from Cons.IH [OF _ t(2)] Cons.prems(1) obtain k where k: "whole_lines t' = text_of W (take k vs)"
      "\<forall>j \<le> length vs. length (text_of W (take j vs)) \<le> length t' \<longrightarrow> j \<le> k" by auto
    have "j \<le> Suc k" if "j \<le> length (v # vs)" "length (text_of W (take j (v # vs))) \<le> length t" for j
      using that k(2) t(1) by (cases j) auto
    with k(1) t(1) show ?thesis by (intro exI [of _ "Suc k"]) (simp add: whole_lines_simps)
  qed
qed

section \<open>Records\<close>

text \<open>A value as the parser reads its own text back: an unsigned integer that fits is read as a signed one.\<close>

function as_read :: "json \<Rightarrow> json" where
  "as_read v =
     (case v of
        JUint n \<Rightarrow> if n \<le> int64_max then JInt n else JUint n
      | JArray vs \<Rightarrow> JArray (map as_read vs)
      | JObject m \<Rightarrow> JObject (map (\<lambda>(k, x). (k, as_read x)) m)
      | _ \<Rightarrow> v)"
  by pat_completeness auto

lemma element_size: "x \<in> set vs \<Longrightarrow> size x < size (JArray vs)"
  by (induction vs) auto

lemma member_size: "(k, x) \<in> set m \<Longrightarrow> size x < size (JObject m)"
  by (induction m) auto

termination as_read
  by (relation "measure size") (auto dest: element_size member_size)

declare as_read.simps [simp del]

lemma as_read_simps [simp]:
  "as_read (JString t) = JString t" "as_read (JBool b) = JBool b" "as_read (JInt n) = JInt n" "as_read JNull = JNull"
  "as_read (JUint n) = (if n \<le> int64_max then JInt n else JUint n)" "as_read (JObject m) = JObject (map (\<lambda>(k, x). (k, as_read x)) m)"
  by (subst as_read.simps; simp)+

definition reads_back :: "json_text \<Rightarrow> json \<Rightarrow> bool" where
  "reads_back W v \<longleftrightarrow> one_line W v \<and> jt_parse W (jt_serialize W v) = Some (as_read v)"

definition stored_event :: "session_event \<Rightarrow> session_event" where
  "stored_event ev = ev\<lparr>ev_data := as_read (ev_data ev)\<rparr>"

lemma small_words: "session_format_version \<le> int64_max" "(ucast (d :: 32 word) :: 64 word) \<le> int64_max"
proof -
  show "session_format_version \<le> int64_max" by (simp add: session_format_version_def int64_max_def)
  have "uint (ucast d :: 64 word) = uint d" by (rule uint_up_ucast) (simp add: is_up)
  then have "uint (ucast d :: 64 word) < 2 ^ 32" using unsigned_less [of d] by simp
  then show "(ucast d :: 64 word) \<le> int64_max" by (simp add: word_le_def int64_max_def)
qed

lemma narrowed: "ucast (ucast (d :: 32 word) :: 64 word) = d"
  by (intro bit_word_eqI) (simp add: bit_simps)

lemma read_header:
  assumes "sh_version h = 1" and "reads_back W (header_record h)"
  shows "read_record W (jt_serialize W (header_record h)) (None, []) = Inr (Some h, [])"
proof -
  have "\<exists>obj. as_read (header_record h) = JObject obj \<and> member obj ''type'' = Some (JString ''session'') \<and> parse_header obj = Inr h"
    using assms(1)
    by (cases "sh_cwd h"; cases "sh_parent_session h"; cases "sh_agent_preset h"; cases "sh_origin h")
      (auto simp: header_record_def opt_field_def member_def parse_header_def require_string_def require_int_def string_field_def
        small_words narrowed origin_word_def parse_origin_def and_sum_def intro!: session_header.equality)
  with assms(2) show ?thesis by (auto simp: read_record_def reads_back_def)
qed

lemma read_event:
  assumes "ev_type ev \<noteq> ''session''" and "ev_seq ev \<le> int64_max" and "reads_back W (event_record ev)"
  shows "read_record W (jt_serialize W (event_record ev)) (Some h, evs) = Inr (Some h, evs @ [stored_event ev])"
  using assms
  by (simp add: read_record_def reads_back_def event_record_def member_def parse_event_def require_string_def require_int_def stored_event_def)

definition storable :: "json_text \<Rightarrow> session_event \<Rightarrow> bool" where
  "storable W ev \<longleftrightarrow> ev_type ev \<noteq> ''session'' \<and> ev_seq ev \<le> int64_max \<and> reads_back W (event_record ev)"

lemma read_events:
  "\<forall>ev \<in> set evs. storable W ev \<Longrightarrow>
     fold_sum (read_record W) (map (jt_serialize W) (map event_record evs)) (Some h, es) = Inr (Some h, es @ map stored_event evs)"
  by (induction evs arbitrary: es) (simp_all add: read_event storable_def)

lemma fold_sum_append: "fold_sum f (xs @ ys) a = and_sum (fold_sum f xs a) (fold_sum f ys)"
  by (induction xs arbitrary: a) (auto simp: and_sum_def split: sum.split)

lemma read_log:
  assumes "sh_version h = 1" and "reads_back W (header_record h)" and "\<forall>ev \<in> set evs. storable W ev"
  shows "fold_sum (read_record W) (record_lines [] (text_of W (header_record h # map event_record evs) @ rest)) (None, []) =
    fold_sum (read_record W) (record_lines [] rest) (Some h, map stored_event evs)"
proof -
  have "\<forall>v \<in> set (header_record h # map event_record evs). one_line W v" using assms by (auto simp: reads_back_def storable_def)
  from lines_text [OF this, of rest]
  have "record_lines [] (text_of W (header_record h # map event_record evs) @ rest) =
      [jt_serialize W (header_record h)] @ map (jt_serialize W) (map event_record evs) @ record_lines [] rest" by simp
  then show ?thesis using read_header [OF assms(1,2)] read_events [OF assms(3), of h "[]"] by (simp add: fold_sum_append)
qed

lemma read_whole:
  assumes "sh_version h = 1" and "reads_back W (header_record h)" and "\<forall>ev \<in> set evs. storable W ev"
  shows "read_contents W (text_of W (header_record h # map event_record evs)) = Inr (h, map stored_event evs)"
  using read_log [OF assms, of "[]"] by (simp add: read_contents_def del: text_of_simps)

section \<open>What is on disk\<close>

lemma io_fields: "io J = (r, J') \<Longrightarrow> jb_files J' = jb_files J \<and> jb_writers J' = jb_writers J"
  by (auto simp: io_def split: list.splits)

lemma file_of_fields [simp]:
  "file_of i (set_file j t J) = (if i = j then t else file_of i J)" "jb_writers (set_file i t J) = jb_writers J"
  "file_of i (J\<lparr>jb_writers := w\<rparr>) = file_of i J" "file_of i (J\<lparr>jb_dirs := d\<rparr>) = file_of i J"
  by (simp_all add: file_of_def set_file_def)

definition on_disk :: "string \<Rightarrow> string \<Rightarrow> jsonl \<Rightarrow> bool" where
  "on_disk i t J \<longleftrightarrow> map_of (jb_files J) (hex_encode i) \<noteq> None \<and>
     (\<exists>buffer. map_of (jb_writers J) i = Some buffer \<and> file_of i J @ buffer = t)"

lemma write_all_cases:
  "write_all i data J = (r, J') \<Longrightarrow> jb_writers J' = jb_writers J \<and> map_of (jb_files J') (hex_encode i) \<noteq> None \<and>
     (r = Inr () \<longrightarrow> file_of i J' = file_of i J @ data) \<and> (j \<noteq> i \<longrightarrow> map_of (jb_files J') (hex_encode j) = map_of (jb_files J) (hex_encode j))"
  by (auto simp: write_all_def io_def set_file_def file_of_def split: list.splits io_result.splits)

lemma drain_done:
  assumes "drain i J = (Inr (), J')" and "on_disk i t J"
  shows "on_disk i t J' \<and> map_of (jb_writers J') i = Some []"
proof -
  from assms(2) obtain buffer where b: "map_of (jb_writers J) i = Some buffer" "file_of i J @ buffer = t" by (auto simp: on_disk_def)
  show ?thesis
  proof (cases "buffer = []")
    case True
    with assms b show ?thesis by (simp add: drain_def)
  next
    case False
    with assms(1) b(1) obtain J1 where w: "write_all i buffer J = (Inr (), J1)" "J' = J1\<lparr>jb_writers := om_insert i [] (jb_writers J1)\<rparr>"
      by (auto simp: drain_def then_io_def split: prod.splits sum.splits)
    from write_all_cases [OF w(1)] b(2) show ?thesis by (simp add: w(2) on_disk_def)
  qed
qed

text \<open>What a call on another session leaves alone.\<close>

definition leaves :: "string \<Rightarrow> 'a storage \<Rightarrow> bool" where
  "leaves i m \<longleftrightarrow> (\<forall>J. map_of (jb_files (snd (m J))) (hex_encode i) = map_of (jb_files J) (hex_encode i) \<and>
     map_of (jb_writers (snd (m J))) i = map_of (jb_writers J) i)"

named_theorems leaving \<open>calls that leave a session alone\<close>

lemma leaves_then [leaving]: "leaves i m \<Longrightarrow> (\<And>a. leaves i (f a)) \<Longrightarrow> leaves i (then_io m f)"
  unfolding leaves_def then_io_def by (auto split: prod.split sum.split) (metis snd_conv)+

lemma leaves_if [leaving]: "leaves i m \<Longrightarrow> leaves i m' \<Longrightarrow> leaves i (if c then m else m')"
  by simp

lemma leaves_call [leaving]:
  "(\<And>J. map_of (jb_files (f J)) (hex_encode i) = map_of (jb_files J) (hex_encode i) \<and> map_of (jb_writers (f J)) i = map_of (jb_writers J) i)
     \<Longrightarrow> leaves i (system_call f)"
  by (auto simp: leaves_def system_call_def dest: io_fields split: prod.split io_result.split)

lemma leaves_write [leaving]: "j \<noteq> i \<Longrightarrow> leaves i (write_all j data)"
  by (auto simp: leaves_def write_all_def io_def set_file_def file_of_def split: list.split io_result.split prod.split)

lemma leaves_done [leaving]: "(\<And>J. map_of (jb_files (f J)) (hex_encode i) = map_of (jb_files J) (hex_encode i) \<and> map_of (jb_writers (f J)) i = map_of (jb_writers J) i)
     \<Longrightarrow> leaves i (\<lambda>J. (Inr a, f J))"
  by (simp add: leaves_def)

lemma leavesD: "leaves i m \<Longrightarrow> m J = (r, J') \<Longrightarrow>
    map_of (jb_files J') (hex_encode i) = map_of (jb_files J) (hex_encode i) \<and> map_of (jb_writers J') i = map_of (jb_writers J) i"
  unfolding leaves_def by (metis snd_conv)

lemma leaves_at: "(\<And>J0. leaves i (m J0)) \<Longrightarrow> leaves i (\<lambda>J. m J J)"
  by (simp add: leaves_def)

lemma leaves_drain [leaving]: "j \<noteq> i \<Longrightarrow> leaves i (drain j)"
  unfolding leaves_def
proof
  fix J
  assume j: "j \<noteq> i"
  have "leaves i (then_io (write_all j buffer) (\<lambda>_ J. (Inr (), J\<lparr>jb_writers := om_insert j [] (jb_writers J)\<rparr>)))" for buffer
    using j by (intro leaving) auto
  then show "map_of (jb_files (snd (drain j J))) (hex_encode i) = map_of (jb_files J) (hex_encode i) \<and>
      map_of (jb_writers (snd (drain j J))) i = map_of (jb_writers J) i"
    by (auto simp: drain_def leaves_def split: option.split)
qed

lemma leaves_truncate [leaving]: "j \<noteq> i \<Longrightarrow> leaves i (truncate_torn_tail j)"
  unfolding leaves_def
proof
  fix J
  assume j: "j \<noteq> i"
  have "leaves i (then_io (system_call (set_file j [])) (\<lambda>_. write_all j t))" for t
    using j by (intro leaving) (auto simp: set_file_def)
  then show "map_of (jb_files (snd (truncate_torn_tail j J))) (hex_encode i) = map_of (jb_files J) (hex_encode i) \<and>
      map_of (jb_writers (snd (truncate_torn_tail j J))) i = map_of (jb_writers J) i"
    by (auto simp: truncate_torn_tail_def leaves_def Let_def)
qed

lemma leaves_operations:
  assumes "j \<noteq> i"
  shows "sh_id h = j \<Longrightarrow> leaves i (attach W h)" and "leaves i (append_record W j ev)" and "leaves i (flush j)" and "leaves i (detach j)"
proof -
  show f: "leaves i (flush j)"
  proof -
    have "leaves i (then_io (drain j) (\<lambda>_. system_call id))" using assms by (intro leaving) auto
    then show ?thesis by (auto simp: leaves_def flush_def)
  qed
  then have "leaves i (then_io (flush j) (\<lambda>_ J. (Inr (), J\<lparr>jb_writers := om_erase j (jb_writers J)\<rparr>)))" using assms by (intro leaving) auto
  then show "leaves i (detach j)" by (auto simp: leaves_def detach_def)
  have "leaves i (drain j)" using assms by (rule leaving)
  then show "leaves i (append_record W j ev)" using assms
    by (auto simp: leaves_def append_record_def Let_def split: option.split)
  assume h: "sh_id h = j"
  have "leaves i (then_io (system_call (\<lambda>J. J\<lparr>jb_dirs := List.insert (hex_encode j) (jb_dirs J)\<rparr>)) (\<lambda>_.
           then_io (if c then truncate_torn_tail j
                    else then_io (system_call (set_file j [])) (\<lambda>_. write_all j (jt_serialize W (header_record h) @ [newline]))) (\<lambda>_.
           system_call (\<lambda>J. J\<lparr>jb_writers := om_insert j [] (jb_writers J)\<rparr>))))" for c
    using assms by (intro leaving) (auto simp: set_file_def)
  then show "leaves i (attach W h)" by (auto simp: leaves_def attach_def Let_def h)
qed

section \<open>A session's log\<close>

text \<open>The session a notice is about.\<close>

fun notice_of :: "(nat \<Rightarrow> session_header) \<Rightarrow> session_notice \<Rightarrow> string" where
  "notice_of hs (SessionCreated r) = sh_id (hs r)"
| "notice_of hs (SessionAppended i ev) = i"
| "notice_of hs (SessionFlush i) = i"
| "notice_of hs (SessionDisposed i) = i"

text \<open>
  The events announced of a session since it was first attached, as long as none of its own calls fails; what is
  announced of other sessions may fail.
\<close>

inductive persists :: "json_text \<Rightarrow> (nat \<Rightarrow> session_header) \<Rightarrow> session_header \<Rightarrow> session_event list \<Rightarrow> jsonl \<Rightarrow> bool" for W hs h where
  created: "map_of (jb_files J) (hex_encode (sh_id h)) = None \<Longrightarrow> hs r = h \<Longrightarrow> listen W hs (SessionCreated r) J = (Inr (), J')
    \<Longrightarrow> persists W hs h [] J'"
| appended: "persists W hs h evs J \<Longrightarrow> listen W hs (SessionAppended (sh_id h) ev) J = (Inr (), J') \<Longrightarrow> persists W hs h (evs @ [ev]) J'"
| flushed: "persists W hs h evs J \<Longrightarrow> listen W hs (SessionFlush (sh_id h)) J = (Inr (), J') \<Longrightarrow> persists W hs h evs J'"
| others: "persists W hs h evs J \<Longrightarrow> notice_of hs n \<noteq> sh_id h \<Longrightarrow> listen W hs n J = (r, J') \<Longrightarrow> persists W hs h evs J'"

lemma leaves_notice: "notice_of hs n \<noteq> i \<Longrightarrow> leaves i (listen W hs n)"
  by (cases n) (simp_all add: leaves_operations)

lemma on_disk_same:
  "on_disk i t J \<Longrightarrow> map_of (jb_files J') (hex_encode i) = map_of (jb_files J) (hex_encode i) \<and> map_of (jb_writers J') i = map_of (jb_writers J) i
     \<Longrightarrow> on_disk i t J'"
  by (simp add: on_disk_def file_of_def)

lemma call_done: "system_call f J = (Inr (), J') \<Longrightarrow> \<exists>J1. jb_files J1 = jb_files J \<and> jb_writers J1 = jb_writers J \<and> J' = f J1"
  by (auto simp: system_call_def split: prod.splits io_result.splits dest: io_fields)

lemma then_done: "then_io m f J = (Inr b, J') \<Longrightarrow> \<exists>a J1. m J = (Inr a, J1) \<and> f a J1 = (Inr b, J')"
  by (auto simp: then_io_def split: prod.splits sum.splits)

lemma flush_done:
  assumes "flush i J = (Inr (), J')" and "on_disk i t J"
  shows "on_disk i t J' \<and> map_of (jb_writers J') i = Some []"
proof -
  have "map_of (jb_writers J) i \<noteq> None" using assms(2) by (auto simp: on_disk_def)
  with assms(1) obtain J1 where d: "drain i J = (Inr (), J1)" "system_call id J1 = (Inr (), J')"
    by (auto simp: flush_def dest!: then_done)
  from drain_done [OF d(1) assms(2)] call_done [OF d(2)] show ?thesis by (auto simp: on_disk_def file_of_def)
qed

lemma attach_new:
  assumes "attach W h J = (Inr (), J')" and "map_of (jb_files J) (hex_encode (sh_id h)) = None"
  shows "on_disk (sh_id h) (text_of W [header_record h]) J'"
proof -
  let ?i = "sh_id h"
  from assms obtain J1 J2 J3 where c: "system_call (\<lambda>J. J\<lparr>jb_dirs := List.insert (hex_encode ?i) (jb_dirs J)\<rparr>) J = (Inr (), J1)"
    "system_call (set_file ?i []) J1 = (Inr (), J2)" "write_all ?i (jt_serialize W (header_record h) @ [newline]) J2 = (Inr (), J3)"
    "system_call (\<lambda>J. J\<lparr>jb_writers := om_insert ?i [] (jb_writers J)\<rparr>) J3 = (Inr (), J')"
    by (auto simp: attach_def Let_def split: if_splits dest!: then_done)
  from call_done [OF c(2)] have "file_of ?i J2 = []" by (auto simp: file_of_def set_file_def)
  with write_all_cases [OF c(3)] have "file_of ?i J3 = text_of W [header_record h]" "map_of (jb_files J3) (hex_encode ?i) \<noteq> None" by auto
  with call_done [OF c(4)] show ?thesis by (auto simp: on_disk_def file_of_def)
qed

lemma attach_again:
  assumes "attach W h J = (Inr (), J')" and "map_of (jb_files J) (hex_encode (sh_id h)) = Some t"
  shows "on_disk (sh_id h) (whole_lines t) J'"
proof -
  let ?i = "sh_id h"
  from assms obtain J1 J2 where c: "system_call (\<lambda>J. J\<lparr>jb_dirs := List.insert (hex_encode ?i) (jb_dirs J)\<rparr>) J = (Inr (), J1)"
    "truncate_torn_tail ?i J1 = (Inr (), J2)" "system_call (\<lambda>J. J\<lparr>jb_writers := om_insert ?i [] (jb_writers J)\<rparr>) J2 = (Inr (), J')"
    by (auto simp: attach_def Let_def split: if_splits dest!: then_done)
  from call_done [OF c(1)] assms(2) have f: "file_of ?i J1 = t" "map_of (jb_files J1) (hex_encode ?i) = Some t" by (auto simp: file_of_def)
  have "file_of ?i J2 = whole_lines t \<and> map_of (jb_files J2) (hex_encode ?i) \<noteq> None"
  proof (cases "t = [] \<or> last t = newline")
    case True
    with c(2) f have "J2 = J1" by (auto simp: truncate_torn_tail_def)
    with f whole_lines_ends [OF True] show ?thesis by simp
  next
    case False
    with c(2) f obtain J3 where "system_call (set_file ?i []) J1 = (Inr (), J3)" and w: "write_all ?i (whole_lines t) J3 = (Inr (), J2)"
      by (auto simp: truncate_torn_tail_def Let_def dest!: then_done)
    then have "file_of ?i J3 = []" by (auto dest!: call_done simp: file_of_def set_file_def)
    with write_all_cases [OF w] show ?thesis by auto
  qed
  with call_done [OF c(3)] show ?thesis by (auto simp: on_disk_def file_of_def)
qed

lemma attach_empty: "attach W h J = (Inr (), J') \<Longrightarrow> map_of (jb_writers J') (sh_id h) = Some []"
  by (auto simp: attach_def Let_def split: if_splits dest!: then_done call_done)

lemma append_done:
  assumes "append_record W i ev J = (Inr (), J')" and "on_disk i t J"
  shows "on_disk i (t @ text_of W [event_record ev]) J'"
proof -
  from assms(2) obtain buffer where b: "map_of (jb_writers J) i = Some buffer" "file_of i J @ buffer = t"
    "map_of (jb_files J) (hex_encode i) \<noteq> None" by (auto simp: on_disk_def)
  let ?b = "buffer @ jt_serialize W (event_record ev) @ [newline]"
  let ?J = "J\<lparr>jb_writers := om_insert i ?b (jb_writers J)\<rparr>"
  have o: "on_disk i (t @ text_of W [event_record ev]) ?J" using b by (simp add: on_disk_def)
  show ?thesis
  proof (cases "length ?b \<ge> flush_threshold")
    case True
    with assms(1) b have "drain i ?J = (Inr (), J')" by (simp add: append_record_def Let_def)
    from drain_done [OF this o] show ?thesis by blast
  next
    case False
    with assms(1) b o show ?thesis by (simp add: append_record_def Let_def)
  qed
qed

lemma persists_on_disk: "persists W hs h evs J \<Longrightarrow> on_disk (sh_id h) (text_of W (header_record h # map event_record evs)) J"
proof (induction rule: persists.induct)
  case (created J r J')
  then show ?case using attach_new [of W "hs r" J J'] by simp
next
  case (appended evs J ev J')
  from append_done [OF appended(2) [unfolded listen.simps] appended(3)] show ?case by simp
next
  case (flushed evs J J')
  then show ?case using flush_done [of "sh_id h" J J'] by simp
next
  case (others evs J n r J')
  from on_disk_same [OF others(4) leavesD [OF leaves_notice [OF others(2)] others(3)]] show ?case .
qed

end
