(* ===== verification/JsonlProperties.thy ===== *)
theory JsonlProperties
  imports JsonlLaws Query
begin

text \<open>
  The properties of the durable backend: what was flushed is read back, a crash loses records at the end only,
  and the write that fails is the one that damages the log.
\<close>

section \<open>What is on disk\<close>

lemma read_on_disk:
  assumes "on_disk i t J" and "map_of (jb_writers J) i = Some []"
  shows "read_stored W i J = map_sum id Some (read_contents W t)"
  using assms by (auto simp: on_disk_def read_stored_def file_of_def)

lemma on_disk_file: "on_disk i t J \<Longrightarrow> prefix (file_of i J) t"
  by (auto simp: on_disk_def)

definition log_text :: "json_text \<Rightarrow> session_header \<Rightarrow> session_event list \<Rightarrow> string" where
  "log_text W h evs = text_of W (header_record h # map event_record evs)"

lemma log_text_append: "log_text W h (evs @ es) = log_text W h evs @ text_of W (map event_record es)"
  by (simp add: log_text_def)

lemma persists_log: "persists W hs h evs J \<Longrightarrow> on_disk (sh_id h) (log_text W h evs) J"
  unfolding log_text_def by (rule persists_on_disk)

lemma read_log_text:
  "sh_version h = 1 \<Longrightarrow> reads_back W (header_record h) \<Longrightarrow> \<forall>ev \<in> set evs. storable W ev \<Longrightarrow>
     read_contents W (log_text W h evs) = Inr (h, map stored_event evs)"
  unfolding log_text_def by (rule read_whole)

lemma flushed_log_read:
  assumes "persists W hs h evs J" and "flush (sh_id h) J = (Inr (), J')"
    and "sh_version h = 1" and "reads_back W (header_record h)" and "\<forall>ev \<in> set evs. storable W ev"
  shows "read_stored W (sh_id h) J' = Inr (Some (h, map stored_event evs))"
proof -
  from flush_done [OF assms(2) persists_log [OF assms(1)]]
  have "read_stored W (sh_id h) J' = map_sum id Some (read_contents W (log_text W h evs))" by (blast intro: read_on_disk)
  then show ?thesis using assms(3-5) by (simp add: read_log_text)
qed


text \<open>The backend as the session query engine reads it: a session that cannot be read is passed over.\<close>

definition jsonl_env :: "json_text \<Rightarrow> jsonl \<Rightarrow> persistence_env" where
  "jsonl_env W J = \<lparr>pv_list = list_stored J, pv_read = (\<lambda>i. case read_stored W i J of Inl e \<Rightarrow> None | Inr x \<Rightarrow> Some x)\<rparr>"

lemma stored_session_queried:
  assumes "persists W hs h evs J" and "flush (sh_id h) J = (Inr (), J')"
    and "sh_version h = 1" and "reads_back W (header_record h)" and "\<forall>ev \<in> set evs. storable W ev"
    and "qe_persistence Q = Some (jsonl_env W J')"
  shows "stored_session Q (sh_id h) = Some (h, map stored_event evs)"
  using flushed_log_read [OF assms(1-5)] assms(6) by (simp add: stored_session_def jsonl_env_def)

section \<open>After a crash\<close>

lemma cut_log:
  assumes "prefix (log_text W h kept) t" and "prefix t (log_text W h (kept @ new))"
    and "reads_back W (header_record h)" and "\<forall>ev \<in> set (kept @ new). storable W ev"
  shows "\<exists>k. whole_lines t = log_text W h (kept @ take k new)"
proof -
  let ?vs = "header_record h # map event_record (kept @ new)" and ?n = "Suc (length kept)"
  have "\<forall>v \<in> set ?vs. one_line W v" using assms(3,4) by (auto simp: reads_back_def storable_def)
  from prefix_lines [OF this assms(2) [unfolded log_text_def]] obtain k where k: "whole_lines t = text_of W (take k ?vs)"
    "\<forall>j \<le> length ?vs. length (text_of W (take j ?vs)) \<le> length t \<longrightarrow> j \<le> k" by blast
  have "take ?n ?vs = header_record h # map event_record kept" by simp
  with prefix_length_le [OF assms(1)] k(2) have "?n \<le> k" unfolding log_text_def by (metis add.commute length_Cons length_append length_map le_add1 not_less_eq_eq)
  then obtain m where "k = Suc (length kept + m)" by (metis add_Suc le_Suc_ex)
  with k(1) have "whole_lines t = log_text W h (kept @ take m new)" by (simp add: log_text_def take_map)
  then show ?thesis ..
qed

text \<open>
  C23. A crash loses events from the end only. Under the same conditions, some events have been flushed, others given
  since. After the crash the log file holds at least what the flush had left there and at most what had been written
  since, cut at any byte. When attaching the session again succeeds, which drops the torn record, if any, the stored
  session has the header, every flushed event and some of the later ones, in order and without a gap.
\<close>

theorem crash_keeps_prefix:
  assumes "persists W hs h kept J" and "flush (sh_id h) J = (Inr (), J1)" and "persists W hs h (kept @ new) J2"
    and "map_of (jb_files K) (hex_encode (sh_id h)) = Some t"
    and "prefix (file_of (sh_id h) J1) t" and "prefix t (file_of (sh_id h) J2)"
    and "attach W h K = (Inr (), K')"
    and "sh_version h = 1" and "reads_back W (header_record h)" and "\<forall>ev \<in> set (kept @ new). storable W ev"
  shows "\<exists>k. read_stored W (sh_id h) K' = Inr (Some (h, map stored_event (kept @ take k new)))"
proof -
  from flush_done [OF assms(2) persists_log [OF assms(1)]] have "file_of (sh_id h) J1 = log_text W h kept"
    by (auto simp: on_disk_def)
  moreover have "prefix t (log_text W h (kept @ new))"
    using assms(6) on_disk_file [OF persists_log [OF assms(3)]] by (rule prefix_order.trans)
  ultimately obtain k where k: "whole_lines t = log_text W h (kept @ take k new)"
    using cut_log assms(5,9,10) by metis
  have "set (take k new) \<subseteq> set new" by (rule set_take_subset)
  then have "\<forall>ev \<in> set (kept @ take k new). storable W ev" using assms(10) by auto
  from read_log_text [OF assms(8,9) this] attach_again [OF assms(7,4)] attach_empty [OF assms(7)] k
  show ?thesis by (auto simp: read_on_disk)
qed

section \<open>After a failed write\<close>

lemma drain_broken:
  assumes "map_of (jb_writers J) i = Some b" and "b \<noteq> []" and "jb_script J = [Broken n]"
  shows "drain i J = (Inl IoFailed, set_file i (file_of i J @ take n b) (J\<lparr>jb_script := []\<rparr>))"
  using assms by (simp add: drain_def then_io_def write_all_def io_def file_of_def)

lemma flush_fine:
  assumes "map_of (jb_writers J) i = Some b" and "b \<noteq> []" and "jb_script J = []"
  shows "flush i J = (Inr (), (set_file i (file_of i J @ b) J)\<lparr>jb_writers := om_insert i [] (jb_writers J)\<rparr>)"
  using assms by (simp add: flush_def drain_def then_io_def write_all_def io_def system_call_def)
    (simp add: set_file_def)

lemma flush_twice:
  assumes "map_of (jb_writers J) i = Some b" and "b \<noteq> []" and "jb_script J = [Broken n]"
  shows "\<exists>J1 J2. flush i J = (Inl IoFailed, J1) \<and> flush i J1 = (Inr (), J2) \<and>
    read_stored W i J2 = map_sum id Some (read_contents W (file_of i J @ take n b @ b))"
proof -
  let ?J1 = "set_file i (file_of i J @ take n b) (J\<lparr>jb_script := []\<rparr>)"
  have f: "flush i J = (Inl IoFailed, ?J1)" using drain_broken [OF assms] assms(1) by (simp add: flush_def then_io_def)
  have "map_of (jb_writers ?J1) i = Some b" "jb_script ?J1 = []" using assms(1) by (simp_all add: set_file_def)
  from flush_fine [OF this(1) assms(2) this(2)] f show ?thesis by (fastforce simp: read_stored_def set_file_def file_of_def)
qed

lemma events_lines: "\<forall>ev \<in> set evs. storable W ev \<Longrightarrow>
    record_lines [] (text_of W (map event_record evs) @ rest) = map (jt_serialize W) (map event_record evs) @ record_lines [] rest"
  by (rule lines_text) (auto simp: storable_def reads_back_def)

text \<open>
  The write that fails is repeated from its beginning. A flush fails after a part of the buffer reached the file,
  and the next one succeeds. When the part is whole records, the stored session has them twice. When it is a part of
  the first record, which followed by that record is no JSON text, the session cannot be read any more.
\<close>

theorem failed_write_repeats:
  assumes "file_of (sh_id h) J = log_text W h written" and "map_of (jb_writers J) (sh_id h) = Some (text_of W (map event_record (ev # pending)))"
    and "jb_script J = [Broken n]"
    and "sh_version h = 1" and "reads_back W (header_record h)" and "\<forall>e \<in> set (written @ ev # pending). storable W e"
  shows "\<exists>J1 J2. flush (sh_id h) J = (Inl IoFailed, J1) \<and> flush (sh_id h) J1 = (Inr (), J2) \<and>
    (\<forall>k. n = length (text_of W (map event_record (take k (ev # pending)))) \<longrightarrow>
       read_stored W (sh_id h) J2 = Inr (Some (h, map stored_event (written @ take k (ev # pending) @ ev # pending)))) \<and>
    (let text = jt_serialize W (event_record ev)
     in n \<le> length text \<and> jt_parse W (take n text @ text) = None \<longrightarrow> read_stored W (sh_id h) J2 = Inl MalformedRecord)"
proof -
  let ?b = "text_of W (map event_record (ev # pending))" and ?s = "jt_serialize W (event_record ev)"
  have one: "newline \<notin> set ?s" "?s \<noteq> []" using assms(6) by (simp_all add: storable_def reads_back_def one_line_def)
  have b: "?b \<noteq> []" using one by simp
  from flush_twice [OF assms(2) b assms(3), of W] obtain J1 J2 where J: "flush (sh_id h) J = (Inl IoFailed, J1)" "flush (sh_id h) J1 = (Inr (), J2)"
    and rd: "read_stored W (sh_id h) J2 = map_sum id Some (read_contents W (log_text W h written @ take n ?b @ ?b))"
    using assms(1) by auto
  have whole: "read_stored W (sh_id h) J2 = Inr (Some (h, map stored_event (written @ take k (ev # pending) @ ev # pending)))"
    if "n = length (text_of W (map event_record (take k (ev # pending))))" for k
  proof -
    have "text_of W (map event_record (ev # pending)) =
        text_of W (map event_record (take k (ev # pending))) @ text_of W (map event_record (drop k (ev # pending)))"
      by (metis append_take_drop_id map_append text_of_simps(3))
    then have "take n ?b = text_of W (map event_record (take k (ev # pending)))" using that by (metis append_eq_conv_conj)
    then have t: "log_text W h written @ take n ?b @ ?b = log_text W h (written @ take k (ev # pending) @ ev # pending)"
      by (simp add: log_text_def)
    have "\<forall>e \<in> set (written @ take k (ev # pending) @ ev # pending). storable W e"
      using assms(6) set_take_subset [of k "ev # pending"] by auto
    from read_log_text [OF assms(4,5) this] rd t show ?thesis by simp
  qed
  have torn: "read_stored W (sh_id h) J2 = Inl MalformedRecord" if "n \<le> length ?s" "jt_parse W (take n ?s @ ?s) = None"
  proof -
    have "newline \<notin> set (take n ?s @ ?s)" using one by (auto dest: in_set_takeD)
    from lines_whole [OF this, of "[]"] one that(1)
    have l: "record_lines [] (take n ?b @ ?b) = (take n ?s @ ?s) # record_lines [] (text_of W (map event_record pending))" by simp
    from assms(6) have "\<forall>e \<in> set written. storable W e" by simp
    from read_log [OF assms(4,5) this, of "take n ?b @ ?b"] l that(2)
    have "read_contents W (log_text W h written @ take n ?b @ ?b) = Inl MalformedRecord"
      by (simp add: read_contents_def log_text_def read_record_def and_sum_def del: text_of_simps)
    with rd show ?thesis by simp
  qed
  from J whole torn show ?thesis by (auto simp: Let_def)
qed

text \<open>
  The repair of a torn tail is not safe itself: it empties the file before it writes the whole lines back. A write
  that fails, or a crash, in between leaves a part of a log that had been flushed.
\<close>

lemma repair_can_lose:
  assumes "map_of (jb_files K) (hex_encode (sh_id h)) = Some t" and "t \<noteq> []" and "last t \<noteq> newline"
    and "map_of (jb_writers K) (sh_id h) = None" and "jb_script K = [Fine, Fine, Broken n]"
  shows "\<exists>K'. attach W h K = (Inl IoFailed, K') \<and> map_of (jb_files K') (hex_encode (sh_id h)) = Some (take n (whole_lines t))"
  using assms by (simp add: attach_def then_io_def system_call_def io_def truncate_torn_tail_def file_of_def write_all_def set_file_def Let_def)

text \<open>
  A crash during the first attach may leave a file without a whole header. The next attach empties it, and no
  header is written again: an event goes in first, and the session can be attached and written but not read.
\<close>

lemma torn_header_lost:
  assumes "map_of (jb_files K) (hex_encode (sh_id h)) = Some t" and "newline \<notin> set t" and "attach W h K = (Inr (), K')"
    and "append_record W (sh_id h) ev K' = (Inr (), K1)" and "flush (sh_id h) K1 = (Inr (), K2)" and "storable W ev"
  shows "read_stored W (sh_id h) K2 = Inl EventBeforeHeader"
proof -
  have "on_disk (sh_id h) [] K'" using attach_again [OF assms(3,1)] assms(2) by (simp add: whole_lines_simps)
  from flush_done [OF assms(5) append_done [OF assms(4) this]]
  have "read_stored W (sh_id h) K2 = map_sum id Some (read_contents W (text_of W [event_record ev]))" by (auto simp: read_on_disk)
  moreover from assms(6) events_lines [of "[ev]" W "[]"] have "record_lines [] (text_of W [event_record ev]) = [jt_serialize W (event_record ev)]" by simp
  moreover have "read_record W (jt_serialize W (event_record ev)) (None, []) = Inl EventBeforeHeader"
    using assms(6) by (simp add: storable_def reads_back_def read_record_def event_record_def member_def)
  ultimately show ?thesis by (simp add: read_contents_def and_sum_def del: text_of_simps)
qed

section \<open>Concrete logs\<close>

definition log_header :: session_header where
  "log_header = \<lparr>sh_version = 1, sh_id = ''s'', sh_created_at = 5, sh_cwd = Some ''/w'', sh_parent_session = None, sh_is_seeded = True,
     sh_delegation_depth = 2, sh_origin = OriginSubagent, sh_agent_preset = None\<rparr>"

text \<open>The session objects: the first has this header, every other one belongs to a session with another id.\<close>

definition log_headers :: "nat \<Rightarrow> session_header" where
  "log_headers r = (if r = 0 then log_header else log_header\<lparr>sh_id := ''t''\<rparr>)"

definition logged_note :: "64 word \<Rightarrow> session_event" where
  "logged_note n = \<lparr>ev_seq = n, ev_time = 7, ev_type = ''user/message'', ev_data = JUint 3, ev_ignorable = False\<rparr>"

definition log_json :: json_text where
  "log_json =
     \<lparr>jt_serialize = (\<lambda>v. case v of JObject ((k, JUint n) # m) \<Rightarrow> (if n = 0 then ''e'' else ''f'') | _ \<Rightarrow> ''h''),
      jt_parse = (\<lambda>t. if t = ''h'' then Some (as_read (header_record log_header)) else if t = ''e'' then Some (as_read (event_record (logged_note 0)))
        else if t = ''f'' then Some (as_read (event_record (logged_note 1))) else None)\<rparr>"

lemma log_json_ok: "reads_back log_json (header_record log_header)" "storable log_json (logged_note 0)" "storable log_json (logged_note 1)"
proof -
  have h: "jt_serialize log_json (header_record log_header) = ''h''" and e: "jt_serialize log_json (event_record (logged_note 0)) = ''e''"
    "jt_serialize log_json (event_record (logged_note 1)) = ''f''" by code_simp+
  then show "reads_back log_json (header_record log_header)" by (simp add: reads_back_def one_line_def newline_def) (simp add: log_json_def)
  have small: "ev_type (logged_note n) \<noteq> ''session''" "ev_seq (logged_note 0) \<le> int64_max" "ev_seq (logged_note 1) \<le> int64_max" for n
    by (simp_all add: logged_note_def int64_max_def)
  show "storable log_json (logged_note 0)" using e(1) small by (simp add: storable_def reads_back_def one_line_def newline_def) (simp add: log_json_def)
  show "storable log_json (logged_note 1)" using e(2) small by (simp add: storable_def reads_back_def one_line_def newline_def) (simp add: log_json_def)
qed

lemma log_texts: "jt_serialize log_json (header_record h) = ''h''"
  "jt_serialize log_json (event_record (logged_note 0)) = ''e''" "jt_serialize log_json (event_record (logged_note 1)) = ''f''"
  by (simp_all add: log_json_def header_record_def event_record_def logged_note_def)

lemma log_name: "sh_id log_header = ''s''" "hex_encode ''s'' = ''73''" "hex_encode ''t'' = ''74''"
  by (simp add: log_header_def) code_simp+

lemmas log_steps = log_texts log_name attach_def then_io_def system_call_def io_def write_all_def set_file_def file_of_def append_record_def
  flush_threshold_def flush_def drain_def truncate_torn_tail_def Let_def


text \<open>One event is given and flushed; another session's attach fails, half its header written; a second event is given.\<close>

definition first_calls :: jsonl where
  "first_calls = empty_jsonl\<lparr>jb_script := [Fine, Fine, Fine, Fine, Fine, Fine, Fine, Fine, Broken 1]\<rparr>"

definition log_start :: jsonl where "log_start = snd (attach log_json log_header first_calls)"
definition log_one :: jsonl where "log_one = snd (append_record log_json ''s'' (logged_note 0) log_start)"
definition log_kept :: jsonl where "log_kept = snd (flush ''s'' log_one)"
definition log_other :: jsonl where "log_other = snd (attach log_json (log_header\<lparr>sh_id := ''t''\<rparr>) log_kept)"
definition log_two :: jsonl where "log_two = snd (append_record log_json ''s'' (logged_note 1) log_other)"
definition log_both :: jsonl where "log_both = snd (flush ''s'' log_two)"

abbreviation log_with :: "io_result list \<Rightarrow> string list \<Rightarrow> (string \<times> string) list \<Rightarrow> string \<Rightarrow> jsonl" where
  "log_with rs ds fs b \<equiv> \<lparr>jb_dirs = ds, jb_files = fs, jb_writers = [(''s'', b)], jb_script = rs\<rparr>"

lemma log_calls:
  shows created_call: "attach log_json log_header first_calls = (Inr (), log_start)" "log_start = log_with [Fine, Fine, Fine, Fine, Broken 1] [''73''] [(''73'', [CHR ''h'', newline])] []"
    and first_call: "append_record log_json ''s'' (logged_note 0) log_start = (Inr (), log_one)"
      "log_one = log_with [Fine, Fine, Fine, Fine, Broken 1] [''73''] [(''73'', [CHR ''h'', newline])] [CHR ''e'', newline]"
    and kept_call: "flush ''s'' log_one = (Inr (), log_kept)" "log_kept = log_with [Fine, Fine, Broken 1] [''73''] [(''73'', [CHR ''h'', newline, CHR ''e'', newline])] []"
    and failed_call: "attach log_json (log_header\<lparr>sh_id := ''t''\<rparr>) log_kept = (Inl IoFailed, log_other)"
      "log_other = log_with [] [''74'', ''73''] [(''73'', [CHR ''h'', newline, CHR ''e'', newline]), (''74'', ''h'')] []"
    and second_call: "append_record log_json ''s'' (logged_note 1) log_other = (Inr (), log_two)"
      "log_two = log_with [] [''74'', ''73''] [(''73'', [CHR ''h'', newline, CHR ''e'', newline]), (''74'', ''h'')] [CHR ''f'', newline]"
    and last_call: "flush ''s'' log_two = (Inr (), log_both)"
      "log_both = log_with [] [''74'', ''73''] [(''73'', [CHR ''h'', newline, CHR ''e'', newline, CHR ''f'', newline]), (''74'', ''h'')] []"
proof -
  show s: "attach log_json log_header first_calls = (Inr (), log_start)" "log_start = log_with [Fine, Fine, Fine, Fine, Broken 1] [''73''] [(''73'', [CHR ''h'', newline])] []"
    by (simp_all add: log_start_def log_steps first_calls_def empty_jsonl_def)
  show o: "append_record log_json ''s'' (logged_note 0) log_start = (Inr (), log_one)"
      "log_one = log_with [Fine, Fine, Fine, Fine, Broken 1] [''73''] [(''73'', [CHR ''h'', newline])] [CHR ''e'', newline]"
    by (simp_all add: log_one_def s(2) log_steps)
  show k: "flush ''s'' log_one = (Inr (), log_kept)" "log_kept = log_with [Fine, Fine, Broken 1] [''73''] [(''73'', [CHR ''h'', newline, CHR ''e'', newline])] []"
    by (simp_all add: log_kept_def o(2) log_steps)
  show t: "attach log_json (log_header\<lparr>sh_id := ''t''\<rparr>) log_kept = (Inl IoFailed, log_other)"
      "log_other = log_with [] [''74'', ''73''] [(''73'', [CHR ''h'', newline, CHR ''e'', newline]), (''74'', ''h'')] []"
    by (simp_all add: log_other_def k(2) log_steps)
  show w: "append_record log_json ''s'' (logged_note 1) log_other = (Inr (), log_two)"
      "log_two = log_with [] [''74'', ''73''] [(''73'', [CHR ''h'', newline, CHR ''e'', newline]), (''74'', ''h'')] [CHR ''f'', newline]"
    by (simp_all add: log_two_def t(2) log_steps)
  show "flush ''s'' log_two = (Inr (), log_both)"
      "log_both = log_with [] [''74'', ''73''] [(''73'', [CHR ''h'', newline, CHR ''e'', newline, CHR ''f'', newline]), (''74'', ''h'')] []"
    by (simp_all add: log_both_def w(2) log_steps)
qed

lemma log_persists: "persists log_json log_headers log_header [logged_note 0] log_one" "persists log_json log_headers log_header ([logged_note 0] @ [logged_note 1]) log_two"
    "persists log_json log_headers log_header ([logged_note 0] @ [logged_note 1]) log_both"
proof -
  have "persists log_json log_headers log_header [] log_start" by (rule persists.created [of first_calls _ _ 0]) (simp_all add: log_headers_def created_call(1), simp add: first_calls_def empty_jsonl_def)
  from persists.appended [OF this] first_call(1) log_name(1) show o: "persists log_json log_headers log_header [logged_note 0] log_one" by fastforce
  from persists.flushed [OF o] kept_call(1) log_name(1) have "persists log_json log_headers log_header [logged_note 0] log_kept" by simp
  from persists.others [OF this, of "SessionCreated 1"] failed_call(1) log_name(1)
  have "persists log_json log_headers log_header [logged_note 0] log_other" by (simp add: log_headers_def)
  from persists.appended [OF this] second_call(1) log_name(1) show t: "persists log_json log_headers log_header ([logged_note 0] @ [logged_note 1]) log_two" by simp
  from persists.flushed [OF t] last_call(1) log_name(1) show "persists log_json log_headers log_header ([logged_note 0] @ [logged_note 1]) log_both" by simp
qed

lemma log_storable: "\<forall>ev \<in> set ([logged_note 0] @ [logged_note 1]). storable log_json ev" "sh_version log_header = 1"
  using log_json_ok by (simp_all add: log_header_def)


text \<open>The process dies in the middle of the second flush: the second event's newline is not on disk.\<close>

definition after_crash :: jsonl where
  "after_crash = empty_jsonl\<lparr>jb_files := [(''73'', [CHR ''h'', newline, CHR ''e'', newline, CHR ''f''])]\<rparr>"

theorem crash_keeps_prefix_witness:
  "\<exists>k K'. attach log_json log_header after_crash = (Inr (), K') \<and>
     read_stored log_json ''s'' K' = Inr (Some (log_header, map stored_event ([logged_note 0] @ take k [logged_note 1])))"
proof -
  define K' where "K' = snd (attach log_json log_header after_crash)"
  have a: "attach log_json log_header after_crash = (Inr (), K')"
    by (simp add: K'_def log_steps after_crash_def empty_jsonl_def newline_def)
  have t: "map_of (jb_files after_crash) (hex_encode (sh_id log_header)) = Some [CHR ''h'', newline, CHR ''e'', newline, CHR ''f'']"
    by (simp add: after_crash_def log_name)
  have p: "prefix (file_of (sh_id log_header) log_kept) [CHR ''h'', newline, CHR ''e'', newline, CHR ''f'']"
    "prefix [CHR ''h'', newline, CHR ''e'', newline, CHR ''f''] (file_of (sh_id log_header) log_both)"
    by (simp_all add: kept_call(2) last_call(2) file_of_def log_name)
  have f: "flush (sh_id log_header) log_one = (Inr (), log_kept)" using kept_call(1) by (simp add: log_name)
  from crash_keeps_prefix [OF log_persists(1) f log_persists(3) t p a log_storable(2) log_json_ok(1) log_storable(1)] a
  show ?thesis by (auto simp: log_name)
qed

text \<open>The second event is pending, and one byte of its record, or all of it, reaches the file of the flush that fails.\<close>

definition failing :: "nat \<Rightarrow> jsonl" where
  "failing n = log_two\<lparr>jb_script := [Broken n]\<rparr>"

theorem failed_write_repeats_witness:
  "(\<exists>J1 J2. flush ''s'' (failing 1) = (Inl IoFailed, J1) \<and> flush ''s'' J1 = (Inr (), J2) \<and> read_stored log_json ''s'' J2 = Inl MalformedRecord) \<and>
   (\<exists>J1 J2. flush ''s'' (failing 2) = (Inl IoFailed, J1) \<and> flush ''s'' J1 = (Inr (), J2) \<and>
      read_stored log_json ''s'' J2 = Inr (Some (log_header, map stored_event [logged_note 0, logged_note 1, logged_note 1])))"
proof -
  have h: "file_of (sh_id log_header) (failing n) = log_text log_json log_header [logged_note 0]" "jb_script (failing n) = [Broken n]"
    "map_of (jb_writers (failing n)) (sh_id log_header) = Some (text_of log_json (map event_record (logged_note 1 # [])))" for n
    by (simp_all add: failing_def second_call(2) file_of_def log_name log_text_def log_texts)
  have s: "\<forall>e \<in> set ([logged_note 0] @ logged_note 1 # []). storable log_json e" using log_storable(1) by simp
  have torn: "jt_parse log_json (take 1 ''f'' @ ''f'') = None" by (simp add: log_json_def)
  note rule = failed_write_repeats [OF h(1) h(3) h(2) log_storable(2) log_json_ok(1) s, unfolded Let_def log_texts log_name(1)]
  from rule [of 1] torn have "\<exists>J1 J2. flush ''s'' (failing 1) = (Inl IoFailed, J1) \<and> flush ''s'' J1 = (Inr (), J2) \<and>
      read_stored log_json ''s'' J2 = Inl MalformedRecord" by auto
  moreover have "length (text_of log_json (map event_record (take 1 (logged_note 1 # [])))) = 2" by (simp add: log_texts)
  with rule [of 2] have "\<exists>J1 J2. flush ''s'' (failing 2) = (Inl IoFailed, J1) \<and> flush ''s'' J1 = (Inr (), J2) \<and>
      read_stored log_json ''s'' J2 = Inr (Some (log_header, map stored_event ([logged_note 0] @ take 1 (logged_note 1 # []) @ logged_note 1 # [])))"
    by metis
  ultimately show ?thesis by simp
qed

end
