(* ===== verification/Spec2Isabelle.thy ===== *)
theory Spec2Isabelle
  imports Scenarios GoalProperties EventProperties AgentProperties ServiceProperties ModelProperties QueryProperties PromptProperties RoundProperties JsonlProperties
begin

text \<open>
  A verification development for araya, a C++ plugin engine and the agent platform built on it. What
  is modelled: the engine core under \<open>src/src\<close> and \<open>src/include/araya\<close>; the session, goal and event layers above
  it, the agent loop that drives a model over a session, the wire protocols it reaches a model through, and the
  services around it, under \<open>src/plugins\<close>.

  THE ENGINE. Plugins are mounted as fibers in a tree of scopes; a fiber provides and requires services,
  and loads when its required keys resolve. Everything runs on one control strand.
  \<^item> Service: keys, bindings, provider and fiber states (\<open>service.hpp\<close>, \<open>plugin.hpp\<close>).
  \<^item> Scope: the binding tree with realms, lookup and metadata (\<open>context.hpp\<close>, \<open>context.cpp\<close>). Scopes are
    entries of a store with parent links; addresses are ordered by their number.
  \<^item> Effects: the cleanup stack (\<open>effects.hpp\<close>, \<open>effects.cpp\<close>); the world a cleanup changes is a parameter.
  \<^item> Machine: fiber records, activations, the indices, the transition counter (\<open>fiber.cpp\<close>, \<open>activation.cpp\<close>,
    data members of \<open>runtime\<close>).
  \<^item> Diagnose: conflicts, cycles (Tarjan's scan as an explicit stack machine), deduplicated diagnostics.
  \<^item> Lifecycle, Cascade: resolution, loading and the unload cascade of \<open>runtime.cpp\<close>. The mutual recursion
    (\<open>evaluate\<close>, \<open>start_loading\<close>, \<open>begin_unload\<close>, \<open>maybe_finish_unload\<close>, \<open>notify\<close>) is an explicit call stack:
    \<open>exec\<close> runs one frame and \<open>run\<close> empties the stack. Its termination is proved, so \<open>run\<close> needs no fuel.
  \<^item> Engine, Reconcile: the handlers that start a cascade: mounting, completion of an apply coroutine,
    publication, availability, retirement, the diff of the desired tree, the destructor, the snapshots.
  \<^item> Quiescence, Reachable, Records, Indices, Activations, Conflicts, Scenarios: the laws. Reachable defines
    the step relation \<open>engine_step\<close> over all handlers; invariants are proved by rule induction through the
    locales \<open>stack_invariant\<close>, \<open>frame_invariant\<close> and \<open>record_invariant\<close>, each interpreted on the engine's own
    frames. Scenarios evaluates concrete runs for the findings.

  THE PLATFORM.
  \<^item> Events, EventLaws, EventProperties: the typed event bus of \<open>events.hpp\<close> and \<open>events.cpp\<close>. Listener
    vectors are an explicit store, since a dispatch in flight shares its vector with the registry; a slot
    whose callable was moved out is empty, as both common standard libraries leave it. What a listener does,
    suspensions included, is a function parameter; coroutines spawned on the strand are tasks run in order.
  \<^item> Config: the strict parsers and the view of \<open>config.hpp\<close>.
  \<^item> Strings, Json: the helpers of \<open>util/string.hpp\<close> and \<open>util/json.hpp\<close>. A JSON value is the library's data
    (objects as association lists in order, integers as 64-bit words of either kind, doubles as bits).
  \<^item> Surface, Repair, Sessions: the event-sourced sessions of \<open>plugins/session\<close>. A store is one record; a
    session object is an index into \<open>ss_objects\<close>, so that holders of a disposed session keep an alias.
    Dispatches on the bus are recorded in \<open>ss_published\<close>; the clock and the random device are arguments.
    All projections of a store share one state type.
  \<^item> SessionLaws, SessionProperties: logs in order, replay, and the projections' invariant. \<open>store_step\<close> has the
    operations of the store and of every holder of a session object, entered or not; its label names the session
    whose projections the operation confuses.
  \<^item> Jsonl, JsonlLaws, JsonlProperties: the durable backend of \<open>plugins/persistence\<close>: records, the reader, buffered
    writers, the repair of a torn tail, over a map of log files whose system calls fail by a script. \<open>persists\<close>
    follows what the store announces of one session, with whatever happens to others in between; \<open>on_disk\<close> is
    what it promises of the file and the buffer.
  \<^item> Goal, GoalService, GoalLaws, GoalProperties: the goal domain of \<open>plugins/goal\<close>: the projection that replays
    a log, the compare-and-set service over a session store, and its refinement of an abstract goal.

  THE AGENT LOOP (\<open>plugins/agent-loop\<close>, \<open>plugins/llm/bridge\<close>).
  \<^item> Inbox: the durable queues of pending messages as a projection (\<open>inbox.cpp\<close>). \<open>inbox_replay\<close> interprets the
    session layer's \<open>cell_invariant\<close> on it.
  \<^item> Bridge: content blocks, failures and stream chunks (\<open>llm.hpp\<close>), and the envelopes in which they are logged
    and read back (\<open>bridge.hpp\<close>).
  \<^item> AgentLog, AgentTurn: what a turn logs and the turn engine (\<open>agent.cpp\<close>, \<open>events.cpp\<close>). An action maps the
    world (the session store, the drivers, the stop sources, the notices) to a result or an exception and a
    world; \<open>None\<close> is an action that never returns. Drivers are shared objects, named by their address. What is
    awaited (the model stream, a tool, the listeners of an event, the registries of prompts and models) is the
    record \<open>agent_env\<close> of functions that may change the world in any way, so they include whatever runs
    meanwhile on the strand. The loop of a turn is bounded by the step limit and terminates; the retries of a
    request and the turns of a drive are partial functions.
  \<^item> AgentControl: the registry of drivers, spawning and completing drives, input, cancellation, waiting.
  \<^item> AgentLaws, AgentOutcomes: \<open>quiet_order\<close>, \<open>step_order\<close> and \<open>quiet_round\<close> say what an order on worlds must
    promise to be respected by a whole round; they are interpreted for the boundary events of a log, for
    its tool events and, in AgentDrives, for the drives in progress. \<open>returns\<close> collects what ends.
  \<^item> AgentPrompt: the system prompt on the surface. AgentDrives: at most one drive per driver, as an invariant of
    \<open>agent_step\<close>. AgentProperties: the theorems, and concrete runs with a scripted model.

  SERVICES AROUND THE LOOP.
  \<^item> Tools: the tool registry (\<open>plugins/tools\<close>): scopes that shadow, restrictions, guards, result listeners and
    execution; its cleanups interpret the effect stack's \<open>cleanup_runner\<close>.
  \<^item> Jobs, JobLaws: the background jobs (\<open>plugins/jobs\<close>). \<open>job_relation\<close> says what small updates must respect for
    every operation to respect it; it is interpreted for the assignment of ids and for the limit.
  \<^item> ServiceProperties: their theorems, with witnesses.
  \<^item> Rounds, RoundProperties: automatic goal rounds (\<open>plugins/goal-round-driver\<close>): scheduling loops as posted tasks,
    the listeners as steps of \<open>round_step\<close>, the fence at the agent loop's pre-step, and a run of that loop with it.
  \<^item> Prompts, PromptLaws, PromptProperties: the prompt registry (\<open>plugins/system-prompt\<close>): interpolation of variables,
    contributions with scopes, assembly with interceptors, the order of tools, the plugin's configuration.
  \<^item> Query, QueryLaws, QueryProperties: the in-memory query engine over sessions (\<open>plugins/session-query\<close>): text
    matching, filters, ranking, cursors, reads and traces. The loop over descendants is a partial function.

  THE MODEL CALLS (\<open>plugins/llm\<close>, \<open>plugins/llm-compat\<close>, \<open>plugins/llm-retry\<close>).
  \<^item> Sse: the incremental parser of server-sent events, and the events of a stream stated without a parser.
  \<^item> Wire: URLs, headers, errors and the body loop of the HTTP client, and the contract of chunk streams of
    \<open>llm.hpp\<close>. The network is a function from a request to the pieces of an answer or an error.
  \<^item> ChatWire, MessagesWire: the requests and the streaming translators of the two protocols (\<open>translate.cpp\<close>,
    \<open>messages.cpp\<close>). Compat: profiles, routes, the catalogue and the registry of adapters (\<open>compat.cpp\<close>, \<open>llm.cpp\<close>).
  \<^item> StreamLaws, ChatLaws, MessagesLaws: a translator tracks a view of the stream it emits (\<open>sees\<close>), which is what
    keeps the contract. ModelCalls: a call end to end; its locale \<open>stream_protocol\<close> says what a translator owes to a
    call, and is interpreted for both protocols.
  \<^item> Retry: eligibility, backoff with wrap-around, the decision and the listener of \<open>llm_retry.cpp\<close>, put into the
    agent loop's environment by \<open>with_retry\<close>. ModelProperties: the theorems.

  WHAT THE LEMMAS SHOW. The properties are numbered C1 onwards where they stand: those of the engine in this
  theory, the others in the theories named above. In short: every cascade ends; an idle engine is
  settled; a retired fiber never returns; the indices and declarations of records stay true; resolution,
  publication, withdrawal and reconciliation do what they promise; a plugin's listeners vanish with it; a session can be restored from its
  log; a projection is the fold of the log; the goal service computes the abstract goal; a turn of the
  agent loop is bracketed, answers its tool calls and ends; no driver is driven twice; a tool registration is local
  and revocable, a denial final; job ids are unique and bounded in number; the chunks of a model call keep
  their contract and are assembled into the answer however the network cuts it; retries are bounded and end;
  a flushed session is read back as it was written, and a crash loses events from its end only;
  goal rounds are scheduled one loop per session and fenced by the live goal;
  a prompt takes the innermost contribution of each name and interpolates exactly its references; a text filter
  matches exactly the texts that spell its words, pages of a search make up its whole result, and a lineage is
  traced unless its links are cyclic. Findings that
  contradict a comment or an intention are lemmas too.

  MODELLING DECISIONS. The release build is modelled: \<open>ARAYA_ASSERT\<close> becomes the ghost list \<open>rt_violated\<close>, with
  two further recorded hazards (a gate waited for twice, a record erased under a running frame). An apply
  coroutine is two environment steps, its start and its completion. Plugin code enters as parameters of the
  descriptor; a factory is assumed not to throw. \<open>notify\<close> iterates over the
  watchers there are when it starts, where the code iterates over the live set: the result is the same, since
  no frame adds a watcher, a watcher that was erased meanwhile is passed over, and ids are not reused. \<open>reconcile\<close> is suspended on gates and resumed, and mounts as posted tasks. A null descriptor in
  the desired tree counts as a different implementation. Effects added to an activation that is already
  torn down stay unperformed. The destructor is \<open>stamp_retired\<close>, \<open>unload_all\<close>, \<open>drop_fibers\<close>, outside
  \<open>engine_step\<close>. Fiber ids are natural numbers; sequence numbers, revisions and times are 64-bit words,
  times compared signed. Projection and message folds are functions, assumed not to throw; the texts of
  session and goal errors are replaced by constructors and codes, except for the replay failures the
  projection stores. The agent loop's theorems bound the environment where they need to: that it writes no
  turn boundary, returns and gives up retrying, keeps the drives in progress.

  Of the wire layer, the JSON text, HTTP dates, conversions between numbers, the random jitter and the sockets
  are parameters; a consumer accepts every chunk; \<open>std::sort\<close> is a sort on the whole key of its comparison, so
  that elements that compare equal keep their order; moved-from texts are empty. The closures of the prompt
  registry may throw but change nothing else.

  NOT MODELLED. \<open>wait_idle\<close>, \<open>run_on_strand\<close> and the \<open>_async\<close> variants, which only hop onto the strand; logging;
  the executors, threads and coroutines behind the strand; the loading of shared objects; the other
  plugins (processes, networks, databases, terminals) and the applications, which PROJECT.json lists.
\<close>

section \<open>The cascade\<close>

text \<open>
  One step of the call stack, as a relation: a frame runs up to its next calls, which go on top of the
  stack.
\<close>

inductive cascade_step :: "frame list \<times> runtime \<Rightarrow> frame list \<times> runtime \<Rightarrow> bool" where
  "exec c s = (fs, s') \<Longrightarrow> cascade_step (c # cs, s) (fs @ cs, s')"

lemma cascade_step_decreases: "cascade_step p q \<Longrightarrow> (q, p) \<in> cascade_measures"
  by (induction rule: cascade_step.induct) (auto intro: exec_decreases [OF sym])

lemma cascade_measures_wf: "wf cascade_measures"
  by (simp add: cascade_measures_def)

lemma cascade_reaches_run: "cascade_step\<^sup>*\<^sup>* (cs, s) ([], run cs s)"
proof (induction cs s rule: run.induct)
  case (2 c cs s)
  obtain fs s' where e: "exec c s = (fs, s')" by force
  from cascade_step.intros [OF e, of cs] 2 [OF e [symmetric] refl] run_step [OF e, of cs]
  show ?case by (metis converse_rtranclp_into_rtranclp)
qed simp

text \<open>
  C1. Every cascade ends. Whatever the state it starts in, the mutual recursion of \<open>evaluate\<close>,
  \<open>start_loading\<close>, \<open>begin_unload\<close>, \<open>finish_unload\<close> and \<open>notify\<close> has no infinite run, and the one run
  it has ends with an empty call stack in the state \<open>run\<close> computes.
\<close>

theorem cascade_terminates:
  "(\<nexists>p. \<forall>n. cascade_step (p n) (p (Suc n))) \<and> cascade_step\<^sup>*\<^sup>* (cs, s) ([], run cs s)"
proof
  show "\<nexists>p. \<forall>n. cascade_step (p n) (p (Suc n))"
  proof
    assume "\<exists>p. \<forall>n. cascade_step (p n) (p (Suc n))"
    then obtain p where "\<forall>n. (p (Suc n), p n) \<in> cascade_measures" using cascade_step_decreases by blast
    then show False using cascade_measures_wf by (auto simp: wf_iff_no_infinite_down_chain)
  qed
  show "cascade_step\<^sup>*\<^sup>* (cs, s) ([], run cs s)" by (rule cascade_reaches_run)
qed

section \<open>Quiescence\<close>

lemma state_count_zero:
  assumes "om_sorted (rt_fibers s)"
  shows "state_count P s = 0 \<longleftrightarrow> (\<forall>i f. find_fiber s i = Some f \<longrightarrow> \<not> P (f_state f))"
proof -
  have "sum_list (map ((\<lambda>f. if P (f_state f) then 1 else 0) \<circ> snd) m) = (0::nat) \<longleftrightarrow>
      (\<forall>(i, f) \<in> set m. \<not> P (f_state f))" for m :: "(fiber_id, fiber) omap"
    by (induction m) auto
  then have "state_count P s = 0 \<longleftrightarrow> (\<forall>(i, f) \<in> set (rt_fibers s). \<not> P (f_state f))"
    by (simp add: state_count_def)
  also have "\<dots> \<longleftrightarrow> (\<forall>i f. find_fiber s i = Some f \<longrightarrow> \<not> P (f_state f))"
    unfolding find_fiber_def map_of_mem [OF assms, symmetric] by auto
  finally show ?thesis .
qed

text \<open>
  C2. Quiescence: as long as no fiber's gate is opened while it unloads (the hazard recorded by
  \<open>finish_tail\<close>), \<open>settled()\<close>, the predicate \<open>wait_idle\<close> waits for, holds exactly when no mounted fiber is
  loading or unloading; and the idle gate is open exactly then. The counter neither leaks a transition
  nor runs out early, whatever the interleaving of mounts, retirements, reconciles, completions and signals.
\<close>

theorem idle_means_settled:
  assumes "reachable s" and "gate_hazard \<notin> set (rt_violated s)"
  shows "(settled s \<longleftrightarrow> (\<forall>i. state_of s i \<noteq> Loading \<and> state_of s i \<noteq> Unloading)) \<and> (rt_idle_open s \<longleftrightarrow> settled s)"
proof -
  from reachable_quiescent [OF assms(1)] assms(2) have inv: "counted [] s" "erase_safe [] s"
    by (simp_all add: quiescent_inv_def)
  from inv(2) have "om_sorted (rt_fibers s)" by (simp add: erase_safe_def)
  from state_count_zero [OF this, of in_transit] inv(1)
  have "settled s \<longleftrightarrow> (\<forall>i f. find_fiber s i = Some f \<longrightarrow> \<not> in_transit (f_state f))"
    by (simp add: counted_def settled_def)
  also have "\<dots> \<longleftrightarrow> (\<forall>i. state_of s i \<noteq> Loading \<and> state_of s i \<noteq> Unloading)"
    by (auto simp: state_of_def in_transit_def split: option.split)
  finally show ?thesis using inv(1) by (simp add: counted_def settled_def)
qed

theorem idle_means_settled_witness:
  "(settled provider_loading \<longleftrightarrow> (\<forall>i. state_of provider_loading i \<noteq> Loading \<and> state_of provider_loading i \<noteq> Unloading)) \<and>
   (rt_idle_open provider_loading \<longleftrightarrow> settled provider_loading)"
proof (rule idle_means_settled [OF reachable_provider_loading])
  show "gate_hazard \<notin> set (rt_violated provider_loading)" by code_simp
qed

lemma going_star: "engine_step\<^sup>*\<^sup>* s s' \<Longrightarrow> going i s \<Longrightarrow> going i s'"
  by (induction rule: rtranclp_induct) (use engine_step_safe in \<open>auto simp: safe_step_def\<close>)

text \<open>
  C3. Retirement is final: once \<open>retire\<close> has run for a mounted fiber, no sequence of further handlers
  (cascades, re-evaluations, reconciles, late completions of its apply) brings it back to loading or
  active. It is inactive, erased, or on its way out.
\<close>

theorem retirement_is_final:
  assumes "reachable s" and "find_fiber s i = Some f" and "engine_step\<^sup>*\<^sup>* (retire i s) s'"
  shows "state_of s' i = Inactive \<or> state_of s' i = Unloading"
proof -
  from reachable_indexed [OF assms(1)] assms(2) have "i < rt_next_id s" by (auto simp: indexed_def)
  then have "going i (retire i s)" by (rule retire_starts_going [OF assms(2)])
  with going_star [OF assms(3)] have "going i s'" by blast
  then show ?thesis by (auto simp: going_def state_of_def split: option.split)
qed

theorem retirement_is_final_witness:
  "state_of (retire 2 pair_active) 2 = Inactive \<or> state_of (retire 2 pair_active) 2 = Unloading"
proof -
  have "find_fiber pair_active 2 \<noteq> None" by code_simp
  then obtain f where "find_fiber pair_active 2 = Some f" by blast
  from retirement_is_final [OF reachable_pair_active this rtranclp.rtrancl_refl] show ?thesis .
qed

section \<open>Records and indices\<close>

text \<open>
  C4. Record hygiene, clause by clause of \<open>validate_invariants\<close>: in every reachable state a record's
  keys are the ones its descriptor declares (declaration immutability), an inactive fiber has no
  committed view, and the indices list exactly mounted fibers and miss none of their keys.
\<close>

theorem records_valid:
  assumes "reachable s"
  shows "(\<forall>i f. find_fiber s i = Some f \<longrightarrow> valid_declarations f \<and> (f_state f = Inactive \<longrightarrow> f_committed f = [])) \<and>
     valid_index s f_inject_keys (rt_consumers_of s) \<and> valid_index s f_provide (rt_providers_of s)"
proof -
  have "valid_declarations f \<and> (f_state f = Inactive \<longrightarrow> f_committed f = [])" if "find_fiber s i = Some f" for i f
    using declarations.reachable_records [OF assms that] hygiene.reachable_records [OF assms that]
    by (simp add: hygienic_def)
  with indexed_ok [OF reachable_indexed [OF assms]] show ?thesis by (auto simp: index_ok_def)
qed

theorem records_valid_witness:
  "\<exists>f. find_fiber parked 2 = Some f \<and> valid_declarations f \<and> f_committed f = [] \<and>
     valid_index parked f_inject_keys (rt_consumers_of parked) \<and> valid_index parked f_provide (rt_providers_of parked)"
proof -
  have "map_option f_state (find_fiber parked 2) = Some Inactive" by code_simp
  then obtain f where "find_fiber parked 2 = Some f" "f_state f = Inactive" by auto
  with records_valid [OF reachable_parked] show ?thesis by blast
qed

text \<open>
  What a handle reads: the shared cell's outcome is published exactly while the cell says
  inactive, and the cell's state is the record's, except for a fiber that has never begun to load,
  whose cell still reads loading.
\<close>

theorem handle_mirrors:
  assumes "reachable s" and "find_fiber s i = Some f"
  shows "(f_completed f \<longleftrightarrow> f_cell_state f = Inactive) \<and>
     (f_cell_state f = f_state f \<or> f_state f = Inactive \<and> f_cell_state f = Loading)"
  using mirror.reachable_records [OF assms] by (simp add: cell_mirrors_def)

theorem handle_mirrors_witness:
  "\<exists>f. find_fiber provider_loading 2 = Some f \<and> (f_completed f \<longleftrightarrow> f_cell_state f = Inactive) \<and>
     (f_cell_state f = f_state f \<or> f_state f = Inactive \<and> f_cell_state f = Loading)"
proof -
  have "find_fiber provider_loading 2 \<noteq> None" by code_simp
  then obtain f where f: "find_fiber provider_loading 2 = Some f" by blast
  with handle_mirrors [OF reachable_provider_loading f] show ?thesis by blast
qed

section \<open>Activation\<close>

text \<open>
  C5. Resolution, against its specification. A fiber's declarations are satisfiable exactly when every
  required key has a usable binding in view (present, active, available, and not the fiber's own);
  then the providers are, for each declared key, the provider of that binding. Otherwise the error
  names the first required key without one.
\<close>

theorem resolve_correct:
  "case find (\<lambda>d. snd d \<and> \<not> usable s i f (fst d)) (f_inject f) of
     Some d \<Rightarrow> \<not> rs_satisfiable (resolve s i f) \<and> rs_error (resolve s i f) = Some (ResolutionError (fst d))
   | None \<Rightarrow> rs_satisfiable (resolve s i f) \<and> rs_error (resolve s i f) = None \<and>
       map_of (rs_providers (resolve s i f)) k =
         (if k \<in> fst ` set (f_inject f) \<and> usable s i f k
          then map_option bprovider (lookup (rt_store s) (f_scope f) k) else None) \<and>
       map_of (rs_bindings (resolve s i f)) k =
         (if k \<in> fst ` set (f_inject f) \<and> usable s i f k then lookup (rt_store s) (f_scope f) k else None)"
  using resolve_loop_blocked [of "rt_store s" "f_scope f" i "f_inject f"
      "\<lparr>rs_satisfiable = True, rs_providers = [], rs_bindings = [], rs_error = None\<rparr>" k]
  unfolding blocked_usable [of s f i] resolvable_usable
  by (cases "find (\<lambda>d. snd d \<and> \<not> usable s i f (fst d)) (f_inject f)") (auto simp: resolve_def)

text \<open>
  A cascade only unloads and reloads: a fiber that is active when a cascade ends was active when
  it began. Activation comes from a completed apply alone.
\<close>

theorem cascade_activates_nothing:
  assumes "state_of (run cs s) i = Active"
  shows "state_of s i = Active"
  using assms by (rule run_activates_nothing)

theorem cascade_activates_nothing_witness:
  "state_of (run [FEvaluate 4] pair_active) 4 = Active \<and> state_of pair_active 4 = Active"
proof -
  have a: "state_of (run [FEvaluate 4] pair_active) 4 = Active" by code_simp
  from cascade_activates_nothing [OF a] a show ?thesis by blast
qed

text \<open>
  Publication is guarded: if the handler of a completed apply leaves a fiber active that was not,
  then it is the fiber whose apply completed, the apply did not throw, its stop was not requested, it
  was still loading, and every provider it had committed to was still active and available.
\<close>

theorem publication_guarded:
  assumes "state_of (on_apply_completed i thrown s) j = Active" and "state_of s j \<noteq> Active"
  shows "j = i \<and> thrown = None \<and>
     (\<exists>f. find_fiber s i = Some f \<and> f_state f = Loading \<and> \<not> f_stop f \<and> providers_still_active s f)"
  using assms by (rule completed_activates)

theorem publication_guarded_witness:
  "\<exists>f. find_fiber (provided 1 key_a provider_loading) 2 = Some f \<and> f_state f = Loading \<and> \<not> f_stop f \<and>
       providers_still_active (provided 1 key_a provider_loading) f"
proof -
  have "state_of (on_apply_completed 2 None (provided 1 key_a provider_loading)) 2 = Active" by code_simp
  moreover have "state_of (provided 1 key_a provider_loading) 2 \<noteq> Active" by code_simp
  ultimately show ?thesis using publication_guarded by blast
qed

section \<open>Scopes\<close>

text \<open>
  A provision is visible: binding a key in a scope succeeds whenever its pass-through scopes have
  parents, the binding is then what the scope looks up under the key, in the realm the scope has for it,
  and no lookup of another key changes, from any scope.
\<close>

theorem bind_then_lookup:
  assumes "store_wf cs" and "pass_parented cs" and "pass_empty cs" and "i < length cs"
  shows "\<exists>cs'. bind_service i k b cs = Some cs' \<and> lookup cs' i k = Some b \<and>
     (\<forall>j k'. k' = k \<or> lookup cs' j k' = lookup cs j k')"
proof -
  from bind_defined [OF assms(1,2,4)] obtain cs' where b: "bind_realm i k (realm_for cs i k) b cs = Some cs'"
    by (auto simp: bind_realm_def)
  have "lookup cs' j k' = lookup cs j k'" if "k' \<noteq> k" for j k'
    using lookup_slot_other(1) [OF _ b, of k'] that by (simp add: lookup_def lookup_realm_def realm_for_bind [OF b])
  moreover have "lookup cs' i k = Some b"
    using lookup_after_bind [OF b assms(3,4,1)] by (simp add: lookup_def realm_for_bind [OF b])
  ultimately show ?thesis using b by (auto simp: bind_service_def)
qed

definition demo_store :: store where
  "demo_store = (let (cs, r) = make_root []; (cs, p) = make_context r True cs in isolate p key_a ''blue'' cs)"

theorem bind_then_lookup_witness:
  "\<exists>cs'. bind_service 1 key_a \<lparr>bvalue = Some 5, bprovider = 2, bstate = PActive, bavailable = True\<rparr> demo_store = Some cs' \<and>
     lookup cs' 1 key_a = Some \<lparr>bvalue = Some 5, bprovider = 2, bstate = PActive, bavailable = True\<rparr> \<and>
     (\<forall>j k'. k' = key_a \<or> lookup cs' j k' = lookup demo_store j k')"
  by (rule bind_then_lookup)
     (auto simp: demo_store_def store_wf_def pass_parented_def pass_empty_def make_root_def make_context_def
       empty_scope_def isolate_def update_scope_def nth_list_update nth_append less_Suc_eq)

text \<open>
  Withdrawal restores what was there: binding a key that the target scope does not hold in that
  realm, and unbinding it again, leaves every lookup from every scope as it was, for every key and realm.
\<close>

theorem provision_round_trip:
  assumes "bind_service i k b cs = Some cs'" and "bind_target cs i = Some t"
    and "map_of (sc_bindings (scope_at cs t)) (scope_key k (realm_for cs i k)) = None"
  shows "lookup_slot (unbind i k cs') j k' r = lookup_slot cs j k' r \<and> realm_for (unbind i k cs') j k' = realm_for cs j k'"
proof -
  let ?key = "scope_key k (realm_for cs i k)"
  let ?g = "\<lambda>sc. sc\<lparr>sc_bindings := om_insert ?key b (sc_bindings sc)\<rparr>"
  let ?f = "\<lambda>sc. sc\<lparr>sc_bindings := om_erase ?key (sc_bindings sc)\<rparr>"
  from assms(1) have b: "bind_realm i k (realm_for cs i k) b cs = Some cs'" by (simp add: bind_service_def)
  then have cs': "cs' = update_scope t ?g cs" using assms(2) by (simp add: bind_realm_def)
  have "bind_target cs' i = Some t" by (simp add: cs' bind_target_update assms(2))
  then have u: "unbind i k cs' = update_scope t ?f cs'"
    by (simp add: unbind_def unbind_realm_def realm_for_bind [OF b])
  have "lookup_slot (unbind i k cs') j k' r = lookup_slot cs j k' r"
    unfolding lookup_slot_def u chain_update [of ?f, simplified] chain_bind [OF b]
    by (rule first_in_cong) (use assms(3) in \<open>auto simp: cs'\<close>)
  then show ?thesis by (simp add: unbind_def realm_for_bind [OF b])
qed

theorem provision_round_trip_witness:
  "\<exists>cs'. bind_service 1 key_a \<lparr>bvalue = Some 5, bprovider = 2, bstate = PActive, bavailable = True\<rparr> demo_store = Some cs' \<and>
     lookup_slot (unbind 1 key_a cs') 0 key_a ''blue'' = lookup_slot demo_store 0 key_a ''blue''"
proof -
  let ?b = "\<lparr>bvalue = Some 5, bprovider = 2, bstate = PActive, bavailable = True\<rparr>"
  have t: "bind_target demo_store 1 = Some 0" by code_simp
  have e: "map_of (sc_bindings (scope_at demo_store 0)) (scope_key key_a (realm_for demo_store 1 key_a)) = None" by code_simp
  from t obtain cs' where b: "bind_service 1 key_a ?b demo_store = Some cs'" by (auto simp: bind_service_def bind_realm_def)
  from provision_round_trip [OF b t e, of 0 key_a "''blue''"] b show ?thesis by blast
qed

section \<open>Teardown\<close>

text \<open>
  C6. Teardown runs what is owed, once, in reverse: tearing an activation down performs its
  unreleased cleanups from the last registered to the first, keeps the first failure while the rest
  still run, and leaves no cleanup behind, so that tearing it down again performs nothing.
\<close>

theorem teardown_unwinds:
  assumes "find_act s a = Some act" and "act_state act \<noteq> Inactive"
  shows "\<exists>err s'. unwind run_cleanup (rev (pending (act_effects act))) (es_error (act_effects act)) s = (err, s') \<and>
     teardown a s = set_act a (\<lambda>x. x\<lparr>act_effects := \<lparr>es_entries = [], es_error = err\<rparr>,
                                     act_error := (if act_error x = None then err else act_error x)\<rparr>)
                      (log_event (TornDown (act_id act)) s')"
proof -
  obtain st s' where r: "run_all run_cleanup (act_effects act) s = (st, s')" by force
  from run_all_unwind [OF r] have u: "unwind run_cleanup (rev (pending (act_effects act))) (es_error (act_effects act)) s = (es_error st, s')"
    and "es_entries st = []" by simp_all
  then obtain err where st: "st = \<lparr>es_entries = [], es_error = err\<rparr>" by (cases st) auto
  have "teardown a s = set_act a (\<lambda>x. x\<lparr>act_effects := st,
             act_error := (if act_error x = None then es_error st else act_error x)\<rparr>) (log_event (TornDown (act_id act)) s')"
    using assms r by (simp add: teardown_def araya_assert_def Let_def)
  with u show ?thesis unfolding st by (simp cong: if_cong)
qed

theorem teardown_unwinds_witness:
  "\<exists>err s' act. find_act (provided 1 key_a provider_loading) 1 = Some act \<and>
     unwind run_cleanup (rev (pending (act_effects act))) (es_error (act_effects act)) (provided 1 key_a provider_loading) = (err, s')"
proof -
  let ?s = "provided 1 key_a provider_loading"
  have "map_option act_state (find_act ?s 1) = Some Loading" by code_simp
  then obtain act where act: "find_act ?s 1 = Some act" "act_state act \<noteq> Inactive" by auto
  from teardown_unwinds [OF act] act show ?thesis by blast
qed

text \<open>
  A registration releases once: after \<open>release\<close> the registration is inert, so a second release
  changes nothing, and the released cleanup is not among those a later teardown performs.
\<close>

theorem release_once:
  assumes "reg_index reg < length (es_entries st)" and "reg_active reg"
    and "es_entries st ! reg_index reg = (c, False)" and "release perform reg st w = (reg', st', w')"
  shows "release perform reg' st' w' = (reg', st', w') \<and>
     pending st' = map fst (filter (\<lambda>(a, released). \<not> released)
                     (take (reg_index reg) (es_entries st) @ drop (Suc (reg_index reg)) (es_entries st)))"
proof
  show "release perform reg' st' w' = (reg', st', w')" by (rule release_idempotent [OF assms(4)])
  have "st' = fst (run_entry perform (reg_index reg) st w)"
    using assms(2,4) by (auto simp: release_def split: prod.splits)
  with pending_run_entry [OF assms(1,3), of perform w]
  show "pending st' = map fst (filter (\<lambda>(a, released). \<not> released)
                     (take (reg_index reg) (es_entries st) @ drop (Suc (reg_index reg)) (es_entries st)))" by simp
qed

theorem release_once_witness:
  "\<exists>reg' st' w'. release run_cleanup \<lparr>reg_index = 0, reg_active = True\<rparr>
       \<lparr>es_entries = [(RemoveListener key_a 3, False), (RemoveListener key_b 4, False)], es_error = None\<rparr> (init_runtime 1)
     = (reg', st', w') \<and> pending st' = [RemoveListener key_b 4]"
proof -
  let ?st = "\<lparr>es_entries = [(RemoveListener key_a 3, False), (RemoveListener key_b 4, False)], es_error = None :: fiber_error option\<rparr>"
  obtain reg' st' w' where r: "release run_cleanup \<lparr>reg_index = 0, reg_active = True\<rparr> ?st (init_runtime 1) = (reg', st', w')"
    by (metis prod_cases3)
  from release_once [OF _ _ _ r, of "RemoveListener key_a 3"] r show ?thesis by simp
qed

section \<open>Diagnostics\<close>

text \<open>
  The single-source scan is exact: it reports a conflict for precisely the slots (scope, realm, key)
  with at least two providing fibers, naming all of them.
\<close>

theorem conflict_scan_exact:
  "set (rt_reported (scan_conflicts s)) =
     set (rt_reported s) \<union>
     {conflict_signature sl (slot_providers s sl) | sl. length (slot_providers s sl) \<ge> 2}"
  by (rule reported_conflicts)

text \<open>
  Each signature is reported once: a diagnosis keeps the diagnostics sent to the sink distinct by
  signature, and diagnosing again sends nothing and changes nothing.
\<close>

theorem diagnose_once:
  assumes "reported_once s"
  shows "reported_once (diagnose c s) \<and> diagnose c (diagnose c s) = diagnose c s"
proof
  show "reported_once (diagnose c s)"
    unfolding diagnose_emissions by (rule reported_once_emit_all [OF assms])
  have "emissions c (diagnose c s) = emissions c s"
    using emissions_cong [OF undiagnosed_diagnose [of c s]] by (cases c) (simp_all add: emissions_def)
  then show "diagnose c (diagnose c s) = diagnose c s"
    unfolding diagnose_emissions [of c "diagnose c s"]
    by (simp add: emit_all_known diagnose_emissions reported_emit_all)
qed

theorem diagnose_once_witness:
  "diagnose True (diagnose True pair_active) = diagnose True pair_active"
proof -
  have "rt_diagnostics pair_active = []" by code_simp
  then have "reported_once pair_active" by (simp add: reported_once_def)
  from diagnose_once [OF this] show ?thesis by blast
qed

section \<open>Findings\<close>

text \<open>
  C7. Ordered withdrawal can break. Fiber 4 committed two keys of fiber 2, fiber 6 one; all three are
  active and no assertion has fired. Retiring fiber 2 releases fiber 4's two edges one by one, decrements
  the guard of fiber 2 twice, and tears fiber 2 down (unbinding the key fiber 6 is using) before fiber 6.
\<close>

theorem double_edge_breaks_withdrawal:
  "reachable two_keys \<and> state_of two_keys 6 = Active \<and> committed_to two_keys 6 2 \<and> rt_violated two_keys = [] \<and>
   rt_trace (retire 2 two_keys) = rt_trace two_keys @
     [TornDown 4, CleanupRan (Unprovide 0 key_b 2), CleanupRan (Unprovide 0 key_a 2), TornDown 2, TornDown 6] \<and>
   ''erased == 1'' \<in> set (rt_violated (retire 2 two_keys))"
proof -
  have "rt_trace (retire 2 two_keys) = rt_trace two_keys @
     [TornDown 4, CleanupRan (Unprovide 0 key_b 2), CleanupRan (Unprovide 0 key_a 2), TornDown 2, TornDown 6]" by code_simp
  moreover have "''erased == 1'' \<in> set (rt_violated (retire 2 two_keys))" by code_simp
  ultimately show ?thesis using reachable_two_keys two_keys_active by blast
qed

text \<open>
  A restarted fiber can be cancelled by its own unload. Fiber 4 depends on fiber 2 optionally and
  serves fiber 6. Retiring fiber 2 unloads fiber 6, then fiber 4, restarts fiber 4 without the optional
  key, and only then returns to the request_stop of fiber 4's unload, which stops the new activation: its
  apply completes without an error, and the fiber ends inactive with a cancellation, not retired, with
  satisfiable declarations and no transition in flight.
\<close>

theorem restart_is_cancelled:
  "reachable optional_chain \<and> rt_violated (retire 2 optional_chain) = [] \<and>
   state_of (retire 2 optional_chain) 4 = Loading \<and>
   (let s = on_apply_completed 4 None (retire 2 optional_chain)
    in state_of s 4 = Inactive \<and> error_of s 4 = Some CancelledBeforeActive \<and> settled s \<and>
       (case find_fiber s 4 of None \<Rightarrow> False | Some f \<Rightarrow> rs_satisfiable (resolve s 4 f) \<and> f_reactivate f = 0))"
proof -
  have "rt_violated (retire 2 optional_chain) = []" by code_simp
  moreover have "state_of (retire 2 optional_chain) 4 = Loading" by code_simp
  moreover have "let s = on_apply_completed 4 None (retire 2 optional_chain)
    in state_of s 4 = Inactive \<and> error_of s 4 = Some CancelledBeforeActive \<and> settled s \<and>
       (case find_fiber s 4 of None \<Rightarrow> False | Some f \<Rightarrow> rs_satisfiable (resolve s 4 f) \<and> f_reactivate f = 0)" by code_simp
  ultimately show ?thesis using reachable_optional_chain by blast
qed

text \<open>
  Three smaller divergences. A host context finds a binding whose provider published it as
  unavailable. A fiber that was mounted but never began to load reads loading through its handle. And
  \<open>validate_invariants\<close> fails in a reachable state: a provider may leave while a fiber committed to it is
  still loading.
\<close>

theorem host_sees_unavailable:
  "reachable unavailable_provider \<and>
   (case find_binding unavailable_provider 0 key_a of Inr (Some b) \<Rightarrow> \<not> bavailable b | _ \<Rightarrow> False) \<and>
   reachable parked \<and> state_of parked 2 = Inactive \<and> map_option f_cell_state (find_fiber parked 2) = Some Loading \<and>
   reachable provider_left \<and> rt_violated provider_left = [] \<and> \<not> validate_invariants provider_left"
proof -
  have "case find_binding unavailable_provider 0 key_a of Inr (Some b) \<Rightarrow> \<not> bavailable b | _ \<Rightarrow> False" by code_simp
  moreover have "state_of parked 2 = Inactive \<and> map_option f_cell_state (find_fiber parked 2) = Some Loading" by code_simp
  moreover have "rt_violated provider_left = [] \<and> \<not> validate_invariants provider_left" by code_simp
  ultimately show ?thesis
    using reachable_unavailable_provider reachable_parked reachable_provider_left by blast
qed

end
